(* ===== verification/Prelude.thy ===== *)
theory Prelude
  imports
    Main
    "HOL-Library.Char_ord"
    "HOL-Library.List_Lexorder"
    "HOL-Library.Product_Lexorder"
    "HOL-Library.Word"
    "HOL-Library.Sorting_Algorithms"
begin

text \<open>
  What every component shares: the machine types, three-way comparison of linearly ordered
  keys (the model of Rust's \<open>Ord::cmp\<close>), decimal printing (the model of
  \<open>format!("{n}")\<close>), and the generic lemmas on lists and options that the component
  proofs use through the collections declared here.
\<close>

section \<open>Machine types\<close>

text \<open>
  An \<open>f64\<close> is its 64-bit pattern: the modelled code stores, copies and returns
  prices and never computes with them. An \<open>i64\<close> is an \<open>int\<close>; where the code can
  leave the 64-bit range the range check or the wrap-around is written out.
\<close>

type_synonym i64 = int
type_synonym f64 = "64 word"
type_synonym u32 = "32 word"

definition i64_min :: int where
  "i64_min = - (2 ^ 63)"

definition i64_max :: int where
  "i64_max = 2 ^ 63 - 1"

definition in_i64 :: "int \<Rightarrow> bool" where
  "in_i64 v \<longleftrightarrow> i64_min \<le> v \<and> v \<le> i64_max"

definition wrap_i64 :: "int \<Rightarrow> int" where
  "wrap_i64 v = (v + 2 ^ 63) mod 2 ^ 64 - 2 ^ 63"

lemma wrap_i64_id [simp]: "in_i64 v \<Longrightarrow> wrap_i64 v = v"
  by (simp add: in_i64_def wrap_i64_def i64_min_def i64_max_def)

lemma wrap_i64_range: "in_i64 (wrap_i64 v)"
proof -
  have "0 \<le> (v + 2 ^ 63) mod 2 ^ 64" "(v + 2 ^ 63) mod 2 ^ 64 < 2 ^ 64" by simp_all
  then show ?thesis
    unfolding in_i64_def wrap_i64_def i64_min_def i64_max_def by simp
qed

section \<open>Collections of rewrite rules\<close>

named_theorems text_defs \<open>definitions of the string operations, for evaluation\<close>
named_theorems act_defs \<open>definitions of the database actions and their combinators\<close>
named_theorems frame_simps \<open>what an action leaves unchanged\<close>

section \<open>Three-way comparison\<close>

definition cmp_of :: "'a::linorder \<Rightarrow> 'a \<Rightarrow> comp" where
  "cmp_of x y = (if x < y then Less else if x = y then Equiv else Greater)"

lemma cmp_of_simps [simp]:
  "cmp_of x y = Less \<longleftrightarrow> x < y"
  "cmp_of x y = Equiv \<longleftrightarrow> x = y"
  "cmp_of x y = Greater \<longleftrightarrow> y < x"
  "cmp_of x x = Equiv"
  by (auto simp: cmp_of_def)

text \<open>Rust's \<open>Ordering::then_with\<close>.\<close>

fun then_with :: "comp \<Rightarrow> comp \<Rightarrow> comp" where
  "then_with Equiv c = c"
| "then_with c _ = c"

lemma then_with_cmp_of: "then_with (cmp_of a b) (cmp_of c d) = cmp_of (a, c) (b, d)"
  by (auto simp: cmp_of_def less_prod_def)

lemma comparator_cmp_of: "comparator (\<lambda>x y. cmp_of (f x) (f y))"
  by unfold_locales auto

section \<open>Decimal printing\<close>

fun nat_digits :: "nat \<Rightarrow> string" where
  "nat_digits n = (if n < 10 then [char_of (48 + n)]
                   else nat_digits (n div 10) @ [char_of (48 + n mod 10)])"

declare nat_digits.simps [simp del]

definition show_nat :: "nat \<Rightarrow> string" where
  "show_nat n = nat_digits n"

definition show_int :: "int \<Rightarrow> string" where
  "show_int i = (if i < 0 then CHR ''-'' # nat_digits (nat (- i)) else nat_digits (nat i))"

section \<open>Results\<close>

text \<open>The \<open>?\<close> operator on \<open>Result\<close>: the error ends the caller.\<close>

definition and_then :: "'e + 'a \<Rightarrow> ('a \<Rightarrow> 'e + 'b) \<Rightarrow> 'e + 'b" where
  "and_then r k = (case r of Inl e \<Rightarrow> Inl e | Inr v \<Rightarrow> k v)"

lemma and_then_simps [simp]: "and_then (Inl e) k = Inl e" "and_then (Inr v) k = k v"
  by (simp_all add: and_then_def)

lemma and_then_Inr: "and_then r k = Inr w \<longleftrightarrow> (\<exists>v. r = Inr v \<and> k v = Inr w)"
  by (cases r) auto

lemma and_then_Inl: "and_then r k = Inl e \<longleftrightarrow> r = Inl e \<or> (\<exists>v. r = Inr v \<and> k v = Inl e)"
  by (cases r) auto

text \<open>\<open>format!("'{s}'")\<close>.\<close>

definition quoted :: "string \<Rightarrow> string" where
  "quoted s = [CHR 0x27] @ s @ [CHR 0x27]"

section \<open>Lists and options\<close>

lemma find_append: "List.find P (xs @ ys) = (case List.find P xs of None \<Rightarrow> List.find P ys | Some x \<Rightarrow> Some x)"
  by (induction xs) auto

lemma find_Some_D: "List.find P xs = Some x \<Longrightarrow> x \<in> set xs \<and> P x"
  by (induction xs) (auto split: if_splits)

lemma find_None_D: "List.find P xs = None \<Longrightarrow> x \<in> set xs \<Longrightarrow> \<not> P x"
  by (induction xs) (auto split: if_splits)

lemma find_map_id:
  "(\<And>r. k (f r) = k r) \<Longrightarrow> List.find (\<lambda>r. k r = i) (map f xs) = map_option f (List.find (\<lambda>r. k r = i) xs)"
  by (induction xs) auto

lemma find_filter:
  "(\<And>r. P r \<Longrightarrow> Q r) \<Longrightarrow> List.find P (filter Q xs) = List.find P xs"
  by (induction xs) auto

fun coalesce :: "'a option \<Rightarrow> 'a option \<Rightarrow> 'a option" where
  "coalesce (Some x) _ = Some x"
| "coalesce None y = y"

text \<open>SQL \<open>COALESCE(?n, column)\<close> on a NOT NULL column.\<close>

definition keep :: "'a option \<Rightarrow> 'a \<Rightarrow> 'a" where
  "keep new old = (case new of None \<Rightarrow> old | Some v \<Rightarrow> v)"

lemma keep_simps [simp]: "keep None old = old" "keep (Some v) old = v"
  by (simp_all add: keep_def)

end
