(* ===== verification/Text.thy ===== *)
theory Text
  imports Prelude
begin

text \<open>
  Rust's \<open>str\<close> as the code uses it. A string is its UTF-8 bytes (a HOL \<open>char\<close> is a byte),
  so offsets and lengths are byte offsets and byte lengths, as they are in the program. A
  Unicode character is the byte list that encodes it (\<open>uchar\<close>). The searching operations
  work on bytes, which is what they do in the program: UTF-8 is self-synchronising.

  Outside ASCII the Unicode property tables (alphabetic, case mapping), the decimal-to-binary
  conversion of \<open>f64\<close> and the \<open>csv\<close> crate's reader are not under \<open>src/\<close>:
  they are the fields of the record \<open>runtime\<close>, an argument of the definitions that use
  them. White space is the closed Unicode list of 25 characters and is defined here.
\<close>

section \<open>Characters\<close>

type_synonym uchar = string

definition is_ascii :: "char \<Rightarrow> bool" where
  "is_ascii c \<longleftrightarrow> (of_char c :: nat) < 128"

definition is_digit :: "char \<Rightarrow> bool" where
  "is_digit c \<longleftrightarrow> (of_char c :: nat) \<in> {48..57}"

definition is_upper :: "char \<Rightarrow> bool" where
  "is_upper c \<longleftrightarrow> (of_char c :: nat) \<in> {65..90}"

definition is_lower :: "char \<Rightarrow> bool" where
  "is_lower c \<longleftrightarrow> (of_char c :: nat) \<in> {97..122}"

definition is_alpha :: "char \<Rightarrow> bool" where
  "is_alpha c \<longleftrightarrow> is_upper c \<or> is_lower c"

definition is_alnum :: "char \<Rightarrow> bool" where
  "is_alnum c \<longleftrightarrow> is_alpha c \<or> is_digit c"

definition ascii_lower :: "char \<Rightarrow> char" where
  "ascii_lower c = (if is_upper c then char_of ((of_char c :: nat) + 32) else c)"

definition ascii_upper :: "char \<Rightarrow> char" where
  "ascii_upper c = (if is_lower c then char_of ((of_char c :: nat) - 32) else c)"

definition digit_val :: "char \<Rightarrow> nat" where
  "digit_val c = of_char c - 48"

text \<open>The number of bytes of the character that starts with the byte \<open>c\<close>.\<close>

definition utf8_width :: "char \<Rightarrow> nat" where
  "utf8_width c = (let b = (of_char c :: nat) in
     if b < 128 then 1 else if b < 224 then 2 else if b < 240 then 3 else 4)"

fun chars :: "string \<Rightarrow> uchar list" where
  "chars [] = []"
| "chars (c # cs) = (c # take (utf8_width c - 1) cs) # chars (drop (utf8_width c - 1) cs)"

definition whitespace_codes :: "nat list list" where
  "whitespace_codes =
     [[9], [10], [11], [12], [13], [32], [194, 133], [194, 160], [225, 154, 128],
      [226, 128, 128], [226, 128, 129], [226, 128, 130], [226, 128, 131], [226, 128, 132],
      [226, 128, 133], [226, 128, 134], [226, 128, 135], [226, 128, 136], [226, 128, 137],
      [226, 128, 138], [226, 128, 168], [226, 128, 169], [226, 128, 175], [226, 129, 159],
      [227, 128, 128]]"

definition is_whitespace :: "uchar \<Rightarrow> bool" where
  "is_whitespace u \<longleftrightarrow> map of_char u \<in> set whitespace_codes"

section \<open>What is not under src/\<close>

record runtime =
  u_alphabetic :: "uchar \<Rightarrow> bool"          \<comment> \<open>\<open>char::is_alphabetic\<close> outside ASCII\<close>
  u_lower :: "string \<Rightarrow> string"            \<comment> \<open>\<open>str::to_lowercase\<close> of a non-ASCII string\<close>
  u_lower_char :: "uchar \<Rightarrow> string"        \<comment> \<open>\<open>char::to_lowercase\<close> outside ASCII\<close>
  u_upper_char :: "uchar \<Rightarrow> string"        \<comment> \<open>\<open>char::to_uppercase\<close> outside ASCII\<close>
  parse_f64 :: "string \<Rightarrow> f64 option"      \<comment> \<open>\<open>str::parse::<f64>\<close>\<close>
  csv_headers :: "string \<Rightarrow> string + string list"          \<comment> \<open>\<open>csv::Reader::headers\<close>\<close>
  csv_records :: "string \<Rightarrow> (string + string list) list"   \<comment> \<open>\<open>csv::Reader::records\<close>\<close>

definition char_alphabetic :: "runtime \<Rightarrow> uchar \<Rightarrow> bool" where
  "char_alphabetic rt u = (case u of [c] \<Rightarrow> if is_ascii c then is_alpha c else u_alphabetic rt u
                           | _ \<Rightarrow> u_alphabetic rt u)"

definition char_lower :: "runtime \<Rightarrow> uchar \<Rightarrow> string" where
  "char_lower rt u = (case u of [c] \<Rightarrow> if is_ascii c then [ascii_lower c] else u_lower_char rt u
                      | _ \<Rightarrow> u_lower_char rt u)"

definition char_upper :: "runtime \<Rightarrow> uchar \<Rightarrow> string" where
  "char_upper rt u = (case u of [c] \<Rightarrow> if is_ascii c then [ascii_upper c] else u_upper_char rt u
                      | _ \<Rightarrow> u_upper_char rt u)"

definition str_lower :: "runtime \<Rightarrow> string \<Rightarrow> string" where
  "str_lower rt s = (if list_all is_ascii s then map ascii_lower s else u_lower rt s)"

definition to_ascii_lowercase :: "string \<Rightarrow> string" where
  "to_ascii_lowercase s = map ascii_lower s"

definition to_ascii_uppercase :: "string \<Rightarrow> string" where
  "to_ascii_uppercase s = map ascii_upper s"

definition eq_ignore_ascii_case :: "string \<Rightarrow> string \<Rightarrow> bool" where
  "eq_ignore_ascii_case a b \<longleftrightarrow> to_ascii_lowercase a = to_ascii_lowercase b"

section \<open>Trimming, searching, splitting\<close>

definition trim_start :: "string \<Rightarrow> string" where
  "trim_start s = concat (dropWhile is_whitespace (chars s))"

definition trim_end :: "string \<Rightarrow> string" where
  "trim_end s = concat (rev (dropWhile is_whitespace (rev (chars s))))"

definition trim :: "string \<Rightarrow> string" where
  "trim s = concat (rev (dropWhile is_whitespace (rev (dropWhile is_whitespace (chars s)))))"

definition trim_start_char :: "char \<Rightarrow> string \<Rightarrow> string" where
  "trim_start_char c s = dropWhile (\<lambda>x. x = c) s"

definition starts_with :: "string \<Rightarrow> string \<Rightarrow> bool" where
  "starts_with p s \<longleftrightarrow> take (length p) s = p"

definition strip_prefix :: "string \<Rightarrow> string \<Rightarrow> string option" where
  "strip_prefix p s = (if starts_with p s then Some (drop (length p) s) else None)"

definition ends_with :: "string \<Rightarrow> string \<Rightarrow> bool" where
  "ends_with p s \<longleftrightarrow> length p \<le> length s \<and> drop (length s - length p) s = p"

definition strip_suffix :: "string \<Rightarrow> string \<Rightarrow> string option" where
  "strip_suffix p s = (if ends_with p s then Some (take (length s - length p) s) else None)"

fun find_sub :: "string \<Rightarrow> string \<Rightarrow> nat option" where
  "find_sub p [] = (if p = [] then Some 0 else None)"
| "find_sub p (c # cs) =
     (if starts_with p (c # cs) then Some 0 else map_option Suc (find_sub p cs))"

fun find_char :: "char \<Rightarrow> string \<Rightarrow> nat option" where
  "find_char x [] = None"
| "find_char x (c # cs) = (if c = x then Some 0 else map_option Suc (find_char x cs))"

fun rfind_char :: "char \<Rightarrow> string \<Rightarrow> nat option" where
  "rfind_char x [] = None"
| "rfind_char x (c # cs) = (case rfind_char x cs of
      Some i \<Rightarrow> Some (Suc i) | None \<Rightarrow> if c = x then Some 0 else None)"

definition contains :: "string \<Rightarrow> string \<Rightarrow> bool" where
  "contains p s \<longleftrightarrow> find_sub p s \<noteq> None"

definition split_once :: "string \<Rightarrow> string \<Rightarrow> (string \<times> string) option" where
  "split_once p s = (case find_sub p s of None \<Rightarrow> None
                     | Some i \<Rightarrow> Some (take i s, drop (i + length p) s))"

definition rsplit_once :: "char \<Rightarrow> string \<Rightarrow> (string \<times> string) option" where
  "rsplit_once x s = (case rfind_char x s of None \<Rightarrow> None
                      | Some i \<Rightarrow> Some (take i s, drop (Suc i) s))"

fun split_char :: "char \<Rightarrow> string \<Rightarrow> string list" where
  "split_char x [] = [[]]"
| "split_char x (c # cs) = (if c = x then [] # split_char x cs
     else (case split_char x cs of [] \<Rightarrow> [[c]] | w # ws \<Rightarrow> (c # w) # ws))"

fun join :: "string \<Rightarrow> string list \<Rightarrow> string" where
  "join sep [] = []"
| "join sep [w] = w"
| "join sep (w # ws) = w @ sep @ join sep ws"

section \<open>Number parsing\<close>

definition digits_val :: "string \<Rightarrow> nat" where
  "digits_val ds = foldl (\<lambda>n d. 10 * n + digit_val d) 0 ds"

text \<open>\<open>str::parse::<i64>\<close>: an optional sign, then one digit or more, in range.\<close>

definition parse_i64 :: "string \<Rightarrow> int option" where
  "parse_i64 s =
     (let (neg, ds) = (case s of
            c # cs \<Rightarrow> if c = CHR ''-'' then (True, cs) else if c = CHR ''+'' then (False, cs)
                       else (False, s)
          | [] \<Rightarrow> (False, []))
      in if ds = [] \<or> \<not> list_all is_digit ds then None
         else let v = (if neg then - int (digits_val ds) else int (digits_val ds))
              in if in_i64 v then Some v else None)"

text \<open>\<open>str::parse::<u32>\<close>: as above, with no minus sign.\<close>

definition parse_u32 :: "string \<Rightarrow> nat option" where
  "parse_u32 s =
     (let ds = (case s of c # cs \<Rightarrow> if c = CHR ''+'' then cs else s | [] \<Rightarrow> [])
      in if ds = [] \<or> \<not> list_all is_digit ds \<or> digits_val ds \<ge> 2 ^ 32 then None
         else Some (digits_val ds))"

text \<open>
  A concrete runtime to evaluate the model on: nothing alphabetic outside ASCII, case kept
  outside ASCII, one CSV record per line without quoting, decimals read as natural numbers.
\<close>

definition plain_runtime :: runtime where
  "plain_runtime =
     \<lparr>u_alphabetic = (\<lambda>_. False), u_lower = map ascii_lower, u_lower_char = (\<lambda>u. u),
      u_upper_char = (\<lambda>u. u),
      parse_f64 = (\<lambda>s. if s \<noteq> [] \<and> list_all is_digit s then Some (of_nat (digits_val s)) else None),
      csv_headers = (\<lambda>s. case split_char (CHR 0x0A) s of
          line # _ \<Rightarrow> Inr (split_char (CHR '','') line) | [] \<Rightarrow> Inr []),
      csv_records = (\<lambda>s. case split_char (CHR 0x0A) s of
          _ # lines \<Rightarrow> map (\<lambda>l. Inr (split_char (CHR '','') l)) (filter (\<lambda>l. l \<noteq> []) lines)
        | [] \<Rightarrow> [])\<rparr>"

lemmas [text_defs] =
  is_ascii_def is_digit_def is_upper_def is_lower_def is_alpha_def is_alnum_def
  ascii_lower_def ascii_upper_def digit_val_def utf8_width_def whitespace_codes_def
  is_whitespace_def char_alphabetic_def char_lower_def char_upper_def str_lower_def
  to_ascii_lowercase_def to_ascii_uppercase_def eq_ignore_ascii_case_def
  trim_start_def trim_end_def trim_def trim_start_char_def starts_with_def strip_prefix_def
  ends_with_def strip_suffix_def contains_def split_once_def rsplit_once_def
  digits_val_def parse_i64_def parse_u32_def

text \<open>Evaluates \<open>char_of\<close> on a numeral.\<close>

lemma char_of_bits [text_defs]:
  "(char_of (n :: nat) :: char) =
   Char (odd n) (odd (n div 2)) (odd (n div 4)) (odd (n div 8))
        (odd (n div 16)) (odd (n div 32)) (odd (n div 64)) (odd (n div 128))"
  by (simp add: char_of_def bit_iff_odd)

section \<open>Lemmas\<close>

lemma concat_chars [simp]: "concat (chars s) = s"
  by (induction s rule: chars.induct) simp_all

lemma chars_nonempty: "u \<in> set (chars s) \<Longrightarrow> u \<noteq> []"
  by (induction s rule: chars.induct) auto

lemma utf8_width_pos [simp]: "0 < utf8_width c"
  by (simp add: utf8_width_def Let_def)

lemma chars_ascii: "list_all is_ascii s \<Longrightarrow> chars s = map (\<lambda>c. [c]) s"
proof (induction s)
  case (Cons c cs)
  then have "utf8_width c = 1"
    by (simp add: utf8_width_def is_ascii_def Let_def)
  with Cons show ?case by simp
qed simp

lemma list_all_dropWhile: "list_all P xs \<Longrightarrow> list_all P (dropWhile Q xs)"
  by (induction xs) auto

lemma is_digit_ascii: "is_digit c \<Longrightarrow> is_ascii c"
  by (auto simp: is_digit_def is_ascii_def)

lemma is_digit_not_whitespace: "is_digit c \<Longrightarrow> \<not> is_whitespace [c]"
  by (auto simp: is_digit_def is_whitespace_def whitespace_codes_def)

lemma digit_char:
  assumes "d < 10" shows "is_digit (char_of (48 + d))" "digit_val (char_of (48 + d)) = d"
  using assms by (simp_all add: is_digit_def digit_val_def)

lemma nat_digits_rec:
  "10 \<le> n \<Longrightarrow> nat_digits n = nat_digits (n div 10) @ [char_of (48 + n mod 10)]"
  "n < 10 \<Longrightarrow> nat_digits n = [char_of (48 + n)]"
  by (subst nat_digits.simps, simp)+

lemma nat_digits_digits: "list_all is_digit (nat_digits n)"
proof (induction n rule: nat_digits.induct)
  case (1 n)
  show ?case
  proof (cases "n < 10")
    case True
    then show ?thesis by (simp add: nat_digits_rec digit_char)
  next
    case False
    with 1 show ?thesis by (simp add: nat_digits_rec digit_char)
  qed
qed

lemma nat_digits_nonempty [simp]: "nat_digits n \<noteq> []"
  by (subst nat_digits.simps) simp

lemma digits_val_snoc: "digits_val (ds @ [d]) = 10 * digits_val ds + digit_val d"
  by (simp add: digits_val_def)

lemma digits_val_nat_digits [simp]: "digits_val (nat_digits n) = n"
proof (induction n rule: nat_digits.induct)
  case (1 n)
  show ?case
  proof (cases "n < 10")
    case True
    then show ?thesis by (simp add: nat_digits_rec digits_val_def digit_char)
  next
    case False
    with 1 show ?thesis by (simp add: nat_digits_rec digits_val_snoc digit_char)
  qed
qed

lemma nat_digits_hd: "0 < n \<Longrightarrow> hd (nat_digits n) \<noteq> CHR ''0''"
proof (induction n rule: nat_digits.induct)
  case (1 n)
  show ?case
  proof (cases "n < 10")
    case True
    then have "(of_char (char_of (48 + n) :: char) :: nat) = 48 + n" by simp
    moreover have "(of_char (CHR ''0'') :: nat) = 48" by simp
    ultimately have "(char_of (48 + n) :: char) \<noteq> CHR ''0''"
      using \<open>0 < n\<close> by fastforce
    with True show ?thesis by (simp add: nat_digits_rec)
  next
    case False
    with 1 show ?thesis by (simp add: nat_digits_rec hd_append)
  qed
qed

lemma digit_not_sign: "is_digit c \<Longrightarrow> c \<noteq> CHR ''-'' \<and> c \<noteq> CHR ''+''"
  by (auto simp: is_digit_def)

lemma parse_i64_digits:
  "ds \<noteq> [] \<Longrightarrow> list_all is_digit ds \<Longrightarrow>
   parse_i64 ds = (if in_i64 (int (digits_val ds)) then Some (int (digits_val ds)) else None)"
  by (cases ds) (auto simp: parse_i64_def Let_def dest: digit_not_sign)

lemma parse_u32_digits:
  "ds \<noteq> [] \<Longrightarrow> list_all is_digit ds \<Longrightarrow>
   parse_u32 ds = (if digits_val ds < 2 ^ 32 then Some (digits_val ds) else None)"
  by (cases ds) (auto simp: parse_u32_def Let_def dest: digit_not_sign)

lemma parse_show_int: "in_i64 i \<Longrightarrow> parse_i64 (show_int i) = Some i"
  by (auto simp: show_int_def parse_i64_digits nat_digits_digits)
     (simp add: parse_i64_def nat_digits_digits)

lemma trim_id:
  assumes "s = [] \<or> (\<not> is_whitespace (hd (chars s)) \<and> \<not> is_whitespace (last (chars s)))"
  shows "trim s = s"
proof (cases "chars s")
  case Nil
  then have "s = []" by (metis concat_chars concat.simps(1))
  then show ?thesis by (simp add: trim_def)
next
  case (Cons u us)
  with assms have u: "\<not> is_whitespace u" and l: "\<not> is_whitespace (last (chars s))" by auto
  from Cons u have drop1: "dropWhile is_whitespace (chars s) = chars s" by simp
  have "rev (chars s) = last (chars s) # rev (butlast (chars s))"
    using Cons by (metis append_butlast_last_id list.discI rev_eq_Cons_iff rev_rev_ident)
  with l have "dropWhile is_whitespace (rev (chars s)) = rev (chars s)"
    by (metis dropWhile.simps(2))
  with drop1 show ?thesis by (simp add: trim_def)
qed

lemma trim_digits: "list_all is_digit s \<Longrightarrow> trim s = s"
proof (rule trim_id)
  assume s: "list_all is_digit s"
  then have "list_all is_ascii s" by (auto simp: list_all_iff intro: is_digit_ascii)
  then have c: "chars s = map (\<lambda>c. [c]) s" by (rule chars_ascii)
  show "s = [] \<or> (\<not> is_whitespace (hd (chars s)) \<and> \<not> is_whitespace (last (chars s)))"
    unfolding c using s
    by (cases s) (auto simp: last_map list_all_iff is_digit_not_whitespace)
qed

lemma starts_with_append [simp]: "starts_with p (p @ s)"
  by (simp add: starts_with_def)

lemma strip_prefix_append [simp]: "strip_prefix p (p @ s) = Some s"
  by (simp add: strip_prefix_def)

lemma strip_prefix_Some: "strip_prefix p s = Some r \<longleftrightarrow> s = p @ r"
  by (auto simp: strip_prefix_def starts_with_def) (metis append_take_drop_id)

lemma starts_with_more: "starts_with p v \<Longrightarrow> starts_with p (v @ w)"
  by (metis append.assoc append_take_drop_id starts_with_append starts_with_def)

lemma starts_with_length: "starts_with p s \<Longrightarrow> length p \<le> length s"
  by (metis length_take min.cobounded1 starts_with_def)

lemma find_char_less: "find_char x s = Some i \<Longrightarrow> i < length s"
  by (induction s arbitrary: i) (auto split: if_splits)

lemma find_char_Some: "find_char x s = Some i \<Longrightarrow> s ! i = x \<and> x \<notin> set (take i s)"
  by (induction s arbitrary: i) (auto split: if_splits)

lemma find_char_None: "find_char x s = None \<longleftrightarrow> x \<notin> set s"
  by (induction s) auto

section \<open>Quoting in messages\<close>

text \<open>
  \<open>{s:?}\<close>: the escapes of Rust's debug format for printable text; a control character
  or a combining one, which it also escapes, stays as it is here.
\<close>

definition debug_quoted :: "string \<Rightarrow> string" where
  "debug_quoted s = [CHR 0x22] @
     concat (map (\<lambda>c. if c = CHR 0x22 \<or> c = CHR 0x5C then [CHR 0x5C, c] else [c]) s) @ [CHR 0x22]"

end
