(* ===== verification/Card_Number.thy ===== *)
theory Card_Number
  imports Text
begin

text \<open>
  Collector numbers as sort keys, \<open>pkdump-core/src/card.rs\<close>. The sum \<open>base + v\<close> is
  an \<open>i64\<close> addition that wraps in a release build, and is written so.
\<close>

section \<open>The code\<close>

definition namespaces :: "(string \<times> int) list" where
  "namespaces = [(''SWSH'', 9000), (''SVP'', 10000), (''TG'', 2000), (''GG'', 1000)]"

fun namespace_value :: "(string \<times> int) list \<Rightarrow> string \<Rightarrow> int option" where
  "namespace_value [] upper = None"
| "namespace_value ((prefix, base) # ps) upper =
     (case strip_prefix prefix upper of
        Some rest \<Rightarrow> (case parse_i64 (filter is_digit rest) of
            Some v \<Rightarrow> Some (wrap_i64 (base + v))
          | None \<Rightarrow> namespace_value ps upper)
      | None \<Rightarrow> namespace_value ps upper)"

definition number_sortable :: "string \<Rightarrow> int" where
  "number_sortable number =
     (let n = trim number in
      case parse_i64 n of
        Some v \<Rightarrow> v
      | None \<Rightarrow>
          (case namespace_value namespaces (to_ascii_uppercase n) of
             Some v \<Rightarrow> v
           | None \<Rightarrow> wrap_i64 (900000 + (case parse_i64 (filter is_digit n) of Some v \<Rightarrow> v | None \<Rightarrow> 0))))"

section \<open>Lemmas\<close>

lemma upper_digit_iff [simp]: "is_digit (ascii_upper c) = is_digit c"
  by (auto simp: ascii_upper_def is_lower_def is_digit_def)

lemma ascii_upper_digit: "is_digit c \<Longrightarrow> ascii_upper c = c"
  by (auto simp: ascii_upper_def is_lower_def is_digit_def)

lemma filter_digits_upper: "filter is_digit (to_ascii_uppercase s) = filter is_digit s"
  by (induction s) (auto simp: to_ascii_uppercase_def ascii_upper_digit)

lemma parse_i64_letter: "is_alpha c \<Longrightarrow> parse_i64 (c # s) = None"
  by (auto simp: parse_i64_def Let_def is_alpha_def is_upper_def is_lower_def is_digit_def)

lemma parse_i64_filter:
  "filter is_digit s \<noteq> [] \<Longrightarrow> in_i64 (int (digits_val (filter is_digit s))) \<Longrightarrow>
   parse_i64 (filter is_digit s) = Some (int (digits_val (filter is_digit s)))"
  by (subst parse_i64_digits) (auto simp: list_all_iff)

lemma in_i64_smaller: "in_i64 (b + int v) \<Longrightarrow> 0 \<le> b \<Longrightarrow> in_i64 (int v)"
  by (simp add: in_i64_def i64_min_def i64_max_def)

lemma namespace_value_hit:
  assumes "(prefix, base) \<in> set namespaces" "to_ascii_uppercase pre = prefix"
    and "filter is_digit rest \<noteq> []" "in_i64 (base + int (digits_val (filter is_digit rest)))"
  shows "namespace_value namespaces (to_ascii_uppercase (pre @ rest)) =
         Some (base + int (digits_val (filter is_digit rest)))"
proof -
  let ?r = "to_ascii_uppercase rest"
  have up: "to_ascii_uppercase (pre @ rest) = prefix @ ?r"
    using assms(2) by (simp add: to_ascii_uppercase_def)
  have base: "0 \<le> base" using assms(1) by (auto simp: namespaces_def)
  then have "parse_i64 (filter is_digit ?r) = Some (int (digits_val (filter is_digit rest)))"
    using assms in_i64_smaller by (simp add: filter_digits_upper parse_i64_filter)
  then show ?thesis
    using assms(1,4) unfolding up namespaces_def
    by (auto simp: strip_prefix_def starts_with_def)
qed

section \<open>Properties\<close>

text \<open>
  A plain collector number sorts by its value, padded or not, with white space around it or
  not: whatever trims to a non-empty run of digits in the \<open>i64\<close> range maps to its value.
\<close>

theorem number_sortable_plain:
  assumes "trim number = ds" "ds \<noteq> []" "list_all is_digit ds" "in_i64 (int (digits_val ds))"
  shows "number_sortable number = int (digits_val ds)"
  using assms by (simp add: number_sortable_def parse_i64_digits)

theorem number_sortable_plain_witness: "number_sortable '' 007 '' = 7"
proof -
  have v: "digits_val ''007'' = 7" by (simp add: text_defs)
  have "number_sortable '' 007 '' = int (digits_val ''007'')"
    by (rule number_sortable_plain) (simp_all add: text_defs in_i64_def i64_min_def i64_max_def)
  then show ?thesis by (simp add: v)
qed

text \<open>
  A number in one of the four promo namespaces, in any letter case and with anything between
  the prefix and the digits, maps to the namespace's base plus the value of its digits, so the
  namespaces occupy disjoint ranges in the order GG, TG, SWSH, SVP as long as the digits stay
  below 1000.
\<close>

theorem number_sortable_namespace:
  assumes "(prefix, base) \<in> set namespaces" "to_ascii_uppercase pre = prefix"
    and "trim (pre @ rest) = pre @ rest"
    and "filter is_digit rest \<noteq> []" "in_i64 (base + int (digits_val (filter is_digit rest)))"
  shows "number_sortable (pre @ rest) = base + int (digits_val (filter is_digit rest))"
proof -
  have "parse_i64 (pre @ rest) = None"
  proof (cases pre)
    case Nil
    with assms(1,2) show ?thesis by (auto simp: namespaces_def to_ascii_uppercase_def)
  next
    case (Cons c cs)
    have "is_alpha (ascii_upper c)"
      using assms(1,2) Cons
      by (auto simp: namespaces_def to_ascii_uppercase_def is_alpha_def is_upper_def)
    then have "is_alpha c"
      by (auto simp: is_alpha_def is_upper_def is_lower_def ascii_upper_def split: if_splits)
    with Cons show ?thesis by (simp add: parse_i64_letter)
  qed
  then show ?thesis
    using assms namespace_value_hit [OF assms(1,2,4,5)] by (simp add: number_sortable_def)
qed

theorem number_sortable_namespace_witness: "number_sortable (''svp'' @ '' 042'') = 10042"
proof -
  have v: "digits_val ''042'' = 42" by (simp add: text_defs)
  have f: "filter is_digit '' 042'' = ''042''" by (simp add: text_defs)
  have u: "to_ascii_uppercase ''svp'' = ''SVP''" by code_simp
  have t: "trim (''svp'' @ '' 042'') = ''svp'' @ '' 042''" by (simp add: text_defs)
  have m: "(''SVP'', 10000) \<in> set namespaces" by (simp add: namespaces_def)
  have "number_sortable (''svp'' @ '' 042'') = 10000 + int (digits_val (filter is_digit '' 042''))"
    by (rule number_sortable_namespace [OF m u t])
       (simp_all add: text_defs in_i64_def i64_min_def i64_max_def)
  then show ?thesis by (simp only: f v)
qed

end
