(* ===== verification/Variant.thy ===== *)
theory Variant
  imports Text
begin

text \<open>
  Variant codes out of TCGplayer product names, \<open>pkdump-core/src/variant.rs\<close>: the treatment
  in a parenthetical, the stamp tags with their staff and winner roles, the bare card name, and
  the predicate of a variant override.
\<close>

section \<open>The code\<close>

definition KNOWN_VARIANTS :: "string list" where
  "KNOWN_VARIANTS =
     [''normal'', ''holo'', ''reverse_holo'', ''first_ed_holo'', ''first_ed_normal'',
      ''unlimited_holo'', ''unlimited_normal'', ''shadowless_normal'', ''shadowless_holo'',
      ''pokeball_rh'', ''masterball_rh'', ''quickball_rh'', ''duskball_rh'', ''loveball_rh'',
      ''friendball_rh'', ''energy_symbol_rh'', ''team_rocket_rh'', ''cosmos_holo'',
      ''double_rare'', ''ultra_rare'', ''illustration_rare'', ''special_illustration_rare'',
      ''hyper_rare'', ''rainbow_rare'', ''shiny_rare'', ''ace_spec'', ''mega_attack_rare'',
      ''mega_hyper_rare'', ''galarian_gallery'', ''trainer_gallery'', ''promo_blackstar'',
      ''stamp_prerelease'', ''stamp_buildbattle'', ''stamp_pokemoncenter'', ''stamp_staff'']"

definition treatment_for :: "string \<Rightarrow> string option" where
  "treatment_for inner =
     (if contains ''master ball'' inner then Some ''masterball_rh''
      else if contains ''quick ball'' inner then Some ''quickball_rh''
      else if contains ''dusk ball'' inner then Some ''duskball_rh''
      else if contains ''love ball'' inner then Some ''loveball_rh''
      else if contains ''friend ball'' inner then Some ''friendball_rh''
      else if contains ''poke ball'' inner
           \<or> contains (''pok'' @ [CHR 0xC3, CHR 0xA9] @ '' ball'') inner then Some ''pokeball_rh''
      else if contains ''energy symbol'' inner then Some ''energy_symbol_rh''
      else if contains ''team rocket'' inner then Some ''team_rocket_rh''
      else if contains ''reverse cosmos'' inner then Some ''reverse_cosmos_holo''
      else if contains ''pixel'' inner then Some ''pixel_holo''
      else if contains ''cosmo holo'' inner \<or> contains ''cosmos holo'' inner then Some ''cosmos_holo''
      else if contains ''cosmo foil'' inner \<or> contains ''cosmos foil'' inner then Some ''cosmos_foil''
      else if contains ''water web'' inner then Some ''water_web_holo''
      else if contains ''sheen holo'' inner then Some ''sheen_holo''
      else if contains ''mirage holo'' inner then Some ''mirage_holo''
      else if contains ''mirror holo'' inner then Some ''mirror_holo''
      else if contains ''line holo'' inner then Some ''line_holo''
      else if contains ''sparkle holo'' inner then Some ''sparkle_holo''
      else if contains ''energy holo'' inner then Some ''energy_holo''
      else if contains ''metal card'' inner then Some ''metal_card''
      else if contains ''cracked ice'' inner then Some ''cracked_ice_holo''
      else if contains ''peelable ditto'' inner then Some ''peelable_ditto''
      else if contains ''black dot error'' inner then Some ''black_dot_error''
      else None)"

text \<open>The loop of \<open>variant_from_product_name\<close>: every parenthetical, left to right.\<close>

function scan_parens :: "string \<Rightarrow> string option" where
  "scan_parens rest =
     (case find_char (CHR ''('') rest of
        None \<Rightarrow> None
      | Some op \<Rightarrow>
          let after = drop (Suc op) rest in
          (case find_char (CHR '')'') after of
             None \<Rightarrow> None
           | Some cl \<Rightarrow>
               (case treatment_for (trim (take cl after)) of
                  Some v \<Rightarrow> Some v
                | None \<Rightarrow> scan_parens (drop (Suc cl) after))))"
  by pat_completeness auto
termination
  by (relation "measure length") (auto dest!: find_char_less)

declare scan_parens.simps [simp del]

definition variant_from_product_name :: "runtime \<Rightarrow> string \<Rightarrow> string option" where
  "variant_from_product_name rt name = scan_parens (str_lower rt name)"

definition fold_accents :: "string \<Rightarrow> string" where
  "fold_accents s =
     concat (map (\<lambda>u. if u \<in> {[CHR 0xC3, CHR 0xA9], [CHR 0xC3, CHR 0xA8], [CHR 0xC3, CHR 0xAA]}
                      then ''e'' else u) (chars s))"

definition to_snake :: "string \<Rightarrow> string" where
  "to_snake s =
     join ''_'' (filter (\<lambda>p. p \<noteq> [])
       (split_char (CHR ''_'')
         (map (\<lambda>u. case u of [c] \<Rightarrow> if is_alnum c then c else CHR ''_'' | _ \<Rightarrow> CHR ''_'') (chars s))))"

fun strip_stamp_loop :: "string list \<Rightarrow> string \<Rightarrow> string option" where
  "strip_stamp_loop [] inner = None"
| "strip_stamp_loop (suffix # sfxs) inner =
     (case strip_suffix suffix inner of
        Some rest \<Rightarrow> Some rest
      | None \<Rightarrow>
          (case split_once (trim_start suffix) inner of
             Some (before, _) \<Rightarrow>
               if before \<noteq> [] \<and> ends_with '' '' before then Some (trim_end before)
               else strip_stamp_loop sfxs inner
           | None \<Rightarrow> strip_stamp_loop sfxs inner))"

definition strip_stamp_suffix :: "string \<Rightarrow> string option" where
  "strip_stamp_suffix inner = strip_stamp_loop ['' stamped'', '' stamp''] inner"

text \<open>The last parenthetical of the product name.\<close>

definition last_paren :: "string \<Rightarrow> string option" where
  "last_paren lower =
     (case rfind_char (CHR ''('') lower of
        None \<Rightarrow> None
      | Some op \<Rightarrow> map_option (\<lambda>cl. trim (take (cl - 1) (drop (op + 1) lower)))
                       (find_char (CHR '')'') (drop op lower)))"

definition parse_stamp_tag :: "runtime \<Rightarrow> string \<Rightarrow> (string \<times> string option) option" where
  "parse_stamp_tag rt name =
     (let lower = fold_accents (str_lower rt name);
          bracket_staff = contains ''[staff]'' lower;
          bracket_winner = contains ''[winner]'' lower;
          base = (case last_paren lower of
            Some inner \<Rightarrow>
              (case strip_stamp_suffix inner of
                 Some stripped \<Rightarrow>
                   let keyword = trim stripped in
                   if keyword = [] then None
                   else Some (''stamp_'' @ to_snake keyword, Some keyword)
               | None \<Rightarrow>
                   if inner = ''prerelease'' then Some (''stamp_prerelease'', None)
                   else if inner = ''pokemon center'' \<or> inner = ''pokemon center exclusive''
                     then Some (''stamp_pokemoncenter'', None)
                   else if inner = ''holiday calendar'' then Some (''stamp_holiday_calendar'', None)
                   else if inner = ''staff'' then Some (''stamp_staff'', None)
                   else if contains ''championship'' inner then Some (''stamp_'' @ to_snake inner, None)
                   else if ends_with '' staff'' inner then
                     (let event = trim (take (length inner - length '' staff'') inner) in
                      if event = [] then None
                      else Some (''stamp_'' @ to_snake event @ ''_staff'', None))
                   else if bracket_staff \<or> bracket_winner
                     then Some (''stamp_'' @ to_snake inner, None)
                   else None)
          | None \<Rightarrow>
              if bracket_staff then Some (''stamp_staff'', None)
              else if bracket_winner then Some (''stamp_winner'', None)
              else None)
      in case base of
           None \<Rightarrow> None
         | Some (variant, keyword) \<Rightarrow>
             let v1 = (if bracket_staff \<and> \<not> ends_with ''_staff'' variant then variant @ ''_staff'' else variant);
                 v2 = (if bracket_winner \<and> \<not> ends_with ''_winner'' v1 then v1 @ ''_winner'' else v1)
             in Some (v2, keyword))"

definition is_collector_number_token :: "string \<Rightarrow> bool" where
  "is_collector_number_token tok \<longleftrightarrow>
     list_ex is_digit tok \<and> (contains ''/'' tok \<or> list_all is_digit tok) \<and> tok \<noteq> []"

definition parse_product_card_name :: "string \<Rightarrow> string" where
  "parse_product_card_name product_name =
     (let dash = (case find_sub '' - '' product_name of Some i \<Rightarrow> i | None \<Rightarrow> length product_name);
          paren = (case find_sub '' ('' product_name of Some i \<Rightarrow> i | None \<Rightarrow> length product_name);
          name = trim (take (min dash paren) product_name)
      in case rsplit_once (CHR '' '') name of
           Some (head, tok) \<Rightarrow> if is_collector_number_token tok then trim head else name
         | None \<Rightarrow> name)"

record OverrideMatch =
  om_set :: "string option"
  om_rarity :: "string list option"
  om_number :: "string option"

definition matches :: "OverrideMatch \<Rightarrow> string \<Rightarrow> string option \<Rightarrow> string \<Rightarrow> bool" where
  "matches m set_code rarity number =
     (if (case om_set m of Some s \<Rightarrow> s \<noteq> set_code | None \<Rightarrow> False) then False
      else if (case om_number m of Some n \<Rightarrow> n \<noteq> number | None \<Rightarrow> False) then False
      else (case om_rarity m of
              Some rarities \<Rightarrow> (case rarity of Some r \<Rightarrow> list_ex (\<lambda>x. x = r) rarities | None \<Rightarrow> False)
            | None \<Rightarrow> True))"

record VariantOverride =
  vo_match :: OverrideMatch
  vo_add :: "string list"
  vo_remove :: "string list"
  vo_comment :: "string option"


section \<open>Lemmas\<close>

lemma split_char_nonempty [simp]: "split_char x s \<noteq> []"
  by (induction s) (auto split: list.splits)

lemma split_char_no_sep: "w \<in> set (split_char x s) \<Longrightarrow> x \<notin> set w"
proof (induction s arbitrary: w)
  case (Cons c s)
  then show ?case by (cases "split_char x s") (auto split: if_splits)
qed simp

lemma split_char_subset: "w \<in> set (split_char x s) \<Longrightarrow> set w \<subseteq> set s"
proof (induction s arbitrary: w)
  case (Cons c s)
  then show ?case
    by (cases "split_char x s") (fastforce split: if_splits)+
qed simp

lemma split_char_word: "x \<notin> set w \<Longrightarrow> split_char x w = [w]"
  by (induction w) auto

lemma split_char_append: "x \<notin> set w \<Longrightarrow> split_char x (w @ x # s) = w # split_char x s"
  by (induction w) auto

lemma split_join:
  "ws \<noteq> [] \<Longrightarrow> \<forall>w \<in> set ws. x \<notin> set w \<Longrightarrow> split_char x (join [x] ws) = ws"
  by (induction "[x]" ws rule: join.induct) (simp_all add: split_char_word split_char_append)

lemma set_join: "set (join sep ws) \<subseteq> set sep \<union> (\<Union>w \<in> set ws. set w)"
  by (induction sep ws rule: join.induct) auto

lemma ends_with_append [simp]: "ends_with p (s @ p)"
  by (simp add: ends_with_def)

text \<open>The words of a label: its maximal alphanumeric runs.\<close>

definition snake_words :: "string \<Rightarrow> string list" where
  "snake_words s =
     filter (\<lambda>p. p \<noteq> []) (split_char (CHR ''_'')
       (map (\<lambda>u. case u of [c] \<Rightarrow> if is_alnum c then c else CHR ''_'' | _ \<Rightarrow> CHR ''_'') (chars s)))"

lemma to_snake_words: "to_snake s = join ''_'' (snake_words s)"
  by (simp add: to_snake_def snake_words_def)

lemma snake_words_alnum:
  assumes "w \<in> set (snake_words s)" "c \<in> set w"
  shows "is_alnum c"
proof -
  let ?f = "\<lambda>u. case u of [c] \<Rightarrow> if is_alnum c then c else CHR ''_'' | _ \<Rightarrow> CHR ''_''"
  have w: "w \<in> set (split_char (CHR ''_'') (map ?f (chars s)))"
    using assms by (simp add: snake_words_def)
  then have "c \<in> set (map ?f (chars s))" "c \<noteq> CHR ''_''"
    using assms(2) split_char_subset [OF w] split_char_no_sep [OF w] by auto
  then show ?thesis by (auto split: list.splits if_splits)
qed

lemma is_alnum_ascii: "is_alnum c \<Longrightarrow> is_ascii c"
  by (auto simp: is_alnum_def is_alpha_def is_upper_def is_lower_def is_digit_def is_ascii_def)

lemma to_snake_chars: "c \<in> set (to_snake s) \<Longrightarrow> is_alnum c \<or> c = CHR ''_''"
  using set_join [of "''_''" "snake_words s"] snake_words_alnum [of _ s c]
  by (auto simp: to_snake_words)

lemma to_snake_ascii: "list_all is_ascii (to_snake s)"
  by (auto simp: list_all_iff is_ascii_def dest!: to_snake_chars is_alnum_ascii)

lemma snake_words_to_snake: "snake_words (to_snake s) = snake_words s"
proof -
  have f: "map (\<lambda>u. case u of [c] \<Rightarrow> if is_alnum c then c else CHR ''_'' | _ \<Rightarrow> CHR ''_'')
             (chars (to_snake s)) = to_snake s"
    unfolding chars_ascii [OF to_snake_ascii] map_map
    by (rule map_idI) (auto dest: to_snake_chars)
  have "CHR ''_'' \<notin> set w" if "w \<in> set (snake_words s)" for w
    using that by (auto simp: snake_words_def dest: split_char_no_sep)
  moreover have "filter (\<lambda>p. p \<noteq> []) (snake_words s) = snake_words s"
    by (simp add: snake_words_def)
  moreover have "snake_words (to_snake s) = filter (\<lambda>p. p \<noteq> []) (split_char (CHR ''_'') (to_snake s))"
    unfolding snake_words_def [of "to_snake s"] f by (rule refl)
  ultimately show ?thesis
    by (cases "snake_words s = []") (simp_all add: to_snake_words split_join)
qed

lemma find_sub_absent: "hd p \<notin> set s \<Longrightarrow> p \<noteq> [] \<Longrightarrow> find_sub p s = None"
  by (induction s) (auto simp: starts_with_def hd_append split: list.splits; cases p; auto)+

lemma stamp_role_suffixes:
  assumes "v1 = (if b \<and> \<not> ends_with ''_staff'' v then v @ ''_staff'' else v)"
    and "v2 = (if w \<and> \<not> ends_with ''_winner'' v1 then v1 @ ''_winner'' else v1)"
  shows "w \<Longrightarrow> ends_with ''_winner'' v2" "b \<Longrightarrow> \<not> w \<Longrightarrow> ends_with ''_staff'' v2"
    "starts_with ''stamp_'' v \<Longrightarrow> starts_with ''stamp_'' v2"
  using assms by (auto intro: starts_with_more)

lemma find_sub_second:
  "b \<notin> set s \<Longrightarrow> a \<noteq> b \<Longrightarrow>
   find_sub (a # b # r) (s @ a # t) = map_option (\<lambda>i. length s + i) (find_sub (a # b # r) (a # t))"
proof (induction s)
  case Nil
  show ?case by (cases "find_sub (a # b # r) (a # t)") simp_all
next
  case (Cons c s)
  then have "\<not> starts_with (a # b # r) (c # s @ a # t)"
    by (cases s) (auto simp: starts_with_def)
  moreover have "find_sub (a # b # r) (s @ a # t) =
      map_option (\<lambda>i. length s + i) (find_sub (a # b # r) (a # t))"
    using Cons by (intro Cons.IH) simp_all
  ultimately show ?case by (simp add: option.map_comp comp_def del: find_sub.simps)
     (subst find_sub.simps, simp add: option.map_comp comp_def)
qed

section \<open>Properties\<close>

text \<open>
  A snake-cased label holds letters, digits and single underscores between them only, and
  snake-casing it again changes nothing: the variant code a label maps to is stable.
\<close>

theorem to_snake_normal_form:
  "to_snake (to_snake s) = to_snake s \<and>
   list_all (\<lambda>c. is_alnum c \<or> c = CHR ''_'') (to_snake s) \<and>
   to_snake s = join ''_'' (snake_words s) \<and>
   list_all (\<lambda>w. w \<noteq> [] \<and> list_all is_alnum w) (snake_words s)"
proof (intro conjI)
  show "to_snake (to_snake s) = to_snake s"
    unfolding to_snake_words [of "to_snake s"] snake_words_to_snake by (simp add: to_snake_words)
  show "list_all (\<lambda>c. is_alnum c \<or> c = CHR ''_'') (to_snake s)"
    by (auto simp: list_all_iff dest: to_snake_chars)
  show "list_all (\<lambda>w. w \<noteq> [] \<and> list_all is_alnum w) (snake_words s)"
    unfolding list_all_iff by (auto dest: snake_words_alnum) (simp add: snake_words_def)
qed (rule to_snake_words)

text \<open>
  Every stamp variant code starts with \<open>stamp_\<close>, and a role bracket is never lost:
  a product tagged \<open>[Winner]\<close> gets a code that ends in \<open>_winner\<close>, one tagged
  \<open>[Staff]\<close> and not \<open>[Winner]\<close> a code that ends in \<open>_staff\<close>, whatever the
  parenthetical says.
\<close>

theorem parse_stamp_tag_roles:
  assumes "parse_stamp_tag rt name = Some (variant, keyword)"
  defines "lower \<equiv> fold_accents (str_lower rt name)"
  shows "starts_with ''stamp_'' variant \<and>
         (contains ''[winner]'' lower \<longrightarrow> ends_with ''_winner'' variant) \<and>
         (contains ''[staff]'' lower \<and> \<not> contains ''[winner]'' lower \<longrightarrow> ends_with ''_staff'' variant)"
proof -
  define b where "b = contains ''[staff]'' lower"
  define w where "w = contains ''[winner]'' lower"
  obtain v where v: "starts_with ''stamp_'' v"
    and variant: "variant = (let v1 = (if b \<and> \<not> ends_with ''_staff'' v then v @ ''_staff'' else v)
        in if w \<and> \<not> ends_with ''_winner'' v1 then v1 @ ''_winner'' else v1)"
  proof -
    have start: "starts_with ''stamp_'' (''stamp_'' @ x)" for x by (rule starts_with_append)
    show thesis
      using assms(1) start that [unfolded Let_def]
      unfolding parse_stamp_tag_def Let_def lower_def [symmetric] b_def [symmetric] w_def [symmetric]
      by (auto split: option.splits if_splits simp del: starts_with_append)
  qed
  show ?thesis
    using stamp_role_suffixes [OF refl refl, where b = b and v = v and w = w] v
    unfolding variant Let_def b_def [symmetric] w_def [symmetric] by blast
qed

theorem parse_stamp_tag_roles_witness:
  "parse_stamp_tag plain_runtime ''Buck (Prerelease) [Staff]'' = Some (''stamp_prerelease_staff'', None) \<and>
   starts_with ''stamp_'' ''stamp_prerelease_staff'' \<and> ends_with ''_staff'' ''stamp_prerelease_staff''"
proof -
  have h: "parse_stamp_tag plain_runtime ''Buck (Prerelease) [Staff]'' = Some (''stamp_prerelease_staff'', None)"
    by code_simp
  have "contains ''[staff]'' (fold_accents (str_lower plain_runtime ''Buck (Prerelease) [Staff]''))"
    "\<not> contains ''[winner]'' (fold_accents (str_lower plain_runtime ''Buck (Prerelease) [Staff]''))"
    by code_simp+
  then show ?thesis using h parse_stamp_tag_roles [OF h] by blast
qed

text \<open>
  The bare card name comes back from a product name: a trimmed name with no hyphen, no
  parenthesis and no trailing collector number is what \<open>parse_product_card_name\<close> returns for
  the name followed by a hyphenated collector number or by a parenthetical, whatever comes after.
\<close>

theorem parse_product_card_name_recovers:
  assumes "CHR ''-'' \<notin> set name" "CHR ''('' \<notin> set name" "trim name = name"
    and "\<And>h t. rsplit_once (CHR '' '') name = Some (h, t) \<Longrightarrow> \<not> is_collector_number_token t"
  shows "parse_product_card_name (name @ '' - '' @ rest) = name \<and>
         parse_product_card_name (name @ '' ('' @ rest) = name"
proof (rule conjI)
  have dash: "find_sub '' - '' (name @ CHR '' '' # t) =
      map_option (\<lambda>i. length name + i) (find_sub '' - '' (CHR '' '' # t))" for t
    using assms(1) by (rule find_sub_second) simp
  have paren: "find_sub '' ('' (name @ CHR '' '' # t) =
      map_option (\<lambda>i. length name + i) (find_sub '' ('' (CHR '' '' # t))" for t
    using assms(2) by (rule find_sub_second) simp
  have name: "(case rsplit_once (CHR '' '') name of
      Some (head, tok) \<Rightarrow> if is_collector_number_token tok then trim head else name
    | None \<Rightarrow> name) = name"
    using assms(4) by (auto split: option.splits)
  have "find_sub '' - '' (CHR '' '' # ''- '' @ rest) = Some 0" by (simp add: starts_with_def)
  then show "parse_product_card_name (name @ '' - '' @ rest) = name"
    using name assms(3) dash [of "''- '' @ rest"] paren [of "''- '' @ rest"]
    by (auto simp: parse_product_card_name_def Let_def simp del: find_sub.simps split: option.splits)
  have "find_sub '' ('' (CHR '' '' # ''('' @ rest) = Some 0" by (simp add: starts_with_def)
  then show "parse_product_card_name (name @ '' ('' @ rest) = name"
    using name assms(3) dash [of "''('' @ rest"] paren [of "''('' @ rest"]
    by (auto simp: parse_product_card_name_def Let_def simp del: find_sub.simps split: option.splits)
qed

theorem parse_product_card_name_recovers_witness:
  "parse_product_card_name (''Mr. Mime'' @ '' - '' @ ''122/165'') = ''Mr. Mime''"
proof (rule parse_product_card_name_recovers [THEN conjunct1])
  show "trim ''Mr. Mime'' = ''Mr. Mime''" by code_simp
  have "rsplit_once (CHR '' '') ''Mr. Mime'' = Some (''Mr.'', ''Mime'')"
    "\<not> is_collector_number_token ''Mime''" by code_simp+
  then show "\<not> is_collector_number_token t" if "rsplit_once (CHR '' '') ''Mr. Mime'' = Some (h, t)" for h t
    using that by simp
qed simp_all

end
