(* ===== verification/Query_Lexer.thy ===== *)
theory Query_Lexer
  imports Text
begin

text \<open>
  The tokenizer of the search language: \<open>pkdump-core/src/query/ast.rs\<close> (operators),
  \<open>error.rs\<close> and \<open>lexer.rs\<close>. The scanner keeps the code's byte offsets; a scanning
  loop is \<open>scan_while\<close>, and \<open>tokenize_from\<close> is the main loop from offset \<open>i\<close> on.
\<close>

section \<open>The code\<close>

datatype Op = Contains | Eq | Ne | Lt | Gt | Le | Ge

fun op_as_str :: "Op \<Rightarrow> string" where
  "op_as_str Contains = '':''"
| "op_as_str Eq = ''=''"
| "op_as_str Ne = ''!=''"
| "op_as_str Lt = ''<''"
| "op_as_str Gt = ''>''"
| "op_as_str Le = ''<=''"
| "op_as_str Ge = ''>=''"

record QueryError =
  qe_message :: string
  qe_position :: nat

definition query_error :: "string \<Rightarrow> nat \<Rightarrow> QueryError" where
  "query_error m p = \<lparr>qe_message = m, qe_position = p\<rparr>"

datatype Tok = LParen | RParen | Negate | TExactName string | Keyword string Op | Value string | Word string

record Token =
  tok_kind :: Tok
  tok_pos :: nat

definition char_at :: "string \<Rightarrow> nat \<Rightarrow> uchar option" where
  "char_at s i = (case drop i s of [] \<Rightarrow> None | c # cs \<Rightarrow> Some (c # take (utf8_width c - 1) cs))"

definition slice :: "string \<Rightarrow> nat \<Rightarrow> nat \<Rightarrow> string" where
  "slice s a b = take (b - a) (drop a s)"

lemma char_at_Some: "char_at s i = Some u \<Longrightarrow> i < length s \<and> 0 < length u \<and> i + length u \<le> length s"
proof -
  assume "char_at s i = Some u"
  then obtain c cs where d: "drop i s = c # cs" and u: "u = c # take (utf8_width c - 1) cs"
    by (auto simp: char_at_def split: list.splits)
  have "length s - i = Suc (length cs)" using arg_cong [OF d, of length] by simp
  then show ?thesis by (simp add: u) linarith
qed

function scan_while :: "(uchar \<Rightarrow> bool) \<Rightarrow> string \<Rightarrow> nat \<Rightarrow> nat" where
  "scan_while P s j = (case char_at s j of
      Some ch \<Rightarrow> if P ch then scan_while P s (j + length ch) else j
    | None \<Rightarrow> j)"
  by pat_completeness auto
termination
proof (relation "measure (\<lambda>(P, s, j). length s - j)")
  fix P s j ch
  assume "char_at s j = Some ch"
  then have "j < length s" "0 < length ch" by (blast dest: char_at_Some)+
  then show "((P, s, j + length ch), P, s, j) \<in> measure (\<lambda>(P, s, j). length s - j)"
    by (simp add: diff_less_mono2)
qed simp

declare scan_while.simps [simp del]

definition is_ident_char :: "uchar \<Rightarrow> bool" where
  "is_ident_char u = (case u of [c] \<Rightarrow> is_alnum c \<or> c = CHR ''_'' | _ \<Rightarrow> False)"

definition read_ident_end :: "string \<Rightarrow> nat \<Rightarrow> nat" where
  "read_ident_end s i = scan_while is_ident_char s i"

definition match_op :: "string \<Rightarrow> nat \<Rightarrow> (Op \<times> nat) option" where
  "match_op s j =
     (let rest = drop j s in
      if starts_with ''!='' rest then Some (Ne, 2)
      else if starts_with ''<='' rest then Some (Le, 2)
      else if starts_with ''>='' rest then Some (Ge, 2)
      else if starts_with '':'' rest then Some (Contains, 1)
      else if starts_with ''='' rest then Some (Eq, 1)
      else if starts_with ''<'' rest then Some (Lt, 1)
      else if starts_with ''>'' rest then Some (Gt, 1)
      else None)"

definition quote :: char where
  "quote = CHR 0x22"

definition read_quoted :: "string \<Rightarrow> nat \<Rightarrow> QueryError + (string \<times> nat)" where
  "read_quoted s i =
     (let after = i + 1 in
      case find_char quote (drop after s) of
        Some rel \<Rightarrow> Inr (slice s after (after + rel), after + rel + 1)
      | None \<Rightarrow> Inl (query_error ''unterminated quoted string'' i))"

definition is_break :: "uchar \<Rightarrow> bool" where
  "is_break u \<longleftrightarrow> is_whitespace u \<or> u = ''('' \<or> u = '')''"

definition read_until_break :: "string \<Rightarrow> nat \<Rightarrow> string \<times> nat" where
  "read_until_break s start =
     (let j = scan_while (\<lambda>u. \<not> is_break u) s start in (slice s start j, j))"

definition read_value :: "string \<Rightarrow> nat \<Rightarrow> QueryError + (string \<times> nat)" where
  "read_value s start =
     (case char_at s start of
        None \<Rightarrow> Inr ([], start)
      | Some ch \<Rightarrow>
          if ch = [quote] then read_quoted s start
          else let j = scan_while (\<lambda>u. \<not> (is_whitespace u \<or> u = '')'')) s start
               in Inr (slice s start j, j))"

section \<open>Progress of the scanners\<close>

lemma scan_while_ge: "j \<le> scan_while P s j"
proof (induction P s j rule: scan_while.induct)
  case (1 P s j)
  show ?case
  proof (cases "char_at s j")
    case None
    then show ?thesis by (subst scan_while.simps) simp
  next
    case (Some ch)
    then show ?thesis
      using 1 [OF Some] by (subst scan_while.simps) auto
  qed
qed

lemma scan_while_le: "j \<le> length s \<Longrightarrow> scan_while P s j \<le> length s"
proof (induction P s j rule: scan_while.induct)
  case (1 P s j)
  show ?case
  proof (cases "char_at s j")
    case None
    then show ?thesis using 1 by (subst scan_while.simps) simp
  next
    case (Some ch)
    then show ?thesis
      using 1 char_at_Some [OF Some] by (subst scan_while.simps) auto
  qed
qed

lemma scan_while_step:
  assumes "char_at s j = Some ch" "P ch"
  shows "j < scan_while P s j"
proof -
  have "j < j + length ch" using char_at_Some [OF assms(1)] by linarith
  also have "\<dots> \<le> scan_while P s (j + length ch)" by (rule scan_while_ge)
  also have "\<dots> = scan_while P s j" using assms by (simp add: scan_while.simps [of P s j])
  finally show ?thesis .
qed

lemma read_quoted_Inr:
  "read_quoted s i = Inr (v, n) \<Longrightarrow> i < n \<and> n \<le> length s"
  by (auto simp: read_quoted_def Let_def split: option.splits dest!: find_char_less)

lemma read_value_Inr:
  "read_value s i = Inr (v, n) \<Longrightarrow> i \<le> length s \<Longrightarrow> i \<le> n \<and> n \<le> length s"
  by (auto simp: read_value_def Let_def scan_while_ge scan_while_le split: option.splits if_splits
      dest!: read_quoted_Inr)

lemma match_op_Some:
  "match_op s j = Some (op, k) \<Longrightarrow> 0 < k \<and> j + k \<le> length s"
  using starts_with_length [of _ "drop j s"]
  by (fastforce simp: match_op_def Let_def split: if_splits)

section \<open>The main loop\<close>

text \<open>
  One iteration of the loop on the character \<open>c\<close> at offset \<open>i\<close>: the tokens it pushes and
  the next offset.
\<close>

definition lex_word :: "string \<Rightarrow> nat \<Rightarrow> QueryError + (Token list \<times> nat)" where
  "lex_word s i = (let (w, next) = read_until_break s i
                   in Inr ([\<lparr>tok_kind = Word w, tok_pos = i\<rparr>], next))"

definition lex_step :: "runtime \<Rightarrow> string \<Rightarrow> nat \<Rightarrow> uchar \<Rightarrow> QueryError + (Token list \<times> nat)" where
  "lex_step rt s i c =
     (if is_whitespace c then Inr ([], i + length c)
      else if c = ''('' then Inr ([\<lparr>tok_kind = LParen, tok_pos = i\<rparr>], i + 1)
      else if c = '')'' then Inr ([\<lparr>tok_kind = RParen, tok_pos = i\<rparr>], i + 1)
      else if c = ''!'' then
        (case (if char_at s (i + 1) = Some [quote] then read_quoted s (i + 1)
               else Inr (read_until_break s (i + 1))) of
           Inl e \<Rightarrow> Inl e
         | Inr (val, next) \<Rightarrow> Inr ([\<lparr>tok_kind = TExactName val, tok_pos = i\<rparr>], next))
      else if c = ''-'' then
        (if (case char_at s (i + 1) of
               Some ch \<Rightarrow> char_alphabetic rt ch \<or> ch = ''('' \<or> ch = [quote]
             | None \<Rightarrow> False)
         then Inr ([\<lparr>tok_kind = Negate, tok_pos = i\<rparr>], i + 1)
         else lex_word s i)
      else if c = [quote] then
        (case read_quoted s i of
           Inl e \<Rightarrow> Inl e
         | Inr (val, next) \<Rightarrow> Inr ([\<lparr>tok_kind = Word val, tok_pos = i\<rparr>], next))
      else if (case c of [a] \<Rightarrow> is_alpha a | _ \<Rightarrow> False) then
        (let ident_end = read_ident_end s i in
         case match_op s ident_end of
           Some (op, op_len) \<Rightarrow>
             (let val_start = ident_end + op_len in
              case read_value s val_start of
                Inl e \<Rightarrow> Inl e
              | Inr (val, next) \<Rightarrow>
                  Inr ([\<lparr>tok_kind = Keyword (slice s i ident_end) op, tok_pos = i\<rparr>,
                        \<lparr>tok_kind = Value val, tok_pos = val_start\<rparr>], next))
         | None \<Rightarrow> lex_word s i)
      else lex_word s i)"

lemma lex_word_step:
  assumes "char_at s i = Some c" "\<not> is_break c" "lex_word s i = Inr (ts, next)"
  shows "i < next \<and> next \<le> length s"
  using assms scan_while_step [of s i c "\<lambda>u. \<not> is_break u"]
    scan_while_le [of i s "\<lambda>u. \<not> is_break u"] char_at_Some [OF assms(1)]
  by (auto simp: lex_word_def read_until_break_def Let_def)

lemma lex_step_progress:
  assumes c: "char_at s i = Some c" and st: "lex_step rt s i c = Inr (ts, next)"
  shows "i < next \<and> next \<le> length s"
proof -
  note b = char_at_Some [OF c]
  have bang: "i < scan_while P s (Suc i)" for P
    using scan_while_ge [of "Suc i" P s] by simp
  have le: "scan_while P s (Suc i) \<le> length s" for P
    using b by (intro scan_while_le) linarith
  have key: "i < next \<and> next \<le> length s"
    if "match_op s (read_ident_end s i) = Some (op, k)"
      and "read_value s (read_ident_end s i + k) = Inr (v, next)" for op k v
    using match_op_Some [OF that(1)] read_value_Inr [OF that(2)] scan_while_ge [of i is_ident_char s]
    by (simp add: read_ident_end_def)
  show ?thesis
    using st b bang le lex_word_step [OF c] key
    by (auto simp: lex_step_def is_break_def Let_def read_until_break_def
        split: if_splits option.splits sum.splits dest!: read_quoted_Inr)
qed

function tokenize_from :: "runtime \<Rightarrow> string \<Rightarrow> nat \<Rightarrow> QueryError + Token list" where
  "tokenize_from rt s i =
     (case char_at s i of
        None \<Rightarrow> Inr []
      | Some c \<Rightarrow>
          (case lex_step rt s i c of
             Inl e \<Rightarrow> Inl e
           | Inr (ts, next) \<Rightarrow>
               (case tokenize_from rt s next of Inl e \<Rightarrow> Inl e | Inr rest \<Rightarrow> Inr (ts @ rest))))"
  by pat_completeness auto
termination
proof (relation "measure (\<lambda>(rt, s, i). length s - i)")
  fix rt s i c p ts "next"
  assume "char_at s i = Some c" "lex_step rt s i c = Inr p" "(ts, next) = p"
  then have "i < next \<and> next \<le> length s" by (intro lex_step_progress) auto
  then show "((rt, s, next), rt, s, i) \<in> measure (\<lambda>(rt, s, i). length s - i)"
    by (simp add: diff_less_mono2)
qed simp

declare tokenize_from.simps [simp del]

definition tokenize :: "runtime \<Rightarrow> string \<Rightarrow> QueryError + Token list" where
  "tokenize rt s = tokenize_from rt s 0"

section \<open>Invariants of the token stream\<close>

text \<open>
  Every keyword is directly followed by its value and every value directly follows its keyword.
\<close>

fun paired :: "Token list \<Rightarrow> bool" where
  "paired [] = True"
| "paired (t # ts) = (case tok_kind t of
      Keyword _ _ \<Rightarrow> (case ts of v # rest \<Rightarrow> (\<exists>x. tok_kind v = Value x) \<and> paired rest | [] \<Rightarrow> False)
    | Value _ \<Rightarrow> False
    | _ \<Rightarrow> paired ts)"

lemma paired_append: "paired ts \<Longrightarrow> paired us \<Longrightarrow> paired (ts @ us)"
  by (induction ts rule: paired.induct) (auto split: Tok.splits list.splits)

lemma lex_step_paired: "lex_step rt s i c = Inr (ts, next) \<Longrightarrow> paired ts"
  by (auto simp: lex_step_def lex_word_def Let_def
      split: if_splits option.splits sum.splits prod.splits)

text \<open>The tokens of one step lie between its offset and the next one, in order.\<close>

definition tokens_within :: "nat \<Rightarrow> nat \<Rightarrow> Token list \<Rightarrow> bool" where
  "tokens_within a b ts \<longleftrightarrow> sorted_wrt (\<le>) (map tok_pos ts) \<and> (\<forall>t \<in> set ts. a \<le> tok_pos t \<and> tok_pos t \<le> b)"

lemma tokens_within_append:
  "tokens_within a b ts \<Longrightarrow> tokens_within b c us \<Longrightarrow> a \<le> b \<Longrightarrow> b \<le> c \<Longrightarrow> tokens_within a c (ts @ us)"
  by (fastforce simp: tokens_within_def sorted_wrt_append)

lemma lex_step_within:
  assumes "char_at s i = Some c" "lex_step rt s i c = Inr (ts, next)"
  shows "tokens_within i next ts"
proof -
  note p = lex_step_progress [OF assms]
  have key: "i \<le> read_ident_end s i + k \<and> read_ident_end s i + k \<le> next"
    if "match_op s (read_ident_end s i) = Some (op, k)"
      and "read_value s (read_ident_end s i + k) = Inr (v, next)" for op k v
    using match_op_Some [OF that(1)] read_value_Inr [OF that(2)] scan_while_ge [of i is_ident_char s]
    by (simp add: read_ident_end_def)
  show ?thesis
    using assms(2) p key
    by (auto simp: lex_step_def lex_word_def tokens_within_def Let_def
        split: if_splits option.splits sum.splits prod.splits)
qed

text \<open>The only lexical error: a quote with no closing quote after it.\<close>

definition unterminated :: "string \<Rightarrow> QueryError \<Rightarrow> bool" where
  "unterminated s e \<longleftrightarrow>
     qe_message e = ''unterminated quoted string'' \<and> qe_position e < length s \<and>
     s ! qe_position e = quote \<and> quote \<notin> set (drop (qe_position e + 1) s)"

lemma char_at_nth: "char_at s i = Some [q] \<Longrightarrow> i < length s \<and> s ! i = q"
proof -
  assume a: "char_at s i = Some [q]"
  have "i < length s" using char_at_Some [OF a] by simp
  moreover obtain cs where "drop i s = q # cs"
    using a by (auto simp: char_at_def split: list.splits)
  ultimately show ?thesis by (metis Cons_nth_drop_Suc list.inject)
qed

lemma read_quoted_Inl:
  "char_at s i = Some [quote] \<Longrightarrow> read_quoted s i = Inl e \<Longrightarrow> unterminated s e"
  using char_at_nth [of s i quote]
  by (auto simp: read_quoted_def unterminated_def query_error_def find_char_None Let_def
      split: option.splits)

lemma read_value_Inl: "read_value s i = Inl e \<Longrightarrow> unterminated s e"
  by (auto simp: read_value_def Let_def split: option.splits if_splits intro: read_quoted_Inl)

lemma lex_step_Inl: "char_at s i = Some c \<Longrightarrow> lex_step rt s i c = Inl e \<Longrightarrow> unterminated s e"
  by (auto simp: lex_step_def lex_word_def Let_def
      split: if_splits option.splits sum.splits prod.splits intro: read_quoted_Inl read_value_Inl)

lemma tokenize_from_props:
  "i \<le> length s \<Longrightarrow>
   (case tokenize_from rt s i of
      Inl e \<Rightarrow> unterminated s e
    | Inr ts \<Rightarrow> paired ts \<and> tokens_within i (length s) ts)"
proof (induction rt s i rule: tokenize_from.induct)
  case (1 rt s i)
  show ?case
  proof (cases "char_at s i")
    case None
    then show ?thesis by (subst tokenize_from.simps) (simp add: tokens_within_def)
  next
    case (Some c)
    show ?thesis
    proof (cases "lex_step rt s i c")
      case (Inl e)
      then show ?thesis
        using Some lex_step_Inl by (subst tokenize_from.simps) auto
    next
      case (Inr p)
      then obtain ts "next" where st: "lex_step rt s i c = Inr (ts, next)" by (cases p) auto
      note pr = lex_step_progress [OF Some st]
      have IH: "case tokenize_from rt s next of
          Inl e \<Rightarrow> unterminated s e
        | Inr ts \<Rightarrow> paired ts \<and> tokens_within next (length s) ts"
        using "1.IH" [OF Some st refl] pr by simp
      show ?thesis
      proof (cases "tokenize_from rt s next")
        case (Inl e)
        then show ?thesis using IH Some st by (subst tokenize_from.simps) simp
      next
        case (Inr us)
        then have "paired us" "tokens_within next (length s) us" using IH by simp_all
        then have "paired (ts @ us)" "tokens_within i (length s) (ts @ us)"
          using lex_step_paired [OF st] lex_step_within [OF Some st] pr
          by (auto intro: paired_append tokens_within_append)
        then show ?thesis using Some st Inr by (subst tokenize_from.simps) simp
      qed
    qed
  qed
qed

section \<open>Properties\<close>

text \<open>
  The tokenizer answers every input: either a token stream whose offsets are in order and
  within the query (so the frontend's caret always has a place) and in which each keyword is
  followed by exactly one value, or the single lexical error, at a quote that no later quote
  closes.
\<close>

theorem tokenize_sound:
  "case tokenize rt s of
     Inl e \<Rightarrow> qe_message e = ''unterminated quoted string'' \<and> qe_position e < length s \<and>
        s ! qe_position e = quote \<and> quote \<notin> set (drop (qe_position e + 1) s)
   | Inr ts \<Rightarrow> paired ts \<and> sorted_wrt (\<le>) (map tok_pos ts) \<and>
        list_all (\<lambda>t. tok_pos t \<le> length s) ts"
  using tokenize_from_props [of 0 s rt]
  by (auto simp: tokenize_def unterminated_def tokens_within_def list_all_iff split: sum.splits)

end
