(* ===== verification/Query_Parser.thy ===== *)
theory Query_Parser
  imports Query_Lexer
begin

text \<open>
  The search language above the tokens: \<open>pkdump-core/src/query/ast.rs\<close>,
  \<open>registry.rs\<close> and \<open>parser.rs\<close>. The parser's position in its immutable token vector is
  modelled by the tokens still ahead of it. The five methods recurse on fuel; \<open>parse\<close> gives
  them \<open>4 n + 3\<close> for \<open>n\<close> tokens, which is shown to be enough for every input.
\<close>

section \<open>Syntax trees and the keyword registry\<close>

datatype Ast =
    And "Ast list"
  | Or "Ast list"
  | Not_ast Ast
  | Comparison (ast_keyword: string) (ast_op: Op) (ast_value: string)
  | NameSearch string
  | ExactName string

record KeywordDef =
  kd_canonical :: string
  kd_aliases :: "string list"
  kd_operators :: "string list"
  kd_kind :: string
  kd_target :: "string option"
  kd_value_enum :: "string option"
  kd_semantics :: "string option"
  kd_help :: "string option"

definition keyword_def :: "string \<Rightarrow> string list \<Rightarrow> KeywordDef" where
  "keyword_def canonical aliases =
     \<lparr>kd_canonical = canonical, kd_aliases = aliases, kd_operators = [], kd_kind = [],
      kd_target = None, kd_value_enum = None, kd_semantics = None, kd_help = None\<rparr>"

record KeywordRegistry =
  kr_defs :: "KeywordDef list"
  kr_alias_to_canonical :: "string \<rightharpoonup> string"

text \<open>The two nested loops of \<open>KeywordRegistry::new\<close>; a later insertion overwrites.\<close>

definition insert_aliases :: "string \<Rightarrow> string list \<Rightarrow> (string \<rightharpoonup> string) \<Rightarrow> (string \<rightharpoonup> string)" where
  "insert_aliases canonical aliases m =
     fold (\<lambda>alias m. m(to_ascii_lowercase alias \<mapsto> canonical)) aliases m"

definition registry_new :: "KeywordDef list \<Rightarrow> KeywordRegistry" where
  "registry_new defs =
     \<lparr>kr_defs = defs,
      kr_alias_to_canonical =
        fold (\<lambda>d m. insert_aliases (kd_canonical d) (kd_aliases d)
                      (m(to_ascii_lowercase (kd_canonical d) \<mapsto> kd_canonical d))) defs Map.empty\<rparr>"

definition resolve :: "KeywordRegistry \<Rightarrow> string \<Rightarrow> string option" where
  "resolve reg raw = kr_alias_to_canonical reg (to_ascii_lowercase raw)"

definition registry_get :: "KeywordRegistry \<Rightarrow> string \<Rightarrow> KeywordDef option" where
  "registry_get reg canonical = List.find (\<lambda>d. kd_canonical d = canonical) (kr_defs reg)"

definition registry_is_empty :: "KeywordRegistry \<Rightarrow> bool" where
  "registry_is_empty reg \<longleftrightarrow> kr_defs reg = []"

definition registry_len :: "KeywordRegistry \<Rightarrow> nat" where
  "registry_len reg = length (kr_defs reg)"

section \<open>The parser\<close>

fun tok_text :: "Tok \<Rightarrow> string" where
  "tok_text LParen = ''(''"
| "tok_text RParen = '')''"
| "tok_text Negate = ''-''"
| "tok_text (TExactName s) = ''!'' @ s"
| "tok_text (Keyword name op) = name @ op_as_str op"
| "tok_text (Value s) = s"
| "tok_text (Word s) = s"

definition peek :: "Token list \<Rightarrow> Tok option" where
  "peek ts = (case ts of [] \<Rightarrow> None | t # _ \<Rightarrow> Some (tok_kind t))"

definition is_word :: "string \<Rightarrow> Token list \<Rightarrow> bool" where
  "is_word kw ts = (case peek ts of Some (Word w) \<Rightarrow> eq_ignore_ascii_case w kw | _ \<Rightarrow> False)"

definition parse_comparison ::
  "KeywordRegistry \<Rightarrow> string \<Rightarrow> Op \<Rightarrow> nat \<Rightarrow> Token list \<Rightarrow> QueryError + (Ast \<times> Token list)" where
  "parse_comparison reg raw op kw_pos ts =
     (case ts of
        t # rest \<Rightarrow>
          (case tok_kind t of
             Value v \<Rightarrow>
               (case resolve reg raw of
                  Some canonical \<Rightarrow> Inr (Comparison canonical op v, rest)
                | None \<Rightarrow> Inl (query_error (''unknown keyword: '' @ [CHR 0x27] @ raw @ [CHR 0x27]) kw_pos))
           | _ \<Rightarrow> Inl (query_error (''expected a value after '' @ [CHR 0x27] @ raw @ op_as_str op @ [CHR 0x27]) kw_pos))
      | [] \<Rightarrow> Inl (query_error (''expected a value after '' @ [CHR 0x27] @ raw @ op_as_str op @ [CHR 0x27]) kw_pos))"

definition push_or :: "Ast \<Rightarrow> Ast \<Rightarrow> Ast" where
  "push_or left right = (case left of Or children \<Rightarrow> Or (children @ [right]) | other \<Rightarrow> Or [other, right])"

text \<open>
  \<open>None\<close> is "out of fuel". \<open>or_loop\<close> and \<open>and_loop\<close> are the loops of \<open>parse_or\<close> and
  \<open>parse_and\<close> with their accumulated left operand and children.
\<close>

type_synonym parsed = "(QueryError + (Ast \<times> Token list)) option"

text \<open>The \<open>?\<close> operator: an error, or no fuel left, ends the caller too.\<close>

definition try_parse :: "parsed \<Rightarrow> (Ast \<Rightarrow> Token list \<Rightarrow> parsed) \<Rightarrow> parsed" where
  "try_parse p k = (case p of Some (Inr (a, ts)) \<Rightarrow> k a ts | err \<Rightarrow> err)"

fun parse_or :: "KeywordRegistry \<Rightarrow> nat \<Rightarrow> nat \<Rightarrow> Token list \<Rightarrow> parsed"
and or_loop :: "KeywordRegistry \<Rightarrow> nat \<Rightarrow> nat \<Rightarrow> Ast \<Rightarrow> Token list \<Rightarrow> parsed"
and parse_and :: "KeywordRegistry \<Rightarrow> nat \<Rightarrow> nat \<Rightarrow> Token list \<Rightarrow> parsed"
and and_loop :: "KeywordRegistry \<Rightarrow> nat \<Rightarrow> nat \<Rightarrow> Ast list \<Rightarrow> Token list \<Rightarrow> parsed"
and parse_atom :: "KeywordRegistry \<Rightarrow> nat \<Rightarrow> nat \<Rightarrow> Token list \<Rightarrow> parsed" where
  "parse_or reg eof 0 ts = None"
| "parse_or reg eof (Suc n) ts =
     try_parse (parse_and reg eof n ts) (\<lambda>left ts'. or_loop reg eof n left ts')"
| "or_loop reg eof 0 left ts = None"
| "or_loop reg eof (Suc n) left ts =
     (if is_word ''or'' ts
      then try_parse (parse_and reg eof n (tl ts))
             (\<lambda>right ts'. or_loop reg eof n (push_or left right) ts')
      else Some (Inr (left, ts)))"
| "parse_and reg eof 0 ts = None"
| "parse_and reg eof (Suc n) ts =
     try_parse (parse_atom reg eof n ts) (\<lambda>a ts'. and_loop reg eof n [a] ts')"
| "and_loop reg eof 0 children ts = None"
| "and_loop reg eof (Suc n) children ts =
     (if peek ts = Some RParen \<or> peek ts = None \<or> is_word ''or'' ts
      then Some (Inr (if length children = 1 then last children else And children, ts))
      else if is_word ''and'' ts then and_loop reg eof n children (tl ts)
      else try_parse (parse_atom reg eof n ts) (\<lambda>a ts'. and_loop reg eof n (children @ [a]) ts'))"
| "parse_atom reg eof 0 ts = None"
| "parse_atom reg eof (Suc n) [] = Some (Inl (query_error ''unexpected end of query'' eof))"
| "parse_atom reg eof (Suc n) (t # ts) =
     (case tok_kind t of
        Negate \<Rightarrow> try_parse (parse_atom reg eof n ts) (\<lambda>a ts'. Some (Inr (Not_ast a, ts')))
      | LParen \<Rightarrow>
          try_parse (parse_or reg eof n ts)
            (\<lambda>inner ts'. if peek ts' = Some RParen then Some (Inr (inner, tl ts'))
                         else Some (Inl (query_error ''missing closing parenthesis'' (tok_pos t))))
      | TExactName name \<Rightarrow> Some (Inr (ExactName name, ts))
      | Keyword name op \<Rightarrow> Some (parse_comparison reg name op (tok_pos t) ts)
      | Word word \<Rightarrow> Some (Inr (NameSearch word, ts))
      | Value value \<Rightarrow> Some (Inr (NameSearch value, ts))
      | RParen \<Rightarrow> Some (Inl (query_error (''unexpected '' @ [CHR 0x27] @ '')'' @ [CHR 0x27]) (tok_pos t))))"

lemmas parser_simps = parse_or.simps or_loop.simps parse_and.simps and_loop.simps parse_atom.simps
lemmas parser_induct = parse_or_or_loop_parse_and_and_loop_parse_atom.induct
declare parser_simps [simp del]

lemma try_parse_Some:
  "try_parse p k = Some r \<longleftrightarrow>
   (\<exists>e. p = Some (Inl e) \<and> r = Inl e) \<or> (\<exists>a ts. p = Some (Inr (a, ts)) \<and> k a ts = Some r)"
  by (auto simp: try_parse_def split: option.splits sum.splits)

lemma try_parse_total:
  "p \<noteq> None \<Longrightarrow> (\<And>a ts. p = Some (Inr (a, ts)) \<Longrightarrow> k a ts \<noteq> None) \<Longrightarrow> try_parse p k \<noteq> None"
  by (auto simp: try_parse_def split: option.splits sum.splits)

definition enough_fuel :: "Token list \<Rightarrow> nat" where
  "enough_fuel ts = 4 * length ts + 3"

definition parse :: "runtime \<Rightarrow> KeywordRegistry \<Rightarrow> string \<Rightarrow> (QueryError + Ast) option" where
  "parse rt reg input =
     (case tokenize rt input of
        Inl e \<Rightarrow> Some (Inl e)
      | Inr tokens \<Rightarrow>
          if tokens = [] then Some (Inl (query_error ''empty search query'' 0))
          else (case parse_or reg (length input) (enough_fuel tokens) tokens of
                  Some (Inr (ast, [])) \<Rightarrow> Some (Inr ast)
                | Some (Inr (ast, tok # _)) \<Rightarrow>
                    Some (Inl (query_error (''unexpected token near '' @ [CHR 0x27] @ tok_text (tok_kind tok) @ [CHR 0x27])
                                 (tok_pos tok)))
                | Some (Inl e) \<Rightarrow> Some (Inl e)
                | None \<Rightarrow> None))"

section \<open>Fuel\<close>

lemma peek_is_word_nonempty: "is_word kw ts \<Longrightarrow> ts \<noteq> []"
  by (auto simp: is_word_def peek_def)

lemma peek_Some_nonempty: "peek ts = Some k \<Longrightarrow> ts \<noteq> []"
  by (auto simp: peek_def)

lemma parse_comparison_shorter:
  "parse_comparison reg raw op p ts = Inr (a, ts') \<Longrightarrow> length ts' < length ts"
  by (auto simp: parse_comparison_def split: list.splits Tok.splits option.splits)

text \<open>Each parser consumes at least one token, each loop none or more.\<close>

lemma tl_shorter: "length xs \<le> length (tl ts) \<Longrightarrow> ts \<noteq> [] \<Longrightarrow> length xs < length ts"
  by (cases ts) auto

lemma parse_consumes:
  "\<And>a ts'. parse_or reg eof n ts = Some (Inr (a, ts')) \<Longrightarrow> length ts' < length ts"
  "\<And>a ts'. or_loop reg eof n left ts = Some (Inr (a, ts')) \<Longrightarrow> length ts' \<le> length ts"
  "\<And>a ts'. parse_and reg eof n ts = Some (Inr (a, ts')) \<Longrightarrow> length ts' < length ts"
  "\<And>a ts'. and_loop reg eof n children ts = Some (Inr (a, ts')) \<Longrightarrow> length ts' \<le> length ts"
  "\<And>a ts'. parse_atom reg eof n ts = Some (Inr (a, ts')) \<Longrightarrow> length ts' < length ts"
proof (induction reg eof n ts and reg eof n left ts and reg eof n ts and reg eof n children ts
    and reg eof n ts rule: parser_induct)
  case (2 reg eof n ts)
  then show ?case unfolding parser_simps try_parse_Some by (blast intro: le_less_trans)
next
  case (4 reg eof n left ts)
  show ?case
  proof (cases "is_word ''or'' ts")
    case True
    then obtain right us where p: "parse_and reg eof n (tl ts) = Some (Inr (right, us))"
      and l: "or_loop reg eof n (push_or left right) us = Some (Inr (a, ts'))"
      using 4 by (auto simp: parser_simps try_parse_Some)
    have "length us < length (tl ts)" "length ts' \<le> length us"
      using 4 True p l by blast+
    then show ?thesis by simp
  qed (use 4 in \<open>simp add: parser_simps\<close>)
next
  case (6 reg eof n ts)
  then show ?case unfolding parser_simps try_parse_Some by (blast intro: le_less_trans)
next
  case (8 reg eof n children ts)
  show ?case
  proof (cases "peek ts = Some RParen \<or> peek ts = None \<or> is_word ''or'' ts")
    case True
    then show ?thesis using 8 by (simp add: parser_simps)
  next
    case False
    show ?thesis
    proof (cases "is_word ''and'' ts")
      case True
      have "and_loop reg eof n children (tl ts) = Some (Inr (a, ts'))"
        using 8(4) False True by (simp add: parser_simps)
      then have "length ts' \<le> length (tl ts)" using 8(1) [OF False True] by blast
      then show ?thesis by simp
    next
      case nand: False
      obtain x us where p: "parse_atom reg eof n ts = Some (Inr (x, us))"
        and l: "and_loop reg eof n (children @ [x]) us = Some (Inr (a, ts'))"
        using 8(4) False nand by (auto simp: parser_simps try_parse_Some)
      have "length us < length ts" "length ts' \<le> length us"
        using 8(2) [OF False nand p] 8(3) [OF False nand] l by blast+
      then show ?thesis by simp
    qed
  qed
next
  case (11 reg eof n t ts)
  show ?case
  proof (cases "tok_kind t")
    case LParen
    then obtain inner us where p: "parse_or reg eof n ts = Some (Inr (inner, us))" and "ts' = tl us"
      using 11(3) by (auto simp: parser_simps try_parse_Some split: if_splits)
    moreover have "length us < length ts" using 11(1) [OF LParen p] by blast
    ultimately show ?thesis by simp
  next
    case Negate
    then obtain x where "parse_atom reg eof n ts = Some (Inr (x, ts'))"
      using 11(3) by (auto simp: parser_simps try_parse_Some)
    then have "length ts' < length ts" using 11(2) [OF Negate] by blast
    then show ?thesis by simp
  qed (use 11(3) in \<open>auto simp: parser_simps dest: parse_comparison_shorter\<close>)
qed (simp_all add: parser_simps)

lemma length_tl_word: "is_word kw ts \<Longrightarrow> length (tl ts) < length ts"
  by (cases ts) (auto simp: is_word_def peek_def)

lemma parse_enough_fuel:
  "4 * length ts + 3 \<le> n \<Longrightarrow> parse_or reg eof n ts \<noteq> None"
  "4 * length ts + 1 \<le> n \<Longrightarrow> or_loop reg eof n left ts \<noteq> None"
  "4 * length ts + 2 \<le> n \<Longrightarrow> parse_and reg eof n ts \<noteq> None"
  "4 * length ts + 2 \<le> n \<Longrightarrow> and_loop reg eof n children ts \<noteq> None"
  "4 * length ts + 1 \<le> n \<Longrightarrow> parse_atom reg eof n ts \<noteq> None"
proof (induction reg eof n ts and reg eof n left ts and reg eof n ts and reg eof n children ts
    and reg eof n ts rule: parser_induct)
  case (2 reg eof n ts)
  show ?case unfolding parser_simps
  proof (rule try_parse_total)
    show "parse_and reg eof n ts \<noteq> None" by (rule 2(1)) (use 2(3) in simp)
    fix a us assume p: "parse_and reg eof n ts = Some (Inr (a, us))"
    show "or_loop reg eof n a us \<noteq> None"
      by (rule 2(2)) (use 2(3) parse_consumes(3) [OF p] in simp)
  qed
next
  case (4 reg eof n left ts)
  show ?case
  proof (cases "is_word ''or'' ts")
    case True
    note l = length_tl_word [OF True]
    have "try_parse (parse_and reg eof n (tl ts)) (\<lambda>right ts'. or_loop reg eof n (push_or left right) ts') \<noteq> None"
    proof (rule try_parse_total)
      show "parse_and reg eof n (tl ts) \<noteq> None" by (rule 4(1) [OF True]) (use 4(3) l in simp)
      fix a us assume p: "parse_and reg eof n (tl ts) = Some (Inr (a, us))"
      show "or_loop reg eof n (push_or left a) us \<noteq> None"
        by (rule 4(2) [OF True]) (use 4(3) l parse_consumes(3) [OF p] in simp)
    qed
    with True show ?thesis by (simp add: parser_simps)
  qed (simp add: parser_simps)
next
  case (6 reg eof n ts)
  show ?case unfolding parser_simps
  proof (rule try_parse_total)
    show "parse_atom reg eof n ts \<noteq> None" by (rule 6(1)) (use 6(3) in simp)
    fix a us assume p: "parse_atom reg eof n ts = Some (Inr (a, us))"
    show "and_loop reg eof n [a] us \<noteq> None"
      by (rule 6(2)) (use 6(3) parse_consumes(5) [OF p] in simp)
  qed
next
  case (8 reg eof n children ts)
  have "try_parse (parse_atom reg eof n ts) (\<lambda>a ts'. and_loop reg eof n (children @ [a]) ts') \<noteq> None"
    if "\<not> (peek ts = Some RParen \<or> peek ts = None \<or> is_word ''or'' ts)" "\<not> is_word ''and'' ts"
  proof (rule try_parse_total)
    show "parse_atom reg eof n ts \<noteq> None" by (rule 8(2) [OF that]) (use 8(4) in simp)
    fix a us assume p: "parse_atom reg eof n ts = Some (Inr (a, us))"
    show "and_loop reg eof n (children @ [a]) us \<noteq> None"
      by (rule 8(3) [OF that]) (use 8(4) parse_consumes(5) [OF p] in simp)
  qed
  moreover have "and_loop reg eof n children (tl ts) \<noteq> None"
    if "\<not> (peek ts = Some RParen \<or> peek ts = None \<or> is_word ''or'' ts)" "is_word ''and'' ts"
    by (rule 8(1) [OF that]) (use 8(4) length_tl_word [OF that(2)] in simp)
  ultimately show ?case by (simp add: parser_simps)
next
  case (11 reg eof n t ts)
  have "try_parse (parse_or reg eof n ts)
          (\<lambda>inner ts'. if peek ts' = Some RParen then Some (Inr (inner, tl ts'))
             else Some (Inl (query_error ''missing closing parenthesis'' (tok_pos t)))) \<noteq> None"
    if "tok_kind t = LParen"
    by (rule try_parse_total, rule 11(1) [OF that]) (use 11(3) in auto)
  moreover have "try_parse (parse_atom reg eof n ts) (\<lambda>a ts'. Some (Inr (Not_ast a, ts'))) \<noteq> None"
    if "tok_kind t = Negate"
    by (rule try_parse_total, rule 11(2) [OF that]) (use 11(3) in auto)
  ultimately show ?case
    by (simp add: parser_simps split: Tok.split)
qed (simp_all add: parser_simps)

lemma try_parse_mono:
  assumes "try_parse p k = Some r"
    and "\<And>x. p = Some x \<Longrightarrow> p' = Some x"
    and "\<And>a ts. p = Some (Inr (a, ts)) \<Longrightarrow> k a ts = Some r \<Longrightarrow> k' a ts = Some r"
  shows "try_parse p' k' = Some r"
  using assms(1) unfolding try_parse_Some by (metis assms(2,3))

lemma parse_fuel_mono:
  "\<And>r. parse_or reg eof n ts = Some r \<Longrightarrow> parse_or reg eof (Suc n) ts = Some r"
  "\<And>r. or_loop reg eof n left ts = Some r \<Longrightarrow> or_loop reg eof (Suc n) left ts = Some r"
  "\<And>r. parse_and reg eof n ts = Some r \<Longrightarrow> parse_and reg eof (Suc n) ts = Some r"
  "\<And>r. and_loop reg eof n children ts = Some r \<Longrightarrow> and_loop reg eof (Suc n) children ts = Some r"
  "\<And>r. parse_atom reg eof n ts = Some r \<Longrightarrow> parse_atom reg eof (Suc n) ts = Some r"
proof (induction reg eof n ts and reg eof n left ts and reg eof n ts and reg eof n children ts
    and reg eof n ts rule: parser_induct)
  case (2 reg eof n ts)
  show ?case
    by (subst parse_or.simps(2), rule try_parse_mono [OF 2(3) [unfolded parse_or.simps(2)]])
      (erule 2(1), erule 2(2))
next
  case (4 reg eof n left ts)
  show ?case
  proof (cases "is_word ''or'' ts")
    case True
    then have "try_parse (parse_and reg eof n (tl ts))
        (\<lambda>right ts'. or_loop reg eof n (push_or left right) ts') = Some r"
      using 4(3) by (simp add: or_loop.simps(2))
    then have "try_parse (parse_and reg eof (Suc n) (tl ts))
        (\<lambda>right ts'. or_loop reg eof (Suc n) (push_or left right) ts') = Some r"
      by (rule try_parse_mono) (erule 4(1) [OF True], erule 4(2) [OF True])
    with True show ?thesis by (simp add: or_loop.simps(2) [of _ _ "Suc n"])
  qed (use 4(3) in \<open>simp add: or_loop.simps(2)\<close>)
next
  case (6 reg eof n ts)
  show ?case
    by (subst parse_and.simps(2), rule try_parse_mono [OF 6(3) [unfolded parse_and.simps(2)]])
      (erule 6(1), erule 6(2))
next
  case (8 reg eof n children ts)
  consider (stop) "peek ts = Some RParen \<or> peek ts = None \<or> is_word ''or'' ts"
    | (connector) "\<not> (peek ts = Some RParen \<or> peek ts = None \<or> is_word ''or'' ts)" "is_word ''and'' ts"
    | (atom) "\<not> (peek ts = Some RParen \<or> peek ts = None \<or> is_word ''or'' ts)" "\<not> is_word ''and'' ts"
    by blast
  then show ?case
  proof cases
    case stop
    then show ?thesis using 8(4) by (simp add: and_loop.simps(2))
  next
    case connector
    have "and_loop reg eof n children (tl ts) = Some r"
      using 8(4) unfolding and_loop.simps(2) if_not_P [OF connector(1)] if_P [OF connector(2)] .
    from 8(1) [OF connector this] show ?thesis
      unfolding and_loop.simps(2) [of _ _ "Suc n"] if_not_P [OF connector(1)] if_P [OF connector(2)] .
  next
    case atom
    then have "try_parse (parse_atom reg eof n ts) (\<lambda>a ts'. and_loop reg eof n (children @ [a]) ts') = Some r"
      using 8(4) unfolding and_loop.simps(2) if_not_P [OF atom(1)] if_not_P [OF atom(2)] by blast
    then have "try_parse (parse_atom reg eof (Suc n) ts)
        (\<lambda>a ts'. and_loop reg eof (Suc n) (children @ [a]) ts') = Some r"
      by (rule try_parse_mono) (erule 8(2) [OF atom], erule 8(3) [OF atom])
    then show ?thesis
      unfolding and_loop.simps(2) [of _ _ "Suc n"] if_not_P [OF atom(1)] if_not_P [OF atom(2)] .
  qed
next
  case (11 reg eof n t ts)
  note unf = parse_atom.simps(3) [of reg eof "Suc n" t ts] parse_atom.simps(3) [of reg eof n t ts]
  show ?case
  proof (cases "tok_kind t")
    case LParen
    note a = 11(3) [unfolded unf LParen Tok.case]
    show ?thesis unfolding unf LParen Tok.case
      by (rule try_parse_mono [OF a]) (erule 11(1) [OF LParen], assumption)
  next
    case Negate
    note a = 11(3) [unfolded unf Negate Tok.case]
    show ?thesis unfolding unf Negate Tok.case
      by (rule try_parse_mono [OF a]) (erule 11(2) [OF Negate], assumption)
  qed (use 11(3) in \<open>simp_all add: unf\<close>)
qed (simp_all add: parser_simps)

end
