(* ===== verification/Query_Grammar.thy ===== *)
theory Query_Grammar
  imports Query_Parser
begin

text \<open>
  What the search parser promises: an abstract grammar (\<open>spell\<close>, precedence levels or/and/atom)
  and the lemmas that the parser inverts it, answers every input, only builds normal
  trees and points every error into the query.
\<close>

section \<open>Results that hold for all large enough fuels\<close>






section \<open>The grammar\<close>




text \<open>The trees the parser can build.\<close>

fun normal_ast :: "KeywordRegistry \<Rightarrow> Ast \<Rightarrow> bool" where
  "normal_ast reg (And cs) \<longleftrightarrow> 2 \<le> length cs \<and> (\<forall>c \<in> set cs. normal_ast reg c)"
| "normal_ast reg (Or cs) \<longleftrightarrow>
     2 \<le> length cs \<and> (\<forall>ds. hd cs \<noteq> Or ds) \<and> (\<forall>c \<in> set cs. normal_ast reg c)"
| "normal_ast reg (Not_ast a) \<longleftrightarrow> normal_ast reg a"
| "normal_ast reg (Comparison k op v) \<longleftrightarrow> k \<in> ran (kr_alias_to_canonical reg)"
| "normal_ast reg (NameSearch w) \<longleftrightarrow> True"
| "normal_ast reg (ExactName s) \<longleftrightarrow> True"


section \<open>The parser inverts the grammar\<close>

definition stops :: "Token list \<Rightarrow> bool" where
  "stops ts \<longleftrightarrow> peek ts = Some RParen \<or> peek ts = None \<or> is_word ''or'' ts"




lemma peek_append: "ts \<noteq> [] \<Longrightarrow> peek (ts @ us) = peek ts"
  by (cases ts) (simp_all add: peek_def)



















section \<open>What the parser returns on a token stream of the lexer\<close>

definition sound_result ::
  "KeywordRegistry \<Rightarrow> nat \<Rightarrow> Token list \<Rightarrow> QueryError + (Ast \<times> Token list) \<Rightarrow> bool" where
  "sound_result reg eof ts r =
     (case r of
        Inl e \<Rightarrow> (qe_position e = eof \<or> qe_position e \<in> tok_pos ` set ts) \<and>
                 \<not> starts_with ''expected a value'' (qe_message e)
      | Inr (a, us) \<Rightarrow> normal_ast reg a \<and> paired us \<and> set us \<subseteq> set ts)"

lemma sound_result_more: "sound_result reg eof us r \<Longrightarrow> set us \<subseteq> set ts \<Longrightarrow> sound_result reg eof ts r"
  by (auto simp: sound_result_def split: sum.splits)

lemma sound_result_try:
  assumes "try_parse p k = Some r" "\<And>x. p = Some x \<Longrightarrow> sound_result reg eof ts x"
    and "\<And>a us. k a us = Some r \<Longrightarrow> normal_ast reg a \<Longrightarrow> paired us \<Longrightarrow> set us \<subseteq> set ts \<Longrightarrow>
           sound_result reg eof us r"
  shows "sound_result reg eof ts r"
  using assms(1) unfolding try_parse_Some
proof (elim disjE exE conjE)
  fix e assume "p = Some (Inl e)" "r = Inl e"
  then show ?thesis using assms(2) by simp
next
  fix a us assume p: "p = Some (Inr (a, us))" and k: "k a us = Some r"
  then have "normal_ast reg a" "paired us" "set us \<subseteq> set ts"
    using assms(2) [OF p] by (simp_all add: sound_result_def)
  then show ?thesis using assms(3) [OF k] sound_result_more by blast
qed

lemma paired_tl: "is_word kw ts \<Longrightarrow> paired ts \<Longrightarrow> paired (tl ts)"
  by (cases ts) (auto simp: is_word_def peek_def split: Tok.splits)

lemma set_tl: "set (tl ts) \<subseteq> set ts"
  by (cases ts) auto

lemma normal_push_or:
  "normal_ast reg l \<Longrightarrow> normal_ast reg r \<Longrightarrow> normal_ast reg (push_or l r)"
  by (cases l) (auto simp: push_or_def hd_append)

lemma normal_and:
  "children \<noteq> [] \<Longrightarrow> \<forall>c \<in> set children. normal_ast reg c \<Longrightarrow>
   normal_ast reg (if length children = 1 then last children else And children)"
  by (cases children rule: rev_cases) (auto simp: Suc_le_eq)

lemma resolve_ran: "resolve reg raw = Some k \<Longrightarrow> k \<in> ran (kr_alias_to_canonical reg)"
  by (auto simp: resolve_def ran_def)

lemma parse_sound:
  "\<And>r. parse_or reg eof n ts = Some r \<Longrightarrow> paired ts \<Longrightarrow> sound_result reg eof ts r"
  "\<And>r. or_loop reg eof n left ts = Some r \<Longrightarrow> paired ts \<Longrightarrow> normal_ast reg left \<Longrightarrow>
     sound_result reg eof ts r"
  "\<And>r. parse_and reg eof n ts = Some r \<Longrightarrow> paired ts \<Longrightarrow> sound_result reg eof ts r"
  "\<And>r. and_loop reg eof n children ts = Some r \<Longrightarrow> paired ts \<Longrightarrow>
     children \<noteq> [] \<and> (\<forall>c \<in> set children. normal_ast reg c) \<Longrightarrow> sound_result reg eof ts r"
  "\<And>r. parse_atom reg eof n ts = Some r \<Longrightarrow> paired ts \<Longrightarrow> sound_result reg eof ts r"
proof (induction reg eof n ts and reg eof n left ts and reg eof n ts and reg eof n children ts
    and reg eof n ts rule: parser_induct)
  case (2 reg eof n ts)
  show ?case
    by (rule sound_result_try [OF 2(3) [unfolded parse_or.simps(2)]])
      (erule 2(1) [OF _ 2(4)], erule 2(2))
next
  case (4 reg eof n left ts)
  show ?case
  proof (cases "is_word ''or'' ts")
    case True
    have "try_parse (parse_and reg eof n (tl ts))
        (\<lambda>right ts'. or_loop reg eof n (push_or left right) ts') = Some r"
      using 4(3) True by (simp add: or_loop.simps(2))
    then have "sound_result reg eof (tl ts) r"
      by (rule sound_result_try)
        (erule 4(1) [OF True _ paired_tl [OF True 4(4)]],
          erule 4(2) [OF True], assumption, rule normal_push_or [OF 4(5)])
    then show ?thesis by (rule sound_result_more [OF _ set_tl])
  qed (use 4(3-5) in \<open>auto simp: or_loop.simps(2) sound_result_def\<close>)
next
  case (6 reg eof n ts)
  show ?case
    by (rule sound_result_try [OF 6(3) [unfolded parse_and.simps(2)]])
      (erule 6(1) [OF _ 6(4)], erule 6(2), assumption, simp)
next
  case (8 reg eof n children ts)
  consider (stop) "stops ts" | (connector) "\<not> stops ts" "is_word ''and'' ts"
    | (atom) "\<not> stops ts" "\<not> is_word ''and'' ts" by blast
  then show ?case
  proof cases
    case stop
    then have "r = Inr (if length children = 1 then last children else And children, ts)"
      using 8(4) unfolding and_loop.simps(2) if_P [OF stop [unfolded stops_def]] by simp
    then show ?thesis using normal_and 8(5,6) by (simp add: sound_result_def)
  next
    case connector
    note c = connector [unfolded stops_def]
    have "and_loop reg eof n children (tl ts) = Some r"
      using 8(4) unfolding and_loop.simps(2) if_not_P [OF c(1)] if_P [OF c(2)] .
    from 8(1) [OF c this paired_tl [OF c(2) 8(5)] 8(6)] show ?thesis
      by (rule sound_result_more [OF _ set_tl])
  next
    case atom
    note c = atom [unfolded stops_def]
    have "try_parse (parse_atom reg eof n ts) (\<lambda>a ts'. and_loop reg eof n (children @ [a]) ts') = Some r"
      using 8(4) unfolding and_loop.simps(2) if_not_P [OF c(1)] if_not_P [OF c(2)] by blast
    then show ?thesis
      by (rule sound_result_try) (erule 8(2) [OF c _ 8(5)], erule 8(3) [OF c], assumption, use 8(6) in auto)
  qed
next
  case (10 reg eof n)
  then show ?case
    by (auto simp: parse_atom.simps(2) sound_result_def query_error_def starts_with_def)
next
  case (11 reg eof n t ts)
  show ?case
  proof (cases "tok_kind t")
    case LParen
    then have p: "paired ts" using 11(4) by simp
    note a = 11(3) [unfolded parse_atom.simps(3) LParen Tok.case]
    have k: "sound_result reg eof (t # us) r"
      if "(if peek us = Some RParen then Some (Inr (inner, tl us))
           else Some (Inl (query_error ''missing closing parenthesis'' (tok_pos t)))) = Some r"
        "normal_ast reg inner" "paired us" for inner us
      using that by (cases us)
        (auto simp: sound_result_def query_error_def starts_with_def peek_def split: if_splits Tok.splits)
    show ?thesis
      using a unfolding try_parse_Some
    proof (elim disjE exE conjE)
      fix e assume "parse_or reg eof n ts = Some (Inl e)" "r = Inl e"
      then show ?thesis using 11(1) [OF LParen _ p] sound_result_more [of reg eof ts r "t # ts"] by auto
    next
      fix inner us
      assume o: "parse_or reg eof n ts = Some (Inr (inner, us))" and q: "(if peek us = Some RParen
          then Some (Inr (inner, tl us))
          else Some (Inl (query_error ''missing closing parenthesis'' (tok_pos t)))) = Some r"
      then have "normal_ast reg inner" "paired us" "set us \<subseteq> set ts"
        using 11(1) [OF LParen o p] by (simp_all add: sound_result_def)
      then show ?thesis using k [OF q] sound_result_more [of reg eof "t # us" r "t # ts"] by auto
    qed
  next
    case Negate
    then have p: "paired ts" using 11(4) by simp
    note a = 11(3) [unfolded parse_atom.simps(3) Negate Tok.case]
    have "sound_result reg eof ts r"
      by (rule sound_result_try [OF a]) (erule 11(2) [OF Negate _ p], auto simp: sound_result_def)
    then show ?thesis by (rule sound_result_more) auto
  next
    case (Keyword k op)
    then obtain v rest x where "ts = v # rest" "tok_kind v = Value x" "paired rest"
      using 11(4) by (auto split: list.splits)
    then show ?thesis
      using 11(3) Keyword
      by (auto simp: parse_atom.simps(3) parse_comparison_def sound_result_def query_error_def
          starts_with_def resolve_ran split: option.splits)
  qed (use 11(3,4) in \<open>auto simp: parse_atom.simps(3) sound_result_def query_error_def starts_with_def\<close>)
qed (simp_all add: parser_simps)

section \<open>Queries as text\<close>












section \<open>The lexer reads the text back\<close>






















section \<open>Properties\<close>




text \<open>
  Parsing always ends with an answer: an error whose position lies within the query (and
  which is never the internal "expected a value" case, since the lexer pairs every keyword with a
  value), or a tree in normal form: and/or nodes have at least two children, an or node never starts
  with an or node, and every comparison names a canonical keyword of the registry.
\<close>

theorem parse_answers:
  "\<exists>r. parse rt reg input = Some r \<and>
     (case r of
        Inl e \<Rightarrow> qe_position e \<le> length input \<and> \<not> starts_with ''expected a value'' (qe_message e)
      | Inr a \<Rightarrow> normal_ast reg a)"
proof (cases "tokenize rt input")
  case (Inl e)
  then show ?thesis
    using tokenize_from_props [of 0 input rt]
    by (auto simp: parse_def tokenize_def unterminated_def starts_with_def)
next
  case (Inr ts)
  then have p: "paired ts" and w: "\<forall>t \<in> set ts. tok_pos t \<le> length input"
    using tokenize_from_props [of 0 input rt] by (auto simp: tokenize_def tokens_within_def)
  show ?thesis
  proof (cases "ts = []")
    case True
    then show ?thesis by (simp add: parse_def Inr query_error_def starts_with_def)
  next
    case False
    obtain r where r: "parse_or reg (length input) (enough_fuel ts) ts = Some r"
      using parse_enough_fuel(1) [of ts "enough_fuel ts" reg] by (force simp: enough_fuel_def)
    have s: "sound_result reg (length input) ts r" by (rule parse_sound(1) [OF r p])
    show ?thesis
      using s w by (cases r)
        (auto simp: parse_def Inr False r sound_result_def query_error_def starts_with_def split: list.splits)
  qed
qed

text \<open>The map of a registry agrees with a list of (lowercased name, canonical) insertions.\<close>

definition registry_entries :: "KeywordDef list \<Rightarrow> (string \<times> string) list" where
  "registry_entries defs =
     concat (map (\<lambda>d. map (\<lambda>n. (to_ascii_lowercase n, kd_canonical d)) (kd_canonical d # kd_aliases d)) defs)"

lemma insert_aliases_fold:
  "insert_aliases k as m = fold (\<lambda>(n, c) m. m(n \<mapsto> c)) (map (\<lambda>n. (to_ascii_lowercase n, k)) as) m"
  by (induction as arbitrary: m) (simp_all add: insert_aliases_def)

lemma registry_new_entries:
  "kr_alias_to_canonical (registry_new defs) = fold (\<lambda>(n, c) m. m(n \<mapsto> c)) (registry_entries defs) Map.empty"
proof -
  have "fold (\<lambda>d m. insert_aliases (kd_canonical d) (kd_aliases d)
          (m(to_ascii_lowercase (kd_canonical d) \<mapsto> kd_canonical d))) defs m =
        fold (\<lambda>(n, c) m. m(n \<mapsto> c)) (registry_entries defs) m" for m
    by (induction defs arbitrary: m) (simp_all add: registry_entries_def insert_aliases_fold fold_append)
  then show ?thesis by (simp add: registry_new_def)
qed

lemma fold_update_map_of: "fold (\<lambda>(n, c) m. m(n \<mapsto> c)) es m = m ++ map_of (rev es)"
  by (induction es arbitrary: m) (auto simp: map_add_def fun_eq_iff split: option.splits)

text \<open>
  Keyword resolution: a name resolves, in any spelling of its ASCII case, to the definition
  inserted last under it; so the canonical name of a definition resolves to itself exactly when
  no later definition claims the same name.
\<close>

theorem resolve_last_definition:
  "resolve (registry_new defs) raw = map_of (rev (registry_entries defs)) (to_ascii_lowercase raw)"
  by (simp add: resolve_def registry_new_entries fold_update_map_of)

end
