(* ===== verification/Import_Csv.thy ===== *)
theory Import_Csv
  imports Text
begin

text \<open>
  The CSV import parsers, \<open>pkdump-core/src/import/\<close>: the shared column mappings
  (\<open>mod.rs\<close>) and the four formats (\<open>manabox.rs\<close>, \<open>tcgplayer.rs\<close>, \<open>pokedumpster.rs\<close>,
  \<open>collectr.rs\<close>). The CSV reader itself is the runtime's \<open>csv_headers\<close> and
  \<open>csv_records\<close>. Each format resolves its columns once (a record of column numbers) and then
  handles record after record; a quantity of \<open>q\<close> copies is \<open>replicate q\<close>.
\<close>

section \<open>Rows and errors\<close>

record ParsedRow =
  pr_source_line :: nat
  pr_set_hint :: string
  pr_set_name :: "string option"
  pr_name :: "string option"
  pr_number :: string
  pr_variant :: string
  pr_condition :: string
  pr_language :: string
  pr_purchase_price :: "f64 option"
  pr_acquired_at :: "string option"
  pr_tags :: "string list"

record ParsedSealedRow =
  ps_source_line :: nat
  ps_name :: string
  ps_set_hint :: string
  ps_set_name :: "string option"
  ps_category_hint :: "string option"
  ps_quantity :: nat
  ps_condition :: string
  ps_purchase_price :: "f64 option"
  ps_purchase_date :: "string option"
  ps_notes :: "string option"

datatype ImportError = Csv string | MissingColumn string | BadRow nat string

section \<open>Column values\<close>

definition map_condition :: "runtime \<Rightarrow> string \<Rightarrow> string" where
  "map_condition rt raw =
     (let c = str_lower rt (trim raw);
          c = (case strip_suffix '' foil'' c of Some d \<Rightarrow> d | None \<Rightarrow> c);
          k = map (\<lambda>x. if x = CHR '' '' \<or> x = CHR ''-'' then CHR ''_'' else x) c in
      if k \<in> set [''excellent'', ''good'', ''light_played'', ''lightly_played'', ''lp'']
      then ''Lightly Played''
      else if k \<in> set [''played'', ''moderately_played'', ''mp''] then ''Moderately Played''
      else if k \<in> set [''heavily_played'', ''hp''] then ''Heavily Played''
      else if k \<in> set [''poor'', ''damaged'', ''dmg''] then ''Damaged''
      else ''Near Mint'')"

definition map_language :: "runtime \<Rightarrow> string \<Rightarrow> string" where
  "map_language rt raw =
     (let other = str_lower rt (trim raw) in
      if other \<in> set ['''', ''en'', ''english''] then ''English''
      else case chars other of
             f # rest \<Rightarrow> char_upper rt f @ concat rest
           | [] \<Rightarrow> ''English'')"

definition is_true :: "runtime \<Rightarrow> string \<Rightarrow> bool" where
  "is_true rt s \<longleftrightarrow> str_lower rt (trim s) \<in> set [''true'', ''1'', ''yes'']"

definition normalize_collector_number :: "string \<Rightarrow> string" where
  "normalize_collector_number raw =
     (let s = trim raw in
      if s \<noteq> [] \<and> list_all is_digit s
      then let stripped = trim_start_char (CHR ''0'') s in
           if stripped = [] then ''0'' else stripped
      else s)"

section \<open>Shared reader code\<close>

definition header_map :: "runtime \<Rightarrow> string list \<Rightarrow> (string \<rightharpoonup> nat)" where
  "header_map rt hs = map_of (rev (zip (map (\<lambda>h. str_lower rt (trim h)) hs) [0..<length hs]))"

definition first_column :: "(string \<rightharpoonup> nat) \<Rightarrow> string list \<Rightarrow> nat option" where
  "first_column headers names =
     (case List.find (\<lambda>n. headers n \<noteq> None) names of Some n \<Rightarrow> headers n | None \<Rightarrow> None)"

definition cell :: "string list \<Rightarrow> nat option \<Rightarrow> string" where
  "cell rec c = trim (case c of
      Some i \<Rightarrow> if i < length rec then rec ! i else []
    | None \<Rightarrow> [])"

definition or_missing :: "string \<Rightarrow> 'a option \<Rightarrow> ImportError + 'a" where
  "or_missing column c = (case c of Some i \<Rightarrow> Inr i | None \<Rightarrow> Inl (MissingColumn column))"

definition parse_quantity :: "nat \<Rightarrow> string \<Rightarrow> string \<Rightarrow> ImportError + nat" where
  "parse_quantity line label raw =
     (if raw = [] then Inr 1
      else case parse_u32 raw of
             Some q \<Rightarrow> Inr q
           | None \<Rightarrow> Inl (BadRow line (''non-numeric '' @ label @ '' '' @ quoted raw)))"

definition parse_price_cell :: "runtime \<Rightarrow> nat \<Rightarrow> string \<Rightarrow> string \<Rightarrow> ImportError + f64 option" where
  "parse_price_cell rt line label raw =
     (if raw = [] then Inr None
      else case parse_f64 rt raw of
             Some p \<Rightarrow> Inr (Some p)
           | None \<Rightarrow> Inl (BadRow line (''non-numeric '' @ label @ '' '' @ quoted raw)))"

text \<open>The loop over \<open>reader.records().enumerate()\<close>; \<open>line\<close> is \<open>rec_i + 2\<close>.\<close>

fun import_rows ::
  "(nat \<Rightarrow> string list \<Rightarrow> ImportError + 'a list) \<Rightarrow> nat \<Rightarrow> (string + string list) list \<Rightarrow>
   ImportError + 'a list" where
  "import_rows f line [] = Inr []"
| "import_rows f line (Inl e # rs) = Inl (Csv e)"
| "import_rows f line (Inr r # rs) =
     and_then (f line r) (\<lambda>rows. and_then (import_rows f (line + 1) rs) (\<lambda>more_rows. Inr (rows @ more_rows)))"

section \<open>ManaBox\<close>

record ManaboxCols =
  mb_number :: nat
  mb_set_code :: "nat option"
  mb_set_name :: "nat option"
  mb_foil :: "nat option"
  mb_quantity :: "nat option"
  mb_condition :: "nat option"
  mb_language :: "nat option"
  mb_price :: "nat option"
  mb_misprint :: "nat option"
  mb_altered :: "nat option"

definition manabox_columns :: "(string \<rightharpoonup> nat) \<Rightarrow> ImportError + ManaboxCols" where
  "manabox_columns headers =
     and_then (or_missing ''Collector number'' (headers ''collector number'')) (\<lambda>number.
     if headers ''set code'' = None \<and> headers ''set name'' = None
     then Inl (MissingColumn ''Set code / Set name'')
     else Inr \<lparr>mb_number = number, mb_set_code = headers ''set code'',
               mb_set_name = headers ''set name'', mb_foil = headers ''foil'',
               mb_quantity = headers ''quantity'', mb_condition = headers ''condition'',
               mb_language = headers ''language'', mb_price = headers ''purchase price'',
               mb_misprint = headers ''misprint'', mb_altered = headers ''altered''\<rparr>)"

definition manabox_variant :: "runtime \<Rightarrow> string \<Rightarrow> string" where
  "manabox_variant rt foil =
     (let v = str_lower rt (trim foil) in
      if v \<in> set ['''', ''non-foil'', ''nonfoil''] then ''normal''
      else if v \<in> set [''foil'', ''holofoil'', ''etched''] then ''holo''
      else if v \<in> set [''reverseholofoil'', ''reverse holofoil'', ''reverse holo''] then ''reverse_holo''
      else v)"

definition manabox_record ::
  "runtime \<Rightarrow> ManaboxCols \<Rightarrow> nat \<Rightarrow> string list \<Rightarrow> ImportError + ParsedRow list" where
  "manabox_record rt cols line rec =
     (let number = cell rec (Some (mb_number cols)) in
      if number = [] then Inl (BadRow line ''empty Collector number'')
      else
      let set_code = cell rec (mb_set_code cols);
          set_name = cell rec (mb_set_name cols);
          set_hint = (if set_code = [] then set_name else set_code) in
      if set_hint = [] then Inl (BadRow line ''empty Set code and Set name'')
      else
      and_then (parse_quantity line ''Quantity'' (cell rec (mb_quantity cols))) (\<lambda>quantity.
      and_then (parse_price_cell rt line ''Purchase price'' (cell rec (mb_price cols))) (\<lambda>price.
      Inr (replicate quantity
        \<lparr>pr_source_line = line, pr_set_hint = set_hint,
         pr_set_name = (if set_name \<noteq> [] then Some set_name else None), pr_name = None,
         pr_number = number, pr_variant = manabox_variant rt (cell rec (mb_foil cols)),
         pr_condition = map_condition rt (cell rec (mb_condition cols)),
         pr_language = map_language rt (cell rec (mb_language cols)),
         pr_purchase_price = price, pr_acquired_at = None,
         pr_tags = (if is_true rt (cell rec (mb_misprint cols)) then [''misprint''] else []) @
                   (if is_true rt (cell rec (mb_altered cols)) then [''altered''] else [])\<rparr>))))"

definition manabox_parse :: "runtime \<Rightarrow> string \<Rightarrow> ImportError + ParsedRow list" where
  "manabox_parse rt input =
     (case csv_headers rt input of
        Inl e \<Rightarrow> Inl (Csv e)
      | Inr hs \<Rightarrow> and_then (manabox_columns (header_map rt hs)) (\<lambda>cols.
          import_rows (manabox_record rt cols) 2 (csv_records rt input)))"

section \<open>TCGplayer\<close>

record TcgplayerCols =
  tp_number :: nat
  tp_set_code :: "nat option"
  tp_set_name :: "nat option"
  tp_printing :: "nat option"
  tp_quantity :: "nat option"
  tp_condition :: "nat option"
  tp_language :: "nat option"
  tp_price :: "nat option"

definition tcgplayer_columns :: "(string \<rightharpoonup> nat) \<Rightarrow> ImportError + TcgplayerCols" where
  "tcgplayer_columns headers =
     (let first = first_column headers in
      and_then (or_missing ''Card Number'' (first [''card number'', ''collector number'', ''number''])) (\<lambda>number.
      if first [''set code''] = None \<and> first [''set'', ''set name''] = None
      then Inl (MissingColumn ''Set / Set Code'')
      else Inr \<lparr>tp_number = number, tp_set_code = first [''set code''],
                tp_set_name = first [''set'', ''set name''], tp_printing = first [''printing''],
                tp_quantity = first [''quantity'', ''qty'', ''add to quantity''],
                tp_condition = first [''condition''], tp_language = first [''language''],
                tp_price = first [''purchase price'', ''price'']\<rparr>))"

definition tcgplayer_variant :: "runtime \<Rightarrow> string \<Rightarrow> string" where
  "tcgplayer_variant rt printing =
     (let v = str_lower rt (trim printing) in
      if v \<in> set [''holofoil'', ''holo''] then ''holo''
      else if v \<in> set [''reverse holofoil'', ''reverse holo''] then ''reverse_holo''
      else if v = ''1st edition holofoil'' then ''first_ed_holo''
      else if v \<in> set [''1st edition'', ''1st edition normal''] then ''first_ed_normal''
      else if v = ''unlimited holofoil'' then ''unlimited_holo''
      else ''normal'')"

definition tcgplayer_record ::
  "runtime \<Rightarrow> TcgplayerCols \<Rightarrow> nat \<Rightarrow> string list \<Rightarrow> ImportError + ParsedRow list" where
  "tcgplayer_record rt cols line rec =
     (let number = cell rec (Some (tp_number cols)) in
      if number = [] then Inl (BadRow line ''empty Card Number'')
      else
      let set_code = cell rec (tp_set_code cols);
          set_name = cell rec (tp_set_name cols);
          set_hint = (if set_code = [] then set_name else set_code) in
      if set_hint = [] then Inl (BadRow line ''empty Set'')
      else
      and_then (parse_quantity line ''Quantity'' (cell rec (tp_quantity cols))) (\<lambda>quantity.
      and_then (parse_price_cell rt line ''Price'' (trim_start_char (CHR ''$'') (cell rec (tp_price cols)))) (\<lambda>price.
      Inr (replicate quantity
        \<lparr>pr_source_line = line, pr_set_hint = set_hint,
         pr_set_name = (if set_name \<noteq> [] then Some set_name else None), pr_name = None,
         pr_number = number, pr_variant = tcgplayer_variant rt (cell rec (tp_printing cols)),
         pr_condition = map_condition rt (cell rec (tp_condition cols)),
         pr_language = map_language rt (cell rec (tp_language cols)),
         pr_purchase_price = price, pr_acquired_at = None, pr_tags = []\<rparr>))))"

definition tcgplayer_parse :: "runtime \<Rightarrow> string \<Rightarrow> ImportError + ParsedRow list" where
  "tcgplayer_parse rt input =
     (case csv_headers rt input of
        Inl e \<Rightarrow> Inl (Csv e)
      | Inr hs \<Rightarrow> and_then (tcgplayer_columns (header_map rt hs)) (\<lambda>cols.
          import_rows (tcgplayer_record rt cols) 2 (csv_records rt input)))"

section \<open>PokeDumpster\<close>

record PokedumpsterCols =
  pd_number :: nat
  pd_variant :: nat
  pd_set_code :: "nat option"
  pd_ptcgo :: "nat option"
  pd_quantity :: "nat option"
  pd_condition :: "nat option"
  pd_language :: "nat option"
  pd_price :: "nat option"
  pd_notes :: "nat option"

definition pokedumpster_columns :: "(string \<rightharpoonup> nat) \<Rightarrow> ImportError + PokedumpsterCols" where
  "pokedumpster_columns headers =
     (let first = first_column headers in
      and_then (or_missing ''number'' (first [''number'', ''collector number''])) (\<lambda>number.
      and_then (or_missing ''variant'' (first [''variant''])) (\<lambda>variant.
      if first [''set_code'', ''set code''] = None \<and> first [''ptcgo_code'', ''ptcgo code''] = None
      then Inl (MissingColumn ''set_code / ptcgo_code'')
      else Inr \<lparr>pd_number = number, pd_variant = variant,
                pd_set_code = first [''set_code'', ''set code''],
                pd_ptcgo = first [''ptcgo_code'', ''ptcgo code''],
                pd_quantity = first [''quantity'', ''qty''],
                pd_condition = first [''condition''], pd_language = first [''language''],
                pd_price = first [''purchase_price'', ''purchase price'', ''price''],
                pd_notes = first [''notes'']\<rparr>)))"

definition pokedumpster_record ::
  "runtime \<Rightarrow> PokedumpsterCols \<Rightarrow> nat \<Rightarrow> string list \<Rightarrow> ImportError + ParsedRow list" where
  "pokedumpster_record rt cols line rec =
     (let number = cell rec (Some (pd_number cols)) in
      if number = [] then Inl (BadRow line ''empty number'')
      else
      let variant = cell rec (Some (pd_variant cols)) in
      if variant = [] then Inl (BadRow line ''empty variant'')
      else
      let set_code = cell rec (pd_set_code cols);
          ptcgo = cell rec (pd_ptcgo cols);
          set_hint = (if set_code \<noteq> [] then set_code else ptcgo) in
      if set_hint = [] then Inl (BadRow line ''empty set_code and ptcgo_code'')
      else
      and_then (parse_quantity line ''quantity'' (cell rec (pd_quantity cols))) (\<lambda>quantity.
      and_then (parse_price_cell rt line ''purchase_price'' (trim_start_char (CHR ''$'') (cell rec (pd_price cols)))) (\<lambda>price.
      let notes = cell rec (pd_notes cols) in
      Inr (replicate quantity
        \<lparr>pr_source_line = line, pr_set_hint = set_hint, pr_set_name = None, pr_name = None,
         pr_number = number, pr_variant = variant,
         pr_condition = map_condition rt (cell rec (pd_condition cols)),
         pr_language = map_language rt (cell rec (pd_language cols)),
         pr_purchase_price = price, pr_acquired_at = None,
         pr_tags = (if notes = [] then [] else [notes])\<rparr>))))"

definition pokedumpster_parse :: "runtime \<Rightarrow> string \<Rightarrow> ImportError + ParsedRow list" where
  "pokedumpster_parse rt input =
     (case csv_headers rt input of
        Inl e \<Rightarrow> Inl (Csv e)
      | Inr hs \<Rightarrow> and_then (pokedumpster_columns (header_map rt hs)) (\<lambda>cols.
          import_rows (pokedumpster_record rt cols) 2 (csv_records rt input)))"

section \<open>Collectr\<close>

record SkippedRow =
  sk_source_line :: nat
  sk_category :: string
  sk_name :: string
  sk_reason :: string

record CollectrParsed =
  cp_singles :: "ParsedRow list"
  cp_sealed :: "ParsedSealedRow list"
  cp_skipped :: "SkippedRow list"

record CollectrCols =
  co_category :: nat
  co_set :: nat
  co_name :: nat
  co_number :: nat
  co_variance :: "nat option"
  co_condition :: "nat option"
  co_cost :: "nat option"
  co_quantity :: "nat option"
  co_date :: "nat option"
  co_notes :: "nat option"

definition collectr_columns :: "(string \<rightharpoonup> nat) \<Rightarrow> ImportError + CollectrCols" where
  "collectr_columns headers =
     and_then (or_missing ''Category'' (headers ''category'')) (\<lambda>category.
     and_then (or_missing ''Set'' (headers ''set'')) (\<lambda>set.
     and_then (or_missing ''Product Name'' (headers ''product name'')) (\<lambda>name.
     and_then (or_missing ''Card Number'' (headers ''card number'')) (\<lambda>number.
     Inr \<lparr>co_category = category, co_set = set, co_name = name, co_number = number,
          co_variance = headers ''variance'', co_condition = headers ''card condition'',
          co_cost = headers ''average cost paid'', co_quantity = headers ''quantity'',
          co_date = headers ''date added'', co_notes = headers ''notes''\<rparr>))))"

definition normalize_number :: "string \<Rightarrow> string" where
  "normalize_number raw =
     (let s = trim raw;
          s = trim (case split_char (CHR ''/'') s of w # _ \<Rightarrow> w | [] \<Rightarrow> s);
          s = (case rsplit_once (CHR '' '') s of
                 Some (prefix, tail) \<Rightarrow>
                   if tail \<noteq> [] \<and> list_all is_digit tail \<and> list_ex is_alpha prefix then tail else s
               | None \<Rightarrow> s)
      in normalize_collector_number s)"

definition parse_price :: "runtime \<Rightarrow> string \<Rightarrow> f64 option" where
  "parse_price rt raw = (let s = trim raw in if s = [] then None else parse_f64 rt s)"

definition to_rfc3339 :: "string \<Rightarrow> string" where
  "to_rfc3339 date =
     (let d = trim date in
      if length d = 10 \<and> d ! 4 = CHR ''-'' \<and> d ! 7 = CHR ''-'' then d @ ''T00:00:00Z'' else d)"

definition trim_matches :: "(uchar \<Rightarrow> bool) \<Rightarrow> string \<Rightarrow> string" where
  "trim_matches P s = concat (rev (dropWhile P (rev (dropWhile P (chars s)))))"

definition clean_notes :: "string \<Rightarrow> string option" where
  "clean_notes raw =
     (let s = trim_matches (\<lambda>u. u = '';'' \<or> is_whitespace u) (trim raw) in
      if s \<noteq> [] then Some s else None)"

definition collectr_record ::
  "runtime \<Rightarrow> CollectrCols \<Rightarrow> nat \<Rightarrow> string list \<Rightarrow> CollectrParsed \<Rightarrow> ImportError + CollectrParsed" where
  "collectr_record rt cols line rec out =
     (let category = cell rec (Some (co_category cols));
          name = cell rec (Some (co_name cols));
          set = cell rec (Some (co_set cols)) in
      if \<not> eq_ignore_ascii_case category ''pokemon''
      then Inr (out\<lparr>cp_skipped := cp_skipped out @
             [\<lparr>sk_source_line = line, sk_category = category, sk_name = name,
               sk_reason = ''non-Pok'' @ [CHR 0xC3, CHR 0xA9] @ ''mon category '' @ quoted category\<rparr>]\<rparr>)
      else if set = []
      then Inr (out\<lparr>cp_skipped := cp_skipped out @
             [\<lparr>sk_source_line = line, sk_category = category, sk_name = name, sk_reason = ''empty Set''\<rparr>]\<rparr>)
      else
      and_then (parse_quantity line ''Quantity'' (cell rec (co_quantity cols))) (\<lambda>quantity.
      let condition = map_condition rt (cell rec (co_condition cols));
          price = parse_price rt (cell rec (co_cost cols));
          date_added = cell rec (co_date cols);
          number_raw = cell rec (Some (co_number cols)) in
      if number_raw = []
      then Inr (out\<lparr>cp_sealed := cp_sealed out @
             [\<lparr>ps_source_line = line, ps_name = name, ps_set_hint = set, ps_set_name = Some set,
               ps_category_hint = None, ps_quantity = quantity, ps_condition = condition,
               ps_purchase_price = price,
               ps_purchase_date = (if date_added \<noteq> [] then Some date_added else None),
               ps_notes = clean_notes (cell rec (co_notes cols))\<rparr>]\<rparr>)
      else Inr (out\<lparr>cp_singles := cp_singles out @ replicate quantity
             \<lparr>pr_source_line = line, pr_set_hint = set, pr_set_name = Some set,
              pr_name = (if name \<noteq> [] then Some name else None),
              pr_number = normalize_number number_raw,
              pr_variant = manabox_variant rt (cell rec (co_variance cols)),
              pr_condition = condition, pr_language = map_language rt '''',
              pr_purchase_price = price,
              pr_acquired_at = (if date_added \<noteq> [] then Some (to_rfc3339 date_added) else None),
              pr_tags = []\<rparr>\<rparr>)))"

fun collectr_loop ::
  "runtime \<Rightarrow> CollectrCols \<Rightarrow> nat \<Rightarrow> (string + string list) list \<Rightarrow> CollectrParsed \<Rightarrow>
   ImportError + CollectrParsed" where
  "collectr_loop rt cols line [] out = Inr out"
| "collectr_loop rt cols line (Inl e # rs) out = Inl (Csv e)"
| "collectr_loop rt cols line (Inr r # rs) out =
     and_then (collectr_record rt cols line r out) (collectr_loop rt cols (line + 1) rs)"

definition collectr_parse :: "runtime \<Rightarrow> string \<Rightarrow> ImportError + CollectrParsed" where
  "collectr_parse rt input =
     (case csv_headers rt input of
        Inl e \<Rightarrow> Inl (Csv e)
      | Inr hs \<Rightarrow> and_then (collectr_columns (header_map rt hs)) (\<lambda>cols.
          collectr_loop rt cols 2 (csv_records rt input) \<lparr>cp_singles = [], cp_sealed = [], cp_skipped = []\<rparr>))"

section \<open>Column values: lemmas\<close>

definition condition_scale :: "string list" where
  "condition_scale = [''Near Mint'', ''Lightly Played'', ''Moderately Played'', ''Heavily Played'', ''Damaged'']"

lemma map_condition_in_scale: "map_condition rt raw \<in> set condition_scale"
  by (simp add: map_condition_def condition_scale_def Let_def)

lemma cell_trimmed: "\<exists>s. cell rec c = trim s"
  by (auto simp: cell_def)

lemma digit_val_char:
  assumes "is_digit d" shows "digit_val d < 10" "char_of (48 + digit_val d) = d"
proof -
  have "48 \<le> (of_char d :: nat)" "(of_char d :: nat) \<le> 57" using assms by (simp_all add: is_digit_def)
  then have "48 + digit_val d = of_char d" "digit_val d < 10" by (simp_all add: digit_val_def)
  then show "digit_val d < 10" "char_of (48 + digit_val d) = d" by simp_all
qed

lemma char_of_48: "char_of (48 :: nat) = CHR ''0''"
  by code_simp

lemma nat_digits_digits_val:
  "list_all is_digit ds \<Longrightarrow> ds \<noteq> [] \<Longrightarrow> hd ds \<noteq> CHR ''0'' \<Longrightarrow> nat_digits (digits_val ds) = ds \<and> 0 < digits_val ds"
proof (induction ds rule: rev_induct)
  case (snoc d ds)
  have d: "digit_val d < 10" "char_of (48 + digit_val d) = d"
    using digit_val_char [of d] snoc.prems(1) by auto
  show ?case
  proof (cases "ds = []")
    case True
    have "digit_val d \<noteq> 0"
      using d(2) snoc.prems(3) True char_of_48 by (metis add.right_neutral append_Nil list.sel(1))
    then show ?thesis
      using d True by (simp add: digits_val_snoc) (simp add: digits_val_def nat_digits.simps)
  next
    case False
    then have "nat_digits (digits_val ds) = ds" "0 < digits_val ds"
      using snoc by auto
    then show ?thesis
      using d by (subst nat_digits.simps) (simp add: digits_val_snoc)
  qed
qed simp

lemma digits_val_zeros: "digits_val (trim_start_char (CHR ''0'') ds) = digits_val ds"
proof (induction ds)
  case (Cons d ds)
  have "digits_val (CHR ''0'' # ds) = digits_val ds" for ds
    by (simp add: digits_val_def digit_val_def)
  then show ?case using Cons by (simp add: trim_start_char_def)
qed (simp add: trim_start_char_def)

section \<open>What every single-card format guarantees\<close>

text \<open>
  The rows of one record: \<open>q\<close> equal copies that carry the record's line, with the columns the
  resolver needs filled in.
\<close>

definition complete_row :: "ParsedRow \<Rightarrow> bool" where
  "complete_row r \<longleftrightarrow> pr_number r \<noteq> [] \<and> pr_set_hint r \<noteq> [] \<and> pr_variant r \<noteq> [] \<and>
     pr_condition r \<in> set condition_scale"

definition declared_quantity :: "nat option \<Rightarrow> string list \<Rightarrow> nat" where
  "declared_quantity col rec =
     (let raw = cell rec col in if raw = [] then 1 else case parse_u32 raw of Some q \<Rightarrow> q | None \<Rightarrow> 0)"

lemma parse_quantity_Inr: "parse_quantity line l (cell rec col) = Inr q \<Longrightarrow> q = declared_quantity col rec"
  by (auto simp: parse_quantity_def declared_quantity_def Let_def split: if_splits option.splits)

locale row_source =
  fixes record_rows :: "nat \<Rightarrow> string list \<Rightarrow> ImportError + ParsedRow list"
    and quantity :: "string list \<Rightarrow> nat"
  assumes copies: "record_rows line rec = Inr rows \<Longrightarrow>
    \<exists>r. rows = replicate (quantity rec) r \<and> pr_source_line r = line \<and> complete_row r"
begin

lemma import_rows_Cons:
  "import_rows record_rows line (rec # recs) = Inr rows \<Longrightarrow>
   \<exists>cells r ys. rec = Inr cells \<and> pr_source_line r = line \<and> complete_row r \<and>
     rows = replicate (quantity cells) r @ ys \<and> import_rows record_rows (line + 1) recs = Inr ys"
  by (cases rec) (auto simp: and_then_Inr dest!: copies)

lemma rows_complete:
  "import_rows record_rows line recs = Inr rows \<Longrightarrow>
   \<forall>r \<in> set rows. complete_row r \<and> line \<le> pr_source_line r"
  by (induction recs arbitrary: line rows) (fastforce dest!: import_rows_Cons)+

lemma rows_sorted:
  "import_rows record_rows line recs = Inr rows \<Longrightarrow> sorted_wrt (\<le>) (map pr_source_line rows)"
proof (induction recs arbitrary: line rows)
  case (Cons rec recs)
  from import_rows_Cons [OF Cons.prems] obtain cells r ys where
    y: "import_rows record_rows (line + 1) recs = Inr ys" and r: "pr_source_line r = line"
    and rows: "rows = replicate (quantity cells) r @ ys" by blast
  have "line \<le> pr_source_line x" if "x \<in> set ys" for x
    using rows_complete [OF y] that by force
  then show ?case using Cons.IH [OF y] r by (auto simp: rows sorted_wrt_append sorted_wrt_map)
qed simp

lemma copies_per_record:
  "import_rows record_rows line recs = Inr rows \<Longrightarrow> i < length recs \<Longrightarrow>
   \<exists>cells r. recs ! i = Inr cells \<and>
     filter (\<lambda>x. pr_source_line x = line + i) rows = replicate (quantity cells) r"
proof (induction recs arbitrary: line rows i)
  case (Cons rec recs)
  from import_rows_Cons [OF Cons.prems(1)] obtain cells r ys where
    rec: "rec = Inr cells" and y: "import_rows record_rows (line + 1) recs = Inr ys"
    and r: "pr_source_line r = line" and rows: "rows = replicate (quantity cells) r @ ys" by blast
  show ?case
  proof (cases i)
    case 0
    have "filter (\<lambda>x. pr_source_line x = line) ys = []"
      using rows_complete [OF y] by (force simp: filter_empty_conv)
    then show ?thesis using 0 rec r by (auto simp: rows)
  next
    case (Suc j)
    then show ?thesis using Cons.IH [OF y, of j] Cons.prems(2) r by (simp add: rows)
  qed
qed simp

end

lemmas record_defs = Let_def complete_row_def map_condition_in_scale and_then_Inr

lemma manabox_variant_nonempty: "manabox_variant rt s \<noteq> []"
  by (simp add: manabox_variant_def Let_def)

lemma tcgplayer_variant_nonempty: "tcgplayer_variant rt s \<noteq> []"
  by (simp add: tcgplayer_variant_def Let_def)

interpretation mb: row_source "manabox_record rt cols" "declared_quantity (mb_quantity cols)" for rt cols
  by unfold_locales
    (auto simp: manabox_record_def record_defs manabox_variant_nonempty
      split: if_splits dest!: parse_quantity_Inr)

interpretation tp: row_source "tcgplayer_record rt cols" "declared_quantity (tp_quantity cols)" for rt cols
  by unfold_locales
    (auto simp: tcgplayer_record_def record_defs tcgplayer_variant_nonempty
      split: if_splits dest!: parse_quantity_Inr)

interpretation pd: row_source "pokedumpster_record rt cols" "declared_quantity (pd_quantity cols)" for rt cols
  by unfold_locales
    (auto simp: pokedumpster_record_def record_defs split: if_splits dest!: parse_quantity_Inr)

section \<open>The split of a Collectr export\<close>

text \<open>Where a record belongs: nowhere (skipped), in the sealed half, or in the singles half.\<close>

datatype collectr_half = Skipped_half | Sealed_half | Singles_half

definition collectr_half_of :: "CollectrCols \<Rightarrow> string list \<Rightarrow> collectr_half" where
  "collectr_half_of cols rec =
     (if \<not> eq_ignore_ascii_case (cell rec (Some (co_category cols))) ''pokemon'' \<or>
         cell rec (Some (co_set cols)) = [] then Skipped_half
      else if cell rec (Some (co_number cols)) = [] then Sealed_half else Singles_half)"

definition at_line :: "nat \<Rightarrow> CollectrParsed \<Rightarrow> ParsedRow list \<times> ParsedSealedRow list \<times> SkippedRow list" where
  "at_line line out =
     (filter (\<lambda>r. pr_source_line r = line) (cp_singles out),
      filter (\<lambda>r. ps_source_line r = line) (cp_sealed out),
      filter (\<lambda>r. sk_source_line r = line) (cp_skipped out))"

definition split_as :: "CollectrCols \<Rightarrow> string list \<Rightarrow>
  ParsedRow list \<times> ParsedSealedRow list \<times> SkippedRow list \<Rightarrow> bool" where
  "split_as cols rec parts =
     (case collectr_half_of cols rec of
        Skipped_half \<Rightarrow> (\<exists>k. parts = ([], [], [k]))
      | Sealed_half \<Rightarrow> (\<exists>s. parts = ([], [s], []) \<and> ps_quantity s = declared_quantity (co_quantity cols) rec)
      | Singles_half \<Rightarrow> (\<exists>r. parts = (replicate (declared_quantity (co_quantity cols) rec) r, [], [])))"

lemma collectr_record_cases:
  assumes "collectr_record rt cols line rec out = Inr out'"
  shows "case collectr_half_of cols rec of
      Skipped_half \<Rightarrow> \<exists>k. sk_source_line k = line \<and> out' = out\<lparr>cp_skipped := cp_skipped out @ [k]\<rparr>
    | Sealed_half \<Rightarrow> \<exists>s. ps_source_line s = line \<and> ps_quantity s = declared_quantity (co_quantity cols) rec \<and>
        out' = out\<lparr>cp_sealed := cp_sealed out @ [s]\<rparr>
    | Singles_half \<Rightarrow> \<exists>r. pr_source_line r = line \<and>
        out' = out\<lparr>cp_singles := cp_singles out @ replicate (declared_quantity (co_quantity cols) rec) r\<rparr>"
proof (cases "collectr_half_of cols rec")
  case Skipped_half
  then show ?thesis
    using assms by (force simp: collectr_record_def collectr_half_of_def Let_def split: if_splits)
next
  case Sealed_half
  then have h: "eq_ignore_ascii_case (cell rec (Some (co_category cols))) ''pokemon''"
      "cell rec (Some (co_set cols)) \<noteq> []" "cell rec (Some (co_number cols)) = []"
    by (auto simp: collectr_half_of_def split: if_splits)
  show ?thesis
    using assms unfolding collectr_record_def Let_def Sealed_half
    by (simp only: h simp_thms if_True if_False not_True_eq_False and_then_Inr collectr_half.case)
      (elim exE conjE, drule parse_quantity_Inr, simp only: sum.inject,
        rule exI, rule conjI [rotated], rule conjI [rotated], erule sym, simp_all)
next
  case Singles_half
  then have h: "eq_ignore_ascii_case (cell rec (Some (co_category cols))) ''pokemon''"
      "cell rec (Some (co_set cols)) \<noteq> []" "cell rec (Some (co_number cols)) \<noteq> []"
    by (auto simp: collectr_half_of_def split: if_splits)
  show ?thesis
    using assms unfolding collectr_record_def Let_def Singles_half
    by (simp only: h if_True if_False not_True_eq_False and_then_Inr collectr_half.case)
      (elim exE conjE, drule parse_quantity_Inr, simp only: sum.inject,
        rule exI, rule conjI [rotated], erule sym, simp)
qed

lemma collectr_record_split:
  assumes "collectr_record rt cols line rec out = Inr out'"
  shows "\<And>l. l \<noteq> line \<Longrightarrow> at_line l out' = at_line l out"
    and "at_line line out = ([], [], []) \<Longrightarrow> split_as cols rec (at_line line out')"
  using collectr_record_cases [OF assms]
  by (auto simp: at_line_def split_as_def split: collectr_half.splits)

lemma collectr_loop_split:
  "collectr_loop rt cols line recs out = Inr out' \<Longrightarrow>
   (\<forall>l < line. at_line l out' = at_line l out) \<and>
   ((\<forall>l \<ge> line. at_line l out = ([], [], [])) \<longrightarrow>
     (\<forall>i < length recs. \<exists>cells. recs ! i = Inr cells \<and> split_as cols cells (at_line (line + i) out')))"
proof (induction rt cols line recs out rule: collectr_loop.induct)
  case (3 rt cols line rec recs out)
  obtain mid where m: "collectr_record rt cols line rec out = Inr mid"
    and l: "collectr_loop rt cols (line + 1) recs mid = Inr out'"
    using 3(2) by (auto simp: and_then_Inr)
  note IH = 3(1) [OF l]
  show ?case
  proof (intro conjI impI allI)
    fix l assume "l < line"
    then show "at_line l out' = at_line l out" using IH collectr_record_split(1) [OF m] by simp
  next
    fix i assume e: "\<forall>l \<ge> line. at_line l out = ([], [], [])" and i: "i < length (Inr rec # recs)"
    show "\<exists>cells. (Inr rec # recs) ! i = Inr cells \<and> split_as cols cells (at_line (line + i) out')"
    proof (cases i)
      case 0
      then show ?thesis using IH collectr_record_split(2) [OF m] e by simp
    next
      case (Suc j)
      have "\<forall>l \<ge> line + 1. at_line l mid = ([], [], [])"
        using e collectr_record_split(1) [OF m] by simp
      then show ?thesis using IH i Suc by simp
    qed
  qed
qed simp_all

section \<open>Properties\<close>

text \<open>
  Collector numbers: a token of digits is reduced to the decimal form of its value, with no
  leading zero, so two zero-padded spellings agree exactly when the numbers do; any other token
  is only trimmed.
\<close>

theorem normalize_collector_number_canonical:
  "normalize_collector_number raw =
     (if trim raw \<noteq> [] \<and> list_all is_digit (trim raw) then show_nat (digits_val (trim raw)) else trim raw)"
proof -
  have "(if trim_start_char (CHR ''0'') s = [] then ''0'' else trim_start_char (CHR ''0'') s) = show_nat (digits_val s)"
    if s: "list_all is_digit s" for s
  proof (cases "trim_start_char (CHR ''0'') s = []")
    case True
    then have "digits_val s = 0" using digits_val_zeros [of s] by (simp add: digits_val_def)
    then show ?thesis using True by (simp add: show_nat_def nat_digits.simps char_of_48)
  next
    case False
    have "list_all is_digit (trim_start_char (CHR ''0'') s)"
      using s by (simp add: trim_start_char_def list_all_dropWhile)
    moreover have "hd (trim_start_char (CHR ''0'') s) \<noteq> CHR ''0''"
      using False hd_dropWhile [of "\<lambda>x. x = CHR ''0''" s] by (simp add: trim_start_char_def)
    ultimately show ?thesis
      using nat_digits_digits_val [OF _ False] False by (simp add: digits_val_zeros show_nat_def)
  qed
  then show ?thesis by (simp add: normalize_collector_number_def Let_def)
qed

text \<open>
  The five-tier scale: whatever the file says, the mapped condition is one of the five values
  the database accepts, and mapping a value that is already on the scale keeps it.
\<close>

theorem map_condition_scale:
  "map_condition rt raw \<in> set condition_scale \<and> list_all (\<lambda>c. map_condition rt c = c) condition_scale"
proof
  have "map_condition rt ''Near Mint'' = ''Near Mint''" "map_condition rt ''Lightly Played'' = ''Lightly Played''"
    "map_condition rt ''Moderately Played'' = ''Moderately Played''"
    "map_condition rt ''Heavily Played'' = ''Heavily Played''" "map_condition rt ''Damaged'' = ''Damaged''"
    by code_simp+
  then show "list_all (\<lambda>c. map_condition rt c = c) condition_scale" by (simp add: condition_scale_def)
qed (rule map_condition_in_scale)

lemmas parse_defs = manabox_parse_def tcgplayer_parse_def pokedumpster_parse_def

text \<open>
  A single-card import either fails as a whole or yields, in file order, rows that all name a
  set, a number and a variant and carry a condition of the five-tier scale.
\<close>

theorem single_card_rows_complete:
  assumes "parse \<in> {manabox_parse rt, tcgplayer_parse rt, pokedumpster_parse rt}"
    and "parse input = Inr rows"
  shows "(\<forall>r \<in> set rows. complete_row r) \<and> sorted_wrt (\<le>) (map pr_source_line rows)"
  using assms
  by (auto simp: parse_defs and_then_Inr split: sum.splits
      dest: mb.rows_sorted tp.rows_sorted pd.rows_sorted)
    (blast dest: mb.rows_complete tp.rows_complete pd.rows_complete)+

text \<open>A small file: what the CSV reader returns for it.\<close>

definition sample_runtime :: runtime where
  "sample_runtime = plain_runtime
     \<lparr>csv_headers := (\<lambda>_. Inr [''Set code'', ''Collector number'', ''Quantity'']),
      csv_records := (\<lambda>_. [Inr [''MEW'', ''6'', ''2''], Inr [''SVI'', ''12'']])\<rparr>"

lemma sample_headers:
  "header_map rt [''Set code'', ''Collector number'', ''Quantity''] =
   [''set code'' \<mapsto> 0, ''collector number'' \<mapsto> 1, ''quantity'' \<mapsto> Suc 1]"
  by (simp add: header_map_def text_defs upt_rec)

lemma empty_cells:
  "map_condition rt [] = ''Near Mint''" "manabox_variant rt [] = ''normal''"
  "map_language rt [] = ''English''" "\<not> is_true rt []"
  by code_simp+

lemmas sample_simps = sample_headers empty_cells manabox_columns_def or_missing_def manabox_record_def
  cell_def parse_quantity_def parse_price_cell_def text_defs

definition sample_row :: "nat \<Rightarrow> string \<Rightarrow> string \<Rightarrow> ParsedRow" where
  "sample_row l s n = \<lparr>pr_source_line = l, pr_set_hint = s, pr_set_name = None, pr_name = None,
      pr_number = n, pr_variant = ''normal'', pr_condition = ''Near Mint'', pr_language = ''English'',
      pr_purchase_price = None, pr_acquired_at = None, pr_tags = []\<rparr>"

lemma sample_rows:
  "manabox_parse sample_runtime [] =
   Inr (replicate 2 (sample_row 2 ''MEW'' ''6'') @ [sample_row 3 ''SVI'' ''12''])"
  by (simp add: manabox_parse_def sample_runtime_def sample_row_def Let_def sample_simps)

theorem single_card_rows_complete_witness:
  "\<exists>rows. manabox_parse sample_runtime [] = Inr rows \<and> length rows = 3 \<and>
     (\<forall>r \<in> set rows. complete_row r) \<and> sorted_wrt (\<le>) (map pr_source_line rows)"
  using single_card_rows_complete [of "manabox_parse sample_runtime" sample_runtime "[]", OF _ sample_rows]
    sample_rows by simp

text \<open>
  No aggregation: each record of a ManaBox file becomes exactly as many equal rows as its
  quantity cell declares (one if it is empty), under its own line number.
\<close>

theorem manabox_one_row_per_copy:
  assumes "csv_headers rt input = Inr hs" "manabox_columns (header_map rt hs) = Inr cols"
    and "manabox_parse rt input = Inr rows" "i < length (csv_records rt input)"
  shows "\<exists>rec r. csv_records rt input ! i = Inr rec \<and>
    filter (\<lambda>x. pr_source_line x = i + 2) rows = replicate (declared_quantity (mb_quantity cols) rec) r"
  using mb.copies_per_record [of rt cols 2 "csv_records rt input" rows i] assms
  by (simp add: manabox_parse_def add.commute)

theorem manabox_one_row_per_copy_witness:
  "\<exists>rec r rows. csv_records sample_runtime [] ! 0 = Inr rec \<and>
     manabox_parse sample_runtime [] = Inr rows \<and>
     filter (\<lambda>x. pr_source_line x = 0 + 2) rows = replicate (declared_quantity (Some (Suc 1)) rec) r"
proof -
  have h: "csv_headers sample_runtime [] = Inr [''Set code'', ''Collector number'', ''Quantity'']"
    by (simp add: sample_runtime_def)
  obtain cols where c: "manabox_columns (header_map sample_runtime
      [''Set code'', ''Collector number'', ''Quantity'']) = Inr cols" "mb_quantity cols = Some (Suc 1)"
    by (simp add: sample_headers manabox_columns_def or_missing_def)
  have "0 < length (csv_records sample_runtime [])" by (simp add: sample_runtime_def)
  then show ?thesis using manabox_one_row_per_copy [OF h c(1) sample_rows, of 0] sample_rows c(2) by auto
qed

text \<open>
  The garden wall: every record of a Collectr file lands in exactly one half, decided by its
  category, set and card number alone: one skip note, or one sealed row that keeps its quantity,
  or one single-card row per copy.
\<close>

theorem collectr_garden_wall:
  assumes "csv_headers rt input = Inr hs" "collectr_columns (header_map rt hs) = Inr cols"
    and "collectr_parse rt input = Inr out" "i < length (csv_records rt input)"
  shows "\<exists>rec. csv_records rt input ! i = Inr rec \<and> split_as cols rec (at_line (i + 2) out)"
proof -
  have l: "collectr_loop rt cols 2 (csv_records rt input)
      \<lparr>cp_singles = [], cp_sealed = [], cp_skipped = []\<rparr> = Inr out"
    using assms(1-3) by (simp add: collectr_parse_def)
  show ?thesis using collectr_loop_split [OF l] assms(4) by (simp add: at_line_def add.commute)
qed

definition sample_collectr :: runtime where
  "sample_collectr = plain_runtime
     \<lparr>csv_headers := (\<lambda>_. Inr [''Category'', ''Set'', ''Product Name'', ''Card Number'', ''Quantity'']),
      csv_records := (\<lambda>_. [Inr [''Pokemon'', ''Chaos'', ''Box'', [], ''2'']])\<rparr>"

lemma sample_collectr_headers:
  "header_map rt [''Category'', ''Set'', ''Product Name'', ''Card Number'', ''Quantity''] =
   [''category'' \<mapsto> 0, ''set'' \<mapsto> 1, ''product name'' \<mapsto> Suc 1, ''card number'' \<mapsto> Suc (Suc 1),
    ''quantity'' \<mapsto> Suc (Suc (Suc 1))]"
  by (simp add: header_map_def text_defs upt_rec)

lemma sample_collectr_parse:
  "\<exists>r. collectr_parse sample_collectr [] = Inr \<lparr>cp_singles = [], cp_sealed = [r], cp_skipped = []\<rparr> \<and>
     ps_name r = ''Box'' \<and> ps_set_hint r = ''Chaos'' \<and> ps_set_name r = Some ''Chaos'' \<and> ps_quantity r = 2"
  unfolding collectr_parse_def
  by (simp add: sample_collectr_def sample_collectr_headers collectr_columns_def or_missing_def collectr_record_def
      Let_def cell_def parse_quantity_def text_defs)

theorem collectr_garden_wall_witness:
  "\<exists>rec cols out. csv_records sample_collectr [] ! 0 = Inr rec \<and>
     collectr_half_of cols rec = Sealed_half \<and>
     collectr_parse sample_collectr [] = Inr out \<and> split_as cols rec (at_line (0 + 2) out)"
proof -
  have h: "csv_headers sample_collectr [] =
      Inr [''Category'', ''Set'', ''Product Name'', ''Card Number'', ''Quantity'']"
    by (simp add: sample_collectr_def)
  obtain cols where c: "collectr_columns (header_map sample_collectr
      [''Category'', ''Set'', ''Product Name'', ''Card Number'', ''Quantity'']) = Inr cols"
    and n: "cols = \<lparr>co_category = 0, co_set = 1, co_name = Suc 1, co_number = Suc (Suc 1),
       co_variance = None, co_condition = None, co_cost = None, co_quantity = Some (Suc (Suc (Suc 1))),
       co_date = None, co_notes = None\<rparr>"
    by (simp add: sample_collectr_headers collectr_columns_def or_missing_def)
  obtain out where r: "collectr_parse sample_collectr [] = Inr out" using sample_collectr_parse by blast
  have "collectr_half_of cols [''Pokemon'', ''Chaos'', ''Box'', [], ''2''] = Sealed_half"
    by (simp add: n collectr_half_of_def cell_def text_defs)
  moreover have "csv_records sample_collectr [] = [Inr [''Pokemon'', ''Chaos'', ''Box'', [], ''2'']]"
    by (simp add: sample_collectr_def)
  ultimately show ?thesis using collectr_garden_wall [OF h c r, of 0] r by auto
qed

end
