(* ===== verification/Store.thy ===== *)
theory Store
  imports Text
begin

text \<open>
  What the repository code of \<open>pkdump-db\<close> uses of SQLite, over any database state: tables with
  \<open>INTEGER PRIMARY KEY AUTOINCREMENT\<close> ids, actions that return a result or an error together
  with the database they leave, the clock reads they make, and transactions. The locale
  \<open>step_relation\<close> states once which relations between the database before and after survive
  every way of composing actions.
\<close>

section \<open>Errors\<close>

text \<open>\<open>pkdump-db/src/error.rs\<close>; of \<open>rusqlite::Error\<close> only the violated constraint is kept.\<close>

datatype SqliteError = UniqueViolation | CheckViolation | ForeignKeyViolation

datatype DbError =
    Sqlite SqliteError
  | Env string
  | NotFound string
  | Conflict string
  | Import string
  | Invalid string
  | SchemaVersion string
  | Seed string

section \<open>Tables\<close>

text \<open>
  The rows in id order and the highest id ever given out (\<open>sqlite_sequence\<close>). Ids are unbounded
  here; SQLite refuses the insert after id \<open>2^63 - 1\<close>.
\<close>

record 'r tbl =
  tbl_rows :: "'r list"
  tbl_seq :: int

definition empty_tbl :: "'r tbl" where
  "empty_tbl = \<lparr>tbl_rows = [], tbl_seq = 0\<rparr>"

definition next_id :: "'r tbl \<Rightarrow> int" where
  "next_id t = tbl_seq t + 1"

definition tbl_append :: "'r \<Rightarrow> 'r tbl \<Rightarrow> 'r tbl" where
  "tbl_append r t = \<lparr>tbl_rows = tbl_rows t @ [r], tbl_seq = tbl_seq t + 1\<rparr>"

definition tbl_modify :: "('r \<Rightarrow> bool) \<Rightarrow> ('r \<Rightarrow> 'r) \<Rightarrow> 'r tbl \<Rightarrow> 'r tbl" where
  "tbl_modify P f t = t\<lparr>tbl_rows := map (\<lambda>r. if P r then f r else r) (tbl_rows t)\<rparr>"

definition tbl_remove :: "('r \<Rightarrow> bool) \<Rightarrow> 'r tbl \<Rightarrow> 'r tbl" where
  "tbl_remove P t = t\<lparr>tbl_rows := filter (\<lambda>r. \<not> P r) (tbl_rows t)\<rparr>"

definition tbl_find :: "('r \<Rightarrow> int) \<Rightarrow> int \<Rightarrow> 'r tbl \<Rightarrow> 'r option" where
  "tbl_find idf i t = List.find (\<lambda>r. idf r = i) (tbl_rows t)"

definition tbl_has :: "('r \<Rightarrow> int) \<Rightarrow> 'r tbl \<Rightarrow> int \<Rightarrow> bool" where
  "tbl_has idf t i \<longleftrightarrow> list_ex (\<lambda>r. idf r = i) (tbl_rows t)"

text \<open>Ids ascend, are positive and never exceed the sequence.\<close>

definition tbl_ok :: "('r \<Rightarrow> int) \<Rightarrow> 'r tbl \<Rightarrow> bool" where
  "tbl_ok idf t \<longleftrightarrow> sorted_wrt (<) (map idf (tbl_rows t)) \<and> 0 \<le> tbl_seq t \<and>
     list_all (\<lambda>r. 0 < idf r \<and> idf r \<le> tbl_seq t) (tbl_rows t)"

lemma tbl_simps [simp]:
  "tbl_rows (tbl_append r t) = tbl_rows t @ [r]" "tbl_seq (tbl_append r t) = tbl_seq t + 1"
  "tbl_rows (tbl_modify P f t) = map (\<lambda>r. if P r then f r else r) (tbl_rows t)"
  "tbl_seq (tbl_modify P f t) = tbl_seq t"
  "tbl_rows (tbl_remove P t) = filter (\<lambda>r. \<not> P r) (tbl_rows t)" "tbl_seq (tbl_remove P t) = tbl_seq t"
  "tbl_rows empty_tbl = []" "tbl_seq empty_tbl = 0"
  by (simp_all add: tbl_append_def tbl_modify_def tbl_remove_def empty_tbl_def)

lemma tbl_ok_empty [simp]: "tbl_ok idf empty_tbl"
  by (simp add: tbl_ok_def)

lemma tbl_ok_append [intro]:
  "tbl_ok idf t \<Longrightarrow> idf r = next_id t \<Longrightarrow> tbl_ok idf (tbl_append r t)"
  by (auto simp: tbl_ok_def next_id_def sorted_wrt_append sorted_wrt_map list_all_iff)

lemma tbl_ok_modify [intro]:
  "tbl_ok idf t \<Longrightarrow> (\<And>r. idf (f r) = idf r) \<Longrightarrow> tbl_ok idf (tbl_modify P f t)"
  by (auto simp: tbl_ok_def list_all_iff comp_def if_distrib [of idf] cong: if_cong)

lemma sorted_wrt_filter_map: "sorted_wrt (<) (map idf xs) \<Longrightarrow> sorted_wrt (<) (map idf (filter P xs))"
  by (induction xs) auto

lemma tbl_ok_remove [intro]: "tbl_ok idf t \<Longrightarrow> tbl_ok idf (tbl_remove P t)"
  by (auto simp: tbl_ok_def list_all_iff sorted_wrt_filter_map)

lemma tbl_ok_distinct: "tbl_ok idf t \<Longrightarrow> distinct (map idf (tbl_rows t))"
  by (simp add: tbl_ok_def strict_sorted_iff)

lemma tbl_has_iff: "tbl_has idf t i \<longleftrightarrow> i \<in> idf ` set (tbl_rows t)"
  by (auto simp: tbl_has_def list_ex_iff)

lemma tbl_has_append [simp]: "tbl_has idf (tbl_append r t) i \<longleftrightarrow> i = idf r \<or> tbl_has idf t i"
  by (auto simp: tbl_has_iff)

lemma tbl_has_modify: "(\<And>r. idf (f r) = idf r) \<Longrightarrow> tbl_has idf (tbl_modify P f t) = tbl_has idf t"
  by (rule ext) (auto simp: tbl_has_def list_ex_iff)

lemma tbl_find_Some:
  "tbl_find idf i t = Some r \<Longrightarrow> r \<in> set (tbl_rows t) \<and> idf r = i"
  unfolding tbl_find_def by (drule find_Some_D) simp

lemma tbl_find_None: "tbl_find idf i t = None \<longleftrightarrow> \<not> tbl_has idf t i"
  by (auto simp: tbl_find_def tbl_has_iff find_None_iff)

lemma find_distinct_iff:
  "distinct (map idf rs) \<Longrightarrow> List.find (\<lambda>r. idf r = i) rs = Some r \<longleftrightarrow> r \<in> set rs \<and> idf r = i"
proof (induction rs)
  case (Cons a rs)
  then have "idf r = idf a \<Longrightarrow> r \<notin> set rs" by (metis distinct.simps(2) image_eqI list.set_map list.simps(9))
  then show ?case using Cons by auto
qed simp

lemma tbl_find_iff: "tbl_ok idf t \<Longrightarrow> tbl_find idf i t = Some r \<longleftrightarrow> r \<in> set (tbl_rows t) \<and> idf r = i"
  unfolding tbl_find_def by (rule find_distinct_iff [OF tbl_ok_distinct])

lemma tbl_find_append:
  assumes "tbl_ok idf t" "idf r = next_id t"
  shows "tbl_find idf i (tbl_append r t) = (if i = next_id t then Some r else tbl_find idf i t)"
proof -
  have "tbl_find idf (next_id t) t = None"
    using assms(1) by (auto simp: tbl_find_None tbl_has_iff tbl_ok_def next_id_def list_all_iff)
  then show ?thesis
    using assms(2) by (auto simp: tbl_find_def find_append split: option.split)
qed

lemma tbl_find_modify:
  "(\<And>r. idf (f r) = idf r) \<Longrightarrow>
   tbl_find idf i (tbl_modify P f t) = map_option (\<lambda>r. if P r then f r else r) (tbl_find idf i t)"
  unfolding tbl_find_def by (simp add: find_map_id)

lemma find_filter_distinct:
  assumes "distinct (map idf rs)"
  shows "List.find (\<lambda>r. idf r = i) (filter P rs) =
     (case List.find (\<lambda>r. idf r = i) rs of Some r \<Rightarrow> if P r then Some r else None | None \<Rightarrow> None)"
  using assms
proof (induction rs)
  case (Cons a rs)
  have "List.find (\<lambda>r. idf r = idf a) rs = None" "List.find (\<lambda>r. idf r = idf a) (filter P rs) = None"
    using Cons.prems by (auto simp: find_None_iff image_iff)
  then show ?case using Cons by auto
qed simp

lemma tbl_find_remove:
  "tbl_ok idf t \<Longrightarrow>
   tbl_find idf i (tbl_remove P t) =
     (case tbl_find idf i t of Some r \<Rightarrow> if P r then None else Some r | None \<Rightarrow> None)"
  by (auto simp: tbl_find_def find_filter_distinct [OF tbl_ok_distinct] split: option.split)

section \<open>Actions\<close>

text \<open>
  A repository function is an action on the database state \<open>'s\<close>. Clock reads are counted by the
  state itself (the \<open>rewind\<close> below), because a rolled-back transaction does not give
  time back.
\<close>

type_synonym ('s, 'a) act = "'s \<Rightarrow> (DbError + 'a) \<times> 's"

definition ret :: "'a \<Rightarrow> ('s, 'a) act" where
  "ret v = (\<lambda>s. (Inr v, s))"

definition fail :: "DbError \<Rightarrow> ('s, 'a) act" where
  "fail e = (\<lambda>s. (Inl e, s))"

definition bind_act :: "('s, 'a) act \<Rightarrow> ('a \<Rightarrow> ('s, 'b) act) \<Rightarrow> ('s, 'b) act" where
  "bind_act m k = (\<lambda>s. case m s of (Inl e, s') \<Rightarrow> (Inl e, s') | (Inr v, s') \<Rightarrow> k v s')"

text \<open>A read of the current state, e.g. a \<open>SELECT\<close>.\<close>

definition query :: "('s \<Rightarrow> 'a) \<Rightarrow> ('s, 'a) act" where
  "query f = (\<lambda>s. (Inr (f s), s))"

definition lift_result :: "DbError + 'a \<Rightarrow> ('s, 'a) act" where
  "lift_result r = (case r of Inl e \<Rightarrow> fail e | Inr v \<Rightarrow> ret v)"

text \<open>A \<open>for\<close> loop whose body may return early with an error.\<close>

fun for_each :: "'x list \<Rightarrow> ('x \<Rightarrow> ('s, unit) act) \<Rightarrow> ('s, unit) act" where
  "for_each [] f = ret ()"
| "for_each (x # xs) f = bind_act (f x) (\<lambda>_. for_each xs f)"

text \<open>A transaction that is rolled back when its body fails; \<open>rewind s s'\<close> is \<open>s\<close> at the time of \<open>s'\<close>.\<close>

definition transaction :: "('s \<Rightarrow> 's \<Rightarrow> 's) \<Rightarrow> ('s, 'a) act \<Rightarrow> ('s, 'a) act" where
  "transaction rewind m = (\<lambda>s. case m s of (Inl e, s') \<Rightarrow> (Inl e, rewind s s') | (Inr v, s') \<Rightarrow> (Inr v, s'))"

lemmas act_simps = ret_def fail_def bind_act_def query_def lift_result_def transaction_def

lemma bind_act_assoc: "bind_act (bind_act m f) g = bind_act m (\<lambda>v. bind_act (f v) g)"
  by (auto simp: bind_act_def fun_eq_iff split: prod.split sum.split)

lemma bind_act_ret [simp]: "bind_act (ret v) k = k v"
  by (simp add: bind_act_def ret_def)

lemma for_each_append: "for_each (xs @ ys) f = bind_act (for_each xs f) (\<lambda>_. for_each ys f)"
  by (induction xs) (simp_all add: bind_act_assoc)

text \<open>A nested loop is one loop over the concatenation.\<close>

lemma for_each_concat: "for_each xs (\<lambda>x. for_each (g x) f) = for_each (concat (map g xs)) f"
  by (induction xs) (simp_all add: for_each_append)

definition always :: "('s \<Rightarrow> 's \<Rightarrow> bool) \<Rightarrow> ('s, 'a) act \<Rightarrow> bool" where
  "always R m \<longleftrightarrow> (\<forall>s. R s (snd (m s)))"

lemma alwaysD: "always R m \<Longrightarrow> m s = (r, s') \<Longrightarrow> R s s'"
  by (metis always_def snd_conv)

lemma alwaysI: "(\<And>s r s'. m s = (r, s') \<Longrightarrow> R s s') \<Longrightarrow> always R m"
  by (simp add: always_def prod_eq_iff)

text \<open>
  The contract: a reflexive and transitive relation between the state before and after, that also
  holds when the work of \<open>s'\<close> is thrown away and only its time is kept.
\<close>

locale step_relation =
  fixes R :: "'s \<Rightarrow> 's \<Rightarrow> bool" and rewind :: "'s \<Rightarrow> 's \<Rightarrow> 's"
  assumes R_refl: "R s s"
    and R_trans: "R s s' \<Longrightarrow> R s' s'' \<Longrightarrow> R s s''"
    and R_rewind: "R s s' \<Longrightarrow> R s (rewind s s')"
begin

lemma always_ret [intro]: "always R (ret v)"
  by (simp add: always_def ret_def R_refl)

lemma always_fail [intro]: "always R (fail e)"
  by (simp add: always_def fail_def R_refl)

lemma always_query [intro]: "always R (query f)"
  by (simp add: always_def query_def R_refl)

lemma always_lift [intro]: "always R (lift_result r)"
  by (cases r) (auto simp: lift_result_def)

lemma always_bind [intro]: "always R m \<Longrightarrow> (\<And>v. always R (k v)) \<Longrightarrow> always R (bind_act m k)"
proof (rule alwaysI)
  fix s r s' assume m: "always R m" and k: "\<And>v. always R (k v)" and b: "bind_act m k s = (r, s')"
  obtain q t where q: "m s = (q, t)" by force
  then have "R s t" using alwaysD [OF m] by simp
  then show "R s s'"
    using b q alwaysD [OF k] R_trans by (cases q) (auto simp: bind_act_def)
qed

lemma always_for_each [intro]: "(\<And>x. x \<in> set xs \<Longrightarrow> always R (f x)) \<Longrightarrow> always R (for_each xs f)"
  by (induction xs) auto

lemma always_transaction [intro]: "always R m \<Longrightarrow> always R (transaction rewind m)"
proof (rule alwaysI)
  fix s r s' assume m: "always R m" and t: "transaction rewind m s = (r, s')"
  obtain q u where q: "m s = (q, u)" by force
  then have "R s u" using alwaysD [OF m] by simp
  then show "R s s'" using t q R_rewind by (cases q) (auto simp: transaction_def)
qed

lemma always_if [intro]: "always R m \<Longrightarrow> always R m' \<Longrightarrow> always R (if b then m else m')"
  by simp

lemma always_option [intro]:
  "always R m \<Longrightarrow> (\<And>v. always R (k v)) \<Longrightarrow> always R (case x of None \<Rightarrow> m | Some v \<Rightarrow> k v)"
  by (cases x) auto

lemma always_let [intro]: "always R (f v) \<Longrightarrow> always R (let x = v in f x)"
  by simp

lemmas always_rules = always_ret always_fail always_query always_lift always_bind always_for_each
  always_transaction always_if always_option always_let

end

end
