(* ===== verification/Schema.thy ===== *)
theory Schema
  imports Store
begin

text \<open>
  A tenant's database (\<open>pkdump-db/src/schema_user.sql\<close>), the attached catalog
  (\<open>schema_shared.sql\<close>), and the SQL statements that more than one repository issues on
  them. A row type is the Rust struct that reads the table; a statement checks the table's
  constraints, runs its foreign-key actions and appends what its outbox triggers append, and
  changes nothing when a constraint refuses it.
\<close>

section \<open>The catalog\<close>

record SetRow =
  st_code :: string
  st_ptcgo :: "string option"
  st_name :: string
  st_symbol_url :: "string option"

record CardRow =
  cd_id :: string
  cd_set :: string
  cd_number :: string
  cd_name :: string
  cd_rarity :: "string option"
  cd_artist :: "string option"
  cd_supertype :: "string option"
  cd_subtypes :: "string option"
  cd_types :: "string option"
  cd_attacks :: "string option"
  cd_image_small :: "string option"
  cd_image_large :: "string option"
  cd_hp :: "int option"

record PrintingRow =
  pg_id :: string
  pg_card :: string
  pg_variant :: string
  pg_product :: "int option"
  pg_sub_type :: "string option"
  pg_deprecated_at :: "string option"

record LatestPrice =
  lp_product :: int
  lp_sub_type :: string
  lp_type :: string
  lp_price :: f64

record PriceOverride =
  po_printing :: string
  po_price :: f64

record SealedProduct =
  sp_id :: int
  sp_set_code :: "string option"
  sp_name :: string
  sp_category :: string
  sp_image_url :: "string option"
  sp_release_date :: "string option"

record LatestSealedPrice =
  lsp_product :: int
  lsp_market :: "f64 option"
  lsp_mid :: "f64 option"

record catalog =
  cat_sets :: "SetRow list"
  cat_set_aliases :: "(string \<times> string) list"
  cat_cards :: "CardRow list"
  cat_printings :: "PrintingRow list"
  cat_latest_prices :: "LatestPrice list"
  cat_overrides :: "PriceOverride list"
  cat_sealed_products :: "SealedProduct list"
  cat_latest_sealed :: "LatestSealedPrice list"

section \<open>The tenant's tables\<close>

record Condition =
  cn_name :: string
  cn_multiplier :: f64
  cn_rank :: int

record BinderRow =
  bi_id :: int
  bi_name :: string
  bi_description :: "string option"
  bi_color :: "string option"
  bi_type :: "string option"
  bi_pocket_size :: int
  bi_location :: "string option"
  bi_created_at :: string
  bi_updated_at :: string

record GroupRow =
  dg_id :: int
  dg_name :: string
  dg_description :: "string option"
  dg_format :: "string option"
  dg_created_at :: string
  dg_updated_at :: string

record DeckRow =
  dk_id :: int
  dk_name :: string
  dk_description :: "string option"
  dk_format :: "string option"
  dk_owner :: "string option"
  dk_state :: string
  dk_sleeve_color :: "string option"
  dk_location :: "string option"
  dk_notes :: "string option"
  dk_group :: "int option"
  dk_created_at :: string
  dk_updated_at :: string

record OrderRow =
  od_id :: int
  od_number :: "string option"
  od_source :: string
  od_seller :: "string option"
  od_date :: "string option"
  od_subtotal :: "f64 option"
  od_shipping :: "f64 option"
  od_tax :: "f64 option"
  od_total :: "f64 option"
  od_shipping_status :: "string option"
  od_delivery :: "string option"
  od_notes :: "string option"
  od_created_at :: string

record BatchRow =
  ba_id :: int
  ba_type :: string
  ba_name :: "string option"
  ba_notes :: "string option"
  ba_order :: "int option"
  ba_binder :: "int option"
  ba_created_at :: string

record CollectionEntry =
  ce_id :: int
  ce_printing :: string
  ce_condition :: string
  ce_language :: string
  ce_purchase_price :: "f64 option"
  ce_sale_price :: "f64 option"
  ce_acquired_at :: string
  ce_source :: string
  ce_notes :: "string option"
  ce_tags :: "string option"
  ce_graded :: bool
  ce_grade_company :: "string option"
  ce_grade_value :: "f64 option"
  ce_grade_cert :: "string option"
  ce_status :: string
  ce_order :: "int option"
  ce_binder :: "int option"
  ce_deck :: "int option"
  ce_batch :: "int option"

record StatusLogRow =
  sl_id :: int
  sl_collection :: int
  sl_from :: "string option"
  sl_to :: string
  sl_changed_at :: string
  sl_note :: "string option"

record MovementRow =
  mv_id :: int
  mv_collection :: int
  mv_from_binder :: "int option"
  mv_to_binder :: "int option"
  mv_from_deck :: "int option"
  mv_to_deck :: "int option"
  mv_changed_at :: string
  mv_note :: "string option"

record Event =
  ev_seq :: int
  ev_occurred_at :: string
  ev_source_table :: string
  ev_op :: string
  ev_row_id :: int
  ev_payload :: string
  ev_source :: string

record EmitRun =
  er_id :: int
  er_scope :: string
  er_source :: string
  er_completed_at :: string
  er_rows_emitted :: int
  er_seq_first :: "int option"
  er_seq_last :: "int option"
  er_forced :: bool

record WishRow =
  wi_id :: int
  wi_card :: string
  wi_printing :: "string option"
  wi_max_price :: "f64 option"
  wi_priority :: int
  wi_notes :: "string option"
  wi_added_at :: string
  wi_source :: string
  wi_fulfilled_at :: "string option"

record SealedRow =
  se_id :: int
  se_product :: int
  se_quantity :: int
  se_condition :: "string option"
  se_purchase_price :: "f64 option"
  se_sale_price :: "f64 option"
  se_purchase_date :: "string option"
  se_source :: "string option"
  se_seller :: "string option"
  se_notes :: "string option"
  se_status :: string
  se_added_at :: string

record ManualPrice =
  mp_id :: int
  mp_printing :: string
  mp_price :: f64
  mp_observed_at :: string
  mp_note :: "string option"
  mp_created_at :: string

record UserPrinting =
  up_id :: string
  up_card :: string
  up_variant :: string
  up_description :: "string option"
  up_created_at :: string

record UnresolvedRow =
  un_id :: int
  un_kind :: string
  un_source :: string
  un_batch :: "int option"
  un_line :: "int option"
  un_raw :: string
  un_set_hint :: "string option"
  un_number :: "string option"
  un_name :: "string option"
  un_variant :: "string option"
  un_quantity :: "int option"
  un_reason :: string
  un_status :: string
  un_printing :: "string option"
  un_product :: "int option"
  un_collection :: "int option"
  un_sealed :: "int option"
  un_parked_at :: string
  un_resolved_at :: "string option"

record tdb =
  db_conditions :: "Condition list"
  db_binders :: "BinderRow tbl"
  db_groups :: "GroupRow tbl"
  db_decks :: "DeckRow tbl"
  db_orders :: "OrderRow tbl"
  db_batches :: "BatchRow tbl"
  db_collection :: "CollectionEntry tbl"
  db_status_log :: "StatusLogRow tbl"
  db_movement :: "MovementRow tbl"
  db_outbox :: "Event tbl"
  db_emit_log :: "EmitRun tbl"
  db_wishlist :: "WishRow tbl"
  db_sealed :: "SealedRow tbl"
  db_manual_prices :: "ManualPrice tbl"
  db_user_printings :: "UserPrinting list"
  db_unresolved :: "UnresolvedRow tbl"
  db_ticks :: nat

definition empty_db :: tdb where
  "empty_db =
     \<lparr>db_conditions = [], db_binders = empty_tbl, db_groups = empty_tbl, db_decks = empty_tbl,
      db_orders = empty_tbl, db_batches = empty_tbl, db_collection = empty_tbl,
      db_status_log = empty_tbl, db_movement = empty_tbl, db_outbox = empty_tbl,
      db_emit_log = empty_tbl, db_wishlist = empty_tbl, db_sealed = empty_tbl,
      db_manual_prices = empty_tbl, db_user_printings = [], db_unresolved = empty_tbl, db_ticks = 0\<rparr>"

text \<open>
  What the code reads from outside its own database: the text runtime, the catalog, the clock
  (indexed by the number of reads so far), and SQLite's and serde's JSON and date functions over
  a type \<open>'j\<close> of JSON values.
\<close>

record 'j env =
  env_rt :: runtime
  env_catalog :: catalog
  env_now :: "nat \<Rightarrow> string"              \<comment> \<open>\<open>clock::now_rfc3339\<close>\<close>
  env_sql_now :: "nat \<Rightarrow> string"          \<comment> \<open>\<open>strftime('%Y-%m-%dT%H:%M:%fZ', 'now')\<close>\<close>
  env_sql_datetime :: "nat \<Rightarrow> string"     \<comment> \<open>\<open>datetime('now')\<close>\<close>
  env_strftime :: "string \<Rightarrow> string option"  \<comment> \<open>\<open>strftime('%Y-%m-%dT%H:%M:%fZ', x)\<close>, NULL if unparseable\<close>
  env_row_json :: "CollectionEntry \<Rightarrow> string"  \<comment> \<open>\<open>json_object\<close> of a \<open>collection\<close> row\<close>
  env_sealed_json :: "SealedRow \<Rightarrow> string"     \<comment> \<open>\<open>json_object\<close> of a \<open>sealed_collection\<close> row\<close>
  env_parse_json :: "string \<Rightarrow> 'j option"      \<comment> \<open>\<open>serde_json::from_str\<close>\<close>
  env_json_string :: "string \<Rightarrow> 'j"            \<comment> \<open>\<open>Value::String\<close>\<close>

type_synonym 'a dbact = "(tdb, 'a) act"

text \<open>The clock of the crate; a rollback keeps the reads.\<close>

definition now_rfc3339 :: "'j env \<Rightarrow> string dbact" where
  "now_rfc3339 env = (\<lambda>db. (Inr (env_now env (db_ticks db)), db\<lparr>db_ticks := Suc (db_ticks db)\<rparr>))"

definition rollback :: "tdb \<Rightarrow> tdb \<Rightarrow> tdb" where
  "rollback db db' = db\<lparr>db_ticks := db_ticks db'\<rparr>"

abbreviation tx :: "'a dbact \<Rightarrow> 'a dbact" where
  "tx \<equiv> transaction rollback"

section \<open>Constraints\<close>

definition conditions_allowed :: "string list" where
  "conditions_allowed =
     [''Near Mint'', ''Lightly Played'', ''Moderately Played'', ''Heavily Played'', ''Damaged'']"

definition statuses_allowed :: "string list" where
  "statuses_allowed =
     [''owned'', ''ordered'', ''listed'', ''sold'', ''removed'', ''traded'', ''gifted'', ''lost'']"

definition deck_states_allowed :: "string list" where
  "deck_states_allowed = [''idea'', ''ready'', ''built'']"

definition sealed_statuses_allowed :: "string list" where
  "sealed_statuses_allowed = [''owned'', ''listed'', ''sold'', ''traded'', ''gifted'', ''opened'']"

definition refers :: "('r \<Rightarrow> int) \<Rightarrow> 'r tbl \<Rightarrow> int option \<Rightarrow> bool" where
  "refers idf t r \<longleftrightarrow> (case r of None \<Rightarrow> True | Some i \<Rightarrow> tbl_has idf t i)"

definition entry_check :: "CollectionEntry \<Rightarrow> bool" where
  "entry_check c \<longleftrightarrow> ce_condition c \<in> set conditions_allowed \<and> ce_status c \<in> set statuses_allowed \<and>
     (ce_binder c = None \<or> ce_deck c = None)"

definition entry_refs :: "tdb \<Rightarrow> CollectionEntry \<Rightarrow> bool" where
  "entry_refs db c \<longleftrightarrow> refers od_id (db_orders db) (ce_order c) \<and> refers bi_id (db_binders db) (ce_binder c) \<and>
     refers dk_id (db_decks db) (ce_deck c) \<and> refers ba_id (db_batches db) (ce_batch c)"

definition movement_refs :: "tdb \<Rightarrow> MovementRow \<Rightarrow> bool" where
  "movement_refs db m \<longleftrightarrow> tbl_has ce_id (db_collection db) (mv_collection m) \<and>
     refers bi_id (db_binders db) (mv_from_binder m) \<and> refers bi_id (db_binders db) (mv_to_binder m) \<and>
     refers dk_id (db_decks db) (mv_from_deck m) \<and> refers dk_id (db_decks db) (mv_to_deck m)"

definition batch_refs :: "tdb \<Rightarrow> BatchRow \<Rightarrow> bool" where
  "batch_refs db b \<longleftrightarrow> refers od_id (db_orders db) (ba_order b) \<and> refers bi_id (db_binders db) (ba_binder b)"

section \<open>The outbox triggers\<close>

text \<open>\<open>AFTER INSERT / UPDATE / DELETE\<close>: one event per row, all stamped with the statement's instant.\<close>

definition log_rows ::
  "string \<Rightarrow> string \<Rightarrow> string \<Rightarrow> ('r \<Rightarrow> int) \<Rightarrow> ('r \<Rightarrow> string) \<Rightarrow> 'r list \<Rightarrow> Event tbl \<Rightarrow> Event tbl" where
  "log_rows stamp table op idf payload rows outbox =
     fold (\<lambda>r ob. tbl_append \<lparr>ev_seq = next_id ob, ev_occurred_at = stamp, ev_source_table = table,
             ev_op = op, ev_row_id = idf r, ev_payload = payload r, ev_source = ''trigger''\<rparr> ob) rows outbox"

definition log_entries :: "'j env \<Rightarrow> string \<Rightarrow> CollectionEntry list \<Rightarrow> tdb \<Rightarrow> tdb" where
  "log_entries env op rows db =
     db\<lparr>db_outbox := log_rows (env_sql_now env (db_ticks db)) ''collection'' op ce_id (env_row_json env) rows (db_outbox db),
        db_ticks := Suc (db_ticks db)\<rparr>"

definition log_sealed :: "'j env \<Rightarrow> string \<Rightarrow> SealedRow list \<Rightarrow> tdb \<Rightarrow> tdb" where
  "log_sealed env op rows db =
     db\<lparr>db_outbox := log_rows (env_sql_now env (db_ticks db)) ''sealed_collection'' op se_id (env_sealed_json env) rows (db_outbox db),
        db_ticks := Suc (db_ticks db)\<rparr>"

section \<open>Statements on \<open>collection\<close> and its logs\<close>

definition insert_entry :: "'j env \<Rightarrow> (int \<Rightarrow> CollectionEntry) \<Rightarrow> int dbact" where
  "insert_entry env mk = (\<lambda>db.
     let c = mk (next_id (db_collection db)) in
     if \<not> entry_check c then (Inl (Sqlite CheckViolation), db)
     else if \<not> entry_refs db c then (Inl (Sqlite ForeignKeyViolation), db)
     else (Inr (ce_id c),
           log_entries env ''insert'' [c] (db\<lparr>db_collection := tbl_append c (db_collection db)\<rparr>)))"

text \<open>The rows of an update, without the constraint checks: also the action of \<open>ON DELETE SET NULL\<close>.\<close>

definition touch_entries :: "'j env \<Rightarrow> (CollectionEntry \<Rightarrow> bool) \<Rightarrow> (CollectionEntry \<Rightarrow> CollectionEntry) \<Rightarrow> tdb \<Rightarrow> tdb" where
  "touch_entries env P f db =
     log_entries env ''update'' (map f (filter P (tbl_rows (db_collection db))))
       (db\<lparr>db_collection := tbl_modify P f (db_collection db)\<rparr>)"

definition update_entries ::
  "'j env \<Rightarrow> (CollectionEntry \<Rightarrow> bool) \<Rightarrow> (CollectionEntry \<Rightarrow> CollectionEntry) \<Rightarrow> nat dbact" where
  "update_entries env P f = (\<lambda>db.
     let changed = map f (filter P (tbl_rows (db_collection db))) in
     if \<not> list_all entry_check changed then (Inl (Sqlite CheckViolation), db)
     else if \<not> list_all (entry_refs db) changed then (Inl (Sqlite ForeignKeyViolation), db)
     else (Inr (length changed), touch_entries env P f db))"

definition delete_entries :: "'j env \<Rightarrow> (CollectionEntry \<Rightarrow> bool) \<Rightarrow> nat dbact" where
  "delete_entries env P = (\<lambda>db.
     let gone = filter P (tbl_rows (db_collection db));
         is_gone = (\<lambda>i. i \<in> ce_id ` set gone) in
     (Inr (length gone),
      log_entries env ''delete'' gone
        (db\<lparr>db_collection := tbl_remove P (db_collection db),
            db_status_log := tbl_remove (\<lambda>l. is_gone (sl_collection l)) (db_status_log db),
            db_movement := tbl_remove (\<lambda>m. is_gone (mv_collection m)) (db_movement db)\<rparr>)))"

definition insert_status :: "(int \<Rightarrow> StatusLogRow) \<Rightarrow> unit dbact" where
  "insert_status mk = (\<lambda>db.
     let l = mk (next_id (db_status_log db)) in
     if \<not> tbl_has ce_id (db_collection db) (sl_collection l) then (Inl (Sqlite ForeignKeyViolation), db)
     else (Inr (), db\<lparr>db_status_log := tbl_append l (db_status_log db)\<rparr>))"

definition insert_movement :: "(int \<Rightarrow> MovementRow) \<Rightarrow> unit dbact" where
  "insert_movement mk = (\<lambda>db.
     let m = mk (next_id (db_movement db)) in
     if \<not> movement_refs db m then (Inl (Sqlite ForeignKeyViolation), db)
     else (Inr (), db\<lparr>db_movement := tbl_append m (db_movement db)\<rparr>))"

section \<open>Statements on the other tables\<close>

definition insert_batch :: "(int \<Rightarrow> BatchRow) \<Rightarrow> int dbact" where
  "insert_batch mk = (\<lambda>db.
     let b = mk (next_id (db_batches db)) in
     if \<not> batch_refs db b then (Inl (Sqlite ForeignKeyViolation), db)
     else (Inr (ba_id b), db\<lparr>db_batches := tbl_append b (db_batches db)\<rparr>))"

definition insert_sealed :: "'j env \<Rightarrow> (int \<Rightarrow> SealedRow) \<Rightarrow> int dbact" where
  "insert_sealed env mk = (\<lambda>db.
     let r = mk (next_id (db_sealed db)) in
     if se_status r \<notin> set sealed_statuses_allowed then (Inl (Sqlite CheckViolation), db)
     else (Inr (se_id r), log_sealed env ''insert'' [r] (db\<lparr>db_sealed := tbl_append r (db_sealed db)\<rparr>)))"

definition update_sealed :: "'j env \<Rightarrow> (SealedRow \<Rightarrow> bool) \<Rightarrow> (SealedRow \<Rightarrow> SealedRow) \<Rightarrow> nat dbact" where
  "update_sealed env P f = (\<lambda>db.
     let changed = map f (filter P (tbl_rows (db_sealed db))) in
     if \<not> list_all (\<lambda>r. se_status r \<in> set sealed_statuses_allowed) changed
     then (Inl (Sqlite CheckViolation), db)
     else (Inr (length changed),
           log_sealed env ''update'' changed (db\<lparr>db_sealed := tbl_modify P f (db_sealed db)\<rparr>)))"

definition delete_sealed :: "'j env \<Rightarrow> (SealedRow \<Rightarrow> bool) \<Rightarrow> nat dbact" where
  "delete_sealed env P = (\<lambda>db.
     let gone = filter P (tbl_rows (db_sealed db)) in
     (Inr (length gone),
      log_sealed env ''delete'' gone (db\<lparr>db_sealed := tbl_remove P (db_sealed db)\<rparr>)))"

text \<open>
  \<open>DELETE FROM binders\<close>: \<open>collection.binder_id\<close> is set to NULL, while a reference from
  \<open>batches\<close> or \<open>movement_log\<close> has no action and refuses the delete.
\<close>

definition delete_binder_row :: "'j env \<Rightarrow> int \<Rightarrow> nat dbact" where
  "delete_binder_row env i = (\<lambda>db.
     if \<not> tbl_has bi_id (db_binders db) i then (Inr 0, db)
     else if list_ex (\<lambda>b. ba_binder b = Some i) (tbl_rows (db_batches db)) \<or>
             list_ex (\<lambda>m. mv_from_binder m = Some i \<or> mv_to_binder m = Some i) (tbl_rows (db_movement db))
     then (Inl (Sqlite ForeignKeyViolation), db)
     else (Inr 1, touch_entries env (\<lambda>c. ce_binder c = Some i) (\<lambda>c. c\<lparr>ce_binder := None\<rparr>)
                    (db\<lparr>db_binders := tbl_remove (\<lambda>b. bi_id b = i) (db_binders db)\<rparr>)))"

definition delete_deck_row :: "'j env \<Rightarrow> int \<Rightarrow> nat dbact" where
  "delete_deck_row env i = (\<lambda>db.
     if \<not> tbl_has dk_id (db_decks db) i then (Inr 0, db)
     else if list_ex (\<lambda>m. mv_from_deck m = Some i \<or> mv_to_deck m = Some i) (tbl_rows (db_movement db))
     then (Inl (Sqlite ForeignKeyViolation), db)
     else (Inr 1, touch_entries env (\<lambda>c. ce_deck c = Some i) (\<lambda>c. c\<lparr>ce_deck := None\<rparr>)
                    (db\<lparr>db_decks := tbl_remove (\<lambda>d. dk_id d = i) (db_decks db)\<rparr>)))"

definition delete_group_row :: "int \<Rightarrow> nat dbact" where
  "delete_group_row i = (\<lambda>db.
     if \<not> tbl_has dg_id (db_groups db) i then (Inr 0, db)
     else (Inr 1, db\<lparr>db_groups := tbl_remove (\<lambda>g. dg_id g = i) (db_groups db),
                     db_decks := tbl_modify (\<lambda>d. dk_group d = Some i) (\<lambda>d. d\<lparr>dk_group := None\<rparr>) (db_decks db)\<rparr>))"

end
