(* ===== verification/Journal.thy ===== *)
theory Journal
  imports Schema
begin

text \<open>
  The contract between the repositories and the ownership outbox, as two step relations: every
  action keeps the schema's constraints (\<open>keeps_schema\<close>) and appends to the outbox exactly the
  events that turn the old holdings into the new ones (\<open>journaled\<close>). Both are interpretations of
  \<open>step_relation\<close>; the lemmas here discharge them for the shared statements.
\<close>

section \<open>The schema invariant\<close>

definition ids_ok :: "tdb \<Rightarrow> bool" where
  "ids_ok db \<longleftrightarrow>
     tbl_ok bi_id (db_binders db) \<and> tbl_ok dg_id (db_groups db) \<and> tbl_ok dk_id (db_decks db) \<and>
     tbl_ok od_id (db_orders db) \<and> tbl_ok ba_id (db_batches db) \<and> tbl_ok ce_id (db_collection db) \<and>
     tbl_ok sl_id (db_status_log db) \<and> tbl_ok mv_id (db_movement db) \<and> tbl_ok ev_seq (db_outbox db) \<and>
     tbl_ok er_id (db_emit_log db) \<and> tbl_ok wi_id (db_wishlist db) \<and> tbl_ok se_id (db_sealed db) \<and>
     tbl_ok mp_id (db_manual_prices db) \<and> tbl_ok un_id (db_unresolved db)"

definition order_key_clash :: "OrderRow \<Rightarrow> OrderRow \<Rightarrow> bool" where
  "order_key_clash a b \<longleftrightarrow> od_number a \<noteq> None \<and> od_number a = od_number b \<and> od_source a = od_source b"

definition refs_ok :: "tdb \<Rightarrow> bool" where
  "refs_ok db \<longleftrightarrow>
     (\<forall>c \<in> set (tbl_rows (db_collection db)). entry_check c \<and> entry_refs db c) \<and>
     (\<forall>l \<in> set (tbl_rows (db_status_log db)). tbl_has ce_id (db_collection db) (sl_collection l)) \<and>
     (\<forall>m \<in> set (tbl_rows (db_movement db)). movement_refs db m) \<and>
     (\<forall>b \<in> set (tbl_rows (db_batches db)). batch_refs db b) \<and>
     (\<forall>u \<in> set (tbl_rows (db_unresolved db)). refers ba_id (db_batches db) (un_batch u)) \<and>
     (\<forall>d \<in> set (tbl_rows (db_decks db)).
        refers dg_id (db_groups db) (dk_group d) \<and> dk_state d \<in> set deck_states_allowed) \<and>
     (\<forall>s \<in> set (tbl_rows (db_sealed db)). se_status s \<in> set sealed_statuses_allowed) \<and>
     distinct (map dg_name (tbl_rows (db_groups db))) \<and>
     sorted_wrt (\<lambda>a b. \<not> order_key_clash a b) (tbl_rows (db_orders db)) \<and>
     distinct (map up_id (db_user_printings db)) \<and> distinct (map cn_name (db_conditions db))"

definition schema_ok :: "tdb \<Rightarrow> bool" where
  "schema_ok db \<longleftrightarrow> ids_ok db \<and> refs_ok db"

definition keeps_schema :: "tdb \<Rightarrow> tdb \<Rightarrow> bool" where
  "keeps_schema db db' \<longleftrightarrow> (schema_ok db \<longrightarrow> schema_ok db')"

lemma schema_ok_empty: "schema_ok empty_db"
  by (simp add: schema_ok_def ids_ok_def refs_ok_def empty_db_def)

lemma schema_ok_ticks [simp]: "schema_ok (db\<lparr>db_ticks := n\<rparr>) = schema_ok db"
  by (simp add: schema_ok_def ids_ok_def refs_ok_def entry_refs_def movement_refs_def batch_refs_def)

interpretation schema: step_relation keeps_schema rollback
  by unfold_locales (auto simp: keeps_schema_def rollback_def)

section \<open>Holdings and their journal\<close>

text \<open>What a tenant holds: the JSON of each current row of the two holdings tables.\<close>

definition json_of :: "'j env \<Rightarrow> string \<Rightarrow> 'j" where
  "json_of env text = (case env_parse_json env text of Some v \<Rightarrow> v | None \<Rightarrow> env_json_string env text)"

type_synonym 'j holdings = "string \<times> int \<rightharpoonup> 'j"

definition holdings_of :: "'j env \<Rightarrow> tdb \<Rightarrow> 'j holdings" where
  "holdings_of env db = (\<lambda>(table, i).
     if table = ''collection''
     then map_option (\<lambda>c. json_of env (env_row_json env c)) (tbl_find ce_id i (db_collection db))
     else if table = ''sealed_collection''
     then map_option (\<lambda>s. json_of env (env_sealed_json env s)) (tbl_find se_id i (db_sealed db))
     else None)"

text \<open>One step of the loop of \<open>project\<close>.\<close>

definition apply_event :: "'j env \<Rightarrow> Event \<Rightarrow> 'j holdings \<Rightarrow> 'j holdings" where
  "apply_event env e m =
     (let holding = (ev_source_table e, ev_row_id e) in
      if ev_op e = ''delete'' then m(holding := None)
      else m(holding \<mapsto> json_of env (ev_payload e)))"

definition replay :: "'j env \<Rightarrow> Event list \<Rightarrow> 'j holdings \<Rightarrow> 'j holdings" where
  "replay env evs m = fold (apply_event env) evs m"

lemma replay_append [simp]: "replay env (es @ fs) m = replay env fs (replay env es m)"
  by (simp add: replay_def)

lemma replay_Nil [simp]: "replay env [] m = m"
  by (simp add: replay_def)

text \<open>
  New events: numbered on from the sequence, provenance \<open>trigger\<close>, stamped by clock reads of the
  step in the order in which they were made.
\<close>

definition fresh_events :: "'j env \<Rightarrow> tdb \<Rightarrow> tdb \<Rightarrow> Event list \<Rightarrow> bool" where
  "fresh_events env db db' evs \<longleftrightarrow>
     map ev_seq evs = map (\<lambda>i. tbl_seq (db_outbox db) + int i) [1..<Suc (length evs)] \<and>
     (\<forall>e \<in> set evs. ev_source e = ''trigger'') \<and>
     (\<exists>reads. map ev_occurred_at evs = map (env_sql_now env) reads \<and> sorted_wrt (\<le>) reads \<and>
        (\<forall>i \<in> set reads. db_ticks db \<le> i \<and> i < db_ticks db'))"

definition journaled :: "'j env \<Rightarrow> tdb \<Rightarrow> tdb \<Rightarrow> bool" where
  "journaled env db db' \<longleftrightarrow> db_ticks db \<le> db_ticks db' \<and>
     (ids_ok db \<longrightarrow> ids_ok db' \<and>
       (\<exists>evs. tbl_rows (db_outbox db') = tbl_rows (db_outbox db) @ evs \<and>
          tbl_seq (db_outbox db') = tbl_seq (db_outbox db) + int (length evs) \<and>
          fresh_events env db db' evs \<and>
          holdings_of env db' = replay env evs (holdings_of env db)))"

lemma ids_ok_ticks [simp]: "ids_ok (db\<lparr>db_ticks := n\<rparr>) = ids_ok db"
  by (simp add: ids_ok_def)

lemma holdings_of_cong:
  "db_collection db' = db_collection db \<Longrightarrow> db_sealed db' = db_sealed db \<Longrightarrow>
   holdings_of env db' = holdings_of env db"
  by (auto simp: holdings_of_def fun_eq_iff)

lemma fresh_events_Nil [simp]: "fresh_events env db db' []"
  by (simp add: fresh_events_def)

lemma journaled_same:
  assumes "db_collection db' = db_collection db" "db_sealed db' = db_sealed db"
    and "db_outbox db' = db_outbox db" "db_ticks db \<le> db_ticks db'" "ids_ok db \<Longrightarrow> ids_ok db'"
  shows "journaled env db db'"
  unfolding journaled_def using assms holdings_of_cong [OF assms(1,2), of env]
  by (auto intro!: exI [of _ "[]"])

lemma fresh_events_trans:
  assumes "fresh_events env db db1 es" "fresh_events env db1 db2 fs"
    and "tbl_seq (db_outbox db1) = tbl_seq (db_outbox db) + int (length es)"
    and "db_ticks db \<le> db_ticks db1" "db_ticks db1 \<le> db_ticks db2"
  shows "fresh_events env db db2 (es @ fs)"
proof -
  obtain rs ss where r: "map ev_occurred_at es = map (env_sql_now env) rs" "sorted_wrt (\<le>) rs"
      "\<forall>i \<in> set rs. db_ticks db \<le> i \<and> i < db_ticks db1"
    and s: "map ev_occurred_at fs = map (env_sql_now env) ss" "sorted_wrt (\<le>) ss"
      "\<forall>i \<in> set ss. db_ticks db1 \<le> i \<and> i < db_ticks db2"
    using assms(1,2) unfolding fresh_events_def by metis
  have "map ev_occurred_at (es @ fs) = map (env_sql_now env) (rs @ ss) \<and> sorted_wrt (\<le>) (rs @ ss) \<and>
      (\<forall>i \<in> set (rs @ ss). db_ticks db \<le> i \<and> i < db_ticks db2)"
    using r s assms(4,5) by (fastforce simp: sorted_wrt_append)
  moreover have "map ev_seq (es @ fs) =
      map (\<lambda>i. tbl_seq (db_outbox db) + int i) [1..<Suc (length (es @ fs))]"
  proof (rule nth_equalityI)
    fix i assume i: "i < length (map ev_seq (es @ fs))"
    have e: "map ev_seq es = map (\<lambda>i. tbl_seq (db_outbox db) + int i) [1..<Suc (length es)]"
      and f: "map ev_seq fs = map (\<lambda>i. tbl_seq (db_outbox db1) + int i) [1..<Suc (length fs)]"
      using assms(1,2) by (simp_all add: fresh_events_def)
    show "map ev_seq (es @ fs) ! i =
        map (\<lambda>i. tbl_seq (db_outbox db) + int i) [1..<Suc (length (es @ fs))] ! i"
      using i by (cases "i < length es")
        (simp_all add: e f nth_append assms(3) del: upt_Suc)
  qed (simp del: upt_Suc)
  moreover have "\<forall>e \<in> set (es @ fs). ev_source e = ''trigger''"
    using assms(1,2) by (auto simp: fresh_events_def)
  ultimately show ?thesis unfolding fresh_events_def by blast
qed

lemma journaled_trans: "journaled env db db1 \<Longrightarrow> journaled env db1 db2 \<Longrightarrow> journaled env db db2"
  unfolding journaled_def
proof (intro conjI impI)
  assume a: "db_ticks db \<le> db_ticks db1 \<and>
     (ids_ok db \<longrightarrow> ids_ok db1 \<and>
       (\<exists>evs. tbl_rows (db_outbox db1) = tbl_rows (db_outbox db) @ evs \<and>
          tbl_seq (db_outbox db1) = tbl_seq (db_outbox db) + int (length evs) \<and>
          fresh_events env db db1 evs \<and> holdings_of env db1 = replay env evs (holdings_of env db)))"
    and b: "db_ticks db1 \<le> db_ticks db2 \<and>
     (ids_ok db1 \<longrightarrow> ids_ok db2 \<and>
       (\<exists>evs. tbl_rows (db_outbox db2) = tbl_rows (db_outbox db1) @ evs \<and>
          tbl_seq (db_outbox db2) = tbl_seq (db_outbox db1) + int (length evs) \<and>
          fresh_events env db1 db2 evs \<and> holdings_of env db2 = replay env evs (holdings_of env db1)))"
  show "db_ticks db \<le> db_ticks db2" using a b by simp
  assume i: "ids_ok db"
  show "ids_ok db2" using a b i by simp
  obtain es fs where
    e: "tbl_rows (db_outbox db1) = tbl_rows (db_outbox db) @ es"
      "tbl_seq (db_outbox db1) = tbl_seq (db_outbox db) + int (length es)"
      "fresh_events env db db1 es" "holdings_of env db1 = replay env es (holdings_of env db)"
    and f: "tbl_rows (db_outbox db2) = tbl_rows (db_outbox db1) @ fs"
      "tbl_seq (db_outbox db2) = tbl_seq (db_outbox db1) + int (length fs)"
      "fresh_events env db1 db2 fs" "holdings_of env db2 = replay env fs (holdings_of env db1)"
    using a b i by metis
  have "fresh_events env db db2 (es @ fs)"
    using fresh_events_trans [OF e(3) f(3) e(2)] a b by simp
  then show "\<exists>evs. tbl_rows (db_outbox db2) = tbl_rows (db_outbox db) @ evs \<and>
      tbl_seq (db_outbox db2) = tbl_seq (db_outbox db) + int (length evs) \<and>
      fresh_events env db db2 evs \<and> holdings_of env db2 = replay env evs (holdings_of env db)"
    using e f by (intro exI [of _ "es @ fs"]) simp
qed

lemma journaled_rollback: "journaled env db db' \<Longrightarrow> journaled env db (rollback db db')"
  by (rule journaled_same) (simp_all add: rollback_def journaled_def)

interpretation journal: step_relation "journaled env" rollback for env :: "'j env"
  by unfold_locales (rule journaled_same journaled_trans journaled_rollback, simp_all)+

section \<open>The triggers keep the journal\<close>

lemma log_rows_props:
  "tbl_rows (log_rows st t op idf pl rs ob) = tbl_rows ob @ map (\<lambda>(i, r).
       \<lparr>ev_seq = tbl_seq ob + int i, ev_occurred_at = st, ev_source_table = t, ev_op = op,
        ev_row_id = idf r, ev_payload = pl r, ev_source = ''trigger''\<rparr>) (enumerate 1 rs)"
  "tbl_seq (log_rows st t op idf pl rs ob) = tbl_seq ob + int (length rs)"
proof (induction rs rule: rev_induct)
  case (snoc r rs)
  case 1
  show ?case using snoc by (simp add: log_rows_def next_id_def enumerate_append_eq)
  case 2
  show ?case using snoc by (simp add: log_rows_def)
qed (simp_all add: log_rows_def)

lemma log_rows_ok: "tbl_ok ev_seq ob \<Longrightarrow> tbl_ok ev_seq (log_rows st t op idf pl rs ob)"
  by (induction rs rule: rev_induct) (auto simp: log_rows_def)

definition trigger_events ::
  "string \<Rightarrow> string \<Rightarrow> string \<Rightarrow> ('r \<Rightarrow> int) \<Rightarrow> ('r \<Rightarrow> string) \<Rightarrow> int \<Rightarrow> 'r list \<Rightarrow> Event list" where
  "trigger_events st t op idf pl seq rs = map (\<lambda>(i, r).
       \<lparr>ev_seq = seq + int i, ev_occurred_at = st, ev_source_table = t, ev_op = op,
        ev_row_id = idf r, ev_payload = pl r, ev_source = ''trigger''\<rparr>) (enumerate 1 rs)"

lemma replay_trigger_upsert:
  "op \<noteq> ''delete'' \<Longrightarrow> replay env (trigger_events st t op idf pl seq rs) m =
   fold (\<lambda>r m. m((t, idf r) \<mapsto> json_of env (pl r))) rs m"
  by (induction rs rule: rev_induct)
    (simp_all add: trigger_events_def enumerate_append_eq apply_event_def replay_def)

lemma replay_trigger_delete:
  "replay env (trigger_events st t ''delete'' idf pl seq rs) m =
   fold (\<lambda>r m. m((t, idf r) := None)) rs m"
  by (induction rs rule: rev_induct)
    (simp_all add: trigger_events_def enumerate_append_eq apply_event_def replay_def)

text \<open>A statement that logs \<open>rs\<close> at its own instant is journaled when the replay reaches the new rows.\<close>

lemma journaled_log:
  assumes "db_outbox db' = log_rows (env_sql_now env (db_ticks db)) t op idf pl rs (db_outbox db)"
    and "db_ticks db' = Suc (db_ticks db)"
    and "ids_ok db \<Longrightarrow> ids_ok db'"
    and "ids_ok db \<Longrightarrow> holdings_of env db' =
      replay env (trigger_events (env_sql_now env (db_ticks db)) t op idf pl (tbl_seq (db_outbox db)) rs)
        (holdings_of env db)"
  shows "journaled env db db'"
proof -
  let ?st = "env_sql_now env (db_ticks db)"
  let ?es = "trigger_events ?st t op idf pl (tbl_seq (db_outbox db)) rs"
  have rows: "tbl_rows (db_outbox db') = tbl_rows (db_outbox db) @ ?es"
    and seq: "tbl_seq (db_outbox db') = tbl_seq (db_outbox db) + int (length ?es)"
    by (simp_all add: assms(1) log_rows_props trigger_events_def)
  have "map ev_seq ?es = map (\<lambda>i. tbl_seq (db_outbox db) + int i) [1..<Suc (length ?es)]"
    by (rule nth_equalityI) (simp_all add: trigger_events_def nth_enumerate_eq del: upt_Suc)
  moreover have "map ev_occurred_at ?es = map (env_sql_now env) (replicate (length ?es) (db_ticks db))"
    by (rule nth_equalityI) (simp_all add: trigger_events_def nth_enumerate_eq)
  moreover have "sorted_wrt (\<le>) (replicate (length ?es) (db_ticks db))"
    by (simp add: sorted_wrt_iff_nth_less)
  ultimately have "fresh_events env db db' ?es"
    unfolding fresh_events_def using assms(2)
    by (auto simp: trigger_events_def simp del: upt_Suc intro!: exI [of _ "replicate (length ?es) (db_ticks db)"])
  then show ?thesis unfolding journaled_def using rows seq assms(2-4) by auto
qed

text \<open>Updating the holdings row by row gives the holdings of the updated table.\<close>

lemma fold_upsert:
  "distinct (map idf rs) \<Longrightarrow> fold (\<lambda>r m. m((t, idf r) \<mapsto> g r)) rs m (u, i) =
   (if u = t then (case List.find (\<lambda>r. idf r = i) rs of Some r \<Rightarrow> Some (g r) | None \<Rightarrow> m (u, i)) else m (u, i))"
proof (induction rs arbitrary: m)
  case (Cons r rs)
  have "List.find (\<lambda>x. idf x = idf r) rs = None"
    using Cons.prems by (auto simp: find_None_iff image_iff)
  then show ?case using Cons by (auto split: option.splits)
qed simp

lemma fold_remove:
  "fold (\<lambda>r m. m((t, idf r) := None)) rs m (u, i) =
   (if u = t \<and> i \<in> idf ` set rs then None else m (u, i))"
  by (induction rs arbitrary: m) auto

lemma find_map_filter:
  assumes "distinct (map idf rs)" "\<And>r. idf (f r) = idf r"
  shows "List.find (\<lambda>r. idf r = i) (map f (filter P rs)) =
    (case List.find (\<lambda>r. idf r = i) rs of Some r \<Rightarrow> if P r then Some (f r) else None | None \<Rightarrow> None)"
proof -
  have "List.find (\<lambda>r. idf r = i) (map f (filter P rs)) =
      map_option f (List.find (\<lambda>r. idf r = i) (filter P rs))"
    by (rule find_map_id) (rule assms(2))
  then show ?thesis by (auto simp: find_filter_distinct [OF assms(1)] split: option.split)
qed

end
