(* ===== verification/Statements.thy ===== *)
theory Statements
  imports Journal
begin

text \<open>
  The shared statements keep the schema and the journal: the facts every repository's own proof
  consists of. \<open>stmt_rules\<close> collects them as introduction rules for \<open>always\<close>.
\<close>

named_theorems stmt_rules

section \<open>References under the table operations\<close>

lemma refers_None [simp]: "refers idf t None"
  by (simp add: refers_def)

lemma refers_Some [simp]: "refers idf t (Some i) = tbl_has idf t i"
  by (simp add: refers_def)

lemma refers_append: "refers idf t r \<Longrightarrow> refers idf (tbl_append x t) r"
  by (auto simp: refers_def split: option.splits)

lemma refers_modify: "(\<And>r. idf (f r) = idf r) \<Longrightarrow> refers idf (tbl_modify P f t) r = refers idf t r"
  by (simp add: refers_def tbl_has_modify split: option.split)

lemma tbl_has_remove:
  "tbl_has idf (tbl_remove P t) i \<longleftrightarrow> (\<exists>r \<in> set (tbl_rows t). idf r = i \<and> \<not> P r)"
  by (auto simp: tbl_has_iff)

lemma tbl_has_remove_id: "tbl_has idf (tbl_remove (\<lambda>r. idf r = k) t) i \<longleftrightarrow> i \<noteq> k \<and> tbl_has idf t i"
  by (auto simp: tbl_has_iff)

lemma refers_remove_id:
  "refers idf t r \<Longrightarrow> r \<noteq> Some k \<Longrightarrow> refers idf (tbl_remove (\<lambda>x. idf x = k) t) r"
  by (cases r) (auto simp: tbl_has_remove_id)

section \<open>The clock\<close>

lemma journaled_now [stmt_rules, intro]: "always (journaled env') (now_rfc3339 env)"
  by (simp add: always_def now_rfc3339_def journaled_same)

lemma schema_now [stmt_rules, intro]: "always keeps_schema (now_rfc3339 env)"
  by (simp add: always_def now_rfc3339_def keeps_schema_def)

section \<open>The journal\<close>

lemma log_entries_simps [simp]:
  "db_binders (log_entries env op rs db) = db_binders db" "db_groups (log_entries env op rs db) = db_groups db"
  "db_decks (log_entries env op rs db) = db_decks db" "db_orders (log_entries env op rs db) = db_orders db"
  "db_batches (log_entries env op rs db) = db_batches db"
  "db_collection (log_entries env op rs db) = db_collection db"
  "db_status_log (log_entries env op rs db) = db_status_log db"
  "db_movement (log_entries env op rs db) = db_movement db" "db_emit_log (log_entries env op rs db) = db_emit_log db"
  "db_wishlist (log_entries env op rs db) = db_wishlist db" "db_sealed (log_entries env op rs db) = db_sealed db"
  "db_manual_prices (log_entries env op rs db) = db_manual_prices db"
  "db_user_printings (log_entries env op rs db) = db_user_printings db"
  "db_conditions (log_entries env op rs db) = db_conditions db"
  "db_unresolved (log_entries env op rs db) = db_unresolved db"
  "db_ticks (log_entries env op rs db) = Suc (db_ticks db)"
  "db_outbox (log_entries env op rs db) =
     log_rows (env_sql_now env (db_ticks db)) ''collection'' op ce_id (env_row_json env) rs (db_outbox db)"
  by (simp_all add: log_entries_def)

lemma log_sealed_simps [simp]:
  "db_binders (log_sealed env op rs db) = db_binders db" "db_groups (log_sealed env op rs db) = db_groups db"
  "db_decks (log_sealed env op rs db) = db_decks db" "db_orders (log_sealed env op rs db) = db_orders db"
  "db_batches (log_sealed env op rs db) = db_batches db"
  "db_collection (log_sealed env op rs db) = db_collection db"
  "db_status_log (log_sealed env op rs db) = db_status_log db"
  "db_movement (log_sealed env op rs db) = db_movement db" "db_emit_log (log_sealed env op rs db) = db_emit_log db"
  "db_wishlist (log_sealed env op rs db) = db_wishlist db" "db_sealed (log_sealed env op rs db) = db_sealed db"
  "db_manual_prices (log_sealed env op rs db) = db_manual_prices db"
  "db_user_printings (log_sealed env op rs db) = db_user_printings db"
  "db_conditions (log_sealed env op rs db) = db_conditions db"
  "db_unresolved (log_sealed env op rs db) = db_unresolved db"
  "db_ticks (log_sealed env op rs db) = Suc (db_ticks db)"
  "db_outbox (log_sealed env op rs db) =
     log_rows (env_sql_now env (db_ticks db)) ''sealed_collection'' op se_id (env_sealed_json env) rs (db_outbox db)"
  by (simp_all add: log_sealed_def)

lemma ids_ok_D:
  "ids_ok db \<Longrightarrow> tbl_ok ce_id (db_collection db)" "ids_ok db \<Longrightarrow> tbl_ok se_id (db_sealed db)"
  "ids_ok db \<Longrightarrow> tbl_ok ev_seq (db_outbox db)"
  by (simp_all add: ids_ok_def)

lemma journaled_insert_entry [stmt_rules, intro]:
  assumes "\<And>i. ce_id (mk i) = i"
  shows "always (journaled env) (insert_entry env mk)"
proof (rule alwaysI)
  fix db r db'
  assume e: "insert_entry env mk db = (r, db')"
  let ?c = "mk (next_id (db_collection db))"
  consider "db' = db" | "db' = log_entries env ''insert'' [?c] (db\<lparr>db_collection := tbl_append ?c (db_collection db)\<rparr>)"
    using e by (auto simp: insert_entry_def Let_def split: if_splits)
  then show "journaled env db db'"
  proof cases
    case 2
    show ?thesis
    proof (rule journaled_log [where rs = "[?c]"])
      show "ids_ok db \<Longrightarrow> ids_ok db'"
        using assms by (auto simp: 2 ids_ok_def log_rows_ok)
      show "ids_ok db \<Longrightarrow> holdings_of env db' = replay env (trigger_events (env_sql_now env (db_ticks db))
          ''collection'' ''insert'' ce_id (env_row_json env) (tbl_seq (db_outbox db)) [?c]) (holdings_of env db)"
        using assms by (auto simp: 2 replay_trigger_upsert holdings_of_def fun_eq_iff tbl_find_append ids_ok_def)
    qed (simp_all add: 2)
  qed (simp add: journal.R_refl)
qed

lemma journaled_touch:
  assumes "\<And>c. ce_id (f c) = ce_id c"
  shows "journaled env db (touch_entries env P f db)"
proof (rule journaled_log [where rs = "map f (filter P (tbl_rows (db_collection db)))"])
  show "ids_ok db \<Longrightarrow> ids_ok (touch_entries env P f db)"
    using assms by (auto simp: touch_entries_def ids_ok_def log_rows_ok)
  assume ids: "ids_ok db"
  then have d: "distinct (map ce_id (tbl_rows (db_collection db)))"
    by (auto simp: ids_ok_def tbl_ok_distinct)
  then have d': "distinct (map ce_id (map f (filter P (tbl_rows (db_collection db)))))"
    using assms by (simp add: comp_def distinct_map_filter)
  have m: "List.find (\<lambda>r. ce_id r = i) (map (\<lambda>r. if P r then f r else r) (tbl_rows (db_collection db))) =
      map_option (\<lambda>r. if P r then f r else r) (List.find (\<lambda>r. ce_id r = i) (tbl_rows (db_collection db)))" for i
    by (rule find_map_id) (simp add: assms)
  show "holdings_of env (touch_entries env P f db) = replay env (trigger_events (env_sql_now env (db_ticks db))
      ''collection'' ''update'' ce_id (env_row_json env) (tbl_seq (db_outbox db))
      (map f (filter P (tbl_rows (db_collection db))))) (holdings_of env db)"
    unfolding replay_trigger_upsert [of "''update''", simplified] fun_eq_iff
    by (auto simp: fold_upsert [OF d'] find_map_filter [where idf = ce_id and f = f, OF d assms] holdings_of_def touch_entries_def m
        tbl_find_def split: option.split)
qed (simp_all add: touch_entries_def)

lemma journaled_update_entries [stmt_rules, intro]:
  "(\<And>c. ce_id (f c) = ce_id c) \<Longrightarrow> always (journaled env) (update_entries env P f)"
  by (rule alwaysI) (auto simp: update_entries_def Let_def journal.R_refl journaled_touch split: if_splits)

lemma journaled_delete_entries [stmt_rules, intro]:
  "always (journaled env) (delete_entries env P)"
proof (rule alwaysI)
  fix db r db'
  assume "delete_entries env P db = (r, db')"
  then have d: "db' = snd (delete_entries env P db)" by simp
  show "journaled env db db'"
  proof (rule journaled_log [where rs = "filter P (tbl_rows (db_collection db))"])
    show "ids_ok db \<Longrightarrow> ids_ok db'"
      by (auto simp: d delete_entries_def Let_def ids_ok_def log_rows_ok)
    assume ids: "ids_ok db"
    then have t: "tbl_ok ce_id (db_collection db)" by (rule ids_ok_D)
    have gone: "i \<in> ce_id ` set (filter P (tbl_rows (db_collection db))) \<longleftrightarrow>
        (\<exists>r. tbl_find ce_id i (db_collection db) = Some r \<and> P r)" for i
      by (auto simp: tbl_find_iff [OF t])
    show "holdings_of env db' = replay env (trigger_events (env_sql_now env (db_ticks db))
        ''collection'' ''delete'' ce_id (env_row_json env) (tbl_seq (db_outbox db))
        (filter P (tbl_rows (db_collection db)))) (holdings_of env db)"
      unfolding replay_trigger_delete fun_eq_iff
      by (auto simp: fold_remove gone holdings_of_def d delete_entries_def Let_def tbl_find_remove [OF t]
          simp del: set_filter split: option.split)
  qed (simp_all add: d delete_entries_def Let_def)
qed

lemma journaled_insert_sealed [stmt_rules, intro]:
  assumes "\<And>i. se_id (mk i) = i"
  shows "always (journaled env) (insert_sealed env mk)"
proof (rule alwaysI)
  fix db r db'
  assume e: "insert_sealed env mk db = (r, db')"
  let ?c = "mk (next_id (db_sealed db))"
  consider "db' = db" | "db' = log_sealed env ''insert'' [?c] (db\<lparr>db_sealed := tbl_append ?c (db_sealed db)\<rparr>)"
    using e by (auto simp: insert_sealed_def Let_def split: if_splits)
  then show "journaled env db db'"
  proof cases
    case 2
    show ?thesis
    proof (rule journaled_log [where rs = "[?c]"])
      show "ids_ok db \<Longrightarrow> ids_ok db'"
        using assms by (auto simp: 2 ids_ok_def log_rows_ok)
      show "ids_ok db \<Longrightarrow> holdings_of env db' = replay env (trigger_events (env_sql_now env (db_ticks db))
          ''sealed_collection'' ''insert'' se_id (env_sealed_json env) (tbl_seq (db_outbox db)) [?c]) (holdings_of env db)"
        using assms by (auto simp: 2 replay_trigger_upsert holdings_of_def fun_eq_iff tbl_find_append ids_ok_def)
    qed (simp_all add: 2)
  qed (simp add: journal.R_refl)
qed

lemma journaled_update_sealed [stmt_rules, intro]:
  assumes "\<And>c. se_id (f c) = se_id c"
  shows "always (journaled env) (update_sealed env P f)"
proof (rule alwaysI)
  fix db r db'
  assume e: "update_sealed env P f db = (r, db')"
  let ?rs = "map f (filter P (tbl_rows (db_sealed db)))"
  consider "db' = db" | "db' = log_sealed env ''update'' ?rs (db\<lparr>db_sealed := tbl_modify P f (db_sealed db)\<rparr>)"
    using e by (auto simp: update_sealed_def Let_def split: if_splits)
  then show "journaled env db db'"
  proof cases
    case 2
    show ?thesis
    proof (rule journaled_log [where rs = ?rs])
      show "ids_ok db \<Longrightarrow> ids_ok db'"
        using assms by (auto simp: 2 ids_ok_def log_rows_ok)
      assume ids: "ids_ok db"
      then have d: "distinct (map se_id (tbl_rows (db_sealed db)))"
        by (auto simp: ids_ok_def tbl_ok_distinct)
      then have d': "distinct (map se_id ?rs)"
        using assms by (simp add: comp_def distinct_map_filter)
      have m: "List.find (\<lambda>r. se_id r = i) (map (\<lambda>r. if P r then f r else r) (tbl_rows (db_sealed db))) =
          map_option (\<lambda>r. if P r then f r else r) (List.find (\<lambda>r. se_id r = i) (tbl_rows (db_sealed db)))" for i
        by (rule find_map_id) (simp add: assms)
      show "holdings_of env db' = replay env (trigger_events (env_sql_now env (db_ticks db))
          ''sealed_collection'' ''update'' se_id (env_sealed_json env) (tbl_seq (db_outbox db)) ?rs) (holdings_of env db)"
        unfolding replay_trigger_upsert [of "''update''", simplified] fun_eq_iff
        by (auto simp: fold_upsert [OF d'] find_map_filter [where idf = se_id and f = f, OF d assms] holdings_of_def 2 m
            tbl_find_def split: option.split)
    qed (simp_all add: 2)
  qed (simp add: journal.R_refl)
qed

lemma journaled_delete_sealed [stmt_rules, intro]:
  "always (journaled env) (delete_sealed env P)"
proof (rule alwaysI)
  fix db r db'
  assume "delete_sealed env P db = (r, db')"
  then have d: "db' = snd (delete_sealed env P db)" by simp
  show "journaled env db db'"
  proof (rule journaled_log [where rs = "filter P (tbl_rows (db_sealed db))"])
    show "ids_ok db \<Longrightarrow> ids_ok db'"
      by (auto simp: d delete_sealed_def Let_def ids_ok_def log_rows_ok)
    assume ids: "ids_ok db"
    then have t: "tbl_ok se_id (db_sealed db)" by (rule ids_ok_D)
    have gone: "i \<in> se_id ` set (filter P (tbl_rows (db_sealed db))) \<longleftrightarrow>
        (\<exists>r. tbl_find se_id i (db_sealed db) = Some r \<and> P r)" for i
      by (auto simp: tbl_find_iff [OF t])
    show "holdings_of env db' = replay env (trigger_events (env_sql_now env (db_ticks db))
        ''sealed_collection'' ''delete'' se_id (env_sealed_json env) (tbl_seq (db_outbox db))
        (filter P (tbl_rows (db_sealed db)))) (holdings_of env db)"
      unfolding replay_trigger_delete fun_eq_iff
      by (auto simp: fold_remove gone holdings_of_def d delete_sealed_def Let_def tbl_find_remove [OF t]
          simp del: set_filter split: option.split)
  qed (simp_all add: d delete_sealed_def Let_def)
qed

text \<open>Statements on tables that are not holdings leave the journal alone.\<close>

lemma journaled_insert_status [stmt_rules, intro]:
  assumes "\<And>i. sl_id (mk i) = i" shows "always (journaled env) (insert_status mk)"
  by (rule alwaysI, rule journaled_same)
    (use assms in \<open>auto simp: insert_status_def Let_def ids_ok_def split: if_splits\<close>)

lemma journaled_insert_movement [stmt_rules, intro]:
  assumes "\<And>i. mv_id (mk i) = i" shows "always (journaled env) (insert_movement mk)"
  by (rule alwaysI, rule journaled_same)
    (use assms in \<open>auto simp: insert_movement_def Let_def ids_ok_def split: if_splits\<close>)

lemma journaled_insert_batch [stmt_rules, intro]:
  assumes "\<And>i. ba_id (mk i) = i" shows "always (journaled env) (insert_batch mk)"
  by (rule alwaysI, rule journaled_same)
    (use assms in \<open>auto simp: insert_batch_def Let_def ids_ok_def split: if_splits\<close>)

lemma journaled_delete_group_row [stmt_rules, intro]: "always (journaled env) (delete_group_row i)"
  by (rule alwaysI, rule journaled_same) (auto simp: delete_group_row_def ids_ok_def split: if_splits)

lemma journaled_delete_binder_row [stmt_rules, intro]: "always (journaled env) (delete_binder_row env i)"
proof (rule alwaysI)
  fix db r db'
  assume e: "delete_binder_row env i db = (r, db')"
  let ?d = "db\<lparr>db_binders := tbl_remove (\<lambda>b. bi_id b = i) (db_binders db)\<rparr>"
  have "journaled env db ?d" by (rule journaled_same) (auto simp: ids_ok_def)
  also have "journaled env ?d (touch_entries env (\<lambda>c. ce_binder c = Some i) (\<lambda>c. c\<lparr>ce_binder := None\<rparr>) ?d)"
    by (rule journaled_touch) simp
  finally (journaled_trans) show "journaled env db db'"
    using e by (auto simp: delete_binder_row_def journal.R_refl split: if_splits)
qed

lemma journaled_delete_deck_row [stmt_rules, intro]: "always (journaled env) (delete_deck_row env i)"
proof (rule alwaysI)
  fix db r db'
  assume e: "delete_deck_row env i db = (r, db')"
  let ?d = "db\<lparr>db_decks := tbl_remove (\<lambda>b. dk_id b = i) (db_decks db)\<rparr>"
  have "journaled env db ?d" by (rule journaled_same) (auto simp: ids_ok_def)
  also have "journaled env ?d (touch_entries env (\<lambda>c. ce_deck c = Some i) (\<lambda>c. c\<lparr>ce_deck := None\<rparr>) ?d)"
    by (rule journaled_touch) simp
  finally (journaled_trans) show "journaled env db db'"
    using e by (auto simp: delete_deck_row_def journal.R_refl split: if_splits)
qed

section \<open>The schema\<close>

lemma keeps_schemaI:
  assumes "always (journaled env) m"
    and "\<And>db r db'. ids_ok db \<Longrightarrow> refs_ok db \<Longrightarrow> m db = (r, db') \<Longrightarrow> refs_ok db'"
  shows "always keeps_schema m"
proof (rule alwaysI)
  fix db r db' assume m: "m db = (r, db')"
  have "journaled env db db'" using alwaysD [OF assms(1) m] .
  then show "keeps_schema db db'"
    using assms(2) [OF _ _ m] by (auto simp: keeps_schema_def schema_ok_def journaled_def)
qed

lemma refs_ok_frame:
  "db_collection db' = db_collection db \<Longrightarrow> db_status_log db' = db_status_log db \<Longrightarrow>
   db_movement db' = db_movement db \<Longrightarrow> db_batches db' = db_batches db \<Longrightarrow>
   db_unresolved db' = db_unresolved db \<Longrightarrow> db_decks db' = db_decks db \<Longrightarrow>
   db_sealed db' = db_sealed db \<Longrightarrow> db_groups db' = db_groups db \<Longrightarrow>
   db_orders db' = db_orders db \<Longrightarrow> db_binders db' = db_binders db \<Longrightarrow>
   db_user_printings db' = db_user_printings db \<Longrightarrow> db_conditions db' = db_conditions db \<Longrightarrow>
   refs_ok db \<Longrightarrow> refs_ok db'"
  by (simp add: refs_ok_def entry_refs_def movement_refs_def batch_refs_def)

lemma refs_okD:
  assumes "refs_ok db"
  shows "\<forall>c \<in> set (tbl_rows (db_collection db)). entry_check c \<and> entry_refs db c"
    and "\<forall>l \<in> set (tbl_rows (db_status_log db)). tbl_has ce_id (db_collection db) (sl_collection l)"
    and "\<forall>m \<in> set (tbl_rows (db_movement db)). movement_refs db m"
    and "\<forall>b \<in> set (tbl_rows (db_batches db)). batch_refs db b"
    and "\<forall>u \<in> set (tbl_rows (db_unresolved db)). refers ba_id (db_batches db) (un_batch u)"
    and "\<forall>d \<in> set (tbl_rows (db_decks db)).
       refers dg_id (db_groups db) (dk_group d) \<and> dk_state d \<in> set deck_states_allowed"
    and "\<forall>s \<in> set (tbl_rows (db_sealed db)). se_status s \<in> set sealed_statuses_allowed"
    and "distinct (map dg_name (tbl_rows (db_groups db)))"
    and "sorted_wrt (\<lambda>a b. \<not> order_key_clash a b) (tbl_rows (db_orders db))"
    and "distinct (map up_id (db_user_printings db))"
    and "distinct (map cn_name (db_conditions db))"
  using assms unfolding refs_ok_def by blast+

lemma schema_insert_entry [stmt_rules, intro]:
  assumes "\<And>i. ce_id (mk i) = i" shows "always keeps_schema (insert_entry env mk)"
proof (rule keeps_schemaI)
  show "always (journaled env) (insert_entry env mk)" using assms by auto
  show "refs_ok db'" if "refs_ok db" "insert_entry env mk db = (r, db')" for db r db'
    using that by (auto simp: insert_entry_def Let_def refs_ok_def entry_refs_def movement_refs_def
        batch_refs_def split: if_splits)
qed

lemma refs_ok_touch:
  assumes "\<And>c. ce_id (f c) = ce_id c" "refs_ok db"
    and "\<And>c. c \<in> set (tbl_rows (db_collection db)) \<Longrightarrow> P c \<Longrightarrow> entry_check (f c) \<and> entry_refs db (f c)"
  shows "refs_ok (touch_entries env P f db)"
proof -
  have "\<And>i. tbl_has ce_id (tbl_modify P f (db_collection db)) i = tbl_has ce_id (db_collection db) i"
    using tbl_has_modify [of ce_id f P "db_collection db"] assms(1) by simp
  then show ?thesis
    using assms(2,3) by (auto simp: refs_ok_def touch_entries_def entry_refs_def movement_refs_def batch_refs_def)
qed

lemma schema_update_entries [stmt_rules, intro]:
  assumes "\<And>c. ce_id (f c) = ce_id c" shows "always keeps_schema (update_entries env P f)"
proof (rule keeps_schemaI)
  show "always (journaled env) (update_entries env P f)" using assms by auto
  show "refs_ok db'" if "refs_ok db" "update_entries env P f db = (r, db')" for db r db'
    using that by (auto simp: update_entries_def Let_def list_all_iff intro!: refs_ok_touch assms split: if_splits)
qed

lemma schema_delete_entries [stmt_rules, intro]: "always keeps_schema (delete_entries env P)"
proof (rule keeps_schemaI)
  show "always (journaled env) (delete_entries env P)" by auto
  fix db r db'
  assume ok: "refs_ok db" and "delete_entries env P db = (r, db')"
  then have d: "db' = snd (delete_entries env P db)" by simp
  define gone where "gone = ce_id ` set (filter P (tbl_rows (db_collection db)))"
  have kept: "tbl_has ce_id (tbl_remove P (db_collection db)) i"
    if "tbl_has ce_id (db_collection db) i" "i \<notin> gone" for i
    using that by (auto simp: gone_def tbl_has_remove tbl_has_iff)
  have t: "db_collection db' = tbl_remove P (db_collection db)"
    "db_status_log db' = tbl_remove (\<lambda>l. sl_collection l \<in> gone) (db_status_log db)"
    "db_movement db' = tbl_remove (\<lambda>m. mv_collection m \<in> gone) (db_movement db)"
    by (simp_all add: d delete_entries_def Let_def gone_def)
  have f: "db_binders db' = db_binders db" "db_decks db' = db_decks db" "db_orders db' = db_orders db"
    "db_batches db' = db_batches db" "db_unresolved db' = db_unresolved db" "db_sealed db' = db_sealed db"
    "db_groups db' = db_groups db" "db_user_printings db' = db_user_printings db" "db_conditions db' = db_conditions db"
    by (simp_all add: d delete_entries_def Let_def)
  show "refs_ok db'"
    unfolding refs_ok_def
  proof (intro conjI)
    show "\<forall>c \<in> set (tbl_rows (db_collection db')). entry_check c \<and> entry_refs db' c"
      using refs_okD(1) [OF ok] by (simp add: t f entry_refs_def)
    show "\<forall>l \<in> set (tbl_rows (db_status_log db')). tbl_has ce_id (db_collection db') (sl_collection l)"
      using refs_okD(2) [OF ok] kept by (simp add: t)
    show "\<forall>m \<in> set (tbl_rows (db_movement db')). movement_refs db' m"
      using refs_okD(3) [OF ok] kept by (simp add: t f movement_refs_def)
    show "\<forall>b \<in> set (tbl_rows (db_batches db')). batch_refs db' b"
      using refs_okD(4) [OF ok] by (simp add: f batch_refs_def)
  qed (simp_all add: f refs_okD [OF ok])
qed

lemma schema_insert_status [stmt_rules, intro]:
  assumes "\<And>i. sl_id (mk i) = i" shows "always keeps_schema (insert_status mk)"
proof (rule keeps_schemaI)
  show "always (journaled env) (insert_status mk)" using assms by auto
  show "refs_ok db'" if "refs_ok db" "insert_status mk db = (r, db')" for db r db'
    using that by (auto simp: insert_status_def Let_def refs_ok_def entry_refs_def movement_refs_def
        batch_refs_def split: if_splits)
qed

lemma schema_insert_movement [stmt_rules, intro]:
  assumes "\<And>i. mv_id (mk i) = i" shows "always keeps_schema (insert_movement mk)"
proof (rule keeps_schemaI)
  show "always (journaled env) (insert_movement mk)" using assms by auto
  show "refs_ok db'" if "refs_ok db" "insert_movement mk db = (r, db')" for db r db'
    using that by (auto simp: insert_movement_def Let_def refs_ok_def entry_refs_def movement_refs_def
        batch_refs_def split: if_splits)
qed

lemma schema_insert_batch [stmt_rules, intro]:
  assumes "\<And>i. ba_id (mk i) = i" shows "always keeps_schema (insert_batch mk)"
proof (rule keeps_schemaI)
  show "always (journaled env) (insert_batch mk)" using assms by auto
  show "refs_ok db'" if "refs_ok db" "insert_batch mk db = (r, db')" for db r db'
    using that by (auto simp: insert_batch_def Let_def refs_ok_def entry_refs_def movement_refs_def
        batch_refs_def refers_append split: if_splits)
qed

lemma schema_insert_sealed [stmt_rules, intro]:
  assumes "\<And>i. se_id (mk i) = i" shows "always keeps_schema (insert_sealed env mk)"
proof (rule keeps_schemaI)
  show "always (journaled env) (insert_sealed env mk)" using assms by auto
  show "refs_ok db'" if "refs_ok db" "insert_sealed env mk db = (r, db')" for db r db'
    using that by (auto simp: insert_sealed_def Let_def refs_ok_def entry_refs_def movement_refs_def
        batch_refs_def split: if_splits)
qed

lemma schema_update_sealed [stmt_rules, intro]:
  assumes "\<And>i. se_id (f i) = se_id i" shows "always keeps_schema (update_sealed env P f)"
proof (rule keeps_schemaI)
  show "always (journaled env) (update_sealed env P f)" using assms by auto
  show "refs_ok db'" if "refs_ok db" "update_sealed env P f db = (r, db')" for db r db'
    using that by (auto simp: update_sealed_def Let_def refs_ok_def entry_refs_def movement_refs_def
        batch_refs_def list_all_iff split: if_splits)
qed

lemma schema_delete_sealed [stmt_rules, intro]: "always keeps_schema (delete_sealed env P)"
proof (rule keeps_schemaI)
  show "always (journaled env) (delete_sealed env P)" by auto
  show "refs_ok db'" if "refs_ok db" "delete_sealed env P db = (r, db')" for db r db'
    using that by (auto simp: delete_sealed_def Let_def refs_ok_def entry_refs_def movement_refs_def
        batch_refs_def)
qed

lemma schema_delete_binder_row [stmt_rules, intro]: "always keeps_schema (delete_binder_row env i)"
proof (rule keeps_schemaI)
  show "always (journaled env) (delete_binder_row env i)" by auto
  fix db r db'
  assume ok: "refs_ok db" and d: "delete_binder_row env i db = (r, db')"
  show "refs_ok db'"
  proof (cases "db' = db")
    case False
    then have 2: "\<forall>b \<in> set (tbl_rows (db_batches db)). ba_binder b \<noteq> Some i"
      "\<forall>m \<in> set (tbl_rows (db_movement db)). mv_from_binder m \<noteq> Some i \<and> mv_to_binder m \<noteq> Some i"
      "db' = touch_entries env (\<lambda>c. ce_binder c = Some i) (\<lambda>c. c\<lparr>ce_binder := None\<rparr>)
         (db\<lparr>db_binders := tbl_remove (\<lambda>b. bi_id b = i) (db_binders db)\<rparr>)"
      using d unfolding delete_binder_row_def list_ex_iff by (auto split: if_splits)
    have has: "tbl_has ce_id (tbl_modify P (\<lambda>c. c\<lparr>ce_binder := None\<rparr>) (db_collection db)) j =
        tbl_has ce_id (db_collection db) j" for P j
      using tbl_has_modify [of ce_id "\<lambda>c. c\<lparr>ce_binder := None\<rparr>" P "db_collection db"] by simp
    let ?mod = "tbl_modify (\<lambda>c. ce_binder c = Some i) (\<lambda>c. c\<lparr>ce_binder := None\<rparr>) (db_collection db)"
    have t: "db_collection db' = ?mod" "db_binders db' = tbl_remove (\<lambda>b. bi_id b = i) (db_binders db)"
      and f: "db_status_log db' = db_status_log db" "db_movement db' = db_movement db" "db_decks db' = db_decks db"
        "db_orders db' = db_orders db" "db_batches db' = db_batches db" "db_unresolved db' = db_unresolved db"
        "db_sealed db' = db_sealed db" "db_groups db' = db_groups db"
        "db_user_printings db' = db_user_printings db" "db_conditions db' = db_conditions db"
      by (simp_all add: 2 touch_entries_def)
    show ?thesis
      unfolding refs_ok_def
    proof (intro conjI)
      show "\<forall>c \<in> set (tbl_rows (db_collection db')). entry_check c \<and> entry_refs db' c"
        using refs_okD(1) [OF ok] by (auto simp: t f entry_refs_def entry_check_def intro!: refers_remove_id)
      show "\<forall>m \<in> set (tbl_rows (db_movement db')). movement_refs db' m"
        using refs_okD(3) [OF ok] 2(2) by (simp add: t f has movement_refs_def refers_remove_id)
      show "\<forall>b \<in> set (tbl_rows (db_batches db')). batch_refs db' b"
        using refs_okD(4) [OF ok] 2(1) by (simp add: t f batch_refs_def refers_remove_id)
      show "\<forall>l \<in> set (tbl_rows (db_status_log db')). tbl_has ce_id (db_collection db') (sl_collection l)"
        using refs_okD(2) [OF ok] by (simp add: t f has)
    qed (simp_all add: f refs_okD [OF ok])
  qed (use ok in simp)
qed

lemma schema_delete_deck_row [stmt_rules, intro]: "always keeps_schema (delete_deck_row env i)"
proof (rule keeps_schemaI)
  show "always (journaled env) (delete_deck_row env i)" by auto
  fix db r db'
  assume ok: "refs_ok db" and d: "delete_deck_row env i db = (r, db')"
  show "refs_ok db'"
  proof (cases "db' = db")
    case False
    then have 2: "\<forall>m \<in> set (tbl_rows (db_movement db)). mv_from_deck m \<noteq> Some i \<and> mv_to_deck m \<noteq> Some i"
      "db' = touch_entries env (\<lambda>c. ce_deck c = Some i) (\<lambda>c. c\<lparr>ce_deck := None\<rparr>)
         (db\<lparr>db_decks := tbl_remove (\<lambda>b. dk_id b = i) (db_decks db)\<rparr>)"
      using d unfolding delete_deck_row_def list_ex_iff by (auto split: if_splits)
    have has: "tbl_has ce_id (tbl_modify P (\<lambda>c. c\<lparr>ce_deck := None\<rparr>) (db_collection db)) j =
        tbl_has ce_id (db_collection db) j" for P j
      using tbl_has_modify [of ce_id "\<lambda>c. c\<lparr>ce_deck := None\<rparr>" P "db_collection db"] by simp
    let ?mod = "tbl_modify (\<lambda>c. ce_deck c = Some i) (\<lambda>c. c\<lparr>ce_deck := None\<rparr>) (db_collection db)"
    have t: "db_collection db' = ?mod" "db_decks db' = tbl_remove (\<lambda>b. dk_id b = i) (db_decks db)"
      and f: "db_status_log db' = db_status_log db" "db_movement db' = db_movement db" "db_binders db' = db_binders db"
        "db_orders db' = db_orders db" "db_batches db' = db_batches db" "db_unresolved db' = db_unresolved db"
        "db_sealed db' = db_sealed db" "db_groups db' = db_groups db"
        "db_user_printings db' = db_user_printings db" "db_conditions db' = db_conditions db"
      by (simp_all add: 2 touch_entries_def)
    show ?thesis
      unfolding refs_ok_def
    proof (intro conjI)
      show "\<forall>c \<in> set (tbl_rows (db_collection db')). entry_check c \<and> entry_refs db' c"
        using refs_okD(1) [OF ok] by (auto simp: t f entry_refs_def entry_check_def intro!: refers_remove_id)
      show "\<forall>m \<in> set (tbl_rows (db_movement db')). movement_refs db' m"
        using refs_okD(3) [OF ok] 2(1) by (simp add: t f has movement_refs_def refers_remove_id)
      show "\<forall>b \<in> set (tbl_rows (db_batches db')). batch_refs db' b"
        using refs_okD(4) [OF ok] by (simp add: f t batch_refs_def)
      show "\<forall>l \<in> set (tbl_rows (db_status_log db')). tbl_has ce_id (db_collection db') (sl_collection l)"
        using refs_okD(2) [OF ok] by (simp add: t f has)
      show "\<forall>d \<in> set (tbl_rows (db_decks db')).
          refers dg_id (db_groups db') (dk_group d) \<and> dk_state d \<in> set deck_states_allowed"
        using refs_okD(6) [OF ok] by (simp add: t f)
    qed (simp_all add: f refs_okD [OF ok])
  qed (use ok in simp)
qed

lemma schema_delete_group_row [stmt_rules, intro]: "always keeps_schema (delete_group_row i)"
proof (rule keeps_schemaI)
  show "always (journaled env) (delete_group_row i)" by auto
  fix db r db'
  assume ok: "refs_ok db" and d: "delete_group_row i db = (r, db')"
  have has: "refers dk_id (tbl_modify P (\<lambda>d. d\<lparr>dk_group := None\<rparr>) (db_decks db)) j = refers dk_id (db_decks db) j" for P j
    using refers_modify [of dk_id "\<lambda>d. d\<lparr>dk_group := None\<rparr>" P "db_decks db"] by simp
  show "refs_ok db'"
    using ok d by (auto simp: delete_group_row_def refs_ok_def entry_refs_def movement_refs_def
        batch_refs_def has distinct_map_filter intro!: refers_remove_id split: if_splits)
qed

end
