(* ===== verification/Catalog.thy ===== *)
theory Catalog
  imports Statements
begin

text \<open>
  Reads across the attached catalog: the application-layer foreign keys (\<open>catalog.rs\<close>) and the
  one definition of a printing's and a sealed lot's market price (\<open>prices.rs\<close>).
\<close>

section \<open>Application-layer foreign keys\<close>

definition card_exists :: "catalog \<Rightarrow> string \<Rightarrow> bool" where
  "card_exists cat card_id \<longleftrightarrow> list_ex (\<lambda>c. cd_id c = card_id) (cat_cards cat)"

definition printing_exists :: "catalog \<Rightarrow> tdb \<Rightarrow> string \<Rightarrow> bool" where
  "printing_exists cat db printing_id \<longleftrightarrow>
     list_ex (\<lambda>p. pg_id p = printing_id) (cat_printings cat) \<or>
     list_ex (\<lambda>u. up_id u = printing_id) (db_user_printings db)"

definition sealed_product_exists :: "catalog \<Rightarrow> int \<Rightarrow> bool" where
  "sealed_product_exists cat product_id \<longleftrightarrow> list_ex (\<lambda>p. sp_id p = product_id) (cat_sealed_products cat)"

section \<open>Market prices\<close>

text \<open>
  A printing of the catalog or of the user, as the joins of the callers bind it to \<open>p\<close>.
\<close>

record PriceKey =
  pk_printing :: string
  pk_product :: "int option"
  pk_sub_type :: "string option"

text \<open>\<open>ORDER BY observed_at DESC LIMIT 1\<close>; of equal dates SQLite's index yields the lowest id.\<close>

definition newest_price :: "ManualPrice list \<Rightarrow> f64 option" where
  "newest_price ps =
     (case fold (\<lambda>p best. case best of
                   None \<Rightarrow> Some p
                 | Some b \<Rightarrow> if mp_observed_at b < mp_observed_at p then Some p else Some b) ps None of
        None \<Rightarrow> None
      | Some p \<Rightarrow> Some (mp_price p))"

definition feed_price :: "LatestPrice list \<Rightarrow> PriceKey \<Rightarrow> f64 option" where
  "feed_price feed p =
     map_option lp_price (List.find (\<lambda>lp. Some (lp_product lp) = pk_product p \<and>
        Some (lp_sub_type lp) = pk_sub_type p \<and> lp_type lp = ''market'') feed)"

definition override_price :: "catalog \<Rightarrow> PriceKey \<Rightarrow> f64 option" where
  "override_price cat p =
     map_option po_price (List.find (\<lambda>o'. po_printing o' = pk_printing p) (cat_overrides cat))"

definition manual_price :: "(ManualPrice \<Rightarrow> bool) \<Rightarrow> tdb \<Rightarrow> PriceKey \<Rightarrow> f64 option" where
  "manual_price cutoff db p =
     newest_price (filter (\<lambda>mp. mp_printing mp = pk_printing p \<and>
        list_ex (\<lambda>up. up_id up = mp_printing mp) (db_user_printings db) \<and> cutoff mp)
       (tbl_rows (db_manual_prices db)))"

definition market_price_from ::
  "LatestPrice list \<Rightarrow> (ManualPrice \<Rightarrow> bool) \<Rightarrow> catalog \<Rightarrow> tdb \<Rightarrow> PriceKey \<Rightarrow> f64 option" where
  "market_price_from feed cutoff cat db p =
     coalesce (feed_price feed p) (coalesce (override_price cat p) (manual_price cutoff db p))"

definition market_price :: "catalog \<Rightarrow> tdb \<Rightarrow> PriceKey \<Rightarrow> f64 option" where
  "market_price cat db p = market_price_from (cat_latest_prices cat) (\<lambda>_. True) cat db p"

text \<open>\<open>date_of\<close> is SQLite's \<open>date(mp.observed_at)\<close>, NULL when it cannot be parsed.\<close>

definition market_price_asof ::
  "LatestPrice list \<Rightarrow> (string \<Rightarrow> string option) \<Rightarrow> string \<Rightarrow> catalog \<Rightarrow> tdb \<Rightarrow> PriceKey \<Rightarrow> f64 option" where
  "market_price_asof prices_asof date_of day cat db p =
     market_price_from prices_asof
       (\<lambda>mp. case date_of (mp_observed_at mp) of Some d \<Rightarrow> d \<le> day | None \<Rightarrow> False) cat db p"

definition sealed_market_price :: "LatestSealedPrice list \<Rightarrow> int \<Rightarrow> f64 option" where
  "sealed_market_price feed product =
     (case List.find (\<lambda>l. lsp_product l = product) feed of
        Some l \<Rightarrow> coalesce (lsp_market l) (lsp_mid l)
      | None \<Rightarrow> None)"

section \<open>Properties\<close>

lemma coalesce_Some: "coalesce a b = Some v \<longleftrightarrow> a = Some v \<or> (a = None \<and> b = Some v)"
  by (cases a) auto

lemma newest_price_None: "newest_price ps = None \<longleftrightarrow> ps = []"
proof -
  have "fold (\<lambda>p best. case best of None \<Rightarrow> Some p
      | Some b \<Rightarrow> if mp_observed_at b < mp_observed_at p then Some p else Some b) ps (Some b) \<noteq> None" for ps b
    by (induction ps arbitrary: b) auto
  then show ?thesis by (cases ps) (auto simp: newest_price_def split: option.splits)
qed

lemma newest_price_max:
  "newest_price ps = Some v \<Longrightarrow> \<exists>p \<in> set ps. mp_price p = v \<and> (\<forall>q \<in> set ps. mp_observed_at q \<le> mp_observed_at p)"
proof -
  let ?f = "\<lambda>p best. case best of None \<Rightarrow> Some p
      | Some b \<Rightarrow> if mp_observed_at b < mp_observed_at p then Some p else Some b"
  have step: "\<exists>p. fold ?f ps (Some b) = Some p \<and> p \<in> insert b (set ps) \<and>
      (\<forall>q \<in> insert b (set ps). mp_observed_at q \<le> mp_observed_at p)" for ps b
  proof (induction ps arbitrary: b)
    case (Cons a ps)
    show ?case
    proof (cases "mp_observed_at b < mp_observed_at a")
      case True
      with Cons [of a] show ?thesis by fastforce
    next
      case False
      with Cons [of b] show ?thesis by fastforce
    qed
  qed simp
  assume "newest_price ps = Some v"
  then show ?thesis
    using step [of "tl ps" "hd ps"] by (cases ps) (auto simp: newest_price_def split: option.splits)
qed

lemma newest_price_nonempty:
  assumes "ps \<noteq> []"
  shows "\<exists>m \<in> set ps. newest_price ps = Some (mp_price m) \<and> list_all (\<lambda>n. mp_observed_at n \<le> mp_observed_at m) ps"
proof (cases "newest_price ps")
  case None
  with assms show ?thesis by (simp add: newest_price_None)
next
  case (Some v)
  then show ?thesis using newest_price_max [OF Some] unfolding list_all_iff by blast
qed

text \<open>
  Which arm prices a printing: the TCGplayer feed wins over everything, then the curated
  override, and the tenant's own newest observation counts only for a printing the tenant
  invented; a catalog printing without a feed price or an override has no price whatever the
  tenant entered.
\<close>

theorem market_price_arms:
  "case feed_price (cat_latest_prices cat) p of
     Some v \<Rightarrow> market_price cat db p = Some v
   | None \<Rightarrow>
     (case override_price cat p of
        Some v \<Rightarrow> market_price cat db p = Some v
      | None \<Rightarrow>
        (let mine = filter (\<lambda>m. mp_printing m = pk_printing p) (tbl_rows (db_manual_prices db)) in
         if pk_printing p \<in> up_id ` set (db_user_printings db) \<and> mine \<noteq> []
         then \<exists>m \<in> set mine. market_price cat db p = Some (mp_price m) \<and>
                list_all (\<lambda>n. mp_observed_at n \<le> mp_observed_at m) mine
         else market_price cat db p = None))"
proof -
  let ?mine = "filter (\<lambda>m. mp_printing m = pk_printing p) (tbl_rows (db_manual_prices db))"
  let ?ms = "filter (\<lambda>mp. mp_printing mp = pk_printing p \<and>
      list_ex (\<lambda>up. up_id up = mp_printing mp) (db_user_printings db) \<and> True) (tbl_rows (db_manual_prices db))"
  have ms: "?ms = (if pk_printing p \<in> up_id ` set (db_user_printings db) then ?mine else [])"
  proof (cases "pk_printing p \<in> up_id ` set (db_user_printings db)")
    case True
    then have "list_ex (\<lambda>up. up_id up = pk_printing p) (db_user_printings db)" by (auto simp: list_ex_iff)
    with True show ?thesis by (simp cong: conj_cong)
  next
    case False
    then have "\<not> list_ex (\<lambda>up. up_id up = pk_printing p) (db_user_printings db)"
      by (auto simp: list_ex_iff) (metis image_eqI)
    with False show ?thesis by (simp cong: conj_cong)
  qed
  note newest = newest_price_nonempty [of ?mine]
  have nil: "newest_price [] = None" by (simp add: newest_price_None)
  note defs = market_price_def market_price_from_def manual_price_def
  show ?thesis
  proof (cases "feed_price (cat_latest_prices cat) p")
    case feed: None
    show ?thesis
    proof (cases "override_price cat p")
      case None
      with feed have "market_price cat db p = newest_price ?ms" by (simp add: defs)
      then show ?thesis using ms newest nil
        unfolding feed None option.case Let_def by (cases "pk_printing p \<in> up_id ` set (db_user_printings db) \<and> ?mine \<noteq> []") auto
    qed (simp add: feed defs)
  qed (simp add: defs)
qed

end
