(* ===== verification/Collection.thy ===== *)
theory Collection
  imports Catalog
begin

text \<open>
  The collection repository, \<open>pkdump-db/src/collection.rs\<close>: one row per physical card, a
  \<open>status_log\<close> of its life and a \<open>movement_log\<close> of its moves.
\<close>

section \<open>Requests and display rows\<close>

record NewCopy =
  nc_printing :: string
  nc_condition :: "string option"
  nc_language :: "string option"
  nc_purchase_price :: "f64 option"
  nc_acquired_at :: "string option"
  nc_source :: string
  nc_status :: "string option"
  nc_notes :: "string option"
  nc_order :: "int option"
  nc_binder :: "int option"
  nc_deck :: "int option"
  nc_batch :: "int option"

record CopyEdit =
  xe_condition :: "string option"
  xe_language :: "string option"
  xe_purchase_price :: "f64 option"
  xe_sale_price :: "f64 option"
  xe_notes :: "string option"
  xe_tags :: "string option"
  xe_graded :: "bool option"
  xe_grade_company :: "string option"
  xe_grade_value :: "f64 option"
  xe_grade_cert :: "string option"

text \<open>The joined shape of the \<open>/collection\<close> page: the entry, its printing, card and set.\<close>

record PrintingView =
  pv_id :: string
  pv_card :: string
  pv_variant :: string
  pv_product :: "int option"
  pv_sub_type :: "string option"
  pv_description :: "string option"

record CollectionRow =
  cr_entry :: CollectionEntry
  cr_printing :: PrintingView
  cr_card :: CardRow
  cr_set :: SetRow
  cr_market_price :: "f64 option"

section \<open>Operations\<close>

text \<open>The inserted row; unnamed columns take the schema's defaults.\<close>

definition new_entry :: "NewCopy \<Rightarrow> string \<Rightarrow> int \<Rightarrow> CollectionEntry" where
  "new_entry new acquired i =
     \<lparr>ce_id = i, ce_printing = nc_printing new, ce_condition = keep (nc_condition new) ''Near Mint'',
      ce_language = keep (nc_language new) ''English'', ce_purchase_price = nc_purchase_price new,
      ce_sale_price = None, ce_acquired_at = acquired, ce_source = nc_source new,
      ce_notes = nc_notes new, ce_tags = None, ce_graded = False, ce_grade_company = None,
      ce_grade_value = None, ce_grade_cert = None, ce_status = keep (nc_status new) ''owned'',
      ce_order = nc_order new, ce_binder = nc_binder new, ce_deck = nc_deck new,
      ce_batch = nc_batch new\<rparr>"

definition collection_add :: "'j env \<Rightarrow> NewCopy \<Rightarrow> int dbact" where
  "collection_add env new =
     bind_act (query (\<lambda>db. printing_exists (env_catalog env) db (nc_printing new))) (\<lambda>known.
     if \<not> known then fail (NotFound (''printing '' @ quoted (nc_printing new) @ '' is not in the catalog''))
     else if nc_binder new \<noteq> None \<and> nc_deck new \<noteq> None
     then fail (Conflict ''a copy cannot be added to a binder and a deck at once'')
     else
     bind_act (case nc_acquired_at new of None \<Rightarrow> now_rfc3339 env | Some t \<Rightarrow> ret t) (\<lambda>acquired.
     tx (bind_act (insert_entry env (new_entry new acquired)) (\<lambda>i.
         bind_act (now_rfc3339 env) (\<lambda>now.
         bind_act (insert_status (\<lambda>l.
           \<lparr>sl_id = l, sl_collection = i, sl_from = None, sl_to = keep (nc_status new) ''owned'',
            sl_changed_at = now, sl_note = Some ''added''\<rparr>)) (\<lambda>_.
         ret i))))))"

lemma new_entry_simps [simp]:
  "ce_id (new_entry new t i) = i" "ce_status (new_entry new t i) = keep (nc_status new) ''owned''"
  by (simp_all add: new_entry_def)

definition collection_get :: "int \<Rightarrow> CollectionEntry option dbact" where
  "collection_get i = query (\<lambda>db. tbl_find ce_id i (db_collection db))"

text \<open>\<open>LIMIT\<close> and \<open>OFFSET\<close>: a negative limit is no limit, a negative offset is none.\<close>

definition limit_offset :: "int \<Rightarrow> int \<Rightarrow> 'a list \<Rightarrow> 'a list" where
  "limit_offset lim off xs = (let ys = drop (nat off) xs in if lim < 0 then ys else take (nat lim) ys)"

definition collection_list :: "int \<Rightarrow> int \<Rightarrow> CollectionEntry list dbact" where
  "collection_list lim off = query (\<lambda>db. limit_offset lim off (rev (tbl_rows (db_collection db))))"

text \<open>The join \<open>ROW_FROM\<close>: catalog printings and the tenant's own, the card, the set.\<close>

definition printing_views :: "catalog \<Rightarrow> tdb \<Rightarrow> PrintingView list" where
  "printing_views cat db =
     map (\<lambda>p. \<lparr>pv_id = pg_id p, pv_card = pg_card p, pv_variant = pg_variant p, pv_product = pg_product p,
                pv_sub_type = pg_sub_type p, pv_description = None\<rparr>) (cat_printings cat) @
     map (\<lambda>u. \<lparr>pv_id = up_id u, pv_card = up_card u, pv_variant = up_variant u, pv_product = None,
                pv_sub_type = None, pv_description = up_description u\<rparr>) (db_user_printings db)"

definition collection_rows :: "catalog \<Rightarrow> tdb \<Rightarrow> CollectionEntry \<Rightarrow> CollectionRow list" where
  "collection_rows cat db c =
     concat (map (\<lambda>p. concat (map (\<lambda>cd. map (\<lambda>s.
         \<lparr>cr_entry = c, cr_printing = p, cr_card = cd, cr_set = s,
          cr_market_price = market_price cat db
            \<lparr>pk_printing = pv_id p, pk_product = pv_product p, pk_sub_type = pv_sub_type p\<rparr>\<rparr>)
         (filter (\<lambda>s. st_code s = cd_set cd) (cat_sets cat)))
       (filter (\<lambda>cd. cd_id cd = pv_card p) (cat_cards cat))))
     (filter (\<lambda>p. pv_id p = ce_printing c) (printing_views cat db)))"

definition rows_where :: "'j env \<Rightarrow> (CollectionEntry \<Rightarrow> bool) \<Rightarrow> tdb \<Rightarrow> CollectionRow list" where
  "rows_where env P db =
     concat (map (collection_rows (env_catalog env) db) (filter P (tbl_rows (db_collection db))))"

definition list_rows :: "'j env \<Rightarrow> CollectionRow list dbact" where
  "list_rows env = query (\<lambda>db.
     concat (map (collection_rows (env_catalog env) db) (rev (tbl_rows (db_collection db)))))"

definition get_row :: "'j env \<Rightarrow> int \<Rightarrow> CollectionRow option dbact" where
  "get_row env i = query (\<lambda>db. case rows_where env (\<lambda>c. ce_id c = i) db of [] \<Rightarrow> None | r # _ \<Rightarrow> Some r)"

definition list_by_binder :: "'j env \<Rightarrow> int \<Rightarrow> CollectionRow list dbact" where
  "list_by_binder env i = query (rows_where env (\<lambda>c. ce_binder c = Some i))"

definition list_by_deck :: "'j env \<Rightarrow> int \<Rightarrow> CollectionRow list dbact" where
  "list_by_deck env i = query (rows_where env (\<lambda>c. ce_deck c = Some i))"

definition list_by_order :: "'j env \<Rightarrow> int \<Rightarrow> CollectionRow list dbact" where
  "list_by_order env i = query (rows_where env (\<lambda>c. ce_order c = Some i))"

definition list_by_batch :: "'j env \<Rightarrow> int \<Rightarrow> CollectionRow list dbact" where
  "list_by_batch env i = query (rows_where env (\<lambda>c. ce_batch c = Some i))"

definition list_for_card :: "'j env \<Rightarrow> string \<Rightarrow> CollectionEntry list dbact" where
  "list_for_card env card_id = query (\<lambda>db.
     filter (\<lambda>c. ce_printing c \<in> set (map pg_id (filter (\<lambda>p. pg_card p = card_id) (cat_printings (env_catalog env))) @
                                      map up_id (filter (\<lambda>u. up_card u = card_id) (db_user_printings db))))
       (tbl_rows (db_collection db)))"

definition copy_edit :: "CopyEdit \<Rightarrow> CollectionEntry \<Rightarrow> CollectionEntry" where
  "copy_edit edit c =
     c\<lparr>ce_condition := keep (xe_condition edit) (ce_condition c),
       ce_language := keep (xe_language edit) (ce_language c),
       ce_purchase_price := coalesce (xe_purchase_price edit) (ce_purchase_price c),
       ce_sale_price := coalesce (xe_sale_price edit) (ce_sale_price c),
       ce_notes := coalesce (xe_notes edit) (ce_notes c),
       ce_tags := coalesce (xe_tags edit) (ce_tags c),
       ce_graded := keep (xe_graded edit) (ce_graded c),
       ce_grade_company := coalesce (xe_grade_company edit) (ce_grade_company c),
       ce_grade_value := coalesce (xe_grade_value edit) (ce_grade_value c),
       ce_grade_cert := coalesce (xe_grade_cert edit) (ce_grade_cert c)\<rparr>"

definition collection_update :: "'j env \<Rightarrow> int \<Rightarrow> CopyEdit \<Rightarrow> bool dbact" where
  "collection_update env i edit =
     bind_act (update_entries env (\<lambda>c. ce_id c = i) (copy_edit edit)) (\<lambda>n. ret (0 < n))"

definition set_status :: "'j env \<Rightarrow> int \<Rightarrow> string \<Rightarrow> string option \<Rightarrow> unit dbact" where
  "set_status env i new_status note =
     bind_act (query (\<lambda>db. map_option ce_status (tbl_find ce_id i (db_collection db)))) (\<lambda>found.
     case found of
       None \<Rightarrow> fail (NotFound (''collection entry '' @ show_int i))
     | Some from \<Rightarrow>
         tx (bind_act (update_entries env (\<lambda>c. ce_id c = i) (\<lambda>c. c\<lparr>ce_status := new_status\<rparr>)) (\<lambda>_.
             bind_act (now_rfc3339 env) (\<lambda>now.
             insert_status (\<lambda>l. \<lparr>sl_id = l, sl_collection = i, sl_from = Some from, sl_to = new_status,
                                sl_changed_at = now, sl_note = note\<rparr>)))))"

definition move_to :: "'j env \<Rightarrow> int \<Rightarrow> int option \<Rightarrow> int option \<Rightarrow> string option \<Rightarrow> unit dbact" where
  "move_to env i binder deck note =
     (if binder \<noteq> None \<and> deck \<noteq> None
      then fail (Conflict ''a copy cannot be in a binder and a deck at once'')
      else
      bind_act (query (\<lambda>db. tbl_find ce_id i (db_collection db))) (\<lambda>found.
      case found of
        None \<Rightarrow> fail (NotFound (''collection entry '' @ show_int i))
      | Some c \<Rightarrow>
          tx (bind_act (update_entries env (\<lambda>c. ce_id c = i) (\<lambda>c. c\<lparr>ce_binder := binder, ce_deck := deck\<rparr>)) (\<lambda>_.
              bind_act (now_rfc3339 env) (\<lambda>now.
              insert_movement (\<lambda>m. \<lparr>mv_id = m, mv_collection = i, mv_from_binder = ce_binder c,
                mv_to_binder = binder, mv_from_deck = ce_deck c, mv_to_deck = deck,
                mv_changed_at = now, mv_note = note\<rparr>))))))"

definition collection_delete :: "'j env \<Rightarrow> int \<Rightarrow> bool dbact" where
  "collection_delete env i = bind_act (delete_entries env (\<lambda>c. ce_id c = i)) (\<lambda>n. ret (0 < n))"

definition delete_latest_for_printing :: "'j env \<Rightarrow> string \<Rightarrow> bool dbact" where
  "delete_latest_for_printing env printing =
     bind_act (query (\<lambda>db. List.find (\<lambda>c. ce_printing c = printing) (rev (tbl_rows (db_collection db))))) (\<lambda>found.
     case found of None \<Rightarrow> ret False | Some c \<Rightarrow> collection_delete env (ce_id c))"

text \<open>The card of a printing: \<open>UNION ALL\<close>, the catalog's answer first.\<close>

definition card_of :: "catalog \<Rightarrow> tdb \<Rightarrow> string \<Rightarrow> string option" where
  "card_of cat db printing =
     coalesce (map_option pg_card (List.find (\<lambda>p. pg_id p = printing) (cat_printings cat)))
              (map_option up_card (List.find (\<lambda>u. up_id u = printing) (db_user_printings db)))"

definition change_printing :: "'j env \<Rightarrow> int \<Rightarrow> string \<Rightarrow> unit dbact" where
  "change_printing env i new_printing =
     bind_act (query (\<lambda>db. (map_option ce_printing (tbl_find ce_id i (db_collection db)), card_of (env_catalog env) db))) (\<lambda>got.
     case fst got of
       None \<Rightarrow> fail (NotFound (''collection entry '' @ show_int i))
     | Some current \<Rightarrow>
         (case snd got new_printing of
            None \<Rightarrow> fail (NotFound (''printing '' @ quoted new_printing @ '' is not in the catalog''))
          | Some new_card \<Rightarrow>
              if snd got current \<noteq> Some new_card
              then fail (Conflict ''a copy can only be changed to another printing of the same card'')
              else bind_act (update_entries env (\<lambda>c. ce_id c = i) (\<lambda>c. c\<lparr>ce_printing := new_printing\<rparr>)) (\<lambda>_. ret ())))"

section \<open>Every operation keeps the schema and the journal\<close>

named_theorems repo_rules

lemmas schema_intros = schema.always_rules stmt_rules
lemmas journal_intros = journal.always_rules stmt_rules

lemma copy_edit_id [simp]: "ce_id (copy_edit edit c) = ce_id c" "ce_status (copy_edit edit c) = ce_status c"
  by (simp_all add: copy_edit_def)

lemma schema_collection_add [repo_rules]: "always keeps_schema (collection_add env new)"
  unfolding collection_add_def by (intro schema_intros) simp_all

lemma schema_collection_update [repo_rules]: "always keeps_schema (collection_update env i edit)"
  unfolding collection_update_def by (intro schema_intros) simp_all

lemma schema_set_status [repo_rules]: "always keeps_schema (set_status env i st note)"
  unfolding set_status_def by (intro schema_intros) simp_all

lemma schema_move_to [repo_rules]: "always keeps_schema (move_to env i b d note)"
  unfolding move_to_def by (intro schema_intros) simp_all

lemma schema_collection_delete [repo_rules]: "always keeps_schema (collection_delete env i)"
  unfolding collection_delete_def by (intro schema_intros)

lemma schema_delete_latest [repo_rules]: "always keeps_schema (delete_latest_for_printing env p)"
  unfolding delete_latest_for_printing_def by (intro schema_intros repo_rules)

lemma schema_change_printing [repo_rules]: "always keeps_schema (change_printing env i p)"
  unfolding change_printing_def by (intro schema_intros) simp_all

lemma journal_collection_add [repo_rules]: "always (journaled env) (collection_add env new)"
  unfolding collection_add_def by (intro journal_intros) simp_all

lemma journal_collection_update [repo_rules]: "always (journaled env) (collection_update env i edit)"
  unfolding collection_update_def by (intro journal_intros) simp_all

lemma journal_set_status [repo_rules]: "always (journaled env) (set_status env i st note)"
  unfolding set_status_def by (intro journal_intros) simp_all

lemma journal_move_to [repo_rules]: "always (journaled env) (move_to env i b d note)"
  unfolding move_to_def by (intro journal_intros) simp_all

lemma journal_collection_delete [repo_rules]: "always (journaled env) (collection_delete env i)"
  unfolding collection_delete_def by (intro journal_intros)

lemma journal_delete_latest [repo_rules]: "always (journaled env) (delete_latest_for_printing env p)"
  unfolding delete_latest_for_printing_def by (intro journal_intros repo_rules)

lemma journal_change_printing [repo_rules]: "always (journaled env) (change_printing env i p)"
  unfolding change_printing_def by (intro journal_intros) simp_all

end
