(* ===== verification/Collection_Audit.thy ===== *)
theory Collection_Audit
  imports Collection
begin

text \<open>
  What the collection repository promises beyond the constraints of the schema: operations that
  fail leave the database as it was, and the status log of every copy is the unbroken history
  that ends in the copy's current status.
\<close>

section \<open>Atomic operations\<close>

text \<open>Only time passes.\<close>

definition untouched :: "tdb \<Rightarrow> tdb \<Rightarrow> bool" where
  "untouched db db' \<longleftrightarrow> db' = rollback db db'"

definition atomic :: "'a dbact \<Rightarrow> bool" where
  "atomic m \<longleftrightarrow> (\<forall>db e db'. m db = (Inl e, db') \<longrightarrow> untouched db db')"

named_theorems atomic_rules

lemma untouched_refl [simp]: "untouched db db"
  by (simp add: untouched_def rollback_def)

lemma untouched_trans: "untouched db db' \<Longrightarrow> untouched db' db'' \<Longrightarrow> untouched db db''"
  by (metis (no_types, lifting) rollback_def tdb.surjective tdb.update_convs(17) untouched_def)

lemma untouched_rollback [simp]: "untouched db (rollback db db')"
  by (simp add: untouched_def rollback_def)

lemma atomic_ret [atomic_rules]: "atomic (ret v)"
  by (simp add: atomic_def ret_def)

lemma atomic_fail [atomic_rules]: "atomic (fail e)"
  by (simp add: atomic_def fail_def)

lemma atomic_query [atomic_rules]: "atomic (bind_act (query f) k)" if "\<And>v. atomic (k v)"
  using that by (simp add: atomic_def bind_act_def query_def)

lemma atomic_now [atomic_rules]: "atomic (bind_act (now_rfc3339 env) k)" if "\<And>v. atomic (k v)"
  unfolding atomic_def
proof (intro allI impI)
  fix db e db'
  assume "bind_act (now_rfc3339 env) k db = (Inl e, db')"
  then have "untouched (db\<lparr>db_ticks := Suc (db_ticks db)\<rparr>) db'"
    using that by (auto simp: bind_act_def now_rfc3339_def atomic_def)
  then show "untouched db db'"
    by (rule untouched_trans [rotated]) (simp add: untouched_def rollback_def)
qed

lemma atomic_tx [atomic_rules]: "atomic (tx m)"
  by (auto simp: atomic_def transaction_def split: prod.splits sum.splits)

lemma atomic_if [atomic_rules]: "atomic m \<Longrightarrow> atomic m' \<Longrightarrow> atomic (if b then m else m')"
  by simp

lemma atomic_option [atomic_rules]:
  "atomic m \<Longrightarrow> (\<And>v. atomic (k v)) \<Longrightarrow> atomic (case x of None \<Rightarrow> m | Some v \<Rightarrow> k v)"
  by (cases x) auto

lemma atomic_let [atomic_rules]: "atomic (f v) \<Longrightarrow> atomic (let x = v in f x)"
  by simp

lemma atomic_option_now [atomic_rules]:
  "(\<And>v. atomic (k v)) \<Longrightarrow> atomic (bind_act (case x of None \<Rightarrow> now_rfc3339 env | Some t \<Rightarrow> ret t) k)"
  using atomic_now [of k env] by (cases x) (auto simp: atomic_def bind_act_def ret_def)

lemma atomic_last [atomic_rules]: "atomic m \<Longrightarrow> atomic (bind_act m (\<lambda>v. ret (g v)))"
  by (auto simp: atomic_def bind_act_def ret_def split: prod.splits sum.splits)

lemma atomic_update_entries [atomic_rules]: "atomic (update_entries env P f)"
  by (auto simp: atomic_def update_entries_def Let_def split: if_splits)

lemma atomic_delete_entries [atomic_rules]: "atomic (delete_entries env P)"
  by (auto simp: atomic_def delete_entries_def Let_def)

section \<open>The audit trail\<close>

definition logs_of :: "tdb \<Rightarrow> int \<Rightarrow> StatusLogRow list" where
  "logs_of db i = filter (\<lambda>l. sl_collection l = i) (tbl_rows (db_status_log db))"

definition audit_trail :: "string \<Rightarrow> StatusLogRow list \<Rightarrow> bool" where
  "audit_trail status ls \<longleftrightarrow> ls \<noteq> [] \<and> sl_to (last ls) = status \<and>
     map sl_from ls = None # map (\<lambda>l. Some (sl_to l)) (butlast ls)"

definition audit_ok :: "tdb \<Rightarrow> bool" where
  "audit_ok db \<longleftrightarrow> (\<forall>c \<in> set (tbl_rows (db_collection db)). audit_trail (ce_status c) (logs_of db (ce_id c)))"

definition keeps_audit :: "tdb \<Rightarrow> tdb \<Rightarrow> bool" where
  "keeps_audit db db' \<longleftrightarrow> (schema_ok db \<and> audit_ok db \<longrightarrow> schema_ok db' \<and> audit_ok db')"

lemma audit_ok_update [simp]:
  "audit_ok (db\<lparr>db_ticks := n\<rparr>) = audit_ok db" "audit_ok (db\<lparr>db_binders := b\<rparr>) = audit_ok db"
  "audit_ok (db\<lparr>db_decks := d\<rparr>) = audit_ok db"
  by (simp_all add: audit_ok_def logs_of_def)

interpretation audit: step_relation keeps_audit rollback
  by unfold_locales (auto simp: keeps_audit_def rollback_def)

lemmas all_intros = schema.always_rules journal.always_rules audit.always_rules

lemma audit_trail_Cons: "audit_trail status [l] \<longleftrightarrow> sl_from l = None \<and> sl_to l = status"
  by (auto simp: audit_trail_def)

lemma audit_trail_snoc:
  "audit_trail st ls \<Longrightarrow> sl_from l = Some st \<Longrightarrow> audit_trail (sl_to l) (ls @ [l])"
  by (cases ls rule: rev_cases) (auto simp: audit_trail_def butlast_append)

lemma audit_same:
  "audit_ok db \<Longrightarrow> db_collection db' = db_collection db \<Longrightarrow> db_status_log db' = db_status_log db \<Longrightarrow> audit_ok db'"
  by (simp add: audit_ok_def logs_of_def)

lemma keeps_auditI:
  assumes "always keeps_schema m"
    and "\<And>db r db'. schema_ok db \<Longrightarrow> audit_ok db \<Longrightarrow> m db = (r, db') \<Longrightarrow> audit_ok db'"
  shows "always keeps_audit m"
proof (rule alwaysI)
  fix db r db' assume m: "m db = (r, db')"
  show "keeps_audit db db'"
    using alwaysD [OF assms(1) m] assms(2) [OF _ _ m] by (auto simp: keeps_audit_def keeps_schema_def)
qed

text \<open>An action that leaves \<open>collection\<close> and \<open>status_log\<close> alone keeps every trail.\<close>

lemma keeps_audit_same:
  assumes "always keeps_schema m"
    and "\<And>db. db_collection (snd (m db)) = db_collection db" "\<And>db. db_status_log (snd (m db)) = db_status_log db"
  shows "always keeps_audit m"
proof (rule keeps_auditI [OF assms(1)])
  fix db r db' assume "audit_ok db" "m db = (r, db')"
  then show "audit_ok db'" using assms(2,3) [of db] by (simp add: audit_ok_def logs_of_def)
qed

named_theorems audit_rules

lemma audit_now [audit_rules]: "always keeps_audit (now_rfc3339 env)"
  by (rule keeps_audit_same [OF schema_now]) (auto simp: now_rfc3339_def)

lemma audit_touch:
  assumes "\<And>c. ce_id (f c) = ce_id c" "\<And>c. ce_status (f c) = ce_status c" "audit_ok db"
  shows "audit_ok (touch_entries env P f db)"
  using assms(3) by (auto simp: audit_ok_def logs_of_def touch_entries_def assms(1,2))

lemma audit_update_entries [audit_rules]:
  assumes "\<And>c. ce_id (f c) = ce_id c" "\<And>c. ce_status (f c) = ce_status c"
  shows "always keeps_audit (update_entries env P f)"
proof (rule keeps_auditI)
  show "always keeps_schema (update_entries env P f)" using assms(1) by auto
  fix db r db' assume "audit_ok db" "update_entries env P f db = (r, db')"
  then show "audit_ok db'"
    by (auto simp: update_entries_def Let_def intro!: audit_touch assms split: if_splits)
qed

lemma audit_delete_entries [audit_rules]: "always keeps_audit (delete_entries env P)"
proof (rule keeps_auditI)
  show "always keeps_schema (delete_entries env P)" by auto
  fix db r db'
  assume ok: "schema_ok db" "audit_ok db" and "delete_entries env P db = (r, db')"
  then have d: "db' = snd (delete_entries env P db)" by simp
  have dist: "distinct (map ce_id (tbl_rows (db_collection db)))"
    using ok by (simp add: schema_ok_def ids_ok_def tbl_ok_distinct)
  have "logs_of db' (ce_id c) = logs_of db (ce_id c)"
    if "c \<in> set (tbl_rows (db_collection db))" "\<not> P c" for c
  proof -
    define gone where "gone = ce_id ` set (filter P (tbl_rows (db_collection db)))"
    have "ce_id c \<notin> gone" using that dist by (auto simp: gone_def distinct_map inj_on_def)
    then show ?thesis
      unfolding logs_of_def d delete_entries_def Let_def gone_def [symmetric]
      by (auto intro!: filter_cong)
  qed
  then show "audit_ok db'"
    using ok(2) by (auto simp: audit_ok_def d delete_entries_def Let_def)
qed

lemma fresh_id_unlogged:
  assumes "schema_ok db"
  shows "logs_of db (next_id (db_collection db)) = []"
    and "c \<in> set (tbl_rows (db_collection db)) \<Longrightarrow> ce_id c \<noteq> next_id (db_collection db)"
proof -
  let ?i = "next_id (db_collection db)"
  have ids: "\<forall>c \<in> set (tbl_rows (db_collection db)). ce_id c \<noteq> ?i"
    using assms by (auto simp: schema_ok_def ids_ok_def tbl_ok_def next_id_def list_all_iff)
  have "\<forall>l \<in> set (tbl_rows (db_status_log db)). sl_collection l \<noteq> ?i"
    using assms ids by (auto simp: schema_ok_def refs_ok_def tbl_has_iff)
  then show "logs_of db ?i = []" by (auto simp: logs_of_def filter_empty_conv)
  show "c \<in> set (tbl_rows (db_collection db)) \<Longrightarrow> ce_id c \<noteq> ?i" using ids by blast
qed

lemma audit_insert_logged [audit_rules]:
  assumes "\<And>i. ce_id (mk i) = i" "\<And>i l. sl_id (lg i l) = l \<and> sl_collection (lg i l) = i \<and> sl_from (lg i l) = None"
    and "\<And>i l. sl_to (lg i l) = ce_status (mk i)"
  shows "always keeps_audit (bind_act (insert_entry env mk) (\<lambda>i. insert_status (lg i)))"
proof (rule keeps_auditI)
  show "always keeps_schema (bind_act (insert_entry env mk) (\<lambda>i. insert_status (lg i)))"
    using assms by (intro schema_intros) auto
  fix db r db'
  assume ok: "schema_ok db" "audit_ok db" and m: "bind_act (insert_entry env mk) (\<lambda>i. insert_status (lg i)) db = (r, db')"
  let ?i = "next_id (db_collection db)"
  note fresh = fresh_id_unlogged [OF ok(1)]
  show "audit_ok db'"
  proof (cases "db' = db")
    case False
    then have "db_collection db' = tbl_append (mk ?i) (db_collection db) \<and>
        db_status_log db' = tbl_append (lg ?i (next_id (db_status_log db))) (db_status_log db)"
      using m assms(1,2)
      by (auto simp: bind_act_def insert_entry_def insert_status_def Let_def split: if_splits)
    then show ?thesis
      using ok(2) fresh(1) assms
      by (auto simp: audit_ok_def logs_of_def audit_trail_Cons dest!: fresh(2))
  qed (use ok in simp)
qed

lemma audit_insert_movement [audit_rules]: "always keeps_audit (insert_movement mk)" if "\<And>i. mv_id (mk i) = i"
  by (rule keeps_audit_same [OF schema_insert_movement]) (use that in \<open>auto simp: insert_movement_def Let_def\<close>)

lemma audit_insert_batch [audit_rules]: "always keeps_audit (insert_batch mk)" if "\<And>i. ba_id (mk i) = i"
  by (rule keeps_audit_same [OF schema_insert_batch]) (use that in \<open>auto simp: insert_batch_def Let_def\<close>)

lemma audit_delete_group_row [audit_rules]: "always keeps_audit (delete_group_row i)"
  by (rule keeps_audit_same [OF schema_delete_group_row]) (auto simp: delete_group_row_def)

lemma audit_insert_sealed [audit_rules]: "always keeps_audit (insert_sealed env mk)" if "\<And>i. se_id (mk i) = i"
  by (rule keeps_audit_same [OF schema_insert_sealed]) (use that in \<open>auto simp: insert_sealed_def Let_def\<close>)

lemma audit_update_sealed [audit_rules]: "always keeps_audit (update_sealed env P f)" if "\<And>i. se_id (f i) = se_id i"
  by (rule keeps_audit_same [OF schema_update_sealed]) (use that in \<open>auto simp: update_sealed_def Let_def\<close>)

lemma audit_delete_sealed [audit_rules]: "always keeps_audit (delete_sealed env P)"
  by (rule keeps_audit_same [OF schema_delete_sealed]) (auto simp: delete_sealed_def Let_def)

lemma audit_delete_binder_row [audit_rules]: "always keeps_audit (delete_binder_row env i)"
proof (rule keeps_auditI)
  show "always keeps_schema (delete_binder_row env i)" by auto
  fix db r db' assume "audit_ok db" "delete_binder_row env i db = (r, db')"
  then show "audit_ok db'"
    by (auto simp: delete_binder_row_def intro!: audit_touch split: if_splits)
qed

lemma audit_delete_deck_row [audit_rules]: "always keeps_audit (delete_deck_row env i)"
proof (rule keeps_auditI)
  show "always keeps_schema (delete_deck_row env i)" by auto
  fix db r db' assume "audit_ok db" "delete_deck_row env i db = (r, db')"
  then show "audit_ok db'"
    by (auto simp: delete_deck_row_def intro!: audit_touch split: if_splits)
qed

section \<open>The operations\<close>

definition copy_check :: "NewCopy \<Rightarrow> bool" where
  "copy_check new \<longleftrightarrow> keep (nc_condition new) ''Near Mint'' \<in> set conditions_allowed \<and>
     keep (nc_status new) ''owned'' \<in> set statuses_allowed \<and> (nc_binder new = None \<or> nc_deck new = None)"

definition copy_refs :: "tdb \<Rightarrow> NewCopy \<Rightarrow> bool" where
  "copy_refs db new \<longleftrightarrow> refers od_id (db_orders db) (nc_order new) \<and>
     refers bi_id (db_binders db) (nc_binder new) \<and> refers dk_id (db_decks db) (nc_deck new) \<and>
     refers ba_id (db_batches db) (nc_batch new)"

definition valid_copy :: "'j env \<Rightarrow> tdb \<Rightarrow> NewCopy \<Rightarrow> bool" where
  "valid_copy env db new \<longleftrightarrow> printing_exists (env_catalog env) db (nc_printing new) \<and>
     (nc_binder new = None \<or> nc_deck new = None) \<and>
     copy_check new \<and> copy_refs db new"

definition add_error :: "'j env \<Rightarrow> tdb \<Rightarrow> NewCopy \<Rightarrow> DbError" where
  "add_error env db new =
     (if \<not> printing_exists (env_catalog env) db (nc_printing new)
      then NotFound (''printing '' @ quoted (nc_printing new) @ '' is not in the catalog'')
      else if nc_binder new \<noteq> None \<and> nc_deck new \<noteq> None
      then Conflict ''a copy cannot be added to a binder and a deck at once''
      else if \<not> copy_check new then Sqlite CheckViolation
      else Sqlite ForeignKeyViolation)"

lemma new_entry_checks [simp]:
  "entry_check (new_entry new t i) = copy_check new" "entry_refs db (new_entry new t i) = copy_refs db new"
  "copy_refs (db\<lparr>db_ticks := n\<rparr>) new = copy_refs db new"
  by (simp_all add: entry_check_def entry_refs_def new_entry_def copy_check_def copy_refs_def)

text \<open>The state after a successful add, as one update of the state before.\<close>

definition added :: "'j env \<Rightarrow> NewCopy \<Rightarrow> tdb \<Rightarrow> tdb \<Rightarrow> bool" where
  "added env new db db' \<longleftrightarrow>
     (let i = next_id (db_collection db);
          c = new_entry new (keep (nc_acquired_at new) (env_now env (db_ticks db))) i in
      db_collection db' = tbl_append c (db_collection db) \<and>
      (\<exists>now. db_status_log db' = tbl_append
         \<lparr>sl_id = next_id (db_status_log db), sl_collection = i, sl_from = None, sl_to = ce_status c,
          sl_changed_at = now, sl_note = Some ''added''\<rparr> (db_status_log db)) \<and>
      db' = db\<lparr>db_collection := db_collection db', db_status_log := db_status_log db',
               db_outbox := db_outbox db', db_ticks := db_ticks db'\<rparr>)"

lemma collection_add_cases:
  "case collection_add env new db of
     (Inl e, db') \<Rightarrow> \<not> valid_copy env db new \<and> e = add_error env db new \<and> untouched db db'
   | (Inr i, db') \<Rightarrow> valid_copy env db new \<and> i = next_id (db_collection db) \<and> added env new db db'"
proof (cases "valid_copy env db new")
  case True
  then have v: "printing_exists (env_catalog env) db (nc_printing new)"
      "\<not> (nc_binder new \<noteq> None \<and> nc_deck new \<noteq> None)" "copy_check new" "copy_refs db new"
    by (auto simp: valid_copy_def)
  show ?thesis
    using True v
    by (cases "nc_acquired_at new")
      (auto simp: collection_add_def act_simps insert_entry_def insert_status_def now_rfc3339_def Let_def
        added_def log_entries_def)
next
  case False
  then show ?thesis
    unfolding valid_copy_def
    by (cases "nc_acquired_at new")
      (auto simp: collection_add_def act_simps insert_entry_def now_rfc3339_def Let_def add_error_def
        valid_copy_def untouched_def rollback_def)
qed

lemma audit_collection_add [audit_rules]: "always keeps_audit (collection_add env new)"
proof (rule keeps_auditI [OF schema_collection_add])
  fix db r db'
  assume ok: "schema_ok db" "audit_ok db" and m: "collection_add env new db = (r, db')"
  show "audit_ok db'"
  proof (cases r)
    case (Inl e)
    then show ?thesis
      using collection_add_cases [where env = env and new = new and db = db] m ok by (simp add: untouched_def rollback_def) (metis audit_ok_update(1))
  next
    case (Inr i)
    then have a: "added env new db db'" using collection_add_cases [where env = env and new = new and db = db] m by simp
    moreover have "\<forall>c \<in> set (tbl_rows (db_collection db)). ce_id c \<noteq> next_id (db_collection db)"
      using fresh_id_unlogged(2) [OF ok(1)] by blast
    ultimately show ?thesis
      using ok(2) fresh_id_unlogged(1) [OF ok(1)]
      by (auto simp: added_def Let_def audit_ok_def logs_of_def audit_trail_Cons)
  qed
qed

lemma audit_set_status [audit_rules]: "always keeps_audit (set_status env i st note)"
proof (rule keeps_auditI [OF schema_set_status])
  fix db r db'
  assume ok: "schema_ok db" "audit_ok db" and m: "set_status env i st note db = (r, db')"
  have t: "tbl_ok ce_id (db_collection db)" using ok(1) by (simp add: schema_ok_def ids_ok_def)
  show "audit_ok db'"
  proof (cases "tbl_find ce_id i (db_collection db)")
    case None
    then show ?thesis using m ok by (simp add: set_status_def act_simps)
  next
    case (Some c)
    let ?db = "touch_entries env (\<lambda>c. ce_id c = i) (\<lambda>c. c\<lparr>ce_status := st\<rparr>) db"
    show ?thesis
    proof (cases "db' = rollback db db'")
      case True
      then show ?thesis using ok(2) by (metis audit_ok_update(1) rollback_def)
    next
      case False
      then have "db_collection db' = db_collection ?db \<and>
          (\<exists>now. db_status_log db' = tbl_append
             \<lparr>sl_id = next_id (db_status_log db), sl_collection = i, sl_from = Some (ce_status c), sl_to = st,
              sl_changed_at = now, sl_note = note\<rparr> (db_status_log db))"
        using m Some
        by (auto simp: set_status_def act_simps update_entries_def insert_status_def now_rfc3339_def Let_def
            rollback_def touch_entries_def split: if_splits)
      then obtain l where 2: "sl_collection l = i" "sl_from l = Some (ce_status c)" "sl_to l = st"
        "db_collection db' = db_collection ?db" "db_status_log db' = tbl_append l (db_status_log db)"
        by force
      show ?thesis
        unfolding audit_ok_def
      proof
        fix x assume "x \<in> set (tbl_rows (db_collection db'))"
        then obtain y where y: "y \<in> set (tbl_rows (db_collection db))" "ce_id x = ce_id y"
            "ce_status x = (if ce_id y = i then st else ce_status y)"
          by (auto simp: 2 touch_entries_def)
        have "audit_trail (ce_status y) (logs_of db (ce_id y))" using ok(2) y(1) by (simp add: audit_ok_def)
        moreover have "ce_id y = i \<Longrightarrow> y = c" using y(1) Some by (simp add: tbl_find_iff [OF t] tbl_find_Some)
            (metis Some option.inject t tbl_find_iff)
        ultimately show "audit_trail (ce_status x) (logs_of db' (ce_id x))"
          using 2 y audit_trail_snoc [of "ce_status c" "logs_of db i" l] by (auto simp: logs_of_def)
      qed
    qed
  qed
qed

lemma audit_collection_update [audit_rules]: "always keeps_audit (collection_update env i edit)"
  unfolding collection_update_def by (intro audit.always_rules audit_rules) simp_all

lemma audit_move_to [audit_rules]: "always keeps_audit (move_to env i b d note)"
  unfolding move_to_def by (intro audit.always_rules audit_rules) simp_all

lemma audit_collection_delete [audit_rules]: "always keeps_audit (collection_delete env i)"
  unfolding collection_delete_def by (intro audit.always_rules audit_rules)

lemma audit_delete_latest [audit_rules]: "always keeps_audit (delete_latest_for_printing env p)"
  unfolding delete_latest_for_printing_def by (intro audit.always_rules audit_rules)

lemma audit_change_printing [audit_rules]: "always keeps_audit (change_printing env i p)"
  unfolding change_printing_def by (intro audit.always_rules audit_rules) simp_all

text \<open>What a status change of an existing copy to an allowed status does.\<close>

lemma set_status_ok:
  assumes "schema_ok db" "tbl_find ce_id i (db_collection db) = Some c" "st \<in> set statuses_allowed"
  shows "\<exists>db' now. set_status env i st note db = (Inr (), db') \<and> schema_ok db' \<and>
     db_collection db' = tbl_modify (\<lambda>c. ce_id c = i) (\<lambda>c. c\<lparr>ce_status := st\<rparr>) (db_collection db) \<and>
     db_status_log db' = tbl_append
       \<lparr>sl_id = next_id (db_status_log db), sl_collection = i, sl_from = Some (ce_status c), sl_to = st,
        sl_changed_at = now, sl_note = note\<rparr> (db_status_log db)"
proof -
  let ?f = "\<lambda>c :: CollectionEntry. c\<lparr>ce_status := st\<rparr>"
  let ?t = "touch_entries env (\<lambda>c. ce_id c = i) ?f db"
  have "entry_check x \<and> entry_refs db x" if "x \<in> set (tbl_rows (db_collection db))" for x
    using assms(1) that by (auto simp: schema_ok_def refs_ok_def)
  then have "list_all entry_check (map ?f (filter (\<lambda>c. ce_id c = i) (tbl_rows (db_collection db))))"
    "list_all (entry_refs db) (map ?f (filter (\<lambda>c. ce_id c = i) (tbl_rows (db_collection db))))"
    using assms(3) by (auto simp: list_all_iff entry_check_def entry_refs_def)
  then obtain n where u: "update_entries env (\<lambda>c. ce_id c = i) ?f db = (Inr n, ?t)"
    by (simp add: update_entries_def Let_def)
  have "tbl_has ce_id (db_collection ?t) i"
    using tbl_find_Some [OF assms(2)] tbl_has_modify [of ce_id ?f "\<lambda>c. ce_id c = i" "db_collection db"] by (auto simp: touch_entries_def tbl_has_iff [of _ "db_collection db"])
  then have run: "\<exists>db' now. set_status env i st note db = (Inr (), db') \<and>
     db_collection db' = db_collection ?t \<and>
     db_status_log db' = tbl_append
       \<lparr>sl_id = next_id (db_status_log db), sl_collection = i, sl_from = Some (ce_status c), sl_to = st,
        sl_changed_at = now, sl_note = note\<rparr> (db_status_log db)"
    using assms(2) u
    by (simp add: set_status_def bind_act_def query_def transaction_def now_rfc3339_def insert_status_def Let_def)
      (auto simp: touch_entries_def)
  then obtain db' where r: "set_status env i st note db = (Inr (), db')" by blast
  have "schema_ok db'"
    using alwaysD [OF schema_set_status r] assms(1) by (simp add: keeps_schema_def)
  then show ?thesis using run r by (auto simp: touch_entries_def)
qed

section \<open>Properties\<close>

text \<open>
  C7. Adding a copy: it succeeds exactly when the printing is known, the copy is not put in a binder
  and a deck at once, its condition and status are allowed and everything it refers to exists; then
  one row with the defaults filled in and one opening status entry appear and no other table but
  the outbox changes. Otherwise the first violated requirement is the error and the database is
  as it was.
\<close>

theorem collection_add_outcome:
  "case collection_add env new db of
     (Inl e, db') \<Rightarrow> \<not> valid_copy env db new \<and> e = add_error env db new \<and> untouched db db'
   | (Inr i, db') \<Rightarrow> valid_copy env db new \<and> i = next_id (db_collection db) \<and> added env new db db'"
  by (rule collection_add_cases)

end
