(* ===== verification/Natural.thy ===== *)
theory Natural
  imports Text
begin

text \<open>
  Natural ordering of user-given names, \<open>pkdump-core/src/natural.rs\<close>: runs of digits compare
  by value, everything else by lower-cased text. \<open>natural_cmp\<close> is shown to be a total preorder
  (the contract of Rust's \<open>sort_by\<close>), which makes \<open>natural_order\<close> a comparator of the
  library and \<open>sort_by_name\<close> a stable sort.
\<close>

section \<open>The code\<close>

datatype chunk = Digits string | Text string

fun chunks_loop :: "runtime \<Rightarrow> uchar list \<Rightarrow> chunk list \<Rightarrow> chunk list" where
  "chunks_loop rt [] out = out"
| "chunks_loop rt (ch # chs) out =
     (let digit = (case ch of [c] \<Rightarrow> is_digit c | _ \<Rightarrow> False);
          fresh = (if digit then out @ [Digits ch] else out @ [Text (char_lower rt ch)]);
          out' = (if out = [] then fresh
                  else case last out of
                    Digits d \<Rightarrow> if digit then butlast out @ [Digits (d @ ch)] else fresh
                  | Text t \<Rightarrow> if \<not> digit then butlast out @ [Text (t @ char_lower rt ch)] else fresh)
      in chunks_loop rt chs out')"

definition chunks :: "runtime \<Rightarrow> string \<Rightarrow> chunk list" where
  "chunks rt s = chunks_loop rt (chars s) []"

fun chunk_cmp :: "chunk \<Rightarrow> chunk \<Rightarrow> comp" where
  "chunk_cmp (Digits p) (Digits q) =
     (let p' = trim_start_char (CHR ''0'') p; q' = trim_start_char (CHR ''0'') q
      in then_with (cmp_of (length p') (length q')) (cmp_of p' q'))"
| "chunk_cmp (Text p) (Text q) = cmp_of p q"
| "chunk_cmp (Digits _) (Text _) = Less"
| "chunk_cmp (Text _) (Digits _) = Greater"

fun zip_cmp :: "chunk list \<Rightarrow> chunk list \<Rightarrow> comp" where
  "zip_cmp (x # xs) (y # ys) =
     (let ord = chunk_cmp x y in if ord \<noteq> Equiv then ord else zip_cmp xs ys)"
| "zip_cmp _ _ = Equiv"

definition natural_cmp :: "runtime \<Rightarrow> string \<Rightarrow> string \<Rightarrow> comp" where
  "natural_cmp rt a b =
     (let ca = chunks rt a; cb = chunks rt b; ord = zip_cmp ca cb
      in if ord \<noteq> Equiv then ord else cmp_of (length ca) (length cb))"

section \<open>A linear key\<close>

text \<open>
  The comparison is the lexicographic order on a list of keys, one per chunk; every order law
  follows from the linear order of the library on lists and products.
\<close>

fun chunk_key :: "chunk \<Rightarrow> nat \<times> nat \<times> string" where
  "chunk_key (Digits p) = (let p' = trim_start_char (CHR ''0'') p in (0, length p', p'))"
| "chunk_key (Text t) = (1, 0, t)"

definition natural_key :: "runtime \<Rightarrow> string \<Rightarrow> (nat \<times> nat \<times> string) list" where
  "natural_key rt s = map chunk_key (chunks rt s)"

lemma chunk_cmp_key: "chunk_cmp x y = cmp_of (chunk_key x) (chunk_key y)"
  by (cases x; cases y) (auto simp: Let_def then_with_cmp_of cmp_of_def less_prod_def)

lemma zip_cmp_key:
  "(if zip_cmp xs ys \<noteq> Equiv then zip_cmp xs ys else cmp_of (length xs) (length ys)) =
   cmp_of (map chunk_key xs) (map chunk_key ys)"
proof (induction xs ys rule: zip_cmp.induct)
  case (1 x xs y ys)
  show ?case
  proof (cases "chunk_key x = chunk_key y")
    case True
    then have "chunk_cmp x y = Equiv" by (simp add: chunk_cmp_key)
    then have "(if zip_cmp (x # xs) (y # ys) \<noteq> Equiv then zip_cmp (x # xs) (y # ys)
                else cmp_of (length (x # xs)) (length (y # ys))) =
               (if zip_cmp xs ys \<noteq> Equiv then zip_cmp xs ys else cmp_of (length xs) (length ys))"
      by (simp add: cmp_of_def)
    also have "\<dots> = cmp_of (map chunk_key xs) (map chunk_key ys)"
      using 1 \<open>chunk_cmp x y = Equiv\<close> by simp
    also have "\<dots> = cmp_of (map chunk_key (x # xs)) (map chunk_key (y # ys))"
      using True by (simp add: cmp_of_def)
    finally show ?thesis .
  next
    case False
    then show ?thesis by (auto simp: chunk_cmp_key cmp_of_def)
  qed
qed (auto simp: cmp_of_def neq_Nil_conv)

lemma natural_cmp_key: "natural_cmp rt a b = cmp_of (natural_key rt a) (natural_key rt b)"
  unfolding natural_cmp_def natural_key_def Let_def by (rule zip_cmp_key)

lemma comparator_natural_cmp: "comparator (natural_cmp rt)"
  unfolding natural_cmp_key [abs_def] by (rule comparator_cmp_of)

section \<open>Sorting by name\<close>

text \<open>
  \<open>all.sort_by(|a, b| natural_cmp(&a.name, &b.name))\<close>, the stable sort of the binder, deck and
  deck-group lists, over any row type with a name.
\<close>

lift_definition natural_order :: "runtime \<Rightarrow> ('a \<Rightarrow> string) \<Rightarrow> 'a comparator" is
  "\<lambda>rt name x y. natural_cmp rt (name x) (name y)"
  unfolding natural_cmp_key by (rule comparator_cmp_of)

definition sort_by_name :: "runtime \<Rightarrow> ('a \<Rightarrow> string) \<Rightarrow> 'a list \<Rightarrow> 'a list" where
  "sort_by_name rt name xs = Sorting_Algorithms.sort (natural_order rt name) xs"

lemma compare_natural_order [simp]:
  "compare (natural_order rt name) x y = natural_cmp rt (name x) (name y)"
  by transfer simp

lemma set_sort_by_name [simp]: "set (sort_by_name rt name xs) = set xs"
  by (simp add: sort_by_name_def)

lemma mset_sort_by_name [simp]: "mset (sort_by_name rt name xs) = mset xs"
  by (simp add: sort_by_name_def)

lemma length_sort_by_name [simp]: "length (sort_by_name rt name xs) = length xs"
  by (simp add: sort_by_name_def)

lemma sort_by_name_sorted:
  "sorted_wrt (\<lambda>x y. natural_cmp rt (name x) (name y) \<noteq> Greater) (sort_by_name rt name xs)"
proof -
  let ?le = "\<lambda>x y. natural_cmp rt (name x) (name y) \<noteq> Greater"
  have "sorted_wrt ?le ys" if "Sorting_Algorithms.sorted (natural_order rt name) ys" for ys
    using that
  proof (induction ys rule: list.induct)
    case (Cons y ys)
    then have "Sorting_Algorithms.sorted (natural_order rt name) ys"
      by (blast dest: sorted_Cons_imp_sorted)
    moreover have "\<forall>x \<in> set ys. ?le y x"
      using sorted_Cons_imp_not_less [OF Cons.prems] by auto
    ultimately show ?case using Cons.IH by simp
  qed simp
  then show ?thesis by (simp add: sort_by_name_def)
qed

lemma sort_by_name_stable:
  "filter (\<lambda>y. natural_cmp rt (name x) (name y) = Equiv) (sort_by_name rt name xs) =
   filter (\<lambda>y. natural_cmp rt (name x) (name y) = Equiv) xs"
  using stable_sort [of "natural_order rt name" x xs] by (simp add: sort_by_name_def)

text \<open>The list of a repository: each row once, seen through \<open>v\<close>, naturally and stably ordered.\<close>

definition natural_listing ::
  "runtime \<Rightarrow> ('v \<Rightarrow> string) \<Rightarrow> ('v \<Rightarrow> 'r) \<Rightarrow> 'r list \<Rightarrow> ('r \<Rightarrow> 'v) \<Rightarrow> 'v list \<Rightarrow> bool" where
  "natural_listing rt name row rs v vs \<longleftrightarrow>
     mset (map row vs) = mset rs \<and> list_all (\<lambda>x. x = v (row x)) vs \<and>
     sorted_wrt (\<lambda>x y. natural_cmp rt (name x) (name y) \<noteq> Greater) vs \<and>
     (\<forall>x. filter (\<lambda>y. natural_cmp rt (name x) (name y) = Equiv) vs =
          filter (\<lambda>y. natural_cmp rt (name x) (name y) = Equiv) (map v rs))"

lemma natural_listing_sort:
  assumes "\<And>r. row (v r) = r"
  shows "natural_listing rt name row rs v (sort_by_name rt name (map v rs))"
proof -
  have "mset (map row (sort_by_name rt name (map v rs))) = mset rs"
    using assms by (simp add: multiset.map_comp comp_def)
  then show ?thesis
    using assms by (auto simp: natural_listing_def list_all_iff sort_by_name_sorted sort_by_name_stable)
qed

section \<open>Numbers compare by value\<close>

lemma digits_val_Cons: "digits_val (d # ds) = digit_val d * 10 ^ length ds + digits_val ds"
proof (induction ds rule: rev_induct)
  case (snoc x xs)
  have "digits_val (d # xs @ [x]) = 10 * digits_val (d # xs) + digit_val x"
    using digits_val_snoc [of "d # xs" x] by simp
  with snoc show ?case by (simp add: digits_val_snoc)
qed (simp add: digits_val_def)

lemma digit_val_less: "is_digit d \<Longrightarrow> digit_val d < 10"
  by (auto simp: is_digit_def digit_val_def)

lemma digit_val_mono: "is_digit c \<Longrightarrow> is_digit d \<Longrightarrow> c < d \<longleftrightarrow> digit_val c < digit_val d"
  by (auto simp: is_digit_def digit_val_def less_char_def)

lemma digit_val_eq: "is_digit c \<Longrightarrow> is_digit d \<Longrightarrow> digit_val c = digit_val d \<longleftrightarrow> c = d"
  by (metis digit_val_mono linorder_less_linear order_less_irrefl)

lemma digits_val_bound: "list_all is_digit ds \<Longrightarrow> digits_val ds < 10 ^ length ds"
proof (induction ds)
  case (Cons d ds)
  then have "digits_val ds < 10 ^ length ds" "digit_val d \<le> 9"
    using digit_val_less by (force, simp add: less_Suc_eq_le [symmetric] digit_val_less)
  then have "digit_val d * 10 ^ length ds + digits_val ds < 9 * 10 ^ length ds + 10 ^ length ds"
    by (intro add_le_less_mono mult_right_mono) simp_all
  then show ?case by (simp add: digits_val_Cons)
qed (simp add: digits_val_def)

lemma digits_val_lower:
  assumes "list_all is_digit (d # ds)" "d \<noteq> CHR ''0''"
  shows "10 ^ length ds \<le> digits_val (d # ds)"
proof -
  have "digit_val d \<noteq> digit_val (CHR ''0'')"
    using assms digit_val_eq [of d "CHR ''0''"] by (simp add: is_digit_def)
  then have "1 \<le> digit_val d" by (simp add: digit_val_def)
  then show ?thesis by (simp add: digits_val_Cons trans_le_add1)
qed

lemma digits_val_strip: "digits_val (trim_start_char (CHR ''0'') ds) = digits_val ds"
  by (induction ds) (auto simp: trim_start_char_def digits_val_Cons digit_val_def)

lemma digits_val_same_length:
  "length ds = length es \<Longrightarrow> list_all is_digit ds \<Longrightarrow> list_all is_digit es \<Longrightarrow>
   cmp_of ds es = cmp_of (digits_val ds) (digits_val es)"
proof (induction ds es rule: list_induct2)
  case (Cons d ds e es)
  have bd: "digits_val ds < 10 ^ length ds" "digits_val es < 10 ^ length ds"
    using Cons digits_val_bound [of ds] digits_val_bound [of es] by auto
  have less: "x * 10 ^ k + a < y * 10 ^ k + b"
    if "x < y" "a < 10 ^ k" for x y a b k :: nat
  proof -
    have "x * 10 ^ k + a < (x + 1) * 10 ^ k" using that by simp
    also have "\<dots> \<le> y * 10 ^ k" using that by (intro mult_right_mono) simp_all
    finally show ?thesis by simp
  qed
  have de: "is_digit d" "is_digit e" using Cons by simp_all
  consider "d < e" | "e < d" | "d = e" by fastforce
  then show ?case
  proof cases
    case 1
    then have "digits_val (d # ds) < digits_val (e # es)"
      using de bd Cons(1) less by (simp add: digits_val_Cons digit_val_mono)
    with 1 show ?thesis by (simp add: cmp_of_def)
  next
    case 2
    then have "digits_val (e # es) < digits_val (d # ds)"
      using de bd Cons(1) less by (simp add: digits_val_Cons digit_val_mono)
    with 2 show ?thesis by (auto simp: cmp_of_def)
  next
    case 3
    with Cons show ?thesis by (auto simp: cmp_of_def digits_val_Cons split: if_splits)
  qed
qed simp

lemma stripped_hd:
  "trim_start_char (CHR ''0'') ds = d # rest \<Longrightarrow> d \<noteq> CHR ''0''"
  by (induction ds) (auto simp: trim_start_char_def split: if_splits)

lemma stripped_shorter_less:
  assumes "list_all is_digit p" "list_all is_digit q" "length p < length q"
    and "\<And>d rest. q = d # rest \<Longrightarrow> d \<noteq> CHR ''0''"
  shows "digits_val p < digits_val q"
proof (cases q)
  case (Cons d rest)
  have "digits_val p < 10 ^ length p" using assms by (intro digits_val_bound)
  also have "(10::nat) ^ length p \<le> 10 ^ length rest"
    using assms Cons by (intro power_increasing) simp_all
  also have "\<dots> \<le> digits_val q" using digits_val_lower [of d rest] assms Cons by auto
  finally show ?thesis .
qed (use assms in simp)

lemma chunk_cmp_digits:
  assumes "list_all is_digit ds" "list_all is_digit es"
  shows "chunk_cmp (Digits ds) (Digits es) = cmp_of (digits_val ds) (digits_val es)"
proof -
  let ?p = "trim_start_char (CHR ''0'') ds" and ?q = "trim_start_char (CHR ''0'') es"
  have pq: "list_all is_digit ?p" "list_all is_digit ?q"
    using assms by (simp_all add: trim_start_char_def list_all_dropWhile)
  have vals: "digits_val ds = digits_val ?p" "digits_val es = digits_val ?q"
    by (simp_all add: digits_val_strip)
  have "cmp_of (length ?p, ?p) (length ?q, ?q) = cmp_of (digits_val ?p) (digits_val ?q)"
  proof (cases "length ?p = length ?q")
    case True
    then have "cmp_of (length ?p, ?p) (length ?q, ?q) = cmp_of ?p ?q"
      by (auto simp: cmp_of_def less_prod_def)
    with True pq show ?thesis by (simp add: digits_val_same_length)
  next
    case False
    then consider "length ?p < length ?q" | "length ?q < length ?p" by linarith
    then show ?thesis
    proof cases
      case 1
      then have "digits_val ?p < digits_val ?q"
        using pq stripped_hd by (intro stripped_shorter_less) auto
      with 1 show ?thesis by (simp add: cmp_of_def less_prod_def)
    next
      case 2
      then have "digits_val ?q < digits_val ?p"
        using pq stripped_hd by (intro stripped_shorter_less) auto
      with 2 show ?thesis by (auto simp: cmp_of_def less_prod_def)
    qed
  qed
  then show ?thesis by (simp add: vals then_with_cmp_of Let_def)
qed


section \<open>The chunks of a name that ends in a number\<close>

lemma chunks_loop_append: "chunks_loop rt (xs @ ys) out = chunks_loop rt ys (chunks_loop rt xs out)"
  by (induction rt xs out rule: chunks_loop.induct) (simp_all add: Let_def)

fun text_ended :: "chunk list \<Rightarrow> bool" where
  "text_ended [] = True"
| "text_ended out = (case last out of Text _ \<Rightarrow> True | Digits _ \<Rightarrow> False)"

lemma text_ended_snoc [simp]:
  "text_ended (out @ [Text t])" "\<not> text_ended (out @ [Digits d])"
  by (cases out; simp)+

lemma chunks_loop_digits:
  "list_all is_digit ds \<Longrightarrow> chunks_loop rt (map (\<lambda>c. [c]) ds) (out @ [Digits d]) = out @ [Digits (d @ ds)]"
  by (induction ds arbitrary: d) (simp_all add: Let_def)

lemma chunks_loop_number:
  assumes "list_all is_digit ds" "ds \<noteq> []" "text_ended out"
  shows "chunks_loop rt (map (\<lambda>c. [c]) ds) out = out @ [Digits ds]"
proof (cases ds)
  case (Cons d rest)
  have "chunks_loop rt (map (\<lambda>c. [c]) ds) out = chunks_loop rt (map (\<lambda>c. [c]) rest) (out @ [Digits [d]])"
    using assms Cons by (cases out rule: rev_cases) (auto simp: Let_def split: chunk.splits)
  then show ?thesis using assms Cons chunks_loop_digits [of rest rt out "[d]"] by simp
qed (use assms in simp)

lemma chunks_text_ended:
  assumes "list_all is_ascii p" "p = [] \<or> \<not> is_digit (last p)"
  shows "text_ended (chunks rt p)"
proof (cases p rule: rev_cases)
  case (snoc q c)
  with assms have "\<not> is_digit c" by simp
  moreover have "chars p = map (\<lambda>c. [c]) q @ [[c]]"
    using chars_ascii [OF assms(1)] snoc by simp
  ultimately show ?thesis
    by (auto simp: chunks_def chunks_loop_append Let_def split: chunk.splits)
qed (simp add: chunks_def)

lemma chunks_number:
  assumes "list_all is_ascii p" "p = [] \<or> \<not> is_digit (last p)" "list_all is_digit ds" "ds \<noteq> []"
  shows "chunks rt (p @ ds) = chunks rt p @ [Digits ds]"
proof -
  have "list_all is_ascii (p @ ds)"
    using assms by (auto simp: list_all_iff intro: is_digit_ascii)
  then have "chars (p @ ds) = map (\<lambda>c. [c]) p @ map (\<lambda>c. [c]) ds" "chars p = map (\<lambda>c. [c]) p"
    using assms(1) by (simp_all add: chars_ascii)
  then show ?thesis
    using chunks_loop_number [OF assms(3,4) chunks_text_ended [OF assms(1,2)]]
    by (simp add: chunks_def chunks_loop_append)
qed

lemma is_digit_lower [simp]: "is_digit (ascii_lower c) = is_digit c"
  by (auto simp: ascii_lower_def is_upper_def is_digit_def)

lemma is_ascii_lower [simp]: "is_ascii (ascii_lower c) = is_ascii c"
  by (auto simp: ascii_lower_def is_upper_def is_ascii_def)

lemma ascii_lower_idem [simp]: "ascii_lower (ascii_lower c) = ascii_lower c"
  by (auto simp: ascii_lower_def is_upper_def)

lemma ascii_lower_digit: "is_digit c \<Longrightarrow> ascii_lower c = c"
  by (auto simp: ascii_lower_def is_upper_def is_digit_def)

lemma chunks_loop_lower:
  "list_all is_ascii s \<Longrightarrow>
   chunks_loop rt (map (\<lambda>c. [c]) (map ascii_lower s)) out = chunks_loop rt (map (\<lambda>c. [c]) s) out"
proof (induction s arbitrary: out)
  case (Cons c s)
  have "char_lower rt [ascii_lower c] = char_lower rt [c]"
    using Cons by (simp add: char_lower_def)
  with Cons show ?case
    by (cases "is_digit c") (auto simp: Let_def ascii_lower_digit split: chunk.splits)
qed simp

lemma chunks_lower:
  assumes "list_all is_ascii s"
  shows "chunks rt (to_ascii_lowercase s) = chunks rt s"
proof -
  have "list_all is_ascii (map ascii_lower s)" using assms by (auto simp: list_all_iff)
  then show ?thesis
    using assms chunks_loop_lower by (simp add: chunks_def to_ascii_lowercase_def chars_ascii)
qed

lemma cmp_of_Cons_same: "cmp_of (x # xs) (x # ys) = cmp_of xs ys"
  by (simp add: cmp_of_def)

lemma cmp_of_single: "cmp_of [x] [y] = cmp_of x y"
  by (simp add: cmp_of_def)

lemma cmp_of_append_same: "cmp_of (xs @ [x]) (xs @ [y]) = cmp_of x y"
  by (induction xs) (simp_all only: append_Nil append_Cons cmp_of_Cons_same cmp_of_single)

section \<open>Properties\<close>

text \<open>
  C40. The comparison that orders binders, decks and deck groups is a total preorder: reflexive,
  antisymmetric up to ties, transitive in its strict and in its tie part. This is what Rust's
  \<open>sort_by\<close> demands of a comparator, and it holds for every string, ASCII or not.
\<close>

theorem natural_cmp_total_preorder: "comparator (natural_cmp rt)"
  by (rule comparator_natural_cmp)

text \<open>
  Two names with a common prefix that end in a number compare as the numbers do, whatever
  their length and their leading zeros: "Pack 2" before "Pack 10", "a02" level with "a2".
\<close>

theorem natural_cmp_by_value:
  assumes "list_all is_ascii p" "p = [] \<or> \<not> is_digit (last p)"
    and "list_all is_digit ds" "ds \<noteq> []" "list_all is_digit es" "es \<noteq> []"
  shows "natural_cmp rt (p @ ds) (p @ es) = cmp_of (digits_val ds) (digits_val es)"
proof -
  have "natural_cmp rt (p @ ds) (p @ es) =
        cmp_of (map chunk_key (chunks rt p) @ [chunk_key (Digits ds)])
               (map chunk_key (chunks rt p) @ [chunk_key (Digits es)])"
    using assms by (simp add: natural_cmp_key natural_key_def chunks_number del: chunk_key.simps)
  also have "\<dots> = cmp_of (chunk_key (Digits ds)) (chunk_key (Digits es))"
    by (rule cmp_of_append_same)
  also have "\<dots> = cmp_of (digits_val ds) (digits_val es)"
    using assms by (metis chunk_cmp_digits chunk_cmp_key)
  finally show ?thesis .
qed

theorem natural_cmp_by_value_witness:
  "natural_cmp plain_runtime (''Pack '' @ ''2'') (''Pack '' @ ''010'') = Less"
  by (subst natural_cmp_by_value) (simp_all add: text_defs)

text \<open>
  The order ignores ASCII case: names that differ only in the case of ASCII letters tie,
  and a name can be replaced by such a variant on either side without changing the result.
\<close>

theorem natural_cmp_ignores_case:
  assumes "list_all is_ascii a" "list_all is_ascii b"
  shows "natural_cmp rt a b = natural_cmp rt (to_ascii_lowercase a) (to_ascii_lowercase b)"
  using assms by (simp add: natural_cmp_key natural_key_def chunks_lower)

theorem natural_cmp_ignores_case_witness:
  "natural_cmp plain_runtime ''Pack'' ''pACK'' = natural_cmp plain_runtime (to_ascii_lowercase ''Pack'') (to_ascii_lowercase ''pACK'')"
  by (rule natural_cmp_ignores_case) (simp_all add: text_defs)

end
