(* ===== verification/Sample.thy ===== *)
theory Sample
  imports Collection_Audit Natural
begin

text \<open>
  A small concrete environment: an ASCII runtime, clocks that count, one printing of each of two cards,
  and rows rendered as text. The theorems with hypotheses are applied to it.
\<close>

definition sample_catalog :: catalog where
  "sample_catalog =
     \<lparr>cat_sets = [\<lparr>st_code = ''base1'', st_ptcgo = Some ''BS'', st_name = ''Base'', st_symbol_url = None\<rparr>],
      cat_set_aliases = [],
      cat_cards =
        [\<lparr>cd_id = ''base1-4'', cd_set = ''base1'', cd_number = ''4'', cd_name = ''Charizard'', cd_rarity = None,
          cd_artist = None, cd_supertype = None, cd_subtypes = None, cd_types = None, cd_attacks = None,
          cd_image_small = None, cd_image_large = None, cd_hp = None\<rparr>,
         \<lparr>cd_id = ''base1-58'', cd_set = ''base1'', cd_number = ''58'', cd_name = ''Pikachu'', cd_rarity = None,
          cd_artist = None, cd_supertype = None, cd_subtypes = None, cd_types = None, cd_attacks = None,
          cd_image_small = None, cd_image_large = None, cd_hp = None\<rparr>],
      cat_printings =
        [\<lparr>pg_id = ''base1-4:holofoil'', pg_card = ''base1-4'', pg_variant = ''holofoil'', pg_product = Some 1,
          pg_sub_type = Some ''Holofoil'', pg_deprecated_at = None\<rparr>,
         \<lparr>pg_id = ''base1-58:normal'', pg_card = ''base1-58'', pg_variant = ''normal'', pg_product = Some 2,
          pg_sub_type = Some ''Normal'', pg_deprecated_at = None\<rparr>],
      cat_latest_prices = [], cat_overrides = [],
      cat_sealed_products =
        [\<lparr>sp_id = 9, sp_set_code = Some ''base1'', sp_name = ''Base Booster Box'', sp_category = ''booster_box'',
          sp_image_url = None, sp_release_date = None\<rparr>],
      cat_latest_sealed = []\<rparr>"

definition sample_env :: "string env" where
  "sample_env =
     \<lparr>env_rt = plain_runtime, env_catalog = sample_catalog, env_now = show_nat,
      env_sql_now = (\<lambda>n. replicate n (CHR ''t'')),
      env_sql_datetime = show_nat, env_strftime = Some,
      env_row_json = (\<lambda>c. ce_printing c @ ''/'' @ ce_status c),
      env_sealed_json = (\<lambda>s. se_status s), env_parse_json = Some, env_json_string = (\<lambda>s. s)\<rparr>"

lemma sample_env_simps [simp]:
  "env_rt sample_env = plain_runtime" "env_catalog sample_env = sample_catalog"
  "env_now sample_env = show_nat" "env_sql_now sample_env = (\<lambda>n. replicate n (CHR ''t''))"
  "env_sql_datetime sample_env = show_nat" "env_strftime sample_env = Some"
  by (simp_all add: sample_env_def)

definition sample_copy :: NewCopy where
  "sample_copy =
     \<lparr>nc_printing = ''base1-4:holofoil'', nc_condition = None, nc_language = None, nc_purchase_price = None,
      nc_acquired_at = None, nc_source = ''manual'', nc_status = None, nc_notes = None, nc_order = None,
      nc_binder = None, nc_deck = None, nc_batch = None\<rparr>"

text \<open>The database after running an action, and its result.\<close>

definition after :: "'a dbact \<Rightarrow> tdb \<Rightarrow> tdb" where
  "after m db = snd (m db)"

lemma after_schema: "always keeps_schema m \<Longrightarrow> schema_ok db \<Longrightarrow> schema_ok (after m db)"
  by (simp add: always_def keeps_schema_def after_def)

text \<open>What evaluates a run of the collection's operations on a concrete database.\<close>

lemmas run_defs = after_def bind_act_def ret_def fail_def query_def transaction_def now_rfc3339_def Let_def
  empty_db_def empty_tbl_def next_id_def tbl_append_def tbl_modify_def tbl_has_def tbl_find_def refers_def
  insert_entry_def insert_status_def insert_movement_def update_entries_def touch_entries_def log_entries_def
  log_rows_def entry_check_def entry_refs_def movement_refs_def conditions_allowed_def statuses_allowed_def
  collection_add_def move_to_def set_status_def new_entry_def printing_exists_def sample_catalog_def sample_copy_def

end
