(* ===== verification/Outbox.thy ===== *)
theory Outbox
  imports Sample
begin

text \<open>
  The ownership outbox, \<open>pkdump-db/src/outbox.rs\<close>: the reduction of an event stream to the
  holdings it describes, and the re-emission of current rows (backfill and redrive). The theorems
  at the end say that the reduction of everything a tenant's triggers and re-emissions appended
  is what the tenant holds.
\<close>

section \<open>Sources, scopes and the ledger\<close>

datatype Source = Trigger | Backfill | Redrive

fun source_as_str :: "Source \<Rightarrow> string" where
  "source_as_str Trigger = ''trigger''"
| "source_as_str Backfill = ''backfill''"
| "source_as_str Redrive = ''redrive''"

datatype Scope = Scope_Collection | Scope_Seq i64 i64 | Scope_Row string i64

definition SOURCE_TABLES :: "string list" where
  "SOURCE_TABLES = [''collection'', ''sealed_collection'']"

definition UNDATED :: string where
  "UNDATED = ''0001-01-01T00:00:00.000Z''"

fun scope_label :: "Scope \<Rightarrow> string" where
  "scope_label Scope_Collection = ''collection''"
| "scope_label (Scope_Seq a b) = ''seq:'' @ show_int a @ ''..'' @ show_int b"
| "scope_label (Scope_Row table i) = ''row:'' @ table @ '':'' @ show_int i"

fun provenance :: "Scope \<Rightarrow> Source" where
  "provenance Scope_Collection = Backfill"
| "provenance (Scope_Seq _ _) = Redrive"
| "provenance (Scope_Row _ _) = Redrive"

fun validate :: "Scope \<Rightarrow> DbError + unit" where
  "validate (Scope_Seq a b) =
     (if b < a then Inl (Invalid (''seq range '' @ show_int a @ ''..'' @ show_int b @ '' runs backwards''))
      else if a < 1 then Inl (Invalid (''seq numbering starts at 1, so '' @ show_int a @ '' names no event''))
      else Inr ())"
| "validate (Scope_Row table i) =
     (if table \<notin> set SOURCE_TABLES
      then Inl (Invalid (debug_quoted table @ '' is not a holdings table the outbox carries. It records '' @
                         join '' and '' SOURCE_TABLES))
      else Inr ())"
| "validate Scope_Collection = Inr ()"

record Emitted =
  em_scope :: string
  em_source :: Source
  em_events :: nat
  em_seq_first :: "int option"
  em_seq_last :: "int option"
  em_per_table :: "(string \<times> nat) list"

section \<open>Reading\<close>

definition events :: "Event list dbact" where
  "events = query (\<lambda>db. tbl_rows (db_outbox db))"

text \<open>Rule 3: conflicts are resolved by \<open>occurred_at\<close>, ties by \<open>seq\<close>.\<close>

definition event_order :: "Event \<Rightarrow> string \<times> int" where
  "event_order e = (ev_occurred_at e, ev_seq e)"

definition project :: "'j env \<Rightarrow> Event list \<Rightarrow> 'j holdings" where
  "project env evs = replay env (sort_key event_order evs) (\<lambda>_. None)"

definition emit_runs :: "tdb \<Rightarrow> EmitRun list" where
  "emit_runs db = rev (tbl_rows (db_emit_log db))"

definition last_backfill :: "tdb \<Rightarrow> EmitRun option" where
  "last_backfill db = List.find (\<lambda>r. er_source r = source_as_str Backfill) (emit_runs db)"

section \<open>Emitting\<close>

text \<open>The rows of a holdings table: id, the timestamp column that dates it, the payload.\<close>

definition source_rows :: "'j env \<Rightarrow> string \<Rightarrow> tdb \<Rightarrow> (int \<times> string \<times> string) list" where
  "source_rows env table db =
     (if table = ''collection''
      then map (\<lambda>c. (ce_id c, ce_acquired_at c, env_row_json env c)) (tbl_rows (db_collection db))
      else map (\<lambda>s. (se_id s, se_added_at s, env_sealed_json env s)) (tbl_rows (db_sealed db)))"

definition max_seq :: "tdb \<Rightarrow> int" where
  "max_seq db = fold max (map ev_seq (tbl_rows (db_outbox db))) 0"

text \<open>The events of one row up to the snapshot.\<close>

definition row_events :: "string \<Rightarrow> int \<Rightarrow> int \<Rightarrow> tdb \<Rightarrow> Event list" where
  "row_events table snapshot i db =
     filter (\<lambda>e. ev_source_table e = table \<and> ev_row_id e = i \<and> ev_seq e \<le> snapshot) (tbl_rows (db_outbox db))"

definition scope_predicate :: "string \<Rightarrow> Scope \<Rightarrow> int \<Rightarrow> tdb \<Rightarrow> int \<Rightarrow> bool" where
  "scope_predicate table scope snapshot db i =
     (case scope of
        Scope_Collection \<Rightarrow> True
      | Scope_Row t r \<Rightarrow> t = table \<and> i = r
      | Scope_Seq a b \<Rightarrow> list_ex (\<lambda>e. a \<le> ev_seq e \<and> ev_seq e \<le> b) (row_events table snapshot i db))"

definition occurred_at :: "'j env \<Rightarrow> string \<Rightarrow> int \<Rightarrow> tdb \<Rightarrow> int \<Rightarrow> string \<Rightarrow> string" where
  "occurred_at env table snapshot db i ts =
     (case map ev_occurred_at (row_events table snapshot i db) of
        [] \<Rightarrow> (case env_strftime env ts of Some t \<Rightarrow> t | None \<Rightarrow> UNDATED)
      | t # us \<Rightarrow> fold max us t)"

text \<open>An \<open>INSERT INTO ownership_outbox SELECT\<close>: one event per row, numbered on.\<close>

definition append_events ::
  "string \<Rightarrow> string \<Rightarrow> string \<Rightarrow> (string \<times> int \<times> string) list \<Rightarrow> Event tbl \<Rightarrow> Event tbl" where
  "append_events src table op rows ob =
     fold (\<lambda>(t, i, p) ob. tbl_append \<lparr>ev_seq = next_id ob, ev_occurred_at = t, ev_source_table = table,
             ev_op = op, ev_row_id = i, ev_payload = p, ev_source = src\<rparr> ob) rows ob"

definition current_rows :: "'j env \<Rightarrow> string \<Rightarrow> Scope \<Rightarrow> int \<Rightarrow> tdb \<Rightarrow> (string \<times> int \<times> string) list" where
  "current_rows env table scope snapshot db =
     map (\<lambda>(i, ts, p). (occurred_at env table snapshot db i ts, i, p))
       (filter (\<lambda>(i, _, _). scope_predicate table scope snapshot db i) (source_rows env table db))"

definition emit_current_rows :: "'j env \<Rightarrow> string \<Rightarrow> Scope \<Rightarrow> Source \<Rightarrow> int \<Rightarrow> nat dbact" where
  "emit_current_rows env table scope src snapshot = (\<lambda>db.
     let rows = current_rows env table scope snapshot db in
     (Inr (length rows),
      db\<lparr>db_outbox := append_events (source_as_str src) table ''insert'' rows (db_outbox db)\<rparr>))"

definition missing_rows :: "'j env \<Rightarrow> string \<Rightarrow> Scope \<Rightarrow> int \<Rightarrow> tdb \<Rightarrow> (string \<times> int \<times> string) list" where
  "missing_rows env table scope snapshot db =
     map (\<lambda>e. (ev_occurred_at e, ev_row_id e, ev_payload e)) (sort_key ev_row_id
       (filter (\<lambda>e. ev_source_table e = table \<and> ev_seq e \<le> snapshot \<and> ev_op e = ''delete'' \<and>
          ev_seq e = fold max (map ev_seq (row_events table snapshot (ev_row_id e) db)) 0 \<and>
          ev_row_id e \<notin> fst ` set (source_rows env table db) \<and>
          scope_predicate table scope snapshot db (ev_row_id e)) (tbl_rows (db_outbox db))))"

definition emit_missing_rows :: "'j env \<Rightarrow> string \<Rightarrow> Scope \<Rightarrow> Source \<Rightarrow> int \<Rightarrow> nat dbact" where
  "emit_missing_rows env table scope src snapshot = (\<lambda>db.
     let rows = missing_rows env table scope snapshot db in
     (Inr (length rows),
      db\<lparr>db_outbox := append_events (source_as_str src) table ''delete'' rows (db_outbox db)\<rparr>))"

text \<open>The body of the loop over \<open>SOURCE_TABLES\<close>: the survivors, then the removals of a redrive.\<close>

definition emit_table :: "'j env \<Rightarrow> Scope \<Rightarrow> int \<Rightarrow> string \<Rightarrow> nat dbact" where
  "emit_table env scope snapshot table =
     bind_act (emit_current_rows env table scope (provenance scope) snapshot) (\<lambda>n.
     if scope = Scope_Collection then ret n
     else bind_act (emit_missing_rows env table scope (provenance scope) snapshot) (\<lambda>m. ret (n + m)))"

definition insert_run :: "'j env \<Rightarrow> (int \<Rightarrow> string \<Rightarrow> EmitRun) \<Rightarrow> unit dbact" where
  "insert_run env mk = (\<lambda>db.
     (Inr (), db\<lparr>db_emit_log := tbl_append (mk (next_id (db_emit_log db)) (env_sql_now env (db_ticks db))) (db_emit_log db),
                 db_ticks := Suc (db_ticks db)\<rparr>))"

definition backfilled_message :: "EmitRun \<Rightarrow> string" where
  "backfilled_message prior =
     ''this collection was already backfilled at '' @ er_completed_at prior @ '' ('' @ show_int (er_rows_emitted prior) @
     '' events, '' @ er_scope prior @ ''). Running it again is SAFE '' @ [CHR 0xE2, CHR 0x80, CHR 0x94] @
     '' every event carries the whole row, so replaying one is an upsert to the same value '' @
     [CHR 0xE2, CHR 0x80, CHR 0x94] @
     '' but it is not something to do by accident. Pass --force to do it anyway.''"

definition emit :: "'j env \<Rightarrow> Scope \<Rightarrow> bool \<Rightarrow> Emitted dbact" where
  "emit env scope force =
     bind_act (lift_result (validate scope)) (\<lambda>_.
     bind_act (query last_backfill) (\<lambda>prior.
     case (if scope = Scope_Collection \<and> \<not> force then prior else None) of
       Some run \<Rightarrow> fail (Conflict (backfilled_message run))
     | None \<Rightarrow>
         tx (bind_act (query max_seq) (\<lambda>snapshot.
             bind_act (emit_table env scope snapshot ''collection'') (\<lambda>n.
             bind_act (emit_table env scope snapshot ''sealed_collection'') (\<lambda>m.
             bind_act (query (\<lambda>db. if n + m = 0 then None else Some (max_seq db))) (\<lambda>final.
             let first = map_option (\<lambda>l. l - int (n + m) + 1) final in
             bind_act (insert_run env (\<lambda>i now.
               \<lparr>er_id = i, er_scope = scope_label scope, er_source = source_as_str (provenance scope),
                er_completed_at = now, er_rows_emitted = int (n + m), er_seq_first = first,
                er_seq_last = final, er_forced = force\<rparr>)) (\<lambda>_.
             ret \<lparr>em_scope = scope_label scope, em_source = provenance scope, em_events = n + m,
                  em_seq_first = first, em_seq_last = final,
                  em_per_table = [(''collection'', n), (''sealed_collection'', m)]\<rparr>)))))))) "

section \<open>The reduction, holding by holding\<close>

definition event_key :: "Event \<Rightarrow> string \<times> int" where
  "event_key e = (ev_source_table e, ev_row_id e)"

definition outcome :: "'j env \<Rightarrow> Event \<Rightarrow> 'j option" where
  "outcome env e = (if ev_op e = ''delete'' then None else Some (json_of env (ev_payload e)))"

lemma replay_at:
  "replay env es m k = (case filter (\<lambda>e. event_key e = k) es of [] \<Rightarrow> m k | fs \<Rightarrow> outcome env (last fs))"
proof (induction es rule: rev_induct)
  case (snoc e es)
  have "replay env (es @ [e]) m k = (if event_key e = k then outcome env e else replay env es m k)"
    by (simp add: replay_def apply_event_def Let_def event_key_def outcome_def)
  then show ?case using snoc by (cases "filter (\<lambda>e. event_key e = k) es") auto
qed simp

lemma last_sort_key:
  assumes "e \<in> set xs" "\<And>x. x \<in> set xs \<Longrightarrow> f x \<le> f e" "inj_on f (set xs)"
  shows "last (sort_key f xs) = e"
proof -
  have "set (sort_key f xs) \<noteq> {}" using assms(1) by auto
  then have ne: "sort_key f xs \<noteq> []" by force
  let ?l = "last (sort_key f xs)"
  have l: "?l \<in> set xs" using last_in_set [OF ne] by simp
  have "sorted_wrt (\<le>) (map f (butlast (sort_key f xs) @ [?l]))" using ne by simp
  moreover have "set xs = set (butlast (sort_key f xs) @ [?l])" using ne by simp
  ultimately have "f e \<le> f ?l" using assms(1) by (auto simp: sorted_append)
  moreover have "f ?l \<le> f e" using assms(2) l by simp
  ultimately have "f ?l = f e" by simp
  then show ?thesis using assms(1,3) l by (simp add: inj_on_def)
qed

lemma event_order_inj: "distinct (map ev_seq evs) \<Longrightarrow> inj_on event_order (set evs)"
  by (auto simp: distinct_map event_order_def inj_on_def)

text \<open>The greatest event of a holding decides it; without an event there is no holding.\<close>

lemma project_newest:
  assumes "inj_on event_order (set evs)" "e \<in> set evs"
    and "\<And>x. x \<in> set evs \<Longrightarrow> event_key x = event_key e \<Longrightarrow> event_order x \<le> event_order e"
  shows "project env evs (event_key e) = outcome env e"
proof -
  let ?fs = "filter (\<lambda>x. event_key x = event_key e) evs"
  have "last (sort_key event_order ?fs) = e"
    using assms by (intro last_sort_key) (auto intro: inj_on_subset)
  moreover have "sort_key event_order ?fs \<noteq> []"
  proof -
    have "e \<in> set (sort_key event_order ?fs)" using assms(2) by simp
    then show ?thesis by force
  qed
  ultimately show ?thesis
    by (simp add: project_def replay_at List.filter_sort split: list.split)
      (metis list.distinct(1) last.simps)
qed

lemma project_absent: "k \<notin> event_key ` set evs \<Longrightarrow> project env evs k = None"
proof -
  assume "k \<notin> event_key ` set evs"
  then have "filter (\<lambda>e. event_key e = k) (sort_key event_order evs) = []" by (auto simp: filter_empty_conv)
  then show ?thesis by (simp add: project_def replay_at)
qed

lemma greatest_event:
  assumes "e0 \<in> set evs"
  obtains e where "e \<in> set evs" "event_key e = event_key e0"
    "\<And>x. x \<in> set evs \<Longrightarrow> event_key x = event_key e \<Longrightarrow> event_order x \<le> event_order e"
proof -
  let ?S = "event_order ` {x \<in> set evs. event_key x = event_key e0}"
  have "Max ?S \<in> ?S" using assms by (intro Max_in) auto
  then obtain e where "e \<in> set evs" "event_key e = event_key e0" "event_order e = Max ?S" by force
  moreover have "event_order x \<le> Max ?S" if "x \<in> set evs" "event_key x = event_key e0" for x
    using that by (intro Max_ge) auto
  ultimately show thesis by (intro that [of e]) auto
qed

lemma project_append_consistent:
  assumes "inj_on event_order (set (old @ new))"
    and "\<And>e. e \<in> set new \<Longrightarrow> outcome env e = project env old (event_key e)"
  shows "project env (old @ new) = project env old"
proof
  fix k
  show "project env (old @ new) k = project env old k"
  proof (cases "k \<in> event_key ` set (old @ new)")
    case False
    then have "k \<notin> event_key ` set old" by auto
    with False show ?thesis by (simp add: project_absent)
  next
    case True
    then obtain e0 where e0: "e0 \<in> set (old @ new)" "event_key e0 = k" by auto
    obtain e where e: "e \<in> set (old @ new)" "event_key e = k"
        "\<And>x. x \<in> set (old @ new) \<Longrightarrow> event_key x = event_key e \<Longrightarrow> event_order x \<le> event_order e"
      using greatest_event [OF e0(1)] e0(2) by metis
    have p: "project env (old @ new) k = outcome env e"
      using project_newest [OF assms(1) e(1) e(3)] e(2) by simp
    show ?thesis
    proof (cases "e \<in> set new")
      case True
      then show ?thesis using p assms(2) e(2) by simp
    next
      case False
      then have "e \<in> set old" "inj_on event_order (set old)" using e(1) assms(1) by (auto simp: inj_on_Un)
      then show ?thesis using project_newest [of old e env] e p by auto
    qed
  qed
qed

text \<open>
  C5. The reduction of an event stream depends only on which events are in it: events may be
  delivered in any order and any number of times, as long as a sequence number always carries
  the same event.
\<close>

theorem project_order_and_repetition:
  assumes "set evs = set evs'" "inj_on ev_seq (set evs)"
  shows "project env evs = project env evs'"
proof
  fix k
  have inj: "inj_on event_order (set evs)" using assms(2) by (auto simp: inj_on_def event_order_def)
  show "project env evs k = project env evs' k"
  proof (cases "k \<in> event_key ` set evs")
    case False
    then show ?thesis using assms(1) by (metis project_absent)
  next
    case True
    then obtain e0 where "e0 \<in> set evs" "event_key e0 = k" by auto
    with greatest_event [OF this(1)] obtain e where "e \<in> set evs" "event_key e = k"
        "\<And>x. x \<in> set evs \<Longrightarrow> event_key x = event_key e \<Longrightarrow> event_order x \<le> event_order e"
      by metis
    then show ?thesis
      using project_newest [of evs e env] project_newest [of evs' e env] inj assms(1) by simp
  qed
qed

section \<open>The triggers keep the reduction in step\<close>

text \<open>The SQL clock never runs backwards.\<close>

definition steady :: "'j env \<Rightarrow> bool" where
  "steady env \<longleftrightarrow> (\<forall>i j. i \<le> j \<longrightarrow> env_sql_now env i \<le> env_sql_now env j)"

definition dated :: "'j env \<Rightarrow> tdb \<Rightarrow> bool" where
  "dated env db \<longleftrightarrow> (\<forall>e \<in> set (tbl_rows (db_outbox db)). \<exists>t < db_ticks db. ev_occurred_at e = env_sql_now env t)"

definition in_sync :: "'j env \<Rightarrow> tdb \<Rightarrow> bool" where
  "in_sync env db \<longleftrightarrow> ids_ok db \<and> dated env db \<and> project env (tbl_rows (db_outbox db)) = holdings_of env db"

definition keeps_sync :: "'j env \<Rightarrow> tdb \<Rightarrow> tdb \<Rightarrow> bool" where
  "keeps_sync env db db' \<longleftrightarrow> db_ticks db \<le> db_ticks db' \<and> (in_sync env db \<longrightarrow> in_sync env db')"

lemma in_sync_later: "in_sync env db \<Longrightarrow> db_ticks db \<le> n \<Longrightarrow> in_sync env (db\<lparr>db_ticks := n\<rparr>)"
  using holdings_of_cong [of "db\<lparr>db_ticks := n\<rparr>" db env]
  by (auto simp: in_sync_def dated_def) (meson order_less_le_trans)

interpretation sync: step_relation "keeps_sync env" rollback for env :: "'j env"
  by unfold_locales (auto simp: keeps_sync_def rollback_def in_sync_later)

lemma sort_key_append_later:
  assumes "sorted_wrt (\<le>) (map f ys)" "\<And>x y. x \<in> set xs \<Longrightarrow> y \<in> set ys \<Longrightarrow> f x \<le> f y"
  shows "sort_key f (xs @ ys) = sort_key f xs @ ys"
proof (rule properties_for_sort_key)
  show "filter (\<lambda>x. f k = f x) (sort_key f xs @ ys) = filter (\<lambda>x. f k = f x) (xs @ ys)" for k
    using sort_key_stable [of f "f k" xs] by (simp add: eq_commute [of "f k"])
  show "sorted_wrt (\<le>) (map f (sort_key f xs @ ys))"
    using assms by (auto simp: sorted_wrt_append)
qed simp

lemma journaled_keeps_sync:
  assumes "steady env" "journaled env db db'"
  shows "keeps_sync env db db'"
  unfolding keeps_sync_def
proof (intro conjI impI)
  show "db_ticks db \<le> db_ticks db'" using assms(2) by (simp add: journaled_def)
  assume "in_sync env db"
  then have old: "ids_ok db" "dated env db" "project env (tbl_rows (db_outbox db)) = holdings_of env db"
    by (simp_all add: in_sync_def)
  then obtain evs where new: "ids_ok db'" "tbl_rows (db_outbox db') = tbl_rows (db_outbox db) @ evs"
      "fresh_events env db db' evs" "holdings_of env db' = replay env evs (holdings_of env db)"
    using assms(2) by (auto simp: journaled_def)
  obtain reads where seqs: "map ev_seq evs = map (\<lambda>i. tbl_seq (db_outbox db) + int i) [1..<Suc (length evs)]"
    and reads: "map ev_occurred_at evs = map (env_sql_now env) reads" "sorted_wrt (\<le>) reads"
      "\<forall>i \<in> set reads. db_ticks db \<le> i \<and> i < db_ticks db'"
    using new(3) by (auto simp: fresh_events_def)
  have len: "length reads = length evs" using reads(1) by (metis length_map)
  have at: "ev_occurred_at (evs ! i) = env_sql_now env (reads ! i) \<and>
      ev_seq (evs ! i) = tbl_seq (db_outbox db) + int (Suc i)" if "i < length evs" for i
  proof -
    have "map ev_occurred_at evs ! i = map (env_sql_now env) reads ! i" by (simp add: reads(1))
    moreover have "map ev_seq evs ! i = map (\<lambda>i. tbl_seq (db_outbox db) + int i) [1..<Suc (length evs)] ! i"
      by (simp only: seqs)
    ultimately show ?thesis using that len by (simp del: upt_Suc)
  qed
  have "event_order (evs ! i) \<le> event_order (evs ! j)" if "i < j" "j < length evs" for i j
  proof -
    have "reads ! i \<le> reads ! j" using reads(2) that len by (simp add: sorted_wrt_iff_nth_less)
    then have "env_sql_now env (reads ! i) \<le> env_sql_now env (reads ! j)" using assms(1) by (simp add: steady_def)
    then show ?thesis using at [of i] at [of j] that by (auto simp: event_order_def less_eq_prod_def)
  qed
  then have "sorted_wrt (\<le>) (map event_order evs)" by (simp add: sorted_wrt_iff_nth_less)
  moreover have "event_order x \<le> event_order y"
    if x: "x \<in> set (tbl_rows (db_outbox db))" and y: "y \<in> set evs" for x y
  proof -
    obtain t where t: "t < db_ticks db" "ev_occurred_at x = env_sql_now env t"
      using old(2) x by (auto simp: dated_def)
    obtain i where i: "i < length evs" "y = evs ! i" using y by (auto simp: in_set_conv_nth)
    have "reads ! i \<in> set reads" using i(1) len by simp
    then have "t \<le> reads ! i" using reads(3) t(1) by force
    then have "ev_occurred_at x \<le> ev_occurred_at y" using assms(1) at [OF i(1)] i(2) t(2) by (simp add: steady_def)
    moreover have "ev_seq x \<le> tbl_seq (db_outbox db)" using old(1) x by (auto simp: ids_ok_def tbl_ok_def list_all_iff)
    ultimately show ?thesis using at [OF i(1)] i(2) by (auto simp: event_order_def less_eq_prod_def)
  qed
  ultimately have "project env (tbl_rows (db_outbox db')) = holdings_of env db'"
    using new(2,4) old(3) by (simp add: project_def sort_key_append_later)
  moreover have "dated env db'"
    unfolding dated_def
  proof
    fix e assume "e \<in> set (tbl_rows (db_outbox db'))"
    then consider "e \<in> set (tbl_rows (db_outbox db))" | i where "i < length evs" "e = evs ! i"
      unfolding new(2) by (auto simp: in_set_conv_nth)
    then show "\<exists>t < db_ticks db'. ev_occurred_at e = env_sql_now env t"
    proof cases
      case 1
      then obtain t where "t < db_ticks db" "ev_occurred_at e = env_sql_now env t"
        using old(2) by (auto simp: dated_def)
      moreover have "db_ticks db \<le> db_ticks db'" using assms(2) by (simp add: journaled_def)
      ultimately show ?thesis by (intro exI [of _ t]) simp
    next
      case 2
      then have "reads ! i \<in> set reads" using len by simp
      then show ?thesis using at [OF 2(1)] 2(2) reads(3) by blast
    qed
  qed
  ultimately show "in_sync env db'" using new(1) by (simp add: in_sync_def)
qed

lemma always_keeps_sync: "steady env \<Longrightarrow> always (journaled env) m \<Longrightarrow> always (keeps_sync env) m"
  by (simp add: always_def journaled_keeps_sync)

section \<open>Re-emission\<close>

text \<open>
  Events appended to an outbox that each restate what the tenant holds under their key, numbered
  on, with the given provenance and dated no differently than events already there.
\<close>

definition restates :: "'j env \<Rightarrow> tdb \<Rightarrow> string \<Rightarrow> Event tbl \<Rightarrow> Event tbl \<Rightarrow> Event list \<Rightarrow> bool" where
  "restates env db src ob ob' new \<longleftrightarrow>
     tbl_rows ob' = tbl_rows ob @ new \<and> tbl_seq ob' = tbl_seq ob + int (length new) \<and>
     map ev_seq new = map (\<lambda>i. tbl_seq ob + int i) [1..<Suc (length new)] \<and>
     (\<forall>e \<in> set new. ev_source e = src \<and> outcome env e = holdings_of env db (event_key e))"

lemma restates_Nil: "restates env db src ob ob []"
  by (simp add: restates_def)

lemma restates_trans:
  assumes "restates env db src ob ob1 es" "restates env db src ob1 ob2 fs"
  shows "restates env db src ob ob2 (es @ fs)"
proof -
  have "map ev_seq (es @ fs) = map (\<lambda>i. tbl_seq ob + int i) [1..<Suc (length (es @ fs))]"
  proof (rule nth_equalityI)
    fix i assume "i < length (map ev_seq (es @ fs))"
    then show "map ev_seq (es @ fs) ! i = map (\<lambda>i. tbl_seq ob + int i) [1..<Suc (length (es @ fs))] ! i"
      using assms by (cases "i < length es") (simp_all add: restates_def nth_append del: upt_Suc)
  qed (simp del: upt_Suc)
  then show ?thesis using assms by (auto simp: restates_def simp del: upt_Suc)
qed

definition new_events ::
  "string \<Rightarrow> string \<Rightarrow> string \<Rightarrow> (string \<times> int \<times> string) list \<Rightarrow> int \<Rightarrow> Event list" where
  "new_events src table op rows seq =
     map (\<lambda>(n, t, i, p). \<lparr>ev_seq = seq + int n, ev_occurred_at = t, ev_source_table = table,
             ev_op = op, ev_row_id = i, ev_payload = p, ev_source = src\<rparr>) (enumerate 1 rows)"

lemma append_events_props:
  "tbl_rows (append_events src table op rows ob) = tbl_rows ob @ new_events src table op rows (tbl_seq ob)"
  "tbl_seq (append_events src table op rows ob) = tbl_seq ob + int (length rows)"
proof (induction rows rule: rev_induct)
  case (snoc r rows)
  case 1
  show ?case using snoc
    by (cases r) (simp add: append_events_def new_events_def next_id_def enumerate_append_eq)
  case 2
  show ?case using snoc by (cases r) (simp add: append_events_def)
qed (simp_all add: append_events_def new_events_def)

lemma append_events_ok: "tbl_ok ev_seq ob \<Longrightarrow> tbl_ok ev_seq (append_events src table op rows ob)"
  by (induction rows rule: rev_induct) (auto simp: append_events_def)

lemma new_events_keys: "map event_key (new_events src table op rows seq) = map (\<lambda>(t, i, p). (table, i)) rows"
  by (rule nth_equalityI) (auto simp: new_events_def nth_enumerate_eq event_key_def split: prod.splits)

lemma new_events_in:
  "e \<in> set (new_events src table op rows seq) \<Longrightarrow>
   (ev_occurred_at e, ev_row_id e, ev_payload e) \<in> set rows \<and> ev_source e = src \<and>
   ev_source_table e = table \<and> ev_op e = op"
  by (auto simp: new_events_def enumerate_eq_zip dest: set_zip_rightD)

lemma restates_append:
  assumes "\<And>t i p. (t, i, p) \<in> set rows \<Longrightarrow>
      holdings_of env db (table, i) = (if op = ''delete'' then None else Some (json_of env p))"
  shows "restates env db src ob (append_events src table op rows ob) (new_events src table op rows (tbl_seq ob))"
proof -
  have "map ev_seq (new_events src table op rows (tbl_seq ob)) =
      map (\<lambda>i. tbl_seq ob + int i) [1..<Suc (length rows)]"
    by (rule nth_equalityI)
      (auto simp: new_events_def nth_enumerate_eq split: prod.splits simp del: upt_Suc)
  moreover have "length (new_events src table op rows (tbl_seq ob)) = length rows" by (simp add: new_events_def)
  ultimately show ?thesis
    using assms by (auto simp: restates_def append_events_props outcome_def event_key_def dest!: new_events_in)
qed

lemma source_rows_holdings:
  assumes "ids_ok db" "table \<in> set SOURCE_TABLES"
  shows "(i, ts, p) \<in> set (source_rows env table db) \<Longrightarrow> holdings_of env db (table, i) = Some (json_of env p)"
    and "i \<notin> fst ` set (source_rows env table db) \<Longrightarrow> holdings_of env db (table, i) = None"
proof -
  have t: "tbl_ok ce_id (db_collection db)" "tbl_ok se_id (db_sealed db)" using assms(1) by (simp_all add: ids_ok_def)
  have table: "table = ''collection'' \<or> table = ''sealed_collection''" using assms(2) by (auto simp: SOURCE_TABLES_def)
  { assume "(i, ts, p) \<in> set (source_rows env table db)"
    then consider c where "table = ''collection''" "tbl_find ce_id i (db_collection db) = Some c" "p = env_row_json env c"
      | s where "table = ''sealed_collection''" "tbl_find se_id i (db_sealed db) = Some s" "p = env_sealed_json env s"
      using table t by (auto simp: source_rows_def tbl_find_iff split: if_splits)
    then show "holdings_of env db (table, i) = Some (json_of env p)"
      by cases (simp_all add: holdings_of_def) }
  assume absent: "i \<notin> fst ` set (source_rows env table db)"
  then have "table = ''collection'' \<Longrightarrow> \<not> tbl_has ce_id (db_collection db) i"
    "table = ''sealed_collection'' \<Longrightarrow> \<not> tbl_has se_id (db_sealed db) i"
    by (auto simp: source_rows_def tbl_has_iff image_image)
  then show "holdings_of env db (table, i) = None"
    using table by (auto simp: holdings_of_def tbl_find_None)
qed

lemma fold_max_sorted:
  fixes xs :: "int list"
  shows "sorted_wrt (<) xs \<Longrightarrow> list_all (\<lambda>x. 0 < x) xs \<Longrightarrow> fold max xs 0 = (if xs = [] then 0 else last xs)"
proof (induction xs rule: rev_induct)
  case (snoc x xs)
  then have "fold max xs 0 = (if xs = [] then 0 else last xs)" by (simp add: sorted_wrt_append)
  moreover have "xs \<noteq> [] \<Longrightarrow> last xs < x" using snoc.prems(1) by (simp add: sorted_wrt_append)
  ultimately show ?case using snoc.prems(2) by (cases "xs = []") (auto simp: max.absorb1)
qed simp

lemma max_seq_last:
  assumes "tbl_ok ev_seq (db_outbox db)"
  shows "max_seq db = (if tbl_rows (db_outbox db) = [] then 0 else ev_seq (last (tbl_rows (db_outbox db))))"
proof -
  have "list_all (\<lambda>x. 0 < x) (map ev_seq (tbl_rows (db_outbox db)))" "sorted_wrt (<) (map ev_seq (tbl_rows (db_outbox db)))"
    using assms by (auto simp: tbl_ok_def list_all_iff)
  then show ?thesis by (simp add: max_seq_def fold_max_sorted last_map)
qed

text \<open>
  The specification of a run, apart from its statements: the keys the tenant holds, the events the outbox
  has on a key, which keys a scope names, and which held nothing any more after a last event that removed them.
\<close>

definition held_keys :: "string \<Rightarrow> tdb \<Rightarrow> (string \<times> int) list" where
  "held_keys table db = map (Pair table)
     (if table = ''collection'' then map ce_id (tbl_rows (db_collection db)) else map se_id (tbl_rows (db_sealed db)))"

definition history_of :: "tdb \<Rightarrow> string \<times> int \<Rightarrow> Event list" where
  "history_of db k = filter (\<lambda>e. event_key e = k) (tbl_rows (db_outbox db))"

definition in_scope :: "Scope \<Rightarrow> tdb \<Rightarrow> string \<times> int \<Rightarrow> bool" where
  "in_scope scope db k = (case scope of
     Scope_Collection \<Rightarrow> True
   | Scope_Row table i \<Rightarrow> k = (table, i)
   | Scope_Seq a b \<Rightarrow> list_ex (\<lambda>e. a \<le> ev_seq e \<and> ev_seq e \<le> b) (history_of db k))"

definition removed_key :: "tdb \<Rightarrow> string \<times> int \<Rightarrow> bool" where
  "removed_key db k \<longleftrightarrow> k \<notin> set (held_keys (fst k) db) \<and> history_of db k \<noteq> [] \<and> ev_op (last (history_of db k)) = ''delete''"

text \<open>
  One insert per held key the scope names, in table order, dated by the latest event the key has; one delete
  per removed key the scope names, dated and filled as the event that removed it; a backfill has no deletes.
\<close>

definition reemits :: "Scope \<Rightarrow> tdb \<Rightarrow> string list \<Rightarrow> Event list \<Rightarrow> bool" where
  "reemits scope db tables new \<longleftrightarrow>
     (let ins = filter (\<lambda>e. ev_op e = ''insert'') new; del = filter (\<lambda>e. ev_op e \<noteq> ''insert'') new in
      map event_key ins = filter (in_scope scope db) (concat (map (\<lambda>t. held_keys t db) tables)) \<and>
      (\<forall>e \<in> set ins. history_of db (event_key e) \<noteq> [] \<longrightarrow>
         ev_occurred_at e = Max (ev_occurred_at ` set (history_of db (event_key e)))) \<and>
      distinct (map event_key del) \<and>
      event_key ` set del = {k. fst k \<in> set tables \<and> scope \<noteq> Scope_Collection \<and> in_scope scope db k \<and> removed_key db k} \<and>
      (\<forall>e \<in> set del. ev_op e = ''delete'' \<and> ev_occurred_at e = ev_occurred_at (last (history_of db (event_key e))) \<and>
         ev_payload e = ev_payload (last (history_of db (event_key e)))))"

lemma reemitsI:
  assumes "filter (\<lambda>e. ev_op e = ''insert'') new = ins" and "filter (\<lambda>e. ev_op e \<noteq> ''insert'') new = del"
    and "map event_key ins = filter (in_scope scope db) (concat (map (\<lambda>t. held_keys t db) tables))"
    and "\<And>e. e \<in> set ins \<Longrightarrow> history_of db (event_key e) \<noteq> [] \<Longrightarrow>
      ev_occurred_at e = Max (ev_occurred_at ` set (history_of db (event_key e)))"
    and "distinct (map event_key del)"
    and "event_key ` set del = {k. fst k \<in> set tables \<and> scope \<noteq> Scope_Collection \<and> in_scope scope db k \<and> removed_key db k}"
    and "\<And>e. e \<in> set del \<Longrightarrow> ev_op e = ''delete'' \<and> ev_occurred_at e = ev_occurred_at (last (history_of db (event_key e))) \<and>
         ev_payload e = ev_payload (last (history_of db (event_key e)))"
  shows "reemits scope db tables new"
  unfolding reemits_def Let_def assms(1,2) using assms(3-) by blast

lemma held_keys_rows: "held_keys table db = map (\<lambda>(i, _, _). (table, i)) (source_rows env table db)"
  by (simp add: held_keys_def source_rows_def comp_def)

text \<open>Up to the snapshot the outbox of a run is the outbox it started from.\<close>

lemma row_events_history:
  assumes "tbl_ok ev_seq (db_outbox db0)" "tbl_rows (db_outbox db) = tbl_rows (db_outbox db0) @ later"
    and "\<forall>e \<in> set later. max_seq db0 < ev_seq e"
  shows "row_events table (max_seq db0) i db = history_of db0 (table, i)"
proof -
  have "ev_seq e \<le> max_seq db0" if "e \<in> set (tbl_rows (db_outbox db0))" for e
  proof -
    have "sorted_wrt (<) (map ev_seq (tbl_rows (db_outbox db0)))"
      using assms(1) by (simp add: tbl_ok_def)
    then have "ev_seq e \<le> last (map ev_seq (tbl_rows (db_outbox db0)))"
      using that by (cases "tbl_rows (db_outbox db0)" rule: rev_cases) (auto simp: sorted_wrt_append less_imp_le)
    moreover have ne: "tbl_rows (db_outbox db0) \<noteq> []" using that by auto
    ultimately show ?thesis using max_seq_last [OF assms(1)] by (simp add: last_map)
  qed
  then have "filter (\<lambda>e. ev_source_table e = table \<and> ev_row_id e = i \<and> ev_seq e \<le> max_seq db0) (tbl_rows (db_outbox db0)) =
      history_of db0 (table, i)"
    unfolding history_of_def event_key_def by (intro filter_cong) auto
  moreover have "filter (\<lambda>e. ev_source_table e = table \<and> ev_row_id e = i \<and> ev_seq e \<le> max_seq db0) later = []"
    using assms(3) by (auto simp: filter_empty_conv)
  ultimately show ?thesis by (simp add: row_events_def assms(2))
qed

lemma scope_predicate_in_scope:
  assumes "row_events table snapshot i db = history_of db0 (table, i)"
  shows "scope_predicate table scope snapshot db i = in_scope scope db0 (table, i)"
  using assms by (auto simp: scope_predicate_def in_scope_def split: Scope.splits)

lemma occurred_at_latest:
  assumes "row_events table snapshot i db = history_of db0 (table, i)" "history_of db0 (table, i) \<noteq> []"
  shows "occurred_at env table snapshot db i ts = Max (ev_occurred_at ` set (history_of db0 (table, i)))"
proof (cases "history_of db0 (table, i)")
  case (Cons e es)
  have "fold max (map ev_occurred_at es) (ev_occurred_at e) = Max (set (map ev_occurred_at (e # es)))"
    by (simp only: list.map Max.set_eq_fold)
  then show ?thesis using assms(1) Cons by (simp add: occurred_at_def)
qed (use assms in simp)

lemma history_newest:
  assumes ok: "tbl_ok ev_seq (db_outbox db0)" and e: "e \<in> set (tbl_rows (db_outbox db0))"
  shows "ev_seq e = fold max (map ev_seq (history_of db0 (event_key e))) 0 \<longleftrightarrow> e = last (history_of db0 (event_key e))"
proof -
  let ?h = "history_of db0 (event_key e)"
  have h: "e \<in> set ?h" "set ?h \<subseteq> set (tbl_rows (db_outbox db0))" using e by (auto simp: history_of_def)
  have "sorted_wrt (<) (map ev_seq ?h)" "list_all (\<lambda>x. 0 < x) (map ev_seq ?h)"
    using ok h(2) by (auto simp: tbl_ok_def history_of_def list_all_iff intro: sorted_wrt_filter_map)
  then have m: "fold max (map ev_seq ?h) 0 = ev_seq (last ?h)"
    using h(1) by (subst fold_max_sorted) (auto simp: last_map)
  have "inj_on ev_seq (set (tbl_rows (db_outbox db0)))" using tbl_ok_distinct [OF ok] by (simp add: distinct_map)
  moreover have "last ?h \<in> set (tbl_rows (db_outbox db0))" using h by (metis empty_iff empty_set last_in_set subsetD)
  ultimately show ?thesis using e unfolding m by (metis inj_onD)
qed

lemma missing_rows_removed:
  assumes ok: "tbl_ok ev_seq (db_outbox db0)" and rows: "tbl_rows (db_outbox db) = tbl_rows (db_outbox db0) @ later"
    and later: "\<forall>e \<in> set later. max_seq db0 < ev_seq e"
    and same: "db_collection db = db_collection db0" "db_sealed db = db_sealed db0"
  shows "set (missing_rows env table scope (max_seq db0) db) =
     {(ev_occurred_at e, ev_row_id e, ev_payload e) | e. e = last (history_of db0 (event_key e)) \<and>
        ev_source_table e = table \<and> in_scope scope db0 (event_key e) \<and> removed_key db0 (event_key e)}"
    and "distinct (map (fst \<circ> snd) (missing_rows env table scope (max_seq db0) db))"
proof -
  note hist = row_events_history [OF ok rows later]
  let ?P = "\<lambda>e. ev_source_table e = table \<and> ev_seq e \<le> max_seq db0 \<and> ev_op e = ''delete'' \<and>
          ev_seq e = fold max (map ev_seq (row_events table (max_seq db0) (ev_row_id e) db)) 0 \<and>
          ev_row_id e \<notin> fst ` set (source_rows env table db) \<and>
          scope_predicate table scope (max_seq db0) db (ev_row_id e)"
  let ?E = "filter ?P (tbl_rows (db_outbox db))"
  have le: "e \<in> set (tbl_rows (db_outbox db0))" if "e \<in> set (tbl_rows (db_outbox db))" "ev_seq e \<le> max_seq db0" for e
    using that rows later by auto
  have held: "(ev_row_id e \<notin> fst ` set (source_rows env table db)) = (event_key e \<notin> set (held_keys (fst (event_key e)) db0))"
    if "ev_source_table e = table" for e
  proof -
    have "source_rows env table db = source_rows env table db0" using same by (simp add: source_rows_def)
    then show ?thesis using that by (force simp: held_keys_rows [of _ _ env] event_key_def)
  qed
  have key: "event_key e = (table, ev_row_id e)" if "ev_source_table e = table" for e
    using that by (simp add: event_key_def)
  have last: "last (history_of db0 k) \<in> set (tbl_rows (db_outbox db0)) \<and> event_key (last (history_of db0 k)) = k"
    if "history_of db0 k \<noteq> []" for k
    using last_in_set [OF that] by (auto simp: history_of_def)
  have small: "ev_seq e \<le> max_seq db0" if "e \<in> set (tbl_rows (db_outbox db0))" for e
  proof -
    have "e \<in> set (history_of db0 (event_key e))" using that by (simp add: history_of_def)
    then have "e \<in> set (row_events (ev_source_table e) (max_seq db0) (ev_row_id e) db)"
      using hist by (simp add: event_key_def)
    then show ?thesis by (simp add: row_events_def)
  qed
  have mem: "e \<in> set ?E \<longleftrightarrow> e = last (history_of db0 (event_key e)) \<and> ev_source_table e = table \<and>
      in_scope scope db0 (event_key e) \<and> removed_key db0 (event_key e)" for e
  proof (cases "ev_source_table e = table")
    case True
    show ?thesis
    proof
      assume e: "e \<in> set ?E"
      then have e0: "e \<in> set (tbl_rows (db_outbox db0))" using le by simp
      have ne: "history_of db0 (event_key e) \<noteq> []" using e0 by (auto simp: history_of_def filter_empty_conv)
      show "e = last (history_of db0 (event_key e)) \<and> ev_source_table e = table \<and>
          in_scope scope db0 (event_key e) \<and> removed_key db0 (event_key e)"
        using e True history_newest [OF ok e0] held [OF True] ne
        by (simp add: hist scope_predicate_in_scope [OF hist] key [OF True, symmetric] removed_key_def)
    next
      assume r: "e = last (history_of db0 (event_key e)) \<and> ev_source_table e = table \<and>
          in_scope scope db0 (event_key e) \<and> removed_key db0 (event_key e)"
      then have e0: "e \<in> set (tbl_rows (db_outbox db0))" using last [of "event_key e"] by (auto simp: removed_key_def)
      moreover have "ev_op e = ''delete''" using r unfolding removed_key_def by metis
      ultimately show "e \<in> set ?E"
        using r True history_newest [OF ok e0] held [OF True] small [OF e0] rows
        by (simp add: hist scope_predicate_in_scope [OF hist] key [OF True, symmetric] removed_key_def)
    qed
  qed simp
  show "set (missing_rows env table scope (max_seq db0) db) =
     {(ev_occurred_at e, ev_row_id e, ev_payload e) | e. e = last (history_of db0 (event_key e)) \<and>
        ev_source_table e = table \<and> in_scope scope db0 (event_key e) \<and> removed_key db0 (event_key e)}"
  proof -
    have "set ?E = {e. e = last (history_of db0 (event_key e)) \<and> ev_source_table e = table \<and>
        in_scope scope db0 (event_key e) \<and> removed_key db0 (event_key e)}"
      using mem by blast
    moreover have "set (sort_key ev_row_id ?E) = set ?E" by simp
    ultimately show ?thesis
      unfolding missing_rows_def set_map by (simp only: setcompr_eq_image)
  qed
  have "inj_on ev_row_id (set ?E)"
  proof (rule inj_onI)
    fix a b assume ab: "a \<in> set ?E" "b \<in> set ?E" "ev_row_id a = ev_row_id b"
    have a: "a = last (history_of db0 (event_key a))" "ev_source_table a = table" using mem [of a] ab(1) by blast+
    have b: "b = last (history_of db0 (event_key b))" "ev_source_table b = table" using mem [of b] ab(2) by blast+
    have "event_key a = event_key b" using a(2) b(2) ab(3) by (simp add: event_key_def)
    then show "a = b" using a(1) b(1) by simp
  qed
  moreover have "distinct ?E"
  proof -
    have "?E = filter ?P (tbl_rows (db_outbox db0))" using later by (auto simp: rows filter_empty_conv)
    moreover have "distinct (tbl_rows (db_outbox db0))" using tbl_ok_distinct [OF ok] by (simp add: distinct_map)
    ultimately show ?thesis by simp
  qed
  ultimately show "distinct (map (fst \<circ> snd) (missing_rows env table scope (max_seq db0) db))"
    by (simp add: missing_rows_def comp_def distinct_map)
qed

lemma reemits_append:
  assumes "reemits scope db [t] es" "reemits scope db [u] fs" "t \<noteq> u"
  shows "reemits scope db [t, u] (es @ fs)"
proof -
  define i1 d1 where "i1 = filter (\<lambda>e. ev_op e = ''insert'') es" and "d1 = filter (\<lambda>e. ev_op e \<noteq> ''insert'') es"
  define i2 d2 where "i2 = filter (\<lambda>e. ev_op e = ''insert'') fs" and "d2 = filter (\<lambda>e. ev_op e \<noteq> ''insert'') fs"
  note a = assms(1) [unfolded reemits_def Let_def, folded i1_def d1_def]
    and b = assms(2) [unfolded reemits_def Let_def, folded i2_def d2_def]
  have "\<forall>k \<in> event_key ` set d1. fst k = t" "\<forall>k \<in> event_key ` set d2. fst k = u" using a b by auto
  then have "event_key ` set d1 \<inter> event_key ` set d2 = {}" using assms(3) by (metis disjoint_iff)
  show ?thesis
  proof (rule reemitsI [where ins = "i1 @ i2" and del = "d1 @ d2"])
    show "map event_key (i1 @ i2) = filter (in_scope scope db) (concat (map (\<lambda>t. held_keys t db) [t, u]))"
      using a b by simp
    show "distinct (map event_key (d1 @ d2))" using a b \<open>_ \<inter> _ = {}\<close> by simp
    have "event_key ` set (d1 @ d2) = event_key ` set d1 \<union> event_key ` set d2" by auto
    also have "\<dots> = {k. fst k \<in> set [t, u] \<and> scope \<noteq> Scope_Collection \<and> in_scope scope db k \<and> removed_key db k}"
      using a b by auto
    finally show "event_key ` set (d1 @ d2) =
      {k. fst k \<in> set [t, u] \<and> scope \<noteq> Scope_Collection \<and> in_scope scope db k \<and> removed_key db k}" .
    show "filter (\<lambda>e. ev_op e = ''insert'') (es @ fs) = i1 @ i2" "filter (\<lambda>e. ev_op e \<noteq> ''insert'') (es @ fs) = d1 @ d2"
      by (simp_all add: i1_def i2_def d1_def d2_def)
    fix e
    show "ev_occurred_at e = Max (ev_occurred_at ` set (history_of db (event_key e)))"
      if "e \<in> set (i1 @ i2)" "history_of db (event_key e) \<noteq> []"
    proof (cases "e \<in> set i1")
      case True
      then show ?thesis using a that(2) by blast
    next
      case False
      then have "e \<in> set i2" using that(1) by simp
      then show ?thesis using b that(2) by blast
    qed
    show "ev_op e = ''delete'' \<and> ev_occurred_at e = ev_occurred_at (last (history_of db (event_key e))) \<and>
        ev_payload e = ev_payload (last (history_of db (event_key e)))" if "e \<in> set (d1 @ d2)"
    proof (cases "e \<in> set d1")
      case True
      then show ?thesis using a by blast
    next
      case False
      then have "e \<in> set d2" using that by simp
      then show ?thesis using b by blast
    qed
  qed
qed

text \<open>The two statements of the run, against a fixed snapshot of the holdings.\<close>

lemma emit_table_run:
  assumes "ids_ok db0" "table \<in> set SOURCE_TABLES"
    and "db_collection db = db_collection db0" "db_sealed db = db_sealed db0"
    and rows: "tbl_rows (db_outbox db) = tbl_rows (db_outbox db0) @ later" "\<forall>e \<in> set later. snapshot < ev_seq e"
    and snapshot: "snapshot = max_seq db0" "snapshot \<le> tbl_seq (db_outbox db)"
  shows "\<exists>ob new. emit_table env scope snapshot table db = (Inr (length new), db\<lparr>db_outbox := ob\<rparr>) \<and>
     restates env db0 (source_as_str (provenance scope)) (db_outbox db) ob new \<and>
     (tbl_ok ev_seq (db_outbox db) \<longrightarrow> tbl_ok ev_seq ob) \<and> reemits scope db0 [table] new \<and>
     (scope = Scope_Collection \<longrightarrow> map event_key new = map (\<lambda>(i, _, _). (table, i)) (source_rows env table db0))"
proof -
  have ok0: "tbl_ok ev_seq (db_outbox db0)" using assms(1) by (simp add: ids_ok_def)
  let ?src = "source_as_str (provenance scope)"
  have src: "source_rows env table db' = source_rows env table db0"
    if "db_collection db' = db_collection db0" "db_sealed db' = db_sealed db0" for db'
    using that by (simp add: source_rows_def)
  define cur where "cur = current_rows env table scope snapshot db"
  let ?ob1 = "append_events ?src table ''insert'' cur (db_outbox db)"
  let ?new1 = "new_events ?src table ''insert'' cur (tbl_seq (db_outbox db))"
  define db1 where "db1 = db\<lparr>db_outbox := ?ob1\<rparr>"
  have 1: "emit_current_rows env table scope (provenance scope) snapshot db = (Inr (length cur), db1)"
    by (simp add: emit_current_rows_def cur_def db1_def Let_def)
  have r1: "restates env db0 ?src (db_outbox db) ?ob1 ?new1"
    using source_rows_holdings(1) [OF assms(1,2)] src [OF assms(3,4)]
    by (intro restates_append) (auto simp: cur_def current_rows_def)
  have k1: "map event_key ?new1 = map (\<lambda>(i, _, _). (table, i)) (source_rows env table db0)" if "scope = Scope_Collection"
    using that src [OF assms(3,4)]
    by (simp add: new_events_keys cur_def current_rows_def scope_predicate_def case_prod_unfold comp_def)
  have l1: "length ?new1 = length cur" by (simp add: new_events_def)
  note hist = row_events_history [OF ok0 rows(1) rows(2) [unfolded snapshot(1)], folded snapshot(1)]
  have cur: "map (\<lambda>(t, i, p). (table, i)) cur = filter (in_scope scope db0) (held_keys table db0)"
    using src [OF assms(3,4)]
    by (simp add: cur_def current_rows_def held_keys_rows [of _ _ env] filter_map comp_def case_prod_unfold
        scope_predicate_in_scope [OF hist])
  have dated: "ev_occurred_at e = Max (ev_occurred_at ` set (history_of db0 (event_key e)))"
    if e: "e \<in> set ?new1" and ne: "history_of db0 (event_key e) \<noteq> []" for e
  proof -
    from new_events_in [OF e] have k: "event_key e = (table, ev_row_id e)"
      and "(ev_occurred_at e, ev_row_id e, ev_payload e) \<in> set cur" by (simp_all add: event_key_def)
    then obtain ts where "ev_occurred_at e = occurred_at env table snapshot db (ev_row_id e) ts"
      by (auto simp: cur_def current_rows_def)
    then show ?thesis using occurred_at_latest [OF hist] ne by (simp add: k)
  qed
  have ops1: "filter (\<lambda>e. ev_op e = ''insert'') ?new1 = ?new1" "filter (\<lambda>e. ev_op e \<noteq> ''insert'') ?new1 = []"
    by (auto simp: filter_empty_conv dest!: new_events_in intro!: filter_True)
  show ?thesis
  proof (cases "scope = Scope_Collection")
    case True
    have "reemits scope db0 [table] ?new1"
      by (rule reemitsI [OF ops1]) (use True dated in \<open>simp_all add: new_events_keys cur\<close>)
    then show ?thesis using True 1 r1 k1 l1
      by (intro exI [of _ ?ob1] exI [of _ ?new1]) (simp add: emit_table_def bind_act_def ret_def db1_def append_events_ok)
  next
    case False
    define gone where "gone = missing_rows env table scope snapshot db1"
    let ?ob2 = "append_events ?src table ''delete'' gone ?ob1"
    let ?new2 = "new_events ?src table ''delete'' gone (tbl_seq ?ob1)"
    have 2: "emit_missing_rows env table scope (provenance scope) snapshot db1 = (Inr (length gone), db\<lparr>db_outbox := ?ob2\<rparr>)"
      by (simp add: emit_missing_rows_def gone_def db1_def Let_def)
    have "restates env db0 ?src ?ob1 ?ob2 ?new2"
      using source_rows_holdings(2) [OF assms(1,2)] src [of db1] assms(3,4)
      by (intro restates_append) (auto simp: gone_def missing_rows_def db1_def)
    then have "restates env db0 ?src (db_outbox db) ?ob2 (?new1 @ ?new2)" using r1 restates_trans by blast
    moreover have "length (?new1 @ ?new2) = length cur + length gone" by (simp add: new_events_def)
    moreover have "reemits scope db0 [table] (?new1 @ ?new2)"
    proof -
      have later1: "tbl_rows (db_outbox db1) = tbl_rows (db_outbox db0) @ later @ ?new1"
        by (simp add: db1_def append_events_props rows(1))
      have "ev_seq e > snapshot" if "e \<in> set ?new1" for e
        using that snapshot(2) by (auto simp: new_events_def enumerate_eq_zip dest!: set_zip_leftD)
      then have later2: "\<forall>e \<in> set (later @ ?new1). max_seq db0 < ev_seq e" using rows(2) snapshot(1) by auto
      have same: "db_collection db1 = db_collection db0" "db_sealed db1 = db_sealed db0"
        using assms(3,4) by (simp_all add: db1_def)
      note gone = missing_rows_removed [OF ok0 later1 later2 same, of env table scope, folded snapshot(1), folded gone_def]
      have ops2: "filter (\<lambda>e. ev_op e = ''insert'') ?new2 = []" "filter (\<lambda>e. ev_op e \<noteq> ''insert'') ?new2 = ?new2"
        by (auto simp: filter_empty_conv dest!: new_events_in intro!: filter_True)
      have keys2: "map event_key ?new2 = map (Pair table) (map (fst \<circ> snd) gone)"
        by (simp add: new_events_keys case_prod_unfold)
      then have "distinct (map event_key ?new2)" using gone(2) by (simp add: distinct_map inj_on_def)
      moreover have "event_key ` set ?new2 = {k. fst k = table \<and> in_scope scope db0 k \<and> removed_key db0 k}"
      proof -
        have last: "event_key (last (history_of db0 k)) = k" if "removed_key db0 k" for k
          using that last_in_set [of "history_of db0 k"] by (auto simp: history_of_def removed_key_def)
        have "event_key ` set ?new2 = Pair table ` (fst \<circ> snd) ` set gone"
          using arg_cong [OF keys2, of set] by (simp add: image_image)
        also have "\<dots> = {event_key e | e. e = last (history_of db0 (event_key e)) \<and>
            ev_source_table e = table \<and> in_scope scope db0 (event_key e) \<and> removed_key db0 (event_key e)}"
          unfolding gone(1) by (force simp: event_key_def)
        also have "\<dots> = {k. fst k = table \<and> in_scope scope db0 k \<and> removed_key db0 k}"
        proof (intro subset_antisym subsetI)
          fix k assume "k \<in> {k. fst k = table \<and> in_scope scope db0 k \<and> removed_key db0 k}"
          then have k: "fst k = table" "in_scope scope db0 k" "removed_key db0 k" by auto
          then have "ev_source_table (last (history_of db0 k)) = table"
            using last [OF k(3)] by (metis event_key_def fst_conv)
          then show "k \<in> {event_key e | e. e = last (history_of db0 (event_key e)) \<and>
            ev_source_table e = table \<and> in_scope scope db0 (event_key e) \<and> removed_key db0 (event_key e)}"
            using k last [OF k(3)] by (intro CollectI exI [of _ "last (history_of db0 k)"]) simp
        qed (auto simp: event_key_def)
        finally show ?thesis .
      qed
      moreover have "ev_op e = ''delete'' \<and> ev_occurred_at e = ev_occurred_at (last (history_of db0 (event_key e))) \<and>
         ev_payload e = ev_payload (last (history_of db0 (event_key e)))" if e: "e \<in> set ?new2" for e
      proof -
        from new_events_in [OF e] have k: "event_key e = (table, ev_row_id e)" "ev_op e = ''delete''"
          and "(ev_occurred_at e, ev_row_id e, ev_payload e) \<in> set gone" by (simp_all add: event_key_def)
        then obtain x where "x = last (history_of db0 (event_key x))" "ev_source_table x = table"
          "ev_occurred_at e = ev_occurred_at x" "ev_row_id e = ev_row_id x" "ev_payload e = ev_payload x"
          unfolding gone(1) by blast
        then show ?thesis using k by (metis event_key_def)
      qed
      moreover have "filter (\<lambda>e. ev_op e = ''insert'') (?new1 @ ?new2) = ?new1"
        "filter (\<lambda>e. ev_op e \<noteq> ''insert'') (?new1 @ ?new2) = ?new2"
        unfolding filter_append ops1 ops2 by simp_all
      ultimately show ?thesis
        using False dated by (intro reemitsI [where ins = ?new1 and del = ?new2]) (simp_all add: new_events_keys cur)
    qed
    ultimately show ?thesis using 1 2 False
      by (intro exI [of _ ?ob2] exI [of _ "?new1 @ ?new2"])
        (simp add: emit_table_def bind_act_def ret_def append_events_ok)
  qed
qed

definition refused :: "Scope \<Rightarrow> bool \<Rightarrow> tdb \<Rightarrow> bool" where
  "refused scope force db \<longleftrightarrow> scope = Scope_Collection \<and> \<not> force \<and> last_backfill db \<noteq> None"

text \<open>The ledger row of a run that appended \<open>new\<close>, the state after it, and what it reports.\<close>

definition ledger_row :: "'j env \<Rightarrow> Scope \<Rightarrow> bool \<Rightarrow> tdb \<Rightarrow> Event list \<Rightarrow> EmitRun" where
  "ledger_row env scope force db new =
     \<lparr>er_id = next_id (db_emit_log db), er_scope = scope_label scope,
      er_source = source_as_str (provenance scope), er_completed_at = env_sql_now env (db_ticks db),
      er_rows_emitted = int (length new),
      er_seq_first = (if new = [] then None else Some (ev_seq (hd new))),
      er_seq_last = (if new = [] then None else Some (ev_seq (last new))), er_forced = force\<rparr>"

definition emitted ::
  "'j env \<Rightarrow> Scope \<Rightarrow> bool \<Rightarrow> tdb \<Rightarrow> Event list \<Rightarrow> Emitted \<Rightarrow> tdb \<Rightarrow> bool" where
  "emitted env scope force db new r db' \<longleftrightarrow>
     restates env db (source_as_str (provenance scope)) (db_outbox db) (db_outbox db') new \<and>
     reemits scope db SOURCE_TABLES new \<and>
     em_events r = length new \<and> sum_list (map snd (em_per_table r)) = length new \<and>
     em_seq_first r = er_seq_first (ledger_row env scope force db new) \<and>
     em_seq_last r = er_seq_last (ledger_row env scope force db new) \<and>
     db_emit_log db' = tbl_append (ledger_row env scope force db new) (db_emit_log db) \<and>
     db' = db\<lparr>db_outbox := db_outbox db', db_emit_log := db_emit_log db', db_ticks := Suc (db_ticks db)\<rparr>"

lemma emit_run:
  assumes ids: "ids_ok db" and ok: "validate scope = Inr ()" "\<not> refused scope force db"
  shows "\<exists>r db' new. emit env scope force db = (Inr r, db') \<and> emitted env scope force db new r db' \<and>
     tbl_ok ev_seq (db_outbox db') \<and>
     (scope = Scope_Collection \<longrightarrow> map event_key new =
        map (\<lambda>(i, _, _). (''collection'', i)) (source_rows env ''collection'' db) @
        map (\<lambda>(i, _, _). (''sealed_collection'', i)) (source_rows env ''sealed_collection'' db))"
proof -
  let ?src = "source_as_str (provenance scope)" and ?snap = "max_seq db"
  have t: "tbl_ok ev_seq (db_outbox db)" using ids by (simp add: ids_ok_def)
  have tables: "''collection'' \<in> set SOURCE_TABLES" "''sealed_collection'' \<in> set SOURCE_TABLES"
    by (simp_all add: SOURCE_TABLES_def)
  have snap: "?snap \<le> tbl_seq (db_outbox db)"
    using max_seq_last [OF t] t last_in_set [of "tbl_rows (db_outbox db)"] by (auto simp: tbl_ok_def list_all_iff)
  obtain ob1 es where 1: "emit_table env scope ?snap ''collection'' db = (Inr (length es), db\<lparr>db_outbox := ob1\<rparr>)"
      "restates env db ?src (db_outbox db) ob1 es" "tbl_ok ev_seq ob1" and re1: "reemits scope db [''collection''] es" and c1:
      "scope = Scope_Collection \<Longrightarrow> map event_key es = map (\<lambda>(i, _, _). (''collection'', i)) (source_rows env ''collection'' db)"
    using emit_table_run [OF ids tables(1), of db "[]" ?snap env scope] t snap by auto
  have later: "tbl_rows ob1 = tbl_rows (db_outbox db) @ es" "\<forall>e \<in> set es. ?snap < ev_seq e" "?snap \<le> tbl_seq ob1"
  proof -
    have "ev_seq ` set es = set (map (\<lambda>i. tbl_seq (db_outbox db) + int i) [1..<Suc (length es)])"
      using 1(2) unfolding restates_def by (metis list.set_map)
    moreover have "ev_seq e \<in> ev_seq ` set es" if "e \<in> set es" for e using that by (rule imageI)
    ultimately have "tbl_seq (db_outbox db) < ev_seq e" if "e \<in> set es" for e
      using that by (fastforce simp del: upt_Suc)
    then show "\<forall>e \<in> set es. ?snap < ev_seq e" using snap by force
    show "tbl_rows ob1 = tbl_rows (db_outbox db) @ es" "?snap \<le> tbl_seq ob1" using 1(2) snap by (auto simp: restates_def)
  qed
  obtain ob2 fs where 2: "emit_table env scope ?snap ''sealed_collection'' (db\<lparr>db_outbox := ob1\<rparr>) =
        (Inr (length fs), db\<lparr>db_outbox := ob2\<rparr>)"
      "restates env db ?src ob1 ob2 fs" "tbl_ok ev_seq ob2" and re2: "reemits scope db [''sealed_collection''] fs" and c2:
      "scope = Scope_Collection \<Longrightarrow> map event_key fs =
         map (\<lambda>(i, _, _). (''sealed_collection'', i)) (source_rows env ''sealed_collection'' db)"
    using emit_table_run [OF ids tables(2), of "db\<lparr>db_outbox := ob1\<rparr>" es ?snap env scope] 1(3) later by auto
  define new where "new = es @ fs"
  have r: "restates env db ?src (db_outbox db) ob2 new" using restates_trans [OF 1(2) 2(2)] by (simp add: new_def)
  let ?final = "if length es + length fs = 0 then None else Some (max_seq (db\<lparr>db_outbox := ob2\<rparr>))"
  let ?first = "map_option (\<lambda>l. l - int (length es + length fs) + 1) ?final"
  have seqs: "map ev_seq new = map (\<lambda>i. tbl_seq (db_outbox db) + int i) [1..<Suc (length new)]"
    and rows: "tbl_rows ob2 = tbl_rows (db_outbox db) @ new"
    using r by (simp_all add: restates_def)
  have ends: "ev_seq (hd new) = tbl_seq (db_outbox db) + 1"
    "ev_seq (last new) = tbl_seq (db_outbox db) + int (length new)" if "new \<noteq> []"
  proof -
    have "ev_seq (new ! i) = tbl_seq (db_outbox db) + int (Suc i)" if "i < length new" for i
    proof -
      have "map ev_seq new ! i = map (\<lambda>i. tbl_seq (db_outbox db) + int i) [1..<Suc (length new)] ! i" by (simp only: seqs)
      then show ?thesis using that by (simp del: upt_Suc)
    qed
    from this [of 0] this [of "length new - 1"] that
    show "ev_seq (hd new) = tbl_seq (db_outbox db) + 1" "ev_seq (last new) = tbl_seq (db_outbox db) + int (length new)"
      by (simp_all add: hd_conv_nth last_conv_nth)
  qed
  have final: "?final = (if new = [] then None else Some (ev_seq (last new)))"
    using max_seq_last [of "db\<lparr>db_outbox := ob2\<rparr>"] 2(3) rows by (auto simp: new_def)
  have first: "?first = (if new = [] then None else Some (ev_seq (hd new)))"
    unfolding final using ends by (auto simp: new_def)
  let ?r = "\<lparr>em_scope = scope_label scope, em_source = provenance scope, em_events = length es + length fs,
     em_seq_first = ?first, em_seq_last = ?final,
     em_per_table = [(''collection'', length es), (''sealed_collection'', length fs)]\<rparr>"
  let ?run = "\<lparr>er_id = next_id (db_emit_log db), er_scope = scope_label scope, er_source = ?src,
     er_completed_at = env_sql_now env (db_ticks db), er_rows_emitted = int (length es + length fs),
     er_seq_first = ?first, er_seq_last = ?final, er_forced = force\<rparr>"
  let ?db' = "db\<lparr>db_outbox := ob2, db_emit_log := tbl_append ?run (db_emit_log db), db_ticks := Suc (db_ticks db)\<rparr>"
  have guard: "(if scope = Scope_Collection \<and> \<not> force then last_backfill db else None) = None"
    using ok(2) by (auto simp: refused_def)
  have "emit env scope force db = (Inr ?r, ?db')"
    unfolding emit_def bind_act_def lift_result_def ok(1) sum.case ret_def query_def prod.case guard option.case
      transaction_def 1(1) 2(1) Let_def insert_run_def
    by simp
  moreover have "emitted env scope force db new ?r ?db'"
    unfolding emitted_def ledger_row_def
    using r first final reemits_append [OF re1 re2] by (simp add: new_def SOURCE_TABLES_def)
  moreover have "scope = Scope_Collection \<Longrightarrow> map event_key new =
        map (\<lambda>(i, _, _). (''collection'', i)) (source_rows env ''collection'' db) @
        map (\<lambda>(i, _, _). (''sealed_collection'', i)) (source_rows env ''sealed_collection'' db)"
    using c1 c2 by (simp add: new_def)
  ultimately show ?thesis using 2(3) by (intro exI [of _ ?r] exI [of _ ?db'] exI [of _ new]) simp
qed

lemma emit_refusal:
  "validate scope = Inl e \<Longrightarrow> emit env scope force db = (Inl e, db)"
  "validate scope = Inr () \<Longrightarrow> refused scope force db \<Longrightarrow>
   emit env scope force db = (Inl (Conflict (backfilled_message (the (last_backfill db)))), db)"
  by (auto simp: emit_def bind_act_def lift_result_def fail_def ret_def query_def refused_def)

text \<open>While every row has an event, re-emission introduces no new date.\<close>

definition all_logged :: "'j env \<Rightarrow> int \<Rightarrow> tdb \<Rightarrow> bool" where
  "all_logged env snapshot db \<longleftrightarrow> (\<forall>table \<in> set SOURCE_TABLES. \<forall>r \<in> set (source_rows env table db).
     row_events table snapshot (fst r) db \<noteq> [])"

definition dates :: "tdb \<Rightarrow> string set" where
  "dates db = ev_occurred_at ` set (tbl_rows (db_outbox db))"

lemma dated_dates: "dated env db \<longleftrightarrow> dates db \<subseteq> env_sql_now env ` {..< db_ticks db}"
  by (auto simp: dated_def dates_def image_iff subset_iff Bex_def)

lemma fold_max_in: "fold max us (t :: 'b :: linorder) \<in> insert t (set us)"
proof (induction us arbitrary: t)
  case (Cons u us)
  show ?case using Cons [of "max u t"] by (cases "u \<le> t") (auto simp: max_def)
qed simp

lemma occurred_at_in:
  assumes "row_events table snapshot i db \<noteq> []"
  shows "occurred_at env table snapshot db i ts \<in> dates db"
proof -
  obtain e es where e: "row_events table snapshot i db = e # es" using assms by (cases "row_events table snapshot i db") auto
  have "set (row_events table snapshot i db) \<subseteq> set (tbl_rows (db_outbox db))" by (auto simp: row_events_def)
  then have "insert (ev_occurred_at e) (set (map ev_occurred_at es)) \<subseteq> dates db" by (auto simp: e dates_def)
  moreover have "occurred_at env table snapshot db i ts = fold max (map ev_occurred_at es) (ev_occurred_at e)"
    by (simp add: occurred_at_def e)
  ultimately show ?thesis using fold_max_in [of "map ev_occurred_at es" "ev_occurred_at e"] by auto
qed

lemma dates_append:
  "dates (db\<lparr>db_outbox := append_events src table op rows (db_outbox db)\<rparr>) = dates db \<union> fst ` set rows"
proof -
  have "map ev_occurred_at (new_events src table op rows seq) = map fst rows" for seq
    by (rule nth_equalityI) (auto simp: new_events_def nth_enumerate_eq split: prod.splits)
  then have "set (map ev_occurred_at (new_events src table op rows seq)) = set (map fst rows)" for seq by (rule arg_cong)
  then show ?thesis by (simp add: dates_def append_events_props image_Un)
qed

lemma all_logged_append:
  "all_logged env snapshot db \<Longrightarrow>
   all_logged env snapshot (db\<lparr>db_outbox := append_events src table op rows (db_outbox db)\<rparr>)"
  by (auto simp: all_logged_def source_rows_def row_events_def append_events_props)

lemma emit_table_dates:
  assumes "all_logged env snapshot db" "table \<in> set SOURCE_TABLES" "emit_table env scope snapshot table db = (r, db')"
  shows "dates db' = dates db \<and> all_logged env snapshot db'"
proof -
  define cur where "cur = current_rows env table scope snapshot db"
  define db1 where "db1 = db\<lparr>db_outbox := append_events (source_as_str (provenance scope)) table ''insert'' cur (db_outbox db)\<rparr>"
  have "fst ` set cur \<subseteq> dates db"
    using assms(1,2) by (force simp: cur_def current_rows_def all_logged_def intro: occurred_at_in)
  then have 1: "dates db1 = dates db" "all_logged env snapshot db1"
    unfolding db1_def using all_logged_append [OF assms(1)] by (auto simp: dates_append)
  have e1: "emit_current_rows env table scope (provenance scope) snapshot db = (Inr (length cur), db1)"
    by (simp add: emit_current_rows_def cur_def db1_def Let_def)
  show ?thesis
  proof (cases "scope = Scope_Collection")
    case True
    then show ?thesis using assms(3) 1 e1 by (simp add: emit_table_def bind_act_def ret_def)
  next
    case False
    define gone where "gone = missing_rows env table scope snapshot db1"
    define db2 where "db2 = db1\<lparr>db_outbox := append_events (source_as_str (provenance scope)) table ''delete'' gone (db_outbox db1)\<rparr>"
    have e2: "emit_missing_rows env table scope (provenance scope) snapshot db1 = (Inr (length gone), db2)"
      by (simp add: emit_missing_rows_def gone_def db2_def Let_def)
    have "db' = db2" using assms(3) False by (simp add: emit_table_def bind_act_def e1 e2 ret_def)
    moreover have "fst ` set gone \<subseteq> dates db1" by (auto simp: gone_def missing_rows_def dates_def)
    ultimately show ?thesis using 1 all_logged_append [OF 1(2)] by (auto simp: db2_def dates_append)
  qed
qed

lemma emit_dates:
  assumes "all_logged env (max_seq db) db" "emit env scope force db = (Inr r, db')"
  shows "dates db' = dates db"
proof -
  obtain n db1 where 1: "emit_table env scope (max_seq db) ''collection'' db = (n, db1)" by force
  obtain m db2 where 2: "emit_table env scope (max_seq db) ''sealed_collection'' db1 = (m, db2)" by force
  have "dates db2 = dates db"
    using emit_table_dates [OF assms(1) _ 1] emit_table_dates [OF _ _ 2] by (auto simp: SOURCE_TABLES_def)
  moreover have "db_outbox db' = db_outbox db2"
    using assms(2) 1 2
    by (auto simp: emit_def bind_act_def lift_result_def ret_def fail_def query_def transaction_def insert_run_def
        Let_def split: sum.splits option.splits if_splits)
  ultimately show ?thesis by (simp add: dates_def)
qed

text \<open>A tenant in step has an event for every row.\<close>

lemma in_sync_all_logged:
  assumes "in_sync env db"
  shows "all_logged env (max_seq db) db"
  unfolding all_logged_def
proof (intro ballI)
  fix table r assume t: "table \<in> set SOURCE_TABLES" and r: "r \<in> set (source_rows env table db)"
  obtain i ts p where rr: "r = (i, ts, p)" by (cases r) auto
  have ids: "ids_ok db" using assms by (simp add: in_sync_def)
  have "holdings_of env db (table, i) \<noteq> None"
    using source_rows_holdings(1) [OF ids t, of i ts p env] r rr by simp
  then have some: "project env (tbl_rows (db_outbox db)) (table, i) \<noteq> None" using assms by (simp add: in_sync_def)
  have "(table, i) \<in> event_key ` set (tbl_rows (db_outbox db))"
  proof (rule ccontr)
    assume "(table, i) \<notin> event_key ` set (tbl_rows (db_outbox db))"
    then have "project env (tbl_rows (db_outbox db)) (table, i) = None" by (rule project_absent)
    with some show False by simp
  qed
  then obtain e where e: "e \<in> set (tbl_rows (db_outbox db))" "event_key e = (table, i)" by force
  have ok: "tbl_ok ev_seq (db_outbox db)" using ids by (simp add: ids_ok_def)
  have "ev_seq e \<le> ev_seq (last (tbl_rows (db_outbox db)))"
  proof -
    obtain k where k: "k < length (tbl_rows (db_outbox db))" "e = tbl_rows (db_outbox db) ! k"
      using e(1) by (auto simp: in_set_conv_nth)
    have "sorted_wrt (<) (map ev_seq (tbl_rows (db_outbox db)))" using ok by (simp add: tbl_ok_def)
    then have "k < length (tbl_rows (db_outbox db)) - 1 \<Longrightarrow>
        ev_seq (tbl_rows (db_outbox db) ! k) < ev_seq (tbl_rows (db_outbox db) ! (length (tbl_rows (db_outbox db)) - 1))"
      using k by (simp add: sorted_wrt_iff_nth_less)
    moreover have "last (tbl_rows (db_outbox db)) = tbl_rows (db_outbox db) ! (length (tbl_rows (db_outbox db)) - 1)"
      using k(1) by (intro last_conv_nth) auto
    moreover have "k < length (tbl_rows (db_outbox db)) - 1 \<or> k = length (tbl_rows (db_outbox db)) - 1"
      using k(1) by linarith
    ultimately show ?thesis using k(2) by auto
  qed
  then have "e \<in> set (row_events table (max_seq db) i db)"
    using e max_seq_last [OF ok] by (auto simp: row_events_def event_key_def)
  then show "row_events table (max_seq db) (fst r) db \<noteq> []" using rr by force
qed

lemma emitted_in_sync:
  assumes "in_sync env db" "emit env scope force db = (Inr r, db')" "emitted env scope force db new r db'"
    and "tbl_ok ev_seq (db_outbox db')"
  shows "in_sync env db'"
proof -
  have ids: "ids_ok db" and d: "dated env db" and p: "project env (tbl_rows (db_outbox db)) = holdings_of env db"
    using assms(1) by (simp_all add: in_sync_def)
  have rows: "tbl_rows (db_outbox db') = tbl_rows (db_outbox db) @ new"
    and out: "\<forall>e \<in> set new. outcome env e = holdings_of env db (event_key e)"
    using assms(3) by (auto simp: emitted_def restates_def)
  let ?log = "ledger_row env scope force db new"
  have log: "db_emit_log db' = tbl_append ?log (db_emit_log db)" "er_id ?log = next_id (db_emit_log db)"
    using assms(3) by (simp_all add: emitted_def ledger_row_def)
  have db': "db' = db\<lparr>db_outbox := db_outbox db', db_emit_log := db_emit_log db', db_ticks := Suc (db_ticks db)\<rparr>"
    using assms(3) unfolding emitted_def by blast
  have same: "db_collection db' = db_collection db" "db_sealed db' = db_sealed db" "db_ticks db' = Suc (db_ticks db)"
    by (subst db', simp)+
  have "ids_ok db'"
    using ids assms(4) log by (subst db') (auto simp: ids_ok_def)
  moreover have "project env (tbl_rows (db_outbox db')) = holdings_of env db'"
  proof -
    have "inj_on event_order (set (tbl_rows (db_outbox db) @ new))"
      using tbl_ok_distinct [OF assms(4)] unfolding rows by (rule event_order_inj)
    then show ?thesis
      unfolding rows using project_append_consistent [of "tbl_rows (db_outbox db)" new env] out p
      by (simp add: holdings_of_cong [OF same(1,2)])
  qed
  moreover have "dated env db'"
  proof -
    have "dates db' = dates db" using emit_dates [OF in_sync_all_logged [OF assms(1)] assms(2)] .
    moreover have "env_sql_now env ` {..< db_ticks db} \<subseteq> env_sql_now env ` {..< db_ticks db'}"
      by (rule image_mono) (auto simp: same(3))
    ultimately show ?thesis using d unfolding dated_dates by (metis order_trans)
  qed
  ultimately show ?thesis by (simp add: in_sync_def)
qed

lemma emit_keeps_sync: "always (keeps_sync env) (emit env scope force)"
proof (rule alwaysI)
  fix db q db' assume e: "emit env scope force db = (q, db')"
  show "keeps_sync env db db'"
  proof (cases "validate scope = Inr () \<and> \<not> refused scope force db")
    case False
    then have "db' = db" using e emit_refusal(1) [of scope _ env force db] emit_refusal(2) [of scope force db env]
      by (cases "validate scope") auto
    then show ?thesis by (simp add: sync.R_refl)
  next
    case True
    have "db_ticks db \<le> db_ticks db'"
      using e by (auto simp: emit_def bind_act_def lift_result_def ret_def fail_def query_def transaction_def
          insert_run_def emit_table_def emit_current_rows_def emit_missing_rows_def rollback_def
          Let_def split: sum.splits option.splits if_splits)
    moreover have "in_sync env db'" if s: "in_sync env db"
    proof -
      have "ids_ok db" using s by (simp add: in_sync_def)
      then obtain r new where "q = Inr r" "emitted env scope force db new r db'" "tbl_ok ev_seq (db_outbox db')"
        using emit_run [of db scope force env] True e by auto
      then show ?thesis using emitted_in_sync [OF s] e by blast
    qed
    ultimately show ?thesis by (simp add: keeps_sync_def)
  qed
qed

lemma schema_emit: "always keeps_schema (emit env scope force)"
proof (rule alwaysI)
  fix db q db' assume e: "emit env scope force db = (q, db')"
  show "keeps_schema db db'"
    unfolding keeps_schema_def
  proof
    assume ok: "schema_ok db"
    then have ids: "ids_ok db" by (simp add: schema_ok_def)
    show "schema_ok db'"
    proof (cases "validate scope = Inr () \<and> \<not> refused scope force db")
      case False
      then have "db' = db" using e emit_refusal(1) [of scope _ env force db] emit_refusal(2) [of scope force db env]
        by (cases "validate scope") auto
      then show ?thesis using ok by simp
    next
      case True
      then obtain r new where r: "emitted env scope force db new r db'" "tbl_ok ev_seq (db_outbox db')"
        using emit_run [OF ids, of scope force env] e by auto
      have db': "db' = db\<lparr>db_outbox := db_outbox db', db_emit_log := db_emit_log db', db_ticks := Suc (db_ticks db)\<rparr>"
        and log: "db_emit_log db' = tbl_append (ledger_row env scope force db new) (db_emit_log db)"
        using r(1) unfolding emitted_def by blast+
      have same: "db_collection db' = db_collection db" "db_sealed db' = db_sealed db" "db_status_log db' = db_status_log db"
        "db_movement db' = db_movement db" "db_batches db' = db_batches db" "db_unresolved db' = db_unresolved db"
        "db_decks db' = db_decks db" "db_groups db' = db_groups db" "db_orders db' = db_orders db"
        "db_binders db' = db_binders db" "db_user_printings db' = db_user_printings db"
        "db_conditions db' = db_conditions db"
        by (subst db', simp)+
      have "tbl_ok er_id (db_emit_log db')"
        unfolding log using ids by (intro tbl_ok_append) (auto simp: ids_ok_def ledger_row_def)
      then have "ids_ok db'"
        using ids r(2) by (subst db') (simp add: ids_ok_def)
      moreover have "refs_ok db'"
        using ok by (intro refs_ok_frame [OF same(1,3-6,7,2,8-12)]) (simp add: schema_ok_def)
      ultimately show ?thesis by (simp add: schema_ok_def)
    qed
  qed
qed

lemma audit_emit: "always keeps_audit (emit env scope force)"
  by (rule keeps_audit_same [OF schema_emit])
    (auto simp: emit_def bind_act_def lift_result_def ret_def fail_def query_def transaction_def insert_run_def
      emit_table_def emit_current_rows_def emit_missing_rows_def rollback_def Let_def
      split: sum.split option.split)

section \<open>Properties\<close>

text \<open>
  C3. A run is all or nothing. It is refused, changing nothing, exactly for an invalid scope or for an
  unforced second backfill, with that error. Otherwise the scope was valid and the run appends exactly the
  events the scope calls for, numbered on from the last number ever given out: one insert for each held card
  and sealed lot the scope names, restating the whole row and dated by the latest event of its key, and,
  unless it is a backfill, one delete for each named key that is no longer held and whose last event removed
  it. All carry the provenance of the scope, and the ledger row and the report name that range and count.
\<close>

theorem emit_all_or_nothing:
  assumes "schema_ok db"
  shows "case emit env scope force db of
     (Inl e, db') \<Rightarrow> db' = db \<and> (validate scope = Inl e \<or>
        validate scope = Inr () \<and> refused scope force db \<and> e = Conflict (backfilled_message (the (last_backfill db))))
   | (Inr r, db') \<Rightarrow> validate scope = Inr () \<and> \<not> refused scope force db \<and> (\<exists>new. emitted env scope force db new r db')"
proof (cases "validate scope = Inr () \<and> \<not> refused scope force db")
  case True
  then obtain r db' new where "emit env scope force db = (Inr r, db')" "emitted env scope force db new r db'"
    using emit_run [of db scope force env] assms by (auto simp: schema_ok_def)
  then show ?thesis using True by (simp add: exI [of _ new])
next
  case False
  then show ?thesis
    using emit_refusal(1) [of scope _ env force db] emit_refusal(2) [of scope force db env]
    by (cases "validate scope") auto
qed

text \<open>
  C4. A backfill alone rebuilds the zone: reducing nothing but the events of one backfill run gives
  exactly what the tenant holds, cards and sealed lots, whatever the outbox held before.
\<close>

theorem backfill_rebuilds:
  assumes "schema_ok db" "emit env Scope_Collection force db = (Inr r, db')"
  shows "project env (drop (length (tbl_rows (db_outbox db))) (tbl_rows (db_outbox db'))) = holdings_of env db"
proof -
  have ids: "ids_ok db" using assms(1) by (simp add: schema_ok_def)
  have nr: "\<not> refused Scope_Collection force db"
    using emit_refusal(2) [of Scope_Collection force db env] assms(2) by auto
  obtain new where new: "emitted env Scope_Collection force db new r db'" "tbl_ok ev_seq (db_outbox db')"
      "map event_key new =
        map (\<lambda>(i, _, _). (''collection'', i)) (source_rows env ''collection'' db) @
        map (\<lambda>(i, _, _). (''sealed_collection'', i)) (source_rows env ''sealed_collection'' db)"
    using emit_run [OF ids _ nr, of env] assms(2) by auto
  have rows: "tbl_rows (db_outbox db') = tbl_rows (db_outbox db) @ new"
    and out: "\<And>e. e \<in> set new \<Longrightarrow> outcome env e = holdings_of env db (event_key e)"
    using new(1) by (auto simp: emitted_def restates_def)
  have inj: "inj_on event_order (set new)"
    using tbl_ok_distinct [OF new(2)] by (intro event_order_inj) (simp add: rows)
  have keys: "event_key ` set new =
      Pair ''collection'' ` fst ` set (source_rows env ''collection'' db) \<union>
      Pair ''sealed_collection'' ` fst ` set (source_rows env ''sealed_collection'' db)"
    using arg_cong [OF new(3), of set] by (auto simp: image_iff split: prod.splits) force+
  have "project env new k = holdings_of env db k" for k
  proof (cases "k \<in> event_key ` set new")
    case True
    then obtain e0 where "e0 \<in> set new" "event_key e0 = k" by auto
    with greatest_event [OF this(1)] obtain e where "e \<in> set new" "event_key e = k"
        "\<And>x. x \<in> set new \<Longrightarrow> event_key x = event_key e \<Longrightarrow> event_order x \<le> event_order e"
      by metis
    then show ?thesis using project_newest [OF inj, of e env] out by auto
  next
    case False
    obtain table i where k: "k = (table, i)" by (cases k)
    have "holdings_of env db k = None"
    proof (cases "table \<in> set SOURCE_TABLES")
      case True
      then show ?thesis
        using False source_rows_holdings(2) [OF ids True, of i env] unfolding keys k by (auto simp: SOURCE_TABLES_def)
    next
      case False
      then show ?thesis by (simp add: k holdings_of_def SOURCE_TABLES_def)
    qed
    then show ?thesis using False by (simp add: project_absent)
  qed
  then show ?thesis by (simp add: rows fun_eq_iff)
qed

text \<open>A tenant with one card, before its first backfill.\<close>

definition sample_held :: tdb where
  "sample_held = after (collection_add sample_env sample_copy) empty_db"

lemma sample_held_ok: "schema_ok sample_held"
  unfolding sample_held_def by (intro after_schema repo_rules schema_ok_empty)

lemma sample_held_rows:
  "map ce_id (tbl_rows (db_collection sample_held)) = [1]" "tbl_rows (db_sealed sample_held) = []"
  "tbl_rows (db_emit_log sample_held) = []" "tbl_seq (db_outbox sample_held) = 1"
  by (simp_all add: sample_held_def run_defs)

lemma sample_not_refused: "\<not> refused Scope_Collection False sample_held"
  by (simp add: refused_def last_backfill_def emit_runs_def sample_held_rows)

lemma sample_backfill:
  obtains r db' where "emit sample_env Scope_Collection False sample_held = (Inr r, db')" "em_events r = 1"
proof -
  have "ids_ok sample_held" using sample_held_ok by (simp add: schema_ok_def)
  then obtain r db' new where r: "emit sample_env Scope_Collection False sample_held = (Inr r, db')"
      "em_events r = length new"
      "map event_key new =
        map (\<lambda>(i, _, _). (''collection'', i)) (source_rows sample_env ''collection'' sample_held) @
        map (\<lambda>(i, _, _). (''sealed_collection'', i)) (source_rows sample_env ''sealed_collection'' sample_held)"
    using emit_run [OF _ _ sample_not_refused, of sample_env] by (auto simp: emitted_def)
  have "length (tbl_rows (db_collection sample_held)) = 1"
    using arg_cong [OF sample_held_rows(1), of length] by simp
  then have "length new = 1"
    using arg_cong [OF r(3), of length] by (simp add: source_rows_def sample_held_rows)
  then show thesis using r that by simp
qed

theorem project_order_and_repetition_witness:
  "\<exists>evs. evs = tbl_rows (db_outbox sample_held) \<and> length evs = 1 \<and>
     project sample_env evs = project sample_env (rev (evs @ evs))"
proof -
  let ?evs = "tbl_rows (db_outbox sample_held)"
  have "tbl_ok ev_seq (db_outbox sample_held)" using sample_held_ok by (simp add: schema_ok_def ids_ok_def)
  then have "inj_on ev_seq (set ?evs)" using tbl_ok_distinct [of ev_seq "db_outbox sample_held"] by (simp add: distinct_map)
  moreover have "length ?evs = 1" by (simp add: sample_held_def run_defs)
  ultimately show ?thesis using project_order_and_repetition [of ?evs "rev (?evs @ ?evs)" sample_env] by simp
qed

theorem emit_all_or_nothing_witness:
  "\<exists>r db'. emit sample_env Scope_Collection False sample_held = (Inr r, db') \<and> em_events r = 1 \<and>
     em_seq_first r = Some 2 \<and> em_seq_last r = Some 2"
proof -
  obtain r db' where e: "emit sample_env Scope_Collection False sample_held = (Inr r, db')" "em_events r = 1"
    by (rule sample_backfill)
  then obtain new where n: "emitted sample_env Scope_Collection False sample_held new r db'"
    using emit_all_or_nothing [OF sample_held_ok, where env = sample_env and scope = Scope_Collection and force = False] by auto
  then have "length new = 1" using e(2) by (simp add: emitted_def)
  then obtain e' where "new = [e']" by (auto simp: length_Suc_conv)
  then show ?thesis
    using n e by (auto simp: emitted_def ledger_row_def restates_def sample_held_rows)
qed

theorem backfill_rebuilds_witness:
  "\<exists>r db'. emit sample_env Scope_Collection False sample_held = (Inr r, db') \<and>
     project sample_env (drop (length (tbl_rows (db_outbox sample_held))) (tbl_rows (db_outbox db')))
       (''collection'', 1) \<noteq> None"
proof -
  obtain r db' where e: "emit sample_env Scope_Collection False sample_held = (Inr r, db')"
    using sample_backfill by blast
  obtain c where "tbl_rows (db_collection sample_held) = [c]" "ce_id c = 1"
    using sample_held_rows(1) by auto
  then have "holdings_of sample_env sample_held (''collection'', 1) \<noteq> None"
    by (simp add: holdings_of_def tbl_find_def)
  then show ?thesis using e backfill_rebuilds [OF sample_held_ok e] by auto
qed

end
