(* ===== verification/Wishlist.thy ===== *)
theory Wishlist
  imports Sample
begin

text \<open>
  The tenant's smaller lists: wishes (\<open>pkdump-db/src/wishlist.rs\<close>), sealed lots
  (\<open>sealed.rs\<close>) and the value multipliers of the card conditions (\<open>conditions.rs\<close>).
\<close>

section \<open>Wishes\<close>

record WishlistEntry =
  we_row :: WishRow
  we_card :: CardRow
  we_set_name :: string

record NewWish =
  nw_card :: string
  nw_printing :: "string option"
  nw_max_price :: "f64 option"
  nw_priority :: "i64 option"
  nw_notes :: "string option"

record WishEdit =
  wx_max_price :: "f64 option"
  wx_priority :: "i64 option"
  wx_notes :: "string option"

definition wish_add :: "'j env \<Rightarrow> NewWish \<Rightarrow> int dbact" where
  "wish_add env new =
     (if \<not> card_exists (env_catalog env) (nw_card new)
      then fail (NotFound (''card '' @ quoted (nw_card new) @ '' is not in the catalog''))
      else bind_act (now_rfc3339 env) (\<lambda>now db.
        let i = next_id (db_wishlist db) in
        (Inr i, db\<lparr>db_wishlist := tbl_append
           \<lparr>wi_id = i, wi_card = nw_card new, wi_printing = nw_printing new, wi_max_price = nw_max_price new,
            wi_priority = keep (nw_priority new) 0, wi_notes = nw_notes new, wi_added_at = now,
            wi_source = ''manual'', wi_fulfilled_at = None\<rparr> (db_wishlist db)\<rparr>)))"

definition wish_rows :: "catalog \<Rightarrow> WishRow \<Rightarrow> WishlistEntry list" where
  "wish_rows cat w =
     concat (map (\<lambda>cd. map (\<lambda>s. \<lparr>we_row = w, we_card = cd, we_set_name = st_name s\<rparr>)
         (filter (\<lambda>s. st_code s = cd_set cd) (cat_sets cat)))
       (filter (\<lambda>cd. cd_id cd = wi_card w) (cat_cards cat)))"

definition wish_list :: "'j env \<Rightarrow> bool \<Rightarrow> WishlistEntry list dbact" where
  "wish_list env include_fulfilled = query (\<lambda>db.
     sort_key (\<lambda>e. (- wi_priority (we_row e), - wi_id (we_row e)))
       (concat (map (wish_rows (env_catalog env))
         (filter (\<lambda>w. include_fulfilled \<or> wi_fulfilled_at w = None) (tbl_rows (db_wishlist db))))))"

text \<open>An \<open>UPDATE wishlist\<close> of one row, and whether there was one.\<close>

definition update_wish :: "int \<Rightarrow> (WishRow \<Rightarrow> WishRow) \<Rightarrow> bool dbact" where
  "update_wish i f = (\<lambda>db.
     (Inr (tbl_has wi_id (db_wishlist db) i),
      db\<lparr>db_wishlist := tbl_modify (\<lambda>w. wi_id w = i) f (db_wishlist db)\<rparr>))"

definition wish_update :: "int \<Rightarrow> WishEdit \<Rightarrow> bool dbact" where
  "wish_update i edit = update_wish i (\<lambda>w. w\<lparr>
     wi_max_price := coalesce (wx_max_price edit) (wi_max_price w),
     wi_priority := keep (wx_priority edit) (wi_priority w),
     wi_notes := coalesce (wx_notes edit) (wi_notes w)\<rparr>)"

definition wish_set_fulfilled :: "'j env \<Rightarrow> int \<Rightarrow> bool \<Rightarrow> bool dbact" where
  "wish_set_fulfilled env i fulfilled =
     bind_act (if fulfilled then bind_act (now_rfc3339 env) (\<lambda>now. ret (Some now)) else ret None) (\<lambda>stamp.
     update_wish i (\<lambda>w. w\<lparr>wi_fulfilled_at := stamp\<rparr>))"

definition wish_delete :: "int \<Rightarrow> bool dbact" where
  "wish_delete i = (\<lambda>db.
     (Inr (tbl_has wi_id (db_wishlist db) i),
      db\<lparr>db_wishlist := tbl_remove (\<lambda>w. wi_id w = i) (db_wishlist db)\<rparr>))"

definition wish_exists_for_card :: "string \<Rightarrow> bool dbact" where
  "wish_exists_for_card card_id = query (\<lambda>db.
     list_ex (\<lambda>w. wi_card w = card_id \<and> wi_fulfilled_at w = None) (tbl_rows (db_wishlist db)))"

section \<open>Sealed lots\<close>

record SealedEntry =
  sq_row :: SealedRow
  sq_product :: SealedProduct
  sq_market_price :: "f64 option"

record NewSealed =
  ns_product :: int
  ns_quantity :: "i64 option"
  ns_condition :: "string option"
  ns_purchase_price :: "f64 option"
  ns_purchase_date :: "string option"
  ns_source :: "string option"
  ns_seller :: "string option"
  ns_notes :: "string option"

record SealedEdit =
  sx_quantity :: "i64 option"
  sx_condition :: "string option"
  sx_purchase_price :: "f64 option"
  sx_sale_price :: "f64 option"
  sx_purchase_date :: "string option"
  sx_source :: "string option"
  sx_seller :: "string option"
  sx_notes :: "string option"
  sx_status :: "string option"

text \<open>SQL \<open>LIKE\<close>: \<open>%\<close> is any run, \<open>_\<close> any character, ASCII letters match either case.\<close>

function like :: "uchar list \<Rightarrow> uchar list \<Rightarrow> bool" where
  "like [] s = (s = [])"
| "like (p # ps) s =
     (if p = ''%'' then like ps s \<or> (case s of [] \<Rightarrow> False | c # cs \<Rightarrow> like (p # ps) cs)
      else (case s of [] \<Rightarrow> False
            | c # cs \<Rightarrow> (p = ''_'' \<or> eq_ignore_ascii_case p c) \<and> like ps cs))"
  by pat_completeness auto
termination by (relation "measure (\<lambda>(p, s). length p + length s)") auto

definition search_products :: "'j env \<Rightarrow> string \<Rightarrow> i64 \<Rightarrow> SealedProduct list dbact" where
  "search_products env q lim = query (\<lambda>_.
     limit_offset lim 0 (sort_key sp_name
       (filter (\<lambda>p. like (chars (''%'' @ q @ ''%'')) (chars (sp_name p))) (cat_sealed_products (env_catalog env)))))"

definition sealed_rows :: "catalog \<Rightarrow> SealedRow \<Rightarrow> SealedEntry list" where
  "sealed_rows cat r =
     map (\<lambda>p. \<lparr>sq_row = r, sq_product = p,
               sq_market_price = sealed_market_price (cat_latest_sealed cat) (se_product r)\<rparr>)
       (filter (\<lambda>p. sp_id p = se_product r) (cat_sealed_products cat))"

definition sealed_list :: "'j env \<Rightarrow> SealedEntry list dbact" where
  "sealed_list env = query (\<lambda>db.
     concat (map (sealed_rows (env_catalog env)) (rev (tbl_rows (db_sealed db)))))"

definition sealed_get :: "'j env \<Rightarrow> int \<Rightarrow> SealedEntry option dbact" where
  "sealed_get env i = query (\<lambda>db.
     case concat (map (sealed_rows (env_catalog env)) (filter (\<lambda>r. se_id r = i) (tbl_rows (db_sealed db)))) of
       [] \<Rightarrow> None | e # _ \<Rightarrow> Some e)"

definition sealed_row :: "NewSealed \<Rightarrow> string \<Rightarrow> int \<Rightarrow> SealedRow" where
  "sealed_row new now i =
     \<lparr>se_id = i, se_product = ns_product new, se_quantity = keep (ns_quantity new) 1,
      se_condition = ns_condition new, se_purchase_price = ns_purchase_price new, se_sale_price = None,
      se_purchase_date = ns_purchase_date new, se_source = ns_source new, se_seller = ns_seller new,
      se_notes = ns_notes new, se_status = ''owned'', se_added_at = now\<rparr>"

definition sealed_add :: "'j env \<Rightarrow> NewSealed \<Rightarrow> int dbact" where
  "sealed_add env new =
     (if \<not> sealed_product_exists (env_catalog env) (ns_product new)
      then fail (NotFound (''sealed product '' @ show_int (ns_product new) @ '' is not in the catalog''))
      else bind_act (now_rfc3339 env) (\<lambda>now. insert_sealed env (sealed_row new now)))"

definition sealed_edit :: "SealedEdit \<Rightarrow> SealedRow \<Rightarrow> SealedRow" where
  "sealed_edit edit r = r\<lparr>
     se_quantity := keep (sx_quantity edit) (se_quantity r),
     se_condition := coalesce (sx_condition edit) (se_condition r),
     se_purchase_price := coalesce (sx_purchase_price edit) (se_purchase_price r),
     se_sale_price := coalesce (sx_sale_price edit) (se_sale_price r),
     se_purchase_date := coalesce (sx_purchase_date edit) (se_purchase_date r),
     se_source := coalesce (sx_source edit) (se_source r),
     se_seller := coalesce (sx_seller edit) (se_seller r),
     se_notes := coalesce (sx_notes edit) (se_notes r),
     se_status := keep (sx_status edit) (se_status r)\<rparr>"

definition sealed_update :: "'j env \<Rightarrow> int \<Rightarrow> SealedEdit \<Rightarrow> bool dbact" where
  "sealed_update env i edit =
     bind_act (update_sealed env (\<lambda>r. se_id r = i) (sealed_edit edit)) (\<lambda>n. ret (0 < n))"

definition sealed_delete :: "'j env \<Rightarrow> int \<Rightarrow> bool dbact" where
  "sealed_delete env i = bind_act (delete_sealed env (\<lambda>r. se_id r = i)) (\<lambda>n. ret (0 < n))"

section \<open>Conditions\<close>

text \<open>\<open>data/conditions.json\<close>: 1, 0.85, 0.65, 0.45 and 0.25 as IEEE doubles.\<close>

definition CONDITIONS_SEED :: "Condition list" where
  "CONDITIONS_SEED =
     [\<lparr>cn_name = ''Near Mint'', cn_multiplier = 0x3FF0000000000000, cn_rank = 0\<rparr>,
      \<lparr>cn_name = ''Lightly Played'', cn_multiplier = 0x3FEB333333333333, cn_rank = 1\<rparr>,
      \<lparr>cn_name = ''Moderately Played'', cn_multiplier = 0x3FE4CCCCCCCCCCCD, cn_rank = 2\<rparr>,
      \<lparr>cn_name = ''Heavily Played'', cn_multiplier = 0x3FDCCCCCCCCCCCCD, cn_rank = 3\<rparr>,
      \<lparr>cn_name = ''Damaged'', cn_multiplier = 0x3FD0000000000000, cn_rank = 4\<rparr>]"

text \<open>One \<open>INSERT ... ON CONFLICT(name) DO NOTHING\<close> per seed row, counting the inserted ones.\<close>

fun seed_loop :: "Condition list \<Rightarrow> Condition list \<Rightarrow> nat \<times> Condition list" where
  "seed_loop [] rows = (0, rows)"
| "seed_loop (c # cs) rows =
     (if list_ex (\<lambda>r. cn_name r = cn_name c) rows then seed_loop cs rows
      else (let (n, rows') = seed_loop cs (rows @ [c]) in (Suc n, rows')))"

definition seed_defaults_in :: "nat dbact" where
  "seed_defaults_in = (\<lambda>db.
     let (n, rows) = seed_loop CONDITIONS_SEED (db_conditions db) in
     (Inr n, db\<lparr>db_conditions := rows\<rparr>))"

definition seed_defaults :: "nat dbact" where
  "seed_defaults = tx seed_defaults_in"

definition conditions_list_all :: "Condition list dbact" where
  "conditions_list_all = query (\<lambda>db. sort_key cn_rank (db_conditions db))"

definition multipliers :: "(string \<rightharpoonup> f64) dbact" where
  "multipliers = bind_act conditions_list_all (\<lambda>rows.
     ret (map_of (rev (map (\<lambda>c. (cn_name c, cn_multiplier c)) rows))))"

section \<open>Schema, journal and audit trail\<close>

text \<open>A statement that only touches wishes.\<close>

lemma wishlist_only_rules:
  fixes r :: "tdb \<Rightarrow> 'b" and f :: "tdb \<Rightarrow> WishRow tbl"
  assumes "\<And>db. tbl_ok wi_id (db_wishlist db) \<Longrightarrow> tbl_ok wi_id (f db)"
  defines "m \<equiv> (\<lambda>db. (Inr (r db) :: DbError + 'b, db\<lparr>db_wishlist := f db\<rparr>))"
  shows "always keeps_schema m" "always (journaled env) m" "always keeps_audit m"
proof -
  show j: "always (journaled env) m" for env :: "'j env"
    by (rule alwaysI, rule journaled_same) (use assms in \<open>auto simp: ids_ok_def\<close>)
  show s: "always keeps_schema m"
    by (rule keeps_schemaI [OF j]) (auto simp: m_def intro: refs_ok_frame)
  show "always keeps_audit m"
    by (rule keeps_audit_same [OF s]) (auto simp: m_def)
qed

lemma wish_add_rules [repo_rules, audit_rules]:
  "always keeps_schema (wish_add env new)" "always (journaled env) (wish_add env new)"
  "always keeps_audit (wish_add env new)"
  unfolding wish_add_def Let_def
  by (intro all_intros stmt_rules audit_rules wishlist_only_rules; auto)+

lemma update_wish_rules:
  "(\<And>w. wi_id (f w) = wi_id w) \<Longrightarrow> always keeps_schema (update_wish i f)"
  "(\<And>w. wi_id (f w) = wi_id w) \<Longrightarrow> always (journaled env) (update_wish i f)"
  "(\<And>w. wi_id (f w) = wi_id w) \<Longrightarrow> always keeps_audit (update_wish i f)"
  unfolding update_wish_def by (intro wishlist_only_rules; auto)+

lemma wish_update_rules [repo_rules, audit_rules]:
  "always keeps_schema (wish_update i edit)" "always (journaled env) (wish_update i edit)"
  "always keeps_audit (wish_update i edit)"
  unfolding wish_update_def by (intro update_wish_rules; simp)+

lemma wish_set_fulfilled_rules [repo_rules, audit_rules]:
  "always keeps_schema (wish_set_fulfilled env i b)" "always (journaled env) (wish_set_fulfilled env i b)"
  "always keeps_audit (wish_set_fulfilled env i b)"
  unfolding wish_set_fulfilled_def by (intro all_intros stmt_rules audit_rules update_wish_rules; simp)+

lemma wish_delete_rules [repo_rules, audit_rules]:
  "always keeps_schema (wish_delete i)" "always (journaled env) (wish_delete i)" "always keeps_audit (wish_delete i)"
  unfolding wish_delete_def by (intro wishlist_only_rules; auto)+

lemma sealed_ids [simp]: "se_id (sealed_row new now i) = i" "se_id (sealed_edit edit r) = se_id r"
  by (simp_all add: sealed_row_def sealed_edit_def)

lemma sealed_rules [repo_rules, audit_rules]:
  "always keeps_schema (sealed_add env new)" "always (journaled env) (sealed_add env new)"
  "always keeps_audit (sealed_add env new)"
  "always keeps_schema (sealed_update env i edit)" "always (journaled env) (sealed_update env i edit)"
  "always keeps_audit (sealed_update env i edit)"
  "always keeps_schema (sealed_delete env i)" "always (journaled env) (sealed_delete env i)"
  "always keeps_audit (sealed_delete env i)"
  unfolding sealed_add_def sealed_update_def sealed_delete_def
  by (intro all_intros stmt_rules audit_rules; simp)+

lemma seed_loop_spec:
  "seed_loop cs rows = (n, rows') \<Longrightarrow>
   \<exists>new. rows' = rows @ new \<and> n = length new \<and> set new \<subseteq> set cs \<and>
     (distinct (map cn_name rows) \<longrightarrow> distinct (map cn_name rows')) \<and>
     cn_name ` set cs \<subseteq> cn_name ` set rows'"
proof (induction cs arbitrary: rows n)
  case (Cons c cs)
  show ?case
  proof (cases "list_ex (\<lambda>r. cn_name r = cn_name c) rows")
    case True
    then have "cn_name c \<in> cn_name ` set rows" by (auto simp: list_ex_iff) (metis image_eqI)
    then show ?thesis using Cons True by fastforce
  next
    case False
    then obtain k where k: "seed_loop cs (rows @ [c]) = (k, rows')" "n = Suc k"
      using Cons.prems(1) by (auto split: prod.splits)
    have d: "distinct (map cn_name rows) \<longrightarrow> distinct (map cn_name (rows @ [c]))"
      using False by (auto simp: list_ex_iff)
    obtain new where "rows' = (rows @ [c]) @ new" "k = length new" "set new \<subseteq> set cs"
        "distinct (map cn_name (rows @ [c])) \<longrightarrow> distinct (map cn_name rows')"
        "cn_name ` set cs \<subseteq> cn_name ` set rows'"
      using Cons.IH [OF k(1)] by blast
    then show ?thesis using k(2) d by (intro exI [of _ "c # new"]) auto
  qed
qed simp

lemma seed_loop_full: "cn_name ` set cs \<subseteq> cn_name ` set rows \<Longrightarrow> seed_loop cs rows = (0, rows)"
proof (induction cs)
  case (Cons c cs)
  then have "list_ex (\<lambda>r. cn_name r = cn_name c) rows" by (auto simp: list_ex_iff image_iff)
  then show ?case using Cons by simp
qed simp

lemma seed_defaults_rules [repo_rules, audit_rules]:
  "always keeps_schema seed_defaults" "always (journaled env) seed_defaults" "always keeps_audit seed_defaults"
proof -
  have j: "always (journaled env) seed_defaults_in" for env :: "'j env"
    by (rule alwaysI, rule journaled_same) (auto simp: seed_defaults_in_def ids_ok_def Let_def split: prod.splits)
  have s: "always keeps_schema seed_defaults_in"
  proof (rule keeps_schemaI [OF j])
    fix db r db' assume ok: "refs_ok db" and m: "seed_defaults_in db = (r, db')"
    obtain n rows where l: "seed_loop CONDITIONS_SEED (db_conditions db) = (n, rows)" by force
    have "distinct (map cn_name rows)" using seed_loop_spec [OF l] refs_okD(11) [OF ok] by auto
    moreover have "db' = db\<lparr>db_conditions := rows\<rparr>" using m l by (simp add: seed_defaults_in_def)
    ultimately show "refs_ok db'"
      using ok by (simp add: refs_ok_def entry_refs_def movement_refs_def batch_refs_def)
  qed
  have a: "always keeps_audit seed_defaults_in"
    by (rule keeps_audit_same [OF s]) (auto simp: seed_defaults_in_def Let_def split: prod.splits)
  show "always keeps_schema seed_defaults" "always (journaled env) seed_defaults" "always keeps_audit seed_defaults"
    unfolding seed_defaults_def using j s a by blast+
qed

section \<open>Properties\<close>

text \<open>
  Seeding the conditions on every open: it never fails and never touches a row the tenant
  has, adds seed rows only, leaves every seed name present, and seeding again inserts nothing and
  changes nothing.
\<close>

theorem seed_defaults_fills_in:
  "\<exists>new db'. seed_defaults db = (Inr (length new), db') \<and> db' = db\<lparr>db_conditions := db_conditions db @ new\<rparr> \<and>
     set new \<subseteq> set CONDITIONS_SEED \<and> cn_name ` set CONDITIONS_SEED \<subseteq> cn_name ` set (db_conditions db') \<and>
     seed_defaults db' = (Inr 0, db')"
proof -
  obtain n rows where l: "seed_loop CONDITIONS_SEED (db_conditions db) = (n, rows)" by force
  obtain new where n: "rows = db_conditions db @ new" "n = length new" "set new \<subseteq> set CONDITIONS_SEED"
      "cn_name ` set CONDITIONS_SEED \<subseteq> cn_name ` set rows"
    using seed_loop_spec [OF l] by blast
  let ?db' = "db\<lparr>db_conditions := rows\<rparr>"
  have "seed_defaults db = (Inr n, ?db')" by (simp add: seed_defaults_def transaction_def seed_defaults_in_def l)
  moreover have "seed_defaults ?db' = (Inr 0, ?db')"
    by (simp add: seed_defaults_def transaction_def seed_defaults_in_def seed_loop_full [OF n(4)])
  ultimately show ?thesis using n by (intro exI [of _ new] exI [of _ ?db']) simp
qed

end
