(* ===== verification/User_Prices.thy ===== *)
theory User_Prices
  imports Wishlist
begin

text \<open>
  Printings a tenant invents (\<open>pkdump-db/src/user_printings.rs\<close>) and the prices only those
  may carry (\<open>manual_prices.rs\<close>).
\<close>

section \<open>Printings\<close>

record NewUserPrinting =
  nu_card :: string
  nu_description :: "string option"

definition user_printing_exists :: "string \<Rightarrow> bool dbact" where
  "user_printing_exists printing = query (\<lambda>db. list_ex (\<lambda>u. up_id u = printing) (db_user_printings db))"

text \<open>\<open>CAST(x AS INTEGER)\<close>: the longest prefix that is a number, clamped; otherwise 0.\<close>

definition cast_integer :: "string \<Rightarrow> int" where
  "cast_integer s =
     (let t = dropWhile (\<lambda>c. c \<in> set [CHR 0x20, CHR 0x09, CHR 0x0A, CHR 0x0B, CHR 0x0C, CHR 0x0D]) s;
          neg = (case t of [] \<Rightarrow> False | c # _ \<Rightarrow> c = CHR ''-'');
          u = (case t of [] \<Rightarrow> [] | c # cs \<Rightarrow> if c = CHR ''-'' \<or> c = CHR ''+'' then cs else t);
          n = int (digits_val (takeWhile is_digit u)) in
      max i64_min (min i64_max (if neg then - n else n)))"

text \<open>\<open>SUBSTR(x, n)\<close>: from the \<open>n\<close>-th character on, counted from 1.\<close>

definition substr_from :: "string \<Rightarrow> nat \<Rightarrow> string" where
  "substr_from s n = concat (drop (n - 1) (chars s))"

definition user_prefix :: "string \<Rightarrow> string" where
  "user_prefix card_id = card_id @ ''-user-''"

definition suffixes :: "string \<Rightarrow> tdb \<Rightarrow> int list" where
  "suffixes card_id db =
     map (\<lambda>u. cast_integer (substr_from (up_id u) (length (user_prefix card_id) + 1)))
       (filter (\<lambda>u. like (chars (user_prefix card_id @ ''%'')) (chars (up_id u))) (db_user_printings db))"

definition max_suffix :: "string \<Rightarrow> tdb \<Rightarrow> int" where
  "max_suffix card_id db = (case suffixes card_id db of [] \<Rightarrow> 0 | n # ns \<Rightarrow> fold max ns n)"

definition user_printing_insert :: "'j env \<Rightarrow> NewUserPrinting \<Rightarrow> UserPrinting dbact" where
  "user_printing_insert env new =
     (if \<not> card_exists (env_catalog env) (nu_card new)
      then fail (NotFound (''card '' @ nu_card new))
      else (\<lambda>db.
        let u = \<lparr>up_id = user_prefix (nu_card new) @ show_int (wrap_i64 (max_suffix (nu_card new) db + 1)),
                 up_card = nu_card new, up_variant = ''missing_variant'', up_description = nu_description new,
                 up_created_at = env_sql_datetime env (db_ticks db)\<rparr> in
        if list_ex (\<lambda>v. up_id v = up_id u) (db_user_printings db) then (Inl (Sqlite UniqueViolation), db)
        else (Inr u, db\<lparr>db_user_printings := db_user_printings db @ [u], db_ticks := Suc (db_ticks db)\<rparr>)))"

definition user_printings_for_card :: "string \<Rightarrow> UserPrinting list dbact" where
  "user_printings_for_card card_id = query (\<lambda>db.
     sort_key (\<lambda>u. (up_created_at u, up_id u)) (filter (\<lambda>u. up_card u = card_id) (db_user_printings db)))"

definition user_printing_delete :: "string \<Rightarrow> bool dbact" where
  "user_printing_delete printing =
     bind_act (query (\<lambda>db. length (filter (\<lambda>c. ce_printing c = printing) (tbl_rows (db_collection db))))) (\<lambda>copies.
     if 0 < copies
     then fail (Conflict (''user_printing '' @ printing @ '' still has '' @ show_nat copies @
                          '' collection row(s); remove those copies first''))
     else (\<lambda>db.
       (Inr (list_ex (\<lambda>u. up_id u = printing) (db_user_printings db)),
        db\<lparr>db_manual_prices := tbl_remove (\<lambda>m. mp_printing m = printing) (db_manual_prices db),
           db_user_printings := filter (\<lambda>u. up_id u \<noteq> printing) (db_user_printings db)\<rparr>)))"

section \<open>Prices\<close>

record NewManualPrice =
  nm_printing :: string
  nm_price :: f64
  nm_observed_at :: "string option"
  nm_note :: "string option"

definition em_dash :: string where
  "em_dash = [CHR 0xE2, CHR 0x80, CHR 0x94]"

definition CATALOG_PRINTING_RULE :: string where
  "CATALOG_PRINTING_RULE =
     ''a manual price belongs to a user-created printing; a catalog printing '' @
     ''that TCGplayer does not price is a catalog gap, patched for every tenant '' @
     ''in data/overrides/catalog_prices.json''"

definition manual_price_insert :: "'j env \<Rightarrow> NewManualPrice \<Rightarrow> int dbact" where
  "manual_price_insert env new =
     bind_act (user_printing_exists (nm_printing new)) (\<lambda>invented.
     if \<not> invented
     then (if list_ex (\<lambda>p. pg_id p = nm_printing new) (cat_printings (env_catalog env))
           then fail (Invalid (nm_printing new @ '' is a catalog printing '' @ em_dash @ '' '' @ CATALOG_PRINTING_RULE))
           else fail (NotFound (''printing '' @ nm_printing new)))
     else bind_act (case nm_observed_at new of None \<Rightarrow> now_rfc3339 env | Some t \<Rightarrow> ret t) (\<lambda>observed db.
       let i = next_id (db_manual_prices db) in
       (Inr i, db\<lparr>db_manual_prices := tbl_append
          \<lparr>mp_id = i, mp_printing = nm_printing new, mp_price = nm_price new, mp_observed_at = observed,
           mp_note = nm_note new, mp_created_at = env_sql_datetime env (db_ticks db)\<rparr> (db_manual_prices db),
          db_ticks := Suc (db_ticks db)\<rparr>)))"

definition manual_prices_for_printing :: "string \<Rightarrow> ManualPrice list dbact" where
  "manual_prices_for_printing printing = query (\<lambda>db.
     rev (sort_key (\<lambda>m. (mp_observed_at m, mp_id m)) (filter (\<lambda>m. mp_printing m = printing) (tbl_rows (db_manual_prices db)))))"

definition manual_price_delete :: "int \<Rightarrow> bool dbact" where
  "manual_price_delete i = (\<lambda>db.
     (Inr (tbl_has mp_id (db_manual_prices db) i),
      db\<lparr>db_manual_prices := tbl_remove (\<lambda>m. mp_id m = i) (db_manual_prices db)\<rparr>))"

section \<open>Schema, journal and audit trail\<close>

text \<open>A statement on manual prices and user printings that keeps both keys unique.\<close>

lemma user_tables_rules:
  fixes m :: "tdb \<Rightarrow> (DbError + 'b) \<times> tdb"
  assumes m: "\<And>db. snd (m db) = db\<lparr>db_manual_prices := f db, db_user_printings := g db, db_ticks := h db\<rparr>"
    and f: "\<And>db. tbl_ok mp_id (db_manual_prices db) \<Longrightarrow> tbl_ok mp_id (f db)"
    and g: "\<And>db. distinct (map up_id (db_user_printings db)) \<Longrightarrow> distinct (map up_id (g db))"
    and h: "\<And>db. db_ticks db \<le> h db"
  shows "always keeps_schema m" "always (journaled env) m" "always keeps_audit m"
proof -
  have db': "db' = db\<lparr>db_manual_prices := f db, db_user_printings := g db, db_ticks := h db\<rparr>"
    if "m db = (r, db')" for db r db' using m [of db] that by simp
  show j: "always (journaled env) m" for env :: "'j env"
    by (rule alwaysI, rule journaled_same) (use f h in \<open>auto dest!: db' simp: ids_ok_def\<close>)
  show s: "always keeps_schema m"
    by (rule keeps_schemaI [OF j])
      (use g in \<open>auto dest!: db' simp: refs_ok_def entry_refs_def movement_refs_def batch_refs_def\<close>)
  show "always keeps_audit m"
    by (rule keeps_audit_same [OF s]) (simp_all add: m)
qed

lemma user_printing_insert_rules [repo_rules, audit_rules]:
  "always keeps_schema (user_printing_insert env new)" "always (journaled env) (user_printing_insert env new)"
  "always keeps_audit (user_printing_insert env new)"
proof -
  define m where "m = (\<lambda>db.
        let u = \<lparr>up_id = user_prefix (nu_card new) @ show_int (wrap_i64 (max_suffix (nu_card new) db + 1)),
                 up_card = nu_card new, up_variant = ''missing_variant'', up_description = nu_description new,
                 up_created_at = env_sql_datetime env (db_ticks db)\<rparr> in
        if list_ex (\<lambda>v. up_id v = up_id u) (db_user_printings db) then (Inl (Sqlite UniqueViolation), db)
        else (Inr u, db\<lparr>db_user_printings := db_user_printings db @ [u], db_ticks := Suc (db_ticks db)\<rparr>))"
  have "\<exists>g h. (\<forall>db. snd (m db) = db\<lparr>db_manual_prices := db_manual_prices db, db_user_printings := g db, db_ticks := h db\<rparr>) \<and>
     (\<forall>db. distinct (map up_id (db_user_printings db)) \<longrightarrow> distinct (map up_id (g db))) \<and> (\<forall>db. db_ticks db \<le> h db)"
    by (rule exI [of _ "\<lambda>db. db_user_printings (snd (m db))"], rule exI [of _ "\<lambda>db. db_ticks (snd (m db))"])
      (auto simp: m_def Let_def list_ex_iff)
  then obtain g h where "\<And>db. snd (m db) = db\<lparr>db_manual_prices := db_manual_prices db, db_user_printings := g db, db_ticks := h db\<rparr>"
     "\<And>db. distinct (map up_id (db_user_printings db)) \<Longrightarrow> distinct (map up_id (g db))" "\<And>db. db_ticks db \<le> h db"
    by metis
  note r = user_tables_rules [of m, OF this(1) _ this(2,3), simplified]
  show "always keeps_schema (user_printing_insert env new)" "always (journaled env) (user_printing_insert env new)"
    "always keeps_audit (user_printing_insert env new)"
    unfolding user_printing_insert_def m_def [symmetric] by (intro all_intros r)+
qed

lemma user_printing_delete_rules [repo_rules, audit_rules]:
  "always keeps_schema (user_printing_delete p)" "always (journaled env) (user_printing_delete p)"
  "always keeps_audit (user_printing_delete p)"
  unfolding user_printing_delete_def
  by (intro all_intros user_tables_rules [where f = "\<lambda>db. tbl_remove (\<lambda>m. mp_printing m = p) (db_manual_prices db)"
        and g = "\<lambda>db. filter (\<lambda>u. up_id u \<noteq> p) (db_user_printings db)" and h = db_ticks];
      auto simp: distinct_map_filter)+

lemma manual_price_rules [repo_rules, audit_rules]:
  "always keeps_schema (manual_price_insert env new)" "always (journaled env) (manual_price_insert env new)"
  "always keeps_audit (manual_price_insert env new)"
  "always keeps_schema (manual_price_delete i)" "always (journaled env) (manual_price_delete i)"
  "always keeps_audit (manual_price_delete i)"
proof -
  have ins: "always keeps_schema (ins t)" "always (journaled env') (ins t)" "always keeps_audit (ins t)"
    if "ins = (\<lambda>observed db. let i = next_id (db_manual_prices db) in
       (Inr i, db\<lparr>db_manual_prices := tbl_append
          \<lparr>mp_id = i, mp_printing = nm_printing new, mp_price = nm_price new, mp_observed_at = observed,
           mp_note = nm_note new, mp_created_at = env_sql_datetime env (db_ticks db)\<rparr> (db_manual_prices db),
          db_ticks := Suc (db_ticks db)\<rparr>))" for ins t and env' :: "'k env"
    by (rule user_tables_rules [where g = db_user_printings and h = "\<lambda>db. Suc (db_ticks db)" and
         f = "\<lambda>db. db_manual_prices (snd (ins t db))"]; auto simp: that Let_def)+
  show "always keeps_schema (manual_price_insert env new)" "always (journaled env) (manual_price_insert env new)"
    "always keeps_audit (manual_price_insert env new)"
    unfolding manual_price_insert_def user_printing_exists_def
    by (intro all_intros stmt_rules audit_rules ins; simp)+
  show "always keeps_schema (manual_price_delete i)" "always (journaled env) (manual_price_delete i)"
    "always keeps_audit (manual_price_delete i)"
    unfolding manual_price_delete_def
    by (rule user_tables_rules [where g = db_user_printings and h = db_ticks and
         f = "\<lambda>db. tbl_remove (\<lambda>m. mp_id m = i) (db_manual_prices db)"]; auto)+
qed

section \<open>Properties\<close>

lemma like_any: "like [''%''] s"
proof (induction s)
  case (Cons c s)
  then show ?case by simp
qed simp

lemma like_prefix: "like (p @ [''%'']) (p @ s)"
proof (induction p)
  case (Cons c p)
  then show ?case by (cases "c = ''%''") (simp_all add: eq_ignore_ascii_case_def)
qed (simp only: append_Nil like_any)

lemma takeWhile_nat_digits: "takeWhile is_digit (nat_digits n) = nat_digits n"
  using nat_digits_digits [of n] by (simp add: takeWhile_eq_all_conv list_all_iff)

lemma cast_integer_show_int:
  assumes "in_i64 v"
  shows "cast_integer (show_int v) = v"
proof (cases "v < 0")
  case True
  have "cast_integer (''-'' @ nat_digits (nat (- v))) = v"
    using True assms by (simp add: cast_integer_def takeWhile_nat_digits in_i64_def digits_val_nat_digits)
  with True show ?thesis by (simp add: show_int_def)
next
  case False
  obtain c cs where c: "nat_digits (nat v) = c # cs"
    using nat_digits_nonempty by (cases "nat_digits (nat v)") auto
  then have d: "is_digit c" using nat_digits_digits [of "nat v"] by simp
  then have "c \<noteq> CHR ''-''" "c \<noteq> CHR ''+''" "c \<notin> set [CHR 0x20, CHR 0x09, CHR 0x0A, CHR 0x0B, CHR 0x0C, CHR 0x0D]"
    by (auto simp: is_digit_def)
  then have "cast_integer (c # cs) = max i64_min (min i64_max (int (digits_val (takeWhile is_digit (c # cs)))))"
    by (simp add: cast_integer_def)
  also have "takeWhile is_digit (c # cs) = nat_digits (nat v)" by (simp only: c [symmetric] takeWhile_nat_digits)
  finally show ?thesis using False assms by (simp add: show_int_def c [symmetric] in_i64_def digits_val_nat_digits)
qed

lemma show_int_ascii: "list_all is_ascii (show_int v)"
proof -
  have "is_digit c \<Longrightarrow> is_ascii c" for c by (auto simp: is_digit_def is_ascii_def)
  then have "list_all is_ascii (nat_digits n)" for n
    using nat_digits_digits [of n] by (auto simp: list_all_iff)
  then show ?thesis by (simp add: show_int_def is_ascii_def)
qed

lemma fold_max_ge: "(t :: int) \<le> fold max us t \<and> (\<forall>u \<in> set us. u \<le> fold max us t)"
proof (induction us arbitrary: t)
  case (Cons u us)
  then show ?case by (auto intro: order_trans [of _ "max u t"])
qed simp

lemma max_suffix_ge: "n \<in> set (suffixes card_id db) \<Longrightarrow> n \<le> max_suffix card_id db"
  using fold_max_ge by (fastforce simp: max_suffix_def split: list.splits)

lemma suffix_taken:
  assumes "v \<in> set (db_user_printings db)" "like (chars (user_prefix card_id @ ''%'')) (chars (up_id v))"
  shows "cast_integer (substr_from (up_id v) (length (user_prefix card_id) + 1)) \<in> set (suffixes card_id db)"
  unfolding suffixes_def set_map set_filter by (rule imageI) (use assms in blast)

text \<open>
  A printing invented for a known card always gets an id of its own: for an ASCII card id whose
  numbering has not reached the end of the 64-bit range the insert succeeds, the id is the card's
  prefix with one more than the highest suffix, and no earlier printing has it.
\<close>

theorem user_printing_fresh:
  assumes "card_exists (env_catalog env) (nu_card new)" "list_all is_ascii (nu_card new)"
    and "i64_min \<le> max_suffix (nu_card new) db" "max_suffix (nu_card new) db < i64_max"
  shows "\<exists>u db'. user_printing_insert env new db = (Inr u, db') \<and>
     up_id u = nu_card new @ ''-user-'' @ show_int (max_suffix (nu_card new) db + 1) \<and>
     up_card u = nu_card new \<and>
     db_user_printings db' = db_user_printings db @ [u] \<and> up_id u \<notin> up_id ` set (db_user_printings db)"
proof -
  let ?p = "user_prefix (nu_card new)" and ?n = "max_suffix (nu_card new) db + 1"
  have n: "in_i64 ?n" using assms(3,4) by (simp add: in_i64_def i64_min_def i64_max_def)
  have pa: "list_all is_ascii ?p" using assms(2) by (simp add: user_prefix_def is_ascii_def)
  have fresh: "?p @ show_int ?n \<noteq> up_id v" if v: "v \<in> set (db_user_printings db)" for v
  proof
    assume e: "?p @ show_int ?n = up_id v"
    have "chars (up_id v) = chars ?p @ chars (show_int ?n)"
      using pa show_int_ascii by (simp add: e [symmetric] chars_ascii)
    moreover have "chars (?p @ ''%'') = chars ?p @ [''%'']"
      using pa by (simp add: chars_ascii is_ascii_def)
    ultimately have l: "like (chars (?p @ ''%'')) (chars (up_id v))" by (simp only: like_prefix)
    have d: "substr_from (up_id v) (length ?p + 1) = show_int ?n"
    proof -
      have "chars (up_id v) = map (\<lambda>c. [c]) (?p @ show_int ?n)"
        using pa show_int_ascii by (simp add: e [symmetric] chars_ascii)
      then show ?thesis by (simp add: substr_from_def concat_map_singleton)
    qed
    have "cast_integer (show_int ?n) \<in> set (suffixes (nu_card new) db)"
      using suffix_taken [OF v l] by (simp only: d)
    then have "?n \<le> max_suffix (nu_card new) db" by (simp only: cast_integer_show_int [OF n] max_suffix_ge)
    then show False by simp
  qed
  have new: "\<not> list_ex (\<lambda>v. up_id v = ?p @ show_int ?n) (db_user_printings db)"
    unfolding list_ex_iff using fresh [THEN not_sym] by blast
  define u where "u = \<lparr>up_id = ?p @ show_int ?n, up_card = nu_card new, up_variant = ''missing_variant'',
      up_description = nu_description new, up_created_at = env_sql_datetime env (db_ticks db)\<rparr>"
  have id: "up_id u = ?p @ show_int ?n" and card: "up_card u = nu_card new" by (simp_all add: u_def)
  have "user_printing_insert env new db =
      (Inr u, db\<lparr>db_user_printings := db_user_printings db @ [u], db_ticks := Suc (db_ticks db)\<rparr>)"
    using assms(1) n new by (simp add: user_printing_insert_def wrap_i64_id u_def Let_def)
  moreover have "up_id u \<notin> up_id ` set (db_user_printings db)" using fresh id by force
  ultimately show ?thesis using id card
    by (intro exI [of _ u] exI [of _ "db\<lparr>db_user_printings := db_user_printings db @ [u], db_ticks := Suc (db_ticks db)\<rparr>"] conjI)
      (simp_all add: user_prefix_def)
qed

definition sample_printing :: NewUserPrinting where
  "sample_printing = \<lparr>nu_card = ''base1-4'', nu_description = Some ''misprint''\<rparr>"

definition sample_invented :: tdb where
  "sample_invented = after (user_printing_insert sample_env sample_printing) empty_db"

lemma user_printing_fresh_example:
  "\<exists>u. user_printing_insert sample_env sample_printing empty_db = (Inr u, sample_invented) \<and>
     up_id u = ''base1-4-user-1'' \<and> db_user_printings sample_invented = [u]"
proof -
  have m: "max_suffix ''base1-4'' empty_db = 0" by (simp add: max_suffix_def suffixes_def empty_db_def)
  have one: "show_int 1 = ''1''" by code_simp
  have none: "db_user_printings empty_db = []" by (simp add: empty_db_def)
  show ?thesis
    by (simp add: sample_printing_def sample_invented_def after_def m one card_exists_def sample_catalog_def
        none user_printing_insert_def Let_def user_prefix_def wrap_i64_id in_i64_def i64_min_def i64_max_def)
qed

lemma user_printing_insert_prices:
  "user_printing_insert env new db = (r, db') \<Longrightarrow> db_manual_prices db' = db_manual_prices db"
  by (auto simp: user_printing_insert_def fail_def Let_def split: if_splits)

theorem user_printing_fresh_witness:
  "\<exists>u. user_printing_insert sample_env sample_printing empty_db = (Inr u, sample_invented) \<and>
     up_card u = ''base1-4'' \<and> db_user_printings sample_invented = [u]"
proof -
  have m: "max_suffix ''base1-4'' empty_db = 0" by (simp add: max_suffix_def suffixes_def empty_db_def)
  have "card_exists (env_catalog sample_env) (nu_card sample_printing)" "list_all is_ascii (nu_card sample_printing)"
    by (simp_all add: sample_printing_def card_exists_def sample_catalog_def is_ascii_def)
  then obtain u db' where u: "user_printing_insert sample_env sample_printing empty_db = (Inr u, db')"
      "up_card u = nu_card sample_printing" "db_user_printings db' = db_user_printings empty_db @ [u]"
    using user_printing_fresh [of sample_env sample_printing empty_db]
    by (simp add: sample_printing_def m i64_min_def i64_max_def) blast
  then have "db' = sample_invented" by (simp add: sample_invented_def after_def)
  with u show ?thesis by (intro exI [of _ u]) (simp add: sample_printing_def empty_db_def)
qed

text \<open>
  Deleting an invented printing is refused exactly while a copy of it is in the collection;
  otherwise the printing and every price of it are gone, and nothing else changes.
\<close>

theorem user_printing_delete_outcome:
  "case user_printing_delete printing db of
     (Inl e, db') \<Rightarrow> db' = db \<and> list_ex (\<lambda>c. ce_printing c = printing) (tbl_rows (db_collection db))
   | (Inr known, db') \<Rightarrow> \<not> list_ex (\<lambda>c. ce_printing c = printing) (tbl_rows (db_collection db)) \<and>
       known = list_ex (\<lambda>u. up_id u = printing) (db_user_printings db) \<and>
       db' = db\<lparr>db_manual_prices := tbl_remove (\<lambda>m. mp_printing m = printing) (db_manual_prices db),
                db_user_printings := filter (\<lambda>u. up_id u \<noteq> printing) (db_user_printings db)\<rparr>"
  by (auto simp: user_printing_delete_def bind_act_def query_def fail_def list_ex_iff filter_empty_conv)

lemma newest_price_append:
  assumes "\<And>m. m \<in> set ms \<Longrightarrow> mp_observed_at m < mp_observed_at p"
  shows "newest_price (ms @ [p]) = Some (mp_price p)"
proof -
  let ?step = "\<lambda>p best. case best of None \<Rightarrow> Some p
      | Some b \<Rightarrow> if mp_observed_at b < mp_observed_at p then Some p else Some b"
  have "fold ?step xs b = Some r \<Longrightarrow> r \<in> set xs \<or> b = Some r" for xs b r
    by (induction xs arbitrary: b) (force split: option.splits if_splits)+
  then have "fold ?step ms None = Some r \<Longrightarrow> mp_observed_at r < mp_observed_at p" for r
    using assms by fastforce
  then show ?thesis by (auto simp: newest_price_def split: option.split)
qed

text \<open>
  A price entered for an invented printing takes effect at once: when neither the feed nor an
  override prices the printing and every price the tenant entered before was observed earlier,
  the market price afterwards is the new one.
\<close>

theorem manual_price_takes_effect:
  assumes "manual_price_insert env new db = (Inr i, db')" "nm_observed_at new = Some t"
    and "pk_printing p = nm_printing new"
    and "feed_price (cat_latest_prices (env_catalog env)) p = None" "override_price (env_catalog env) p = None"
    and "list_all (\<lambda>m. mp_printing m = nm_printing new \<longrightarrow> mp_observed_at m < t) (tbl_rows (db_manual_prices db))"
  shows "market_price (env_catalog env) db' p = Some (nm_price new)"
proof -
  have u: "list_ex (\<lambda>u. up_id u = nm_printing new) (db_user_printings db)"
    using assms(1) by (auto simp: manual_price_insert_def bind_act_def user_printing_exists_def query_def fail_def
        split: if_splits)
  define row where "row = \<lparr>mp_id = next_id (db_manual_prices db), mp_printing = nm_printing new,
      mp_price = nm_price new, mp_observed_at = t, mp_note = nm_note new,
      mp_created_at = env_sql_datetime env (db_ticks db)\<rparr>"
  have row: "mp_printing row = nm_printing new" "mp_price row = nm_price new" "mp_observed_at row = t"
      "db_user_printings db' = db_user_printings db"
      "tbl_rows (db_manual_prices db') = tbl_rows (db_manual_prices db) @ [row]"
    using assms(1,2) u
    by (simp_all add: manual_price_insert_def bind_act_def user_printing_exists_def query_def ret_def Let_def row_def)
      (auto simp: tbl_append_def)
  have "market_price (env_catalog env) db' p =
      newest_price (filter (\<lambda>mp. mp_printing mp = pk_printing p \<and>
        list_ex (\<lambda>up. up_id up = mp_printing mp) (db_user_printings db)) (tbl_rows (db_manual_prices db)) @ [row])"
    using assms(3-5) u row by (simp add: market_price_def market_price_from_def manual_price_def)
  also have "\<dots> = Some (mp_price row)"
    using assms(3,6) row(3) by (intro newest_price_append) (auto simp: list_all_iff)
  finally show ?thesis using row(2) by simp
qed

definition sample_price :: NewManualPrice where
  "sample_price = \<lparr>nm_printing = ''base1-4-user-1'', nm_price = 250, nm_observed_at = Some ''2026-01-02'', nm_note = None\<rparr>"

theorem manual_price_takes_effect_witness:
  "market_price sample_catalog (after (manual_price_insert sample_env sample_price) sample_invented)
     \<lparr>pk_printing = ''base1-4-user-1'', pk_product = None, pk_sub_type = None\<rparr> = Some 250"
proof -
  obtain u where u: "user_printing_insert sample_env sample_printing empty_db = (Inr u, sample_invented)"
      "up_id u = ''base1-4-user-1''" "db_user_printings sample_invented = [u]"
    using user_printing_fresh_example by blast
  have none: "tbl_rows (db_manual_prices sample_invented) = []"
    using user_printing_insert_prices [OF u(1)] by (simp add: empty_db_def empty_tbl_def)
  obtain i db' where run: "manual_price_insert sample_env sample_price sample_invented = (Inr i, db')"
    by (simp add: manual_price_insert_def bind_act_def user_printing_exists_def query_def ret_def Let_def
        u sample_price_def)
  have cat: "cat_latest_prices sample_catalog = []" "cat_overrides sample_catalog = []"
    by (simp_all add: sample_catalog_def)
  have new: "nm_observed_at sample_price = Some ''2026-01-02''" "nm_printing sample_price = ''base1-4-user-1''"
      "nm_price sample_price = 250"
    by (simp_all add: sample_price_def)
  have "after (manual_price_insert sample_env sample_price) sample_invented = db'" by (simp add: run after_def)
  then show ?thesis
    using manual_price_takes_effect [OF run, of "''2026-01-02''" "\<lparr>pk_printing = ''base1-4-user-1'', pk_product = None, pk_sub_type = None\<rparr>"]
    by (simp add: new none cat feed_price_def override_price_def)
qed

end
