(* ===== verification/Binders.thy ===== *)
theory Binders
  imports Sample
begin

text \<open>The binder repository, \<open>pkdump-db/src/binders.rs\<close>.\<close>

section \<open>Operations\<close>

record Binder =
  bd_row :: BinderRow
  bd_card_count :: nat

record NewBinder =
  nb_name :: string
  nb_description :: "string option"
  nb_color :: "string option"
  nb_type :: "string option"
  nb_pocket_size :: "int option"
  nb_location :: "string option"

record BinderEdit =
  be_name :: "string option"
  be_description :: "string option"
  be_color :: "string option"
  be_type :: "string option"
  be_pocket_size :: "int option"
  be_location :: "string option"

definition binder_view :: "tdb \<Rightarrow> BinderRow \<Rightarrow> Binder" where
  "binder_view db b =
     \<lparr>bd_row = b, bd_card_count = length (filter (\<lambda>c. ce_binder c = Some (bi_id b)) (tbl_rows (db_collection db)))\<rparr>"

definition binders_create :: "'j env \<Rightarrow> NewBinder \<Rightarrow> int dbact" where
  "binders_create env new =
     bind_act (now_rfc3339 env) (\<lambda>now db.
       let i = next_id (db_binders db) in
       (Inr i, db\<lparr>db_binders := tbl_append
          \<lparr>bi_id = i, bi_name = nb_name new, bi_description = nb_description new, bi_color = nb_color new,
           bi_type = nb_type new, bi_pocket_size = keep (nb_pocket_size new) 9,
           bi_location = nb_location new, bi_created_at = now, bi_updated_at = now\<rparr> (db_binders db)\<rparr>))"

definition binders_get :: "int \<Rightarrow> Binder option dbact" where
  "binders_get i = query (\<lambda>db. map_option (binder_view db) (tbl_find bi_id i (db_binders db)))"

definition binders_list :: "'j env \<Rightarrow> Binder list dbact" where
  "binders_list env = query (\<lambda>db.
     sort_by_name (env_rt env) (\<lambda>b. bi_name (bd_row b)) (map (binder_view db) (tbl_rows (db_binders db))))"

definition binder_edit :: "BinderEdit \<Rightarrow> string \<Rightarrow> BinderRow \<Rightarrow> BinderRow" where
  "binder_edit edit now b =
     b\<lparr>bi_name := keep (be_name edit) (bi_name b),
       bi_description := coalesce (be_description edit) (bi_description b),
       bi_color := coalesce (be_color edit) (bi_color b),
       bi_type := coalesce (be_type edit) (bi_type b),
       bi_pocket_size := keep (be_pocket_size edit) (bi_pocket_size b),
       bi_location := coalesce (be_location edit) (bi_location b),
       bi_updated_at := now\<rparr>"

definition binders_update :: "'j env \<Rightarrow> int \<Rightarrow> BinderEdit \<Rightarrow> bool dbact" where
  "binders_update env i edit =
     bind_act (now_rfc3339 env) (\<lambda>now db.
       (Inr (tbl_has bi_id (db_binders db) i),
        db\<lparr>db_binders := tbl_modify (\<lambda>b. bi_id b = i) (binder_edit edit now) (db_binders db)\<rparr>))"

definition binders_delete :: "'j env \<Rightarrow> int \<Rightarrow> bool dbact" where
  "binders_delete env i = bind_act (delete_binder_row env i) (\<lambda>n. ret (0 < n))"

section \<open>Schema, journal and audit trail\<close>

lemma binder_edit_id [simp]: "bi_id (binder_edit edit now b) = bi_id b"
  by (simp add: binder_edit_def)

lemma binders_insert_rules:
  assumes "\<And>i. bi_id (mk i) = i"
  defines "m \<equiv> (\<lambda>db. (Inr (next_id (db_binders db)), db\<lparr>db_binders := tbl_append (mk (next_id (db_binders db))) (db_binders db)\<rparr>))"
  shows "always keeps_schema m" "always (journaled env) m" "always keeps_audit m"
proof -
  show j: "always (journaled env) m" for env :: "'j env"
    by (rule alwaysI, rule journaled_same) (use assms in \<open>auto simp: ids_ok_def\<close>)
  show s: "always keeps_schema m"
    by (rule keeps_schemaI [OF j])
      (auto simp: m_def refs_ok_def entry_refs_def movement_refs_def batch_refs_def refers_append)
  show "always keeps_audit m"
    by (rule keeps_audit_same [OF s]) (auto simp: m_def)
qed

lemma binders_modify_rules:
  fixes P f and r :: "tdb \<Rightarrow> 'b"
  assumes "\<And>b. bi_id (f b) = bi_id b"
  defines "m \<equiv> (\<lambda>db. (Inr (r db) :: DbError + 'b, db\<lparr>db_binders := tbl_modify P f (db_binders db)\<rparr>))"
  shows "always keeps_schema m" "always (journaled env) m" "always keeps_audit m"
proof -
  show j: "always (journaled env) m" for env :: "'j env"
    by (rule alwaysI, rule journaled_same) (use assms in \<open>auto simp: ids_ok_def\<close>)
  have h: "tbl_has bi_id (tbl_modify P f t) = tbl_has bi_id t" "refers bi_id (tbl_modify P f t) x = refers bi_id t x" for t x
    using assms(1) by (simp_all add: tbl_has_modify refers_modify)
  show s: "always keeps_schema m"
    by (rule keeps_schemaI [OF j])
      (auto simp: m_def refs_ok_def entry_refs_def movement_refs_def batch_refs_def h)
  show "always keeps_audit m"
    by (rule keeps_audit_same [OF s]) (auto simp: m_def)
qed

lemma binders_create_rules [repo_rules, audit_rules]:
  "always keeps_schema (binders_create env new)" "always (journaled env) (binders_create env new)"
  "always keeps_audit (binders_create env new)"
  unfolding binders_create_def Let_def
  by (intro schema_intros journal_intros audit.always_rules audit_rules binders_insert_rules; simp)+

lemma binders_update_rules [repo_rules, audit_rules]:
  "always keeps_schema (binders_update env i edit)" "always (journaled env) (binders_update env i edit)"
  "always keeps_audit (binders_update env i edit)"
  unfolding binders_update_def
  by (intro schema_intros journal_intros audit.always_rules audit_rules binders_modify_rules; simp)+

lemma binders_delete_rules [repo_rules, audit_rules]:
  "always keeps_schema (binders_delete env i)" "always (journaled env) (binders_delete env i)"
  "always keeps_audit (binders_delete env i)"
  unfolding binders_delete_def
  by (intro schema_intros journal_intros audit.always_rules audit_rules)+

section \<open>Properties\<close>

text \<open>
  The binder list: every binder once, in natural name order, binders whose names compare
  equal in creation order, each with the number of copies filed in it.
\<close>

theorem binders_list_natural:
  "\<exists>bs. binders_list env db = (Inr bs, db) \<and>
     natural_listing (env_rt env) (\<lambda>b. bi_name (bd_row b)) bd_row (tbl_rows (db_binders db)) (binder_view db) bs"
proof -
  have "\<And>r. bd_row (binder_view db r) = r" by (simp add: binder_view_def)
  from natural_listing_sort [of bd_row, OF this] show ?thesis
    by (intro exI conjI) (simp add: binders_list_def query_def, assumption)
qed

text \<open>
  Deleting a binder that any logged move or any batch still names is refused by the schema:
  nothing is deleted and no copy is un-assigned, although the function's contract only speaks of
  un-assigning the cards.
\<close>

theorem binders_delete_refused:
  assumes "tbl_has bi_id (db_binders db) i"
    and "m \<in> set (tbl_rows (db_movement db))" "mv_from_binder m = Some i \<or> mv_to_binder m = Some i"
  shows "binders_delete env i db = (Inl (Sqlite ForeignKeyViolation), db)"
  using assms by (auto simp: binders_delete_def bind_act_def delete_binder_row_def list_ex_iff)

text \<open>A fresh binder, a copy, and the copy moved into the binder and out again.\<close>

definition sample_moves :: tdb where
  "sample_moves = after
     (bind_act (binders_create sample_env \<lparr>nb_name = ''Trades'', nb_description = None, nb_color = None,
        nb_type = None, nb_pocket_size = None, nb_location = None\<rparr>) (\<lambda>b.
      bind_act (collection_add sample_env sample_copy) (\<lambda>c.
      bind_act (move_to sample_env c (Some b) None None) (\<lambda>_.
      move_to sample_env c None None None)))) empty_db"

lemma sample_moves_rows:
  "map bi_id (tbl_rows (db_binders sample_moves)) = [1]"
  "map mv_to_binder (tbl_rows (db_movement sample_moves)) = [Some 1, None]"
  "map ce_binder (tbl_rows (db_collection sample_moves)) = [None]"
  by (simp_all add: sample_moves_def binders_create_def run_defs)

theorem binders_delete_refused_witness:
  "binders_delete sample_env 1 sample_moves = (Inl (Sqlite ForeignKeyViolation), sample_moves) \<and>
   map ce_binder (tbl_rows (db_collection sample_moves)) = [None]"
proof -
  obtain m ms where "tbl_rows (db_movement sample_moves) = m # ms" "mv_to_binder m = Some 1"
    using sample_moves_rows(2) by auto
  moreover have "tbl_has bi_id (db_binders sample_moves) 1"
    using sample_moves_rows(1) by (auto simp: tbl_has_iff map_eq_Cons_conv)
  ultimately show ?thesis
    using binders_delete_refused [of sample_moves 1 m] sample_moves_rows(3) by simp
qed

end
