(* ===== verification/Decks.thy ===== *)
theory Decks
  imports Sample
begin

text \<open>
  The deck and deck-group repositories, \<open>pkdump-db/src/decks.rs\<close> and \<open>deck_groups.rs\<close>. They
  call each other (\<open>set_group\<close> looks groups up, deleting a group deletes its decks), so they
  share a theory.
\<close>

section \<open>Decks\<close>

record Deck =
  de_row :: DeckRow
  de_card_count :: nat

record NewDeck =
  nd_name :: string
  nd_description :: "string option"
  nd_format :: "string option"
  nd_owner :: "string option"
  nd_state :: "string option"
  nd_sleeve_color :: "string option"
  nd_location :: "string option"
  nd_notes :: "string option"
  nd_group :: "int option"

record DeckEdit =
  di_name :: "string option"
  di_description :: "string option"
  di_format :: "string option"
  di_owner :: "string option"
  di_state :: "string option"
  di_sleeve_color :: "string option"
  di_location :: "string option"
  di_notes :: "string option"

text \<open>The constraints of \<open>decks\<close>: its state \<open>CHECK\<close> and its group reference.\<close>

definition deck_check :: "tdb \<Rightarrow> DeckRow \<Rightarrow> SqliteError option" where
  "deck_check db d =
     (if dk_state d \<notin> set deck_states_allowed then Some CheckViolation
      else if \<not> refers dg_id (db_groups db) (dk_group d) then Some ForeignKeyViolation else None)"

definition insert_deck :: "(int \<Rightarrow> DeckRow) \<Rightarrow> int dbact" where
  "insert_deck mk = (\<lambda>db.
     let d = mk (next_id (db_decks db)) in
     case deck_check db d of
       Some e \<Rightarrow> (Inl (Sqlite e), db)
     | None \<Rightarrow> (Inr (dk_id d), db\<lparr>db_decks := tbl_append d (db_decks db)\<rparr>))"

definition update_deck :: "int \<Rightarrow> (DeckRow \<Rightarrow> DeckRow) \<Rightarrow> nat dbact" where
  "update_deck i f = (\<lambda>db.
     case tbl_find dk_id i (db_decks db) of
       None \<Rightarrow> (Inr 0, db)
     | Some d \<Rightarrow>
         (case deck_check db (f d) of
            Some e \<Rightarrow> (Inl (Sqlite e), db)
          | None \<Rightarrow> (Inr 1, db\<lparr>db_decks := tbl_modify (\<lambda>d. dk_id d = i) f (db_decks db)\<rparr>)))"

definition deck_view :: "tdb \<Rightarrow> DeckRow \<Rightarrow> Deck" where
  "deck_view db d =
     \<lparr>de_row = d, de_card_count = length (filter (\<lambda>c. ce_deck c = Some (dk_id d)) (tbl_rows (db_collection db)))\<rparr>"

definition decks_create :: "'j env \<Rightarrow> NewDeck \<Rightarrow> int dbact" where
  "decks_create env new =
     bind_act (now_rfc3339 env) (\<lambda>now.
     insert_deck (\<lambda>i.
       \<lparr>dk_id = i, dk_name = nd_name new, dk_description = nd_description new, dk_format = nd_format new,
        dk_owner = nd_owner new, dk_state = keep (nd_state new) ''idea'', dk_sleeve_color = nd_sleeve_color new,
        dk_location = nd_location new, dk_notes = nd_notes new, dk_group = nd_group new,
        dk_created_at = now, dk_updated_at = now\<rparr>))"

definition decks_get :: "int \<Rightarrow> Deck option dbact" where
  "decks_get i = query (\<lambda>db. map_option (deck_view db) (tbl_find dk_id i (db_decks db)))"

definition deck_list :: "'j env \<Rightarrow> tdb \<Rightarrow> Deck list" where
  "deck_list env db =
     sort_by_name (env_rt env) (\<lambda>d. dk_name (de_row d)) (map (deck_view db) (tbl_rows (db_decks db)))"

definition decks_list :: "'j env \<Rightarrow> Deck list dbact" where
  "decks_list env = query (deck_list env)"

definition deck_edit :: "DeckEdit \<Rightarrow> string \<Rightarrow> DeckRow \<Rightarrow> DeckRow" where
  "deck_edit edit now d =
     d\<lparr>dk_name := keep (di_name edit) (dk_name d),
       dk_description := coalesce (di_description edit) (dk_description d),
       dk_format := coalesce (di_format edit) (dk_format d),
       dk_owner := coalesce (di_owner edit) (dk_owner d),
       dk_state := keep (di_state edit) (dk_state d),
       dk_sleeve_color := coalesce (di_sleeve_color edit) (dk_sleeve_color d),
       dk_location := coalesce (di_location edit) (dk_location d),
       dk_notes := coalesce (di_notes edit) (dk_notes d),
       dk_updated_at := now\<rparr>"

definition decks_update :: "'j env \<Rightarrow> int \<Rightarrow> DeckEdit \<Rightarrow> bool dbact" where
  "decks_update env i edit =
     bind_act (now_rfc3339 env) (\<lambda>now.
     bind_act (update_deck i (deck_edit edit now)) (\<lambda>n. ret (0 < n)))"

text \<open>The two updates that make \<open>movement_log\<close> forget the deck, then the delete.\<close>

definition forget_deck :: "int \<Rightarrow> unit dbact" where
  "forget_deck i = (\<lambda>db. (Inr (),
     db\<lparr>db_movement :=
        tbl_modify (\<lambda>m. mv_to_deck m = Some i) (\<lambda>m. m\<lparr>mv_to_deck := None\<rparr>)
          (tbl_modify (\<lambda>m. mv_from_deck m = Some i) (\<lambda>m. m\<lparr>mv_from_deck := None\<rparr>) (db_movement db))\<rparr>))"

definition decks_delete :: "'j env \<Rightarrow> int \<Rightarrow> bool dbact" where
  "decks_delete env i =
     bind_act (forget_deck i) (\<lambda>_. bind_act (delete_deck_row env i) (\<lambda>n. ret (0 < n)))"

definition decks_set_group :: "'j env \<Rightarrow> int \<Rightarrow> int option \<Rightarrow> bool dbact" where
  "decks_set_group env i grp =
     bind_act (query (\<lambda>db. \<not> refers dg_id (db_groups db) grp)) (\<lambda>missing.
     if missing then fail (NotFound (''deck group '' @ (case grp of Some g \<Rightarrow> show_int g | None \<Rightarrow> [])))
     else bind_act (now_rfc3339 env) (\<lambda>now.
          bind_act (update_deck i (\<lambda>d. d\<lparr>dk_group := grp, dk_updated_at := now\<rparr>)) (\<lambda>n. ret (0 < n))))"

section \<open>Deck groups\<close>

record DeckGroup =
  gp_row :: GroupRow
  gp_deck_count :: nat
  gp_card_count :: nat

record NewDeckGroup =
  ng_name :: string
  ng_description :: "string option"
  ng_format :: "string option"

record DeckGroupEdit =
  ge_name :: "string option"
  ge_description :: "string option"
  ge_format :: "string option"

datatype DeleteMode = Ungroup | Decks

definition decks_in_group :: "int \<Rightarrow> tdb \<Rightarrow> int list" where
  "decks_in_group g db = map dk_id (filter (\<lambda>d. dk_group d = Some g) (tbl_rows (db_decks db)))"

definition in_group :: "int \<Rightarrow> tdb \<Rightarrow> CollectionEntry \<Rightarrow> bool" where
  "in_group g db c \<longleftrightarrow> (case ce_deck c of None \<Rightarrow> False | Some d \<Rightarrow> d \<in> set (decks_in_group g db))"

definition group_view :: "tdb \<Rightarrow> GroupRow \<Rightarrow> DeckGroup" where
  "group_view db g =
     \<lparr>gp_row = g, gp_deck_count = length (decks_in_group (dg_id g) db),
      gp_card_count = length (filter (in_group (dg_id g) db) (tbl_rows (db_collection db)))\<rparr>"

definition name_taken :: "string \<Rightarrow> int option \<Rightarrow> tdb \<Rightarrow> bool" where
  "name_taken name except db \<longleftrightarrow>
     list_ex (\<lambda>g. dg_name g = name \<and> Some (dg_id g) \<noteq> except) (tbl_rows (db_groups db))"

definition check_name :: "string \<Rightarrow> int option \<Rightarrow> unit dbact" where
  "check_name name except =
     (if trim name = [] then fail (Invalid ''a deck group needs a name'')
      else bind_act (query (name_taken name except)) (\<lambda>taken.
        if taken then fail (Conflict (''a deck group named '' @ [CHR 0x22] @ name @ [CHR 0x22] @ '' already exists''))
        else ret ()))"

text \<open>The \<open>UNIQUE\<close> constraint on the name, checked again by the statements themselves.\<close>

definition insert_group :: "(int \<Rightarrow> GroupRow) \<Rightarrow> int dbact" where
  "insert_group mk = (\<lambda>db.
     let g = mk (next_id (db_groups db)) in
     if name_taken (dg_name g) None db then (Inl (Sqlite UniqueViolation), db)
     else (Inr (dg_id g), db\<lparr>db_groups := tbl_append g (db_groups db)\<rparr>))"

definition update_group :: "int \<Rightarrow> (GroupRow \<Rightarrow> GroupRow) \<Rightarrow> nat dbact" where
  "update_group i f = (\<lambda>db.
     case tbl_find dg_id i (db_groups db) of
       None \<Rightarrow> (Inr 0, db)
     | Some g \<Rightarrow>
         if name_taken (dg_name (f g)) (Some i) db then (Inl (Sqlite UniqueViolation), db)
         else (Inr 1, db\<lparr>db_groups := tbl_modify (\<lambda>g. dg_id g = i) f (db_groups db)\<rparr>))"

definition groups_create :: "'j env \<Rightarrow> NewDeckGroup \<Rightarrow> int dbact" where
  "groups_create env new =
     bind_act (check_name (ng_name new) None) (\<lambda>_.
     bind_act (now_rfc3339 env) (\<lambda>now.
     insert_group (\<lambda>i. \<lparr>dg_id = i, dg_name = ng_name new, dg_description = ng_description new,
       dg_format = ng_format new, dg_created_at = now, dg_updated_at = now\<rparr>)))"

definition groups_get :: "int \<Rightarrow> DeckGroup option dbact" where
  "groups_get i = query (\<lambda>db. map_option (group_view db) (tbl_find dg_id i (db_groups db)))"

definition groups_list :: "'j env \<Rightarrow> DeckGroup list dbact" where
  "groups_list env = query (\<lambda>db.
     sort_by_name (env_rt env) (\<lambda>g. dg_name (gp_row g)) (map (group_view db) (tbl_rows (db_groups db))))"

definition decks_of :: "'j env \<Rightarrow> int \<Rightarrow> Deck list dbact" where
  "decks_of env i = query (\<lambda>db.
     sort_by_name (env_rt env) (\<lambda>d. dk_name (de_row d))
       (filter (\<lambda>d. dk_group (de_row d) = Some i) (deck_list env db)))"

definition group_edit :: "DeckGroupEdit \<Rightarrow> string \<Rightarrow> GroupRow \<Rightarrow> GroupRow" where
  "group_edit edit now g =
     g\<lparr>dg_name := keep (ge_name edit) (dg_name g),
       dg_description := coalesce (ge_description edit) (dg_description g),
       dg_format := coalesce (ge_format edit) (dg_format g), dg_updated_at := now\<rparr>"

definition groups_update :: "'j env \<Rightarrow> int \<Rightarrow> DeckGroupEdit \<Rightarrow> bool dbact" where
  "groups_update env i edit =
     bind_act (case ge_name edit of None \<Rightarrow> ret () | Some name \<Rightarrow> check_name name (Some i)) (\<lambda>_.
     bind_act (now_rfc3339 env) (\<lambda>now.
     bind_act (update_group i (group_edit edit now)) (\<lambda>n. ret (0 < n))))"

definition release_all :: "'j env \<Rightarrow> int \<Rightarrow> nat dbact" where
  "release_all env i =
     bind_act (query (\<lambda>db. tbl_has dg_id (db_groups db) i)) (\<lambda>known.
     if \<not> known then fail (NotFound (''deck group '' @ show_int i))
     else
     tx (bind_act (now_rfc3339 env) (\<lambda>now.
         bind_act (query (\<lambda>db. filter (in_group i db) (tbl_rows (db_collection db)))) (\<lambda>cards.
         bind_act (for_each cards (\<lambda>c.
           insert_movement (\<lambda>m. \<lparr>mv_id = m, mv_collection = ce_id c, mv_from_binder = None,
             mv_to_binder = None, mv_from_deck = ce_deck c, mv_to_deck = None, mv_changed_at = now,
             mv_note = Some ''deck group released''\<rparr>))) (\<lambda>_.
         bind_act (query (in_group i)) (\<lambda>member.
         update_entries env member (\<lambda>c. c\<lparr>ce_deck := None\<rparr>)))))))"

definition groups_delete :: "'j env \<Rightarrow> int \<Rightarrow> DeleteMode \<Rightarrow> bool dbact" where
  "groups_delete env i mode =
     bind_act (query (\<lambda>db. tbl_has dg_id (db_groups db) i)) (\<lambda>known.
     if \<not> known then ret False
     else
     bind_act (if mode = Decks
               then bind_act (release_all env i) (\<lambda>_.
                    bind_act (query (decks_in_group i)) (\<lambda>ids.
                    for_each ids (\<lambda>d. bind_act (decks_delete env d) (\<lambda>_. ret ()))))
               else ret ()) (\<lambda>_.
     bind_act (delete_group_row i) (\<lambda>n. ret (0 < n))))"

section \<open>Schema, journal and audit trail\<close>

lemma deck_statement_rules [stmt_rules, audit_rules]:
  "(\<And>i. dk_id (mk i) = i) \<Longrightarrow> always keeps_schema (insert_deck mk)"
  "(\<And>i. dk_id (mk i) = i) \<Longrightarrow> always (journaled env) (insert_deck mk)"
  "(\<And>i. dk_id (mk i) = i) \<Longrightarrow> always keeps_audit (insert_deck mk)"
proof -
  assume mk: "\<And>i. dk_id (mk i) = i"
  show j: "always (journaled env) (insert_deck mk)" for env :: "'j env"
    by (rule alwaysI, rule journaled_same)
      (use mk in \<open>auto simp: insert_deck_def Let_def ids_ok_def split: option.splits\<close>)
  show s: "always keeps_schema (insert_deck mk)"
  proof (rule keeps_schemaI [OF j])
    fix db r db' assume "refs_ok db" "insert_deck mk db = (r, db')"
    then show "refs_ok db'"
      by (auto simp: insert_deck_def deck_check_def Let_def refs_ok_def entry_refs_def movement_refs_def
          batch_refs_def refers_append split: if_splits)
  qed
  show "always keeps_audit (insert_deck mk)"
    by (rule keeps_audit_same [OF s]) (auto simp: insert_deck_def Let_def split: option.split)
qed

lemma update_deck_rules [stmt_rules, audit_rules]:
  "(\<And>d. dk_id (f d) = dk_id d) \<Longrightarrow> always keeps_schema (update_deck i f)"
  "(\<And>d. dk_id (f d) = dk_id d) \<Longrightarrow> always (journaled env) (update_deck i f)"
  "(\<And>d. dk_id (f d) = dk_id d) \<Longrightarrow> always keeps_audit (update_deck i f)"
proof -
  assume f: "\<And>d. dk_id (f d) = dk_id d"
  show j: "always (journaled env) (update_deck i f)" for env :: "'j env"
    by (rule alwaysI, rule journaled_same)
      (use f in \<open>auto simp: update_deck_def ids_ok_def split: option.splits\<close>)
  have h: "tbl_has dk_id (tbl_modify P f t) = tbl_has dk_id t"
    "refers dk_id (tbl_modify P f t) x = refers dk_id t x" for P t x
    using f by (simp_all add: tbl_has_modify refers_modify)
  show s: "always keeps_schema (update_deck i f)"
  proof (rule keeps_schemaI [OF j])
    fix db r db' assume ok: "ids_ok db" "refs_ok db" and u: "update_deck i f db = (r, db')"
    have t: "tbl_ok dk_id (db_decks db)" using ok by (simp add: ids_ok_def)
    show "refs_ok db'"
    proof (cases "db' = db")
      case False
      then obtain d where d: "tbl_find dk_id i (db_decks db) = Some d" "deck_check db (f d) = None"
          "db' = db\<lparr>db_decks := tbl_modify (\<lambda>d. dk_id d = i) f (db_decks db)\<rparr>"
        using u by (auto simp: update_deck_def split: option.splits)
      have one: "x = d" if "x \<in> set (tbl_rows (db_decks db))" "dk_id x = i" for x
        using that d(1) tbl_find_iff [OF t, of i x] by simp
      show ?thesis
        unfolding refs_ok_def
      proof (intro conjI)
        show "\<forall>d \<in> set (tbl_rows (db_decks db')).
            refers dg_id (db_groups db') (dk_group d) \<and> dk_state d \<in> set deck_states_allowed"
          using refs_okD(6) [OF ok(2)] d one by (auto simp: deck_check_def split: if_splits)
      qed (use refs_okD [OF ok(2)] in \<open>simp_all add: d entry_refs_def movement_refs_def batch_refs_def h\<close>)
    qed (use ok in simp)
  qed
  show "always keeps_audit (update_deck i f)"
    by (rule keeps_audit_same [OF s]) (auto simp: update_deck_def split: option.split)
qed

lemma forget_deck_rules [stmt_rules, audit_rules]:
  "always keeps_schema (forget_deck i)" "always (journaled env) (forget_deck i)"
  "always keeps_audit (forget_deck i)"
proof -
  have "tbl_ok mv_id (tbl_modify P (\<lambda>m. m\<lparr>mv_to_deck := None\<rparr>) t)"
    "tbl_ok mv_id (tbl_modify P (\<lambda>m. m\<lparr>mv_from_deck := None\<rparr>) t)" if "tbl_ok mv_id t" for P t
    by (rule tbl_ok_modify [OF that], simp)+
  then show j: "always (journaled env) (forget_deck i)" for env :: "'j env"
    by (intro alwaysI, intro journaled_same) (auto simp: forget_deck_def ids_ok_def)
  show s: "always keeps_schema (forget_deck i)"
  proof (rule keeps_schemaI [OF j])
    fix db r db' assume ok: "refs_ok db" and "forget_deck i db = (r, db')"
    then have d: "db' = snd (forget_deck i db)" by simp
    show "refs_ok db'"
      unfolding refs_ok_def
    proof (intro conjI)
      show "\<forall>m \<in> set (tbl_rows (db_movement db')). movement_refs db' m"
        using refs_okD(3) [OF ok] by (auto simp: d forget_deck_def movement_refs_def)
    qed (use refs_okD [OF ok] in \<open>simp_all add: d forget_deck_def entry_refs_def batch_refs_def\<close>)
  qed
  show "always keeps_audit (forget_deck i)"
    by (rule keeps_audit_same [OF s]) (auto simp: forget_deck_def)
qed

lemma insert_group_rules [stmt_rules, audit_rules]:
  "(\<And>i. dg_id (mk i) = i) \<Longrightarrow> always keeps_schema (insert_group mk)"
  "(\<And>i. dg_id (mk i) = i) \<Longrightarrow> always (journaled env) (insert_group mk)"
  "(\<And>i. dg_id (mk i) = i) \<Longrightarrow> always keeps_audit (insert_group mk)"
proof -
  assume mk: "\<And>i. dg_id (mk i) = i"
  show j: "always (journaled env) (insert_group mk)" for env :: "'j env"
    by (rule alwaysI, rule journaled_same)
      (use mk in \<open>auto simp: insert_group_def Let_def ids_ok_def split: if_splits\<close>)
  show s: "always keeps_schema (insert_group mk)"
  proof (rule keeps_schemaI [OF j])
    fix db r db' assume ok: "refs_ok db" and u: "insert_group mk db = (r, db')"
    let ?g = "mk (next_id (db_groups db))"
    show "refs_ok db'"
    proof (cases "db' = db")
      case False
      then have g: "\<not> name_taken (dg_name ?g) None db" "db' = db\<lparr>db_groups := tbl_append ?g (db_groups db)\<rparr>"
        using u by (auto simp: insert_group_def Let_def split: if_splits)
      show ?thesis
        unfolding refs_ok_def
      proof (intro conjI)
        show "distinct (map dg_name (tbl_rows (db_groups db')))"
          using refs_okD(8) [OF ok] g by (auto simp: name_taken_def list_ex_iff)
      qed (use refs_okD [OF ok] in \<open>simp_all add: g entry_refs_def movement_refs_def batch_refs_def refers_append\<close>)
    qed (use ok in simp)
  qed
  show "always keeps_audit (insert_group mk)"
    by (rule keeps_audit_same [OF s]) (auto simp: insert_group_def Let_def)
qed

lemma update_group_rules [stmt_rules, audit_rules]:
  "(\<And>g. dg_id (f g) = dg_id g) \<Longrightarrow> always keeps_schema (update_group i f)"
  "(\<And>g. dg_id (f g) = dg_id g) \<Longrightarrow> always (journaled env) (update_group i f)"
  "(\<And>g. dg_id (f g) = dg_id g) \<Longrightarrow> always keeps_audit (update_group i f)"
proof -
  assume f: "\<And>g. dg_id (f g) = dg_id g"
  show j: "always (journaled env) (update_group i f)" for env :: "'j env"
    by (rule alwaysI, rule journaled_same)
      (use f in \<open>auto simp: update_group_def ids_ok_def split: option.splits if_splits\<close>)
  have h: "refers dg_id (tbl_modify P f t) x = refers dg_id t x" for P t x
    using f by (simp add: refers_modify)
  show s: "always keeps_schema (update_group i f)"
  proof (rule keeps_schemaI [OF j])
    fix db r db' assume ok: "ids_ok db" "refs_ok db" and u: "update_group i f db = (r, db')"
    have t: "tbl_ok dg_id (db_groups db)" using ok by (simp add: ids_ok_def)
    show "refs_ok db'"
    proof (cases "db' = db")
      case False
      then obtain g where g: "tbl_find dg_id i (db_groups db) = Some g"
          "\<not> name_taken (dg_name (f g)) (Some i) db"
          "db' = db\<lparr>db_groups := tbl_modify (\<lambda>g. dg_id g = i) f (db_groups db)\<rparr>"
        using u by (auto simp: update_group_def split: option.splits if_splits)
      have one: "x = g" if "x \<in> set (tbl_rows (db_groups db))" "dg_id x = i" for x
        using that g(1) tbl_find_iff [OF t, of i x] by simp
      have inj: "inj_on dg_name (set (tbl_rows (db_groups db)))"
        and dist: "distinct (tbl_rows (db_groups db))"
        using refs_okD(8) [OF ok(2)] by (simp_all add: distinct_map)
      let ?n = "\<lambda>x. dg_name (if dg_id x = i then f x else x)"
      have "inj_on ?n (set (tbl_rows (db_groups db)))"
      proof (rule inj_onI)
        fix x y assume x: "x \<in> set (tbl_rows (db_groups db))" and y: "y \<in> set (tbl_rows (db_groups db))"
          and e: "?n x = ?n y"
        have free: "dg_name (f g) \<noteq> dg_name z" if "z \<in> set (tbl_rows (db_groups db))" "dg_id z \<noteq> i" for z
          using g(2) that by (auto simp: name_taken_def list_ex_iff)
        show "x = y"
        proof (cases "dg_id x = i")
          case True
          then show ?thesis using one [OF x True] e one y free by (cases "dg_id y = i") auto
        next
          case False
          then show ?thesis
            using x y e one free [OF x False] inj_onD [OF inj _ x y] by (cases "dg_id y = i") auto
        qed
      qed
      then have "distinct (map ?n (tbl_rows (db_groups db)))" using dist by (simp add: distinct_map)
      then have names: "distinct (map dg_name (tbl_rows (db_groups db')))" by (simp add: g comp_def)
      show ?thesis
        unfolding refs_ok_def
      proof (intro conjI)
        show "distinct (map dg_name (tbl_rows (db_groups db')))" by (rule names)
      qed (use refs_okD [OF ok(2)] in \<open>simp_all add: g entry_refs_def movement_refs_def batch_refs_def h\<close>)
    qed (use ok in simp)
  qed
  show "always keeps_audit (update_group i f)"
    by (rule keeps_audit_same [OF s]) (auto simp: update_group_def split: option.split)
qed

lemma deck_edit_id [simp]: "dk_id (deck_edit edit now d) = dk_id d"
  by (simp add: deck_edit_def)

lemma group_edit_id [simp]: "dg_id (group_edit edit now g) = dg_id g"
  by (simp add: group_edit_def)

lemma decks_create_rules [repo_rules, audit_rules]:
  "always keeps_schema (decks_create env new)" "always (journaled env) (decks_create env new)"
  "always keeps_audit (decks_create env new)"
  unfolding decks_create_def by (intro all_intros stmt_rules audit_rules; simp)+

lemma decks_update_rules [repo_rules, audit_rules]:
  "always keeps_schema (decks_update env i edit)" "always (journaled env) (decks_update env i edit)"
  "always keeps_audit (decks_update env i edit)"
  unfolding decks_update_def by (intro all_intros stmt_rules audit_rules; simp)+

lemma decks_delete_rules [repo_rules, audit_rules]:
  "always keeps_schema (decks_delete env i)" "always (journaled env) (decks_delete env i)"
  "always keeps_audit (decks_delete env i)"
  unfolding decks_delete_def by (intro all_intros stmt_rules audit_rules)+

lemma decks_set_group_rules [repo_rules, audit_rules]:
  "always keeps_schema (decks_set_group env i g)" "always (journaled env) (decks_set_group env i g)"
  "always keeps_audit (decks_set_group env i g)"
  unfolding decks_set_group_def by (intro all_intros stmt_rules audit_rules; simp)+

lemma check_name_rules [repo_rules, audit_rules]:
  "always keeps_schema (check_name n x)" "always (journaled env) (check_name n x)" "always keeps_audit (check_name n x)"
  unfolding check_name_def by (intro all_intros)+

lemma groups_create_rules [repo_rules, audit_rules]:
  "always keeps_schema (groups_create env new)" "always (journaled env) (groups_create env new)"
  "always keeps_audit (groups_create env new)"
  unfolding groups_create_def by (intro all_intros stmt_rules repo_rules audit_rules; simp)+

lemma groups_update_rules [repo_rules, audit_rules]:
  "always keeps_schema (groups_update env i edit)" "always (journaled env) (groups_update env i edit)"
  "always keeps_audit (groups_update env i edit)"
  unfolding groups_update_def by (intro all_intros stmt_rules repo_rules audit_rules; simp)+

lemma release_all_rules [repo_rules, audit_rules]:
  "always keeps_schema (release_all env i)" "always (journaled env) (release_all env i)"
  "always keeps_audit (release_all env i)"
  unfolding release_all_def by (intro all_intros stmt_rules audit_rules; simp)+

lemma groups_delete_rules [repo_rules, audit_rules]:
  "always keeps_schema (groups_delete env i mode)" "always (journaled env) (groups_delete env i mode)"
  "always keeps_audit (groups_delete env i mode)"
  unfolding groups_delete_def by (intro all_intros stmt_rules repo_rules audit_rules)+

section \<open>Properties\<close>

lemma tbl_remove_none: "\<not> tbl_has idf t i \<Longrightarrow> tbl_remove (\<lambda>r. idf r = i) t = t"
  by (cases t) (auto simp: tbl_remove_def tbl_has_iff filter_id_conv)

text \<open>
  C39. Deleting a deck cannot be blocked by its history: it succeeds exactly when the deck exists,
  removes that deck only, keeps every copy, un-assigns exactly the deck's own copies, and leaves
  no move that names the deck.
\<close>

theorem decks_delete_releases:
  "\<exists>db'. decks_delete env i db = (Inr (tbl_has dk_id (db_decks db) i), db') \<and>
     db_decks db' = tbl_remove (\<lambda>d. dk_id d = i) (db_decks db) \<and>
     db_collection db' =
       (if tbl_has dk_id (db_decks db) i
        then tbl_modify (\<lambda>c. ce_deck c = Some i) (\<lambda>c. c\<lparr>ce_deck := None\<rparr>) (db_collection db)
        else db_collection db) \<and>
     list_all (\<lambda>m. mv_from_deck m \<noteq> Some i \<and> mv_to_deck m \<noteq> Some i) (tbl_rows (db_movement db'))"
proof -
  obtain db1 where f: "forget_deck i db = (Inr (), db1)" by (simp add: forget_deck_def)
  then have db1: "db1 = snd (forget_deck i db)" by simp
  have d: "db_decks db1 = db_decks db" "db_collection db1 = db_collection db"
    and m: "list_all (\<lambda>m. mv_from_deck m \<noteq> Some i \<and> mv_to_deck m \<noteq> Some i) (tbl_rows (db_movement db1))"
    by (auto simp: db1 forget_deck_def list_all_iff split: if_splits)
  from m have free: "\<not> list_ex (\<lambda>m. mv_from_deck m = Some i \<or> mv_to_deck m = Some i) (tbl_rows (db_movement db1))"
    by (auto simp: list_ex_iff list_all_iff)
  show ?thesis
  proof (cases "tbl_has dk_id (db_decks db) i")
    case True
    have "decks_delete env i db = (Inr True, touch_entries env (\<lambda>c. ce_deck c = Some i) (\<lambda>c. c\<lparr>ce_deck := None\<rparr>)
        (db1\<lparr>db_decks := tbl_remove (\<lambda>d. dk_id d = i) (db_decks db)\<rparr>))"
      using True free d by (simp add: decks_delete_def bind_act_def f delete_deck_row_def ret_def)
    then show ?thesis
      using True d m by (intro exI conjI) (assumption | simp add: touch_entries_def)+
  next
    case False
    have "decks_delete env i db = (Inr False, db1)"
      using False d by (simp add: decks_delete_def bind_act_def f delete_deck_row_def ret_def)
    then show ?thesis
      using False d m by (intro exI [of _ db1]) (simp add: tbl_remove_none)
  qed
qed

text \<open>The loop of \<open>release_all\<close>: one movement per copy, numbered on.\<close>

lemma insert_movements:
  assumes "\<And>i c. c \<in> set cs \<Longrightarrow> movement_refs db (mk c i)"
  shows "for_each cs (\<lambda>c. insert_movement (mk c)) db =
    (Inr (), db\<lparr>db_movement := fold (\<lambda>c t. tbl_append (mk c (next_id t)) t) cs (db_movement db)\<rparr>)"
  using assms
proof (induction cs arbitrary: db)
  case (Cons c cs)
  have "movement_refs (db\<lparr>db_movement := t\<rparr>) m = movement_refs db m" for t m by (simp add: movement_refs_def)
  then show ?case using Cons by (simp add: bind_act_def insert_movement_def Let_def)
qed (simp add: ret_def)

lemma fold_append_rows:
  "\<exists>rs. tbl_rows (fold (\<lambda>c t. tbl_append (mk c (next_id t)) t) cs t) = tbl_rows t @ rs \<and>
     list_all2 (\<lambda>c r. \<exists>i. r = mk c i) cs rs"
proof (induction cs arbitrary: t)
  case (Cons c cs)
  obtain rs where "tbl_rows (fold (\<lambda>c t. tbl_append (mk c (next_id t)) t) cs (tbl_append (mk c (next_id t)) t)) =
      tbl_rows (tbl_append (mk c (next_id t)) t) @ rs" "list_all2 (\<lambda>c r. \<exists>i. r = mk c i) cs rs"
    using Cons by blast
  then show ?case by (intro exI [of _ "mk c (next_id t) # rs"]) auto
qed simp

lemma in_group_frame [simp]: "in_group i (db\<lparr>db_movement := t, db_ticks := n\<rparr>) = in_group i db"
  "in_group i (db\<lparr>db_ticks := n\<rparr>) = in_group i db"  "in_group i (db\<lparr>db_movement := t\<rparr>) = in_group i db"
  by (simp_all add: in_group_def decks_in_group_def fun_eq_iff split: option.split)

lemma in_group_deck: "in_group i db c \<Longrightarrow> refers dk_id (db_decks db) (ce_deck c)"
  by (auto simp: in_group_def decks_in_group_def tbl_has_iff split: option.splits)

text \<open>
  Releasing a deck group takes every copy out of every deck of the group and reports how many
  there were: exactly those copies change, only in their deck, the decks stay, and each gets one
  new movement out of the deck it was in.
\<close>

theorem release_all_empties:
  assumes "schema_ok db" "tbl_has dg_id (db_groups db) i"
  shows "\<exists>db' moves. release_all env i db =
       (Inr (length (filter (in_group i db) (tbl_rows (db_collection db)))), db') \<and>
     db_collection db' = tbl_modify (in_group i db) (\<lambda>c. c\<lparr>ce_deck := None\<rparr>) (db_collection db) \<and>
     db_decks db' = db_decks db \<and>
     tbl_rows (db_movement db') = tbl_rows (db_movement db) @ moves \<and>
     list_all2 (\<lambda>c m. mv_collection m = ce_id c \<and> mv_from_deck m = ce_deck c \<and> mv_to_deck m = None)
       (filter (in_group i db) (tbl_rows (db_collection db))) moves"
proof -
  let ?cs = "filter (in_group i db) (tbl_rows (db_collection db))"
  define db1 where "db1 = db\<lparr>db_ticks := Suc (db_ticks db)\<rparr>"
  let ?mk = "\<lambda>c m. \<lparr>mv_id = m, mv_collection = ce_id c, mv_from_binder = None, mv_to_binder = None,
    mv_from_deck = ce_deck c, mv_to_deck = None, mv_changed_at = env_now env (db_ticks db),
    mv_note = Some ''deck group released''\<rparr>"
  define db2 where "db2 = db1\<lparr>db_movement := fold (\<lambda>c t. tbl_append (?mk c (next_id t)) t) ?cs (db_movement db1)\<rparr>"
  have moves: "for_each ?cs (\<lambda>c. insert_movement (?mk c)) db1 = (Inr (), db2)"
    unfolding db2_def
    by (rule insert_movements) (auto simp: movement_refs_def db1_def tbl_has_iff in_group_deck)
  have g: "in_group i db2 = in_group i db" by (simp add: db2_def db1_def)
  have "entry_check c \<and> entry_refs db c" if "c \<in> set (tbl_rows (db_collection db))" for c
    using assms(1) that by (auto simp: schema_ok_def refs_ok_def)
  then have ok: "list_all entry_check (map (\<lambda>c. c\<lparr>ce_deck := None\<rparr>) ?cs)"
    "list_all (entry_refs db2) (map (\<lambda>c. c\<lparr>ce_deck := None\<rparr>) ?cs)"
    by (auto simp: list_all_iff entry_check_def entry_refs_def db2_def db1_def)
  have c: "db_collection db2 = db_collection db" by (simp add: db2_def db1_def)
  have upd: "update_entries env (in_group i db) (\<lambda>c. c\<lparr>ce_deck := None\<rparr>) db2 =
      (Inr (length ?cs), touch_entries env (in_group i db) (\<lambda>c. c\<lparr>ce_deck := None\<rparr>) db2)"
    using ok by (simp add: update_entries_def c)
  have now: "now_rfc3339 env db = (Inr (env_now env (db_ticks db)), db1)"
    by (simp add: now_rfc3339_def db1_def)
  have cs: "filter (in_group i db1) (tbl_rows (db_collection db1)) = ?cs" by (simp add: db1_def)
  have "release_all env i db =
      (Inr (length ?cs), touch_entries env (in_group i db) (\<lambda>c. c\<lparr>ce_deck := None\<rparr>) db2)"
    using assms(2) by (simp add: release_all_def bind_act_def query_def transaction_def now cs moves g upd)
  moreover obtain ms where "tbl_rows (db_movement db2) = tbl_rows (db_movement db) @ ms"
      "list_all2 (\<lambda>c r. \<exists>m. r = ?mk c m) ?cs ms"
    using fold_append_rows [of ?mk ?cs "db_movement db"] by (auto simp: db2_def db1_def)
  moreover from this(2) have "list_all2 (\<lambda>c m. mv_collection m = ce_id c \<and> mv_from_deck m = ce_deck c \<and>
      mv_to_deck m = None) ?cs ms"
    by (rule list_all2_mono) auto
  ultimately show ?thesis
    by (auto simp: touch_entries_def c db2_def db1_def)
qed

definition sample_grouped :: tdb where
  "sample_grouped = after
     (bind_act (groups_create sample_env \<lparr>ng_name = ''League'', ng_description = None, ng_format = None\<rparr>) (\<lambda>g.
      bind_act (decks_create sample_env \<lparr>nd_name = ''Burn'', nd_description = None, nd_format = None, nd_owner = None,
        nd_state = None, nd_sleeve_color = None, nd_location = None, nd_notes = None, nd_group = Some g\<rparr>) (\<lambda>d.
      collection_add sample_env (sample_copy\<lparr>nc_deck := Some d\<rparr>)))) empty_db"

lemma sample_grouped_ok: "schema_ok sample_grouped"
  unfolding sample_grouped_def by (intro after_schema schema.always_bind repo_rules schema_ok_empty)

lemma sample_grouped_rows:
  "map dg_id (tbl_rows (db_groups sample_grouped)) = [1]"
  "map ce_deck (tbl_rows (db_collection sample_grouped)) = [Some 1]"
  "map dk_group (tbl_rows (db_decks sample_grouped)) = [Some 1]" "map dk_id (tbl_rows (db_decks sample_grouped)) = [1]"
  by code_simp+

theorem release_all_empties_witness:
  "\<exists>db'. release_all sample_env 1 sample_grouped = (Inr 1, db') \<and>
     map ce_deck (tbl_rows (db_collection db')) = [None]"
proof -
  have g: "tbl_has dg_id (db_groups sample_grouped) 1" "decks_in_group 1 sample_grouped = [1]"
    using sample_grouped_rows by (auto simp: tbl_has_iff decks_in_group_def map_eq_Cons_conv)
  obtain c where c: "tbl_rows (db_collection sample_grouped) = [c]" "ce_deck c = Some 1"
    using sample_grouped_rows(2) by auto
  then show ?thesis
    using release_all_empties [OF sample_grouped_ok g(1), of sample_env] g(2) by (auto simp: in_group_def)
qed

end
