(* ===== verification/Orders.thy ===== *)
theory Orders
  imports Sample
begin

text \<open>
  Ingest batches and purchase orders, \<open>pkdump-db/src/batches.rs\<close> and \<open>orders.rs\<close>: an order
  commits its row, a batch and its \<open>ordered\<close> copies at once, and receiving it turns the
  copies that are still \<open>ordered\<close> into \<open>owned\<close> ones.
\<close>

section \<open>Batches\<close>

record Batch =
  bt_row :: BatchRow
  bt_card_count :: nat

record NewBatch =
  nt_type :: string
  nt_name :: "string option"
  nt_notes :: "string option"
  nt_order :: "int option"
  nt_binder :: "int option"

record BatchDetail =
  bx_batch :: Batch
  bx_cards :: "CollectionRow list"

definition batch_view :: "tdb \<Rightarrow> BatchRow \<Rightarrow> Batch" where
  "batch_view db b =
     \<lparr>bt_row = b, bt_card_count = length (filter (\<lambda>c. ce_batch c = Some (ba_id b)) (tbl_rows (db_collection db)))\<rparr>"

definition batches_create :: "'j env \<Rightarrow> NewBatch \<Rightarrow> int dbact" where
  "batches_create env new =
     bind_act (now_rfc3339 env) (\<lambda>now.
     insert_batch (\<lambda>i. \<lparr>ba_id = i, ba_type = nt_type new, ba_name = nt_name new, ba_notes = nt_notes new,
       ba_order = nt_order new, ba_binder = nt_binder new, ba_created_at = now\<rparr>))"

definition batches_list :: "int \<Rightarrow> Batch list dbact" where
  "batches_list lim = query (\<lambda>db.
     let newest = map (batch_view db) (rev (tbl_rows (db_batches db))) in
     if 0 < lim then take (nat lim) newest else newest)"

definition batches_get_detail :: "'j env \<Rightarrow> int \<Rightarrow> BatchDetail option dbact" where
  "batches_get_detail env i =
     bind_act (query (\<lambda>db. map_option (batch_view db) (tbl_find ba_id i (db_batches db)))) (\<lambda>found.
     case found of
       None \<Rightarrow> ret None
     | Some b \<Rightarrow> bind_act (list_by_batch env i) (\<lambda>cards. ret (Some \<lparr>bx_batch = b, bx_cards = cards\<rparr>)))"

section \<open>Orders\<close>

record Order =
  or_row :: OrderRow
  or_card_count :: nat

record NewOrder =
  no_number :: "string option"
  no_source :: string
  no_seller :: "string option"
  no_date :: "string option"
  no_subtotal :: "f64 option"
  no_shipping :: "f64 option"
  no_tax :: "f64 option"
  no_total :: "f64 option"
  no_shipping_status :: "string option"
  no_delivery :: "string option"
  no_notes :: "string option"

record OrderLine =
  ol_printing :: string
  ol_quantity :: i64
  ol_price :: "f64 option"

record OrderDetail =
  ox_order :: Order
  ox_cards :: "CollectionRow list"

definition order_view :: "tdb \<Rightarrow> OrderRow \<Rightarrow> Order" where
  "order_view db ord =
     \<lparr>or_row = ord, or_card_count = length (filter (\<lambda>c. ce_order c = Some (od_id ord)) (tbl_rows (db_collection db)))\<rparr>"

text \<open>\<open>UNIQUE (order_number, source)\<close>, in which NULL differs from NULL.\<close>

definition insert_order :: "(int \<Rightarrow> OrderRow) \<Rightarrow> int dbact" where
  "insert_order mk = (\<lambda>db.
     let ord = mk (next_id (db_orders db)) in
     if list_ex (\<lambda>old. order_key_clash old ord) (tbl_rows (db_orders db)) then (Inl (Sqlite UniqueViolation), db)
     else (Inr (od_id ord), db\<lparr>db_orders := tbl_append ord (db_orders db)\<rparr>))"

definition order_row :: "NewOrder \<Rightarrow> string \<Rightarrow> int \<Rightarrow> OrderRow" where
  "order_row new now i =
     \<lparr>od_id = i, od_number = no_number new, od_source = no_source new, od_seller = no_seller new,
      od_date = no_date new, od_subtotal = no_subtotal new, od_shipping = no_shipping new,
      od_tax = no_tax new, od_total = no_total new, od_shipping_status = no_shipping_status new,
      od_delivery = no_delivery new, od_notes = no_notes new, od_created_at = now\<rparr>"

definition ordered_copy :: "OrderLine \<Rightarrow> string \<Rightarrow> int \<Rightarrow> int \<Rightarrow> int \<Rightarrow> CollectionEntry" where
  "ordered_copy line now order_id batch_id i =
     \<lparr>ce_id = i, ce_printing = ol_printing line, ce_condition = ''Near Mint'', ce_language = ''English'',
      ce_purchase_price = ol_price line, ce_sale_price = None, ce_acquired_at = now,
      ce_source = ''order_import'', ce_notes = None, ce_tags = None, ce_graded = False,
      ce_grade_company = None, ce_grade_value = None, ce_grade_cert = None, ce_status = ''ordered'',
      ce_order = Some order_id, ce_binder = None, ce_deck = None, ce_batch = Some batch_id\<rparr>"

definition missing_printing :: "'j env \<Rightarrow> OrderLine list \<Rightarrow> tdb \<Rightarrow> OrderLine option" where
  "missing_printing env lines db =
     List.find (\<lambda>l. \<not> printing_exists (env_catalog env) db (ol_printing l)) lines"

text \<open>The body of the loop over the copies of a line.\<close>

definition order_one :: "'j env \<Rightarrow> string \<Rightarrow> int \<Rightarrow> int \<Rightarrow> OrderLine \<Rightarrow> unit dbact" where
  "order_one env now order_id batch_id line =
     bind_act (insert_entry env (ordered_copy line now order_id batch_id)) (\<lambda>c.
     insert_status (\<lambda>l. \<lparr>sl_id = l, sl_collection = c, sl_from = None, sl_to = ''ordered'',
       sl_changed_at = now, sl_note = Some ''ordered''\<rparr>))"

definition order_batch :: "NewOrder \<Rightarrow> string \<Rightarrow> int \<Rightarrow> int \<Rightarrow> BatchRow" where
  "order_batch new now ord i = \<lparr>ba_id = i, ba_type = ''order_'' @ no_source new, ba_name = no_number new,
     ba_notes = None, ba_order = Some ord, ba_binder = None, ba_created_at = now\<rparr>"

lemma order_batch_simps [simp]:
  "ba_id (order_batch new now ord i) = i" "ba_order (order_batch new now ord i) = Some ord"
  "ba_binder (order_batch new now ord i) = None"
  by (simp_all add: order_batch_def)

definition orders_create :: "'j env \<Rightarrow> NewOrder \<Rightarrow> OrderLine list \<Rightarrow> int dbact" where
  "orders_create env new lines =
     bind_act (query (missing_printing env lines)) (\<lambda>missing.
     case missing of
       Some l \<Rightarrow> fail (NotFound (''printing '' @ quoted (ol_printing l) @ '' is not in the catalog''))
     | None \<Rightarrow>
         bind_act (now_rfc3339 env) (\<lambda>now.
         tx (bind_act (insert_order (order_row new now)) (\<lambda>order_id.
             bind_act (insert_batch (order_batch new now order_id)) (\<lambda>batch_id.
             bind_act (for_each lines (\<lambda>line.
               for_each (replicate (nat (max 1 (ol_quantity line))) line) (order_one env now order_id batch_id))) (\<lambda>_.
             ret order_id))))))"

definition orders_list :: "Order list dbact" where
  "orders_list = query (\<lambda>db. map (order_view db) (rev (tbl_rows (db_orders db))))"

definition orders_get_detail :: "'j env \<Rightarrow> int \<Rightarrow> OrderDetail option dbact" where
  "orders_get_detail env i =
     bind_act (query (\<lambda>db. map_option (order_view db) (tbl_find od_id i (db_orders db)))) (\<lambda>found.
     case found of
       None \<Rightarrow> ret None
     | Some ord \<Rightarrow> bind_act (list_by_order env i) (\<lambda>cards. ret (Some \<lparr>ox_order = ord, ox_cards = cards\<rparr>)))"

definition awaiting :: "int \<Rightarrow> CollectionEntry \<Rightarrow> bool" where
  "awaiting order_id c \<longleftrightarrow> ce_order c = Some order_id \<and> ce_status c = ''ordered''"

definition orders_receive :: "'j env \<Rightarrow> int \<Rightarrow> nat dbact" where
  "orders_receive env order_id =
     bind_act (query (\<lambda>db. map ce_id (filter (awaiting order_id) (tbl_rows (db_collection db))))) (\<lambda>ids.
     bind_act (for_each ids (\<lambda>i. set_status env i ''owned'' (Some ''order received''))) (\<lambda>_.
     ret (length ids)))"

section \<open>Schema, journal and audit trail\<close>

lemma insert_order_rules [stmt_rules, audit_rules]:
  "(\<And>i. od_id (mk i) = i) \<Longrightarrow> always keeps_schema (insert_order mk)"
  "(\<And>i. od_id (mk i) = i) \<Longrightarrow> always (journaled env) (insert_order mk)"
  "(\<And>i. od_id (mk i) = i) \<Longrightarrow> always keeps_audit (insert_order mk)"
proof -
  assume mk: "\<And>i. od_id (mk i) = i"
  show j: "always (journaled env) (insert_order mk)" for env :: "'j env"
    by (rule alwaysI, rule journaled_same)
      (use mk in \<open>auto simp: insert_order_def Let_def ids_ok_def split: if_splits\<close>)
  show s: "always keeps_schema (insert_order mk)"
  proof (rule keeps_schemaI [OF j])
    fix db r db' assume ok: "refs_ok db" and u: "insert_order mk db = (r, db')"
    let ?o = "mk (next_id (db_orders db))"
    show "refs_ok db'"
    proof (cases "db' = db")
      case False
      then have g: "\<forall>old \<in> set (tbl_rows (db_orders db)). \<not> order_key_clash old ?o"
          "db' = db\<lparr>db_orders := tbl_append ?o (db_orders db)\<rparr>"
        using u by (auto simp: insert_order_def Let_def list_ex_iff split: if_splits)
      show ?thesis
        unfolding refs_ok_def
      proof (intro conjI)
        show "sorted_wrt (\<lambda>a b. \<not> order_key_clash a b) (tbl_rows (db_orders db'))"
          using refs_okD(9) [OF ok] g by (simp add: sorted_wrt_append)
      qed (use refs_okD [OF ok] in \<open>simp_all add: g entry_refs_def movement_refs_def batch_refs_def refers_append\<close>)
    qed (use ok in simp)
  qed
  show "always keeps_audit (insert_order mk)"
    by (rule keeps_audit_same [OF s]) (auto simp: insert_order_def Let_def)
qed

lemma ordered_copy_simps [simp]:
  "ce_id (ordered_copy l now ord b i) = i" "ce_status (ordered_copy l now ord b i) = ''ordered''"
  by (simp_all add: ordered_copy_def)

lemma order_one_rules [stmt_rules, audit_rules]:
  "always keeps_schema (order_one env now ord b l)" "always (journaled env) (order_one env now ord b l)"
  "always keeps_audit (order_one env now ord b l)"
  unfolding order_one_def by (intro all_intros stmt_rules audit_rules; simp)+

lemma batches_create_rules [repo_rules, audit_rules]:
  "always keeps_schema (batches_create env new)" "always (journaled env) (batches_create env new)"
  "always keeps_audit (batches_create env new)"
  unfolding batches_create_def by (intro all_intros stmt_rules audit_rules; simp)+

lemma order_row_id [simp]: "od_id (order_row new now i) = i"
  by (simp add: order_row_def)

lemma orders_create_rules [repo_rules, audit_rules]:
  "always keeps_schema (orders_create env new lines)" "always (journaled env) (orders_create env new lines)"
  "always keeps_audit (orders_create env new lines)"
  unfolding orders_create_def by (intro all_intros stmt_rules audit_rules; simp)+

lemma orders_receive_rules [repo_rules, audit_rules]:
  "always keeps_schema (orders_receive env i)" "always (journaled env) (orders_receive env i)"
  "always keeps_audit (orders_receive env i)"
  unfolding orders_receive_def by (intro all_intros repo_rules audit_rules)+

section \<open>Properties\<close>

text \<open>
  What committing an order adds: the copies of the wanted lines, numbered on from \<open>i\<close>, and the opening
  entry of the status history of each, numbered on from \<open>j\<close>.
\<close>

fun ordered_copies :: "string \<Rightarrow> int \<Rightarrow> int \<Rightarrow> int \<Rightarrow> OrderLine list \<Rightarrow> CollectionEntry list" where
  "ordered_copies now ord b i [] = []"
| "ordered_copies now ord b i (l # ls) = ordered_copy l now ord b i # ordered_copies now ord b (i + 1) ls"

fun opening_log :: "string \<Rightarrow> int \<Rightarrow> CollectionEntry list \<Rightarrow> StatusLogRow list" where
  "opening_log now j [] = []"
| "opening_log now j (c # cs) = \<lparr>sl_id = j, sl_collection = ce_id c, sl_from = None, sl_to = ''ordered'',
     sl_changed_at = now, sl_note = Some ''ordered''\<rparr> # opening_log now (j + 1) cs"

definition number_used :: "NewOrder \<Rightarrow> tdb \<Rightarrow> bool" where
  "number_used new db \<longleftrightarrow> list_ex (\<lambda>old. no_number new \<noteq> None \<and> od_number old = no_number new \<and> od_source old = no_source new)
     (tbl_rows (db_orders db))"

definition wanted_lines :: "OrderLine list \<Rightarrow> OrderLine list" where
  "wanted_lines lines = concat (map (\<lambda>l. replicate (nat (max 1 (ol_quantity l))) l) lines)"

lemma order_one_run:
  assumes "tbl_has od_id (db_orders db) ord" "tbl_has ba_id (db_batches db) b"
  shows "\<exists>ob t. order_one env now ord b l db = (Inr (), db\<lparr>db_outbox := ob, db_ticks := t,
     db_collection := tbl_append (ordered_copy l now ord b (next_id (db_collection db))) (db_collection db),
     db_status_log := tbl_append \<lparr>sl_id = next_id (db_status_log db), sl_collection = next_id (db_collection db),
       sl_from = None, sl_to = ''ordered'', sl_changed_at = now, sl_note = Some ''ordered''\<rparr> (db_status_log db)\<rparr>)"
proof -
  have "entry_check (ordered_copy l now ord b i)" "entry_refs db (ordered_copy l now ord b i)" for i
    using assms by (simp_all add: entry_check_def entry_refs_def ordered_copy_def conditions_allowed_def statuses_allowed_def)
  then have 1: "insert_entry env (ordered_copy l now ord b) db = (Inr (next_id (db_collection db)),
      log_entries env ''insert'' [ordered_copy l now ord b (next_id (db_collection db))]
        (db\<lparr>db_collection := tbl_append (ordered_copy l now ord b (next_id (db_collection db))) (db_collection db)\<rparr>))"
    by (simp add: insert_entry_def Let_def)
  show ?thesis
    unfolding order_one_def bind_act_def 1 prod.case sum.case insert_status_def Let_def
    by (intro exI [of _ "log_rows (env_sql_now env (db_ticks db)) ''collection'' ''insert'' ce_id (env_row_json env)
        [ordered_copy l now ord b (next_id (db_collection db))] (db_outbox db)"] exI [of _ "Suc (db_ticks db)"])
      (simp add: log_entries_def)
qed

lemma order_copies_run:
  assumes "tbl_has od_id (db_orders db) ord" "tbl_has ba_id (db_batches db) b"
  shows "\<exists>ob t ct lt. for_each ls (order_one env now ord b) db =
       (Inr (), db\<lparr>db_outbox := ob, db_ticks := t, db_collection := ct, db_status_log := lt\<rparr>) \<and>
     tbl_rows ct = tbl_rows (db_collection db) @ ordered_copies now ord b (next_id (db_collection db)) ls \<and>
     tbl_rows lt = tbl_rows (db_status_log db) @
       opening_log now (next_id (db_status_log db)) (ordered_copies now ord b (next_id (db_collection db)) ls)"
  using assms
proof (induction ls arbitrary: db)
  case Nil
  then show ?case
    by (intro exI [of _ "db_outbox db"] exI [of _ "db_ticks db"] exI [of _ "db_collection db"] exI [of _ "db_status_log db"]) (simp add: ret_def)
next
  case (Cons l ls)
  obtain ob t where 1: "order_one env now ord b l db = (Inr (), db\<lparr>db_outbox := ob, db_ticks := t,
     db_collection := tbl_append (ordered_copy l now ord b (next_id (db_collection db))) (db_collection db),
     db_status_log := tbl_append \<lparr>sl_id = next_id (db_status_log db), sl_collection = next_id (db_collection db),
       sl_from = None, sl_to = ''ordered'', sl_changed_at = now, sl_note = Some ''ordered''\<rparr> (db_status_log db)\<rparr>)"
    (is "_ = (_, ?db1)")
    using order_one_run [OF Cons.prems] by blast
  have "tbl_has od_id (db_orders ?db1) ord" "tbl_has ba_id (db_batches ?db1) b" using Cons.prems by simp_all
  from Cons.IH [OF this] show ?case
    unfolding for_each.simps bind_act_def 1 prod.case sum.case by (auto simp: next_id_def)
qed

text \<open>
  C8. Committing an order: it is refused, leaving the database as it was, exactly when a line names
  an unknown printing or the number is already used with that source, the printing being checked first.
  Otherwise exactly one order row, one batch tied to it, the quantity's worth of copies line by line (a
  quantity below one counts as one), each \<open>ordered\<close>, priced as its line and tied to both, and the opening
  status entry of each copy appear, and besides the outbox and the clock nothing else changes.
\<close>

theorem orders_create_outcome:
  "case orders_create env new lines db of
     (Inl e, db') \<Rightarrow> untouched db db' \<and>
       (case missing_printing env lines db of
          Some l \<Rightarrow> e = NotFound (''printing '' @ quoted (ol_printing l) @ '' is not in the catalog'')
        | None \<Rightarrow> e = Sqlite UniqueViolation \<and> number_used new db)
   | (Inr ord, db') \<Rightarrow> missing_printing env lines db = None \<and> \<not> number_used new db \<and>
       (let now = env_now env (db_ticks db); b = next_id (db_batches db);
            copies = ordered_copies now ord b (next_id (db_collection db)) (wanted_lines lines) in
        ord = next_id (db_orders db) \<and>
        tbl_rows (db_orders db') = tbl_rows (db_orders db) @ [order_row new now ord] \<and>
        tbl_rows (db_batches db') = tbl_rows (db_batches db) @ [order_batch new now ord b] \<and>
        tbl_rows (db_collection db') = tbl_rows (db_collection db) @ copies \<and>
        tbl_rows (db_status_log db') = tbl_rows (db_status_log db) @ opening_log now (next_id (db_status_log db)) copies \<and>
        db' = db\<lparr>db_orders := db_orders db', db_batches := db_batches db', db_collection := db_collection db',
          db_status_log := db_status_log db', db_outbox := db_outbox db', db_ticks := db_ticks db'\<rparr>)"
proof (cases "missing_printing env lines db")
  case (Some l)
  then show ?thesis by (simp add: orders_create_def bind_act_def query_def fail_def)
next
  case None
  let ?now = "env_now env (db_ticks db)" and ?i = "next_id (db_orders db)" and ?b = "next_id (db_batches db)"
  define db1 where "db1 = db\<lparr>db_ticks := Suc (db_ticks db)\<rparr>"
  have now: "now_rfc3339 env db = (Inr ?now, db1)" by (simp add: now_rfc3339_def db1_def)
  have clash: "list_ex (\<lambda>old. order_key_clash old (order_row new ?now ?i)) (tbl_rows (db_orders db)) = number_used new db"
    unfolding number_used_def by (rule arg_cong [where f = "\<lambda>P. list_ex P _"]) (auto simp: order_key_clash_def order_row_def fun_eq_iff)
  show ?thesis
  proof (cases "number_used new db")
    case True
    then have "insert_order (order_row new ?now) db1 = (Inl (Sqlite UniqueViolation), db1)"
      by (simp add: insert_order_def db1_def clash)
    then have "orders_create env new lines db = (Inl (Sqlite UniqueViolation), rollback db1 db1)"
      by (simp add: orders_create_def bind_act_def query_def None now transaction_def)
    then show ?thesis using None True by (simp add: untouched_def rollback_def db1_def)
  next
    case False
    define db2 where "db2 = db1\<lparr>db_orders := tbl_append (order_row new ?now ?i) (db_orders db)\<rparr>"
    have o: "insert_order (order_row new ?now) db1 = (Inr ?i, db2)"
      using False by (simp add: insert_order_def db1_def db2_def clash)
    define db3 where "db3 = db2\<lparr>db_batches := tbl_append (order_batch new ?now ?i ?b) (db_batches db)\<rparr>"
    have bt: "insert_batch (order_batch new ?now ?i) db2 = (Inr ?b, db3)"
      by (simp add: insert_batch_def Let_def batch_refs_def db3_def db2_def db1_def)
    have "tbl_has od_id (db_orders db3) ?i" "tbl_has ba_id (db_batches db3) ?b"
      by (simp_all add: db3_def db2_def)
    from order_copies_run [OF this, of "wanted_lines lines" env ?now]
    obtain ob t ct lt where c: "for_each (wanted_lines lines) (order_one env ?now ?i ?b) db3 =
          (Inr (), db3\<lparr>db_outbox := ob, db_ticks := t, db_collection := ct, db_status_log := lt\<rparr>)"
        "tbl_rows ct = tbl_rows (db_collection db) @ ordered_copies ?now ?i ?b (next_id (db_collection db)) (wanted_lines lines)"
        "tbl_rows lt = tbl_rows (db_status_log db) @
           opening_log ?now (next_id (db_status_log db)) (ordered_copies ?now ?i ?b (next_id (db_collection db)) (wanted_lines lines))"
      by (auto simp: db3_def db2_def db1_def)
    have "orders_create env new lines db = (Inr ?i, db3\<lparr>db_outbox := ob, db_ticks := t, db_collection := ct, db_status_log := lt\<rparr>)"
      by (simp add: orders_create_def bind_act_def query_def None now transaction_def o bt for_each_concat
        c(1) [unfolded wanted_lines_def] ret_def)
    then show ?thesis
      using None False c(2,3) by (simp add: db3_def db2_def db1_def Let_def)
  qed
qed

text \<open>Receiving, copy by copy.\<close>

lemma receive_run:
  assumes "schema_ok db" "distinct ids" "\<forall>i \<in> set ids. tbl_has ce_id (db_collection db) i"
  shows "\<exists>db'. for_each ids (\<lambda>i. set_status env i ''owned'' note) db = (Inr (), db') \<and>
     db_collection db' = tbl_modify (\<lambda>c. ce_id c \<in> set ids) (\<lambda>c. c\<lparr>ce_status := ''owned''\<rparr>) (db_collection db)"
  using assms
proof (induction ids arbitrary: db)
  case (Cons i ids)
  let ?own = "\<lambda>c :: CollectionEntry. c\<lparr>ce_status := ''owned''\<rparr>"
  obtain c where c: "tbl_find ce_id i (db_collection db) = Some c"
    using Cons.prems(3) tbl_find_None [of ce_id i "db_collection db"] by fastforce
  obtain db1 where 1: "set_status env i ''owned'' note db = (Inr (), db1)" "schema_ok db1"
      "db_collection db1 = tbl_modify (\<lambda>c. ce_id c = i) ?own (db_collection db)"
    using set_status_ok [OF Cons.prems(1) c, of "''owned''" env "note"] by (auto simp: statuses_allowed_def)
  have "\<forall>j \<in> set ids. tbl_has ce_id (db_collection db1) j"
    using Cons.prems(3) by (simp add: 1(3) tbl_has_modify)
  then obtain db2 where 2: "for_each ids (\<lambda>i. set_status env i ''owned'' note) db1 = (Inr (), db2)"
      "db_collection db2 = tbl_modify (\<lambda>c. ce_id c \<in> set ids) ?own (db_collection db1)"
    using Cons.IH [OF 1(2)] Cons.prems(2) by auto
  have "tbl_modify (\<lambda>c. ce_id c \<in> set ids) ?own (tbl_modify (\<lambda>c. ce_id c = i) ?own (db_collection db)) =
      tbl_modify (\<lambda>c. ce_id c \<in> set (i # ids)) ?own (db_collection db)"
    by (simp add: tbl_modify_def)
  then show ?case using 1 2 by (simp add: bind_act_def)
qed (simp add: ret_def tbl_modify_def)

lemma orders_receive_run:
  assumes "schema_ok db"
  shows "\<exists>db'. orders_receive env i db =
       (Inr (length (filter (awaiting i) (tbl_rows (db_collection db)))), db') \<and>
     db_collection db' = tbl_modify (awaiting i) (\<lambda>c. c\<lparr>ce_status := ''owned''\<rparr>) (db_collection db)"
proof -
  let ?ids = "map ce_id (filter (awaiting i) (tbl_rows (db_collection db)))"
  have dist: "distinct (map ce_id (tbl_rows (db_collection db)))"
    using assms by (simp add: schema_ok_def ids_ok_def tbl_ok_distinct)
  then have "ce_id c \<in> set ?ids \<longleftrightarrow> awaiting i c" if "c \<in> set (tbl_rows (db_collection db))" for c
    using that by (auto simp: distinct_map inj_on_def)
  then have "tbl_modify (\<lambda>c. ce_id c \<in> set ?ids) (\<lambda>c. c\<lparr>ce_status := ''owned''\<rparr>) (db_collection db) =
      tbl_modify (awaiting i) (\<lambda>c. c\<lparr>ce_status := ''owned''\<rparr>) (db_collection db)"
    by (simp add: tbl_modify_def)
  moreover have "distinct ?ids" "\<forall>j \<in> set ?ids. tbl_has ce_id (db_collection db) j"
    using dist by (auto simp: distinct_map_filter tbl_has_iff)
  ultimately show ?thesis
    using receive_run [OF assms, of ?ids env "Some ''order received''"]
    by (auto simp: orders_receive_def bind_act_def query_def ret_def)
qed

text \<open>
  C9. Receiving an order never fails on a consistent database: it reports the copies of the order
  that were still \<open>ordered\<close>, makes exactly those \<open>owned\<close> and changes nothing else of any copy.
\<close>

theorem orders_receive_outcome:
  assumes "schema_ok db"
  shows "\<exists>db'. orders_receive env i db =
       (Inr (length (filter (\<lambda>c. ce_order c = Some i \<and> ce_status c = ''ordered'') (tbl_rows (db_collection db)))), db') \<and>
     tbl_rows (db_collection db') =
       map (\<lambda>c. if ce_order c = Some i \<and> ce_status c = ''ordered'' then c\<lparr>ce_status := ''owned''\<rparr> else c)
         (tbl_rows (db_collection db))"
  using orders_receive_run [OF assms, of env i] by (auto simp: awaiting_def [abs_def])

text \<open>An order of two copies of one printing.\<close>

definition sample_ordered :: tdb where
  "sample_ordered = after (orders_create sample_env
     \<lparr>no_number = Some ''A1'', no_source = ''lgs'', no_seller = None, no_date = None, no_subtotal = None,
      no_shipping = None, no_tax = None, no_total = None, no_shipping_status = None, no_delivery = None,
      no_notes = None\<rparr> [\<lparr>ol_printing = ''base1-4:holofoil'', ol_quantity = 2, ol_price = None\<rparr>]) empty_db"

lemma sample_ordered_ok: "schema_ok sample_ordered"
  unfolding sample_ordered_def by (intro after_schema repo_rules schema_ok_empty)

lemma sample_ordered_rows:
  "map ce_status (tbl_rows (db_collection sample_ordered)) = [''ordered'', ''ordered'']"
  "map (\<lambda>c. ce_order c = Some 1 \<and> ce_status c = ''ordered'') (tbl_rows (db_collection sample_ordered)) = [True, True]"
  by (simp_all add: sample_ordered_def orders_create_def missing_printing_def insert_order_def order_row_def
      insert_batch_def batch_refs_def order_one_def ordered_copy_def awaiting_def numeral_2_eq_2 run_defs)

theorem orders_receive_outcome_witness:
  "\<exists>db'. orders_receive sample_env 1 sample_ordered = (Inr 2, db') \<and>
     map ce_status (tbl_rows (db_collection db')) = [''owned'', ''owned'']"
proof -
  obtain a b where "tbl_rows (db_collection sample_ordered) = [a, b]"
      "ce_order a = Some 1 \<and> ce_status a = ''ordered''" "ce_order b = Some 1 \<and> ce_status b = ''ordered''"
    using sample_ordered_rows(2) by (auto simp: map_eq_Cons_conv)
  then show ?thesis
    using orders_receive_outcome [OF sample_ordered_ok, of sample_env 1] by auto
qed

end
