(* ===== verification/Import_Resolve.thy ===== *)
theory Import_Resolve
  imports Import_Csv Sample
begin

text \<open>
  Resolving parsed import rows against the catalog: the reading half of \<open>pkdump-db/src/import.rs\<close>.
  A query that stops at its first row takes the first of the matching catalog rows in the order of
  the catalog's lists, which stands for the order SQLite scans them in.
\<close>

section \<open>Formats\<close>

datatype ImportFormat = Manabox | Tcgplayer | Pokedumpster | Collectr

definition apos :: string where
  "apos = [CHR 0x27]"

definition import_format_parse :: "runtime \<Rightarrow> string \<Rightarrow> DbError + ImportFormat" where
  "import_format_parse rt name =
     (let other = str_lower rt (trim name) in
      if other = ''manabox'' then Inr Manabox
      else if other = ''tcgplayer'' then Inr Tcgplayer
      else if other \<in> set [''pokedumpster'', ''pkmngg''] then Inr Pokedumpster
      else if other = ''collectr'' then Inr Collectr
      else Inl (Import (''unknown import format '' @ apos @ other @ apos)))"

fun format_source :: "ImportFormat \<Rightarrow> string" where
  "format_source Manabox = ''csv_manabox''"
| "format_source Tcgplayer = ''csv_tcgplayer''"
| "format_source Pokedumpster = ''csv_pokedumpster''"
| "format_source Collectr = ''csv_collectr''"

fun format_batch_type :: "ImportFormat \<Rightarrow> string" where
  "format_batch_type Manabox = ''csv_manabox''"
| "format_batch_type Tcgplayer = ''csv_tcgplayer''"
| "format_batch_type Pokedumpster = ''csv_pokedumpster''"
| "format_batch_type Collectr = ''csv_collectr''"

text \<open>\<open>From<ImportError> for DbError\<close>: the message of the error.\<close>

fun import_error :: "ImportError \<Rightarrow> DbError" where
  "import_error (Csv e) = Import (''CSV parse error: '' @ e)"
| "import_error (MissingColumn c) = Import (''missing required column: '' @ c)"
| "import_error (BadRow line message) = Import (''line '' @ show_nat line @ '': '' @ message)"

definition import_result :: "ImportError + 'a \<Rightarrow> DbError + 'a" where
  "import_result r = (case r of Inl e \<Rightarrow> Inl (import_error e) | Inr v \<Rightarrow> Inr v)"

fun import_parse :: "runtime \<Rightarrow> ImportFormat \<Rightarrow> string \<Rightarrow> DbError + ParsedRow list" where
  "import_parse rt Manabox input = import_result (manabox_parse rt input)"
| "import_parse rt Tcgplayer input = import_result (tcgplayer_parse rt input)"
| "import_parse rt Pokedumpster input = import_result (pokedumpster_parse rt input)"
| "import_parse rt Collectr input =
     Inl (Import ''Collectr yields sealed products too; use the combined import path'')"

section \<open>Reports\<close>

record ResolvedRow =
  rr_source_line :: nat
  rr_printing :: string
  rr_card_name :: string
  rr_set_code :: string
  rr_number :: string
  rr_variant :: string
  rr_condition :: string
  rr_language :: string
  rr_purchase_price :: "f64 option"
  rr_acquired_at :: "string option"
  rr_tags :: "string list"
  rr_already_owned :: nat

record UnmatchedRow =
  ur_source_line :: nat
  ur_set_hint :: string
  ur_number :: string
  ur_variant :: string
  ur_reason :: string

record ResolutionReport =
  rp_matched :: "ResolvedRow list"
  rp_unmatched :: "UnmatchedRow list"

text \<open>\<open>as u32\<close>.\<close>

definition as_u32 :: "nat \<Rightarrow> nat" where
  "as_u32 n = n mod 2 ^ 32"

section \<open>Sets\<close>

text \<open>\<open>COLLATE NOCASE\<close> folds the ASCII letters; a NULL equals nothing.\<close>

definition set_where :: "catalog \<Rightarrow> (SetRow \<Rightarrow> bool) \<Rightarrow> string option" where
  "set_where cat P = map_option st_code (List.find P (cat_sets cat))"

definition set_alias :: "catalog \<Rightarrow> string \<Rightarrow> string option" where
  "set_alias cat label = map_option snd (List.find (\<lambda>(a, _). eq_ignore_ascii_case a label) (cat_set_aliases cat))"

definition with_name :: "string option \<Rightarrow> (string \<Rightarrow> string option) \<Rightarrow> string option" where
  "with_name name f = (case name of Some n \<Rightarrow> f n | None \<Rightarrow> None)"

definition resolve_set :: "catalog \<Rightarrow> string \<Rightarrow> string option \<Rightarrow> string option" where
  "resolve_set cat hint name =
     (let by_name = (\<lambda>n. set_where cat (\<lambda>s. eq_ignore_ascii_case (st_name s) n)) in
      coalesce (set_where cat (\<lambda>s. eq_ignore_ascii_case (st_code s) hint))
        (coalesce (set_where cat (\<lambda>s. case st_ptcgo s of Some p \<Rightarrow> eq_ignore_ascii_case p hint | None \<Rightarrow> False))
          (coalesce (with_name name by_name)
            (coalesce (by_name hint)
              (coalesce (with_name name (set_alias cat)) (set_alias cat hint))))))"

section \<open>Names and numbers\<close>

text \<open>The character folding of \<open>normalize_name\<close>: quotes, accents of e, hyphens and dashes.\<close>

definition curly_quotes :: "uchar list" where
  "curly_quotes = [[CHR 0xE2, CHR 0x80, CHR 0x99], [CHR 0xE2, CHR 0x80, CHR 0x98], [CHR 0x60],
                   [CHR 0xCA, CHR 0xBC]]"

definition accented_e :: "uchar list" where
  "accented_e = [[CHR 0xC3, CHR 0xA9], [CHR 0xC3, CHR 0x89], [CHR 0xC3, CHR 0xA8], [CHR 0xC3, CHR 0xAB]]"

definition dashes :: "uchar list" where
  "dashes = [[CHR 0x2D], [CHR 0xE2, CHR 0x80, CHR 0x90], [CHR 0xE2, CHR 0x80, CHR 0x91],
             [CHR 0xE2, CHR 0x80, CHR 0x93], [CHR 0xE2, CHR 0x80, CHR 0x94]]"

definition fold_char :: "uchar \<Rightarrow> uchar" where
  "fold_char c =
     (if c \<in> set curly_quotes then apos
      else if c \<in> set accented_e then ''e''
      else if c \<in> set dashes then '' '' else c)"

fun name_loop :: "runtime \<Rightarrow> bool \<Rightarrow> string \<Rightarrow> uchar list \<Rightarrow> string" where
  "name_loop rt prev_ws out [] = out"
| "name_loop rt prev_ws out (c # cs) =
     (let c = fold_char c in
      if is_whitespace c
      then name_loop rt True (if \<not> prev_ws \<and> out \<noteq> [] then out @ '' '' else out) cs
      else name_loop rt False (out @ char_lower rt c) cs)"

definition normalize_name :: "runtime \<Rightarrow> string \<Rightarrow> string" where
  "normalize_name rt name = rev (dropWhile (\<lambda>c. c = CHR '' '') (rev (name_loop rt False [] (chars name))))"

lemma rfind_char_less: "rfind_char x s = Some i \<Longrightarrow> i < length s"
  by (induction s arbitrary: i) (auto split: option.splits if_splits)

lemma length_concat_rev [simp]: "length (concat (rev us)) = length (concat us)"
  by (induction us) simp_all

lemma length_concat_dropWhile: "length (concat (dropWhile P us)) \<le> length (concat us)"
  by (induction us) simp_all

lemma length_trim_end: "length (trim_end s) \<le> length s"
  using length_concat_dropWhile [of is_whitespace "rev (chars s)"] by (simp add: trim_end_def)

text \<open>The opening bracket of the group that ends the name, if one does.\<close>

definition closing :: "string \<Rightarrow> char option" where
  "closing s =
     (if s = [] then None
      else if last s = CHR '')'' then Some (CHR ''('')
      else if last s = CHR '']'' then Some (CHR ''['') else None)"

function strip_loop :: "string \<Rightarrow> string" where
  "strip_loop s =
     (case closing s of
        None \<Rightarrow> s
      | Some b \<Rightarrow> (case rfind_char b s of
          Some pos \<Rightarrow> strip_loop (trim_end (take pos s))
        | None \<Rightarrow> s))"
  by pat_completeness auto
termination
  by (relation "measure length")
    (auto dest: rfind_char_less intro!: le_less_trans [OF length_trim_end])

declare strip_loop.simps [simp del]

definition strip_trailing_descriptors :: "string \<Rightarrow> string" where
  "strip_trailing_descriptors name = strip_loop (trim name)"

definition number_core :: "runtime \<Rightarrow> string \<Rightarrow> string \<Rightarrow> string" where
  "number_core rt number set_code =
     (let lower = str_lower rt (trim number);
          tail = (case strip_prefix (str_lower rt set_code) lower of
                    Some t \<Rightarrow> trim_start t | None \<Rightarrow> lower) in
      normalize_collector_number tail)"

section \<open>Cards\<close>

datatype CardMatch = One string string string | Ambiguous "string list" | NoCard

definition global_card_fallback :: "runtime \<Rightarrow> catalog \<Rightarrow> string \<Rightarrow> string \<Rightarrow> CardMatch" where
  "global_card_fallback rt cat want_name number =
     (let want = normalize_name rt (strip_trailing_descriptors want_name) in
      if want = [] then NoCard
      else case filter (\<lambda>c. cd_number c = number \<and> normalize_name rt (cd_name c) = want) (cat_cards cat) of
             [] \<Rightarrow> NoCard
           | [c] \<Rightarrow> One (cd_id c) (cd_name c) (cd_set c)
           | hits \<Rightarrow> Ambiguous (map (\<lambda>c. cd_set c @ '' #'' @ number) hits))"

definition set_scoped_number_match ::
  "runtime \<Rightarrow> catalog \<Rightarrow> string \<Rightarrow> string \<Rightarrow> string option \<Rightarrow> CardMatch" where
  "set_scoped_number_match rt cat set_code lookup_number want_name =
     (let want_core = number_core rt lookup_number set_code in
      case filter (\<lambda>c. cd_set c = set_code \<and> number_core rt (cd_number c) set_code = want_core) (cat_cards cat) of
        [] \<Rightarrow> NoCard
      | [c] \<Rightarrow> One (cd_id c) (cd_name c) set_code
      | many \<Rightarrow>
          (let ambiguous = Ambiguous (map (\<lambda>c. cd_name c @ '' #'' @ want_core) many) in
           case want_name of
             None \<Rightarrow> ambiguous
           | Some want \<Rightarrow>
               (let want_n = normalize_name rt (strip_trailing_descriptors want) in
                case filter (\<lambda>c. normalize_name rt (cd_name c) = want_n) many of
                  [c] \<Rightarrow> One (cd_id c) (cd_name c) set_code
                | _ \<Rightarrow> ambiguous)))"

text \<open>\<open>SELECT card_id, name FROM cards WHERE set_code = ? AND number = ?\<close>, first row.\<close>

definition direct_lookup :: "catalog \<Rightarrow> string \<Rightarrow> string \<Rightarrow> CardRow option" where
  "direct_lookup cat set_code number =
     List.find (\<lambda>c. cd_set c = set_code \<and> cd_number c = number) (cat_cards cat)"

text \<open>
  The card of a row: id, name and set, or the reason there is none. The set code is the answer of
  \<open>resolve_set\<close>.
\<close>

definition resolve_card ::
  "runtime \<Rightarrow> catalog \<Rightarrow> string option \<Rightarrow> ParsedRow \<Rightarrow> string + (string \<times> string \<times> string)" where
  "resolve_card rt cat set_code row =
     (let number = normalize_collector_number (pr_number row);
          direct = (case set_code of Some sc \<Rightarrow> direct_lookup cat sc number | None \<Rightarrow> None);
          scoped = (case (direct, set_code) of
                      (None, Some sc) \<Rightarrow> set_scoped_number_match rt cat sc number (pr_name row)
                    | _ \<Rightarrow> NoCard);
          shown = (case set_code of Some sc \<Rightarrow> sc | None \<Rightarrow> ''?'') in
      case direct of
        Some c \<Rightarrow> Inr (cd_id c, cd_name c, shown)
      | None \<Rightarrow>
          (case scoped of
             One i n s \<Rightarrow> Inr (i, n, s)
           | Ambiguous cands \<Rightarrow>
               Inl (''#'' @ number @ '' in '' @ shown @ '' is ambiguous: matches '' @ join '', '' cands)
           | NoCard \<Rightarrow>
               (case pr_name row of
                  Some want \<Rightarrow>
                    (case global_card_fallback rt cat want number of
                       One i n s \<Rightarrow> Inr (i, n, s)
                     | Ambiguous cands \<Rightarrow>
                         Inl (apos @ want @ apos @ '' #'' @ number @ '' is ambiguous: matches '' @ join '', '' cands)
                     | NoCard \<Rightarrow> Inl (case set_code of
                           Some sc \<Rightarrow> ''card #'' @ number @ '' not found in '' @ sc @ ''; no '' @ apos @ want @
                                      apos @ '' #'' @ number @ '' in any set''
                         | None \<Rightarrow> ''no card '' @ apos @ want @ apos @ '' #'' @ number @ '' in any set (set '' @
                                   apos @ pr_set_hint row @ apos @ '' unknown)''))
                | None \<Rightarrow> Inl (case set_code of
                      Some sc \<Rightarrow> ''card #'' @ number @ '' not found in '' @ sc
                    | None \<Rightarrow> ''unknown set '' @ apos @ pr_set_hint row @ apos))))"

section \<open>Rows\<close>

definition unmatched_row :: "ParsedRow \<Rightarrow> string \<Rightarrow> UnmatchedRow" where
  "unmatched_row row reason =
     \<lparr>ur_source_line = as_u32 (pr_source_line row), ur_set_hint = pr_set_hint row, ur_number = pr_number row,
      ur_variant = pr_variant row, ur_reason = reason\<rparr>"

definition live_printing :: "catalog \<Rightarrow> string \<Rightarrow> string \<Rightarrow> PrintingRow option" where
  "live_printing cat card_id variant =
     List.find (\<lambda>p. pg_card p = card_id \<and> pg_variant p = variant \<and> pg_deprecated_at p = None) (cat_printings cat)"

definition resolve_row :: "runtime \<Rightarrow> catalog \<Rightarrow> string option \<Rightarrow> ParsedRow \<Rightarrow> UnmatchedRow + ResolvedRow" where
  "resolve_row rt cat set_code row =
     (case resolve_card rt cat set_code row of
        Inl reason \<Rightarrow> Inl (unmatched_row row reason)
      | Inr (card_id, card_name, resolved_set) \<Rightarrow>
          (case live_printing cat card_id (pr_variant row) of
             None \<Rightarrow> Inl (unmatched_row row (''variant '' @ apos @ pr_variant row @ apos @ '' not available for '' @ card_name))
           | Some p \<Rightarrow> Inr
               \<lparr>rr_source_line = as_u32 (pr_source_line row), rr_printing = pg_id p, rr_card_name = card_name,
                rr_set_code = resolved_set, rr_number = normalize_collector_number (pr_number row),
                rr_variant = pr_variant row, rr_condition = pr_condition row, rr_language = pr_language row,
                rr_purchase_price = pr_purchase_price row, rr_acquired_at = pr_acquired_at row,
                rr_tags = pr_tags row, rr_already_owned = 0\<rparr>))"

text \<open>The lookup cache of one file, from hint and name to the answer of \<open>resolve_set\<close>.\<close>

type_synonym set_cache = "string \<times> string option \<rightharpoonup> string option"

definition cached_set :: "catalog \<Rightarrow> string \<Rightarrow> string option \<Rightarrow> set_cache \<Rightarrow> string option \<times> set_cache" where
  "cached_set cat hint name cache =
     (case cache (hint, name) of
        Some c \<Rightarrow> (c, cache)
      | None \<Rightarrow> let c = resolve_set cat hint name in (c, cache((hint, name) \<mapsto> c)))"

fun resolve_loop :: "runtime \<Rightarrow> catalog \<Rightarrow> set_cache \<Rightarrow> ParsedRow list \<Rightarrow> ResolutionReport \<Rightarrow> ResolutionReport" where
  "resolve_loop rt cat cache [] report = report"
| "resolve_loop rt cat cache (row # rows) report =
     (let (set_code, cache) = cached_set cat (pr_set_hint row) (pr_set_name row) cache in
      resolve_loop rt cat cache rows
        (case resolve_row rt cat set_code row of
           Inl u \<Rightarrow> report\<lparr>rp_unmatched := rp_unmatched report @ [u]\<rparr>
         | Inr r \<Rightarrow> report\<lparr>rp_matched := rp_matched report @ [r]\<rparr>))"

definition resolve_rows :: "runtime \<Rightarrow> catalog \<Rightarrow> ParsedRow list \<Rightarrow> ResolutionReport" where
  "resolve_rows rt cat rows = resolve_loop rt cat Map.empty rows \<lparr>rp_matched = [], rp_unmatched = []\<rparr>"

definition filter_report :: "ResolutionReport \<Rightarrow> nat list \<Rightarrow> ResolutionReport" where
  "filter_report report include =
     \<lparr>rp_matched = filter (\<lambda>r. rr_source_line r \<in> set include) (rp_matched report), rp_unmatched = []\<rparr>"

definition tags_json :: "string list \<Rightarrow> string" where
  "tags_json tags = ''['' @ join '','' (map (\<lambda>t. [CHR 0x22] @ t @ [CHR 0x22]) tags) @ '']''"

text \<open>\<open>SELECT printing_id, COUNT(*) ... GROUP BY printing_id\<close> over the owned copies, then the map lookup.\<close>

definition owned_copies :: "tdb \<Rightarrow> string \<Rightarrow> nat" where
  "owned_copies db printing =
     as_u32 (length (filter (\<lambda>c. ce_status c = ''owned'' \<and> ce_printing c = printing) (tbl_rows (db_collection db))))"

definition annotate_owned :: "tdb \<Rightarrow> ResolutionReport \<Rightarrow> ResolutionReport" where
  "annotate_owned db report =
     (if rp_matched report = [] then report
      else report\<lparr>rp_matched := map (\<lambda>m. m\<lparr>rr_already_owned := owned_copies db (rr_printing m)\<rparr>) (rp_matched report)\<rparr>)"

section \<open>The loop and its cache\<close>

fun lefts :: "('a + 'b) list \<Rightarrow> 'a list" where
  "lefts [] = []"
| "lefts (Inl x # rs) = x # lefts rs"
| "lefts (Inr y # rs) = lefts rs"

fun rights :: "('a + 'b) list \<Rightarrow> 'b list" where
  "rights [] = []"
| "rights (Inl x # rs) = rights rs"
| "rights (Inr y # rs) = y # rights rs"

lemma set_rights: "y \<in> set (rights rs) \<longleftrightarrow> Inr y \<in> set rs"
  by (induction rs rule: rights.induct) auto

lemma set_lefts: "x \<in> set (lefts rs) \<longleftrightarrow> Inl x \<in> set rs"
  by (induction rs rule: lefts.induct) auto

lemma length_lefts_rights: "length (lefts rs) + length (rights rs) = length rs"
  by (induction rs rule: lefts.induct) auto

text \<open>What one row resolves to, looked up afresh.\<close>

definition row_outcome :: "runtime \<Rightarrow> catalog \<Rightarrow> ParsedRow \<Rightarrow> UnmatchedRow + ResolvedRow" where
  "row_outcome rt cat row = resolve_row rt cat (resolve_set cat (pr_set_hint row) (pr_set_name row)) row"

definition cache_true :: "catalog \<Rightarrow> set_cache \<Rightarrow> bool" where
  "cache_true cat cache \<longleftrightarrow> (\<forall>h n c. cache (h, n) = Some c \<longrightarrow> c = resolve_set cat h n)"

lemma cached_set_true:
  assumes "cache_true cat cache"
  obtains cache' where "cached_set cat hint name cache = (resolve_set cat hint name, cache')" "cache_true cat cache'"
  using assms by (cases "cache (hint, name)") (auto simp: cached_set_def cache_true_def Let_def)

lemma resolve_loop_rowwise:
  "cache_true cat cache \<Longrightarrow> resolve_loop rt cat cache rows report =
     \<lparr>rp_matched = rp_matched report @ rights (map (row_outcome rt cat) rows),
      rp_unmatched = rp_unmatched report @ lefts (map (row_outcome rt cat) rows)\<rparr>"
proof (induction rows arbitrary: cache report)
  case (Cons row rows)
  obtain cache' where c: "cached_set cat (pr_set_hint row) (pr_set_name row) cache =
      (resolve_set cat (pr_set_hint row) (pr_set_name row), cache')" "cache_true cat cache'"
    using cached_set_true [OF Cons.prems] by blast
  show ?case by (cases "row_outcome rt cat row") (simp_all add: c Cons.IH row_outcome_def [symmetric])
qed simp

lemma resolve_rows_outcomes:
  "resolve_rows rt cat rows =
     \<lparr>rp_matched = rights (map (row_outcome rt cat) rows), rp_unmatched = lefts (map (row_outcome rt cat) rows)\<rparr>"
  by (simp add: resolve_rows_def resolve_loop_rowwise cache_true_def)

section \<open>Properties\<close>

text \<open>
  The set cache is invisible and no row is lost: the report holds, in file order, exactly the
  outcome of every row resolved on its own, the misses on one side and the hits on the other.
\<close>

theorem resolve_rows_rowwise:
  "resolve_rows rt cat rows =
     \<lparr>rp_matched = rights (map (row_outcome rt cat) rows), rp_unmatched = lefts (map (row_outcome rt cat) rows)\<rparr> \<and>
   length (rp_matched (resolve_rows rt cat rows)) + length (rp_unmatched (resolve_rows rt cat rows)) = length rows"
  using length_lefts_rights [of "map (row_outcome rt cat) rows"] by (simp add: resolve_rows_outcomes)

lemma find_member: "List.find P xs = Some x \<Longrightarrow> x \<in> set xs \<and> P x"
  by (induction xs) (auto split: if_splits)

text \<open>How the card of a row was found: by number in its set, by number core in its set, by name anywhere.\<close>

definition card_fits :: "runtime \<Rightarrow> string option \<Rightarrow> ParsedRow \<Rightarrow> CardRow \<Rightarrow> bool" where
  "card_fits rt set_code row c \<longleftrightarrow>
     (let number = normalize_collector_number (pr_number row) in
      Some (cd_set c) = set_code \<and> number_core rt (cd_number c) (cd_set c) = number_core rt number (cd_set c) \<or>
      cd_number c = number \<and>
        (\<exists>want. pr_name row = Some want \<and>
           normalize_name rt (cd_name c) = normalize_name rt (strip_trailing_descriptors want)))"

lemma filter_hit: "filter P xs = c # cs \<Longrightarrow> c \<in> set xs \<and> P c"
  using filter_set [of P xs] by (metis (mono_tags, lifting) filter_is_subset list.set_intros(1) mem_Collect_eq set_filter)

lemma global_card_fallback_One:
  assumes "global_card_fallback rt cat want number = One i n s"
  shows "\<exists>c \<in> set (cat_cards cat). cd_id c = i \<and> cd_name c = n \<and> cd_set c = s \<and> cd_number c = number \<and>
    normalize_name rt (cd_name c) = normalize_name rt (strip_trailing_descriptors want)"
  using assms
  by (auto simp: global_card_fallback_def Let_def split: if_splits list.splits dest!: filter_hit)

lemma set_scoped_number_match_One:
  assumes "set_scoped_number_match rt cat sc number want = One i n s"
  shows "\<exists>c \<in> set (cat_cards cat). cd_id c = i \<and> cd_name c = n \<and> cd_set c = s \<and> s = sc \<and>
    number_core rt (cd_number c) sc = number_core rt number sc"
proof -
  let ?P = "\<lambda>c. cd_set c = sc \<and> number_core rt (cd_number c) sc = number_core rt number sc"
  define many where "many = filter ?P (cat_cards cat)"
  have "\<exists>d \<in> set many. cd_id d = i \<and> cd_name d = n \<and> s = sc"
    using assms unfolding set_scoped_number_match_def Let_def many_def [symmetric]
    by (auto simp del: filter.simps split: list.splits option.splits dest!: filter_hit)
  then show ?thesis by (auto simp: many_def)
qed

lemma resolve_card_sound:
  assumes "resolve_card rt cat set_code row = Inr (i, n, s)"
  shows "\<exists>c \<in> set (cat_cards cat). cd_id c = i \<and> cd_name c = n \<and> cd_set c = s \<and> card_fits rt set_code row c"
proof -
  let ?number = "normalize_collector_number (pr_number row)"
  consider (direct) sc c where "set_code = Some sc" "direct_lookup cat sc ?number = Some c"
      "i = cd_id c" "n = cd_name c" "s = sc"
    | (scoped) sc where "set_code = Some sc" "set_scoped_number_match rt cat sc ?number (pr_name row) = One i n s"
    | (global) want where "pr_name row = Some want" "global_card_fallback rt cat want ?number = One i n s"
    using assms by (auto simp: resolve_card_def Let_def split: option.splits CardMatch.splits)
  then show ?thesis
  proof cases
    case direct
    then show ?thesis
      using find_member [OF direct(2) [unfolded direct_lookup_def]] by (intro bexI [of _ c]) (simp_all add: card_fits_def)
  next
    case scoped
    then show ?thesis using set_scoped_number_match_One [OF scoped(2)] by (auto simp: card_fits_def Let_def)
  next
    case global
    then show ?thesis using global_card_fallback_One [OF global(2)] by (auto simp: card_fits_def Let_def)
  qed
qed

text \<open>
  C14. A matched row is a real printing: it is in the catalog, not deprecated and has the variant of
  the row; its card has the row's number, literally with the row's name or in the row's own set up to the
  set prefix and leading zeros; and condition, language, price, date and tags are the row's.
\<close>

theorem matched_rows_sound:
  assumes "r \<in> set (rp_matched (resolve_rows rt cat rows))"
  shows "\<exists>row \<in> set rows. \<exists>p \<in> set (cat_printings cat). \<exists>c \<in> set (cat_cards cat).
     pg_id p = rr_printing r \<and> pg_card p = cd_id c \<and> pg_variant p = pr_variant row \<and> pg_deprecated_at p = None \<and>
     cd_name c = rr_card_name r \<and> cd_set c = rr_set_code r \<and>
     card_fits rt (resolve_set cat (pr_set_hint row) (pr_set_name row)) row c \<and>
     (rr_condition r, rr_language r, rr_purchase_price r, rr_acquired_at r, rr_tags r) =
       (pr_condition row, pr_language row, pr_purchase_price row, pr_acquired_at row, pr_tags row)"
proof -
  obtain row where row: "row \<in> set rows" "row_outcome rt cat row = Inr r"
    using assms by (auto simp: resolve_rows_outcomes set_rights)
  then obtain i n s p where ip: "resolve_card rt cat (resolve_set cat (pr_set_hint row) (pr_set_name row)) row = Inr (i, n, s)"
      "live_printing cat i (pr_variant row) = Some p"
    and r: "rr_printing r = pg_id p" "rr_card_name r = n" "rr_set_code r = s" "rr_condition r = pr_condition row"
      "rr_language r = pr_language row" "rr_purchase_price r = pr_purchase_price row"
      "rr_acquired_at r = pr_acquired_at row" "rr_tags r = pr_tags row"
    by (auto simp: row_outcome_def resolve_row_def split: sum.splits option.splits)
  have "p \<in> set (cat_printings cat) \<and> pg_card p = i \<and> pg_variant p = pr_variant row \<and> pg_deprecated_at p = None"
    using find_member [OF ip(2) [unfolded live_printing_def]] by simp
  with resolve_card_sound [OF ip(1)] row(1) r show ?thesis by (intro bexI [of _ row] bexI [of _ p]) auto
qed

text \<open>
  An exact hit on set and number is taken whatever the row's name says: of several cards that share
  the number in the set, the first one of the scan is the answer, where the number-core fallback would
  compare the names or report the ambiguity.
\<close>

theorem direct_hit_ignores_name:
  assumes "direct_lookup cat set_code (normalize_collector_number (pr_number row)) = Some c"
  shows "resolve_card rt cat (Some set_code) (row\<lparr>pr_name := name\<rparr>) = Inr (cd_id c, cd_name c, set_code)"
  using assms by (simp add: resolve_card_def)

definition sample_import_row :: ParsedRow where
  "sample_import_row = \<lparr>pr_source_line = 2, pr_set_hint = ''bs'', pr_set_name = None, pr_name = Some ''Charizard'',
     pr_number = ''004'', pr_variant = ''holofoil'', pr_condition = ''Near Mint'', pr_language = ''English'',
     pr_purchase_price = None, pr_acquired_at = None, pr_tags = [''altered'']\<rparr>"

lemma sample_import_resolved:
  "map rr_printing (rp_matched (resolve_rows plain_runtime sample_catalog [sample_import_row])) = [''base1-4:holofoil'']"
proof -
  have set: "resolve_set sample_catalog ''bs'' None = Some ''base1''" by code_simp
  have "normalize_collector_number ''004'' = ''4''" by code_simp
  then have "direct_lookup sample_catalog ''base1'' (normalize_collector_number (pr_number sample_import_row)) =
      Some (hd (cat_cards sample_catalog))"
    by (simp add: sample_import_row_def direct_lookup_def sample_catalog_def)
  then have card_found: "resolve_card plain_runtime sample_catalog (Some ''base1'') sample_import_row =
      Inr (''base1-4'', ''Charizard'', ''base1'')"
    by (simp add: resolve_card_def) (simp add: sample_catalog_def)
  have "live_printing sample_catalog ''base1-4'' ''holofoil'' = Some (hd (cat_printings sample_catalog))"
    by (simp add: live_printing_def sample_catalog_def)
  moreover have "pr_set_hint sample_import_row = ''bs''" "pr_set_name sample_import_row = None"
      "pr_variant sample_import_row = ''holofoil''" "pg_id (hd (cat_printings sample_catalog)) = ''base1-4:holofoil''"
    by (simp_all add: sample_import_row_def sample_catalog_def)
  ultimately have "\<exists>r. row_outcome plain_runtime sample_catalog sample_import_row = Inr r \<and> rr_printing r = ''base1-4:holofoil''"
    using set card_found by (simp add: row_outcome_def resolve_row_def)
  then show ?thesis by (auto simp: resolve_rows_outcomes)
qed

theorem matched_rows_sound_witness:
  "\<exists>p \<in> set (cat_printings sample_catalog). pg_id p = ''base1-4:holofoil'' \<and> pg_variant p = ''holofoil'' \<and>
     pg_deprecated_at p = None"
proof -
  obtain r where "rp_matched (resolve_rows plain_runtime sample_catalog [sample_import_row]) = [r]"
      "rr_printing r = ''base1-4:holofoil''"
    using sample_import_resolved by auto
  then show ?thesis
    using matched_rows_sound [of r plain_runtime sample_catalog "[sample_import_row]"]
    by (auto simp: sample_import_row_def)
qed

text \<open>Two cards of a set that share their collector number.\<close>

definition shared_number_catalog :: catalog where
  "shared_number_catalog = sample_catalog\<lparr>cat_cards :=
     map (\<lambda>(i, n). \<lparr>cd_id = i, cd_set = ''base1'', cd_number = ''15'', cd_name = n, cd_rarity = None,
          cd_artist = None, cd_supertype = None, cd_subtypes = None, cd_types = None, cd_attacks = None,
          cd_image_small = None, cd_image_large = None, cd_hp = None\<rparr>)
       [(''base1-15a'', ''Venusaur''), (''base1-15b'', ''Rocket'')]\<rparr>"

theorem direct_hit_ignores_name_witness:
  "resolve_card plain_runtime shared_number_catalog (Some ''base1'')
     (sample_import_row\<lparr>pr_number := ''15'', pr_name := Some ''Rocket''\<rparr>) = Inr (''base1-15a'', ''Venusaur'', ''base1'')"
proof -
  let ?row = "sample_import_row\<lparr>pr_number := ''15''\<rparr>"
  have n: "normalize_collector_number ''15'' = ''15''" by code_simp
  then have "direct_lookup shared_number_catalog ''base1'' (normalize_collector_number (pr_number ?row)) =
      Some (hd (cat_cards shared_number_catalog))"
    by (simp add: direct_lookup_def shared_number_catalog_def)
  from direct_hit_ignores_name [OF this, of plain_runtime "Some ''Rocket''"] show ?thesis
    by (simp add: shared_number_catalog_def)
qed

end
