(* ===== verification/Sealed_Import.thy ===== *)
theory Sealed_Import
  imports Import_Resolve Wishlist
begin

text \<open>
  The sealed half of an import, \<open>pkdump-db/src/sealed_import.rs\<close>: matching product names within a
  set and across the catalog, and committing the matched lots.
\<close>

section \<open>Matching names\<close>

record Candidate =
  ca_product :: int
  ca_name :: string
  ca_category :: string
  ca_set_code :: "string option"

record ResolvedSealedRow =
  rs_source_line :: nat
  rs_product :: int
  rs_name :: string
  rs_category :: string
  rs_set_code :: "string option"
  rs_quantity :: nat
  rs_condition :: string
  rs_purchase_price :: "f64 option"
  rs_purchase_date :: "string option"
  rs_notes :: "string option"
  rs_already_owned :: nat

record UnmatchedSealedRow =
  us_source_line :: nat
  us_name :: string
  us_set_hint :: string
  us_reason :: string

record SealedReport =
  sr_matched :: "ResolvedSealedRow list"
  sr_unmatched :: "UnmatchedSealedRow list"

record SealedCommitResult =
  sc_added :: nat
  sc_skipped :: nat

definition candidate :: "SealedProduct \<Rightarrow> Candidate" where
  "candidate p = \<lparr>ca_product = sp_id p, ca_name = sp_name p, ca_category = sp_category p, ca_set_code = sp_set_code p\<rparr>"

definition candidates_in_set :: "catalog \<Rightarrow> string \<Rightarrow> Candidate list" where
  "candidates_in_set cat set_code =
     map candidate (filter (\<lambda>p. case sp_set_code p of Some s \<Rightarrow> eq_ignore_ascii_case s set_code | None \<Rightarrow> False)
       (cat_sealed_products cat))"

definition all_candidates :: "catalog \<Rightarrow> Candidate list" where
  "all_candidates cat = map candidate (cat_sealed_products cat)"

datatype NameMatch = OneProduct Candidate | AmbiguousNames "string list" | NoProduct

definition match_name :: "runtime \<Rightarrow> string \<Rightarrow> Candidate list \<Rightarrow> NameMatch" where
  "match_name rt name candidates =
     (let want = normalize_name rt name in
      case filter (\<lambda>c. normalize_name rt (ca_name c) = want) candidates of
        [c] \<Rightarrow> OneProduct c
      | [] \<Rightarrow>
          (case filter (\<lambda>c. let have_name = normalize_name rt (ca_name c) in
                          contains want have_name \<or> contains have_name want) candidates of
             [c] \<Rightarrow> OneProduct c
           | [] \<Rightarrow> NoProduct
           | many \<Rightarrow> AmbiguousNames (map ca_name many))
      | many \<Rightarrow> AmbiguousNames (map ca_name many))"

section \<open>Resolving rows\<close>

definition sealed_miss :: "ParsedSealedRow \<Rightarrow> string \<Rightarrow> UnmatchedSealedRow" where
  "sealed_miss row reason =
     \<lparr>us_source_line = as_u32 (ps_source_line row), us_name = ps_name row, us_set_hint = ps_set_hint row,
      us_reason = reason\<rparr>"

definition sealed_hit :: "ParsedSealedRow \<Rightarrow> Candidate \<Rightarrow> ResolvedSealedRow" where
  "sealed_hit row c =
     \<lparr>rs_source_line = as_u32 (ps_source_line row), rs_product = ca_product c, rs_name = ca_name c,
      rs_category = ca_category c, rs_set_code = ca_set_code c, rs_quantity = ps_quantity row,
      rs_condition = ps_condition row, rs_purchase_price = ps_purchase_price row,
      rs_purchase_date = ps_purchase_date row, rs_notes = ps_notes row, rs_already_owned = 0\<rparr>"

text \<open>The search across the whole catalog, once the set has no answer.\<close>

definition resolve_anywhere ::
  "runtime \<Rightarrow> Candidate list \<Rightarrow> string option \<Rightarrow> ParsedSealedRow \<Rightarrow> UnmatchedSealedRow + ResolvedSealedRow" where
  "resolve_anywhere rt everything set_code row =
     (case match_name rt (ps_name row) everything of
        OneProduct c \<Rightarrow> Inr (sealed_hit row c)
      | AmbiguousNames names \<Rightarrow> Inl (sealed_miss row (''ambiguous across all sets: matches '' @ join '', '' names))
      | NoProduct \<Rightarrow> Inl (sealed_miss row (case set_code of
            Some sc \<Rightarrow> ''no sealed product '' @ apos @ ps_name row @ apos @ '' in '' @ sc @ '' or any set''
          | None \<Rightarrow> ''no sealed product '' @ apos @ ps_name row @ apos @ '' in any set (set '' @ apos @
                    ps_set_hint row @ apos @ '' unknown)'')))"

text \<open>
  The caches of one file: set codes, the candidates of each set, and the whole catalog, loaded by
  the first row that needs it.
\<close>

record SealedCaches =
  sh_sets :: set_cache
  sh_candidates :: "string \<rightharpoonup> Candidate list"
  sh_all :: "Candidate list option"

definition cached_candidates :: "catalog \<Rightarrow> string \<Rightarrow> SealedCaches \<Rightarrow> Candidate list \<times> SealedCaches" where
  "cached_candidates cat sc caches =
     (case sh_candidates caches sc of
        Some cs \<Rightarrow> (cs, caches)
      | None \<Rightarrow> let cs = candidates_in_set cat sc in
                 (cs, caches\<lparr>sh_candidates := (sh_candidates caches)(sc \<mapsto> cs)\<rparr>))"

definition cached_all :: "catalog \<Rightarrow> SealedCaches \<Rightarrow> Candidate list \<times> SealedCaches" where
  "cached_all cat caches =
     (case sh_all caches of
        Some cs \<Rightarrow> (cs, caches)
      | None \<Rightarrow> let cs = all_candidates cat in (cs, caches\<lparr>sh_all := Some cs\<rparr>))"

definition resolve_sealed_step ::
  "runtime \<Rightarrow> catalog \<Rightarrow> SealedCaches \<Rightarrow> ParsedSealedRow \<Rightarrow>
   (UnmatchedSealedRow + ResolvedSealedRow) \<times> SealedCaches" where
  "resolve_sealed_step rt cat caches row =
     (let (set_code, sets) = cached_set cat (ps_set_hint row) (ps_set_name row) (sh_sets caches);
          caches = caches\<lparr>sh_sets := sets\<rparr>;
          (in_set, caches) = (case set_code of
             None \<Rightarrow> (NoProduct, caches)
           | Some sc \<Rightarrow> let (cs, caches) = cached_candidates cat sc caches in
                         (match_name rt (ps_name row) cs, caches)) in
      case in_set of
        OneProduct c \<Rightarrow> (Inr (sealed_hit row c), caches)
      | AmbiguousNames names \<Rightarrow>
          (Inl (sealed_miss row (''ambiguous in '' @ (case set_code of Some sc \<Rightarrow> sc | None \<Rightarrow> []) @
                                 '': matches '' @ join '', '' names)), caches)
      | NoProduct \<Rightarrow>
          (let (everything, caches) = cached_all cat caches in
           (resolve_anywhere rt everything set_code row, caches)))"

fun resolve_sealed_loop ::
  "runtime \<Rightarrow> catalog \<Rightarrow> SealedCaches \<Rightarrow> ParsedSealedRow list \<Rightarrow> SealedReport \<Rightarrow> SealedReport" where
  "resolve_sealed_loop rt cat caches [] report = report"
| "resolve_sealed_loop rt cat caches (row # rows) report =
     (let (outcome, caches) = resolve_sealed_step rt cat caches row in
      resolve_sealed_loop rt cat caches rows
        (case outcome of
           Inl u \<Rightarrow> report\<lparr>sr_unmatched := sr_unmatched report @ [u]\<rparr>
         | Inr r \<Rightarrow> report\<lparr>sr_matched := sr_matched report @ [r]\<rparr>))"

definition resolve_sealed_rows :: "runtime \<Rightarrow> catalog \<Rightarrow> ParsedSealedRow list \<Rightarrow> SealedReport" where
  "resolve_sealed_rows rt cat rows =
     resolve_sealed_loop rt cat \<lparr>sh_sets = Map.empty, sh_candidates = Map.empty, sh_all = None\<rparr> rows
       \<lparr>sr_matched = [], sr_unmatched = []\<rparr>"

definition filter_sealed :: "SealedReport \<Rightarrow> nat list \<Rightarrow> SealedReport" where
  "filter_sealed report include =
     \<lparr>sr_matched = filter (\<lambda>r. rs_source_line r \<in> set include) (sr_matched report), sr_unmatched = []\<rparr>"

text \<open>\<open>SELECT product_id, SUM(quantity) ... GROUP BY product_id\<close> over the owned lots, read as \<open>u32\<close>.\<close>

definition owned_units :: "tdb \<Rightarrow> int \<Rightarrow> nat" where
  "owned_units db product =
     nat (sum_list (map se_quantity (filter (\<lambda>s. se_status s = ''owned'' \<and> se_product s = product)
       (tbl_rows (db_sealed db)))) mod 2 ^ 32)"

definition annotate_owned_sealed :: "tdb \<Rightarrow> SealedReport \<Rightarrow> SealedReport" where
  "annotate_owned_sealed db report =
     (if sr_matched report = [] then report
      else report\<lparr>sr_matched := map (\<lambda>m. m\<lparr>rs_already_owned := owned_units db (rs_product m)\<rparr>) (sr_matched report)\<rparr>)"

section \<open>Committing\<close>

definition new_sealed :: "string \<Rightarrow> ResolvedSealedRow \<Rightarrow> NewSealed" where
  "new_sealed source r =
     \<lparr>ns_product = rs_product r, ns_quantity = Some (int (rs_quantity r)), ns_condition = Some (rs_condition r),
      ns_purchase_price = rs_purchase_price r, ns_purchase_date = rs_purchase_date r, ns_source = Some source,
      ns_seller = None, ns_notes = rs_notes r\<rparr>"

definition commit_sealed :: "'j env \<Rightarrow> SealedReport \<Rightarrow> string \<Rightarrow> SealedCommitResult dbact" where
  "commit_sealed env report source =
     bind_act (for_each (sr_matched report) (\<lambda>r. bind_act (sealed_add env (new_sealed source r)) (\<lambda>_. ret ()))) (\<lambda>_.
     ret \<lparr>sc_added = length (sr_matched report), sc_skipped = length (sr_unmatched report)\<rparr>)"

lemma commit_sealed_rules [repo_rules, audit_rules]:
  "always keeps_schema (commit_sealed env report source)" "always (journaled env) (commit_sealed env report source)"
  "always keeps_audit (commit_sealed env report source)"
  unfolding commit_sealed_def by (intro all_intros repo_rules audit_rules)+

section \<open>The caches are invisible\<close>

definition sealed_outcome :: "runtime \<Rightarrow> catalog \<Rightarrow> ParsedSealedRow \<Rightarrow> UnmatchedSealedRow + ResolvedSealedRow" where
  "sealed_outcome rt cat row =
     (let set_code = resolve_set cat (ps_set_hint row) (ps_set_name row) in
      case (case set_code of None \<Rightarrow> NoProduct | Some sc \<Rightarrow> match_name rt (ps_name row) (candidates_in_set cat sc)) of
        OneProduct c \<Rightarrow> Inr (sealed_hit row c)
      | AmbiguousNames names \<Rightarrow>
          Inl (sealed_miss row (''ambiguous in '' @ (case set_code of Some sc \<Rightarrow> sc | None \<Rightarrow> []) @
                                '': matches '' @ join '', '' names))
      | NoProduct \<Rightarrow> resolve_anywhere rt (all_candidates cat) set_code row)"

definition caches_true :: "catalog \<Rightarrow> SealedCaches \<Rightarrow> bool" where
  "caches_true cat caches \<longleftrightarrow> cache_true cat (sh_sets caches) \<and>
     (\<forall>sc cs. sh_candidates caches sc = Some cs \<longrightarrow> cs = candidates_in_set cat sc) \<and>
     (\<forall>cs. sh_all caches = Some cs \<longrightarrow> cs = all_candidates cat)"

lemma cached_candidates_true:
  assumes "caches_true cat caches"
  obtains caches' where "cached_candidates cat sc caches = (candidates_in_set cat sc, caches')" "caches_true cat caches'"
  using assms by (cases "sh_candidates caches sc") (auto simp: cached_candidates_def caches_true_def Let_def)

lemma cached_all_true:
  assumes "caches_true cat caches"
  obtains caches' where "cached_all cat caches = (all_candidates cat, caches')" "caches_true cat caches'"
  using assms by (cases "sh_all caches") (auto simp: cached_all_def caches_true_def Let_def)

lemma resolve_sealed_step_true:
  assumes "caches_true cat caches"
  shows "\<exists>caches'. resolve_sealed_step rt cat caches row = (sealed_outcome rt cat row, caches') \<and> caches_true cat caches'"
proof -
  let ?sc = "resolve_set cat (ps_set_hint row) (ps_set_name row)"
  obtain sets where s: "cached_set cat (ps_set_hint row) (ps_set_name row) (sh_sets caches) = (?sc, sets)" "cache_true cat sets"
    using assms cached_set_true unfolding caches_true_def by blast
  define c1 where "c1 = caches\<lparr>sh_sets := sets\<rparr>"
  have c1: "caches_true cat c1" using assms s(2) by (simp add: caches_true_def c1_def)
  have "\<exists>c2. caches_true cat c2 \<and> (case ?sc of None \<Rightarrow> (NoProduct, c1)
      | Some sc \<Rightarrow> let (cs, caches) = cached_candidates cat sc c1 in (match_name rt (ps_name row) cs, caches)) =
      (case ?sc of None \<Rightarrow> NoProduct | Some sc \<Rightarrow> match_name rt (ps_name row) (candidates_in_set cat sc), c2)"
  proof (cases ?sc)
    case None
    then show ?thesis using c1 by (intro exI [of _ c1]) simp
  next
    case (Some sc)
    obtain c2 where "cached_candidates cat sc c1 = (candidates_in_set cat sc, c2)" "caches_true cat c2"
      using cached_candidates_true [OF c1] by blast
    then show ?thesis by (intro exI [of _ c2]) (simp add: Some)
  qed
  then obtain c2 where c2: "caches_true cat c2" "(case ?sc of None \<Rightarrow> (NoProduct, c1)
      | Some sc \<Rightarrow> let (cs, caches) = cached_candidates cat sc c1 in (match_name rt (ps_name row) cs, caches)) =
      (case ?sc of None \<Rightarrow> NoProduct | Some sc \<Rightarrow> match_name rt (ps_name row) (candidates_in_set cat sc), c2)"
    by blast
  obtain c3 where c3: "cached_all cat c2 = (all_candidates cat, c3)" "caches_true cat c3"
    using cached_all_true [OF c2(1)] by blast
  show ?thesis
    unfolding resolve_sealed_step_def Let_def s(1) prod.case c1_def [symmetric] c2(2) [unfolded Let_def]
    using c2(1) c3 by (simp add: sealed_outcome_def Let_def split: NameMatch.split)
qed

lemma resolve_sealed_loop_rowwise:
  "caches_true cat caches \<Longrightarrow> resolve_sealed_loop rt cat caches rows report =
     \<lparr>sr_matched = sr_matched report @ rights (map (sealed_outcome rt cat) rows),
      sr_unmatched = sr_unmatched report @ lefts (map (sealed_outcome rt cat) rows)\<rparr>"
proof (induction rows arbitrary: caches report)
  case (Cons row rows)
  obtain caches' where c: "resolve_sealed_step rt cat caches row = (sealed_outcome rt cat row, caches')" "caches_true cat caches'"
    using resolve_sealed_step_true [OF Cons.prems] by blast
  show ?case by (cases "sealed_outcome rt cat row") (simp_all add: c Cons.IH)
qed simp

lemma resolve_sealed_outcomes:
  "resolve_sealed_rows rt cat rows =
     \<lparr>sr_matched = rights (map (sealed_outcome rt cat) rows), sr_unmatched = lefts (map (sealed_outcome rt cat) rows)\<rparr>"
  by (simp add: resolve_sealed_rows_def resolve_sealed_loop_rowwise caches_true_def cache_true_def)

section \<open>Properties\<close>

lemma match_name_One:
  assumes "match_name rt name cands = OneProduct c"
  shows "c \<in> set cands \<and> (contains (normalize_name rt name) (normalize_name rt (ca_name c)) \<or>
     contains (normalize_name rt (ca_name c)) (normalize_name rt name))"
proof -
  have "contains s s" for s by (cases s) (simp_all add: contains_def starts_with_def)
  then show ?thesis
    using assms
    by (auto simp: match_name_def Let_def simp del: filter.simps split: list.splits dest!: filter_hit)
qed

lemma sealed_outcome_Inr:
  assumes "sealed_outcome rt cat row = Inr r"
  shows "\<exists>p \<in> set (cat_sealed_products cat). r = sealed_hit row (candidate p) \<and>
     (contains (normalize_name rt (ps_name row)) (normalize_name rt (sp_name p)) \<or>
      contains (normalize_name rt (sp_name p)) (normalize_name rt (ps_name row)))"
proof -
  have in_catalog: "set (candidates_in_set cat sc) \<subseteq> candidate ` set (cat_sealed_products cat)"
    "set (all_candidates cat) \<subseteq> candidate ` set (cat_sealed_products cat)" for sc
    by (auto simp: candidates_in_set_def all_candidates_def)
  obtain cands c where c: "match_name rt (ps_name row) cands = OneProduct c" "r = sealed_hit row c"
      "set cands \<subseteq> candidate ` set (cat_sealed_products cat)"
    using assms in_catalog
    by (auto simp: sealed_outcome_def resolve_anywhere_def Let_def split: NameMatch.splits option.splits)
  then obtain p where "p \<in> set (cat_sealed_products cat)" "c = candidate p" using match_name_One [OF c(1)] by blast
  then show ?thesis
    using match_name_One [OF c(1)] c(2) by (intro bexI [of _ p]) (auto simp: candidate_def)
qed

text \<open>
  A matched sealed row is a real product with a matching name: the product is in the catalog, one of
  the two folded names contains the other, and the quantity, condition, price, date and notes are the
  row's.
\<close>

lemma matched_sealed_sound:
  assumes "r \<in> set (sr_matched (resolve_sealed_rows rt cat rows))"
  shows "\<exists>row \<in> set rows. \<exists>p \<in> set (cat_sealed_products cat).
     sp_id p = rs_product r \<and> sp_name p = rs_name r \<and>
     (contains (normalize_name rt (ps_name row)) (normalize_name rt (sp_name p)) \<or>
      contains (normalize_name rt (sp_name p)) (normalize_name rt (ps_name row))) \<and>
     (rs_quantity r, rs_condition r, rs_purchase_price r, rs_purchase_date r, rs_notes r) =
       (ps_quantity row, ps_condition row, ps_purchase_price row, ps_purchase_date row, ps_notes row)"
proof -
  obtain row where row: "row \<in> set rows" "sealed_outcome rt cat row = Inr r"
    using assms by (auto simp: resolve_sealed_outcomes set_rights)
  with sealed_outcome_Inr [OF row(2)] show ?thesis
    by (intro bexI [of _ row]) (auto simp: sealed_hit_def candidate_def)
qed

end
