(* ===== verification/Unresolved.thy ===== *)
theory Unresolved
  imports Sealed_Import Orders
begin

text \<open>
  The dead-letter queue of imports, \<open>pkdump-db/src/unresolved.rs\<close>: rows that did not resolve are
  parked as JSON and later replayed against a printing or a sealed product the user picks, or dismissed.
  Serialising parsed rows is \<open>serde_json\<close>'s, so the codec is an argument.
\<close>

section \<open>The queue\<close>

record codec =
  cd_encode :: "ParsedRow \<Rightarrow> string"                      \<comment> \<open>\<open>serde_json::to_string\<close> of a \<open>ParsedRow\<close>\<close>
  cd_decode :: "string \<Rightarrow> string + ParsedRow"              \<comment> \<open>\<open>serde_json::from_str\<close>, or its error\<close>
  cd_encode_sealed :: "ParsedSealedRow \<Rightarrow> string"
  cd_decode_sealed :: "string \<Rightarrow> string + ParsedSealedRow"

text \<open>An insert into \<open>import_unresolved\<close>, with its \<open>CHECK\<close>s and its batch reference.\<close>

definition unresolved_check :: "UnresolvedRow \<Rightarrow> bool" where
  "unresolved_check u \<longleftrightarrow> un_kind u \<in> set [''single'', ''sealed''] \<and> un_status u \<in> set [''open'', ''resolved'', ''dismissed'']"

definition insert_unresolved :: "(int \<Rightarrow> UnresolvedRow) \<Rightarrow> int dbact" where
  "insert_unresolved mk = (\<lambda>db.
     let u = mk (next_id (db_unresolved db)) in
     if \<not> unresolved_check u then (Inl (Sqlite CheckViolation), db)
     else if \<not> refers ba_id (db_batches db) (un_batch u) then (Inl (Sqlite ForeignKeyViolation), db)
     else (Inr (un_id u), db\<lparr>db_unresolved := tbl_append u (db_unresolved db)\<rparr>))"

definition update_unresolved :: "(UnresolvedRow \<Rightarrow> bool) \<Rightarrow> (UnresolvedRow \<Rightarrow> UnresolvedRow) \<Rightarrow> nat dbact" where
  "update_unresolved P f = (\<lambda>db.
     (Inr (length (filter P (tbl_rows (db_unresolved db)))),
      db\<lparr>db_unresolved := tbl_modify P f (db_unresolved db)\<rparr>))"

definition park ::
  "'j env \<Rightarrow> string \<Rightarrow> string \<Rightarrow> int option \<Rightarrow> int option \<Rightarrow> string \<Rightarrow> string option \<Rightarrow> string option \<Rightarrow>
   string option \<Rightarrow> string option \<Rightarrow> int option \<Rightarrow> string \<Rightarrow> int dbact" where
  "park env kind source batch line raw set_hint number name variant quantity reason =
     bind_act (now_rfc3339 env) (\<lambda>now.
     insert_unresolved (\<lambda>i.
       \<lparr>un_id = i, un_kind = kind, un_source = source, un_batch = batch, un_line = line, un_raw = raw,
        un_set_hint = set_hint, un_number = number, un_name = name, un_variant = variant,
        un_quantity = quantity, un_reason = reason, un_status = ''open'', un_printing = None,
        un_product = None, un_collection = None, un_sealed = None, un_parked_at = now, un_resolved_at = None\<rparr>))"

text \<open>The reason of the first unmatched row of the line, if the line has one.\<close>

definition single_reason :: "ResolutionReport \<Rightarrow> ParsedRow \<Rightarrow> string option" where
  "single_reason report row =
     map_option ur_reason (List.find (\<lambda>u. ur_source_line u = as_u32 (pr_source_line row)) (rp_unmatched report))"

definition sealed_reason :: "SealedReport \<Rightarrow> ParsedSealedRow \<Rightarrow> string option" where
  "sealed_reason report row =
     map_option us_reason (List.find (\<lambda>u. us_source_line u = as_u32 (ps_source_line row)) (sr_unmatched report))"

fun park_singles ::
  "'j env \<Rightarrow> codec \<Rightarrow> string \<Rightarrow> int option \<Rightarrow> ResolutionReport \<Rightarrow> ParsedRow list \<Rightarrow> nat \<Rightarrow> nat dbact" where
  "park_singles env codec source batch report [] parked = ret parked"
| "park_singles env codec source batch report (row # rows) parked =
     (case single_reason report row of
        None \<Rightarrow> park_singles env codec source batch report rows parked
      | Some reason \<Rightarrow>
          bind_act (park env ''single'' source batch (Some (int (pr_source_line row))) (cd_encode codec row)
                     (Some (pr_set_hint row)) (Some (pr_number row)) (pr_name row) (Some (pr_variant row)) None reason)
            (\<lambda>_. park_singles env codec source batch report rows (parked + 1)))"

fun park_sealed ::
  "'j env \<Rightarrow> codec \<Rightarrow> string \<Rightarrow> int option \<Rightarrow> SealedReport \<Rightarrow> ParsedSealedRow list \<Rightarrow> nat \<Rightarrow> nat dbact" where
  "park_sealed env codec source batch report [] parked = ret parked"
| "park_sealed env codec source batch report (row # rows) parked =
     (case sealed_reason report row of
        None \<Rightarrow> park_sealed env codec source batch report rows parked
      | Some reason \<Rightarrow>
          bind_act (park env ''sealed'' source batch (Some (int (ps_source_line row))) (cd_encode_sealed codec row)
                     (Some (ps_set_hint row)) None (Some (ps_name row)) None (Some (int (ps_quantity row))) reason)
            (\<lambda>_. park_sealed env codec source batch report rows (parked + 1)))"

definition park_report ::
  "'j env \<Rightarrow> codec \<Rightarrow> string \<Rightarrow> int option \<Rightarrow> ParsedRow list \<Rightarrow> ResolutionReport \<Rightarrow>
   ParsedSealedRow list \<Rightarrow> SealedReport \<Rightarrow> nat dbact" where
  "park_report env codec source batch singles singles_report sealed sealed_rep =
     bind_act (park_singles env codec source batch singles_report singles 0) (\<lambda>parked.
     park_sealed env codec source batch sealed_rep sealed parked)"

definition list_open :: "UnresolvedRow list dbact" where
  "list_open = query (\<lambda>db.
     rev (sort_key (\<lambda>u. (un_parked_at u, un_id u)) (filter (\<lambda>u. un_status u = ''open'') (tbl_rows (db_unresolved db)))))"

definition load_parked :: "int \<Rightarrow> UnresolvedRow dbact" where
  "load_parked i =
     bind_act (query (\<lambda>db. tbl_find un_id i (db_unresolved db))) (\<lambda>found.
     case found of
       None \<Rightarrow> fail (NotFound (''unresolved import row '' @ show_int i))
     | Some u \<Rightarrow> ret u)"

definition expect_open :: "UnresolvedRow \<Rightarrow> int \<Rightarrow> string \<Rightarrow> DbError + unit" where
  "expect_open u i kind =
     (if un_status u \<noteq> ''open''
      then Inl (Conflict (''unresolved import row '' @ show_int i @ '' is already '' @ un_status u))
      else if un_kind u \<noteq> kind
      then Inl (Conflict (''unresolved import row '' @ show_int i @ '' is a '' @ un_kind u @ '' row, not '' @ kind))
      else Inr ())"

definition decoded :: "string + 'a \<Rightarrow> DbError + 'a" where
  "decoded r = (case r of Inl e \<Rightarrow> Inl (Seed e) | Inr v \<Rightarrow> Inr v)"

definition no_edit :: CopyEdit where
  "no_edit = \<lparr>xe_condition = None, xe_language = None, xe_purchase_price = None, xe_sale_price = None,
     xe_notes = None, xe_tags = None, xe_graded = None, xe_grade_company = None, xe_grade_value = None,
     xe_grade_cert = None\<rparr>"

definition replayed_copy :: "ParsedRow \<Rightarrow> string \<Rightarrow> string \<Rightarrow> int \<Rightarrow> NewCopy" where
  "replayed_copy row printing source batch =
     \<lparr>nc_printing = printing, nc_condition = Some (pr_condition row), nc_language = Some (pr_language row),
      nc_purchase_price = pr_purchase_price row, nc_acquired_at = pr_acquired_at row, nc_source = source,
      nc_status = None, nc_notes = None, nc_order = None, nc_binder = None, nc_deck = None, nc_batch = Some batch\<rparr>"

text \<open>Adding a copy and then its tags, as the importer and the queue both do.\<close>

definition add_tagged :: "'j env \<Rightarrow> NewCopy \<Rightarrow> string list \<Rightarrow> int dbact" where
  "add_tagged env new tags =
     bind_act (collection_add env new) (\<lambda>i.
     bind_act (if tags = [] then ret False else collection_update env i (no_edit\<lparr>xe_tags := Some (tags_json tags)\<rparr>)) (\<lambda>_.
     ret i))"

definition resolve_single :: "'j env \<Rightarrow> codec \<Rightarrow> int \<Rightarrow> string \<Rightarrow> CollectionRow dbact" where
  "resolve_single env codec i printing =
     bind_act (load_parked i) (\<lambda>row.
     bind_act (lift_result (expect_open row i ''single'')) (\<lambda>_.
     bind_act (lift_result (decoded (cd_decode codec (un_raw row)))) (\<lambda>parsed.
     bind_act (case un_batch row of
                 Some b \<Rightarrow> ret b
               | None \<Rightarrow> batches_create env
                   \<lparr>nt_type = ''manual_resolution'', nt_name = Some ''Manual import resolution'', nt_notes = None,
                    nt_order = None, nt_binder = None\<rparr>) (\<lambda>batch.
     bind_act (add_tagged env (replayed_copy parsed printing (un_source row) batch) (pr_tags parsed)) (\<lambda>copy.
     bind_act (now_rfc3339 env) (\<lambda>now.
     bind_act (update_unresolved (\<lambda>u. un_id u = i) (\<lambda>u. u\<lparr>un_status := ''resolved'', un_printing := Some printing,
                 un_collection := Some copy, un_resolved_at := Some now\<rparr>)) (\<lambda>_.
     bind_act (get_row env copy) (\<lambda>got.
     case got of
       Some r \<Rightarrow> ret r
     | None \<Rightarrow> fail (NotFound (''collection row '' @ show_int copy @ '' vanished after resolve''))))))))))"

definition replayed_sealed :: "ParsedSealedRow \<Rightarrow> int \<Rightarrow> string \<Rightarrow> NewSealed" where
  "replayed_sealed row product source =
     \<lparr>ns_product = product, ns_quantity = Some (int (ps_quantity row)), ns_condition = Some (ps_condition row),
      ns_purchase_price = ps_purchase_price row, ns_purchase_date = ps_purchase_date row,
      ns_source = Some source, ns_seller = None, ns_notes = ps_notes row\<rparr>"

definition resolve_sealed :: "'j env \<Rightarrow> codec \<Rightarrow> int \<Rightarrow> int \<Rightarrow> SealedEntry dbact" where
  "resolve_sealed env codec i product =
     bind_act (load_parked i) (\<lambda>row.
     bind_act (lift_result (expect_open row i ''sealed'')) (\<lambda>_.
     bind_act (lift_result (decoded (cd_decode_sealed codec (un_raw row)))) (\<lambda>parsed.
     bind_act (sealed_add env (replayed_sealed parsed product (un_source row))) (\<lambda>lot.
     bind_act (now_rfc3339 env) (\<lambda>now.
     bind_act (update_unresolved (\<lambda>u. un_id u = i) (\<lambda>u. u\<lparr>un_status := ''resolved'', un_product := Some product,
                 un_sealed := Some lot, un_resolved_at := Some now\<rparr>)) (\<lambda>_.
     bind_act (sealed_get env lot) (\<lambda>got.
     case got of
       Some r \<Rightarrow> ret r
     | None \<Rightarrow> fail (NotFound (''sealed row '' @ show_int lot @ '' vanished after resolve'')))))))))"

definition dismiss :: "'j env \<Rightarrow> int \<Rightarrow> unit dbact" where
  "dismiss env i =
     bind_act (now_rfc3339 env) (\<lambda>now.
     bind_act (update_unresolved (\<lambda>u. un_id u = i \<and> un_status u = ''open'')
                 (\<lambda>u. u\<lparr>un_status := ''dismissed'', un_resolved_at := Some now\<rparr>)) (\<lambda>n.
     if n = 0 then fail (NotFound (''no open unresolved import row '' @ show_int i)) else ret ()))"

section \<open>Schema, journal and audit trail\<close>

text \<open>A statement that only touches the queue and keeps its references.\<close>

lemma unresolved_only_rules:
  assumes m: "\<And>db. snd (m db) = db\<lparr>db_unresolved := f db\<rparr>"
    and f: "\<And>db. tbl_ok un_id (db_unresolved db) \<Longrightarrow> tbl_ok un_id (f db)"
    and g: "\<And>db u. \<forall>v \<in> set (tbl_rows (db_unresolved db)). refers ba_id (db_batches db) (un_batch v) \<Longrightarrow>
      u \<in> set (tbl_rows (f db)) \<Longrightarrow> refers ba_id (db_batches db) (un_batch u)"
  shows "always keeps_schema m" "always (journaled env) m" "always keeps_audit m"
proof -
  have db': "db' = db\<lparr>db_unresolved := f db\<rparr>" if "m db = (r, db')" for db r db' using m [of db] that by simp
  show j: "always (journaled env) m" for env :: "'j env"
    by (rule alwaysI, rule journaled_same) (use f in \<open>auto dest!: db' simp: ids_ok_def\<close>)
  show s: "always keeps_schema m"
    by (rule keeps_schemaI [OF j])
      (use g in \<open>auto dest!: db' simp: refs_ok_def entry_refs_def movement_refs_def batch_refs_def\<close>)
  show "always keeps_audit m" by (rule keeps_audit_same [OF s]) (simp_all add: m)
qed

lemma insert_unresolved_rules [repo_rules, audit_rules]:
  assumes "\<And>i. un_id (mk i) = i"
  shows "always keeps_schema (insert_unresolved mk)" "always (journaled env) (insert_unresolved mk)"
    "always keeps_audit (insert_unresolved mk)"
proof -
  let ?f = "\<lambda>db. db_unresolved (snd (insert_unresolved mk db))"
  have "snd (insert_unresolved mk db) = db\<lparr>db_unresolved := ?f db\<rparr>" for db
    by (simp add: insert_unresolved_def Let_def)
  note r = unresolved_only_rules [of "insert_unresolved mk", OF this]
  show "always keeps_schema (insert_unresolved mk)" "always (journaled env) (insert_unresolved mk)"
    "always keeps_audit (insert_unresolved mk)"
    by (rule r; auto simp: insert_unresolved_def Let_def assms split: if_splits)+
qed

lemma update_unresolved_rules [repo_rules, audit_rules]:
  assumes "\<And>u. un_id (f u) = un_id u" "\<And>u. un_batch (f u) = un_batch u"
  shows "always keeps_schema (update_unresolved P f)" "always (journaled env) (update_unresolved P f)"
    "always keeps_audit (update_unresolved P f)"
  by (rule unresolved_only_rules [where f = "\<lambda>db. tbl_modify P f (db_unresolved db)"];
      auto simp: update_unresolved_def assms)+

lemma park_rules [repo_rules, audit_rules]:
  "always keeps_schema (park env k s b l raw h n nm v q r)" "always (journaled env) (park env k s b l raw h n nm v q r)"
  "always keeps_audit (park env k s b l raw h n nm v q r)"
  unfolding park_def by (intro all_intros stmt_rules audit_rules repo_rules; simp)+

lemma park_singles_rules [repo_rules, audit_rules]:
  "always keeps_schema (park_singles env codec s b report rows n)"
  "always (journaled env) (park_singles env codec s b report rows n)"
  "always keeps_audit (park_singles env codec s b report rows n)"
  by (induction rows arbitrary: n) (auto split: option.split intro!: repo_rules audit_rules)

lemma park_sealed_rules [repo_rules, audit_rules]:
  "always keeps_schema (park_sealed env codec s b report rows n)"
  "always (journaled env) (park_sealed env codec s b report rows n)"
  "always keeps_audit (park_sealed env codec s b report rows n)"
  by (induction rows arbitrary: n) (auto split: option.split intro!: repo_rules audit_rules)

lemma park_report_rules [repo_rules, audit_rules]:
  "always keeps_schema (park_report env codec s b rows rp srows srp)"
  "always (journaled env) (park_report env codec s b rows rp srows srp)"
  "always keeps_audit (park_report env codec s b rows rp srows srp)"
  unfolding park_report_def by (intro all_intros repo_rules audit_rules)+

lemma load_parked_rules [repo_rules, audit_rules]:
  "always keeps_schema (load_parked i)" "always (journaled env) (load_parked i)" "always keeps_audit (load_parked i)"
  unfolding load_parked_def by (intro all_intros)+

lemma get_row_rules [repo_rules, audit_rules]:
  "always keeps_schema (get_row env i)" "always (journaled env') (get_row env i)" "always keeps_audit (get_row env i)"
  unfolding get_row_def by (intro all_intros)+

lemma sealed_get_rules [repo_rules, audit_rules]:
  "always keeps_schema (sealed_get env i)" "always (journaled env') (sealed_get env i)" "always keeps_audit (sealed_get env i)"
  unfolding sealed_get_def by (intro all_intros)+

lemma add_tagged_rules [repo_rules, audit_rules]:
  "always keeps_schema (add_tagged env new tags)" "always (journaled env) (add_tagged env new tags)"
  "always keeps_audit (add_tagged env new tags)"
  unfolding add_tagged_def by (intro all_intros repo_rules audit_rules)+

lemma resolve_single_rules [repo_rules, audit_rules]:
  "always keeps_schema (resolve_single env codec i p)" "always (journaled env) (resolve_single env codec i p)"
  "always keeps_audit (resolve_single env codec i p)"
  unfolding resolve_single_def by (intro all_intros stmt_rules repo_rules audit_rules; simp)+

lemma resolve_sealed_rules [repo_rules, audit_rules]:
  "always keeps_schema (resolve_sealed env codec i p)" "always (journaled env) (resolve_sealed env codec i p)"
  "always keeps_audit (resolve_sealed env codec i p)"
  unfolding resolve_sealed_def by (intro all_intros stmt_rules repo_rules audit_rules; simp)+

lemma dismiss_rules [repo_rules, audit_rules]:
  "always keeps_schema (dismiss env i)" "always (journaled env) (dismiss env i)" "always keeps_audit (dismiss env i)"
  unfolding dismiss_def by (intro all_intros stmt_rules repo_rules audit_rules; simp)+

section \<open>Adding a tagged copy\<close>

definition tags_of :: "string list \<Rightarrow> string option" where
  "tags_of tags = (if tags = [] then None else Some (tags_json tags))"

text \<open>The tables an added copy touches.\<close>

definition only_copies :: "tdb \<Rightarrow> tdb \<Rightarrow> bool" where
  "only_copies db db' \<longleftrightarrow>
     (db_conditions db', db_binders db', db_groups db', db_decks db', db_orders db', db_batches db') =
       (db_conditions db, db_binders db, db_groups db, db_decks db, db_orders db, db_batches db) \<and>
     (db_movement db', db_emit_log db', db_wishlist db', db_sealed db', db_manual_prices db') =
       (db_movement db, db_emit_log db, db_wishlist db, db_sealed db, db_manual_prices db) \<and>
     (db_user_printings db', db_unresolved db') = (db_user_printings db, db_unresolved db)"

lemma only_copies_trans: "only_copies db db' \<Longrightarrow> only_copies db' db'' \<Longrightarrow> only_copies db db''"
  by (simp add: only_copies_def)

lemma added_only_copies: "added env new db db' \<Longrightarrow> only_copies db db'"
  unfolding added_def Let_def only_copies_def by (elim conjE, erule ssubst) simp

lemma valid_copy_frame: "only_copies db db' \<Longrightarrow> valid_copy env db' new = valid_copy env db new"
  by (simp add: only_copies_def valid_copy_def copy_refs_def printing_exists_def)

lemma collection_add_run:
  assumes "valid_copy env db new"
  obtains db' where "collection_add env new db = (Inr (next_id (db_collection db)), db')" "added env new db db'"
  using assms collection_add_cases [where env = env and new = new and db = db]
  by (cases "collection_add env new db") (auto split: sum.splits)

lemma add_tagged_run:
  assumes ok: "schema_ok db" and v: "valid_copy env db new"
  shows "\<exists>db'. add_tagged env new tags db = (Inr (next_id (db_collection db)), db') \<and> schema_ok db' \<and> only_copies db db' \<and>
     tbl_rows (db_collection db') = tbl_rows (db_collection db) @
       [(new_entry new (keep (nc_acquired_at new) (env_now env (db_ticks db))) (next_id (db_collection db)))
          \<lparr>ce_tags := tags_of tags\<rparr>]"
proof -
  let ?i = "next_id (db_collection db)"
  let ?c = "new_entry new (keep (nc_acquired_at new) (env_now env (db_ticks db))) ?i"
  obtain db1 where 1: "collection_add env new db = (Inr ?i, db1)" and a: "added env new db db1"
    using collection_add_run [OF v] by blast
  have ok1: "schema_ok db1" using alwaysD [OF schema_collection_add 1] ok by (simp add: keeps_schema_def)
  have rows: "db_collection db1 = tbl_append ?c (db_collection db)" using a by (simp add: added_def Let_def)
  have others: "ce_id x \<noteq> ?i" if "x \<in> set (tbl_rows (db_collection db))" for x
    using ok that by (auto simp: schema_ok_def ids_ok_def tbl_ok_def next_id_def list_all_iff)
  show ?thesis
  proof (cases "tags = []")
    case True
    have "?c\<lparr>ce_tags := None\<rparr> = ?c" by (simp add: new_entry_def)
    then show ?thesis
      using True ok1 added_only_copies [OF a] rows
      by (intro exI [of _ db1]) (simp add: add_tagged_def bind_act_def 1 ret_def tags_of_def)
  next
    case False
    let ?f = "copy_edit (no_edit\<lparr>xe_tags := Some (tags_json tags)\<rparr>)"
    have f: "?f x = x\<lparr>ce_tags := Some (tags_json tags)\<rparr>" for x by (simp add: copy_edit_def no_edit_def)
    let ?t = "touch_entries env (\<lambda>c. ce_id c = ?i) ?f db1"
    have "entry_check x \<and> entry_refs db1 x" if "x \<in> set (tbl_rows (db_collection db1))" for x
      using ok1 that by (auto simp: schema_ok_def refs_ok_def)
    then have "list_all entry_check (map ?f (filter (\<lambda>c. ce_id c = ?i) (tbl_rows (db_collection db1))))"
      "list_all (entry_refs db1) (map ?f (filter (\<lambda>c. ce_id c = ?i) (tbl_rows (db_collection db1))))"
      by (auto simp: list_all_iff f entry_check_def entry_refs_def)
    then have u: "\<exists>n. update_entries env (\<lambda>c. ce_id c = ?i) ?f db1 = (Inr n, ?t)"
      by (simp add: update_entries_def Let_def)
    have run: "add_tagged env new tags db = (Inr ?i, ?t)"
      using u False by (auto simp: add_tagged_def bind_act_def 1 ret_def collection_update_def)
    have "map (\<lambda>c. if ce_id c = ?i then ?f c else c) (tbl_rows (db_collection db)) = tbl_rows (db_collection db)"
      using others by (intro map_idI) simp
    then have "tbl_rows (db_collection ?t) = tbl_rows (db_collection db) @ [?c\<lparr>ce_tags := tags_of tags\<rparr>]"
      using False by (simp add: touch_entries_def rows f tags_of_def)
    moreover have "schema_ok ?t" using alwaysD [OF add_tagged_rules(1) run] ok by (simp add: keeps_schema_def)
    moreover have "only_copies db1 ?t" by (simp add: only_copies_def touch_entries_def log_entries_def)
    ultimately show ?thesis
      using run only_copies_trans [OF added_only_copies [OF a]] by (intro exI [of _ ?t]) simp
  qed
qed

section \<open>The life of a queue row\<close>

text \<open>A row as it was parked, and the one step it can take: from open to closed.\<close>

definition parked_as :: "UnresolvedRow \<Rightarrow> UnresolvedRow" where
  "parked_as u = u\<lparr>un_status := ''open'', un_printing := None, un_product := None, un_collection := None,
     un_sealed := None, un_resolved_at := None\<rparr>"

definition progressed :: "UnresolvedRow \<Rightarrow> UnresolvedRow \<Rightarrow> bool" where
  "progressed u v \<longleftrightarrow> parked_as v = parked_as u \<and>
     (v = u \<or> un_status u = ''open'' \<and> un_status v \<in> set [''resolved'', ''dismissed''])"

definition queue_progress :: "tdb \<Rightarrow> tdb \<Rightarrow> bool" where
  "queue_progress db db' \<longleftrightarrow>
     (\<exists>old new. tbl_rows (db_unresolved db') = old @ new \<and> list_all2 progressed (tbl_rows (db_unresolved db)) old)"

definition keeps_queue :: "tdb \<Rightarrow> tdb \<Rightarrow> bool" where
  "keeps_queue db db' \<longleftrightarrow> (schema_ok db \<longrightarrow> schema_ok db' \<and> queue_progress db db')"

definition same_queue :: "tdb \<Rightarrow> tdb \<Rightarrow> bool" where
  "same_queue db db' \<longleftrightarrow> db_unresolved db' = db_unresolved db"

lemma progressed_refl [simp]: "progressed u u"
  by (simp add: progressed_def)

lemma progressed_trans: "progressed u v \<Longrightarrow> progressed v w \<Longrightarrow> progressed u w"
  by (auto simp: progressed_def)

lemma queue_progressI:
  "tbl_rows (db_unresolved db') = old @ new \<Longrightarrow> list_all2 progressed (tbl_rows (db_unresolved db)) old \<Longrightarrow>
   queue_progress db db'"
  unfolding queue_progress_def by blast

lemma same_queue_progress: "same_queue db db' \<Longrightarrow> queue_progress db db'"
  by (rule queue_progressI [of _ "tbl_rows (db_unresolved db)" "[]"]) (simp_all add: same_queue_def list_all2_refl)

lemma queue_progress_trans:
  assumes "queue_progress db db'" "queue_progress db' db''"
  shows "queue_progress db db''"
proof -
  obtain old new where 1: "tbl_rows (db_unresolved db') = old @ new"
      "list_all2 progressed (tbl_rows (db_unresolved db)) old"
    using assms(1) unfolding queue_progress_def by blast
  obtain old' new' where 2: "tbl_rows (db_unresolved db'') = old' @ new'" "list_all2 progressed (old @ new) old'"
    using assms(2) 1(1) unfolding queue_progress_def by auto
  obtain a b where ab: "old' = a @ b" "list_all2 progressed old a" using 2(2) by (auto simp: list_all2_append1)
  have "list_all2 progressed (tbl_rows (db_unresolved db)) a"
    by (rule list_all2_trans [OF _ 1(2) ab(2)]) (rule progressed_trans)
  then show ?thesis using 2(1) ab(1) by (auto intro: queue_progressI)
qed

interpretation unqueued: step_relation same_queue rollback
  by unfold_locales (simp_all add: same_queue_def rollback_def)

interpretation queue: step_relation keeps_queue rollback
proof
  show "keeps_queue db db" for db by (simp add: keeps_queue_def same_queue_progress same_queue_def)
next
  show "keeps_queue db db'' " if "keeps_queue db db'" "keeps_queue db' db''" for db db' db''
    using that queue_progress_trans by (auto simp: keeps_queue_def)
next
  show "keeps_queue db (rollback db db')" for db db'
    by (simp add: keeps_queue_def rollback_def same_queue_progress same_queue_def)
qed

named_theorems queue_rules

lemma queue_of_schema:
  "always keeps_schema m \<Longrightarrow> (\<And>db. schema_ok db \<Longrightarrow> queue_progress db (snd (m db))) \<Longrightarrow> always keeps_queue m"
  by (simp add: always_def keeps_schema_def keeps_queue_def)

lemma unqueued_stmts [queue_rules]:
  "always same_queue (now_rfc3339 env)" "always same_queue (insert_entry env mk)" "always same_queue (insert_status mk_l)"
  "always same_queue (update_entries env P f)" "always same_queue (insert_batch mk_b)"
  "always same_queue (insert_sealed env mk_s)"
  by (auto simp: always_def same_queue_def now_rfc3339_def insert_entry_def insert_status_def update_entries_def
      insert_batch_def insert_sealed_def touch_entries_def log_entries_def log_sealed_def Let_def)

lemma unqueued_ops [queue_rules]:
  "always same_queue (collection_add env new)" "always same_queue (collection_update env i edit)"
  "always same_queue (batches_create env new_b)" "always same_queue (sealed_add env new_s)"
  unfolding collection_add_def collection_update_def batches_create_def sealed_add_def
  by (intro unqueued.always_rules queue_rules)+

lemma unqueued_add_tagged [queue_rules]: "always same_queue (add_tagged env new tags)"
  unfolding add_tagged_def by (intro unqueued.always_rules queue_rules)

text \<open>What closes the row \<open>i\<close> if it is open.\<close>

definition closes :: "int \<Rightarrow> 'a dbact \<Rightarrow> bool" where
  "closes i m \<longleftrightarrow> (\<forall>db u. tbl_ok un_id (db_unresolved db) \<longrightarrow> tbl_find un_id i (db_unresolved db) = Some u \<longrightarrow>
     un_status u = ''open'' \<longrightarrow> queue_progress db (snd (m db)))"

lemma closes_bind:
  assumes "always same_queue m" "\<And>v. closes i (k v)"
  shows "closes i (bind_act m k)"
  unfolding closes_def
proof (intro allI impI)
  fix db :: tdb and u assume db: "tbl_ok un_id (db_unresolved db)" "tbl_find un_id i (db_unresolved db) = Some u" "un_status u = ''open''"
  obtain q t where q: "m db = (q, t)" by force
  then have t: "db_unresolved t = db_unresolved db" using alwaysD [OF assms(1) q] by (simp add: same_queue_def)
  show "queue_progress db (snd (bind_act m k db))"
  proof (cases q)
    case (Inl e)
    then show ?thesis using t by (simp add: bind_act_def q same_queue_progress same_queue_def)
  next
    case (Inr v)
    have "queue_progress t (snd (k v t))" using assms(2) [of v] db t unfolding closes_def by metis
    then show ?thesis using t by (simp add: bind_act_def q Inr queue_progress_def)
  qed
qed

lemma closes_update:
  assumes f: "\<And>u. parked_as (f u) = parked_as u" "\<And>u. un_status (f u) \<in> set [''resolved'', ''dismissed'']"
    and k: "\<And>v. always same_queue (k v)"
  shows "closes i (bind_act (update_unresolved (\<lambda>u. un_id u = i) f) k)"
  unfolding closes_def
proof (intro allI impI)
  fix db :: tdb and u assume db: "tbl_ok un_id (db_unresolved db)" "tbl_find un_id i (db_unresolved db) = Some u" "un_status u = ''open''"
  have only: "v = u" if "v \<in> set (tbl_rows (db_unresolved db))" "un_id v = i" for v
    using that db(2) tbl_find_iff [OF db(1), of i v] by simp
  let ?m = "update_unresolved (\<lambda>u. un_id u = i) f"
  have "list_all2 progressed (tbl_rows (db_unresolved db)) (map (\<lambda>u. if un_id u = i then f u else u) (tbl_rows (db_unresolved db)))"
    using only db(3) f by (auto simp: list_all2_map2 list_all2_same progressed_def)
  then have "queue_progress db (snd (?m db))"
    by (intro queue_progressI [of _ _ "[]"]) (simp_all add: update_unresolved_def)
  moreover have "same_queue t (snd (k v t))" for v t using k by (simp add: always_def)
  ultimately show "queue_progress db (snd (bind_act ?m k db))"
    using queue_progress_trans same_queue_progress by (simp add: bind_act_def update_unresolved_def)
qed

lemma closes_lift: "(\<And>v. closes i (k v)) \<Longrightarrow> closes i (bind_act (lift_result r) k)"
  by (rule closes_bind) (rule unqueued.always_lift)

lemma queue_open_first:
  assumes "\<And>u. closes i (k u)" "always keeps_schema (bind_act (load_parked i) (\<lambda>u. bind_act (lift_result (expect_open u i kind)) (\<lambda>_. k u)))"
  shows "always keeps_queue (bind_act (load_parked i) (\<lambda>u. bind_act (lift_result (expect_open u i kind)) (\<lambda>_. k u)))"
    (is "always keeps_queue ?m")
proof (rule queue_of_schema [OF assms(2)])
  fix db assume "schema_ok db"
  then have ok: "tbl_ok un_id (db_unresolved db)" by (simp add: schema_ok_def ids_ok_def)
  show "queue_progress db (snd (?m db))"
  proof (cases "tbl_find un_id i (db_unresolved db)")
    case None
    then show ?thesis
      by (simp add: load_parked_def bind_act_def query_def fail_def same_queue_progress same_queue_def)
  next
    case (Some u)
    have m: "?m db = bind_act (lift_result (expect_open u i kind)) (\<lambda>_. k u) db"
      by (simp add: load_parked_def bind_act_def query_def ret_def Some)
    show ?thesis
    proof (cases "expect_open u i kind")
      case (Inl e)
      then show ?thesis unfolding m
        by (simp add: bind_act_def lift_result_def fail_def same_queue_progress same_queue_def)
    next
      case (Inr v)
      then have "un_status u = ''open''" by (simp add: expect_open_def split: if_splits)
      then show ?thesis using Inr Some ok assms(1) [of u] unfolding m
        by (simp add: bind_act_def lift_result_def ret_def closes_def)
    qed
  qed
qed

text \<open>The operations of the queue.\<close>

lemma queue_parking [queue_rules]:
  "always keeps_queue (park env k s b l raw h n nm v q r)"
  "always keeps_queue (park_report env codec s b rows rp srows srp)"
proof -
  have now: "always keeps_queue (now_rfc3339 env)"
    by (rule queue_of_schema [OF schema_now]) (simp add: now_rfc3339_def same_queue_progress same_queue_def)
  have ins: "always keeps_queue (insert_unresolved mk)" if "\<And>i. un_id (mk i) = i" for mk
  proof (rule queue_of_schema [OF insert_unresolved_rules(1) [OF that]])
    fix db :: tdb
    show "queue_progress db (snd (insert_unresolved mk db))"
      by (rule queue_progressI [of _ "tbl_rows (db_unresolved db)" "if unresolved_check (mk (next_id (db_unresolved db))) \<and>
            refers ba_id (db_batches db) (un_batch (mk (next_id (db_unresolved db))))
          then [mk (next_id (db_unresolved db))] else []"])
        (simp_all add: insert_unresolved_def Let_def list_all2_refl)
  qed
  show p: "always keeps_queue (park env k s b l raw h n nm v q r)" for k s b l raw h n nm v q r
    unfolding park_def by (intro queue.always_rules now ins) simp
  have "always keeps_queue (park_singles env codec s b rp rows n)" for n
    by (induction rows arbitrary: n) (auto split: option.split intro!: p)
  moreover have "always keeps_queue (park_sealed env codec s b srp srows n)" for n
    by (induction srows arbitrary: n) (auto split: option.split intro!: p)
  ultimately show "always keeps_queue (park_report env codec s b rows rp srows srp)"
    unfolding park_report_def by (intro queue.always_rules)
qed

lemma queue_resolving [queue_rules]:
  "always keeps_queue (resolve_single env codec i printing)" "always keeps_queue (resolve_sealed env codec i product)"
proof -
  have get: "always same_queue (get_row env j)" "always same_queue (sealed_get env j)" for j
    by (simp_all add: get_row_def sealed_get_def unqueued.always_query)
  show "always keeps_queue (resolve_single env codec i printing)"
    unfolding resolve_single_def
    by (rule queue_open_first [OF _ resolve_single_rules(1) [unfolded resolve_single_def]])
      (intro closes_lift closes_bind closes_update unqueued.always_rules queue_rules get; simp add: parked_as_def)
  show "always keeps_queue (resolve_sealed env codec i product)"
    unfolding resolve_sealed_def
    by (rule queue_open_first [OF _ resolve_sealed_rules(1) [unfolded resolve_sealed_def]])
      (intro closes_lift closes_bind closes_update unqueued.always_rules queue_rules get; simp add: parked_as_def)
qed

lemma queue_dismiss [queue_rules]: "always keeps_queue (dismiss env i)"
proof (rule queue_of_schema [OF dismiss_rules(1)])
  fix db :: tdb
  show "queue_progress db (snd (dismiss env i db))"
    by (rule queue_progressI [of _ "map (\<lambda>u. if un_id u = i \<and> un_status u = ''open''
          then u\<lparr>un_status := ''dismissed'', un_resolved_at := Some (env_now env (db_ticks db))\<rparr> else u) (tbl_rows (db_unresolved db))" "[]"])
      (auto simp: dismiss_def bind_act_def now_rfc3339_def update_unresolved_def fail_def ret_def list_all2_map2
        list_all2_same progressed_def parked_as_def)
qed

section \<open>Replaying a parked row\<close>

text \<open>Creating a batch that refers to no order and no binder.\<close>

lemma batches_create_run:
  assumes "schema_ok db" "nt_order new = None" "nt_binder new = None"
  shows "\<exists>db1 now. batches_create env new db = (Inr (next_id (db_batches db)), db1) \<and> schema_ok db1 \<and>
     db1 = db\<lparr>db_ticks := Suc (db_ticks db), db_batches := tbl_append
       \<lparr>ba_id = next_id (db_batches db), ba_type = nt_type new, ba_name = nt_name new, ba_notes = nt_notes new,
        ba_order = None, ba_binder = None, ba_created_at = now\<rparr> (db_batches db)\<rparr>"
proof -
  obtain r db1 where r: "batches_create env new db = (r, db1)" by force
  have "schema_ok db1" using alwaysD [OF batches_create_rules(1) r] assms(1) by (simp add: keeps_schema_def)
  then show ?thesis
    using r assms(2,3)
    by (intro exI [of _ db1] exI [of _ "env_now env (db_ticks db)"])
      (simp add: batches_create_def bind_act_def now_rfc3339_def insert_batch_def Let_def batch_refs_def)
qed

text \<open>The batch a replayed copy goes into: the import's own, or a fresh one.\<close>

lemma replay_batch:
  assumes "schema_ok db" "refers ba_id (db_batches db) origin" "nt_order new = None" "nt_binder new = None"
  shows "\<exists>b db1. (case origin of Some b \<Rightarrow> ret b | None \<Rightarrow> batches_create env new) db = (Inr b, db1) \<and>
     schema_ok db1 \<and> (\<forall>c. origin = Some c \<longrightarrow> b = c) \<and> tbl_has ba_id (db_batches db1) b \<and>
     db_collection db1 = db_collection db \<and> db_unresolved db1 = db_unresolved db \<and>
     db_user_printings db1 = db_user_printings db"
proof (cases origin)
  case (Some b)
  then show ?thesis using assms by (intro exI [of _ b] exI [of _ db]) (simp add: ret_def refers_def)
next
  case None
  with batches_create_run [OF assms(1,3,4), of env] show ?thesis by auto
qed

text \<open>
  C13. Resolving a parked single to a printing replays it exactly once: for an open row whose JSON decodes
  and a known printing, exactly one owned copy appears, with the row's condition, language, price, source
  and tags, its acquisition date if it has one and the import's batch if it has one; the queue row
  becomes resolved and names the copy; and resolving it again, to whatever printing, is a conflict that
  changes nothing.
\<close>

theorem resolve_single_replays:
  assumes ok: "schema_ok db" and found: "tbl_find un_id i (db_unresolved db) = Some u"
    and opn: "un_status u = ''open''" "un_kind u = ''single''" and raw: "cd_decode codec (un_raw u) = Inr row"
    and known: "printing_exists (env_catalog env) db printing" "pr_condition row \<in> set conditions_allowed"
  shows "\<exists>r db' c now. resolve_single env codec i printing db = (r, db') \<and>
     tbl_rows (db_collection db') = tbl_rows (db_collection db) @ [c] \<and>
     (ce_printing c, ce_condition c, ce_language c, ce_purchase_price c, ce_source c, ce_status c, ce_tags c) =
       (printing, pr_condition row, pr_language row, pr_purchase_price row, un_source u, ''owned'',
        tags_of (pr_tags row)) \<and>
     (\<forall>t. pr_acquired_at row = Some t \<longrightarrow> ce_acquired_at c = t) \<and>
     (\<forall>b. un_batch u = Some b \<longrightarrow> ce_batch c = Some b) \<and>
     db_unresolved db' = tbl_modify (\<lambda>v. un_id v = i) (\<lambda>v. v\<lparr>un_status := ''resolved'', un_printing := Some printing,
        un_collection := Some (ce_id c), un_resolved_at := Some now\<rparr>) (db_unresolved db) \<and>
     (\<forall>p. resolve_single env codec i p db' =
        (Inl (Conflict (''unresolved import row '' @ show_int i @ '' is already resolved'')), db'))"
proof -
  let ?nb = "\<lparr>nt_type = ''manual_resolution'', nt_name = Some ''Manual import resolution'', nt_notes = None,
    nt_order = None, nt_binder = None\<rparr>"
  have "refers ba_id (db_batches db) (un_batch u)"
    using ok tbl_find_Some [OF found] by (simp add: schema_ok_def refs_ok_def)
  from replay_batch [OF ok this, of ?nb env] obtain b db1 where
    1: "(case un_batch u of Some b \<Rightarrow> ret b | None \<Rightarrow> batches_create env ?nb) db = (Inr b, db1)" "schema_ok db1"
      "\<And>c. un_batch u = Some c \<Longrightarrow> b = c" "tbl_has ba_id (db_batches db1) b"
      "db_collection db1 = db_collection db" "db_unresolved db1 = db_unresolved db"
      "db_user_printings db1 = db_user_printings db"
    by auto
  let ?new = "replayed_copy row printing (un_source u) b"
  have v: "valid_copy env db1 ?new"
    using known 1(4,7) by (simp add: valid_copy_def copy_check_def copy_refs_def replayed_copy_def
        printing_exists_def statuses_allowed_def)
  define c where "c = (new_entry ?new (keep (nc_acquired_at ?new) (env_now env (db_ticks db1)))
    (next_id (db_collection db1)))\<lparr>ce_tags := tags_of (pr_tags row)\<rparr>"
  obtain db2 where 2: "add_tagged env ?new (pr_tags row) db1 = (Inr (ce_id c), db2)" "only_copies db1 db2"
      "tbl_rows (db_collection db2) = tbl_rows (db_collection db) @ [c]"
    using add_tagged_run [OF 1(2) v, of "pr_tags row"] by (auto simp: c_def 1(5))
  have un2: "db_unresolved db2 = db_unresolved db" using 2(2) 1(6) by (simp add: only_copies_def)
  let ?now = "env_now env (db_ticks db2)"
  let ?f = "\<lambda>v. v\<lparr>un_status := ''resolved'', un_printing := Some printing, un_collection := Some (ce_id c),
    un_resolved_at := Some ?now\<rparr>"
  define db3 where "db3 = db2\<lparr>db_ticks := Suc (db_ticks db2), db_unresolved := tbl_modify (\<lambda>v. un_id v = i) ?f (db_unresolved db)\<rparr>"
  have run: "resolve_single env codec i printing db = bind_act (get_row env (ce_id c)) (\<lambda>got. case got of
       Some r \<Rightarrow> ret r
     | None \<Rightarrow> fail (NotFound (''collection row '' @ show_int (ce_id c) @ '' vanished after resolve''))) db3"
    by (simp add: resolve_single_def load_parked_def bind_act_def query_def found ret_def lift_result_def expect_open_def
        opn decoded_def raw 1(1) 2(1) now_rfc3339_def update_unresolved_def db3_def un2)
  then have "\<exists>r. resolve_single env codec i printing db = (r, db3)"
    by (simp add: get_row_def bind_act_def query_def ret_def fail_def split: list.split)
  then obtain r where r: "resolve_single env codec i printing db = (r, db3)" by blast
  have "tbl_find un_id i (db_unresolved db3) = Some (?f u)"
    using found tbl_find_Some [OF found] by (simp add: db3_def tbl_find_modify)
  then have again: "resolve_single env codec i p db3 =
      (Inl (Conflict (''unresolved import row '' @ show_int i @ '' is already resolved'')), db3)" for p
    by (simp add: resolve_single_def load_parked_def bind_act_def query_def ret_def lift_result_def expect_open_def fail_def)
  have rows: "tbl_rows (db_collection db3) = tbl_rows (db_collection db) @ [c]"
    "db_unresolved db3 = tbl_modify (\<lambda>v. un_id v = i) ?f (db_unresolved db)"
    by (simp_all add: db3_def 2(3))
  have c: "(ce_printing c, ce_condition c, ce_language c, ce_purchase_price c, ce_source c, ce_status c, ce_tags c) =
      (printing, pr_condition row, pr_language row, pr_purchase_price row, un_source u, ''owned'', tags_of (pr_tags row))"
    "pr_acquired_at row = Some t \<Longrightarrow> ce_acquired_at c = t" "ce_batch c = Some b" for t
    by (simp_all add: c_def new_entry_def replayed_copy_def)
  show ?thesis
    by (intro exI [of _ r] exI [of _ db3] exI [of _ c] exI [of _ ?now] conjI allI impI)
      (use r rows c 1(3) again in simp_all)
qed

text \<open>A queue with one parked single, and a codec that decodes every text to the sample row.\<close>

definition sample_codec :: codec where
  "sample_codec = \<lparr>cd_encode = pr_number, cd_decode = (\<lambda>_. Inr sample_import_row), cd_encode_sealed = ps_name,
     cd_decode_sealed = (\<lambda>_. Inl ''no sealed rows'')\<rparr>"

definition sample_parked :: tdb where
  "sample_parked = after (park sample_env ''single'' ''csv_manabox'' None (Some 2) ''004'' None None None None None ''unknown set'') empty_db"

lemma sample_parked_ok: "schema_ok sample_parked"
  unfolding sample_parked_def by (intro after_schema park_rules schema_ok_empty)

lemma sample_parked_rows:
  "\<exists>u. tbl_rows (db_unresolved sample_parked) = [u] \<and> un_id u = 1 \<and> un_status u = ''open'' \<and> un_kind u = ''single'' \<and>
     un_source u = ''csv_manabox''"
  "tbl_rows (db_collection sample_parked) = []"
  by (simp_all add: sample_parked_def park_def insert_unresolved_def unresolved_check_def run_defs)

theorem resolve_single_replays_witness:
  "\<exists>r db' c. resolve_single sample_env sample_codec 1 ''base1-4:holofoil'' sample_parked = (r, db') \<and>
     tbl_rows (db_collection db') = [c] \<and> ce_printing c = ''base1-4:holofoil'' \<and> ce_source c = ''csv_manabox'' \<and>
     ce_tags c \<noteq> None"
proof -
  obtain u where u: "tbl_rows (db_unresolved sample_parked) = [u]" "un_id u = 1" "un_status u = ''open''"
      "un_kind u = ''single''" "un_source u = ''csv_manabox''"
    using sample_parked_rows(1) by blast
  have found: "tbl_find un_id 1 (db_unresolved sample_parked) = Some u" by (simp add: tbl_find_def u)
  have raw: "cd_decode sample_codec (un_raw u) = Inr sample_import_row" by (simp add: sample_codec_def)
  have known: "printing_exists (env_catalog sample_env) sample_parked ''base1-4:holofoil''"
    "pr_condition sample_import_row \<in> set conditions_allowed"
    by (simp_all add: printing_exists_def sample_catalog_def sample_import_row_def conditions_allowed_def)
  from resolve_single_replays [OF sample_parked_ok found u(3,4) raw known]
  obtain r db' c where "resolve_single sample_env sample_codec 1 ''base1-4:holofoil'' sample_parked = (r, db')"
      "tbl_rows (db_collection db') = tbl_rows (db_collection sample_parked) @ [c]"
      "ce_printing c = ''base1-4:holofoil''" "ce_source c = un_source u" "ce_tags c = tags_of (pr_tags sample_import_row)"
    by auto
  then show ?thesis by (simp add: sample_parked_rows(2) u(5) tags_of_def sample_import_row_def)
qed

text \<open>The operations that write the queue.\<close>

inductive queue_op :: "'j env \<Rightarrow> codec \<Rightarrow> (tdb \<Rightarrow> tdb) \<Rightarrow> bool" for env :: "'j env" and codec where
  park_report: "queue_op env codec (after (park_report env codec source batch rows report srows srp))"
| resolve_single: "queue_op env codec (after (resolve_single env codec i printing))"
| resolve_sealed: "queue_op env codec (after (resolve_sealed env codec i product))"
| dismiss: "queue_op env codec (after (dismiss env i))"

lemma after_queue: "always keeps_queue m \<Longrightarrow> keeps_queue db (after m db)"
  by (simp add: always_def after_def)

text \<open>
  C12. A queue row is closed at most once and never lost: whatever is parked, resolved or dismissed, every
  row keeps its place and everything it was parked with, and either does not change at all or goes
  from open to resolved or dismissed; a closed row never changes again.
\<close>

theorem queue_rows_close_once:
  assumes "schema_ok db" "queue_op env codec f"
  shows "\<exists>old new. tbl_rows (db_unresolved (f db)) = old @ new \<and>
     list_all2 (\<lambda>u v. parked_as v = parked_as u \<and>
         (v = u \<or> un_status u = ''open'' \<and> un_status v \<in> set [''resolved'', ''dismissed'']))
       (tbl_rows (db_unresolved db)) old"
proof -
  have "keeps_queue db (f db)"
    using assms(2) by (induction rule: queue_op.induct) (rule after_queue, rule queue_rules)+
  then obtain old new where "tbl_rows (db_unresolved (f db)) = old @ new"
      "list_all2 progressed (tbl_rows (db_unresolved db)) old"
    using assms(1) unfolding keeps_queue_def queue_progress_def by blast
  moreover have "progressed = (\<lambda>u v. parked_as v = parked_as u \<and>
         (v = u \<or> un_status u = ''open'' \<and> un_status v \<in> set [''resolved'', ''dismissed'']))"
    by (simp add: progressed_def fun_eq_iff)
  ultimately show ?thesis by metis
qed

theorem queue_rows_close_once_witness:
  "\<exists>v new. tbl_rows (db_unresolved (after (dismiss sample_env 1) sample_parked)) = v # new \<and> un_source v = ''csv_manabox''"
proof -
  obtain u where u: "tbl_rows (db_unresolved sample_parked) = [u]" "un_source u = ''csv_manabox''"
    using sample_parked_rows(1) by blast
  obtain v new where v: "tbl_rows (db_unresolved (after (dismiss sample_env 1) sample_parked)) = v # new"
      "parked_as v = parked_as u"
    using queue_rows_close_once [OF sample_parked_ok queue_op.dismiss [of sample_env sample_codec 1]] u(1)
    by (auto simp: list_all2_Cons1)
  have "un_source v = un_source (parked_as v)" "un_source u = un_source (parked_as u)" by (simp_all add: parked_as_def)
  then show ?thesis using v u(2) by auto
qed

end
