(* ===== verification/Import_Commit.thy ===== *)
theory Import_Commit
  imports Unresolved
begin

text \<open>
  Previews and commits of whole import files: the writing half of \<open>pkdump-db/src/import.rs\<close>.
\<close>

section \<open>Single cards\<close>

record CommitResult =
  cm_batch :: int
  cm_added :: nat
  cm_skipped :: nat

definition import_preview :: "'j env \<Rightarrow> ImportFormat \<Rightarrow> string \<Rightarrow> ResolutionReport dbact" where
  "import_preview env format input =
     bind_act (lift_result (import_parse (env_rt env) format input)) (\<lambda>rows.
     query (\<lambda>db. annotate_owned db (resolve_rows (env_rt env) (env_catalog env) rows)))"

definition import_batch :: "string \<Rightarrow> string option \<Rightarrow> NewBatch" where
  "import_batch batch_type name =
     \<lparr>nt_type = batch_type, nt_name = name, nt_notes = None, nt_order = None, nt_binder = None\<rparr>"

definition imported_copy :: "string \<Rightarrow> int \<Rightarrow> ResolvedRow \<Rightarrow> NewCopy" where
  "imported_copy source batch r =
     \<lparr>nc_printing = rr_printing r, nc_condition = Some (rr_condition r), nc_language = Some (rr_language r),
      nc_purchase_price = rr_purchase_price r, nc_acquired_at = rr_acquired_at r, nc_source = source,
      nc_status = None, nc_notes = None, nc_order = None, nc_binder = None, nc_deck = None, nc_batch = Some batch\<rparr>"

definition commit_matched ::
  "'j env \<Rightarrow> ResolutionReport \<Rightarrow> string \<Rightarrow> string \<Rightarrow> string option \<Rightarrow> CommitResult dbact" where
  "commit_matched env report source batch_type batch_name =
     bind_act (batches_create env (import_batch batch_type batch_name)) (\<lambda>batch.
     bind_act (for_each (rp_matched report) (\<lambda>r.
       bind_act (add_tagged env (imported_copy source batch r) (rr_tags r)) (\<lambda>_. ret ()))) (\<lambda>_.
     ret \<lparr>cm_batch = batch, cm_added = length (rp_matched report), cm_skipped = length (rp_unmatched report)\<rparr>))"

definition import_commit :: "'j env \<Rightarrow> ImportFormat \<Rightarrow> string \<Rightarrow> string option \<Rightarrow> CommitResult dbact" where
  "import_commit env format input batch_name =
     bind_act (lift_result (import_parse (env_rt env) format input)) (\<lambda>rows.
     commit_matched env (resolve_rows (env_rt env) (env_catalog env) rows)
       (format_source format) (format_batch_type format) batch_name)"

definition import_commit_selected ::
  "'j env \<Rightarrow> codec \<Rightarrow> ImportFormat \<Rightarrow> string \<Rightarrow> nat list \<Rightarrow> string option \<Rightarrow> bool \<Rightarrow> CommitResult dbact" where
  "import_commit_selected env codec format input include batch_name park_unmatched =
     bind_act (lift_result (import_parse (env_rt env) format input)) (\<lambda>rows.
     let full = resolve_rows (env_rt env) (env_catalog env) rows in
     bind_act (commit_matched env (filter_report full include) (format_source format) (format_batch_type format)
                batch_name) (\<lambda>result.
     bind_act (if park_unmatched
               then park_report env codec (format_source format) (Some (cm_batch result)) rows full []
                      \<lparr>sr_matched = [], sr_unmatched = []\<rparr>
               else ret 0) (\<lambda>_.
     ret result)))"

section \<open>Collectr: both halves\<close>

record CombinedReport =
  cb_singles :: ResolutionReport
  cb_sealed :: SealedReport
  cb_skipped :: "SkippedRow list"

record CombinedCommitResult =
  cc_singles :: CommitResult
  cc_sealed :: SealedCommitResult
  cc_skipped :: nat

text \<open>\<open>From<collectr::SkippedRow>\<close>: the line number as \<open>u32\<close>.\<close>

definition shown_skip :: "SkippedRow \<Rightarrow> SkippedRow" where
  "shown_skip s = s\<lparr>sk_source_line := as_u32 (sk_source_line s)\<rparr>"

definition preview_collectr :: "'j env \<Rightarrow> string \<Rightarrow> CombinedReport dbact" where
  "preview_collectr env input =
     bind_act (lift_result (import_result (collectr_parse (env_rt env) input))) (\<lambda>parsed.
     query (\<lambda>db.
       \<lparr>cb_singles = annotate_owned db (resolve_rows (env_rt env) (env_catalog env) (cp_singles parsed)),
        cb_sealed = annotate_owned_sealed db (resolve_sealed_rows (env_rt env) (env_catalog env) (cp_sealed parsed)),
        cb_skipped = map shown_skip (cp_skipped parsed)\<rparr>))"

definition commit_collectr :: "'j env \<Rightarrow> string \<Rightarrow> string option \<Rightarrow> CombinedCommitResult dbact" where
  "commit_collectr env input batch_name =
     bind_act (lift_result (import_result (collectr_parse (env_rt env) input))) (\<lambda>parsed.
     let singles_report = resolve_rows (env_rt env) (env_catalog env) (cp_singles parsed);
         sealed_rep = resolve_sealed_rows (env_rt env) (env_catalog env) (cp_sealed parsed) in
     bind_act (commit_matched env singles_report ''csv_collectr'' ''csv_collectr'' batch_name) (\<lambda>singles.
     bind_act (commit_sealed env sealed_rep ''csv_collectr'') (\<lambda>sealed.
     ret \<lparr>cc_singles = singles, cc_sealed = sealed, cc_skipped = length (cp_skipped parsed)\<rparr>)))"

definition commit_collectr_selected ::
  "'j env \<Rightarrow> codec \<Rightarrow> string \<Rightarrow> nat list \<Rightarrow> nat list \<Rightarrow> string option \<Rightarrow> bool \<Rightarrow> CombinedCommitResult dbact" where
  "commit_collectr_selected env codec input include_singles include_sealed batch_name park_unmatched =
     bind_act (lift_result (import_result (collectr_parse (env_rt env) input))) (\<lambda>parsed.
     let singles_full = resolve_rows (env_rt env) (env_catalog env) (cp_singles parsed);
         sealed_full = resolve_sealed_rows (env_rt env) (env_catalog env) (cp_sealed parsed) in
     bind_act (commit_matched env (filter_report singles_full include_singles) ''csv_collectr'' ''csv_collectr''
                batch_name) (\<lambda>singles.
     bind_act (commit_sealed env (filter_sealed sealed_full include_sealed) ''csv_collectr'') (\<lambda>sealed.
     bind_act (if park_unmatched
               then park_report env codec ''csv_collectr'' (Some (cm_batch singles)) (cp_singles parsed) singles_full
                      (cp_sealed parsed) sealed_full
               else ret 0) (\<lambda>_.
     ret \<lparr>cc_singles = singles, cc_sealed = sealed, cc_skipped = length (cp_skipped parsed)\<rparr>))))"

section \<open>Schema, journal and audit trail\<close>

lemma commit_matched_rules [repo_rules, audit_rules]:
  "always keeps_schema (commit_matched env report s t b)" "always (journaled env) (commit_matched env report s t b)"
  "always keeps_audit (commit_matched env report s t b)"
  unfolding commit_matched_def by (intro all_intros repo_rules audit_rules)+

lemma import_commit_rules [repo_rules, audit_rules]:
  "always keeps_schema (import_commit env format input b)" "always (journaled env) (import_commit env format input b)"
  "always keeps_audit (import_commit env format input b)"
  unfolding import_commit_def by (intro all_intros repo_rules audit_rules)+

lemma import_commit_selected_rules [repo_rules, audit_rules]:
  "always keeps_schema (import_commit_selected env codec format input incl b p)"
  "always (journaled env) (import_commit_selected env codec format input incl b p)"
  "always keeps_audit (import_commit_selected env codec format input incl b p)"
  unfolding import_commit_selected_def by (intro all_intros repo_rules audit_rules)+

lemma commit_collectr_rules [repo_rules, audit_rules]:
  "always keeps_schema (commit_collectr env input b)" "always (journaled env) (commit_collectr env input b)"
  "always keeps_audit (commit_collectr env input b)"
  unfolding commit_collectr_def by (intro all_intros repo_rules audit_rules)+

lemma commit_collectr_selected_rules [repo_rules, audit_rules]:
  "always keeps_schema (commit_collectr_selected env codec input si se b p)"
  "always (journaled env) (commit_collectr_selected env codec input si se b p)"
  "always keeps_audit (commit_collectr_selected env codec input si se b p)"
  unfolding commit_collectr_selected_def by (intro all_intros repo_rules audit_rules)+

section \<open>Committing matched rows\<close>

definition imported :: "string \<Rightarrow> int \<Rightarrow> ResolvedRow \<Rightarrow> CollectionEntry \<Rightarrow> bool" where
  "imported source batch r c \<longleftrightarrow>
     (ce_printing c, ce_condition c, ce_language c, ce_purchase_price c, ce_source c, ce_status c, ce_tags c, ce_batch c) =
       (rr_printing r, rr_condition r, rr_language r, rr_purchase_price r, source, ''owned'', tags_of (rr_tags r), Some batch) \<and>
     (\<forall>t. rr_acquired_at r = Some t \<longrightarrow> ce_acquired_at c = t)"

definition committable :: "catalog \<Rightarrow> ResolvedRow \<Rightarrow> bool" where
  "committable cat r \<longleftrightarrow> rr_printing r \<in> pg_id ` set (cat_printings cat) \<and> rr_condition r \<in> set conditions_allowed"

lemma commit_loop_run:
  assumes "schema_ok db" "tbl_has ba_id (db_batches db) batch" "list_all (committable (env_catalog env)) rs"
  shows "\<exists>db' copies. for_each rs (\<lambda>r. bind_act (add_tagged env (imported_copy source batch r) (rr_tags r)) (\<lambda>_. ret ())) db =
      (Inr (), db') \<and> schema_ok db' \<and> only_copies db db' \<and>
     tbl_rows (db_collection db') = tbl_rows (db_collection db) @ copies \<and> list_all2 (imported source batch) rs copies"
  using assms
proof (induction rs arbitrary: db)
  case Nil
  then show ?case by (intro exI [of _ db] exI [of _ "[]"]) (simp add: ret_def only_copies_def)
next
  case (Cons r rs)
  let ?new = "imported_copy source batch r"
  have v: "valid_copy env db ?new"
    using Cons.prems(2,3) by (auto simp: valid_copy_def copy_check_def copy_refs_def imported_copy_def printing_exists_def
        statuses_allowed_def committable_def list_ex_iff)
  define c where "c = (new_entry ?new (keep (nc_acquired_at ?new) (env_now env (db_ticks db)))
    (next_id (db_collection db)))\<lparr>ce_tags := tags_of (rr_tags r)\<rparr>"
  obtain db1 where 1: "add_tagged env ?new (rr_tags r) db = (Inr (next_id (db_collection db)), db1)" "schema_ok db1"
      "only_copies db db1" "tbl_rows (db_collection db1) = tbl_rows (db_collection db) @ [c]"
    using add_tagged_run [OF Cons.prems(1) v, of "rr_tags r"] unfolding c_def by blast
  have "tbl_has ba_id (db_batches db1) batch" "list_all (committable (env_catalog env)) rs"
    using Cons.prems(2,3) 1(3) by (simp_all add: only_copies_def)
  from Cons.IH [OF 1(2) this] obtain db2 copies where
    2: "for_each rs (\<lambda>r. bind_act (add_tagged env (imported_copy source batch r) (rr_tags r)) (\<lambda>_. ret ())) db1 = (Inr (), db2)"
      "schema_ok db2" "only_copies db1 db2" "tbl_rows (db_collection db2) = tbl_rows (db_collection db1) @ copies"
      "list_all2 (imported source batch) rs copies"
    by blast
  have "imported source batch r c" by (simp add: c_def imported_def imported_copy_def new_entry_def)
  then show ?case
    using 1 2 only_copies_trans [OF 1(3) 2(3)]
    by (intro exI [of _ db2] exI [of _ "c # copies"]) (simp add: bind_act_def ret_def)
qed

lemma commit_matched_run:
  assumes "schema_ok db" "list_all (committable (env_catalog env)) (rp_matched report)"
  shows "\<exists>db' copies b. commit_matched env report source batch_type name db =
      (Inr \<lparr>cm_batch = next_id (db_batches db), cm_added = length (rp_matched report),
            cm_skipped = length (rp_unmatched report)\<rparr>, db') \<and> schema_ok db' \<and>
     tbl_rows (db_batches db') = tbl_rows (db_batches db) @ [b] \<and>
     (ba_id b, ba_type b, ba_name b) = (next_id (db_batches db), batch_type, name) \<and>
     db_unresolved db' = db_unresolved db \<and> db_sealed db' = db_sealed db \<and>
     tbl_rows (db_collection db') = tbl_rows (db_collection db) @ copies \<and>
     list_all2 (imported source (next_id (db_batches db))) (rp_matched report) copies"
proof -
  let ?i = "next_id (db_batches db)"
  obtain db1 now where 1: "batches_create env (import_batch batch_type name) db = (Inr ?i, db1)" "schema_ok db1"
      "db1 = db\<lparr>db_ticks := Suc (db_ticks db), db_batches := tbl_append
       \<lparr>ba_id = ?i, ba_type = batch_type, ba_name = name, ba_notes = None,
        ba_order = None, ba_binder = None, ba_created_at = now\<rparr> (db_batches db)\<rparr>"
    using batches_create_run [OF assms(1), of "import_batch batch_type name" env] by (auto simp: import_batch_def)
  have "tbl_has ba_id (db_batches db1) ?i" by (simp add: 1(3))
  from commit_loop_run [OF 1(2) this assms(2)] obtain db2 copies where
    2: "for_each (rp_matched report) (\<lambda>r. bind_act (add_tagged env (imported_copy source ?i r) (rr_tags r)) (\<lambda>_. ret ())) db1 = (Inr (), db2)"
      "schema_ok db2" "only_copies db1 db2" "tbl_rows (db_collection db2) = tbl_rows (db_collection db1) @ copies"
      "list_all2 (imported source ?i) (rp_matched report) copies"
    by blast
  have "db_unresolved db2 = db_unresolved db" "db_sealed db2 = db_sealed db"
    "tbl_rows (db_batches db2) = tbl_rows (db_batches db) @ [\<lparr>ba_id = ?i, ba_type = batch_type, ba_name = name, ba_notes = None,
        ba_order = None, ba_binder = None, ba_created_at = now\<rparr>]"
    using 2(3) by (simp_all add: only_copies_def 1(3))
  moreover have "tbl_rows (db_collection db2) = tbl_rows (db_collection db) @ copies" using 2(4) by (simp add: 1(3))
  moreover have "commit_matched env report source batch_type name db =
      (Inr \<lparr>cm_batch = ?i, cm_added = length (rp_matched report), cm_skipped = length (rp_unmatched report)\<rparr>, db2)"
    by (simp add: commit_matched_def bind_act_def [of "batches_create _ _"] 1(1))
      (simp add: bind_act_def [of "for_each _ _"] 2(1), simp add: ret_def)
  ultimately show ?thesis using 2(2,5)
    by (intro exI [of _ db2] exI [of _ copies] exI conjI) (assumption | simp)+
qed

section \<open>What a parsed file holds\<close>

context row_source
begin

lemma same_line:
  "import_rows record_rows line recs = Inr rows \<Longrightarrow> r \<in> set rows \<Longrightarrow> s \<in> set rows \<Longrightarrow>
   pr_source_line r = pr_source_line s \<Longrightarrow> r = s"
proof (induction recs arbitrary: line rows)
  case (Cons rec recs)
  from import_rows_Cons [OF Cons.prems(1)] obtain cells x ys where
    y: "import_rows record_rows (line + 1) recs = Inr ys" and x: "pr_source_line x = line"
    and rows: "rows = replicate (quantity cells) x @ ys" by blast
  have later: "line < pr_source_line z" if "z \<in> set ys" for z using rows_complete [OF y] that by force
  show ?case
    using Cons.prems(2-4) Cons.IH [OF y] x later unfolding rows by (auto dest: later)
qed simp

end

lemma import_parse_rows:
  assumes "import_parse rt format input = Inr rows"
  shows "\<forall>r \<in> set rows. pr_condition r \<in> set conditions_allowed"
    and "\<And>r s. r \<in> set rows \<Longrightarrow> s \<in> set rows \<Longrightarrow> pr_source_line r = pr_source_line s \<Longrightarrow> r = s"
proof -
  have complete: "\<forall>r \<in> set rows. complete_row r"
    and same: "\<And>r s. r \<in> set rows \<Longrightarrow> s \<in> set rows \<Longrightarrow> pr_source_line r = pr_source_line s \<Longrightarrow> r = s"
    using assms
    by (cases format; auto simp: import_result_def parse_defs and_then_Inr split: sum.splits
        dest: mb.rows_complete tp.rows_complete pd.rows_complete mb.same_line tp.same_line pd.same_line)+
  show "\<forall>r \<in> set rows. pr_condition r \<in> set conditions_allowed"
    using complete by (auto simp: complete_row_def condition_scale_def conditions_allowed_def)
  show "\<And>r s. r \<in> set rows \<Longrightarrow> s \<in> set rows \<Longrightarrow> pr_source_line r = pr_source_line s \<Longrightarrow> r = s" by (rule same)
qed

lemma row_outcome_Inr:
  "row_outcome rt cat row = Inr r \<Longrightarrow> rr_printing r \<in> pg_id ` set (cat_printings cat) \<and>
     rr_condition r = pr_condition row \<and> rr_source_line r = as_u32 (pr_source_line row)"
  using find_member [of _ "cat_printings cat"]
  by (auto simp: row_outcome_def resolve_row_def live_printing_def split: sum.splits option.splits)

lemma row_outcome_Inl: "row_outcome rt cat row = Inl u \<Longrightarrow> ur_source_line u = as_u32 (pr_source_line row)"
  by (auto simp: row_outcome_def resolve_row_def unmatched_row_def split: sum.splits option.splits)

lemma resolved_committable:
  assumes "\<forall>row \<in> set rows. pr_condition row \<in> set conditions_allowed"
  shows "list_all (committable cat) (rp_matched (resolve_rows rt cat rows))"
  using assms
  by (auto simp: list_all_iff resolve_rows_outcomes set_rights committable_def dest!: row_outcome_Inr [OF sym])

section \<open>Parking the misses\<close>

definition parked_single :: "codec \<Rightarrow> string \<Rightarrow> int option \<Rightarrow> ParsedRow \<Rightarrow> UnresolvedRow \<Rightarrow> bool" where
  "parked_single codec source batch row u \<longleftrightarrow>
     (un_kind u, un_status u, un_source u, un_batch u, un_raw u) =
       (''single'', ''open'', source, batch, cd_encode codec row)"

lemma park_run:
  assumes "schema_ok db" "refers ba_id (db_batches db) batch" "kind \<in> set [''single'', ''sealed'']"
  shows "\<exists>db' u. park env kind source batch line raw h n nm v q reason db = (Inr (un_id u), db') \<and> schema_ok db' \<and>
     db_collection db' = db_collection db \<and> db_batches db' = db_batches db \<and>
     tbl_rows (db_unresolved db') = tbl_rows (db_unresolved db) @ [u] \<and>
     (un_kind u, un_status u, un_source u, un_batch u, un_raw u) = (kind, ''open'', source, batch, raw)"
proof -
  obtain r db' where r: "park env kind source batch line raw h n nm v q reason db = (r, db')" by force
  have "schema_ok db'" using alwaysD [OF park_rules(1) r] assms(1) by (simp add: keeps_schema_def)
  then show ?thesis
    using r assms(2,3)
    by (auto simp: park_def bind_act_def now_rfc3339_def insert_unresolved_def unresolved_check_def Let_def)
qed

lemma park_singles_run:
  assumes "schema_ok db" "refers ba_id (db_batches db) batch"
  shows "\<exists>db' parked. park_singles env codec source batch report rows k db = (Inr (k + length parked), db') \<and>
     schema_ok db' \<and> db_collection db' = db_collection db \<and> db_batches db' = db_batches db \<and>
     tbl_rows (db_unresolved db') = tbl_rows (db_unresolved db) @ parked \<and>
     list_all2 (parked_single codec source batch) (filter (\<lambda>row. single_reason report row \<noteq> None) rows) parked"
  using assms
proof (induction rows arbitrary: db k)
  case Nil
  then show ?case by (intro exI [of _ db] exI [of _ "[]"]) (simp add: ret_def)
next
  case (Cons row rows)
  show ?case
  proof (cases "single_reason report row")
    case None
    then show ?thesis using Cons.IH [OF Cons.prems, of k] by simp
  next
    case (Some reason)
    obtain db1 u where 1: "park env ''single'' source batch (Some (int (pr_source_line row))) (cd_encode codec row)
          (Some (pr_set_hint row)) (Some (pr_number row)) (pr_name row) (Some (pr_variant row)) None reason db = (Inr (un_id u), db1)"
        "schema_ok db1" "db_collection db1 = db_collection db" "db_batches db1 = db_batches db"
        "tbl_rows (db_unresolved db1) = tbl_rows (db_unresolved db) @ [u]" "parked_single codec source batch row u"
      using park_run [OF Cons.prems, of "''single''" env source] unfolding parked_single_def
      by (metis list.set_intros(1))
    have "refers ba_id (db_batches db1) batch" using Cons.prems(2) by (simp add: 1(4))
    from Cons.IH [OF 1(2) this, of "k + 1"] obtain db2 parked where
      2: "park_singles env codec source batch report rows (k + 1) db1 = (Inr (k + 1 + length parked), db2)"
        "schema_ok db2" "db_collection db2 = db_collection db1" "db_batches db2 = db_batches db1"
        "tbl_rows (db_unresolved db2) = tbl_rows (db_unresolved db1) @ parked"
        "list_all2 (parked_single codec source batch) (filter (\<lambda>row. single_reason report row \<noteq> None) rows) parked"
      by blast
    show ?thesis
      using 1 2 Some by (intro exI [of _ db2] exI [of _ "u # parked"]) (simp add: bind_act_def)
  qed
qed

lemma park_report_singles_run:
  assumes "schema_ok db" "refers ba_id (db_batches db) batch"
  shows "\<exists>db' parked. park_report env codec source batch rows report [] srp db = (Inr (length parked), db') \<and>
     db_collection db' = db_collection db \<and>
     tbl_rows (db_unresolved db') = tbl_rows (db_unresolved db) @ parked \<and>
     list_all2 (parked_single codec source batch) (filter (\<lambda>row. single_reason report row \<noteq> None) rows) parked"
  using park_singles_run [OF assms, of env codec source report rows 0]
  by (auto simp: park_report_def bind_act_def ret_def)

text \<open>A row of a file is parked exactly when it did not resolve itself.\<close>

lemma single_reason_iff:
  assumes "row \<in> set rows" "\<forall>r \<in> set rows. pr_source_line r < 2 ^ 32"
    and "\<And>r s. r \<in> set rows \<Longrightarrow> s \<in> set rows \<Longrightarrow> pr_source_line r = pr_source_line s \<Longrightarrow> r = s"
  shows "single_reason (resolve_rows rt cat rows) row \<noteq> None \<longleftrightarrow> (\<exists>u. row_outcome rt cat row = Inl u)"
proof
  assume "single_reason (resolve_rows rt cat rows) row \<noteq> None"
  then obtain u where u: "u \<in> set (lefts (map (row_outcome rt cat) rows))" "ur_source_line u = as_u32 (pr_source_line row)"
    by (auto simp: single_reason_def resolve_rows_outcomes dest!: find_member)
  then obtain r where r: "r \<in> set rows" "row_outcome rt cat r = Inl u" by (auto simp: set_lefts)
  then have "as_u32 (pr_source_line r) = as_u32 (pr_source_line row)" using row_outcome_Inl [OF r(2)] u(2) by simp
  then have "pr_source_line r = pr_source_line row"
    using assms(1,2) r(1) by (simp add: as_u32_def)
  then show "\<exists>u. row_outcome rt cat row = Inl u" using assms(3) [OF r(1) assms(1)] r(2) by blast
next
  assume "\<exists>u. row_outcome rt cat row = Inl u"
  then obtain u where u: "row_outcome rt cat row = Inl u" by blast
  then have "u \<in> set (lefts (map (row_outcome rt cat) rows))" using assms(1) by (force simp: set_lefts)
  then show "single_reason (resolve_rows rt cat rows) row \<noteq> None"
    using row_outcome_Inl [OF u] by (auto simp: single_reason_def resolve_rows_outcomes find_None_iff)
qed

section \<open>Committing sealed rows\<close>

definition sealed_lot :: "string \<Rightarrow> ResolvedSealedRow \<Rightarrow> SealedRow \<Rightarrow> bool" where
  "sealed_lot source r s \<longleftrightarrow>
     (se_product s, se_quantity s, se_condition s, se_purchase_price s, se_purchase_date s, se_source s, se_notes s,
      se_status s) =
     (rs_product r, int (rs_quantity r), Some (rs_condition r), rs_purchase_price r, rs_purchase_date r, Some source,
      rs_notes r, ''owned'')"

lemma sealed_add_run:
  assumes "sealed_product_exists (env_catalog env) (ns_product new)"
  shows "\<exists>db' t. sealed_add env new db = (Inr (next_id (db_sealed db)), db') \<and>
     db_collection db' = db_collection db \<and> db_unresolved db' = db_unresolved db \<and> db_batches db' = db_batches db \<and>
     tbl_rows (db_sealed db') = tbl_rows (db_sealed db) @ [sealed_row new t (next_id (db_sealed db))]"
  using assms
  by (simp add: sealed_add_def bind_act_def now_rfc3339_def insert_sealed_def Let_def log_sealed_def sealed_row_def
      sealed_statuses_allowed_def)

lemma commit_sealed_run:
  assumes "list_all (\<lambda>r. sealed_product_exists (env_catalog env) (rs_product r)) (sr_matched report)"
  shows "\<exists>db' lots. commit_sealed env report source db =
      (Inr \<lparr>sc_added = length (sr_matched report), sc_skipped = length (sr_unmatched report)\<rparr>, db') \<and>
     db_collection db' = db_collection db \<and> db_unresolved db' = db_unresolved db \<and> db_batches db' = db_batches db \<and>
     tbl_rows (db_sealed db') = tbl_rows (db_sealed db) @ lots \<and> list_all2 (sealed_lot source) (sr_matched report) lots"
proof -
  have "\<exists>db' lots. for_each rs (\<lambda>r. bind_act (sealed_add env (new_sealed source r)) (\<lambda>_. ret ())) db = (Inr (), db') \<and>
     db_collection db' = db_collection db \<and> db_unresolved db' = db_unresolved db \<and> db_batches db' = db_batches db \<and>
     tbl_rows (db_sealed db') = tbl_rows (db_sealed db) @ lots \<and> list_all2 (sealed_lot source) rs lots"
    if "list_all (\<lambda>r. sealed_product_exists (env_catalog env) (rs_product r)) rs" for rs
    using that
  proof (induction rs arbitrary: db)
    case Nil
    then show ?case by (intro exI [of _ db] exI [of _ "[]"]) (simp add: ret_def)
  next
    case (Cons r rs)
    have "sealed_product_exists (env_catalog env) (ns_product (new_sealed source r))"
      using Cons.prems by (simp add: new_sealed_def)
    from sealed_add_run [OF this, of db] obtain db1 t where
      1: "sealed_add env (new_sealed source r) db = (Inr (next_id (db_sealed db)), db1)"
        "db_collection db1 = db_collection db" "db_unresolved db1 = db_unresolved db" "db_batches db1 = db_batches db"
        "tbl_rows (db_sealed db1) = tbl_rows (db_sealed db) @ [sealed_row (new_sealed source r) t (next_id (db_sealed db))]"
      by blast
    obtain db2 lots where
      2: "for_each rs (\<lambda>r. bind_act (sealed_add env (new_sealed source r)) (\<lambda>_. ret ())) db1 = (Inr (), db2)"
        "db_collection db2 = db_collection db1" "db_unresolved db2 = db_unresolved db1" "db_batches db2 = db_batches db1"
        "tbl_rows (db_sealed db2) = tbl_rows (db_sealed db1) @ lots" "list_all2 (sealed_lot source) rs lots"
      using Cons.IH [of db1] Cons.prems by auto
    have "sealed_lot source r (sealed_row (new_sealed source r) t (next_id (db_sealed db)))"
      by (simp add: sealed_lot_def sealed_row_def new_sealed_def)
    then show ?case
      using 1 2 by (intro exI [of _ db2] exI [of _ "sealed_row (new_sealed source r) t (next_id (db_sealed db)) # lots"])
        (simp add: bind_act_def ret_def)
  qed
  from this [OF assms] show ?thesis
    by (auto simp: commit_sealed_def bind_act_def [of "for_each _ _"]) (auto simp: ret_def)
qed

lemma resolved_sealed_exist:
  "list_all (\<lambda>r. sealed_product_exists cat (rs_product r)) (sr_matched (resolve_sealed_rows rt cat rows))"
  unfolding list_all_iff
proof
  fix r assume "r \<in> set (sr_matched (resolve_sealed_rows rt cat rows))"
  then obtain row where "sealed_outcome rt cat row = Inr r" by (auto simp: resolve_sealed_outcomes set_rights)
  from sealed_outcome_Inr [OF this] show "sealed_product_exists cat (rs_product r)"
    unfolding sealed_product_exists_def list_ex_iff by (auto simp: sealed_hit_def candidate_def)
qed

lemma collectr_conditions:
  "collectr_parse rt input = Inr parsed \<Longrightarrow> \<forall>row \<in> set (cp_singles parsed). pr_condition row \<in> set conditions_allowed"
proof -
  have scale: "map_condition t c \<in> set conditions_allowed" for t c
    using map_condition_in_scale [of t c] by (simp add: condition_scale_def conditions_allowed_def)
  have rec: "collectr_record t cols line rec out = Inr out' \<Longrightarrow>
      \<forall>row \<in> set (cp_singles out). pr_condition row \<in> set conditions_allowed \<Longrightarrow>
      \<forall>row \<in> set (cp_singles out'). pr_condition row \<in> set conditions_allowed" for t cols line rec out out'
    by (auto simp: collectr_record_def Let_def and_then_Inr scale split: if_splits)
  have "collectr_loop rt cols line recs out = Inr out' \<Longrightarrow>
      \<forall>row \<in> set (cp_singles out). pr_condition row \<in> set conditions_allowed \<Longrightarrow>
      \<forall>row \<in> set (cp_singles out'). pr_condition row \<in> set conditions_allowed" for cols line recs out out'
  proof (induction rt cols line recs out rule: collectr_loop.induct)
    case (3 rt cols line r recs out)
    obtain mid where "collectr_record rt cols line r out = Inr mid" "collectr_loop rt cols (line + 1) recs mid = Inr out'"
      using 3(2) by (auto simp: and_then_Inr)
    then show ?case using 3(1) 3(3) rec by blast
  qed simp_all
  then show "collectr_parse rt input = Inr parsed \<Longrightarrow> \<forall>row \<in> set (cp_singles parsed). pr_condition row \<in> set conditions_allowed"
    by (fastforce simp: collectr_parse_def and_then_Inr split: sum.splits)
qed

section \<open>Properties\<close>

text \<open>
  C11. Committing a file of single cards never fails once the file parses, and adds exactly what the
  preview showed: one new batch, and for every matched row, in file order, one owned copy of its
  printing in that batch with the row's condition, language, price, tags and acquisition date; every
  other row is counted as skipped.
\<close>

theorem import_commit_adds_matched:
  assumes "schema_ok db" "import_parse (env_rt env) format input = Inr rows"
  shows "\<exists>db' copies b. import_commit env format input name db =
       (Inr \<lparr>cm_batch = ba_id b, cm_added = length copies, cm_skipped = length rows - length copies\<rparr>, db') \<and>
     tbl_rows (db_batches db') = tbl_rows (db_batches db) @ [b] \<and>
     (ba_id b, ba_type b, ba_name b) = (next_id (db_batches db), format_batch_type format, name) \<and>
     tbl_rows (db_collection db') = tbl_rows (db_collection db) @ copies \<and>
     list_all2 (imported (format_source format) (ba_id b))
       (rp_matched (resolve_rows (env_rt env) (env_catalog env) rows)) copies \<and>
     db_sealed db' = db_sealed db \<and> db_unresolved db' = db_unresolved db"
proof -
  let ?report = "resolve_rows (env_rt env) (env_catalog env) rows"
  have m: "list_all (committable (env_catalog env)) (rp_matched ?report)"
    using import_parse_rows(1) [OF assms(2)] by (rule resolved_committable)
  from commit_matched_run [OF assms(1) m] obtain db' copies b where
    r: "commit_matched env ?report (format_source format) (format_batch_type format) name db =
        (Inr \<lparr>cm_batch = next_id (db_batches db), cm_added = length (rp_matched ?report),
              cm_skipped = length (rp_unmatched ?report)\<rparr>, db')"
      "tbl_rows (db_batches db') = tbl_rows (db_batches db) @ [b]"
      "(ba_id b, ba_type b, ba_name b) = (next_id (db_batches db), format_batch_type format, name)"
      "db_unresolved db' = db_unresolved db" "db_sealed db' = db_sealed db"
      "tbl_rows (db_collection db') = tbl_rows (db_collection db) @ copies"
      "list_all2 (imported (format_source format) (next_id (db_batches db))) (rp_matched ?report) copies"
    by blast
  have "length copies = length (rp_matched ?report)" using r(7) by (simp add: list_all2_lengthD)
  moreover from this have "length rows - length copies = length (rp_unmatched ?report)"
    using length_lefts_rights [of "map (row_outcome (env_rt env) (env_catalog env)) rows"]
    by (simp add: resolve_rows_outcomes)
  ultimately have "import_commit env format input name db =
      (Inr \<lparr>cm_batch = ba_id b, cm_added = length copies, cm_skipped = length rows - length copies\<rparr>, db')"
    using r(1,3) by (simp add: import_commit_def bind_act_def lift_result_def assms(2) ret_def)
  then show ?thesis using r(2-7) by (intro exI [of _ db'] exI [of _ copies] exI [of _ b]) simp
qed

text \<open>
  C10. With parking on, a committed import loses nothing: of the rows of the file exactly the matched ones the
  user kept become copies, and exactly the unmatched ones are parked as open queue rows under the same batch,
  each with the JSON of its own parsed row, one queue row per physical copy; only matched rows the user
  deselected are left out.
\<close>

theorem import_selected_conserves_rows:
  assumes "schema_ok db" "import_parse (env_rt env) format input = Inr rows" "\<forall>r \<in> set rows. pr_source_line r < 2 ^ 32"
  shows "\<exists>db' result copies parked. import_commit_selected env codec format input include name True db = (Inr result, db') \<and>
     tbl_rows (db_collection db') = tbl_rows (db_collection db) @ copies \<and>
     list_all2 (imported (format_source format) (cm_batch result))
       (filter (\<lambda>r. rr_source_line r \<in> set include) (rights (map (row_outcome (env_rt env) (env_catalog env)) rows))) copies \<and>
     tbl_rows (db_unresolved db') = tbl_rows (db_unresolved db) @ parked \<and>
     list_all2 (parked_single codec (format_source format) (Some (cm_batch result)))
       (filter (\<lambda>row. \<exists>u. row_outcome (env_rt env) (env_catalog env) row = Inl u) rows) parked"
proof -
  let ?report = "resolve_rows (env_rt env) (env_catalog env) rows" and ?out = "row_outcome (env_rt env) (env_catalog env)"
  have "list_all (committable (env_catalog env)) (rp_matched ?report)"
    using import_parse_rows(1) [OF assms(2)] by (rule resolved_committable)
  then have m: "list_all (committable (env_catalog env)) (rp_matched (filter_report ?report include))"
    by (simp add: filter_report_def list_all_iff)
  let ?i = "next_id (db_batches db)"
  from commit_matched_run [OF assms(1) m] obtain db1 copies b where
    1: "commit_matched env (filter_report ?report include) (format_source format) (format_batch_type format) name db =
        (Inr \<lparr>cm_batch = ?i, cm_added = length (rp_matched (filter_report ?report include)),
              cm_skipped = length (rp_unmatched (filter_report ?report include))\<rparr>, db1)" "schema_ok db1"
      "tbl_rows (db_batches db1) = tbl_rows (db_batches db) @ [b]" "ba_id b = ?i"
      "db_unresolved db1 = db_unresolved db" "tbl_rows (db_collection db1) = tbl_rows (db_collection db) @ copies"
      "list_all2 (imported (format_source format) ?i) (rp_matched (filter_report ?report include)) copies"
    by blast
  have "refers ba_id (db_batches db1) (Some ?i)" using 1(3,4) by (auto simp: refers_def tbl_has_iff)
  from park_report_singles_run [OF 1(2) this] obtain db2 parked where
    2: "park_report env codec (format_source format) (Some ?i) rows ?report [] \<lparr>sr_matched = [], sr_unmatched = []\<rparr> db1 =
        (Inr (length parked), db2)" "db_collection db2 = db_collection db1"
      "tbl_rows (db_unresolved db2) = tbl_rows (db_unresolved db1) @ parked"
      "list_all2 (parked_single codec (format_source format) (Some ?i))
         (filter (\<lambda>row. single_reason ?report row \<noteq> None) rows) parked"
    by blast
  have "filter (\<lambda>row. single_reason ?report row \<noteq> None) rows = filter (\<lambda>row. \<exists>u. ?out row = Inl u) rows"
    using single_reason_iff [OF _ assms(3) import_parse_rows(2) [OF assms(2)]] by (intro filter_cong refl) blast
  with 2(4) have parked: "list_all2 (parked_single codec (format_source format) (Some ?i))
      (filter (\<lambda>row. \<exists>u. ?out row = Inl u) rows) parked"
    by (simp only:)
  define result where "result = \<lparr>cm_batch = ?i, cm_added = length (rp_matched (filter_report ?report include)),
      cm_skipped = length (rp_unmatched (filter_report ?report include))\<rparr>"
  have batch: "cm_batch result = ?i" by (simp add: result_def)
  have run: "import_commit_selected env codec format input include name True db = (Inr result, db2)"
    by (simp add: import_commit_selected_def bind_act_def lift_result_def assms(2) ret_def Let_def 1(1) 2(1) result_def)
  have copies: "list_all2 (imported (format_source format) ?i)
      (filter (\<lambda>r. rr_source_line r \<in> set include) (rights (map ?out rows))) copies"
    using 1(7) by (simp add: filter_report_def resolve_rows_outcomes)
  have "tbl_rows (db_collection db2) = tbl_rows (db_collection db) @ copies"
    "tbl_rows (db_unresolved db2) = tbl_rows (db_unresolved db) @ parked"
    using 1(5,6) 2(2,3) by simp_all
  with run copies parked show ?thesis
    unfolding batch [symmetric] by (intro exI [of _ db2] exI [of _ result] exI [of _ copies] exI [of _ parked] conjI)
qed

text \<open>
  The garden wall holds to the end: committing a Collectr export never fails once it parses, its
  single cards become copies in \<open>collection\<close> and nothing else, its sealed products become lots in
  \<open>sealed_collection\<close> with their quantity kept and nothing else, and the dead-letter queue is untouched.
\<close>

theorem commit_collectr_keeps_wall:
  assumes "schema_ok db" "collectr_parse (env_rt env) input = Inr parsed"
  shows "\<exists>db' batch copies lots result. commit_collectr env input name db = (Inr result, db') \<and>
     tbl_rows (db_collection db') = tbl_rows (db_collection db) @ copies \<and>
     list_all2 (imported ''csv_collectr'' batch)
       (rp_matched (resolve_rows (env_rt env) (env_catalog env) (cp_singles parsed))) copies \<and>
     tbl_rows (db_sealed db') = tbl_rows (db_sealed db) @ lots \<and>
     list_all2 (sealed_lot ''csv_collectr'')
       (sr_matched (resolve_sealed_rows (env_rt env) (env_catalog env) (cp_sealed parsed))) lots \<and>
     db_unresolved db' = db_unresolved db \<and>
     cm_added (cc_singles result) = length copies \<and> sc_added (cc_sealed result) = length lots \<and>
     cc_skipped result = length (cp_skipped parsed)"
proof -
  let ?singles = "resolve_rows (env_rt env) (env_catalog env) (cp_singles parsed)"
  let ?sealed = "resolve_sealed_rows (env_rt env) (env_catalog env) (cp_sealed parsed)"
  have m: "list_all (committable (env_catalog env)) (rp_matched ?singles)"
    using collectr_conditions [OF assms(2)] by (rule resolved_committable)
  from commit_matched_run [OF assms(1) m] obtain db1 copies where
    1: "commit_matched env ?singles ''csv_collectr'' ''csv_collectr'' name db =
        (Inr \<lparr>cm_batch = next_id (db_batches db), cm_added = length (rp_matched ?singles),
              cm_skipped = length (rp_unmatched ?singles)\<rparr>, db1)"
      "db_unresolved db1 = db_unresolved db" "db_sealed db1 = db_sealed db"
      "tbl_rows (db_collection db1) = tbl_rows (db_collection db) @ copies"
      "list_all2 (imported ''csv_collectr'' (next_id (db_batches db))) (rp_matched ?singles) copies"
    by blast
  from commit_sealed_run [OF resolved_sealed_exist] obtain db2 lots where
    2: "commit_sealed env ?sealed ''csv_collectr'' db1 =
        (Inr \<lparr>sc_added = length (sr_matched ?sealed), sc_skipped = length (sr_unmatched ?sealed)\<rparr>, db2)"
      "db_collection db2 = db_collection db1" "db_unresolved db2 = db_unresolved db1"
      "tbl_rows (db_sealed db2) = tbl_rows (db_sealed db1) @ lots" "list_all2 (sealed_lot ''csv_collectr'') (sr_matched ?sealed) lots"
    by blast
  define result where "result = \<lparr>cc_singles = \<lparr>cm_batch = next_id (db_batches db), cm_added = length (rp_matched ?singles),
              cm_skipped = length (rp_unmatched ?singles)\<rparr>,
            cc_sealed = \<lparr>sc_added = length (sr_matched ?sealed), sc_skipped = length (sr_unmatched ?sealed)\<rparr>,
            cc_skipped = length (cp_skipped parsed)\<rparr>"
  have "commit_collectr env input name db = (Inr result, db2)"
    by (simp add: result_def commit_collectr_def bind_act_def lift_result_def import_result_def assms(2) ret_def Let_def 1(1) 2(1))
  then show ?thesis
    using 1(2-5) 2(2-5)
    by (intro exI [of _ db2] exI [of _ "next_id (db_batches db)"] exI [of _ copies] exI [of _ lots] exI [of _ result])
      (simp add: result_def list_all2_lengthD)
qed

text \<open>A catalog with one card of the sample file: its first two rows resolve, the third does not.\<close>

definition import_catalog :: catalog where
  "import_catalog = sample_catalog
     \<lparr>cat_sets := [\<lparr>st_code = ''MEW'', st_ptcgo = None, st_name = ''151'', st_symbol_url = None\<rparr>],
      cat_cards :=
        [\<lparr>cd_id = ''mew-6'', cd_set = ''MEW'', cd_number = ''6'', cd_name = ''Charizard ex'', cd_rarity = None,
          cd_artist = None, cd_supertype = None, cd_subtypes = None, cd_types = None, cd_attacks = None,
          cd_image_small = None, cd_image_large = None, cd_hp = None\<rparr>],
      cat_printings :=
        [\<lparr>pg_id = ''mew-6:normal'', pg_card = ''mew-6'', pg_variant = ''normal'', pg_product = None,
          pg_sub_type = None, pg_deprecated_at = None\<rparr>]\<rparr>"

definition import_env :: "string env" where
  "import_env = sample_env\<lparr>env_rt := sample_runtime, env_catalog := import_catalog\<rparr>"

lemma import_env_simps [simp]: "env_rt import_env = sample_runtime" "env_catalog import_env = import_catalog"
  by (simp_all add: import_env_def)

lemma import_env_rows:
  "import_parse sample_runtime Manabox [] = Inr (replicate 2 (sample_row 2 ''MEW'' ''6'') @ [sample_row 3 ''SVI'' ''12''])"
  by (simp add: import_result_def sample_rows)

lemma import_env_outcomes:
  "\<exists>r. row_outcome rt import_catalog (sample_row l ''MEW'' ''6'') = Inr r \<and> rr_printing r = ''mew-6:normal'' \<and>
     rr_source_line r = as_u32 l"
  "\<exists>u. row_outcome rt import_catalog (sample_row l ''SVI'' ''12'') = Inl u"
proof -
  have sets: "resolve_set import_catalog ''MEW'' None = Some ''MEW''" "resolve_set import_catalog ''SVI'' None = None"
    by code_simp+
  have six: "normalize_collector_number ''6'' = ''6''" by code_simp
  have fields: "pr_set_hint (sample_row l s n) = s" "pr_set_name (sample_row l s n) = None" "pr_name (sample_row l s n) = None"
    "pr_number (sample_row l s n) = n" "pr_variant (sample_row l s n) = ''normal''" "pr_source_line (sample_row l s n) = l" for s n
    by (simp_all add: sample_row_def)
  have "direct_lookup import_catalog ''MEW'' ''6'' = Some (hd (cat_cards import_catalog))"
    by (simp add: direct_lookup_def import_catalog_def)
  then have found: "resolve_card rt import_catalog (Some ''MEW'') (sample_row l ''MEW'' ''6'') = Inr (''mew-6'', ''Charizard ex'', ''MEW'')"
    by (simp add: resolve_card_def fields six) (simp add: import_catalog_def)
  have "live_printing import_catalog ''mew-6'' ''normal'' = Some (hd (cat_printings import_catalog))"
    "pg_id (hd (cat_printings import_catalog)) = ''mew-6:normal''"
    by (simp_all add: live_printing_def import_catalog_def)
  then show "\<exists>r. row_outcome rt import_catalog (sample_row l ''MEW'' ''6'') = Inr r \<and> rr_printing r = ''mew-6:normal'' \<and>
     rr_source_line r = as_u32 l"
    using found by (simp add: row_outcome_def resolve_row_def fields sets)
  show "\<exists>u. row_outcome rt import_catalog (sample_row l ''SVI'' ''12'') = Inl u"
    by (simp add: row_outcome_def resolve_row_def resolve_card_def fields sets Let_def)
qed

lemma import_env_report:
  "\<exists>r. rights (map (row_outcome rt import_catalog) (replicate 2 (sample_row 2 ''MEW'' ''6'') @ [sample_row 3 ''SVI'' ''12''])) = [r, r] \<and>
     rr_printing r = ''mew-6:normal'' \<and> rr_source_line r = 2"
proof -
  obtain r u where "row_outcome rt import_catalog (sample_row 2 ''MEW'' ''6'') = Inr r" "rr_printing r = ''mew-6:normal''"
      "rr_source_line r = as_u32 2" "row_outcome rt import_catalog (sample_row 3 ''SVI'' ''12'') = Inl u"
    using import_env_outcomes(1) [of rt 2] import_env_outcomes(2) [of rt 3] by blast
  moreover have "as_u32 2 = 2" by (simp add: as_u32_def)
  moreover have "replicate 2 x = [x, x]" for x :: ParsedRow by (simp add: numeral_2_eq_2)
  ultimately show ?thesis by simp
qed

theorem import_commit_adds_matched_witness:
  "\<exists>db' c d. import_commit import_env Manabox [] None empty_db = (Inr \<lparr>cm_batch = 1, cm_added = 2, cm_skipped = 1\<rparr>, db') \<and>
     tbl_rows (db_collection db') = [c, d] \<and> ce_printing c = ''mew-6:normal'' \<and> ce_printing d = ''mew-6:normal''"
proof -
  let ?rows = "replicate 2 (sample_row 2 ''MEW'' ''6'') @ [sample_row 3 ''SVI'' ''12'']"
  have rows: "import_parse (env_rt import_env) Manabox [] = Inr ?rows" by (simp only: import_env_simps import_env_rows)
  note import_commit_adds_matched [OF schema_ok_empty rows, of None, unfolded import_env_simps]
  then obtain db' copies and b :: BatchRow where c: "import_commit import_env Manabox [] None empty_db =
        (Inr \<lparr>cm_batch = ba_id b, cm_added = length copies, cm_skipped = length ?rows - length copies\<rparr>, db')"
      "(ba_id b, ba_type b, ba_name b) = (next_id (db_batches empty_db), format_batch_type Manabox, None)"
      "tbl_rows (db_collection db') = tbl_rows (db_collection empty_db) @ copies"
      "list_all2 (imported (format_source Manabox) (ba_id b)) (rp_matched (resolve_rows sample_runtime import_catalog ?rows)) copies"
    by (elim exE conjE) (rule that; assumption)
  obtain r where r: "rp_matched (resolve_rows sample_runtime import_catalog ?rows) = [r, r]" "rr_printing r = ''mew-6:normal''"
    using import_env_report [of sample_runtime] unfolding resolve_rows_outcomes by auto
  then obtain x y where "copies = [x, y]" "ce_printing x = ''mew-6:normal''" "ce_printing y = ''mew-6:normal''"
    using c(4) unfolding r(1) by (auto simp: list_all2_Cons1 imported_def)
  then show ?thesis using c(1-3) by (simp add: empty_db_def next_id_def empty_tbl_def)
qed

theorem import_selected_conserves_rows_witness:
  "\<exists>db' result c d u. import_commit_selected import_env sample_codec Manabox [] [2] None True empty_db = (Inr result, db') \<and>
     tbl_rows (db_collection db') = [c, d] \<and> tbl_rows (db_unresolved db') = [u] \<and> un_raw u = ''12''"
proof -
  let ?rows = "replicate 2 (sample_row 2 ''MEW'' ''6'') @ [sample_row 3 ''SVI'' ''12'']"
  have rows: "import_parse (env_rt import_env) Manabox [] = Inr ?rows" by (simp only: import_env_simps import_env_rows)
  have lines: "\<forall>r \<in> set ?rows. pr_source_line r < 2 ^ 32" by (auto simp: sample_row_def)
  from import_selected_conserves_rows [OF schema_ok_empty rows lines, of sample_codec "[2]" None]
  obtain db' result copies parked where
    c: "import_commit_selected import_env sample_codec Manabox [] [2] None True empty_db = (Inr result, db')"
      "tbl_rows (db_collection db') = tbl_rows (db_collection empty_db) @ copies"
      "list_all2 (imported (format_source Manabox) (cm_batch result))
        (filter (\<lambda>r. rr_source_line r \<in> set [2]) (rights (map (row_outcome sample_runtime import_catalog) ?rows))) copies"
      "tbl_rows (db_unresolved db') = tbl_rows (db_unresolved empty_db) @ parked"
      "list_all2 (parked_single sample_codec (format_source Manabox) (Some (cm_batch result)))
        (filter (\<lambda>row. \<exists>u. row_outcome sample_runtime import_catalog row = Inl u) ?rows) parked"
    by (simp only: import_env_simps) blast
  obtain r where "rights (map (row_outcome sample_runtime import_catalog) ?rows) = [r, r]" "rr_source_line r = 2"
    using import_env_report [of sample_runtime] by blast
  then obtain x y where "copies = [x, y]" using c(3) by (auto simp: list_all2_Cons1)
  moreover have "filter (\<lambda>row. \<exists>u. row_outcome sample_runtime import_catalog row = Inl u) ?rows = [sample_row 3 ''SVI'' ''12'']"
    using import_env_outcomes(1) [of sample_runtime 2] import_env_outcomes(2) [of sample_runtime 3] by (auto simp: numeral_2_eq_2)
  then obtain u where "parked = [u]" "un_raw u = ''12''"
    using c(5) by (auto simp: list_all2_Cons1 parked_single_def sample_codec_def sample_row_def)
  ultimately show ?thesis using c(1,2,4) by (simp add: empty_db_def empty_tbl_def)
qed

text \<open>A catalog with the sealed product of the Collectr sample.\<close>

definition sealed_env :: "string env" where
  "sealed_env = sample_env
     \<lparr>env_rt := sample_collectr,
      env_catalog := sample_catalog\<lparr>cat_sealed_products :=
        [\<lparr>sp_id = 77, sp_set_code = None, sp_name = ''Box'', sp_category = ''booster_box'', sp_image_url = None,
          sp_release_date = None\<rparr>]\<rparr>\<rparr>"

theorem commit_collectr_keeps_wall_witness:
  "\<exists>db' result lot. commit_collectr sealed_env [] None empty_db = (Inr result, db') \<and>
     tbl_rows (db_collection db') = [] \<and> tbl_rows (db_sealed db') = [lot] \<and> se_product lot = 77 \<and> se_quantity lot = 2"
proof -
  obtain row where row: "collectr_parse (env_rt sealed_env) [] =
        Inr \<lparr>cp_singles = [], cp_sealed = [row], cp_skipped = []\<rparr>"
      "ps_name row = ''Box'' \<and> ps_set_hint row = ''Chaos'' \<and> ps_set_name row = Some ''Chaos'' \<and> ps_quantity row = 2"
    using sample_collectr_parse by (auto simp: sealed_env_def)
  have set: "resolve_set (env_catalog sealed_env) ''Chaos'' (Some ''Chaos'') = None" by code_simp
  have hit: "resolve_sealed_rows rt (env_catalog sealed_env) [row] =
      \<lparr>sr_matched = [sealed_hit row \<lparr>ca_product = 77, ca_name = ''Box'', ca_category = ''booster_box'', ca_set_code = None\<rparr>],
       sr_unmatched = []\<rparr>" for rt
    using row(2)
    by (simp add: resolve_sealed_outcomes sealed_outcome_def set resolve_anywhere_def match_name_def all_candidates_def
        candidate_def Let_def)
      (simp add: sealed_env_def candidate_def)
  note commit_collectr_keeps_wall [OF schema_ok_empty row(1), of None, unfolded CollectrParsed.select_convs hit SealedReport.select_convs]
  then obtain db' batch copies lots result where c: "commit_collectr sealed_env [] None empty_db = (Inr result, db')"
      "tbl_rows (db_collection db') = tbl_rows (db_collection empty_db) @ copies"
      "list_all2 (imported ''csv_collectr'' batch)
        (rp_matched (resolve_rows (env_rt sealed_env) (env_catalog sealed_env) [])) copies"
      "tbl_rows (db_sealed db') = tbl_rows (db_sealed empty_db) @ lots"
      "list_all2 (sealed_lot ''csv_collectr'')
        [sealed_hit row \<lparr>ca_product = 77, ca_name = ''Box'', ca_category = ''booster_box'', ca_set_code = None\<rparr>] lots"
    by (elim exE conjE) (rule that; assumption)
  have "copies = []" using c(3) by (simp add: resolve_rows_outcomes)
  moreover obtain lot where "lots = [lot]" "se_product lot = 77" "se_quantity lot = 2"
    using c(5) row(2) by (auto simp: list_all2_Cons1 sealed_lot_def sealed_hit_def)
  ultimately show ?thesis using c(1,2,4) by (simp add: empty_db_def empty_tbl_def)
qed

end
