(* ===== verification/Repository.thy ===== *)
theory Repository
  imports Outbox User_Prices Binders Decks Orders Import_Commit
begin

text \<open>
  The tenant database as a transition system: the steps are the operations of the repositories, in any
  order and with any arguments, failed ones included, and the runs of the outbox's re-emission.
\<close>

section \<open>Steps and reachable databases\<close>

inductive repo_op :: "'j env \<Rightarrow> (tdb \<Rightarrow> tdb) \<Rightarrow> bool" for env :: "'j env" where
  collection_add: "repo_op env (after (collection_add env copy))"
| collection_update: "repo_op env (after (collection_update env i copy_changes))"
| set_status: "repo_op env (after (set_status env i status message))"
| move_to: "repo_op env (after (move_to env i binder deck message))"
| collection_delete: "repo_op env (after (collection_delete env i))"
| delete_latest: "repo_op env (after (delete_latest_for_printing env printing))"
| change_printing: "repo_op env (after (change_printing env i printing))"
| binders_create: "repo_op env (after (binders_create env binder_new))"
| binders_update: "repo_op env (after (binders_update env i binder_changes))"
| binders_delete: "repo_op env (after (binders_delete env i))"
| decks_create: "repo_op env (after (decks_create env deck_new))"
| decks_update: "repo_op env (after (decks_update env i deck_changes))"
| decks_delete: "repo_op env (after (decks_delete env i))"
| decks_set_group: "repo_op env (after (decks_set_group env i in_grp))"
| groups_create: "repo_op env (after (groups_create env group_new))"
| groups_update: "repo_op env (after (groups_update env i group_changes))"
| release_all: "repo_op env (after (release_all env i))"
| groups_delete: "repo_op env (after (groups_delete env i mode))"
| batches_create: "repo_op env (after (batches_create env batch_new))"
| orders_create: "repo_op env (after (orders_create env order_new lines))"
| orders_receive: "repo_op env (after (orders_receive env i))"
| wish_add: "repo_op env (after (wish_add env wish_new))"
| wish_update: "repo_op env (after (wish_update i wish_changes))"
| wish_set_fulfilled: "repo_op env (after (wish_set_fulfilled env i fulfilled))"
| wish_delete: "repo_op env (after (wish_delete i))"
| sealed_add: "repo_op env (after (sealed_add env sealed_new))"
| sealed_update: "repo_op env (after (sealed_update env i sealed_changes))"
| sealed_delete: "repo_op env (after (sealed_delete env i))"
| seed_defaults: "repo_op env (after seed_defaults)"
| user_printing_insert: "repo_op env (after (user_printing_insert env up_new))"
| user_printing_delete: "repo_op env (after (user_printing_delete printing))"
| manual_price_insert: "repo_op env (after (manual_price_insert env price_new))"
| manual_price_delete: "repo_op env (after (manual_price_delete i))"
| import_commit: "repo_op env (after (import_commit env format input label))"
| import_commit_selected: "repo_op env (after (import_commit_selected env codec format input include label parking))"
| commit_collectr: "repo_op env (after (commit_collectr env input label))"
| commit_collectr_selected:
    "repo_op env (after (commit_collectr_selected env codec input include include_sealed label parking))"
| resolve_single: "repo_op env (after (resolve_single env codec i printing))"
| resolve_sealed: "repo_op env (after (resolve_sealed env codec i product))"
| dismiss: "repo_op env (after (dismiss env i))"

inductive reachable :: "'j env \<Rightarrow> tdb \<Rightarrow> bool" for env :: "'j env" where
  start: "reachable env empty_db"
| operation: "reachable env db \<Longrightarrow> repo_op env f \<Longrightarrow> reachable env (f db)"
| emission: "reachable env db \<Longrightarrow> reachable env (after (emit env scope force) db)"

lemma after_keeps:
  "always keeps_schema m \<Longrightarrow> keeps_schema db (after m db)"
  "always (journaled env) m \<Longrightarrow> journaled env db (after m db)"
  "always keeps_audit m \<Longrightarrow> keeps_audit db (after m db)"
  "always (keeps_sync env) m \<Longrightarrow> keeps_sync env db (after m db)"
  by (simp_all add: always_def after_def)

lemma repo_op_keeps:
  "repo_op env f \<Longrightarrow> keeps_schema db (f db) \<and> journaled env db (f db) \<and> keeps_audit db (f db)"
  by (induction rule: repo_op.induct; intro conjI after_keeps; (rule repo_rules | rule audit_rules))

lemma audit_ok_empty: "audit_ok empty_db"
  by (simp add: audit_ok_def empty_db_def empty_tbl_def)

lemma in_sync_empty: "in_sync env empty_db"
  using schema_ok_empty
  by (auto simp: in_sync_def schema_ok_def dated_def project_def holdings_of_def empty_db_def empty_tbl_def
      tbl_find_def fun_eq_iff)

lemma reachable_keeps:
  assumes "reachable env db"
  shows "schema_ok db \<and> audit_ok db"
  using assms
proof (induction rule: reachable.induct)
  case start
  show ?case by (simp add: schema_ok_empty audit_ok_empty)
next
  case (operation db f)
  then show ?case using repo_op_keeps [of env f db] by (simp add: keeps_audit_def)
next
  case (emission db scope force)
  then show ?case using after_keeps(3) [OF audit_emit, of db] by (simp add: keeps_audit_def)
qed

lemma reachable_in_sync:
  assumes "reachable env db" "steady env"
  shows "in_sync env db"
  using assms
proof (induction rule: reachable.induct)
  case start
  show ?case by (rule in_sync_empty)
next
  case (operation db f)
  then show ?case
    using repo_op_keeps [of env f db] journaled_keeps_sync [of env db "f db"] by (simp add: keeps_sync_def)
next
  case (emission db scope force)
  then show ?case using after_keeps(4) [OF emit_keeps_sync, of env db] by (simp add: keeps_sync_def)
qed

section \<open>Organising copies\<close>

text \<open>Moving copies and managing their containers.\<close>

inductive organise_op :: "'j env \<Rightarrow> (tdb \<Rightarrow> tdb) \<Rightarrow> bool" for env :: "'j env" where
  move_to: "organise_op env (after (move_to env i binder deck message))"
| binders_create: "organise_op env (after (binders_create env binder_new))"
| binders_update: "organise_op env (after (binders_update env i binder_changes))"
| binders_delete: "organise_op env (after (binders_delete env i))"
| decks_create: "organise_op env (after (decks_create env deck_new))"
| decks_update: "organise_op env (after (decks_update env i deck_changes))"
| decks_delete: "organise_op env (after (decks_delete env i))"
| decks_set_group: "organise_op env (after (decks_set_group env i in_grp))"
| groups_create: "organise_op env (after (groups_create env group_new))"
| groups_update: "organise_op env (after (groups_update env i group_changes))"
| release_all: "organise_op env (after (release_all env i))"
| groups_delete: "organise_op env (after (groups_delete env i mode))"

text \<open>A copy without its place, and the relation that only places change.\<close>

definition unplaced :: "CollectionEntry \<Rightarrow> CollectionEntry" where
  "unplaced c = c\<lparr>ce_binder := None, ce_deck := None\<rparr>"

definition same_copies :: "tdb \<Rightarrow> tdb \<Rightarrow> bool" where
  "same_copies db db' \<longleftrightarrow>
     map unplaced (tbl_rows (db_collection db')) = map unplaced (tbl_rows (db_collection db)) \<and>
     db_status_log db' = db_status_log db \<and> db_sealed db' = db_sealed db"

interpretation copies: step_relation same_copies rollback
  by unfold_locales (auto simp: same_copies_def rollback_def)

lemma same_copies_frame:
  "(\<And>db. db_collection (snd (m db)) = db_collection db \<and> db_status_log (snd (m db)) = db_status_log db \<and>
     db_sealed (snd (m db)) = db_sealed db) \<Longrightarrow> always same_copies m"
  by (simp add: always_def same_copies_def)

lemma same_copies_touch: "(\<And>c. unplaced (f c) = unplaced c) \<Longrightarrow> same_copies db (touch_entries env P f db)"
  by (simp add: same_copies_def touch_entries_def tbl_modify_def log_entries_def)

named_theorems copy_rules

lemma copies_update [copy_rules]: "(\<And>c. unplaced (f c) = unplaced c) \<Longrightarrow> always same_copies (update_entries env P f)"
  by (simp add: always_def update_entries_def Let_def same_copies_touch copies.R_refl)

lemma copies_stmts [copy_rules]:
  "always same_copies (now_rfc3339 env)" "always same_copies (insert_movement mk)"
  "always same_copies (insert_deck mk_deck)" "always same_copies (update_deck i f_deck)"
  "always same_copies (forget_deck i)" "always same_copies (insert_group mk_group)"
  "always same_copies (update_group i f_group)" "always same_copies (delete_group_row i)"
  by (rule same_copies_frame; simp add: now_rfc3339_def insert_movement_def insert_deck_def update_deck_def
      forget_deck_def insert_group_def update_group_def delete_group_row_def Let_def split: option.split)+

lemma copies_delete_rows [copy_rules]:
  "always same_copies (delete_binder_row env i)" "always same_copies (delete_deck_row env i)"
  by (auto simp: always_def delete_binder_row_def delete_deck_row_def same_copies_def touch_entries_def
      log_entries_def tbl_modify_def unplaced_def)

lemma copies_binders [copy_rules]:
  "always same_copies (binders_create env binder_new)" "always same_copies (binders_update env i binder_changes)"
  "always same_copies (binders_delete env i)"
  unfolding binders_create_def binders_update_def binders_delete_def
  by (intro copies.always_rules copy_rules same_copies_frame; simp add: Let_def)+

lemma copies_move_to [copy_rules]: "always same_copies (move_to env i binder deck message)"
  unfolding move_to_def by (intro copies.always_rules copy_rules) (simp add: unplaced_def)

lemma copies_decks [copy_rules]:
  "always same_copies (decks_create env deck_new)" "always same_copies (decks_update env i deck_changes)"
  "always same_copies (decks_delete env i)" "always same_copies (decks_set_group env i in_grp)"
  unfolding decks_create_def decks_update_def decks_delete_def decks_set_group_def
  by (intro copies.always_rules copy_rules)+

lemma copies_check_name [copy_rules]: "always same_copies (check_name n x)"
  unfolding check_name_def by (intro copies.always_rules)

lemma copies_groups [copy_rules]:
  "always same_copies (groups_create env group_new)" "always same_copies (groups_update env i group_changes)"
  unfolding groups_create_def groups_update_def by (intro copies.always_rules copy_rules)+

lemma copies_release_all [copy_rules]: "always same_copies (release_all env i)"
  unfolding release_all_def by (intro copies.always_rules copy_rules) (simp add: unplaced_def)

lemma copies_groups_delete [copy_rules]: "always same_copies (groups_delete env i mode)"
  unfolding groups_delete_def by (intro copies.always_rules copy_rules)

lemma after_same_copies: "always same_copies m \<Longrightarrow> same_copies db (after m db)"
  by (simp add: always_def after_def)

lemma organise_op_copies: "organise_op env f \<Longrightarrow> same_copies db (f db)"
  by (induction rule: organise_op.induct; rule after_same_copies; rule copy_rules)

end
