(* ===== verification/Value_History.thy ===== *)
theory Value_History
  imports Collection_Audit User_Prices
begin

text \<open>
  The value of the collection over time: the newest prices of the feed (\<open>pkdump-db/src/latest_prices.rs\<close>),
  the day's snapshot, the reconstruction of past days and the chart (\<open>pkdump-db/src/value_history.rs\<close>).
  Floating-point sums and products and SQLite's \<open>date\<close> are parameters; the order of two \<open>f64\<close> is
  computed from their bits.
\<close>

section \<open>The price feeds\<close>

record PriceObs =
  px_product :: int
  px_sub_type :: string
  px_source :: string
  px_type :: string
  px_price :: f64
  px_observed_at :: string

record SealedObs =
  sx_product :: int
  sx_mid :: "f64 option"
  sx_market :: "f64 option"
  sx_observed_at :: string

record feeds =
  fd_prices :: "PriceObs list"
  fd_sealed :: "SealedObs list"

text \<open>
  The rows at the greatest \<open>observed_at\<close> of their group, among those that satisfy a condition: a table
  joined with its own \<open>SELECT key, MAX(observed_at) ... GROUP BY key\<close>.
\<close>

definition newest_rows :: "('r \<Rightarrow> 'k) \<Rightarrow> ('r \<Rightarrow> string) \<Rightarrow> ('r \<Rightarrow> bool) \<Rightarrow> 'r list \<Rightarrow> 'r list" where
  "newest_rows of_group at Q rows =
     filter (\<lambda>r. Q r \<and> list_all (\<lambda>r'. Q r' \<and> of_group r' = of_group r \<longrightarrow> at r' \<le> at r) rows) rows"

definition quote_of :: "PriceObs \<Rightarrow> LatestPrice" where
  "quote_of r = \<lparr>lp_product = px_product r, lp_sub_type = px_sub_type r, lp_type = px_type r, lp_price = px_price r\<rparr>"

definition refresh_latest_prices :: "PriceObs list \<Rightarrow> LatestPrice list" where
  "refresh_latest_prices prices =
     map quote_of (newest_rows (\<lambda>r. (px_product r, px_sub_type r, px_source r, px_type r)) px_observed_at (\<lambda>_. True) prices)"

definition sealed_quote_of :: "SealedObs \<Rightarrow> LatestSealedPrice" where
  "sealed_quote_of r = \<lparr>lsp_product = sx_product r, lsp_market = sx_market r, lsp_mid = sx_mid r\<rparr>"

text \<open>The view \<open>latest_sealed_prices\<close>.\<close>

definition latest_sealed_prices :: "SealedObs list \<Rightarrow> LatestSealedPrice list" where
  "latest_sealed_prices rows = map sealed_quote_of (newest_rows sx_product sx_observed_at (\<lambda>_. True) rows)"

section \<open>Copies and lots owned on a day\<close>

record arith =
  ar_mul :: "f64 \<Rightarrow> f64 \<Rightarrow> f64"
  ar_sum :: "f64 list \<Rightarrow> f64"       \<comment> \<open>\<open>SUM\<close> over one value or more\<close>
  ar_of_int :: "int \<Rightarrow> f64"
  ar_date :: "string \<Rightarrow> string option"

definition one_f64 :: f64 where
  "one_f64 = 0x3FF0000000000000"

record OwnedCopy =
  oc_copy :: int
  oc_paid :: "f64 option"
  oc_binder :: "int option"
  oc_set :: string
  oc_mult :: f64
  oc_market :: "f64 option"

record OwnedLot =
  ol_lot :: int
  ol_units :: int
  ol_paid :: "f64 option"
  ol_market :: "f64 option"

definition bound_printings :: "catalog \<Rightarrow> tdb \<Rightarrow> (PriceKey \<times> string) list" where
  "bound_printings cat db =
     map (\<lambda>p. (\<lparr>pk_printing = pg_id p, pk_product = pg_product p, pk_sub_type = pg_sub_type p\<rparr>, pg_card p)) (cat_printings cat) @
     map (\<lambda>u. (\<lparr>pk_printing = up_id u, pk_product = None, pk_sub_type = None\<rparr>, up_card u)) (db_user_printings db)"

definition multiplier_of :: "tdb \<Rightarrow> string \<Rightarrow> f64" where
  "multiplier_of db condition =
     (case List.find (\<lambda>cn. cn_name cn = condition) (db_conditions db) of Some cn \<Rightarrow> cn_multiplier cn | None \<Rightarrow> one_f64)"

definition owned_copy_rows ::
  "catalog \<Rightarrow> tdb \<Rightarrow> (PriceKey \<Rightarrow> f64 option) \<Rightarrow> (CollectionEntry \<Rightarrow> bool) \<Rightarrow> OwnedCopy list" where
  "owned_copy_rows cat db price held =
     concat (map (\<lambda>c. concat (map (\<lambda>(p, card_id).
         map (\<lambda>cd. \<lparr>oc_copy = ce_id c, oc_paid = ce_purchase_price c, oc_binder = ce_binder c, oc_set = cd_set cd,
                    oc_mult = multiplier_of db (ce_condition c), oc_market = price p\<rparr>)
           (filter (\<lambda>cd. cd_id cd = card_id) (cat_cards cat)))
         (filter (\<lambda>(p, _). pk_printing p = ce_printing c) (bound_printings cat db))))
       (filter held (tbl_rows (db_collection db))))"

definition owned_today :: "catalog \<Rightarrow> tdb \<Rightarrow> OwnedCopy list" where
  "owned_today cat db = owned_copy_rows cat db (market_price cat db) (\<lambda>c. ce_status c = ''owned'')"

definition on_or_before :: "arith \<Rightarrow> string \<Rightarrow> string \<Rightarrow> bool" where
  "on_or_before ar day x = (case ar_date ar x of Some d \<Rightarrow> d \<le> day | None \<Rightarrow> False)"

definition status_asof :: "arith \<Rightarrow> tdb \<Rightarrow> string \<Rightarrow> CollectionEntry \<Rightarrow> string" where
  "status_asof ar db day c =
     (case sort_key (\<lambda>l. (sl_changed_at l, sl_id l))
             (filter (\<lambda>l. sl_collection l = ce_id c \<and> on_or_before ar day (sl_changed_at l)) (tbl_rows (db_status_log db))) of
        [] \<Rightarrow> ''owned''
      | ls \<Rightarrow> sl_to (last ls))"

definition owned_asof :: "arith \<Rightarrow> catalog \<Rightarrow> tdb \<Rightarrow> LatestPrice list \<Rightarrow> string \<Rightarrow> OwnedCopy list" where
  "owned_asof ar cat db prices_asof day =
     owned_copy_rows cat db (market_price_asof prices_asof (ar_date ar) day cat db)
       (\<lambda>c. on_or_before ar day (ce_acquired_at c) \<and> status_asof ar db day c = ''owned'')"

definition owned_lot_rows :: "tdb \<Rightarrow> (int \<Rightarrow> f64 option) \<Rightarrow> (SealedRow \<Rightarrow> bool) \<Rightarrow> OwnedLot list" where
  "owned_lot_rows db price held =
     map (\<lambda>s. \<lparr>ol_lot = se_id s, ol_units = se_quantity s, ol_paid = se_purchase_price s, ol_market = price (se_product s)\<rparr>)
       (filter (\<lambda>s. se_status s = ''owned'' \<and> held s) (tbl_rows (db_sealed db)))"

definition owned_sealed_today :: "catalog \<Rightarrow> tdb \<Rightarrow> OwnedLot list" where
  "owned_sealed_today cat db = owned_lot_rows db (sealed_market_price (cat_latest_sealed cat)) (\<lambda>_. True)"

definition owned_sealed_asof :: "arith \<Rightarrow> tdb \<Rightarrow> LatestSealedPrice list \<Rightarrow> string \<Rightarrow> OwnedLot list" where
  "owned_sealed_asof ar db sealed_asof day =
     owned_lot_rows db (sealed_market_price sealed_asof) (\<lambda>s. on_or_before ar day (se_added_at s))"

section \<open>The aggregates of a day\<close>

record ValueRow =
  vr_date :: string
  vr_dimension :: string
  vr_bucket :: "string option"
  vr_market :: f64
  vr_cost :: f64
  vr_count :: int

definition somes :: "'a option list \<Rightarrow> 'a list" where
  "somes xs = concat (map (\<lambda>x. case x of Some v \<Rightarrow> [v] | None \<Rightarrow> []) xs)"

definition sum_or_zero :: "arith \<Rightarrow> f64 option list \<Rightarrow> f64" where
  "sum_or_zero ar xs = (case somes xs of [] \<Rightarrow> 0 | vs \<Rightarrow> ar_sum ar vs)"

definition card_row :: "arith \<Rightarrow> string \<Rightarrow> string \<Rightarrow> string option \<Rightarrow> OwnedCopy list \<Rightarrow> ValueRow" where
  "card_row ar date dimension bucket rows =
     \<lparr>vr_date = date, vr_dimension = dimension, vr_bucket = bucket,
      vr_market = sum_or_zero ar (map (\<lambda>r. map_option (\<lambda>m. ar_mul ar m (oc_mult r)) (oc_market r)) rows),
      vr_cost = sum_or_zero ar (map oc_paid rows), vr_count = int (length rows)\<rparr>"

text \<open>\<open>GROUP BY key\<close>: the groups in the order of their keys, each with its rows in table order.\<close>

definition group_by :: "('r \<Rightarrow> 'k :: linorder) \<Rightarrow> 'r list \<Rightarrow> ('k \<times> 'r list) list" where
  "group_by col rows = map (\<lambda>k. (k, filter (\<lambda>r. col r = k) rows)) (sort_key (\<lambda>k. k) (remdups (map col rows)))"

definition sealed_value_row :: "arith \<Rightarrow> string \<Rightarrow> OwnedLot list \<Rightarrow> ValueRow" where
  "sealed_value_row ar date lots =
     \<lparr>vr_date = date, vr_dimension = ''sealed'', vr_bucket = None,
      vr_market = sum_or_zero ar (map (\<lambda>l. map_option (\<lambda>m. ar_mul ar m (ar_of_int ar (ol_units l))) (ol_market l)) lots),
      vr_cost = sum_or_zero ar (map (\<lambda>l. map_option (\<lambda>p. ar_mul ar p (ar_of_int ar (ol_units l))) (ol_paid l)) lots),
      vr_count = sum_list (map ol_units lots)\<rparr>"

definition insert_dimensions :: "arith \<Rightarrow> string \<Rightarrow> OwnedCopy list \<Rightarrow> OwnedLot list \<Rightarrow> ValueRow list" where
  "insert_dimensions ar date owned lots =
     card_row ar date ''all'' None owned #
     map (\<lambda>(set_code, rows). card_row ar date ''set'' (Some set_code) rows) (group_by oc_set owned) @
     map (\<lambda>(binder, rows). card_row ar date ''binder'' (Some (show_int binder)) rows)
       (group_by (\<lambda>r. the (oc_binder r)) (filter (\<lambda>r. oc_binder r \<noteq> None) owned)) @
     (if lots = [] then [] else [sealed_value_row ar date lots])"

section \<open>Writing the history\<close>

definition put_day :: "string \<Rightarrow> ValueRow list \<Rightarrow> ValueRow list \<Rightarrow> nat \<times> ValueRow list" where
  "put_day date rows history = (length rows, filter (\<lambda>r. vr_date r \<noteq> date) history @ rows)"

definition snapshot_today :: "arith \<Rightarrow> catalog \<Rightarrow> tdb \<Rightarrow> string \<Rightarrow> ValueRow list \<Rightarrow> nat \<times> ValueRow list" where
  "snapshot_today ar cat db date history =
     put_day date (insert_dimensions ar date (owned_today cat db) (owned_sealed_today cat db)) history"

text \<open>\<open>_owned_products\<close> and \<open>_owned_sealed_products\<close>.\<close>

definition owned_products :: "catalog \<Rightarrow> tdb \<Rightarrow> (int \<times> string option) list" where
  "owned_products cat db =
     remdups (concat (map (\<lambda>c. concat (map (\<lambda>p. case pg_product p of Some i \<Rightarrow> [(i, pg_sub_type p)] | None \<Rightarrow> [])
       (filter (\<lambda>p. pg_id p = ce_printing c) (cat_printings cat)))) (tbl_rows (db_collection db))))"

definition owned_sealed_products :: "tdb \<Rightarrow> int list" where
  "owned_sealed_products db = remdups (map se_product (tbl_rows (db_sealed db)))"

definition prices_asof :: "feeds \<Rightarrow> (int \<times> string option) list \<Rightarrow> string \<Rightarrow> LatestPrice list" where
  "prices_asof fd owned day =
     map quote_of (newest_rows (\<lambda>r. (px_product r, px_sub_type r)) px_observed_at
       (\<lambda>r. px_type r = ''market'' \<and> px_observed_at r \<le> day \<and> (px_product r, Some (px_sub_type r)) \<in> set owned)
       (fd_prices fd))"

definition sealed_prices_asof :: "feeds \<Rightarrow> int list \<Rightarrow> string \<Rightarrow> LatestSealedPrice list" where
  "sealed_prices_asof fd owned day =
     map sealed_quote_of (newest_rows sx_product sx_observed_at
       (\<lambda>r. sx_observed_at r \<le> day \<and> sx_product r \<in> set owned) (fd_sealed fd))"

definition backfill_one_date ::
  "arith \<Rightarrow> feeds \<Rightarrow> catalog \<Rightarrow> tdb \<Rightarrow> string \<Rightarrow> ValueRow list \<Rightarrow> nat \<times> ValueRow list" where
  "backfill_one_date ar fd cat db day history =
     put_day day
       (insert_dimensions ar day
         (owned_asof ar cat db (prices_asof fd (owned_products cat db) day) day)
         (owned_sealed_asof ar db (sealed_prices_asof fd (owned_sealed_products db) day) day)) history"

fun min_opt :: "string option list \<Rightarrow> string option" where
  "min_opt [] = None"
| "min_opt (None # xs) = min_opt xs"
| "min_opt (Some x # xs) = Some (case min_opt xs of None \<Rightarrow> x | Some y \<Rightarrow> min x y)"

definition earliest_day :: "arith \<Rightarrow> tdb \<Rightarrow> string option" where
  "earliest_day ar db =
     min_opt (map (\<lambda>c. ar_date ar (ce_acquired_at c)) (tbl_rows (db_collection db)) @
              map (\<lambda>s. ar_date ar (se_added_at s)) (tbl_rows (db_sealed db)))"

definition price_dates :: "feeds \<Rightarrow> string \<Rightarrow> string list" where
  "price_dates fd earliest =
     sort_key (\<lambda>d. d) (remdups (filter (\<lambda>d. earliest \<le> d)
       (map px_observed_at (filter (\<lambda>r. px_type r = ''market'') (fd_prices fd)) @ map sx_observed_at (fd_sealed fd))))"

fun backfill_dates ::
  "arith \<Rightarrow> feeds \<Rightarrow> catalog \<Rightarrow> tdb \<Rightarrow> string list \<Rightarrow> ValueRow list \<Rightarrow> nat \<times> ValueRow list" where
  "backfill_dates ar fd cat db [] history = (0, history)"
| "backfill_dates ar fd cat db (d # ds) history =
     (let (n, history) = backfill_one_date ar fd cat db d history;
          (m, history) = backfill_dates ar fd cat db ds history in
      (n + m, history))"

definition backfill :: "arith \<Rightarrow> feeds \<Rightarrow> catalog \<Rightarrow> tdb \<Rightarrow> ValueRow list \<Rightarrow> nat \<times> ValueRow list" where
  "backfill ar fd cat db history =
     (case earliest_day ar db of
        None \<Rightarrow> (0, history)
      | Some e \<Rightarrow> backfill_dates ar fd cat db (price_dates fd e) history)"

section \<open>The chart\<close>

record ValuePoint =
  vp_date :: string
  vp_market :: f64
  vp_cost :: f64
  vp_count :: int

record ValueSeries =
  vs_bucket :: "string option"
  vs_label :: "string option"
  vs_points :: "ValuePoint list"

definition point_of :: "ValueRow \<Rightarrow> ValuePoint" where
  "point_of r = \<lparr>vp_date = vr_date r, vp_market = vr_market r, vp_cost = vr_cost r, vp_count = vr_count r\<rparr>"

text \<open>
  The order of two \<open>f64\<close> that are not NaN, which SQLite cannot store, as the order of two integers.
\<close>

definition f64_key :: "f64 \<Rightarrow> int" where
  "f64_key x = (if uint x < 2 ^ 63 then uint x else 2 ^ 63 - uint x)"

definition points_of :: "ValueRow list \<Rightarrow> string \<Rightarrow> ValuePoint list" where
  "points_of history dimension =
     map point_of (sort_key vr_date (filter (\<lambda>r. vr_dimension r = dimension) history))"

text \<open>One step of the loop that collects consecutive rows of a bucket; the series are kept newest first.\<close>

fun add_point :: "(string option \<times> string option \<times> ValuePoint) \<Rightarrow> ValueSeries list \<Rightarrow> ValueSeries list" where
  "add_point (bucket, label, p) [] = [\<lparr>vs_bucket = bucket, vs_label = label, vs_points = [p]\<rparr>]"
| "add_point (bucket, label, p) (s # ss) =
     (if vs_bucket s = bucket then s\<lparr>vs_points := vs_points s @ [p]\<rparr> # ss
      else \<lparr>vs_bucket = bucket, vs_label = label, vs_points = [p]\<rparr> # s # ss)"

definition bucket_key :: "string option \<Rightarrow> nat \<times> string" where
  "bucket_key b = (case b of None \<Rightarrow> (0, []) | Some s \<Rightarrow> (1, s))"

definition bucket_label :: "catalog \<Rightarrow> tdb \<Rightarrow> string \<Rightarrow> string option \<Rightarrow> string option" where
  "bucket_label cat db dimension bucket =
     (case bucket of
        None \<Rightarrow> None
      | Some b \<Rightarrow>
          if dimension = ''binder''
          then map_option bi_name (List.find (\<lambda>x. bi_id x = cast_integer b) (tbl_rows (db_binders db)))
          else map_option st_name (List.find (\<lambda>s. st_code s = b) (cat_sets cat)))"

definition latest_value :: "ValueSeries \<Rightarrow> f64" where
  "latest_value s = (case vs_points s of [] \<Rightarrow> 0 | ps \<Rightarrow> vp_market (last ps))"

definition bucket_series :: "catalog \<Rightarrow> tdb \<Rightarrow> ValueRow list \<Rightarrow> string \<Rightarrow> ValueSeries list" where
  "bucket_series cat db history dimension =
     (let rows = sort_key (\<lambda>r. (bucket_key (vr_bucket r), vr_date r)) (filter (\<lambda>r. vr_dimension r = dimension) history) in
      rev (fold add_point (map (\<lambda>r. (vr_bucket r, bucket_label cat db dimension (vr_bucket r), point_of r)) rows) []))"

definition value_history :: "catalog \<Rightarrow> tdb \<Rightarrow> ValueRow list \<Rightarrow> string \<Rightarrow> ValueSeries list" where
  "value_history cat db history dimension =
     (if dimension = ''all''
      then (let sealed = points_of history ''sealed'' in
            \<lparr>vs_bucket = None, vs_label = None, vs_points = points_of history ''all''\<rparr> #
            (if sealed = [] then [] else [\<lparr>vs_bucket = Some ''sealed'', vs_label = Some ''Sealed'', vs_points = sealed\<rparr>]))
      else sort_key (\<lambda>s. - f64_key (latest_value s))
             (bucket_series cat db history (if dimension = ''binder'' then ''binder'' else ''set'')))"

section \<open>Groups\<close>

lemma somes_map_Some [simp]: "somes (map Some xs) = xs"
  by (induction xs) (simp_all add: somes_def)

lemma group_keys: "map fst (group_by col rows) = sort_key (\<lambda>k. k) (remdups (map col rows))"
  by (simp add: group_by_def comp_def)

lemma length_groups:
  "finite K \<Longrightarrow> col ` set rows \<subseteq> K \<Longrightarrow> (\<Sum>k \<in> K. int (length (filter (\<lambda>r. col r = k) rows))) = int (length rows)"
proof (induction rows)
  case (Cons r rows)
  have "(\<Sum>k \<in> K. int (length (filter (\<lambda>r. col r = k) (r # rows)))) =
      (\<Sum>k \<in> K. (if k = col r then 1 else 0) + int (length (filter (\<lambda>r. col r = k) rows)))"
    by (intro sum.cong) auto
  also have "\<dots> = 1 + int (length rows)" using Cons by (simp add: sum.distrib)
  finally show ?case by simp
qed simp

lemma group_counts: "sum_list (map (\<lambda>(k, rs). int (length rs)) (group_by col rows)) = int (length rows)"
proof -
  have "sum_list (map (\<lambda>(k, rs). int (length rs)) (group_by col rows)) =
      (\<Sum>k \<leftarrow> sort_key (\<lambda>k. k) (remdups (map col rows)). int (length (filter (\<lambda>r. col r = k) rows)))"
    by (simp add: group_by_def comp_def)
  also have "\<dots> = (\<Sum>k \<in> col ` set rows. int (length (filter (\<lambda>r. col r = k) rows)))"
    by (subst sum_list_distinct_conv_sum_set) simp_all
  also have "\<dots> = int (length rows)" by (intro length_groups) simp_all
  finally show ?thesis .
qed

lemma group_by_empty [simp]: "group_by col [] = []"
  by (simp add: group_by_def)

section \<open>Keys of the history\<close>

definition row_key :: "ValueRow \<Rightarrow> string \<times> string \<times> string option" where
  "row_key r = (vr_date r, vr_dimension r, vr_bucket r)"

lemma insert_dimensions_dates: "r \<in> set (insert_dimensions ar date owned lots) \<Longrightarrow> vr_date r = date"
  by (auto simp: insert_dimensions_def card_row_def sealed_value_row_def split: if_splits)

lemma inj_show_int: "inj show_int"
proof (rule injI)
  fix i j assume e: "show_int i = show_int j"
  have n: "nat_digits k \<noteq> CHR ''-'' # s" for k s
  proof
    assume "nat_digits k = CHR ''-'' # s"
    then have "is_digit (CHR ''-'')" using nat_digits_digits [of k] by simp
    then show False by (simp add: is_digit_def)
  qed
  have d: "k = l" if "nat_digits k = nat_digits l" for k l
    using arg_cong [OF that, of digits_val] by simp
  have *: "show_int x = CHR ''-'' # nat_digits (nat (- x))" if "x < 0" for x using that by (simp add: show_int_def)
  have **: "show_int x = nat_digits (nat x)" if "\<not> x < 0" for x using that by (simp add: show_int_def)
  consider "i < 0" "j < 0" | "\<not> i < 0" "\<not> j < 0" | "i < 0 \<longleftrightarrow> \<not> j < 0" by blast
  then show "i = j"
  proof cases
    case 1
    then have "nat (- i) = nat (- j)" using e d by (simp add: *)
    with 1 show ?thesis by simp
  next
    case 2
    then have "nat i = nat j" using e d by (simp add: **)
    with 2 show ?thesis by simp
  next
    case 3
    then show ?thesis using e n by (cases "i < 0") (simp_all add: * ** n n [symmetric])
  qed
qed

lemma insert_dimensions_distinct: "distinct (map row_key (insert_dimensions ar date owned lots))"
proof -
  have 1: "map row_key (map (\<lambda>(k, rows). card_row ar date dim (Some (f k)) rows) (group_by col rs)) =
      map (\<lambda>k. (date, dim, Some (f k))) (map fst (group_by col rs))" for dim and f :: "'k :: linorder \<Rightarrow> string" and col rs
    by (auto simp: row_key_def card_row_def)
  have 2: "distinct (map (\<lambda>k. (date, dim, Some (f k))) (map fst (group_by col rs)))"
    if "inj f" for dim and f :: "'k :: linorder \<Rightarrow> string" and col :: "OwnedCopy \<Rightarrow> 'k" and rs
    using that unfolding group_keys by (auto simp: distinct_map inj_on_def)
  show ?thesis
    using 2 [OF inj_on_id [unfolded id_def], of "''set''" oc_set owned] 2 [OF inj_show_int, of "''binder''" "\<lambda>r. the (oc_binder r)" "filter (\<lambda>r. oc_binder r \<noteq> None) owned"]
      1 [of "''set''" "\<lambda>x. x" oc_set owned]
      1 [of "''binder''" show_int "\<lambda>r. the (oc_binder r)" "filter (\<lambda>r. oc_binder r \<noteq> None) owned"]
    unfolding insert_dimensions_def map_append list.map distinct.simps distinct_append set_append
    by (simp only:) (auto simp: row_key_def card_row_def sealed_value_row_def)
qed

lemma put_day_distinct:
  assumes "distinct (map row_key history)" "distinct (map row_key rows)" "\<And>r. r \<in> set rows \<Longrightarrow> vr_date r = date"
  shows "distinct (map row_key (snd (put_day date rows history)))"
proof -
  have "row_key r \<noteq> row_key q" if "r \<in> set history" "vr_date r \<noteq> date" "q \<in> set rows" for r q
    using that assms(3) by (auto simp: row_key_def)
  then have "row_key ` {r \<in> set history. vr_date r \<noteq> date} \<inter> row_key ` set rows = {}" by fastforce
  then show ?thesis using assms(1,2) by (simp add: put_day_def distinct_map_filter)
qed

text \<open>The histories the two writers can leave, in any order and for any databases and days.\<close>

inductive chart_history :: "arith \<Rightarrow> ValueRow list \<Rightarrow> bool" for ar :: arith where
  start: "chart_history ar []"
| snapshot: "chart_history ar history \<Longrightarrow> chart_history ar (snd (snapshot_today ar cat db date history))"
| reconstruct: "chart_history ar history \<Longrightarrow> chart_history ar (snd (backfill ar fd cat db history))"

definition history_ok :: "ValueRow list \<Rightarrow> bool" where
  "history_ok history \<longleftrightarrow> distinct (map row_key history) \<and>
     (\<forall>r \<in> set history. vr_dimension r = ''all'' \<or> vr_dimension r = ''sealed'' \<longrightarrow> vr_bucket r = None)"

lemma insert_dimensions_whole:
  "r \<in> set (insert_dimensions ar date owned lots) \<Longrightarrow> vr_dimension r = ''all'' \<or> vr_dimension r = ''sealed'' \<Longrightarrow> vr_bucket r = None"
  by (auto simp: insert_dimensions_def card_row_def sealed_value_row_def split: if_splits)

lemma put_day_ok:
  assumes "history_ok history"
  shows "history_ok (snd (put_day date (insert_dimensions ar date owned lots) history))"
  unfolding history_ok_def
proof
  show "distinct (map row_key (snd (put_day date (insert_dimensions ar date owned lots) history)))"
    using assms by (intro put_day_distinct insert_dimensions_distinct) (auto simp: history_ok_def dest: insert_dimensions_dates)
  show "\<forall>r \<in> set (snd (put_day date (insert_dimensions ar date owned lots) history)).
      vr_dimension r = ''all'' \<or> vr_dimension r = ''sealed'' \<longrightarrow> vr_bucket r = None"
    using assms insert_dimensions_whole by (fastforce simp: history_ok_def put_day_def)
qed

lemma backfill_dates_ok: "history_ok history \<Longrightarrow> history_ok (snd (backfill_dates ar fd cat db ds history))"
proof (induction ds arbitrary: history)
  case (Cons d ds)
  then have "history_ok (snd (backfill_one_date ar fd cat db d history))" by (simp add: backfill_one_date_def put_day_ok)
  from Cons.IH [OF this] show ?case by (simp add: case_prod_beta Let_def)
qed simp

lemma chart_history_ok:
  assumes "chart_history ar history"
  shows "history_ok history"
  using assms
proof (induction rule: chart_history.induct)
  case start
  show ?case by (simp add: history_ok_def)
next
  case (snapshot history cat db date)
  then show ?case by (simp add: snapshot_today_def put_day_ok)
next
  case (reconstruct history fd cat db)
  then show ?case by (simp add: backfill_def backfill_dates_ok split: option.split)
qed

section \<open>A day nothing comes after\<close>

text \<open>
  Every date the tenant holds can be read and is at or before the day, the status log was written by a
  clock that does not run backwards, and the feeds hold no later price, one source, and the contents the
  materialized tables were built from.
\<close>

definition nothing_after :: "arith \<Rightarrow> tdb \<Rightarrow> string \<Rightarrow> bool" where
  "nothing_after ar db day \<longleftrightarrow>
     list_all (\<lambda>c. on_or_before ar day (ce_acquired_at c)) (tbl_rows (db_collection db)) \<and>
     list_all (\<lambda>l. on_or_before ar day (sl_changed_at l)) (tbl_rows (db_status_log db)) \<and>
     list_all (\<lambda>m. on_or_before ar day (mp_observed_at m)) (tbl_rows (db_manual_prices db)) \<and>
     list_all (\<lambda>s. on_or_before ar day (se_added_at s)) (tbl_rows (db_sealed db)) \<and>
     sorted_wrt (\<lambda>k l. sl_changed_at k \<le> sl_changed_at l) (tbl_rows (db_status_log db))"

definition feeds_current :: "feeds \<Rightarrow> catalog \<Rightarrow> string \<Rightarrow> bool" where
  "feeds_current fd cat day \<longleftrightarrow>
     list_all (\<lambda>r. px_observed_at r \<le> day \<and> px_source r = ''tcgplayer'') (fd_prices fd) \<and>
     list_all (\<lambda>r. sx_observed_at r \<le> day) (fd_sealed fd) \<and>
     cat_latest_prices cat = refresh_latest_prices (fd_prices fd) \<and>
     cat_latest_sealed cat = latest_sealed_prices (fd_sealed fd)"

lemma find_map: "List.find P (map f xs) = map_option f (List.find (\<lambda>x. P (f x)) xs)"
  by (induction xs) auto

lemma find_in_filter: "List.find P (filter A xs) = List.find (\<lambda>x. A x \<and> P x) xs"
  by (induction xs) auto

lemma find_newest:
  assumes "\<And>r. r \<in> set rows \<Longrightarrow> P (f r) \<Longrightarrow> r \<in> set (newest_rows g at A rows) \<longleftrightarrow> r \<in> set (newest_rows h at B rows)"
  shows "List.find P (map f (newest_rows g at A rows)) = List.find P (map f (newest_rows h at B rows))"
  unfolding find_map unfolding newest_rows_def find_in_filter
  by (intro arg_cong [where f = "map_option f"] find_cong refl) (use assms in \<open>auto simp: newest_rows_def\<close>)

lemma status_asof_current:
  assumes "schema_ok db" "audit_ok db" "nothing_after ar db day" "c \<in> set (tbl_rows (db_collection db))"
  shows "status_asof ar db day c = ce_status c"
proof -
  let ?logs = "filter (\<lambda>l. sl_collection l = ce_id c) (tbl_rows (db_status_log db))"
  have held: "filter (\<lambda>l. sl_collection l = ce_id c \<and> on_or_before ar day (sl_changed_at l)) (tbl_rows (db_status_log db)) = ?logs"
    using assms(3) by (intro filter_cong refl) (auto simp: nothing_after_def list_all_iff)
  have "sorted_wrt (\<lambda>k l. sl_id k < sl_id l) (tbl_rows (db_status_log db))"
    using assms(1) by (simp add: schema_ok_def ids_ok_def tbl_ok_def sorted_wrt_map)
  then have "sorted_wrt (\<lambda>k l. (sl_changed_at k, sl_id k) \<le> (sl_changed_at l, sl_id l)) (tbl_rows (db_status_log db))"
    using assms(3) by (auto simp: nothing_after_def sorted_wrt_iff_nth_less less_eq_prod_simp intro: less_imp_le)
  then have sort: "sort_key (\<lambda>l. (sl_changed_at l, sl_id l)) ?logs = ?logs"
    by (intro sort_key_id_if_sorted) (simp add: sorted_wrt_map sorted_wrt_filter)
  have "?logs \<noteq> []" "sl_to (last ?logs) = ce_status c"
    using assms(2,4) by (simp_all add: audit_ok_def audit_trail_def logs_of_def)
  then show ?thesis unfolding status_asof_def held sort by (cases ?logs) simp_all
qed

lemma market_price_asof_current:
  assumes "nothing_after ar db day" "feeds_current fd cat day" "c \<in> set (tbl_rows (db_collection db))"
    and "(p, card_id) \<in> set (bound_printings cat db)" "pk_printing p = ce_printing c"
  shows "market_price_asof (prices_asof fd (owned_products cat db) day) (ar_date ar) day cat db p = market_price cat db p"
proof -
  let ?P = "\<lambda>lp. Some (lp_product lp) = pk_product p \<and> Some (lp_sub_type lp) = pk_sub_type p \<and> lp_type lp = ''market''"
  have owned: "(i, pk_sub_type p) \<in> set (owned_products cat db)" if "pk_product p = Some i" for i
    using assms(3-5) that by (force simp: bound_printings_def owned_products_def)
  have cutoff: "filter (\<lambda>mp. Q mp \<and> (case ar_date ar (mp_observed_at mp) of Some d \<Rightarrow> d \<le> day | None \<Rightarrow> False)) (tbl_rows (db_manual_prices db)) =
      filter Q (tbl_rows (db_manual_prices db))" for Q
    using assms(1) by (intro filter_cong refl) (auto simp: nothing_after_def list_all_iff on_or_before_def split: option.splits)
  have feed: "\<forall>r \<in> set (fd_prices fd). px_observed_at r \<le> day \<and> px_source r = ''tcgplayer''"
    "cat_latest_prices cat = refresh_latest_prices (fd_prices fd)"
    using assms(2) by (auto simp: feeds_current_def list_all_iff)
  have "List.find ?P (prices_asof fd (owned_products cat db) day) = List.find ?P (cat_latest_prices cat)"
    unfolding feed(2) prices_asof_def refresh_latest_prices_def
    by (rule find_newest) (use owned feed(1) in \<open>auto simp: newest_rows_def quote_of_def list_all_iff\<close>)
  then have "feed_price (prices_asof fd (owned_products cat db) day) p = feed_price (cat_latest_prices cat) p"
    by (simp add: feed_price_def)
  moreover have "manual_price (\<lambda>mp. case ar_date ar (mp_observed_at mp) of Some d \<Rightarrow> d \<le> day | None \<Rightarrow> False) db p =
      manual_price (\<lambda>_. True) db p"
    unfolding manual_price_def
    using cutoff [of "\<lambda>mp. mp_printing mp = pk_printing p \<and> list_ex (\<lambda>up. up_id up = mp_printing mp) (db_user_printings db)"]
    by (simp add: conj_assoc)
  ultimately show ?thesis by (simp add: market_price_asof_def market_price_def market_price_from_def)
qed

lemma owned_asof_current:
  assumes "schema_ok db" "audit_ok db" "nothing_after ar db day" "feeds_current fd cat day"
  shows "owned_asof ar cat db (prices_asof fd (owned_products cat db) day) day = owned_today cat db"
proof -
  have held: "filter (\<lambda>c. on_or_before ar day (ce_acquired_at c) \<and> status_asof ar db day c = ''owned'') (tbl_rows (db_collection db)) =
      filter (\<lambda>c. ce_status c = ''owned'') (tbl_rows (db_collection db))"
    using assms(3) status_asof_current [OF assms(1-3)]
    by (intro filter_cong refl) (auto simp: nothing_after_def list_all_iff)
  show ?thesis
    unfolding owned_asof_def owned_today_def owned_copy_rows_def held
    by (intro arg_cong [where f = concat] map_cong refl)
      (auto simp: market_price_asof_current [OF assms(3,4)])
qed

lemma owned_sealed_asof_current:
  assumes "nothing_after ar db day" "feeds_current fd cat day"
  shows "owned_sealed_asof ar db (sealed_prices_asof fd (owned_sealed_products db) day) day = owned_sealed_today cat db"
proof -
  have feed: "\<forall>r \<in> set (fd_sealed fd). sx_observed_at r \<le> day"
    "cat_latest_sealed cat = latest_sealed_prices (fd_sealed fd)"
    using assms(2) by (auto simp: feeds_current_def list_all_iff)
  have price: "sealed_market_price (sealed_prices_asof fd (owned_sealed_products db) day) i =
      sealed_market_price (cat_latest_sealed cat) i" if "i \<in> set (owned_sealed_products db)" for i
  proof -
    have "List.find (\<lambda>l. lsp_product l = i) (sealed_prices_asof fd (owned_sealed_products db) day) =
        List.find (\<lambda>l. lsp_product l = i) (cat_latest_sealed cat)"
      unfolding feed(2) sealed_prices_asof_def latest_sealed_prices_def
      by (rule find_newest) (use that feed(1) in \<open>auto simp: newest_rows_def sealed_quote_of_def list_all_iff\<close>)
    then show ?thesis by (simp add: sealed_market_price_def)
  qed
  have "filter (\<lambda>s. se_status s = ''owned'' \<and> on_or_before ar day (se_added_at s)) (tbl_rows (db_sealed db)) =
      filter (\<lambda>s. se_status s = ''owned'' \<and> True) (tbl_rows (db_sealed db))"
    using assms(1) by (intro filter_cong refl) (auto simp: nothing_after_def list_all_iff)
  moreover have "sealed_market_price (sealed_prices_asof fd (owned_sealed_products db) day) (se_product s) =
      sealed_market_price (cat_latest_sealed cat) (se_product s)" if "s \<in> set (tbl_rows (db_sealed db))" for s
    by (rule price) (use that in \<open>simp add: owned_sealed_products_def\<close>)
  ultimately show ?thesis
    unfolding owned_sealed_asof_def owned_sealed_today_def owned_lot_rows_def by (simp only:) auto
qed

text \<open>
  C37. The two writers of the history cannot drift: reconstructing a day after which nothing happened, from
  the price observations themselves, writes exactly the rows the daily snapshot writes from the
  materialized latest prices, at every dimension, and leaves the other days alone in the same way.
\<close>

theorem backfill_agrees_with_snapshot:
  assumes "schema_ok db" "audit_ok db" "nothing_after ar db day" "feeds_current fd cat day"
  shows "backfill_one_date ar fd cat db day history = snapshot_today ar cat db day history"
  by (simp add: backfill_one_date_def snapshot_today_def owned_asof_current [OF assms] owned_sealed_asof_current [OF assms(3,4)])

section \<open>The rows of a day\<close>

definition counts :: "string \<Rightarrow> ValueRow list \<Rightarrow> int list" where
  "counts dimension rows = map vr_count (filter (\<lambda>r. vr_dimension r = dimension) rows)"

text \<open>
  One day's rows add up: there is exactly one row for all loose cards, it counts the owned copies,
  the counts of the sets add up to it and those of the binders to the copies that are in one, and a
  sealed row exists exactly if a lot is owned and counts units; owning sealed product changes none of the
  card rows.
\<close>

theorem day_counts_add_up:
  "counts ''all'' (insert_dimensions ar date owned lots) = [int (length owned)] \<and>
   sum_list (counts ''set'' (insert_dimensions ar date owned lots)) = int (length owned) \<and>
   sum_list (counts ''binder'' (insert_dimensions ar date owned lots)) =
     int (length (filter (\<lambda>r. oc_binder r \<noteq> None) owned)) \<and>
   counts ''sealed'' (insert_dimensions ar date owned lots) = (if lots = [] then [] else [sum_list (map ol_units lots)]) \<and>
   filter (\<lambda>r. vr_dimension r \<noteq> ''sealed'') (insert_dimensions ar date owned lots) = insert_dimensions ar date owned []"
proof -
  have dim: "filter (\<lambda>r. vr_dimension r = d) (map (\<lambda>(k, rows). card_row ar date e (f k) rows) gs) =
      (if d = e then map (\<lambda>(k, rows). card_row ar date e (f k) rows) gs else [])"
    "filter (\<lambda>r. vr_dimension r \<noteq> d) (map (\<lambda>(k, rows). card_row ar date e (f k) rows) gs) =
      (if d = e then [] else map (\<lambda>(k, rows). card_row ar date e (f k) rows) gs)"
    for d e and f :: "'k \<Rightarrow> string option" and gs
    by (auto simp: filter_map comp_def card_row_def case_prod_beta)
  have cnt: "map vr_count (map (\<lambda>(k, rows). card_row ar date e (f k) rows) gs) = map (\<lambda>(k, rows). int (length rows)) gs"
    for e and f :: "'k \<Rightarrow> string option" and gs
    by (auto simp: card_row_def)
  show ?thesis
    unfolding insert_dimensions_def counts_def filter.simps filter_append dim map_append
    by (simp add: dim cnt group_counts card_row_def sealed_value_row_def del: map_map not_None_eq)
qed

section \<open>The series of the chart\<close>

lemma insort_key_same:
  "(\<And>y. y \<in> set ys \<Longrightarrow> f x \<le> f y \<longleftrightarrow> g x \<le> g y) \<Longrightarrow> insort_key f x ys = insort_key g x ys"
  by (induction ys) auto

lemma sort_key_same:
  "(\<And>x y. x \<in> set xs \<Longrightarrow> y \<in> set xs \<Longrightarrow> f x \<le> f y \<longleftrightarrow> g x \<le> g y) \<Longrightarrow> sort_key f xs = sort_key g xs"
  by (induction xs) (auto intro!: insort_key_same)

definition flat :: "ValueSeries list \<Rightarrow> (string option \<times> ValuePoint) list" where
  "flat ss = concat (map (\<lambda>s. map (Pair (vs_bucket s)) (vs_points s)) (rev ss))"

definition series_ok :: "catalog \<Rightarrow> tdb \<Rightarrow> string \<Rightarrow> ValueSeries list \<Rightarrow> bool" where
  "series_ok cat db d ss \<longleftrightarrow> sorted_wrt (\<lambda>s t. bucket_key (vs_bucket t) < bucket_key (vs_bucket s)) ss \<and>
     (\<forall>s \<in> set ss. vs_label s = bucket_label cat db d (vs_bucket s) \<and> vs_points s \<noteq> [])"

lemma bucket_key_inj: "bucket_key a = bucket_key b \<longleftrightarrow> a = b"
  by (auto simp: bucket_key_def split: option.splits)

lemma add_points:
  "series_ok cat db d ss \<Longrightarrow> sorted_wrt (\<lambda>a b. bucket_key (fst a) \<le> bucket_key (fst b)) xs \<Longrightarrow>
   (\<And>x s. x \<in> set xs \<Longrightarrow> s \<in> set ss \<Longrightarrow> bucket_key (vs_bucket s) \<le> bucket_key (fst x)) \<Longrightarrow>
   series_ok cat db d (fold add_point (map (\<lambda>(b, p). (b, bucket_label cat db d b, p)) xs) ss) \<and>
   flat (fold add_point (map (\<lambda>(b, p). (b, bucket_label cat db d b, p)) xs) ss) = flat ss @ xs"
proof (induction xs arbitrary: ss)
  case (Cons x xs)
  obtain b p where x: "x = (b, p)" by (cases x)
  define ss' where "ss' = add_point (b, bucket_label cat db d b, p) ss"
  have ok: "series_ok cat db d ss'"
  proof (cases ss)
    case (Cons s rest)
    have "bucket_key (vs_bucket t) < bucket_key b" if "vs_bucket s \<noteq> b" "t = s \<or> t \<in> set rest" for t
    proof -
      have "bucket_key (vs_bucket s) < bucket_key b"
        using Cons.prems(3) [of x s] that(1) Cons x bucket_key_inj by (force simp: less_le)
      moreover have "t = s \<or> bucket_key (vs_bucket t) < bucket_key (vs_bucket s)"
        using Cons.prems(1) that(2) Cons by (auto simp: series_ok_def)
      ultimately show ?thesis by auto
    qed
    then show ?thesis using Cons.prems(1) Cons by (auto simp: ss'_def series_ok_def)
  qed (simp add: ss'_def series_ok_def)
  have flat: "flat ss' = flat ss @ [(b, p)]" by (cases ss) (auto simp: ss'_def flat_def)
  have buckets: "vs_bucket ` set ss' \<subseteq> insert b (vs_bucket ` set ss)" by (cases ss) (auto simp: ss'_def)
  have "bucket_key (vs_bucket s) \<le> bucket_key (fst y)" if "y \<in> set xs" "s \<in> set ss'" for y s
  proof -
    have "vs_bucket s = b \<or> vs_bucket s \<in> vs_bucket ` set ss" using buckets that(2) by blast
    then show ?thesis
    proof
      assume "vs_bucket s = b"
      then show ?thesis using Cons.prems(2) that(1) x by auto
    next
      assume "vs_bucket s \<in> vs_bucket ` set ss"
      then obtain t where "t \<in> set ss" "vs_bucket s = vs_bucket t" by blast
      then show ?thesis using Cons.prems(3) [of y t] that(1) by simp
    qed
  qed
  from Cons.IH [OF ok _ this] Cons.prems(2) show ?case by (simp add: x flat ss'_def [symmetric])
qed simp

lemma flat_points:
  assumes "sorted_wrt (\<lambda>s t. bucket_key (vs_bucket t) < bucket_key (vs_bucket s)) ss" "s \<in> set ss"
  shows "vs_points s = map snd (filter (\<lambda>x. fst x = vs_bucket s) (flat ss))"
  using assms
proof (induction ss)
  case (Cons t ss)
  have own: "filter (\<lambda>x. fst x = b) (map (Pair c) ps) = (if b = c then map (Pair c) ps else [])" for b c and ps :: "ValuePoint list"
    by (induction ps) auto
  have others: "filter (\<lambda>x. fst x = vs_bucket t) (flat ss) = []"
    using Cons.prems(1) by (auto simp: flat_def filter_empty_conv)
  show ?case
  proof (cases "s = t")
    case True
    have "flat (t # ss) = flat ss @ map (Pair (vs_bucket t)) (vs_points t)" by (simp add: flat_def)
    then show ?thesis using others by (simp add: True own comp_def)
  next
    case False
    then have s: "s \<in> set ss" using Cons.prems(2) by simp
    then have "vs_bucket s \<noteq> vs_bucket t" using Cons.prems(1) by auto
    moreover have "flat (t # ss) = flat ss @ map (Pair (vs_bucket t)) (vs_points t)" by (simp add: flat_def)
    ultimately show ?thesis using Cons.IH s Cons.prems(1) by (simp add: own)
  qed
qed simp

lemma flat_buckets: "series_ok cat db d ss \<Longrightarrow> fst ` set (flat ss) = vs_bucket ` set ss"
  by (auto simp: flat_def series_ok_def image_iff) (metis last_in_set)+

lemma bucket_series_spec:
  fixes history :: "ValueRow list" and dimension :: string
  defines "rows \<equiv> filter (\<lambda>r. vr_dimension r = dimension) history"
  shows "distinct (map vs_bucket (bucket_series cat db history dimension)) \<and>
     set (map vs_bucket (bucket_series cat db history dimension)) = set (map vr_bucket rows) \<and>
     (\<forall>s \<in> set (bucket_series cat db history dimension).
        vs_label s = bucket_label cat db dimension (vs_bucket s) \<and>
        vs_points s = map point_of (sort_key vr_date (filter (\<lambda>r. vr_bucket r = vs_bucket s) rows)))"
proof -
  let ?by = "\<lambda>r. (bucket_key (vr_bucket r), vr_date r)"
  let ?sorted = "sort_key ?by rows"
  let ?xs = "map (\<lambda>r. (vr_bucket r, point_of r)) ?sorted"
  define ss where "ss = fold add_point (map (\<lambda>(b, p). (b, bucket_label cat db dimension b, p)) ?xs) []"
  have series: "bucket_series cat db history dimension = rev ss"
    by (simp add: bucket_series_def ss_def rows_def Let_def comp_def)
  have "sorted_wrt (\<lambda>q r. ?by q \<le> ?by r) ?sorted"
    using sorted_sort_key [of ?by rows] by (simp only: sorted_wrt_map)
  then have "sorted_wrt (\<lambda>a b. bucket_key (fst a) \<le> bucket_key (fst b)) ?xs"
    unfolding sorted_wrt_map by (rule sorted_wrt_mono_rel [rotated]) (auto simp: less_eq_prod_simp)
  then have ok: "series_ok cat db dimension ss" and flat: "flat ss = ?xs"
    using add_points [of cat db dimension "[]" ?xs] by (simp_all add: ss_def series_ok_def flat_def)
  have "vs_points s = map point_of (sort_key vr_date (filter (\<lambda>r. vr_bucket r = vs_bucket s) rows))" if "s \<in> set ss" for s
  proof -
    have "vs_points s = map snd (filter (\<lambda>x. fst x = vs_bucket s) ?xs)"
      using ok that flat flat_points [of ss s] by (simp only: series_ok_def)
    also have "\<dots> = map point_of (filter (\<lambda>r. vr_bucket r = vs_bucket s) ?sorted)" by (simp add: filter_map comp_def)
    also have "filter (\<lambda>r. vr_bucket r = vs_bucket s) ?sorted = sort_key ?by (filter (\<lambda>r. vr_bucket r = vs_bucket s) rows)"
      by (rule List.linorder_class.filter_sort)
    also have "\<dots> = sort_key vr_date (filter (\<lambda>r. vr_bucket r = vs_bucket s) rows)" by (rule sort_key_same) auto
    finally show ?thesis .
  qed
  moreover have "distinct (map vs_bucket ss)"
    using ok by (auto simp: series_ok_def distinct_conv_nth sorted_wrt_iff_nth_less) (metis less_irrefl linorder_neqE_nat)
  moreover have "vs_bucket ` set ss = vr_bucket ` set rows"
    using flat_buckets [OF ok] unfolding flat by (simp add: image_image)
  ultimately show ?thesis using ok by (simp add: series series_ok_def rev_map [symmetric])
qed

text \<open>
  The chart by set or binder shows the whole history and nothing else: one series for each bucket that
  has a row, labelled with its set or binder, whose points are exactly the bucket's rows in the order of
  their dates, and the series come in descending order of their latest value.
\<close>

theorem value_history_by_bucket:
  fixes history :: "ValueRow list" and dimension :: string
  defines "rows \<equiv> filter (\<lambda>r. vr_dimension r = dimension) history"
  assumes "dimension = ''set'' \<or> dimension = ''binder''"
  shows "distinct (map vs_bucket (value_history cat db history dimension)) \<and>
     set (map vs_bucket (value_history cat db history dimension)) = set (map vr_bucket rows) \<and>
     (\<forall>s \<in> set (value_history cat db history dimension).
        vs_label s = bucket_label cat db dimension (vs_bucket s) \<and>
        vs_points s = map point_of (sort_key vr_date (filter (\<lambda>r. vr_bucket r = vs_bucket s) rows))) \<and>
     sorted_wrt (\<lambda>s t. f64_key (latest_value t) \<le> f64_key (latest_value s)) (value_history cat db history dimension)"
proof -
  have "value_history cat db history dimension =
      sort_key (\<lambda>s. - f64_key (latest_value s)) (bucket_series cat db history dimension)"
    using assms(2) by (auto simp: value_history_def)
  moreover have "sorted_wrt (\<lambda>s t. f64_key (latest_value t) \<le> f64_key (latest_value s))
      (sort_key (\<lambda>s. - f64_key (latest_value s)) ss)" for ss
    using sorted_sort_key [of "\<lambda>s. - f64_key (latest_value s)" ss] by (simp add: sorted_wrt_map)
  ultimately show ?thesis
    using bucket_series_spec [of cat db history dimension]
    by (simp add: rows_def distinct_map)
qed

lemma points_ascend:
  assumes "distinct (map row_key rows)" "\<And>r q. r \<in> set rows \<Longrightarrow> q \<in> set rows \<Longrightarrow>
    vr_dimension r = vr_dimension q \<and> vr_bucket r = vr_bucket q"
  shows "sorted_wrt (<) (map vp_date (map point_of (sort_key vr_date rows)))"
proof -
  have "distinct (map vr_date rows)"
    unfolding distinct_map
  proof
    show "distinct rows" using assms(1) by (simp add: distinct_map)
    show "inj_on vr_date (set rows)"
    proof (rule inj_onI)
      fix r q assume "r \<in> set rows" "q \<in> set rows" "vr_date r = vr_date q"
      moreover from this have "row_key r = row_key q" using assms(2) [of r q] by (simp add: row_key_def)
      ultimately show "r = q" using assms(1) by (simp add: distinct_map inj_on_def)
    qed
  qed
  then have "distinct (map vr_date (sort_key vr_date rows))" by (simp add: distinct_map)
  moreover have "map vp_date (map point_of xs) = map vr_date xs" for xs by (simp add: point_of_def)
  ultimately show ?thesis using sorted_sort_key [of vr_date rows] by (simp only: strict_sorted_iff)
qed

text \<open>
  However often days are snapshotted again or the past is reconstructed, whatever the databases were,
  every series of the chart has at most one point per date, oldest first.
\<close>

theorem chart_one_point_per_date:
  assumes "chart_history ar history"
  shows "\<forall>s \<in> set (value_history cat db history dimension). sorted_wrt (<) (map vp_date (vs_points s))"
proof -
  have ok: "history_ok history" using chart_history_ok [OF assms] .
  have one: "sorted_wrt (<) (map vp_date (map point_of (sort_key vr_date (filter P history))))"
    if "\<And>r q. P r \<Longrightarrow> P q \<Longrightarrow> r \<in> set history \<Longrightarrow> q \<in> set history \<Longrightarrow>
      vr_dimension r = vr_dimension q \<and> vr_bucket r = vr_bucket q" for P
    using ok that by (intro points_ascend) (auto simp: history_ok_def distinct_map_filter)
  have whole: "sorted_wrt (<) (map vp_date (points_of history d))" if "d = ''all'' \<or> d = ''sealed''" for d
    unfolding points_of_def using ok that by (intro one) (auto simp: history_ok_def)
  show ?thesis
  proof (cases "dimension = ''all''")
    case True
    then show ?thesis using whole by (auto simp: value_history_def Let_def)
  next
    case False
    define d where "d = (if dimension = ''binder'' then ''binder'' else ''set'')"
    have "vs_points s = map point_of (sort_key vr_date (filter (\<lambda>r. vr_dimension r = d \<and> vr_bucket r = vs_bucket s) history))"
      if "s \<in> set (value_history cat db history dimension)" for s
      using bucket_series_spec [of cat db history d] that False
      by (simp add: value_history_def d_def [symmetric] conj_commute)
    moreover have "sorted_wrt (<) (map vp_date (map point_of (sort_key vr_date
        (filter (\<lambda>r. vr_dimension r = d \<and> vr_bucket r = b) history))))" for b
      by (rule one) simp
    ultimately show ?thesis by simp
  qed
qed

section \<open>A priced copy\<close>

definition sample_arith :: arith where
  "sample_arith = \<lparr>ar_mul = (\<lambda>x y. x), ar_sum = sum_list, ar_of_int = of_int, ar_date = Some\<rparr>"

definition sample_feeds :: feeds where
  "sample_feeds = \<lparr>fd_prices =
     [\<lparr>px_product = 1, px_sub_type = ''Holofoil'', px_source = ''tcgplayer'', px_type = ''market'', px_price = 5, px_observed_at = ''0''\<rparr>,
      \<lparr>px_product = 1, px_sub_type = ''Holofoil'', px_source = ''tcgplayer'', px_type = ''market'', px_price = 7, px_observed_at = ''1''\<rparr>],
     fd_sealed = []\<rparr>"

definition priced_catalog :: catalog where
  "priced_catalog = sample_catalog\<lparr>cat_latest_prices := refresh_latest_prices (fd_prices sample_feeds)\<rparr>"

definition sample_owned :: tdb where
  "sample_owned = after (collection_add sample_env sample_copy) empty_db"

lemma sample_owned_ok: "schema_ok sample_owned" "audit_ok sample_owned"
proof -
  have "always keeps_audit (collection_add sample_env sample_copy)" by (rule audit_rules)
  moreover have "audit_ok empty_db" by (simp add: audit_ok_def empty_db_def empty_tbl_def)
  ultimately show "audit_ok sample_owned"
    using schema_ok_empty by (simp add: always_def keeps_audit_def sample_owned_def after_def)
  show "schema_ok sample_owned" unfolding sample_owned_def by (intro after_schema repo_rules schema_ok_empty)
qed

lemma show_nat_small [simp]: "show_nat 0 = ''0''" "show_nat (Suc 0) = ''1''" "show_nat (Suc (Suc 0)) = ''2''"
  by code_simp+

lemma sample_priced:
  "snd (snapshot_today sample_arith priced_catalog sample_owned day []) =
     [\<lparr>vr_date = day, vr_dimension = ''all'', vr_bucket = None, vr_market = 7, vr_cost = 0, vr_count = 1\<rparr>,
      \<lparr>vr_date = day, vr_dimension = ''set'', vr_bucket = Some ''base1'', vr_market = 7, vr_cost = 0, vr_count = 1\<rparr>]"
  by (simp add: snapshot_today_def put_day_def insert_dimensions_def owned_today_def owned_copy_rows_def
      bound_printings_def priced_catalog_def sample_owned_def run_defs market_price_def market_price_from_def feed_price_def
      refresh_latest_prices_def newest_rows_def sample_feeds_def quote_of_def group_by_def card_row_def sum_or_zero_def
      somes_def sample_arith_def owned_sealed_today_def owned_lot_rows_def)

theorem backfill_agrees_with_snapshot_witness:
  "snd (backfill_one_date sample_arith sample_feeds priced_catalog sample_owned ''9'' []) =
     [\<lparr>vr_date = ''9'', vr_dimension = ''all'', vr_bucket = None, vr_market = 7, vr_cost = 0, vr_count = 1\<rparr>,
      \<lparr>vr_date = ''9'', vr_dimension = ''set'', vr_bucket = Some ''base1'', vr_market = 7, vr_cost = 0, vr_count = 1\<rparr>]"
proof -
  have "nothing_after sample_arith sample_owned ''9''"
    by (simp add: nothing_after_def on_or_before_def sample_arith_def sample_owned_def run_defs)
  moreover have "feeds_current sample_feeds priced_catalog ''9''"
    by (simp add: feeds_current_def priced_catalog_def)
      (simp add: sample_feeds_def sample_catalog_def latest_sealed_prices_def newest_rows_def)
  ultimately show ?thesis
    using backfill_agrees_with_snapshot [OF sample_owned_ok, of sample_arith "''9''" sample_feeds priced_catalog "[]"] sample_priced
    by simp
qed

theorem value_history_by_bucket_witness:
  "\<exists>s. value_history priced_catalog sample_owned (snd (snapshot_today sample_arith priced_catalog sample_owned ''9'' [])) ''set'' = [s] \<and>
     vs_bucket s = Some ''base1'' \<and> vs_label s = Some ''Base'' \<and> map vp_market (vs_points s) = [7]"
proof -
  let ?v = "value_history priced_catalog sample_owned (snd (snapshot_today sample_arith priced_catalog sample_owned ''9'' [])) ''set''"
  have spec: "distinct (map vs_bucket ?v) \<and> set (map vs_bucket ?v) = {Some ''base1''} \<and>
      (\<forall>s \<in> set ?v. vs_label s = bucket_label priced_catalog sample_owned ''set'' (vs_bucket s) \<and>
        (vs_bucket s = Some ''base1'' \<longrightarrow> map vp_market (vs_points s) = [7]))"
    using value_history_by_bucket [of "''set''" priced_catalog sample_owned
        "snd (snapshot_today sample_arith priced_catalog sample_owned ''9'' [])"]
    by (simp add: sample_priced point_of_def)
  then obtain s where s: "?v = [s]" "vs_bucket s = Some ''base1''"
    by (cases ?v; cases "tl ?v") auto
  moreover have "bucket_label priced_catalog sample_owned ''set'' (Some ''base1'') = Some ''Base''"
    by (simp add: bucket_label_def priced_catalog_def sample_catalog_def)
  ultimately show ?thesis using spec by auto
qed

theorem chart_one_point_per_date_witness:
  "\<exists>s. hd (value_history priced_catalog sample_owned
       (snd (snapshot_today sample_arith priced_catalog sample_owned ''8''
         (snd (snapshot_today sample_arith priced_catalog sample_owned ''9'' [])))) ''all'') = s \<and>
     map vp_date (vs_points s) = [''8'', ''9''] \<and> sorted_wrt (<) (map vp_date (vs_points s))"
proof -
  let ?h = "snd (snapshot_today sample_arith priced_catalog sample_owned ''8''
      (snd (snapshot_today sample_arith priced_catalog sample_owned ''9'' [])))"
  have "chart_history sample_arith ?h" by (intro chart_history.snapshot chart_history.start)
  then have "\<forall>s \<in> set (value_history priced_catalog sample_owned ?h ''all''). sorted_wrt (<) (map vp_date (vs_points s))"
    by (rule chart_one_point_per_date)
  moreover have "filter (\<lambda>r. vr_dimension r = ''all'') ?h =
      [\<lparr>vr_date = ''9'', vr_dimension = ''all'', vr_bucket = None, vr_market = 7, vr_cost = 0, vr_count = 1\<rparr>,
       \<lparr>vr_date = ''8'', vr_dimension = ''all'', vr_bucket = None, vr_market = 7, vr_cost = 0, vr_count = 1\<rparr>]"
    using sample_priced [of "''8''"]
    by (simp add: snapshot_today_def [of _ _ _ "''8''"] put_day_def sample_priced)
  then have "hd (value_history priced_catalog sample_owned ?h ''all'') =
        \<lparr>vs_bucket = None, vs_label = None, vs_points =
          [\<lparr>vp_date = ''8'', vp_market = 7, vp_cost = 0, vp_count = 1\<rparr>, \<lparr>vp_date = ''9'', vp_market = 7, vp_cost = 0, vp_count = 1\<rparr>]\<rparr>"
    by (simp add: value_history_def points_of_def point_of_def Let_def)
  ultimately show ?thesis by (simp add: value_history_def)
qed

end
