(* ===== verification/Search_Compile.thy ===== *)
theory Search_Compile
  imports Query_Grammar Import_Resolve
begin

text \<open>
  The SQL compiler of the collection search: the compiling half of \<open>pkdump-db/src/search.rs\<close>. Texts are
  the SQL the code assembles, character for character.
\<close>

section \<open>Values, flags and compiled queries\<close>

datatype SqlValue = VNull | VInteger int | VReal f64 | VText string | VBlob string

record SearchFlag =
  sf_flag :: string
  sf_kind :: string
  sf_match :: "string option"
  sf_predicate :: "string option"
  sf_help :: "string option"

datatype Dir = Asc | Desc

fun dir_sql :: "Dir \<Rightarrow> string" where
  "dir_sql Asc = ''ASC''"
| "dir_sql Desc = ''DESC''"

record Ctx =
  cx_has_status :: bool
  cx_catalog_wide :: bool
  cx_order_by :: "string option"
  cx_order_dir :: Dir

definition ctx_default :: Ctx where
  "ctx_default = \<lparr>cx_has_status = False, cx_catalog_wide = False, cx_order_by = None, cx_order_dir = Asc\<rparr>"

record CompiledSearch =
  cq_where :: string
  cq_params :: "SqlValue list"
  cq_has_status :: bool
  cq_catalog_wide :: bool
  cq_order_by :: "string option"
  cq_order_dir :: Dir

type_synonym frag = "string \<times> SqlValue list"

section \<open>Constant texts\<close>

definition quoted :: "string \<Rightarrow> string" where
  "quoted s = apos @ s @ apos"

definition dq :: string where
  "dq = [CHR 0x22]"

definition OWNED_COUNT_SUBQ :: string where
  "OWNED_COUNT_SUBQ = ''SELECT COUNT(*) FROM collection c WHERE c.printing_id = p.printing_id''"

text \<open>\<open>market_price_expr_from!\<close>.\<close>

definition market_price_expr_from :: "string \<Rightarrow> string \<Rightarrow> string" where
  "market_price_expr_from feed manual_cutoff =
     ''COALESCE( (SELECT lp.price FROM '' @ feed @
     '' lp WHERE lp.tcgplayer_product_id = p.tcgplayer_product_id AND lp.sub_type_name = p.sub_type_name '' @
     ''AND lp.price_type = '' @ quoted ''market'' @ '' LIMIT 1), '' @
     ''(SELECT o.price FROM catalog_price_overrides o WHERE o.printing_id = p.printing_id), '' @
     ''(SELECT mp.price FROM manual_prices mp WHERE mp.printing_id = p.printing_id '' @
     ''AND EXISTS (SELECT 1 FROM user_printings up WHERE up.printing_id = mp.printing_id) '' @
     manual_cutoff @ '' ORDER BY mp.observed_at DESC LIMIT 1) )''"

definition MARKET_PRICE_EXPR :: string where
  "MARKET_PRICE_EXPR = market_price_expr_from ''latest_prices'' []"

definition OWNED_VALUE_SUBQ :: string where
  "OWNED_VALUE_SUBQ =
     ''CASE WHEN EXISTS (SELECT 1 FROM collection c WHERE c.printing_id = p.printing_id AND c.status = '' @
     quoted ''owned'' @ '') THEN ('' @ MARKET_PRICE_EXPR @
     '') * (SELECT SUM(COALESCE(cond.multiplier, 1.0)) FROM collection c '' @
     ''LEFT JOIN conditions cond ON cond.name = c.condition '' @
     ''WHERE c.printing_id = p.printing_id AND c.status = '' @ quoted ''owned'' @ '') END''"

definition ATTACK_COSTS_EXPR :: string where
  "ATTACK_COSTS_EXPR =
     ''CASE WHEN cd.attacks IS NULL THEN NULL ELSE ( SELECT json_group_array(json_object( '' @
     quoted ''name'' @ '', json_extract(value, '' @ quoted ''$.name'' @ ''), '' @
     quoted ''cost'' @ '', json(json_extract(value, '' @ quoted ''$.cost'' @ '')))) FROM json_each(cd.attacks)) END''"

definition FROM_CLAUSE :: string where
  "FROM_CLAUSE =
     ''FROM ( SELECT printing_id, card_id, variant, tcgplayer_product_id, sub_type_name, '' @
     ''NULL AS variant_description FROM printings UNION ALL '' @
     ''SELECT printing_id, card_id, variant, NULL AS tcgplayer_product_id, '' @
     ''NULL AS sub_type_name, description AS variant_description FROM user_printings ) p '' @
     ''JOIN cards cd ON p.card_id = cd.card_id JOIN sets s ON cd.set_code = s.set_code''"

section \<open>Helpers of one kind of clause\<close>

fun num_op :: "Op \<Rightarrow> string" where
  "num_op Contains = ''=''"
| "num_op Eq = ''=''"
| "num_op Ne = ''!=''"
| "num_op Lt = ''<''"
| "num_op Gt = ''>''"
| "num_op Le = ''<=''"
| "num_op Ge = ''>=''"

definition pct :: "string \<Rightarrow> string" where
  "pct s = ''%'' @ s @ ''%''"

definition negate_frag :: "frag \<Rightarrow> frag" where
  "negate_frag f = (''NOT ('' @ fst f @ '')'', snd f)"

definition like_contains :: "string \<Rightarrow> string \<Rightarrow> frag" where
  "like_contains col v = (col @ '' LIKE ? COLLATE NOCASE'', [VText (pct v)])"

definition json_contains :: "string \<Rightarrow> string \<Rightarrow> frag" where
  "json_contains col v = (col @ '' LIKE ? COLLATE NOCASE'', [VText (pct (dq @ v @ dq))])"

definition json_array :: "Op \<Rightarrow> string \<Rightarrow> string \<Rightarrow> frag" where
  "json_array opr col v = (if opr = Ne then negate_frag (json_contains col v) else json_contains col v)"

definition enum_eq :: "string \<Rightarrow> Op \<Rightarrow> string \<Rightarrow> frag" where
  "enum_eq col opr v =
     (if opr = Ne then (''('' @ col @ '' IS NULL OR '' @ col @ '' != ? COLLATE NOCASE)'', [VText v])
      else (col @ '' = ? COLLATE NOCASE'', [VText v]))"

definition numeric :: "runtime \<Rightarrow> string \<Rightarrow> Op \<Rightarrow> string \<Rightarrow> string option \<Rightarrow> frag" where
  "numeric rt expr opr v extra =
     (case parse_f64 rt v of
        Some n \<Rightarrow>
          (let cond = expr @ '' '' @ num_op opr @ '' ?'' in
           (case extra of Some e \<Rightarrow> ''('' @ e @ '' AND '' @ cond @ '')'' | None \<Rightarrow> ''('' @ cond @ '')'', [VReal n]))
      | None \<Rightarrow> (''1=0 /* invalid number */'', []))"

definition pokedex :: "runtime \<Rightarrow> Op \<Rightarrow> string \<Rightarrow> frag" where
  "pokedex rt opr v =
     (case parse_f64 rt v of
        Some n \<Rightarrow>
          (''EXISTS (SELECT 1 FROM json_each(cd.national_pokedex_numbers) WHERE CAST(value AS INTEGER) '' @
           num_op opr @ '' ?)'', [VReal n])
      | None \<Rightarrow> (''1=0 /* invalid number */'', []))"

definition rarity_clause :: "Op \<Rightarrow> string \<Rightarrow> frag" where
  "rarity_clause opr v =
     (let named = ''(cd.rarity = ? COLLATE NOCASE OR cd.rarity IN (SELECT name FROM rarities WHERE grp = ? COLLATE NOCASE))'' in
      if opr = Contains \<or> opr = Eq then (named, [VText v, VText v])
      else if opr = Ne then (''NOT '' @ named, [VText v, VText v])
      else (''((SELECT rank FROM rarities WHERE name = cd.rarity) '' @ num_op opr @
            '' (SELECT rank FROM rarities WHERE name = ? COLLATE NOCASE))'', [VText v]))"

definition set_clause :: "Op \<Rightarrow> string \<Rightarrow> frag" where
  "set_clause opr v =
     (if opr = Eq then (''(s.set_code = ? COLLATE NOCASE OR s.ptcgo_code = ? COLLATE NOCASE)'', [VText v, VText v])
      else if opr = Ne
      then (''NOT (s.set_code = ? COLLATE NOCASE OR s.ptcgo_code = ? COLLATE NOCASE)'', [VText v, VText v])
      else (''(s.set_code = ? COLLATE NOCASE OR s.ptcgo_code = ? COLLATE NOCASE OR s.name LIKE ? COLLATE NOCASE)'',
            [VText v, VText v, VText (pct v)]))"

definition variant_match :: "string \<Rightarrow> frag" where
  "variant_match v =
     (''(p.variant LIKE ? COLLATE NOCASE OR EXISTS (SELECT 1 FROM variants vv '' @
      ''WHERE vv.code = p.variant AND (vv.label LIKE ? OR vv.short LIKE ?) COLLATE NOCASE))'',
      [VText (pct v), VText (pct v), VText (pct v)])"

definition exists_copy :: "string \<Rightarrow> string" where
  "exists_copy inner =
     ''EXISTS (SELECT 1 FROM collection c WHERE c.printing_id = p.printing_id AND ('' @ inner @ ''))''"

definition condition_value :: "string \<Rightarrow> string" where
  "condition_value v =
     (let l = to_ascii_lowercase v in
      if l = ''nm'' then ''Near Mint''
      else if l = ''lp'' then ''Lightly Played''
      else if l = ''mp'' then ''Moderately Played''
      else if l = ''hp'' then ''Heavily Played''
      else if l = ''dmg'' \<or> l = ''d'' then ''Damaged''
      else v)"

definition container_clause :: "Op \<Rightarrow> string \<Rightarrow> string \<Rightarrow> string \<Rightarrow> frag" where
  "container_clause opr v fk table =
     (if v = ''*''
      then (exists_copy (if opr = Ne then ''c.'' @ fk @ '' IS NULL'' else ''c.'' @ fk @ '' IS NOT NULL''), [])
      else if opr = Eq
      then (''EXISTS (SELECT 1 FROM collection c JOIN '' @ table @ '' x ON c.'' @ fk @
            '' = x.id WHERE c.printing_id = p.printing_id AND x.name = ? COLLATE NOCASE)'', [VText v])
      else if opr = Ne
      then (''EXISTS (SELECT 1 FROM collection c LEFT JOIN '' @ table @ '' x ON c.'' @ fk @
            '' = x.id WHERE c.printing_id = p.printing_id AND (x.name IS NULL OR x.name != ? COLLATE NOCASE))'', [VText v])
      else (''EXISTS (SELECT 1 FROM collection c JOIN '' @ table @ '' x ON c.'' @ fk @
            '' = x.id WHERE c.printing_id = p.printing_id AND x.name LIKE ? COLLATE NOCASE)'', [VText (pct v)]))"

definition is_flag :: "string \<Rightarrow> SearchFlag list \<Rightarrow> Ctx \<Rightarrow> frag \<times> Ctx" where
  "is_flag v flags ctx =
     (case List.find (\<lambda>f. sf_flag f = to_ascii_lowercase v) flags of
        None \<Rightarrow> ((''1=0 /* unknown is: flag */'', []), ctx)
      | Some flag \<Rightarrow>
          if sf_kind flag = ''computed''
          then (if sf_predicate flag = Some ''graded'' then ((exists_copy ''c.graded = 1'', []), ctx)
                else if sf_predicate flag = Some ''dupe'' then ((''('' @ OWNED_COUNT_SUBQ @ '') >= 2'', []), ctx)
                else if sf_predicate flag = Some ''owned''
                then ((''('' @ OWNED_COUNT_SUBQ @ '') > 0'', []), ctx\<lparr>cx_catalog_wide := True\<rparr>)
                else if sf_predicate flag = Some ''missing''
                then ((''('' @ OWNED_COUNT_SUBQ @ '') = 0'', []), ctx\<lparr>cx_catalog_wide := True\<rparr>)
                else ((''1=0 /* unknown computed flag */'', []), ctx))
          else if sf_kind flag = ''variant_match''
          then (let pat = pct (case sf_match flag of Some m \<Rightarrow> m | None \<Rightarrow> []) in
                ((''(p.variant LIKE ? COLLATE NOCASE OR EXISTS (SELECT 1 FROM variants vv '' @
                  ''WHERE vv.code = p.variant AND (vv.code LIKE ? OR vv.label LIKE ?) COLLATE NOCASE))'',
                  [VText pat, VText pat, VText pat]), ctx))
          else ((''1=0 /* unknown flag kind */'', []), ctx))"

definition has_flag :: "string \<Rightarrow> frag" where
  "has_flag v =
     (let l = to_ascii_lowercase v; filled = (\<lambda>col. col @ '' IS NOT NULL AND '' @ col @ '' NOT IN ('' @ quoted [] @ '', '' @ quoted ''[]'' @ '')'') in
      (if l = ''ability'' then filled ''cd.abilities''
       else if l = ''flavor'' then ''cd.flavor_text IS NOT NULL AND cd.flavor_text != '' @ quoted []
       else if l = ''attack'' then filled ''cd.attacks''
       else if l = ''weakness'' then filled ''cd.weaknesses''
       else if l = ''resistance'' then filled ''cd.resistances''
       else if l = ''retreat'' then ''cd.retreat_cost IS NOT NULL AND json_array_length(cd.retreat_cost) > 0''
       else ''1=0 /* unknown has: flag */'', []))"

section \<open>One comparison\<close>

text \<open>The keywords about the card, its set and its printing.\<close>

definition catalog_comparison :: "runtime \<Rightarrow> string \<Rightarrow> Op \<Rightarrow> string \<Rightarrow> frag option" where
  "catalog_comparison rt keyword opr v =
     (if keyword = ''name''
      then Some (if opr = Eq then (''cd.name = ? COLLATE NOCASE'', [VText v])
                 else if opr = Ne then (''(cd.name IS NULL OR cd.name != ? COLLATE NOCASE)'', [VText v])
                 else like_contains ''cd.name'' v)
      else if keyword = ''energy_type'' then Some (json_array opr ''cd.types'' v)
      else if keyword = ''weakness'' then Some (json_contains ''cd.weaknesses'' v)
      else if keyword = ''resistance'' then Some (json_contains ''cd.resistances'' v)
      else if keyword = ''subtype'' then Some (json_array opr ''cd.subtypes'' v)
      else if keyword = ''supertype'' then Some (enum_eq ''cd.supertype'' opr v)
      else if keyword = ''regulation'' then Some (enum_eq ''cd.regulation_mark'' opr v)
      else if keyword = ''hp'' then Some (numeric rt ''cd.hp'' opr v (Some ''cd.hp IS NOT NULL''))
      else if keyword = ''damage''
      then Some (numeric rt (''(SELECT MAX(CAST(json_extract(value, '' @ quoted ''$.damage'' @
             '') AS INTEGER)) FROM json_each(cd.attacks))'') opr v None)
      else if keyword = ''retreat''
      then Some (numeric rt ''json_array_length(cd.retreat_cost)'' opr v (Some ''cd.retreat_cost IS NOT NULL''))
      else if keyword = ''year'' then Some (numeric rt ''CAST(SUBSTR(s.release_date, 1, 4) AS INTEGER)'' opr v None)
      else if keyword = ''pokedex'' then Some (pokedex rt opr v)
      else if keyword = ''artist'' then Some (like_contains ''cd.artist'' v)
      else if keyword = ''flavor'' then Some (like_contains ''cd.flavor_text'' v)
      else if keyword = ''ability'' then Some (like_contains ''cd.abilities'' v)
      else if keyword = ''attack'' then Some (like_contains ''cd.attacks'' v)
      else if keyword = ''oracle''
      then Some (''(cd.abilities LIKE ? COLLATE NOCASE OR cd.attacks LIKE ? COLLATE NOCASE)'', [VText (pct v), VText (pct v)])
      else if keyword = ''rarity'' then Some (rarity_clause opr v)
      else if keyword = ''set'' then Some (set_clause opr v)
      else if keyword = ''legality''
      then Some (''json_extract(cd.legalities, '' @ quoted ''$.'' @ '' || ?) = '' @ quoted ''Legal'' @ '' COLLATE NOCASE'',
                 [VText (to_ascii_lowercase v)])
      else if keyword = ''banned''
      then Some (''json_extract(cd.legalities, '' @ quoted ''$.'' @ '' || ?) = '' @ quoted ''Banned'' @ '' COLLATE NOCASE'',
                 [VText (to_ascii_lowercase v)])
      else if keyword = ''variant''
      then Some (if opr = Ne then negate_frag (variant_match v) else variant_match v)
      else if keyword = ''has_flag'' then Some (has_flag v)
      else if keyword = ''price'' then Some (numeric rt (''('' @ MARKET_PRICE_EXPR @ '')'') opr v None)
      else if keyword = ''qty'' then Some (numeric rt (''('' @ OWNED_COUNT_SUBQ @ '')'') opr v None)
      else None)"

text \<open>The keywords about a copy, each an \<open>EXISTS\<close> over the copies of the printing.\<close>

definition over_copies :: "frag \<Rightarrow> frag" where
  "over_copies f = (exists_copy (fst f), snd f)"

definition copy_comparison :: "runtime \<Rightarrow> string \<Rightarrow> Op \<Rightarrow> string \<Rightarrow> frag option" where
  "copy_comparison rt keyword opr v =
     (if keyword = ''status''
      then Some (over_copies (if opr = Ne then ''c.status != ? COLLATE NOCASE'' else ''c.status = ? COLLATE NOCASE'', [VText v]))
      else if keyword = ''condition''
      then Some (over_copies (if opr = Ne then ''c.condition != ? COLLATE NOCASE'' else ''c.condition = ? COLLATE NOCASE'',
             [VText (condition_value v)]))
      else if keyword = ''grade''
      then Some (over_copies (numeric rt ''c.grade_value'' opr v (Some ''c.grade_value IS NOT NULL'')))
      else if keyword = ''grader'' then Some (over_copies (like_contains ''c.grade_company'' v))
      else if keyword = ''paid''
      then Some (over_copies (numeric rt ''c.purchase_price'' opr v (Some ''c.purchase_price IS NOT NULL'')))
      else if keyword = ''sale_price''
      then Some (over_copies (numeric rt ''c.sale_price'' opr v (Some ''c.sale_price IS NOT NULL'')))
      else if keyword = ''added''
      then Some (over_copies (''SUBSTR(c.acquired_at, 1, 10) '' @ num_op opr @ '' ?'', [VText v]))
      else if keyword = ''language'' then Some (over_copies (like_contains ''c.language'' v))
      else if keyword = ''source'' then Some (over_copies (like_contains ''c.source'' v))
      else if keyword = ''tag'' then Some (over_copies (json_contains ''c.tags'' v))
      else if keyword = ''note'' then Some (over_copies (like_contains ''c.notes'' v))
      else if keyword = ''deck'' then Some (container_clause opr v ''deck_id'' ''decks'')
      else if keyword = ''binder'' then Some (container_clause opr v ''binder_id'' ''binders'')
      else None)"

definition compile_comparison ::
  "runtime \<Rightarrow> SearchFlag list \<Rightarrow> string \<Rightarrow> Op \<Rightarrow> string \<Rightarrow> Ctx \<Rightarrow> frag \<times> Ctx" where
  "compile_comparison rt flags keyword opr v ctx =
     (if keyword = ''is_flag'' then is_flag v flags ctx
      else (case coalesce (catalog_comparison rt keyword opr v) (copy_comparison rt keyword opr v) of
              Some f \<Rightarrow> (f, if keyword = ''status'' then ctx\<lparr>cx_has_status := True\<rparr> else ctx)
            | None \<Rightarrow> ((''1=0 /* unsupported keyword */'', []), ctx)))"

section \<open>Modifiers\<close>

function (sequential) extract_modifiers :: "Ast \<Rightarrow> Ctx \<Rightarrow> Ast option \<times> Ctx"
  and extract_children :: "Ast list \<Rightarrow> Ctx \<Rightarrow> Ast list \<times> Ctx" where
  "extract_modifiers (Comparison keyword opr v) ctx =
     (if keyword = ''order'' then (None, ctx\<lparr>cx_order_by := Some (to_ascii_lowercase v)\<rparr>)
      else if keyword = ''direction''
      then (None, ctx\<lparr>cx_order_dir := if eq_ignore_ascii_case v ''desc'' then Desc else Asc\<rparr>)
      else (Some (Comparison keyword opr v), ctx))"
| "extract_modifiers (And children) ctx =
     (let (kept, ctx) = extract_children children ctx in
      (case kept of [] \<Rightarrow> None | [c] \<Rightarrow> Some c | _ \<Rightarrow> Some (And kept), ctx))"
| "extract_modifiers other ctx = (Some other, ctx)"
| "extract_children [] ctx = ([], ctx)"
| "extract_children (c # cs) ctx =
     (let (r, ctx) = extract_modifiers c ctx; (rest, ctx) = extract_children cs ctx in
      (case r of Some k \<Rightarrow> k # rest | None \<Rightarrow> rest, ctx))"
  by pat_completeness auto

termination
  by (relation "measure (\<lambda>x. case x of Inl (a, _) \<Rightarrow> size a | Inr (cs, _) \<Rightarrow> size_list size cs)") auto

section \<open>Trees\<close>

function (sequential) compile_node :: "runtime \<Rightarrow> SearchFlag list \<Rightarrow> Ast \<Rightarrow> Ctx \<Rightarrow> frag \<times> Ctx"
  and compile_children :: "runtime \<Rightarrow> SearchFlag list \<Rightarrow> Ast list \<Rightarrow> Ctx \<Rightarrow> frag list \<times> Ctx" where
  "compile_node rt flags (And children) ctx =
     (let (fs, ctx) = compile_children rt flags children ctx in
      ((join '' AND '' (map fst fs), concat (map snd fs)), ctx))"
| "compile_node rt flags (Or children) ctx =
     (let (fs, ctx) = compile_children rt flags children ctx in
      ((join '' OR '' (map fst fs), concat (map snd fs)), ctx))"
| "compile_node rt flags (Not_ast inner) ctx =
     (let (f, ctx) = compile_node rt flags inner ctx in (negate_frag f, ctx))"
| "compile_node rt flags (NameSearch term) ctx = (like_contains ''cd.name'' term, ctx)"
| "compile_node rt flags (ExactName name) ctx = ((''cd.name = ? COLLATE NOCASE'', [VText name]), ctx)"
| "compile_node rt flags (Comparison keyword opr v) ctx = compile_comparison rt flags keyword opr v ctx"
| "compile_children rt flags [] ctx = ([], ctx)"
| "compile_children rt flags (c # cs) ctx =
     (let (f, ctx) = compile_node rt flags c ctx; (fs, ctx) = compile_children rt flags cs ctx in
      ((''('' @ fst f @ '')'', snd f) # fs, ctx))"
  by pat_completeness auto

termination
  by (relation "measure (\<lambda>x. case x of Inl (_, _, a, _) \<Rightarrow> size a | Inr (_, _, cs, _) \<Rightarrow> size_list size cs)") auto

definition compiled_of :: "frag \<Rightarrow> Ctx \<Rightarrow> CompiledSearch" where
  "compiled_of f ctx =
     \<lparr>cq_where = fst f, cq_params = snd f, cq_has_status = cx_has_status ctx, cq_catalog_wide = cx_catalog_wide ctx,
      cq_order_by = cx_order_by ctx, cq_order_dir = cx_order_dir ctx\<rparr>"

definition compile :: "runtime \<Rightarrow> SearchFlag list \<Rightarrow> Ast \<Rightarrow> CompiledSearch" where
  "compile rt flags ast =
     (let (stripped, ctx) = extract_modifiers ast ctx_default;
          (f, ctx) = (case stripped of
             Some a \<Rightarrow> compile_node rt flags a ctx
           | None \<Rightarrow> ((''1=1'', []), ctx)) in
      compiled_of f ctx)"

definition compile_all :: CompiledSearch where
  "compile_all =
     \<lparr>cq_where = ''1=1'', cq_params = [], cq_has_status = False, cq_catalog_wide = False, cq_order_by = None,
      cq_order_dir = Asc\<rparr>"

definition is_supported :: "CompiledSearch \<Rightarrow> bool" where
  "is_supported c \<longleftrightarrow> \<not> contains ''1=0'' (cq_where c)"

definition set_catalog_wide :: "bool \<Rightarrow> CompiledSearch \<Rightarrow> CompiledSearch" where
  "set_catalog_wide on c = (if on then c\<lparr>cq_catalog_wide := True\<rparr> else c)"

definition override_order :: "string option \<Rightarrow> string option \<Rightarrow> CompiledSearch \<Rightarrow> CompiledSearch" where
  "override_order col dir c =
     (let c = (case col of Some s \<Rightarrow> c\<lparr>cq_order_by := Some (to_ascii_lowercase s)\<rparr> | None \<Rightarrow> c) in
      case dir of
        Some d \<Rightarrow> c\<lparr>cq_order_dir := if eq_ignore_ascii_case d ''desc'' then Desc else Asc\<rparr>
      | None \<Rightarrow> c)"

definition SORT_KEYS :: "string list" where
  "SORT_KEYS = [''name'', ''number'', ''set'', ''rarity'', ''type'', ''etype'', ''hp'', ''price'', ''qty'', ''added'',
     ''dex'', ''pokedex'']"

definition is_sortable :: "string \<Rightarrow> bool" where
  "is_sortable k \<longleftrightarrow> to_ascii_lowercase k \<in> set SORT_KEYS"

definition order_sql :: "string option \<Rightarrow> string" where
  "order_sql order_by =
     (let k = (case order_by of Some k \<Rightarrow> k | None \<Rightarrow> ''name'') in
      if k = ''number'' then ''cd.number_sortable''
      else if k = ''set'' then ''s.release_date''
      else if k = ''rarity'' then ''(SELECT rank FROM rarities WHERE name = cd.rarity)''
      else if k = ''hp'' then ''cd.hp''
      else if k = ''price'' then ''('' @ MARKET_PRICE_EXPR @ '')''
      else if k = ''added''
      then ''(SELECT MAX(c.acquired_at) FROM collection c WHERE c.printing_id = p.printing_id)''
      else if k = ''dex'' \<or> k = ''pokedex''
      then ''(SELECT MIN(CAST(value AS INTEGER)) FROM json_each(cd.national_pokedex_numbers))''
      else if k = ''qty'' then ''('' @ OWNED_COUNT_SUBQ @ '')''
      else if k = ''type'' then ''cd.supertype''
      else if k = ''etype'' then ''cd.types''
      else ''cd.name'')"

definition where_clause :: "CompiledSearch \<Rightarrow> string" where
  "where_clause c =
     (if cq_catalog_wide c \<or> cq_has_status c then cq_where c
      else ''EXISTS (SELECT 1 FROM collection c WHERE c.printing_id = p.printing_id AND c.status IN ('' @
           quoted ''owned'' @ '', '' @ quoted ''ordered'' @ '')) AND ('' @ cq_where c @ '')'')"

definition order_keys :: "CompiledSearch \<Rightarrow> (string \<times> Dir) list" where
  "order_keys c =
     (if cq_order_by c = Some ''set''
      then [(''s.release_date'', cq_order_dir c), (''s.set_code'', cq_order_dir c)]
      else [(order_sql (cq_order_by c), cq_order_dir c)]) @
     [(''cd.number_sortable'', Asc), (''p.printing_id'', Asc)]"

section \<open>Placeholders\<close>

definition qmarks :: "string \<Rightarrow> nat" where
  "qmarks s = length (filter (\<lambda>c. c = CHR ''?'') s)"

lemma qmarks_simps [simp]:
  "qmarks [] = 0" "qmarks (c # s) = (if c = CHR ''?'' then 1 else 0) + qmarks s" "qmarks (s @ t) = qmarks s + qmarks t"
  by (simp_all add: qmarks_def)

lemma qmarks_join: "qmarks sep = 0 \<Longrightarrow> qmarks (join sep ss) = sum_list (map qmarks ss)"
  by (induction sep ss rule: join.induct) simp_all

lemma qmarks_num_op [simp]: "qmarks (num_op opr) = 0"
  by (cases opr) simp_all

lemma qmarks_quoted [simp]: "qmarks (quoted s) = qmarks s"
  by (simp add: quoted_def apos_def)

lemma qmarks_dir_sql [simp]: "qmarks (dir_sql d) = 0"
  by (cases d) simp_all

lemma qmarks_constants [simp]:
  "qmarks OWNED_COUNT_SUBQ = 0" "qmarks MARKET_PRICE_EXPR = 0" "qmarks OWNED_VALUE_SUBQ = 0"
  "qmarks ATTACK_COSTS_EXPR = 0" "qmarks FROM_CLAUSE = 0"
proof -
  show 1: "qmarks MARKET_PRICE_EXPR = 0" unfolding MARKET_PRICE_EXPR_def market_price_expr_from_def by simp
  show "qmarks OWNED_COUNT_SUBQ = 0" unfolding OWNED_COUNT_SUBQ_def by simp
  show "qmarks OWNED_VALUE_SUBQ = 0" unfolding OWNED_VALUE_SUBQ_def using 1 by simp
  show "qmarks ATTACK_COSTS_EXPR = 0" unfolding ATTACK_COSTS_EXPR_def by simp
  show "qmarks FROM_CLAUSE = 0" unfolding FROM_CLAUSE_def by simp
qed

text \<open>A fragment binds as many values as its text has placeholders.\<close>

definition bound :: "frag \<Rightarrow> bool" where
  "bound f \<longleftrightarrow> qmarks (fst f) = length (snd f)"

named_theorems bound_rules

lemma bound_if [bound_rules]: "(P \<Longrightarrow> bound f) \<Longrightarrow> (\<not> P \<Longrightarrow> bound g) \<Longrightarrow> bound (if P then f else g)"
  by simp

lemma bound_pair: "qmarks s = length ps \<Longrightarrow> bound (s, ps)"
  by (simp add: bound_def)

lemma bound_negate [bound_rules]: "bound f \<Longrightarrow> bound (negate_frag f)"
  by (simp add: bound_def negate_frag_def)

lemma bound_over_copies [bound_rules]: "bound f \<Longrightarrow> bound (over_copies f)"
  by (simp add: bound_def over_copies_def exists_copy_def)

lemma bound_like [bound_rules]: "qmarks col = 0 \<Longrightarrow> bound (like_contains col v)" "qmarks col = 0 \<Longrightarrow> bound (json_contains col v)"
  by (simp_all add: bound_def like_contains_def json_contains_def)

lemma bound_kinds [bound_rules]:
  "qmarks col = 0 \<Longrightarrow> bound (json_array opr col v)" "qmarks col = 0 \<Longrightarrow> bound (enum_eq col opr v)"
  by (auto simp: json_array_def enum_eq_def bound_def negate_frag_def json_contains_def)

lemma bound_numeric [bound_rules]:
  "qmarks expr = 0 \<Longrightarrow> bound (numeric rt expr opr v None)"
  "qmarks expr = 0 \<Longrightarrow> qmarks e = 0 \<Longrightarrow> bound (numeric rt expr opr v (Some e))"
  by (simp_all add: bound_def numeric_def Let_def split: option.split)

lemma bound_clauses [bound_rules]:
  "bound (pokedex rt opr v)" "bound (rarity_clause opr v)" "bound (set_clause opr v)" "bound (variant_match v)"
  "bound (has_flag v)"
proof -
  show "bound (pokedex rt opr v)" by (simp add: bound_def pokedex_def split: option.split)
  show "bound (rarity_clause opr v)" by (simp add: bound_def rarity_clause_def Let_def)
  show "bound (set_clause opr v)" by (simp add: bound_def set_clause_def)
  show "bound (variant_match v)" by (simp add: bound_def variant_match_def)
  show "bound (has_flag v)" by (simp add: bound_def has_flag_def Let_def)
qed

lemma bound_container [bound_rules]: "qmarks fk = 0 \<Longrightarrow> qmarks table = 0 \<Longrightarrow> bound (container_clause opr v fk table)"
  by (simp add: bound_def container_clause_def exists_copy_def)

lemma bound_is_flag: "bound (fst (is_flag v flags ctx))"
  by (simp add: is_flag_def bound_def exists_copy_def Let_def split: option.split)

lemma bound_Some_if:
  "(P \<Longrightarrow> x = Some f \<Longrightarrow> bound f) \<Longrightarrow> (\<not> P \<Longrightarrow> y = Some f \<Longrightarrow> bound f) \<Longrightarrow> (if P then x else y) = Some f \<Longrightarrow> bound f"
  by (simp split: if_splits)

lemma bound_catalog: "catalog_comparison rt keyword opr v = Some f \<Longrightarrow> bound f"
  unfolding catalog_comparison_def
  by (erule bound_Some_if [rotated 2], (simp only: option.inject, hypsubst, intro bound_rules bound_pair; simp)?)+ simp

lemma bound_copy: "copy_comparison rt keyword opr v = Some f \<Longrightarrow> bound f"
  unfolding copy_comparison_def
  by (erule bound_Some_if [rotated 2], (simp only: option.inject, hypsubst, intro bound_rules bound_pair; simp)?)+ simp

lemma bound_comparison: "bound (fst (compile_comparison rt flags keyword opr v ctx))"
  by (auto simp: compile_comparison_def bound_is_flag bound_def [of "(_, [])"] coalesce_Some
      dest: bound_catalog bound_copy split: option.split)

lemma bound_join:
  "list_all bound fs \<Longrightarrow> qmarks sep = 0 \<Longrightarrow> bound (join sep (map fst fs), concat (map snd fs))"
  by (simp add: qmarks_join length_concat comp_def bound_def list_all_iff cong: map_cong)

lemma compile_node_bound:
  "bound (fst (compile_node rt flags a ctx))" "list_all bound (fst (compile_children rt flags cs ctx))"
proof (induction rt flags a ctx and rt flags cs ctx rule: compile_node_compile_children.induct)
  case (1 rt flags children ctx)
  then show ?case by (auto simp: bound_join split: prod.split)
next
  case (2 rt flags children ctx)
  then show ?case by (auto simp: bound_join split: prod.split)
next
  case (3 rt flags inner ctx)
  then show ?case by (auto simp: bound_negate split: prod.split)
next
  case (8 rt flags c cs ctx)
  then show ?case by (auto simp: bound_def split: prod.split)
qed (simp_all add: bound_like bound_pair bound_comparison)

lemma compile_frag: "\<exists>f ctx. bound f \<and> compile rt flags ast = compiled_of f ctx"
proof -
  obtain stripped ctx where e: "extract_modifiers ast ctx_default = (stripped, ctx)" by (cases "extract_modifiers ast ctx_default")
  show ?thesis
  proof (cases stripped)
    case None
    then show ?thesis using e by (intro exI [of _ "(''1=1'', [])"] exI [of _ ctx]) (simp add: compile_def bound_def)
  next
    case (Some a)
    then show ?thesis using e compile_node_bound(1) [of rt flags a ctx]
      by (intro exI [of _ "fst (compile_node rt flags a ctx)"] exI [of _ "snd (compile_node rt flags a ctx)"])
        (simp add: compile_def split: prod.split)
  qed
qed

lemma compiled_placeholders:
  "qmarks (where_clause (compile rt flags ast)) = length (cq_params (compile rt flags ast))"
proof -
  obtain f ctx where "bound f" "compile rt flags ast = compiled_of f ctx" using compile_frag by blast
  then show ?thesis by (simp add: compiled_of_def bound_def where_clause_def)
qed

section \<open>Finitely many texts\<close>

text \<open>The texts that a fragment function can yield, over all its inputs.\<close>

definition few :: "('x \<Rightarrow> frag) \<Rightarrow> bool" where
  "few f \<longleftrightarrow> finite (range (\<lambda>x. fst (f x)))"

named_theorems few_rules

lemma few_const [few_rules]: "few (\<lambda>x. (s, p x))"
  by (simp add: few_def)

lemma few_text_if [few_rules]: "few (\<lambda>x. (if P x then s else t, p x))"
  unfolding few_def by (rule finite_subset [of _ "{s, t}"]) auto

lemma finite_range_if:
  "finite (range f) \<Longrightarrow> finite (range g) \<Longrightarrow> finite (range (\<lambda>x. if P x then f x else g x))"
  by (rule finite_subset [of _ "range f \<union> range g"]) auto

lemma few_if [few_rules]: "few f \<Longrightarrow> few g \<Longrightarrow> few (\<lambda>x. if P x then f x else g x)"
  unfolding few_def if_distrib [of fst] by (rule finite_range_if)

lemma finite_Op: "finite (UNIV :: Op set)"
proof -
  have "(UNIV :: Op set) = {Contains, Eq, Ne, Lt, Gt, Le, Ge}"
    using Op.exhaust by auto
  then show ?thesis by (metis finite.emptyI finite.insertI)
qed

lemma few_op [few_rules]: "few (\<lambda>x. (g (num_op (opr x)), p x))"
proof -
  have "range (\<lambda>x. g (num_op (opr x))) \<subseteq> (\<lambda>r. g (num_op r)) ` UNIV" by auto
  then show ?thesis using finite_Op by (auto simp: few_def intro: finite_subset)
qed

lemma few_map: "few f \<Longrightarrow> (\<And>x. fst (h (f x)) = g (fst (f x))) \<Longrightarrow> few (\<lambda>x. h (f x))"
  unfolding few_def by (rule finite_subset [of _ "g ` range (\<lambda>x. fst (f x))"]) auto

lemma few_wrap [few_rules]:
  "few f \<Longrightarrow> few (\<lambda>x. negate_frag (f x))" "few f \<Longrightarrow> few (\<lambda>x. over_copies (f x))"
  by (rule few_map [where g = "\<lambda>s. ''NOT ('' @ s @ '')''"], assumption, simp add: negate_frag_def)
    (rule few_map [where g = exists_copy], assumption, simp add: over_copies_def)

lemma few_option:
  "few f \<Longrightarrow> few h \<Longrightarrow> (\<And>x n. fst (g x n) = fst (h x)) \<Longrightarrow> few (\<lambda>x. case o' x of None \<Rightarrow> f x | Some n \<Rightarrow> g x n)"
  unfolding few_def
  by (rule finite_subset [of _ "range (\<lambda>x. fst (h x)) \<union> range (\<lambda>x. fst (f x))"]) (auto split: option.split)

lemma few_kinds [few_rules]:
  "few (\<lambda>x. like_contains col (v x))" "few (\<lambda>x. json_contains col (v x))" "few (\<lambda>x. json_array (opr x) col (v x))"
  "few (\<lambda>x. enum_eq col (opr x) (v x))" "few (\<lambda>x. rarity_clause (opr x) (v x))" "few (\<lambda>x. set_clause (opr x) (v x))"
  "few (\<lambda>x. variant_match (v x))" "few (\<lambda>x. container_clause (opr x) (v x) fk table)" "few (\<lambda>x. has_flag (v x))"
proof -
  show json: "few (\<lambda>x. json_contains col (v x))" for v :: "'x \<Rightarrow> string"
    unfolding json_contains_def by (rule few_rules)
  show "few (\<lambda>x. json_array (opr x) col (v x))"
    unfolding json_array_def by (intro few_rules json)
  show "few (\<lambda>x. has_flag (v x))"
    unfolding has_flag_def Let_def few_def fst_conv by (intro finite_range_if) simp_all
qed (unfold like_contains_def enum_eq_def rarity_clause_def set_clause_def variant_match_def container_clause_def Let_def if_distrib [of exists_copy],
  (intro few_rules)+)

lemma few_numeric [few_rules]: "few (\<lambda>x. numeric (rt x) expr (opr x) (v x) extra)" "few (\<lambda>x. pokedex (rt x) (opr x) (v x))"
proof -
  show "few (\<lambda>x. numeric (rt x) expr (opr x) (v x) extra)"
    unfolding numeric_def Let_def
    by (rule few_option [OF few_const few_op [where opr = opr and p = "\<lambda>_. []" and
          g = "\<lambda>s. let cond = expr @ '' '' @ s @ '' ?'' in
            case extra of Some e \<Rightarrow> ''('' @ e @ '' AND '' @ cond @ '')'' | None \<Rightarrow> ''('' @ cond @ '')''"]])
      (simp add: Let_def split: option.split)
  show "few (\<lambda>x. pokedex (rt x) (opr x) (v x))"
    unfolding pokedex_def
    by (rule few_option [OF few_const few_op [where opr = opr and p = "\<lambda>_. []" and
          g = "\<lambda>s. ''EXISTS (SELECT 1 FROM json_each(cd.national_pokedex_numbers) WHERE CAST(value AS INTEGER) '' @ s @ '' ?)''"]])
      simp
qed

text \<open>The comparisons as functions of everything the user and the registry supply.\<close>

lemma few_of_option:
  "few f \<Longrightarrow> finite (range (\<lambda>x. map_option fst (h x))) \<Longrightarrow> finite (range (\<lambda>x. map_option fst (if P x then Some (f x) else h x)))"
  unfolding few_def if_distrib [of "map_option fst"] option.map
  by (rule finite_range_if) (rule finite_subset [of _ "Some ` range (\<lambda>x. fst (f x))"], auto)

lemma few_catalog: "finite (range (\<lambda>x. map_option fst (catalog_comparison (rt x) (k x) (opr x) (v x))))"
  unfolding catalog_comparison_def by (intro few_of_option few_rules) simp_all

lemma few_copy: "finite (range (\<lambda>x. map_option fst (copy_comparison (rt x) (k x) (opr x) (v x))))"
  unfolding copy_comparison_def if_distribR by (intro few_of_option few_rules) simp_all

lemma few_is_flag: "finite (range (\<lambda>x. fst (fst (is_flag (v x) (flags x) (ctx x)))))"
proof -
  define flag_sql where "flag_sql flag =
     (if sf_kind flag = ''computed''
      then if sf_predicate flag = Some ''graded'' then exists_copy ''c.graded = 1''
           else if sf_predicate flag = Some ''dupe'' then ''('' @ OWNED_COUNT_SUBQ @ '') >= 2''
           else if sf_predicate flag = Some ''owned'' then ''('' @ OWNED_COUNT_SUBQ @ '') > 0''
           else if sf_predicate flag = Some ''missing'' then ''('' @ OWNED_COUNT_SUBQ @ '') = 0''
           else ''1=0 /* unknown computed flag */''
      else if sf_kind flag = ''variant_match''
      then ''(p.variant LIKE ? COLLATE NOCASE OR EXISTS (SELECT 1 FROM variants vv '' @
        ''WHERE vv.code = p.variant AND (vv.code LIKE ? OR vv.label LIKE ?) COLLATE NOCASE))''
      else ''1=0 /* unknown flag kind */'')" for flag :: SearchFlag
  have "finite (range flag_sql)"
    unfolding flag_sql_def by (intro finite_range_if) (simp_all del: append.simps)
  moreover have "fst (fst (is_flag u fl c)) \<in> insert ''1=0 /* unknown is: flag */'' (range flag_sql)" for u fl c
  proof (cases "List.find (\<lambda>f. sf_flag f = to_ascii_lowercase u) fl")
    case (Some flag)
    then have "fst (fst (is_flag u fl c)) = flag_sql flag"
      unfolding is_flag_def flag_sql_def Let_def by simp
    then show ?thesis by (simp only: insertI2 rangeI)
  qed (simp add: is_flag_def)
  ultimately show ?thesis
    by (intro finite_subset [of "range (\<lambda>x. fst (fst (is_flag (v x) (flags x) (ctx x))))"
        "insert ''1=0 /* unknown is: flag */'' (range flag_sql)"]) (blast, simp only: finite_insert)
qed

definition comparison_texts :: "string set" where
  "comparison_texts = range (\<lambda>(rt, flags, keyword, opr, v, ctx). fst (fst (compile_comparison rt flags keyword opr v ctx)))"

lemma finite_comparison_texts: "finite comparison_texts"
proof -
  let ?c = "\<lambda>x :: runtime \<times> string \<times> Op \<times> string. map_option fst (catalog_comparison (fst x) (fst (snd x)) (fst (snd (snd x))) (snd (snd (snd x))))"
  let ?d = "\<lambda>x :: runtime \<times> string \<times> Op \<times> string. map_option fst (copy_comparison (fst x) (fst (snd x)) (fst (snd (snd x))) (snd (snd (snd x))))"
  let ?f = "\<lambda>x :: string \<times> SearchFlag list \<times> Ctx. fst (fst (is_flag (fst x) (fst (snd x)) (snd (snd x))))"
  have "fst (fst (compile_comparison rt flags keyword opr v ctx)) \<in>
      range ?f \<union> the ` range ?c \<union> the ` range ?d \<union> {''1=0 /* unsupported keyword */''}" for rt flags keyword opr v ctx
  proof (cases "keyword = ''is_flag''")
    case True
    then show ?thesis by (auto simp: compile_comparison_def image_iff intro!: exI [of _ v] exI [of _ flags] exI [of _ ctx])
  next
    case False
    have "fst f \<in> the ` range ?c" if "catalog_comparison rt keyword opr v = Some f" for f
      using that by (intro image_eqI [of _ _ "?c (rt, keyword, opr, v)"] rangeI) simp
    moreover have "fst f \<in> the ` range ?d" if "copy_comparison rt keyword opr v = Some f" for f
      using that by (intro image_eqI [of _ _ "?d (rt, keyword, opr, v)"] rangeI) simp
    ultimately show ?thesis
      using False by (cases "catalog_comparison rt keyword opr v"; cases "copy_comparison rt keyword opr v")
        (simp_all add: compile_comparison_def)
  qed
  note texts = this
  have "comparison_texts \<subseteq> range ?f \<union> the ` range ?c \<union> the ` range ?d \<union> {''1=0 /* unsupported keyword */''}"
  proof (rule subsetI)
    fix s assume "s \<in> comparison_texts"
    then obtain rt flags keyword opr v ctx where "s = fst (fst (compile_comparison rt flags keyword opr v ctx))"
      unfolding comparison_texts_def by force
    then show "s \<in> range ?f \<union> the ` range ?c \<union> the ` range ?d \<union> {''1=0 /* unsupported keyword */''}"
      using texts [of rt flags keyword opr v ctx] by (simp only:)
  qed
  moreover have "finite (range ?f)" by (rule few_is_flag)
  ultimately show ?thesis
    using few_catalog [of fst "\<lambda>x. fst (snd x)" "\<lambda>x. fst (snd (snd x))" "\<lambda>x. snd (snd (snd x))"]
      few_copy [of fst "\<lambda>x. fst (snd x)" "\<lambda>x. fst (snd (snd x))" "\<lambda>x. snd (snd (snd x))"]
    by (meson finite.emptyI finite.insertI finite_UnI finite_imageI finite_subset)
qed

text \<open>What can be put together from a set of texts.\<close>

inductive assembled :: "string set \<Rightarrow> string \<Rightarrow> bool" for texts where
  leaf: "s \<in> texts \<Longrightarrow> assembled texts s"
| negation: "assembled texts s \<Longrightarrow> assembled texts (''NOT ('' @ s @ '')'')"
| junction: "sep = '' AND '' \<or> sep = '' OR '' \<Longrightarrow> (\<And>s. s \<in> set ss \<Longrightarrow> assembled texts s) \<Longrightarrow>
    assembled texts (join sep (map (\<lambda>s. ''('' @ s @ '')'') ss))"

definition leaf_texts :: "string set" where
  "leaf_texts = comparison_texts \<union> {''cd.name LIKE ? COLLATE NOCASE'', ''cd.name = ? COLLATE NOCASE'', ''1=1''}"

lemma compile_node_assembled:
  "assembled leaf_texts (fst (fst (compile_node rt flags a ctx)))"
  "\<exists>ss. map fst (fst (compile_children rt flags cs ctx)) = map (\<lambda>s. ''('' @ s @ '')'') ss \<and> (\<forall>s \<in> set ss. assembled leaf_texts s)"
proof (induction rt flags a ctx and rt flags cs ctx rule: compile_node_compile_children.induct)
  case (1 rt flags children ctx)
  then obtain ss where "map fst (fst (compile_children rt flags children ctx)) = map (\<lambda>s. ''('' @ s @ '')'') ss"
      "\<forall>s \<in> set ss. assembled leaf_texts s" by blast
  then show ?case using assembled.junction [of "'' AND ''" ss leaf_texts] by (simp add: case_prod_beta)
next
  case (2 rt flags children ctx)
  then obtain ss where "map fst (fst (compile_children rt flags children ctx)) = map (\<lambda>s. ''('' @ s @ '')'') ss"
      "\<forall>s \<in> set ss. assembled leaf_texts s" by blast
  then show ?case using assembled.junction [of "'' OR ''" ss leaf_texts] by (simp add: case_prod_beta)
next
  case (3 rt flags inner ctx)
  then show ?case using assembled.negation [OF 3] by (simp add: case_prod_beta negate_frag_def)
next
  case (6 rt flags keyword opr v ctx)
  have "fst (fst (compile_comparison rt flags keyword opr v ctx)) \<in> comparison_texts"
    unfolding comparison_texts_def by (rule image_eqI [of _ _ "(rt, flags, keyword, opr, v, ctx)"]) simp_all
  then show ?case by (simp add: leaf_texts_def assembled.leaf)
next
  case (8 rt flags c cs ctx)
  obtain f ctx' where c: "compile_node rt flags c ctx = (f, ctx')" by (cases "compile_node rt flags c ctx")
  obtain ss where "map fst (fst (compile_children rt flags cs ctx')) = map (\<lambda>s. ''('' @ s @ '')'') ss"
      "\<forall>s \<in> set ss. assembled leaf_texts s" using 8(2) c by (metis prod.collapse)
  then show ?case using 8(1) c by (intro exI [of _ "fst f # ss"]) (simp add: case_prod_beta)
qed (auto simp: leaf_texts_def like_contains_def intro: assembled.leaf)

text \<open>
  The user's words never become SQL: every text the compiler can produce, over all queries, flags and
  number parsers, is put together with \<open>NOT\<close>, \<open>AND\<close>, \<open>OR\<close> and parentheses from one fixed finite set of texts.
\<close>

theorem compiled_texts_finite:
  "finite leaf_texts \<and> (\<forall>rt flags ast. assembled leaf_texts (cq_where (compile rt flags ast)))"
proof
  show "finite leaf_texts" by (simp add: leaf_texts_def finite_comparison_texts)
  have one: "assembled leaf_texts ''1=1''" by (rule assembled.leaf) (simp add: leaf_texts_def)
  show "\<forall>rt flags ast. assembled leaf_texts (cq_where (compile rt flags ast))"
    using compile_node_assembled(1) one
    by (simp add: compile_def compiled_of_def case_prod_beta split: option.split)
qed

section \<open>Modifiers and modes\<close>

fun clauses :: "Ast \<Rightarrow> Ast list" where
  "clauses (And cs) = concat (map clauses cs)"
| "clauses a = [a]"

fun leaves :: "Ast \<Rightarrow> Ast list" where
  "leaves (And cs) = concat (map leaves cs)"
| "leaves (Or cs) = concat (map leaves cs)"
| "leaves (Not_ast a) = leaves a"
| "leaves a = [a]"

fun modifies :: "string \<Rightarrow> Ast \<Rightarrow> bool" where
  "modifies m (Comparison k opr v) = (k = m)"
| "modifies m a = False"

definition last_value :: "string \<Rightarrow> Ast list \<Rightarrow> string option" where
  "last_value m cs = (case filter (modifies m) cs of [] \<Rightarrow> None | ms \<Rightarrow> Some (ast_value (last ms)))"

lemma coalesce_None: "coalesce x None = x"
  by (cases x) simp_all

lemma last_value_append: "last_value m (xs @ ys) = coalesce (last_value m ys) (last_value m xs)"
  by (auto simp: last_value_def split: list.split)

lemma last_value_Nil [simp]: "last_value m [] = None"
  by (simp add: last_value_def)

definition kept_clauses :: "Ast list \<Rightarrow> Ast list" where
  "kept_clauses = filter (\<lambda>a. \<not> modifies ''order'' a \<and> \<not> modifies ''direction'' a)"

definition dir_of :: "string \<Rightarrow> Dir" where
  "dir_of v = (if eq_ignore_ascii_case v ''desc'' then Desc else Asc)"

definition modified :: "Ast list \<Rightarrow> Ctx \<Rightarrow> Ctx" where
  "modified cs ctx = ctx\<lparr>cx_order_by := coalesce (map_option to_ascii_lowercase (last_value ''order'' cs)) (cx_order_by ctx),
     cx_order_dir := (case last_value ''direction'' cs of Some v \<Rightarrow> dir_of v | None \<Rightarrow> cx_order_dir ctx)\<rparr>"

lemma modified_append: "modified (xs @ ys) ctx = modified ys (modified xs ctx)"
  by (cases "last_value ''order'' ys"; cases "last_value ''direction'' ys") (simp_all add: modified_def last_value_append)

lemma modified_Nil [simp]: "modified [] ctx = ctx"
  by (simp add: modified_def)

lemma extract_spec:
  "\<exists>r. extract_modifiers a ctx = (r, modified (clauses a) ctx) \<and>
     (case r of None \<Rightarrow> [] | Some k \<Rightarrow> clauses k) = kept_clauses (clauses a)"
  "\<exists>ks. extract_children cs ctx = (ks, modified (concat (map clauses cs)) ctx) \<and>
     concat (map clauses ks) = kept_clauses (concat (map clauses cs))"
proof (induction a ctx and cs ctx rule: extract_modifiers_extract_children.induct)
  case (1 keyword opr v ctx)
  show ?case by (simp add: kept_clauses_def modified_def last_value_def dir_of_def)
next
  case (2 children ctx)
  then obtain ks where ks: "extract_children children ctx = (ks, modified (concat (map clauses children)) ctx)"
      "concat (map clauses ks) = kept_clauses (concat (map clauses children))" by blast
  then show ?case by (auto simp: kept_clauses_def split: list.split)
next
  case (5 c cs ctx)
  obtain r where r: "extract_modifiers c ctx = (r, modified (clauses c) ctx)"
      "(case r of None \<Rightarrow> [] | Some k \<Rightarrow> clauses k) = kept_clauses (clauses c)" using 5(1) by blast
  obtain ks where ks: "extract_children cs (modified (clauses c) ctx) =
        (ks, modified (concat (map clauses cs)) (modified (clauses c) ctx))"
      "concat (map clauses ks) = kept_clauses (concat (map clauses cs))" using 5(2) r(1) by metis
  have kept: "kept_clauses (xs @ ys) = kept_clauses xs @ kept_clauses ys" for xs ys by (simp add: kept_clauses_def)
  show ?case using ks r by (cases r) (simp_all add: modified_append kept)
qed (simp_all add: kept_clauses_def modified_def last_value_def)

definition widens :: "SearchFlag list \<Rightarrow> Ast \<Rightarrow> bool" where
  "widens flags a \<longleftrightarrow> modifies ''is_flag'' a \<and>
     (case List.find (\<lambda>f. sf_flag f = to_ascii_lowercase (ast_value a)) flags of
        Some f \<Rightarrow> sf_kind f = ''computed'' \<and> sf_predicate f \<in> {Some ''owned'', Some ''missing''}
      | None \<Rightarrow> False)"

definition seen :: "SearchFlag list \<Rightarrow> Ast list \<Rightarrow> Ctx \<Rightarrow> Ctx" where
  "seen flags ls ctx = ctx\<lparr>cx_has_status := cx_has_status ctx \<or> list_ex (modifies ''status'') ls,
     cx_catalog_wide := cx_catalog_wide ctx \<or> list_ex (widens flags) ls\<rparr>"

lemma seen_append: "seen flags (xs @ ys) ctx = seen flags ys (seen flags xs ctx)"
  by (simp add: seen_def disj_assoc)

lemma comparison_ctx: "snd (compile_comparison rt flags keyword opr v ctx) = seen flags [Comparison keyword opr v] ctx"
proof -
  have "catalog_comparison rt ''status'' opr v = None" "copy_comparison rt ''status'' opr v \<noteq> None"
    by (simp_all add: catalog_comparison_def copy_comparison_def)
  then show ?thesis
    by (auto simp: compile_comparison_def seen_def widens_def is_flag_def Let_def split: option.split)
qed

lemma compile_node_ctx:
  "snd (compile_node rt flags a ctx) = seen flags (leaves a) ctx"
  "snd (compile_children rt flags cs ctx) = seen flags (concat (map leaves cs)) ctx"
proof (induction rt flags a ctx and rt flags cs ctx rule: compile_node_compile_children.induct)
  case (8 rt flags c cs ctx)
  obtain f ctx' where c: "compile_node rt flags c ctx = (f, ctx')" by (cases "compile_node rt flags c ctx")
  then have "snd (compile_children rt flags cs ctx') = seen flags (concat (map leaves cs)) ctx'" using 8(2) by metis
  then show ?case using 8(1) c by (simp add: case_prod_beta seen_append)
qed (simp_all add: case_prod_beta comparison_ctx seen_def widens_def)

lemma leaves_of_clauses: "concat (map leaves (clauses a)) = leaves a"
proof (induction a rule: clauses.induct)
  case (1 cs)
  then show ?case by (induction cs) simp_all
qed simp_all

lemma kept_leaves:
  assumes "\<And>a. P a \<Longrightarrow> \<not> modifies ''order'' a \<and> \<not> modifies ''direction'' a"
  shows "list_ex P (concat (map leaves (kept_clauses cs))) = list_ex P (concat (map leaves cs))"
proof (induction cs)
  case (Cons a cs)
  have "leaves a = [a]" if "modifies ''order'' a \<or> modifies ''direction'' a" using that by (cases a) auto
  then show ?case using Cons assms by (auto simp: kept_clauses_def)
qed (simp add: kept_clauses_def)

text \<open>
  What drives a search besides its clauses: the order and the direction are the last ones given among
  the conjoined clauses, wherever in the text they stand; the search is catalog-wide exactly if an
  \<open>is:\<close> flag for owned or missing printings occurs anywhere in it, and keeps the default restriction to
  owned or ordered copies exactly if, moreover, no status is asked for anywhere.
\<close>

theorem compile_decides_mode:
  "cq_order_by (compile rt flags ast) = map_option to_ascii_lowercase (last_value ''order'' (clauses ast)) \<and>
   cq_order_dir (compile rt flags ast) = (case last_value ''direction'' (clauses ast) of Some v \<Rightarrow> dir_of v | None \<Rightarrow> Asc) \<and>
   cq_catalog_wide (compile rt flags ast) = list_ex (widens flags) (leaves ast) \<and>
   (where_clause (compile rt flags ast) = cq_where (compile rt flags ast) \<longleftrightarrow>
      list_ex (widens flags) (leaves ast) \<or> list_ex (modifies ''status'') (leaves ast))"
proof -
  obtain r where r: "extract_modifiers ast ctx_default = (r, modified (clauses ast) ctx_default)"
      "(case r of None \<Rightarrow> [] | Some k \<Rightarrow> clauses k) = kept_clauses (clauses ast)"
    using extract_spec(1) [of ast ctx_default] by blast
  define ctx where "ctx = seen flags (concat (map leaves (kept_clauses (clauses ast)))) (modified (clauses ast) ctx_default)"
  have "\<exists>f. compile rt flags ast = compiled_of f ctx"
  proof (cases r)
    case None
    then show ?thesis using r by (simp add: compile_def ctx_def seen_def) blast
  next
    case (Some k)
    then have "leaves k = concat (map leaves (kept_clauses (clauses ast)))" using r(2) leaves_of_clauses [of k] by simp
    then have "snd (compile_node rt flags k (modified (clauses ast) ctx_default)) = ctx"
      by (simp add: compile_node_ctx ctx_def)
    then show ?thesis using r(1) Some
      by (intro exI [of _ "fst (compile_node rt flags k (modified (clauses ast) ctx_default))"])
        (simp add: compile_def case_prod_beta)
  qed
  then obtain f where c: "compile rt flags ast = compiled_of f ctx" by blast
  have "modifies m a \<Longrightarrow> m \<noteq> m' \<Longrightarrow> \<not> modifies m' a" for m m' a by (cases a) auto
  then have k: "list_ex P (concat (map leaves (kept_clauses (clauses ast)))) = list_ex P (leaves ast)"
    if "P = modifies ''status'' \<or> P = widens flags" for P
    using that by (subst kept_leaves) (auto simp: leaves_of_clauses widens_def)
  have ctx: "cx_order_by ctx = map_option to_ascii_lowercase (last_value ''order'' (clauses ast))"
    "cx_order_dir ctx = (case last_value ''direction'' (clauses ast) of Some v \<Rightarrow> dir_of v | None \<Rightarrow> Asc)"
    "cx_catalog_wide ctx = list_ex (widens flags) (leaves ast)" "cx_has_status ctx = list_ex (modifies ''status'') (leaves ast)"
    using k [of "modifies ''status''"] k [of "widens flags"]
    by (simp_all add: ctx_def seen_def modified_def ctx_default_def coalesce_None split: option.split)
  have "length (where_clause d) > length (cq_where d)" if "\<not> (cq_catalog_wide d \<or> cq_has_status d)" for d
    using that by (simp add: where_clause_def)
  then have "where_clause (compiled_of f ctx) = cq_where (compiled_of f ctx) \<longleftrightarrow> cx_catalog_wide ctx \<or> cx_has_status ctx"
    by (metis (no_types, lifting) CompiledSearch.select_convs(3,4) compiled_of_def less_irrefl where_clause_def)
  then show ?thesis unfolding c using ctx by (simp add: compiled_of_def)
qed

end
