(* ===== verification/Sample_Codec.thy ===== *)
theory Sample_Codec
  imports Prelude
begin

text \<open>
  A way to write values as text and read them back, from which the witnesses build the serialisers they
  instantiate \<open>serde_json\<close> with. A number is written in unary and a string with every character escaped, so
  that what follows a value can be told from it; each reader returns the value and the rest of the text.
\<close>

definition put_nat :: "nat \<Rightarrow> string" where
  "put_nat n = replicate n (CHR ''1'') @ ''.''"

fun get_nat :: "string \<Rightarrow> (nat \<times> string) option" where
  "get_nat [] = None"
| "get_nat (c # s) = (if c = CHR ''1'' then map_option (\<lambda>(n, r). (Suc n, r)) (get_nat s) else Some (0, s))"

lemma get_put_nat [simp]: "get_nat (put_nat n @ r) = Some (n, r)"
  by (induction n) (simp_all add: put_nat_def)

definition put_int :: "int \<Rightarrow> string" where
  "put_int i = (if i < 0 then CHR ''-'' # put_nat (nat (- i)) else CHR ''+'' # put_nat (nat i))"

fun get_int :: "string \<Rightarrow> (int \<times> string) option" where
  "get_int [] = None"
| "get_int (c # s) = map_option (\<lambda>(n, r). (if c = CHR ''-'' then - int n else int n, r)) (get_nat s)"

lemma get_put_int [simp]: "get_int (put_int i @ r) = Some (i, r)"
  by (simp add: put_int_def)

definition put_word :: "64 word \<Rightarrow> string" where
  "put_word w = put_nat (unat w)"

definition get_word :: "string \<Rightarrow> (64 word \<times> string) option" where
  "get_word s = map_option (\<lambda>(n, r). (of_nat n, r)) (get_nat s)"

lemma get_put_word [simp]: "get_word (put_word w @ r) = Some (w, r)"
  by (simp add: put_word_def get_word_def)

definition put_text :: "string \<Rightarrow> string" where
  "put_text s = concat (map (\<lambda>c. [CHR ''/'', c]) s) @ ''.''"

fun get_text :: "string \<Rightarrow> (string \<times> string) option" where
  "get_text [] = None"
| "get_text [c] = Some ([], [])"
| "get_text (c # d # s) = (if c = CHR ''/'' then map_option (\<lambda>(t, r). (d # t, r)) (get_text s) else Some ([], d # s))"

lemma get_put_text [simp]: "get_text (put_text s @ r) = Some (s, r)"
proof (induction s)
  case Nil
  then show ?case by (cases r) (simp_all add: put_text_def)
qed (simp add: put_text_def)

text \<open>As many values as announced.\<close>

fun get_many :: "(string \<Rightarrow> ('a \<times> string) option) \<Rightarrow> nat \<Rightarrow> string \<Rightarrow> ('a list \<times> string) option" where
  "get_many g 0 s = Some ([], s)"
| "get_many g (Suc n) s = (case g s of None \<Rightarrow> None | Some (x, s) \<Rightarrow> map_option (\<lambda>(xs, r). (x # xs, r)) (get_many g n s))"

definition put_list :: "('a \<Rightarrow> string) \<Rightarrow> 'a list \<Rightarrow> string" where
  "put_list p xs = put_nat (length xs) @ concat (map p xs)"

lemma put_list_cong [fundef_cong]:
  "xs = ys \<Longrightarrow> (\<And>x. x \<in> set ys \<Longrightarrow> p x = q x) \<Longrightarrow> put_list p xs = put_list q ys"
  by (simp add: put_list_def cong: map_cong)

definition get_list :: "(string \<Rightarrow> ('a \<times> string) option) \<Rightarrow> string \<Rightarrow> ('a list \<times> string) option" where
  "get_list g s = (case get_nat s of None \<Rightarrow> None | Some (n, s) \<Rightarrow> get_many g n s)"

lemma get_put_list:
  assumes "\<And>x r. x \<in> set xs \<Longrightarrow> g (p x @ r) = Some (f x, r)"
  shows "get_list g (put_list p xs @ r) = Some (map f xs, r)"
proof -
  have "get_many g (length xs) (concat (map p xs) @ r) = Some (map f xs, r)"
    using assms by (induction xs) simp_all
  then show ?thesis by (simp add: get_list_def put_list_def)
qed

definition put_option :: "('a \<Rightarrow> string) \<Rightarrow> 'a option \<Rightarrow> string" where
  "put_option p x = (case x of None \<Rightarrow> ''n'' | Some v \<Rightarrow> CHR ''s'' # p v)"

fun get_option :: "(string \<Rightarrow> ('a \<times> string) option) \<Rightarrow> string \<Rightarrow> ('a option \<times> string) option" where
  "get_option g [] = None"
| "get_option g (c # s) = (if c = CHR ''n'' then Some (None, s) else map_option (\<lambda>(v, r). (Some v, r)) (g s))"

lemma get_put_option:
  assumes "\<And>v r. x = Some v \<Longrightarrow> g (p v @ r) = Some (v, r)"
  shows "get_option g (put_option p x @ r) = Some (x, r)"
  using assms by (cases x) (simp_all add: put_option_def)

text \<open>A reader of decimal fractions that is off in the last bit for one of them.\<close>

definition last_bit_off :: "64 word \<Rightarrow> 64 word" where
  "last_bit_off x = (if x = 0x3FB999999999999B then 0x3FB999999999999A else x)"

end
