(* ===== verification/Search_Paging.thy ===== *)
theory Search_Paging
  imports Search_Compile Sample_Codec
begin

text \<open>
  Running a compiled search: ordering, the keyset walk with its cursors, pages and totals, and the copies
  under each row; the second half of \<open>pkdump-db/src/search.rs\<close>. SQLite's evaluation of the assembled
  expressions on a joined row is a parameter; the order of its values is computed.
\<close>

section \<open>The order of SQLite's values\<close>

text \<open>A finite or infinite \<open>f64\<close> times \<open>2 ^ 1074\<close>, an integer (for the infinities, one beyond all others).\<close>

definition f64_scaled :: "f64 \<Rightarrow> int" where
  "f64_scaled x =
     (let u = uint x mod 2 ^ 63; e = u div 2 ^ 52; m = u mod 2 ^ 52;
          mag = (if e = 0 then m else (2 ^ 52 + m) * 2 ^ nat (e - 1)) in
      if uint x < 2 ^ 63 then mag else - mag)"

fun value_key :: "SqlValue \<Rightarrow> nat \<times> int \<times> string" where
  "value_key VNull = (0, 0, [])"
| "value_key (VInteger i) = (1, i * 2 ^ 1074, [])"
| "value_key (VReal f) = (1, f64_scaled f, [])"
| "value_key (VText t) = (2, 0, t)"
| "value_key (VBlob b) = (3, 0, b)"

fun dir_lt :: "Dir \<Rightarrow> 'k :: linorder \<Rightarrow> 'k \<Rightarrow> bool" where
  "dir_lt Asc a b = (a < b)"
| "dir_lt Desc a b = (b < a)"

fun lex_lt :: "Dir list \<Rightarrow> 'k :: linorder list \<Rightarrow> 'k list \<Rightarrow> bool" where
  "lex_lt (d # ds) (a # as) (b # bs) = (dir_lt d a b \<or> (a = b \<and> lex_lt ds as bs))"
| "lex_lt ds as bs = False"

section \<open>The seek predicate\<close>

datatype seek_term =
    IsNull string
  | Equals string SqlValue
  | NotNull string
  | Never
  | Above string SqlValue
  | BelowOrNull string SqlValue

fun render_term :: "seek_term \<Rightarrow> frag" where
  "render_term (IsNull e) = (e @ '' IS NULL'', [])"
| "render_term (Equals e v) = (e @ '' = ?'', [v])"
| "render_term (NotNull e) = (e @ '' IS NOT NULL'', [])"
| "render_term Never = (''0'', [])"
| "render_term (Above e v) = (e @ '' > ?'', [v])"
| "render_term (BelowOrNull e v) = (''('' @ e @ '' < ? OR '' @ e @ '' IS NULL)'', [v])"

definition prefix_term :: "string \<times> Dir \<Rightarrow> SqlValue \<Rightarrow> seek_term" where
  "prefix_term k v = (if v = VNull then IsNull (fst k) else Equals (fst k) v)"

definition strict_term :: "string \<times> Dir \<Rightarrow> SqlValue \<Rightarrow> seek_term" where
  "strict_term k v =
     (case (v, snd k) of
        (VNull, Asc) \<Rightarrow> NotNull (fst k)
      | (VNull, Desc) \<Rightarrow> Never
      | (_, Asc) \<Rightarrow> Above (fst k) v
      | (_, Desc) \<Rightarrow> BelowOrNull (fst k) v)"

definition seek_alternatives :: "(string \<times> Dir) list \<Rightarrow> SqlValue list \<Rightarrow> seek_term list list" where
  "seek_alternatives keys after_values =
     map (\<lambda>i. map (\<lambda>j. prefix_term (keys ! j) (after_values ! j)) [0..<i] @ [strict_term (keys ! i) (after_values ! i)])
       [0..<length keys]"

definition leading_bound :: "(string \<times> Dir) list \<Rightarrow> SqlValue list \<Rightarrow> bool" where
  "leading_bound keys after_values \<longleftrightarrow> after_values ! 0 \<noteq> VNull \<and> snd (keys ! 0) = Asc"

definition seek_predicate :: "(string \<times> Dir) list \<Rightarrow> SqlValue list \<Rightarrow> frag" where
  "seek_predicate keys after_values =
     (let alts = seek_alternatives keys after_values;
          chain = ''('' @ join '' OR '' (map (\<lambda>ts. ''('' @ join '' AND '' (map (fst \<circ> render_term) ts) @ '')'') alts) @ '')'';
          params = concat (map (\<lambda>ts. concat (map (snd \<circ> render_term) ts)) alts) in
      if leading_bound keys after_values
      then (fst (keys ! 0) @ '' >= ? AND '' @ chain, after_values ! 0 # params)
      else (chain, params))"

text \<open>
  What the terms mean to SQLite: a comparison with NULL is not true, values compare by
  \<open>value_key\<close>.
\<close>

fun term_holds :: "(string \<Rightarrow> SqlValue) \<Rightarrow> seek_term \<Rightarrow> bool" where
  "term_holds val (IsNull e) = (val e = VNull)"
| "term_holds val (Equals e v) = (val e \<noteq> VNull \<and> v \<noteq> VNull \<and> value_key (val e) = value_key v)"
| "term_holds val (NotNull e) = (val e \<noteq> VNull)"
| "term_holds val Never = False"
| "term_holds val (Above e v) = (val e \<noteq> VNull \<and> v \<noteq> VNull \<and> value_key v < value_key (val e))"
| "term_holds val (BelowOrNull e v) =
     ((val e \<noteq> VNull \<and> v \<noteq> VNull \<and> value_key (val e) < value_key v) \<or> val e = VNull)"

definition seek_holds :: "(string \<times> Dir) list \<Rightarrow> SqlValue list \<Rightarrow> (string \<Rightarrow> SqlValue) \<Rightarrow> bool" where
  "seek_holds keys after_values val \<longleftrightarrow>
     (leading_bound keys after_values \<longrightarrow>
        val (fst (keys ! 0)) \<noteq> VNull \<and> value_key (after_values ! 0) \<le> value_key (val (fst (keys ! 0)))) \<and>
     list_ex (list_all (term_holds val)) (seek_alternatives keys after_values)"

section \<open>The row query\<close>

datatype Bound = Unbounded | Offset nat | Keyset "SqlValue list option"

definition build_sql :: "CompiledSearch \<Rightarrow> Bound \<Rightarrow> nat \<Rightarrow> frag" where
  "build_sql c bd limit =
     (let keys = order_keys c;
          (where_text, extra) = (case bd of
             Keyset (Some after_values) \<Rightarrow>
               (let (pred, params) = seek_predicate keys after_values in
                (''('' @ where_clause c @ '') AND '' @ pred, params))
           | _ \<Rightarrow> (where_clause c, []));
          (paging, extra) = (case bd of
             Unbounded \<Rightarrow> ([], extra)
           | Offset n \<Rightarrow> ('' LIMIT ? OFFSET ?'', extra @ [VInteger (int limit), VInteger (int n)])
           | Keyset _ \<Rightarrow> ('' LIMIT ?'', extra @ [VInteger (int limit)]));
          order_clause = join '', '' (map (\<lambda>(expr, dir). expr @ '' '' @ dir_sql dir) keys);
          key_cols = (case bd of
             Keyset _ \<Rightarrow> concat (map (\<lambda>(i, (expr, _)). '', '' @ expr @ '' AS _k'' @ show_nat i) (enumerate 0 keys))
           | _ \<Rightarrow> []) in
      (''SELECT p.printing_id, cd.card_id, cd.set_code, s.name AS set_name, s.ptcgo_code, '' @
       ''s.symbol_url, cd.number, cd.name, cd.rarity, cd.supertype, cd.subtypes, cd.types, '' @ ATTACK_COSTS_EXPR @
       '' AS attack_costs, '' @ MARKET_PRICE_EXPR @ '' AS market_price, cd.image_small, p.variant, ('' @
       OWNED_COUNT_SUBQ @ '') AS owned_count'' @ key_cols @ '' '' @ FROM_CLAUSE @ '' WHERE '' @ where_text @
       '' ORDER BY '' @ order_clause @ paging, extra))"

record CopySummary =
  cs_id :: int
  cs_condition :: string
  cs_language :: string
  cs_status :: string
  cs_graded :: bool
  cs_purchase_price :: "f64 option"
  cs_acquired_at :: string
  cs_binder :: "int option"
  cs_deck :: "int option"

record SearchRow =
  sw_printing :: string
  sw_card :: string
  sw_set_code :: string
  sw_set_name :: string
  sw_set_ptcgo :: "string option"
  sw_set_symbol_url :: "string option"
  sw_number :: string
  sw_name :: string
  sw_rarity :: "string option"
  sw_supertype :: "string option"
  sw_subtypes :: "string option"
  sw_types :: "string option"
  sw_attack_costs :: "string option"
  sw_market_price :: "f64 option"
  sw_image_small :: "string option"
  sw_variant :: string
  sw_owned :: bool
  sw_owned_count :: int
  sw_copies :: "CopySummary list"

text \<open>A row of \<open>FROM_CLAUSE\<close>, and what SQLite makes of expressions over it.\<close>

record JoinedRow =
  jr_key :: PriceKey
  jr_variant :: string
  jr_card :: CardRow
  jr_set :: SetRow

definition joined_rows :: "catalog \<Rightarrow> tdb \<Rightarrow> JoinedRow list" where
  "joined_rows cat db =
     concat (map (\<lambda>(k, variant, card_id).
         concat (map (\<lambda>cd. map (\<lambda>s. \<lparr>jr_key = k, jr_variant = variant, jr_card = cd, jr_set = s\<rparr>)
             (filter (\<lambda>s. st_code s = cd_set cd) (cat_sets cat)))
           (filter (\<lambda>cd. cd_id cd = card_id) (cat_cards cat))))
       (map (\<lambda>p. (\<lparr>pk_printing = pg_id p, pk_product = pg_product p, pk_sub_type = pg_sub_type p\<rparr>, pg_variant p, pg_card p))
          (cat_printings cat) @
        map (\<lambda>u. (\<lparr>pk_printing = up_id u, pk_product = None, pk_sub_type = None\<rparr>, up_variant u, up_card u))
          (db_user_printings db)))"

record engine =
  en_true :: "string \<Rightarrow> SqlValue list \<Rightarrow> JoinedRow \<Rightarrow> bool"
  en_value :: "string \<Rightarrow> JoinedRow \<Rightarrow> SqlValue"
  en_sum :: "SqlValue list \<Rightarrow> f64 option"   \<comment> \<open>\<open>SUM\<close>, NULL over no value\<close>
  en_debug :: "SqlValue list \<Rightarrow> string"     \<comment> \<open>the \<open>Debug\<close> text of the parameters\<close>
  en_sha256 :: "string \<Rightarrow> string"           \<comment> \<open>the digest in lower-case hexadecimal\<close>

definition copies_of :: "tdb \<Rightarrow> string \<Rightarrow> CollectionEntry list" where
  "copies_of db printing = filter (\<lambda>c. ce_printing c = printing) (tbl_rows (db_collection db))"

definition text_of :: "SqlValue \<Rightarrow> string option" where
  "text_of v = (case v of VText t \<Rightarrow> Some t | _ \<Rightarrow> None)"

definition row_from :: "engine \<Rightarrow> catalog \<Rightarrow> tdb \<Rightarrow> JoinedRow \<Rightarrow> SearchRow" where
  "row_from en cat db r =
     (let cd = jr_card r; s = jr_set r; owned_count = int (length (copies_of db (pk_printing (jr_key r)))) in
      \<lparr>sw_printing = pk_printing (jr_key r), sw_card = cd_id cd, sw_set_code = cd_set cd, sw_set_name = st_name s,
       sw_set_ptcgo = st_ptcgo s, sw_set_symbol_url = st_symbol_url s, sw_number = cd_number cd, sw_name = cd_name cd,
       sw_rarity = cd_rarity cd, sw_supertype = cd_supertype cd, sw_subtypes = cd_subtypes cd, sw_types = cd_types cd,
       sw_attack_costs = text_of (en_value en ATTACK_COSTS_EXPR r), sw_market_price = market_price cat db (jr_key r),
       sw_image_small = cd_image_small cd, sw_variant = jr_variant r, sw_owned = 0 < owned_count,
       sw_owned_count = owned_count, sw_copies = []\<rparr>)"

section \<open>Copies under the rows\<close>

definition CHUNK :: nat where
  "CHUNK = 900"

function chunks :: "nat \<Rightarrow> 'a list \<Rightarrow> 'a list list" where
  "chunks n xs = (if xs = [] \<or> n = 0 then [] else take n xs # chunks n (drop n xs))"
  by pat_completeness auto

termination
  by (relation "measure (length \<circ> snd)") auto

declare chunks.simps [simp del]

definition copy_summary :: "CollectionEntry \<Rightarrow> CopySummary" where
  "copy_summary c =
     \<lparr>cs_id = ce_id c, cs_condition = ce_condition c, cs_language = ce_language c, cs_status = ce_status c,
      cs_graded = ce_graded c, cs_purchase_price = ce_purchase_price c, cs_acquired_at = ce_acquired_at c,
      cs_binder = ce_binder c, cs_deck = ce_deck c\<rparr>"

definition push_copy :: "CollectionEntry \<Rightarrow> (string \<rightharpoonup> CopySummary list) \<Rightarrow> (string \<rightharpoonup> CopySummary list)" where
  "push_copy c m =
     m(ce_printing c \<mapsto> (case m (ce_printing c) of Some cs \<Rightarrow> cs | None \<Rightarrow> []) @ [copy_summary c])"

definition collect_chunk :: "tdb \<Rightarrow> string list \<Rightarrow> (string \<rightharpoonup> CopySummary list) \<Rightarrow> (string \<rightharpoonup> CopySummary list)" where
  "collect_chunk db ids m =
     fold push_copy (sort_key ce_id (filter (\<lambda>c. ce_printing c \<in> set ids) (tbl_rows (db_collection db)))) m"

fun place_copies :: "SearchRow list \<Rightarrow> (string \<rightharpoonup> CopySummary list) \<Rightarrow> SearchRow list" where
  "place_copies [] m = []"
| "place_copies (r # rs) m =
     (case m (sw_printing r) of
        Some cs \<Rightarrow> r\<lparr>sw_copies := cs\<rparr> # place_copies rs (m(sw_printing r := None))
      | None \<Rightarrow> r # place_copies rs m)"

definition attach_copies :: "tdb \<Rightarrow> SearchRow list \<Rightarrow> SearchRow list" where
  "attach_copies db rows =
     place_copies rows (fold (collect_chunk db) (chunks CHUNK (map sw_printing rows)) Map.empty)"

section \<open>Running\<close>

definition row_keys :: "engine \<Rightarrow> CompiledSearch \<Rightarrow> JoinedRow \<Rightarrow> SqlValue list" where
  "row_keys en c r = map (\<lambda>(expr, _). en_value en expr r) (order_keys c)"

definition key_dirs :: "CompiledSearch \<Rightarrow> Dir list" where
  "key_dirs c = map snd (order_keys c)"

text \<open>\<open>ORDER BY\<close> over strictly ordered keys.\<close>

fun insert_row :: "('r \<Rightarrow> 'r \<Rightarrow> bool) \<Rightarrow> 'r \<Rightarrow> 'r list \<Rightarrow> 'r list" where
  "insert_row lt r [] = [r]"
| "insert_row lt r (s # ss) = (if lt s r then s # insert_row lt r ss else r # s # ss)"

definition order_rows :: "('r \<Rightarrow> 'r \<Rightarrow> bool) \<Rightarrow> 'r list \<Rightarrow> 'r list" where
  "order_rows lt rs = foldr (insert_row lt) rs []"

definition row_lt :: "engine \<Rightarrow> CompiledSearch \<Rightarrow> JoinedRow \<Rightarrow> JoinedRow \<Rightarrow> bool" where
  "row_lt en c r s = lex_lt (key_dirs c) (map value_key (row_keys en c r)) (map value_key (row_keys en c s))"

definition matching :: "engine \<Rightarrow> catalog \<Rightarrow> tdb \<Rightarrow> CompiledSearch \<Rightarrow> JoinedRow list" where
  "matching en cat db c = filter (en_true en (where_clause c) (cq_params c)) (joined_rows cat db)"

text \<open>The statement of \<open>build_sql\<close>, executed.\<close>

definition run_query :: "engine \<Rightarrow> catalog \<Rightarrow> tdb \<Rightarrow> CompiledSearch \<Rightarrow> Bound \<Rightarrow> nat \<Rightarrow> JoinedRow list" where
  "run_query en cat db c bd limit =
     (case bd of
        Unbounded \<Rightarrow> order_rows (row_lt en c) (matching en cat db c)
      | Offset n \<Rightarrow> take limit (drop n (order_rows (row_lt en c) (matching en cat db c)))
      | Keyset None \<Rightarrow> take limit (order_rows (row_lt en c) (matching en cat db c))
      | Keyset (Some after_values) \<Rightarrow>
          take limit (order_rows (row_lt en c)
            (filter (\<lambda>r. seek_holds (order_keys c) after_values (\<lambda>e. en_value en e r)) (matching en cat db c))))"

definition run_keyed ::
  "engine \<Rightarrow> catalog \<Rightarrow> tdb \<Rightarrow> CompiledSearch \<Rightarrow> Bound \<Rightarrow> nat \<Rightarrow> (SearchRow \<times> SqlValue list) list" where
  "run_keyed en cat db c bd limit =
     (let found = run_query en cat db c bd limit;
          rows = map (row_from en cat db) found;
          keys = map (\<lambda>r. case bd of Keyset _ \<Rightarrow> row_keys en c r | _ \<Rightarrow> []) found in
      zip (if rows = [] then rows else attach_copies db rows) keys)"

definition run :: "engine \<Rightarrow> catalog \<Rightarrow> tdb \<Rightarrow> CompiledSearch \<Rightarrow> (nat \<times> nat) option \<Rightarrow> SearchRow list" where
  "run en cat db c page =
     (case page of
        Some (limit, offset) \<Rightarrow> map fst (run_keyed en cat db c (Offset offset) limit)
      | None \<Rightarrow> map fst (run_keyed en cat db c Unbounded 0))"

definition search :: "engine \<Rightarrow> catalog \<Rightarrow> tdb \<Rightarrow> CompiledSearch \<Rightarrow> SearchRow list" where
  "search en cat db c = run en cat db c None"

definition totals :: "engine \<Rightarrow> catalog \<Rightarrow> tdb \<Rightarrow> CompiledSearch \<Rightarrow> int \<times> f64 option" where
  "totals en cat db c =
     (int (length (matching en cat db c)),
      en_sum en (filter (\<lambda>v. v \<noteq> VNull) (map (en_value en OWNED_VALUE_SUBQ) (matching en cat db c))))"

section \<open>Pages\<close>

record SearchPage =
  pa_rows :: "SearchRow list"
  pa_total :: int
  pa_total_value :: "f64 option"
  pa_limit :: nat
  pa_offset :: nat
  pa_next_cursor :: "string option"

datatype Slice = Page nat nat | All

definition search_page :: "engine \<Rightarrow> catalog \<Rightarrow> tdb \<Rightarrow> CompiledSearch \<Rightarrow> Slice \<Rightarrow> SearchPage" where
  "search_page en cat db c sl =
     (let rows = run en cat db c (case sl of Page limit offset \<Rightarrow> Some (limit, offset) | All \<Rightarrow> None);
          (limit, offset) = (case sl of
             Page limit offset \<Rightarrow> (limit, offset)
           | All \<Rightarrow> (if length rows < 2 ^ 32 then length rows else 2 ^ 32 - 1, 0)) in
      \<lparr>pa_rows = rows, pa_total = fst (totals en cat db c), pa_total_value = snd (totals en cat db c),
       pa_limit = limit, pa_offset = offset, pa_next_cursor = None\<rparr>)"

section \<open>Cursors\<close>

datatype Json = JNull | JInt int | JFloat f64 | JString string | JOther

record Cursor =
  cu_fp :: string
  cu_keys :: "Json list"
  cu_total :: int
  cu_total_value :: "f64 option"

text \<open>\<open>serde_json\<close> on cursors.\<close>

record cursor_codec =
  cc_to_vec :: "Cursor \<Rightarrow> string"
  cc_from_slice :: "string \<Rightarrow> Cursor option"

definition hex_digit :: "nat \<Rightarrow> char" where
  "hex_digit n = (if n < 10 then char_of (48 + n) else char_of (87 + n))"

definition hex_byte :: "char \<Rightarrow> string" where
  "hex_byte b = [hex_digit (of_char b div 16), hex_digit (of_char b mod 16)]"

definition hex_val :: "char \<Rightarrow> nat option" where
  "hex_val c =
     (let n = of_char c :: nat in
      if 48 \<le> n \<and> n \<le> 57 then Some (n - 48)
      else if 97 \<le> n \<and> n \<le> 102 then Some (n - 87)
      else if 65 \<le> n \<and> n \<le> 70 then Some (n - 55)
      else None)"

text \<open>\<open>u8::from_str_radix(.., 16)\<close> on two characters; a leading plus sign is accepted.\<close>

definition byte_of_hex :: "char \<Rightarrow> char \<Rightarrow> char option" where
  "byte_of_hex a b =
     (case hex_val b of
        None \<Rightarrow> None
      | Some l \<Rightarrow>
          if a = CHR ''+'' then Some (char_of l)
          else (case hex_val a of Some h \<Rightarrow> Some (char_of (16 * h + l)) | None \<Rightarrow> None))"

fun bytes_of_hex :: "string \<Rightarrow> string option" where
  "bytes_of_hex [] = Some []"
| "bytes_of_hex [a] = None"
| "bytes_of_hex (a # b # s) =
     (case byte_of_hex a b of
        Some c \<Rightarrow> map_option (Cons c) (bytes_of_hex s)
      | None \<Rightarrow> None)"

definition cursor_encode :: "cursor_codec \<Rightarrow> Cursor \<Rightarrow> string" where
  "cursor_encode cc cu = concat (map hex_byte (cc_to_vec cc cu))"

definition cursor_decode :: "cursor_codec \<Rightarrow> string \<Rightarrow> DbError + Cursor" where
  "cursor_decode cc token =
     (let bad = Inl (Invalid ''cursor is not valid'') in
      if odd (length token) \<or> \<not> list_all is_ascii token then bad
      else (case bytes_of_hex token of
              None \<Rightarrow> bad
            | Some bytes \<Rightarrow> (case cc_from_slice cc bytes of Some cu \<Rightarrow> Inr cu | None \<Rightarrow> bad)))"

definition fingerprint :: "engine \<Rightarrow> CompiledSearch \<Rightarrow> string" where
  "fingerprint en c =
     take 16 (en_sha256 en (where_clause c @ en_debug en (cq_params c) @
       concat (map (\<lambda>(expr, dir). ''|'' @ expr @ '' '' @ dir_sql dir) (order_keys c))))"

text \<open>\<open>Number::from_f64\<close> refuses what is not finite.\<close>

definition finite_f64 :: "f64 \<Rightarrow> bool" where
  "finite_f64 x \<longleftrightarrow> (uint x mod 2 ^ 63) div 2 ^ 52 \<noteq> 2047"

fun value_to_json :: "SqlValue \<Rightarrow> Json" where
  "value_to_json VNull = JNull"
| "value_to_json (VInteger i) = JInt i"
| "value_to_json (VReal f) = (if finite_f64 f then JFloat f else JNull)"
| "value_to_json (VText t) = JString t"
| "value_to_json (VBlob _) = JNull"

fun json_to_value :: "Json \<Rightarrow> SqlValue" where
  "json_to_value (JInt i) = VInteger i"
| "json_to_value (JFloat f) = VReal f"
| "json_to_value (JString s) = VText s"
| "json_to_value _ = VNull"

definition search_page_after ::
  "engine \<Rightarrow> cursor_codec \<Rightarrow> catalog \<Rightarrow> tdb \<Rightarrow> CompiledSearch \<Rightarrow> nat \<Rightarrow> string option \<Rightarrow> DbError + SearchPage" where
  "search_page_after en cc cat db c limit cursor =
     (let fp = fingerprint en c;
          start = (case cursor of
             Some token \<Rightarrow>
               (case cursor_decode cc token of
                  Inl e \<Rightarrow> Inl e
                | Inr cu \<Rightarrow>
                    if cu_fp cu \<noteq> fp then Inl (Invalid ''cursor was issued for a different query or sort'')
                    else if length (cu_keys cu) \<noteq> length (order_keys c) then Inl (Invalid ''cursor is malformed'')
                    else Inr (Some (map json_to_value (cu_keys cu)), cu_total cu, cu_total_value cu))
           | None \<Rightarrow> Inr (None, totals en cat db c)) in
      case start of
        Inl e \<Rightarrow> Inl e
      | Inr (after_values, tot, tot_value) \<Rightarrow>
          if limit = 0
          then Inr \<lparr>pa_rows = [], pa_total = tot, pa_total_value = tot_value, pa_limit = limit, pa_offset = 0,
                    pa_next_cursor = None\<rparr>
          else (let keyed = run_keyed en cat db c (Keyset after_values) (as_u32 (limit + 1));
                    more_rows = limit < length keyed;
                    kept = take limit keyed;
                    next = (if more_rows \<and> kept \<noteq> []
                      then Some (cursor_encode cc \<lparr>cu_fp = fp, cu_keys = map value_to_json (snd (last kept)),
                             cu_total = tot, cu_total_value = tot_value\<rparr>)
                      else None) in
                Inr \<lparr>pa_rows = map fst kept, pa_total = tot, pa_total_value = tot_value, pa_limit = limit,
                     pa_offset = 0, pa_next_cursor = next\<rparr>))"

section \<open>Placeholders of the whole statement\<close>

lemma order_key_texts: "k \<in> set (order_keys c) \<Longrightarrow> qmarks (fst k) = 0"
  by (auto simp: order_keys_def order_sql_def Let_def split: if_splits)

lemma qmarks_concat [simp]: "qmarks (concat ss) = sum_list (map qmarks ss)"
  by (induction ss) simp_all

lemma qmarks_show_nat [simp]: "qmarks (show_nat n) = 0"
proof -
  have "list_all is_digit (show_nat n)" by (simp add: show_nat_def nat_digits_digits)
  then show ?thesis by (auto simp: qmarks_def filter_empty_conv list_all_iff is_digit_def)
qed

lemma qmarks_terms:
  assumes "\<And>i. i < length keys \<Longrightarrow> qmarks (fst (keys ! i)) = 0" "ts \<in> set (seek_alternatives keys av)"
  shows "qmarks (join '' AND '' (map (fst \<circ> render_term) ts)) = length (concat (map (snd \<circ> render_term) ts))"
proof -
  have "qmarks (fst (render_term t)) = length (snd (render_term t))" if "t \<in> set ts" for t
    using assms that
    by (auto simp: seek_alternatives_def prefix_term_def strict_term_def split: SqlValue.splits Dir.splits)
  then show ?thesis by (simp add: qmarks_join length_concat comp_def cong: map_cong)
qed

lemma bound_seek: "bound (seek_predicate (order_keys c) av)"
proof -
  have texts: "qmarks (fst (order_keys c ! i)) = 0" if "i < length (order_keys c)" for i
    using that order_key_texts nth_mem by blast
  have "qmarks (fst (order_keys c ! 0)) = 0" by (rule texts) (simp add: order_keys_def)
  moreover note qmarks_terms [OF texts]
  ultimately show ?thesis
    by (simp add: bound_def seek_predicate_def Let_def qmarks_join length_concat comp_def cong: map_cong)
qed

text \<open>
  No value is ever spliced into a statement: for every query, flag registry, bound and limit the text that
  is executed has exactly as many placeholders as values are bound to it, question marks in the user's words
  included.
\<close>

theorem statement_placeholders:
  "qmarks (fst (build_sql (compile rt flags ast) bd limit)) =
     length (cq_params (compile rt flags ast) @ snd (build_sql (compile rt flags ast) bd limit))"
proof -
  let ?c = "compile rt flags ast"
  have cols: "sum_list (map (qmarks \<circ> (\<lambda>(i, expr, dir). '', '' @ expr @ '' AS _k'' @ show_nat i)) (enumerate 0 (order_keys ?c))) = 0"
  proof -
    have "qmarks (fst k) = 0" if "(i, k) \<in> set (enumerate 0 (order_keys ?c))" for i k
      using that by (intro order_key_texts [of k ?c]) (simp add: enumerate_eq_zip set_zip_rightD)
    then show ?thesis by (auto simp: sum_list_eq_0_iff)
  qed
  have order: "qmarks (join '', '' (map (\<lambda>(expr, dir). expr @ '' '' @ dir_sql dir) (order_keys ?c))) = 0"
    using order_key_texts [of _ ?c] by (auto simp: qmarks_join)
  have seek: "qmarks (fst (seek_predicate (order_keys ?c) av)) = length (snd (seek_predicate (order_keys ?c) av))" for av
    using bound_seek [of ?c av] by (simp add: bound_def)
  show ?thesis
    using cols order seek compiled_placeholders [of rt flags ast]
    by (simp add: build_sql_def Let_def case_prod_beta comp_def split: Bound.split option.split)
qed

section \<open>Strictly ordered rows\<close>

lemma set_insert_row [simp]: "set (insert_row lt r rs) = insert r (set rs)"
  by (induction rs) auto

lemma order_rows_simps [simp]:
  "order_rows lt [] = []" "order_rows lt (r # rs) = insert_row lt r (order_rows lt rs)"
  by (simp_all add: order_rows_def)

lemma set_order_rows [simp]: "set (order_rows lt rs) = set rs"
  by (induction rs) simp_all

lemma length_order_rows [simp]: "length (order_rows lt rs) = length rs"
proof -
  have "length (insert_row lt r rs) = Suc (length rs)" for r rs by (induction rs) auto
  then show ?thesis by (induction rs) simp_all
qed

text \<open>What a keyset walk asks of the order of its keys.\<close>

locale key_order =
  fixes keys :: "'k set" and lt :: "'k \<Rightarrow> 'k \<Rightarrow> bool"
  assumes lt_irrefl: "\<not> lt a a"
    and lt_trans: "a \<in> keys \<Longrightarrow> b \<in> keys \<Longrightarrow> c \<in> keys \<Longrightarrow> lt a b \<Longrightarrow> lt b c \<Longrightarrow> lt a c"
    and lt_total: "a \<in> keys \<Longrightarrow> b \<in> keys \<Longrightarrow> lt a b \<or> a = b \<or> lt b a"
begin

lemma insert_row_sorted:
  "sorted_wrt (\<lambda>r s. lt (f r) (f s)) rs \<Longrightarrow> f ` insert r (set rs) \<subseteq> keys \<Longrightarrow> f r \<notin> f ` set rs \<Longrightarrow>
   sorted_wrt (\<lambda>r s. lt (f r) (f s)) (insert_row (\<lambda>r s. lt (f r) (f s)) r rs)"
proof (induction rs)
  case (Cons s ss)
  show ?case
  proof (cases "lt (f s) (f r)")
    case True
    then show ?thesis using Cons by auto
  next
    case False
    then have rs: "lt (f r) (f s)" using lt_total [of "f r" "f s"] Cons.prems(2,3) by auto
    moreover have "lt (f r) (f t)" if "t \<in> set ss" for t
      using lt_trans [of "f r" "f s" "f t"] rs that Cons.prems(1,2) by auto
    ultimately show ?thesis using False Cons.prems(1) by simp
  qed
qed simp

lemma order_rows_sorted:
  "f ` set rs \<subseteq> keys \<Longrightarrow> distinct (map f rs) \<Longrightarrow>
   sorted_wrt (\<lambda>r s. lt (f r) (f s)) (order_rows (\<lambda>r s. lt (f r) (f s)) rs)"
proof (induction rs)
  case (Cons r rs)
  then show ?case
    using insert_row_sorted [of f "order_rows (\<lambda>r s. lt (f r) (f s)) rs" r] by simp
qed simp

lemma sorted_unique:
  "sorted_wrt (\<lambda>r s. lt (f r) (f s)) xs \<Longrightarrow> sorted_wrt (\<lambda>r s. lt (f r) (f s)) ys \<Longrightarrow>
   f ` set xs \<subseteq> keys \<Longrightarrow> set xs = set ys \<Longrightarrow> xs = ys"
proof (induction xs arbitrary: ys)
  case (Cons x xs)
  from Cons.prems(4) obtain y zs where ys: "ys = y # zs" by (cases ys) auto
  have no: "\<not> (lt (f a) (f b) \<and> lt (f b) (f a))" if "a \<in> set (x # xs)" "b \<in> set (x # xs)" for a b
    using that Cons.prems(3) lt_trans [of "f a" "f b" "f a"] lt_irrefl [of "f a"] by (auto simp: image_subset_iff)
  have mem: "y \<in> set (x # xs)" "x \<in> set (y # zs)" using Cons.prems(4) ys by auto
  have xy: "x = y"
  proof (rule ccontr)
    assume "x \<noteq> y"
    then have "lt (f x) (f y)" "lt (f y) (f x)" using mem Cons.prems(1,2) ys by auto
    then show False using no [of x y] mem by simp
  qed
  have "x \<notin> set xs" using Cons.prems(1) lt_irrefl by auto
  moreover have "y \<notin> set zs" using Cons.prems(2) ys lt_irrefl by auto
  ultimately have "set xs = set zs" using Cons.prems(4) ys xy by auto
  then show ?case using Cons.IH [of zs] Cons.prems ys xy by auto
qed simp

lemma order_filter:
  assumes "f ` set rs \<subseteq> keys" "distinct (map f rs)"
  shows "order_rows (\<lambda>r s. lt (f r) (f s)) (filter P rs) = filter P (order_rows (\<lambda>r s. lt (f r) (f s)) rs)"
proof (rule sorted_unique [of f])
  show "sorted_wrt (\<lambda>r s. lt (f r) (f s)) (order_rows (\<lambda>r s. lt (f r) (f s)) (filter P rs))"
    using assms by (intro order_rows_sorted) (auto simp: distinct_map_filter)
  show "sorted_wrt (\<lambda>r s. lt (f r) (f s)) (filter P (order_rows (\<lambda>r s. lt (f r) (f s)) rs))"
    using order_rows_sorted [OF assms] by (rule sorted_wrt_filter)
qed (use assms in auto)

lemma seek_suffix:
  assumes "sorted_wrt (\<lambda>r s. lt (f r) (f s)) (xs @ r # ys)" "f ` set (xs @ r # ys) \<subseteq> keys"
  shows "filter (\<lambda>s. lt (f r) (f s)) (xs @ r # ys) = ys"
proof -
  have "\<not> lt (f r) (f x)" if "x \<in> set xs" for x
  proof
    assume "lt (f r) (f x)"
    moreover have "lt (f x) (f r)" using assms(1) that by (simp add: sorted_wrt_append)
    ultimately show False using lt_trans [of "f r" "f x" "f r"] lt_irrefl that assms(2) by (auto simp: image_subset_iff)
  qed
  moreover have "\<forall>y \<in> set ys. lt (f r) (f y)" using assms(1) by (simp add: sorted_wrt_append)
  ultimately show ?thesis using lt_irrefl by (simp add: filter_empty_conv)
qed

end

lemma dir_lt_laws:
  "\<not> dir_lt d a a" "dir_lt d a b \<Longrightarrow> dir_lt d b c \<Longrightarrow> dir_lt d a c" "dir_lt d a b \<or> a = b \<or> dir_lt d b a"
  by (cases d; auto)+

lemma lex_lt_irrefl: "\<not> lex_lt ds as as"
proof (induction ds arbitrary: as)
  case (Cons d ds)
  then show ?case by (cases as) (simp_all add: dir_lt_laws)
qed simp

lemma lex_lt_trans: "lex_lt ds as bs \<Longrightarrow> lex_lt ds bs cs \<Longrightarrow> lex_lt ds as cs"
proof (induction ds as bs arbitrary: cs rule: lex_lt.induct)
  case (1 d ds a as b bs)
  then show ?case by (cases cs) (auto dest: dir_lt_laws(2))
qed simp_all

lemma lex_lt_total: "length as = length ds \<Longrightarrow> length bs = length ds \<Longrightarrow> lex_lt ds as bs \<or> as = bs \<or> lex_lt ds bs as"
proof (induction ds arbitrary: as bs)
  case (Cons d ds)
  then obtain a as' b bs' where "as = a # as'" "bs = b # bs'" "length as' = length ds" "length bs' = length ds"
    by (auto simp: length_Suc_conv)
  then show ?case using Cons.IH [of as' bs'] dir_lt_laws(3) [of d a b] by auto
qed simp

interpretation sql: key_order "{ks. length ks = length ds}" "lex_lt ds" for ds :: "Dir list"
  by unfold_locales (simp add: lex_lt_irrefl, blast intro: lex_lt_trans, simp add: lex_lt_total)

section \<open>The seek predicate is the order\<close>

lemma lex_lt_nth:
  "length as = length ds \<Longrightarrow> length bs = length ds \<Longrightarrow>
   lex_lt ds as bs \<longleftrightarrow> (\<exists>i < length ds. (\<forall>j < i. as ! j = bs ! j) \<and> dir_lt (ds ! i) (as ! i) (bs ! i))"
proof (induction ds arbitrary: as bs)
  case (Cons d ds)
  then obtain a as' b bs' where eq: "as = a # as'" "bs = b # bs'" "length as' = length ds" "length bs' = length ds"
    by (auto simp: length_Suc_conv)
  have "(\<exists>i < Suc n. P i) \<longleftrightarrow> P 0 \<or> (\<exists>i < n. P (Suc i))" for P and n :: nat
    using less_Suc_eq_0_disj by auto
  moreover have "(\<forall>j < Suc n. P j) \<longleftrightarrow> P 0 \<and> (\<forall>j < n. P (Suc j))" for P and n :: nat
    using less_Suc_eq_0_disj by auto
  ultimately show ?case using Cons.IH [OF eq(3,4)] by (auto simp: eq)
qed simp

lemma value_key_null: "value_key v = (0, 0, []) \<longleftrightarrow> v = VNull" "\<not> value_key v < (0, 0, [])"
  "v \<noteq> VNull \<Longrightarrow> (0, 0, []) < value_key v"
  by (cases v; simp add: less_prod_def)+

lemma prefix_term_holds: "term_holds val (prefix_term k v) \<longleftrightarrow> value_key v = value_key (val (fst k))"
  using value_key_null(1) [of "val (fst k)"] value_key_null(1) [of v] by (auto simp: prefix_term_def)

lemma strict_term_holds: "term_holds val (strict_term k v) \<longleftrightarrow> dir_lt (snd k) (value_key v) (value_key (val (fst k)))"
proof (cases "v = VNull"; cases "snd k")
  assume "v \<noteq> VNull" "snd k = Asc"
  then show ?thesis
    using value_key_null [of "val (fst k)"] by (cases v) (auto simp: strict_term_def value_key_null simp del: value_key.simps(2-))
next
  assume "v \<noteq> VNull" "snd k = Desc"
  then show ?thesis
    using value_key_null [of "val (fst k)"] value_key_null(3) [of v]
    by (cases v) (auto simp: strict_term_def simp del: value_key.simps(2-))
qed (use value_key_null [of "val (fst k)"] in \<open>auto simp: strict_term_def\<close>)

text \<open>
  Seeking is the order of the result: the predicate that continues a walk after a row, NULLs,
  directions and the redundant leading bound included, holds of exactly the rows that come strictly after
  it in the \<open>ORDER BY\<close>.
\<close>

theorem seek_predicate_is_order:
  assumes "keys \<noteq> []" "length after_values = length keys"
  shows "seek_holds keys after_values val \<longleftrightarrow>
    lex_lt (map snd keys) (map value_key after_values) (map (\<lambda>k. value_key (val (fst k))) keys)"
proof -
  let ?n = "length keys" and ?d = "\<lambda>i. snd (keys ! i)" and ?a = "\<lambda>i. value_key (after_values ! i)"
    and ?b = "\<lambda>i. value_key (val (fst (keys ! i)))"
  have alts: "list_ex (list_all (term_holds val)) (seek_alternatives keys after_values) \<longleftrightarrow>
      (\<exists>i < ?n. (\<forall>j < i. ?a j = ?b j) \<and> dir_lt (?d i) (?a i) (?b i))"
    by (auto simp: seek_alternatives_def list_ex_iff list_all_iff prefix_term_holds strict_term_holds)
  have lex: "lex_lt (map snd keys) (map value_key after_values) (map (\<lambda>k. value_key (val (fst k))) keys) \<longleftrightarrow>
      (\<exists>i < ?n. (\<forall>j < i. ?a j = ?b j) \<and> dir_lt (?d i) (?a i) (?b i))"
    using assms(2) by (auto simp: lex_lt_nth)
  have "val (fst (keys ! 0)) \<noteq> VNull \<and> ?a 0 \<le> ?b 0"
    if "leading_bound keys after_values" "i < ?n" "\<forall>j < i. ?a j = ?b j" "dir_lt (?d i) (?a i) (?b i)" for i
  proof -
    have "?a 0 \<le> ?b 0" using that by (cases i) (auto simp: leading_bound_def)
    moreover have "(0, 0, []) < ?a 0" using that(1) value_key_null(3) by (simp add: leading_bound_def)
    ultimately show ?thesis using value_key_null(1) [of "val (fst (keys ! 0))"] by auto
  qed
  then show ?thesis unfolding seek_holds_def alts lex by blast
qed

section \<open>The copies, row by row\<close>

lemma concat_chunks: "0 < n \<Longrightarrow> concat (chunks n xs) = xs"
proof (induction n xs rule: chunks.induct)
  case (1 n xs)
  then show ?case by (subst chunks.simps) simp
qed

definition found_copies :: "tdb \<Rightarrow> string \<Rightarrow> CopySummary list option" where
  "found_copies db p = (if copies_of db p = [] then None else Some (map copy_summary (copies_of db p)))"

lemma push_copies:
  "fold push_copy cs m p =
     (let own = filter (\<lambda>c. ce_printing c = p) cs in
      if own = [] then m p else Some ((case m p of Some xs \<Rightarrow> xs | None \<Rightarrow> []) @ map copy_summary own))"
proof (induction cs arbitrary: m)
  case (Cons c cs)
  have "push_copy c m q = (if q = ce_printing c then Some ((case m q of Some xs \<Rightarrow> xs | None \<Rightarrow> []) @ [copy_summary c]) else m q)" for q
    by (simp add: push_copy_def)
  then show ?case by (simp add: Cons Let_def)
qed simp

lemma collect_chunk_lookup:
  assumes "schema_ok db"
  shows "collect_chunk db ids m p =
     (if p \<in> set ids \<and> copies_of db p \<noteq> []
      then Some ((case m p of Some xs \<Rightarrow> xs | None \<Rightarrow> []) @ map copy_summary (copies_of db p)) else m p)"
proof -
  have "sorted_wrt (<) (map ce_id (tbl_rows (db_collection db)))"
    using assms by (simp add: schema_ok_def ids_ok_def tbl_ok_def)
  then have "sorted_wrt (\<lambda>c d. ce_id c \<le> ce_id d) (filter P (tbl_rows (db_collection db)))" for P
    by (intro sorted_wrt_filter) (auto simp: sorted_wrt_map intro: sorted_wrt_mono_rel [rotated])
  then have sorted: "sort_key ce_id (filter P (tbl_rows (db_collection db))) = filter P (tbl_rows (db_collection db))" for P
    by (intro sort_key_id_if_sorted) (simp add: sorted_wrt_map)
  have own: "filter (\<lambda>c. ce_printing c = p) (filter (\<lambda>c. ce_printing c \<in> set ids) (tbl_rows (db_collection db))) =
      (if p \<in> set ids then copies_of db p else [])"
    by (auto simp: copies_of_def filter_empty_conv intro!: filter_cong)
  show ?thesis unfolding collect_chunk_def sorted push_copies own by (simp add: Let_def)
qed

lemma collect_chunks:
  assumes "schema_ok db"
  shows "distinct (concat css) \<Longrightarrow> (\<And>p. p \<in> set (concat css) \<Longrightarrow> m p = None) \<Longrightarrow>
    fold (collect_chunk db) css m p = (if p \<in> set (concat css) then found_copies db p else m p)"
proof (induction css arbitrary: m)
  case (Cons cs css)
  have later: "collect_chunk db cs m q = None" if "q \<in> set (concat css)" for q
    using Cons.prems that by (auto simp: collect_chunk_lookup [OF assms])
  have "p \<notin> set cs \<or> p \<notin> set (concat css)" using Cons.prems(1) by auto
  then show ?case
    using Cons.IH [of "collect_chunk db cs m"] later Cons.prems
    by (auto simp: collect_chunk_lookup [OF assms] found_copies_def)
qed simp

definition with_copies :: "tdb \<Rightarrow> SearchRow \<Rightarrow> SearchRow" where
  "with_copies db r = r\<lparr>sw_copies := map copy_summary (copies_of db (sw_printing r))\<rparr>"

lemma place_copies_map:
  "distinct (map sw_printing rows) \<Longrightarrow>
   place_copies rows m = map (\<lambda>r. case m (sw_printing r) of Some cs \<Rightarrow> r\<lparr>sw_copies := cs\<rparr> | None \<Rightarrow> r) rows"
proof (induction rows arbitrary: m)
  case (Cons r rows)
  have "map (\<lambda>x. case (m(sw_printing r := None)) (sw_printing x) of Some cs \<Rightarrow> x\<lparr>sw_copies := cs\<rparr> | None \<Rightarrow> x) rows =
      map (\<lambda>x. case m (sw_printing x) of Some cs \<Rightarrow> x\<lparr>sw_copies := cs\<rparr> | None \<Rightarrow> x) rows"
    using Cons.prems by (intro map_cong refl) (auto simp: image_iff)
  then show ?case using Cons by (simp split: option.split)
qed simp

lemma attach_copies_rowwise:
  assumes "schema_ok db" "distinct (map sw_printing rows)" "\<forall>r \<in> set rows. sw_copies r = []"
  shows "attach_copies db rows = map (with_copies db) rows"
proof -
  have "fold (collect_chunk db) (chunks CHUNK (map sw_printing rows)) Map.empty p =
      (if p \<in> set (map sw_printing rows) then found_copies db p else None)" for p
    using collect_chunks [OF assms(1), of "chunks CHUNK (map sw_printing rows)" Map.empty p] assms(2)
    by (simp add: concat_chunks CHUNK_def)
  then show ?thesis
    using assms(3) unfolding attach_copies_def place_copies_map [OF assms(2)]
    by (intro map_cong refl) (auto simp: with_copies_def found_copies_def)
qed

section \<open>Cursors survive the round trip\<close>

definition plain_value :: "SqlValue \<Rightarrow> bool" where
  "plain_value v \<longleftrightarrow> (case v of VReal f \<Rightarrow> finite_f64 f | VBlob _ \<Rightarrow> False | _ \<Rightarrow> True)"

lemma json_round_trip: "plain_value v \<Longrightarrow> json_to_value (value_to_json v) = v"
  by (cases v) (simp_all add: plain_value_def)

lemma hex_digit_val: "n < 16 \<Longrightarrow> hex_val (hex_digit n) = Some n"
  by (auto simp: hex_val_def hex_digit_def Let_def)

lemma hex_digit_ascii:
  assumes "n < 16"
  shows "is_ascii (hex_digit n) \<and> hex_digit n \<noteq> CHR ''+''"
proof -
  have "(of_char (hex_digit n) :: nat) = (if n < 10 then 48 + n else 87 + n)"
    using assms by (simp add: hex_digit_def)
  moreover have "(of_char (CHR ''+'') :: nat) = 43" by simp
  ultimately show ?thesis using assms by (auto simp: is_ascii_def split: if_splits)
qed

lemma nibble_less: "(of_char b :: nat) div 16 < 16"
proof -
  have "(of_char b :: nat) < 256" by (rule nat_of_char_less_256)
  then show ?thesis by (simp add: less_mult_imp_div_less)
qed

lemma byte_of_hex_byte: "byte_of_hex (hex_digit (of_char b div 16)) (hex_digit (of_char b mod 16)) = Some b"
proof -
  have "(of_char b :: nat) div 16 < 16" "(of_char b :: nat) mod 16 < 16" using nibble_less [of b] by simp_all
  then show ?thesis
    using hex_digit_ascii [of "of_char b div 16"]
    by (simp add: byte_of_hex_def hex_digit_val)
qed

lemma bytes_of_hex_bytes: "bytes_of_hex (concat (map hex_byte bs)) = Some bs"
  by (induction bs) (simp_all add: hex_byte_def byte_of_hex_byte)

lemma cursor_round_trip:
  assumes "cc_from_slice cc (cc_to_vec cc cu) = Some cu'"
  shows "cursor_decode cc (cursor_encode cc cu) = Inr cu'"
proof -
  have len: "even (length (concat (map hex_byte bs)))" for bs by (induction bs) (simp_all add: hex_byte_def)
  have "list_all is_ascii (concat (map hex_byte bs))" for bs
  proof (induction bs)
    case (Cons b bs)
    have "(of_char b :: nat) div 16 < 16" "(of_char b :: nat) mod 16 < 16" using nibble_less [of b] by simp_all
    then show ?case using Cons hex_digit_ascii by (simp add: hex_byte_def)
  qed simp
  with len show ?thesis using assms by (simp add: cursor_decode_def cursor_encode_def bytes_of_hex_bytes)
qed

section \<open>The walk\<close>

text \<open>
  What a walk rests on: the catalog has one joined row per printing, SQLite evaluates the last sort key to
  the printing's id, and no sort key is a blob or an infinity.
\<close>

definition walkable :: "engine \<Rightarrow> catalog \<Rightarrow> tdb \<Rightarrow> CompiledSearch \<Rightarrow> bool" where
  "walkable en cat db c \<longleftrightarrow> schema_ok db \<and> distinct (map (\<lambda>r. pk_printing (jr_key r)) (joined_rows cat db)) \<and>
     list_all (\<lambda>r. en_value en ''p.printing_id'' r = VText (pk_printing (jr_key r)) \<and>
        list_all (\<lambda>k. plain_value (en_value en (fst k) r)) (order_keys c)) (joined_rows cat db)"

definition row_key_of :: "engine \<Rightarrow> CompiledSearch \<Rightarrow> JoinedRow \<Rightarrow> (nat \<times> int \<times> string) list" where
  "row_key_of en c r = map value_key (row_keys en c r)"

definition ordered_result :: "engine \<Rightarrow> catalog \<Rightarrow> tdb \<Rightarrow> CompiledSearch \<Rightarrow> JoinedRow list" where
  "ordered_result en cat db c = order_rows (row_lt en c) (matching en cat db c)"

definition shown :: "engine \<Rightarrow> catalog \<Rightarrow> tdb \<Rightarrow> JoinedRow \<Rightarrow> SearchRow" where
  "shown en cat db r = with_copies db (row_from en cat db r)"

lemma order_keys_nonempty [simp]: "order_keys c \<noteq> []"
  by (simp add: order_keys_def)

lemma length_row_keys [simp]: "length (row_keys en c r) = length (order_keys c)" "length (key_dirs c) = length (order_keys c)"
  by (simp_all add: row_keys_def key_dirs_def)

lemma row_lt_key: "row_lt en c = (\<lambda>r s. lex_lt (key_dirs c) (row_key_of en c r) (row_key_of en c s))"
  by (simp add: row_lt_def row_key_of_def fun_eq_iff)

lemma set_matching: "set (matching en cat db c) \<subseteq> set (joined_rows cat db)"
  by (auto simp: matching_def)

lemma distinct_keys:
  assumes "walkable en cat db c"
  shows "distinct (map (row_key_of en c) (matching en cat db c))"
proof -
  have last: "last (row_key_of en c r) = (2, 0, pk_printing (jr_key r))" if "r \<in> set (joined_rows cat db)" for r
    using that assms by (simp add: row_key_of_def row_keys_def order_keys_def walkable_def list_all_iff)
  have "distinct (map (\<lambda>r. pk_printing (jr_key r)) (matching en cat db c))"
    using assms by (simp add: walkable_def matching_def distinct_map_filter)
  then show ?thesis
    using last set_matching [of en cat db c] unfolding distinct_map inj_on_def by (metis prod.inject subsetD)
qed

lemma in_keys: "row_key_of en c ` R \<subseteq> {ks. length ks = length (key_dirs c)}"
  by (auto simp: row_key_of_def)

lemma ordered_sorted:
  assumes "walkable en cat db c"
  shows "sorted_wrt (\<lambda>r s. lex_lt (key_dirs c) (row_key_of en c r) (row_key_of en c s)) (ordered_result en cat db c)"
  unfolding ordered_result_def row_lt_key
  by (intro sql.order_rows_sorted in_keys distinct_keys assms)

lemma run_after:
  assumes "walkable en cat db c" "ordered_result en cat db c = xs @ r # ys"
  shows "run_query en cat db c (Keyset (Some (row_keys en c r))) n = take n ys"
proof -
  let ?lt = "\<lambda>r s. lex_lt (key_dirs c) (row_key_of en c r) (row_key_of en c s)"
  have "seek_holds (order_keys c) (row_keys en c r) (\<lambda>e. en_value en e s) = ?lt r s" for s
    by (subst seek_predicate_is_order) (simp_all add: row_key_of_def row_keys_def key_dirs_def comp_def case_prod_beta)
  then have "filter (\<lambda>s. seek_holds (order_keys c) (row_keys en c r) (\<lambda>e. en_value en e s)) (matching en cat db c) =
      filter (?lt r) (matching en cat db c)" by simp
  moreover have "order_rows ?lt (filter (?lt r) (matching en cat db c)) = filter (?lt r) (order_rows ?lt (matching en cat db c))"
    by (intro sql.order_filter in_keys distinct_keys assms)
  moreover have "filter (?lt r) (xs @ r # ys) = ys"
    using ordered_sorted [OF assms(1)] assms(2) by (intro sql.seek_suffix in_keys) simp
  ultimately show ?thesis
    using assms(2) by (simp add: run_query_def row_lt_key ordered_result_def)
qed

lemma attach_shown:
  assumes "walkable en cat db c" "set rs \<subseteq> set (joined_rows cat db)" "distinct (map (\<lambda>r. pk_printing (jr_key r)) rs)"
  shows "(if map (row_from en cat db) rs = [] then map (row_from en cat db) rs else attach_copies db (map (row_from en cat db) rs)) =
     map (shown en cat db) rs"
proof -
  have "attach_copies db (map (row_from en cat db) rs) = map (with_copies db) (map (row_from en cat db) rs)"
    using assms by (intro attach_copies_rowwise) (auto simp: walkable_def row_from_def Let_def comp_def)
  then show ?thesis by (simp add: shown_def comp_def)
qed

lemma ordered_subset:
  assumes "walkable en cat db c" "ordered_result en cat db c = xs @ ys @ zs"
  shows "set ys \<subseteq> set (joined_rows cat db)" "distinct (map (\<lambda>r. pk_printing (jr_key r)) ys)"
proof -
  have all: "set (ordered_result en cat db c) = set (matching en cat db c)" by (simp add: ordered_result_def)
  then show "set ys \<subseteq> set (joined_rows cat db)" using assms(2) set_matching [of en cat db c] by auto
  have "distinct (matching en cat db c)" using distinct_keys [OF assms(1)] by (simp add: distinct_map)
  then have "distinct (ordered_result en cat db c)"
    using all by (metis card_distinct distinct_card length_order_rows ordered_result_def)
  moreover have "inj_on (\<lambda>r. pk_printing (jr_key r)) (set (joined_rows cat db))"
    using assms(1) by (simp add: walkable_def distinct_map)
  ultimately show "distinct (map (\<lambda>r. pk_printing (jr_key r)) ys)"
    using assms(2) all set_matching [of en cat db c] by (auto simp: distinct_map inj_on_def)
qed

lemma run_keyed_shown:
  assumes "walkable en cat db c" "ordered_result en cat db c = xs @ ys" "run_query en cat db c (Keyset a) n = take n ys"
  shows "run_keyed en cat db c (Keyset a) n = map (\<lambda>r. (shown en cat db r, row_keys en c r)) (take n ys)"
proof -
  have "ordered_result en cat db c = xs @ take n ys @ drop n ys" using assms(2) by simp
  note sub = ordered_subset [OF assms(1) this]
  show ?thesis
    unfolding run_keyed_def assms(3) Let_def attach_shown [OF assms(1) sub]
    by (simp add: zip_map_map zip_same_conv_map map_map comp_def)
qed

lemma search_shown:
  assumes "walkable en cat db c"
  shows "search en cat db c = map (shown en cat db) (ordered_result en cat db c)"
proof -
  have q: "run_query en cat db c Unbounded 0 = ordered_result en cat db c" by (simp add: run_query_def ordered_result_def)
  note sub = ordered_subset [OF assms, of "[]" "ordered_result en cat db c" "[]"]
  show ?thesis
    unfolding search_def run_def run_keyed_def q Let_def attach_shown [OF assms sub [simplified]]
    by (simp add: zip_map_map zip_same_conv_map comp_def)
qed

text \<open>
  What \<open>serde_json\<close> promises of a cursor: strings, integers and nulls come back as they were printed; without its
  feature \<open>float_roundtrip\<close> a float may come back off in the last bit, here through a function \<open>rt\<close> for the keys
  and with any value for the total value, which the walk only reports.
\<close>

fun reread_key :: "(f64 \<Rightarrow> f64) \<Rightarrow> Json \<Rightarrow> Json" where
  "reread_key rt (JFloat f) = JFloat (rt f)"
| "reread_key rt k = k"

definition cursor_reader :: "cursor_codec \<Rightarrow> (f64 \<Rightarrow> f64) \<Rightarrow> bool" where
  "cursor_reader cc rt \<longleftrightarrow> (\<forall>cu. JOther \<notin> set (cu_keys cu) \<longrightarrow> (\<exists>tv. cc_from_slice cc (cc_to_vec cc cu) =
     Some (cu\<lparr>cu_keys := map (reread_key rt) (cu_keys cu), cu_total_value := tv\<rparr>)))"

text \<open>No sort key of the row is a REAL that the reader changes; a search sorted by text and integers has none.\<close>

definition keys_survive :: "(f64 \<Rightarrow> f64) \<Rightarrow> engine \<Rightarrow> CompiledSearch \<Rightarrow> JoinedRow \<Rightarrow> bool" where
  "keys_survive rt en c r \<longleftrightarrow> list_all (\<lambda>v. case v of VReal f \<Rightarrow> rt f = f | _ \<Rightarrow> True) (row_keys en c r)"

text \<open>The cursor that continues after a row.\<close>

definition cursor_of :: "engine \<Rightarrow> CompiledSearch \<Rightarrow> int \<times> f64 option \<Rightarrow> JoinedRow \<Rightarrow> Cursor" where
  "cursor_of en c t r = \<lparr>cu_fp = fingerprint en c, cu_keys = map value_to_json (row_keys en c r),
     cu_total = fst t, cu_total_value = snd t\<rparr>"

definition token :: "engine \<Rightarrow> cursor_codec \<Rightarrow> CompiledSearch \<Rightarrow> int \<times> f64 option \<Rightarrow> JoinedRow \<Rightarrow> string" where
  "token en cc c t r = cursor_encode cc (cursor_of en c t r)"

lemma token_reread:
  assumes "cursor_reader cc rt" "keys_survive rt en c r"
  shows "\<exists>tv. cursor_decode cc (token en cc c t r) = Inr (cursor_of en c (fst t, tv) r)"
proof -
  have other: "JOther \<notin> set (cu_keys (cursor_of en c t r))"
  proof -
    have "value_to_json v \<noteq> JOther" for v by (cases v) simp_all
    then show ?thesis by (auto simp: cursor_of_def dest: sym)
  qed
  have "reread_key rt (value_to_json v) = value_to_json v" if "v \<in> set (row_keys en c r)" for v
    using assms(2) that by (cases v) (auto simp: keys_survive_def list_all_iff)
  then have "map (reread_key rt) (cu_keys (cursor_of en c t r)) = cu_keys (cursor_of en c t r)"
    by (simp add: cursor_of_def)
  with assms(1) other obtain tv where "cc_from_slice cc (cc_to_vec cc (cursor_of en c t r)) =
      Some ((cursor_of en c t r)\<lparr>cu_keys := cu_keys (cursor_of en c t r), cu_total_value := tv\<rparr>)"
    unfolding cursor_reader_def by metis
  then have "cc_from_slice cc (cc_to_vec cc (cursor_of en c t r)) = Some (cursor_of en c (fst t, tv) r)"
    by (simp add: cursor_of_def)
  from cursor_round_trip [OF this] show ?thesis unfolding token_def ..
qed

lemma page_step:
  assumes w: "walkable en cat db c" and codec: "cursor_reader cc rt" "list_all (keys_survive rt en c) (joined_rows cat db)"
    and limit: "0 < limit" "limit + 1 < 2 ^ 32" and rs: "ordered_result en cat db c = xs @ ys"
    and start: "xs = [] \<and> cursor = None \<or> xs \<noteq> [] \<and> (\<exists>tv. cursor = Some (token en cc c (fst (totals en cat db c), tv) (last xs)))"
  shows "\<exists>page. search_page_after en cc cat db c limit cursor = Inr page \<and>
     pa_rows page = map (shown en cat db) (take limit ys) \<and> pa_total page = fst (totals en cat db c) \<and>
     (if limit < length ys
      then \<exists>tv. pa_next_cursor page = Some (token en cc c (fst (totals en cat db c), tv) (last (take limit ys)))
      else pa_next_cursor page = None)"
proof -
  define av where "av = (if xs = [] then None else Some (row_keys en c (last xs)))"
  have q: "run_query en cat db c (Keyset av) n = take n ys" for n
  proof (cases "xs = []")
    case True
    then show ?thesis using rs by (simp add: av_def run_query_def ordered_result_def)
  next
    case False
    then have "ordered_result en cat db c = butlast xs @ last xs # ys" using rs by simp
    from run_after [OF w this] show ?thesis using False by (simp add: av_def)
  qed
  have keyed: "run_keyed en cat db c (Keyset av) (as_u32 (limit + 1)) =
      map (\<lambda>r. (shown en cat db r, row_keys en c r)) (take (limit + 1) ys)"
    using run_keyed_shown [OF w rs q] limit by (simp add: as_u32_def)
  have joined: "last xs \<in> set (joined_rows cat db)" if "xs \<noteq> []"
    using rs that set_matching [of en cat db c] last_in_set [OF that]
    by (metis (no_types, lifting) Un_iff ordered_result_def set_append set_order_rows subsetD)
  then have decoded: "\<exists>tv'. cursor_decode cc (token en cc c t (last xs)) = Inr (cursor_of en c (fst t, tv') (last xs))"
    if "xs \<noteq> []" for t
    using that codec(2) by (intro token_reread [OF codec(1)]) (simp add: list_all_iff)
  have plain: "map json_to_value (map value_to_json (row_keys en c (last xs))) = row_keys en c (last xs)" if "xs \<noteq> []"
  proof -
    have "\<forall>v \<in> set (row_keys en c (last xs)). plain_value v"
      using w joined [OF that] by (fastforce simp: walkable_def row_keys_def list_all_iff)
    then show ?thesis by (simp add: map_idI json_round_trip)
  qed
  obtain tv where start: "(case cursor of
      Some t \<Rightarrow> (case cursor_decode cc t of Inl e \<Rightarrow> Inl e
        | Inr cu \<Rightarrow> if cu_fp cu \<noteq> fingerprint en c then Inl (Invalid ''cursor was issued for a different query or sort'')
            else if length (cu_keys cu) \<noteq> length (order_keys c) then Inl (Invalid ''cursor is malformed'')
            else Inr (Some (map json_to_value (cu_keys cu)), cu_total cu, cu_total_value cu))
    | None \<Rightarrow> Inr (None, totals en cat db c)) = Inr (av, fst (totals en cat db c), tv)"
  proof (cases "xs = []")
    case True
    then show thesis using start that [of "snd (totals en cat db c)"] by (simp add: av_def)
  next
    case False
    then obtain tv0 where cur: "cursor = Some (token en cc c (fst (totals en cat db c), tv0) (last xs))" using start by blast
    from decoded [OF False] obtain tv' where
      "cursor_decode cc (token en cc c (fst (totals en cat db c), tv0) (last xs)) =
        Inr (cursor_of en c (fst (totals en cat db c), tv') (last xs))" by fastforce
    then show thesis using that [of tv'] plain [OF False] False by (simp add: cur av_def cursor_of_def row_keys_def)
  qed
  have kept: "take limit (map f (take (limit + 1) ys)) = map f (take limit ys)" for f :: "JoinedRow \<Rightarrow> SearchRow \<times> SqlValue list"
    by (simp add: take_map min_def)
  have ne: "take limit ys \<noteq> []" if "limit < length ys" using that limit by auto
  show ?thesis
    unfolding search_page_after_def Let_def start unfolding sum.case prod.case keyed kept
    using limit ne by (auto simp: token_def cursor_of_def last_map comp_def)
qed

text \<open>A client that follows the cursors, at most \<open>n\<close> pages.\<close>

fun walk ::
  "nat \<Rightarrow> engine \<Rightarrow> cursor_codec \<Rightarrow> catalog \<Rightarrow> tdb \<Rightarrow> CompiledSearch \<Rightarrow> nat \<Rightarrow> string option \<Rightarrow>
   (DbError + SearchPage list) option" where
  "walk 0 en cc cat db c limit cursor = None"
| "walk (Suc n) en cc cat db c limit cursor =
     (case search_page_after en cc cat db c limit cursor of
        Inl e \<Rightarrow> Some (Inl e)
      | Inr page \<Rightarrow>
          (case pa_next_cursor page of
             None \<Rightarrow> Some (Inr [page])
           | Some t \<Rightarrow> map_option (map_sum (\<lambda>e. e) (Cons page)) (walk n en cc cat db c limit (Some t))))"

lemma walk_pages:
  assumes w: "walkable en cat db c" and codec: "cursor_reader cc rt" "list_all (keys_survive rt en c) (joined_rows cat db)"
    and limit: "0 < limit" "limit + 1 < 2 ^ 32"
  shows "ordered_result en cat db c = xs @ ys \<Longrightarrow> length ys < n \<Longrightarrow>
    xs = [] \<and> cursor = None \<or> xs \<noteq> [] \<and> (\<exists>tv. cursor = Some (token en cc c (fst (totals en cat db c), tv) (last xs))) \<Longrightarrow>
    \<exists>pages. walk n en cc cat db c limit cursor = Some (Inr pages) \<and> concat (map pa_rows pages) = map (shown en cat db) ys \<and>
      list_all (\<lambda>p. length (pa_rows p) \<le> limit \<and> pa_total p = int (length (ordered_result en cat db c))) pages"
proof (induction n arbitrary: xs ys cursor)
  case (Suc n)
  let ?t = "fst (totals en cat db c)"
  obtain page where p: "search_page_after en cc cat db c limit cursor = Inr page"
      "pa_rows page = map (shown en cat db) (take limit ys)" "pa_total page = ?t"
      "if limit < length ys then \<exists>tv. pa_next_cursor page = Some (token en cc c (?t, tv) (last (take limit ys)))
       else pa_next_cursor page = None"
    using page_step [OF w codec limit Suc.prems(1,3)] by blast
  have total: "?t = int (length (ordered_result en cat db c))"
    by (simp add: totals_def ordered_result_def)
  show ?case
  proof (cases "limit < length ys")
    case False
    then show ?thesis using p total by simp
  next
    case True
    then obtain tv where next_cursor: "pa_next_cursor page = Some (token en cc c (?t, tv) (last (take limit ys)))" using p(4) by auto
    have "take limit ys \<noteq> []" using True limit by auto
    then have "xs @ take limit ys \<noteq> []" "last (xs @ take limit ys) = last (take limit ys)" by (simp_all add: last_append)
    moreover have "ordered_result en cat db c = (xs @ take limit ys) @ drop limit ys" using Suc.prems(1) by simp
    moreover have "length (drop limit ys) < n" using True Suc.prems(2) limit by simp
    ultimately obtain pages where
      "walk n en cc cat db c limit (Some (token en cc c (?t, tv) (last (take limit ys)))) = Some (Inr pages)"
      "concat (map pa_rows pages) = map (shown en cat db) (drop limit ys)"
      "list_all (\<lambda>p. length (pa_rows p) \<le> limit \<and> pa_total p = int (length (ordered_result en cat db c))) pages"
      using Suc.IH [of "xs @ take limit ys" "drop limit ys"
          "Some (token en cc c (?t, tv) (last (take limit ys)))"] by auto
    then show ?thesis
      using p(1-3) next_cursor total
      by (intro exI [of _ "page # pages"]) (simp add: map_append [symmetric] del: map_append)
  qed
qed simp

text \<open>
  C32. Paging neither drops nor repeats a printing: following the cursors from the first page, with any page
  size, ends after finitely many pages, none of them longer than the limit and each reporting the size of the
  whole result, and their rows put together are exactly the rows of the unbounded search in its order. This holds
  for every search sorted by text and integers, whatever the JSON reader does to floats, and for one sorted by a
  REAL as long as the reader gives the REALs of the sort keys back unchanged.
\<close>

theorem walk_is_search:
  assumes "walkable en cat db c" "cursor_reader cc rt" "list_all (keys_survive rt en c) (joined_rows cat db)"
    and "0 < limit" "limit + 1 < 2 ^ 32" "length (search en cat db c) < n"
  shows "\<exists>pages. walk n en cc cat db c limit None = Some (Inr pages) \<and> concat (map pa_rows pages) = search en cat db c \<and>
    list_all (\<lambda>p. length (pa_rows p) \<le> limit \<and> pa_total p = int (length (search en cat db c))) pages"
  using walk_pages [OF assms(1-5), of "[]" "ordered_result en cat db c" n None] assms(6)
  by (simp add: search_shown [OF assms(1)])

text \<open>Two printings, one per page, every sort key their id.\<close>

definition sample_engine :: engine where
  "sample_engine = \<lparr>en_true = (\<lambda>_ _ _. True), en_value = (\<lambda>_ r. VText (pk_printing (jr_key r))), en_sum = (\<lambda>_. None),
     en_debug = (\<lambda>_. []), en_sha256 = (\<lambda>_. ''f0'')\<rparr>"

text \<open>A codec for all cursors whose reader is off in the last bit of one fraction and drops the total value.\<close>

fun put_key :: "Json \<Rightarrow> string" where
  "put_key (JInt i) = CHR ''i'' # put_int i"
| "put_key (JFloat x) = CHR ''d'' # put_word x"
| "put_key (JString s) = CHR ''s'' # put_text s"
| "put_key k = ''n''"

fun get_key :: "string \<Rightarrow> (Json \<times> string) option" where
  "get_key [] = None"
| "get_key (c # s) =
     (if c = CHR ''i'' then map_option (\<lambda>(i, r). (JInt i, r)) (get_int s)
      else if c = CHR ''d'' then map_option (\<lambda>(x, r). (JFloat (last_bit_off x), r)) (get_word s)
      else if c = CHR ''s'' then map_option (\<lambda>(t, r). (JString t, r)) (get_text s)
      else Some (JNull, s))"

definition sample_cursors :: cursor_codec where
  "sample_cursors =
     \<lparr>cc_to_vec = (\<lambda>cu. put_text (cu_fp cu) @ put_list put_key (cu_keys cu) @ put_int (cu_total cu)),
      cc_from_slice = (\<lambda>s. case get_text s of None \<Rightarrow> None
        | Some (fp, s) \<Rightarrow> (case get_list get_key s of None \<Rightarrow> None
          | Some (ks, s) \<Rightarrow> map_option (\<lambda>(t, _). \<lparr>cu_fp = fp, cu_keys = ks, cu_total = t, cu_total_value = None\<rparr>) (get_int s)))\<rparr>"

lemma sample_cursor_reader: "cursor_reader sample_cursors last_bit_off"
proof -
  have "get_key (put_key k @ r) = Some (reread_key last_bit_off k, r)" if "k \<noteq> JOther" for k r
    using that by (cases k) simp_all
  then have "get_list get_key (put_list put_key ks @ r) = Some (map (reread_key last_bit_off) ks, r)" if "JOther \<notin> set ks" for ks r
    using that by (intro get_put_list) metis
  moreover have "get_int (put_int i) = Some (i, [])" for i using get_put_int [of i "[]"] by simp
  ultimately show ?thesis unfolding cursor_reader_def
    by (intro allI impI exI [of _ None]) (simp add: sample_cursors_def)
qed

lemma sample_joined:
  "map (\<lambda>r. pk_printing (jr_key r)) (joined_rows sample_catalog empty_db) = [''base1-4:holofoil'', ''base1-58:normal'']"
  "matching sample_engine sample_catalog empty_db compile_all = joined_rows sample_catalog empty_db"
  by (simp_all add: joined_rows_def sample_catalog_def empty_db_def matching_def sample_engine_def)

lemma sample_keys: "row_keys sample_engine compile_all r = replicate 3 (VText (pk_printing (jr_key r)))"
  by (simp add: row_keys_def order_keys_def compile_all_def sample_engine_def numeral_3_eq_3)

theorem walk_is_search_witness:
  "\<exists>pages. walk 3 sample_engine sample_cursors sample_catalog empty_db compile_all 1 None = Some (Inr pages) \<and>
     map sw_printing (concat (map pa_rows pages)) = [''base1-4:holofoil'', ''base1-58:normal'']"
proof -
  have w: "walkable sample_engine sample_catalog empty_db compile_all"
    using schema_ok_empty by (simp add: walkable_def sample_joined)
      (simp add: list_all_iff sample_engine_def plain_value_def)
  have two: "length (joined_rows sample_catalog empty_db) = 2" using arg_cong [OF sample_joined(1), of length] by simp
  have codec: "list_all (keys_survive last_bit_off sample_engine compile_all) (joined_rows sample_catalog empty_db)"
    by (simp add: list_all_iff keys_survive_def sample_keys)
  obtain r s where rs: "joined_rows sample_catalog empty_db = [r, s]" "pk_printing (jr_key r) = ''base1-4:holofoil''"
      "pk_printing (jr_key s) = ''base1-58:normal''"
    using sample_joined(1) by (auto simp: map_eq_Cons_conv)
  have lt: "\<not> row_lt sample_engine compile_all s r"
    unfolding row_lt_def sample_keys rs
    by (simp add: key_dirs_def order_keys_def compile_all_def numeral_3_eq_3 less_prod_simp)
  have found: "search sample_engine sample_catalog empty_db compile_all = map (shown sample_engine sample_catalog empty_db) [r, s]"
    unfolding search_shown [OF w] ordered_result_def sample_joined(2) rs(1) using lt by simp
  then have "length (search sample_engine sample_catalog empty_db compile_all) < 3" by simp
  then show ?thesis
    using walk_is_search [OF w sample_cursor_reader codec, of 1 3] rs(2,3)
    by (auto simp: found shown_def with_copies_def row_from_def Let_def)
qed

theorem seek_predicate_is_order_witness:
  "seek_holds [(''s.release_date'', Desc), (''p.printing_id'', Asc)] [VNull, VText ''a'']
     (\<lambda>e. if e = ''p.printing_id'' then VText ''b'' else VNull)"
  by (subst seek_predicate_is_order) (simp_all add: less_prod_simp)

end
