(* ===== verification/Shared_Catalog.thy ===== *)
theory Shared_Catalog
  imports Value_History
begin

text \<open>
  The catalog database as the ingest writes it (\<open>pkdump-db/src/schema_shared.sql\<close>): its tables with the
  columns the ingest fills, the statements several ingest steps issue on it, the invariant its constraints
  promise, and the locale of an upsert, the one statement nearly every step is made of. The catalog of the
  tenant side (theory \<open>Schema\<close>) is this database seen through the columns the repositories read.
\<close>

section \<open>The tables\<close>

record SharedSet = SetRow +
  ss_series :: string
  ss_total :: "int option"
  ss_printed_total :: "int option"
  ss_release_date :: "string option"
  ss_logo_url :: "string option"
  ss_fetched_at :: "string option"
  ss_discovered_from :: "int option"
  ss_covered :: bool

record SharedCard = CardRow +
  sc_number_sortable :: int
  sc_flavor_text :: "string option"
  sc_abilities :: "string option"
  sc_weaknesses :: "string option"
  sc_resistances :: "string option"
  sc_retreat_cost :: "string option"
  sc_regulation_mark :: "string option"
  sc_pokedex :: "string option"
  sc_legalities :: "string option"
  sc_raw_json :: "string option"

record VariantRow =
  va_code :: string
  va_label :: string
  va_short :: string
  va_rank :: int
  va_tiebreak :: int
  va_color :: string
  va_provenance :: "string option"
  va_foil :: bool

record TcgGroupRow =
  tg_id :: int
  tg_set_code :: "string option"
  tg_name :: string
  tg_abbreviation :: "string option"
  tg_published_on :: "string option"
  tg_fetched_at :: string
  tg_role :: string

record ProductRow =
  tp_id :: int
  tp_group :: int
  tp_name :: string
  tp_number :: "string option"
  tp_variant :: "string option"
  tp_fetched_at :: string
  tp_image_url :: "string option"
  tp_rarity :: "string option"

record SealedProductRow = SealedProduct +
  sr_url :: "string option"
  sr_fetched_at :: string

record SealedPriceRow = SealedObs +
  sz_low :: "f64 option"
  sz_high :: "f64 option"
  sz_direct_low :: "f64 option"

record shared_db =
  sd_sets :: "SharedSet list"
  sd_set_aliases :: "(string \<times> string) list"
  sd_cards :: "SharedCard list"
  sd_variants :: "VariantRow list"
  sd_printings :: "PrintingRow list"
  sd_groups :: "TcgGroupRow list"
  sd_products :: "ProductRow list"
  sd_sub_types :: "((int \<times> string) \<times> string) list"
  sd_prices :: "PriceObs list"
  sd_latest_prices :: "LatestPrice list"
  sd_overrides :: "PriceOverride list"
  sd_sealed_products :: "SealedProductRow list"
  sd_sealed_prices :: "SealedPriceRow list"

type_synonym 'a shared_act = "(shared_db, 'a) act"

definition empty_shared :: shared_db where
  "empty_shared =
     \<lparr>sd_sets = [], sd_set_aliases = [], sd_cards = [], sd_variants = [], sd_printings = [], sd_groups = [],
      sd_products = [], sd_sub_types = [], sd_prices = [], sd_latest_prices = [], sd_overrides = [],
      sd_sealed_products = [], sd_sealed_prices = []\<rparr>"

text \<open>What a tenant's connection sees of it.\<close>

definition catalog_of :: "shared_db \<Rightarrow> catalog" where
  "catalog_of sd =
     \<lparr>cat_sets = map SetRow.truncate (sd_sets sd), cat_set_aliases = sd_set_aliases sd,
      cat_cards = map CardRow.truncate (sd_cards sd), cat_printings = sd_printings sd,
      cat_latest_prices = sd_latest_prices sd, cat_overrides = sd_overrides sd,
      cat_sealed_products = map SealedProduct.truncate (sd_sealed_products sd),
      cat_latest_sealed = latest_sealed_prices (map SealedObs.truncate (sd_sealed_prices sd))\<rparr>"

section \<open>Statements\<close>

text \<open>\<open>INSERT ... ON CONFLICT(key) DO UPDATE SET\<close>; \<open>f\<close> is the update of the old row with the excluded one.\<close>

definition upsert :: "('r \<Rightarrow> 'k) \<Rightarrow> ('r \<Rightarrow> 'r \<Rightarrow> 'r) \<Rightarrow> 'r \<Rightarrow> 'r list \<Rightarrow> 'r list" where
  "upsert col f r rs =
     (if list_ex (\<lambda>x. col x = col r) rs then map (\<lambda>x. if col x = col r then f r x else x) rs else rs @ [r])"

definition insert_or_ignore :: "('r \<Rightarrow> 'k) \<Rightarrow> 'r \<Rightarrow> 'r list \<Rightarrow> 'r list" where
  "insert_or_ignore col r rs = (if list_ex (\<lambda>x. col x = col r) rs then rs else rs @ [r])"

definition update_where :: "('r \<Rightarrow> bool) \<Rightarrow> ('r \<Rightarrow> 'r) \<Rightarrow> 'r list \<Rightarrow> 'r list" where
  "update_where P f rs = map (\<lambda>r. if P r then f r else r) rs"

definition has_set :: "shared_db \<Rightarrow> string \<Rightarrow> bool" where
  "has_set sd s \<longleftrightarrow> list_ex (\<lambda>r. st_code r = s) (sd_sets sd)"

definition has_card :: "shared_db \<Rightarrow> string \<Rightarrow> bool" where
  "has_card sd i \<longleftrightarrow> list_ex (\<lambda>r. cd_id r = i) (sd_cards sd)"

definition has_variant :: "shared_db \<Rightarrow> string \<Rightarrow> bool" where
  "has_variant sd v \<longleftrightarrow> list_ex (\<lambda>r. va_code r = v) (sd_variants sd)"

definition has_printing :: "shared_db \<Rightarrow> string \<Rightarrow> bool" where
  "has_printing sd i \<longleftrightarrow> list_ex (\<lambda>r. pg_id r = i) (sd_printings sd)"

text \<open>Which tables a foreign key looks at.\<close>

lemma has_set_frame [simp]:
  "has_set (sd\<lparr>sd_set_aliases := sa11\<rparr>) = has_set sd" "has_set (sd\<lparr>sd_cards := c5\<rparr>) = has_set sd"
  "has_set (sd\<lparr>sd_variants := v8\<rparr>) = has_set sd" "has_set (sd\<lparr>sd_printings := p9\<rparr>) = has_set sd"
  "has_set (sd\<lparr>sd_groups := g6\<rparr>) = has_set sd" "has_set (sd\<lparr>sd_products := p8\<rparr>) = has_set sd"
  "has_set (sd\<lparr>sd_sub_types := st9\<rparr>) = has_set sd" "has_set (sd\<lparr>sd_prices := p6\<rparr>) = has_set sd"
  "has_set (sd\<lparr>sd_latest_prices := lp13\<rparr>) = has_set sd" "has_set (sd\<lparr>sd_overrides := o9\<rparr>) = has_set sd"
  "has_set (sd\<lparr>sd_sealed_products := sp15\<rparr>) = has_set sd" "has_set (sd\<lparr>sd_sealed_prices := sp13\<rparr>) = has_set sd"
  by (rule ext, simp add: has_set_def)+

lemma has_card_frame [simp]:
  "has_card (sd\<lparr>sd_sets := s4\<rparr>) = has_card sd" "has_card (sd\<lparr>sd_set_aliases := sa11\<rparr>) = has_card sd"
  "has_card (sd\<lparr>sd_variants := v8\<rparr>) = has_card sd" "has_card (sd\<lparr>sd_printings := p9\<rparr>) = has_card sd"
  "has_card (sd\<lparr>sd_groups := g6\<rparr>) = has_card sd" "has_card (sd\<lparr>sd_products := p8\<rparr>) = has_card sd"
  "has_card (sd\<lparr>sd_sub_types := st9\<rparr>) = has_card sd" "has_card (sd\<lparr>sd_prices := p6\<rparr>) = has_card sd"
  "has_card (sd\<lparr>sd_latest_prices := lp13\<rparr>) = has_card sd" "has_card (sd\<lparr>sd_overrides := o9\<rparr>) = has_card sd"
  "has_card (sd\<lparr>sd_sealed_products := sp15\<rparr>) = has_card sd" "has_card (sd\<lparr>sd_sealed_prices := sp13\<rparr>) = has_card sd"
  by (rule ext, simp add: has_card_def)+

lemma has_variant_frame [simp]:
  "has_variant (sd\<lparr>sd_sets := s4\<rparr>) = has_variant sd" "has_variant (sd\<lparr>sd_set_aliases := sa11\<rparr>) = has_variant sd"
  "has_variant (sd\<lparr>sd_cards := c5\<rparr>) = has_variant sd" "has_variant (sd\<lparr>sd_printings := p9\<rparr>) = has_variant sd"
  "has_variant (sd\<lparr>sd_groups := g6\<rparr>) = has_variant sd" "has_variant (sd\<lparr>sd_products := p8\<rparr>) = has_variant sd"
  "has_variant (sd\<lparr>sd_sub_types := st9\<rparr>) = has_variant sd" "has_variant (sd\<lparr>sd_prices := p6\<rparr>) = has_variant sd"
  "has_variant (sd\<lparr>sd_latest_prices := lp13\<rparr>) = has_variant sd" "has_variant (sd\<lparr>sd_overrides := o9\<rparr>) = has_variant sd"
  "has_variant (sd\<lparr>sd_sealed_products := sp15\<rparr>) = has_variant sd" "has_variant (sd\<lparr>sd_sealed_prices := sp13\<rparr>) = has_variant sd"
  by (rule ext, simp add: has_variant_def)+

lemma has_printing_frame [simp]:
  "has_printing (sd\<lparr>sd_sets := s4\<rparr>) = has_printing sd" "has_printing (sd\<lparr>sd_set_aliases := sa11\<rparr>) = has_printing sd"
  "has_printing (sd\<lparr>sd_cards := c5\<rparr>) = has_printing sd" "has_printing (sd\<lparr>sd_variants := v8\<rparr>) = has_printing sd"
  "has_printing (sd\<lparr>sd_groups := g6\<rparr>) = has_printing sd" "has_printing (sd\<lparr>sd_products := p8\<rparr>) = has_printing sd"
  "has_printing (sd\<lparr>sd_sub_types := st9\<rparr>) = has_printing sd" "has_printing (sd\<lparr>sd_prices := p6\<rparr>) = has_printing sd"
  "has_printing (sd\<lparr>sd_latest_prices := lp13\<rparr>) = has_printing sd" "has_printing (sd\<lparr>sd_overrides := o9\<rparr>) = has_printing sd"
  "has_printing (sd\<lparr>sd_sealed_products := sp15\<rparr>) = has_printing sd" "has_printing (sd\<lparr>sd_sealed_prices := sp13\<rparr>) = has_printing sd"
  by (rule ext, simp add: has_printing_def)+

definition change :: "(shared_db \<Rightarrow> shared_db) \<Rightarrow> unit shared_act" where
  "change f = (\<lambda>sd. (Inr (), f sd))"

text \<open>A transaction of the ingest; a rolled-back one leaves nothing.\<close>

definition ingest_tx :: "'a shared_act \<Rightarrow> 'a shared_act" where
  "ingest_tx m = transaction (\<lambda>s s'. s) m"

definition refuse_unless :: "(shared_db \<Rightarrow> bool) \<Rightarrow> SqliteError \<Rightarrow> unit shared_act" where
  "refuse_unless P e = (\<lambda>sd. (if P sd then Inr () else Inl (Sqlite e), sd))"

text \<open>\<open>INSERT OR IGNORE INTO cards\<close>, with the number of rows it inserted (\<open>changes()\<close>).\<close>

definition insert_card :: "SharedCard \<Rightarrow> nat shared_act" where
  "insert_card c = (\<lambda>sd.
     if has_card sd (cd_id c) then (Inr 0, sd)
     else if has_set sd (cd_set c) then (Inr 1, sd\<lparr>sd_cards := sd_cards sd @ [c]\<rparr>)
     else (Inl (Sqlite ForeignKeyViolation), sd))"

text \<open>\<open>INSERT INTO printings ... ON CONFLICT(printing_id) DO UPDATE\<close>: a printing comes back to life.\<close>

definition revive_printing :: "PrintingRow \<Rightarrow> PrintingRow \<Rightarrow> PrintingRow" where
  "revive_printing new old =
     old\<lparr>pg_deprecated_at := None, pg_sub_type := pg_sub_type new, pg_product := pg_product new\<rparr>"

definition new_printing :: "string \<Rightarrow> string \<Rightarrow> string option \<Rightarrow> int option \<Rightarrow> PrintingRow" where
  "new_printing card_id variant sub_type product =
     \<lparr>pg_id = card_id @ ''-'' @ variant, pg_card = card_id, pg_variant = variant, pg_product = product,
      pg_sub_type = sub_type, pg_deprecated_at = None\<rparr>"

definition put_printing :: "PrintingRow \<Rightarrow> unit shared_act" where
  "put_printing p = (\<lambda>sd.
     if has_printing sd (pg_id p)
     then (Inr (), sd\<lparr>sd_printings := upsert pg_id revive_printing p (sd_printings sd)\<rparr>)
     else if list_ex (\<lambda>q. pg_card q = pg_card p \<and> pg_variant q = pg_variant p) (sd_printings sd)
     then (Inl (Sqlite UniqueViolation), sd)
     else if has_card sd (pg_card p) \<and> has_variant sd (pg_variant p)
     then (Inr (), sd\<lparr>sd_printings := sd_printings sd @ [p]\<rparr>)
     else (Inl (Sqlite ForeignKeyViolation), sd))"

section \<open>Upserts\<close>

lemma list_ex_key: "list_ex (\<lambda>x. col x = k) rs \<longleftrightarrow> k \<in> col ` set rs"
  by (induction rs) auto

lemma upsert_hit:
  "col r \<in> col ` set rs \<Longrightarrow> upsert col f r rs = map (\<lambda>x. if col x = col r then f r x else x) rs"
  by (simp add: upsert_def list_ex_key)

lemma upsert_miss: "col r \<notin> col ` set rs \<Longrightarrow> upsert col f r rs = rs @ [r]"
  by (simp add: upsert_def list_ex_key)

lemma set_update_where: "x \<in> set (update_where P f rs) \<longleftrightarrow> (\<exists>r \<in> set rs. x = (if P r then f r else r))"
  by (auto simp: update_where_def)

text \<open>
  The contract of an upsert that sets every column it updates from the excluded row: it keeps the key and
  what an earlier row of the same key wrote is gone.
\<close>

locale upsertable =
  fixes col :: "'r \<Rightarrow> 'k" and f :: "'r \<Rightarrow> 'r \<Rightarrow> 'r" and fresh :: "'r \<Rightarrow> bool"
  assumes key_kept: "col (f new old) = col old"
    and overwrites: "f new (f new' old) = f new old"
    and own_row: "fresh r \<Longrightarrow> f r r = r"
begin

lemma upsert_keys: "map col (upsert col f r rs) = map col rs @ (if col r \<in> col ` set rs then [] else [col r])"
  by (simp add: upsert_def list_ex_key key_kept)

lemma upsert_key_set: "col ` set (upsert col f r rs) = insert (col r) (col ` set rs)"
  using arg_cong [OF upsert_keys [of r rs], of set] by (auto split: if_splits)

lemma upsert_distinct: "distinct (map col rs) \<Longrightarrow> distinct (map col (upsert col f r rs))"
  by (auto simp: upsert_keys)

lemma upserts_distinct: "distinct (map col rs) \<Longrightarrow> distinct (map col (fold (upsert col f) xs rs))"
  by (induction xs arbitrary: rs) (simp_all add: upsert_distinct)

lemma upserts_key_set: "col ` set (fold (upsert col f) xs rs) = col ` set xs \<union> col ` set rs"
  by (induction xs arbitrary: rs) (auto simp: upsert_key_set)

text \<open>What a batch leaves of one old row.\<close>

definition settle :: "'r list \<Rightarrow> 'r \<Rightarrow> 'r" where
  "settle xs r = fold (\<lambda>x r. if col r = col x then f x r else r) xs r"

lemma settle_key [simp]: "col (settle xs r) = col r"
  unfolding settle_def by (induction xs arbitrary: r) (auto simp: key_kept)

lemma settle_last: "settle xs r = (case filter (\<lambda>x. col x = col r) xs of [] \<Rightarrow> r | ys \<Rightarrow> f (last ys) r)"
proof (induction xs rule: rev_induct)
  case (snoc x xs)
  have "settle (xs @ [x]) r = (if col r = col x then f x (settle xs r) else settle xs r)"
    using settle_key by (simp add: settle_def)
  then show ?case
    using snoc by (auto simp: overwrites split: list.splits)
qed (simp add: settle_def)

lemma settle_again [simp]: "settle xs (settle xs r) = settle xs r"
proof (cases "filter (\<lambda>x. col x = col r) xs")
  case Nil
  then show ?thesis by (simp add: settle_last)
next
  case (Cons y ys)
  then have "filter (\<lambda>x. col x = col (settle xs r)) xs = y # ys" by simp
  then show ?thesis using Cons by (simp add: settle_last [of xs] overwrites del: settle_key)
qed

lemma upserts_present:
  "col ` set xs \<subseteq> col ` set rs \<Longrightarrow> fold (upsert col f) xs rs = map (settle xs) rs"
proof (induction xs arbitrary: rs)
  case Nil
  then show ?case by (simp add: settle_def)
next
  case (Cons x xs)
  let ?m = "\<lambda>r. if col r = col x then f x r else r"
  have x: "upsert col f x rs = map ?m rs" using Cons.prems by (intro upsert_hit) auto
  have "map col (map ?m rs) = map col rs" by (simp add: key_kept)
  then have "col ` set (map ?m rs) = col ` set rs" by (metis list.set_map)
  then have "fold (upsert col f) xs (map ?m rs) = map (settle xs) (map ?m rs)"
    using Cons.prems by (intro Cons.IH) auto
  then show ?case by (simp add: x settle_def)
qed

text \<open>Every row of the table after a batch has settled.\<close>

lemma settle_snoc: "settle (xs @ [x]) q = (if col q = col x then f x q else settle xs q)"
proof -
  have "settle (xs @ [x]) q = (if col q = col x then f x (settle xs q) else settle xs q)"
    using settle_key by (simp add: settle_def)
  moreover have "f x (settle xs q) = f x q"
    by (cases "filter (\<lambda>x. col x = col q) xs") (simp_all add: settle_last overwrites)
  ultimately show ?thesis by simp
qed

lemma settle_other: "col r \<notin> col ` set xs \<Longrightarrow> settle xs r = r"
proof -
  assume "col r \<notin> col ` set xs"
  then have "filter (\<lambda>x. col x = col r) xs = []" unfolding filter_empty_conv by (metis image_eqI)
  then show ?thesis by (simp add: settle_last)
qed

lemma upserts_settled:
  "list_all fresh xs \<Longrightarrow> r \<in> set (fold (upsert col f) xs rs) \<Longrightarrow> settle xs r = r"
proof (induction xs arbitrary: r rule: rev_induct)
  case (snoc x xs)
  let ?t = "fold (upsert col f) xs rs"
  have fresh: "list_all fresh xs" "fresh x" using snoc.prems(1) by simp_all
  show ?case
  proof (cases "col x \<in> col ` set ?t")
    case True
    then obtain q where q: "q \<in> set ?t" "r = (if col q = col x then f x q else q)"
      using snoc.prems(2) by (auto simp: upsert_hit)
    have "settle xs q = q" by (rule snoc.IH [OF fresh(1) q(1)])
    then show ?thesis
      by (cases "col q = col x") (simp_all add: q(2) settle_snoc overwrites key_kept)
  next
    case False
    then have "r = x \<or> (r \<in> set ?t \<and> col r \<noteq> col x)"
      using snoc.prems(2) by (auto simp: upsert_miss intro: rev_image_eqI)
    then show ?thesis
    proof
      assume "r = x"
      then show ?thesis by (simp add: settle_snoc own_row [OF fresh(2)])
    next
      assume r: "r \<in> set ?t \<and> col r \<noteq> col x"
      then have "settle xs r = r" using snoc.IH [OF fresh(1)] by simp
      with r show ?thesis by (simp add: settle_snoc)
    qed
  qed
qed (simp add: settle_def)

lemma outside_batch:
  "col r \<notin> col ` set xs \<Longrightarrow> r \<in> set (fold (upsert col f) xs rs) \<longleftrightarrow> r \<in> set rs"
proof (induction xs arbitrary: rs)
  case (Cons x xs)
  have "r \<in> set (upsert col f x rs) \<longleftrightarrow> r \<in> set rs"
    using Cons.prems by (auto simp: upsert_def key_kept)
  then show ?case using Cons by simp
qed simp

text \<open>Importing a batch again changes nothing.\<close>

lemma upserts_again:
  assumes "list_all fresh xs"
  shows "fold (upsert col f) xs (fold (upsert col f) xs rs) = fold (upsert col f) xs rs"
proof -
  let ?t = "fold (upsert col f) xs rs"
  have "fold (upsert col f) xs ?t = map (settle xs) ?t"
    by (rule upserts_present) (simp add: upserts_key_set)
  also have "\<dots> = ?t" by (rule map_idI) (rule upserts_settled [OF assms])
  finally show ?thesis .
qed

end

text \<open>The upsert that sets every column but the key.\<close>

locale replacing = upsertable +
  assumes replaces: "col new = col old \<Longrightarrow> f new old = new"
begin

lemma after_batch:
  "r \<in> set (fold (upsert col f) xs rs) \<Longrightarrow> col r \<in> col ` set xs \<Longrightarrow> r \<in> set xs"
proof (induction xs arbitrary: rs rule: rev_induct)
  case (snoc x xs)
  let ?t = "fold (upsert col f) xs rs"
  from snoc.prems(1) have "r \<in> set (upsert col f x ?t)" by simp
  then have "r = x \<or> (r \<in> set ?t \<and> col r \<noteq> col x)"
    by (auto simp: upsert_def list_ex_key replaces split: if_splits intro: rev_image_eqI)
  then show ?case using snoc.IH [of rs] snoc.prems(2) by auto
qed simp

lemma batch_stored:
  assumes "x \<in> set xs" "distinct (map col xs)"
  shows "x \<in> set (fold (upsert col f) xs rs)"
proof -
  have "col x \<in> col ` set (fold (upsert col f) xs rs)" using assms(1) by (simp add: upserts_key_set)
  then obtain y where y: "y \<in> set (fold (upsert col f) xs rs)" "col x = col y" by auto
  then have "y \<in> set xs" using after_batch assms(1) by (metis image_eqI)
  then have "y = x" using assms y(2) by (simp add: distinct_map inj_on_def)
  then show ?thesis using y by simp
qed

end

section \<open>What the catalog's constraints promise\<close>

definition shared_ok :: "shared_db \<Rightarrow> bool" where
  "shared_ok sd \<longleftrightarrow>
     distinct (map st_code (sd_sets sd)) \<and> distinct (map cd_id (sd_cards sd)) \<and>
     distinct (map va_code (sd_variants sd)) \<and> distinct (map pg_id (sd_printings sd)) \<and>
     distinct (map (\<lambda>p. (pg_card p, pg_variant p)) (sd_printings sd)) \<and>
     distinct (map tg_id (sd_groups sd)) \<and> distinct (map tp_id (sd_products sd)) \<and>
     distinct (map sp_id (sd_sealed_products sd)) \<and>
     (\<forall>c \<in> set (sd_cards sd). has_set sd (cd_set c)) \<and>
     (\<forall>p \<in> set (sd_printings sd). has_card sd (pg_card p) \<and> has_variant sd (pg_variant p)) \<and>
     (\<forall>p \<in> set (sd_sealed_products sd). case sp_set_code p of Some s \<Rightarrow> has_set sd s | None \<Rightarrow> True) \<and>
     distinct (map fst (sd_sub_types sd)) \<and> (\<forall>e \<in> set (sd_sub_types sd). has_variant sd (snd e))"

text \<open>
  The promise to the tenants, who keep ids of the catalog in another database: nothing they can name goes
  away, a printing stays the printing of its card and variant, and an observed price stays.
\<close>

definition catalog_grows :: "shared_db \<Rightarrow> shared_db \<Rightarrow> bool" where
  "catalog_grows s s' \<longleftrightarrow>
     st_code ` set (sd_sets s) \<subseteq> st_code ` set (sd_sets s') \<and>
     cd_id ` set (sd_cards s) \<subseteq> cd_id ` set (sd_cards s') \<and>
     va_code ` set (sd_variants s) \<subseteq> va_code ` set (sd_variants s') \<and>
     (\<lambda>p. (pg_id p, pg_card p, pg_variant p)) ` set (sd_printings s) \<subseteq>
       (\<lambda>p. (pg_id p, pg_card p, pg_variant p)) ` set (sd_printings s') \<and>
     sp_id ` set (sd_sealed_products s) \<subseteq> sp_id ` set (sd_sealed_products s') \<and>
     set (sd_prices s) \<subseteq> set (sd_prices s') \<and> set (sd_sealed_prices s) \<subseteq> set (sd_sealed_prices s')"

lemma catalog_grows_refl: "catalog_grows s s"
  by (simp add: catalog_grows_def)

lemma catalog_grows_trans: "catalog_grows s s' \<Longrightarrow> catalog_grows s' s'' \<Longrightarrow> catalog_grows s s''"
  unfolding catalog_grows_def by (elim conjE, intro conjI; rule order_trans; assumption)

interpretation grows: step_relation catalog_grows "\<lambda>s s'. s"
  by unfold_locales (rule catalog_grows_refl, rule catalog_grows_trans, assumption+, rule catalog_grows_refl)

definition keeps_shared :: "shared_db \<Rightarrow> shared_db \<Rightarrow> bool" where
  "keeps_shared s s' \<longleftrightarrow> (shared_ok s \<longrightarrow> shared_ok s')"

interpretation kept: step_relation keeps_shared "\<lambda>s s'. s"
  by unfold_locales (simp_all add: keeps_shared_def)

interpretation printings: upsertable pg_id revive_printing "\<lambda>p. pg_deprecated_at p = None"
  by unfold_locales (simp_all add: revive_printing_def)

end
