(* ===== verification/Variant_Tables.thy ===== *)
theory Variant_Tables
  imports Shared_Catalog
begin

text \<open>
  The seeded tables of the catalog: display rows of the variant codes (\<open>pkdump-db/src/variants.rs\<close>), the
  group-aware map from TCGCSV sub-types to variants (\<open>sub_type_map.rs\<close>), set aliases (\<open>set_aliases.rs\<close>)
  and curated prices (\<open>catalog_prices.rs\<close>). The parsed seed files are arguments.
\<close>

section \<open>Variants\<close>

definition title_case_word :: "string \<Rightarrow> string" where
  "title_case_word w =
     (if list_all is_upper w \<and> length w \<le> 4 \<and> w \<noteq> [] then w
      else (let lower = to_ascii_lowercase w in
        if lower = ''sdcc'' \<or> lower = ''e3'' then to_ascii_uppercase lower
        else (case lower of [] \<Rightarrow> [] | c # cs \<Rightarrow> ascii_upper c # cs)))"

definition synthesize :: "string \<Rightarrow> VariantRow" where
  "synthesize code =
     \<lparr>va_code = code,
      va_label = (case strip_prefix ''stamp_'' code of
                    Some suffix \<Rightarrow> join '' '' (map title_case_word (split_char (CHR ''_'') suffix)) @ '' Stamp''
                  | None \<Rightarrow> join '' '' (map title_case_word (split_char (CHR ''_'') code))),
      va_short = (if starts_with ''stamp_'' code then ''STAMP'' else ''?''),
      va_rank = 4, va_tiebreak = 0, va_color = ''#b88cc0'', va_provenance = None, va_foil = False\<rparr>"

text \<open>The upsert sets every column but the key.\<close>

definition set_variant :: "VariantRow \<Rightarrow> VariantRow \<Rightarrow> VariantRow" where
  "set_variant new old = new\<lparr>va_code := va_code old\<rparr>"

definition upsert_variant :: "VariantRow \<Rightarrow> shared_db \<Rightarrow> shared_db" where
  "upsert_variant v sd = sd\<lparr>sd_variants := upsert va_code set_variant v (sd_variants sd)\<rparr>"

definition ensure_code :: "string \<Rightarrow> shared_db \<Rightarrow> shared_db" where
  "ensure_code code sd = sd\<lparr>sd_variants := insert_or_ignore va_code (synthesize code) (sd_variants sd)\<rparr>"

definition missing_codes :: "shared_db \<Rightarrow> string list" where
  "missing_codes sd = remdups (filter (\<lambda>v. \<not> has_variant sd v) (map pg_variant (sd_printings sd)))"

definition reconcile_variants :: "VariantRow list \<Rightarrow> nat shared_act" where
  "reconcile_variants seed = (\<lambda>sd.
     let sd = fold upsert_variant seed sd;
         unseeded = filter (\<lambda>code. code \<notin> set (map va_code seed)) (map va_code (sd_variants sd));
         sd = fold (\<lambda>code. upsert_variant (synthesize code)) unseeded sd;
         missing = missing_codes sd;
         sd = fold (\<lambda>code. upsert_variant (synthesize code)) missing sd
     in (Inr (length seed + length unseeded + length missing), sd))"

definition list_all_variants :: "shared_db \<Rightarrow> VariantRow list" where
  "list_all_variants sd = sort_key (\<lambda>v. (va_rank v, va_tiebreak v, va_code v)) (sd_variants sd)"

section \<open>Sub-types\<close>

definition GLOBAL_GROUP_ID :: int where
  "GLOBAL_GROUP_ID = 0"

record SeedGroup =
  sg_group :: int
  sg_entries :: "(string \<times> string) list"     \<comment> \<open>sub-type and variant\<close>

type_synonym SubTypeVariantMap = "(int \<times> string) \<rightharpoonup> string"

definition load_sub_types :: "shared_db \<Rightarrow> SubTypeVariantMap" where
  "load_sub_types sd = fold (\<lambda>(k, v) m. m(k \<mapsto> v)) (sd_sub_types sd) Map.empty"

definition lookup_sub_type :: "SubTypeVariantMap \<Rightarrow> int \<Rightarrow> string \<Rightarrow> string option" where
  "lookup_sub_type m group_id sub_type =
     (case m (group_id, sub_type) of
        Some v \<Rightarrow> Some v
      | None \<Rightarrow> m (GLOBAL_GROUP_ID, sub_type))"

definition insert_sub_type :: "(int \<times> string) \<times> string \<Rightarrow> unit shared_act" where
  "insert_sub_type e = (\<lambda>sd.
     if fst e \<in> set (map fst (sd_sub_types sd)) then (Inl (Sqlite UniqueViolation), sd)
     else if has_variant sd (snd e) then (Inr (), sd\<lparr>sd_sub_types := sd_sub_types sd @ [e]\<rparr>)
     else (Inl (Sqlite ForeignKeyViolation), sd))"

definition seed_entries :: "SeedGroup list \<Rightarrow> ((int \<times> string) \<times> string) list" where
  "seed_entries seed = concat (map (\<lambda>g. map (\<lambda>(s, v). ((sg_group g, s), v)) (sg_entries g)) seed)"

definition reconcile_sub_types :: "SeedGroup list \<Rightarrow> nat shared_act" where
  "reconcile_sub_types seed = ingest_tx (
     bind_act (change (\<lambda>sd. sd\<lparr>sd_sub_types := []\<rparr>)) (\<lambda>_.
     bind_act (for_each (seed_entries seed) insert_sub_type) (\<lambda>_.
     ret (length (seed_entries seed)))))"

section \<open>Aliases and curated prices\<close>

text \<open>The key of \<open>set_aliases\<close> collates without case.\<close>

definition put_alias :: "string \<times> string \<Rightarrow> (string \<times> string) list \<Rightarrow> (string \<times> string) list" where
  "put_alias a = upsert (to_ascii_lowercase \<circ> fst) (\<lambda>new old. (fst old, snd new)) a"

fun reconcile_aliases :: "(string \<times> string) list \<Rightarrow> nat shared_act" where
  "reconcile_aliases [] sd = (Inr 0, sd)"
| "reconcile_aliases (a # as) sd =
     (if has_set sd (snd a)
      then (case reconcile_aliases as (sd\<lparr>sd_set_aliases := put_alias a (sd_set_aliases sd)\<rparr>) of
              (r, sd') \<Rightarrow> (map_sum id Suc r, sd'))
      else reconcile_aliases as sd)"

definition set_override :: "PriceOverride \<Rightarrow> PriceOverride \<Rightarrow> PriceOverride" where
  "set_override new old = new\<lparr>po_printing := po_printing old\<rparr>"

fun reconcile_overrides :: "PriceOverride list \<Rightarrow> nat shared_act" where
  "reconcile_overrides [] sd = (Inr 0, sd)"
| "reconcile_overrides (r # rs) sd =
     (if has_printing sd (po_printing r)
      then (case reconcile_overrides rs (sd\<lparr>sd_overrides := upsert po_printing set_override r (sd_overrides sd)\<rparr>) of
              (n, sd') \<Rightarrow> (map_sum id Suc n, sd'))
      else reconcile_overrides rs sd)"

definition has_override :: "shared_db \<Rightarrow> string \<Rightarrow> bool" where
  "has_override sd printing_id \<longleftrightarrow> list_ex (\<lambda>r. po_printing r = printing_id) (sd_overrides sd)"

section \<open>Properties\<close>

interpretation variants: replacing va_code set_variant "\<lambda>_. True"
  by unfold_locales (simp_all add: set_variant_def)

interpretation overrides: replacing po_printing set_override "\<lambda>_. True"
  by unfold_locales (simp_all add: set_override_def)

lemma synthesize_code [simp]: "va_code (synthesize code) = code"
  by (simp add: synthesize_def)

lemma fold_upsert_variants: "fold upsert_variant vs sd = sd\<lparr>sd_variants := fold (upsert va_code set_variant) vs (sd_variants sd)\<rparr>"
  by (induction vs arbitrary: sd) (simp_all add: upsert_variant_def)

lemma fold_synthesized:
  "fold (\<lambda>code. upsert_variant (synthesize code)) codes sd = fold upsert_variant (map synthesize codes) sd"
  by (simp add: fold_map comp_def)

text \<open>
  C31. Reconciling the variants leaves exactly one row per code; a code of the seed file has the seed's row,
  every other code, whatever its row said before, the row synthesized from its name; and no printing is
  left whose variant has no row.
\<close>

theorem reconcile_variants_complete:
  assumes "reconcile_variants seed sd = (r, sd')" "distinct (map va_code (sd_variants sd))"
    "distinct (map va_code seed)"
  shows "distinct (map va_code (sd_variants sd')) \<and> set seed \<subseteq> set (sd_variants sd') \<and>
    (\<forall>v \<in> set (sd_variants sd'). v \<in> set seed \<or> v = synthesize (va_code v)) \<and>
    (\<forall>p \<in> set (sd_printings sd'). has_variant sd' (pg_variant p)) \<and> sd' = sd\<lparr>sd_variants := sd_variants sd'\<rparr>"
proof -
  let ?up = "fold (upsert va_code set_variant)"
  define t1 where "t1 = ?up seed (sd_variants sd)"
  define un where "un = filter (\<lambda>code. code \<notin> set (map va_code seed)) (map va_code t1)"
  define t2 where "t2 = ?up (map synthesize un) t1"
  define mi where "mi = missing_codes (sd\<lparr>sd_variants := t2\<rparr>)"
  define t3 where "t3 = ?up (map synthesize mi) t2"
  have sd': "sd' = sd\<lparr>sd_variants := t3\<rparr>"
    using assms(1)
    by (simp add: reconcile_variants_def Let_def fold_synthesized fold_upsert_variants t1_def un_def t2_def mi_def t3_def)
  have k1: "va_code ` set t1 = va_code ` set seed \<union> va_code ` set (sd_variants sd)"
    by (simp add: t1_def variants.upserts_key_set)
  have k2: "va_code ` set t2 = va_code ` set t1"
    by (auto simp: t2_def variants.upserts_key_set un_def image_image)
  have k3: "va_code ` set t3 = set mi \<union> va_code ` set t2"
    by (simp add: t3_def variants.upserts_key_set image_image)
  have mi: "set mi = pg_variant ` set (sd_printings sd) - va_code ` set t2"
    by (auto simp: mi_def missing_codes_def has_variant_def list_ex_key)
  have all: "v \<in> set seed \<or> v = synthesize (va_code v)" if v: "v \<in> set t3" for v
  proof (cases "va_code v \<in> set mi")
    case True
    then have "v \<in> set (map synthesize mi)"
      by (intro variants.after_batch [OF v [unfolded t3_def]]) (simp add: image_image)
    then show ?thesis by auto
  next
    case False
    then have v2: "v \<in> set t2" using v variants.outside_batch unfolding t3_def by (simp add: image_image)
    show ?thesis
    proof (cases "va_code v \<in> set un")
      case True
      then have "v \<in> set (map synthesize un)"
        by (intro variants.after_batch [OF v2 [unfolded t2_def]]) (simp add: image_image)
      then show ?thesis by auto
    next
      case False
      then have v1: "v \<in> set t1" using v2 variants.outside_batch unfolding t2_def by (simp add: image_image)
      then have "va_code v \<in> va_code ` set seed" using False by (auto simp: un_def)
      then show ?thesis using v1 variants.after_batch unfolding t1_def by blast
    qed
  qed
  have seeds: "v \<in> set t3" if v: "v \<in> set seed" for v
  proof -
    have "va_code v \<in> va_code ` set t1" using v by (simp add: k1)
    then obtain w where w: "w \<in> set t1" "va_code w = va_code v" by auto
    then have "w \<in> set seed" using v variants.after_batch unfolding t1_def by (metis image_eqI)
    then have "w = v" using assms(3) v w(2) by (simp add: distinct_map inj_on_def)
    then have v1: "v \<in> set t1" using w by simp
    have "va_code v \<notin> set un" using v by (auto simp: un_def)
    then have v2: "v \<in> set t2" using v1 variants.outside_batch unfolding t2_def by (simp add: image_image)
    then have "va_code v \<notin> set mi" by (auto simp: mi)
    then show ?thesis using v2 variants.outside_batch unfolding t3_def by (simp add: image_image)
  qed
  have dist: "distinct (map va_code t3)"
    unfolding t3_def t2_def t1_def by (intro variants.upserts_distinct assms(2))
  have cover: "has_variant sd' (pg_variant p)" if "p \<in> set (sd_printings sd')" for p
    using that unfolding sd' has_variant_def list_ex_key by (simp add: k3 mi)
  show ?thesis using dist seeds all cover by (auto simp: sd')
qed

lemma insert_sub_types_run:
  assumes "distinct (map fst es)" "set (map fst es) \<inter> set (map fst (sd_sub_types sd)) = {}"
    "list_all (\<lambda>e. has_variant sd (snd e)) es"
  shows "for_each es insert_sub_type sd = (Inr (), sd\<lparr>sd_sub_types := sd_sub_types sd @ es\<rparr>)"
  using assms
proof (induction es arbitrary: sd)
  case Nil
  show ?case by (simp add: ret_def)
next
  case (Cons e es)
  let ?sd = "sd\<lparr>sd_sub_types := sd_sub_types sd @ [e]\<rparr>"
  have hit: "insert_sub_type e sd = (Inr (), ?sd)" using Cons.prems by (auto simp: insert_sub_type_def)
  have "for_each es insert_sub_type ?sd = (Inr (), ?sd\<lparr>sd_sub_types := sd_sub_types ?sd @ es\<rparr>)"
    using Cons.prems by (intro Cons.IH) auto
  then show ?case by (simp add: bind_act_def hit)
qed

lemma insert_sub_types_ok:
  assumes "for_each es insert_sub_type sd = (Inr u, sd')"
  shows "distinct (map fst es) \<and> set (map fst es) \<inter> set (map fst (sd_sub_types sd)) = {} \<and>
         list_all (\<lambda>e. has_variant sd (snd e)) es"
  using assms
proof (induction es arbitrary: sd)
  case (Cons e es)
  let ?sd = "sd\<lparr>sd_sub_types := sd_sub_types sd @ [e]\<rparr>"
  have e: "fst e \<notin> set (map fst (sd_sub_types sd)) \<and> has_variant sd (snd e)"
  proof (rule ccontr)
    assume "\<not> ?thesis"
    then have "fst (insert_sub_type e sd) \<noteq> Inr v" "snd (insert_sub_type e sd) = sd" for v
      by (auto simp add: insert_sub_type_def simp del: set_map)
    then obtain x where "insert_sub_type e sd = (Inl x, sd)"
      by (metis prod.collapse sum.exhaust)
    then show False using Cons.prems by (simp add: bind_act_def)
  qed
  then have "insert_sub_type e sd = (Inr (), ?sd)" by (simp add: insert_sub_type_def)
  then have "for_each es insert_sub_type ?sd = (Inr u, sd')" using Cons.prems by (simp add: bind_act_def)
  from Cons.IH [OF this] e show ?case by auto
qed simp

text \<open>A later row of the same key would win; the primary key of the table leaves one.\<close>

lemma load_sub_types_entries:
  "distinct (map fst (sd_sub_types sd)) \<Longrightarrow> load_sub_types sd = map_of (sd_sub_types sd)"
proof -
  have "fold (\<lambda>(k, v) m. m(k \<mapsto> v)) es m = m ++ map_of es" if "distinct (map fst es)" for es :: "((int \<times> string) \<times> string) list" and m
    using that
  proof (induction es arbitrary: m)
    case (Cons e es)
    obtain k v where e: "e = (k, v)" by (rule prod.exhaust)
    have "map_of es k = None" using Cons.prems by (simp add: e map_of_eq_None_iff)
    then have "m(k \<mapsto> v) ++ map_of es = m ++ map_of (e # es)"
      by (auto simp: e map_add_def fun_eq_iff split: option.splits)
    moreover have "fold (\<lambda>(k, v) m. m(k \<mapsto> v)) (e # es) m = m(k \<mapsto> v) ++ map_of es"
      using Cons.IH [of "m(k \<mapsto> v)"] Cons.prems by (simp add: e del: fun_upd_apply)
    ultimately show ?case by (simp only:)
  qed simp
  then show "distinct (map fst (sd_sub_types sd)) \<Longrightarrow> load_sub_types sd = map_of (sd_sub_types sd)"
    by (simp add: load_sub_types_def)
qed

text \<open>
  Reseeding the sub-type map replaces it whole or not at all: it succeeds exactly when no key repeats
  and every variant has its row, and then a price row of a group resolves to the group's own entry, or else
  to the global one, or else to nothing.
\<close>

theorem reconcile_sub_types_outcome:
  "(if distinct (map fst (seed_entries seed)) \<and> list_all (\<lambda>e. has_variant sd (snd e)) (seed_entries seed)
    then \<exists>sd'. reconcile_sub_types seed sd = (Inr (length (seed_entries seed)), sd') \<and>
      sd' = sd\<lparr>sd_sub_types := seed_entries seed\<rparr> \<and>
      (\<forall>g s. lookup_sub_type (load_sub_types sd') g s =
         coalesce (map_of (seed_entries seed) (g, s)) (map_of (seed_entries seed) (0, s)))
    else \<exists>e. reconcile_sub_types seed sd = (Inl e, sd))"
proof -
  let ?es = "seed_entries seed" and ?sd = "sd\<lparr>sd_sub_types := []\<rparr>"
  let ?ok = "distinct (map fst ?es) \<and> list_all (\<lambda>e. has_variant sd (snd e)) ?es"
  show ?thesis
  proof (cases ?ok)
    case True
    then have "for_each ?es insert_sub_type ?sd = (Inr (), ?sd\<lparr>sd_sub_types := ?es\<rparr>)"
      by (subst insert_sub_types_run) simp_all
    then have run: "reconcile_sub_types seed sd = (Inr (length ?es), sd\<lparr>sd_sub_types := ?es\<rparr>)"
      by (simp add: reconcile_sub_types_def ingest_tx_def act_simps change_def)
    have "load_sub_types (sd\<lparr>sd_sub_types := ?es\<rparr>) = map_of ?es" using True by (simp add: load_sub_types_entries)
    then have "lookup_sub_type (load_sub_types (sd\<lparr>sd_sub_types := ?es\<rparr>)) g s =
        coalesce (map_of ?es (g, s)) (map_of ?es (0, s))" for g s
      by (simp add: lookup_sub_type_def GLOBAL_GROUP_ID_def split: option.split)
    then show ?thesis using True run by simp
  next
    case False
    have "\<exists>e s'. for_each ?es insert_sub_type ?sd = (Inl e, s')"
    proof (cases "for_each ?es insert_sub_type ?sd")
      case (Pair q s')
      show ?thesis
      proof (cases q)
        case (Inr u)
        then show ?thesis using insert_sub_types_ok [of ?es ?sd u s'] Pair False by auto
      qed (simp add: Pair)
    qed
    then obtain e s' where "for_each ?es insert_sub_type ?sd = (Inl e, s')" by blast
    then have "reconcile_sub_types seed sd = (Inl e, sd)"
      by (simp add: reconcile_sub_types_def ingest_tx_def act_simps change_def)
    then show ?thesis using False by auto
  qed
qed

definition sample_shared :: shared_db where
  "sample_shared =
     empty_shared\<lparr>
       sd_variants := [(synthesize ''normal'')\<lparr>va_label := ''old''\<rparr>, (synthesize ''stamp_e3'')\<lparr>va_label := ''stamp_e3''\<rparr>],
       sd_printings := [new_printing ''base1-4'' ''normal'' None None]\<rparr>"

lemma reconcile_variants_complete_witness:
  "\<exists>sd'. snd (reconcile_variants [(synthesize ''normal'')\<lparr>va_label := ''Normal''\<rparr>] sample_shared) = sd' \<and>
     (synthesize ''normal'')\<lparr>va_label := ''Normal''\<rparr> \<in> set (sd_variants sd') \<and>
     (\<forall>v \<in> set (sd_variants sd'). v \<in> {(synthesize ''normal'')\<lparr>va_label := ''Normal''\<rparr>} \<or> v = synthesize (va_code v))"
proof -
  let ?seed = "[(synthesize ''normal'')\<lparr>va_label := ''Normal''\<rparr>]"
  obtain r sd' where run: "reconcile_variants ?seed sample_shared = (r, sd')" by force
  show ?thesis
    using reconcile_variants_complete [OF run] unfolding run by (simp add: sample_shared_def empty_shared_def)
qed

end
