(* ===== verification/Set_Linking.thy ===== *)
theory Set_Linking
  imports Variant_Tables "HOL-Library.Multiset"
begin

text \<open>
  Which catalog set a TCGplayer group prices (\<open>pkdump-ingest/src/tcgcsv.rs\<close>): the normal form of set
  names, the two-tier automatic link and the curated bridge overlay, and the import of the groups. The
  parsed overlay is an argument.
\<close>

section \<open>Names and years\<close>

record TcgGroup =
  g_id :: int
  g_name :: string
  g_abbreviation :: "string option"
  g_published_on :: "string option"

definition is_ascii_whitespace :: "char \<Rightarrow> bool" where
  "is_ascii_whitespace c \<longleftrightarrow> (of_char c :: nat) \<in> {9, 10, 12, 13, 32}"

definition era_prefix :: "string \<Rightarrow> bool" where
  "era_prefix head \<longleftrightarrow>
     head \<noteq> [] \<and> length (trim head) \<le> 6 \<and>
     list_all (\<lambda>c. is_alnum c \<or> is_ascii_whitespace c) (trim head) \<and> list_ex is_alpha (trim head)"

fun strip_eras :: "nat \<Rightarrow> string \<Rightarrow> string" where
  "strip_eras 0 s = s"
| "strip_eras (Suc n) s =
     (let head = takeWhile (\<lambda>c. c \<noteq> CHR '':'' \<and> c \<noteq> CHR ''-'') s in
      if length head < length s \<and> era_prefix head then strip_eras n (drop (Suc (length head)) s) else s)"

definition ascii_words :: "string \<Rightarrow> string list" where
  "ascii_words s = filter (\<lambda>w. w \<noteq> []) (split_char (CHR '' '') (map (\<lambda>c. if is_alnum c then c else CHR '' '') s))"

fun drop_black_star :: "string list \<Rightarrow> string list" where
  "drop_black_star (a # b # ws) = (if a = ''black'' \<and> b = ''star'' then ws else a # drop_black_star (b # ws))"
| "drop_black_star ws = ws"

definition drop_base_set :: "string list \<Rightarrow> string list" where
  "drop_base_set ws =
     (if length ws > 2 \<and> drop (length ws - 2) ws = [''base'', ''set''] then take (length ws - 2) ws else ws)"

definition normalize_set_name :: "string \<Rightarrow> string" where
  "normalize_set_name raw =
     (let s = strip_eras 2 (to_ascii_lowercase raw);
          s = concat (map (\<lambda>c. if c = CHR ''&'' then '' and '' else [c]) s) in
      join '' '' (drop_base_set (drop_black_star (ascii_words s))))"

text \<open>Four bytes that parse are four ASCII characters, so the slice cannot split one.\<close>

definition year_of :: "string option \<Rightarrow> int option" where
  "year_of date = (case date of Some d \<Rightarrow> if length d < 4 then None else parse_i64 (take 4 d) | None \<Rightarrow> None)"

definition TIER1_MAX_YEAR_GAP :: int where
  "TIER1_MAX_YEAR_GAP = 5"

definition same_era :: "int option \<Rightarrow> int option \<Rightarrow> bool" where
  "same_era published released =
     (case (published, released) of (Some p, Some r) \<Rightarrow> \<bar>p - r\<bar> \<le> TIER1_MAX_YEAR_GAP | _ \<Rightarrow> True)"

section \<open>Automatic links\<close>

definition SET_CODE_PREFIX :: string where
  "SET_CODE_PREFIX = ''jp-''"

definition japanese :: "string \<Rightarrow> bool" where
  "japanese set_code \<longleftrightarrow> like (chars (SET_CODE_PREFIX @ ''%'')) (chars set_code)"

text \<open>\<open>ORDER BY release_date, set_code\<close>, NULL dates first.\<close>

definition linkable_sets :: "SharedSet list \<Rightarrow> SharedSet list" where
  "linkable_sets sets =
     sort_key (\<lambda>s. (case ss_release_date s of None \<Rightarrow> (0 :: nat, []) | Some d \<Rightarrow> (1, d), st_code s))
       (filter (\<lambda>s. \<not> japanese (st_code s)) sets)"

definition nonempty :: "string option \<Rightarrow> string option" where
  "nonempty x = (case x of Some s \<Rightarrow> if s = [] then None else Some s | None \<Rightarrow> None)"

definition same_code :: "string \<Rightarrow> string option \<Rightarrow> bool" where
  "same_code abbreviation code \<longleftrightarrow>
     (case nonempty code of Some c \<Rightarrow> eq_ignore_ascii_case c abbreviation | None \<Rightarrow> False)"

text \<open>Whether exactly one group of the batch carries the abbreviation.\<close>

definition specific :: "TcgGroup list \<Rightarrow> string \<Rightarrow> bool" where
  "specific groups abbreviation \<longleftrightarrow> length (filter (\<lambda>g. same_code abbreviation (g_abbreviation g)) groups) = 1"

definition by_code :: "SharedSet list \<Rightarrow> TcgGroup list \<Rightarrow> TcgGroup \<Rightarrow> SharedSet list" where
  "by_code sets groups g =
     (case nonempty (g_abbreviation g) of
        Some a \<Rightarrow>
          if specific groups a
          then filter (\<lambda>s. same_code a (st_ptcgo s) \<and>
                 same_era (year_of (g_published_on g)) (year_of (ss_release_date s))) (linkable_sets sets)
          else []
      | None \<Rightarrow> [])"

definition by_name :: "SharedSet list \<Rightarrow> TcgGroup \<Rightarrow> SharedSet list" where
  "by_name sets g = filter (\<lambda>s. normalize_set_name (st_name s) = normalize_set_name (g_name g)) (linkable_sets sets)"

definition unclaimed :: "string list \<Rightarrow> SharedSet list \<Rightarrow> string option" where
  "unclaimed claimed candidates = List.find (\<lambda>c. c \<notin> set claimed) (map st_code candidates)"

definition choose_set :: "SharedSet list \<Rightarrow> TcgGroup list \<Rightarrow> string list \<Rightarrow> TcgGroup \<Rightarrow> string option" where
  "choose_set sets groups claimed g =
     coalesce (unclaimed claimed (by_code sets groups g)) (unclaimed claimed (by_name sets g))"

fun link_groups ::
  "SharedSet list \<Rightarrow> TcgGroup list \<Rightarrow> TcgGroup list \<Rightarrow> string list \<Rightarrow> (int \<rightharpoonup> string) \<Rightarrow> (int \<rightharpoonup> string)" where
  "link_groups sets groups [] claimed links = links"
| "link_groups sets groups (g # gs) claimed links =
     (case choose_set sets groups claimed g of
        Some s \<Rightarrow> link_groups sets groups gs (s # claimed) (links(g_id g \<mapsto> s))
      | None \<Rightarrow> link_groups sets groups gs claimed links)"

definition resolve_group_set_links :: "SharedSet list \<Rightarrow> TcgGroup list \<Rightarrow> (int \<rightharpoonup> string)" where
  "resolve_group_set_links sets groups = link_groups sets groups (sort_key g_id groups) [] Map.empty"

section \<open>The bridge overlay and the import\<close>

record SetSynthesis =
  sy_ptcgo :: "string option"
  sy_name :: string
  sy_series :: string
  sy_release_date :: "string option"

record SetBridge =
  br_group :: int
  br_set :: string
  br_role :: string
  br_synthesize :: "SetSynthesis option"
  br_cards :: bool
  br_logo :: "string option"
  br_symbol :: "string option"
  br_rarity :: "string option"

definition synthesized_set :: "SetBridge \<Rightarrow> SetSynthesis \<Rightarrow> SharedSet" where
  "synthesized_set b sy =
     \<lparr>st_code = br_set b, st_ptcgo = sy_ptcgo sy, st_name = sy_name sy, st_symbol_url = br_symbol b,
      ss_series = sy_series sy, ss_total = None, ss_printed_total = None, ss_release_date = sy_release_date sy,
      ss_logo_url = br_logo b, ss_fetched_at = None, ss_discovered_from = None, ss_covered = True\<rparr>"

text \<open>Only a row upstream has not stamped is refreshed.\<close>

definition heal_set :: "string \<Rightarrow> SetSynthesis \<Rightarrow> SharedSet list \<Rightarrow> SharedSet list" where
  "heal_set set_code sy =
     update_where (\<lambda>r. st_code r = set_code \<and> ss_fetched_at r = None)
       (\<lambda>r. r\<lparr>st_ptcgo := sy_ptcgo sy, st_name := sy_name sy, ss_series := sy_series sy,
              ss_release_date := sy_release_date sy\<rparr>)"

definition apply_bridge :: "SetBridge \<Rightarrow> SharedSet list \<Rightarrow> SharedSet list" where
  "apply_bridge b sets =
     (let sets = (case br_synthesize b of
            Some sy \<Rightarrow> heal_set (br_set b) sy (insert_or_ignore st_code (synthesized_set b sy) sets)
          | None \<Rightarrow> sets) in
      if br_logo b \<noteq> None \<or> br_symbol b \<noteq> None
      then update_where (\<lambda>r. st_code r = br_set b)
             (\<lambda>r. r\<lparr>ss_logo_url := coalesce (br_logo b) (ss_logo_url r),
                    st_symbol_url := coalesce (br_symbol b) (st_symbol_url r)\<rparr>) sets
      else sets)"

text \<open>The links with their roles; a primary bridge takes the set from every other primary.\<close>

type_synonym links = "int \<rightharpoonup> string \<times> string"

definition release_primary :: "string \<Rightarrow> links \<Rightarrow> links" where
  "release_primary set_code m = (\<lambda>g. if m g = Some (set_code, ''primary'') then None else m g)"

definition bridge_link :: "SetBridge \<Rightarrow> links \<Rightarrow> links" where
  "bridge_link b m =
     (if br_role b = ''primary'' then release_primary (br_set b) m else m)(br_group b \<mapsto> (br_set b, br_role b))"

definition links_with_role :: "SetBridge list \<Rightarrow> SharedSet list \<Rightarrow> TcgGroup list \<Rightarrow> links" where
  "links_with_role bridges sets groups =
     fold bridge_link bridges (\<lambda>g. map_option (\<lambda>s. (s, ''primary'')) (resolve_group_set_links sets groups g))"

definition group_row :: "string \<Rightarrow> links \<Rightarrow> TcgGroup \<Rightarrow> TcgGroupRow" where
  "group_row now m g =
     \<lparr>tg_id = g_id g, tg_set_code = map_option fst (m (g_id g)), tg_name = g_name g,
      tg_abbreviation = g_abbreviation g, tg_published_on = g_published_on g, tg_fetched_at = now,
      tg_role = (case m (g_id g) of Some (_, r) \<Rightarrow> r | None \<Rightarrow> ''primary'')\<rparr>"

definition set_group :: "TcgGroupRow \<Rightarrow> TcgGroupRow \<Rightarrow> TcgGroupRow" where
  "set_group new old = new\<lparr>tg_id := tg_id old\<rparr>"

definition import_groups :: "SetBridge list \<Rightarrow> TcgGroup list \<Rightarrow> string \<Rightarrow> nat shared_act" where
  "import_groups bridges groups now = (\<lambda>sd.
     let sd = sd\<lparr>sd_sets := fold apply_bridge bridges (sd_sets sd)\<rparr>;
         m = links_with_role bridges (sd_sets sd) groups;
         sd = sd\<lparr>sd_groups := fold (upsert tg_id set_group) (map (group_row now m) groups) (sd_groups sd)\<rparr>
     in (Inr (length groups), sd))"

section \<open>Properties of the automatic links\<close>

definition evidence :: "SharedSet list \<Rightarrow> TcgGroup list \<Rightarrow> TcgGroup \<Rightarrow> SharedSet \<Rightarrow> bool" where
  "evidence sets groups g r \<longleftrightarrow>
     (case nonempty (g_abbreviation g) of
        Some a \<Rightarrow> specific groups a \<and> same_code a (st_ptcgo r) \<and>
          same_era (year_of (g_published_on g)) (year_of (ss_release_date r))
      | None \<Rightarrow> False) \<or>
     normalize_set_name (st_name r) = normalize_set_name (g_name g)"

lemma unclaimed_Some: "unclaimed claimed rs = Some s \<Longrightarrow> s \<notin> set claimed \<and> (\<exists>r \<in> set rs. st_code r = s)"
  unfolding unclaimed_def by (drule find_Some_D) auto

lemma choose_set_sound:
  assumes "choose_set sets groups claimed g = Some s"
  shows "s \<notin> set claimed \<and> (\<exists>r \<in> set sets. st_code r = s \<and> \<not> japanese s \<and> evidence sets groups g r)"
proof -
  have "unclaimed claimed (by_code sets groups g) = Some s \<or> unclaimed claimed (by_name sets g) = Some s"
    using assms by (auto simp: choose_set_def coalesce_Some)
  then show ?thesis
  proof
    assume "unclaimed claimed (by_code sets groups g) = Some s"
    then obtain r where r: "s \<notin> set claimed" "r \<in> set (by_code sets groups g)" "st_code r = s"
      using unclaimed_Some by blast
    then show ?thesis
      by (intro conjI bexI [of _ r])
        (auto simp: by_code_def linkable_sets_def evidence_def split: option.splits if_splits)
  next
    assume "unclaimed claimed (by_name sets g) = Some s"
    then obtain r where r: "s \<notin> set claimed" "r \<in> set (by_name sets g)" "st_code r = s"
      using unclaimed_Some by blast
    then show ?thesis
      by (intro conjI bexI [of _ r]) (auto simp: by_name_def linkable_sets_def evidence_def)
  qed
qed

definition links_ok :: "SharedSet list \<Rightarrow> TcgGroup list \<Rightarrow> (int \<rightharpoonup> string) \<Rightarrow> bool" where
  "links_ok sets groups links \<longleftrightarrow>
     (\<forall>i s. links i = Some s \<longrightarrow> \<not> japanese s \<and> (\<forall>j. links j = Some s \<longrightarrow> j = i) \<and>
        (\<exists>g \<in> set groups. \<exists>r \<in> set sets. g_id g = i \<and> st_code r = s \<and> evidence sets groups g r))"

lemma link_groups_ok:
  assumes "links_ok sets groups links" "\<forall>i s. links i = Some s \<longrightarrow> s \<in> set claimed" "set gs \<subseteq> set groups"
  shows "links_ok sets groups (link_groups sets groups gs claimed links)"
  using assms
proof (induction gs arbitrary: claimed links)
  case (Cons g gs)
  show ?case
  proof (cases "choose_set sets groups claimed g")
    case None
    then show ?thesis using Cons by simp
  next
    case (Some s)
    from choose_set_sound [OF this] obtain r where
      r: "s \<notin> set claimed" "r \<in> set sets" "st_code r = s" "\<not> japanese s" "evidence sets groups g r" by blast
    have fresh: "links i \<noteq> Some s" for i using Cons.prems(2) r(1) by blast
    have g: "g \<in> set groups" using Cons.prems(3) by simp
    have "links_ok sets groups (links(g_id g \<mapsto> s))"
      unfolding links_ok_def
    proof (intro allI impI)
      fix i t assume i: "(links(g_id g \<mapsto> s)) i = Some t"
      show "\<not> japanese t \<and> (\<forall>j. (links(g_id g \<mapsto> s)) j = Some t \<longrightarrow> j = i) \<and>
        (\<exists>g \<in> set groups. \<exists>r \<in> set sets. g_id g = i \<and> st_code r = t \<and> evidence sets groups g r)"
      proof (cases "i = g_id g")
        case True
        then have "t = s" using i by simp
        then show ?thesis using r g True fresh by auto
      next
        case False
        then have "links i = Some t" using i by simp
        then show ?thesis using Cons.prems(1) fresh unfolding links_ok_def by auto
      qed
    qed
    moreover have "\<forall>i t. (links(g_id g \<mapsto> s)) i = Some t \<longrightarrow> t \<in> set (s # claimed)"
      using Cons.prems(2) by auto
    moreover have "set gs \<subseteq> set groups" using Cons.prems(3) by simp
    ultimately have "links_ok sets groups (link_groups sets groups gs (s # claimed) (links(g_id g \<mapsto> s)))"
      by (rule Cons.IH)
    then show ?thesis by (simp only: link_groups.simps Some option.case)
  qed
qed simp

text \<open>
  C27. The automatic link is a partial matching of groups and sets with a reason for every pair: no set is
  linked to two groups, a Japanese set to none, and a linked pair either shares a code that no other group
  of the batch carries, with years at most five apart when both are known, or has the same normal name.
\<close>

theorem automatic_links_sound:
  "case resolve_group_set_links sets groups i of
     None \<Rightarrow> True
   | Some s \<Rightarrow> \<not> japanese s \<and> {j. resolve_group_set_links sets groups j = Some s} = {i} \<and>
       (\<exists>g r. g \<in> set groups \<and> r \<in> set sets \<and> g_id g = i \<and> st_code r = s \<and> evidence sets groups g r)"
proof -
  have "links_ok sets groups (resolve_group_set_links sets groups)"
    unfolding resolve_group_set_links_def by (rule link_groups_ok) (simp_all add: links_ok_def)
  then have ok: "resolve_group_set_links sets groups i = Some s \<Longrightarrow>
      \<not> japanese s \<and> (\<forall>j. resolve_group_set_links sets groups j = Some s \<longrightarrow> j = i) \<and>
      (\<exists>g \<in> set groups. \<exists>r \<in> set sets. g_id g = i \<and> st_code r = s \<and> evidence sets groups g r)" for s
    unfolding links_ok_def by blast
  show ?thesis
  proof (cases "resolve_group_set_links sets groups i")
    case (Some s)
    note o = ok [OF Some]
    have "\<forall>j. resolve_group_set_links sets groups j = Some s \<longrightarrow> j = i" using o by (elim conjE)
    then have "{j. resolve_group_set_links sets groups j = Some s} = {i}"
      by (intro set_eqI iffI) (simp_all add: Some)
    moreover obtain g r where "g \<in> set groups" "r \<in> set sets" "g_id g = i" "st_code r = s" "evidence sets groups g r"
      using o by (elim conjE bexE) (rule that; assumption)
    moreover have "\<not> japanese s" using o by (elim conjE)
    ultimately show ?thesis unfolding Some option.case by (intro conjI exI)
  qed simp
qed

lemma sort_key_unordered:
  assumes "mset xs = mset ys" "distinct (map k xs)"
  shows "sort_key k xs = sort_key k ys"
proof (rule map_sorted_distinct_set_unique [of k])
  have "set xs = set ys" using assms(1) by (metis set_mset_mset)
  then show "inj_on k (set (sort_key k xs) \<union> set (sort_key k ys))" using assms(2) by (simp add: distinct_map)
  show "set (sort_key k xs) = set (sort_key k ys)" by (simp add: \<open>set xs = set ys\<close>)
  have "mset (map k xs) = mset (map k ys)" using assms(1) by simp
  then have "distinct (map k ys)" using assms(2) by (metis mset_eq_imp_distinct_iff)
  then show "distinct (map k (sort_key k ys))" using assms by (simp add: distinct_map)
  show "distinct (map k (sort_key k xs))" using assms by (simp add: distinct_map)
qed simp_all

lemma specific_unordered: "mset xs = mset ys \<Longrightarrow> specific xs = specific ys"
  by (rule ext) (metis specific_def mset_filter size_mset)

lemma link_groups_specific:
  "specific groups = specific groups' \<Longrightarrow> link_groups sets groups gs claimed links = link_groups sets groups' gs claimed links"
proof -
  assume "specific groups = specific groups'"
  then have "choose_set sets groups claimed g = choose_set sets groups' claimed g" for claimed g
    by (simp only: choose_set_def by_code_def)
  then show ?thesis by (induction gs arbitrary: claimed links) (simp_all split: option.split)
qed

text \<open>
  The links do not depend on the order in which upstream lists the groups.
\<close>

theorem automatic_links_unordered:
  assumes "mset groups = mset groups'" "distinct (map g_id groups)"
  shows "resolve_group_set_links sets groups = resolve_group_set_links sets groups'"
  unfolding resolve_group_set_links_def
  using link_groups_specific [OF specific_unordered [OF assms(1)]] sort_key_unordered [OF assms] by metis

section \<open>Properties of the import\<close>

interpretation groups: replacing tg_id set_group "\<lambda>_. True"
  by unfold_locales (simp_all add: set_group_def)

definition one_primary :: "links \<Rightarrow> bool" where
  "one_primary m \<longleftrightarrow> (\<forall>g g' s. m g = Some (s, ''primary'') \<longrightarrow> m g' = Some (s, ''primary'') \<longrightarrow> g = g')"

lemma bridge_link_apply:
  "bridge_link b m g =
     (if g = br_group b then Some (br_set b, br_role b)
      else if br_role b = ''primary'' \<and> m g = Some (br_set b, ''primary'') then None else m g)"
  by (simp add: bridge_link_def release_primary_def)

lemma one_primary_bridge: "one_primary m \<Longrightarrow> one_primary (bridge_link b m)"
  unfolding one_primary_def bridge_link_apply by (auto split: if_splits)

lemma one_primary_links: "one_primary (links_with_role bridges sets groups)"
proof -
  let ?auto = "\<lambda>g. map_option (\<lambda>s. (s, ''primary'')) (resolve_group_set_links sets groups g)"
  have "one_primary ?auto"
    unfolding one_primary_def
  proof (intro allI impI)
    fix g g' s assume a: "?auto g = Some (s, ''primary'')" "?auto g' = Some (s, ''primary'')"
    then have "resolve_group_set_links sets groups g = Some s" "resolve_group_set_links sets groups g' = Some s" by auto
    then show "g = g'"
      using link_groups_ok [of sets groups Map.empty "[]" "sort_key g_id groups"]
      unfolding resolve_group_set_links_def links_ok_def by (simp (no_asm_use)) blast
  qed
  then show ?thesis
    unfolding links_with_role_def by (induction bridges rule: rev_induct) (simp_all add: one_primary_bridge)
qed

lemma overlay_kept:
  assumes "b \<in> set bridges" "distinct (map br_group bridges)"
    "distinct (map br_set (filter (\<lambda>b. br_role b = ''primary'') bridges))"
  shows "fold bridge_link bridges m (br_group b) = Some (br_set b, br_role b)"
  using assms
proof (induction bridges arbitrary: m rule: rev_induct)
  case (snoc x bridges)
  show ?case
  proof (cases "b = x")
    case True
    then show ?thesis by (simp add: bridge_link_def)
  next
    case False
    then have b: "b \<in> set bridges" using snoc.prems(1) by simp
    have "br_group x \<notin> br_group ` set bridges" using snoc.prems(2) by simp
    then have g: "br_group b \<noteq> br_group x" using imageI [OF b, of br_group] by metis
    have "br_role b = ''primary'' \<Longrightarrow> br_role x = ''primary'' \<Longrightarrow> br_set b \<noteq> br_set x"
    proof
      assume r: "br_role b = ''primary''" "br_role x = ''primary''" "br_set b = br_set x"
      then have "br_set x \<notin> br_set ` set (filter (\<lambda>b. br_role b = ''primary'') bridges)" using snoc.prems(3) by simp
      moreover have "br_set b \<in> br_set ` set (filter (\<lambda>b. br_role b = ''primary'') bridges)" using b r(1) by (intro imageI) simp
      ultimately show False using r(3) by metis
    qed
    moreover have "fold bridge_link bridges m (br_group b) = Some (br_set b, br_role b)"
      using snoc.prems(2,3) by (intro snoc.IH b) (auto split: if_splits)
    moreover have "fold bridge_link (bridges @ [x]) m = bridge_link x (fold bridge_link bridges m)" by simp
    ultimately show ?thesis using g bridge_link_apply [of x "fold bridge_link bridges m" "br_group b"] by auto
  qed
qed simp

text \<open>
  Importing a batch of groups, under curated bridges that name no group twice and no set twice as primary: the
  bridge of a listed group decides its set and its role whatever the automatic linking finds, no two groups of
  the batch end up as the primary group of one set, groups that upstream did not list are left exactly as they
  were, and no group row is lost. So a set can have two primary groups after the import only if one of them is
  an older row of a group that upstream no longer lists.
\<close>

theorem import_groups_one_primary:
  assumes "import_groups bridges groups now sd = (r, sd')"
    "distinct (map br_group bridges)" "distinct (map br_set (filter (\<lambda>b. br_role b = ''primary'') bridges))"
  shows "r = Inr (length groups) \<and> tg_id ` set (sd_groups sd') = tg_id ` set (sd_groups sd) \<union> g_id ` set groups \<and>
    (\<forall>a \<in> set (sd_groups sd'). tg_id a \<notin> g_id ` set groups \<longrightarrow> a \<in> set (sd_groups sd)) \<and>
    (\<forall>a \<in> set (sd_groups sd'). \<forall>b \<in> set bridges. tg_id a = br_group b \<longrightarrow> tg_id a \<in> g_id ` set groups \<longrightarrow>
       tg_set_code a = Some (br_set b) \<and> tg_role a = br_role b) \<and>
    (\<forall>a \<in> set (sd_groups sd'). \<forall>b \<in> set (sd_groups sd').
       tg_id a \<in> g_id ` set groups \<longrightarrow> tg_id b \<in> g_id ` set groups \<longrightarrow> tg_role a = ''primary'' \<longrightarrow>
       tg_role b = ''primary'' \<longrightarrow> tg_set_code a \<noteq> None \<longrightarrow> tg_set_code a = tg_set_code b \<longrightarrow> tg_id a = tg_id b)"
proof -
  define sets where "sets = fold apply_bridge bridges (sd_sets sd)"
  define m where "m = links_with_role bridges sets groups"
  have sd': "r = Inr (length groups)"
    "sd_groups sd' = fold (upsert tg_id set_group) (map (group_row now m) groups) (sd_groups sd)"
    using assms(1) by (auto simp: import_groups_def Let_def m_def sets_def)
  have ids: "tg_id ` set (map (group_row now m) groups) = g_id ` set groups"
    by (simp add: image_image group_row_def)
  have row: "tg_set_code a = map_option fst (m (tg_id a)) \<and>
      tg_role a = (case m (tg_id a) of Some (_, r) \<Rightarrow> r | None \<Rightarrow> ''primary'')"
    if "a \<in> set (sd_groups sd')" "tg_id a \<in> g_id ` set groups" for a
  proof -
    have "a \<in> set (map (group_row now m) groups)"
      using that groups.after_batch unfolding sd'(2) by (metis ids)
    then show ?thesis by (auto simp: group_row_def)
  qed
  have over: "m (br_group b) = Some (br_set b, br_role b)" if "b \<in> set bridges" for b
    unfolding m_def links_with_role_def by (rule overlay_kept [OF that assms(2,3)])
  have one: "tg_id a = tg_id b"
    if ab: "a \<in> set (sd_groups sd')" "b \<in> set (sd_groups sd')" "tg_id a \<in> g_id ` set groups"
      "tg_id b \<in> g_id ` set groups" and p: "tg_role a = ''primary''" "tg_role b = ''primary''"
      and s: "tg_set_code a = Some s" "tg_set_code b = Some s" for a b s
  proof -
    have "m (tg_id a) = Some (s, ''primary'')" "m (tg_id b) = Some (s, ''primary'')"
      using row [OF ab(1,3)] row [OF ab(2,4)] p s by (auto split: option.splits)
    then show ?thesis using one_primary_links [of bridges sets groups] unfolding one_primary_def m_def by blast
  qed
  show ?thesis
  proof (intro conjI ballI impI)
    show "r = Inr (length groups)" by (rule sd')
    show "tg_id ` set (sd_groups sd') = tg_id ` set (sd_groups sd) \<union> g_id ` set groups"
      unfolding sd'(2) groups.upserts_key_set ids by blast
    show "a \<in> set (sd_groups sd)" if "a \<in> set (sd_groups sd')" "tg_id a \<notin> g_id ` set groups" for a
      using that groups.outside_batch unfolding sd'(2) by (metis ids)
    show "tg_set_code a = Some (br_set b)" "tg_role a = br_role b"
      if "a \<in> set (sd_groups sd')" "b \<in> set bridges" "tg_id a = br_group b" "tg_id a \<in> g_id ` set groups" for a b
      using row [OF that(1,4)] over [OF that(2)] that(3) by simp_all
    show "tg_id a = tg_id b"
      if "a \<in> set (sd_groups sd')" "b \<in> set (sd_groups sd')" "tg_id a \<in> g_id ` set groups" "tg_id b \<in> g_id ` set groups"
        "tg_role a = ''primary''" "tg_role b = ''primary''" "tg_set_code a \<noteq> None" "tg_set_code a = tg_set_code b" for a b
      using one [OF that(1,2,3,4,5,6)] that(7,8) by auto
  qed
qed

section \<open>Sample data\<close>

definition sample_set :: "string \<Rightarrow> string \<Rightarrow> string \<Rightarrow> string \<Rightarrow> SharedSet" where
  "sample_set code abbreviation name date =
     \<lparr>st_code = code, st_ptcgo = Some abbreviation, st_name = name, st_symbol_url = None, ss_series = ''Base'',
      ss_total = None, ss_printed_total = Some 102, ss_release_date = Some date, ss_logo_url = None,
      ss_fetched_at = Some ''2026-01-01'', ss_discovered_from = None, ss_covered = True\<rparr>"

definition sample_sets :: "SharedSet list" where
  "sample_sets = [sample_set ''base1'' ''BS'' ''Base'' ''1999/01/09'', sample_set ''swsh5'' ''BST'' ''Battle Styles'' ''2021/03/19'']"

definition base_group :: TcgGroup where
  "base_group = \<lparr>g_id = 604, g_name = ''Base Set'', g_abbreviation = Some ''bs'', g_published_on = Some ''1999-01-09''\<rparr>"

definition stadium_group :: TcgGroup where
  "stadium_group =
     \<lparr>g_id = 1853, g_name = ''EX Battle Stadium'', g_abbreviation = Some ''BST'', g_published_on = Some ''2005-01-01''\<rparr>"

definition shadowless_group :: TcgGroup where
  "shadowless_group = \<lparr>g_id = 1663, g_name = ''Base Set (Shadowless)'', g_abbreviation = None, g_published_on = None\<rparr>"

definition shadowless_bridge :: SetBridge where
  "shadowless_bridge =
     \<lparr>br_group = 1663, br_set = ''base1'', br_role = ''shadowless'', br_synthesize = None, br_cards = False,
      br_logo = None, br_symbol = None, br_rarity = None\<rparr>"

lemma automatic_links_unordered_witness:
  "resolve_group_set_links sample_sets [base_group, stadium_group] =
   resolve_group_set_links sample_sets [stadium_group, base_group]"
  by (rule automatic_links_unordered) (simp_all add: base_group_def stadium_group_def)

lemma import_groups_one_primary_witness:
  "\<exists>sd'. import_groups [shadowless_bridge] [base_group, shadowless_group] ''now'' (empty_shared\<lparr>sd_sets := sample_sets\<rparr>)
      = (Inr 2, sd') \<and> tg_id ` set (sd_groups sd') = {604, 1663} \<and>
     (\<forall>a \<in> set (sd_groups sd'). tg_id a = 1663 \<longrightarrow> tg_set_code a = Some ''base1'' \<and> tg_role a = ''shadowless'')"
proof -
  obtain r sd' where run: "import_groups [shadowless_bridge] [base_group, shadowless_group] ''now''
      (empty_shared\<lparr>sd_sets := sample_sets\<rparr>) = (r, sd')" by (rule prod.exhaust)
  have p: "r = Inr 2" "tg_id ` set (sd_groups sd') = {604, 1663}"
    "\<forall>a \<in> set (sd_groups sd'). tg_id a = 1663 \<longrightarrow> tg_set_code a = Some ''base1'' \<and> tg_role a = ''shadowless''"
    using import_groups_one_primary [OF run]
    by (simp_all add: shadowless_bridge_def base_group_def shadowless_group_def empty_shared_def)
  show ?thesis unfolding run p(1) using p(2,3) by blast
qed

end
