(* ===== verification/Product_Import.thy ===== *)
theory Product_Import
  imports Set_Linking Card_Number Variant
begin

text \<open>
  The products and prices of a TCGplayer group (\<open>pkdump-ingest/src/tcgcsv.rs\<close>): telling cards from sealed
  products, normalising collector numbers, filing products and prices, and building cards for groups whose
  set upstream has not published.
\<close>

section \<open>Products\<close>

record TcgProduct =
  pr_id :: int
  pr_group :: int
  pr_name :: string
  pr_image_url :: "string option"
  pr_url :: "string option"
  pr_image_count :: int
  pr_extended :: "(string \<times> string) list"

record TcgPrice =
  tq_product :: int
  tq_sub_type :: "string option"
  tq_low :: "f64 option"
  tq_mid :: "f64 option"
  tq_high :: "f64 option"
  tq_market :: "f64 option"
  tq_direct_low :: "f64 option"

definition extended_value :: "string \<Rightarrow> TcgProduct \<Rightarrow> string option" where
  "extended_value name p =
     map_option snd (List.find (\<lambda>e. eq_ignore_ascii_case (fst e) name) (pr_extended p))"

definition is_single_card :: "TcgProduct \<Rightarrow> bool" where
  "is_single_card p \<longleftrightarrow> list_ex (\<lambda>e. eq_ignore_ascii_case (fst e) ''Number'') (pr_extended p)"

text \<open>The digits on both sides of the first slash that has some; \<open>seen\<close> is the text before, reversed.\<close>

fun fraction_from :: "string \<Rightarrow> string \<Rightarrow> (string \<times> string) option" where
  "fraction_from seen [] = None"
| "fraction_from seen (c # cs) =
     (let num = rev (takeWhile is_digit seen); den = takeWhile is_digit cs in
      if c = CHR ''/'' \<and> num \<noteq> [] \<and> den \<noteq> [] then Some (num, den) else fraction_from (c # seen) cs)"

definition name_number_fraction :: "string \<Rightarrow> (string \<times> string) option" where
  "name_number_fraction name = fraction_from [] name"

text \<open>A run of digits that overflows \<open>u64\<close> counts as 0.\<close>

definition digit_run :: "string \<Rightarrow> string" where
  "digit_run ds = (if ds = [] then [] else show_nat (if digits_val ds < 2 ^ 64 then digits_val ds else 0))"

fun collapse_digits :: "string \<Rightarrow> string \<Rightarrow> string" where
  "collapse_digits [] run = digit_run run"
| "collapse_digits (c # cs) run =
     (if is_digit c then collapse_digits cs (run @ [c]) else digit_run run @ c # collapse_digits cs [])"

definition normalize_collector_number :: "string \<Rightarrow> string" where
  "normalize_collector_number raw =
     collapse_digits (to_ascii_lowercase (trim (takeWhile (\<lambda>c. c \<noteq> CHR ''/'') raw))) []"

definition restore_truncated_set_total :: "string \<Rightarrow> string \<Rightarrow> string option" where
  "restore_truncated_set_total number name =
     (if contains ''/'' number then None
      else (case name_number_fraction name of
              Some (num, den) \<Rightarrow>
                if normalize_collector_number num = normalize_collector_number number
                then Some (num @ ''/'' @ den) else None
            | None \<Rightarrow> None))"

definition classify_sealed :: "runtime \<Rightarrow> string \<Rightarrow> string" where
  "classify_sealed rt name =
     (let n = str_lower rt name in
      if contains ''elite trainer box'' n \<or> contains ''etb'' n then ''elite_trainer_box''
      else if contains ''booster box'' n then ''booster_box''
      else if contains ''bundle'' n then ''bundle''
      else if contains ''tin'' n then ''tin''
      else if contains ''blister'' n \<or> contains ''sleeved booster'' n then ''blister''
      else if contains ''premium'' n \<or> contains ''collection'' n then ''collection_box''
      else if contains ''case'' n then ''case''
      else if contains ''booster pack'' n \<or> ends_with '' pack'' n then ''booster_pack''
      else ''other'')"

section \<open>Filing products\<close>

definition set_of_group :: "shared_db \<Rightarrow> int \<Rightarrow> string option" where
  "set_of_group sd g = (case List.find (\<lambda>r. tg_id r = g) (sd_groups sd) of Some r \<Rightarrow> tg_set_code r | None \<Rightarrow> None)"

definition sealed_product_row :: "runtime \<Rightarrow> string \<Rightarrow> shared_db \<Rightarrow> TcgProduct \<Rightarrow> SealedProductRow" where
  "sealed_product_row rt now sd p =
     \<lparr>sp_id = pr_id p, sp_set_code = set_of_group sd (pr_group p), sp_name = pr_name p,
      sp_category = classify_sealed rt (pr_name p), sp_image_url = pr_image_url p, sp_release_date = None,
      sr_url = pr_url p, sr_fetched_at = now\<rparr>"

definition set_sealed :: "SealedProductRow \<Rightarrow> SealedProductRow \<Rightarrow> SealedProductRow" where
  "set_sealed new old =
     old\<lparr>sp_set_code := sp_set_code new, sp_name := sp_name new, sp_category := sp_category new,
         sp_image_url := sp_image_url new, sr_url := sr_url new, sr_fetched_at := sr_fetched_at new\<rparr>"

definition put_sealed :: "SealedProductRow \<Rightarrow> unit shared_act" where
  "put_sealed r = (\<lambda>sd.
     if (case sp_set_code r of Some s \<Rightarrow> has_set sd s | None \<Rightarrow> True)
     then (Inr (), sd\<lparr>sd_sealed_products := upsert sp_id set_sealed r (sd_sealed_products sd)\<rparr>)
     else (Inl (Sqlite ForeignKeyViolation), sd))"

definition put_sealed_product :: "runtime \<Rightarrow> string \<Rightarrow> TcgProduct \<Rightarrow> unit shared_act" where
  "put_sealed_product rt now p = (\<lambda>sd. put_sealed (sealed_product_row rt now sd p) sd)"

definition import_sealed_products :: "runtime \<Rightarrow> TcgProduct list \<Rightarrow> string \<Rightarrow> nat shared_act" where
  "import_sealed_products rt products now =
     (let sealed = filter (\<lambda>p. \<not> is_single_card p) products in
      ingest_tx (bind_act (for_each sealed (put_sealed_product rt now)) (\<lambda>_. ret (length sealed))))"

definition product_number :: "TcgProduct \<Rightarrow> string option" where
  "product_number p =
     (let number = trim (case extended_value ''Number'' p of Some v \<Rightarrow> v | None \<Rightarrow> []) in
      if number = [] then None
      else Some (case restore_truncated_set_total number (pr_name p) of Some r \<Rightarrow> r | None \<Rightarrow> number))"

definition usable_image :: "TcgProduct \<Rightarrow> string option" where
  "usable_image p = (if pr_image_count p > 0 then pr_image_url p else None)"

definition product_row :: "runtime \<Rightarrow> string \<Rightarrow> string \<Rightarrow> TcgProduct \<Rightarrow> ProductRow" where
  "product_row rt now number p =
     \<lparr>tp_id = pr_id p, tp_group = pr_group p, tp_name = pr_name p, tp_number = Some number,
      tp_variant = coalesce (variant_from_product_name rt (pr_name p)) (map_option fst (parse_stamp_tag rt (pr_name p))),
      tp_fetched_at = now, tp_image_url = usable_image p,
      tp_rarity = nonempty (map_option trim (extended_value ''Rarity'' p))\<rparr>"

definition set_product :: "ProductRow \<Rightarrow> ProductRow \<Rightarrow> ProductRow" where
  "set_product new old = new\<lparr>tp_id := tp_id old\<rparr>"

definition card_products :: "runtime \<Rightarrow> string \<Rightarrow> TcgProduct list \<Rightarrow> ProductRow list" where
  "card_products rt now products =
     concat (map (\<lambda>p. if is_single_card p
                      then (case product_number p of Some n \<Rightarrow> [product_row rt now n p] | None \<Rightarrow> [])
                      else []) products)"

definition put_products :: "ProductRow list \<Rightarrow> shared_db \<Rightarrow> shared_db" where
  "put_products rows sd = sd\<lparr>sd_products := fold (upsert tp_id set_product) rows (sd_products sd)\<rparr>"

definition import_products :: "runtime \<Rightarrow> TcgProduct list \<Rightarrow> string \<Rightarrow> nat shared_act" where
  "import_products rt products now = (\<lambda>sd.
     let rows = card_products rt now products in (Inr (length rows), put_products rows sd))"

section \<open>Prices\<close>

definition price_key :: "PriceObs \<Rightarrow> int \<times> string \<times> string \<times> string \<times> string" where
  "price_key r = (px_product r, px_sub_type r, px_source r, px_type r, px_observed_at r)"

definition sealed_price_key :: "SealedPriceRow \<Rightarrow> int \<times> string" where
  "sealed_price_key r = (sx_product r, sx_observed_at r)"

definition sealed_price_row :: "string \<Rightarrow> TcgPrice \<Rightarrow> SealedPriceRow" where
  "sealed_price_row observed_at p =
     \<lparr>sx_product = tq_product p, sx_mid = tq_mid p, sx_market = tq_market p, sx_observed_at = observed_at,
      sz_low = tq_low p, sz_high = tq_high p, sz_direct_low = tq_direct_low p\<rparr>"

definition price_rows :: "string \<Rightarrow> TcgPrice \<Rightarrow> PriceObs list" where
  "price_rows observed_at p =
     concat (map (\<lambda>(price_type, v). case v of
         Some x \<Rightarrow> [\<lparr>px_product = tq_product p,
                     px_sub_type = (case tq_sub_type p of Some s \<Rightarrow> s | None \<Rightarrow> ''Normal''),
                     px_source = ''tcgplayer'', px_type = price_type, px_price = x, px_observed_at = observed_at\<rparr>]
       | None \<Rightarrow> [])
       [(''low'', tq_low p), (''mid'', tq_mid p), (''high'', tq_high p), (''market'', tq_market p),
        (''directLow'', tq_direct_low p)])"

definition import_price :: "int set \<Rightarrow> string \<Rightarrow> TcgPrice \<Rightarrow> nat \<times> shared_db \<Rightarrow> nat \<times> shared_db" where
  "import_price sealed observed_at p = (\<lambda>(n, sd).
     if tq_product p \<in> sealed
     then (n + 1, sd\<lparr>sd_sealed_prices :=
             insert_or_ignore sealed_price_key (sealed_price_row observed_at p) (sd_sealed_prices sd)\<rparr>)
     else (n + length (price_rows observed_at p),
           sd\<lparr>sd_prices := fold (insert_or_ignore price_key) (price_rows observed_at p) (sd_prices sd)\<rparr>))"

definition import_prices :: "TcgPrice list \<Rightarrow> string \<Rightarrow> nat shared_act" where
  "import_prices prices observed_at = (\<lambda>sd.
     let sealed = set (map sp_id (sd_sealed_products sd));
         (n, sd) = fold (import_price sealed observed_at) prices (0, sd)
     in (Inr n, sd))"

section \<open>Cards for groups without an upstream set\<close>

fun first_some :: "('a \<Rightarrow> 'b option) \<Rightarrow> 'a list \<Rightarrow> 'b option" where
  "first_some f [] = None"
| "first_some f (x # xs) = coalesce (f x) (first_some f xs)"

fun sum_each :: "'x list \<Rightarrow> ('x \<Rightarrow> nat shared_act) \<Rightarrow> nat shared_act" where
  "sum_each [] f = ret 0"
| "sum_each (x # xs) f = bind_act (f x) (\<lambda>n. bind_act (sum_each xs f) (\<lambda>m. ret (n + m)))"

definition blank_card :: "string \<Rightarrow> string \<Rightarrow> string \<Rightarrow> string \<Rightarrow> SharedCard" where
  "blank_card card_id set_code number name =
     \<lparr>cd_id = card_id, cd_set = set_code, cd_number = number, cd_name = name, cd_rarity = None, cd_artist = None,
      cd_supertype = None, cd_subtypes = None, cd_types = None, cd_attacks = None, cd_image_small = None,
      cd_image_large = None, cd_hp = None, sc_number_sortable = number_sortable number, sc_flavor_text = None,
      sc_abilities = None, sc_weaknesses = None, sc_resistances = None, sc_retreat_cost = None,
      sc_regulation_mark = None, sc_pokedex = None, sc_legalities = None, sc_raw_json = None\<rparr>"

definition numbered_products :: "shared_db \<Rightarrow> int \<Rightarrow> ProductRow list" where
  "numbered_products sd group_id =
     sort_key (\<lambda>p. (if contains ''['' (tp_name p) \<or> contains ''('' (tp_name p) then 1 else 0 :: nat, tp_id p))
       (filter (\<lambda>p. tp_group p = group_id \<and> tp_number p \<noteq> None) (sd_products sd))"

definition by_number :: "ProductRow list \<Rightarrow> (string \<times> ProductRow list) list" where
  "by_number rows = group_by (\<lambda>p. normalize_collector_number (the (tp_number p))) rows"

text \<open>The one thing an upstream card takes from a product is a rarity more specific than Common.\<close>

definition refine_rarity :: "string \<Rightarrow> string option \<Rightarrow> SharedCard list \<Rightarrow> SharedCard list" where
  "refine_rarity card_id rarity cards =
     (case rarity of
        Some r \<Rightarrow>
          if eq_ignore_ascii_case r ''common'' then cards
          else update_where (\<lambda>c. cd_id c = card_id \<and> sc_raw_json c \<noteq> None \<and>
                 (cd_rarity c = None \<or> cd_rarity c = Some ''Common'')) (\<lambda>c. c\<lparr>cd_rarity := Some r\<rparr>) cards
      | None \<Rightarrow> cards)"

definition heal_card :: "string \<Rightarrow> string \<Rightarrow> string option \<Rightarrow> string option \<Rightarrow> SharedCard list \<Rightarrow> SharedCard list" where
  "heal_card card_id name rarity img =
     update_where (\<lambda>c. cd_id c = card_id \<and> sc_raw_json c = None)
       (\<lambda>c. c\<lparr>cd_name := name, cd_rarity := rarity, cd_image_small := img, cd_image_large := img\<rparr>)"

definition synthesize_card ::
  "string \<Rightarrow> string option \<Rightarrow> string \<times> ProductRow list \<Rightarrow> nat shared_act" where
  "synthesize_card set_code rarity_override = (\<lambda>(number, products).
     let name = parse_product_card_name (tp_name (hd products));
         img = first_some tp_image_url products;
         rarity = coalesce rarity_override (first_some tp_rarity products);
         card_id = set_code @ ''-'' @ number in
     bind_act (insert_card ((blank_card card_id set_code number name)
       \<lparr>cd_rarity := rarity, cd_image_small := img, cd_image_large := img\<rparr>)) (\<lambda>n.
     bind_act (change (\<lambda>sd. sd\<lparr>sd_cards := heal_card card_id name rarity img
       (refine_rarity card_id rarity (sd_cards sd))\<rparr>)) (\<lambda>_. ret n)))"

definition synthesize_cards_for_group :: "int \<Rightarrow> string \<Rightarrow> string option \<Rightarrow> nat shared_act" where
  "synthesize_cards_for_group group_id set_code rarity_override =
     bind_act (query (\<lambda>sd. by_number (numbered_products sd group_id))) (\<lambda>groups.
     sum_each groups (synthesize_card set_code rarity_override))"

definition synthesize_cards_for_bridges :: "SetBridge list \<Rightarrow> nat shared_act" where
  "synthesize_cards_for_bridges bridges =
     ingest_tx (sum_each (filter br_cards bridges)
       (\<lambda>b. synthesize_cards_for_group (br_group b) (br_set b) (br_rarity b)))"

section \<open>Collector numbers\<close>

lemma collapse_digits_run: "list_all is_digit ds \<Longrightarrow> collapse_digits (ds @ s) run = collapse_digits s (run @ ds)"
  by (induction ds arbitrary: run) simp_all

lemma digit_run_digits: "list_all is_digit (digit_run ds)"
  by (simp add: digit_run_def show_nat_def nat_digits_digits)

lemma digit_run_again: "digit_run (digit_run ds) = digit_run ds"
  by (simp add: digit_run_def show_nat_def nat_digits_nonempty)

lemma collapse_digits_again:
  "list_all is_digit run \<Longrightarrow> collapse_digits (collapse_digits s run) [] = collapse_digits s run"
proof (induction s arbitrary: run)
  case Nil
  then show ?case
    using collapse_digits_run [of "digit_run run" "[]" "[]"] digit_run_digits [of run] by (simp add: digit_run_again)
next
  case (Cons c s)
  show ?case
  proof (cases "is_digit c")
    case True
    then show ?thesis using Cons by simp
  next
    case False
    have "collapse_digits (digit_run run @ c # collapse_digits s []) [] =
        collapse_digits (c # collapse_digits s []) (digit_run run)"
      using collapse_digits_run [of "digit_run run" _ "[]"] digit_run_digits [of run] by simp
    then show ?thesis using False Cons.IH [of "[]"] by (simp add: digit_run_again)
  qed
qed

lemma set_collapse_digits: "c \<in> set (collapse_digits s run) \<Longrightarrow> is_digit c \<or> c \<in> set s"
proof (induction s arbitrary: run)
  case Nil
  then show ?case using digit_run_digits [of run] by (auto simp: list_all_iff)
next
  case (Cons d s)
  then show ?case using digit_run_digits [of run] by (auto simp: list_all_iff split: if_splits)
qed

lemma collapse_digits_Nil: "run \<noteq> [] \<Longrightarrow> collapse_digits s run \<noteq> []"
  by (induction s arbitrary: run) (auto simp: digit_run_def show_nat_def nat_digits_nonempty)

lemma hd_collapse_digits:
  "collapse_digits s run \<noteq> [] \<Longrightarrow>
   is_digit (hd (collapse_digits s run)) \<or> (s \<noteq> [] \<and> hd (collapse_digits s run) = hd s)"
proof (induction s arbitrary: run)
  case Nil
  then show ?case using digit_run_digits [of run] by (cases "digit_run run") simp_all
next
  case (Cons d s)
  show ?case
  proof (cases "is_digit d")
    case True
    have "run @ [d] \<noteq> []" by simp
    have "is_digit (hd (collapse_digits s (run @ [d])))"
      if "run @ [d] \<noteq> []" for s run d
      using that
    proof (induction s arbitrary: run d)
      case Nil
      then show ?case
        using digit_run_digits [of "run @ [d]"] nat_digits_nonempty
        by (cases "digit_run (run @ [d])") (simp_all add: digit_run_def show_nat_def)
    next
      case (Cons e s)
      have "digit_run (run @ [d]) \<noteq> []" by (simp add: digit_run_def show_nat_def nat_digits_nonempty)
      then show ?case
        using Cons.IH [of "run @ [d]" e] digit_run_digits [of "run @ [d]"]
        by (cases "digit_run (run @ [d])") simp_all
    qed
    then show ?thesis using True by simp
  next
    case False
    then show ?thesis using digit_run_digits [of run] by (cases "digit_run run") simp_all
  qed
qed

lemma last_collapse_digits:
  "collapse_digits s run \<noteq> [] \<Longrightarrow>
   is_digit (last (collapse_digits s run)) \<or> (s \<noteq> [] \<and> last (collapse_digits s run) = last s)"
proof (induction s arbitrary: run)
  case Nil
  then have "last (digit_run run) \<in> set (digit_run run)" by simp
  then show ?case using digit_run_digits [of run] by (auto simp: list_all_iff)
next
  case (Cons d s)
  show ?case
  proof (cases "is_digit d")
    case True
    then show ?thesis using Cons.IH [of "run @ [d]"] Cons.prems by auto
  next
    case False
    show ?thesis
    proof (cases "collapse_digits s [] = []")
      case True
      then have "s = []" using collapse_digits_Nil by (cases s) (auto split: if_splits)
      then show ?thesis using False by (simp add: digit_run_def)
    next
      case False
      then have "s \<noteq> []" by (cases s) (auto simp: digit_run_def)
      then show ?thesis using Cons.IH [OF False] \<open>\<not> is_digit d\<close> False by simp
    qed
  qed
qed

lemma ascii_lower_slash: "ascii_lower d = CHR ''/'' \<Longrightarrow> d = CHR ''/''"
proof (rule ccontr)
  assume s: "ascii_lower d = CHR ''/''" and "d \<noteq> CHR ''/''"
  then have u: "is_upper d" by (auto simp: ascii_lower_def split: if_splits)
  have "(of_char (ascii_lower d) :: nat) = 47" unfolding s by simp
  moreover have "(of_char (ascii_lower d) :: nat) = of_char d + 32" using u by (simp add: ascii_lower_def is_upper_def)
  ultimately show False using u by (simp add: is_upper_def)
qed

abbreviation blank :: "char \<Rightarrow> bool" where
  "blank c \<equiv> is_whitespace [c]"

lemma blank_lower: "blank (ascii_lower c) \<Longrightarrow> blank c"
  by (cases "is_upper c") (auto simp: is_whitespace_def whitespace_codes_def ascii_lower_def is_upper_def)

lemma trim_ascii: "list_all is_ascii s \<Longrightarrow> trim s = rev (dropWhile blank (rev (dropWhile blank s)))"
  by (simp add: trim_def chars_ascii dropWhile_map rev_map concat_map_singleton comp_def)

lemma trimmed_ascii:
  assumes "list_all is_ascii s" "trim s \<noteq> []"
  shows "\<not> blank (hd (trim s)) \<and> \<not> blank (last (trim s)) \<and> list_all is_ascii (trim s)"
proof -
  let ?d = "dropWhile blank s" and ?t = "rev (dropWhile blank (rev (dropWhile blank s)))"
  have t: "trim s = ?t" by (rule trim_ascii [OF assms(1)])
  have ne: "dropWhile blank (rev ?d) \<noteq> []" using assms(2) unfolding t by simp
  have last: "\<not> blank (last ?t)" using hd_dropWhile [OF ne] by (simp add: last_rev)
  have "?d \<noteq> []" using ne by (metis dropWhile.simps(1) rev.simps(1))
  then have hd: "\<not> blank (hd ?d)" by (rule hd_dropWhile)
  have "?d = ?t @ rev (takeWhile blank (rev ?d))"
    by (metis rev_append rev_rev_ident takeWhile_dropWhile_id)
  then have "hd ?t = hd ?d" using ne by (metis hd_append2 rev_is_Nil_conv)
  moreover have "list_all is_ascii ?t"
    using assms(1) set_dropWhileD by (fastforce simp: list_all_iff dest: set_dropWhileD)
  ultimately show ?thesis using hd last t by simp
qed

text \<open>
  Normalising a collector number is idempotent, so the two upstreams can be normalised and compared in
  any order.
\<close>

theorem normalize_collector_number_idempotent:
  assumes "list_all is_ascii raw"
  shows "normalize_collector_number (normalize_collector_number raw) = normalize_collector_number raw"
proof -
  let ?w = "takeWhile (\<lambda>c. c \<noteq> CHR ''/'') raw"
  define t where "t = trim ?w"
  define n where "n = normalize_collector_number raw"
  have n: "n = collapse_digits (to_ascii_lowercase t) []" by (simp add: n_def normalize_collector_number_def t_def)
  have w: "list_all is_ascii ?w" using assms by (auto simp: list_all_iff dest: set_takeWhileD)
  have t: "list_all is_ascii t" "t \<noteq> [] \<Longrightarrow> \<not> blank (hd t) \<and> \<not> blank (last t)"
    using trimmed_ascii [OF w] by (cases "t = []"; simp add: t_def)+
  have tw: "set t \<subseteq> set ?w"
    unfolding t_def trim_ascii [OF w] by (auto dest!: set_dropWhileD)
  have chars: "is_digit c \<or> (\<exists>d \<in> set t. c = ascii_lower d)" if "c \<in> set n" for c
    using set_collapse_digits that unfolding n to_ascii_lowercase_def by fastforce
  have lower: "to_ascii_lowercase n = n"
    unfolding to_ascii_lowercase_def by (rule map_idI) (auto dest: chars simp: ascii_lower_digit)
  have "CHR ''/'' \<notin> set n"
  proof
    assume "CHR ''/'' \<in> set n"
    then obtain d where "d \<in> set t" "CHR ''/'' = ascii_lower d" using chars by (force simp: is_digit_def)
    then have "CHR ''/'' \<in> set t" using ascii_lower_slash [of d] by simp
    then show False using tw set_takeWhileD by fastforce
  qed
  then have slash: "takeWhile (\<lambda>c. c \<noteq> CHR ''/'') n = n" by (auto simp: takeWhile_eq_all_conv)
  have ascii: "list_all is_ascii n"
    unfolding list_all_iff using t(1) by (auto dest!: chars simp: list_all_iff is_digit_ascii)
  have trim: "trim n = n"
  proof (rule trim_id, cases "n = []")
    case False
    let ?l = "to_ascii_lowercase t"
    have l: "t \<noteq> [] \<Longrightarrow> hd ?l = ascii_lower (hd t) \<and> last ?l = ascii_lower (last t)"
      by (simp add: to_ascii_lowercase_def hd_map last_map)
    have "\<not> blank (hd n)" "\<not> blank (last n)"
      using hd_collapse_digits [of ?l "[]"] last_collapse_digits [of ?l "[]"] False l t(2) blank_lower
        is_digit_not_whitespace
      unfolding n to_ascii_lowercase_def by auto
    then show "n = [] \<or> \<not> is_whitespace (hd (chars n)) \<and> \<not> is_whitespace (last (chars n))"
      using False by (simp add: chars_ascii [OF ascii] hd_map last_map)
  qed simp
  have "normalize_collector_number n = collapse_digits n []"
    by (simp add: normalize_collector_number_def slash trim lower)
  also have "\<dots> = n" unfolding n by (rule collapse_digits_again) simp
  finally show ?thesis by (simp add: n_def)
qed

lemma sample_number: "normalize_collector_number ''H01/H32'' = ''h1''"
  by (simp add: normalize_collector_number_def trim_ascii is_ascii_def is_whitespace_def whitespace_codes_def
      to_ascii_lowercase_def ascii_lower_def is_upper_def is_digit_def digit_run_def digits_val_def digit_val_def
      show_nat_def nat_digits.simps char_of_def bit_0)

lemma normalize_collector_number_idempotent_witness:
  "normalize_collector_number (normalize_collector_number ''H01/H32'') = ''h1''"
  using normalize_collector_number_idempotent [of "''H01/H32''"] by (simp add: is_ascii_def sample_number)

section \<open>Importing prices\<close>

lemma insert_or_ignore_present: "col r \<in> col ` set rs \<Longrightarrow> insert_or_ignore col r rs = rs"
  by (simp add: insert_or_ignore_def list_ex_key)

lemma ignored_keys: "col ` set (fold (insert_or_ignore col) xs rs) = col ` set xs \<union> col ` set rs"
  by (induction xs arbitrary: rs) (auto simp: insert_or_ignore_def list_ex_key)

lemma ignored_rows:
  "\<exists>new. fold (insert_or_ignore col) xs rs = rs @ new \<and> set new \<subseteq> set xs \<and> col ` set new \<inter> col ` set rs = {}"
proof (induction xs arbitrary: rs)
  case (Cons x xs)
  obtain new where new: "fold (insert_or_ignore col) xs (insert_or_ignore col x rs) = insert_or_ignore col x rs @ new"
    "set new \<subseteq> set xs" "col ` set new \<inter> col ` set (insert_or_ignore col x rs) = {}"
    using Cons by blast
  show ?case
  proof (cases "col x \<in> col ` set rs")
    case True
    then show ?thesis using new by (intro exI [of _ new]) (auto simp: insert_or_ignore_present)
  next
    case False
    then have i: "insert_or_ignore col x rs = rs @ [x]" by (simp add: insert_or_ignore_def list_ex_key)
    show ?thesis using new False unfolding fold_simps comp_def i by (intro exI [of _ "x # new"]) auto
  qed
qed simp

lemma ignored_again: "col ` set xs \<subseteq> col ` set rs \<Longrightarrow> fold (insert_or_ignore col) xs rs = rs"
  by (induction xs) (auto simp: insert_or_ignore_present)

definition card_quotes :: "shared_db \<Rightarrow> string \<Rightarrow> TcgPrice list \<Rightarrow> PriceObs list" where
  "card_quotes sd at prices =
     concat (map (price_rows at) (filter (\<lambda>p. tq_product p \<notin> sp_id ` set (sd_sealed_products sd)) prices))"

definition sealed_quotes :: "shared_db \<Rightarrow> string \<Rightarrow> TcgPrice list \<Rightarrow> SealedPriceRow list" where
  "sealed_quotes sd at prices =
     map (sealed_price_row at) (filter (\<lambda>p. tq_product p \<in> sp_id ` set (sd_sealed_products sd)) prices)"

lemma fold_import_price:
  "fold (import_price (sp_id ` set (sd_sealed_products db)) at) ps (n, sd) =
     (n + length (card_quotes db at ps) + length (sealed_quotes db at ps),
      sd\<lparr>sd_prices := fold (insert_or_ignore price_key) (card_quotes db at ps) (sd_prices sd),
         sd_sealed_prices := fold (insert_or_ignore sealed_price_key) (sealed_quotes db at ps) (sd_sealed_prices sd)\<rparr>)"
  by (induction ps arbitrary: n sd) (auto simp: import_price_def card_quotes_def sealed_quotes_def)

lemma import_prices_run:
  "import_prices ps at sd =
     (Inr (length (card_quotes sd at ps) + length (sealed_quotes sd at ps)),
      sd\<lparr>sd_prices := fold (insert_or_ignore price_key) (card_quotes sd at ps) (sd_prices sd),
         sd_sealed_prices := fold (insert_or_ignore sealed_price_key) (sealed_quotes sd at ps) (sd_sealed_prices sd)\<rparr>)"
  by (simp add: import_prices_def fold_import_price)

text \<open>
  C29. Importing prices only appends: every observation of the two series stays where it is, a product that
  is filed as sealed is quoted in the sealed series only and every other product in the card series only,
  each quote of the batch has its observation afterwards, the number reported is the number of quotes, and
  importing the batch again changes nothing.
\<close>

theorem import_prices_append:
  "\<exists>cards sealed sd'. import_prices ps at sd = (Inr (length (card_quotes sd at ps) + length (sealed_quotes sd at ps)), sd') \<and>
     sd' = sd\<lparr>sd_prices := sd_prices sd @ cards, sd_sealed_prices := sd_sealed_prices sd @ sealed\<rparr> \<and>
     set cards \<subseteq> set (card_quotes sd at ps) \<and> set sealed \<subseteq> set (sealed_quotes sd at ps) \<and>
     px_product ` set cards \<inter> sp_id ` set (sd_sealed_products sd) = {} \<and>
     sx_product ` set sealed \<subseteq> sp_id ` set (sd_sealed_products sd) \<and>
     price_key ` set (card_quotes sd at ps) \<subseteq> price_key ` set (sd_prices sd') \<and>
     sealed_price_key ` set (sealed_quotes sd at ps) \<subseteq> sealed_price_key ` set (sd_sealed_prices sd') \<and>
     snd (import_prices ps at sd') = sd'"
proof -
  let ?c = "card_quotes sd at ps" and ?s = "sealed_quotes sd at ps"
  obtain cards where c: "fold (insert_or_ignore price_key) ?c (sd_prices sd) = sd_prices sd @ cards" "set cards \<subseteq> set ?c"
    using ignored_rows [of price_key ?c "sd_prices sd"] by blast
  obtain sealed where s: "fold (insert_or_ignore sealed_price_key) ?s (sd_sealed_prices sd) = sd_sealed_prices sd @ sealed"
    "set sealed \<subseteq> set ?s"
    using ignored_rows [of sealed_price_key ?s "sd_sealed_prices sd"] by blast
  define sd' where "sd' = sd\<lparr>sd_prices := sd_prices sd @ cards, sd_sealed_prices := sd_sealed_prices sd @ sealed\<rparr>"
  have run: "import_prices ps at sd = (Inr (length ?c + length ?s), sd')"
    by (simp add: import_prices_run c s sd'_def)
  have pc: "px_product q \<notin> sp_id ` set (sd_sealed_products sd)" if "q \<in> set ?c" for q
    using that by (auto simp: card_quotes_def price_rows_def split: option.splits)
  have ps: "sx_product q \<in> sp_id ` set (sd_sealed_products sd)" if "q \<in> set ?s" for q
    using that by (auto simp: sealed_quotes_def sealed_price_row_def)
  have kc: "price_key ` set ?c \<subseteq> price_key ` set (sd_prices sd')"
    using ignored_keys [of price_key ?c "sd_prices sd"] by (simp add: c sd'_def)
  have ks: "sealed_price_key ` set ?s \<subseteq> sealed_price_key ` set (sd_sealed_prices sd')"
    using ignored_keys [of sealed_price_key ?s "sd_sealed_prices sd"] by (simp add: s sd'_def)
  have same: "card_quotes sd' at ps = ?c" "sealed_quotes sd' at ps = ?s"
    by (simp_all add: card_quotes_def sealed_quotes_def sd'_def)
  have "snd (import_prices ps at sd') = sd'"
    by (simp add: import_prices_run same ignored_again [OF kc] ignored_again [OF ks])
  moreover have "px_product ` set cards \<inter> sp_id ` set (sd_sealed_products sd) = {}" using pc c(2) by blast
  moreover have "sx_product ` set sealed \<subseteq> sp_id ` set (sd_sealed_products sd)" using ps s(2) by blast
  ultimately show ?thesis
    using run c(2) s(2) kc ks by (intro exI [of _ cards] exI [of _ sealed] exI [of _ sd'] conjI) (simp_all add: sd'_def)
qed

section \<open>Filing sealed products\<close>

interpretation sealed_products: upsertable sp_id set_sealed "\<lambda>r. sp_release_date r = None"
  by unfold_locales (simp_all add: set_sealed_def)

lemma set_sealed_sel: "sp_set_code (set_sealed new old) = sp_set_code new" "sp_name (set_sealed new old) = sp_name new"
  by (simp_all add: set_sealed_def)

interpretation products: replacing tp_id set_product "\<lambda>_. True"
  by unfold_locales (simp_all add: set_product_def)

text \<open>The categories are substrings: a product of the set Destined Rivals is a tin.\<close>

lemma destined_rivals_pack_is_a_tin: "classify_sealed rt ''Destined Rivals Booster Pack'' = ''tin''"
proof -
  let ?n = "''destined rivals booster pack''"
  have lower: "str_lower rt ''Destined Rivals Booster Pack'' = ?n"
    by (simp add: str_lower_def is_ascii_def ascii_lower_def is_upper_def char_of_def bit_0)
  have "contains ''elite trainer box'' ?n = False" "contains ''etb'' ?n = False" "contains ''booster box'' ?n = False"
    "contains ''bundle'' ?n = False" "contains ''tin'' ?n = True" by code_simp+
  then show ?thesis by (simp add: classify_sealed_def lower)
qed

definition sealed_fileable :: "shared_db \<Rightarrow> TcgProduct \<Rightarrow> bool" where
  "sealed_fileable sd p \<longleftrightarrow> (case set_of_group sd (pr_group p) of Some s \<Rightarrow> has_set sd s | None \<Rightarrow> True)"

lemma list_all_filterI: "(\<And>x. x \<in> set xs \<Longrightarrow> P x \<Longrightarrow> Q x) \<Longrightarrow> list_all Q (filter P xs)"
  by (simp add: list_all_iff)

lemma put_sealed_product_run:
  "put_sealed_product rt now p sd =
     (if sealed_fileable sd p
      then (Inr (), sd\<lparr>sd_sealed_products := upsert sp_id set_sealed (sealed_product_row rt now sd p) (sd_sealed_products sd)\<rparr>)
      else (Inl (Sqlite ForeignKeyViolation), sd))"
  by (simp add: put_sealed_product_def put_sealed_def sealed_product_row_def sealed_fileable_def)

lemma sealed_row_frame [simp]:
  "sealed_product_row rt now (sd\<lparr>sd_sealed_products := rs\<rparr>) p = sealed_product_row rt now sd p"
  "sealed_fileable (sd\<lparr>sd_sealed_products := rs\<rparr>) p = sealed_fileable sd p"
  by (simp_all add: sealed_product_row_def sealed_fileable_def set_of_group_def split: option.split)

lemma sealed_frames [simp]:
  "sealed_product_row rt now (sd\<lparr>sd_sealed_products := rs\<rparr>) = sealed_product_row rt now sd"
  "sealed_fileable (sd\<lparr>sd_sealed_products := rs\<rparr>) = sealed_fileable sd"
  by (rule ext, simp)+

lemma put_sealed_products_run:
  "list_all (sealed_fileable sd) ps \<Longrightarrow>
   for_each ps (put_sealed_product rt now) sd =
     (Inr (), sd\<lparr>sd_sealed_products :=
        fold (upsert sp_id set_sealed) (map (sealed_product_row rt now sd) ps) (sd_sealed_products sd)\<rparr>)"
  by (induction ps arbitrary: sd) (simp_all add: ret_def bind_act_def put_sealed_product_run)

lemma put_sealed_products_refused:
  "\<not> list_all (sealed_fileable sd) ps \<Longrightarrow>
   \<exists>sd'. for_each ps (put_sealed_product rt now) sd = (Inl (Sqlite ForeignKeyViolation), sd')"
proof (induction ps arbitrary: sd)
  case (Cons p ps)
  show ?case
  proof (cases "sealed_fileable sd p")
    case True
    then have "\<not> list_all (sealed_fileable (sd\<lparr>sd_sealed_products := rs\<rparr>)) ps" for rs using Cons.prems by simp
    from Cons.IH [OF this] show ?thesis using True by (simp add: bind_act_def put_sealed_product_run)
  qed (simp add: bind_act_def put_sealed_product_run)
qed simp

text \<open>
  Importing sealed products is all or nothing: it is refused, and files nothing, exactly when some
  sealed product of the batch belongs to a group that is bridged to a set the catalog does not have;
  otherwise every one of them is filed under the set of its group, nothing else changes, no product that
  was filed before is lost, and importing the batch again changes nothing.
\<close>

theorem import_sealed_products_outcome:
  "let sealed = filter (\<lambda>p. \<not> is_single_card p) ps in
   if list_all (sealed_fileable sd) sealed
   then \<exists>rows. import_sealed_products rt ps now sd = (Inr (length sealed), sd\<lparr>sd_sealed_products := rows\<rparr>) \<and>
     sp_id ` set rows = pr_id ` set sealed \<union> sp_id ` set (sd_sealed_products sd) \<and>
     list_all (\<lambda>r. list_ex (\<lambda>p. sp_id r = pr_id p \<and> sp_set_code r = set_of_group sd (pr_group p) \<and> sp_name r = pr_name p) sealed)
       (filter (\<lambda>r. sp_id r \<in> pr_id ` set sealed) rows) \<and>
     snd (import_sealed_products rt ps now (sd\<lparr>sd_sealed_products := rows\<rparr>)) = sd\<lparr>sd_sealed_products := rows\<rparr>
   else import_sealed_products rt ps now sd = (Inl (Sqlite ForeignKeyViolation), sd)"
proof -
  let ?s = "filter (\<lambda>p. \<not> is_single_card p) ps"
  let ?rows = "\<lambda>sd. fold (upsert sp_id set_sealed) (map (sealed_product_row rt now sd) ?s) (sd_sealed_products sd)"
  have run: "import_sealed_products rt ps now sd =
      (if list_all (sealed_fileable sd) ?s then (Inr (length ?s), sd\<lparr>sd_sealed_products := ?rows sd\<rparr>)
       else (Inl (Sqlite ForeignKeyViolation), sd))" for sd
  proof (cases "list_all (sealed_fileable sd) ?s")
    case True
    then have "for_each ?s (put_sealed_product rt now) sd = (Inr (), sd\<lparr>sd_sealed_products := ?rows sd\<rparr>)"
      by (rule put_sealed_products_run)
    then show ?thesis using True by (simp add: import_sealed_products_def Let_def ingest_tx_def act_simps)
  next
    case False
    then obtain sd' where "for_each ?s (put_sealed_product rt now) sd = (Inl (Sqlite ForeignKeyViolation), sd')"
      using put_sealed_products_refused by blast
    then show ?thesis using False by (simp add: import_sealed_products_def Let_def ingest_tx_def act_simps)
  qed
  have keys: "sp_id ` set (?rows sd) = pr_id ` set ?s \<union> sp_id ` set (sd_sealed_products sd)"
    by (simp add: sealed_products.upserts_key_set image_image sealed_product_row_def)
  have fresh: "list_all (\<lambda>r. sp_release_date r = None) (map (sealed_product_row rt now sd) ?s)"
    by (simp add: list_all_iff sealed_product_row_def)
  have filed: "\<exists>p \<in> set ?s. sp_id r = pr_id p \<and> sp_set_code r = set_of_group sd (pr_group p) \<and> sp_name r = pr_name p"
    if r: "r \<in> set (?rows sd)" "sp_id r \<in> pr_id ` set ?s" for r
  proof -
    let ?xs = "map (sealed_product_row rt now sd) ?s"
    have ne: "filter (\<lambda>x. sp_id x = sp_id r) ?xs \<noteq> []"
      using r(2) by (auto simp: filter_empty_conv sealed_product_row_def)
    then have "last (filter (\<lambda>x. sp_id x = sp_id r) ?xs) \<in> set (filter (\<lambda>x. sp_id x = sp_id r) ?xs)" by (rule last_in_set)
    then obtain p where p: "p \<in> set ?s" "last (filter (\<lambda>x. sp_id x = sp_id r) ?xs) = sealed_product_row rt now sd p"
      "sp_id r = pr_id p" by (auto simp: sealed_product_row_def)
    have "sealed_products.settle ?xs r = r" by (rule sealed_products.upserts_settled [OF fresh r(1)])
    then have "r = set_sealed (sealed_product_row rt now sd p) r"
      using ne p(2) by (simp add: sealed_products.settle_last split: list.splits)
    from arg_cong [OF this, of sp_set_code] arg_cong [OF this, of sp_name]
    have "sp_set_code r = sp_set_code (sealed_product_row rt now sd p)" "sp_name r = sp_name (sealed_product_row rt now sd p)"
      by (simp_all only: set_sealed_sel)
    then show ?thesis using p by (intro bexI [of _ p]) (simp_all add: sealed_product_row_def)
  qed
  have again: "fold (upsert sp_id set_sealed) (map (sealed_product_row rt now sd) ?s) (?rows sd) = ?rows sd"
    by (rule sealed_products.upserts_again [OF fresh])
  show ?thesis
  proof (cases "list_all (sealed_fileable sd) ?s")
    case True
    have "snd (import_sealed_products rt ps now (sd\<lparr>sd_sealed_products := ?rows sd\<rparr>)) = sd\<lparr>sd_sealed_products := ?rows sd\<rparr>"
      by (simp add: run True again)
    moreover have "list_all (\<lambda>r. list_ex (\<lambda>p. sp_id r = pr_id p \<and> sp_set_code r = set_of_group sd (pr_group p) \<and> sp_name r = pr_name p) ?s)
       (filter (\<lambda>r. sp_id r \<in> pr_id ` set ?s) (?rows sd))"
      by (rule list_all_filterI) (unfold list_ex_iff, rule filed)
    ultimately show ?thesis
      using True run [of sd] keys unfolding Let_def by (simp only: if_True) blast
  next
    case False
    then show ?thesis using run [of sd] unfolding Let_def by (simp only: if_False)
  qed
qed

section \<open>Synthesized cards\<close>

definition card_step :: "SharedCard \<Rightarrow> SharedCard \<Rightarrow> bool" where
  "card_step c c' \<longleftrightarrow>
     cd_id c' = cd_id c \<and> cd_set c' = cd_set c \<and> cd_number c' = cd_number c \<and> sc_raw_json c' = sc_raw_json c \<and>
     (sc_raw_json c = None \<or> c' = c \<or>
      ((cd_rarity c = None \<or> cd_rarity c = Some ''Common'') \<and>
       (\<exists>r. \<not> eq_ignore_ascii_case r ''common'' \<and> c' = c\<lparr>cd_rarity := Some r\<rparr>)))"

lemma not_common: "\<not> eq_ignore_ascii_case r ''common'' \<Longrightarrow> r \<noteq> ''Common''"
  by (auto simp: eq_ignore_ascii_case_def to_ascii_lowercase_def ascii_lower_def is_upper_def char_of_def bit_0)

lemma card_step_refl: "card_step c c"
  by (simp add: card_step_def)

lemma card_step_trans: "card_step a b \<Longrightarrow> card_step b c \<Longrightarrow> card_step a c"
proof -
  assume ab: "card_step a b" and bc: "card_step b c"
  show "card_step a c"
  proof (cases "sc_raw_json a = None \<or> b = a \<or> c = b")
    case True
    moreover have "sc_raw_json a = None \<Longrightarrow> card_step a c"
      using ab bc unfolding card_step_def by (elim conjE) (simp only: simp_thms)
    ultimately show ?thesis using ab bc by blast
  next
    case False
    then have "sc_raw_json b \<noteq> None" using ab by (simp add: card_step_def)
    moreover obtain r where r: "\<not> eq_ignore_ascii_case r ''common''" "b = a\<lparr>cd_rarity := Some r\<rparr>"
      using ab False unfolding card_step_def by blast
    then have "cd_rarity b \<noteq> None" "cd_rarity b \<noteq> Some ''Common''" using not_common by simp_all
    ultimately have "c = b" using bc unfolding card_step_def by (elim conjE disjE; simp)
    then show ?thesis using False by simp
  qed
qed

lemma steps_update_where:
  "(\<And>c. P c \<Longrightarrow> card_step c (f c)) \<Longrightarrow> list_all2 card_step cs (update_where P f cs)"
  by (auto simp: update_where_def list_all2_conv_all_nth card_step_refl)

lemma steps_trans: "list_all2 card_step as bs \<Longrightarrow> list_all2 card_step bs cs \<Longrightarrow> list_all2 card_step as cs"
  by (rule list_all2_trans [OF card_step_trans])

lemma steps_refl: "list_all2 card_step cs cs"
  by (simp add: list_all2_refl card_step_refl)

lemma steps_refine: "list_all2 card_step cs (refine_rarity i r cs)"
  unfolding refine_rarity_def
  by (auto simp: steps_refl split: option.split intro!: steps_update_where) (auto simp: card_step_def)

lemma steps_heal: "list_all2 card_step cs (heal_card i name r img cs)"
  unfolding heal_card_def by (rule steps_update_where) (simp add: card_step_def)

text \<open>The cards of \<open>s\<close> are advanced and \<open>n\<close> synthesized ones of the set follow them.\<close>

definition synthesized :: "string \<Rightarrow> nat \<Rightarrow> shared_db \<Rightarrow> shared_db \<Rightarrow> bool" where
  "synthesized set_code n s s' \<longleftrightarrow>
     s' = s\<lparr>sd_cards := sd_cards s'\<rparr> \<and>
     (\<exists>old new. sd_cards s' = old @ new \<and> list_all2 card_step (sd_cards s) old \<and> length new = n \<and>
        list_all (\<lambda>c. cd_set c = set_code \<and> cd_id c = set_code @ ''-'' @ cd_number c \<and> sc_raw_json c = None) new)"

lemma synthesized_trans:
  assumes "synthesized code n s t" "synthesized code m t u"
  shows "synthesized code (n + m) s u"
proof -
  obtain old new where a: "t = s\<lparr>sd_cards := sd_cards t\<rparr>" "sd_cards t = old @ new" "list_all2 card_step (sd_cards s) old"
    "length new = n" "list_all (\<lambda>c. cd_set c = code \<and> cd_id c = code @ ''-'' @ cd_number c \<and> sc_raw_json c = None) new"
    using assms(1) unfolding synthesized_def by blast
  obtain old' new' where b: "u = t\<lparr>sd_cards := sd_cards u\<rparr>" "sd_cards u = old' @ new'" "list_all2 card_step (sd_cards t) old'"
    "length new' = m" "list_all (\<lambda>c. cd_set c = code \<and> cd_id c = code @ ''-'' @ cd_number c \<and> sc_raw_json c = None) new'"
    using assms(2) unfolding synthesized_def by blast
  obtain o1 n1 where o: "old' = o1 @ n1" "list_all2 card_step old o1" "list_all2 card_step new n1"
    using b(3) unfolding a(2) list_all2_append1 by blast
  have n1: "list_all (\<lambda>c. cd_set c = code \<and> cd_id c = code @ ''-'' @ cd_number c \<and> sc_raw_json c = None) n1"
    using o(3) a(5) by (auto simp: list_all2_conv_all_nth list_all_length card_step_def)
  have "u = s\<lparr>sd_cards := sd_cards u\<rparr>" using a(1) b(1) by (metis shared_db.update_convs(3) shared_db.surjective)
  moreover have "length (n1 @ new') = n + m" using o(3) a(4) b(4) by (simp add: list_all2_lengthD [symmetric])
  ultimately show ?thesis
    unfolding synthesized_def using b(2,5) n1 o(1) steps_trans [OF a(3) o(2)]
    by (intro conjI exI [of _ o1] exI [of _ "n1 @ new'"]) simp_all
qed

lemma synthesize_card_ok:
  assumes "synthesize_card code ov g s = (Inr n, s')"
  shows "synthesized code n s s'"
proof -
  obtain number products where g: "g = (number, products)" by force
  define name where "name = parse_product_card_name (tp_name (hd products))"
  define img where "img = first_some tp_image_url products"
  define rarity where "rarity = coalesce ov (first_some tp_rarity products)"
  define i where "i = code @ ''-'' @ number"
  define card where "card = (blank_card i code number name)\<lparr>cd_rarity := rarity, cd_image_small := img, cd_image_large := img\<rparr>"
  have card: "cd_set card = code \<and> cd_id card = code @ ''-'' @ cd_number card \<and> sc_raw_json card = None"
    by (simp add: card_def blank_card_def i_def)
  let ?heal = "\<lambda>cs. heal_card i name rarity img (refine_rarity i rarity cs)"
  have step: "list_all2 card_step cs (?heal cs)" for cs
    by (rule steps_trans [OF steps_refine steps_heal])
  have run: "synthesize_card code ov g s =
      (case insert_card card s of (Inl e, s1) \<Rightarrow> (Inl e, s1) | (Inr n, s1) \<Rightarrow> (Inr n, s1\<lparr>sd_cards := ?heal (sd_cards s1)\<rparr>))"
    unfolding synthesize_card_def g case_prod_conv Let_def name_def [symmetric] img_def [symmetric]
      rarity_def [symmetric] i_def [symmetric] card_def [symmetric]
    by (simp add: act_simps change_def split: prod.split sum.split)
  show ?thesis
  proof (cases "has_card s (cd_id card)")
    case True
    then have s': "n = 0" "s' = s\<lparr>sd_cards := ?heal (sd_cards s)\<rparr>" using assms by (simp_all add: run insert_card_def)
    then show ?thesis
      unfolding synthesized_def using step [of "sd_cards s"] by (intro conjI exI [of _ "?heal (sd_cards s)"] exI [of _ "[]"]) simp_all
  next
    case False
    then have s': "n = 1" "s' = s\<lparr>sd_cards := ?heal (sd_cards s @ [card])\<rparr>"
      using assms by (auto simp: run insert_card_def split: if_splits)
    obtain old new where o: "?heal (sd_cards s @ [card]) = old @ [new]" "list_all2 card_step (sd_cards s) old" "card_step card new"
      using step [of "sd_cards s @ [card]"] unfolding list_all2_append1 list_all2_Cons1 by auto
    then show ?thesis
      unfolding synthesized_def s' using card
      by (intro conjI exI [of _ old] exI [of _ "[new]"]) (auto simp: card_step_def)
  qed
qed

lemma sum_each_synthesized:
  assumes "\<And>g s n s'. f g s = (Inr n, s') \<Longrightarrow> synthesized code n s s'"
  shows "sum_each gs f s = (Inr n, s') \<Longrightarrow> synthesized code n s s'"
proof (induction gs arbitrary: s n)
  case Nil
  then show ?case by (auto simp: ret_def synthesized_def steps_refl)
next
  case (Cons g gs)
  then obtain k s1 m where r: "f g s = (Inr k, s1)" "sum_each gs f s1 = (Inr m, s')" "n = k + m"
    by (auto simp: bind_act_def ret_def split: prod.splits sum.splits)
  show ?case unfolding r(3) by (rule synthesized_trans [OF assms [OF r(1)] Cons.IH [OF r(2)]])
qed

text \<open>
  C30. Building cards from a group's products never overrides upstream: cards are only added, all to the
  group's set and under ids of that set; the number reported is the number of new cards; and a card that
  came from upstream keeps every field, except that a missing or Common rarity is replaced by a rarity that
  is more specific.
\<close>

theorem synthesis_respects_upstream:
  assumes "synthesize_cards_for_group group_id set_code rarity_override sd = (Inr n, sd')"
  shows "sd' = sd\<lparr>sd_cards := sd_cards sd'\<rparr> \<and>
    (\<exists>old new. sd_cards sd' = old @ new \<and> length new = n \<and>
       list_all (\<lambda>c. cd_set c = set_code \<and> cd_id c = set_code @ ''-'' @ cd_number c \<and> sc_raw_json c = None) new \<and>
       list_all2 (\<lambda>c c'. cd_id c' = cd_id c \<and> (sc_raw_json c \<noteq> None \<longrightarrow> c' = c \<or>
         (cd_rarity c \<in> {None, Some ''Common''} \<and>
          (\<exists>r. \<not> eq_ignore_ascii_case r ''common'' \<and> c' = c\<lparr>cd_rarity := Some r\<rparr>)))) (sd_cards sd) old)"
proof -
  have "synthesized set_code n sd sd'"
    using assms sum_each_synthesized [OF synthesize_card_ok]
    by (simp add: synthesize_cards_for_group_def query_def bind_act_def)
  then obtain old new where o: "sd' = sd\<lparr>sd_cards := sd_cards sd'\<rparr>" "sd_cards sd' = old @ new"
    "list_all2 card_step (sd_cards sd) old" "length new = n"
    "list_all (\<lambda>c. cd_set c = set_code \<and> cd_id c = set_code @ ''-'' @ cd_number c \<and> sc_raw_json c = None) new"
    unfolding synthesized_def by blast
  have "list_all2 (\<lambda>c c'. cd_id c' = cd_id c \<and> (sc_raw_json c \<noteq> None \<longrightarrow> c' = c \<or>
         (cd_rarity c \<in> {None, Some ''Common''} \<and>
          (\<exists>r. \<not> eq_ignore_ascii_case r ''common'' \<and> c' = c\<lparr>cd_rarity := Some r\<rparr>)))) (sd_cards sd) old"
    by (rule list_all2_mono [OF o(3)]) (auto simp: card_step_def)
  then show ?thesis using o(1,2,4,5) by blast
qed

definition sample_products :: shared_db where
  "sample_products =
     empty_shared\<lparr>
       sd_sets := [sample_set ''svp'' ''PR'' ''Promos'' ''2023/01/01''],
       sd_products := [\<lparr>tp_id = 7, tp_group = 22872, tp_name = ''Ho-Oh - H01/H32'', tp_number = Some ''H01/H32'',
         tp_variant = None, tp_fetched_at = ''now'', tp_image_url = None, tp_rarity = Some ''Promo''\<rparr>]\<rparr>"

lemma synthesis_respects_upstream_witness:
  "\<exists>sd'. synthesize_cards_for_group 22872 ''svp'' None sample_products = (Inr 1, sd') \<and>
     (\<exists>c. sd_cards sd' = [c] \<and> cd_set c = ''svp'' \<and> cd_id c = ''svp-'' @ cd_number c \<and> sc_raw_json c = None)"
proof -
  have groups: "by_number (numbered_products sample_products 22872) = [(''h1'', sd_products sample_products)]"
    by (simp add: sample_number by_number_def numbered_products_def group_by_def sample_products_def empty_shared_def)
  obtain sd' where run: "synthesize_cards_for_group 22872 ''svp'' None sample_products = (Inr 1, sd')"
    unfolding synthesize_cards_for_group_def query_def bind_act_def groups
    by (simp add: synthesize_card_def Let_def insert_card_def has_card_def has_set_def sample_products_def
        sample_set_def empty_shared_def blank_card_def act_simps change_def)
  have none: "sd_cards sample_products = []" by (simp add: sample_products_def empty_shared_def)
  from synthesis_respects_upstream [OF run] obtain new where n: "sd_cards sd' = new" "length new = 1"
    "list_all (\<lambda>c. cd_set c = ''svp'' \<and> cd_id c = ''svp'' @ ''-'' @ cd_number c \<and> sc_raw_json c = None) new"
    unfolding none by auto
  then obtain c where "new = [c]" by (auto simp: length_Suc_conv)
  then show ?thesis using run n by auto
qed

end
