(* ===== verification/Printing_Expansion.thy ===== *)
theory Printing_Expansion
  imports Product_Import
begin

text \<open>
  Variant expansion (\<open>pkdump-ingest/src/overrides.rs\<close>): which printings a card has, from the products of the
  groups bridged to its set, from the cross-group promo products, and from the hand-made overlay; and the
  pass that brings the table of printings in line without ever deleting a row.
\<close>

section \<open>Cross-group products\<close>

definition CROSS_GROUP_SOURCE_GROUPS :: "int list" where
  "CROSS_GROUP_SOURCE_GROUPS = [2374, 1840, 3179, 23266, 23561, 22872, 2289]"

definition DECK_EXCLUSIVES_GROUP_ID :: int where
  "DECK_EXCLUSIVES_GROUP_ID = 1840"

definition MCAP_GROUP_ID :: int where
  "MCAP_GROUP_ID = 2374"

definition TTBB_GROUP_IDS :: "int list" where
  "TTBB_GROUP_IDS = [3179, 23266, 23561]"

definition PROMO_SET_CODE :: string where
  "PROMO_SET_CODE = ''mcap''"

record CardInfo =
  ci_id :: string
  ci_set :: string
  ci_number :: string
  ci_rarity :: "string option"
  ci_name_lower :: string
  ci_set_name_lower :: string
  ci_printed_total :: "int option"

record CrossGroupProduct =
  xp_id :: int
  xp_variant :: string
  xp_keyword :: "string option"
  xp_name_lower :: string
  xp_set_total :: "int option"
  xp_sub_type :: "string option"

definition parse_set_total :: "string \<Rightarrow> int option" where
  "parse_set_total raw = (case split_once ''/'' raw of Some (_, t) \<Rightarrow> parse_i64 (trim t) | None \<Rightarrow> None)"

definition trailing_paren_lower :: "runtime \<Rightarrow> string \<Rightarrow> string option" where
  "trailing_paren_lower rt name = last_paren (fold_accents (str_lower rt name))"

definition sub_type_first :: "shared_db \<Rightarrow> int \<Rightarrow> string option" where
  "sub_type_first sd product = map_option px_sub_type (List.find (\<lambda>r. px_product r = product) (sd_prices sd))"

text \<open>SQLite's \<open>lower\<close> folds ASCII only.\<close>

definition set_named :: "shared_db \<Rightarrow> string \<Rightarrow> int \<Rightarrow> bool" where
  "set_named sd keyword t \<longleftrightarrow>
     list_ex (\<lambda>s. to_ascii_lowercase (st_name s) = keyword \<and> ss_printed_total s = Some t) (sd_sets sd)"

definition named_by_set :: "runtime \<Rightarrow> shared_db \<Rightarrow> string \<Rightarrow> string \<Rightarrow> string option" where
  "named_by_set rt sd name number =
     (case (trailing_paren_lower rt name, parse_set_total number) of
        (Some keyword, Some t) \<Rightarrow> if set_named sd keyword t then Some keyword else None
      | _ \<Rightarrow> None)"

text \<open>Variant, set keyword and sub-type of a cross-group product, in the order of the code's branches.\<close>

definition classify_cross ::
  "runtime \<Rightarrow> shared_db \<Rightarrow> SubTypeVariantMap \<Rightarrow> int \<Rightarrow> int \<Rightarrow> string \<Rightarrow> string \<Rightarrow>
   (string \<times> string option \<times> string option) option" where
  "classify_cross rt sd m product group_id name number =
     (let sub = sub_type_first sd product in
      case parse_stamp_tag rt name of
        Some (v, keyword) \<Rightarrow> Some (v, keyword, sub)
      | None \<Rightarrow>
     (case variant_from_product_name rt name of
        Some v \<Rightarrow>
          Some (if group_id \<in> set TTBB_GROUP_IDS \<and> v = ''cosmos_holo'' then ''cosmos_holo_trick_or_trade'' else v, None, sub)
      | None \<Rightarrow>
          if group_id = DECK_EXCLUSIVES_GROUP_ID \<and> \<not> contains ''('' name
          then (case sub of
                  Some s \<Rightarrow> map_option (\<lambda>v. (v, None, Some s)) (lookup_sub_type m group_id s)
                | None \<Rightarrow> None)
          else if group_id \<in> set TTBB_GROUP_IDS \<and>
                  (case trailing_paren_lower rt name of Some p \<Rightarrow> ends_with ''copyright date'' p | None \<Rightarrow> True)
          then Some (''stamp_trick_or_trade'', None, sub)
          else (case named_by_set rt sd name number of
                  Some keyword \<Rightarrow> Some (''stamp_prerelease'', Some keyword, sub)
                | None \<Rightarrow> if group_id = MCAP_GROUP_ID \<and> contains ''('' name then Some (''promo'', None, sub) else None)))"

definition cross_product ::
  "runtime \<Rightarrow> shared_db \<Rightarrow> SubTypeVariantMap \<Rightarrow> ProductRow \<Rightarrow> (string \<times> CrossGroupProduct) option" where
  "cross_product rt sd m p =
     (case tp_number p of
        None \<Rightarrow> None
      | Some number \<Rightarrow>
          map_option (\<lambda>(v, keyword, sub).
            (normalize_collector_number number,
             \<lparr>xp_id = tp_id p, xp_variant = v, xp_keyword = keyword,
              xp_name_lower = str_lower rt (parse_product_card_name (tp_name p)),
              xp_set_total = parse_set_total number, xp_sub_type = sub\<rparr>))
            (classify_cross rt sd m (tp_id p) (tp_group p) (tp_name p) number))"

definition preload_cross_group_products ::
  "runtime \<Rightarrow> shared_db \<Rightarrow> SubTypeVariantMap \<Rightarrow> (string \<times> CrossGroupProduct) list" where
  "preload_cross_group_products rt sd m =
     List.map_filter (cross_product rt sd m)
       (filter (\<lambda>p. tp_group p \<in> set CROSS_GROUP_SOURCE_GROUPS) (sd_products sd))"

definition cross_matches :: "CardInfo \<Rightarrow> CrossGroupProduct \<Rightarrow> bool" where
  "cross_matches c x \<longleftrightarrow>
     (case xp_keyword x of
        Some keyword \<Rightarrow> contains keyword (ci_set_name_lower c)
      | None \<Rightarrow> xp_name_lower x = ci_name_lower c \<and>
          (if xp_set_total x \<noteq> None then xp_set_total x = ci_printed_total c
           else list_ex is_alpha (normalize_collector_number (ci_number c))))"

section \<open>The variants of a card\<close>

type_synonym resolution = "string \<times> string option \<times> int option"

definition linked_to :: "shared_db \<Rightarrow> string \<Rightarrow> ProductRow \<Rightarrow> bool" where
  "linked_to sd set_code p \<longleftrightarrow> list_ex (\<lambda>g. tg_id g = tp_group p \<and> tg_set_code g = Some set_code) (sd_groups sd)"

definition distinct_values :: "'a list \<Rightarrow> 'a list" where
  "distinct_values xs = rev (remdups (rev xs))"

definition product_variants :: "shared_db \<Rightarrow> SubTypeVariantMap \<Rightarrow> ProductRow \<Rightarrow> resolution list" where
  "product_variants sd m p =
     (case tp_variant p of
        Some pattern \<Rightarrow> [(pattern, sub_type_first sd (tp_id p), Some (tp_id p))]
      | None \<Rightarrow>
          List.map_filter (\<lambda>sub. map_option (\<lambda>v. (v, Some sub, Some (tp_id p))) (lookup_sub_type m (tp_group p) sub))
            (distinct_values (map px_sub_type (filter (\<lambda>r. px_product r = tp_id p) (sd_prices sd)))))"

definition variants_from_tcgcsv :: "shared_db \<Rightarrow> SubTypeVariantMap \<Rightarrow> CardInfo \<Rightarrow> resolution list" where
  "variants_from_tcgcsv sd m c =
     concat (map (product_variants sd m)
       (filter (\<lambda>p. linked_to sd (ci_set c) p \<and>
          (case tp_number p of
             Some n \<Rightarrow> normalize_collector_number n = normalize_collector_number (ci_number c) | None \<Rightarrow> False))
         (sd_products sd)))"

definition cross_variants :: "(string \<times> CrossGroupProduct) list \<Rightarrow> CardInfo \<Rightarrow> resolution list" where
  "cross_variants cross c =
     map (\<lambda>(_, x). (xp_variant x, xp_sub_type x, Some (xp_id x)))
       (filter (\<lambda>(number, x). number = normalize_collector_number (ci_number c) \<and> cross_matches c x) cross)"

text \<open>\<open>BTreeMap::entry(v).or_insert(r)\<close> and \<open>remove\<close>.\<close>

definition or_insert :: "resolution \<Rightarrow> resolution list \<Rightarrow> resolution list" where
  "or_insert r m = (if fst r \<in> fst ` set m then m else m @ [r])"

definition remove_variant :: "string \<Rightarrow> resolution list \<Rightarrow> resolution list" where
  "remove_variant v m = filter (\<lambda>r. fst r \<noteq> v) m"

definition apply_override :: "CardInfo \<Rightarrow> VariantOverride \<Rightarrow> resolution list \<Rightarrow> resolution list" where
  "apply_override c ov m =
     (if matches (vo_match ov) (ci_set c) (ci_rarity c) (ci_number c)
      then fold remove_variant (vo_remove ov) (fold (\<lambda>v. or_insert (v, None, None)) (vo_add ov) m)
      else m)"

definition variant_map ::
  "shared_db \<Rightarrow> SubTypeVariantMap \<Rightarrow> (string \<times> CrossGroupProduct) list \<Rightarrow> VariantOverride list \<Rightarrow> CardInfo \<Rightarrow> resolution list" where
  "variant_map sd m cross overrides c =
     (let found = variants_from_tcgcsv sd m c @ cross_variants cross c;
          base = (if found = [] then [(''normal'', None, None)] else found) in
      sort_key fst (fold (apply_override c) overrides (fold or_insert base [])))"

section \<open>The pass\<close>

definition expandable_cards :: "shared_db \<Rightarrow> CardInfo list" where
  "expandable_cards sd =
     concat (map (\<lambda>c. map (\<lambda>s.
         \<lparr>ci_id = cd_id c, ci_set = cd_set c, ci_number = cd_number c, ci_rarity = cd_rarity c,
          ci_name_lower = to_ascii_lowercase (cd_name c), ci_set_name_lower = to_ascii_lowercase (st_name s),
          ci_printed_total = ss_printed_total s\<rparr>)
         (filter (\<lambda>s. st_code s = cd_set c) (sd_sets sd)))
       (filter (\<lambda>c. cd_set c \<noteq> PROMO_SET_CODE) (sd_cards sd)))"

definition expansion_codes ::
  "shared_db \<Rightarrow> (string \<times> CrossGroupProduct) list \<Rightarrow> VariantOverride list \<Rightarrow> string list" where
  "expansion_codes sd cross overrides =
     remdups (map (xp_variant \<circ> snd) cross @ concat (map vo_add overrides) @ List.map_filter tp_variant (sd_products sd))"

definition deprecate :: "string \<Rightarrow> string \<Rightarrow> PrintingRow list \<Rightarrow> PrintingRow list" where
  "deprecate now card_id =
     update_where (\<lambda>p. pg_card p = card_id \<and> pg_deprecated_at p = None) (\<lambda>p. p\<lparr>pg_deprecated_at := Some now\<rparr>)"

definition put_resolution :: "string \<Rightarrow> resolution \<Rightarrow> unit shared_act" where
  "put_resolution card_id = (\<lambda>(v, sub, product). put_printing (new_printing card_id v sub product))"

definition expand_card :: "string \<Rightarrow> string \<Rightarrow> resolution list \<Rightarrow> nat shared_act" where
  "expand_card now card_id m = ingest_tx (
     bind_act (change (\<lambda>sd. sd\<lparr>sd_printings := deprecate now card_id (sd_printings sd)\<rparr>)) (\<lambda>_.
     bind_act (for_each m (put_resolution card_id)) (\<lambda>_. ret (length m))))"

definition expand_all_printings :: "runtime \<Rightarrow> VariantOverride list \<Rightarrow> string \<Rightarrow> nat shared_act" where
  "expand_all_printings rt overrides now = (\<lambda>sd.
     let cards = expandable_cards sd;
         m = load_sub_types sd;
         cross = preload_cross_group_products rt sd m;
         sd = fold ensure_code (expansion_codes sd cross overrides) sd
     in sum_each cards (\<lambda>c. bind_act (query (\<lambda>sd. variant_map sd m cross overrides c)) (\<lambda>vm. expand_card now (ci_id c) vm)) sd)"

section \<open>Ids of printings\<close>

definition dashless :: "string \<Rightarrow> bool" where
  "dashless v \<longleftrightarrow> CHR ''-'' \<notin> set v"

lemma dash_split:
  assumes "a @ ''-'' @ v = b @ ''-'' @ w" "dashless v" "dashless w"
  shows "a = b \<and> v = w"
proof -
  have tail: "takeWhile (\<lambda>c. c \<noteq> CHR ''-'') (rev (a @ ''-'' @ v)) = rev v" if "dashless v" for a v
    using that by (auto simp: dashless_def takeWhile_append)
  have "takeWhile (\<lambda>c. c \<noteq> CHR ''-'') (rev (a @ ''-'' @ v)) = takeWhile (\<lambda>c. c \<noteq> CHR ''-'') (rev (b @ ''-'' @ w))"
    by (simp only: assms(1))
  then have "rev v = rev w" unfolding tail [OF assms(2)] tail [OF assms(3)] .
  then show ?thesis using assms(1) by simp
qed

definition proper :: "PrintingRow \<Rightarrow> bool" where
  "proper p \<longleftrightarrow> pg_id p = pg_card p @ ''-'' @ pg_variant p \<and> dashless (pg_variant p)"

lemma proper_id: "proper p \<Longrightarrow> proper q \<Longrightarrow> pg_id p = pg_id q \<longleftrightarrow> pg_card p = pg_card q \<and> pg_variant p = pg_variant q"
  unfolding proper_def using dash_split by metis

lemma new_printing_simps [simp]:
  "pg_id (new_printing c v s i) = c @ ''-'' @ v" "pg_card (new_printing c v s i) = c"
  "pg_variant (new_printing c v s i) = v" "pg_deprecated_at (new_printing c v s i) = None"
  "pg_sub_type (new_printing c v s i) = s" "pg_product (new_printing c v s i) = i"
  by (simp_all add: new_printing_def)

lemma proper_new [simp]: "proper (new_printing c v s i) \<longleftrightarrow> dashless v"
  by (simp add: proper_def)

lemma revive_simps [simp]:
  "pg_id (revive_printing q p) = pg_id p" "pg_card (revive_printing q p) = pg_card p"
  "pg_variant (revive_printing q p) = pg_variant p" "pg_deprecated_at (revive_printing q p) = None"
  "pg_sub_type (revive_printing q p) = pg_sub_type q" "pg_product (revive_printing q p) = pg_product q"
  "proper (revive_printing q p) = proper p"
  by (simp_all add: revive_printing_def proper_def)

section \<open>One card\<close>

definition card_printings :: "string \<Rightarrow> resolution list \<Rightarrow> PrintingRow list" where
  "card_printings card_id m = map (\<lambda>(v, s, i). new_printing card_id v s i) m"

definition card_pass :: "string \<Rightarrow> string \<Rightarrow> resolution list \<Rightarrow> PrintingRow list \<Rightarrow> PrintingRow list" where
  "card_pass now c m ps = fold (upsert pg_id revive_printing) (card_printings c m) (deprecate now c ps)"

definition deprecated :: "string \<Rightarrow> PrintingRow \<Rightarrow> PrintingRow" where
  "deprecated now p = (if pg_deprecated_at p = None then p\<lparr>pg_deprecated_at := Some now\<rparr> else p)"

lemma deprecated_simps [simp]:
  "pg_id (deprecated now p) = pg_id p" "pg_card (deprecated now p) = pg_card p"
  "pg_variant (deprecated now p) = pg_variant p" "pg_deprecated_at (deprecated now p) \<noteq> None"
  "proper (deprecated now p) = proper p"
  by (simp_all add: deprecated_def proper_def)

lemma deprecate_map: "deprecate now c ps = map (\<lambda>p. if pg_card p = c then deprecated now p else p) ps"
  by (simp add: deprecate_def update_where_def deprecated_def)

lemma in_deprecate:
  "r \<in> set (deprecate now c ps) \<Longrightarrow> \<exists>q \<in> set ps. r = (if pg_card q = c then deprecated now q else q)"
  unfolding deprecate_map set_map by (erule imageE) (rule bexI)

lemma deprecate_ids [simp]: "pg_id ` set (deprecate now c ps) = pg_id ` set ps"
proof -
  have "map pg_id (deprecate now c ps) = map pg_id ps" by (simp add: deprecate_map)
  then show ?thesis by (metis set_map)
qed

lemma fresh_card_printings: "list_all (\<lambda>p. pg_deprecated_at p = None) (card_printings c m)"
  by (auto simp: card_printings_def list_all_iff)

lemma put_resolution_run:
  assumes "\<forall>p \<in> set (sd_printings sd). proper p" "dashless v" "has_variant sd v" "has_card sd c"
  shows "put_resolution c (v, s, i) sd =
     (Inr (), sd\<lparr>sd_printings := upsert pg_id revive_printing (new_printing c v s i) (sd_printings sd)\<rparr>)"
proof (cases "has_printing sd (c @ ''-'' @ v)")
  case True
  then show ?thesis by (simp add: put_resolution_def put_printing_def)
next
  case False
  then have new: "c @ ''-'' @ v \<notin> pg_id ` set (sd_printings sd)" by (simp add: has_printing_def list_ex_key)
  have "\<not> list_ex (\<lambda>q. pg_card q = c \<and> pg_variant q = v) (sd_printings sd)"
  proof
    assume "list_ex (\<lambda>q. pg_card q = c \<and> pg_variant q = v) (sd_printings sd)"
    then obtain q where "q \<in> set (sd_printings sd)" "pg_card q = c" "pg_variant q = v" by (auto simp: list_ex_iff)
    then have "pg_id q = c @ ''-'' @ v" using assms(1) by (auto simp: proper_def)
    then show False using new \<open>q \<in> _\<close> by (metis image_eqI)
  qed
  moreover have "upsert pg_id revive_printing (new_printing c v s i) (sd_printings sd) =
      sd_printings sd @ [new_printing c v s i]" using new by (simp add: upsert_miss)
  ultimately show ?thesis using False assms(3,4) by (simp add: put_resolution_def put_printing_def)
qed

lemma upsert_proper:
  "proper q \<Longrightarrow> \<forall>p \<in> set ps. proper p \<Longrightarrow> \<forall>p \<in> set (upsert pg_id revive_printing q ps). proper p"
  by (auto simp: upsert_def)

lemma put_resolutions_run:
  assumes "\<forall>p \<in> set (sd_printings sd). proper p" "\<forall>r \<in> set m. dashless (fst r) \<and> has_variant sd (fst r)" "has_card sd c"
  shows "for_each m (put_resolution c) sd =
     (Inr (), sd\<lparr>sd_printings := fold (upsert pg_id revive_printing) (card_printings c m) (sd_printings sd)\<rparr>)"
  using assms
proof (induction m arbitrary: sd)
  case Nil
  show ?case by (simp add: ret_def card_printings_def)
next
  case (Cons r m)
  obtain v s i where r: "r = (v, s, i)" by (rule prod_cases3)
  let ?sd = "sd\<lparr>sd_printings := upsert pg_id revive_printing (new_printing c v s i) (sd_printings sd)\<rparr>"
  have "put_resolution c r sd = (Inr (), ?sd)"
    unfolding r by (rule put_resolution_run) (use Cons.prems in \<open>simp_all add: r\<close>)
  moreover have "for_each m (put_resolution c) ?sd =
      (Inr (), ?sd\<lparr>sd_printings := fold (upsert pg_id revive_printing) (card_printings c m) (sd_printings ?sd)\<rparr>)"
    by (rule Cons.IH) (use Cons.prems upsert_proper [of "new_printing c v s i"] in \<open>simp_all add: r\<close>)
  ultimately show ?case by (simp add: bind_act_def card_printings_def r)
qed

lemma expand_card_run:
  assumes "\<forall>p \<in> set (sd_printings sd). proper p" "\<forall>r \<in> set m. dashless (fst r) \<and> has_variant sd (fst r)" "has_card sd c"
  shows "expand_card now c m sd = (Inr (length m), sd\<lparr>sd_printings := card_pass now c m (sd_printings sd)\<rparr>)"
proof -
  let ?sd = "sd\<lparr>sd_printings := deprecate now c (sd_printings sd)\<rparr>"
  have "for_each m (put_resolution c) ?sd =
      (Inr (), ?sd\<lparr>sd_printings := fold (upsert pg_id revive_printing) (card_printings c m) (sd_printings ?sd)\<rparr>)"
    by (rule put_resolutions_run) (use assms in \<open>auto simp: deprecate_map\<close>)
  then show ?thesis by (simp add: expand_card_def ingest_tx_def act_simps change_def card_pass_def)
qed

text \<open>What the pass makes of the rows of a card.\<close>

definition in_line :: "resolution list \<Rightarrow> PrintingRow \<Rightarrow> bool" where
  "in_line m p \<longleftrightarrow>
     (case map_of m (pg_variant p) of
        Some (s, i) \<Rightarrow> pg_deprecated_at p = None \<and> pg_sub_type p = s \<and> pg_product p = i
      | None \<Rightarrow> pg_deprecated_at p \<noteq> None)"

definition aligned :: "string \<Rightarrow> resolution list \<Rightarrow> PrintingRow list \<Rightarrow> bool" where
  "aligned c m ps \<longleftrightarrow>
     (\<forall>p \<in> set ps. pg_card p = c \<longrightarrow> in_line m p) \<and> (\<forall>v \<in> fst ` set m. \<exists>p \<in> set ps. pg_card p = c \<and> pg_variant p = v)"

definition clean :: "resolution list \<Rightarrow> bool" where
  "clean m \<longleftrightarrow> distinct (map fst m) \<and> (\<forall>r \<in> set m. dashless (fst r))"

lemma card_printings_proper: "clean m \<Longrightarrow> p \<in> set (card_printings c m) \<Longrightarrow> proper p \<and> pg_card p = c"
  unfolding clean_def card_printings_def by (clarsimp, drule (1) bspec, simp)

lemma upserts_proper:
  "\<forall>q \<in> set xs. proper q \<Longrightarrow> \<forall>p \<in> set ps. proper p \<Longrightarrow> \<forall>p \<in> set (fold (upsert pg_id revive_printing) xs ps). proper p"
proof (induction xs arbitrary: ps)
  case (Cons x xs)
  have "\<forall>p \<in> set (upsert pg_id revive_printing x ps). proper p"
    by (rule upsert_proper) (use Cons.prems in simp_all)
  moreover have "\<forall>q \<in> set xs. proper q" using Cons.prems(1) by simp
  ultimately show ?case using Cons.IH unfolding fold_simps comp_def by blast
qed simp

lemma card_pass_proper: "clean m \<Longrightarrow> \<forall>p \<in> set ps. proper p \<Longrightarrow> \<forall>p \<in> set (card_pass now c m ps). proper p"
  unfolding card_pass_def by (rule upserts_proper) (auto dest: card_printings_proper simp: deprecate_map)

lemma in_card_printings:
  assumes "clean m" "proper p" "pg_card p = c"
  shows "filter (\<lambda>x. pg_id x = pg_id p) (card_printings c m) =
    (case map_of m (pg_variant p) of Some (s, i) \<Rightarrow> [new_printing c (pg_variant p) s i] | None \<Rightarrow> [])"
  using assms(1)
proof (induction m)
  case Nil
  show ?case by (simp add: card_printings_def)
next
  case (Cons r m)
  obtain v s i where r: "r = (v, s, i)" by (rule prod_cases3)
  have c: "clean m" "dashless v" "v \<notin> fst ` set m" using Cons.prems by (simp_all add: clean_def r)
  have i: "pg_id (new_printing c v s i) = pg_id p \<longleftrightarrow> v = pg_variant p"
    using proper_id [of "new_printing c v s i" p] c(2) assms(2,3) by simp
  have cons: "card_printings c (r # m) = new_printing c v s i # card_printings c m" by (simp add: card_printings_def r)
  show ?case
  proof (cases "v = pg_variant p")
    case True
    then have "map_of m (pg_variant p) = None" using c(3) by (simp add: map_of_eq_None_iff)
    then show ?thesis using Cons.IH [OF c(1)] i True unfolding cons by (simp add: r)
  next
    case False
    then show ?thesis using Cons.IH [OF c(1)] i unfolding cons by (simp add: r)
  qed
qed

lemma card_pass_aligned:
  assumes "clean m" "\<forall>p \<in> set ps. proper p"
  shows "aligned c m (card_pass now c m ps)"
  unfolding aligned_def
proof (intro conjI ballI impI)
  fix r assume r: "r \<in> set (card_pass now c m ps)" "pg_card r = c"
  let ?xs = "card_printings c m"
  have pr: "proper r" using card_pass_proper [OF assms] r(1) by blast
  note found = in_card_printings [OF assms(1) pr r(2)]
  show "in_line m r"
  proof (cases "map_of m (pg_variant r)")
    case None
    then have no: "filter (\<lambda>x. pg_id x = pg_id r) ?xs = []" using found by simp
    then have "pg_id r \<notin> pg_id ` set ?xs" by (auto simp: filter_empty_conv)
    from printings.outside_batch [OF this, of "deprecate now c ps"]
    have "r \<in> set (deprecate now c ps)" using r(1) by (simp only: card_pass_def)
    then obtain q where q: "r = (if pg_card q = c then deprecated now q else q)" using in_deprecate by blast
    then have "pg_card q = c" using r(2) by (cases "pg_card q = c") simp_all
    then have "pg_deprecated_at r \<noteq> None" by (simp add: q)
    then show ?thesis using None by (simp add: in_line_def)
  next
    case (Some e)
    obtain s i where e: "e = (s, i)" by (rule prod.exhaust)
    have "printings.settle ?xs r = r"
      by (rule printings.upserts_settled [OF fresh_card_printings r(1) [unfolded card_pass_def]])
    then have "r = revive_printing (new_printing c (pg_variant r) s i) r"
      using found Some e by (simp add: printings.settle_last)
    from arg_cong [OF this, of pg_deprecated_at] arg_cong [OF this, of pg_sub_type] arg_cong [OF this, of pg_product]
    have "pg_deprecated_at r = None" "pg_sub_type r = s" "pg_product r = i"
      by (simp_all only: revive_simps new_printing_simps)
    then show ?thesis using Some e by (simp add: in_line_def)
  qed
next
  fix v assume "v \<in> fst ` set m"
  then obtain s i where v: "(v, s, i) \<in> set m" by auto
  then have new: "new_printing c v s i \<in> set (card_printings c m)"
    unfolding card_printings_def set_map by (rule rev_image_eqI) simp
  then have "pg_id (new_printing c v s i) \<in> pg_id ` set (card_pass now c m ps)"
    unfolding card_pass_def printings.upserts_key_set by (intro UnI1 imageI)
  then obtain q where q: "q \<in> set (card_pass now c m ps)" "pg_id q = pg_id (new_printing c v s i)"
    by (metis imageE)
  then have "proper q" "proper (new_printing c v s i)"
    using card_pass_proper [OF assms] card_printings_proper [OF assms(1) new] by blast+
  from proper_id [OF this] q(2) have "pg_card q = c \<and> pg_variant q = v" by simp
  then show "\<exists>p \<in> set (card_pass now c m ps). pg_card p = c \<and> pg_variant p = v" using q(1) by blast
qed

lemma card_pass_others:
  assumes "clean m" "\<forall>p \<in> set ps. proper p" "pg_card p \<noteq> c"
  shows "p \<in> set (card_pass now c m ps) \<longleftrightarrow> p \<in> set ps"
proof -
  have d: "p \<in> set (deprecate now c ps) \<longleftrightarrow> p \<in> set ps"
  proof
    assume "p \<in> set (deprecate now c ps)"
    then obtain q where q: "q \<in> set ps" "p = (if pg_card q = c then deprecated now q else q)"
      using in_deprecate by blast
    then have "pg_card q \<noteq> c" using assms(3) by (cases "pg_card q = c") simp_all
    then show "p \<in> set ps" using q by simp
  next
    assume "p \<in> set ps"
    then show "p \<in> set (deprecate now c ps)"
      unfolding deprecate_map set_map using assms(3) by (intro rev_image_eqI [of p]) auto
  qed
  show ?thesis
  proof (cases "proper p")
    case True
    have "pg_id p \<notin> pg_id ` set (card_printings c m)"
    proof
      assume "pg_id p \<in> pg_id ` set (card_printings c m)"
      then obtain q where "q \<in> set (card_printings c m)" "pg_id p = pg_id q" by blast
      then show False using proper_id [OF True] card_printings_proper [OF assms(1)] assms(3) by blast
    qed
    from printings.outside_batch [OF this, of "deprecate now c ps"] show ?thesis by (simp only: card_pass_def d)
  next
    case False
    then show ?thesis using card_pass_proper [OF assms(1,2)] assms(2) by blast
  qed
qed

lemma card_pass_ids: "pg_id ` set ps \<subseteq> pg_id ` set (card_pass now c m ps)"
  unfolding card_pass_def printings.upserts_key_set by simp

lemma card_pass_settled:
  assumes "clean m" "\<forall>p \<in> set ps. proper p" "aligned c m ps"
  shows "card_pass now c m ps = ps"
proof -
  let ?xs = "card_printings c m"
  have "pg_id q \<in> pg_id ` set ps" if "q \<in> set ?xs" for q
  proof -
    have "pg_variant q \<in> fst ` set m" using that by (force simp: card_printings_def)
    then obtain p where p: "p \<in> set ps" "pg_card p = c" "pg_variant p = pg_variant q"
      using assms(3) unfolding aligned_def by blast
    then have "pg_id p = pg_id q" using assms(2) card_printings_proper [OF assms(1) that] proper_id by metis
    then show ?thesis using p(1) by (metis image_eqI)
  qed
  then have "pg_id ` set ?xs \<subseteq> pg_id ` set (deprecate now c ps)"
    unfolding deprecate_ids by blast
  then have "card_pass now c m ps = map (printings.settle ?xs) (deprecate now c ps)"
    unfolding card_pass_def by (rule printings.upserts_present)
  also have "\<dots> = map (\<lambda>p. printings.settle ?xs (if pg_card p = c then deprecated now p else p)) ps"
    by (simp add: deprecate_map)
  also have "\<dots> = ps"
  proof (rule map_idI)
    fix p assume p: "p \<in> set ps"
    show "printings.settle ?xs (if pg_card p = c then deprecated now p else p) = p"
    proof (cases "pg_card p = c")
      case False
      have "filter (\<lambda>x. pg_id x = pg_id p) ?xs = []"
        using False assms(2) p proper_id card_printings_proper [OF assms(1)] by (auto simp: filter_empty_conv)
      then show ?thesis using False by (simp add: printings.settle_last)
    next
      case True
      let ?d = "deprecated now p"
      have pr: "proper ?d" using assms(2) p by simp
      have l: "in_line m p" using assms(3) p True unfolding aligned_def by blast
      note found = in_card_printings [OF assms(1) pr, of c]
      show ?thesis
      proof (cases "map_of m (pg_variant p)")
        case None
        then have "?d = p" using l by (simp add: in_line_def deprecated_def)
        then show ?thesis using found None True by (simp add: printings.settle_last)
      next
        case (Some e)
        obtain s i where e: "e = (s, i)" by (rule prod.exhaust)
        have "revive_printing (new_printing c (pg_variant p) s i) ?d = p"
          using l Some e by (simp add: in_line_def revive_printing_def deprecated_def)
        then show ?thesis using found Some e True by (simp add: printings.settle_last)
      qed
    qed
  qed
  finally show ?thesis .
qed

section \<open>All cards\<close>

lemma resolution_frames [simp]:
  "variant_map (sd\<lparr>sd_printings := ps\<rparr>) = variant_map sd" "expandable_cards (sd\<lparr>sd_printings := ps\<rparr>) = expandable_cards sd"
  "variant_map (sd\<lparr>sd_variants := vs\<rparr>) = variant_map sd" "expandable_cards (sd\<lparr>sd_variants := vs\<rparr>) = expandable_cards sd"
  "preload_cross_group_products rt (sd\<lparr>sd_printings := ps\<rparr>) = preload_cross_group_products rt sd"
  "preload_cross_group_products rt (sd\<lparr>sd_variants := vs\<rparr>) = preload_cross_group_products rt sd"
  "load_sub_types (sd\<lparr>sd_printings := ps\<rparr>) = load_sub_types sd" "load_sub_types (sd\<lparr>sd_variants := vs\<rparr>) = load_sub_types sd"
  "expansion_codes (sd\<lparr>sd_printings := ps\<rparr>) = expansion_codes sd" "expansion_codes (sd\<lparr>sd_variants := vs\<rparr>) = expansion_codes sd"
proof -
  have p: "linked_to (sd\<lparr>sd_printings := ps\<rparr>) = linked_to sd" "linked_to (sd\<lparr>sd_variants := vs\<rparr>) = linked_to sd"
    by (intro ext; simp add: linked_to_def)+
  have t: "sub_type_first (sd\<lparr>sd_printings := ps\<rparr>) = sub_type_first sd"
    "sub_type_first (sd\<lparr>sd_variants := vs\<rparr>) = sub_type_first sd"
    by (intro ext; simp add: sub_type_first_def)+
  have q: "product_variants (sd\<lparr>sd_printings := ps\<rparr>) = product_variants sd"
    "product_variants (sd\<lparr>sd_variants := vs\<rparr>) = product_variants sd"
    by (intro ext; simp add: product_variants_def t split: option.split)+
  have v: "variants_from_tcgcsv (sd\<lparr>sd_printings := ps\<rparr>) = variants_from_tcgcsv sd"
    "variants_from_tcgcsv (sd\<lparr>sd_variants := vs\<rparr>) = variants_from_tcgcsv sd"
    by (intro ext; simp add: variants_from_tcgcsv_def p q)+
  show "variant_map (sd\<lparr>sd_printings := ps\<rparr>) = variant_map sd" "variant_map (sd\<lparr>sd_variants := vs\<rparr>) = variant_map sd"
    by (intro ext; simp add: variant_map_def v)+
  show "expandable_cards (sd\<lparr>sd_printings := ps\<rparr>) = expandable_cards sd"
    "expandable_cards (sd\<lparr>sd_variants := vs\<rparr>) = expandable_cards sd" by (simp_all add: expandable_cards_def)
  have n: "named_by_set rt (sd\<lparr>sd_printings := ps\<rparr>) = named_by_set rt sd"
    "named_by_set rt (sd\<lparr>sd_variants := vs\<rparr>) = named_by_set rt sd"
    by (intro ext; simp add: named_by_set_def set_named_def split: option.split)+
  have c: "classify_cross rt (sd\<lparr>sd_printings := ps\<rparr>) = classify_cross rt sd"
    "classify_cross rt (sd\<lparr>sd_variants := vs\<rparr>) = classify_cross rt sd"
    unfolding classify_cross_def n t by (intro ext refl)+
  have x: "cross_product rt (sd\<lparr>sd_printings := ps\<rparr>) = cross_product rt sd"
    "cross_product rt (sd\<lparr>sd_variants := vs\<rparr>) = cross_product rt sd"
    by (intro ext; simp add: cross_product_def c split: option.split)+
  show "preload_cross_group_products rt (sd\<lparr>sd_printings := ps\<rparr>) = preload_cross_group_products rt sd"
    "preload_cross_group_products rt (sd\<lparr>sd_variants := vs\<rparr>) = preload_cross_group_products rt sd"
    by (intro ext; simp add: preload_cross_group_products_def x)+
  show "load_sub_types (sd\<lparr>sd_printings := ps\<rparr>) = load_sub_types sd"
    "load_sub_types (sd\<lparr>sd_variants := vs\<rparr>) = load_sub_types sd" by (simp_all add: load_sub_types_def)
  show "expansion_codes (sd\<lparr>sd_printings := ps\<rparr>) = expansion_codes sd"
    "expansion_codes (sd\<lparr>sd_variants := vs\<rparr>) = expansion_codes sd"
    by (intro ext; simp add: expansion_codes_def)+
qed

definition passes :: "string \<Rightarrow> (CardInfo \<Rightarrow> resolution list) \<Rightarrow> CardInfo list \<Rightarrow> PrintingRow list \<Rightarrow> PrintingRow list" where
  "passes now vm cards = fold (\<lambda>c. card_pass now (ci_id c) (vm c)) cards"

lemma passes_proper:
  "\<forall>c \<in> set cards. clean (vm c) \<Longrightarrow> \<forall>p \<in> set ps. proper p \<Longrightarrow> \<forall>p \<in> set (passes now vm cards ps). proper p"
  unfolding passes_def
proof (induction cards arbitrary: ps)
  case (Cons c cards)
  have "\<forall>p \<in> set (card_pass now (ci_id c) (vm c) ps). proper p"
    by (rule card_pass_proper) (use Cons.prems in simp_all)
  moreover have "\<forall>d \<in> set cards. clean (vm d)" using Cons.prems(1) by simp
  ultimately show ?case using Cons.IH [of "card_pass now (ci_id c) (vm c) ps"] by simp
qed simp

lemma passes_others:
  assumes "\<forall>c \<in> set cards. clean (vm c)" "\<forall>p \<in> set ps. proper p" "pg_card p \<notin> ci_id ` set cards"
  shows "p \<in> set (passes now vm cards ps) \<longleftrightarrow> p \<in> set ps"
  using assms
proof (induction cards arbitrary: ps)
  case (Cons c cards)
  let ?ps = "card_pass now (ci_id c) (vm c) ps"
  have "\<forall>p \<in> set ?ps. proper p" by (rule card_pass_proper) (use Cons.prems in simp_all)
  then have "p \<in> set (passes now vm cards ?ps) \<longleftrightarrow> p \<in> set ?ps" using Cons.IH Cons.prems by simp
  moreover have "p \<in> set ?ps \<longleftrightarrow> p \<in> set ps" by (rule card_pass_others) (use Cons.prems in auto)
  ultimately show ?case by (simp add: passes_def)
qed (simp add: passes_def)

lemma aligned_cong:
  assumes "\<And>p. pg_card p = c \<Longrightarrow> p \<in> set ps \<longleftrightarrow> p \<in> set qs"
  shows "aligned c m ps \<longleftrightarrow> aligned c m qs"
proof -
  have "(\<forall>p \<in> set ps. pg_card p = c \<longrightarrow> in_line m p) \<longleftrightarrow> (\<forall>p \<in> set qs. pg_card p = c \<longrightarrow> in_line m p)"
    using assms by blast
  moreover have "(\<exists>p \<in> set ps. pg_card p = c \<and> pg_variant p = v) \<longleftrightarrow> (\<exists>p \<in> set qs. pg_card p = c \<and> pg_variant p = v)" for v
    using assms by blast
  ultimately show ?thesis by (simp only: aligned_def)
qed

lemma passes_aligned:
  assumes "\<forall>c \<in> set cards. clean (vm c)" "\<forall>p \<in> set ps. proper p" "distinct (map ci_id cards)" "c \<in> set cards"
  shows "aligned (ci_id c) (vm c) (passes now vm cards ps)"
  using assms
proof (induction cards arbitrary: ps)
  case (Cons d cards)
  let ?ps = "card_pass now (ci_id d) (vm d) ps"
  have pr: "\<forall>p \<in> set ?ps. proper p" by (rule card_pass_proper) (use Cons.prems in simp_all)
  have step: "passes now vm (d # cards) ps = passes now vm cards ?ps" by (simp add: passes_def)
  show ?case
  proof (cases "c \<in> set cards")
    case True
    then show ?thesis unfolding step using Cons pr by simp
  next
    case False
    then have c: "c = d" using Cons.prems(4) by simp
    have a: "aligned (ci_id d) (vm d) ?ps" by (rule card_pass_aligned) (use Cons.prems in simp_all)
    have cl: "\<forall>c \<in> set cards. clean (vm c)" and nd: "ci_id d \<notin> ci_id ` set cards" using Cons.prems(1,3) by auto
    have "p \<in> set (passes now vm cards ?ps) \<longleftrightarrow> p \<in> set ?ps" if "pg_card p = ci_id d" for p
      by (rule passes_others [OF cl pr]) (simp add: that nd)
    from aligned_cong [OF this] a show ?thesis unfolding step c by blast
  qed
qed simp

lemma passes_settled:
  assumes "\<forall>c \<in> set cards. clean (vm c) \<and> aligned (ci_id c) (vm c) ps" "\<forall>p \<in> set ps. proper p"
  shows "passes now vm cards ps = ps"
  using assms(1)
proof (induction cards)
  case (Cons c cards)
  then have "card_pass now (ci_id c) (vm c) ps = ps" using assms(2) by (intro card_pass_settled) auto
  then show ?case using Cons by (simp add: passes_def)
qed (simp add: passes_def)

lemma passes_ids: "pg_id ` set ps \<subseteq> pg_id ` set (passes now vm cards ps)"
  unfolding passes_def
proof (induction cards arbitrary: ps)
  case (Cons c cards)
  show ?case using subset_trans [OF card_pass_ids Cons.IH] by simp
qed simp

lemma sum_each_step:
  "f x s = (Inr n, s') \<Longrightarrow> sum_each xs f s' = (Inr k, s'') \<Longrightarrow> sum_each (x # xs) f s = (Inr (n + k), s'')"
  by (simp add: bind_act_def ret_def)

lemma sum_each_passes:
  assumes "\<forall>p \<in> set (sd_printings sd). proper p"
    "\<forall>c \<in> set cards. clean (variant_map sd m x ov c) \<and> has_card sd (ci_id c) \<and>
       (\<forall>r \<in> set (variant_map sd m x ov c). has_variant sd (fst r))"
  shows "sum_each cards (\<lambda>c. bind_act (query (\<lambda>sd. variant_map sd m x ov c)) (expand_card now (ci_id c))) sd =
    (Inr (sum_list (map (\<lambda>c. length (variant_map sd m x ov c)) cards)),
     sd\<lparr>sd_printings := passes now (variant_map sd m x ov) cards (sd_printings sd)\<rparr>)"
  using assms
proof (induction cards arbitrary: sd)
  case Nil
  show ?case by (simp add: ret_def passes_def)
next
  case (Cons c cards)
  let ?vm = "variant_map sd m x ov"
  let ?sd = "sd\<lparr>sd_printings := card_pass now (ci_id c) (?vm c) (sd_printings sd)\<rparr>"
  have c: "clean (?vm c)" "has_card sd (ci_id c)" "\<forall>r \<in> set (?vm c). has_variant sd (fst r)"
    using Cons.prems(2) by simp_all
  have "expand_card now (ci_id c) (?vm c) sd = (Inr (length (?vm c)), ?sd)"
    by (rule expand_card_run) (use Cons.prems c in \<open>auto simp: clean_def\<close>)
  then have run: "bind_act (query (\<lambda>sd. variant_map sd m x ov c)) (expand_card now (ci_id c)) sd = (Inr (length (?vm c)), ?sd)"
    by (simp add: bind_act_def query_def)
  have "\<forall>p \<in> set (sd_printings ?sd). proper p" using card_pass_proper [OF c(1) Cons.prems(1)] by simp
  from Cons.IH [OF this] Cons.prems(2)
  have rest: "sum_each cards (\<lambda>c. bind_act (query (\<lambda>sd. variant_map sd m x ov c)) (expand_card now (ci_id c))) ?sd =
      (Inr (sum_list (map (\<lambda>c. length (?vm c)) cards)),
       sd\<lparr>sd_printings := passes now ?vm cards (card_pass now (ci_id c) (?vm c) (sd_printings sd))\<rparr>)"
    by simp
  from sum_each_step [of _ c, OF run rest] show ?case by (simp add: passes_def)
qed

section \<open>The variants a card can get\<close>

lemma or_insert_keys [simp]: "fst ` set (or_insert r m) = insert (fst r) (fst ` set m)"
  by (auto simp: or_insert_def)

lemma or_insert_distinct: "distinct (map fst m) \<Longrightarrow> distinct (map fst (or_insert r m))"
  by (simp add: or_insert_def)

lemma or_inserts_distinct: "distinct (map fst m) \<Longrightarrow> distinct (map fst (fold or_insert rs m))"
  by (induction rs arbitrary: m) (simp_all add: or_insert_distinct)

lemma or_inserts_keys: "fst ` set (fold or_insert rs m) = fst ` set rs \<union> fst ` set m"
  by (induction rs arbitrary: m) auto

lemma adds_fold: "fold (\<lambda>v. or_insert (v, None, None)) vs m = fold or_insert (map (\<lambda>v. (v, None, None)) vs) m"
  by (induction vs arbitrary: m) simp_all

lemma removes_sub: "set (fold remove_variant vs m) \<subseteq> set m"
proof (induction vs arbitrary: m)
  case (Cons v vs)
  from Cons.IH [of "remove_variant v m"] show ?case
    unfolding fold_simps comp_def by (rule subset_trans) (simp add: remove_variant_def)
qed simp

lemma removes_distinct: "distinct (map fst m) \<Longrightarrow> distinct (map fst (fold remove_variant vs m))"
  by (induction vs arbitrary: m) (simp_all add: remove_variant_def distinct_map_filter)

lemma override_distinct: "distinct (map fst m) \<Longrightarrow> distinct (map fst (apply_override c ov m))"
  by (simp add: apply_override_def adds_fold removes_distinct or_inserts_distinct)

lemma override_keys: "fst ` set (apply_override c ov m) \<subseteq> set (vo_add ov) \<union> fst ` set m"
proof -
  have "fst ` set (fold remove_variant (vo_remove ov) (fold or_insert (map (\<lambda>v. (v, None, None)) (vo_add ov)) m)) \<subseteq>
      fst ` set (fold or_insert (map (\<lambda>v. (v, None, None)) (vo_add ov)) m)" by (intro image_mono removes_sub)
  also have "\<dots> = set (vo_add ov) \<union> fst ` set m" unfolding or_inserts_keys by (auto simp: image_image)
  finally show ?thesis by (auto simp: apply_override_def adds_fold)
qed

lemma overrides_distinct: "distinct (map fst m) \<Longrightarrow> distinct (map fst (fold (apply_override c) ovs m))"
  by (induction ovs arbitrary: m) (simp_all add: override_distinct)

lemma overrides_keys: "fst ` set (fold (apply_override c) ovs m) \<subseteq> set (concat (map vo_add ovs)) \<union> fst ` set m"
proof (induction ovs arbitrary: m)
  case (Cons ov ovs)
  from Cons.IH [of "apply_override c ov m"] override_keys [of c ov m] show ?case by simp blast
qed simp

lemma load_sub_types_ran:
  assumes "load_sub_types sd k = Some v"
  shows "v \<in> snd ` set (sd_sub_types sd)"
proof -
  have "v \<in> snd ` set es \<or> m k = Some v" if "fold (\<lambda>(k, v) m. m(k \<mapsto> v)) es m k = Some v"
    for es and m :: SubTypeVariantMap
    using that
  proof (induction es arbitrary: m)
    case (Cons e es)
    obtain k' v' where e: "e = (k', v')" by (rule prod.exhaust)
    from Cons.prems have "fold (\<lambda>(k, v) m. m(k \<mapsto> v)) es (m(k' \<mapsto> v')) k = Some v"
      by (simp add: e del: fun_upd_apply)
    from Cons.IH [OF this] show ?case by (cases "k = k'") (auto simp: e)
  qed simp
  from this [of "sd_sub_types sd" Map.empty] assms show ?thesis by (simp add: load_sub_types_def)
qed

lemma lookup_sub_type_ran: "lookup_sub_type (load_sub_types sd) g s = Some v \<Longrightarrow> v \<in> snd ` set (sd_sub_types sd)"
  by (auto simp: lookup_sub_type_def split: option.splits dest: load_sub_types_ran)

lemma in_map_filter: "y \<in> set (List.map_filter f xs) \<longleftrightarrow> (\<exists>x \<in> set xs. f x = Some y)"
  by (force simp: List.map_filter_def)

lemma product_variant_codes:
  "r \<in> set (product_variants sd (load_sub_types sd) p) \<Longrightarrow>
    tp_variant p = Some (fst r) \<or> fst r \<in> snd ` set (sd_sub_types sd)"
  unfolding product_variants_def
  by (cases "tp_variant p") (auto simp: in_map_filter dest: lookup_sub_type_ran)

lemma found_codes:
  assumes "r \<in> set (variants_from_tcgcsv sd (load_sub_types sd) c @ cross_variants x c)"
  shows "fst r \<in> set (expansion_codes sd x ovs) \<union> snd ` set (sd_sub_types sd)"
proof (cases "r \<in> set (cross_variants x c)")
  case True
  then show ?thesis unfolding cross_variants_def expansion_codes_def by (force simp: in_map_filter)
next
  case False
  then obtain p where "p \<in> set (sd_products sd)" "r \<in> set (product_variants sd (load_sub_types sd) p)"
    using assms by (auto simp: variants_from_tcgcsv_def)
  then show ?thesis using product_variant_codes [of r sd p] unfolding expansion_codes_def by (auto simp: in_map_filter)
qed

lemma variant_map_distinct: "distinct (map fst (variant_map sd m x ovs c))"
proof -
  have "distinct (map fst (fold (apply_override c) ovs (fold or_insert rs [])))" for rs
    by (intro overrides_distinct or_inserts_distinct) simp
  then have "distinct (map fst (sort_key fst (fold (apply_override c) ovs (fold or_insert rs []))))" for rs
    by (simp add: distinct_map)
  then show ?thesis by (simp add: variant_map_def Let_def)
qed

lemma variant_map_codes:
  "fst ` set (variant_map sd (load_sub_types sd) x ovs c) \<subseteq>
    {''normal''} \<union> set (expansion_codes sd x ovs) \<union> snd ` set (sd_sub_types sd)"
proof -
  define rs where "rs = (let found = variants_from_tcgcsv sd (load_sub_types sd) c @ cross_variants x c in
      if found = [] then [(''normal'', None, None)] else found)"
  have "fst ` set rs \<subseteq> {''normal''} \<union> set (expansion_codes sd x ovs) \<union> snd ` set (sd_sub_types sd)"
    using found_codes [of _ sd c x ovs] unfolding rs_def Let_def by (auto simp del: set_append)
  moreover have "set (concat (map vo_add ovs)) \<subseteq> set (expansion_codes sd x ovs)" by (auto simp: expansion_codes_def)
  moreover have "fst ` set (variant_map sd (load_sub_types sd) x ovs c) \<subseteq> set (concat (map vo_add ovs)) \<union> fst ` set rs"
    using overrides_keys [of c ovs "fold or_insert rs []"] unfolding or_inserts_keys
    by (simp add: variant_map_def rs_def Let_def)
  ultimately show ?thesis by blast
qed

section \<open>The pass as a whole\<close>

lemma ensure_codes_fold:
  "fold ensure_code codes sd = sd\<lparr>sd_variants := fold (\<lambda>c. insert_or_ignore va_code (synthesize c)) codes (sd_variants sd)\<rparr>"
  by (induction codes arbitrary: sd) (simp_all add: ensure_code_def)

lemma ignored_codes: "va_code ` set (insert_or_ignore va_code (synthesize c) vs) = insert c (va_code ` set vs)"
  by (auto simp: insert_or_ignore_def list_ex_key)

lemma ensured_keys:
  "va_code ` set (fold (\<lambda>c. insert_or_ignore va_code (synthesize c)) codes vs) = set codes \<union> va_code ` set vs"
  by (induction codes arbitrary: vs) (auto simp: ignored_codes)

lemma ensured_distinct:
  "distinct (map va_code vs) \<Longrightarrow> distinct (map va_code (fold (\<lambda>c. insert_or_ignore va_code (synthesize c)) codes vs))"
proof (induction codes arbitrary: vs)
  case (Cons c codes)
  have "distinct (map va_code (insert_or_ignore va_code (synthesize c) vs))"
    using Cons.prems by (simp add: insert_or_ignore_def list_ex_key)
  then show ?case using Cons.IH by simp
qed simp

lemma ensured_present:
  "set codes \<subseteq> va_code ` set vs \<Longrightarrow> fold (\<lambda>c. insert_or_ignore va_code (synthesize c)) codes vs = vs"
  by (induction codes) (auto simp: insert_or_ignore_def list_ex_key)

definition row_name :: "PrintingRow \<Rightarrow> string \<times> string \<times> string" where
  "row_name p = (pg_id p, pg_card p, pg_variant p)"

lemma row_name_simps [simp]: "row_name (revive_printing q p) = row_name p" "row_name (deprecated now p) = row_name p"
  by (simp_all add: row_name_def)

lemma upsert_names:
  "row_name ` set ps \<subseteq> row_name ` set (upsert pg_id revive_printing q ps)"
  "row_name ` set (upsert pg_id revive_printing q ps) \<subseteq> insert (row_name q) (row_name ` set ps)"
proof -
  have "map row_name (map (\<lambda>x. if pg_id x = pg_id q then revive_printing q x else x) ps) = map row_name ps" by simp
  then have hit: "row_name ` set (map (\<lambda>x. if pg_id x = pg_id q then revive_printing q x else x) ps) = row_name ` set ps"
    by (drule_tac f = set in arg_cong) (simp only: set_map)
  have names: "row_name ` set (upsert pg_id revive_printing q ps) = row_name ` set ps \<or>
      row_name ` set (upsert pg_id revive_printing q ps) = insert (row_name q) (row_name ` set ps)"
  proof (cases "pg_id q \<in> pg_id ` set ps")
    case True
    show ?thesis unfolding upsert_hit [OF True] using hit by (rule disjI1)
  next
    case False
    show ?thesis unfolding upsert_miss [OF False] by simp
  qed
  then show "row_name ` set ps \<subseteq> row_name ` set (upsert pg_id revive_printing q ps)" by blast
  from names show "row_name ` set (upsert pg_id revive_printing q ps) \<subseteq> insert (row_name q) (row_name ` set ps)" by blast
qed

lemma upserts_names:
  "row_name ` set ps \<subseteq> row_name ` set (fold (upsert pg_id revive_printing) qs ps) \<and>
   row_name ` set (fold (upsert pg_id revive_printing) qs ps) \<subseteq> row_name ` set qs \<union> row_name ` set ps"
proof (induction qs arbitrary: ps)
  case (Cons q qs)
  note IH = Cons.IH [of "upsert pg_id revive_printing q ps"]
  have "row_name ` set ps \<subseteq> row_name ` set (fold (upsert pg_id revive_printing) (q # qs) ps)"
    unfolding fold_simps comp_def by (rule subset_trans [OF upsert_names(1) IH [THEN conjunct1]])
  moreover have "row_name ` set (fold (upsert pg_id revive_printing) (q # qs) ps) \<subseteq>
      row_name ` set qs \<union> insert (row_name q) (row_name ` set ps)"
    unfolding fold_simps comp_def
    by (rule subset_trans [OF IH [THEN conjunct2]]) (rule Un_mono [OF order_refl upsert_names(2)])
  ultimately show ?case by simp
qed simp

lemma deprecate_names: "row_name ` set (deprecate now c ps) = row_name ` set ps"
proof -
  have "map row_name (deprecate now c ps) = map row_name ps" by (simp add: deprecate_map)
  then show ?thesis by (metis set_map)
qed

lemma card_pass_names: "row_name ` set ps \<subseteq> row_name ` set (card_pass now c m ps)"
  using upserts_names [of "deprecate now c ps" "card_printings c m"] unfolding card_pass_def deprecate_names by blast

lemma passes_names: "row_name ` set ps \<subseteq> row_name ` set (passes now vm cards ps)"
  unfolding passes_def
proof (induction cards arbitrary: ps)
  case (Cons c cards)
  show ?case using subset_trans [OF card_pass_names Cons.IH] by simp
qed simp

lemma passes_distinct: "distinct (map pg_id ps) \<Longrightarrow> distinct (map pg_id (passes now vm cards ps))"
  unfolding passes_def
proof (induction cards arbitrary: ps)
  case (Cons c cards)
  have "map pg_id (deprecate now (ci_id c) ps) = map pg_id ps" by (simp add: deprecate_map)
  then have "distinct (map pg_id (card_pass now (ci_id c) (vm c) ps))"
    unfolding card_pass_def by (intro printings.upserts_distinct) (simp add: Cons.prems)
  then show ?case using Cons.IH by simp
qed simp

lemma card_pass_refs:
  "row_name ` set (card_pass now c m ps) \<subseteq> row_name ` set (card_printings c m) \<union> row_name ` set ps"
  using upserts_names [of "deprecate now c ps" "card_printings c m"] unfolding card_pass_def deprecate_names by blast

lemma passes_refs:
  "row_name ` set (passes now vm cards ps) \<subseteq> (\<Union>c \<in> set cards. row_name ` set (card_printings (ci_id c) (vm c))) \<union> row_name ` set ps"
  unfolding passes_def
proof (induction cards arbitrary: ps)
  case (Cons c cards)
  from Cons.IH [of "card_pass now (ci_id c) (vm c) ps"] card_pass_refs [of now "ci_id c" "vm c" ps]
  show ?case unfolding fold_simps comp_def list.set UN_insert by blast
qed simp

definition normal_form :: "shared_db \<Rightarrow> bool" where
  "normal_form sd \<longleftrightarrow> shared_ok sd \<and> has_variant sd ''normal'' \<and>
     (\<forall>p \<in> set (sd_printings sd). pg_id p = pg_card p @ ''-'' @ pg_variant p) \<and> (\<forall>v \<in> va_code ` set (sd_variants sd). dashless v)"

lemma expandable_distinct: "shared_ok sd \<Longrightarrow> distinct (map ci_id (expandable_cards sd))"
proof -
  assume ok: "shared_ok sd"
  have one: "length (filter (\<lambda>s. st_code s = k) ss) \<le> 1" if "distinct (map st_code ss)" for k and ss :: "SharedSet list"
    using that by (induction ss) (auto simp: filter_empty_conv, metis image_eqI)
  define f where "f c = map (\<lambda>s.
         \<lparr>ci_id = cd_id c, ci_set = cd_set c, ci_number = cd_number c, ci_rarity = cd_rarity c,
          ci_name_lower = to_ascii_lowercase (cd_name c), ci_set_name_lower = to_ascii_lowercase (st_name s),
          ci_printed_total = ss_printed_total s\<rparr>)
         (filter (\<lambda>s. st_code s = cd_set c) (sd_sets sd))" for c :: SharedCard
  have f: "map ci_id (f c) = [] \<or> map ci_id (f c) = [cd_id c]" for c
    using one [of "sd_sets sd" "cd_set c"] ok
    by (cases "filter (\<lambda>s. st_code s = cd_set c) (sd_sets sd)") (auto simp: f_def shared_ok_def)
  have "distinct (concat (map (\<lambda>c. map ci_id (f c)) cs)) \<and> set (concat (map (\<lambda>c. map ci_id (f c)) cs)) \<subseteq> cd_id ` set cs"
    if "distinct (map cd_id cs)" for cs
    using that
  proof (induction cs)
    case (Cons c cs)
    then have "distinct (concat (map (\<lambda>c. map ci_id (f c)) cs))"
      "set (concat (map (\<lambda>c. map ci_id (f c)) cs)) \<subseteq> cd_id ` set cs" "cd_id c \<notin> cd_id ` set cs" by simp_all
    then show ?case using f [of c] unfolding list.map(2) concat.simps by (elim disjE; simp only:) auto
  qed simp
  moreover have "distinct (map cd_id (filter (\<lambda>c. cd_set c \<noteq> PROMO_SET_CODE) (sd_cards sd)))"
    using ok by (simp add: shared_ok_def distinct_map_filter)
  ultimately show ?thesis by (simp add: expandable_cards_def f_def map_concat comp_def)
qed

lemma expandable_has_card: "c \<in> set (expandable_cards sd) \<Longrightarrow> has_card sd (ci_id c)"
  by (auto simp: expandable_cards_def has_card_def list_ex_iff)

lemma normal_proper: "normal_form sd \<Longrightarrow> \<forall>p \<in> set (sd_printings sd). proper p"
  unfolding normal_form_def shared_ok_def proper_def has_variant_def list_ex_key by blast

lemma variant_map_ready:
  assumes "normal_form sd" "\<forall>v \<in> set (expansion_codes sd x ovs). dashless v \<and> has_variant sd v"
  shows "clean (variant_map sd (load_sub_types sd) x ovs c)"
    "r \<in> set (variant_map sd (load_sub_types sd) x ovs c) \<Longrightarrow> has_variant sd (fst r)"
proof -
  have v: "has_variant sd v" if "v \<in> fst ` set (variant_map sd (load_sub_types sd) x ovs c)" for v
  proof -
    have "v = ''normal'' \<or> v \<in> set (expansion_codes sd x ovs) \<or> v \<in> snd ` set (sd_sub_types sd)"
      using subsetD [OF variant_map_codes that] by simp
    moreover have "\<forall>e \<in> set (sd_sub_types sd). has_variant sd (snd e)" "has_variant sd ''normal''"
      using assms(1) unfolding normal_form_def shared_ok_def by simp_all
    ultimately show ?thesis using assms(2) by (elim disjE imageE) simp_all
  qed
  then show "r \<in> set (variant_map sd (load_sub_types sd) x ovs c) \<Longrightarrow> has_variant sd (fst r)" by blast
  show "clean (variant_map sd (load_sub_types sd) x ovs c)"
    unfolding clean_def using variant_map_distinct v assms(1)
    unfolding normal_form_def has_variant_def list_ex_key by blast
qed

lemma expansion_run:
  assumes "normal_form sd" "preload_cross_group_products rt sd (load_sub_types sd) = x"
    "\<forall>v \<in> set (expansion_codes sd x ovs). dashless v \<and> has_variant sd v"
  shows "expand_all_printings rt ovs now sd =
    (Inr (sum_list (map (length \<circ> variant_map sd (load_sub_types sd) x ovs) (expandable_cards sd))),
     sd\<lparr>sd_printings := passes now (variant_map sd (load_sub_types sd) x ovs) (expandable_cards sd) (sd_printings sd)\<rparr>)"
proof -
  have "set (expansion_codes sd x ovs) \<subseteq> va_code ` set (sd_variants sd)"
    using assms(3) by (auto simp: has_variant_def list_ex_key)
  then have ens: "fold ensure_code (expansion_codes sd x ovs) sd = sd"
    by (simp add: ensure_codes_fold ensured_present)
  have "\<forall>c \<in> set (expandable_cards sd). clean (variant_map sd (load_sub_types sd) x ovs c) \<and> has_card sd (ci_id c) \<and>
       (\<forall>r \<in> set (variant_map sd (load_sub_types sd) x ovs c). has_variant sd (fst r))"
    using variant_map_ready [OF assms(1,3)] expandable_has_card by blast
  from sum_each_passes [OF normal_proper [OF assms(1)] this]
  show ?thesis unfolding expand_all_printings_def Let_def assms(2) ens by (simp add: comp_def)
qed

lemma passes_shared_ok:
  assumes "normal_form sd" "\<forall>v \<in> set (expansion_codes sd x ovs). dashless v \<and> has_variant sd v"
  defines "vm \<equiv> variant_map sd (load_sub_types sd) x ovs"
  shows "normal_form (sd\<lparr>sd_printings := passes now vm (expandable_cards sd) (sd_printings sd)\<rparr>)"
proof -
  let ?ps = "passes now vm (expandable_cards sd) (sd_printings sd)"
  have cl: "\<forall>c \<in> set (expandable_cards sd). clean (vm c)"
    unfolding vm_def using variant_map_ready(1) [OF assms(1,2)] by blast
  have pr: "\<forall>p \<in> set ?ps. proper p" by (rule passes_proper [OF cl normal_proper [OF assms(1)]])
  have ids: "distinct (map pg_id ?ps)"
    by (rule passes_distinct) (use assms(1) in \<open>simp add: normal_form_def shared_ok_def\<close>)
  have "inj_on (\<lambda>p. (pg_card p, pg_variant p)) (set ?ps)"
    using pr ids proper_id unfolding distinct_map inj_on_def by (metis prod.inject)
  then have refs: "distinct (map (\<lambda>p. (pg_card p, pg_variant p)) ?ps)" using ids unfolding distinct_map by blast
  have fk: "has_card sd (pg_card p) \<and> has_variant sd (pg_variant p)" if p: "p \<in> set ?ps" for p
  proof -
    have "row_name p \<in> row_name ` set ?ps" using p by simp
    from subsetD [OF passes_refs this] consider
        (new) c q where "c \<in> set (expandable_cards sd)" "q \<in> set (card_printings (ci_id c) (vm c))" "row_name p = row_name q"
      | (old) q where "q \<in> set (sd_printings sd)" "row_name p = row_name q" by blast
    then show ?thesis
    proof cases
      case new
      then obtain r where r: "r \<in> set (vm c)" "pg_card p = ci_id c" "pg_variant p = fst r"
        by (auto simp: card_printings_def row_name_def)
      then show ?thesis
        using expandable_has_card [OF new(1)] variant_map_ready(2) [OF assms(1,2)] unfolding vm_def by simp
    next
      case old
      then show ?thesis using assms(1) by (auto simp: row_name_def normal_form_def shared_ok_def)
    qed
  qed
  have "\<forall>p \<in> set ?ps. pg_id p = pg_card p @ ''-'' @ pg_variant p" using pr by (simp add: proper_def)
  moreover have "shared_ok (sd\<lparr>sd_printings := ?ps\<rparr>)"
    using assms(1) ids refs fk unfolding normal_form_def shared_ok_def by (simp cong: option.case_cong)
  ultimately show ?thesis using assms(1) by (simp add: normal_form_def)
qed

lemma ensured_normal:
  assumes "normal_form sd" "\<forall>v \<in> set codes. dashless v"
  shows "normal_form (fold ensure_code codes sd)"
proof -
  let ?vs = "fold (\<lambda>c. insert_or_ignore va_code (synthesize c)) codes (sd_variants sd)"
  have keys: "has_variant (sd\<lparr>sd_variants := ?vs\<rparr>) v \<longleftrightarrow> v \<in> set codes \<or> has_variant sd v" for v
    by (simp add: has_variant_def list_ex_key ensured_keys)
  have "distinct (map va_code ?vs)" by (rule ensured_distinct) (use assms(1) in \<open>simp add: normal_form_def shared_ok_def\<close>)
  moreover have "has_card (sd\<lparr>sd_variants := ?vs\<rparr>) = has_card sd" "has_set (sd\<lparr>sd_variants := ?vs\<rparr>) = has_set sd" by simp_all
  moreover have "\<forall>v \<in> va_code ` set ?vs. dashless v" using assms unfolding ensured_keys normal_form_def by blast
  ultimately show ?thesis
    using assms(1) unfolding normal_form_def shared_ok_def ensure_codes_fold by (simp add: keys cong: option.case_cong)
qed

text \<open>
  C26. Expansion brings the printings in line with the catalog: a card it covers gets exactly its resolved
  variants as live rows, with the sub-type and the product the resolution chose, and each of its other rows is
  marked deprecated; the printings of other cards are not touched, no row goes away or changes its id, card or
  variant, the constraints of the catalog hold after, and running it again at any later time changes nothing.
\<close>

theorem expansion_aligns_printings:
  fixes rt :: runtime
  assumes "normal_form sd" "x = preload_cross_group_products rt sd (load_sub_types sd)"
    "\<forall>v \<in> set (expansion_codes sd x ovs). dashless v" "vm = variant_map sd (load_sub_types sd) x ovs"
  shows "\<exists>sd'. expand_all_printings rt ovs now sd = (Inr (sum_list (map (length \<circ> vm) (expandable_cards sd))), sd') \<and>
    (\<forall>c \<in> set (expandable_cards sd). aligned (ci_id c) (vm c) (sd_printings sd')) \<and>
    (\<forall>p. pg_card p \<notin> ci_id ` set (expandable_cards sd) \<longrightarrow> (p \<in> set (sd_printings sd') \<longleftrightarrow> p \<in> set (sd_printings sd))) \<and>
    catalog_grows sd sd' \<and> normal_form sd' \<and>
    expand_all_printings rt ovs later sd' = (Inr (sum_list (map (length \<circ> vm) (expandable_cards sd))), sd')"
proof -
  define codes where "codes = expansion_codes sd x ovs"
  define vs where "vs = fold (\<lambda>c. insert_or_ignore va_code (synthesize c)) codes (sd_variants sd)"
  let ?sd = "sd\<lparr>sd_variants := vs\<rparr>"
  define ps where "ps = passes now vm (expandable_cards sd) (sd_printings sd)"
  let ?sd' = "sd\<lparr>sd_variants := vs, sd_printings := ps\<rparr>"
  have ens: "fold ensure_code codes sd = ?sd" by (simp add: ensure_codes_fold vs_def)
  have nf: "normal_form ?sd" using ensured_normal [OF assms(1)] assms(3) unfolding ens [symmetric] codes_def by blast
  have dv: "\<forall>v \<in> set (expansion_codes ?sd x ovs). dashless v \<and> has_variant ?sd v"
    using assms(3) by (simp add: codes_def vs_def has_variant_def list_ex_key ensured_keys)
  have x: "preload_cross_group_products rt ?sd (load_sub_types ?sd) = x" using assms(2) by simp
  have run1: "expand_all_printings rt ovs now ?sd = (Inr (sum_list (map (length \<circ> vm) (expandable_cards sd))), ?sd')"
    using expansion_run [OF nf x dv, of now] by (simp add: assms(4) ps_def)
  have again: "set (expansion_codes ?sd x ovs) \<subseteq> va_code ` set vs" by (simp add: vs_def ensured_keys codes_def)
  have run: "expand_all_printings rt ovs now sd = expand_all_printings rt ovs now ?sd"
  proof -
    have "fold ensure_code codes ?sd = ?sd" using again by (simp add: ensure_codes_fold ensured_present codes_def)
    then show ?thesis using ens unfolding expand_all_printings_def Let_def by (simp add: codes_def assms(2))
  qed
  have nf': "normal_form ?sd'" using passes_shared_ok [OF nf dv, of now] by (simp add: ps_def assms(4))
  have dv': "\<forall>v \<in> set (expansion_codes ?sd' x ovs). dashless v \<and> has_variant ?sd' v" using dv by simp
  have cl: "\<forall>c \<in> set (expandable_cards sd). clean (vm c)"
    using variant_map_ready(1) [OF nf dv] by (simp add: assms(4))
  note pr = normal_proper [OF assms(1)]
  have al: "\<forall>c \<in> set (expandable_cards sd). aligned (ci_id c) (vm c) ps"
    unfolding ps_def using passes_aligned [OF cl pr] expandable_distinct assms(1) unfolding normal_form_def by blast
  have "passes later vm (expandable_cards sd) ps = ps"
    by (rule passes_settled) (use cl al normal_proper [OF nf'] in simp_all)
  then have run2: "expand_all_printings rt ovs later ?sd' =
      (Inr (sum_list (map (length \<circ> vm) (expandable_cards sd))), ?sd')"
    using expansion_run [OF nf' _ dv', of rt later] x by (simp add: assms(4))
  have "row_name ` set (sd_printings sd) \<subseteq> row_name ` set ps" unfolding ps_def by (rule passes_names)
  moreover have "va_code ` set (sd_variants sd) \<subseteq> va_code ` set vs" by (simp add: vs_def ensured_keys)
  ultimately have grows: "catalog_grows sd ?sd'" by (simp add: catalog_grows_def row_name_def [abs_def])
  have others: "p \<in> set ps \<longleftrightarrow> p \<in> set (sd_printings sd)" if "pg_card p \<notin> ci_id ` set (expandable_cards sd)" for p
    unfolding ps_def by (rule passes_others [OF cl pr that])
  show ?thesis
    by (intro exI [of _ ?sd'] conjI; (intro allI impI)?)
      (use run run1 run2 al others grows nf' in simp_all)
qed

definition sample_expansion :: shared_db where
  "sample_expansion = empty_shared\<lparr>
     sd_sets := [sample_set ''base1'' ''BS'' ''Base'' ''1999/01/09''],
     sd_cards := [\<lparr>cd_id = ''base1-4'', cd_set = ''base1'', cd_number = ''4'', cd_name = ''Charizard'', cd_rarity = None,
       cd_artist = None, cd_supertype = None, cd_subtypes = None, cd_types = None, cd_attacks = None,
       cd_image_small = None, cd_image_large = None, cd_hp = None, sc_number_sortable = 4, sc_flavor_text = None,
       sc_abilities = None, sc_weaknesses = None, sc_resistances = None, sc_retreat_cost = None,
       sc_regulation_mark = None, sc_pokedex = None, sc_legalities = None, sc_raw_json = None\<rparr>],
     sd_variants := [synthesize ''normal'', synthesize ''holo''],
     sd_printings := [new_printing ''base1-4'' ''normal'' None None],
     sd_groups := [\<lparr>tg_id = 604, tg_set_code = Some ''base1'', tg_name = ''Base Set'', tg_abbreviation = None,
       tg_published_on = None, tg_fetched_at = ''t0'', tg_role = ''primary''\<rparr>],
     sd_products := [\<lparr>tp_id = 42382, tp_group = 604, tp_name = ''Charizard'', tp_number = Some ''004/102'', tp_variant = None,
       tp_fetched_at = ''t0'', tp_image_url = None, tp_rarity = None\<rparr>],
     sd_sub_types := [((0, ''Holofoil''), ''holo'')],
     sd_prices := [\<lparr>px_product = 42382, px_sub_type = ''Holofoil'', px_source = ''tcgplayer'', px_type = ''market'',
       px_price = 400, px_observed_at = ''t0''\<rparr>]\<rparr>"

lemma sample_cross: "preload_cross_group_products rt sample_expansion m = []"
  by (simp add: preload_cross_group_products_def sample_expansion_def CROSS_GROUP_SOURCE_GROUPS_def List.map_filter_def)

lemma sample_cards:
  "expandable_cards sample_expansion =
     [\<lparr>ci_id = ''base1-4'', ci_set = ''base1'', ci_number = ''4'', ci_rarity = None, ci_name_lower = ''charizard'',
       ci_set_name_lower = ''base'', ci_printed_total = Some 102\<rparr>]"
  by code_simp

lemma sample_collector:
  "normalize_collector_number ''004/102'' = ''4''" "normalize_collector_number ''4'' = ''4''"
  by (simp_all add: normalize_collector_number_def trim_ascii is_ascii_def is_whitespace_def whitespace_codes_def
      to_ascii_lowercase_def ascii_lower_def is_upper_def is_digit_def digit_run_def digits_val_def digit_val_def
      show_nat_def nat_digits.simps char_of_def bit_0)

lemma sample_variant_map:
  "variant_map sample_expansion (load_sub_types sample_expansion) [] [] \<lparr>ci_id = ''base1-4'', ci_set = ''base1'',
     ci_number = ''4'', ci_rarity = None, ci_name_lower = ''charizard'', ci_set_name_lower = ''base'',
     ci_printed_total = Some 102\<rparr> = [(''holo'', Some ''Holofoil'', Some 42382)]"
  by (simp add: variant_map_def variants_from_tcgcsv_def cross_variants_def sample_expansion_def empty_shared_def
      linked_to_def sample_collector product_variants_def distinct_values_def load_sub_types_def lookup_sub_type_def
      GLOBAL_GROUP_ID_def or_insert_def List.map_filter_def)

lemma expansion_aligns_printings_witness:
  "\<exists>sd'. expand_all_printings plain_runtime [] ''t1'' sample_expansion = (Inr 1, sd') \<and>
     aligned ''base1-4'' [(''holo'', Some ''Holofoil'', Some 42382)] (sd_printings sd') \<and> catalog_grows sample_expansion sd' \<and>
     expand_all_printings plain_runtime [] ''t2'' sd' = (Inr 1, sd')"
proof -
  have "normal_form sample_expansion" by code_simp
  moreover have "[] = preload_cross_group_products plain_runtime sample_expansion (load_sub_types sample_expansion)"
    by (simp add: sample_cross)
  moreover have "\<forall>v \<in> set (expansion_codes sample_expansion [] []). dashless v" by code_simp
  ultimately show ?thesis
    using expansion_aligns_printings [of sample_expansion "[]" plain_runtime "[]" _ "''t1''" "''t2''", OF _ _ _ refl]
    unfolding sample_cards by (simp add: sample_variant_map) blast
qed

end
