(* ===== verification/Json_Backup.thy ===== *)
theory Json_Backup
  imports Wishlist Sample_Codec "HOL-Library.Sublist"
begin

text \<open>
  The portable backup of a tenant database (\<open>pkdump-db/src/json_backup.rs\<close>): every row of every user table
  as one JSON envelope, and its import, which replaces the whole collection in one transaction. The code reads
  tables and columns from the schema at run time, so the model is over any list of tables. JSON text
  (\<open>serde_json\<close>) is the record \<open>json_codec\<close>; what SQLite does with a row it is given (affinity, defaults,
  constraints, rowid order, triggers, deferred foreign keys) is the record \<open>schema_rules\<close>.
\<close>

section \<open>Values\<close>

datatype sql_value = SqlNull | SqlInteger int | SqlReal f64 | SqlText string | SqlBlob string

datatype json_number = PosInt nat | NegInt int | Float f64

datatype json = JNull | JBool bool | JNumber json_number | JString string | JArray "json list" | JObject "(string \<times> json) list"

text \<open>An object is a \<open>BTreeMap\<close>: its entries in key order.\<close>

fun btree_insert :: "string \<Rightarrow> 'v \<Rightarrow> (string \<times> 'v) list \<Rightarrow> (string \<times> 'v) list" where
  "btree_insert k v [] = [(k, v)]"
| "btree_insert k v (e # m) =
     (if k < fst e then (k, v) # e # m else if k = fst e then (k, v) # m else e # btree_insert k v m)"

definition as_i64 :: "json_number \<Rightarrow> int option" where
  "as_i64 n = (case n of PosInt p \<Rightarrow> if int p \<le> i64_max then Some (int p) else None | NegInt i \<Rightarrow> Some i | Float _ \<Rightarrow> None)"

record json_codec =
  jc_print :: "json \<Rightarrow> string"
  jc_parse :: "string \<Rightarrow> string + json"
  jc_int_as_f64 :: "int \<Rightarrow> f64"
  jc_utf8_error :: "string \<Rightarrow> string option"

definition as_f64 :: "json_codec \<Rightarrow> json_number \<Rightarrow> f64" where
  "as_f64 cdc n = (case n of PosInt p \<Rightarrow> jc_int_as_f64 cdc (int p) | NegInt i \<Rightarrow> jc_int_as_f64 cdc i | Float f \<Rightarrow> f)"

text \<open>Infinities and NaN have all exponent bits set.\<close>

definition is_finite :: "f64 \<Rightarrow> bool" where
  "is_finite f \<longleftrightarrow> take_bit 11 (drop_bit 52 f) \<noteq> 0x7FF"

definition show_non_finite :: "f64 \<Rightarrow> string" where
  "show_non_finite f = (if take_bit 52 f \<noteq> 0 then ''NaN'' else if bit f 63 then ''-inf'' else ''inf'')"

section \<open>Databases\<close>

record user_table =
  ut_name :: string
  ut_columns :: "string list"
  ut_rows :: "sql_value list list"     \<comment> \<open>in rowid order\<close>

type_synonym user_db = "user_table list"

record schema_rules =
  sq_default :: "string \<Rightarrow> string \<Rightarrow> sql_value"
  sq_place :: "string \<Rightarrow> sql_value list list \<Rightarrow> sql_value list \<Rightarrow> SqliteError + sql_value list list"
  sq_deleted :: "string \<Rightarrow> sql_value list list \<Rightarrow> user_db \<Rightarrow> user_db"
  sq_inserted :: "string \<Rightarrow> sql_value list \<Rightarrow> user_db \<Rightarrow> user_db"
  sq_commit :: "user_db \<Rightarrow> bool"

definition rows_of :: "user_db \<Rightarrow> string \<Rightarrow> sql_value list list" where
  "rows_of db t = (case List.find (\<lambda>u. ut_name u = t) db of Some u \<Rightarrow> ut_rows u | None \<Rightarrow> [])"

definition table_columns :: "user_db \<Rightarrow> string \<Rightarrow> string list" where
  "table_columns db t = (case List.find (\<lambda>u. ut_name u = t) db of Some u \<Rightarrow> ut_columns u | None \<Rightarrow> [])"

definition put_rows :: "string \<Rightarrow> sql_value list list \<Rightarrow> user_db \<Rightarrow> user_db" where
  "put_rows t rs = map (\<lambda>u. if ut_name u = t then u\<lparr>ut_rows := rs\<rparr> else u)"

text \<open>In \<open>LIKE 'sqlite_%'\<close> the underscore stands for any one character, and case is ignored.\<close>

definition user_tables :: "user_db \<Rightarrow> string list" where
  "user_tables db = sort_key (\<lambda>t. t) (filter (\<lambda>t.
     \<not> (starts_with ''sqlite'' (to_ascii_lowercase t) \<and> 6 < length t) \<and> \<not> starts_with ''_litestream_'' t) (map ut_name db))"

definition TRANSPORT_TABLES :: "string list" where
  "TRANSPORT_TABLES =
     [''ownership_outbox'', ''ownership_emit_log'', ''ownership_outbox_cursor'', ''ownership_outbox_gap'',
      ''zone_holdings'', ''zone_sealed_holdings'', ''zone_holdings_run'']"

definition envelope_tables :: "user_db \<Rightarrow> string list" where
  "envelope_tables db = filter (\<lambda>t. t \<notin> set TRANSPORT_TABLES) (user_tables db)"

section \<open>Export\<close>

definition FORMAT :: string where
  "FORMAT = ''pkdump-collection''"

definition VERSION :: nat where
  "VERSION = 1"

definition META_KEYS :: "string list" where
  "META_KEYS = [''format'', ''version'', ''exported_at'']"

fun map_result :: "('a \<Rightarrow> 'e + 'b) \<Rightarrow> 'a list \<Rightarrow> 'e + 'b list" where
  "map_result f [] = Inr []"
| "map_result f (x # xs) = and_then (f x) (\<lambda>y. and_then (map_result f xs) (\<lambda>ys. Inr (y # ys)))"

definition cell_error :: "string \<Rightarrow> string \<Rightarrow> string \<Rightarrow> DbError" where
  "cell_error t col msg = Import (t @ ''.'' @ col @ '': '' @ msg)"

definition to_json :: "json_codec \<Rightarrow> string \<Rightarrow> string \<times> sql_value \<Rightarrow> DbError + json" where
  "to_json cdc t = (\<lambda>(col, v). case v of
       SqlNull \<Rightarrow> Inr JNull
     | SqlInteger i \<Rightarrow> Inr (JNumber (if 0 \<le> i then PosInt (nat i) else NegInt i))
     | SqlReal f \<Rightarrow> if is_finite f then Inr (JNumber (Float f))
                    else Inl (cell_error t col (show_non_finite f @ '' has no JSON representation''))
     | SqlText s \<Rightarrow> (case jc_utf8_error cdc s of
                       None \<Rightarrow> Inr (JString s) | Some e \<Rightarrow> Inl (cell_error t col (''invalid UTF-8: '' @ e)))
     | SqlBlob _ \<Rightarrow> Inl (cell_error t col ''BLOB values are not representable in the JSON export''))"

definition row_object :: "json_codec \<Rightarrow> string \<Rightarrow> string list \<Rightarrow> sql_value list \<Rightarrow> DbError + json" where
  "row_object cdc t cols row =
     and_then (map_result (\<lambda>e. and_then (to_json cdc t e) (\<lambda>j. Inr (fst e, j))) (zip cols row)) (\<lambda>es.
     Inr (JObject (fold (\<lambda>(k, v). btree_insert k v) es [])))"

definition table_rows :: "json_codec \<Rightarrow> user_db \<Rightarrow> string \<Rightarrow> DbError + json list" where
  "table_rows cdc db t = map_result (row_object cdc t (table_columns db t)) (rows_of db t)"

fun export_tables :: "json_codec \<Rightarrow> user_db \<Rightarrow> string list \<Rightarrow> (string \<times> json) list \<Rightarrow> DbError + (string \<times> json) list" where
  "export_tables cdc db [] m = Inr m"
| "export_tables cdc db (t # ts) m =
     (if t \<in> set META_KEYS then Inl (Import (''table '' @ quoted t @ '' collides with a reserved envelope key''))
      else and_then (table_rows cdc db t) (\<lambda>rs. export_tables cdc db ts (btree_insert t (JArray rs) m)))"

definition export_value :: "json_codec \<Rightarrow> string \<Rightarrow> user_db \<Rightarrow> DbError + json" where
  "export_value cdc now db =
     map_sum id JObject (export_tables cdc db (envelope_tables db)
       (btree_insert ''exported_at'' (JString now) (btree_insert ''version'' (JNumber (PosInt VERSION))
         (btree_insert ''format'' (JString FORMAT) []))))"

definition export_backup :: "json_codec \<Rightarrow> string \<Rightarrow> user_db \<Rightarrow> DbError + string" where
  "export_backup cdc now db = map_sum id (jc_print cdc) (export_value cdc now db)"

section \<open>Import\<close>

datatype OnExisting = Fail | Replace

type_synonym StagedTable = "string \<times> (string \<times> sql_value) list list"

definition to_sql :: "json_codec \<Rightarrow> string \<Rightarrow> string \<times> json \<Rightarrow> DbError + string \<times> sql_value" where
  "to_sql cdc t = (\<lambda>(col, j). case j of
       JNull \<Rightarrow> Inr (col, SqlNull)
     | JBool b \<Rightarrow> Inr (col, SqlInteger (if b then 1 else 0))
     | JNumber n \<Rightarrow> Inr (col, case as_i64 n of Some i \<Rightarrow> SqlInteger i | None \<Rightarrow> SqlReal (as_f64 cdc n))
     | JString s \<Rightarrow> Inr (col, SqlText s)
     | _ \<Rightarrow> Inl (cell_error t col ''nested JSON is not a SQLite value''))"

definition member :: "json \<Rightarrow> string \<Rightarrow> json option" where
  "member j k = (case j of JObject m \<Rightarrow> map_of m k | _ \<Rightarrow> None)"

definition em_dash :: string where
  "em_dash = [CHR 0xE2, CHR 0x80, CHR 0x94]"

definition check_header :: "(string \<times> json) list \<Rightarrow> DbError + unit" where
  "check_header env =
     (case map_of env ''format'' of
        Some (JString f) \<Rightarrow>
          if f \<noteq> FORMAT
          then Inl (Import (''not a PokeDumpster collection export: format '' @ quoted f @ '' (expected '' @ quoted FORMAT @ '')''))
          else (case map_of env ''version'' of
                  Some (JNumber (PosInt v)) \<Rightarrow>
                    if v \<noteq> VERSION
                    then Inl (Import (''unsupported envelope version '' @ show_nat v @ '' (this build reads version '' @
                           show_nat VERSION @ '')''))
                    else Inr ()
                | _ \<Rightarrow> Inl (Import (''missing '' @ quoted ''version'')))
      | _ \<Rightarrow> Inl (Import (''missing '' @ quoted ''format'' @ '' '' @ em_dash @ '' not a PokeDumpster collection export'')))"

definition stage_cell :: "json_codec \<Rightarrow> string list \<Rightarrow> string \<Rightarrow> nat \<Rightarrow> string \<times> json \<Rightarrow> DbError + string \<times> sql_value" where
  "stage_cell cdc cols t i e =
     (if fst e \<in> set cols then to_sql cdc t e
      else Inl (Import (t @ ''['' @ show_nat i @ '']: '' @ quoted (fst e) @ '' is not a column of '' @ quoted t)))"

definition stage_row :: "json_codec \<Rightarrow> string list \<Rightarrow> string \<Rightarrow> nat \<times> json \<Rightarrow> DbError + (string \<times> sql_value) list" where
  "stage_row cdc cols t = (\<lambda>(i, row). case row of
       JObject m \<Rightarrow> map_result (stage_cell cdc cols t i) m
     | _ \<Rightarrow> Inl (Import (t @ ''['' @ show_nat i @ '']: expected a JSON object'')))"

definition stage_table :: "json_codec \<Rightarrow> user_db \<Rightarrow> string \<times> json \<Rightarrow> DbError + StagedTable" where
  "stage_table cdc db = (\<lambda>(t, v).
     if t \<notin> set (envelope_tables db) then Inl (Import (''envelope holds unknown table '' @ quoted t))
     else (case v of
        JArray rows \<Rightarrow> and_then (map_result (stage_row cdc (table_columns db t) t) (enumerate 0 rows)) (\<lambda>rs. Inr (t, rs))
      | _ \<Rightarrow> Inl (Import (''table '' @ quoted t @ '': expected an array of rows''))))"

definition carried :: "string \<times> json \<Rightarrow> bool" where
  "carried e \<longleftrightarrow> fst e \<notin> set META_KEYS \<and> fst e \<notin> set TRANSPORT_TABLES"

definition stage_envelope :: "json_codec \<Rightarrow> user_db \<Rightarrow> string \<Rightarrow> DbError + StagedTable list" where
  "stage_envelope cdc db text =
     (case jc_parse cdc text of
        Inl e \<Rightarrow> Inl (Import (''malformed JSON: '' @ e))
      | Inr (JObject env) \<Rightarrow>
          and_then (check_header env) (\<lambda>_. map_result (stage_table cdc db) (filter carried env))
      | Inr _ \<Rightarrow> Inl (Import ''expected a JSON object at the top level''))"

definition first_beyond_birth_state :: "user_db \<Rightarrow> user_db \<Rightarrow> string list \<Rightarrow> string option" where
  "first_beyond_birth_state newborn db =
     List.find (\<lambda>t. length (rows_of newborn t) < length (rows_of db t))"

definition clear_table :: "schema_rules \<Rightarrow> string \<Rightarrow> (user_db, unit) act" where
  "clear_table rules t = (\<lambda>db. (Inr (), sq_deleted rules t (rows_of db t) (put_rows t [] db)))"

definition insert_row :: "schema_rules \<Rightarrow> string \<Rightarrow> (string \<times> sql_value) list \<Rightarrow> (user_db, unit) act" where
  "insert_row rules t cells = (\<lambda>db.
     let row = map (\<lambda>c. case map_of cells c of Some v \<Rightarrow> v | None \<Rightarrow> sq_default rules t c) (table_columns db t) in
     case sq_place rules t (rows_of db t) row of
       Inl e \<Rightarrow> (Inl (Sqlite e), db)
     | Inr rs \<Rightarrow> (Inr (), sq_inserted rules t row (put_rows t rs db)))"

definition has_condition :: "user_db \<Rightarrow> string \<Rightarrow> bool" where
  "has_condition db name \<longleftrightarrow>
     list_ex (\<lambda>row. map_of (zip (table_columns db ''conditions'') row) ''name'' = Some (SqlText name)) (rows_of db ''conditions'')"

definition seed_condition :: "schema_rules \<Rightarrow> Condition \<Rightarrow> (user_db, unit) act" where
  "seed_condition rules c = (\<lambda>db.
     if has_condition db (cn_name c) then (Inr (), db)
     else insert_row rules ''conditions''
       [(''name'', SqlText (cn_name c)), (''multiplier'', SqlReal (cn_multiplier c)), (''rank'', SqlInteger (cn_rank c))] db)"

definition commit_checked :: "schema_rules \<Rightarrow> (user_db, unit) act" where
  "commit_checked rules = (\<lambda>db. (if sq_commit rules db then Inr () else Inl (Sqlite ForeignKeyViolation), db))"

definition load_envelope ::
  "schema_rules \<Rightarrow> string list \<Rightarrow> StagedTable list \<Rightarrow> (user_db \<Rightarrow> DbError + unit) \<Rightarrow> (user_db, unit) act" where
  "load_envelope rules known payload verify = transaction (\<lambda>s s'. s) (
     bind_act (for_each known (clear_table rules)) (\<lambda>_.
     bind_act (for_each payload (\<lambda>(t, rows). for_each rows (insert_row rules t))) (\<lambda>_.
     bind_act (for_each CONDITIONS_SEED (seed_condition rules)) (\<lambda>_.
     bind_act (bind_act (query verify) lift_result) (\<lambda>_.
     commit_checked rules)))))"

text \<open>The number of rows of every table the envelope can carry.\<close>

definition import_summary :: "string list \<Rightarrow> user_db \<Rightarrow> (string \<times> nat) list" where
  "import_summary known db = map (\<lambda>t. (t, length (rows_of db t))) known"

definition import_checked ::
  "json_codec \<Rightarrow> schema_rules \<Rightarrow> user_db \<Rightarrow> string \<Rightarrow> OnExisting \<Rightarrow> (user_db \<Rightarrow> DbError + unit) \<Rightarrow>
   (user_db, (string \<times> nat) list) act" where
  "import_checked cdc rules newborn text mode verify = (\<lambda>db.
     case stage_envelope cdc db text of
       Inl e \<Rightarrow> (Inl e, db)
     | Inr payload \<Rightarrow>
         (case (if mode = Fail then first_beyond_birth_state newborn db (envelope_tables db) else None) of
            Some t \<Rightarrow> (Inl (Conflict (''target database is not empty (rows in '' @ quoted t @
                        ''); importing an envelope replaces the whole collection'')), db)
          | None \<Rightarrow> bind_act (load_envelope rules (envelope_tables db) payload verify) (\<lambda>_.
              query (import_summary (envelope_tables db))) db))"

definition import_backup ::
  "json_codec \<Rightarrow> schema_rules \<Rightarrow> user_db \<Rightarrow> string \<Rightarrow> OnExisting \<Rightarrow> (user_db, (string \<times> nat) list) act" where
  "import_backup cdc rules newborn text mode = import_checked cdc rules newborn text mode (\<lambda>_. Inr ())"

section \<open>Maps and rows\<close>

lemma btree_insert_set: "distinct (map fst m) \<Longrightarrow> set (btree_insert k v m) = insert (k, v) {e \<in> set m. fst e \<noteq> k} \<or> \<not> sorted_wrt (<) (map fst m)"
proof (induction m)
  case (Cons e m)
  show ?case
  proof (cases "sorted_wrt (<) (map fst (e # m))")
    case True
    then have m: "sorted_wrt (<) (map fst m)" "\<forall>x \<in> set m. fst e < fst x" by simp_all
    have "\<forall>x \<in> set (e # m). fst x \<noteq> k" if "k < fst e" using that m(2) by auto
    moreover have "\<forall>x \<in> set m. fst x \<noteq> k" if "k = fst e" using that m(2) by auto
    ultimately show ?thesis using Cons m(1) by auto
  qed simp
qed simp

definition btree :: "(string \<times> 'v) list \<Rightarrow> bool" where
  "btree m \<longleftrightarrow> sorted_wrt (<) (map fst m)"

lemma btree_distinct: "btree m \<Longrightarrow> distinct (map fst m)"
  unfolding btree_def by (induction m) auto

lemma btree_entries: "btree m \<Longrightarrow> set (btree_insert k v m) = insert (k, v) {e \<in> set m. fst e \<noteq> k}"
  using btree_insert_set [of m k v] btree_distinct [of m] by (auto simp: btree_def)

lemma btree_insert_btree: "btree m \<Longrightarrow> btree (btree_insert k v m)"
proof (induction m)
  case (Cons e m)
  then have m: "btree m" "\<forall>x \<in> set m. fst e < fst x" by (simp_all add: btree_def)
  show ?case
  proof (cases "k < fst e \<or> k = fst e")
    case True
    then show ?thesis using Cons.prems m(2) by (auto simp: btree_def)
  next
    case False
    then have "\<forall>x \<in> set (btree_insert k v m). fst e < fst x" unfolding btree_entries [OF m(1)] using m(2) by auto
    then show ?thesis using False Cons.IH [OF m(1)] by (auto simp: btree_def)
  qed
qed (simp add: btree_def)

lemma btree_Nil [simp]: "btree []"
  by (simp add: btree_def)

lemma btree_map_of: "btree m \<Longrightarrow> map_of (btree_insert k v m) = (map_of m)(k \<mapsto> v)"
proof
  fix x assume m: "btree m"
  show "map_of (btree_insert k v m) x = ((map_of m)(k \<mapsto> v)) x"
  proof (cases "x = k")
    case True
    have "(k, v) \<in> set (btree_insert k v m)" by (simp add: btree_entries [OF m])
    then show ?thesis using True btree_distinct [OF btree_insert_btree [OF m, of k v]] by simp
  next
    case False
    have "map_of (btree_insert k v m) x = Some y \<longleftrightarrow> map_of m x = Some y" for y
      using False btree_distinct [OF m] btree_distinct [OF btree_insert_btree [OF m, of k v]] btree_entries [OF m, of k v]
      by (simp add: map_of_eq_Some_iff)
    then show ?thesis using False by (metis fun_upd_apply not_None_eq)
  qed
qed

definition of_entries :: "(string \<times> 'v) list \<Rightarrow> (string \<times> 'v) list" where
  "of_entries es = fold (\<lambda>(k, v). btree_insert k v) es []"

lemma of_entries_btree:
  fixes es :: "(string \<times> 'v) list"
  shows "btree (of_entries es)"
proof -
  have "btree m \<Longrightarrow> btree (fold (\<lambda>(k, v). btree_insert k v) es m)" for m
    by (induction es arbitrary: m) (auto simp: btree_insert_btree)
  then show ?thesis by (simp add: of_entries_def)
qed

lemma of_entries_map_of:
  fixes es :: "(string \<times> 'v) list"
  shows "distinct (map fst es) \<Longrightarrow> map_of (of_entries es) = map_of es"
proof -
  have "distinct (map fst es) \<Longrightarrow> btree m \<Longrightarrow> map_of (fold (\<lambda>(k, v). btree_insert k v) es m) = map_of m ++ map_of es"
    for m
  proof (induction es arbitrary: m)
    case (Cons e es)
    obtain k v where e: "e = (k, v)" by (rule prod.exhaust)
    have "k \<notin> dom (map_of es)" using Cons.prems(1) by (simp add: e dom_map_of_conv_image_fst)
    then show ?case using Cons by (simp add: e btree_insert_btree btree_map_of map_add_upd_left del: fun_upd_apply)
  qed simp
  from this [of "[]"] show "distinct (map fst es) \<Longrightarrow> ?thesis" by (simp add: of_entries_def)
qed

lemma map_result_Inr: "map_result f xs = Inr ys \<longleftrightarrow> list_all2 (\<lambda>x y. f x = Inr y) xs ys"
  by (induction xs arbitrary: ys) (auto simp: and_then_Inr list_all2_Cons1)

text \<open>The cells of an exported row come back as the row.\<close>

definition value_ok :: "sql_value \<Rightarrow> bool" where
  "value_ok v = (case v of SqlInteger i \<Rightarrow> in_i64 i | _ \<Rightarrow> True)"

lemma json_cell: "to_json cdc t (c, v) = Inr j \<Longrightarrow> value_ok v \<Longrightarrow> to_sql cdc t (c, j) = Inr (c, v)"
  by (cases v) (auto simp: to_json_def to_sql_def value_ok_def as_i64_def as_f64_def in_i64_def
      split: if_splits option.splits)

lemma exported_row:
  assumes "row_object cdc t cols row = Inr j" "distinct cols" "length cols = length row" "list_all value_ok row"
  shows "\<exists>m cells. j = JObject m \<and> map_result (stage_cell cdc cols t i) m = Inr cells \<and>
    map (\<lambda>c. case map_of cells c of Some v \<Rightarrow> v | None \<Rightarrow> d c) cols = row"
proof -
  from assms(1) obtain es where es: "map_result (\<lambda>e. and_then (to_json cdc t e) (\<lambda>j. Inr (fst e, j))) (zip cols row) = Inr es"
    "j = JObject (of_entries es)" by (auto simp: row_object_def and_then_Inr of_entries_def)
  from es(1) have l: "list_all2 (\<lambda>e y. and_then (to_json cdc t e) (\<lambda>j. Inr (fst e, j)) = Inr y) (zip cols row) es"
    by (simp add: map_result_Inr)
  then have len: "length es = length cols" using assms(3) by (auto dest: list_all2_lengthD)
  have nth: "fst (es ! n) = cols ! n \<and> to_sql cdc t (es ! n) = Inr (cols ! n, row ! n)" if n: "n < length cols" for n
  proof -
    have "and_then (to_json cdc t (cols ! n, row ! n)) (\<lambda>j. Inr (cols ! n, j)) = Inr (es ! n)"
      using list_all2_nthD [OF l, of n] n assms(3) by simp
    then obtain jv where jv: "to_json cdc t (cols ! n, row ! n) = Inr jv" "es ! n = (cols ! n, jv)"
      by (auto simp: and_then_Inr)
    have "value_ok (row ! n)" using assms(3,4) n by (simp add: list_all_length)
    from json_cell [OF jv(1) this] jv(2) show ?thesis by simp
  qed
  have keys: "map fst es = cols" using nth len by (intro nth_equalityI) simp_all
  then have d: "distinct (map fst es)" using assms(2) by simp
  define cells where "cells = map (\<lambda>e. (fst e, row ! (THE n. n < length cols \<and> cols ! n = fst e))) (of_entries es)"
  have ix: "(THE m. m < length cols \<and> cols ! m = cols ! n) = n" if "n < length cols" for n
    using that assms(2) by (intro the_equality) (auto simp: nth_eq_iff_index_eq)
  have mem: "e \<in> set (of_entries es) \<longleftrightarrow> e \<in> set es" for e
    using of_entries_map_of [OF d] d btree_distinct [OF of_entries_btree [of es]]
    by (metis map_of_eq_Some_iff prod.collapse)
  have cell: "stage_cell cdc cols t i e = Inr (fst e, row ! (THE n. n < length cols \<and> cols ! n = fst e))"
    if "e \<in> set (of_entries es)" for e
  proof -
    from that mem obtain n where n: "n < length cols" "e = es ! n" by (metis in_set_conv_nth len)
    then show ?thesis using nth [OF n(1)] ix [OF n(1)] by (simp add: stage_cell_def)
  qed
  then have staged: "map_result (stage_cell cdc cols t i) (of_entries es) = Inr cells"
    unfolding map_result_Inr cells_def by (auto simp: list_all2_conv_all_nth)
  have "map_of cells (cols ! n) = Some (row ! n)" if n: "n < length cols" for n
  proof -
    have "es ! n \<in> set (of_entries es)" using mem n len by simp
    then have "(cols ! n, row ! n) \<in> set cells"
      unfolding cells_def set_map by (rule rev_image_eqI) (use nth [OF n] ix [OF n] in simp)
    moreover have "map fst cells = map fst (of_entries es)" by (simp add: cells_def)
    then have "distinct (map fst cells)" using btree_distinct [OF of_entries_btree [of es]] by simp
    ultimately show ?thesis by simp
  qed
  then have "map (\<lambda>c. case map_of cells c of Some v \<Rightarrow> v | None \<Rightarrow> d c) cols = row"
    using assms(3) by (intro nth_equalityI) simp_all
  then show ?thesis using es(2) staged by blast
qed

section \<open>Loading\<close>

definition shape :: "user_db \<Rightarrow> (string \<times> string list) list" where
  "shape db = map (\<lambda>u. (ut_name u, ut_columns u)) db"

text \<open>The triggers of the user schema write to the transport tables only, and only append.\<close>

definition moved :: "string set \<Rightarrow> (string \<Rightarrow> sql_value list list) \<Rightarrow> user_db \<Rightarrow> user_db \<Rightarrow> bool" where
  "moved ts F db db' \<longleftrightarrow> shape db' = shape db \<and>
     (\<forall>t. t \<notin> set TRANSPORT_TABLES \<longrightarrow> rows_of db' t = (if t \<in> ts then F t else rows_of db t)) \<and>
     (\<forall>t \<in> set TRANSPORT_TABLES. prefix (rows_of db t) (rows_of db' t))"

definition logs_only :: "(user_db \<Rightarrow> user_db) \<Rightarrow> bool" where
  "logs_only f \<longleftrightarrow> (\<forall>db. moved {} (\<lambda>_. []) db (f db))"

text \<open>
  A deletion may also run the foreign-key actions of \<open>schema_user.sql\<close>: rows that refer to a deleted row lose the
  reference or go with it. No table grows by that, and the transport tables only gain the events of it.
\<close>

definition releases :: "user_db \<Rightarrow> user_db \<Rightarrow> bool" where
  "releases db db' \<longleftrightarrow> shape db' = shape db \<and>
     (\<forall>t. t \<notin> set TRANSPORT_TABLES \<longrightarrow> length (rows_of db' t) \<le> length (rows_of db t)) \<and>
     (\<forall>t \<in> set TRANSPORT_TABLES. prefix (rows_of db t) (rows_of db' t))"

definition triggers_log :: "schema_rules \<Rightarrow> bool" where
  "triggers_log rules \<longleftrightarrow>
     (\<forall>t rows db. releases db (sq_deleted rules t rows db)) \<and> (\<forall>t row. logs_only (sq_inserted rules t row))"

fun place_all :: "schema_rules \<Rightarrow> string \<Rightarrow> sql_value list list \<Rightarrow> sql_value list list \<Rightarrow> SqliteError + sql_value list list" where
  "place_all rules t acc [] = Inr acc"
| "place_all rules t acc (r # rs) = and_then (sq_place rules t acc r) (\<lambda>acc. place_all rules t acc rs)"

lemma moved_refl [simp]: "moved {} F db db"
  by (simp add: moved_def)

lemma moved_trans: "moved ts F a b \<Longrightarrow> moved us G b c \<Longrightarrow> moved (ts \<union> us) (\<lambda>t. if t \<in> us then G t else F t) a c"
  unfolding moved_def by (auto intro: prefix_order.trans)

lemma moved_cong: "moved ts F a b \<Longrightarrow> ts = us \<Longrightarrow> (\<And>t. t \<in> us \<Longrightarrow> F t = G t) \<Longrightarrow> moved us G a b"
  unfolding moved_def by auto

lemma shape_names: "shape db' = shape db \<Longrightarrow> map ut_name db' = map ut_name db"
proof -
  assume "shape db' = shape db"
  from arg_cong [OF this, of "map fst"] show ?thesis by (simp add: shape_def comp_def)
qed

lemma shape_tables: "shape db' = shape db \<Longrightarrow> envelope_tables db' = envelope_tables db"
  unfolding envelope_tables_def user_tables_def by (drule shape_names) (simp only:)

lemma moved_shape: "moved ts F a b \<Longrightarrow> shape b = shape a"
  by (simp add: moved_def)

lemma moved_rows: "moved ts F a b \<Longrightarrow> t \<notin> set TRANSPORT_TABLES \<Longrightarrow> rows_of b t = (if t \<in> ts then F t else rows_of a t)"
  by (simp add: moved_def)

lemma shape_columns: "shape db' = shape db \<Longrightarrow> table_columns db' = table_columns db"
proof -
  have "table_columns db t = (case map_of (shape db) t of Some cs \<Rightarrow> cs | None \<Rightarrow> [])" for db t
    by (induction db) (auto simp: table_columns_def shape_def)
  then show "shape db' = shape db \<Longrightarrow> ?thesis" by (simp add: fun_eq_iff)
qed

lemma rows_of_put_same: "t \<in> ut_name ` set db \<Longrightarrow> rows_of (put_rows t rs db) t = rs"
proof (induction db)
  case (Cons u db)
  then show ?case by (cases "ut_name u = t") (auto simp: rows_of_def put_rows_def)
qed simp

lemma rows_of_put_other: "t' \<noteq> t \<Longrightarrow> rows_of (put_rows t rs db) t' = rows_of db t'"
proof (induction db)
  case (Cons u db)
  then show ?case by (cases "ut_name u = t"; cases "ut_name u = t'") (simp_all add: rows_of_def put_rows_def)
qed (simp add: rows_of_def put_rows_def)

lemma for_each_step: "f x s = (Inr (), s') \<Longrightarrow> for_each (x # xs) f s = for_each xs f s'"
  by (simp add: bind_act_def)

lemma put_moved: "t \<in> ut_name ` set db \<Longrightarrow> t \<notin> set TRANSPORT_TABLES \<Longrightarrow> moved {t} (\<lambda>_. rs) db (put_rows t rs db)"
proof -
  assume t: "t \<in> ut_name ` set db" "t \<notin> set TRANSPORT_TABLES"
  have "shape (put_rows t rs db) = shape db" by (simp add: shape_def put_rows_def)
  then show ?thesis using t by (simp add: moved_def rows_of_put_same rows_of_put_other) (metis prefix_order.refl rows_of_put_other)
qed

lemma moved_log:
  assumes "moved {t} (\<lambda>_. rs) db db'" "logs_only f"
  shows "moved {t} (\<lambda>_. rs) db (f db')"
proof -
  have "moved {} (\<lambda>_. []) db' (f db')" using assms(2) by (simp add: logs_only_def)
  from moved_cong [OF moved_trans [OF assms(1) this]] show ?thesis by simp
qed

lemma moved_names: "moved ts F a b \<Longrightarrow> ut_name ` set b = ut_name ` set a"
  using shape_names unfolding moved_def by (metis list.set_map)

lemma releases_trans: "releases a b \<Longrightarrow> releases b c \<Longrightarrow> releases a c"
  by (auto simp: releases_def intro: order_trans prefix_order.trans)

lemma moved_releases: "moved {t} (\<lambda>_. []) a b \<Longrightarrow> releases a b"
  by (simp add: moved_def releases_def)

lemma clear_run:
  assumes "triggers_log rules" "set ts \<subseteq> ut_name ` set db" "set ts \<inter> set TRANSPORT_TABLES = {}"
  shows "\<exists>db'. for_each ts (clear_table rules) db = (Inr (), db') \<and> releases db db' \<and> (\<forall>t \<in> set ts. rows_of db' t = [])"
  using assms(2,3)
proof (induction ts arbitrary: db)
  case Nil
  show ?case by (simp add: ret_def releases_def)
next
  case (Cons t ts)
  let ?db = "sq_deleted rules t (rows_of db t) (put_rows t [] db)"
  have p: "moved {t} (\<lambda>_. []) db (put_rows t [] db)" by (rule put_moved) (use Cons.prems in auto)
  have d: "releases (put_rows t [] db) ?db" using assms(1) by (simp add: triggers_log_def)
  have m: "releases db ?db" by (rule releases_trans [OF moved_releases [OF p] d])
  have t: "t \<notin> set TRANSPORT_TABLES" using Cons.prems(2) by auto
  then have "length (rows_of ?db t) \<le> length (rows_of (put_rows t [] db) t)" using d unfolding releases_def by blast
  then have empty: "rows_of ?db t = []" using rows_of_put_same [of t db "[]"] Cons.prems(1) by simp
  have "shape ?db = shape db" using m by (simp add: releases_def)
  then have "set ts \<subseteq> ut_name ` set ?db" using Cons.prems shape_names by (metis insert_subset list.set(2) list.set_map)
  from Cons.IH [OF this] Cons.prems(2) obtain db' where
    run: "for_each ts (clear_table rules) ?db = (Inr (), db')" and m': "releases ?db db'" "\<forall>t \<in> set ts. rows_of db' t = []" by auto
  have "length (rows_of db' t) \<le> length (rows_of ?db t)" using m'(1) t unfolding releases_def by blast
  then have "rows_of db' t = []" using empty by simp
  moreover have "clear_table rules t db = (Inr (), ?db)" by (simp add: clear_table_def)
  from for_each_step [of "clear_table rules", OF this] run
  have "for_each (t # ts) (clear_table rules) db = (Inr (), db')" by simp
  ultimately show ?case using releases_trans [OF m m'(1)] m'(2) by auto
qed

definition built :: "schema_rules \<Rightarrow> string \<Rightarrow> string list \<Rightarrow> (string \<times> sql_value) list \<Rightarrow> sql_value list" where
  "built rules t cols cells = map (\<lambda>c. case map_of cells c of Some v \<Rightarrow> v | None \<Rightarrow> sq_default rules t c) cols"

lemma insert_rows_run:
  assumes "triggers_log rules" "t \<in> ut_name ` set db" "t \<notin> set TRANSPORT_TABLES"
    "place_all rules t (rows_of db t) (map (built rules t (table_columns db t)) cells) = Inr rs"
  shows "\<exists>db'. for_each cells (insert_row rules t) db = (Inr (), db') \<and> moved {t} (\<lambda>_. rs) db db'"
  using assms(2,4)
proof (induction cells arbitrary: db)
  case Nil
  then show ?case using assms(3) by (auto simp: ret_def moved_def)
next
  case (Cons c cells)
  let ?row = "built rules t (table_columns db t) c"
  from Cons.prems(2) obtain acc where acc: "sq_place rules t (rows_of db t) ?row = Inr acc"
    "place_all rules t acc (map (built rules t (table_columns db t)) cells) = Inr rs"
    by (auto simp: and_then_Inr)
  let ?db = "sq_inserted rules t ?row (put_rows t acc db)"
  have m: "moved {t} (\<lambda>_. acc) db ?db"
    by (rule moved_log [OF put_moved]) (use Cons.prems assms in \<open>auto simp: triggers_log_def\<close>)
  then have rows: "rows_of ?db t = acc" using moved_rows [OF m assms(3)] by simp
  note cols = shape_columns [OF moved_shape [OF m]]
  have "\<exists>db'. for_each cells (insert_row rules t) ?db = (Inr (), db') \<and> moved {t} (\<lambda>_. rs) ?db db'"
    by (rule Cons.IH) (use Cons.prems(1) moved_names [OF m] acc(2) in \<open>simp_all add: rows cols\<close>)
  then obtain db' where run: "for_each cells (insert_row rules t) ?db = (Inr (), db')" and m': "moved {t} (\<lambda>_. rs) ?db db'" by blast
  have "moved {t} (\<lambda>_. rs) db db'" by (rule moved_cong [OF moved_trans [OF m m']]) auto
  moreover have "insert_row rules t c db = (Inr (), ?db)"
    using acc(1) unfolding insert_row_def Let_def built_def by simp
  from for_each_step [of "insert_row rules t", OF this] run
  have "for_each (c # cells) (insert_row rules t) db = (Inr (), db')" by simp
  ultimately show ?case by blast
qed

lemma insert_tables_run:
  assumes "triggers_log rules" "distinct (map fst payload)"
    "\<forall>(t, cells) \<in> set payload. t \<in> ut_name ` set db \<and> t \<notin> set TRANSPORT_TABLES \<and>
       place_all rules t (rows_of db t) (map (built rules t (table_columns db t)) cells) = Inr (F t)"
  shows "\<exists>db'. for_each payload (\<lambda>(t, rows). for_each rows (insert_row rules t)) db = (Inr (), db') \<and>
    moved (fst ` set payload) F db db'"
  using assms(2,3)
proof (induction payload arbitrary: db)
  case Nil
  show ?case by (simp add: ret_def)
next
  case (Cons e payload)
  obtain t cells where e: "e = (t, cells)" by (rule prod.exhaust)
  have here: "t \<in> ut_name ` set db" "t \<notin> set TRANSPORT_TABLES"
    "place_all rules t (rows_of db t) (map (built rules t (table_columns db t)) cells) = Inr (F t)"
    using Cons.prems(2) by (simp_all add: e)
  obtain db1 where run1: "for_each cells (insert_row rules t) db = (Inr (), db1)" and m1: "moved {t} (\<lambda>_. F t) db db1"
    using insert_rows_run [OF assms(1) here] by blast
  have "\<forall>(t', cells) \<in> set payload. t' \<in> ut_name ` set db1 \<and> t' \<notin> set TRANSPORT_TABLES \<and>
       place_all rules t' (rows_of db1 t') (map (built rules t' (table_columns db1 t')) cells) = Inr (F t')"
  proof (intro ballI case_prodI2)
    fix e' t' cells' assume "e' \<in> set payload" "e' = (t', cells')"
    then have p: "(t', cells') \<in> set payload" by simp
    then have q: "t' \<in> ut_name ` set db" "t' \<notin> set TRANSPORT_TABLES"
      "place_all rules t' (rows_of db t') (map (built rules t' (table_columns db t')) cells') = Inr (F t')"
      using Cons.prems(2) by auto
    have "t' \<noteq> t" using Cons.prems(1) p by (auto simp: e image_iff)
    then have "rows_of db1 t' = rows_of db t'" using moved_rows [OF m1 q(2)] by simp
    moreover note shape_columns [OF moved_shape [OF m1]]
    ultimately show "t' \<in> ut_name ` set db1 \<and> t' \<notin> set TRANSPORT_TABLES \<and>
       place_all rules t' (rows_of db1 t') (map (built rules t' (table_columns db1 t')) cells') = Inr (F t')"
      using q moved_names [OF m1] by simp
  qed
  then obtain db' where run: "for_each payload (\<lambda>(t, rows). for_each rows (insert_row rules t)) db1 = (Inr (), db')"
    and m': "moved (fst ` set payload) F db1 db'" using Cons.IH [of db1] Cons.prems(1) by auto
  have "moved (fst ` set (e # payload)) F db db'" by (rule moved_cong [OF moved_trans [OF m1 m']]) (auto simp: e)
  moreover have "(\<lambda>(t, rows). for_each rows (insert_row rules t)) e db = (Inr (), db1)" by (simp add: e run1)
  from for_each_step [of "\<lambda>(t, rows). for_each rows (insert_row rules t)", OF this] run
  have "for_each (e # payload) (\<lambda>(t, rows). for_each rows (insert_row rules t)) db = (Inr (), db')" by simp
  ultimately show ?case by blast
qed

section \<open>The round trip\<close>

lemma user_tables_set: "t \<in> set (user_tables db) \<Longrightarrow> t \<in> ut_name ` set db"
  by (simp add: user_tables_def)

lemma envelope_known: "t \<in> set (envelope_tables db) \<Longrightarrow> t \<in> ut_name ` set db \<and> t \<notin> set TRANSPORT_TABLES"
  using user_tables_set by (simp add: envelope_tables_def)

definition rows_ok :: "user_db \<Rightarrow> bool" where
  "rows_ok db \<longleftrightarrow> list_all (\<lambda>t. distinct (table_columns db t) \<and>
     list_all (\<lambda>row. length row = length (table_columns db t) \<and> list_all value_ok row) (rows_of db t)) (envelope_tables db)"

text \<open>Every table is what its rows build when they are inserted in rowid order, and the deferred checks hold.\<close>

definition lawful :: "schema_rules \<Rightarrow> user_db \<Rightarrow> bool" where
  "lawful rules db \<longleftrightarrow> rows_ok db \<and> sq_commit rules db \<and>
     list_all (\<lambda>t. place_all rules t [] (rows_of db t) = Inr (rows_of db t)) (envelope_tables db) \<and>
     list_all (\<lambda>c. has_condition db (cn_name c)) CONDITIONS_SEED"

text \<open>Foreign keys run between the tables of the envelope.\<close>

definition commit_local :: "schema_rules \<Rightarrow> bool" where
  "commit_local rules \<longleftrightarrow> (\<forall>db db'. shape db' = shape db \<longrightarrow>
     (\<forall>t \<in> set (envelope_tables db). rows_of db' t = rows_of db t) \<longrightarrow> sq_commit rules db' = sq_commit rules db)"

lemma staged_rows:
  assumes "list_all2 (\<lambda>row j. row_object cdc t cols row = Inr j) rows js" "distinct cols"
    "list_all (\<lambda>row. length row = length cols \<and> list_all value_ok row) rows"
  shows "\<exists>cells. map_result (stage_row cdc cols t) (enumerate n js) = Inr cells \<and> map (built rules t cols) cells = rows"
  using assms(1,3)
proof (induction rows js arbitrary: n rule: list_all2_induct)
  case (Cons row rows j js)
  have "row_object cdc t cols row = Inr j" "length cols = length row" "list_all value_ok row"
    using Cons.hyps(1) Cons.prems by simp_all
  from exported_row [OF this(1) assms(2) this(2,3), where d = "sq_default rules t"] obtain m c where
    c: "j = JObject m" "map_result (stage_cell cdc cols t n) m = Inr c" "built rules t cols c = row"
    unfolding built_def by blast
  from Cons.IH [of "Suc n"] Cons.prems obtain cells where
    "map_result (stage_row cdc cols t) (enumerate (Suc n) js) = Inr cells" "map (built rules t cols) cells = rows" by auto
  then show ?case using c by (intro exI [of _ "c # cells"]) (simp add: stage_row_def)
qed simp

lemma export_tables_entries:
  "export_tables cdc db ts m = Inr m' \<Longrightarrow> btree m \<Longrightarrow>
    btree m' \<and> set ts \<inter> set META_KEYS = {} \<and>
    (\<forall>k v. (k, v) \<in> set m' \<longleftrightarrow> (if k \<in> set ts then \<exists>rs. table_rows cdc db k = Inr rs \<and> v = JArray rs else (k, v) \<in> set m))"
proof (induction ts arbitrary: m)
  case (Cons t ts)
  have t: "t \<notin> set META_KEYS" using Cons.prems(1) by (auto split: if_splits)
  then obtain rs where rs: "table_rows cdc db t = Inr rs" "export_tables cdc db ts (btree_insert t (JArray rs) m) = Inr m'"
    using Cons.prems(1) by (auto simp: and_then_Inr)
  note IH = Cons.IH [OF rs(2) btree_insert_btree [OF Cons.prems(2)]]
  have "(k, v) \<in> set (btree_insert t (JArray rs) m) \<longleftrightarrow> (if k = t then v = JArray rs else (k, v) \<in> set m)" for k v
    by (auto simp: btree_entries [OF Cons.prems(2)])
  then show ?case using IH t rs(1) by auto
qed simp

definition meta_entries :: "string \<Rightarrow> (string \<times> json) list" where
  "meta_entries now = [(''exported_at'', JString now), (''format'', JString FORMAT), (''version'', JNumber (PosInt VERSION))]"

lemma meta_built: "btree_insert ''exported_at'' (JString now) (btree_insert ''version'' (JNumber (PosInt VERSION))
    (btree_insert ''format'' (JString FORMAT) [])) = meta_entries now"
  by (simp add: meta_entries_def)

lemma exported_envelope:
  assumes "export_value cdc now db = Inr env"
  obtains m where "env = JObject m" "btree m" "check_header m = Inr ()"
    "fst ` set (filter carried m) = set (envelope_tables db)"
    "\<And>t v. (t, v) \<in> set (filter carried m) \<Longrightarrow> \<exists>rs. table_rows cdc db t = Inr rs \<and> v = JArray rs"
proof -
  from assms obtain m where m: "env = JObject m" "export_tables cdc db (envelope_tables db) (meta_entries now) = Inr m"
    unfolding export_value_def meta_built by (cases "export_tables cdc db (envelope_tables db) (meta_entries now)") auto
  have "btree (meta_entries now)" by (simp add: btree_def meta_entries_def)
  note e = export_tables_entries [OF m(2) this]
  have meta: "set (map fst (meta_entries now)) = set META_KEYS" by (auto simp: meta_entries_def META_KEYS_def)
  have keys: "(k, v) \<in> set m \<longleftrightarrow> (if k \<in> set (envelope_tables db) then \<exists>rs. table_rows cdc db k = Inr rs \<and> v = JArray rs
      else (k, v) \<in> set (meta_entries now))" for k v using e by blast
  have not_meta: "k \<notin> set (envelope_tables db)" if "k \<in> set META_KEYS" for k using e that by blast
  have "map_of m ''format'' = Some (JString FORMAT)" "map_of m ''version'' = Some (JNumber (PosInt VERSION))"
    using keys not_meta btree_distinct [of m] e
    by (simp_all add: map_of_eq_Some_iff META_KEYS_def meta_entries_def)
  then have header: "check_header m = Inr ()" by (simp add: check_header_def)
  have carried: "(k, v) \<in> set (filter carried m) \<longleftrightarrow> k \<in> set (envelope_tables db) \<and> (\<exists>rs. table_rows cdc db k = Inr rs \<and> v = JArray rs)" for k v
  proof -
    have "k \<in> set META_KEYS" if "(k, v) \<in> set (meta_entries now)" using that meta by (metis image_eqI fst_conv set_map)
    then show ?thesis using keys [of k v] not_meta [of k] envelope_known [of k db] by (auto simp: carried_def)
  qed
  have all: "\<exists>rs. table_rows cdc db t = Inr rs" if "t \<in> set (envelope_tables db)" for t
  proof -
    have "export_tables cdc db ts m0 = Inr m1 \<Longrightarrow> t \<in> set ts \<Longrightarrow> \<exists>rs. table_rows cdc db t = Inr rs" for ts m0 m1
      by (induction ts arbitrary: m0) (auto simp: and_then_Inr split: if_splits)
    then show ?thesis using m(2) that by blast
  qed
  have "fst ` set (filter carried m) = set (envelope_tables db)"
  proof (intro set_eqI iffI)
    fix t assume "t \<in> fst ` set (filter carried m)"
    then obtain v where "(t, v) \<in> set (filter carried m)" by auto
    then show "t \<in> set (envelope_tables db)" using carried by blast
  next
    fix t assume t: "t \<in> set (envelope_tables db)"
    then obtain rs where "table_rows cdc db t = Inr rs" using all by blast
    then have "(t, JArray rs) \<in> set (filter carried m)" using carried t by blast
    then show "t \<in> fst ` set (filter carried m)" by (metis fst_conv image_eqI)
  qed
  then show ?thesis using that m(1) e header carried by blast
qed

lemma map_result_each: "map_result f xs = Inr ys \<Longrightarrow> x \<in> set xs \<Longrightarrow> \<exists>y. f x = Inr y"
  by (induction xs arbitrary: ys) (auto simp: and_then_Inr)

lemma map_result_ex:
  "(\<And>x. x \<in> set xs \<Longrightarrow> \<exists>y. f x = Inr y \<and> P x y) \<Longrightarrow> \<exists>ys. map_result f xs = Inr ys \<and> list_all2 P xs ys"
proof (induction xs)
  case (Cons x xs)
  obtain y where y: "f x = Inr y" "P x y" using Cons.prems [of x] by auto
  obtain ys where ys: "map_result f xs = Inr ys" "list_all2 P xs ys" using Cons.IH Cons.prems by auto
  show ?case using y ys by (intro exI [of _ "y # ys"]) simp
qed simp

lemma stage_exported:
  assumes env: "export_value cdc now src = Inr env" and parsed: "jc_parse cdc text = Inr env"
    and "shape tgt = shape src" "lawful rules src"
  shows "\<exists>payload. stage_envelope cdc tgt text = Inr payload \<and> fst ` set payload = set (envelope_tables src) \<and>
    distinct (map fst payload) \<and>
    (\<forall>(t, cells) \<in> set payload. map (built rules t (table_columns src t)) cells = rows_of src t)"
proof -
  from exported_envelope [OF env] obtain m where m: "env = JObject m" "btree m" "check_header m = Inr ()"
    "fst ` set (filter carried m) = set (envelope_tables src)"
    "\<And>t v. (t, v) \<in> set (filter carried m) \<Longrightarrow> \<exists>rs. table_rows cdc src t = Inr rs \<and> v = JArray rs" by blast
  note known = shape_tables [OF assms(3)] and cols = shape_columns [OF assms(3)]
  define P where "P = (\<lambda>(e :: string \<times> json) (st :: StagedTable). fst st = fst e \<and>
    map (built rules (fst st) (table_columns src (fst st))) (snd st) = rows_of src (fst st))"
  have "\<exists>st. stage_table cdc tgt e = Inr st \<and> P e st" if e: "e \<in> set (filter carried m)" for e
  proof -
    obtain t v where tv: "e = (t, v)" by (rule prod.exhaust)
    obtain rs where rs: "table_rows cdc src t = Inr rs" "v = JArray rs" using m(5) e tv by blast
    have t: "t \<in> set (envelope_tables src)" using e tv m(4) by (metis fst_conv image_eqI)
    have ok: "distinct (table_columns src t)"
      "list_all (\<lambda>row. length row = length (table_columns src t) \<and> list_all value_ok row) (rows_of src t)"
      using assms(4) t by (auto simp: lawful_def rows_ok_def list_all_iff)
    have "list_all2 (\<lambda>row j. row_object cdc t (table_columns src t) row = Inr j) (rows_of src t) rs"
      using rs(1) by (simp add: table_rows_def map_result_Inr)
    from staged_rows [OF this ok] obtain cells where
      "map_result (stage_row cdc (table_columns src t) t) (enumerate 0 rs) = Inr cells"
      "map (built rules t (table_columns src t)) cells = rows_of src t" by blast
    then show ?thesis using t by (intro exI [of _ "(t, cells)"]) (simp add: stage_table_def tv rs(2) known cols P_def)
  qed
  from map_result_ex [of _ "stage_table cdc tgt" P, OF this] obtain payload where
    payload: "map_result (stage_table cdc tgt) (filter carried m) = Inr payload" "list_all2 P (filter carried m) payload" by blast
  have keys: "map fst payload = map fst (filter carried m)"
    using payload(2) by (induction rule: list_all2_induct) (simp_all add: P_def)
  have "stage_envelope cdc tgt text = Inr payload"
    using parsed m(1,3) payload(1) by (simp add: stage_envelope_def)
  moreover have "fst ` set payload = set (envelope_tables src)" using arg_cong [OF keys, of set] m(4) by simp
  moreover have "distinct (map fst payload)" unfolding keys using btree_distinct [OF m(2)] by (rule distinct_map_filter)
  moreover have "\<forall>(t, cells) \<in> set payload. map (built rules t (table_columns src t)) cells = rows_of src t"
    using payload(2) by (induction rule: list_all2_induct) (auto simp: P_def)
  ultimately show ?thesis by blast
qed

lemma seeded_run:
  "list_all (\<lambda>c. has_condition db (cn_name c)) cs \<Longrightarrow> for_each cs (seed_condition rules) db = (Inr (), db)"
  by (induction cs) (simp_all add: ret_def bind_act_def seed_condition_def)

lemma same_rows_seeded:
  assumes "shape db' = shape db" "\<forall>t \<in> set (envelope_tables db). rows_of db' t = rows_of db t"
  shows "has_condition db c \<Longrightarrow> has_condition db' c"
proof -
  assume c: "has_condition db c"
  then have "rows_of db ''conditions'' \<noteq> []" by (auto simp: has_condition_def)
  then have "''conditions'' \<in> ut_name ` set db"
    by (auto simp: rows_of_def split: option.splits dest!: find_Some_D intro: rev_image_eqI)
  then have "''conditions'' \<in> set (envelope_tables db)"
    by (simp add: envelope_tables_def user_tables_def TRANSPORT_TABLES_def) code_simp
  then show "has_condition db' c" using c assms(2) shape_columns [OF assms(1)] by (simp add: has_condition_def)
qed

lemma same_rows_export:
  assumes "shape db' = shape db" "\<forall>t \<in> set (envelope_tables db). rows_of db' t = rows_of db t"
  shows "export_value cdc now db' = export_value cdc now db"
proof -
  have "table_rows cdc db' t = table_rows cdc db t" if "t \<in> set (envelope_tables db)" for t
    using assms(2) that by (simp add: table_rows_def shape_columns [OF assms(1)])
  then have "set ts \<subseteq> set (envelope_tables db) \<Longrightarrow> export_tables cdc db' ts m = export_tables cdc db ts m" for ts m
    by (induction ts arbitrary: m) simp_all
  then show ?thesis by (simp add: export_value_def shape_tables [OF assms(1)])
qed

section \<open>What a reader of JSON does to REALs\<close>

text \<open>
  \<open>serde_json\<close> reads back every string, integer and structure it prints, but without its feature
  \<open>float_roundtrip\<close> a float may come back off in the last bit. So a codec reads back what it printed up to a
  function \<open>rt\<close> on the floats.
\<close>

fun reread_json :: "(f64 \<Rightarrow> f64) \<Rightarrow> json \<Rightarrow> json" where
  "reread_json rt (JNumber (Float f)) = JNumber (Float (rt f))"
| "reread_json rt (JArray js) = JArray (map (reread_json rt) js)"
| "reread_json rt (JObject m) = JObject (map (\<lambda>(k, v). (k, reread_json rt v)) m)"
| "reread_json rt j = j"

definition json_reader :: "json_codec \<Rightarrow> (f64 \<Rightarrow> f64) \<Rightarrow> bool" where
  "json_reader cdc rt \<longleftrightarrow> (\<forall>x. is_finite x \<longrightarrow> is_finite (rt x)) \<and>
     (\<forall>db now env. rows_ok db \<longrightarrow> export_value cdc now db = Inr env \<longrightarrow>
        jc_parse cdc (jc_print cdc env) = Inr (reread_json rt env))"

definition reread_value :: "(f64 \<Rightarrow> f64) \<Rightarrow> sql_value \<Rightarrow> sql_value" where
  "reread_value rt v = (case v of SqlReal x \<Rightarrow> SqlReal (rt x) | _ \<Rightarrow> v)"

definition reread :: "(f64 \<Rightarrow> f64) \<Rightarrow> user_db \<Rightarrow> user_db" where
  "reread rt db = map (\<lambda>u. u\<lparr>ut_rows := map (map (reread_value rt)) (ut_rows u)\<rparr>) db"

text \<open>No REAL of the database is one the reader changes.\<close>

definition reals_survive :: "(f64 \<Rightarrow> f64) \<Rightarrow> user_db \<Rightarrow> bool" where
  "reals_survive rt db \<longleftrightarrow> list_all (\<lambda>u. list_all (list_all (\<lambda>v. reread_value rt v = v)) (ut_rows u)) db"

lemma reread_survives: "reals_survive rt db \<Longrightarrow> reread rt db = db"
  unfolding reals_survive_def reread_def by (intro map_idI) (auto simp: list_all_iff intro!: map_idI user_table.equality)

lemma shape_reread [simp]: "shape (reread rt db) = shape db"
  by (simp add: shape_def reread_def)

lemma rows_of_reread: "rows_of (reread rt db) t = map (map (reread_value rt)) (rows_of db t)"
  by (induction db) (simp_all add: rows_of_def reread_def)

lemma envelope_reread [simp]: "envelope_tables (reread rt db) = envelope_tables db"
  by (rule shape_tables) simp

lemma columns_reread [simp]: "table_columns (reread rt db) = table_columns db"
  by (rule shape_columns) simp

lemma rows_ok_reread: "rows_ok (reread rt db) \<longleftrightarrow> rows_ok db"
proof -
  have "value_ok (reread_value rt v) = value_ok v" for v by (cases v) (simp_all add: value_ok_def reread_value_def)
  then show ?thesis by (simp add: rows_ok_def rows_of_reread list_all_length)
qed

lemma to_json_reread:
  assumes "\<And>x. is_finite x \<Longrightarrow> is_finite (rt x)" "to_json cdc t (c, v) = Inr j"
  shows "to_json cdc t (c, reread_value rt v) = Inr (reread_json rt j)"
  using assms by (cases v) (auto simp: to_json_def reread_value_def split: if_splits option.splits)

lemma btree_insert_map:
  "btree_insert k (g v) (map (\<lambda>(k, v). (k, g v)) m) = map (\<lambda>(k, v). (k, g v)) (btree_insert k v m)"
  by (induction m) auto

lemma row_object_reread:
  assumes "\<And>x. is_finite x \<Longrightarrow> is_finite (rt x)" "row_object cdc t cols row = Inr j"
  shows "row_object cdc t cols (map (reread_value rt) row) = Inr (reread_json rt j)"
proof -
  let ?g = "\<lambda>(k :: string, v). (k, reread_json rt v)"
  let ?cell = "\<lambda>e. and_then (to_json cdc t e) (\<lambda>j. Inr (fst e, j))"
  from assms(2) obtain es where es: "map_result ?cell (zip cols row) = Inr es"
    "j = JObject (fold (\<lambda>(k, v). btree_insert k v) es [])" by (auto simp: row_object_def and_then_Inr)
  have "map_result ?cell (zip cols row) = Inr es \<Longrightarrow> map_result ?cell (zip cols (map (reread_value rt) row)) = Inr (map ?g es)" for es
  proof (induction cols arbitrary: row es)
    case (Cons c cols)
    then show ?case by (cases row) (auto simp: and_then_Inr intro: to_json_reread [where rt = rt, OF assms(1)])
  qed simp
  note cells = this [OF es(1)]
  have "fold (\<lambda>(k, v). btree_insert k v) (map ?g es) (map ?g m) = map ?g (fold (\<lambda>(k, v). btree_insert k v) es m)" for m
    by (induction es arbitrary: m) (auto simp: btree_insert_map)
  from this [of "[]"] show ?thesis by (simp add: row_object_def cells es(2))
qed

lemma export_reread:
  assumes "\<And>x. is_finite x \<Longrightarrow> is_finite (rt x)" "export_value cdc now db = Inr env"
  shows "export_value cdc now (reread rt db) = Inr (reread_json rt env)"
proof -
  let ?g = "\<lambda>(k :: string, v). (k, reread_json rt v)"
  have rows: "table_rows cdc (reread rt db) t = Inr (map (reread_json rt) rs)" if "table_rows cdc db t = Inr rs" for t rs
  proof -
    have "map_result f xs = Inr ys \<Longrightarrow> map_result f (map (map (reread_value rt)) xs) = Inr (map (reread_json rt) ys)"
      if "f = row_object cdc t (table_columns db t)" for f xs ys
      using that by (induction xs arbitrary: ys) (auto simp: and_then_Inr intro: row_object_reread [where rt = rt, OF assms(1)])
    then show ?thesis using that by (simp add: table_rows_def rows_of_reread)
  qed
  have tables: "export_tables cdc db ts m = Inr m' \<Longrightarrow> export_tables cdc (reread rt db) ts (map ?g m) = Inr (map ?g m')" for ts m m'
  proof (induction ts arbitrary: m)
    case (Cons t ts)
    then obtain rs where rs: "t \<notin> set META_KEYS" "table_rows cdc db t = Inr rs"
      "export_tables cdc db ts (btree_insert t (JArray rs) m) = Inr m'" by (auto simp: and_then_Inr split: if_splits)
    have "btree_insert t (JArray (map (reread_json rt) rs)) (map ?g m) = map ?g (btree_insert t (JArray rs) m)"
      using btree_insert_map [of t "reread_json rt" "JArray rs" m] by simp
    then show ?case using Cons.IH [OF rs(3)] rs(1) rows [OF rs(2)] by simp
  qed simp
  obtain m where m: "export_tables cdc db (envelope_tables db) (meta_entries now) = Inr m" "env = JObject m"
    using assms(2) unfolding export_value_def meta_built
    by (cases "export_tables cdc db (envelope_tables db) (meta_entries now)") auto
  have "map ?g (meta_entries now) = meta_entries now" by (simp add: meta_entries_def)
  then show ?thesis using tables [OF m(1)] unfolding export_value_def meta_built by (simp add: m(2))
qed

text \<open>
  C15. A backup restores: what a database exports, imported into any database of the same schema that is to be
  replaced or holds nothing yet, is loaded completely. Every table of the envelope ends with the rows of the
  source, ids included and in the same order, every value but a REAL exactly and every REAL as the JSON reader
  reads it; the summary counts the rows, the next export of the target is the source's up to the same REALs, and
  the transport tables of the target keep their rows and gain the events of the restore. If the reader changes
  none of the source's REALs, the copy is exact.
\<close>

theorem backup_roundtrip:
  assumes "export_backup cdc now src = Inr text" "json_reader cdc rt"
    "triggers_log rules" "commit_local rules" "lawful rules (reread rt src)" "shape tgt = shape src"
    "mode = Replace \<or> first_beyond_birth_state newborn tgt (envelope_tables tgt) = None"
  shows "\<exists>tgt'. import_backup cdc rules newborn text mode tgt =
      (Inr (map (\<lambda>t. (t, length (rows_of src t))) (envelope_tables src)), tgt') \<and>
    (\<forall>t \<in> set (envelope_tables src). rows_of tgt' t = map (map (reread_value rt)) (rows_of src t)) \<and>
    (\<forall>t \<in> set TRANSPORT_TABLES. prefix (rows_of tgt t) (rows_of tgt' t)) \<and>
    (\<forall>later env. export_value cdc later src = Inr env \<longrightarrow> export_value cdc later tgt' = Inr (reread_json rt env)) \<and>
    (reals_survive rt src \<longrightarrow> (\<forall>t \<in> set (envelope_tables src). rows_of tgt' t = rows_of src t) \<and>
       (\<forall>later. export_value cdc later tgt' = export_value cdc later src))"
proof -
  let ?src = "reread rt src"
  let ?known = "envelope_tables ?src"
  have finite: "\<And>x. is_finite x \<Longrightarrow> is_finite (rt x)" using assms(2) by (simp add: json_reader_def)
  have tgt: "shape tgt = shape ?src" using assms(6) by simp
  note known = shape_tables [OF tgt]
  obtain env where env: "export_value cdc now src = Inr env" "text = jc_print cdc env"
    using assms(1) by (cases "export_value cdc now src") (auto simp: export_backup_def)
  have "rows_ok src" using assms(5) by (simp add: lawful_def rows_ok_reread)
  then have parsed: "jc_parse cdc text = Inr (reread_json rt env)"
    using assms(2) env unfolding json_reader_def by blast
  obtain payload where payload: "stage_envelope cdc tgt text = Inr payload" "fst ` set payload = set ?known"
    "distinct (map fst payload)" "\<forall>(t, cells) \<in> set payload. map (built rules t (table_columns ?src t)) cells = rows_of ?src t"
    using stage_exported [OF export_reread [OF finite env(1)] parsed tgt assms(5)] by blast
  have names: "ut_name ` set tgt = ut_name ` set ?src" using shape_names [OF tgt] by (metis list.set_map)
  have sub: "set ?known \<subseteq> ut_name ` set tgt" "set ?known \<inter> set TRANSPORT_TABLES = {}"
    unfolding names using envelope_known by blast+
  obtain db1 where run1: "for_each ?known (clear_table rules) tgt = (Inr (), db1)" and m1: "releases tgt db1"
    and cleared: "\<forall>t \<in> set ?known. rows_of db1 t = []"
    using clear_run [OF assms(3) sub] by blast
  have sh1: "shape db1 = shape ?src" using m1 tgt by (simp add: releases_def)
  note cols1 = shape_columns [OF sh1]
  have "\<forall>(t, cells) \<in> set payload. t \<in> ut_name ` set db1 \<and> t \<notin> set TRANSPORT_TABLES \<and>
       place_all rules t (rows_of db1 t) (map (built rules t (table_columns db1 t)) cells) = Inr (rows_of ?src t)"
  proof (intro ballI case_prodI2)
    fix e t cells assume "e \<in> set payload" "e = (t, cells)"
    then have p: "(t, cells) \<in> set payload" by simp
    then have t: "t \<in> set ?known" using payload(2) by (metis fst_conv image_eqI)
    then have "rows_of db1 t = []" using cleared by blast
    moreover have "map (built rules t (table_columns ?src t)) cells = rows_of ?src t" using payload(4) p by blast
    moreover have "place_all rules t [] (rows_of ?src t) = Inr (rows_of ?src t)"
      using assms(5) t unfolding lawful_def list_all_iff by blast
    moreover have "ut_name ` set db1 = ut_name ` set ?src" using shape_names [OF sh1] by (metis list.set_map)
    ultimately show "t \<in> ut_name ` set db1 \<and> t \<notin> set TRANSPORT_TABLES \<and>
       place_all rules t (rows_of db1 t) (map (built rules t (table_columns db1 t)) cells) = Inr (rows_of ?src t)"
      using envelope_known [OF t] by (simp add: cols1)
  qed
  then obtain tgt' where run2: "for_each payload (\<lambda>(t, rows). for_each rows (insert_row rules t)) db1 = (Inr (), tgt')"
    and m2: "moved (fst ` set payload) (rows_of ?src) db1 tgt'" using insert_tables_run [OF assms(3) payload(3)] by blast
  have sh: "shape tgt' = shape ?src" using sh1 moved_shape [OF m2] by simp
  have rows: "\<forall>t \<in> set ?known. rows_of tgt' t = rows_of ?src t"
    using moved_rows [OF m2] envelope_known unfolding payload(2) by auto
  have logs: "\<forall>t \<in> set TRANSPORT_TABLES. prefix (rows_of tgt t) (rows_of tgt' t)"
    using m1 m2 unfolding releases_def moved_def by (meson prefix_order.trans)
  have "for_each CONDITIONS_SEED (seed_condition rules) tgt' = (Inr (), tgt')"
    by (rule seeded_run) (use assms(5) same_rows_seeded [OF sh rows] in \<open>auto simp: lawful_def list_all_iff\<close>)
  moreover have "sq_commit rules tgt'"
    using assms(4,5) sh rows unfolding commit_local_def lawful_def by blast
  ultimately have "load_envelope rules ?known payload (\<lambda>_. Inr ()) tgt = (Inr (), tgt')"
    by (simp add: load_envelope_def act_simps run1 run2 commit_checked_def del: envelope_reread)
  moreover have "(if mode = Fail then first_beyond_birth_state newborn tgt ?known else None) = None"
    using assms(7) by (auto simp: known)
  ultimately have import_backup: "import_backup cdc rules newborn text mode tgt =
      (Inr (map (\<lambda>t. (t, length (rows_of src t))) (envelope_tables src)), tgt')"
    unfolding import_backup_def import_checked_def known
    using payload(1) rows by (simp add: bind_act_def query_def import_summary_def rows_of_reread)
  have export_env: "export_value cdc later tgt' = export_value cdc later ?src" for later
    by (rule same_rows_export [OF sh rows])
  then have "\<forall>later env. export_value cdc later src = Inr env \<longrightarrow> export_value cdc later tgt' = Inr (reread_json rt env)"
    using export_reread [OF finite] by simp
  moreover have "reals_survive rt src \<longrightarrow> (\<forall>t \<in> set (envelope_tables src). rows_of tgt' t = rows_of src t) \<and>
       (\<forall>later. export_value cdc later tgt' = export_value cdc later src)"
    using rows export_env reread_survives [of rt src] by simp
  moreover have "\<forall>t \<in> set (envelope_tables src). rows_of tgt' t = map (map (reread_value rt)) (rows_of src t)"
    using rows by (simp add: rows_of_reread)
  ultimately show ?thesis using import_backup logs by blast
qed

lemma transaction_outcome:
  "transaction (\<lambda>s s'. s) m s = (r, s') \<Longrightarrow> (case r of Inl _ \<Rightarrow> s' = s | Inr v \<Rightarrow> m s = (Inr v, s'))"
  unfolding transaction_def by (cases "m s"; cases "fst (m s)") auto

lemma bind_act_InrD: "bind_act m k s = (Inr v, s') \<Longrightarrow> \<exists>u t. m s = (Inr u, t) \<and> k u t = (Inr v, s')"
  unfolding bind_act_def by (cases "m s"; cases "fst (m s)") auto

lemma load_outcome:
  assumes "load_envelope rules known payload verify db = (r, db')"
  shows "case r of Inl _ \<Rightarrow> db' = db | Inr _ \<Rightarrow> verify db' = Inr () \<and> sq_commit rules db'"
proof (cases r)
  case (Inl e)
  then show ?thesis using transaction_outcome [OF assms [unfolded load_envelope_def]] by simp
next
  case (Inr v)
  note loaded = transaction_outcome [OF assms [unfolded load_envelope_def]]
  let ?finish = "bind_act (bind_act (query verify) lift_result) (\<lambda>_. commit_checked rules)"
  from loaded have "bind_act (for_each known (clear_table rules)) (\<lambda>_.
     bind_act (for_each payload (\<lambda>(t, rows). for_each rows (insert_row rules t))) (\<lambda>_.
     bind_act (for_each CONDITIONS_SEED (seed_condition rules)) (\<lambda>_. ?finish))) db = (Inr v, db')" by (simp add: Inr)
  from bind_act_InrD [OF this] obtain a where "bind_act (for_each payload (\<lambda>(t, rows). for_each rows (insert_row rules t))) (\<lambda>_.
     bind_act (for_each CONDITIONS_SEED (seed_condition rules)) (\<lambda>_. ?finish)) a = (Inr v, db')" by blast
  from bind_act_InrD [OF this] obtain b where "bind_act (for_each CONDITIONS_SEED (seed_condition rules)) (\<lambda>_. ?finish) b = (Inr v, db')"
    by blast
  from bind_act_InrD [OF this] obtain t where "?finish t = (Inr v, db')" by blast
  then have "verify db' = Inr () \<and> sq_commit rules db'"
    by (auto simp: act_simps commit_checked_def split: sum.splits if_splits)
  then show ?thesis by (simp add: Inr)
qed

text \<open>
  C16. An import is refused without a trace or done completely. It is done only for an envelope of this format and
  version all of whose entries, metadata and transport tables apart, are tables of the database, and, unless
  told to replace, only if no table holds more rows than a new collection is born with; the state it commits
  passes the caller's check and the deferred foreign keys, and the summary counts it.
\<close>

theorem import_checked_outcome:
  "case import_checked cdc rules newborn text mode verify db of
     (Inl e, db') \<Rightarrow> db' = db
   | (Inr summary, db') \<Rightarrow>
       (\<exists>env. jc_parse cdc text = Inr (JObject env) \<and> check_header env = Inr () \<and>
          fst ` set (filter carried env) \<subseteq> set (envelope_tables db)) \<and>
       (mode = Replace \<or> list_all (\<lambda>t. length (rows_of db t) \<le> length (rows_of newborn t)) (envelope_tables db)) \<and>
       verify db' = Inr () \<and> sq_commit rules db' \<and> summary = import_summary (envelope_tables db) db'"
proof -
  let ?known = "envelope_tables db"
  consider (refused) e where "stage_envelope cdc db text = Inl e" | (staged) payload where "stage_envelope cdc db text = Inr payload"
    by (cases "stage_envelope cdc db text") auto
  then show ?thesis
  proof cases
    case refused
    then show ?thesis by (simp add: import_checked_def)
  next
    case staged
    then obtain env where env: "jc_parse cdc text = Inr (JObject env)" "check_header env = Inr ()"
      "map_result (stage_table cdc db) (filter carried env) = Inr payload"
      by (auto simp: stage_envelope_def and_then_Inr split: sum.splits json.splits)
    have sub: "fst ` set (filter carried env) \<subseteq> set ?known"
    proof
      fix t assume "t \<in> fst ` set (filter carried env)"
      then obtain v where "(t, v) \<in> set (filter carried env)" by auto
      then obtain st where "stage_table cdc db (t, v) = Inr st"
        using map_result_each [OF env(3)] by blast
      then show "t \<in> set ?known" by (auto simp: stage_table_def split: if_splits)
    qed
    show ?thesis
    proof (cases "if mode = Fail then first_beyond_birth_state newborn db ?known else None")
      case (Some t)
      then show ?thesis using staged by (simp add: import_checked_def)
    next
      case None
      have mode: "mode = Replace \<or> list_all (\<lambda>t. length (rows_of db t) \<le> length (rows_of newborn t)) ?known"
      proof (cases mode)
        case Fail
        then have "first_beyond_birth_state newborn db ?known = None" using None by simp
        then have "list_all (\<lambda>t. length (rows_of db t) \<le> length (rows_of newborn t)) ?known"
          unfolding first_beyond_birth_state_def list_all_iff by (auto dest!: find_None_D)
        then show ?thesis ..
      qed simp
      obtain r db' where load: "load_envelope rules ?known payload verify db = (r, db')" by (rule prod.exhaust)
      have run: "import_checked cdc rules newborn text mode verify db =
          (case r of Inl e \<Rightarrow> (Inl e, db') | Inr _ \<Rightarrow> (Inr (import_summary ?known db'), db'))"
        using staged None load by (simp add: import_checked_def bind_act_def query_def split: sum.split)
      note load_outcome [OF load]
      then show ?thesis unfolding run using env sub mode by (cases r) auto
    qed
  qed
qed

section \<open>A sample database\<close>

definition sample_rules :: schema_rules where
  "sample_rules =
     \<lparr>sq_default = (\<lambda>_ _. SqlNull),
      sq_place = (\<lambda>_ rows row. if row \<in> set rows then Inl UniqueViolation else Inr (rows @ [row])),
      sq_deleted = (\<lambda>t _ db. if t = ''conditions'' then put_rows ''collection'' [] db else db),
      sq_inserted = (\<lambda>t _ db. if t = ''collection''
         then put_rows ''ownership_outbox'' (rows_of db ''ownership_outbox'' @ [[SqlText ''insert'']]) db else db),
      sq_commit = (\<lambda>_. True)\<rparr>"

definition sample_tables :: "sql_value list list \<Rightarrow> user_db" where
  "sample_tables copies =
     [\<lparr>ut_name = ''collection'', ut_columns = [''id'', ''printing_id'', ''purchase_price''], ut_rows = copies\<rparr>,
      \<lparr>ut_name = ''conditions'', ut_columns = [''name'', ''multiplier'', ''rank''],
       ut_rows = map (\<lambda>c. [SqlText (cn_name c), SqlReal (cn_multiplier c), SqlInteger (cn_rank c)]) CONDITIONS_SEED\<rparr>,
      \<lparr>ut_name = ''ownership_outbox'', ut_columns = [''op''], ut_rows = [[SqlText ''backfill'']]\<rparr>]"

definition sample_source :: user_db where
  "sample_source = sample_tables [[SqlInteger 7, SqlText ''base1-4-holo'', SqlReal 0x4014000000000000]]"

text \<open>A codec for all JSON values whose reader is off in the last bit of one fraction.\<close>

fun put_json :: "json \<Rightarrow> string" where
  "put_json JNull = ''n''"
| "put_json (JBool b) = (if b then ''t'' else ''f'')"
| "put_json (JNumber (PosInt n)) = CHR ''p'' # put_nat n"
| "put_json (JNumber (NegInt i)) = CHR ''i'' # put_int i"
| "put_json (JNumber (Float x)) = CHR ''d'' # put_word x"
| "put_json (JString s) = CHR ''s'' # put_text s"
| "put_json (JArray js) = CHR ''a'' # put_list put_json js"
| "put_json (JObject m) = CHR ''o'' # put_list (\<lambda>(k, v). put_text k @ put_json v) m"

fun get_json :: "nat \<Rightarrow> string \<Rightarrow> (json \<times> string) option" where
  "get_json (Suc n) (c # s) =
     (if c = CHR ''n'' then Some (JNull, s)
      else if c = CHR ''t'' then Some (JBool True, s)
      else if c = CHR ''f'' then Some (JBool False, s)
      else if c = CHR ''p'' then map_option (\<lambda>(n, r). (JNumber (PosInt n), r)) (get_nat s)
      else if c = CHR ''i'' then map_option (\<lambda>(i, r). (JNumber (NegInt i), r)) (get_int s)
      else if c = CHR ''d'' then map_option (\<lambda>(x, r). (JNumber (Float (last_bit_off x)), r)) (get_word s)
      else if c = CHR ''s'' then map_option (\<lambda>(t, r). (JString t, r)) (get_text s)
      else if c = CHR ''a'' then map_option (\<lambda>(js, r). (JArray js, r)) (get_list (get_json n) s)
      else map_option (\<lambda>(m, r). (JObject m, r))
        (get_list (\<lambda>s. case get_text s of None \<Rightarrow> None | Some (k, s) \<Rightarrow> map_option (\<lambda>(v, r). ((k, v), r)) (get_json n s)) s))"
| "get_json n s = None"

lemma get_put_json: "size j < n \<Longrightarrow> get_json n (put_json j @ r) = Some (reread_json last_bit_off j, r)"
proof (induction j arbitrary: n r)
  case (JNumber x)
  then show ?case by (cases n; cases x) simp_all
next
  case (JArray js)
  then obtain k where n: "n = Suc k" by (cases n) auto
  have "get_json k (put_json j @ r) = Some (reread_json last_bit_off j, r)" if "j \<in> set js" for j r
    using JArray.IH [OF that, of k] JArray.prems n size_list_estimation' [OF that, of "size j" size] by simp
  then show ?case by (simp add: n get_put_list [where f = "reread_json last_bit_off"])
next
  case (JObject m)
  then obtain k where n: "n = Suc k" by (cases n) auto
  let ?g = "\<lambda>s. case get_text s of None \<Rightarrow> None | Some (k', s) \<Rightarrow> map_option (\<lambda>(v, r). ((k', v), r)) (get_json k s)"
  have "?g ((case e of (k', v) \<Rightarrow> put_text k' @ put_json v) @ r) = Some (case e of (k', v) \<Rightarrow> (k', reread_json last_bit_off v), r)"
    if e: "e \<in> set m" for e r
  proof (cases e)
    case (Pair k' v)
    have "size v < k"
      using JObject.prems n size_list_estimation' [OF e, of "size v" "size_prod (\<lambda>x. 0) size"] by (simp add: Pair)
    then show ?thesis using JObject.IH [OF e, of v k] by (simp add: Pair)
  qed
  from get_put_list [of m ?g, OF this] show ?case by (simp add: n)
qed (auto elim!: less_natE)

definition sample_json :: json_codec where
  "sample_json = \<lparr>jc_print = (\<lambda>j. put_nat (Suc (size j)) @ put_json j),
     jc_parse = (\<lambda>s. case get_nat s of None \<Rightarrow> Inl ''expected value'' | Some (n, s) \<Rightarrow>
       (case get_json n s of None \<Rightarrow> Inl ''expected value'' | Some (j, _) \<Rightarrow> Inr j)),
     jc_int_as_f64 = (\<lambda>_. 0), jc_utf8_error = (\<lambda>_. None)\<rparr>"

lemma sample_reader: "json_reader sample_json last_bit_off"
proof -
  have "jc_parse sample_json (jc_print sample_json j) = Inr (reread_json last_bit_off j)" for j
    using get_put_json [of j "Suc (size j)" "[]"] by (simp add: sample_json_def)
  moreover have "is_finite x \<Longrightarrow> is_finite (last_bit_off x)" for x
    by (simp add: last_bit_off_def is_finite_def)
  ultimately show ?thesis by (simp add: json_reader_def)
qed

lemma sample_seed_finite: "list_all (\<lambda>c. is_finite (cn_multiplier c)) CONDITIONS_SEED"
  by (simp add: CONDITIONS_SEED_def is_finite_def)

lemma sample_triggers: "triggers_log sample_rules"
proof -
  have "moved {} (\<lambda>_. []) db (put_rows ''ownership_outbox'' (rows_of db ''ownership_outbox'' @ x) db)" for db x
  proof -
    have t: "''ownership_outbox'' \<in> set TRANSPORT_TABLES" by (simp add: TRANSPORT_TABLES_def)
    have "shape (put_rows ''ownership_outbox'' rs db) = shape db" for rs by (simp add: shape_def put_rows_def)
    moreover have "rows_of (put_rows ''ownership_outbox'' rs db) t' = rows_of db t'" if "t' \<notin> set TRANSPORT_TABLES" for t' rs
      using t that by (intro rows_of_put_other) auto
    moreover have "prefix (rows_of db t') (rows_of (put_rows ''ownership_outbox'' (rows_of db ''ownership_outbox'' @ x) db) t')" for t'
    proof (cases "t' = ''ownership_outbox''")
      case True
      show ?thesis
      proof (cases "''ownership_outbox'' \<in> ut_name ` set db")
        case here: True
        show ?thesis unfolding True rows_of_put_same [OF here] by simp
      next
        case False
        then have "List.find (\<lambda>u. ut_name u = ''ownership_outbox'') db = None" unfolding find_None_iff by (metis image_eqI)
        then show ?thesis by (simp add: True rows_of_def)
      qed
    qed (simp add: rows_of_put_other)
    ultimately show ?thesis by (simp add: moved_def)
  qed
  moreover have "releases db (put_rows ''collection'' [] db)" for db
  proof -
    have "length (rows_of (put_rows t [] db) t) \<le> length (rows_of db t)" for t
      by (induction db) (auto simp: rows_of_def put_rows_def)
    moreover have "''collection'' \<notin> set TRANSPORT_TABLES" by (simp add: TRANSPORT_TABLES_def)
    moreover have "shape (put_rows ''collection'' [] db) = shape db" by (simp add: shape_def put_rows_def)
    ultimately show ?thesis unfolding releases_def by (metis order_refl prefix_order.refl rows_of_put_other)
  qed
  moreover have "releases db db" for db by (simp add: releases_def)
  ultimately show ?thesis by (simp add: triggers_log_def logs_only_def sample_rules_def)
qed

lemma sample_lawful: "lawful sample_rules (reread last_bit_off sample_source)" "reals_survive last_bit_off sample_source"
  by code_simp+

lemma backup_roundtrip_witness:
  "\<exists>text tgt'. export_backup sample_json ''now'' sample_source = Inr text \<and>
     import_backup sample_json sample_rules [] text Replace (sample_tables [[SqlInteger 1, SqlText ''x'', SqlNull]]) =
      (Inr [(''collection'', 1), (''conditions'', 5)], tgt') \<and>
    rows_of tgt' ''collection'' = [[SqlInteger 7, SqlText ''base1-4-holo'', SqlReal 0x4014000000000000]] \<and>
    prefix [[SqlText ''backfill'']] (rows_of tgt' ''ownership_outbox'')"
proof -
  let ?tgt = "sample_tables [[SqlInteger 1, SqlText ''x'', SqlNull]]"
  have "case export_value sample_json ''now'' sample_source of Inr _ \<Rightarrow> True | Inl _ \<Rightarrow> False" by code_simp
  then obtain tx where exported: "export_backup sample_json ''now'' sample_source = Inr tx"
    by (cases "export_value sample_json ''now'' sample_source") (simp_all add: export_backup_def)
  have loc: "commit_local sample_rules" by (simp add: commit_local_def sample_rules_def)
  have sh: "shape ?tgt = shape sample_source" by (simp add: shape_def sample_source_def sample_tables_def)
  have known: "envelope_tables sample_source = [''collection'', ''conditions'']" by code_simp
  have rows: "rows_of sample_source ''collection'' = [[SqlInteger 7, SqlText ''base1-4-holo'', SqlReal 0x4014000000000000]]"
    "length (rows_of sample_source ''conditions'') = 5" "rows_of ?tgt ''ownership_outbox'' = [[SqlText ''backfill'']]"
    by code_simp+
  have t: "''ownership_outbox'' \<in> set TRANSPORT_TABLES" by (simp add: TRANSPORT_TABLES_def)
  from backup_roundtrip [OF exported sample_reader sample_triggers loc sample_lawful(1) sh disjI1 [OF refl], of "[]"] sample_lawful(2)
  obtain tgt' where r: "import_backup sample_json sample_rules [] tx Replace ?tgt =
        (Inr (map (\<lambda>t. (t, length (rows_of sample_source t))) (envelope_tables sample_source)), tgt')"
    "\<forall>t \<in> set (envelope_tables sample_source). rows_of tgt' t = rows_of sample_source t"
    "\<forall>t \<in> set TRANSPORT_TABLES. prefix (rows_of ?tgt t) (rows_of tgt' t)" by blast
  show ?thesis
    using exported r(1,2) r(3) [THEN bspec, OF t] rows by (intro exI [of _ tx] exI [of _ tgt']) (simp add: known)
qed

end
