(* ===== verification/Request_Access.thy ===== *)
theory Request_Access
  imports Store
begin

text \<open>
  Who a request is served as (\<open>pkdump-server\<close>: \<open>access.rs\<close>, \<open>tenant.rs\<close>, \<open>oidc.rs\<close> and the
  router in \<open>lib.rs\<close>). A layer is a function on handlers. The tenancy and sign-in kits are not part of the
  repository: token verification, the sign-in gate and the tenant registry are parameters. Of a response the
  model keeps the status and, as a record of what happened, the handler that ran and the tenant it ran as.
\<close>

section \<open>Requests and responses\<close>

type_synonym http_error = "nat \<times> string"

record SessionUser =
  su_sub :: string
  su_email :: string
  su_name :: string
  su_groups :: "string list"
  su_exp :: int

record VerifiedIdentity =
  vi_email :: string

datatype TenantId = Single string | Multi string

datatype endpoint = Health | BackupStatus | Api string | StaticFile string | SignIn string | Spa

text \<open>A request with the values the layers put in its scope.\<close>

record request =
  rq_path :: string
  rq_headers :: "(string \<times> string) list"
  rq_user :: "SessionUser option"
  rq_identity :: "VerifiedIdentity option"
  rq_tenant :: "TenantId option"

record response =
  rs_status :: nat
  rs_ran :: "(endpoint \<times> TenantId option) option"

type_synonym handler = "request \<Rightarrow> response"

definition refused :: "nat \<Rightarrow> response" where
  "refused code = \<lparr>rs_status = code, rs_ran = None\<rparr>"

definition is_redirection :: "response \<Rightarrow> bool" where
  "is_redirection r \<longleftrightarrow> 300 \<le> rs_status r \<and> rs_status r < 400"

section \<open>Tenants\<close>

record kernel =
  kn_resolve :: "VerifiedIdentity \<Rightarrow> http_error + string"
  kn_resolve_session :: "SessionUser \<Rightarrow> http_error + string"
  kn_no_identity :: nat

datatype Mode = SingleMode TenantId string | MultiMode kernel

definition resolve :: "Mode \<Rightarrow> VerifiedIdentity \<Rightarrow> http_error + TenantId" where
  "resolve mode identity = (case mode of
     SingleMode i _ \<Rightarrow> Inr i
   | MultiMode k \<Rightarrow> map_sum id Multi (kn_resolve k identity))"

definition resolve_session :: "Mode \<Rightarrow> SessionUser \<Rightarrow> http_error + TenantId" where
  "resolve_session mode user = (case mode of
     SingleMode i _ \<Rightarrow> Inr i
   | MultiMode k \<Rightarrow> map_sum id Multi (kn_resolve_session k user))"

text \<open>
  The open connections. \<open>opened\<close> is \<open>connect_user\<close> on a user database, \<open>kernel_conn\<close> the kernel's opener;
  the message names the ids as \<open>{:?}\<close> shows them.
\<close>

type_synonym 'c connections = "TenantId \<rightharpoonup> 'c"

definition connection ::
  "(TenantId \<Rightarrow> string) \<Rightarrow> (string \<Rightarrow> DbError + 'c) \<Rightarrow> (string \<Rightarrow> DbError + 'c) \<Rightarrow> Mode \<Rightarrow> TenantId \<Rightarrow>
   'c connections \<Rightarrow> (DbError + 'c) \<times> 'c connections" where
  "connection shown opened kernel_conn mode i conns =
     (case (mode, i) of
        (MultiMode _, Multi d) \<Rightarrow> (kernel_conn d, conns)
      | (MultiMode _, Single _) \<Rightarrow> (Inl (Env (''tenant '' @ shown i @ '' requested from a multi-tenant process'')), conns)
      | (SingleMode only db, _) \<Rightarrow>
          if i \<noteq> only
          then (Inl (Env (''tenant '' @ shown i @ '' requested from a single-tenant process serving '' @ shown only)), conns)
          else (case conns i of
                  Some c \<Rightarrow> (Inr c, conns)
                | None \<Rightarrow> (case opened db of Inl e \<Rightarrow> (Inl e, conns) | Inr c \<Rightarrow> (Inr c, conns(i \<mapsto> c)))))"

text \<open>The one tenant of a single-tenant process is opened at startup; \<open>validate\<close> is the kit's check of a name.\<close>

definition tenant_single ::
  "(TenantId \<Rightarrow> string) \<Rightarrow> (string \<Rightarrow> DbError + 'c) \<Rightarrow> (string \<Rightarrow> DbError + 'c) \<Rightarrow> (string \<Rightarrow> DbError + unit) \<Rightarrow>
   string \<Rightarrow> string \<Rightarrow> DbError + Mode \<times> 'c connections" where
  "tenant_single shown opened kernel_conn validate tenant db =
     and_then (validate tenant) (\<lambda>_.
       let mode = SingleMode (Single tenant) db in
       case connection shown opened kernel_conn mode (Single tenant) Map.empty of
         (Inl e, _) \<Rightarrow> Inl e
       | (Inr _, conns) \<Rightarrow> Inr (mode, conns))"

definition status_of_error :: "DbError \<Rightarrow> nat" where
  "status_of_error e = (case e of
     NotFound _ \<Rightarrow> 404 | Conflict _ \<Rightarrow> 409 | Import _ \<Rightarrow> 400 | Invalid _ \<Rightarrow> 400 | _ \<Rightarrow> 500)"

text \<open>\<open>blocking\<close>: the handler's database work, on the connection of the tenant in scope.\<close>

definition blocking ::
  "(TenantId \<Rightarrow> string) \<Rightarrow> (string \<Rightarrow> DbError + 'c) \<Rightarrow> (string \<Rightarrow> DbError + 'c) \<Rightarrow> Mode \<Rightarrow> request \<Rightarrow>
   ('c \<Rightarrow> DbError + 'v) \<Rightarrow> 'c connections \<Rightarrow> (nat + 'v) \<times> 'c connections" where
  "blocking shown opened kernel_conn mode rq f conns =
     (case rq_tenant rq of
        None \<Rightarrow> (Inl 500, conns)
      | Some i \<Rightarrow> (case connection shown opened kernel_conn mode i conns of
                    (Inl e, conns') \<Rightarrow> (Inl (status_of_error e), conns')
                  | (Inr c, conns') \<Rightarrow> (map_sum status_of_error id (f c), conns')))"

section \<open>Layers\<close>

definition access_layer :: "(request \<Rightarrow> http_error + VerifiedIdentity) option \<Rightarrow> handler \<Rightarrow> handler" where
  "access_layer access next rq = (case access of
     None \<Rightarrow> next rq
   | Some verify \<Rightarrow> (case verify rq of
       Inl (code, _) \<Rightarrow> refused code
     | Inr identity \<Rightarrow> next (rq\<lparr>rq_identity := Some identity\<rparr>)))"

definition tenant_layer :: "Mode \<Rightarrow> handler \<Rightarrow> handler" where
  "tenant_layer mode next rq = (case mode of
     SingleMode i _ \<Rightarrow> next (rq\<lparr>rq_tenant := Some i\<rparr>)
   | MultiMode k \<Rightarrow> (case rq_identity rq of
       None \<Rightarrow> refused (kn_no_identity k)
     | Some identity \<Rightarrow> (case resolve mode identity of
         Inl (code, _) \<Rightarrow> refused code
       | Inr i \<Rightarrow> next (rq\<lparr>rq_tenant := Some i\<rparr>))))"

definition session_layer :: "Mode \<Rightarrow> handler \<Rightarrow> handler" where
  "session_layer mode next rq = (case rq_user rq of
     None \<Rightarrow> refused 401
   | Some user \<Rightarrow> (case resolve_session mode user of
       Inl (code, _) \<Rightarrow> refused code
     | Inr i \<Rightarrow> next (rq\<lparr>rq_tenant := Some i\<rparr>)))"

text \<open>The kit's sign-in layer answers a request itself or passes it on, with the session in its scope.\<close>

type_synonym oidc = "request \<Rightarrow> response + request"

definition oidc_layer :: "oidc \<Rightarrow> handler \<Rightarrow> handler" where
  "oidc_layer gate next rq = (case gate rq of Inl r \<Rightarrow> r | Inr rq' \<Rightarrow> next rq')"

definition sign_in_gate :: "oidc \<Rightarrow> handler \<Rightarrow> handler" where
  "sign_in_gate gate next rq =
     (let is_api = rq_path rq = ''/api'' \<or> starts_with ''/api/'' (rq_path rq);
          r = oidc_layer gate next rq
      in if is_api \<and> is_redirection r then r\<lparr>rs_status := 401\<rparr> else r)"

record Machine =
  mc_health_closed :: bool
  mc_group :: string
  mc_verifier :: "(string \<Rightarrow> string option) option"

definition admit :: "Machine \<Rightarrow> string \<Rightarrow> string option" where
  "admit m token = (case mc_verifier m of Some verify \<Rightarrow> verify token | None \<Rightarrow> None)"

definition synthetic_user :: "Machine \<Rightarrow> int \<Rightarrow> string \<Rightarrow> SessionUser" where
  "synthetic_user m now i = \<lparr>su_sub = i, su_email = [], su_name = i, su_groups = [mc_group m], su_exp = now + 60\<rparr>"

definition bearer :: "request \<Rightarrow> string option" where
  "bearer rq = (case map_of (rq_headers rq) ''authorization'' of
     Some v \<Rightarrow> if starts_with ''Bearer '' v then Some (drop 7 v) else None
   | None \<Rightarrow> None)"

definition machine_layer :: "Machine \<Rightarrow> int \<Rightarrow> handler \<Rightarrow> handler" where
  "machine_layer m now next rq =
     (let is_health = rq_path rq = ''/health'' in
      case bearer rq of
        Some token \<Rightarrow>
          if \<not> is_health then refused 401
          else (case admit m token of
                  Some i \<Rightarrow> next (rq\<lparr>rq_user := Some (synthetic_user m now i)\<rparr>)
                | None \<Rightarrow> refused 401)
      | None \<Rightarrow>
          if is_health \<and> mc_health_closed m
          then (let r = next rq in if is_redirection r then r\<lparr>rs_status := 401\<rparr> else r)
          else next rq)"

section \<open>The server\<close>

text \<open>
  Which handler a path reaches: \<open>api_route\<close> says whether an authenticated API route matches, \<open>own_route\<close>
  whether it is one of the sign-in kit's own routes.
\<close>

record routes =
  ro_api :: "string \<Rightarrow> bool"
  ro_sign_in :: "string \<Rightarrow> bool"

definition STATIC_DIRS :: "string list" where
  "STATIC_DIRS = [''/_app'', ''/rarity'', ''/energy'', ''/sets'', ''/sym'']"

definition STATIC_FILES :: "string list" where
  "STATIC_FILES = [''/robots.txt'', ''/favicon.svg'', ''/favicon-32.png'', ''/apple-touch-icon.png'']"

definition endpoint_of :: "routes \<Rightarrow> string \<Rightarrow> endpoint" where
  "endpoint_of ro p =
     (if p = ''/health'' then Health
      else if p = ''/api/backup-status'' then BackupStatus
      else if starts_with ''/api/'' p \<and> ro_api ro p then Api p
      else if list_ex (\<lambda>d. p = d \<or> starts_with (d @ ''/'') p) STATIC_DIRS \<or> p \<in> set STATIC_FILES then StaticFile p
      else Spa)"

record server =
  sv_mode :: Mode
  sv_access :: "(request \<Rightarrow> http_error + VerifiedIdentity) option"
  sv_oidc :: "oidc option"
  sv_machine :: "Machine option"

text \<open>\<open>run\<close> is the status a handler answers with.\<close>

definition handled :: "(endpoint \<Rightarrow> request \<Rightarrow> nat) \<Rightarrow> endpoint \<Rightarrow> handler" where
  "handled run e rq = \<lparr>rs_status = run e rq, rs_ran = Some (e, rq_tenant rq)\<rparr>"

definition inner_app :: "server \<Rightarrow> routes \<Rightarrow> (endpoint \<Rightarrow> request \<Rightarrow> nat) \<Rightarrow> handler" where
  "inner_app sv ro run rq =
     (case endpoint_of ro (rq_path rq) of
        Api p \<Rightarrow>
          if sv_oidc sv \<noteq> None then session_layer (sv_mode sv) (handled run (Api p)) rq
          else access_layer (sv_access sv) (tenant_layer (sv_mode sv) (handled run (Api p))) rq
      | e \<Rightarrow> handled run e rq)"

definition app :: "server \<Rightarrow> routes \<Rightarrow> (endpoint \<Rightarrow> request \<Rightarrow> nat) \<Rightarrow> int \<Rightarrow> handler" where
  "app sv ro run now rq = (case sv_oidc sv of
     None \<Rightarrow> inner_app sv ro run rq
   | Some gate \<Rightarrow>
       if ro_sign_in ro (rq_path rq) then handled run (SignIn (rq_path rq)) rq
       else (case sv_machine sv of
               Some m \<Rightarrow> machine_layer m now (sign_in_gate gate (inner_app sv ro run)) rq
             | None \<Rightarrow> sign_in_gate gate (inner_app sv ro run) rq))"

definition check_multitenant_access :: "bool \<Rightarrow> bool \<Rightarrow> bool \<Rightarrow> bool" where
  "check_multitenant_access multi_tenant access_configured oidc_configured \<longleftrightarrow>
     \<not> multi_tenant \<or> access_configured \<or> oidc_configured"

text \<open>Startup: Access is ignored when sign-in is configured, and the machine gate exists only with it.\<close>

definition serve ::
  "Mode \<Rightarrow> (request \<Rightarrow> http_error + VerifiedIdentity) option \<Rightarrow> (oidc \<times> Machine) option \<Rightarrow> server option" where
  "serve mode access oidc =
     (if check_multitenant_access (case mode of MultiMode _ \<Rightarrow> True | _ \<Rightarrow> False) (access \<noteq> None) (oidc \<noteq> None)
      then Some \<lparr>sv_mode = mode, sv_access = (if oidc \<noteq> None then None else access),
                 sv_oidc = map_option fst oidc, sv_machine = map_option snd oidc\<rparr>
      else None)"

section \<open>Configuration from the environment\<close>

definition HEALTH_FLAG :: string where
  "HEALTH_FLAG = ''PKDUMP_HEALTH_REQUIRE_AUTH''"

definition MACHINE_PATHS :: "string list" where
  "MACHINE_PATHS = [''/health'', ''/api/backup-status'']"

definition flag_from :: "(string \<Rightarrow> string option) \<Rightarrow> string \<Rightarrow> string + bool" where
  "flag_from get name = (case map_option trim (get name) of
     None \<Rightarrow> Inr False
   | Some v \<Rightarrow> if v = [] \<or> v = ''0'' then Inr False else if v = ''1'' then Inr True
              else Inl (name @ '' must be 0 or 1, got '' @ debug_quoted v))"

text \<open>\<open>from_lookup\<close> is the kit's reading of its own variables; it returns the paths it serves without a session.\<close>

definition config_from ::
  "((string \<Rightarrow> string option) \<Rightarrow> string + string list) \<Rightarrow> (string \<Rightarrow> string option) \<Rightarrow> string list \<Rightarrow>
   string + string list option" where
  "config_from from_lookup get names =
     (if \<not> list_ex (starts_with ''PKDUMP_OIDC_'') names then Inr None
      else and_then (flag_from get HEALTH_FLAG) (\<lambda>closed.
           and_then (from_lookup get) (\<lambda>paths.
           Inr (Some (fold (\<lambda>p ps. if closed \<and> p = ''/health'' then ps else if p \<in> set ps then ps else ps @ [p])
             MACHINE_PATHS paths)))))"

record MachineConfig =
  mf_health_requires_auth :: bool
  mf_client_ids :: "string list"
  mf_audience :: "string option"

definition machine_config_from :: "(string \<Rightarrow> string option) \<Rightarrow> string + MachineConfig" where
  "machine_config_from get =
     (let ids = filter (\<lambda>s. s \<noteq> []) (map trim (split_char (CHR '','')
            (case get ''PKDUMP_OIDC_BEARER_CLIENT_IDS'' of Some v \<Rightarrow> v | None \<Rightarrow> [])));
          audience = (case map_option trim (get ''PKDUMP_OIDC_BEARER_AUDIENCE'') of
                        Some a \<Rightarrow> if a = [] then None else Some a | None \<Rightarrow> None) in
      if ids \<noteq> [] \<and> audience = None
      then Inl ''PKDUMP_OIDC_BEARER_CLIENT_IDS is set, so PKDUMP_OIDC_BEARER_AUDIENCE is required''
      else and_then (flag_from get HEALTH_FLAG) (\<lambda>closed.
           Inr \<lparr>mf_health_requires_auth = closed, mf_client_ids = ids, mf_audience = audience\<rparr>))"

text \<open>Cloudflare Access is on when any of its variables is set; \<open>from_env\<close> is the kit's reading of them.\<close>

definition access_config_if_configured :: "(string \<Rightarrow> string + 'a) \<Rightarrow> (string \<Rightarrow> string option) \<Rightarrow> string + 'a option" where
  "access_config_if_configured from_env get =
     (if list_ex (\<lambda>v. get v \<noteq> None) [''PKDUMP_ACCESS_TEAM_DOMAIN'', ''PKDUMP_ACCESS_AUD'', ''PKDUMP_ACCESS_JWKS_URL'']
      then map_sum id Some (from_env ''PKDUMP'') else Inr None)"

section \<open>What the kit promises\<close>

text \<open>The sign-in layer refuses without running a handler, and passes a request on with nothing but the session set.\<close>

definition kit_gate :: "oidc \<Rightarrow> bool" where
  "kit_gate gate \<longleftrightarrow> (\<forall>rq. case gate rq of Inl r \<Rightarrow> rs_ran r = None | Inr rq' \<Rightarrow> \<exists>u. rq' = rq\<lparr>rq_user := u\<rparr>)"

text \<open>It lets a request through on a path served without a session, or with a session in the required group.\<close>

definition in_session :: "string \<Rightarrow> request \<Rightarrow> bool" where
  "in_session required rq \<longleftrightarrow> (case rq_user rq of Some u \<Rightarrow> required \<in> set (su_groups u) | None \<Rightarrow> False)"

definition guarded :: "string list \<Rightarrow> string \<Rightarrow> oidc \<Rightarrow> bool" where
  "guarded bypass required gate \<longleftrightarrow>
     (\<forall>rq. case gate rq of Inl _ \<Rightarrow> True
        | Inr rq' \<Rightarrow> list_ex (\<lambda>b. starts_with b (rq_path rq)) bypass \<or> in_session required rq')"

section \<open>Isolation\<close>

lemma refused_ran [simp]: "rs_ran (refused c) = None"
  by (simp add: refused_def)

lemma status_ran [simp]: "rs_ran (if b then r\<lparr>rs_status := c\<rparr> else r) = rs_ran r"
  by (cases b) simp_all

lemma kit_gateD:
  "kit_gate gate \<Longrightarrow> gate rq = Inl r \<Longrightarrow> rs_ran r = None"
  "kit_gate gate \<Longrightarrow> gate rq = Inr rq' \<Longrightarrow> \<exists>u. rq' = rq\<lparr>rq_user := u\<rparr>"
  unfolding kit_gate_def by (drule spec [of _ rq], simp)+

lemma guardedD:
  "guarded bypass required gate \<Longrightarrow> gate rq = Inr rq' \<Longrightarrow>
    list_ex (\<lambda>b. starts_with b (rq_path rq)) bypass \<or> in_session required rq'"
  unfolding guarded_def by (drule spec [of _ rq], simp)

lemma map_sum_Inr: "map_sum f g x = Inr y \<longleftrightarrow> (\<exists>z. x = Inr z \<and> y = g z)"
  by (cases x) auto

lemma sign_in_gate_ran:
  assumes "kit_gate gate" "rs_ran (sign_in_gate gate next rq) = Some x"
  shows "\<exists>u. gate rq = Inr (rq\<lparr>rq_user := u\<rparr>) \<and> rs_ran (next (rq\<lparr>rq_user := u\<rparr>)) = Some x"
proof (cases "gate rq")
  case (Inl r)
  then have "rs_ran r = None" using kit_gateD(1) [OF assms(1)] by simp
  then show ?thesis using assms(2) Inl by (simp add: sign_in_gate_def oidc_layer_def Let_def)
next
  case (Inr rq')
  then obtain u where "rq' = rq\<lparr>rq_user := u\<rparr>" using kit_gateD(2) [OF assms(1)] by blast
  then show ?thesis using assms(2) Inr by (intro exI [of _ u]) (simp add: sign_in_gate_def oidc_layer_def Let_def)
qed

lemma machine_layer_ran:
  assumes "rs_ran (machine_layer m now next rq) = Some x"
  shows "(bearer rq = None \<and> rs_ran (next rq) = Some x) \<or>
    (rq_path rq = ''/health'' \<and> (\<exists>tok i. bearer rq = Some tok \<and> admit m tok = Some i \<and>
       rs_ran (next (rq\<lparr>rq_user := Some (synthetic_user m now i)\<rparr>)) = Some x))"
proof (cases "bearer rq")
  case None
  have "rs_ran (machine_layer m now next rq) = rs_ran (next rq)"
    unfolding machine_layer_def Let_def None option.case by (simp add: Let_def)
  then show ?thesis using assms None by simp
next
  case (Some tok)
  then show ?thesis using assms by (cases "admit m tok") (simp_all add: machine_layer_def split: if_splits)
qed

text \<open>With sign-in on, a handler runs on the kit's own routes or behind both gates.\<close>

lemma app_ran:
  assumes "sv_oidc sv = Some gate" "sv_machine sv = Some m" "kit_gate gate" "rs_ran (app sv ro run now rq) = Some (e, t)"
  shows "(e = SignIn (rq_path rq) \<and> ro_sign_in ro (rq_path rq)) \<or>
    (\<exists>v u. (v = rq_user rq \<and> bearer rq = None \<or>
         rq_path rq = ''/health'' \<and> (\<exists>tok i. bearer rq = Some tok \<and> admit m tok = Some i \<and> v = Some (synthetic_user m now i))) \<and>
       gate (rq\<lparr>rq_user := v\<rparr>) = Inr (rq\<lparr>rq_user := u\<rparr>) \<and> rs_ran (inner_app sv ro run (rq\<lparr>rq_user := u\<rparr>)) = Some (e, t))"
proof (cases "ro_sign_in ro (rq_path rq)")
  case True
  then show ?thesis using assms(1,4) by (simp add: app_def handled_def)
next
  case False
  then have "rs_ran (machine_layer m now (sign_in_gate gate (inner_app sv ro run)) rq) = Some (e, t)"
    using assms(1,2,4) by (simp add: app_def)
  from machine_layer_ran [OF this] show ?thesis
  proof (elim disjE conjE exE)
    assume "bearer rq = None" "rs_ran (sign_in_gate gate (inner_app sv ro run) rq) = Some (e, t)"
    from sign_in_gate_ran [OF assms(3) this(2)] this(1) obtain u where
      "bearer rq = None" "gate rq = Inr (rq\<lparr>rq_user := u\<rparr>)" "rs_ran (inner_app sv ro run (rq\<lparr>rq_user := u\<rparr>)) = Some (e, t)" by blast
    then show ?thesis by (intro disjI2 exI [of _ "rq_user rq"] exI [of _ u]) simp
  next
    fix tok i assume tok: "bearer rq = Some tok" "admit m tok = Some i" and h: "rq_path rq = ''/health''"
      "rs_ran (sign_in_gate gate (inner_app sv ro run) (rq\<lparr>rq_user := Some (synthetic_user m now i)\<rparr>)) = Some (e, t)"
    from sign_in_gate_ran [OF assms(3) h(2)] h(1) obtain u where
      "gate (rq\<lparr>rq_user := Some (synthetic_user m now i)\<rparr>) = Inr (rq\<lparr>rq_user := u\<rparr>)"
      "rs_ran (inner_app sv ro run (rq\<lparr>rq_user := u\<rparr>)) = Some (e, t)" by auto
    then show ?thesis using h(1) tok by (intro disjI2 exI [of _ "Some (synthetic_user m now i)"] exI [of _ u]) simp
  qed
qed

lemma inner_endpoint: "rs_ran (inner_app sv ro run rq) = Some (e, t) \<Longrightarrow> e = endpoint_of ro (rq_path rq)"
  by (auto simp: inner_app_def handled_def session_layer_def access_layer_def tenant_layer_def
      split: endpoint.splits option.splits sum.splits Mode.splits if_splits)

lemma serve_fields:
  "serve mode access oidc = Some sv \<Longrightarrow> sv_mode sv = mode \<and> sv_oidc sv = map_option fst oidc \<and>
     sv_machine sv = map_option snd oidc \<and> sv_access sv = (if oidc \<noteq> None then None else access)"
  by (auto simp: serve_def split: if_splits)

text \<open>
  C17. A request is served as the tenant its verified identity is bound to. When a handler of the authenticated API
  runs, it runs as the one configured tenant of a single-tenant process, and in a multi-tenant process as the
  database the registry gives for the signed-in session or, with sign-in off, for the verified Access token:
  no other part of the request can name a tenant, and without a bound identity no handler runs.
\<close>

theorem api_runs_as_bound_tenant:
  assumes "serve mode access oidc = Some sv" "\<And>gate m. oidc = Some (gate, m) \<Longrightarrow> kit_gate gate"
    "rs_ran (app sv ro run now rq) = Some (Api p, t)" "rq_identity rq = None"
  shows "case mode of SingleMode i _ \<Rightarrow> t = Some i
    | MultiMode k \<Rightarrow> \<exists>d. t = Some (Multi d) \<and>
        (case oidc of
           Some (gate, m) \<Rightarrow> \<exists>u. gate rq = Inr (rq\<lparr>rq_user := Some u\<rparr>) \<and> kn_resolve_session k u = Inr d
         | None \<Rightarrow> \<exists>verify v. access = Some verify \<and> verify rq = Inr v \<and> kn_resolve k v = Inr d)"
proof (cases oidc)
  case None
  note sv = serve_fields [OF assms(1)]
  have "rs_ran (inner_app sv ro run rq) = Some (Api p, t)" using assms(3) sv None by (simp add: app_def)
  then have "rs_ran (access_layer access (tenant_layer mode (handled run (Api p))) rq) = Some (Api p, t)"
    using inner_endpoint [of sv ro run rq "Api p" t, THEN sym] sv None by (simp add: inner_app_def)
  then show ?thesis
    using assms(4) None
    by (cases mode) (auto simp: access_layer_def tenant_layer_def handled_def resolve_def map_sum_Inr
        split: option.splits sum.splits)
next
  case (Some gm)
  obtain gate m where gm: "oidc = Some (gate, m)" using Some by (cases gm) simp
  have sv: "sv_mode sv = mode" "sv_oidc sv = Some gate" "sv_machine sv = Some m"
    using serve_fields [OF assms(1)] gm by simp_all
  from app_ran [OF sv(2,3) assms(2) [OF gm] assms(3)] obtain v u where
    b: "v = rq_user rq \<and> bearer rq = None \<or> rq_path rq = ''/health'' \<and>
        (\<exists>tok i. bearer rq = Some tok \<and> admit m tok = Some i \<and> v = Some (synthetic_user m now i))" and g: "gate (rq\<lparr>rq_user := v\<rparr>) = Inr (rq\<lparr>rq_user := u\<rparr>)"
    and ran: "rs_ran (inner_app sv ro run (rq\<lparr>rq_user := u\<rparr>)) = Some (Api p, t)" by blast
  from inner_endpoint [OF ran] have e: "endpoint_of ro (rq_path rq) = Api p" by simp
  then have "rq_path rq \<noteq> ''/health''" by (auto simp: endpoint_of_def)
  then have v: "gate rq = Inr (rq\<lparr>rq_user := u\<rparr>)" using b g by simp
  have "rs_ran (session_layer mode (handled run (Api p)) (rq\<lparr>rq_user := u\<rparr>)) = Some (Api p, t)"
    using ran e sv by (simp add: inner_app_def)
  then show ?thesis
    using v gm by (cases mode) (auto simp: session_layer_def handled_def resolve_session_def map_sum_Inr split: option.splits sum.splits)
qed

text \<open>
  C18. Sign-in fails closed. With sign-in configured, every handler but the kit's own sign-in routes runs for one
  of two reasons only. A request without a bearer token was let through by the kit's sign-in layer exactly as it
  came in, with a session in the required group, or on a path under \<open>/api/backup-status\<close>, or under \<open>/health\<close>
  while that is not closed; for an authenticated API handler there is a session. A request with a bearer token is
  on \<open>/health\<close> itself, reaches the health handler, and its token was verified: on every other path, and without a
  configured verifier, a bearer token runs nothing. No handler ever runs on a user the server made up for a
  request without such a token.
\<close>

theorem sign_in_fails_closed:
  assumes "serve mode access (Some (gate, m)) = Some sv" "kit_gate gate"
    "config_from from_lookup get names = Inr (Some bypass)" "from_lookup get = Inr []" "guarded bypass (mc_group m) gate"
    "rq_user rq = None" "rs_ran (app sv ro run now rq) = Some (e, t)"
  shows "e = SignIn (rq_path rq) \<and> ro_sign_in ro (rq_path rq) \<or>
    (case bearer rq of
       None \<Rightarrow> \<exists>u. gate rq = Inr (rq\<lparr>rq_user := u\<rparr>) \<and>
         (in_session (mc_group m) (rq\<lparr>rq_user := u\<rparr>) \<or>
          starts_with ''/api/backup-status'' (rq_path rq) \<or>
          (starts_with ''/health'' (rq_path rq) \<and> flag_from get HEALTH_FLAG = Inr False)) \<and>
         (case e of Api _ \<Rightarrow> u \<noteq> None | _ \<Rightarrow> True)
     | Some token \<Rightarrow> rq_path rq = ''/health'' \<and> e = Health \<and>
         (\<exists>verify. mc_verifier m = Some verify \<and> verify token \<noteq> None))"
proof (cases "e = SignIn (rq_path rq) \<and> ro_sign_in ro (rq_path rq)")
  case False
  have sv: "sv_mode sv = mode" "sv_oidc sv = Some gate" "sv_machine sv = Some m"
    using serve_fields [OF assms(1)] by simp_all
  from app_ran [OF sv(2,3) assms(2,7)] False obtain v u where
    b: "v = rq_user rq \<and> bearer rq = None \<or> rq_path rq = ''/health'' \<and>
        (\<exists>tok i. bearer rq = Some tok \<and> admit m tok = Some i \<and> v = Some (synthetic_user m now i))"
    and g: "gate (rq\<lparr>rq_user := v\<rparr>) = Inr (rq\<lparr>rq_user := u\<rparr>)"
    and ran: "rs_ran (inner_app sv ro run (rq\<lparr>rq_user := u\<rparr>)) = Some (e, t)" by blast
  have e: "e = endpoint_of ro (rq_path rq)" using inner_endpoint [OF ran] by simp
  show ?thesis
  proof (cases "bearer rq")
    case (Some token)
    then have h: "rq_path rq = ''/health''" "admit m token \<noteq> None" using b by auto
    then have "e = Health" using e by (simp add: endpoint_of_def)
    then show ?thesis using h Some by (auto simp: admit_def split: option.splits)
  next
    case None
    then have same: "rq\<lparr>rq_user := v\<rparr> = rq" using b by simp
    have "list_ex (\<lambda>b. starts_with b (rq_path rq)) bypass \<or> in_session (mc_group m) (rq\<lparr>rq_user := u\<rparr>)"
      using guardedD [OF assms(5) g] by simp
    moreover have "list_ex (\<lambda>b. starts_with b (rq_path rq)) bypass \<Longrightarrow>
        starts_with ''/api/backup-status'' (rq_path rq) \<or>
        (starts_with ''/health'' (rq_path rq) \<and> flag_from get HEALTH_FLAG = Inr False)"
      using assms(3,4) unfolding config_from_def
      by (auto simp: and_then_Inr MACHINE_PATHS_def split: if_splits)
    moreover have "case e of Api _ \<Rightarrow> u \<noteq> None | _ \<Rightarrow> True"
    proof (cases e)
      case (Api p)
      show ?thesis using ran Api e sv by (cases u) (simp_all add: inner_app_def session_layer_def)
    qed simp_all
    ultimately show ?thesis using g None unfolding same by auto
  qed
qed simp

section \<open>Connections\<close>

text \<open>What may be in the map of open connections: in a single-tenant process, the one database.\<close>

definition owns :: "(string \<Rightarrow> DbError + 'c) \<Rightarrow> (string \<Rightarrow> DbError + 'c) \<Rightarrow> Mode \<Rightarrow> TenantId \<Rightarrow> 'c \<Rightarrow> bool" where
  "owns opened kernel_conn mode i c \<longleftrightarrow> (case mode of
     SingleMode only db \<Rightarrow> i = only \<and> opened db = Inr c
   | MultiMode _ \<Rightarrow> (case i of Multi d \<Rightarrow> kernel_conn d = Inr c | Single _ \<Rightarrow> False))"

definition isolated_map :: "(string \<Rightarrow> DbError + 'c) \<Rightarrow> (string \<Rightarrow> DbError + 'c) \<Rightarrow> Mode \<Rightarrow> 'c connections \<Rightarrow> bool" where
  "isolated_map opened kernel_conn mode conns \<longleftrightarrow> (\<forall>i c. conns i = Some c \<longrightarrow> owns opened kernel_conn mode i c)"

lemma isolated_empty: "isolated_map opened kernel_conn mode Map.empty"
  by (simp add: isolated_map_def)

lemma connection_isolated:
  assumes "connection shown opened kernel_conn mode i conns = (r, conns')" "isolated_map opened kernel_conn mode conns"
  shows "isolated_map opened kernel_conn mode conns' \<and> (case r of Inl _ \<Rightarrow> True | Inr c \<Rightarrow> owns opened kernel_conn mode i c)"
proof (cases mode)
  case (MultiMode k)
  then show ?thesis using assms by (cases i) (auto simp: connection_def owns_def split: sum.splits)
next
  case (SingleMode only db)
  show ?thesis
  proof (cases "i = only")
    case False
    then show ?thesis using assms SingleMode by (cases i) (auto simp: connection_def)
  next
    case True
    show ?thesis
    proof (cases "conns i")
      case (Some c)
      then have "owns opened kernel_conn mode i c" using assms(2) unfolding isolated_map_def by blast
      then show ?thesis using assms True Some SingleMode by (cases i) (auto simp: connection_def)
    next
      case None
      show ?thesis
      proof (cases "opened db")
        case (Inl e)
        then have "r = Inl e" "conns' = conns" using assms(1) True None SingleMode by (cases i; simp add: connection_def)+
        then show ?thesis using assms(2) by simp
      next
        case (Inr c)
        then have o: "owns opened kernel_conn mode i c" using True SingleMode by (simp add: owns_def)
        have "r = Inr c" "conns' = conns(i \<mapsto> c)" using assms(1) True None SingleMode Inr by (cases i; simp add: connection_def)+
        then show ?thesis using o assms(2) unfolding isolated_map_def by simp
      qed
    qed
  qed
qed

text \<open>One database job after the other, each with the request it belongs to.\<close>

fun jobs ::
  "(TenantId \<Rightarrow> string) \<Rightarrow> (string \<Rightarrow> DbError + 'c) \<Rightarrow> (string \<Rightarrow> DbError + 'c) \<Rightarrow> Mode \<Rightarrow>
   (request \<times> ('c \<Rightarrow> DbError + 'v)) list \<Rightarrow> 'c connections \<Rightarrow> (nat + 'v) list \<times> 'c connections" where
  "jobs shown opened kernel_conn mode [] conns = ([], conns)"
| "jobs shown opened kernel_conn mode ((rq, f) # js) conns =
     (let (r, conns) = blocking shown opened kernel_conn mode rq f conns;
          (rs, conns) = jobs shown opened kernel_conn mode js conns
      in (r # rs, conns))"

text \<open>
  C19. Jobs run on their own database. Whatever database jobs a process runs, from whatever requests and in whatever
  order, each one that yields a result ran on the connection of the tenant of its own request: in a
  single-tenant process the database it was started with, in a multi-tenant one the database the kernel opens
  for that tenant's id; a request without a tenant runs nothing.
\<close>

theorem jobs_on_own_database:
  assumes "jobs shown opened kernel_conn mode js Map.empty = (rs, conns')" "n < length js" "rs ! n = Inr v"
  shows "\<exists>i c. rq_tenant (fst (js ! n)) = Some i \<and> owns opened kernel_conn mode i c \<and> snd (js ! n) c = Inr v"
proof -
  have "isolated_map opened kernel_conn mode conns \<Longrightarrow> jobs shown opened kernel_conn mode js conns = (rs, conns') \<Longrightarrow>
      n < length js \<Longrightarrow> rs ! n = Inr v \<Longrightarrow>
      \<exists>i c. rq_tenant (fst (js ! n)) = Some i \<and> owns opened kernel_conn mode i c \<and> snd (js ! n) c = Inr v"
    for js conns conns' rs n
  proof (induction js arbitrary: conns conns' rs n)
    case (Cons j js)
    obtain rq f where j: "j = (rq, f)" by (rule prod.exhaust)
    obtain r conns1 where b: "blocking shown opened kernel_conn mode rq f conns = (r, conns1)" by (rule prod.exhaust)
    obtain rs' conns2 where js: "jobs shown opened kernel_conn mode js conns1 = (rs', conns2)" by (rule prod.exhaust)
    have rs: "rs = r # rs'" using Cons.prems(2) by (simp add: j b js)
    have here: "isolated_map opened kernel_conn mode conns1 \<and>
        (case r of Inl _ \<Rightarrow> True | Inr v \<Rightarrow> \<exists>i c. rq_tenant rq = Some i \<and> owns opened kernel_conn mode i c \<and> f c = Inr v)"
    proof (cases "rq_tenant rq")
      case None
      then show ?thesis using b Cons.prems(1) by (auto simp: blocking_def)
    next
      case (Some i)
      obtain q conns3 where c: "connection shown opened kernel_conn mode i conns = (q, conns3)" by (rule prod.exhaust)
      note iso = connection_isolated [OF c Cons.prems(1)]
      show ?thesis
      proof (cases q)
        case (Inl e)
        then show ?thesis using b c iso Some by (auto simp: blocking_def)
      next
        case (Inr d)
        then have "r = map_sum status_of_error id (f d)" "conns1 = conns3" using b c Some by (simp_all add: blocking_def)
        then show ?thesis using iso Inr Some by (cases "f d") auto
      qed
    qed
    show ?case
    proof (cases n)
      case 0
      then show ?thesis using here Cons.prems(4) by (simp add: rs j)
    next
      case (Suc k)
      then show ?thesis using Cons.IH [OF conjunct1 [OF here] js, of k] Cons.prems(3,4) by (simp add: rs)
    qed
  qed simp
  from this [OF isolated_empty assms] show ?thesis .
qed

section \<open>Sample servers\<close>

definition sample_gate :: oidc where
  "sample_gate rq =
     (case map_of (rq_headers rq) ''cookie'' of
        Some s \<Rightarrow> Inr (rq\<lparr>rq_user := Some \<lparr>su_sub = s, su_email = s, su_name = s, su_groups = [''poke-users''], su_exp = 0\<rparr>\<rparr>)
      | None \<Rightarrow> (case rq_user rq of
          Some u \<Rightarrow> if ''poke-users'' \<in> set (su_groups u) then Inr rq else Inl (refused 403)
        | None \<Rightarrow> if list_ex (\<lambda>b. starts_with b (rq_path rq)) MACHINE_PATHS then Inr rq else Inl (refused 302)))"

definition sample_kernel :: kernel where
  "sample_kernel = \<lparr>kn_resolve = (\<lambda>_. Inl (403, [])),
     kn_resolve_session = (\<lambda>u. if su_email u = ''ash'' then Inr ''db-1'' else Inl (403, ''not bound'')), kn_no_identity = 500\<rparr>"

definition sample_machine :: Machine where
  "sample_machine = \<lparr>mc_health_closed = False, mc_group = ''poke-users'', mc_verifier = None\<rparr>"

definition sample_request :: request where
  "sample_request = \<lparr>rq_path = ''/api/collection'', rq_headers = [(''cookie'', ''ash'')], rq_user = None,
     rq_identity = None, rq_tenant = None\<rparr>"

definition sample_server :: server where
  "sample_server = \<lparr>sv_mode = MultiMode sample_kernel, sv_access = None, sv_oidc = Some sample_gate, sv_machine = Some sample_machine\<rparr>"

definition sample_routes :: routes where
  "sample_routes = \<lparr>ro_api = (\<lambda>_. True), ro_sign_in = (\<lambda>p. p = ''/auth/callback'')\<rparr>"

lemma sample_serve: "serve (MultiMode sample_kernel) None (Some (sample_gate, sample_machine)) = Some sample_server"
  by (simp add: serve_def check_multitenant_access_def sample_server_def)

lemma sample_kit_gate: "kit_gate sample_gate"
  unfolding kit_gate_def
proof
  fix rq :: request
  have same: "\<exists>u. rq = rq\<lparr>rq_user := u\<rparr>" by (rule exI [of _ "rq_user rq"]) simp
  show "case sample_gate rq of Inl r \<Rightarrow> rs_ran r = None | Inr rq' \<Rightarrow> \<exists>u. rq' = rq\<lparr>rq_user := u\<rparr>"
  proof (cases "map_of (rq_headers rq) ''cookie''")
    case (Some c)
    then show ?thesis by (simp add: sample_gate_def) (rule exI, rule refl)
  next
    case None
    then show ?thesis using same by (cases "rq_user rq") (simp_all add: sample_gate_def)
  qed
qed

lemma sample_guarded: "guarded MACHINE_PATHS ''poke-users'' sample_gate"
  unfolding guarded_def sample_gate_def in_session_def by (auto split: option.split)

lemma sample_run: "rs_ran (app sample_server sample_routes (\<lambda>_ _. 200) 0 sample_request) = Some (Api ''/api/collection'', Some (Multi ''db-1''))"
  by code_simp

lemma api_runs_as_bound_tenant_witness:
  "\<exists>d. Some (Multi ''db-1'') = Some (Multi d) \<and>
     (\<exists>u. sample_gate sample_request = Inr (sample_request\<lparr>rq_user := Some u\<rparr>) \<and> kn_resolve_session sample_kernel u = Inr d)"
  using api_runs_as_bound_tenant [OF sample_serve _ sample_run] sample_kit_gate by (simp add: sample_request_def)

lemma sign_in_fails_closed_witness:
  "\<exists>u. sample_gate sample_request = Inr (sample_request\<lparr>rq_user := u\<rparr>) \<and>
     in_session ''poke-users'' (sample_request\<lparr>rq_user := u\<rparr>) \<and> u \<noteq> None"
proof -
  have cfg: "config_from (\<lambda>_. Inr []) (\<lambda>_. None) [''PKDUMP_OIDC_ISSUER''] = Inr (Some MACHINE_PATHS)"
    by code_simp
  have "guarded MACHINE_PATHS (mc_group sample_machine) sample_gate" using sample_guarded by (simp add: sample_machine_def)
  from sign_in_fails_closed [OF sample_serve sample_kit_gate cfg refl this _ sample_run]
  show ?thesis by (simp add: sample_request_def sample_machine_def starts_with_def bearer_def)
qed

lemma jobs_on_own_database_witness:
  "\<exists>i c. Some (Multi ''db-1'') = Some i \<and>
     owns (\<lambda>_. Inl (Invalid [])) (\<lambda>d. Inr (d @ ''.sqlite'')) (MultiMode sample_kernel) i c \<and> (Inr c :: DbError + string) = Inr ''db-1.sqlite''"
  using jobs_on_own_database [of "\<lambda>_. []" "\<lambda>_. Inl (Invalid [])" "\<lambda>d. Inr (d @ ''.sqlite'')" "MultiMode sample_kernel"
    "[(sample_request\<lparr>rq_tenant := Some (Multi ''db-1'')\<rparr>, Inr)]" "[Inr ''db-1.sqlite'']" Map.empty 0 "''db-1.sqlite''"]
  by (simp add: blocking_def connection_def)

end
