(* ===== verification/Fetch_Policy.thy ===== *)
theory Fetch_Policy
  imports Text
begin

text \<open>
  How hard a fetch tries (\<open>pkdump-ingest/src/retry.rs\<close>, \<open>landing.rs\<close>, \<open>upstream.rs\<close> and the paging of
  \<open>pokemontcg.rs\<close>). The network is a parameter: the outcome of the n-th attempt, or the answer to the n-th
  page. A duration is its number of nanoseconds.
\<close>

section \<open>The retry budget\<close>

definition DURATION_MAX :: nat where
  "DURATION_MAX = (2 ^ 64 - 1) * 1000000000 + 999999999"

definition from_millis :: "nat \<Rightarrow> nat" where
  "from_millis ms = ms * 1000000"

definition DEFAULT_ATTEMPTS :: u32 where
  "DEFAULT_ATTEMPTS = 4"

definition DEFAULT_BASE_DELAY :: nat where
  "DEFAULT_BASE_DELAY = from_millis 500"

definition DEFAULT_MAX_DELAY :: nat where
  "DEFAULT_MAX_DELAY = from_millis 8000"

record RetryPolicy =
  rp_attempts :: u32
  rp_base_delay :: nat
  rp_max_delay :: nat

definition policy_new :: "u32 \<Rightarrow> nat \<Rightarrow> RetryPolicy" where
  "policy_new attempts base = \<lparr>rp_attempts = max attempts 1, rp_base_delay = base, rp_max_delay = DEFAULT_MAX_DELAY\<rparr>"

definition policy_none :: RetryPolicy where
  "policy_none = policy_new 1 0"

definition env_u32 :: "(string \<Rightarrow> string option) \<Rightarrow> string \<Rightarrow> u32 option" where
  "env_u32 env name = (case env name of Some v \<Rightarrow> map_option of_nat (parse_u32 (trim v)) | None \<Rightarrow> None)"

definition policy_from_env :: "(string \<Rightarrow> string option) \<Rightarrow> RetryPolicy" where
  "policy_from_env env =
     policy_new (case env_u32 env ''PKDUMP_HTTP_RETRY_ATTEMPTS'' of Some n \<Rightarrow> n | None \<Rightarrow> DEFAULT_ATTEMPTS)
       (case env_u32 env ''PKDUMP_HTTP_RETRY_BASE_MS'' of Some ms \<Rightarrow> from_millis (unat ms) | None \<Rightarrow> DEFAULT_BASE_DELAY)"

text \<open>\<open>saturating_sub\<close> and \<open>saturating_mul\<close> written out.\<close>

definition delay_after :: "RetryPolicy \<Rightarrow> u32 \<Rightarrow> nat" where
  "delay_after p attempt =
     (let shift = min (unat attempt - 1) 16 in
      min (min (rp_base_delay p * 2 ^ shift) DURATION_MAX) (rp_max_delay p))"

definition should_retry :: "RetryPolicy \<Rightarrow> u32 \<Rightarrow> bool" where
  "should_retry p attempt \<longleftrightarrow> attempt < rp_attempts p"

definition status_is_retryable :: "nat \<Rightarrow> bool" where
  "status_is_retryable status \<longleftrightarrow> status = 429 \<or> 500 \<le> status \<and> status < 600"

section \<open>One fetch\<close>

datatype 'e transport =
    NoResponse string 'e                \<comment> \<open>connect, TLS or timeout\<close>
  | Response nat "(string \<times> 'e) + string"    \<comment> \<open>the status, and the body or why it stopped arriving\<close>

record Fetched =
  fe_status :: nat
  fe_body :: string

record 'e Failed =
  fa_status :: "nat option"
  fa_retryable :: bool
  fa_text :: string
  fa_error :: 'e

text \<open>\<open>status_error\<close> is reqwest's error for a 4xx or 5xx status.\<close>

definition attempt :: "(nat \<Rightarrow> string \<times> 'e) \<Rightarrow> 'e transport \<Rightarrow> 'e Failed + Fetched" where
  "attempt status_error t = (case t of
     NoResponse text e \<Rightarrow> Inl \<lparr>fa_status = None, fa_retryable = True, fa_text = text, fa_error = e\<rparr>
   | Response status body \<Rightarrow>
       if 400 \<le> status \<and> status < 600
       then (case status_error status of (text, e) \<Rightarrow>
               Inl \<lparr>fa_status = Some status, fa_retryable = status_is_retryable status, fa_text = text, fa_error = e\<rparr>)
       else (case body of
               Inl (text, e) \<Rightarrow> Inl \<lparr>fa_status = Some status, fa_retryable = True, fa_text = text, fa_error = e\<rparr>
             | Inr b \<Rightarrow> Inr \<lparr>fe_status = status, fe_body = b\<rparr>))"

text \<open>What a fetch did: the sleeps, the failures noted in the manifest, the bodies landed.\<close>

record fetch_log =
  fl_sleeps :: "nat list"
  fl_failures :: "(nat option \<times> string) list"
  fl_landed :: "(nat \<times> string) list"

definition no_log :: fetch_log where
  "no_log = \<lparr>fl_sleeps = [], fl_failures = [], fl_landed = []\<rparr>"

record 'e wire =
  wi_replay :: "(string \<Rightarrow> 'e + string option) option"
  wi_missing :: "string \<Rightarrow> 'e"
  wi_landing :: "(nat \<Rightarrow> string \<Rightarrow> 'e option) option"     \<comment> \<open>an error when the part could not be written\<close>
  wi_retry :: RetryPolicy

lemma next_attempt: "should_retry p n \<Longrightarrow> unat (n + 1) = Suc (unat n)"
proof -
  assume "should_retry p n"
  then have "unat n < unat (rp_attempts p)" by (simp add: should_retry_def word_less_nat_alt)
  moreover have "unat (rp_attempts p) < 2 ^ 32" using unsigned_less [of "rp_attempts p"] by simp
  ultimately have "unat n + 1 < 2 ^ 32" by simp
  then show ?thesis by (simp add: unat_word_ariths)
qed

function fetch_loop ::
  "RetryPolicy \<Rightarrow> (u32 \<Rightarrow> 'e Failed + Fetched) \<Rightarrow> bool \<Rightarrow> u32 \<Rightarrow> fetch_log \<Rightarrow> ('e + Fetched) \<times> fetch_log" where
  "fetch_loop p net landing n log = (case net n of
     Inr f \<Rightarrow> (Inr f, log)
   | Inl failed \<Rightarrow>
       if \<not> (fa_retryable failed \<and> should_retry p n)
       then (Inl (fa_error failed),
             if landing then log\<lparr>fl_failures := fl_failures log @ [(fa_status failed, fa_text failed)]\<rparr> else log)
       else fetch_loop p net landing (n + 1) (log\<lparr>fl_sleeps := fl_sleeps log @ [delay_after p n]\<rparr>))"
  by pat_completeness auto

termination
proof (relation "measure (\<lambda>(p, _, _, n, _). unat (rp_attempts p) - unat n)")
  fix p :: RetryPolicy and net :: "u32 \<Rightarrow> 'e Failed + Fetched" and landing n log and failed :: "'e Failed"
  assume "net n = Inl failed" "\<not> \<not> (fa_retryable failed \<and> should_retry p n)"
  then have "should_retry p n" by simp
  then show "((p, net, landing, n + 1, log\<lparr>fl_sleeps := fl_sleeps log @ [delay_after p n]\<rparr>), (p, net, landing, n, log)) \<in>
      measure (\<lambda>(p, _, _, n, _). unat (rp_attempts p) - unat n)"
    using next_attempt [of p n] by (simp add: should_retry_def word_less_nat_alt)
qed simp

declare fetch_loop.simps [simp del]

definition fetch_bytes ::
  "'e wire \<Rightarrow> string \<Rightarrow> 'e option \<Rightarrow> (u32 \<Rightarrow> 'e Failed + Fetched) \<Rightarrow> ('e + string) \<times> fetch_log" where
  "fetch_bytes w url unclonable net =
     (case wi_replay w of
        Some replay \<Rightarrow> (case replay url of
            Inl e \<Rightarrow> (Inl e, no_log)
          | Inr (Some body) \<Rightarrow> (Inr body, no_log)
          | Inr None \<Rightarrow> (Inl (wi_missing w url), no_log))
      | None \<Rightarrow> (case unclonable of
          Some e \<Rightarrow> (Inl e, no_log)
        | None \<Rightarrow> (case fetch_loop (wi_retry w) net (wi_landing w \<noteq> None) 1 no_log of
            (Inl e, log) \<Rightarrow> (Inl e, log)
          | (Inr f, log) \<Rightarrow> (case wi_landing w of
              None \<Rightarrow> (Inr (fe_body f), log)
            | Some land \<Rightarrow> (case land (fe_status f) (fe_body f) of
                Some e \<Rightarrow> (Inl e, log)
              | None \<Rightarrow> (Inr (fe_body f), log\<lparr>fl_landed := [(fe_status f, fe_body f)]\<rparr>))))))"

section \<open>Pages\<close>

definition PAGE_SIZE :: nat where
  "PAGE_SIZE = 250"

text \<open>The loop over pages ends at the first page that is not full; an upstream that never sends one keeps it going.\<close>

partial_function (option) fetch_pages :: "(nat \<Rightarrow> 'e + 'a list) \<Rightarrow> nat \<Rightarrow> 'a list \<Rightarrow> ('e + 'a list) option" where
  "fetch_pages page n out = (case page n of
     Inl e \<Rightarrow> Some (Inl e)
   | Inr batch \<Rightarrow> if length batch = PAGE_SIZE then fetch_pages page (n + 1) (out @ batch) else Some (Inr (out @ batch)))"

declare fetch_pages.simps [code]

definition fetch_sets :: "(nat \<Rightarrow> 'e + 'a list) \<Rightarrow> ('e + 'a list) option" where
  "fetch_sets page = fetch_pages page 1 []"

text \<open>\<open>page\<close> takes the query and the page number.\<close>

definition fetch_cards_for_set :: "(string \<Rightarrow> nat \<Rightarrow> 'e + 'a list) \<Rightarrow> string \<Rightarrow> ('e + 'a list) option" where
  "fetch_cards_for_set page set_id = fetch_pages (page (''set.id:'' @ set_id)) 1 []"

text \<open>\<open>trim_end_matches('/')\<close>.\<close>

definition base_url :: "(string \<Rightarrow> string option) \<Rightarrow> string \<Rightarrow> string \<Rightarrow> string" where
  "base_url env var live = (case env var of
     Some v \<Rightarrow> if trim v \<noteq> [] then rev (dropWhile (\<lambda>c. c = CHR ''/'') (rev (trim v))) else live
   | None \<Rightarrow> live)"

section \<open>Bounds of the schedule\<close>

lemma delay_bounded: "delay_after p n \<le> rp_max_delay p"
  by (simp add: delay_after_def Let_def)

lemma delay_monotone: "m \<le> n \<Longrightarrow> delay_after p m \<le> delay_after p n"
proof -
  assume "m \<le> n"
  then have "min (unat m - 1) 16 \<le> min (unat n - 1) 16" by (simp add: word_le_nat_alt)
  then have "(2::nat) ^ min (unat m - 1) 16 \<le> 2 ^ min (unat n - 1) 16" by (intro power_increasing) simp_all
  then have "rp_base_delay p * 2 ^ min (unat m - 1) 16 \<le> rp_base_delay p * 2 ^ min (unat n - 1) 16" by (rule mult_left_mono) simp
  then show ?thesis unfolding delay_after_def Let_def by (intro min.mono) simp_all
qed

definition schedule :: "RetryPolicy \<Rightarrow> nat \<Rightarrow> nat list" where
  "schedule p n = map (\<lambda>k. delay_after p (of_nat k)) [1..<n]"

lemma schedule_Suc: "1 \<le> n \<Longrightarrow> schedule p (Suc n) = schedule p n @ [delay_after p (of_nat n)]"
  by (simp add: schedule_def)

lemma default_schedule: "schedule (policy_from_env (\<lambda>_. None)) 4 = map from_millis [500, 1000, 2000]"
proof -
  have "[1..<4] = [1, 2, 3 :: nat]" by (simp add: upt_rec)
  then show ?thesis
    by (simp add: schedule_def policy_from_env_def policy_new_def env_u32_def DEFAULT_BASE_DELAY_def
        DEFAULT_MAX_DELAY_def from_millis_def delay_after_def DURATION_MAX_def Let_def min_def)
qed

lemma schedule_total: "sum_list (schedule p n) \<le> (n - 1) * rp_max_delay p"
proof (induction n)
  case (Suc n)
  show ?case
  proof (cases n)
    case (Suc m)
    then have "schedule p (Suc n) = schedule p n @ [delay_after p (of_nat n)]" by (intro schedule_Suc) simp
    then show ?thesis using Suc.IH delay_bounded [of p "of_nat n"] Suc by (simp add: add_mono)
  qed (simp add: schedule_def)
qed (simp add: schedule_def)

text \<open>What the loop makes of the attempts from the n-th on.\<close>

definition stops_at :: "RetryPolicy \<Rightarrow> (u32 \<Rightarrow> 'e Failed + Fetched) \<Rightarrow> nat \<Rightarrow> nat \<Rightarrow> bool" where
  "stops_at p net n k \<longleftrightarrow> n \<le> k \<and> k \<le> unat (rp_attempts p) \<and>
     (\<forall>j \<in> {n..<k}. \<exists>f. net (of_nat j) = Inl f \<and> fa_retryable f) \<and>
     (case net (of_nat k) of Inr _ \<Rightarrow> True | Inl f \<Rightarrow> \<not> fa_retryable f \<or> k = unat (rp_attempts p))"

lemma fetch_loop_stops:
  assumes "1 \<le> unat n" "unat n \<le> unat (rp_attempts p)"
  shows "\<exists>k. stops_at p net (unat n) k \<and>
    fetch_loop p net landing n log =
      (let log' = log\<lparr>fl_sleeps := fl_sleeps log @ map (\<lambda>j. delay_after p (of_nat j)) [unat n..<k]\<rparr> in
       case net (of_nat k) of
         Inr f \<Rightarrow> (Inr f, log')
       | Inl f \<Rightarrow> (Inl (fa_error f),
           if landing then log'\<lparr>fl_failures := fl_failures log @ [(fa_status f, fa_text f)]\<rparr> else log'))"
  using assms
proof (induction p net landing n log rule: fetch_loop.induct)
  case (1 p net landing n log)
  have n: "of_nat (unat n) = n" by simp
  show ?case
  proof (cases "net n")
    case (Inr f)
    then show ?thesis using 1(2,3)
      by (intro exI [of _ "unat n"]) (simp add: fetch_loop.simps [of p net landing n] stops_at_def)
  next
    case (Inl f)
    show ?thesis
    proof (cases "fa_retryable f \<and> should_retry p n")
      case False
      then have "\<not> fa_retryable f \<or> unat n = unat (rp_attempts p)"
        using 1(3) by (auto simp: should_retry_def word_less_nat_alt)
      then show ?thesis using 1(2,3) Inl False
        by (intro exI [of _ "unat n"]) (auto simp: fetch_loop.simps [of p net landing n] stops_at_def)
    next
      case True
      then have s: "unat (n + 1) = Suc (unat n)" using next_attempt by blast
      have le: "Suc (unat n) \<le> unat (rp_attempts p)" using True by (simp add: should_retry_def word_less_nat_alt)
      let ?log = "log\<lparr>fl_sleeps := fl_sleeps log @ [delay_after p n]\<rparr>"
      from 1(1) [OF Inl] True s le obtain k where k: "stops_at p net (unat (n + 1)) k"
        "fetch_loop p net landing (n + 1) ?log =
          (let log' = ?log\<lparr>fl_sleeps := fl_sleeps ?log @ map (\<lambda>j. delay_after p (of_nat j)) [unat (n + 1)..<k]\<rparr> in
           case net (of_nat k) of
             Inr f \<Rightarrow> (Inr f, log')
           | Inl f \<Rightarrow> (Inl (fa_error f),
               if landing then log'\<lparr>fl_failures := fl_failures ?log @ [(fa_status f, fa_text f)]\<rparr> else log'))" by auto
      have lt: "unat n < k" using k(1) s by (simp add: stops_at_def)
      have "{unat n..<k} = insert (unat n) {unat (n + 1)..<k}" using lt s by auto
      then have st: "stops_at p net (unat n) k" using k(1) Inl True lt n unfolding stops_at_def s by auto
      have "[unat n..<k] = unat n # [unat (n + 1)..<k]" using lt s by (simp add: upt_conv_Cons)
      then have "fetch_loop p net landing n log =
          (let log' = log\<lparr>fl_sleeps := fl_sleeps log @ map (\<lambda>j. delay_after p (of_nat j)) [unat n..<k]\<rparr> in
           case net (of_nat k) of
             Inr f \<Rightarrow> (Inr f, log')
           | Inl f \<Rightarrow> (Inl (fa_error f),
               if landing then log'\<lparr>fl_failures := fl_failures log @ [(fa_status f, fa_text f)]\<rparr> else log'))"
        using Inl True k(2) by (cases "net (of_nat k)") (simp_all add: fetch_loop.simps [of p net landing n] Let_def)
      then show ?thesis using st by blast
    qed
  qed
qed

text \<open>
  C20. A fetch stays within its budget and tells what happened. It makes at most the policy's attempts, one more
  only after a failure that says nothing about the request, and sleeps between them along the schedule, so
  never longer than the cap per wait nor than the cap times the retries in all. It answers what the last attempt
  answered: a body, which is landed exactly once and leaves no failure on record, or the last error, which
  is recorded exactly once and lands nothing.
\<close>

theorem fetch_bytes_bounded:
  assumes "wi_replay w = None" "wi_retry w = policy_new a b"
  shows "\<exists>k r log. fetch_bytes w url None net = (r, log) \<and> stops_at (wi_retry w) net 1 k \<and>
    fl_sleeps log = schedule (wi_retry w) k \<and>
    sum_list (fl_sleeps log) \<le> (unat (rp_attempts (wi_retry w)) - 1) * rp_max_delay (wi_retry w) \<and>
    (case net (of_nat k) of
       Inl f \<Rightarrow> r = Inl (fa_error f) \<and> fl_landed log = [] \<and>
         fl_failures log = (if wi_landing w = None then [] else [(fa_status f, fa_text f)])
     | Inr f \<Rightarrow> fl_failures log = [] \<and>
         (case wi_landing w of
            None \<Rightarrow> r = Inr (fe_body f) \<and> fl_landed log = []
          | Some land \<Rightarrow> (case land (fe_status f) (fe_body f) of
              None \<Rightarrow> r = Inr (fe_body f) \<and> fl_landed log = [(fe_status f, fe_body f)]
            | Some e \<Rightarrow> r = Inl e \<and> fl_landed log = [])))"
proof -
  let ?p = "wi_retry w"
  have "1 \<le> rp_attempts ?p" by (simp add: assms(2) policy_new_def)
  then have one: "unat (1 :: u32) \<le> unat (rp_attempts ?p)" by (simp add: word_le_nat_alt)
  have log0: "fl_sleeps no_log = []" "fl_failures no_log = []" by (simp_all add: no_log_def)
  obtain k where k: "stops_at ?p net 1 k"
    "fetch_loop ?p net (wi_landing w \<noteq> None) 1 no_log =
      (let log' = no_log\<lparr>fl_sleeps := schedule ?p k\<rparr> in
       case net (of_nat k) of
         Inr f \<Rightarrow> (Inr f, log')
       | Inl f \<Rightarrow> (Inl (fa_error f),
           if wi_landing w \<noteq> None then log'\<lparr>fl_failures := [(fa_status f, fa_text f)]\<rparr> else log'))"
    using fetch_loop_stops [of 1 ?p net "wi_landing w \<noteq> None" no_log, OF _ one]
    unfolding unsigned_1 log0 append_Nil schedule_def [symmetric] by blast
  have "k \<le> unat (rp_attempts ?p)" using k(1) by (simp add: stops_at_def)
  then have total: "sum_list (schedule ?p k) \<le> (unat (rp_attempts ?p) - 1) * rp_max_delay ?p"
    by (intro order_trans [OF schedule_total] mult_right_mono) simp_all
  obtain r log where run: "fetch_bytes w url None net = (r, log)" by (rule prod.exhaust)
  show ?thesis
  proof (cases "net (of_nat k)")
    case (Inl f)
    then show ?thesis using run k(2) total k(1) assms(1)
      by (intro exI [of _ k] exI [of _ r] exI [of _ log]) (auto simp: fetch_bytes_def no_log_def Let_def)
  next
    case (Inr f)
    show ?thesis
    proof (cases "wi_landing w")
      case None
      then show ?thesis using run k(2) total k(1) assms(1) Inr
        by (intro exI [of _ k] exI [of _ r] exI [of _ log]) (auto simp: fetch_bytes_def no_log_def Let_def)
    next
      case (Some land)
      then show ?thesis using run k(2) total k(1) assms(1) Inr
        by (cases "land (fe_status f) (fe_body f)";
            intro exI [of _ k] exI [of _ r] exI [of _ log]) (auto simp: fetch_bytes_def no_log_def Let_def)
    qed
  qed
qed

definition flaky :: "u32 \<Rightarrow> string Failed + Fetched" where
  "flaky n = attempt (\<lambda>_. (''502 Bad Gateway'', ''bad response'')) (if n < 3 then Response 502 (Inr []) else Response 200 (Inr ''body''))"

lemma fetch_bytes_bounded_witness:
  "fetch_bytes \<lparr>wi_replay = None, wi_missing = id, wi_landing = Some (\<lambda>_ _. None), wi_retry = policy_new 4 DEFAULT_BASE_DELAY\<rparr>
     ''/sets'' None flaky = (Inr ''body'', \<lparr>fl_sleeps = map from_millis [500, 1000], fl_failures = [], fl_landed = [(200, ''body'')]\<rparr>)"
  (is "fetch_bytes ?w _ _ _ = _")
proof -
  have net: "flaky 1 = Inl \<lparr>fa_status = Some 502, fa_retryable = True, fa_text = ''502 Bad Gateway'', fa_error = ''bad response''\<rparr>"
    "flaky 2 = Inl \<lparr>fa_status = Some 502, fa_retryable = True, fa_text = ''502 Bad Gateway'', fa_error = ''bad response''\<rparr>"
    "flaky 3 = Inr \<lparr>fe_status = 200, fe_body = ''body''\<rparr>"
    by (simp_all add: flaky_def attempt_def status_is_retryable_def)
  define w where "w = ?w"
  have w: "wi_replay w = None" "wi_retry w = policy_new 4 DEFAULT_BASE_DELAY" "wi_landing w = Some (\<lambda>_ _. None)"
    by (simp_all add: w_def)
  from fetch_bytes_bounded [OF w(1,2), of "''/sets''" flaky] obtain k r log where
    k: "fetch_bytes w ''/sets'' None flaky = (r, log)" "stops_at (wi_retry w) flaky 1 k"
      "fl_sleeps log = schedule (wi_retry w) k" and
    last: "case flaky (of_nat k) of
       Inl f \<Rightarrow> r = Inl (fa_error f) \<and> fl_landed log = [] \<and>
         fl_failures log = (if wi_landing w = None then [] else [(fa_status f, fa_text f)])
     | Inr f \<Rightarrow> fl_failures log = [] \<and>
         (case wi_landing w of
            None \<Rightarrow> r = Inr (fe_body f) \<and> fl_landed log = []
          | Some land \<Rightarrow> (case land (fe_status f) (fe_body f) of
              None \<Rightarrow> r = Inr (fe_body f) \<and> fl_landed log = [(fe_status f, fe_body f)]
            | Some e \<Rightarrow> r = Inl e \<and> fl_landed log = []))" by blast
  have "k = 1 \<or> k = 2 \<or> k = 3 \<or> k = 4" using k(2) by (auto simp: stops_at_def policy_new_def w(2))
  moreover have "k \<noteq> 1" "k \<noteq> 2" using k(2) net by (auto simp: stops_at_def policy_new_def w(2))
  moreover have "k \<noteq> 4"
  proof
    assume "k = 4"
    then have "\<exists>f. flaky (of_nat 3) = Inl f" using k(2) unfolding stops_at_def by (elim conjE) (drule bspec [of _ _ 3], auto)
    then show False using net(3) by simp
  qed
  ultimately have "k = 3" by blast
  then have "r = Inr ''body''" "fl_failures log = []" "fl_landed log = [(200, ''body'')]" using last net(3) w(3) by simp_all
  moreover have "fl_sleeps log = map from_millis [500, 1000]"
  proof -
    have "[1..<3] = [1, 2 :: nat]" by (simp add: upt_rec)
    then show ?thesis using k(3) \<open>k = 3\<close>
      by (simp add: w(2) schedule_def policy_new_def DEFAULT_BASE_DELAY_def DEFAULT_MAX_DELAY_def from_millis_def
          delay_after_def DURATION_MAX_def Let_def min_def)
  qed
  ultimately show ?thesis using k(1) by (simp add: w_def)
qed

section \<open>Complete pages\<close>

text \<open>
  C21. Paging is complete and ends: when upstream serves a list in pages of the agreed size, the loop returns
  exactly that list, also when its length is a multiple of the page size and the last page is empty.
\<close>

theorem fetch_sets_complete:
  assumes "\<And>n. page (Suc n) = Inr (take PAGE_SIZE (drop (n * PAGE_SIZE) xs))"
  shows "fetch_sets page = Some (Inr xs)"
proof -
  have "fetch_pages page (Suc n) out = Some (Inr (out @ drop (n * PAGE_SIZE) xs))" for n out
  proof (induction "length xs - n * PAGE_SIZE" arbitrary: n out rule: less_induct)
    case less
    let ?rest = "drop (n * PAGE_SIZE) xs"
    show ?case
    proof (cases "length ?rest < PAGE_SIZE")
      case True
      then show ?thesis by (subst fetch_pages.simps) (simp add: assms)
    next
      case False
      then have "length (take PAGE_SIZE ?rest) = PAGE_SIZE" by simp
      moreover have "length xs - Suc n * PAGE_SIZE < length xs - n * PAGE_SIZE" using False by (simp add: PAGE_SIZE_def)
      then have "fetch_pages page (Suc (Suc n)) (out @ take PAGE_SIZE ?rest) =
          Some (Inr ((out @ take PAGE_SIZE ?rest) @ drop (Suc n * PAGE_SIZE) xs))" by (rule less)
      moreover have "take PAGE_SIZE ?rest @ drop (Suc n * PAGE_SIZE) xs = ?rest"
        by (metis add.commute append_take_drop_id drop_drop mult_Suc)
      ultimately show ?thesis by (subst fetch_pages.simps) (simp add: assms)
    qed
  qed
  from this [of 0 "[]"] show ?thesis by (simp add: fetch_sets_def)
qed

lemma fetch_sets_complete_witness:
  "fetch_sets (\<lambda>n. Inr (take PAGE_SIZE (drop ((n - 1) * PAGE_SIZE) [0..<250])) :: string + nat list) = Some (Inr [0..<250])"
  by (rule fetch_sets_complete) simp

end
