(* ===== verification/Catalog_Sources.thy ===== *)
theory Catalog_Sources
  imports Printing_Expansion Json_Backup
begin

text \<open>
  The sources of sets and cards: the bulk corpus and the tail of pokemontcg.io (\<open>pokemon_tcg_data.rs\<close> with the
  types of \<open>pokemontcg.rs\<close>), sets discovered from unbridged groups (\<open>set_discovery.rs\<close>), the hand-listed promos
  (\<open>standalone_promos.rs\<close>), the set symbols (\<open>symbols.rs\<close>) and the coverage report (\<open>coverage.rs\<close>). Files and
  responses come in parsed; \<open>js\<close> is serde_json's rendering of a value, the image pipeline is a parameter.
\<close>

section \<open>Ingest steps that read files and responses\<close>

datatype IngestError =
    IngestHttp string | IngestJson string | IngestIo string | IngestSqlite SqliteError | IngestDb DbError
  | IngestLake string | BadResponse string

type_synonym ('s, 'a) job = "'s \<Rightarrow> (IngestError + 'a) \<times> 's"

type_synonym 'a ingest = "(shared_db, 'a) job"

definition ingest_ret :: "'a \<Rightarrow> ('s, 'a) job" where
  "ingest_ret v = (\<lambda>s. (Inr v, s))"

definition received :: "IngestError + 'a \<Rightarrow> ('s, 'a) job" where
  "received r = (\<lambda>s. (r, s))"

definition looked_up :: "('s \<Rightarrow> 'a) \<Rightarrow> ('s, 'a) job" where
  "looked_up f = (\<lambda>s. (Inr (f s), s))"

definition ingest_bind :: "('s, 'a) job \<Rightarrow> ('a \<Rightarrow> ('s, 'b) job) \<Rightarrow> ('s, 'b) job" where
  "ingest_bind m k = (\<lambda>s. case m s of (Inl e, s') \<Rightarrow> (Inl e, s') | (Inr v, s') \<Rightarrow> k v s')"

definition ingest_error :: "DbError \<Rightarrow> IngestError" where
  "ingest_error e = (case e of Sqlite s \<Rightarrow> IngestSqlite s | _ \<Rightarrow> IngestDb e)"

definition stored :: "('s, 'a) act \<Rightarrow> ('s, 'a) job" where
  "stored m = (\<lambda>s. case m s of (Inl e, s') \<Rightarrow> (Inl (ingest_error e), s') | (Inr v, s') \<Rightarrow> (Inr v, s'))"

definition all_or_nothing :: "('s, 'a) job \<Rightarrow> ('s, 'a) job" where
  "all_or_nothing m = (\<lambda>s. case m s of (Inl e, _) \<Rightarrow> (Inl e, s) | (Inr v, s') \<Rightarrow> (Inr v, s'))"

fun total_of :: "'x list \<Rightarrow> ('x \<Rightarrow> ('s, nat) job) \<Rightarrow> ('s, nat) job" where
  "total_of [] f = ingest_ret 0"
| "total_of (x # xs) f = ingest_bind (f x) (\<lambda>n. ingest_bind (total_of xs f) (\<lambda>m. ingest_ret (n + m)))"

text \<open>What a job does to the state, whether it succeeds or fails.\<close>

definition settles :: "('s \<Rightarrow> 's \<Rightarrow> bool) \<Rightarrow> ('s, 'a) job \<Rightarrow> bool" where
  "settles R m \<longleftrightarrow> (\<forall>s. R s (snd (m s)))"

lemma settlesI: "(\<And>s r s'. m s = (r, s') \<Longrightarrow> R s s') \<Longrightarrow> settles R m"
  unfolding settles_def by (metis prod.collapse)

lemma settlesD: "settles R m \<Longrightarrow> m s = (r, s') \<Longrightarrow> R s s'"
  unfolding settles_def by (metis snd_conv)

context step_relation begin

lemma settles_ret: "settles R (ingest_ret v)"
  by (simp add: settles_def ingest_ret_def R_refl)

lemma settles_received: "settles R (received r)"
  by (simp add: settles_def received_def R_refl)

lemma settles_looked_up: "settles R (looked_up f)"
  by (simp add: settles_def looked_up_def R_refl)

lemma settles_bind: "settles R m \<Longrightarrow> (\<And>v. settles R (k v)) \<Longrightarrow> settles R (ingest_bind m k)"
proof (rule settlesI)
  fix s r s' assume m: "settles R m" and k: "\<And>v. settles R (k v)" and run: "ingest_bind m k s = (r, s')"
  obtain q t where q: "m s = (q, t)" by force
  have "R s t" by (rule settlesD [OF m q])
  then show "R s s'" using run q settlesD [OF k] R_trans by (cases q) (auto simp: ingest_bind_def)
qed

lemma settles_stored: "always R m \<Longrightarrow> settles R (stored m)"
proof (rule settlesI)
  fix s r s' assume m: "always R m" and run: "stored m s = (r, s')"
  obtain q t where q: "m s = (q, t)" by force
  show "R s s'" using alwaysD [OF m q] run q by (cases q) (auto simp: stored_def)
qed

lemma settles_all_or_nothing: "settles R m \<Longrightarrow> settles R (all_or_nothing m)"
proof (rule settlesI)
  fix s r s' assume m: "settles R m" and run: "all_or_nothing m s = (r, s')"
  obtain q t where q: "m s = (q, t)" by force
  show "R s s'" using settlesD [OF m q] run q R_refl by (cases q) (auto simp: all_or_nothing_def)
qed

lemma settles_total_of: "(\<And>x. settles R (f x)) \<Longrightarrow> settles R (total_of xs f)"
  by (induction xs) (simp_all add: settles_ret settles_bind)

end

section \<open>Sets and cards of pokemontcg.io\<close>

record PokemonTcgSet =
  ps_id :: string
  ps_name :: string
  ps_series :: string
  ps_printed_total :: "int option"
  ps_total :: "int option"
  ps_ptcgo :: "string option"
  ps_release_date :: "string option"
  ps_symbol :: "string option"
  ps_logo :: "string option"

record PokemonTcgCard =
  pc_id :: string
  pc_name :: string
  pc_supertype :: "string option"
  pc_subtypes :: "string list option"
  pc_hp :: "string option"
  pc_types :: "string list option"
  pc_rarity :: "string option"
  pc_artist :: "string option"
  pc_flavor_text :: "string option"
  pc_number :: string
  pc_regulation_mark :: "string option"
  pc_pokedex :: "int list option"
  pc_attacks :: "json option"
  pc_abilities :: "json option"
  pc_weaknesses :: "json option"
  pc_resistances :: "json option"
  pc_retreat_cost :: "string list option"
  pc_legalities :: "json option"
  pc_image_small :: "string option"
  pc_image_large :: "string option"
  pc_raw :: json

record UpstreamCardCorrection =
  uc_card :: string
  uc_number :: "string option"

text \<open>The registry is collected into a map, so the last entry of a card counts.\<close>

definition correction_for :: "UpstreamCardCorrection list \<Rightarrow> string \<Rightarrow> string option" where
  "correction_for cs i =
     (case map_of (rev (map (\<lambda>c. (uc_card c, uc_number c)) cs)) i of Some n \<Rightarrow> n | None \<Rightarrow> None)"

definition apply_upstream_card_correction :: "UpstreamCardCorrection list \<Rightarrow> PokemonTcgCard \<Rightarrow> PokemonTcgCard" where
  "apply_upstream_card_correction cs c =
     (case correction_for cs (pc_id c) of Some n \<Rightarrow> c\<lparr>pc_number := n\<rparr> | None \<Rightarrow> c)"

definition ptcg_set_row :: "string \<Rightarrow> PokemonTcgSet \<Rightarrow> SharedSet" where
  "ptcg_set_row now s =
     \<lparr>st_code = ps_id s, st_ptcgo = ps_ptcgo s, st_name = ps_name s, st_symbol_url = ps_symbol s,
      ss_series = ps_series s, ss_total = ps_total s, ss_printed_total = ps_printed_total s,
      ss_release_date = ps_release_date s, ss_logo_url = ps_logo s, ss_fetched_at = Some now,
      ss_discovered_from = None, ss_covered = True\<rparr>"

definition set_upstream :: "SharedSet \<Rightarrow> SharedSet \<Rightarrow> SharedSet" where
  "set_upstream new old =
     new\<lparr>st_code := st_code old, ss_discovered_from := ss_discovered_from old, ss_covered := ss_covered old\<rparr>"

definition upsert_set :: "string \<Rightarrow> PokemonTcgSet \<Rightarrow> shared_db \<Rightarrow> shared_db" where
  "upsert_set now s sd = sd\<lparr>sd_sets := upsert st_code set_upstream (ptcg_set_row now s) (sd_sets sd)\<rparr>"

definition json_int :: "int \<Rightarrow> json" where
  "json_int i = JNumber (if i < 0 then NegInt i else PosInt (nat i))"

definition arr_s :: "(json \<Rightarrow> string) \<Rightarrow> string list option \<Rightarrow> string option" where
  "arr_s js v = map_option (\<lambda>x. js (JArray (map JString x))) v"

definition arr_i :: "(json \<Rightarrow> string) \<Rightarrow> int list option \<Rightarrow> string option" where
  "arr_i js v = map_option (\<lambda>x. js (JArray (map json_int x))) v"

definition ptcg_card_row :: "(json \<Rightarrow> string) \<Rightarrow> string \<Rightarrow> PokemonTcgCard \<Rightarrow> SharedCard" where
  "ptcg_card_row js set_code c =
     \<lparr>cd_id = pc_id c, cd_set = set_code, cd_number = pc_number c, cd_name = pc_name c, cd_rarity = pc_rarity c,
      cd_artist = pc_artist c, cd_supertype = pc_supertype c, cd_subtypes = arr_s js (pc_subtypes c),
      cd_types = arr_s js (pc_types c), cd_attacks = map_option js (pc_attacks c),
      cd_image_small = pc_image_small c, cd_image_large = pc_image_large c,
      cd_hp = Option.bind (pc_hp c) parse_i64, sc_number_sortable = number_sortable (pc_number c),
      sc_flavor_text = pc_flavor_text c, sc_abilities = map_option js (pc_abilities c),
      sc_weaknesses = map_option js (pc_weaknesses c), sc_resistances = map_option js (pc_resistances c),
      sc_retreat_cost = arr_s js (pc_retreat_cost c), sc_regulation_mark = pc_regulation_mark c,
      sc_pokedex = arr_i js (pc_pokedex c), sc_legalities = map_option js (pc_legalities c),
      sc_raw_json = Some (js (pc_raw c))\<rparr>"

definition set_card :: "SharedCard \<Rightarrow> SharedCard \<Rightarrow> SharedCard" where
  "set_card new old = new\<lparr>cd_id := cd_id old\<rparr>"

definition upsert_card ::
  "(json \<Rightarrow> string) \<Rightarrow> UpstreamCardCorrection list \<Rightarrow> string \<Rightarrow> PokemonTcgCard \<Rightarrow> unit shared_act" where
  "upsert_card js cs set_code c = (\<lambda>sd.
     if has_set sd set_code
     then (Inr (), sd\<lparr>sd_cards := upsert cd_id set_card
            (ptcg_card_row js set_code (apply_upstream_card_correction cs c)) (sd_cards sd)\<rparr>)
     else (Inl (Sqlite ForeignKeyViolation), sd))"

text \<open>\<open>card_file\<close> is None where the corpus has no file for the set, and the error of a file that does not parse.\<close>

record ImportStats =
  is_sets :: nat
  is_cards :: nat

definition import_set_cards ::
  "(json \<Rightarrow> string) \<Rightarrow> UpstreamCardCorrection list \<Rightarrow> string \<Rightarrow> PokemonTcgCard list \<Rightarrow> nat ingest" where
  "import_set_cards js cs set_code cards =
     stored (bind_act (for_each cards (upsert_card js cs set_code)) (\<lambda>_. ret (length cards)))"

definition import_from_dir ::
  "(json \<Rightarrow> string) \<Rightarrow> UpstreamCardCorrection list \<Rightarrow> IngestError + PokemonTcgSet list \<Rightarrow>
   (string \<Rightarrow> (IngestError + PokemonTcgCard list) option) \<Rightarrow> string \<Rightarrow> ImportStats ingest" where
  "import_from_dir js cs sets_file card_file now =
     ingest_bind (received sets_file) (\<lambda>sets.
     all_or_nothing (
       ingest_bind (total_of sets (\<lambda>set.
           ingest_bind (stored (change (upsert_set now set))) (\<lambda>_.
           case card_file (ps_id set) of
             None \<Rightarrow> ingest_ret 0
           | Some file \<Rightarrow> ingest_bind (received file) (import_set_cards js cs (ps_id set))))) (\<lambda>n.
       ingest_ret \<lparr>is_sets = length sets, is_cards = n\<rparr>)))"

section \<open>Corrections of rows already ingested\<close>

record PendingCorrection =
  pd_card :: string
  pd_current_number :: string
  pd_current_sortable :: int
  pd_number :: string
  pd_sortable :: int

definition pending_of :: "UpstreamCardCorrection list \<Rightarrow> shared_db \<Rightarrow> string \<Rightarrow> PendingCorrection option" where
  "pending_of cs sd i =
     (case (correction_for cs i, List.find (\<lambda>c. cd_id c = i) (sd_cards sd)) of
        (Some n, Some row) \<Rightarrow>
          if cd_number row = n \<and> sc_number_sortable row = number_sortable n then None
          else Some \<lparr>pd_card = i, pd_current_number = cd_number row, pd_current_sortable = sc_number_sortable row,
                     pd_number = n, pd_sortable = number_sortable n\<rparr>
      | _ \<Rightarrow> None)"

definition pending_corrections :: "UpstreamCardCorrection list \<Rightarrow> shared_db \<Rightarrow> PendingCorrection list" where
  "pending_corrections cs sd = sort_key pd_card (List.map_filter (pending_of cs sd) (remdups (map uc_card cs)))"

definition set_number :: "PendingCorrection \<Rightarrow> SharedCard list \<Rightarrow> SharedCard list" where
  "set_number p = update_where (\<lambda>c. cd_id c = pd_card p) (\<lambda>c. c\<lparr>cd_number := pd_number p, sc_number_sortable := pd_sortable p\<rparr>)"

definition apply_corrections_to_db :: "UpstreamCardCorrection list \<Rightarrow> PendingCorrection list shared_act" where
  "apply_corrections_to_db cs = (\<lambda>sd.
     let pending = pending_corrections cs sd in (Inr pending, sd\<lparr>sd_cards := fold set_number pending (sd_cards sd)\<rparr>))"

section \<open>Sets discovered from unbridged groups\<close>

record DiscoveryPolicy =
  dp_min_numbers :: nat
  dp_deny :: "int list"
  dp_series :: "(string \<times> string) list"

record DiscoveredSet =
  ds_group :: int
  ds_set :: string
  ds_name :: string
  ds_series :: string
  ds_cards :: nat

definition parse_numbered_group_name :: "string \<Rightarrow> (string \<times> nat \<times> string) option" where
  "parse_numbered_group_name raw = (case split_once '':'' raw of
     None \<Rightarrow> None
   | Some (h, r) \<Rightarrow>
       (let head = trim h; rest = trim r;
            era = takeWhile (\<lambda>c. \<not> is_digit c) head; digits = drop (length era) head in
        if rest = [] \<or> digits = [] \<or> era = [] \<or> length era > 5 \<or> \<not> list_all is_alpha era \<or>
           length digits > 2 \<or> \<not> list_all is_digit digits then None
        else Some (to_ascii_lowercase era, digits_val digits, rest)))"

definition derive_set_code :: "string \<Rightarrow> nat \<Rightarrow> string" where
  "derive_set_code era number = era @ show_nat number"

definition release_date_from_published_on :: "string option \<Rightarrow> string option" where
  "release_date_from_published_on published = (case published of
     None \<Rightarrow> None
   | Some p \<Rightarrow>
       (let date = hd (split_char (CHR ''T'') p) in
        case split_char (CHR ''-'') date of
          [y, m, d] \<Rightarrow>
            if length y = 4 \<and> length m = 2 \<and> length d = 2 \<and> list_all is_digit (filter (\<lambda>c. c \<noteq> CHR ''-'') date)
            then Some (y @ ''/'' @ m @ ''/'' @ d) else None
        | _ \<Rightarrow> None))"

text \<open>The statement has no \<open>ORDER BY\<close>; the groups are read by their integer key, the order of the table.\<close>

definition siblings :: "shared_db \<Rightarrow> string \<Rightarrow> (nat \<times> string) list" where
  "siblings sd era = concat (map (\<lambda>g. case tg_set_code g of
       Some code \<Rightarrow>
         if japanese code then []
         else (case parse_numbered_group_name (tg_name g) of
             Some (e, number, _) \<Rightarrow>
               if e = era then map (\<lambda>s. (number, ss_series s)) (filter (\<lambda>s. st_code s = code) (sd_sets sd)) else []
           | None \<Rightarrow> [])
     | None \<Rightarrow> []) (sort_key tg_id (sd_groups sd)))"

definition series_from_sibling_group :: "shared_db \<Rightarrow> string \<Rightarrow> string option" where
  "series_from_sibling_group sd era =
     map_option snd (fold (\<lambda>(n, series) best. case best of
         None \<Rightarrow> Some (n, series) | Some (m, _) \<Rightarrow> if m < n then Some (n, series) else best) (siblings sd era) None)"

definition unique_card_numbers :: "shared_db \<Rightarrow> int \<Rightarrow> nat" where
  "unique_card_numbers sd group_id =
     length (remdups (map normalize_collector_number
       (List.map_filter tp_number (filter (\<lambda>p. tp_group p = group_id) (sd_products sd)))))"

text \<open>A set code may be taken when it is free or this group discovered it before.\<close>

definition adoptable :: "shared_db \<Rightarrow> string \<Rightarrow> int \<Rightarrow> bool" where
  "adoptable sd code group_id = (case List.find (\<lambda>s. st_code s = code) (sd_sets sd) of
     None \<Rightarrow> True | Some s \<Rightarrow> ss_discovered_from s = Some group_id)"

definition discovered_set :: "string \<Rightarrow> string option \<Rightarrow> string \<Rightarrow> string \<Rightarrow> string option \<Rightarrow> int \<Rightarrow> SharedSet" where
  "discovered_set code ptcgo name series released group_id =
     \<lparr>st_code = code, st_ptcgo = ptcgo, st_name = name, st_symbol_url = None, ss_series = series, ss_total = None,
      ss_printed_total = None, ss_release_date = released, ss_logo_url = None, ss_fetched_at = None,
      ss_discovered_from = Some group_id, ss_covered = True\<rparr>"

text \<open>Only a row this group discovered and upstream has not stamped is refreshed.\<close>

definition heal_discovered :: "SharedSet \<Rightarrow> SharedSet list \<Rightarrow> SharedSet list" where
  "heal_discovered new =
     update_where (\<lambda>r. st_code r = st_code new \<and> ss_discovered_from r = ss_discovered_from new \<and> ss_fetched_at r = None)
       (\<lambda>r. r\<lparr>st_ptcgo := st_ptcgo new, st_name := st_name new, ss_series := ss_series new,
              ss_release_date := ss_release_date new\<rparr>)"

definition link_group :: "int \<Rightarrow> string \<Rightarrow> TcgGroupRow list \<Rightarrow> TcgGroupRow list" where
  "link_group group_id code =
     update_where (\<lambda>g. tg_id g = group_id) (\<lambda>g. g\<lparr>tg_set_code := Some code, tg_role := ''primary''\<rparr>)"

definition discovery_series :: "DiscoveryPolicy \<Rightarrow> shared_db \<Rightarrow> string \<Rightarrow> string" where
  "discovery_series policy sd era = (case map_of (dp_series policy) era of
     Some s \<Rightarrow> s
   | None \<Rightarrow> (case series_from_sibling_group sd era of Some s \<Rightarrow> s | None \<Rightarrow> to_ascii_uppercase era))"

definition discover_group :: "DiscoveryPolicy \<Rightarrow> TcgGroupRow \<Rightarrow> DiscoveredSet option shared_act" where
  "discover_group policy g = (\<lambda>sd.
     case (if tg_id g \<in> set (dp_deny policy) then None else parse_numbered_group_name (tg_name g)) of
       None \<Rightarrow> (Inr None, sd)
     | Some (era, number, name) \<Rightarrow>
         let code = derive_set_code era number in
         if unique_card_numbers sd (tg_id g) < dp_min_numbers policy \<or> \<not> adoptable sd code (tg_id g) then (Inr None, sd)
         else
           let series = discovery_series policy sd era;
               new = discovered_set code (nonempty (tg_abbreviation g)) name series
                 (release_date_from_published_on (tg_published_on g)) (tg_id g)
           in ingest_tx (
             bind_act (change (\<lambda>sd. sd\<lparr>sd_sets := heal_discovered new (insert_or_ignore st_code new (sd_sets sd))\<rparr>)) (\<lambda>_.
             bind_act (change (\<lambda>sd. sd\<lparr>sd_groups := link_group (tg_id g) code (sd_groups sd)\<rparr>)) (\<lambda>_.
             bind_act (synthesize_cards_for_group (tg_id g) code None) (\<lambda>n.
             ret (Some \<lparr>ds_group = tg_id g, ds_set = code, ds_name = name, ds_series = series, ds_cards = n\<rparr>))))) sd)"

fun discover_groups :: "DiscoveryPolicy \<Rightarrow> TcgGroupRow list \<Rightarrow> DiscoveredSet list shared_act" where
  "discover_groups policy [] = ret []"
| "discover_groups policy (g # gs) =
     bind_act (discover_group policy g) (\<lambda>d.
     bind_act (discover_groups policy gs) (\<lambda>ds. ret (case d of Some x \<Rightarrow> x # ds | None \<Rightarrow> ds)))"

definition discover_new_sets :: "DiscoveryPolicy \<Rightarrow> DiscoveredSet list shared_act" where
  "discover_new_sets policy =
     bind_act (query (\<lambda>sd. sort_key tg_id (filter (\<lambda>g. tg_set_code g = None) (sd_groups sd)))) (discover_groups policy)"

section \<open>Hand-listed promos\<close>

record StandalonePromo =
  sm_product :: int
  sm_number :: string
  sm_name :: string
  sm_variant :: string

definition promo_set :: SharedSet where
  "promo_set =
     \<lparr>st_code = PROMO_SET_CODE, st_ptcgo = None, st_name = ''Miscellaneous Promos'', st_symbol_url = None,
      ss_series = ''Other'', ss_total = None, ss_printed_total = None, ss_release_date = Some ''2000/07/18'',
      ss_logo_url = None, ss_fetched_at = None, ss_discovered_from = None, ss_covered = True\<rparr>"

definition put_promo :: "StandalonePromo \<Rightarrow> nat shared_act" where
  "put_promo p = (\<lambda>sd.
     let product = List.find (\<lambda>r. tp_id r = sm_product p) (sd_products sd);
         image = Option.bind product tp_image_url;
         rarity = Option.bind product tp_rarity;
         sub_type = sub_type_first sd (sm_product p);
         card_id = PROMO_SET_CODE @ ''-'' @ sm_number p
     in bind_act (insert_card ((blank_card card_id PROMO_SET_CODE (sm_number p) (sm_name p))
          \<lparr>cd_rarity := rarity, cd_image_small := image, cd_image_large := image\<rparr>)) (\<lambda>n.
        bind_act (change (\<lambda>sd. sd\<lparr>sd_cards := heal_card card_id (sm_name p) rarity image (sd_cards sd)\<rparr>)) (\<lambda>_.
        bind_act (change (ensure_code (sm_variant p))) (\<lambda>_.
        bind_act (put_printing (new_printing card_id (sm_variant p) sub_type (Some (sm_product p)))) (\<lambda>_. ret n)))) sd)"

definition synthesize_standalone_promos :: "StandalonePromo list \<Rightarrow> nat shared_act" where
  "synthesize_standalone_promos promos = (\<lambda>sd.
     let present = filter (\<lambda>p. list_ex (\<lambda>r. tp_id r = sm_product p) (sd_products sd)) promos in
     if present = [] then (Inr 0, sd)
     else ingest_tx (bind_act (change (\<lambda>sd. sd\<lparr>sd_sets := insert_or_ignore st_code promo_set (sd_sets sd)\<rparr>)) (\<lambda>_.
            sum_each present put_promo)) sd)"

section \<open>Set symbols and coverage\<close>

text \<open>
  \<open>sy_cached\<close> says whether the file of a set is there and was made from the given URL (the column
  \<open>symbol_source_url\<close>); \<open>sy_fetch\<close> downloads, trims and resizes; \<open>sy_write\<close> stores the file.
\<close>

record symbol_env =
  sy_cached :: "string \<Rightarrow> string \<Rightarrow> bool"
  sy_fetch :: "string \<Rightarrow> IngestError + string"
  sy_write :: "string \<Rightarrow> string \<Rightarrow> IngestError option"

record NormalizeStats =
  ns_processed :: nat
  ns_cached :: nat
  ns_overrides :: nat
  ns_failed :: nat

definition local_symbol :: "string \<Rightarrow> shared_db \<Rightarrow> shared_db" where
  "local_symbol code sd = sd\<lparr>sd_sets := update_where (\<lambda>s. st_code s = code)
     (\<lambda>s. s\<lparr>st_symbol_url := Some (''/sym/'' @ code @ ''.png'')\<rparr>) (sd_sets sd)\<rparr>"

fun normalize_symbols :: "symbol_env \<Rightarrow> (string \<times> string option) list \<Rightarrow> NormalizeStats \<Rightarrow> NormalizeStats ingest" where
  "normalize_symbols env [] st = ingest_ret st"
| "normalize_symbols env ((code, url) # rows) st = (\<lambda>sd. case url of
     None \<Rightarrow> normalize_symbols env rows st sd
   | Some u \<Rightarrow>
       if \<not> starts_with ''http'' u then normalize_symbols env rows (st\<lparr>ns_overrides := ns_overrides st + 1\<rparr>) sd
       else if sy_cached env code u
       then normalize_symbols env rows (st\<lparr>ns_cached := ns_cached st + 1\<rparr>) (local_symbol code sd)
       else (case sy_fetch env u of
           Inl _ \<Rightarrow> normalize_symbols env rows (st\<lparr>ns_failed := ns_failed st + 1\<rparr>) sd
         | Inr bytes \<Rightarrow> (case sy_write env code bytes of
               Some e \<Rightarrow> (Inl e, sd)
             | None \<Rightarrow> normalize_symbols env rows (st\<lparr>ns_processed := ns_processed st + 1\<rparr>) (local_symbol code sd))))"

definition normalize_all_symbols :: "symbol_env \<Rightarrow> NormalizeStats ingest" where
  "normalize_all_symbols env = (\<lambda>sd.
     normalize_symbols env (map (\<lambda>s. (st_code s, st_symbol_url s)) (sd_sets sd))
       \<lparr>ns_processed = 0, ns_cached = 0, ns_overrides = 0, ns_failed = 0\<rparr> sd)"

record UnmappedSet =
  um_set :: string
  um_name :: string
  um_printings :: nat
  um_groups :: "int list"

definition live_printings :: "shared_db \<Rightarrow> string \<Rightarrow> PrintingRow list" where
  "live_printings sd code =
     filter (\<lambda>p. pg_deprecated_at p = None \<and> list_ex (\<lambda>c. cd_id c = pg_card p \<and> cd_set c = code) (sd_cards sd)) (sd_printings sd)"

definition unmapped_sets :: "shared_db \<Rightarrow> UnmappedSet list" where
  "unmapped_sets sd =
     sort_key (\<lambda>u. (- int (um_printings u), um_set u))
       (map (\<lambda>s. \<lparr>um_set = st_code s, um_name = st_name s, um_printings = length (live_printings sd (st_code s)),
                   um_groups = map tg_id (filter (\<lambda>g. tg_set_code g = Some (st_code s)) (sort_key tg_id (sd_groups sd)))\<rparr>)
         (filter (\<lambda>s. live_printings sd (st_code s) \<noteq> [] \<and>
            list_all (\<lambda>p. pg_product p = None) (live_printings sd (st_code s))) (sd_sets sd)))"

definition report_unmapped_sets :: "shared_db \<Rightarrow> nat" where
  "report_unmapped_sets sd = length (unmapped_sets sd)"

section \<open>Upserts of sets and cards\<close>

interpretation upstream_sets: upsertable st_code set_upstream "\<lambda>s. ss_discovered_from s = None \<and> ss_covered s"
  by unfold_locales (simp_all add: set_upstream_def)

interpretation upstream_cards: replacing cd_id set_card "\<lambda>_. True"
  by unfold_locales (simp_all add: set_card_def)

end
