(* ===== verification/Japan.thy ===== *)
theory Japan
  imports Catalog_Sources
begin

text \<open>
  The Japanese catalog, built from the price feed alone (\<open>pkdump-ingest/src/japan.rs\<close>): a set per group under
  the \<open>jp-\<close> prefix, its products, its cards with what the products' extended data says of them, and the pass
  over the whole category. Strings are UTF-8 bytes; \<open>js\<close> is serde_json's rendering of a value.
\<close>

section \<open>Groups and series\<close>

definition jp_set_code :: "int \<Rightarrow> string" where
  "jp_set_code group_id = SET_CODE_PREFIX @ show_int group_id"

definition digits_of :: "string \<Rightarrow> string" where
  "digits_of date = filter is_digit date"

record SeriesMap =
  sm_undated :: string
  sm_eras :: "(string \<times> string) list"     \<comment> \<open>ascending by date\<close>
  sm_overrides :: "(string \<times> string) list"

definition load_series :: "string \<Rightarrow> (string \<times> string) list \<Rightarrow> (string \<times> string) list \<Rightarrow> SeriesMap" where
  "load_series undated eras overrides =
     \<lparr>sm_undated = undated, sm_eras = sort_key fst (map (\<lambda>(from, series). (digits_of from, series)) eras),
      sm_overrides = rev overrides\<rparr>"

definition series_for :: "SeriesMap \<Rightarrow> string \<Rightarrow> string option \<Rightarrow> string" where
  "series_for m name released = (case map_of (sm_overrides m) name of
     Some series \<Rightarrow> series
   | None \<Rightarrow> (case released of
       None \<Rightarrow> sm_undated m
     | Some d \<Rightarrow> (case List.find (\<lambda>(from, _). from \<le> digits_of d) (rev (sm_eras m)) of
         Some (_, series) \<Rightarrow> series | None \<Rightarrow> sm_undated m)))"

definition jp_release_date :: "string option \<Rightarrow> string option" where
  "jp_release_date published = (case Option.bind published (split_once ''T'') of
     None \<Rightarrow> None
   | Some (date, time) \<Rightarrow>
       if time \<noteq> ''00:00:00'' \<or> length date \<noteq> 10 then None
       else Some (map (\<lambda>c. if c = CHR ''-'' then CHR ''/'' else c) date))"

definition jp_set_row :: "SeriesMap \<Rightarrow> TcgGroup \<Rightarrow> SharedSet" where
  "jp_set_row m g =
     \<lparr>st_code = jp_set_code (g_id g), st_ptcgo = nonempty (g_abbreviation g), st_name = g_name g,
      st_symbol_url = None, ss_series = series_for m (g_name g) (jp_release_date (g_published_on g)),
      ss_total = None, ss_printed_total = None, ss_release_date = jp_release_date (g_published_on g),
      ss_logo_url = None, ss_fetched_at = None, ss_discovered_from = None, ss_covered = False\<rparr>"

definition set_jp_set :: "SharedSet \<Rightarrow> SharedSet \<Rightarrow> SharedSet" where
  "set_jp_set new old =
     old\<lparr>st_ptcgo := st_ptcgo new, st_name := st_name new, ss_series := ss_series new,
         ss_release_date := ss_release_date new, ss_covered := ss_covered new\<rparr>"

definition jp_group_row :: "string \<Rightarrow> TcgGroup \<Rightarrow> TcgGroupRow" where
  "jp_group_row now g =
     \<lparr>tg_id = g_id g, tg_set_code = Some (jp_set_code (g_id g)), tg_name = g_name g,
      tg_abbreviation = nonempty (g_abbreviation g), tg_published_on = g_published_on g, tg_fetched_at = now,
      tg_role = ''primary''\<rparr>"

definition put_jp_group :: "SeriesMap \<Rightarrow> string \<Rightarrow> TcgGroup \<Rightarrow> shared_db \<Rightarrow> shared_db" where
  "put_jp_group m now g sd =
     sd\<lparr>sd_sets := upsert st_code set_jp_set (jp_set_row m g) (sd_sets sd),
        sd_groups := upsert tg_id set_group (jp_group_row now g) (sd_groups sd)\<rparr>"

definition jp_import_groups :: "SeriesMap \<Rightarrow> TcgGroup list \<Rightarrow> string \<Rightarrow> nat shared_act" where
  "jp_import_groups m groups now = (\<lambda>sd. (Inr (length groups), fold (put_jp_group m now) groups sd))"

section \<open>Extended data\<close>

definition jp_extended :: "TcgProduct \<Rightarrow> string \<Rightarrow> string option" where
  "jp_extended p name = nonempty (map_option trim (extended_value name p))"

definition jp_is_card :: "TcgProduct \<Rightarrow> bool" where
  "jp_is_card p \<longleftrightarrow> jp_extended p ''CardType'' \<noteq> None"

definition jp_collector_number :: "TcgProduct \<Rightarrow> string" where
  "jp_collector_number p = (case jp_extended p ''Number'' of
     Some n \<Rightarrow> if trim n \<noteq> [] then trim n else ''p'' @ show_int (pr_id p)
   | None \<Rightarrow> ''p'' @ show_int (pr_id p))"

definition jp_rarity :: "TcgProduct \<Rightarrow> string option" where
  "jp_rarity p = (case jp_extended p ''Rarity'' of
     Some r \<Rightarrow> if eq_ignore_ascii_case r ''None'' then None else Some r | None \<Rightarrow> None)"

definition split_list :: "string \<Rightarrow> string list" where
  "split_list raw = distinct_values (filter (\<lambda>s. s \<noteq> []) (map trim (split_char (CHR '';'') raw)))"

definition list_value :: "string list \<Rightarrow> json option" where
  "list_value items = (if items = [] then None else Some (JArray (map JString items)))"

text \<open>\<open>trim_end_matches\<close> with a word.\<close>

function trim_end_word :: "string \<Rightarrow> string \<Rightarrow> string" where
  "trim_end_word w s = (if w \<noteq> [] \<and> ends_with w s then trim_end_word w (take (length s - length w) s) else s)"
  by pat_completeness auto
termination
  by (relation "measure (\<lambda>(w, s). length s)") (auto simp: ends_with_def Suc_le_eq [symmetric] dest: le_trans [rotated])

declare trim_end_word.simps [simp del]

text \<open>The bytes of the words with an accent, and of the multiplication sign.\<close>

definition POKEMON :: string where
  "POKEMON = ''Pok'' @ [CHR 0xC3, CHR 0xA9] @ ''mon''"

definition TIMES :: string where
  "TIMES = [CHR 0xC3, CHR 0x97]"

definition classify_card_type :: "string option \<Rightarrow> string option \<Rightarrow> string option \<times> json option \<times> json option" where
  "classify_card_type card_type stage = (case card_type of
     None \<Rightarrow> (None, None, None)
   | Some raw \<Rightarrow> (case strip_prefix ''Trainer'' raw of
       Some tail \<Rightarrow> (Some ''Trainer'', list_value (split_list (dropWhile (\<lambda>c. c = CHR '' '' \<or> c = CHR ''-'') tail)), None)
     | None \<Rightarrow>
         if ends_with ''Energy'' raw \<or> raw = ''Special''
         then (let kind = trim (trim_end_word ''Energy'' raw) in
               (Some ''Energy'', Some (JArray [JString (if kind = [] then ''Basic'' else kind)]), None))
         else (Some POKEMON, list_value (split_list (case stage of Some s \<Rightarrow> s | None \<Rightarrow> [])), list_value (split_list raw))))"

section \<open>Rules text\<close>

function strip_tags :: "string \<Rightarrow> string" where
  "strip_tags s =
     (let before = takeWhile (\<lambda>c. c \<noteq> CHR ''<'') s; rest = dropWhile (\<lambda>c. c \<noteq> CHR ''<'') s in
      if rest = [] then before
      else let tag = takeWhile (\<lambda>c. c \<noteq> CHR ''>'') (tl rest); after = dropWhile (\<lambda>c. c \<noteq> CHR ''>'') (tl rest) in
        if after = [] then before
        else before @ (if starts_with ''br'' (to_ascii_lowercase (dropWhile (\<lambda>c. c = CHR ''/'') tag)) then '' '' else []) @
             strip_tags (tl after))"
  by pat_completeness auto
termination
proof (relation "measure length")
  fix s before rest tag after :: string
  assume a: "rest = dropWhile (\<lambda>c. c \<noteq> CHR ''<'') s" "rest \<noteq> []" "after = dropWhile (\<lambda>c. c \<noteq> CHR ''>'') (tl rest)" "after \<noteq> []"
  have "length after \<le> length (tl rest)" unfolding a(3) by (rule length_dropWhile_le)
  moreover have "length rest \<le> length s" unfolding a(1) by (rule length_dropWhile_le)
  ultimately show "(tl after, s) \<in> measure length" using a(2,4) by (cases rest; cases after) auto
qed simp

declare strip_tags.simps [simp del]

text \<open>\<open>str::replace\<close>, of a non-empty pattern.\<close>

function replace :: "string \<Rightarrow> string \<Rightarrow> string \<Rightarrow> string" where
  "replace w r s = (case s of
     [] \<Rightarrow> []
   | c # cs \<Rightarrow> if w \<noteq> [] \<and> starts_with w s then r @ replace w r (drop (length w) s) else c # replace w r cs)"
  by pat_completeness auto
termination
  by (relation "measure (\<lambda>(w, r, s). length s)") (auto simp: starts_with_def)

declare replace.simps [simp del]

definition ENTITIES :: "(string \<times> string) list" where
  "ENTITIES = [(''&amp;'', ''&''), (''&lt;'', ''<''), (''&gt;'', ''>''), (''&quot;'', [CHR 0x22]), (''&#39;'', [CHR 0x27]),
     (''&nbsp;'', '' '')]"

text \<open>\<open>split_whitespace\<close>.\<close>

fun words_of :: "uchar list \<Rightarrow> string \<Rightarrow> string list" where
  "words_of [] w = (if w = [] then [] else [w])"
| "words_of (u # us) w =
     (if is_whitespace u then (if w = [] then words_of us [] else w # words_of us []) else words_of us (w @ u))"

definition strip_html :: "string \<Rightarrow> string" where
  "strip_html raw =
     join '' '' (words_of (chars (fold (\<lambda>(w, r). replace w r) ((''Pok?mon'', POKEMON) # ENTITIES) (strip_tags raw))) [])"

definition jp_flavor_text :: "TcgProduct \<Rightarrow> string option" where
  "jp_flavor_text p = nonempty (map_option strip_html (coalesce (jp_extended p ''Flavor Text'') (jp_extended p ''Description'')))"

section \<open>Attacks, weaknesses and costs\<close>

text \<open>The modifiers a damage may carry: x, X, the multiplication sign, plus, minus and a question mark.\<close>

definition is_damage :: "string \<Rightarrow> bool" where
  "is_damage inner \<longleftrightarrow>
     (let core = concat (rev (dropWhile (\<lambda>u. u \<in> {''x'', ''X'', TIMES, ''+'', ''-'', ''?''}) (rev (chars inner)))) in
      core \<noteq> [] \<and> list_all is_digit core)"

lemma length_trim_start: "length (trim_start s) \<le> length s"
proof -
  have "s = concat (takeWhile is_whitespace (chars s)) @ trim_start s"
    unfolding trim_start_def by (metis concat_chars concat_append takeWhile_dropWhile_id)
  then show ?thesis by (metis length_append le_add2)
qed

function attack_cost :: "string \<Rightarrow> string list \<times> string" where
  "attack_cost rest = (case rest of
     c # inner \<Rightarrow>
       if c = CHR ''['' \<and> CHR '']'' \<in> set inner
       then (case attack_cost (trim_start (tl (dropWhile (\<lambda>c. c \<noteq> CHR '']'') inner))) of
               (cost, rest') \<Rightarrow> (trim (takeWhile (\<lambda>c. c \<noteq> CHR '']'') inner) # cost, rest'))
       else ([], rest)
   | [] \<Rightarrow> ([], []))"
  by pat_completeness auto

termination
proof (relation "measure length")
  fix rest inner :: string and c
  assume "rest = c # inner"
  have "length (trim_start (tl (dropWhile (\<lambda>c. c \<noteq> CHR '']'') inner))) \<le> length (dropWhile (\<lambda>c. c \<noteq> CHR '']'') inner)"
    using length_trim_start [of "tl (dropWhile (\<lambda>c. c \<noteq> CHR '']'') inner)"] by simp
  also have "\<dots> \<le> length inner" by (rule length_dropWhile_le)
  finally show "(trim_start (tl (dropWhile (\<lambda>c. c \<noteq> CHR '']'') inner)), rest) \<in> measure length" by (simp add: \<open>rest = c # inner\<close>)
qed simp

declare attack_cost.simps [simp del]

definition parse_attack :: "string \<Rightarrow> json option" where
  "parse_attack raw =
     (let (head, tail) = (case find_sub ''<br'' raw of Some i \<Rightarrow> (take i raw, drop i raw) | None \<Rightarrow> (raw, []));
          (cost, rest) = attack_cost (trim_start head);
          whole = trim rest;
          (name, damage) = (case rfind_char (CHR ''('') whole of
             Some i \<Rightarrow>
               (let inner = trim (butlast (drop (Suc i) whole)) in
                if ends_with '')'' whole \<and> is_damage inner then (trim (take i whole), Some inner) else (whole, None))
           | None \<Rightarrow> (whole, None));
          text' = strip_html tail
      in if name = [] \<and> cost = [] \<and> text' = [] then None
         else Some (JObject (fold (\<lambda>(k, v). btree_insert k v)
           ((if cost \<noteq> [] then [(''cost'', JArray (map JString cost))] else []) @
            (if name \<noteq> [] then [(''name'', JString name)] else []) @
            (case damage of Some d \<Rightarrow> [(''damage'', JString d)] | None \<Rightarrow> []) @
            (if text' \<noteq> [] then [(''text'', JString text')] else [])) [])))"

definition parse_attacks :: "TcgProduct \<Rightarrow> json option" where
  "parse_attacks p =
     (let attacks = List.map_filter (\<lambda>i. Option.bind (jp_extended p (''Attack '' @ show_nat i)) parse_attack) [1, 2, 3, 4] in
      if attacks = [] then None else Some (JArray attacks))"

definition modifier :: "uchar \<Rightarrow> bool" where
  "modifier u \<longleftrightarrow> u \<in> {''x'', ''X'', TIMES, ''+'', ''-''} \<or> (case u of [c] \<Rightarrow> is_digit c | _ \<Rightarrow> False)"

definition parse_weakness_resistance :: "string option \<Rightarrow> json option" where
  "parse_weakness_resistance raw = (case raw of
     None \<Rightarrow> None
   | Some r \<Rightarrow>
       (let kind = trim (concat (takeWhile (\<lambda>u. \<not> modifier u) (chars r)));
            rest = dropWhile (\<lambda>u. \<not> modifier u) (chars r);
            value' = concat (map (\<lambda>c. if c = CHR ''x'' \<or> c = CHR ''X'' then TIMES else [c]) (trim (concat rest))) in
        if rest = [] \<or> kind = [] \<or> value' = [] then None
        else Some (JArray [JObject [(''type'', JString kind), (''value'', JString value')]])))"

text \<open>\<open>str::parse::<usize>\<close>.\<close>

definition parse_usize :: "string \<Rightarrow> nat option" where
  "parse_usize s =
     (let ds = (case s of c # cs \<Rightarrow> if c = CHR ''+'' then cs else s | [] \<Rightarrow> []) in
      if ds = [] \<or> \<not> list_all is_digit ds \<or> digits_val ds \<ge> 2 ^ 64 then None else Some (digits_val ds))"

definition parse_retreat_cost :: "string option \<Rightarrow> json option" where
  "parse_retreat_cost raw = (case Option.bind raw (\<lambda>r. parse_usize (trim r)) of
     None \<Rightarrow> None | Some n \<Rightarrow> if n = 0 then None else Some (JArray (replicate n (JString ''Colorless''))))"

section \<open>Products and cards\<close>

definition jp_product_row :: "runtime \<Rightarrow> string \<Rightarrow> TcgProduct \<Rightarrow> ProductRow" where
  "jp_product_row rt now p =
     \<lparr>tp_id = pr_id p, tp_group = pr_group p, tp_name = pr_name p, tp_number = Some (jp_collector_number p),
      tp_variant = variant_from_product_name rt (pr_name p), tp_fetched_at = now, tp_image_url = usable_image p,
      tp_rarity = jp_rarity p\<rparr>"

definition jp_put_product :: "runtime \<Rightarrow> string \<Rightarrow> TcgProduct \<Rightarrow> unit shared_act" where
  "jp_put_product rt now p =
     (if jp_is_card p then change (put_products [jp_product_row rt now p]) else put_sealed_product rt now p)"

definition jp_import_products :: "runtime \<Rightarrow> TcgProduct list \<Rightarrow> string \<Rightarrow> (nat \<times> nat) shared_act" where
  "jp_import_products rt products now =
     ingest_tx (bind_act (for_each products (jp_put_product rt now)) (\<lambda>_.
       ret (length (filter jp_is_card products), length (filter (\<lambda>p. \<not> jp_is_card p) products))))"

text \<open>The bare name first, then the lowest product id; one card per normalized number.\<close>

definition jp_by_number :: "TcgProduct list \<Rightarrow> (string \<times> TcgProduct list) list" where
  "jp_by_number products =
     group_by (\<lambda>p. normalize_collector_number (jp_collector_number p))
       (sort_key (\<lambda>p. (if CHR ''('' \<in> set (pr_name p) \<or> CHR ''['' \<in> set (pr_name p) then 1 else 0 :: nat, pr_id p))
         (filter jp_is_card products))"

definition jp_card_row :: "(json \<Rightarrow> string) \<Rightarrow> string \<Rightarrow> string \<times> TcgProduct list \<Rightarrow> SharedCard" where
  "jp_card_row js code = (\<lambda>(number, products).
     let canonical = hd products;
         image = first_some usable_image products;
         (supertype, subtypes, types) = classify_card_type (jp_extended canonical ''CardType'') (jp_extended canonical ''Stage'')
     in (blank_card (code @ ''-'' @ number) code number (parse_product_card_name (pr_name canonical)))
          \<lparr>cd_supertype := supertype, cd_subtypes := map_option js subtypes,
           cd_hp := Option.bind (jp_extended canonical ''HP'') (\<lambda>h. parse_i64 (trim h)),
           cd_types := map_option js types, cd_rarity := jp_rarity canonical,
           sc_flavor_text := jp_flavor_text canonical, cd_attacks := map_option js (parse_attacks canonical),
           sc_weaknesses := map_option js (parse_weakness_resistance (jp_extended canonical ''Weakness'')),
           sc_resistances := map_option js (parse_weakness_resistance (jp_extended canonical ''Resistance'')),
           sc_retreat_cost := map_option js (parse_retreat_cost (jp_extended canonical ''Retreat Cost'')),
           cd_image_small := image, cd_image_large := image\<rparr>)"

definition set_jp_card :: "SharedCard \<Rightarrow> SharedCard \<Rightarrow> SharedCard" where
  "set_jp_card new old =
     old\<lparr>cd_set := cd_set new, cd_number := cd_number new, sc_number_sortable := sc_number_sortable new,
         cd_name := cd_name new, cd_supertype := cd_supertype new, cd_subtypes := cd_subtypes new, cd_hp := cd_hp new,
         cd_types := cd_types new, cd_rarity := cd_rarity new, sc_flavor_text := sc_flavor_text new,
         cd_attacks := cd_attacks new, sc_weaknesses := sc_weaknesses new, sc_resistances := sc_resistances new,
         sc_retreat_cost := sc_retreat_cost new, cd_image_small := cd_image_small new,
         cd_image_large := cd_image_large new\<rparr>"

definition put_jp_card :: "SharedCard \<Rightarrow> unit shared_act" where
  "put_jp_card c = (\<lambda>sd.
     if has_set sd (cd_set c) then (Inr (), sd\<lparr>sd_cards := upsert cd_id set_jp_card c (sd_cards sd)\<rparr>)
     else (Inl (Sqlite ForeignKeyViolation), sd))"

text \<open>The denominator most of the group's numbers carry, if at least two do; the larger one of a tie.\<close>

definition total_half :: "TcgProduct \<Rightarrow> int option" where
  "total_half p = Option.bind (Option.bind (jp_extended p ''Number'') (split_once ''/'')) (\<lambda>(_, total). parse_i64 (trim total))"

definition derive_printed_total :: "TcgProduct list \<Rightarrow> int option" where
  "derive_printed_total products =
     (let totals = List.map_filter total_half (filter jp_is_card products) in
      case sort_key (\<lambda>t. (count_list totals t, t)) (filter (\<lambda>t. 2 \<le> count_list totals t) (remdups totals)) of
        [] \<Rightarrow> None | ts \<Rightarrow> Some (last ts))"

definition jp_synthesize_cards :: "(json \<Rightarrow> string) \<Rightarrow> int \<Rightarrow> TcgProduct list \<Rightarrow> nat shared_act" where
  "jp_synthesize_cards js group_id products =
     (let code = jp_set_code group_id; cards = map (jp_card_row js code) (jp_by_number products) in
      ingest_tx (bind_act (for_each cards put_jp_card) (\<lambda>_.
        bind_act (change (\<lambda>sd. sd\<lparr>sd_sets := update_where (\<lambda>s. st_code s = code)
          (\<lambda>s. s\<lparr>ss_printed_total := derive_printed_total products, ss_total := Some (int (length cards))\<rparr>) (sd_sets sd)\<rparr>)) (\<lambda>_.
        ret (length cards)))))"

section \<open>The pass over the category\<close>

text \<open>What the price feed answers for one category: its groups, and the products and prices of a group.\<close>

record feed =
  fd_groups :: "IngestError + TcgGroup list"
  fd_products :: "int \<Rightarrow> IngestError + TcgProduct list"
  fd_quotes :: "int \<Rightarrow> IngestError + TcgPrice list"

record JapanStats =
  jn_groups :: nat
  jn_card_products :: nat
  jn_sealed_products :: nat
  jn_cards :: nat
  jn_price_rows :: nat

definition jp_import_group ::
  "runtime \<Rightarrow> (json \<Rightarrow> string) \<Rightarrow> string \<Rightarrow> string \<Rightarrow> feed \<Rightarrow> TcgGroup \<Rightarrow> JapanStats \<Rightarrow> JapanStats ingest" where
  "jp_import_group rt js now observed f g st =
     ingest_bind (received (fd_products f (g_id g))) (\<lambda>products.
     ingest_bind (stored (jp_import_products rt products now)) (\<lambda>(cards, sealed).
     ingest_bind (stored (jp_synthesize_cards js (g_id g) products)) (\<lambda>n.
     ingest_bind (received (fd_quotes f (g_id g))) (\<lambda>prices.
     ingest_bind (stored (import_prices prices observed)) (\<lambda>k.
     ingest_ret (st\<lparr>jn_card_products := jn_card_products st + cards, jn_sealed_products := jn_sealed_products st + sealed,
                    jn_cards := jn_cards st + n, jn_price_rows := jn_price_rows st + k\<rparr>))))))"

fun jp_import_each ::
  "runtime \<Rightarrow> (json \<Rightarrow> string) \<Rightarrow> string \<Rightarrow> string \<Rightarrow> feed \<Rightarrow> TcgGroup list \<Rightarrow> JapanStats \<Rightarrow> JapanStats ingest" where
  "jp_import_each rt js now observed f [] st = ingest_ret st"
| "jp_import_each rt js now observed f (g # gs) st =
     ingest_bind (jp_import_group rt js now observed f g st) (jp_import_each rt js now observed f gs)"

definition jp_import_all ::
  "runtime \<Rightarrow> (json \<Rightarrow> string) \<Rightarrow> SeriesMap \<Rightarrow> string \<Rightarrow> string \<Rightarrow> feed \<Rightarrow> JapanStats ingest" where
  "jp_import_all rt js series now observed f =
     ingest_bind (received (fd_groups f)) (\<lambda>groups.
     ingest_bind (stored (jp_import_groups series groups now)) (\<lambda>n.
     jp_import_each rt js now observed f groups
       \<lparr>jn_groups = n, jn_card_products = 0, jn_sealed_products = 0, jn_cards = 0, jn_price_rows = 0\<rparr>))"

section \<open>Upserts of the pass\<close>

interpretation jp_sets: upsertable st_code set_jp_set "\<lambda>s. \<not> ss_covered s"
  by unfold_locales (simp_all add: set_jp_set_def)

interpretation jp_cards: upsertable cd_id set_jp_card "\<lambda>c. sc_raw_json c = None"
  by unfold_locales (simp_all add: set_jp_card_def)

end
