(* ===== verification/Catalog_Growth.thy ===== *)
theory Catalog_Growth
  imports Japan
begin

text \<open>
  The promise of the ingest to the tenants, for every step: whatever a step is fed and whether it succeeds or
  fails, nothing a tenant can name goes away and the constraints of the catalog hold. Each statement is shown
  to advance the catalog in this sense, and the steps are made of statements by the combinators of \<open>Store\<close>
  and \<open>Catalog_Sources\<close>.
\<close>

section \<open>Advancing\<close>

definition advances :: "shared_db \<Rightarrow> shared_db \<Rightarrow> bool" where
  "advances s s' \<longleftrightarrow> catalog_grows s s' \<and> keeps_shared s s'"

lemma advances_refl [simp]: "advances s s"
  by (simp add: advances_def catalog_grows_refl keeps_shared_def)

lemma advances_trans [trans]: "advances s s' \<Longrightarrow> advances s' s'' \<Longrightarrow> advances s s''"
  unfolding advances_def keeps_shared_def using catalog_grows_trans by blast

interpretation adv: step_relation advances "\<lambda>s s'. s"
  by unfold_locales (rule advances_refl, rule advances_trans, assumption+, rule advances_refl)

lemma always_change: "(\<And>sd. advances sd (f sd)) \<Longrightarrow> always advances (change f)"
  by (simp add: always_def change_def)

lemma always_tx: "always advances m \<Longrightarrow> always advances (ingest_tx m)"
  unfolding ingest_tx_def by (rule adv.always_transaction)

lemma always_sum_each: "(\<And>x. x \<in> set xs \<Longrightarrow> always advances (f x)) \<Longrightarrow> always advances (sum_each xs f)"
proof (induction xs)
  case (Cons x xs)
  have "always advances (f x)" "always advances (sum_each xs f)" using Cons by simp_all
  then show ?case by (auto intro!: adv.always_bind adv.always_ret)
qed (auto intro: adv.always_ret)

section \<open>One table at a time\<close>

lemma shared_ok_iff:
  "shared_ok sd \<longleftrightarrow>
     distinct (map st_code (sd_sets sd)) \<and> distinct (map cd_id (sd_cards sd)) \<and>
     distinct (map va_code (sd_variants sd)) \<and> distinct (map pg_id (sd_printings sd)) \<and>
     distinct (map (\<lambda>p. (pg_card p, pg_variant p)) (sd_printings sd)) \<and>
     distinct (map tg_id (sd_groups sd)) \<and> distinct (map tp_id (sd_products sd)) \<and>
     distinct (map sp_id (sd_sealed_products sd)) \<and>
     (\<forall>c \<in> set (sd_cards sd). has_set sd (cd_set c)) \<and>
     (\<forall>p \<in> set (sd_printings sd). has_card sd (pg_card p) \<and> has_variant sd (pg_variant p)) \<and>
     (\<forall>p \<in> set (sd_sealed_products sd). \<forall>s. sp_set_code p = Some s \<longrightarrow> has_set sd s) \<and>
     distinct (map fst (sd_sub_types sd)) \<and> (\<forall>e \<in> set (sd_sub_types sd). has_variant sd (snd e))"
  unfolding shared_ok_def by (simp only: option.split [where P = "\<lambda>x. x"] simp_thms)

lemma shared_okD:
  assumes "shared_ok sd"
  shows "distinct (map st_code (sd_sets sd))" "distinct (map cd_id (sd_cards sd))" "distinct (map va_code (sd_variants sd))"
    "distinct (map pg_id (sd_printings sd))" "distinct (map (\<lambda>p. (pg_card p, pg_variant p)) (sd_printings sd))"
    "distinct (map tg_id (sd_groups sd))" "distinct (map tp_id (sd_products sd))" "distinct (map sp_id (sd_sealed_products sd))"
    "\<And>c. c \<in> set (sd_cards sd) \<Longrightarrow> has_set sd (cd_set c)"
    "\<And>p. p \<in> set (sd_printings sd) \<Longrightarrow> has_card sd (pg_card p) \<and> has_variant sd (pg_variant p)"
    "\<And>p s. p \<in> set (sd_sealed_products sd) \<Longrightarrow> sp_set_code p = Some s \<Longrightarrow> has_set sd s"
    "distinct (map fst (sd_sub_types sd))" "\<And>e. e \<in> set (sd_sub_types sd) \<Longrightarrow> has_variant sd (snd e)"
  using assms unfolding shared_ok_iff by blast+

lemma advancesI: "catalog_grows s s' \<Longrightarrow> (shared_ok s \<Longrightarrow> shared_ok s') \<Longrightarrow> advances s s'"
  by (simp add: advances_def keeps_shared_def)

lemma advances_sets:
  assumes "distinct (map st_code (sd_sets sd)) \<Longrightarrow> distinct (map st_code xs)" "st_code ` set (sd_sets sd) \<subseteq> st_code ` set xs"
  shows "advances sd (sd\<lparr>sd_sets := xs\<rparr>)"
proof (rule advancesI)
  show "catalog_grows sd (sd\<lparr>sd_sets := xs\<rparr>)" using assms(2) by (simp add: catalog_grows_def)
  assume ok: "shared_ok sd"
  have "has_set sd s \<Longrightarrow> has_set (sd\<lparr>sd_sets := xs\<rparr>) s" for s using assms(2) by (auto simp: has_set_def list_ex_key)
  then show "shared_ok (sd\<lparr>sd_sets := xs\<rparr>)"
    using ok assms(1) [OF shared_okD(1) [OF ok]] unfolding shared_ok_iff by (elim conjE, intro conjI) simp_all
qed

lemma advances_cards:
  assumes "distinct (map cd_id (sd_cards sd)) \<Longrightarrow> distinct (map cd_id xs)" "cd_id ` set (sd_cards sd) \<subseteq> cd_id ` set xs"
    "\<forall>c \<in> set (sd_cards sd). has_set sd (cd_set c) \<Longrightarrow> \<forall>c \<in> set xs. has_set sd (cd_set c)"
  shows "advances sd (sd\<lparr>sd_cards := xs\<rparr>)"
proof (rule advancesI)
  show "catalog_grows sd (sd\<lparr>sd_cards := xs\<rparr>)" using assms(2) by (simp add: catalog_grows_def)
  assume ok: "shared_ok sd"
  have "has_card sd s \<Longrightarrow> has_card (sd\<lparr>sd_cards := xs\<rparr>) s" for s using assms(2) by (auto simp: has_card_def list_ex_key)
  moreover have "\<forall>c \<in> set xs. has_set sd (cd_set c)" using assms(3) shared_okD(9) [OF ok] by blast
  ultimately show "shared_ok (sd\<lparr>sd_cards := xs\<rparr>)"
    using ok assms(1) [OF shared_okD(2) [OF ok]] unfolding shared_ok_iff by (elim conjE, intro conjI) simp_all
qed

lemma advances_variants:
  assumes "distinct (map va_code (sd_variants sd)) \<Longrightarrow> distinct (map va_code xs)"
    "va_code ` set (sd_variants sd) \<subseteq> va_code ` set xs"
  shows "advances sd (sd\<lparr>sd_variants := xs\<rparr>)"
proof (rule advancesI)
  show "catalog_grows sd (sd\<lparr>sd_variants := xs\<rparr>)" using assms(2) by (simp add: catalog_grows_def)
  assume ok: "shared_ok sd"
  have "has_variant sd s \<Longrightarrow> has_variant (sd\<lparr>sd_variants := xs\<rparr>) s" for s using assms(2) by (auto simp: has_variant_def list_ex_key)
  then show "shared_ok (sd\<lparr>sd_variants := xs\<rparr>)"
    using ok assms(1) [OF shared_okD(3) [OF ok]] unfolding shared_ok_iff by (elim conjE, intro conjI) simp_all
qed

lemma advances_printings:
  assumes "shared_ok sd \<Longrightarrow> distinct (map pg_id xs) \<and> distinct (map (\<lambda>p. (pg_card p, pg_variant p)) xs) \<and>
      (\<forall>p \<in> set xs. has_card sd (pg_card p) \<and> has_variant sd (pg_variant p))"
    "row_name ` set (sd_printings sd) \<subseteq> row_name ` set xs"
  shows "advances sd (sd\<lparr>sd_printings := xs\<rparr>)"
proof (rule advancesI)
  show "catalog_grows sd (sd\<lparr>sd_printings := xs\<rparr>)"
    using assms(2) by (simp add: catalog_grows_def row_name_def [abs_def])
  assume ok: "shared_ok sd"
  from assms(1) [OF ok] ok show "shared_ok (sd\<lparr>sd_printings := xs\<rparr>)"
    unfolding shared_ok_iff by (elim conjE, intro conjI) simp_all
qed

lemma advances_groups:
  assumes "distinct (map tg_id (sd_groups sd)) \<Longrightarrow> distinct (map tg_id xs)"
  shows "advances sd (sd\<lparr>sd_groups := xs\<rparr>)"
proof (rule advancesI)
  assume ok: "shared_ok sd"
  from assms [OF shared_okD(6) [OF ok]] ok show "shared_ok (sd\<lparr>sd_groups := xs\<rparr>)"
    unfolding shared_ok_iff by (elim conjE, intro conjI) simp_all
qed (simp add: catalog_grows_def)

lemma advances_products:
  assumes "distinct (map tp_id (sd_products sd)) \<Longrightarrow> distinct (map tp_id xs)"
  shows "advances sd (sd\<lparr>sd_products := xs\<rparr>)"
proof (rule advancesI)
  assume ok: "shared_ok sd"
  from assms [OF shared_okD(7) [OF ok]] ok show "shared_ok (sd\<lparr>sd_products := xs\<rparr>)"
    unfolding shared_ok_iff by (elim conjE, intro conjI) simp_all
qed (simp add: catalog_grows_def)

lemma advances_sealed:
  assumes "distinct (map sp_id (sd_sealed_products sd)) \<Longrightarrow> distinct (map sp_id xs)"
    "sp_id ` set (sd_sealed_products sd) \<subseteq> sp_id ` set xs"
    "\<And>p s. p \<in> set xs \<Longrightarrow> sp_set_code p = Some s \<Longrightarrow> has_set sd s \<or> (\<exists>q \<in> set (sd_sealed_products sd). sp_set_code q = Some s)"
  shows "advances sd (sd\<lparr>sd_sealed_products := xs\<rparr>)"
proof (rule advancesI)
  show "catalog_grows sd (sd\<lparr>sd_sealed_products := xs\<rparr>)" using assms(2) by (simp add: catalog_grows_def)
  assume ok: "shared_ok sd"
  have "\<forall>p \<in> set xs. \<forall>s. sp_set_code p = Some s \<longrightarrow> has_set sd s"
    using assms(3) shared_okD(11) [OF ok] by blast
  with assms(1) [OF shared_okD(8) [OF ok]] ok show "shared_ok (sd\<lparr>sd_sealed_products := xs\<rparr>)"
    unfolding shared_ok_iff by (elim conjE, intro conjI) simp_all
qed

lemma advances_sub_types:
  assumes "shared_ok sd \<Longrightarrow> distinct (map fst xs) \<and> (\<forall>e \<in> set xs. has_variant sd (snd e))"
  shows "advances sd (sd\<lparr>sd_sub_types := xs\<rparr>)"
proof (rule advancesI)
  assume ok: "shared_ok sd"
  from assms [OF ok] ok show "shared_ok (sd\<lparr>sd_sub_types := xs\<rparr>)"
    unfolding shared_ok_iff by (elim conjE, intro conjI) simp_all
qed (simp add: catalog_grows_def)

lemma shared_ok_unchecked [simp]:
  "shared_ok (sd\<lparr>sd_prices := ps\<rparr>) = shared_ok sd" "shared_ok (sd\<lparr>sd_sealed_prices := sps\<rparr>) = shared_ok sd"
  "shared_ok (sd\<lparr>sd_set_aliases := sas\<rparr>) = shared_ok sd" "shared_ok (sd\<lparr>sd_overrides := os\<rparr>) = shared_ok sd"
  "shared_ok (sd\<lparr>sd_latest_prices := lps\<rparr>) = shared_ok sd"
  by (unfold shared_ok_iff, simp_all)

lemma advances_prices: "set (sd_prices sd) \<subseteq> set xs \<Longrightarrow> advances sd (sd\<lparr>sd_prices := xs\<rparr>)"
  by (rule advancesI) (simp_all add: catalog_grows_def)

lemma advances_sealed_prices: "set (sd_sealed_prices sd) \<subseteq> set xs \<Longrightarrow> advances sd (sd\<lparr>sd_sealed_prices := xs\<rparr>)"
  by (rule advancesI) (simp_all add: catalog_grows_def)

lemma advances_curated:
  "advances sd (sd\<lparr>sd_set_aliases := sas\<rparr>)" "advances sd (sd\<lparr>sd_overrides := os\<rparr>)" "advances sd (sd\<lparr>sd_latest_prices := lps\<rparr>)"
  by (rule advancesI; simp add: catalog_grows_def)+

section \<open>Statements\<close>

lemma update_where_keys: "(\<And>r. col (f r) = col r) \<Longrightarrow> map col (update_where P f rs) = map col rs"
  by (simp add: update_where_def)

lemma update_where_key_set: "(\<And>r. col (f r) = col r) \<Longrightarrow> col ` set (update_where P f rs) = col ` set rs"
  using arg_cong [OF update_where_keys [of col f P rs], of set] by simp

lemma ignore_keys: "col ` set (insert_or_ignore col r rs) = insert (col r) (col ` set rs)"
  by (auto simp: insert_or_ignore_def list_ex_key)

lemma ignore_distinct: "distinct (map col rs) \<Longrightarrow> distinct (map col (insert_or_ignore col r rs))"
  by (auto simp: insert_or_ignore_def list_ex_key)

lemma ignore_rows: "set rs \<subseteq> set (insert_or_ignore col r rs)"
  by (auto simp: insert_or_ignore_def)

lemma ignores_rows: "set rs \<subseteq> set (fold (insert_or_ignore col) xs rs)"
proof (induction xs arbitrary: rs)
  case (Cons x xs)
  then show ?case using Cons.IH [of "insert_or_ignore col x rs"] ignore_rows [of rs col x] by auto
qed simp

lemma advances_fold: "(\<And>x sd. advances sd (f x sd)) \<Longrightarrow> advances sd (fold f xs sd)"
proof (induction xs arbitrary: sd)
  case (Cons x xs)
  have "advances sd (f x sd)" by (rule Cons.prems)
  also have "advances \<dots> (fold f xs (f x sd))" by (rule Cons.IH) (rule Cons.prems)
  finally show ?case by simp
qed simp

lemma advances_upsert_variant: "advances sd (upsert_variant v sd)"
  unfolding upsert_variant_def
  by (rule advances_variants) (auto simp: variants.upsert_distinct variants.upsert_key_set)

lemma advances_ensure_code: "advances sd (ensure_code c sd)"
  unfolding ensure_code_def by (rule advances_variants) (simp_all add: ignore_distinct ignore_keys subset_insertI)

lemma always_insert_card: "always advances (insert_card c)"
proof (rule alwaysI)
  fix sd r sd' assume "insert_card c sd = (r, sd')"
  then consider "sd' = sd" | "\<not> has_card sd (cd_id c)" "has_set sd (cd_set c)" "sd' = sd\<lparr>sd_cards := sd_cards sd @ [c]\<rparr>"
    unfolding insert_card_def by (auto split: if_splits)
  then show "advances sd sd'"
  proof cases
    case 2
    then show ?thesis by (auto simp: has_card_def list_ex_key intro!: advances_cards)
  qed simp
qed

lemma always_put_printing: "always advances (put_printing p)"
proof (rule alwaysI)
  fix sd r sd' assume run: "put_printing p sd = (r, sd')"
  let ?dup = "list_ex (\<lambda>q. pg_card q = pg_card p \<and> pg_variant q = pg_variant p) (sd_printings sd)"
  show "advances sd sd'"
  proof (cases "has_printing sd (pg_id p)")
    case True
    with run have hit: "has_printing sd (pg_id p)" "sd' = sd\<lparr>sd_printings := upsert pg_id revive_printing p (sd_printings sd)\<rparr>"
      by (simp_all add: put_printing_def)
    let ?xs = "upsert pg_id revive_printing p (sd_printings sd)"
    have xs: "?xs = map (\<lambda>x. if pg_id x = pg_id p then revive_printing p x else x) (sd_printings sd)"
      using hit(1) by (simp add: has_printing_def list_ex_key upsert_hit)
    have ids: "map pg_id ?xs = map pg_id (sd_printings sd)"
      "map (\<lambda>p. (pg_card p, pg_variant p)) ?xs = map (\<lambda>p. (pg_card p, pg_variant p)) (sd_printings sd)"
      unfolding xs by (simp_all add: if_distrib [of pg_id])
    have refs: "has_card sd (pg_card q) \<and> has_variant sd (pg_variant q)" if "shared_ok sd" "q \<in> set ?xs" for q
      using that(2) shared_okD(10) [OF that(1)] unfolding xs by auto
    show ?thesis unfolding hit(2)
      by (rule advances_printings) (use ids refs shared_okD(4,5) upsert_names(1) in \<open>simp_all\<close>)
  next
    case False
    show ?thesis
    proof (cases "\<not> ?dup \<and> has_card sd (pg_card p) \<and> has_variant sd (pg_variant p)")
      case True
      then have new: "\<not> has_printing sd (pg_id p)" "\<not> ?dup" "has_card sd (pg_card p)" "has_variant sd (pg_variant p)"
        "sd' = sd\<lparr>sd_printings := sd_printings sd @ [p]\<rparr>"
        using run False by (simp_all add: put_printing_def)
    have fresh: "pg_id p \<notin> set (map pg_id (sd_printings sd))"
      "(pg_card p, pg_variant p) \<notin> set (map (\<lambda>p. (pg_card p, pg_variant p)) (sd_printings sd))"
      using new(1,2) by (auto simp: has_printing_def list_ex_iff)
    show ?thesis unfolding new(5)
    proof (rule advances_printings)
      assume ok: "shared_ok sd"
      have "\<forall>q \<in> set (sd_printings sd @ [p]). has_card sd (pg_card q) \<and> has_variant sd (pg_variant q)"
        using shared_okD(10) [OF ok] new(3,4) by simp
      with fresh shared_okD(4,5) [OF ok] show "distinct (map pg_id (sd_printings sd @ [p])) \<and>
          distinct (map (\<lambda>p. (pg_card p, pg_variant p)) (sd_printings sd @ [p])) \<and>
          (\<forall>q \<in> set (sd_printings sd @ [p]). has_card sd (pg_card q) \<and> has_variant sd (pg_variant q))"
        by (simp only: map_append distinct_append list.map) simp
    qed auto
    next
      case other: False
      then have "sd' = sd" using run False by (simp add: put_printing_def split: if_splits)
      then show ?thesis by simp
    qed
  qed
qed

section \<open>Steps\<close>

lemma advances_reconcile_variants: "always advances (reconcile_variants seed)"
proof (rule alwaysI)
  fix sd r sd' assume run: "reconcile_variants seed sd = (r, sd')"
  define s1 where "s1 = fold upsert_variant seed sd"
  define s2 where "s2 = fold (\<lambda>code. upsert_variant (synthesize code))
    (filter (\<lambda>code. code \<notin> set (map va_code seed)) (map va_code (sd_variants s1))) s1"
  have "advances sd s1" unfolding s1_def by (rule advances_fold) (rule advances_upsert_variant)
  also have "advances s1 s2" unfolding s2_def by (rule advances_fold) (rule advances_upsert_variant)
  also have "advances s2 (fold (\<lambda>code. upsert_variant (synthesize code)) (missing_codes s2) s2)"
    by (rule advances_fold) (rule advances_upsert_variant)
  also have "\<dots> = sd'"
    using run unfolding reconcile_variants_def Let_def s1_def [symmetric] s2_def [symmetric] by simp
  finally show "advances sd sd'" .
qed

lemma always_insert_sub_type: "always advances (insert_sub_type e)"
proof (rule alwaysI)
  fix sd r sd' assume "insert_sub_type e sd = (r, sd')"
  then have "sd' = sd \<or> (fst e \<notin> set (map fst (sd_sub_types sd)) \<and> has_variant sd (snd e) \<and>
      sd' = sd\<lparr>sd_sub_types := sd_sub_types sd @ [e]\<rparr>)"
    unfolding insert_sub_type_def by (simp split: if_splits)
  then show "advances sd sd'"
  proof (elim disjE conjE)
    assume a: "fst e \<notin> set (map fst (sd_sub_types sd))" "has_variant sd (snd e)"
    assume sd': "sd' = sd\<lparr>sd_sub_types := sd_sub_types sd @ [e]\<rparr>"
    show ?thesis unfolding sd'
    proof (rule advances_sub_types)
      assume ok: "shared_ok sd"
      show "distinct (map fst (sd_sub_types sd @ [e])) \<and> (\<forall>e' \<in> set (sd_sub_types sd @ [e]). has_variant sd (snd e'))"
        using a shared_okD(12,13) [OF ok] by auto
    qed
  qed simp
qed

lemma advances_reconcile_sub_types: "always advances (reconcile_sub_types seed)"
  unfolding reconcile_sub_types_def
  by (intro always_tx adv.always_bind adv.always_for_each adv.always_ret always_insert_sub_type always_change advances_sub_types) simp

lemma advances_reconcile_aliases: "always advances (reconcile_aliases as)"
proof (rule alwaysI)
  show "reconcile_aliases as sd = (r, sd') \<Longrightarrow> advances sd sd'" for sd r sd'
  proof (induction as arbitrary: sd r)
    case (Cons a as)
    show ?case
    proof (cases "has_set sd (snd a)")
      case True
      let ?s = "sd\<lparr>sd_set_aliases := put_alias a (sd_set_aliases sd)\<rparr>"
      obtain r' where "reconcile_aliases as ?s = (r', sd')" using Cons.prems True by (auto split: prod.splits)
      then have "advances ?s sd'" by (rule Cons.IH)
      then show ?thesis using advances_trans advances_curated(1) by blast
    next
      case False
      then show ?thesis using Cons.prems Cons.IH by simp
    qed
  qed simp
qed

lemma advances_reconcile_overrides: "always advances (reconcile_overrides rs)"
proof (rule alwaysI)
  show "reconcile_overrides rs sd = (r, sd') \<Longrightarrow> advances sd sd'" for sd r sd'
  proof (induction rs arbitrary: sd r)
    case (Cons x rs)
    show ?case
    proof (cases "has_printing sd (po_printing x)")
      case True
      let ?s = "sd\<lparr>sd_overrides := upsert po_printing set_override x (sd_overrides sd)\<rparr>"
      obtain r' where "reconcile_overrides rs ?s = (r', sd')" using Cons.prems True by (auto split: prod.splits)
      then have "advances ?s sd'" by (rule Cons.IH)
      then show ?thesis using advances_trans advances_curated(2) by blast
    next
      case False
      then show ?thesis using Cons.prems Cons.IH by simp
    qed
  qed simp
qed

lemma apply_bridge_keys:
  "distinct (map st_code sets) \<Longrightarrow> distinct (map st_code (apply_bridge b sets))"
  "st_code ` set sets \<subseteq> st_code ` set (apply_bridge b sets)"
  unfolding apply_bridge_def Let_def heal_set_def
  by (auto simp: update_where_keys update_where_key_set ignore_distinct ignore_keys split: option.split)

lemma apply_bridges_keys:
  "distinct (map st_code sets) \<Longrightarrow> distinct (map st_code (fold apply_bridge bs sets))"
  "st_code ` set sets \<subseteq> st_code ` set (fold apply_bridge bs sets)"
proof (induction bs arbitrary: sets)
  case (Cons b bs)
  { case 1 then show ?case using Cons.IH(1) apply_bridge_keys(1) by simp }
  { case 2 then show ?case using Cons.IH(2) [of "apply_bridge b sets"] apply_bridge_keys(2) [of sets b] by auto }
qed simp_all

lemma advances_import_groups: "always advances (import_groups bridges gs now)"
proof (rule alwaysI)
  fix sd r sd' assume run: "import_groups bridges gs now sd = (r, sd')"
  define s1 where "s1 = sd\<lparr>sd_sets := fold apply_bridge bridges (sd_sets sd)\<rparr>"
  have "advances sd s1" unfolding s1_def by (rule advances_sets) (rule apply_bridges_keys, assumption, rule apply_bridges_keys)
  also have "advances s1 (s1\<lparr>sd_groups := fold (upsert tg_id set_group)
      (map (group_row now (links_with_role bridges (sd_sets s1) gs)) gs) (sd_groups s1)\<rparr>)"
    by (rule advances_groups) (rule groups.upserts_distinct)
  also have "\<dots> = sd'" using run unfolding import_groups_def Let_def s1_def [symmetric] by simp
  finally show "advances sd sd'" .
qed

lemma advances_put_products: "advances sd (put_products rows sd)"
  unfolding put_products_def by (rule advances_products) (rule products.upserts_distinct)

lemma always_put_sealed: "always advances (put_sealed r)"
proof (rule alwaysI)
  fix sd q sd' assume run: "put_sealed r sd = (q, sd')"
  show "advances sd sd'"
  proof (cases "case sp_set_code r of Some s \<Rightarrow> has_set sd s | None \<Rightarrow> True")
    case True
    then have sd': "sd' = sd\<lparr>sd_sealed_products := upsert sp_id set_sealed r (sd_sealed_products sd)\<rparr>"
      using run by (simp add: put_sealed_def)
    have "has_set sd s \<or> (\<exists>q \<in> set (sd_sealed_products sd). sp_set_code q = Some s)"
      if "p \<in> set (upsert sp_id set_sealed r (sd_sealed_products sd))" "sp_set_code p = Some s" for p s
      using that True unfolding upsert_def by (auto simp: set_sealed_sel split: if_splits)
    then show ?thesis
      unfolding sd' by (intro advances_sealed) (auto simp: sealed_products.upsert_distinct sealed_products.upsert_key_set)
  next
    case False
    then show ?thesis using run by (simp add: put_sealed_def)
  qed
qed

lemma always_put_sealed_product: "always advances (put_sealed_product rt now p)"
  using always_put_sealed unfolding always_def put_sealed_product_def by blast

lemma advances_import_sealed_products: "always advances (import_sealed_products rt ps now)"
  unfolding import_sealed_products_def Let_def
  by (intro always_tx adv.always_bind adv.always_for_each adv.always_ret always_put_sealed_product)

lemma advances_import_products: "always advances (import_products rt ps now)"
  by (rule alwaysI) (auto simp: import_products_def Let_def advances_put_products)

lemma advances_price_fold: "advances sd (snd (fold (import_price sealed observed) ps (n, sd)))"
proof (induction ps arbitrary: n sd)
  case (Cons p ps)
  obtain m s where step: "import_price sealed observed p (n, sd) = (m, s)" by force
  have "advances sd s"
    using step unfolding import_price_def
    by (auto split: if_splits intro!: advances_prices advances_sealed_prices ignores_rows ignore_rows)
  then show ?case using Cons.IH advances_trans by (simp add: step)
qed simp

lemma import_prices_snd:
  "snd (import_prices ps observed sd) = snd (fold (import_price (set (map sp_id (sd_sealed_products sd))) observed) ps (0, sd))"
  by (simp add: import_prices_def Let_def split: prod.split)

lemma advances_import_prices: "always advances (import_prices ps observed)"
  by (rule alwaysI) (metis advances_price_fold import_prices_snd snd_conv)

lemma keyed_cards:
  assumes "\<And>c. cd_id (f c) = cd_id c" "\<And>c. cd_set (f c) = cd_set c"
  shows "advances sd (sd\<lparr>sd_cards := update_where P f (sd_cards sd)\<rparr>)"
  by (rule advances_cards) (use assms in \<open>auto simp: update_where_keys update_where_key_set set_update_where\<close>)

lemma update_where_twice:
  "update_where Q g (update_where P f rs) = map (\<lambda>r. if Q (if P r then f r else r) then g (if P r then f r else r) else if P r then f r else r) rs"
  by (simp add: update_where_def)

lemma advances_heal_card: "advances sd (sd\<lparr>sd_cards := heal_card i name rarity img (sd_cards sd)\<rparr>)"
  unfolding heal_card_def by (rule keyed_cards) simp_all

lemma advances_refine_rarity: "advances sd (sd\<lparr>sd_cards := refine_rarity i rarity (sd_cards sd)\<rparr>)"
  unfolding refine_rarity_def by (cases rarity) (auto intro: keyed_cards)

lemma advances_refined: "advances sd (sd\<lparr>sd_cards := heal_card i name rarity img (refine_rarity j rarity' (sd_cards sd))\<rparr>)"
proof -
  let ?s = "sd\<lparr>sd_cards := refine_rarity j rarity' (sd_cards sd)\<rparr>"
  have "advances sd ?s" by (rule advances_refine_rarity)
  also have "advances ?s (?s\<lparr>sd_cards := heal_card i name rarity img (sd_cards ?s)\<rparr>)" by (rule advances_heal_card)
  finally show ?thesis by simp
qed

lemma always_synthesize_card: "always advances (synthesize_card code ov g)"
  unfolding synthesize_card_def by (cases g)
    (auto simp: Let_def intro!: adv.always_bind adv.always_ret always_insert_card always_change advances_refined)

lemma always_synthesize_cards_for_group: "always advances (synthesize_cards_for_group g code ov)"
  unfolding synthesize_cards_for_group_def
  by (intro adv.always_bind adv.always_query always_sum_each always_synthesize_card)

lemma advances_synthesize_for_bridges: "always advances (synthesize_cards_for_bridges bridges)"
  unfolding synthesize_cards_for_bridges_def by (intro always_tx always_sum_each always_synthesize_cards_for_group)

lemma advances_deprecate: "advances sd (sd\<lparr>sd_printings := deprecate now c (sd_printings sd)\<rparr>)"
proof (rule advances_printings)
  assume ok: "shared_ok sd"
  have "map pg_id (deprecate now c (sd_printings sd)) = map pg_id (sd_printings sd)"
    "map (\<lambda>p. (pg_card p, pg_variant p)) (deprecate now c (sd_printings sd)) = map (\<lambda>p. (pg_card p, pg_variant p)) (sd_printings sd)"
    unfolding deprecate_def update_where_def by simp_all
  moreover have "\<forall>p \<in> set (deprecate now c (sd_printings sd)). has_card sd (pg_card p) \<and> has_variant sd (pg_variant p)"
    using shared_okD(10) [OF ok] unfolding deprecate_def by (auto simp: set_update_where)
  ultimately show "distinct (map pg_id (deprecate now c (sd_printings sd))) \<and>
      distinct (map (\<lambda>p. (pg_card p, pg_variant p)) (deprecate now c (sd_printings sd))) \<and>
      (\<forall>p \<in> set (deprecate now c (sd_printings sd)). has_card sd (pg_card p) \<and> has_variant sd (pg_variant p))"
    using shared_okD(4,5) [OF ok] by simp
qed (simp add: deprecate_names)

lemma always_expand_card: "always advances (expand_card now c m)"
  unfolding expand_card_def
  by (intro always_tx adv.always_bind adv.always_for_each adv.always_ret always_change advances_deprecate)
    (simp add: put_resolution_def always_put_printing split: prod.split)

lemma advances_expand_all_printings: "always advances (expand_all_printings rt ovs now)"
proof (rule alwaysI)
  fix sd r sd' assume run: "expand_all_printings rt ovs now sd = (r, sd')"
  define m where "m = load_sub_types sd"
  define x where "x = preload_cross_group_products rt sd m"
  define s1 where "s1 = fold ensure_code (expansion_codes sd x ovs) sd"
  let ?pass = "sum_each (expandable_cards sd) (\<lambda>c. bind_act (query (\<lambda>sd. variant_map sd m x ovs c)) (\<lambda>vm. expand_card now (ci_id c) vm))"
  have "advances sd s1" unfolding s1_def by (rule advances_fold) (rule advances_ensure_code)
  also have "always advances ?pass" by (intro always_sum_each adv.always_bind adv.always_query always_expand_card)
  then have "advances s1 sd'"
    using run unfolding expand_all_printings_def Let_def m_def [symmetric] x_def [symmetric] s1_def [symmetric]
    by (rule alwaysD)
  finally show "advances sd sd'" .
qed

lemma advances_upsert_set: "advances sd (upsert_set now s sd)"
  unfolding upsert_set_def
  by (rule advances_sets) (auto simp: upstream_sets.upsert_distinct upstream_sets.upsert_key_set)

lemma always_upsert_card: "always advances (upsert_card js cs code c)"
proof (rule alwaysI)
  fix sd r sd' assume run: "upsert_card js cs code c sd = (r, sd')"
  let ?row = "ptcg_card_row js code (apply_upstream_card_correction cs c)"
  show "advances sd sd'"
  proof (cases "has_set sd code")
    case True
    then have sd': "sd' = sd\<lparr>sd_cards := upsert cd_id set_card ?row (sd_cards sd)\<rparr>" using run by (simp add: upsert_card_def)
    have "cd_set ?row = code" by (simp add: ptcg_card_row_def)
    then have "\<forall>c \<in> set (upsert cd_id set_card ?row (sd_cards sd)). has_set sd (cd_set c)"
      if "\<forall>c \<in> set (sd_cards sd). has_set sd (cd_set c)"
      using that True unfolding upsert_def set_card_def by (auto split: if_splits)
    then show ?thesis
      unfolding sd' by (intro advances_cards) (auto simp: upstream_cards.upsert_distinct upstream_cards.upsert_key_set)
  next
    case False
    then show ?thesis using run by (simp add: upsert_card_def)
  qed
qed

lemma advances_set_numbers: "advances sd (sd\<lparr>sd_cards := fold set_number ps (sd_cards sd)\<rparr>)"
proof (induction ps arbitrary: sd)
  case (Cons p ps)
  let ?s = "sd\<lparr>sd_cards := set_number p (sd_cards sd)\<rparr>"
  have "advances sd ?s" unfolding set_number_def by (rule keyed_cards) simp_all
  also have "advances ?s (?s\<lparr>sd_cards := fold set_number ps (sd_cards ?s)\<rparr>)" by (rule Cons.IH)
  finally show ?case by simp
qed simp

lemma advances_apply_corrections: "always advances (apply_corrections_to_db cs)"
  by (rule alwaysI) (auto simp: apply_corrections_to_db_def Let_def advances_set_numbers)

lemma advances_discovered:
  "advances sd (sd\<lparr>sd_sets := heal_discovered new (insert_or_ignore st_code new (sd_sets sd))\<rparr>)"
  unfolding heal_discovered_def
  by (rule advances_sets) (auto simp: update_where_keys update_where_key_set ignore_distinct ignore_keys)

lemma advances_link_group: "advances sd (sd\<lparr>sd_groups := link_group g code (sd_groups sd)\<rparr>)"
  unfolding link_group_def by (rule advances_groups) (simp add: update_where_keys)

lemma always_discover_group: "always advances (discover_group policy g)"
proof (rule alwaysI)
  fix sd r sd' assume run: "discover_group policy g sd = (r, sd')"
  show "advances sd sd'"
  proof (cases "if tg_id g \<in> set (dp_deny policy) then None else parse_numbered_group_name (tg_name g)")
    case None
    then show ?thesis using run by (simp add: discover_group_def)
  next
    case (Some x)
    obtain era number name where x: "x = (era, number, name)" by (cases x) auto
    define code where "code = derive_set_code era number"
    define new where "new = discovered_set code (nonempty (tg_abbreviation g)) name (discovery_series policy sd era)
      (release_date_from_published_on (tg_published_on g)) (tg_id g)"
    let ?work = "ingest_tx (
             bind_act (change (\<lambda>sd. sd\<lparr>sd_sets := heal_discovered new (insert_or_ignore st_code new (sd_sets sd))\<rparr>)) (\<lambda>_.
             bind_act (change (\<lambda>sd. sd\<lparr>sd_groups := link_group (tg_id g) code (sd_groups sd)\<rparr>)) (\<lambda>_.
             bind_act (synthesize_cards_for_group (tg_id g) code None) (\<lambda>n.
             ret (Some \<lparr>ds_group = tg_id g, ds_set = code, ds_name = name, ds_series = discovery_series policy sd era, ds_cards = n\<rparr>)))))"
    have "always advances ?work"
      by (intro always_tx adv.always_bind adv.always_ret always_change always_synthesize_cards_for_group
          advances_discovered advances_link_group)
    moreover have "sd' = sd \<or> ?work sd = (r, sd')"
      using run unfolding discover_group_def Some x Let_def code_def new_def by (simp split: if_splits)
    ultimately show ?thesis using alwaysD by fastforce
  qed
qed

lemma advances_discover_new_sets: "always advances (discover_new_sets policy)"
proof -
  have "always advances (discover_groups policy gs)" for gs
    by (induction gs) (auto intro!: adv.always_bind adv.always_ret always_discover_group)
  then show ?thesis unfolding discover_new_sets_def by (intro adv.always_bind adv.always_query)
qed

lemma always_put_promo: "always advances (put_promo p)"
proof (rule alwaysI)
  fix sd r sd' assume run: "put_promo p sd = (r, sd')"
  have "always advances (bind_act (insert_card c) (\<lambda>n.
        bind_act (change (\<lambda>sd. sd\<lparr>sd_cards := heal_card i name rarity img (sd_cards sd)\<rparr>)) (\<lambda>_.
        bind_act (change (ensure_code v)) (\<lambda>_. bind_act (put_printing q) (\<lambda>_. ret n)))))" for c i name rarity img v q
    by (intro adv.always_bind adv.always_ret always_insert_card always_change advances_heal_card advances_ensure_code
        always_put_printing)
  then show "advances sd sd'" using run unfolding put_promo_def Let_def by (rule alwaysD)
qed

lemma advances_promos: "always advances (synthesize_standalone_promos promos)"
proof (rule alwaysI)
  fix sd r sd' assume run: "synthesize_standalone_promos promos sd = (r, sd')"
  define present where "present = filter (\<lambda>p. list_ex (\<lambda>r. tp_id r = sm_product p) (sd_products sd)) promos"
  let ?work = "ingest_tx (bind_act (change (\<lambda>sd. sd\<lparr>sd_sets := insert_or_ignore st_code promo_set (sd_sets sd)\<rparr>)) (\<lambda>_.
            sum_each present put_promo))"
  have "always advances ?work"
    by (intro always_tx adv.always_bind always_change always_sum_each always_put_promo advances_sets)
      (simp_all add: ignore_distinct ignore_keys subset_insertI)
  moreover have "sd' = sd \<or> ?work sd = (r, sd')"
    using run unfolding synthesize_standalone_promos_def Let_def present_def [symmetric] by (simp split: if_splits)
  ultimately show "advances sd sd'" using alwaysD by fastforce
qed

section \<open>Steps that read files and responses\<close>

abbreviation ratchets :: "'a ingest \<Rightarrow> bool" where
  "ratchets \<equiv> settles advances"

named_theorems steadiness

lemmas steady_jobs [steadiness] =
  adv.settles_ret adv.settles_received adv.settles_looked_up adv.settles_bind adv.settles_stored
  adv.settles_all_or_nothing adv.settles_total_of

lemma steady_import_set_cards [steadiness]: "ratchets (import_set_cards js cs code cards)"
  unfolding import_set_cards_def
  by (intro adv.settles_stored adv.always_bind adv.always_for_each adv.always_ret always_upsert_card)

lemma steady_import_from_dir [steadiness]: "ratchets (import_from_dir js cs sets_file card_file now)"
  unfolding import_from_dir_def
  by (auto intro!: steadiness always_change advances_upsert_set split: option.split)

lemma steady_symbols [steadiness]: "ratchets (normalize_symbols env rows st)"
  unfolding settles_def
proof
  fix sd show "advances sd (snd (normalize_symbols env rows st sd))"
  proof (induction env rows st arbitrary: sd rule: normalize_symbols.induct)
    case (2 env code url rows st)
    have local: "advances sd (local_symbol code sd)"
      unfolding local_symbol_def by (rule advances_sets) (simp_all add: update_where_keys update_where_key_set)
    note go = advances_trans [OF local]
    show ?case
    proof (cases url)
      case (Some u)
      then show ?thesis using 2 go by (auto split: sum.split option.split)
    qed (use 2 in simp)
  qed (simp add: ingest_ret_def)
qed

lemma steady_all_symbols [steadiness]: "ratchets (normalize_all_symbols env)"
  using steady_symbols unfolding settles_def normalize_all_symbols_def by blast

lemma advances_put_jp_group: "advances sd (put_jp_group m now g sd)"
proof -
  let ?s = "sd\<lparr>sd_sets := upsert st_code set_jp_set (jp_set_row m g) (sd_sets sd)\<rparr>"
  have "advances sd ?s" by (rule advances_sets) (auto simp: jp_sets.upsert_distinct jp_sets.upsert_key_set)
  also have "advances ?s (?s\<lparr>sd_groups := upsert tg_id set_group (jp_group_row now g) (sd_groups ?s)\<rparr>)"
    by (rule advances_groups) (rule groups.upsert_distinct)
  finally show ?thesis by (simp add: put_jp_group_def)
qed

lemma advances_jp_import_groups: "always advances (jp_import_groups m gs now)"
  by (rule alwaysI) (auto simp: jp_import_groups_def intro: advances_fold advances_put_jp_group)

lemma advances_jp_import_products: "always advances (jp_import_products rt ps now)"
  unfolding jp_import_products_def jp_put_product_def
  by (intro always_tx adv.always_bind adv.always_for_each adv.always_if adv.always_ret always_change
      advances_put_products always_put_sealed_product)

lemma always_put_jp_card: "always advances (put_jp_card c)"
proof (rule alwaysI)
  fix sd r sd' assume run: "put_jp_card c sd = (r, sd')"
  show "advances sd sd'"
  proof (cases "has_set sd (cd_set c)")
    case True
    then have sd': "sd' = sd\<lparr>sd_cards := upsert cd_id set_jp_card c (sd_cards sd)\<rparr>" using run by (simp add: put_jp_card_def)
    have "\<forall>x \<in> set (upsert cd_id set_jp_card c (sd_cards sd)). has_set sd (cd_set x)"
      if "\<forall>x \<in> set (sd_cards sd). has_set sd (cd_set x)"
      using that True unfolding upsert_def set_jp_card_def by (auto split: if_splits)
    then show ?thesis
      unfolding sd' by (intro advances_cards) (auto simp: jp_cards.upsert_distinct jp_cards.upsert_key_set)
  next
    case False
    then show ?thesis using run by (simp add: put_jp_card_def)
  qed
qed

lemma advances_jp_synthesize_cards: "always advances (jp_synthesize_cards js g ps)"
  unfolding jp_synthesize_cards_def Let_def
  by (intro always_tx adv.always_bind adv.always_for_each adv.always_ret always_change always_put_jp_card advances_sets)
    (simp_all add: update_where_keys update_where_key_set)

lemma steady_jp_each: "ratchets (jp_import_each rt js now observed f gs st)"
proof -
  have "ratchets (jp_import_group rt js now observed f g st)" for g st
    unfolding jp_import_group_def
    by (auto intro!: steadiness advances_jp_import_products advances_jp_synthesize_cards advances_import_prices split: prod.split)
  then show ?thesis by (induction gs arbitrary: st) (auto intro!: steadiness)
qed

lemma steady_jp_import_all [steadiness]: "ratchets (jp_import_all rt js series now observed f)"
  unfolding jp_import_all_def by (intro steadiness advances_jp_import_groups steady_jp_each)

end
