(* ===== verification/Derivation.thy ===== *)
theory Derivation
  imports Catalog_Growth
begin

text \<open>
  How the catalog is built (\<open>pkdump-derive/src/lib.rs\<close>): the landing run, which asks every upstream and derives
  nothing, and the derivation, which is every step of the ingest in its order, fed by the live upstreams or by
  a replay of what was landed. The compiled-in data files, the clock and the upstreams are parameters; progress
  output, the manifests of the landing zone and the reconciliation of tables outside the model (bundles and
  search metadata) are left out.
\<close>

section \<open>Inputs\<close>

record seeds =
  se_variants :: "VariantRow list"
  se_sub_types :: "SeedGroup list"
  se_bridges :: "SetBridge list"
  se_corrections :: "UpstreamCardCorrection list"
  se_series :: SeriesMap
  se_policy :: DiscoveryPolicy
  se_promos :: "StandalonePromo list"
  se_overlay :: "VariantOverride list"
  se_aliases :: "(string \<times> string) list"
  se_prices :: "PriceOverride list"

record derive_clock =
  dc_fetched_at :: string
  dc_observed_date :: string

text \<open>What the upstreams answer; the bulk corpus is an archive of a set file and a card file per set.\<close>

record upstream =
  up_bulk :: "IngestError + (IngestError + PokemonTcgSet list) \<times> (string \<Rightarrow> (IngestError + PokemonTcgCard list) option)"
  up_sets :: "IngestError + PokemonTcgSet list"
  up_cards :: "string \<Rightarrow> IngestError + PokemonTcgCard list"
  up_english :: feed
  up_japan :: feed

record derivation =
  dv_rt :: runtime
  dv_json :: "json \<Rightarrow> string"
  dv_seeds :: seeds
  dv_clock :: derive_clock
  dv_symbols :: symbol_env

section \<open>Acquisition\<close>

text \<open>A set row that upstream has not stamped counts as missing.\<close>

definition missing_sets :: "shared_db \<Rightarrow> PokemonTcgSet list \<Rightarrow> PokemonTcgSet list" where
  "missing_sets sd sets = filter (\<lambda>s. \<not> list_ex (\<lambda>r. st_code r = ps_id s \<and> ss_fetched_at r \<noteq> None) (sd_sets sd)) sets"

definition import_tail_set :: "derivation \<Rightarrow> upstream \<Rightarrow> PokemonTcgSet \<Rightarrow> nat ingest" where
  "import_tail_set d up s =
     ingest_bind (stored (change (upsert_set (dc_fetched_at (dv_clock d)) s))) (\<lambda>_.
     ingest_bind (received (up_cards up (ps_id s)))
       (import_set_cards (dv_json d) (se_corrections (dv_seeds d)) (ps_id s)))"

definition import_tail :: "derivation \<Rightarrow> upstream \<Rightarrow> nat ingest" where
  "import_tail d up =
     ingest_bind (received (up_sets up)) (\<lambda>all.
     ingest_bind (looked_up (\<lambda>sd. missing_sets sd all)) (\<lambda>sets.
     ingest_bind (total_of sets (import_tail_set d up)) (\<lambda>_.
     ingest_ret (length sets))))"

definition import_tcgcsv_group :: "derivation \<Rightarrow> feed \<Rightarrow> TcgGroup \<Rightarrow> nat ingest" where
  "import_tcgcsv_group d f g =
     ingest_bind (received (fd_products f (g_id g))) (\<lambda>products.
     ingest_bind (stored (import_sealed_products (dv_rt d) products (dc_fetched_at (dv_clock d)))) (\<lambda>_.
     ingest_bind (stored (import_products (dv_rt d) products (dc_fetched_at (dv_clock d)))) (\<lambda>_.
     ingest_bind (received (fd_quotes f (g_id g))) (\<lambda>prices.
     stored (import_prices prices (dc_observed_date (dv_clock d)))))))"

definition import_tcgcsv :: "derivation \<Rightarrow> feed \<Rightarrow> nat ingest" where
  "import_tcgcsv d f =
     ingest_bind (received (fd_groups f)) (\<lambda>groups.
     ingest_bind (stored (import_groups (se_bridges (dv_seeds d)) groups (dc_fetched_at (dv_clock d)))) (\<lambda>_.
     total_of groups (import_tcgcsv_group d f)))"

definition download_and_import :: "derivation \<Rightarrow> upstream \<Rightarrow> ImportStats ingest" where
  "download_and_import d up =
     ingest_bind (received (up_bulk up)) (\<lambda>(sets_file, card_file).
     import_from_dir (dv_json d) (se_corrections (dv_seeds d)) sets_file card_file (dc_fetched_at (dv_clock d)))"

text \<open>The tail is the one step whose error is carried instead of thrown.\<close>

definition carried_tail :: "derivation \<Rightarrow> upstream \<Rightarrow> (nat \<times> IngestError option) ingest" where
  "carried_tail d up = (\<lambda>sd. case import_tail d up sd of
     (Inl e, sd') \<Rightarrow> (Inr (0, Some e), sd') | (Inr n, sd') \<Rightarrow> (Inr (n, None), sd'))"

definition acquire :: "derivation \<Rightarrow> upstream \<Rightarrow> (nat \<times> IngestError option) ingest" where
  "acquire d up =
     ingest_bind (download_and_import d up) (\<lambda>_.
     ingest_bind (carried_tail d up) (\<lambda>tail.
     ingest_bind (stored (apply_corrections_to_db (se_corrections (dv_seeds d)))) (\<lambda>_.
     ingest_bind (import_tcgcsv d (up_english up)) (\<lambda>_.
     ingest_bind (jp_import_all (dv_rt d) (dv_json d) (se_series (dv_seeds d)) (dc_fetched_at (dv_clock d))
       (dc_observed_date (dv_clock d)) (up_japan up)) (\<lambda>_.
     ingest_ret tail)))))"

section \<open>The derivation\<close>

record Report =
  re_sets_added :: nat
  re_printings :: nat
  re_latest_prices :: nat
  re_symbols_failed :: nat
  re_tail_error :: "IngestError option"

definition refresh_latest :: "nat shared_act" where
  "refresh_latest = (\<lambda>sd. let rows = refresh_latest_prices (sd_prices sd) in (Inr (length rows), sd\<lparr>sd_latest_prices := rows\<rparr>))"

definition reconcile_ingest_dependent_seeds :: "seeds \<Rightarrow> (nat \<times> nat) ingest" where
  "reconcile_ingest_dependent_seeds se =
     ingest_bind (stored (reconcile_aliases (se_aliases se))) (\<lambda>aliases.
     ingest_bind (stored (reconcile_overrides (se_prices se))) (\<lambda>prices. ingest_ret (aliases, prices)))"

definition derive_local :: "derivation \<Rightarrow> nat \<times> IngestError option \<Rightarrow> Report ingest" where
  "derive_local d tail =
     ingest_bind (stored (discover_new_sets (se_policy (dv_seeds d)))) (\<lambda>_.
     ingest_bind (stored (synthesize_cards_for_bridges (se_bridges (dv_seeds d)))) (\<lambda>_.
     ingest_bind (stored (synthesize_standalone_promos (se_promos (dv_seeds d)))) (\<lambda>_.
     ingest_bind (stored (expand_all_printings (dv_rt d) (se_overlay (dv_seeds d)) (dc_fetched_at (dv_clock d)))) (\<lambda>printings.
     ingest_bind (normalize_all_symbols (dv_symbols d)) (\<lambda>symbols.
     ingest_bind (stored refresh_latest) (\<lambda>latest.
     ingest_bind (reconcile_ingest_dependent_seeds (dv_seeds d)) (\<lambda>_.
     ingest_ret \<lparr>re_sets_added = fst tail, re_printings = printings, re_latest_prices = latest,
                 re_symbols_failed = ns_failed symbols, re_tail_error = snd tail\<rparr>)))))))"

definition derive :: "derivation \<Rightarrow> upstream \<Rightarrow> Report ingest" where
  "derive d up =
     ingest_bind (stored (reconcile_variants (se_variants (dv_seeds d)))) (\<lambda>_.
     ingest_bind (stored (reconcile_sub_types (se_sub_types (dv_seeds d)))) (\<lambda>_.
     ingest_bind (acquire d up) (derive_local d)))"

section \<open>The landing run\<close>

datatype Category = English | Japanese

datatype landed = BulkTarball | SetList | CardsOf string | GroupsOf Category | ProductsOf Category int | PricesOf Category int

text \<open>A landing run answers, and leaves what it asked for in the landing zone.\<close>

type_synonym 'a landing = "(IngestError + 'a) \<times> landed list"

definition ask :: "landed \<Rightarrow> IngestError + 'a \<Rightarrow> 'a landing" where
  "ask q r = (r, [q])"

definition land_bind :: "'a landing \<Rightarrow> ('a \<Rightarrow> 'b landing) \<Rightarrow> 'b landing" where
  "land_bind m k = (case m of (Inl e, qs) \<Rightarrow> (Inl e, qs) | (Inr v, qs) \<Rightarrow> (case k v of (r, qs') \<Rightarrow> (r, qs @ qs')))"

fun land_each :: "'x list \<Rightarrow> ('x \<Rightarrow> unit landing) \<Rightarrow> unit landing" where
  "land_each [] f = (Inr (), [])"
| "land_each (x # xs) f = land_bind (f x) (\<lambda>_. land_each xs f)"

definition land_tail :: "upstream \<Rightarrow> shared_db \<Rightarrow> nat landing" where
  "land_tail up sd =
     land_bind (ask SetList (up_sets up)) (\<lambda>all.
     land_bind (land_each (missing_sets sd all) (\<lambda>s.
       land_bind (ask (CardsOf (ps_id s)) (up_cards up (ps_id s))) (\<lambda>_. (Inr (), [])))) (\<lambda>_.
     (Inr (length (missing_sets sd all)), [])))"

definition land_feed :: "Category \<Rightarrow> feed \<Rightarrow> nat landing" where
  "land_feed c f =
     land_bind (ask (GroupsOf c) (fd_groups f)) (\<lambda>groups.
     land_bind (land_each groups (\<lambda>g.
       land_bind (ask (ProductsOf c (g_id g)) (fd_products f (g_id g))) (\<lambda>_.
       land_bind (ask (PricesOf c (g_id g)) (fd_quotes f (g_id g))) (\<lambda>_. (Inr (), []))))) (\<lambda>_.
     (Inr (length groups), [])))"

definition land :: "upstream \<Rightarrow> shared_db \<Rightarrow> (nat \<times> IngestError option) landing" where
  "land up sd =
     (case land_tail up sd of (r, qs) \<Rightarrow>
        land_bind (Inr (case r of Inl e \<Rightarrow> (0, Some e) | Inr n \<Rightarrow> (n, None)), qs) (\<lambda>tail.
        land_bind (land_feed English (up_english up)) (\<lambda>_.
        land_bind (land_feed Japanese (up_japan up)) (\<lambda>_.
        land_bind (ask BulkTarball (up_bulk up)) (\<lambda>_.
        (Inr tail, []))))))"

section \<open>The catalog only grows\<close>

lemma steady_tail: "ratchets (import_tail d up)"
  unfolding import_tail_def import_tail_set_def
  by (intro steadiness always_change advances_upsert_set)

lemma steady_carried_tail [steadiness]: "ratchets (carried_tail d up)"
proof (rule settlesI)
  fix sd r sd' assume run: "carried_tail d up sd = (r, sd')"
  obtain q s where q: "import_tail d up sd = (q, s)" by force
  show "advances sd sd'" using settlesD [OF steady_tail q] run q by (cases q) (auto simp: carried_tail_def)
qed

lemma steady_tcgcsv [steadiness]: "ratchets (import_tcgcsv d f)"
  unfolding import_tcgcsv_def import_tcgcsv_group_def
  by (intro steadiness advances_import_groups advances_import_sealed_products advances_import_products advances_import_prices)

lemma steady_bulk [steadiness]: "ratchets (download_and_import d up)"
  unfolding download_and_import_def by (auto intro!: steadiness split: prod.split)

lemma steady_acquire [steadiness]: "ratchets (acquire d up)"
  unfolding acquire_def by (intro steadiness advances_apply_corrections)

lemma always_refresh_latest: "always advances refresh_latest"
  by (rule alwaysI) (auto simp: refresh_latest_def Let_def intro: advances_curated)

lemma steady_derive_local [steadiness]: "ratchets (derive_local d tail)"
  unfolding derive_local_def reconcile_ingest_dependent_seeds_def
  by (intro steadiness advances_discover_new_sets advances_synthesize_for_bridges advances_promos
      advances_expand_all_printings always_refresh_latest advances_reconcile_aliases advances_reconcile_overrides)

lemma steady_derive: "ratchets (derive d up)"
  unfolding derive_def by (intro steadiness advances_reconcile_variants advances_reconcile_sub_types)

text \<open>
  C23. A derivation, whatever the upstreams answer and wherever it stops, keeps every reference a tenant can hold:
  each printing of the catalog is still there, of the same card and variant, each sealed product too, no
  observed price is lost, and a catalog that satisfied its constraints still does.
\<close>

theorem derive_keeps_references:
  "let sd' = snd (derive d up sd) in
     (\<lambda>p. (pg_id p, pg_card p, pg_variant p)) ` set (cat_printings (catalog_of sd)) \<subseteq>
       (\<lambda>p. (pg_id p, pg_card p, pg_variant p)) ` set (cat_printings (catalog_of sd')) \<and>
     sp_id ` set (cat_sealed_products (catalog_of sd)) \<subseteq> sp_id ` set (cat_sealed_products (catalog_of sd')) \<and>
     set (sd_prices sd) \<subseteq> set (sd_prices sd') \<and> set (sd_sealed_prices sd) \<subseteq> set (sd_sealed_prices sd') \<and>
     keeps_shared sd sd'"
proof -
  have "advances sd (snd (derive d up sd))" using steady_derive [of d up] by (simp add: settles_def)
  moreover have "cat_printings (catalog_of x) = sd_printings x"
    "sp_id ` set (cat_sealed_products (catalog_of x)) = sp_id ` set (sd_sealed_products x)" for x
    by (simp_all add: catalog_of_def image_image SealedProduct.truncate_def)
  ultimately show ?thesis unfolding Let_def advances_def catalog_grows_def by (simp only:)
qed

section \<open>A failing set list costs only the tail\<close>

lemma ingest_bind_Inr:
  "ingest_bind m k sd = (Inr v, sd') \<longleftrightarrow> (\<exists>u s. m sd = (Inr u, s) \<and> k u s = (Inr v, sd'))"
  by (auto simp: ingest_bind_def split: prod.split sum.split)

lemma received_Inr [simp]: "received r sd = (Inr v, sd') \<longleftrightarrow> r = Inr v \<and> sd' = sd"
  by (auto simp: received_def)

lemma stored_Inr: "stored m sd = (Inr v, sd') \<longleftrightarrow> m sd = (Inr v, sd')"
  by (auto simp: stored_def split: prod.split sum.split)

text \<open>The same run with another result.\<close>

definition with_result :: "('a \<Rightarrow> 'b) \<Rightarrow> (IngestError + 'a) \<times> shared_db \<Rightarrow> (IngestError + 'b) \<times> shared_db" where
  "with_result f = (\<lambda>(r, sd). (map_sum id f r, sd))"

lemma with_result_bind:
  "(\<And>v s. k v s = with_result f (k' v s)) \<Longrightarrow> ingest_bind m k s = with_result f (ingest_bind m k' s)"
  by (auto simp: ingest_bind_def with_result_def split: prod.split sum.split)

lemma with_result_ret: "f v = w \<Longrightarrow> ingest_ret w s = with_result f (ingest_ret v s)"
  by (simp add: with_result_def ingest_ret_def)

lemma bind_with_result:
  "m s = with_result g (m' s) \<Longrightarrow> (\<And>v s. k (g v) s = with_result f (k' v s)) \<Longrightarrow>
     ingest_bind m k s = with_result f (ingest_bind m' k' s)"
  by (auto simp: ingest_bind_def with_result_def split: prod.split sum.split)

lemma derive_local_carries:
  "derive_local d (n, Some e) s = with_result (\<lambda>r. r\<lparr>re_tail_error := Some e\<rparr>) (derive_local d (n, None) s)"
  unfolding derive_local_def by (intro with_result_bind with_result_ret) simp

lemma carried_empty: "carried_tail d (up\<lparr>up_sets := Inr []\<rparr>) s = (Inr (0, None), s)"
  by (simp add: carried_tail_def import_tail_def ingest_bind_def received_def looked_up_def ingest_ret_def missing_sets_def)

lemma carried_failure: "carried_tail d (up\<lparr>up_sets := Inl e\<rparr>) s = (Inr (0, Some e), s)"
  by (simp add: carried_tail_def import_tail_def ingest_bind_def received_def)

text \<open>
  C24. When pokemontcg.io fails to answer with its list of sets, a derivation does everything it does on a night on
  which the list brings nothing: the same catalog results, with the same cards, printings, prices and symbols, at
  success as at any later error, and the report is the same but for the error, which it carries.
\<close>

theorem failing_set_list_costs_only_the_tail:
  "derive d (up\<lparr>up_sets := Inl e\<rparr>) sd =
     (case derive d (up\<lparr>up_sets := Inr []\<rparr>) sd of
        (Inl x, sd') \<Rightarrow> (Inl x, sd')
      | (Inr report, sd') \<Rightarrow> (Inr (report\<lparr>re_tail_error := Some e\<rparr>), sd'))"
proof -
  have bulk: "download_and_import d (up\<lparr>up_sets := x\<rparr>) = download_and_import d up" for x
    by (simp add: download_and_import_def)
  have acquire: "acquire d (up\<lparr>up_sets := Inl e\<rparr>) s =
      with_result (\<lambda>t. (fst t, Some e)) (acquire d (up\<lparr>up_sets := Inr []\<rparr>) s)" for s
    unfolding acquire_def bulk
    by (rule with_result_bind, rule bind_with_result [where g = "\<lambda>t. (fst t, Some e)"])
      (simp add: carried_empty carried_failure with_result_def, simp, intro with_result_bind with_result_ret, simp)
  have quiet: "snd t = None" if "acquire d (up\<lparr>up_sets := Inr []\<rparr>) s = (Inr t, s')" for s t s'
    using that unfolding acquire_def by (auto simp: ingest_bind_Inr carried_empty ingest_ret_def)
  have "ingest_bind (acquire d (up\<lparr>up_sets := Inl e\<rparr>)) (derive_local d) s =
      with_result (\<lambda>r. r\<lparr>re_tail_error := Some e\<rparr>) (ingest_bind (acquire d (up\<lparr>up_sets := Inr []\<rparr>)) (derive_local d) s)" for s
    using derive_local_carries [of d _ e] acquire [of s] quiet [of s]
    by (cases "acquire d (up\<lparr>up_sets := Inr []\<rparr>) s")
      (auto simp: ingest_bind_def with_result_def split: sum.split)
  then have "derive d (up\<lparr>up_sets := Inl e\<rparr>) sd =
      with_result (\<lambda>r. r\<lparr>re_tail_error := Some e\<rparr>) (derive d (up\<lparr>up_sets := Inr []\<rparr>) sd)"
    unfolding derive_def by (intro with_result_bind)
  then show ?thesis by (simp add: with_result_def split: prod.split sum.split)
qed

section \<open>A replay of what was landed derives the same catalog\<close>

definition feed_of :: "Category \<Rightarrow> upstream \<Rightarrow> feed" where
  "feed_of c up = (case c of English \<Rightarrow> up_english up | Japanese \<Rightarrow> up_japan up)"

text \<open>The replay has what the upstream answered to this request.\<close>

definition replays :: "upstream \<Rightarrow> upstream \<Rightarrow> landed \<Rightarrow> bool" where
  "replays up re q = (case q of
     BulkTarball \<Rightarrow> up_bulk re = up_bulk up
   | SetList \<Rightarrow> up_sets re = up_sets up
   | CardsOf s \<Rightarrow> up_cards re s = up_cards up s
   | GroupsOf c \<Rightarrow> fd_groups (feed_of c re) = fd_groups (feed_of c up)
   | ProductsOf c g \<Rightarrow> fd_products (feed_of c re) g = fd_products (feed_of c up) g
   | PricesOf c g \<Rightarrow> fd_quotes (feed_of c re) g = fd_quotes (feed_of c up) g)"

definition confirmed :: "shared_db \<Rightarrow> string set" where
  "confirmed sd = st_code ` {s \<in> set (sd_sets sd). ss_fetched_at s \<noteq> None}"

lemma missing_sets_confirmed: "missing_sets sd sets = filter (\<lambda>s. ps_id s \<notin> confirmed sd) sets"
proof -
  have "list_ex (\<lambda>r. st_code r = ps_id s \<and> ss_fetched_at r \<noteq> None) (sd_sets sd) \<longleftrightarrow> ps_id s \<in> confirmed sd" for s :: PokemonTcgSet
    unfolding confirmed_def list_ex_iff image_iff by (metis (mono_tags, lifting) mem_Collect_eq)
  then show ?thesis by (simp only: missing_sets_def)
qed

interpretation stamp: step_relation "\<lambda>s s'. confirmed s \<subseteq> confirmed s'" "\<lambda>s s'. s"
  by unfold_locales auto

lemma same_sets: "sd_sets s' = sd_sets s \<Longrightarrow> confirmed s \<subseteq> confirmed s'"
  by (simp add: confirmed_def)

lemma stamped_upsert: "confirmed sd \<subseteq> confirmed (upsert_set now s sd)"
proof
  fix code assume "code \<in> confirmed sd"
  then obtain r where r: "r \<in> set (sd_sets sd)" "ss_fetched_at r \<noteq> None" "code = st_code r" by (auto simp: confirmed_def)
  let ?new = "ptcg_set_row now s"
  show "code \<in> confirmed (upsert_set now s sd)"
  proof (cases "st_code ?new \<in> st_code ` set (sd_sets sd)")
    case True
    let ?r = "if st_code r = st_code ?new then set_upstream ?new r else r"
    have "?r \<in> set (sd_sets (upsert_set now s sd))"
      unfolding upsert_set_def by (simp add: upsert_hit [OF True]) (use r(1) in blast)
    moreover have "st_code ?r = code" "ss_fetched_at ?r \<noteq> None"
      using r by (simp_all add: set_upstream_def ptcg_set_row_def)
    ultimately show ?thesis unfolding confirmed_def by blast
  next
    case False
    then have "r \<in> set (sd_sets (upsert_set now s sd))" using r(1) by (simp add: upsert_set_def upsert_miss)
    then show ?thesis using r unfolding confirmed_def by blast
  qed
qed

lemma stamped_upsert_card: "always (\<lambda>s s'. confirmed s \<subseteq> confirmed s') (upsert_card js cs code c)"
  by (rule alwaysI, rule same_sets) (auto simp: upsert_card_def split: if_splits)

lemma stamped_bulk: "settles (\<lambda>s s'. confirmed s \<subseteq> confirmed s') (download_and_import d up)"
proof -
  have cards: "settles (\<lambda>s s'. confirmed s \<subseteq> confirmed s') (import_set_cards js cs code cards)" for js cs code cards
    unfolding import_set_cards_def
    by (intro stamp.settles_stored stamp.always_bind stamp.always_for_each stamp.always_ret stamped_upsert_card)
  have "always (\<lambda>s s'. confirmed s \<subseteq> confirmed s') (change (upsert_set now s))" for now s
    by (simp add: always_def change_def stamped_upsert)
  then show ?thesis
    unfolding download_and_import_def import_from_dir_def
    by (auto intro!: stamp.settles_bind stamp.settles_received stamp.settles_all_or_nothing stamp.settles_total_of
        stamp.settles_ret stamp.settles_stored cards split: prod.split option.split)
qed

lemma reconcile_variants_sets: "sd_sets (snd (reconcile_variants seed sd)) = sd_sets sd"
proof -
  have "sd_sets (fold upsert_variant vs s) = sd_sets s" for vs s by (simp add: fold_upsert_variants)
  moreover have "sd_sets (fold (\<lambda>c. upsert_variant (synthesize c)) cs s) = sd_sets s" for cs s
    by (induction cs arbitrary: s) (simp_all add: upsert_variant_def)
  ultimately show ?thesis by (simp add: reconcile_variants_def Let_def)
qed

lemma stamped_sub_types: "always (\<lambda>s s'. confirmed s \<subseteq> confirmed s') (reconcile_sub_types seed)"
proof -
  have "always (\<lambda>s s'. confirmed s \<subseteq> confirmed s') (insert_sub_type e)" for e
    by (rule alwaysI, rule same_sets) (auto simp: insert_sub_type_def split: if_splits)
  moreover have "always (\<lambda>s s'. confirmed s \<subseteq> confirmed s') (change (\<lambda>sd. sd\<lparr>sd_sub_types := []\<rparr>))"
    by (simp add: always_def change_def confirmed_def)
  ultimately show ?thesis
    unfolding reconcile_sub_types_def ingest_tx_def
    by (intro stamp.always_transaction stamp.always_bind stamp.always_for_each stamp.always_ret)
qed

text \<open>What is in the log of a landing run.\<close>

lemma land_bind_Inr:
  "land_bind m k = (Inr v, qs) \<longleftrightarrow> (\<exists>u qs1 qs2. m = (Inr u, qs1) \<and> k u = (Inr v, qs2) \<and> qs = qs1 @ qs2)"
  by (auto simp: land_bind_def split: prod.splits sum.splits)

lemma ask_Inr [simp]: "ask q r = (Inr v, qs) \<longleftrightarrow> r = Inr v \<and> qs = [q]"
  by (auto simp: ask_def)

lemma land_each_log:
  "land_each xs f = (Inr u, qs) \<Longrightarrow> x \<in> set xs \<Longrightarrow> \<exists>qs'. f x = (Inr (), qs') \<and> set qs' \<subseteq> set qs"
proof (induction xs arbitrary: qs)
  case (Cons y ys)
  then obtain qs1 qs2 where "f y = (Inr (), qs1)" "land_each ys f = (Inr (), qs2)" "qs = qs1 @ qs2"
    by (auto simp: land_bind_Inr)
  then show ?case using Cons.IH [of qs2] Cons.prems(2) by (cases "x = y") fastforce+
qed simp

lemma land_feed_log:
  assumes "land_feed c f = (Inr n, qs)"
  obtains gs where "fd_groups f = Inr gs" "GroupsOf c \<in> set qs"
    "\<And>g. g \<in> set gs \<Longrightarrow> ProductsOf c (g_id g) \<in> set qs \<and> PricesOf c (g_id g) \<in> set qs"
proof -
  obtain gs qs2 where gs: "fd_groups f = Inr gs" "qs = GroupsOf c # qs2"
    "land_each gs (\<lambda>g. land_bind (ask (ProductsOf c (g_id g)) (fd_products f (g_id g))) (\<lambda>_.
       land_bind (ask (PricesOf c (g_id g)) (fd_quotes f (g_id g))) (\<lambda>_. (Inr (), [])))) = (Inr (), qs2)"
    using assms unfolding land_feed_def by (auto simp: land_bind_Inr)
  show thesis
  proof (rule that [OF gs(1)])
    show "GroupsOf c \<in> set qs" by (simp add: gs(2))
    fix g assume "g \<in> set gs"
    from land_each_log [OF gs(3) this] show "ProductsOf c (g_id g) \<in> set qs \<and> PricesOf c (g_id g) \<in> set qs"
      by (auto simp: land_bind_Inr gs(2))
  qed
qed

lemma land_log:
  assumes "land up sd = (Inr (n, None), qs)"
  obtains all k1 q2 k2 q3 where "up_sets up = Inr all" "SetList \<in> set qs" "BulkTarball \<in> set qs"
    "\<And>s. s \<in> set (missing_sets sd all) \<Longrightarrow> CardsOf (ps_id s) \<in> set qs"
    "land_feed English (up_english up) = (Inr k1, q2)" "set q2 \<subseteq> set qs"
    "land_feed Japanese (up_japan up) = (Inr k2, q3)" "set q3 \<subseteq> set qs"
proof -
  obtain r q1 where tail: "land_tail up sd = (r, q1)" by force
  obtain n' where r: "r = Inr n'" using assms by (auto simp: land_def tail land_bind_Inr split: sum.splits)
  obtain all q1' where all: "up_sets up = Inr all" "q1 = SetList # q1'"
    "land_each (missing_sets sd all) (\<lambda>s. land_bind (ask (CardsOf (ps_id s)) (up_cards up (ps_id s))) (\<lambda>_. (Inr (), []))) = (Inr (), q1')"
    using tail unfolding r land_tail_def by (auto simp: land_bind_Inr)
  obtain k1 q2 k2 q3 where rest: "land_feed English (up_english up) = (Inr k1, q2)"
    "land_feed Japanese (up_japan up) = (Inr k2, q3)" "qs = q1 @ q2 @ q3 @ [BulkTarball]"
    using assms unfolding land_def tail by (auto simp: land_bind_Inr)
  show thesis
  proof (rule that [OF all(1)])
    show "SetList \<in> set qs" "BulkTarball \<in> set qs" by (simp_all add: rest(3) all(2))
    show "CardsOf (ps_id s) \<in> set qs" if "s \<in> set (missing_sets sd all)" for s
      using land_each_log [OF all(3) that] by (auto simp: land_bind_Inr rest(3) all(2))
  qed (use rest in auto)
qed

text \<open>Equal answers to the requests of a step give equal steps.\<close>

lemma ingest_bind_cong:
  assumes "m sd = m' sd" "\<And>v s. m sd = (Inr v, s) \<Longrightarrow> k v s = k' v s"
  shows "ingest_bind m k sd = ingest_bind m' k' sd"
  using assms by (auto simp: ingest_bind_def split: prod.split sum.split)

lemma ingest_bind_received [simp]: "ingest_bind (received (Inr v)) k = k v"
  by (rule ext) (simp add: ingest_bind_def received_def)

lemma total_of_cong: "(\<And>x. x \<in> set xs \<Longrightarrow> f x = g x) \<Longrightarrow> total_of xs f = total_of xs g"
  by (induction xs) simp_all

lemma replayed_feed:
  assumes "land_feed c (feed_of c up) = (Inr n, qs)" "\<And>q. q \<in> set qs \<Longrightarrow> replays up re q"
  obtains gs where "fd_groups (feed_of c re) = Inr gs" "fd_groups (feed_of c up) = Inr gs"
    "\<And>g. g \<in> set gs \<Longrightarrow> fd_products (feed_of c re) (g_id g) = fd_products (feed_of c up) (g_id g) \<and>
       fd_quotes (feed_of c re) (g_id g) = fd_quotes (feed_of c up) (g_id g)"
proof -
  from assms(1) obtain gs where gs: "fd_groups (feed_of c up) = Inr gs" "GroupsOf c \<in> set qs"
    "\<And>g. g \<in> set gs \<Longrightarrow> ProductsOf c (g_id g) \<in> set qs \<and> PricesOf c (g_id g) \<in> set qs"
    by (rule land_feed_log) blast
  show thesis
  proof (rule that [OF _ gs(1)])
    show "fd_groups (feed_of c re) = Inr gs" using assms(2) [OF gs(2)] gs(1) by (simp add: replays_def)
    fix g assume "g \<in> set gs"
    then show "fd_products (feed_of c re) (g_id g) = fd_products (feed_of c up) (g_id g) \<and>
       fd_quotes (feed_of c re) (g_id g) = fd_quotes (feed_of c up) (g_id g)"
      using gs(3) assms(2) [of "ProductsOf c (g_id g)"] assms(2) [of "PricesOf c (g_id g)"] by (simp add: replays_def)
  qed
qed

lemma replayed_english:
  assumes "land_feed English (up_english up) = (Inr n, qs)" "\<And>q. q \<in> set qs \<Longrightarrow> replays up re q"
  shows "import_tcgcsv d (up_english re) = import_tcgcsv d (up_english up)"
proof -
  have log: "land_feed English (feed_of English up) = (Inr n, qs)" using assms(1) by (simp add: feed_of_def)
  show ?thesis
  proof (rule replayed_feed [OF log assms(2)], assumption, unfold feed_of_def Category.case)
    fix gs assume gs: "fd_groups (up_english re) = Inr gs" "fd_groups (up_english up) = Inr gs"
      "\<And>g. g \<in> set gs \<Longrightarrow> fd_products (up_english re) (g_id g) = fd_products (up_english up) (g_id g) \<and>
         fd_quotes (up_english re) (g_id g) = fd_quotes (up_english up) (g_id g)"
    have "total_of gs (import_tcgcsv_group d (up_english re)) = total_of gs (import_tcgcsv_group d (up_english up))"
      by (rule total_of_cong) (simp add: import_tcgcsv_group_def gs(3))
    then show ?thesis by (simp add: import_tcgcsv_def gs(1,2))
  qed
qed

lemma replayed_japanese:
  assumes "land_feed Japanese (up_japan up) = (Inr n, qs)" "\<And>q. q \<in> set qs \<Longrightarrow> replays up re q"
  shows "jp_import_all rt js series now observed (up_japan re) = jp_import_all rt js series now observed (up_japan up)"
proof -
  have log: "land_feed Japanese (feed_of Japanese up) = (Inr n, qs)" using assms(1) by (simp add: feed_of_def)
  show ?thesis
  proof (rule replayed_feed [OF log assms(2)], assumption, unfold feed_of_def Category.case)
    fix gs assume gs: "fd_groups (up_japan re) = Inr gs" "fd_groups (up_japan up) = Inr gs"
      "\<And>g. g \<in> set gs \<Longrightarrow> fd_products (up_japan re) (g_id g) = fd_products (up_japan up) (g_id g) \<and>
         fd_quotes (up_japan re) (g_id g) = fd_quotes (up_japan up) (g_id g)"
    have one: "jp_import_group rt js now observed (up_japan re) g = jp_import_group rt js now observed (up_japan up) g" if "g \<in> set gs" for g
      by (rule ext) (simp add: jp_import_group_def gs(3) that)
    have "jp_import_each rt js now observed (up_japan re) xs = jp_import_each rt js now observed (up_japan up) xs"
      if "set xs \<subseteq> set gs" for xs
      using that by (induction xs) (auto intro!: ext simp: one)
    from this [OF order.refl] show ?thesis by (simp add: jp_import_all_def gs(1,2))
  qed
qed

lemma replayed_tail:
  assumes "land up sd0 = (Inr (n, None), qs)" "\<And>q. q \<in> set qs \<Longrightarrow> replays up re q" "confirmed sd0 \<subseteq> confirmed sd"
  shows "import_tail d re sd = import_tail d up sd"
proof -
  from assms(1) obtain all where all: "up_sets up = Inr all" "SetList \<in> set qs"
    "\<And>s. s \<in> set (missing_sets sd0 all) \<Longrightarrow> CardsOf (ps_id s) \<in> set qs"
    by (rule land_log) blast
  have "set (missing_sets sd all) \<subseteq> set (missing_sets sd0 all)" using assms(3) by (auto simp: missing_sets_confirmed)
  then have cards: "up_cards re (ps_id s) = up_cards up (ps_id s)" if "s \<in> set (missing_sets sd all)" for s
    using assms(2) [OF all(3)] that by (auto simp: replays_def)
  have "total_of (missing_sets sd all) (import_tail_set d re) = total_of (missing_sets sd all) (import_tail_set d up)"
    by (rule total_of_cong) (simp add: import_tail_set_def cards)
  moreover have "up_sets re = Inr all" using assms(2) [OF all(2)] all(1) by (simp add: replays_def)
  ultimately show ?thesis by (simp add: import_tail_def all(1) received_def looked_up_def ingest_bind_def)
qed

text \<open>
  C22. A replay is the live run: let a landing run have returned with the whole of the tail, and let the replay
  hold what it logged. Then deriving from the replay gives the outcome and the catalog that deriving from the
  live upstreams gives, on every catalog that has at least the confirmed sets of the one the landing run read.
\<close>

theorem replay_is_live:
  assumes "land up sd0 = (Inr (n, None), qs)" "list_all (replays up re) qs" "confirmed sd0 \<subseteq> confirmed sd"
  shows "derive d re sd = derive d up sd"
proof -
  have re: "\<And>q. q \<in> set qs \<Longrightarrow> replays up re q" using assms(2) by (simp add: list_all_iff)
  from assms(1) obtain k1 q2 k2 q3 where log: "BulkTarball \<in> set qs"
    "land_feed English (up_english up) = (Inr k1, q2)" "set q2 \<subseteq> set qs"
    "land_feed Japanese (up_japan up) = (Inr k2, q3)" "set q3 \<subseteq> set qs"
    by (rule land_log) blast
  have bulk: "download_and_import d re = download_and_import d up"
    using re [OF log(1)] by (simp add: download_and_import_def replays_def)
  have english: "import_tcgcsv d (up_english re) = import_tcgcsv d (up_english up)"
    by (rule replayed_english [OF log(2)]) (use re log(3) in blast)
  have japanese: "jp_import_all rt js series now observed (up_japan re) = jp_import_all rt js series now observed (up_japan up)"
    for rt js series now observed by (rule replayed_japanese [OF log(4)]) (use re log(5) in blast)
  have acquire: "acquire d re s = acquire d up s" if "confirmed sd0 \<subseteq> confirmed s" for s
    unfolding acquire_def bulk english japanese
  proof (rule ingest_bind_cong [OF refl])
    fix v s' assume "download_and_import d up s = (Inr v, s')"
    then have "confirmed s \<subseteq> confirmed s'" by (rule settlesD [OF stamped_bulk])
    then have "import_tail d re s' = import_tail d up s'" by (intro replayed_tail [OF assms(1) re]) (use that in blast)+
    then have "carried_tail d re s' = carried_tail d up s'" by (simp add: carried_tail_def)
    then show "ingest_bind (carried_tail d re) k s' = ingest_bind (carried_tail d up) k s'" for k
      by (simp add: ingest_bind_def)
  qed
  show ?thesis unfolding derive_def
  proof (rule ingest_bind_cong [OF refl], rule ingest_bind_cong [OF refl])
    fix v s w s' assume run: "stored (reconcile_variants (se_variants (dv_seeds d))) sd = (Inr v, s)"
      "stored (reconcile_sub_types (se_sub_types (dv_seeds d))) s = (Inr w, s')"
    have "confirmed s = confirmed sd"
      using run(1) reconcile_variants_sets [of "se_variants (dv_seeds d)" sd] by (simp add: stored_Inr confirmed_def)
    moreover have "confirmed s \<subseteq> confirmed s'"
      using alwaysD [OF stamped_sub_types] run(2) by (simp add: stored_Inr)
    ultimately have "acquire d re s' = acquire d up s'" by (intro acquire) (use assms(3) in blast)
    then show "ingest_bind (acquire d re) (derive_local d) s' = ingest_bind (acquire d up) (derive_local d) s'"
      by (simp add: ingest_bind_def)
  qed
qed

section \<open>A sample night\<close>

definition sample_derivation :: derivation where
  "sample_derivation =
     \<lparr>dv_rt = plain_runtime, dv_json = (\<lambda>_. ''{}''),
      dv_seeds = \<lparr>se_variants = [], se_sub_types = [], se_bridges = [], se_corrections = [],
        se_series = \<lparr>sm_undated = ''JP'', sm_eras = [], sm_overrides = []\<rparr>,
        se_policy = \<lparr>dp_min_numbers = 5, dp_deny = [], dp_series = []\<rparr>,
        se_promos = [], se_overlay = [], se_aliases = [], se_prices = []\<rparr>,
      dv_clock = \<lparr>dc_fetched_at = ''now'', dc_observed_date = ''2026-08-11''\<rparr>,
      dv_symbols = \<lparr>sy_cached = (\<lambda>_ _. True), sy_fetch = (\<lambda>_. Inr []), sy_write = (\<lambda>_ _. None)\<rparr>\<rparr>"

definition sample_night :: "IngestError + PokemonTcgSet list \<Rightarrow> upstream" where
  "sample_night sets =
     \<lparr>up_bulk = Inr (Inr [], \<lambda>_. None), up_sets = sets, up_cards = (\<lambda>_. Inr []),
      up_english =
        \<lparr>fd_groups = Inr [base_group], fd_products = (\<lambda>_. Inr []),
         fd_quotes = (\<lambda>g. Inr (if g = 604 then
           [\<lparr>tq_product = 7, tq_sub_type = None, tq_low = None, tq_mid = None, tq_high = None,
             tq_market = Some 1, tq_direct_low = None\<rparr>] else []))\<rparr>,
      up_japan = \<lparr>fd_groups = Inr [], fd_products = (\<lambda>_. Inr []), fd_quotes = (\<lambda>_. Inr [])\<rparr>\<rparr>"

text \<open>The state the night leaves: the group filed, its one quote stored.\<close>

definition after_sample_night :: shared_db where
  "after_sample_night = empty_shared\<lparr>
     sd_groups := [\<lparr>tg_id = 604, tg_set_code = None, tg_name = ''Base Set'', tg_abbreviation = Some ''bs'',
       tg_published_on = Some ''1999-01-09'', tg_fetched_at = ''now'', tg_role = ''primary''\<rparr>],
     sd_prices := [\<lparr>px_product = 7, px_sub_type = ''Normal'', px_source = ''tcgplayer'', px_type = ''market'',
       px_price = 1, px_observed_at = ''2026-08-11''\<rparr>]\<rparr>"

abbreviation failing_night :: upstream where
  "failing_night \<equiv> sample_night (Inl (IngestHttp ''502''))"

lemma sample_seeds: "stored (reconcile_variants []) empty_shared = (Inr 0, empty_shared)"
  "stored (reconcile_sub_types []) empty_shared = (Inr 0, empty_shared)"
  by code_simp+

lemma sample_bulk: "download_and_import sample_derivation failing_night empty_shared = (Inr \<lparr>is_sets = 0, is_cards = 0\<rparr>, empty_shared)"
  by code_simp

lemma sample_tail: "carried_tail sample_derivation failing_night empty_shared = (Inr (0, Some (IngestHttp ''502'')), empty_shared)"
  by code_simp

lemma sample_corrections: "stored (apply_corrections_to_db []) empty_shared = (Inr [], empty_shared)"
  by code_simp

lemma sample_english: "import_tcgcsv sample_derivation (up_english failing_night) empty_shared = (Inr 1, after_sample_night)"
  by code_simp

lemma sample_japan:
  "jp_import_all plain_runtime (\<lambda>_. ''{}'') (se_series (dv_seeds sample_derivation)) ''now'' ''2026-08-11'' (up_japan failing_night) sd =
     (Inr \<lparr>jn_groups = 0, jn_card_products = 0, jn_sealed_products = 0, jn_cards = 0, jn_price_rows = 0\<rparr>, sd)"
  by (simp add: jp_import_all_def sample_night_def ingest_bind_def received_def stored_def jp_import_groups_def act_simps ingest_ret_def)

lemma sample_local:
  "derive_local sample_derivation (0, e) after_sample_night =
     (Inr \<lparr>re_sets_added = 0, re_printings = 0, re_latest_prices = 1, re_symbols_failed = 0, re_tail_error = e\<rparr>,
      after_sample_night\<lparr>sd_latest_prices := refresh_latest_prices (sd_prices after_sample_night)\<rparr>)"
  by code_simp

text \<open>On a night on which the set list fails, the one quote of the feed is stored and priced all the same.\<close>

lemma failing_night_run:
  "derive sample_derivation failing_night empty_shared =
     (Inr \<lparr>re_sets_added = 0, re_printings = 0, re_latest_prices = 1, re_symbols_failed = 0,
           re_tail_error = Some (IngestHttp ''502'')\<rparr>,
      after_sample_night\<lparr>sd_latest_prices := refresh_latest_prices (sd_prices after_sample_night)\<rparr>)"
proof -
  have fields: "se_variants (dv_seeds sample_derivation) = []" "se_sub_types (dv_seeds sample_derivation) = []"
    "se_corrections (dv_seeds sample_derivation) = []" "dv_rt sample_derivation = plain_runtime"
    "dv_json sample_derivation = (\<lambda>_. ''{}'')" "dc_fetched_at (dv_clock sample_derivation) = ''now''"
    "dc_observed_date (dv_clock sample_derivation) = ''2026-08-11''"
    by (simp_all add: sample_derivation_def)
  show ?thesis
    unfolding derive_def acquire_def fields
    by (simp add: ingest_bind_def ingest_ret_def sample_seeds sample_bulk sample_tail sample_corrections sample_english
        sample_japan sample_local)
qed

lemma replay_is_live_witness:
  "let live = sample_night (Inr []); re = live\<lparr>up_japan := (up_japan live)\<lparr>fd_products := (\<lambda>_. Inl (IngestHttp ''404''))\<rparr>\<rparr> in
     derive sample_derivation re empty_shared = derive sample_derivation live empty_shared"
proof -
  let ?live = "sample_night (Inr [])"
  let ?re = "?live\<lparr>up_japan := (up_japan ?live)\<lparr>fd_products := (\<lambda>_. Inl (IngestHttp ''404''))\<rparr>\<rparr>"
  have log: "land ?live empty_shared =
      (Inr (0, None), [SetList, GroupsOf English, ProductsOf English 604, PricesOf English 604, GroupsOf Japanese, BulkTarball])"
    by code_simp
  have "list_all (replays ?live ?re)
      [SetList, GroupsOf English, ProductsOf English 604, PricesOf English 604, GroupsOf Japanese, BulkTarball]"
    by (simp add: replays_def feed_of_def)
  then show ?thesis unfolding Let_def by (rule replay_is_live [OF log]) simp
qed

end
