(* ===== verification/Catalog_Views.thy ===== *)
theory Catalog_Views
  imports Collection Shared_Catalog
begin

text \<open>
  The pages that show the catalog against what a tenant holds: the rarity typology (\<open>search_meta.rs\<close>), the set
  picker and the statistics of a set (\<open>sets.rs\<close>), the binder page and the list of missing cards
  (\<open>binder.rs\<close>), bundles (\<open>bundles.rs\<close>) and the card page (\<open>cards.rs\<close>). Each read is a function of the
  catalog database, of the two curated tables no ingest step writes (\<open>curated\<close>) and of the tenant's database;
  floating-point arithmetic is the parameter \<open>arith\<close>. A printing's language, badge and image override are left out.
\<close>

section \<open>Order and choice\<close>

text \<open>A stable descending sort.\<close>

definition order_desc :: "('a \<Rightarrow> 'k :: linorder) \<Rightarrow> 'a list \<Rightarrow> 'a list" where
  "order_desc f xs = rev (sort_key f (rev xs))"

text \<open>\<open>f64::total_cmp\<close>, as the order of integers.\<close>

definition total_key :: "f64 \<Rightarrow> int" where
  "total_key x = (if uint x < 2 ^ 63 then uint x else 2 ^ 63 - 1 - uint x)"

definition least_by :: "('a \<Rightarrow> int) \<Rightarrow> 'a list \<Rightarrow> 'a option" where
  "least_by f xs = (case sort_key f xs of [] \<Rightarrow> None | x # _ \<Rightarrow> Some x)"

definition greatest_by :: "('a \<Rightarrow> int) \<Rightarrow> 'a list \<Rightarrow> 'a option" where
  "greatest_by f xs = (case sort_key f xs of [] \<Rightarrow> None | ys \<Rightarrow> Some (last ys))"

section \<open>Rarities\<close>

record Rarity =
  ra_name :: string
  ra_rank :: int
  ra_grp :: "string option"

record Bundle =
  bu_slug :: string
  bu_name :: string
  bu_year :: int
  bu_group :: int
  bu_series :: string

record curated =
  cu_rarities :: "Rarity list"
  cu_bundles :: "Bundle list"

definition UNRANKED_RARITY :: int where
  "UNRANKED_RARITY = 1000"

fun rarity_words :: "uchar list \<Rightarrow> string \<Rightarrow> string list" where
  "rarity_words [] w = [w]"
| "rarity_words (u # us) w = (if u = ''_'' \<or> is_whitespace u then w # rarity_words us [] else rarity_words us (w @ u))"

definition normalize_rarity :: "runtime \<Rightarrow> string \<Rightarrow> string" where
  "normalize_rarity rt raw =
     join '' '' (map (str_lower rt) (filter (\<lambda>w. w \<noteq> []) (rarity_words (chars raw) [])))"

definition load_rarities :: "curated \<Rightarrow> Rarity list" where
  "load_rarities cu = sort_key (\<lambda>r. (ra_rank r, ra_name r)) (cu_rarities cu)"

text \<open>\<open>RarityLookup\<close>: the last row of a key counts.\<close>

definition rarity_get :: "runtime \<Rightarrow> curated \<Rightarrow> string \<Rightarrow> Rarity option" where
  "rarity_get rt cu raw =
     map_of (rev (map (\<lambda>r. (normalize_rarity rt (ra_name r), r)) (load_rarities cu))) (normalize_rarity rt raw)"

definition rarity_display :: "runtime \<Rightarrow> curated \<Rightarrow> string \<Rightarrow> string" where
  "rarity_display rt cu raw = (case rarity_get rt cu raw of Some r \<Rightarrow> ra_name r | None \<Rightarrow> raw)"

definition rarity_ordinal :: "runtime \<Rightarrow> curated \<Rightarrow> string \<Rightarrow> int" where
  "rarity_ordinal rt cu raw = (case rarity_get rt cu raw of Some r \<Rightarrow> ra_rank r | None \<Rightarrow> UNRANKED_RARITY)"

definition rarity_grp :: "runtime \<Rightarrow> curated \<Rightarrow> string \<Rightarrow> string option" where
  "rarity_grp rt cu raw = Option.bind (rarity_get rt cu raw) ra_grp"

section \<open>What a tenant holds of a card\<close>

definition copies_of :: "tdb \<Rightarrow> string \<Rightarrow> CollectionEntry list" where
  "copies_of db printing_id = filter (\<lambda>c. ce_printing c = printing_id) (tbl_rows (db_collection db))"

definition set_cards :: "shared_db \<Rightarrow> string \<Rightarrow> SharedCard list" where
  "set_cards sd code = filter (\<lambda>c. cd_set c = code) (sd_cards sd)"

definition card_printings :: "shared_db \<Rightarrow> string \<Rightarrow> PrintingRow list" where
  "card_printings sd card_id = filter (\<lambda>p. pg_card p = card_id) (sd_printings sd)"

definition card_owned :: "shared_db \<Rightarrow> tdb \<Rightarrow> string \<Rightarrow> bool" where
  "card_owned sd db card_id \<longleftrightarrow> list_ex (\<lambda>p. copies_of db (pg_id p) \<noteq> []) (card_printings sd card_id)"

definition count_owned :: "shared_db \<Rightarrow> tdb \<Rightarrow> SharedCard list \<Rightarrow> int" where
  "count_owned sd db cards = int (length (remdups (map cd_id (filter (\<lambda>c. card_owned sd db (cd_id c)) cards))))"

definition printing_price :: "shared_db \<Rightarrow> tdb \<Rightarrow> PrintingRow \<Rightarrow> f64 option" where
  "printing_price sd db p =
     market_price (catalog_of sd) db \<lparr>pk_printing = pg_id p, pk_product = pg_product p, pk_sub_type = pg_sub_type p\<rparr>"

section \<open>The set picker\<close>

record SetSummary =
  sum_code :: string
  sum_ptcgo :: "string option"
  sum_name :: string
  sum_series :: string
  sum_total :: "int option"
  sum_printed_total :: "int option"
  sum_release_date :: "string option"
  sum_logo_url :: "string option"
  sum_symbol_url :: "string option"
  sum_total_cards :: int
  sum_owned_cards :: int
  sum_base_total :: "int option"
  sum_base_owned :: "int option"
  sum_kind :: string
  sum_synthesized :: bool

definition numbered :: "int \<Rightarrow> SharedCard list \<Rightarrow> SharedCard list" where
  "numbered printed_total = filter (\<lambda>c. sc_number_sortable c \<le> printed_total)"

definition set_summary :: "shared_db \<Rightarrow> tdb \<Rightarrow> SharedSet \<Rightarrow> SetSummary" where
  "set_summary sd db s =
     (let cards = set_cards sd (st_code s) in
      \<lparr>sum_code = st_code s, sum_ptcgo = st_ptcgo s, sum_name = st_name s, sum_series = ss_series s,
       sum_total = ss_total s, sum_printed_total = ss_printed_total s, sum_release_date = ss_release_date s,
       sum_logo_url = ss_logo_url s, sum_symbol_url = st_symbol_url s,
       sum_total_cards = int (length cards), sum_owned_cards = count_owned sd db cards,
       sum_base_total = map_option (\<lambda>t. int (length (numbered t cards))) (ss_printed_total s),
       sum_base_owned = map_option (\<lambda>t. count_owned sd db (numbered t cards)) (ss_printed_total s),
       sum_kind = ''set'', sum_synthesized = (ss_fetched_at s = None \<and> ss_covered s)\<rparr>)"

text \<open>\<open>ORDER BY s.release_date DESC NULLS LAST, s.set_code\<close>.\<close>

definition list_sets :: "shared_db \<Rightarrow> tdb \<Rightarrow> SetSummary list" where
  "list_sets sd db =
     (let sets = sort_key st_code (sd_sets sd) in
      map (set_summary sd db)
        (order_desc (\<lambda>s. keep (ss_release_date s) []) (filter (\<lambda>s. ss_release_date s \<noteq> None) sets) @
         filter (\<lambda>s. ss_release_date s = None) sets))"

section \<open>The statistics of a set\<close>

record RarityCount =
  rc_rarity :: string
  rc_rank :: int
  rc_grp :: "string option"
  rc_total :: int
  rc_owned :: int

record CardCopyCount =
  cc_number :: string
  cc_number_sortable :: int
  cc_rarity :: "string option"
  cc_rarity_grp :: "string option"
  cc_copies :: int

record SetAnalytics =
  an_code :: string
  an_name :: string
  an_series :: string
  an_base_total :: int
  an_base_owned :: int
  an_total_cards :: int
  an_owned_cards :: int
  an_total_printings :: int
  an_owned_printings :: int
  an_owned_copies :: int
  an_market_value :: f64
  an_master_value :: f64
  an_owned_value_unique :: f64
  an_owned_value :: f64
  an_rarities :: "RarityCount list"
  an_copy_counts :: "CardCopyCount list"

definition add_rarity :: "runtime \<Rightarrow> curated \<Rightarrow> string \<times> int \<times> int \<Rightarrow> RarityCount list \<Rightarrow> RarityCount list" where
  "add_rarity rt cu = (\<lambda>(raw, total, owned).
     upsert rc_rarity (\<lambda>new old. old\<lparr>rc_total := rc_total old + rc_total new, rc_owned := rc_owned old + rc_owned new\<rparr>)
       \<lparr>rc_rarity = rarity_display rt cu raw, rc_rank = rarity_ordinal rt cu raw, rc_grp = rarity_grp rt cu raw,
        rc_total = total, rc_owned = owned\<rparr>)"

definition rank_rarities :: "runtime \<Rightarrow> curated \<Rightarrow> (string \<times> int \<times> int) list \<Rightarrow> RarityCount list" where
  "rank_rarities rt cu raw_counts =
     sort_key (\<lambda>r. (rc_rank r, rc_rarity r)) (fold (add_rarity rt cu) raw_counts [])"

text \<open>The printings of a set's cards; each query reads those it wants of them.\<close>

definition set_printings :: "shared_db \<Rightarrow> string \<Rightarrow> (PrintingRow \<times> SharedCard) list" where
  "set_printings sd code =
     concat (map (\<lambda>p. map (Pair p) (filter (\<lambda>c. cd_id c = pg_card p) (set_cards sd code))) (sd_printings sd))"

definition live :: "PrintingRow \<times> SharedCard \<Rightarrow> bool" where
  "live = (\<lambda>(p, _). pg_deprecated_at p = None)"

text \<open>The cheapest printing of each card; a card none of whose printings has a price has none.\<close>

definition cheapest_per_card :: "shared_db \<Rightarrow> tdb \<Rightarrow> (PrintingRow \<times> SharedCard) list \<Rightarrow> (string \<times> f64 option) list" where
  "cheapest_per_card sd db rows =
     map (\<lambda>(card_id, ps). (card_id, least_by f64_key (somes (map (\<lambda>(p, _). printing_price sd db p) ps))))
       (group_by (\<lambda>(p, _). pg_card p) rows)"

definition full_set_value :: "arith \<Rightarrow> shared_db \<Rightarrow> tdb \<Rightarrow> SharedSet \<Rightarrow> bool \<Rightarrow> f64" where
  "full_set_value ar sd db s numbered_only =
     sum_or_zero ar (map snd (cheapest_per_card sd db (filter (\<lambda>(p, c). live (p, c) \<and>
       (numbered_only \<longrightarrow> (case ss_printed_total s of None \<Rightarrow> True | Some t \<Rightarrow> sc_number_sortable c \<le> t)))
       (set_printings sd (st_code s)))))"

definition copy_rows :: "shared_db \<Rightarrow> tdb \<Rightarrow> string \<Rightarrow> (CollectionEntry \<times> PrintingRow) list" where
  "copy_rows sd db code =
     concat (map (\<lambda>e. map (\<lambda>(p, _). (e, p)) (filter (\<lambda>(p, _). pg_id p = ce_printing e) (set_printings sd code)))
       (tbl_rows (db_collection db)))"

definition copy_count :: "runtime \<Rightarrow> curated \<Rightarrow> shared_db \<Rightarrow> tdb \<Rightarrow> SharedCard \<Rightarrow> CardCopyCount" where
  "copy_count rt cu sd db c =
     \<lparr>cc_number = cd_number c, cc_number_sortable = sc_number_sortable c,
      cc_rarity = map_option (rarity_display rt cu) (cd_rarity c),
      cc_rarity_grp = Option.bind (cd_rarity c) (rarity_grp rt cu),
      cc_copies = int (length (concat (map (\<lambda>p. copies_of db (pg_id p)) (card_printings sd (cd_id c)))))\<rparr>"

definition rarity_split :: "shared_db \<Rightarrow> tdb \<Rightarrow> string \<Rightarrow> (string \<times> int \<times> int) list" where
  "rarity_split sd db code =
     map (\<lambda>((_, r), cs). (if list_ex (\<lambda>c. cd_rarity c = None) cs then ''Unknown'' else r, int (length cs), count_owned sd db cs))
       (group_by (\<lambda>c. case cd_rarity c of None \<Rightarrow> (0 :: nat, []) | Some r \<Rightarrow> (1, r)) (set_cards sd code))"

definition analytics :: "runtime \<Rightarrow> arith \<Rightarrow> curated \<Rightarrow> shared_db \<Rightarrow> tdb \<Rightarrow> string \<Rightarrow> SetAnalytics option" where
  "analytics rt ar cu sd db code = (case List.find (\<lambda>s. st_code s = code) (sd_sets sd) of
     None \<Rightarrow> None
   | Some s \<Rightarrow>
       (let cards = set_cards sd code;
            base = (case ss_printed_total s of None \<Rightarrow> [] | Some t \<Rightarrow> numbered t cards);
            printings = set_printings sd code;
            owned = filter (\<lambda>(p, c). live (p, c) \<and> copies_of db (pg_id p) \<noteq> []) printings
        in Some
          \<lparr>an_code = code, an_name = st_name s, an_series = ss_series s,
           an_base_total = int (length base), an_base_owned = count_owned sd db base,
           an_total_cards = int (length cards), an_owned_cards = count_owned sd db cards,
           an_total_printings = int (length (filter live printings)),
           an_owned_printings = int (length (remdups (map (\<lambda>(p, _). pg_id p) owned))),
           an_owned_copies = int (length (copy_rows sd db code)),
           an_market_value = full_set_value ar sd db s True, an_master_value = full_set_value ar sd db s False,
           an_owned_value_unique = sum_or_zero ar (map (\<lambda>(p, _). printing_price sd db p) owned),
           an_owned_value = sum_or_zero ar (map (\<lambda>(_, p). printing_price sd db p) (copy_rows sd db code)),
           an_rarities = rank_rarities rt cu (rarity_split sd db code),
           an_copy_counts = map (copy_count rt cu sd db) (sort_key (\<lambda>c. (sc_number_sortable c, cd_id c)) cards)\<rparr>))"

record TopCard =
  tc_card :: string
  tc_number :: string
  tc_name :: string
  tc_rarity :: "string option"
  tc_image_small :: "string option"
  tc_price :: f64
  tc_owned :: bool
  tc_master_only :: bool

text \<open>\<open>number NOT GLOB '[0-9]*'\<close>.\<close>

definition letter_numbered :: "string \<Rightarrow> bool" where
  "letter_numbered number \<longleftrightarrow> \<not> (case number of c # _ \<Rightarrow> is_digit c | [] \<Rightarrow> False)"

definition top_card :: "shared_db \<Rightarrow> tdb \<Rightarrow> f64 \<Rightarrow> SharedCard \<Rightarrow> TopCard" where
  "top_card sd db price c =
     \<lparr>tc_card = cd_id c, tc_number = cd_number c, tc_name = cd_name c, tc_rarity = cd_rarity c,
      tc_image_small = cd_image_small c, tc_price = price, tc_owned = card_owned sd db (cd_id c),
      tc_master_only = letter_numbered (cd_number c)\<rparr>"

text \<open>\<open>LIMIT\<close> with a negative number is no limit.\<close>

definition sql_limit :: "int \<Rightarrow> 'a list \<Rightarrow> 'a list" where
  "sql_limit n xs = (if n < 0 then xs else take (nat n) xs)"

definition top_cards :: "shared_db \<Rightarrow> tdb \<Rightarrow> string \<Rightarrow> int \<Rightarrow> bool \<Rightarrow> TopCard list option" where
  "top_cards sd db code limit missing_only =
     (if \<not> list_ex (\<lambda>s. st_code s = code) (sd_sets sd) then None
      else
        (let valued = concat (map (\<lambda>(card_id, price). case price of
               None \<Rightarrow> []
             | Some v \<Rightarrow> map (\<lambda>c. (v, c)) (filter (\<lambda>c. cd_id c = card_id) (sd_cards sd)))
               (cheapest_per_card sd db (filter live (set_printings sd code))));
             wanted = filter (\<lambda>(_, c). missing_only \<longrightarrow> \<not> card_owned sd db (cd_id c)) valued
         in Some (map (\<lambda>(v, c). top_card sd db v c) (sql_limit limit
              (sort_key (\<lambda>(v, c). (- f64_key v, sc_number_sortable c, cd_id c)) wanted)))))"

section \<open>The binder page\<close>

definition SUBSET_FLOOR :: int where "SUBSET_FLOOR = 1000"

definition PROMO_FLOOR :: int where "PROMO_FLOOR = 9000"

record BinderSetInfo =
  bn_code :: string
  bn_name :: string
  bn_series :: string
  bn_total :: "int option"
  bn_printed_total :: "int option"
  bn_kind :: string

record SlotPrinting =
  sq_printing :: string
  sq_variant :: string
  sq_deprecated :: bool
  sq_owned_count :: int
  sq_market_price :: "f64 option"
  sq_owned_value :: "f64 option"
  sq_foil :: bool

record ExternalSet =
  ex_code :: string
  ex_name :: string

record BinderSlot =
  bs_card :: string
  bs_number :: string
  bs_name :: string
  bs_rarity :: "string option"
  bs_rarity_grp :: "string option"
  bs_image_large :: "string option"
  bs_section :: string
  bs_printings :: "SlotPrinting list"
  bs_display_price :: "f64 option"
  bs_external_set :: "ExternalSet option"

record BinderPage =
  bp_set :: BinderSetInfo
  bp_layout :: int
  bp_page :: int
  bp_total_pages :: int
  bp_base_total :: int
  bp_base_owned :: int
  bp_master_total :: int
  bp_master_owned :: int
  bp_slots :: "BinderSlot list"

record BinderQuery =
  bq_page :: int
  bq_layout :: int
  bq_secret :: bool
  bq_subset :: bool
  bq_promos :: bool
  bq_sort :: string
  bq_search :: string
  bq_filter :: string

definition section_of :: "int \<Rightarrow> int \<Rightarrow> string" where
  "section_of number_sortable printed_total =
     (if number_sortable \<le> printed_total then ''base''
      else if number_sortable < SUBSET_FLOOR then ''secret''
      else if number_sortable < PROMO_FLOOR then ''subset'' else ''promo'')"

definition mass_entry_line :: "string \<Rightarrow> string \<Rightarrow> string option \<Rightarrow> string" where
  "mass_entry_line name code number = (case number of
     Some num \<Rightarrow> ''1 '' @ name @ '' - '' @ num @ '' ['' @ code @ '']''
   | None \<Rightarrow> ''1 '' @ name @ '' ['' @ code @ '']'')"

definition RARITY_RANKS :: "(string \<times> int) list" where
  "RARITY_RANKS =
     [(''common'', 1), (''uncommon'', 2), (''rare'', 3), (''promo'', 4), (''classic collection'', 4), (''rare holo'', 5),
      (''radiant rare'', 6), (''rare holo ex'', 7), (''rare holo gx'', 7), (''rare holo v'', 7), (''double rare'', 7),
      (''rare holo vmax'', 8), (''rare holo vstar'', 8), (''ultra rare'', 8), (''amazing rare'', 9), (''rare shiny'', 9),
      (''rare shiny gx'', 9), (''illustration rare'', 10), (''trainer gallery rare holo'', 11), (''rare secret'', 12),
      (''rare rainbow'', 12), (''special illustration rare'', 13), (''hyper rare'', 14), (''rare holo star'', 14)]"

definition rarity_rank :: "string option \<Rightarrow> int" where
  "rarity_rank rarity = (case rarity of
     None \<Rightarrow> 0
   | Some r \<Rightarrow> (case map_of RARITY_RANKS (to_ascii_lowercase r) of Some n \<Rightarrow> n | None \<Rightarrow> 6))"

definition display_price :: "SlotPrinting list \<Rightarrow> f64 option" where
  "display_price ps =
     coalesce (greatest_by total_key (somes (map sq_owned_value ps)))
       (least_by total_key (filter (\<lambda>v. 0 < f64_key v) (somes (map sq_market_price ps))))"

definition slot_price :: "BinderSlot \<Rightarrow> f64" where
  "slot_price s = keep (bs_display_price s) 0"

text \<open>A printing of the catalog or of the user, as the union of the page's query lists them.\<close>

record AnyPrinting =
  ap_card :: string
  ap_variant :: string
  ap_deprecated :: bool
  ap_key :: PriceKey

definition any_printings :: "shared_db \<Rightarrow> tdb \<Rightarrow> AnyPrinting list" where
  "any_printings sd db =
     map (\<lambda>p. \<lparr>ap_card = pg_card p, ap_variant = pg_variant p, ap_deprecated = (pg_deprecated_at p \<noteq> None),
       ap_key = \<lparr>pk_printing = pg_id p, pk_product = pg_product p, pk_sub_type = pg_sub_type p\<rparr>\<rparr>) (sd_printings sd) @
     map (\<lambda>u. \<lparr>ap_card = up_card u, ap_variant = up_variant u, ap_deprecated = False,
       ap_key = \<lparr>pk_printing = up_id u, pk_product = None, pk_sub_type = None\<rparr>\<rparr>) (db_user_printings db)"

definition variant_foil :: "shared_db \<Rightarrow> string \<Rightarrow> bool" where
  "variant_foil sd code = (case List.find (\<lambda>v. va_code v = code) (sd_variants sd) of Some v \<Rightarrow> va_foil v | None \<Rightarrow> False)"

definition best_owned_value :: "arith \<Rightarrow> tdb \<Rightarrow> string \<Rightarrow> f64 option \<Rightarrow> f64 option" where
  "best_owned_value ar db printing_id price =
     (case greatest_by f64_key (map (\<lambda>c. multiplier_of db (ce_condition c))
             (filter (\<lambda>c. ce_status c = ''owned'') (copies_of db printing_id))) of
        None \<Rightarrow> None | Some m \<Rightarrow> map_option (\<lambda>p. ar_mul ar p m) price)"

definition slot_printing :: "arith \<Rightarrow> shared_db \<Rightarrow> tdb \<Rightarrow> AnyPrinting \<Rightarrow> SlotPrinting" where
  "slot_printing ar sd db p =
     (let price = market_price (catalog_of sd) db (ap_key p) in
      \<lparr>sq_printing = pk_printing (ap_key p), sq_variant = ap_variant p, sq_deprecated = ap_deprecated p,
       sq_owned_count = int (length (copies_of db (pk_printing (ap_key p)))), sq_market_price = price,
       sq_owned_value = best_owned_value ar db (pk_printing (ap_key p)) price,
       sq_foil = variant_foil sd (ap_variant p)\<rparr>)"

definition printing_rows :: "arith \<Rightarrow> shared_db \<Rightarrow> tdb \<Rightarrow> string \<Rightarrow> (string \<times> SlotPrinting) list" where
  "printing_rows ar sd db code =
     map (\<lambda>(p, _). (ap_card p, slot_printing ar sd db p))
       (sort_key (\<lambda>(p, c). (sc_number_sortable c, ap_variant p))
         (concat (map (\<lambda>p. map (Pair p) (filter (\<lambda>c. cd_id c = ap_card p) (set_cards sd code))) (any_printings sd db))))"

definition included :: "BinderQuery \<Rightarrow> string \<Rightarrow> bool" where
  "included q sect =
     (if sect = ''secret'' then bq_secret q else if sect = ''subset'' then bq_subset q
      else if sect = ''promo'' then bq_promos q else True)"

definition card_slot :: "runtime \<Rightarrow> curated \<Rightarrow> (string \<times> SlotPrinting) list \<Rightarrow> string \<Rightarrow> SharedCard \<Rightarrow> BinderSlot" where
  "card_slot rt cu rows sect c =
     (let ps = map snd (filter (\<lambda>(i, _). i = cd_id c) rows) in
      \<lparr>bs_card = cd_id c, bs_number = cd_number c, bs_name = cd_name c, bs_rarity = cd_rarity c,
       bs_rarity_grp = Option.bind (cd_rarity c) (rarity_grp rt cu), bs_image_large = cd_image_large c,
       bs_section = sect, bs_printings = ps, bs_display_price = display_price ps, bs_external_set = None\<rparr>)"

definition set_slots ::
  "runtime \<Rightarrow> arith \<Rightarrow> curated \<Rightarrow> shared_db \<Rightarrow> tdb \<Rightarrow> SharedSet \<Rightarrow> BinderQuery \<Rightarrow> BinderSlot list" where
  "set_slots rt ar cu sd db s q =
     (let section = (\<lambda>c. case ss_printed_total s of None \<Rightarrow> section_of (sc_number_sortable c) i64_max
                                                   | Some t \<Rightarrow> section_of (sc_number_sortable c) t);
          rows = printing_rows ar sd db (st_code s)
      in map (\<lambda>c. card_slot rt cu rows (section c) c)
           (filter (\<lambda>c. included q (section c)) (sort_key sc_number_sortable (set_cards sd (st_code s)))))"

definition owns_one :: "BinderSlot \<Rightarrow> bool" where
  "owns_one s \<longleftrightarrow> list_ex (\<lambda>p. 0 < sq_owned_count p) (bs_printings s)"

definition sort_slots :: "(BinderSlot \<Rightarrow> f64) \<Rightarrow> string \<Rightarrow> BinderSlot list \<Rightarrow> BinderSlot list" where
  "sort_slots price order slots =
     (if order = ''number_desc'' then rev slots
      else if order = ''name'' then sort_key (\<lambda>s. to_ascii_lowercase (bs_name s)) slots
      else if order = ''name_desc'' then order_desc (\<lambda>s. to_ascii_lowercase (bs_name s)) slots
      else if order = ''price'' then order_desc (\<lambda>s. total_key (price s)) slots
      else if order = ''price_asc'' then sort_key (\<lambda>s. total_key (price s)) slots
      else slots)"

definition sort_set_slots :: "string \<Rightarrow> BinderSlot list \<Rightarrow> BinderSlot list" where
  "sort_set_slots order slots =
     (if order = ''rarity'' then order_desc (\<lambda>s. rarity_rank (bs_rarity s)) slots
      else if order = ''rarity_asc'' then sort_key (\<lambda>s. rarity_rank (bs_rarity s)) slots
      else sort_slots slot_price order slots)"

definition wanted :: "BinderQuery \<Rightarrow> BinderSlot \<Rightarrow> bool" where
  "wanted q s =
     (let search = to_ascii_lowercase (trim (bq_search q)) in
      if search \<noteq> [] \<and> \<not> contains search (to_ascii_lowercase (bs_name s)) then False
      else if bq_filter q = ''have'' then owns_one s
      else if bq_filter q = ''need'' then \<not> owns_one s
      else if bq_filter q = ''dupes'' then list_ex (\<lambda>p. 2 \<le> sq_owned_count p) (bs_printings s)
      else True)"

definition clamp :: "int \<Rightarrow> int \<Rightarrow> int \<Rightarrow> int" where
  "clamp lo hi n = (if n < lo then lo else if hi < n then hi else n)"

text \<open>The pagination both pages share: layout, page, number of pages and the slots shown.\<close>

definition paginate :: "BinderQuery \<Rightarrow> 'a list \<Rightarrow> int \<times> int \<times> int \<times> 'a list" where
  "paginate q visible =
     (let layout = clamp 1 60 (bq_layout q);
          total_pages = max ((int (length visible) + layout - 1) div layout) 1;
          page = clamp 1 total_pages (bq_page q);
          start = nat ((page - 1) * layout)
      in (layout, page, total_pages, take (nat layout) (drop start visible)))"

definition binder_page ::
  "BinderSetInfo \<Rightarrow> int \<times> int \<times> int \<times> int \<Rightarrow> int \<times> int \<times> int \<times> BinderSlot list \<Rightarrow> BinderPage" where
  "binder_page info progress shown =
     (case (progress, shown) of ((bt, bo, mt, mo), (layout, page, total_pages, slots)) \<Rightarrow>
      \<lparr>bp_set = info, bp_layout = layout, bp_page = page, bp_total_pages = total_pages, bp_base_total = bt,
       bp_base_owned = bo, bp_master_total = mt, bp_master_owned = mo, bp_slots = slots\<rparr>)"

definition set_progress :: "BinderSlot list \<Rightarrow> int \<times> int \<times> int \<times> int" where
  "set_progress slots =
     (let base = filter (\<lambda>s. bs_section s = ''base'') slots; ps = concat (map bs_printings slots) in
      (int (length base), int (length (filter owns_one base)), int (length ps),
       int (length (filter (\<lambda>p. 0 < sq_owned_count p) ps))))"

definition get_binder_page ::
  "runtime \<Rightarrow> arith \<Rightarrow> curated \<Rightarrow> shared_db \<Rightarrow> tdb \<Rightarrow> string \<Rightarrow> BinderQuery \<Rightarrow> BinderPage option" where
  "get_binder_page rt ar cu sd db code q = (case List.find (\<lambda>s. st_code s = code) (sd_sets sd) of
     None \<Rightarrow> None
   | Some s \<Rightarrow>
       (let visible = set_slots rt ar cu sd db s q in
        Some (binder_page
          \<lparr>bn_code = st_code s, bn_name = st_name s, bn_series = ss_series s, bn_total = ss_total s,
           bn_printed_total = ss_printed_total s, bn_kind = ''set''\<rparr>
          (set_progress visible) (paginate q (filter (wanted q) (sort_set_slots (bq_sort q) visible))))))"

section \<open>The cards a tenant is missing\<close>

record MissingCard =
  mc_card :: string
  mc_number :: string
  mc_name :: string
  mc_section :: string
  mc_line :: "string option"

record MissingExport =
  me_set :: string
  me_name :: string
  me_ptcgo :: "string option"
  me_cards :: "MissingCard list"

text \<open>Of the group's abbreviations a primary link's comes first.\<close>

definition tcg_abbreviation :: "shared_db \<Rightarrow> string \<Rightarrow> string option" where
  "tcg_abbreviation sd code =
     (case sort_key (\<lambda>g. if tg_role g = ''primary'' then 0 else 1 :: nat)
             (filter (\<lambda>g. tg_set_code g = Some code \<and> tg_abbreviation g \<noteq> None) (sd_groups sd)) of
        [] \<Rightarrow> None | g # _ \<Rightarrow> tg_abbreviation g)"

definition tcg_number :: "shared_db \<Rightarrow> string \<Rightarrow> string option" where
  "tcg_number sd card_id =
     (case List.map_filter tp_number (concat (map (\<lambda>p. filter (\<lambda>t. pg_product p = Some (tp_id t)) (sd_products sd))
             (card_printings sd card_id))) of [] \<Rightarrow> None | n # _ \<Rightarrow> Some n)"

definition holds_card :: "shared_db \<Rightarrow> tdb \<Rightarrow> string \<Rightarrow> bool" where
  "holds_card sd db card_id \<longleftrightarrow>
     list_ex (\<lambda>i. copies_of db i \<noteq> []) (map pg_id (card_printings sd card_id) @
       map up_id (filter (\<lambda>u. up_card u = card_id) (db_user_printings db)))"

definition missing_for_export :: "shared_db \<Rightarrow> tdb \<Rightarrow> string \<Rightarrow> MissingExport option" where
  "missing_for_export sd db code = (case List.find (\<lambda>s. st_code s = code) (sd_sets sd) of
     None \<Rightarrow> None
   | Some s \<Rightarrow>
       (let printed_total = keep (ss_printed_total s) i64_max;
            entry = coalesce (tcg_abbreviation sd code) (st_ptcgo s)
        in Some \<lparr>me_set = code, me_name = st_name s, me_ptcgo = entry,
             me_cards = map (\<lambda>c. \<lparr>mc_card = cd_id c, mc_number = cd_number c, mc_name = cd_name c,
                 mc_section = section_of (sc_number_sortable c) printed_total,
                 mc_line = map_option (\<lambda>e. mass_entry_line (cd_name c) e (tcg_number sd (cd_id c))) entry\<rparr>)
               (sort_key sc_number_sortable (filter (\<lambda>c. \<not> holds_card sd db (cd_id c)) (set_cards sd code)))\<rparr>))"

section \<open>Bundles\<close>

text \<open>A column read as text that holds NULL fails the read.\<close>

datatype ReadError = NullColumn

record BundleProductRow =
  br_product :: int
  br_product_name :: string
  br_product_image :: "string option"
  br_number_sortable :: int
  br_printing :: "PrintingRow option"
  br_market_price :: "f64 option"
  br_card :: "SharedCard option"
  br_home_set :: "SharedSet option"
  br_owned_count :: int
  br_foil :: bool

definition bundle_reconcile :: "Bundle list \<Rightarrow> curated \<Rightarrow> nat \<times> curated" where
  "bundle_reconcile seed cu =
     (length seed, cu\<lparr>cu_bundles := fold (upsert bu_slug (\<lambda>new old. new\<lparr>bu_slug := bu_slug old\<rparr>)) seed (cu_bundles cu)\<rparr>)"

definition list_bundles :: "curated \<Rightarrow> Bundle list" where
  "list_bundles cu = order_desc bu_year (sort_key bu_slug (cu_bundles cu))"

definition is_bundle :: "curated \<Rightarrow> string \<Rightarrow> bool" where
  "is_bundle cu slug \<longleftrightarrow> 0 < length (filter (\<lambda>b. bu_slug b = slug) (cu_bundles cu))"

definition group_products :: "shared_db \<Rightarrow> int \<Rightarrow> ProductRow list" where
  "group_products sd group_id = filter (\<lambda>t. tp_group t = group_id) (sd_products sd)"

definition bundle_counts :: "shared_db \<Rightarrow> tdb \<Rightarrow> int \<Rightarrow> int \<times> int" where
  "bundle_counts sd db group_id =
     (int (length (group_products sd group_id)),
      int (length (remdups (map tp_id (filter (\<lambda>t. list_ex (\<lambda>p. pg_product p = Some (tp_id t) \<and> copies_of db (pg_id p) \<noteq> [])
        (sd_printings sd)) (group_products sd group_id))))))"

definition bundle_summary :: "shared_db \<Rightarrow> tdb \<Rightarrow> Bundle \<Rightarrow> SetSummary" where
  "bundle_summary sd db b =
     (case bundle_counts sd db (bu_group b) of (slots, owned) \<Rightarrow>
      \<lparr>sum_code = bu_slug b, sum_ptcgo = None, sum_name = bu_name b, sum_series = bu_series b, sum_total = Some slots,
       sum_printed_total = None, sum_release_date = Some (show_int (bu_year b) @ ''-10-01''), sum_logo_url = None,
       sum_symbol_url = None, sum_total_cards = slots, sum_owned_cards = owned, sum_base_total = None,
       sum_base_owned = None, sum_kind = ''bundle'', sum_synthesized = False\<rparr>)"

definition list_bundle_summaries :: "curated \<Rightarrow> shared_db \<Rightarrow> tdb \<Rightarrow> SetSummary list" where
  "list_bundle_summaries cu sd db = map (bundle_summary sd db) (list_bundles cu)"

text \<open>The number before the slash: what the query sorts by, and what the row shows.\<close>

definition before_slash :: "string \<Rightarrow> string" where
  "before_slash number = hd (split_char (CHR ''/'') number)"

definition shown_number :: "string \<Rightarrow> int" where
  "shown_number number = keep (parse_i64 (trim_start_char (CHR ''0'') (before_slash number))) 0"

definition bundle_product_row :: "shared_db \<Rightarrow> tdb \<Rightarrow> ProductRow \<times> PrintingRow option \<Rightarrow> ReadError + BundleProductRow" where
  "bundle_product_row sd db = (\<lambda>(t, p). case tp_number t of
     None \<Rightarrow> Inl NullColumn
   | Some number \<Rightarrow>
       (let card' = Option.bind p (\<lambda>p. List.find (\<lambda>c. cd_id c = pg_card p) (sd_cards sd)) in
        Inr \<lparr>br_product = tp_id t, br_product_name = tp_name t, br_product_image = tp_image_url t,
          br_number_sortable = shown_number number, br_printing = p,
          br_market_price = Option.bind p (printing_price sd db), br_card = card',
          br_home_set = Option.bind card' (\<lambda>c. List.find (\<lambda>s. st_code s = cd_set c) (sd_sets sd)),
          br_owned_count = (case p of Some p \<Rightarrow> int (length (copies_of db (pg_id p))) | None \<Rightarrow> 0),
          br_foil = (case p of Some p \<Rightarrow> variant_foil sd (pg_variant p) | None \<Rightarrow> False)\<rparr>))"

fun all_rows :: "('e + 'a) list \<Rightarrow> 'e + 'a list" where
  "all_rows [] = Inr []"
| "all_rows (r # rs) = and_then r (\<lambda>x. and_then (all_rows rs) (\<lambda>xs. Inr (x # xs)))"

definition fetch_bundle_products :: "shared_db \<Rightarrow> tdb \<Rightarrow> int \<Rightarrow> ReadError + BundleProductRow list" where
  "fetch_bundle_products sd db group_id =
     all_rows (map (bundle_product_row sd db) (concat (map (\<lambda>t.
         (case filter (\<lambda>p. pg_product p = Some (tp_id t)) (sd_printings sd) of
            [] \<Rightarrow> [(t, None)] | ps \<Rightarrow> map (\<lambda>p. (t, Some p)) ps))
       (sort_key (\<lambda>t. (case tp_number t of None \<Rightarrow> (0 :: nat, 0) | Some n \<Rightarrow> (1, cast_integer (before_slash n)), tp_id t))
         (group_products sd group_id)))))"

definition slot_from_product :: "runtime \<Rightarrow> curated \<Rightarrow> BundleProductRow \<Rightarrow> BinderSlot" where
  "slot_from_product rt cu r =
     (let ps = (case br_printing r of
            Some p \<Rightarrow> [\<lparr>sq_printing = pg_id p, sq_variant = pg_variant p, sq_deprecated = (pg_deprecated_at p \<noteq> None),
              sq_owned_count = br_owned_count r, sq_market_price = br_market_price r, sq_owned_value = None,
              sq_foil = br_foil r\<rparr>]
          | None \<Rightarrow> []);
          rarity = Option.bind (br_card r) cd_rarity
      in \<lparr>bs_card = (case br_card r of Some c \<Rightarrow> cd_id c | None \<Rightarrow> ''bundle-product-'' @ show_int (br_product r)),
          bs_number = (case br_card r of Some c \<Rightarrow> cd_number c | None \<Rightarrow> show_int (br_number_sortable r)),
          bs_name = (case br_card r of Some c \<Rightarrow> cd_name c | None \<Rightarrow> br_product_name r),
          bs_rarity = rarity, bs_rarity_grp = Option.bind rarity (rarity_grp rt cu),
          bs_image_large = coalesce (Option.bind (br_card r) cd_image_large) (br_product_image r),
          bs_section = ''base'', bs_printings = ps, bs_display_price = display_price ps,
          bs_external_set = map_option (\<lambda>s. \<lparr>ex_code = st_code s, ex_name = st_name s\<rparr>) (br_home_set r)\<rparr>)"

text \<open>\<open>fold(0.0, f64::max)\<close>.\<close>

definition bundle_slot_price :: "BinderSlot \<Rightarrow> f64" where
  "bundle_slot_price s =
     fold (\<lambda>v best. if f64_key best < f64_key v then v else best) (somes (map sq_market_price (bs_printings s))) 0"

definition get_bundle_binder ::
  "runtime \<Rightarrow> curated \<Rightarrow> shared_db \<Rightarrow> tdb \<Rightarrow> string \<Rightarrow> BinderQuery \<Rightarrow> ReadError + BinderPage option" where
  "get_bundle_binder rt cu sd db slug q = (case List.find (\<lambda>b. bu_slug b = slug) (cu_bundles cu) of
     None \<Rightarrow> Inr None
   | Some b \<Rightarrow> and_then (fetch_bundle_products sd db (bu_group b)) (\<lambda>rows.
       let slots = map (slot_from_product rt cu) rows;
           total = int (length slots); owned = int (length (filter owns_one slots))
       in Inr (Some (binder_page
            \<lparr>bn_code = bu_slug b, bn_name = bu_name b, bn_series = bu_series b, bn_total = Some total,
             bn_printed_total = None, bn_kind = ''bundle''\<rparr>
            (total, owned, total, owned)
            (paginate q (filter (wanted q) (sort_slots bundle_slot_price (bq_sort q) slots)))))))"

text \<open>\<open>add_up\<close> is the sum of an iterator of floats.\<close>

definition bundle_analytics ::
  "runtime \<Rightarrow> arith \<Rightarrow> (f64 list \<Rightarrow> f64) \<Rightarrow> curated \<Rightarrow> shared_db \<Rightarrow> tdb \<Rightarrow> string \<Rightarrow> ReadError + SetAnalytics option" where
  "bundle_analytics rt ar add_up cu sd db slug = (case List.find (\<lambda>b. bu_slug b = slug) (cu_bundles cu) of
     None \<Rightarrow> Inr None
   | Some b \<Rightarrow> and_then (fetch_bundle_products sd db (bu_group b)) (\<lambda>rows.
       let total = int (length rows); owned = filter (\<lambda>r. 0 < br_owned_count r) rows;
           market = add_up (somes (map br_market_price rows));
           split = map (\<lambda>(g, rs). (g, int (length rs), int (length (filter (\<lambda>r. 0 < br_owned_count r) rs))))
             (group_by (\<lambda>r. keep (Option.bind (br_card r) cd_rarity) [])
               (filter (\<lambda>r. Option.bind (br_card r) cd_rarity \<noteq> None) rows))
       in Inr (Some
         \<lparr>an_code = bu_slug b, an_name = bu_name b, an_series = bu_series b, an_base_total = total,
          an_base_owned = int (length owned), an_total_cards = total, an_owned_cards = int (length owned),
          an_total_printings = int (length (filter (\<lambda>r. br_printing r \<noteq> None) rows)),
          an_owned_printings = int (length owned), an_owned_copies = sum_list (map br_owned_count rows),
          an_market_value = market, an_master_value = market,
          an_owned_value_unique = add_up (somes (map br_market_price owned)),
          an_owned_value = add_up (somes (map (\<lambda>r. map_option (\<lambda>p. ar_mul ar p (ar_of_int ar (br_owned_count r)))
            (br_market_price r)) rows)),
          an_rarities = rank_rarities rt cu split,
          an_copy_counts = map (\<lambda>r.
            \<lparr>cc_number = (case br_card r of Some c \<Rightarrow> cd_number c | None \<Rightarrow> show_int (br_number_sortable r)),
             cc_number_sortable = br_number_sortable r,
             cc_rarity = map_option (rarity_display rt cu) (Option.bind (br_card r) cd_rarity),
             cc_rarity_grp = Option.bind (Option.bind (br_card r) cd_rarity) (rarity_grp rt cu),
             cc_copies = br_owned_count r\<rparr>) rows\<rparr>)))"

section \<open>The card page\<close>

text \<open>\<open>evolves\<close> is SQLite's \<open>json_extract\<close> of the two fields of the raw record.\<close>

record Card =
  ca_card :: SharedCard
  ca_evolves :: "string option \<times> string option"
  ca_set :: SharedSet

record PrintingInfo =
  pi_printing :: string
  pi_variant :: string
  pi_deprecated :: bool
  pi_owned_count :: int
  pi_market_price :: "f64 option"
  pi_product :: "int option"
  pi_user_added :: bool
  pi_description :: "string option"

record CardDetail =
  de_card :: Card
  de_printings :: "PrintingInfo list"
  de_copies :: "CollectionEntry list"

definition catalog_printing_info :: "shared_db \<Rightarrow> tdb \<Rightarrow> PrintingRow \<Rightarrow> PrintingInfo" where
  "catalog_printing_info sd db p =
     \<lparr>pi_printing = pg_id p, pi_variant = pg_variant p, pi_deprecated = (pg_deprecated_at p \<noteq> None),
      pi_owned_count = int (length (copies_of db (pg_id p))), pi_market_price = printing_price sd db p,
      pi_product = pg_product p, pi_user_added = False, pi_description = None\<rparr>"

definition user_printing_info :: "tdb \<Rightarrow> UserPrinting \<Rightarrow> PrintingInfo" where
  "user_printing_info db u =
     \<lparr>pi_printing = up_id u, pi_variant = up_variant u, pi_deprecated = False,
      pi_owned_count = int (length (copies_of db (up_id u))),
      pi_market_price = newest_price (filter (\<lambda>m. mp_printing m = up_id u) (tbl_rows (db_manual_prices db))),
      pi_product = None, pi_user_added = True, pi_description = up_description u\<rparr>"

definition printing_infos :: "shared_db \<Rightarrow> tdb \<Rightarrow> string \<Rightarrow> PrintingInfo list" where
  "printing_infos sd db card_id =
     sort_key (\<lambda>i. (if pi_user_added i then 1 else 0 :: nat, pi_variant i, pi_printing i))
       (map (catalog_printing_info sd db) (card_printings sd card_id) @
        map (user_printing_info db) (filter (\<lambda>u. up_card u = card_id) (db_user_printings db)))"

definition get_card_detail ::
  "'j env \<Rightarrow> (string \<Rightarrow> string option \<times> string option) \<Rightarrow> shared_db \<Rightarrow> tdb \<Rightarrow> string \<Rightarrow> string \<Rightarrow> DbError + CardDetail option" where
  "get_card_detail env evolves sd db code number =
     (case List.find (\<lambda>c. cd_set c = code \<and> cd_number c = number) (sd_cards sd) of
        None \<Rightarrow> Inr None
      | Some c \<Rightarrow> (case List.find (\<lambda>s. st_code s = cd_set c) (sd_sets sd) of
          None \<Rightarrow> Inr None
        | Some s \<Rightarrow> and_then (fst (list_for_card env (cd_id c) db)) (\<lambda>copies.
            Inr (Some \<lparr>de_card = \<lparr>ca_card = c, ca_evolves = (case sc_raw_json c of Some r \<Rightarrow> evolves r | None \<Rightarrow> (None, None)),
                                  ca_set = s\<rparr>,
                       de_printings = printing_infos sd db (cd_id c), de_copies = copies\<rparr>))))"

text \<open>
  The price history of a card. \<open>observed\<close> is the column \<open>observed_at\<close> of a curated price, which the other
  reads do not look at.
\<close>

record PricePoint =
  pp_date :: string
  pp_price :: f64

record PriceSeries =
  pz_printing :: string
  pz_variant :: string
  pz_sub_type :: string
  pz_type :: string
  pz_points :: "PricePoint list"

text \<open>One row of the query and one step of the loop over them; the series are kept newest first.\<close>

fun add_price :: "PriceSeries \<Rightarrow> PriceSeries list \<Rightarrow> PriceSeries list" where
  "add_price row [] = [row]"
| "add_price row (s # ss) =
     (if pz_printing s = pz_printing row \<and> pz_type s = pz_type row
      then s\<lparr>pz_points := pz_points s @ pz_points row\<rparr> # ss else row # s # ss)"

definition market_points :: "shared_db \<Rightarrow> PrintingRow \<Rightarrow> PriceSeries list" where
  "market_points sd p =
     map (\<lambda>x. \<lparr>pz_printing = pg_id p, pz_variant = pg_variant p, pz_sub_type = keep (pg_sub_type p) [],
               pz_type = ''market'', pz_points = [\<lparr>pp_date = px_observed_at x, pp_price = px_price x\<rparr>]\<rparr>)
       (filter (\<lambda>x. pg_product p = Some (px_product x) \<and> pg_sub_type p = Some (px_sub_type x) \<and>
          px_source x = ''tcgplayer'' \<and> px_type x = ''market'') (sd_prices sd))"

definition override_points :: "(PriceOverride \<Rightarrow> string) \<Rightarrow> shared_db \<Rightarrow> PrintingRow \<Rightarrow> PriceSeries list" where
  "override_points observed sd p =
     map (\<lambda>x. \<lparr>pz_printing = pg_id p, pz_variant = pg_variant p, pz_sub_type = keep (pg_sub_type p) [],
               pz_type = ''manual'', pz_points = [\<lparr>pp_date = observed x, pp_price = po_price x\<rparr>]\<rparr>)
       (filter (\<lambda>x. po_printing x = pg_id p) (sd_overrides sd))"

definition manual_points :: "tdb \<Rightarrow> UserPrinting \<Rightarrow> PriceSeries list" where
  "manual_points db u =
     map (\<lambda>x. \<lparr>pz_printing = up_id u, pz_variant = up_variant u, pz_sub_type = [],
               pz_type = ''manual'', pz_points = [\<lparr>pp_date = mp_observed_at x, pp_price = mp_price x\<rparr>]\<rparr>)
       (filter (\<lambda>x. mp_printing x = up_id u) (tbl_rows (db_manual_prices db)))"

definition get_card_prices :: "(PriceOverride \<Rightarrow> string) \<Rightarrow> shared_db \<Rightarrow> tdb \<Rightarrow> string \<Rightarrow> string \<Rightarrow> PriceSeries list" where
  "get_card_prices observed sd db code number =
     (case List.find (\<lambda>c. cd_set c = code \<and> cd_number c = number) (sd_cards sd) of
        None \<Rightarrow> []
      | Some c \<Rightarrow>
          (let ps = card_printings sd (cd_id c);
               rows = concat (map (market_points sd) ps) @ concat (map (override_points observed sd) ps) @
                      concat (map (manual_points db) (filter (\<lambda>u. up_card u = cd_id c) (db_user_printings db)))
           in rev (fold add_price (sort_key (\<lambda>r. (pz_printing r, pz_type r, map pp_date (pz_points r))) rows) [])))"

section \<open>The pages of a binder are the whole view\<close>

lemma concat_page_chunks: "concat (map (\<lambda>i. take n (drop (i * n) xs)) [0..<k]) = take (k * n) xs"
  by (induction k) (simp_all add: take_add [of "k * n" n for k] add.commute [of n])

lemma clamp_range: "lo \<le> hi \<Longrightarrow> lo \<le> clamp lo hi n \<and> clamp lo hi n \<le> hi"
  by (simp add: clamp_def)

lemma clamp_id: "lo \<le> n \<Longrightarrow> n \<le> hi \<Longrightarrow> clamp lo hi n = n"
  by (simp add: clamp_def)

lemma paginate_shape:
  assumes "paginate q xs = (layout, page, npages, shown)"
  shows "1 \<le> layout" "layout \<le> 60" "1 \<le> page" "page \<le> npages" "length shown \<le> nat layout"
  using assms clamp_range [of 1 60 "bq_layout q"] clamp_range [of 1 npages "bq_page q"]
  by (auto simp: paginate_def Let_def)

lemma paginate_total: "fst (snd (snd (paginate (q\<lparr>bq_page := p\<rparr>) xs))) = fst (snd (snd (paginate q xs)))"
  by (simp add: paginate_def Let_def)

lemma paginate_covers:
  assumes "paginate q xs = (layout, page, npages, shown)"
  shows "concat (map (\<lambda>i. snd (snd (snd (paginate (q\<lparr>bq_page := int i\<rparr>) xs)))) [1..<Suc (nat npages)]) = xs"
proof -
  let ?n = "nat layout" and ?k = "nat npages"
  have l: "layout = clamp 1 60 (bq_layout q)" "npages = max ((int (length xs) + layout - 1) div layout) 1"
    using assms by (auto simp: paginate_def Let_def)
  have pos: "1 \<le> layout" "1 \<le> npages" using paginate_shape [OF assms] by simp_all
  have upt: "[1..<Suc ?k] = map Suc [0..<?k]" by (simp add: map_Suc_upt)
  have shown: "snd (snd (snd (paginate (q\<lparr>bq_page := int i\<rparr>) xs))) = take ?n (drop ((i - 1) * ?n) xs)"
    if "i \<in> set [1..<Suc ?k]" for i
  proof -
    have "clamp 1 npages (int i) = int i" using that pos by (intro clamp_id) auto
    moreover have "1 \<le> i" using that by (simp only: set_upt atLeastLessThan_iff)
    then have "int i - 1 = int (i - 1)" by simp
    then have "nat ((int i - 1) * layout) = (i - 1) * ?n" by (simp only: nat_mult_distrib nat_int of_nat_0_le_iff)
    ultimately show ?thesis by (simp add: paginate_def Let_def flip: l)
  qed
  have "concat (map (\<lambda>i. snd (snd (snd (paginate (q\<lparr>bq_page := int i\<rparr>) xs)))) [1..<Suc ?k]) =
      concat (map (\<lambda>i. take ?n (drop ((i - 1) * ?n) xs)) [1..<Suc ?k])"
    by (rule arg_cong [of _ _ concat], rule map_cong [OF refl shown])
  also have "\<dots> = take (?k * ?n) xs" unfolding upt by (simp add: concat_page_chunks comp_def)
  also have "\<dots> = xs"
  proof -
    have "int (length xs) \<le> (int (length xs) + layout - 1) div layout * layout"
      using pos(1) by (smt (verit) minus_mod_eq_div_mult pos_mod_bound)
    also have "\<dots> \<le> npages * layout" using pos l(2) by (intro mult_right_mono) simp_all
    also have "\<dots> = int (?k * ?n)" using pos by simp
    finally show ?thesis by (simp only: of_nat_le_iff take_all)
  qed
  finally show ?thesis .
qed

definition binder_view ::
  "runtime \<Rightarrow> arith \<Rightarrow> curated \<Rightarrow> shared_db \<Rightarrow> tdb \<Rightarrow> SharedSet \<Rightarrow> BinderQuery \<Rightarrow> BinderSlot list" where
  "binder_view rt ar cu sd db s q = filter (wanted q) (sort_set_slots (bq_sort q) (set_slots rt ar cu sd db s q))"

lemma set_slots_same: "set_slots rt ar cu sd db s (q\<lparr>bq_page := p\<rparr>) = set_slots rt ar cu sd db s q"
  by (simp add: set_slots_def included_def)

lemma wanted_same: "wanted (q\<lparr>bq_page := p\<rparr>) = wanted q"
  by (simp add: wanted_def fun_eq_iff)

lemma binder_view_same: "binder_view rt ar cu sd db s (q\<lparr>bq_page := p\<rparr>) = binder_view rt ar cu sd db s q"
  by (simp add: binder_view_def wanted_same set_slots_same)

lemma get_binder_page_Some:
  "List.find (\<lambda>s. st_code s = code) (sd_sets sd) = Some s \<Longrightarrow>
   \<exists>info progress. \<forall>p. get_binder_page rt ar cu sd db code (q\<lparr>bq_page := p\<rparr>) =
     Some (binder_page info progress (paginate (q\<lparr>bq_page := p\<rparr>) (binder_view rt ar cu sd db s q)))"
  by (intro exI allI) (simp add: get_binder_page_def Let_def binder_view_def wanted_same set_slots_same)

lemma bp_simps [simp]:
  "bp_slots (binder_page info progress shown) = snd (snd (snd shown))"
  "bp_total_pages (binder_page info progress shown) = fst (snd (snd shown))"
  "bp_page (binder_page info progress shown) = fst (snd shown)"
  "bp_layout (binder_page info progress shown) = fst shown"
  by (simp_all add: binder_page_def split: prod.split)

text \<open>
  C33. The pages of a binder are the whole view and nothing else: whatever page and layout are asked for, the page
  shown is one of the pages there are and holds at most a layout of slots, and the pages from the first to the
  last, one after the other, are exactly the slots that pass the search and the tab, in the order asked for,
  each once.
\<close>

theorem binder_pages_are_the_view:
  "case (List.find (\<lambda>s. st_code s = code) (sd_sets sd), get_binder_page rt ar cu sd db code q) of
     (None, page) \<Rightarrow> page = None
   | (Some s, None) \<Rightarrow> False
   | (Some s, Some page) \<Rightarrow>
       1 \<le> bp_page page \<and> bp_page page \<le> bp_total_pages page \<and> 1 \<le> bp_layout page \<and> bp_layout page \<le> 60 \<and>
       length (bp_slots page) \<le> nat (bp_layout page) \<and>
       concat (map (\<lambda>i. case get_binder_page rt ar cu sd db code (q\<lparr>bq_page := int i\<rparr>) of Some p \<Rightarrow> bp_slots p | None \<Rightarrow> [])
         [1..<Suc (nat (bp_total_pages page))]) = binder_view rt ar cu sd db s q"
proof (cases "List.find (\<lambda>s. st_code s = code) (sd_sets sd)")
  case None
  then show ?thesis by (simp add: get_binder_page_def)
next
  case (Some s)
  let ?view = "binder_view rt ar cu sd db s q"
  from get_binder_page_Some [OF Some] obtain info progress where page:
    "\<And>p. get_binder_page rt ar cu sd db code (q\<lparr>bq_page := p\<rparr>) =
       Some (binder_page info progress (paginate (q\<lparr>bq_page := p\<rparr>) ?view))" by blast
  from page [of "bq_page q"] have here: "get_binder_page rt ar cu sd db code q = Some (binder_page info progress (paginate q ?view))"
    by simp
  obtain layout pg npages shown where shape: "paginate q ?view = (layout, pg, npages, shown)" by (rule prod_cases4)
  show ?thesis
    using paginate_shape [OF shape] paginate_covers [OF shape] by (simp add: Some here page shape)
qed

section \<open>The missing cards are the cards of the need tab\<close>

lemma set_printing_rows:
  "set (printing_rows ar sd db code) =
     (\<lambda>p. (ap_card p, slot_printing ar sd db p)) ` {p \<in> set (any_printings sd db). ap_card p \<in> cd_id ` set (set_cards sd code)}"
  by (force simp: printing_rows_def image_iff)

lemma owned_count_slot [simp]:
  "0 < sq_owned_count (slot_printing ar sd db p) \<longleftrightarrow> copies_of db (pk_printing (ap_key p)) \<noteq> []"
  by (simp add: slot_printing_def Let_def)

lemma owns_one_iff:
  assumes "c \<in> set (set_cards sd code)"
  shows "owns_one (card_slot rt cu (printing_rows ar sd db code) sect c) \<longleftrightarrow> holds_card sd db (cd_id c)"
proof -
  have "owns_one (card_slot rt cu (printing_rows ar sd db code) sect c) \<longleftrightarrow>
      (\<exists>x \<in> set (printing_rows ar sd db code). fst x = cd_id c \<and> 0 < sq_owned_count (snd x))"
    by (force simp: owns_one_def card_slot_def Let_def list_ex_iff)
  also have "\<dots> \<longleftrightarrow> (\<exists>p \<in> set (any_printings sd db). ap_card p = cd_id c \<and> copies_of db (pk_printing (ap_key p)) \<noteq> [])"
    using assms by (auto simp: set_printing_rows)
  also have "\<dots> \<longleftrightarrow> holds_card sd db (cd_id c)"
    by (simp add: any_printings_def holds_card_def card_printings_def list_ex_iff bex_Un) blast
  finally show ?thesis .
qed

text \<open>
  C34. The export of missing cards and the need tab of the binder agree: with every section shown, no search and the
  order of the collector numbers, the cards exported are the cards of the slots the tab shows, in the same order,
  each under the same section.
\<close>

theorem missing_is_the_need_tab:
  "map_option (\<lambda>e. map (\<lambda>m. (mc_card m, mc_number m, mc_section m)) (me_cards e)) (missing_for_export sd db code) =
   map_option (\<lambda>s. map (\<lambda>b. (bs_card b, bs_number b, bs_section b)) (binder_view rt ar cu sd db s
     \<lparr>bq_page = page, bq_layout = layout, bq_secret = True, bq_subset = True, bq_promos = True, bq_sort = ''number'',
      bq_search = [], bq_filter = ''need''\<rparr>)) (List.find (\<lambda>s. st_code s = code) (sd_sets sd))"
proof (cases "List.find (\<lambda>s. st_code s = code) (sd_sets sd)")
  case None
  then show ?thesis by (simp add: missing_for_export_def)
next
  case (Some s)
  let ?q = "\<lparr>bq_page = page, bq_layout = layout, bq_secret = True, bq_subset = True, bq_promos = True, bq_sort = ''number'',
      bq_search = [], bq_filter = ''need''\<rparr>"
  let ?sect = "\<lambda>c. section_of (sc_number_sortable c) (keep (ss_printed_total s) i64_max)"
  let ?cards = "sort_key sc_number_sortable (set_cards sd code)"
  let ?slot = "\<lambda>c. card_slot rt cu (printing_rows ar sd db code) (?sect c) c"
  have code: "st_code s = code" using Some by (auto simp: find_Some_iff)
  have all: "included ?q x" for x by (simp add: included_def)
  have sect: "(case ss_printed_total s of None \<Rightarrow> section_of n i64_max | Some t \<Rightarrow> section_of n t) =
      section_of n (keep (ss_printed_total s) i64_max)" for n by (cases "ss_printed_total s") simp_all
  have "trim [] = []" by (simp add: trim_def trim_start_def trim_end_def)
  then have need: "wanted ?q b \<longleftrightarrow> \<not> owns_one b" for b by (simp add: wanted_def Let_def to_ascii_lowercase_def)
  have "binder_view rt ar cu sd db s ?q = filter (\<lambda>b. \<not> owns_one b) (map ?slot ?cards)"
    unfolding binder_view_def set_slots_def code need Let_def sect all
    by (simp add: sort_set_slots_def sort_slots_def all)
  also have "\<dots> = map ?slot (filter (\<lambda>c. \<not> owns_one (?slot c)) ?cards)"
    by (simp add: filter_map comp_def)
  also have "filter (\<lambda>c. \<not> owns_one (?slot c)) ?cards = filter (\<lambda>c. \<not> holds_card sd db (cd_id c)) ?cards"
    by (rule filter_cong [OF refl]) (simp add: owns_one_iff)
  finally show ?thesis
    by (simp add: Some missing_for_export_def Let_def List.linorder_class.filter_sort card_slot_def comp_def)
qed

end
