(* ===== verification/Csv_Export.thy ===== *)
theory Csv_Export
  imports Import_Csv Catalog_Views
begin

text \<open>
  The collection written as CSV: in the shape of ManaBox (\<open>export.rs\<close>) and, cards and sealed products apart, of
  Collectr (\<open>collectr_export.rs\<close>). The CSV writer and the printing of floating-point numbers are parameters;
  a writer into memory does not fail. The re-import of the first file through the importer of theory
  \<open>Import_Csv\<close> and the halves the others fall into are proved here.
\<close>

record csv_writer =
  cw_write :: "string list list \<Rightarrow> string"
  cw_fixed2 :: "f64 \<Rightarrow> string"         \<comment> \<open>\<open>format!("{p:.2}")\<close>\<close>
  cw_plain :: "f64 \<Rightarrow> string"          \<comment> \<open>\<open>format!("{v}")\<close>\<close>
  cw_whole :: "f64 \<Rightarrow> int option"      \<comment> \<open>the value of a number without fraction\<close>

section \<open>Copies and the catalog rows they join\<close>

record Exported =
  xp_set :: SharedSet
  xp_card :: SharedCard
  xp_printing :: PrintingRow
  xp_copy :: CollectionEntry

text \<open>Inner joins: a copy of a printing the catalog does not have is not in the list.\<close>

definition joined :: "shared_db \<Rightarrow> CollectionEntry \<Rightarrow> Exported list" where
  "joined sd e =
     concat (map (\<lambda>p. concat (map (\<lambda>c. map (\<lambda>s. \<lparr>xp_set = s, xp_card = c, xp_printing = p, xp_copy = e\<rparr>)
         (filter (\<lambda>s. st_code s = cd_set c) (sd_sets sd)))
       (filter (\<lambda>c. cd_id c = pg_card p) (sd_cards sd))))
     (filter (\<lambda>p. pg_id p = ce_printing e) (sd_printings sd)))"

definition exported :: "shared_db \<Rightarrow> tdb \<Rightarrow> Exported list" where
  "exported sd db =
     sort_key (\<lambda>x. (st_code (xp_set x), sc_number_sortable (xp_card x), pg_variant (xp_printing x), ce_id (xp_copy x)))
       (concat (map (joined sd) (tbl_rows (db_collection db))))"

section \<open>ManaBox\<close>

definition MANABOX_HEADER :: "string list" where
  "MANABOX_HEADER =
     [''Set code'', ''Set name'', ''Collector number'', ''Foil'', ''Rarity'', ''Quantity'', ''ManaBox ID'', ''Scryfall ID'',
      ''Purchase price'', ''Misprint'', ''Altered'', ''Condition'', ''Language'', ''Purchase price currency'']"

definition bool_str :: "bool \<Rightarrow> string" where
  "bool_str b = (if b then ''true'' else ''false'')"

definition manabox_cells :: "csv_writer \<Rightarrow> Exported \<Rightarrow> string list" where
  "manabox_cells w x =
     (let e = xp_copy x; tags = keep (ce_tags e) [] in
      [st_code (xp_set x), st_name (xp_set x), cd_number (xp_card x), pg_variant (xp_printing x),
       keep (cd_rarity (xp_card x)) [], ''1'', [], [],
       (case ce_purchase_price e of Some p \<Rightarrow> cw_fixed2 w p | None \<Rightarrow> []),
       bool_str (contains ''misprint'' tags), bool_str (contains ''altered'' tags), ce_condition e, ce_language e,
       (if ce_purchase_price e \<noteq> None then ''USD'' else [])])"

definition manabox_table :: "csv_writer \<Rightarrow> shared_db \<Rightarrow> tdb \<Rightarrow> string list list" where
  "manabox_table w sd db = map (manabox_cells w) (exported sd db)"

definition manabox_csv :: "csv_writer \<Rightarrow> shared_db \<Rightarrow> tdb \<Rightarrow> string" where
  "manabox_csv w sd db = cw_write w (MANABOX_HEADER # manabox_table w sd db)"

section \<open>Collectr\<close>

definition COLLECTR_HEADER :: "string list" where
  "COLLECTR_HEADER =
     [''Portfolio Name'', ''Category'', ''Set'', ''Product Name'', ''Card Number'', ''Rarity'', ''Variance'', ''Grade'',
      ''Card Condition'', ''Average Cost Paid'', ''Quantity'', ''Market Price'', ''Price Override'', ''Watchlist'',
      ''Date Added'', ''Notes'']"

definition card_number :: "string \<Rightarrow> int option \<Rightarrow> string" where
  "card_number number printed_total = (case printed_total of Some t \<Rightarrow> number @ ''/'' @ show_int t | None \<Rightarrow> number)"

definition variant_to_collectr :: "string \<Rightarrow> string" where
  "variant_to_collectr variant =
     (if variant = ''normal'' then ''Normal'' else if variant = ''reverse_holo'' then ''Reverse Holofoil'' else ''Holofoil'')"

definition trim_num :: "csv_writer \<Rightarrow> f64 \<Rightarrow> string" where
  "trim_num w v = (case cw_whole w v of Some i \<Rightarrow> show_int i | None \<Rightarrow> cw_plain w v)"

definition grade_cell :: "csv_writer \<Rightarrow> bool \<Rightarrow> string option \<Rightarrow> f64 option \<Rightarrow> string" where
  "grade_cell w graded company v =
     (if \<not> graded then ''Ungraded''
      else case (company, v) of
          (Some c, Some x) \<Rightarrow> c @ '' '' @ trim_num w x
        | (Some c, None) \<Rightarrow> c
        | _ \<Rightarrow> ''Graded'')"

definition money :: "csv_writer \<Rightarrow> f64 option \<Rightarrow> string" where
  "money w price = (case price of Some p \<Rightarrow> cw_fixed2 w p | None \<Rightarrow> [])"

definition date_only :: "string option \<Rightarrow> string" where
  "date_only ts = (case ts of Some t \<Rightarrow> concat (take 10 (chars t)) | None \<Rightarrow> [])"

definition single_cells :: "csv_writer \<Rightarrow> Exported \<Rightarrow> string list" where
  "single_cells w x =
     (let e = xp_copy x in
      [''Main'', ''Pokemon'', st_name (xp_set x), cd_name (xp_card x),
       card_number (cd_number (xp_card x)) (ss_printed_total (xp_set x)), keep (cd_rarity (xp_card x)) [],
       variant_to_collectr (pg_variant (xp_printing x)),
       grade_cell w (ce_graded e) (ce_grade_company e) (ce_grade_value e), ce_condition e,
       money w (ce_purchase_price e), ''1'', [], ''0'', ''false'', date_only (Some (ce_acquired_at e)), keep (ce_notes e) []])"

text \<open>SQLite sorts a missing date first.\<close>

definition release_key :: "string option \<Rightarrow> nat \<times> string" where
  "release_key d = (case d of None \<Rightarrow> (0, []) | Some s \<Rightarrow> (1, s))"

definition owned_singles :: "shared_db \<Rightarrow> tdb \<Rightarrow> Exported list" where
  "owned_singles sd db =
     sort_key (\<lambda>x. (release_key (ss_release_date (xp_set x)), st_code (xp_set x), sc_number_sortable (xp_card x),
                    pg_variant (xp_printing x), ce_id (xp_copy x)))
       (concat (map (joined sd) (filter (\<lambda>e. ce_status e = ''owned'') (tbl_rows (db_collection db)))))"

definition collectr_singles_csv :: "csv_writer \<Rightarrow> shared_db \<Rightarrow> tdb \<Rightarrow> string" where
  "collectr_singles_csv w sd db = cw_write w (COLLECTR_HEADER # map (single_cells w) (owned_singles sd db))"

record ExportedLot =
  xl_set :: "SharedSet option"
  xl_product :: SealedProductRow
  xl_lot :: SealedRow

definition sealed_cells :: "csv_writer \<Rightarrow> ExportedLot \<Rightarrow> string list" where
  "sealed_cells w x =
     (let l = xl_lot x in
      [''Sealed Pokemon TCG'', ''Pokemon'', (case xl_set x of Some s \<Rightarrow> st_name s | None \<Rightarrow> []), sp_name (xl_product x),
       [], [], ''Normal'', ''Ungraded'', keep (se_condition l) ''Near Mint'', money w (se_purchase_price l),
       show_int (se_quantity l), [], ''0'', ''false'', date_only (se_purchase_date l), keep (se_notes l) []])"

definition owned_lots :: "shared_db \<Rightarrow> tdb \<Rightarrow> ExportedLot list" where
  "owned_lots sd db =
     sort_key (\<lambda>x. (release_key (Option.bind (xl_set x) ss_release_date), release_key (map_option st_code (xl_set x)),
                    sp_name (xl_product x), se_id (xl_lot x)))
       (concat (map (\<lambda>l. map (\<lambda>p.
           \<lparr>xl_set = List.find (\<lambda>s. sp_set_code p = Some (st_code s)) (sd_sets sd), xl_product = p, xl_lot = l\<rparr>)
           (filter (\<lambda>p. sp_id p = se_product l) (sd_sealed_products sd)))
         (filter (\<lambda>l. se_status l = ''owned'') (tbl_rows (db_sealed db)))))"

definition collectr_sealed_csv :: "csv_writer \<Rightarrow> shared_db \<Rightarrow> tdb \<Rightarrow> string" where
  "collectr_sealed_csv w sd db = cw_write w (COLLECTR_HEADER # map (sealed_cells w) (owned_lots sd db))"

section \<open>What is exported\<close>

lemma filter_key_one: "distinct (map f xs) \<Longrightarrow> x \<in> set xs \<Longrightarrow> filter (\<lambda>y. f y = f x) xs = [x]"
  by (induction xs) (auto simp: filter_empty_conv image_iff)

text \<open>A row of a file stands for a copy together with its printing, the card of that and the set of that.\<close>

definition in_place :: "shared_db \<Rightarrow> Exported \<Rightarrow> bool" where
  "in_place sd x \<longleftrightarrow> xp_printing x \<in> set (sd_printings sd) \<and> pg_id (xp_printing x) = ce_printing (xp_copy x) \<and>
     xp_card x \<in> set (sd_cards sd) \<and> cd_id (xp_card x) = pg_card (xp_printing x) \<and>
     xp_set x \<in> set (sd_sets sd) \<and> st_code (xp_set x) = cd_set (xp_card x)"

definition of_catalog :: "shared_db \<Rightarrow> CollectionEntry \<Rightarrow> bool" where
  "of_catalog sd e \<longleftrightarrow> ce_printing e \<in> pg_id ` set (sd_printings sd)"

lemma joined_in_place: "x \<in> set (joined sd e) \<Longrightarrow> in_place sd x \<and> xp_copy x = e"
  by (auto simp: joined_def in_place_def)

lemma joined_copies:
  assumes "shared_ok sd"
  shows "map xp_copy (joined sd e) = (if of_catalog sd e then [e] else [])"
proof (cases "of_catalog sd e")
  case False
  then have "filter (\<lambda>p. pg_id p = ce_printing e) (sd_printings sd) = []"
    unfolding of_catalog_def filter_empty_conv by (metis imageI)
  then show ?thesis using False by (simp add: joined_def)
next
  case True
  have d: "distinct (map pg_id (sd_printings sd))" "distinct (map cd_id (sd_cards sd))" "distinct (map st_code (sd_sets sd))"
    using assms by (simp_all add: shared_ok_def)
  from True obtain p where p: "p \<in> set (sd_printings sd)" "ce_printing e = pg_id p" by (auto simp: of_catalog_def)
  have "has_card sd (pg_card p)" using assms p(1) by (simp add: shared_ok_def)
  then obtain c where c: "c \<in> set (sd_cards sd)" "pg_card p = cd_id c" by (auto simp: has_card_def list_ex_iff)
  have "has_set sd (cd_set c)" using assms c(1) by (simp add: shared_ok_def)
  then obtain t where t: "t \<in> set (sd_sets sd)" "cd_set c = st_code t" by (auto simp: has_set_def list_ex_iff)
  show ?thesis
    using True by (simp add: joined_def p(2) c(2) t(2) filter_key_one [OF d(1) p(1)] filter_key_one [OF d(2) c(1)]
        filter_key_one [OF d(3) t(1)])
qed

lemma exported_copies:
  assumes "shared_ok sd"
  shows "mset (map xp_copy (sort_key k (concat (map (joined sd) es)))) = mset (filter (of_catalog sd) es)"
proof -
  have "map xp_copy (concat (map (joined sd) es)) = filter (of_catalog sd) es"
    by (induction es) (simp_all add: joined_copies [OF assms])
  from arg_cong [OF this, of mset] show ?thesis by simp
qed

lemma exported_rows:
  assumes "x \<in> set (sort_key k (concat (map (joined sd) es)))"
  shows "in_place sd x" "xp_copy x \<in> set es"
  using assms joined_in_place by auto

section \<open>The ManaBox file read back\<close>

text \<open>
  Variant codes are words of lower-case letters, digits and underscores; the importer reads five such words as
  names of finishes instead. A language is a capitalised word, other than the abbreviation \<open>En\<close>.
\<close>

definition is_word_char :: "char \<Rightarrow> bool" where
  "is_word_char c \<longleftrightarrow> is_lower c \<or> is_digit c \<or> c = CHR ''_''"

definition variant_word :: "string \<Rightarrow> bool" where
  "variant_word v \<longleftrightarrow> v \<noteq> [] \<and> list_all is_word_char v \<and>
     v \<notin> set [''nonfoil'', ''foil'', ''holofoil'', ''etched'', ''reverseholofoil'']"

definition language_word :: "string \<Rightarrow> bool" where
  "language_word l \<longleftrightarrow> (case l of [] \<Rightarrow> False | c # cs \<Rightarrow> is_upper c \<and> list_all is_lower cs) \<and> l \<noteq> ''En''"

text \<open>What the catalog and the collection must look like: codes, names and numbers without blanks at their ends.\<close>

definition exportable :: "Exported \<Rightarrow> bool" where
  "exportable x \<longleftrightarrow>
     list_all (\<lambda>s. trim s = s \<and> s \<noteq> []) [st_code (xp_set x), st_name (xp_set x), cd_number (xp_card x)] \<and>
     variant_word (pg_variant (xp_printing x)) \<and> language_word (ce_language (xp_copy x))"

text \<open>A number printed with two decimals has no blanks and parses.\<close>

definition prices_parse :: "runtime \<Rightarrow> csv_writer \<Rightarrow> bool" where
  "prices_parse rt w \<longleftrightarrow>
     (\<forall>p. trim (cw_fixed2 w p) = cw_fixed2 w p \<and> cw_fixed2 w p \<noteq> [] \<and> parse_f64 rt (cw_fixed2 w p) \<noteq> None)"

lemma trim_plain:
  assumes "list_all (\<lambda>c. is_ascii c \<and> \<not> is_whitespace [c]) s"
  shows "trim s = s"
proof (rule trim_id)
  have "list_all is_ascii s" using assms by (simp add: list_all_iff)
  then have c: "chars s = map (\<lambda>c. [c]) s" by (rule chars_ascii)
  show "s = [] \<or> (\<not> is_whitespace (hd (chars s)) \<and> \<not> is_whitespace (last (chars s)))"
    unfolding c using assms by (cases s) (auto simp: last_map list_all_iff)
qed

lemma word_char_plain: "is_word_char c \<or> is_upper c \<Longrightarrow> is_ascii c \<and> \<not> is_whitespace [c]"
  by (auto simp: is_word_char_def is_lower_def is_upper_def is_digit_def is_ascii_def is_whitespace_def whitespace_codes_def)

lemma word_lower: "list_all is_word_char v \<Longrightarrow> str_lower rt v = v"
proof -
  assume v: "list_all is_word_char v"
  then have "list_all is_ascii v" using word_char_plain by (auto simp: list_all_iff)
  moreover have "is_word_char c \<Longrightarrow> ascii_lower c = c" for c
    by (auto simp: is_word_char_def ascii_lower_def is_lower_def is_upper_def is_digit_def)
  then have "map ascii_lower v = v" using v by (intro map_idI) (auto simp: list_all_iff)
  ultimately show ?thesis by (simp add: str_lower_def)
qed

lemma variant_kept:
  assumes "variant_word v"
  shows "trim v = v \<and> manabox_variant rt v = v"
proof -
  have t: "trim v = v" using assms word_char_plain by (intro trim_plain) (auto simp: variant_word_def list_all_iff)
  have "\<not> is_word_char (CHR ''-'')" "\<not> is_word_char (CHR '' '')"
    by (simp_all add: is_word_char_def is_lower_def is_digit_def)
  then have no: "CHR ''-'' \<notin> set v" "CHR '' '' \<notin> set v"
    using assms unfolding variant_word_def list_all_iff by blast+
  have "v \<noteq> ''non-foil''" "v \<noteq> ''reverse holofoil''" "v \<noteq> ''reverse holo''"
  proof -
    show "v \<noteq> ''non-foil''" using no(1) by (intro notI) simp
    show "v \<noteq> ''reverse holofoil''" "v \<noteq> ''reverse holo''" using no(2) by (intro notI; simp)+
  qed
  then show ?thesis
    using assms by (simp add: t manabox_variant_def word_lower variant_word_def)
qed

lemma language_kept:
  assumes "language_word l"
  shows "trim l = l \<and> map_language rt l = l"
proof -
  obtain c cs where l: "l = c # cs" "is_upper c" "list_all is_lower cs"
    using assms by (cases l) (auto simp: language_word_def)
  have word: "list_all is_word_char cs" using l(3) by (auto simp: list_all_iff is_word_char_def)
  have t: "trim l = l" using l word word_char_plain by (intro trim_plain) (auto simp: list_all_iff)
  have code: "(of_char c :: nat) \<le> 90" "65 \<le> (of_char c :: nat)" using l(2) by (simp_all add: is_upper_def)
  have up: "ascii_upper (ascii_lower c) = c" "is_ascii (ascii_lower c)" "is_ascii c"
    using code by (simp_all add: ascii_upper_def ascii_lower_def is_upper_def is_lower_def is_ascii_def)
  have "list_all is_ascii cs" "map ascii_lower cs = cs"
    using word word_lower [OF word, of plain_runtime] word_char_plain
    by (auto simp: list_all_iff str_lower_def split: if_splits)
  then have low: "str_lower rt l = ascii_lower c # cs" "chars (ascii_lower c # cs) = map (\<lambda>c. [c]) (ascii_lower c # cs)"
    using up by (simp add: l(1) str_lower_def, intro chars_ascii, simp)
  show ?thesis
  proof (cases "ascii_lower c # cs \<in> set ['''', ''en'', ''english'']")
    case True
    then have "l = ''English''"
      using assms up(1) by (auto simp: l(1) language_word_def ascii_upper_def is_lower_def char_of_bits)
    then show ?thesis by (simp add: map_language_def Let_def text_defs)
  next
    case False
    then show ?thesis
      using up unfolding map_language_def t low Let_def by (simp add: t low char_upper_def comp_def) (use False in \<open>auto simp: l(1)\<close>)
  qed
qed

lemma condition_kept:
  assumes "entry_check e"
  shows "trim (ce_condition e) = ce_condition e" "map_condition rt (ce_condition e) = ce_condition e"
proof -
  have c: "ce_condition e \<in> set condition_scale"
    using assms by (simp add: entry_check_def condition_scale_def conditions_allowed_def)
  have "list_all (\<lambda>s. trim s = s) condition_scale" by (simp add: condition_scale_def text_defs)
  then show "trim (ce_condition e) = ce_condition e" using c by (simp add: list_all_iff)
  show "map_condition rt (ce_condition e) = ce_condition e" using c map_condition_scale by (simp add: list_all_iff)
qed

text \<open>So nothing the file holds is changed by the importer's reading of it.\<close>

definition readable :: "runtime \<Rightarrow> csv_writer \<Rightarrow> Exported \<Rightarrow> bool" where
  "readable rt w x \<longleftrightarrow>
     list_all (\<lambda>s. trim s = s \<and> s \<noteq> []) [st_code (xp_set x), st_name (xp_set x), cd_number (xp_card x)] \<and>
     list_all (\<lambda>s. trim s = s) [pg_variant (xp_printing x), ce_condition (xp_copy x), ce_language (xp_copy x)] \<and>
     manabox_variant rt (pg_variant (xp_printing x)) = pg_variant (xp_printing x) \<and>
     map_condition rt (ce_condition (xp_copy x)) = ce_condition (xp_copy x) \<and>
     map_language rt (ce_language (xp_copy x)) = ce_language (xp_copy x) \<and>
     (case ce_purchase_price (xp_copy x) of None \<Rightarrow> True
      | Some p \<Rightarrow> trim (cw_fixed2 w p) = cw_fixed2 w p \<and> cw_fixed2 w p \<noteq> [] \<and> parse_f64 rt (cw_fixed2 w p) \<noteq> None)"

lemma exportable_readable: "prices_parse rt w \<Longrightarrow> exportable x \<Longrightarrow> entry_check (xp_copy x) \<Longrightarrow> readable rt w x"
  using variant_kept language_kept condition_kept
  by (simp add: readable_def exportable_def prices_parse_def split: option.split)

definition reimported :: "runtime \<Rightarrow> csv_writer \<Rightarrow> nat \<Rightarrow> Exported \<Rightarrow> ParsedRow" where
  "reimported rt w line x =
     (let e = xp_copy x; tags = keep (ce_tags e) [] in
      \<lparr>pr_source_line = line, pr_set_hint = st_code (xp_set x), pr_set_name = Some (st_name (xp_set x)), pr_name = None,
       pr_number = cd_number (xp_card x), pr_variant = pg_variant (xp_printing x), pr_condition = ce_condition e,
       pr_language = ce_language e, pr_purchase_price = Option.bind (ce_purchase_price e) (\<lambda>p. parse_f64 rt (cw_fixed2 w p)),
       pr_acquired_at = None,
       pr_tags = (if contains ''misprint'' tags then [''misprint''] else []) @
                 (if contains ''altered'' tags then [''altered''] else [])\<rparr>)"

definition manabox_cols :: ManaboxCols where
  "manabox_cols =
     \<lparr>mb_number = 2, mb_set_code = Some 0, mb_set_name = Some 1, mb_foil = Some 3, mb_quantity = Some 5,
      mb_condition = Some 11, mb_language = Some 12, mb_price = Some 8, mb_misprint = Some 9, mb_altered = Some 10\<rparr>"

lemma manabox_header_names:
  "map (\<lambda>h. str_lower rt (trim h)) MANABOX_HEADER =
     [''set code'', ''set name'', ''collector number'', ''foil'', ''rarity'', ''quantity'', ''manabox id'', ''scryfall id'',
      ''purchase price'', ''misprint'', ''altered'', ''condition'', ''language'', ''purchase price currency'']"
  by (simp add: MANABOX_HEADER_def text_defs)

lemma manabox_header_columns: "manabox_columns (header_map rt MANABOX_HEADER) = Inr manabox_cols"
  unfolding header_map_def manabox_header_names
  by (simp add: MANABOX_HEADER_def manabox_columns_def or_missing_def manabox_cols_def upt_rec)

lemma plain_cells:
  "trim ''1'' = ''1''" "trim ''true'' = ''true''" "trim ''false'' = ''false''" "trim [] = []"
  "parse_u32 ''1'' = Some 1" "is_true rt ''true''" "\<not> is_true rt ''false''"
  by (simp_all add: is_true_def text_defs)

lemma manabox_record_exported:
  assumes "prices_parse rt w" "exportable x" "entry_check (xp_copy x)"
  shows "manabox_record rt manabox_cols line (manabox_cells w x) = Inr [reimported rt w line x]"
proof -
  have fit: "readable rt w x" by (rule exportable_readable [OF assms])
  let ?rec = "manabox_cells w x"
  have cells: "cell ?rec (Some 0) = st_code (xp_set x)" "cell ?rec (Some 1) = st_name (xp_set x)"
    "cell ?rec (Some 2) = cd_number (xp_card x)" "cell ?rec (Some 3) = pg_variant (xp_printing x)"
    "cell ?rec (Some 5) = ''1''" "cell ?rec (Some 8) = money w (ce_purchase_price (xp_copy x))"
    "cell ?rec (Some 9) = bool_str (contains ''misprint'' (keep (ce_tags (xp_copy x)) []))"
    "cell ?rec (Some 10) = bool_str (contains ''altered'' (keep (ce_tags (xp_copy x)) []))"
    "cell ?rec (Some 11) = ce_condition (xp_copy x)" "cell ?rec (Some 12) = ce_language (xp_copy x)"
    using fit by (auto simp: cell_def manabox_cells_def Let_def readable_def plain_cells money_def bool_str_def split: option.splits)
  have price: "parse_price_cell rt line ''Purchase price'' (money w (ce_purchase_price (xp_copy x))) =
      Inr (Option.bind (ce_purchase_price (xp_copy x)) (\<lambda>p. parse_f64 rt (cw_fixed2 w p)))"
    using fit by (auto simp: parse_price_cell_def money_def readable_def split: option.splits)
  show ?thesis
    using fit
    by (simp add: manabox_record_def manabox_cols_def cells cells(2) [unfolded One_nat_def] price parse_quantity_def plain_cells reimported_def readable_def
        bool_str_def Let_def)
qed

lemma import_rows_exported:
  "prices_parse rt w \<Longrightarrow> list_all (\<lambda>x. exportable x \<and> entry_check (xp_copy x)) xs \<Longrightarrow>
   import_rows (manabox_record rt manabox_cols) line (map Inr (map (manabox_cells w) xs)) =
     Inr (map (\<lambda>(l, x). reimported rt w l x) (zip [line..<line + length xs] xs))"
proof (induction xs arbitrary: line)
  case (Cons x xs)
  then show ?case by (simp add: manabox_record_exported upt_rec)
qed simp

text \<open>
  C35. The ManaBox export comes back: the file has one row for every copy of a printing of the catalog and no other,
  each joined to its own printing, card and set, and read through the ManaBox importer it gives one row per row of
  the file, in order and on its line, with the set, number, variant, condition and language of the copy, its
  misprint and altered marks and its price to two decimals. The variant code and the language have to be single
  words; that the importer keeps them and every condition of the schema is part of what is shown.
\<close>

theorem manabox_export_reimports:
  assumes "csv_headers rt (manabox_csv w sd db) = Inr MANABOX_HEADER"
    and "csv_records rt (manabox_csv w sd db) = map Inr (manabox_table w sd db)"
    and "prices_parse rt w" "shared_ok sd" "list_all entry_check (tbl_rows (db_collection db))"
    and "list_all exportable (exported sd db)"
  shows "manabox_parse rt (manabox_csv w sd db) =
      Inr (map (\<lambda>(line, x). reimported rt w line x) (zip [2..<2 + length (exported sd db)] (exported sd db))) \<and>
    list_all (in_place sd) (exported sd db) \<and>
    mset (map xp_copy (exported sd db)) = mset (filter (of_catalog sd) (tbl_rows (db_collection db)))"
proof -
  have rows: "list_all (\<lambda>x. exportable x \<and> entry_check (xp_copy x)) (exported sd db)"
    using assms(5,6) unfolding exported_def list_all_iff by (blast dest: exported_rows)
  have "list_all (in_place sd) (exported sd db)" unfolding exported_def list_all_iff by (blast dest: exported_rows)
  then show ?thesis
    using import_rows_exported [OF assms(3) rows, of 2] exported_copies [OF assms(4)]
    by (simp add: manabox_parse_def assms(1,2) manabox_header_columns manabox_table_def exported_def)
qed

section \<open>The Collectr files read back\<close>

definition collectr_cols :: CollectrCols where
  "collectr_cols =
     \<lparr>co_category = 1, co_set = 2, co_name = 3, co_number = 4, co_variance = Some 6, co_condition = Some 8,
      co_cost = Some 9, co_quantity = Some 10, co_date = Some 14, co_notes = Some 15\<rparr>"

lemma collectr_header_names:
  "map (\<lambda>h. str_lower rt (trim h)) COLLECTR_HEADER =
     [''portfolio name'', ''category'', ''set'', ''product name'', ''card number'', ''rarity'', ''variance'', ''grade'',
      ''card condition'', ''average cost paid'', ''quantity'', ''market price'', ''price override'', ''watchlist'',
      ''date added'', ''notes'']"
  by (simp add: COLLECTR_HEADER_def text_defs)

lemma collectr_header_columns: "collectr_columns (header_map rt COLLECTR_HEADER) = Inr collectr_cols"
  unfolding header_map_def collectr_header_names
  by (simp add: COLLECTR_HEADER_def collectr_columns_def or_missing_def collectr_cols_def upt_rec)

text \<open>Collectr knows three kinds of a card: what is neither plain nor reverse comes back as a holo.\<close>

definition collectr_variant :: "string \<Rightarrow> string" where
  "collectr_variant v = (if v = ''normal'' \<or> v = ''reverse_holo'' then v else ''holo'')"

lemma collectr_variant_back: "manabox_variant rt (trim (variant_to_collectr v)) = collectr_variant v"
proof -
  have "manabox_variant rt (trim ''Normal'') = ''normal''" "manabox_variant rt (trim ''Reverse Holofoil'') = ''reverse_holo''"
    "manabox_variant rt (trim ''Holofoil'') = ''holo''" by (simp_all add: manabox_variant_def Let_def text_defs)
  then show ?thesis by (simp add: variant_to_collectr_def collectr_variant_def)
qed

lemma no_language: "map_language rt [] = ''English''"
  by (simp add: map_language_def Let_def text_defs)

definition single_back :: "runtime \<Rightarrow> csv_writer \<Rightarrow> nat \<Rightarrow> Exported \<Rightarrow> ParsedRow" where
  "single_back rt w line x =
     (let e = xp_copy x; set = trim (st_name (xp_set x)); name = trim (cd_name (xp_card x));
          date = trim (date_only (Some (ce_acquired_at e))) in
      \<lparr>pr_source_line = line, pr_set_hint = set, pr_set_name = Some set, pr_name = (if name \<noteq> [] then Some name else None),
       pr_number = normalize_number (trim (card_number (cd_number (xp_card x)) (ss_printed_total (xp_set x)))),
       pr_variant = collectr_variant (pg_variant (xp_printing x)),
       pr_condition = ce_condition e, pr_language = ''English'',
       pr_purchase_price = parse_price rt (trim (money w (ce_purchase_price e))),
       pr_acquired_at = (if date \<noteq> [] then Some (to_rfc3339 date) else None), pr_tags = []\<rparr>)"

definition lot_back :: "runtime \<Rightarrow> csv_writer \<Rightarrow> nat \<Rightarrow> ExportedLot \<Rightarrow> ParsedSealedRow" where
  "lot_back rt w line x =
     (let l = xl_lot x; set = trim (case xl_set x of Some s \<Rightarrow> st_name s | None \<Rightarrow> []); date = trim (date_only (se_purchase_date l)) in
      \<lparr>ps_source_line = line, ps_name = trim (sp_name (xl_product x)), ps_set_hint = set, ps_set_name = Some set,
       ps_category_hint = None, ps_quantity = nat (se_quantity l),
       ps_condition = map_condition rt (trim (keep (se_condition l) ''Near Mint'')),
       ps_purchase_price = parse_price rt (trim (money w (se_purchase_price l))),
       ps_purchase_date = (if date \<noteq> [] then Some date else None),
       ps_notes = clean_notes (trim (keep (se_notes l) []))\<rparr>)"

text \<open>A set with a name and a card with a number; a lot with a quantity the importer reads.\<close>

definition single_fit :: "Exported \<Rightarrow> bool" where
  "single_fit x \<longleftrightarrow> trim (st_name (xp_set x)) \<noteq> [] \<and>
     trim (card_number (cd_number (xp_card x)) (ss_printed_total (xp_set x))) \<noteq> []"

definition lot_fit :: "ExportedLot \<Rightarrow> bool" where
  "lot_fit x \<longleftrightarrow> 0 \<le> se_quantity (xl_lot x) \<and> se_quantity (xl_lot x) < 2 ^ 32"

text \<open>A product may be of no set; its row has an empty cell there, which the importer skips.\<close>

definition of_named_set :: "nat \<times> ExportedLot \<Rightarrow> bool" where
  "of_named_set = (\<lambda>(line, x). case xl_set x of Some s \<Rightarrow> trim (st_name s) \<noteq> [] | None \<Rightarrow> False)"

definition lot_skipped :: "nat \<Rightarrow> ExportedLot \<Rightarrow> SkippedRow" where
  "lot_skipped line x =
     \<lparr>sk_source_line = line, sk_category = ''Pokemon'', sk_name = trim (sp_name (xl_product x)), sk_reason = ''empty Set''\<rparr>"

lemma pokemon_cells: "trim ''Pokemon'' = ''Pokemon''" "eq_ignore_ascii_case ''Pokemon'' ''pokemon''"
  by (simp_all add: text_defs)

lemma collectr_record_single:
  assumes "single_fit x" "entry_check (xp_copy x)"
  shows "collectr_record rt collectr_cols line (single_cells w x) out =
    Inr (out\<lparr>cp_singles := cp_singles out @ [single_back rt w line x]\<rparr>)"
  using assms
  by (simp add: collectr_record_def collectr_cols_def single_cells_def cell_def pokemon_cells plain_cells parse_quantity_def
      single_back_def single_fit_def Let_def collectr_variant_back no_language condition_kept)

lemma parse_quantity_cell:
  assumes "0 \<le> q" "q < 2 ^ 32"
  shows "parse_quantity line ''Quantity'' (trim (show_int q)) = Inr (nat q)"
proof -
  have digits: "show_int q = nat_digits (nat q)" using assms(1) by (simp add: show_int_def)
  have "trim (nat_digits n) = nat_digits n" for n
    by (rule trim_digits) (simp add: nat_digits_digits)
  moreover have "parse_u32 (nat_digits (nat q)) = Some (nat q)" using assms parse_u32_digits [OF nat_digits_nonempty nat_digits_digits, of "nat q"] by (simp add: nat_less_iff)
  ultimately show ?thesis by (simp add: parse_quantity_def digits nat_digits_nonempty)
qed

lemma collectr_record_lot:
  assumes "lot_fit x"
  shows "collectr_record rt collectr_cols line (sealed_cells w x) out =
    Inr (if of_named_set (line, x) then out\<lparr>cp_sealed := cp_sealed out @ [lot_back rt w line x]\<rparr>
         else out\<lparr>cp_skipped := cp_skipped out @ [lot_skipped line x]\<rparr>)"
  using assms
  by (auto simp: collectr_record_def collectr_cols_def sealed_cells_def cell_def pokemon_cells plain_cells parse_quantity_cell
      lot_back_def lot_fit_def of_named_set_def lot_skipped_def Let_def split: option.splits)

lemma collectr_loop_singles:
  "list_all (\<lambda>x. single_fit x \<and> entry_check (xp_copy x)) xs \<Longrightarrow>
   collectr_loop rt collectr_cols line (map Inr (map (single_cells w) xs)) out =
     Inr (out\<lparr>cp_singles := cp_singles out @ map (\<lambda>(l, x). single_back rt w l x) (zip [line..<line + length xs] xs)\<rparr>)"
proof (induction xs arbitrary: line out)
  case (Cons x xs)
  then show ?case by (simp add: collectr_record_single upt_rec)
qed simp

lemma collectr_loop_lots:
  "list_all lot_fit xs \<Longrightarrow>
   collectr_loop rt collectr_cols line (map Inr (map (sealed_cells w) xs)) out =
     Inr (out\<lparr>cp_sealed := cp_sealed out @ map (\<lambda>(l, x). lot_back rt w l x) (filter of_named_set (zip [line..<line + length xs] xs)),
              cp_skipped := cp_skipped out @
                map (\<lambda>(l, x). lot_skipped l x) (filter (\<lambda>e. \<not> of_named_set e) (zip [line..<line + length xs] xs))\<rparr>)"
proof (induction xs arbitrary: line out)
  case (Cons x xs)
  have "zip [line..<line + length (x # xs)] (x # xs) = (line, x) # zip [line + 1..<line + 1 + length xs] xs"
    by (simp add: upt_rec)
  then show ?case using Cons
    by (cases "of_named_set (line, x)") (simp_all only: list.map collectr_loop.simps collectr_record_lot list.pred_inject(2)
        and_then_simps if_True if_False filter.simps not_True_eq_False not_False_eq_True prod.case, simp_all)
qed simp

lemma owned_lot_rows:
  assumes "shared_ok sd"
  shows "mset (map xl_lot (owned_lots sd db)) =
    mset (filter (\<lambda>l. se_status l = ''owned'' \<and> se_product l \<in> sp_id ` set (sd_sealed_products sd)) (tbl_rows (db_sealed db)))"
proof -
  have d: "distinct (map sp_id (sd_sealed_products sd))" using assms by (simp add: shared_ok_def)
  let ?j = "\<lambda>l. map (\<lambda>p. \<lparr>xl_set = List.find (\<lambda>s. sp_set_code p = Some (st_code s)) (sd_sets sd), xl_product = p, xl_lot = l\<rparr>)
    (filter (\<lambda>p. sp_id p = se_product l) (sd_sealed_products sd))"
  have one: "map xl_lot (?j l) = (if se_product l \<in> sp_id ` set (sd_sealed_products sd) then [l] else [])" for l
  proof (cases "se_product l \<in> sp_id ` set (sd_sealed_products sd)")
    case True
    then obtain p where p: "p \<in> set (sd_sealed_products sd)" "se_product l = sp_id p" by auto
    then show ?thesis using True by (simp add: filter_key_one [OF d p(1)])
  next
    case False
    then have "filter (\<lambda>p. sp_id p = se_product l) (sd_sealed_products sd) = []"
      unfolding filter_empty_conv by (metis imageI)
    then show ?thesis using False by simp
  qed
  have "map xl_lot (concat (map ?j ls)) = filter (\<lambda>l. se_product l \<in> sp_id ` set (sd_sealed_products sd)) ls" for ls
    by (induction ls) (simp_all only: list.map concat.simps map_append one filter.simps append.simps if_True if_False split: if_split, simp_all)
  then have "map xl_lot (concat (map ?j (filter (\<lambda>l. se_status l = ''owned'') (tbl_rows (db_sealed db))))) =
      filter (\<lambda>l. se_status l = ''owned'' \<and> se_product l \<in> sp_id ` set (sd_sealed_products sd)) (tbl_rows (db_sealed db))"
    by (simp add: conj_commute)
  from arg_cong [OF this, of mset] show ?thesis by (simp add: owned_lots_def)
qed

text \<open>
  C36. The two Collectr files stay on their side of the garden wall. The file of cards has a row for every owned copy
  of a printing of the catalog and no other, and read back it gives one card row for each, with its condition, in
  English and with the plain, reverse or holo variant its own maps to, and neither a sealed row nor a skipped
  one. The file of sealed products has a row for every owned lot of a product of the catalog and no other, and
  read back it gives no card: a lot of a set comes back as one sealed row with its quantity, a lot of a product
  without a set is skipped by the importer for its empty set.
\<close>

theorem collectr_files_keep_the_wall:
  assumes "csv_headers rt (collectr_singles_csv w sd db) = Inr COLLECTR_HEADER"
    "csv_records rt (collectr_singles_csv w sd db) = map Inr (map (single_cells w) (owned_singles sd db))"
    "csv_headers rt (collectr_sealed_csv w sd db) = Inr COLLECTR_HEADER"
    "csv_records rt (collectr_sealed_csv w sd db) = map Inr (map (sealed_cells w) (owned_lots sd db))"
    and "shared_ok sd" "list_all entry_check (tbl_rows (db_collection db))"
    and "list_all single_fit (owned_singles sd db)" "list_all lot_fit (owned_lots sd db)"
  shows "collectr_parse rt (collectr_singles_csv w sd db) = Inr
      \<lparr>cp_singles = map (\<lambda>(l, x). single_back rt w l x) (zip [2..<2 + length (owned_singles sd db)] (owned_singles sd db)),
       cp_sealed = [], cp_skipped = []\<rparr> \<and>
    mset (map xp_copy (owned_singles sd db)) =
      mset (filter (\<lambda>e. of_catalog sd e \<and> ce_status e = ''owned'') (tbl_rows (db_collection db))) \<and>
    (let lots = zip [2..<2 + length (owned_lots sd db)] (owned_lots sd db) in
     collectr_parse rt (collectr_sealed_csv w sd db) = Inr
      \<lparr>cp_singles = [], cp_sealed = map (\<lambda>(l, x). lot_back rt w l x) (filter of_named_set lots),
       cp_skipped = map (\<lambda>(l, x). lot_skipped l x) (filter (\<lambda>e. \<not> of_named_set e) lots)\<rparr>) \<and>
    mset (map xl_lot (owned_lots sd db)) =
      mset (filter (\<lambda>l. se_status l = ''owned'' \<and> se_product l \<in> sp_id ` set (sd_sealed_products sd)) (tbl_rows (db_sealed db)))"
proof -
  have rows: "list_all (\<lambda>x. single_fit x \<and> entry_check (xp_copy x)) (owned_singles sd db)"
    unfolding list_all_iff
  proof
    fix x assume x: "x \<in> set (owned_singles sd db)"
    have "xp_copy x \<in> set (filter (\<lambda>e. ce_status e = ''owned'') (tbl_rows (db_collection db)))"
      using x unfolding owned_singles_def by (rule exported_rows(2))
    then show "single_fit x \<and> entry_check (xp_copy x)" using x assms(6,7) by (simp add: list_all_iff)
  qed
  have "mset (map xp_copy (owned_singles sd db)) =
      mset (filter (\<lambda>e. of_catalog sd e \<and> ce_status e = ''owned'') (tbl_rows (db_collection db)))"
    unfolding owned_singles_def exported_copies [OF assms(5)] filter_filter by (simp add: conj_commute)
  then show ?thesis
    using collectr_loop_singles [OF rows, of rt 2 w] collectr_loop_lots [OF assms(8), of rt 2 w] owned_lot_rows [OF assms(5)]
    by (simp add: collectr_parse_def assms(1-4) collectr_header_columns Let_def)
qed

section \<open>A sample collection\<close>

definition sample_writer :: csv_writer where
  "sample_writer =
     \<lparr>cw_write = (\<lambda>rows. join [CHR 0x0A] (map (join '','') rows)), cw_fixed2 = (\<lambda>p. show_nat (unat p)),
      cw_plain = (\<lambda>p. show_nat (unat p)), cw_whole = (\<lambda>p. Some (uint p))\<rparr>"

definition sample_shared :: shared_db where
  "sample_shared = empty_shared\<lparr>
     sd_sets := [\<lparr>st_code = ''base1'', st_ptcgo = Some ''BS'', st_name = ''Base'', st_symbol_url = None, ss_series = ''Base'',
       ss_total = Some 102, ss_printed_total = Some 102, ss_release_date = Some ''1999/01/09'', ss_logo_url = None,
       ss_fetched_at = Some ''now'', ss_discovered_from = None, ss_covered = True\<rparr>],
     sd_cards := [\<lparr>cd_id = ''base1-4'', cd_set = ''base1'', cd_number = ''4'', cd_name = ''Charizard'', cd_rarity = None,
       cd_artist = None, cd_supertype = None, cd_subtypes = None, cd_types = None, cd_attacks = None, cd_image_small = None,
       cd_image_large = None, cd_hp = None, sc_number_sortable = 4, sc_flavor_text = None, sc_abilities = None,
       sc_weaknesses = None, sc_resistances = None, sc_retreat_cost = None, sc_regulation_mark = None, sc_pokedex = None,
       sc_legalities = None, sc_raw_json = None\<rparr>],
     sd_printings := [\<lparr>pg_id = ''base1-4-holo'', pg_card = ''base1-4'', pg_variant = ''holo'', pg_product = Some 1,
       pg_sub_type = Some ''Holofoil'', pg_deprecated_at = None\<rparr>],
     sd_sealed_products := [\<lparr>sp_id = 9, sp_set_code = Some ''base1'', sp_name = ''Booster Box'', sp_category = ''booster_box'',
       sp_image_url = None, sp_release_date = None, sr_url = None, sr_fetched_at = ''now''\<rparr>,
       \<lparr>sp_id = 10, sp_set_code = None, sp_name = ''Stacking Tin'', sp_category = ''tin'', sp_image_url = None,
        sp_release_date = None, sr_url = None, sr_fetched_at = ''now''\<rparr>],
     sd_variants := [\<lparr>va_code = ''holo'', va_label = ''Holo'', va_short = ''Holo'', va_rank = 1, va_tiebreak = 1,
       va_color = ''gold'', va_provenance = None, va_foil = True\<rparr>]\<rparr>"

definition sample_held :: tdb where
  "sample_held = empty_db\<lparr>
     db_collection := \<lparr>tbl_rows = [\<lparr>ce_id = 1, ce_printing = ''base1-4-holo'', ce_condition = ''Lightly Played'',
       ce_language = ''English'', ce_purchase_price = Some 12, ce_sale_price = None, ce_acquired_at = ''2026-08-11T00:00:00Z'',
       ce_source = ''manual'', ce_notes = None, ce_tags = Some ''misprint'', ce_graded = False, ce_grade_company = None,
       ce_grade_value = None, ce_grade_cert = None, ce_status = ''owned'', ce_order = None, ce_binder = None,
       ce_deck = None, ce_batch = None\<rparr>], tbl_seq = 1\<rparr>,
     db_sealed := \<lparr>tbl_rows = [\<lparr>se_id = 1, se_product = 9, se_quantity = 2, se_condition = None, se_purchase_price = None,
       se_sale_price = None, se_purchase_date = None, se_source = None, se_seller = None, se_notes = None,
       se_status = ''owned'', se_added_at = ''2026-08-11''\<rparr>,
      \<lparr>se_id = 2, se_product = 10, se_quantity = 1, se_condition = None, se_purchase_price = None,
       se_sale_price = None, se_purchase_date = None, se_source = None, se_seller = None, se_notes = None,
       se_status = ''owned'', se_added_at = ''2026-08-11''\<rparr>], tbl_seq = 2\<rparr>\<rparr>"

lemma sample_ok: "shared_ok sample_shared" "list_all entry_check (tbl_rows (db_collection sample_held))"
  by (simp add: shared_ok_def has_set_def has_card_def has_variant_def sample_shared_def empty_shared_def)
    (simp add: sample_held_def entry_check_def conditions_allowed_def statuses_allowed_def)

text \<open>Whole amounts, so that the sample writer's output parses.\<close>

lemma sample_prices: "prices_parse plain_runtime sample_writer"
proof -
  have "trim (nat_digits n) = nat_digits n" for n by (rule trim_digits) (simp add: nat_digits_digits)
  then show ?thesis by (simp add: prices_parse_def sample_writer_def plain_runtime_def show_nat_def nat_digits_digits)
qed

lemma manabox_export_reimports_witness:
  "\<exists>row. manabox_parse plain_runtime (manabox_csv sample_writer sample_shared sample_held) = Inr [row] \<and>
     pr_set_hint row = ''base1'' \<and> pr_number row = ''4'' \<and> pr_variant row = ''holo'' \<and>
     pr_condition row = ''Lightly Played'' \<and> pr_purchase_price row = Some 12 \<and> pr_tags row = [''misprint'']"
proof -
  have csv: "csv_headers plain_runtime (manabox_csv sample_writer sample_shared sample_held) = Inr MANABOX_HEADER"
    "csv_records plain_runtime (manabox_csv sample_writer sample_shared sample_held) =
       map Inr (manabox_table sample_writer sample_shared sample_held)" by code_simp+
  have fit: "list_all exportable (exported sample_shared sample_held)" by code_simp
  have row: "map (\<lambda>(line, x). reimported plain_runtime sample_writer line x)
      (zip [2..<2 + length (exported sample_shared sample_held)] (exported sample_shared sample_held)) =
    [\<lparr>pr_source_line = 2, pr_set_hint = ''base1'', pr_set_name = Some ''Base'', pr_name = None, pr_number = ''4'',
      pr_variant = ''holo'', pr_condition = ''Lightly Played'', pr_language = ''English'', pr_purchase_price = Some 12,
      pr_acquired_at = None, pr_tags = [''misprint'']\<rparr>]" by code_simp
  show ?thesis using manabox_export_reimports [OF csv sample_prices sample_ok fit] unfolding row by simp
qed

lemma collectr_files_keep_the_wall_witness:
  "(\<exists>row. collectr_parse plain_runtime (collectr_singles_csv sample_writer sample_shared sample_held) =
      Inr \<lparr>cp_singles = [row], cp_sealed = [], cp_skipped = []\<rparr> \<and> pr_number row = ''4'') \<and>
   (\<exists>lot skipped. collectr_parse plain_runtime (collectr_sealed_csv sample_writer sample_shared sample_held) =
      Inr \<lparr>cp_singles = [], cp_sealed = [lot], cp_skipped = [skipped]\<rparr> \<and> ps_quantity lot = 2 \<and> sk_name skipped = ''Stacking Tin'')"
proof -
  let ?w = sample_writer and ?sd = sample_shared and ?db = sample_held
  have csv: "csv_headers plain_runtime (collectr_singles_csv ?w ?sd ?db) = Inr COLLECTR_HEADER"
    "csv_records plain_runtime (collectr_singles_csv ?w ?sd ?db) = map Inr (map (single_cells ?w) (owned_singles ?sd ?db))"
    "csv_headers plain_runtime (collectr_sealed_csv ?w ?sd ?db) = Inr COLLECTR_HEADER"
    "csv_records plain_runtime (collectr_sealed_csv ?w ?sd ?db) = map Inr (map (sealed_cells ?w) (owned_lots ?sd ?db))"
    by code_simp+
  have fit: "list_all single_fit (owned_singles ?sd ?db)" by code_simp
  have lots: "list_all lot_fit (owned_lots ?sd ?db)" by code_simp
  note both = collectr_files_keep_the_wall [OF csv sample_ok fit lots]
  have singles: "map (\<lambda>(l, y). pr_number (single_back plain_runtime ?w l y))
      (zip [2..<2 + length (owned_singles ?sd ?db)] (owned_singles ?sd ?db)) = [''4'']" by code_simp
  then obtain e where e: "zip [2..<2 + length (owned_singles ?sd ?db)] (owned_singles ?sd ?db) = [e]"
    by (auto simp: map_eq_Cons_conv)
  have number: "pr_number (case e of (l, y) \<Rightarrow> single_back plain_runtime ?w l y) = ''4''"
    using singles unfolding e by (cases e) simp
  have named: "map (\<lambda>(l, y). ps_quantity (lot_back plain_runtime ?w l y))
      (filter of_named_set (zip [2..<2 + length (owned_lots ?sd ?db)] (owned_lots ?sd ?db))) = [2]" by code_simp
  then obtain f where f: "filter of_named_set (zip [2..<2 + length (owned_lots ?sd ?db)] (owned_lots ?sd ?db)) = [f]"
    by (auto simp: map_eq_Cons_conv)
  have quantity: "ps_quantity (case f of (l, y) \<Rightarrow> lot_back plain_runtime ?w l y) = 2"
    using named unfolding f by (cases f) simp
  have unnamed: "map (\<lambda>(l, y). sk_name (lot_skipped l y))
      (filter (\<lambda>e. \<not> of_named_set e) (zip [2..<2 + length (owned_lots ?sd ?db)] (owned_lots ?sd ?db))) = [''Stacking Tin'']" by code_simp
  then obtain g where g: "filter (\<lambda>e. \<not> of_named_set e) (zip [2..<2 + length (owned_lots ?sd ?db)] (owned_lots ?sd ?db)) = [g]"
    by (auto simp: map_eq_Cons_conv)
  have name: "sk_name (case g of (l, y) \<Rightarrow> lot_skipped l y) = ''Stacking Tin''"
    using unnamed unfolding g by (cases g) simp
  show ?thesis using both number quantity name unfolding Let_def e f g list.map by blast
qed

end
