(* ===== verification/Tenant_Files.thy ===== *)
theory Tenant_Files
  imports Json_Backup Outbox
begin

text \<open>
  Tenant provisioning, \<open>pkdump-db/src/tenants.rs\<close>: which file on the box holds whose
  collection. The files are a \<open>disk\<close> (the data directory and its \<open>tenants/\<close>), the users are rows
  of the registry. The registry itself and the two identifier validators are the tenancy kernel's
  (\<open>dumpster_kit_tenancy\<close>, not in the repository), and what SQLite does to a database and its
  write-ahead log is SQLite's: both are parameters, the fields of a \<open>box\<close>, with the documented
  laws \<open>sqlite_lawful\<close> and \<open>registry_lawful\<close>. Every file operation may be refused by the
  operating system. What is proved: no move between the two ways of naming a database ever loses,
  overwrites or changes a collection, whatever fails on the way.
\<close>

section \<open>The disk\<close>

text \<open>\<open>$PKDUMP_HOME\<close> and its \<open>tenants/\<close>; a path is a place and a file name.\<close>

datatype place = Data_Root | Tenants_Dir

type_synonym path = "place \<times> string"

datatype node = Bytes string | Folder "(string \<times> string) list"

record disk =
  dk_tenants :: bool                    \<comment> \<open>\<open>tenants/\<close> is there\<close>
  dk_nodes :: "(path \<times> node) list"

definition file_at :: "disk \<Rightarrow> path \<Rightarrow> node option" where
  "file_at d p = map_of (dk_nodes d) p"

definition present :: "disk \<Rightarrow> path \<Rightarrow> bool" where
  "present d p \<longleftrightarrow> file_at d p \<noteq> None"

definition dir_present :: "disk \<Rightarrow> place \<Rightarrow> bool" where
  "dir_present d pl \<longleftrightarrow> pl = Data_Root \<or> dk_tenants d"

definition node_bytes :: "node option \<Rightarrow> string" where
  "node_bytes n = (case n of Some (Bytes b) \<Rightarrow> b | _ \<Rightarrow> [])"

definition put_node :: "path \<Rightarrow> node \<Rightarrow> disk \<Rightarrow> disk" where
  "put_node p n d = (if present d p
     then d\<lparr>dk_nodes := map (\<lambda>(q, m). (q, if q = p then n else m)) (dk_nodes d)\<rparr>
     else d\<lparr>dk_nodes := dk_nodes d @ [(p, n)]\<rparr>)"

definition del_node :: "path \<Rightarrow> disk \<Rightarrow> disk" where
  "del_node p d = d\<lparr>dk_nodes := filter (\<lambda>(q, _). q \<noteq> p) (dk_nodes d)\<rparr>"

definition mv :: "'p \<Rightarrow> 'p \<Rightarrow> 'p \<Rightarrow> 'p" where
  "mv p q x = (if x = p then q else x)"

definition move_node :: "path \<Rightarrow> path \<Rightarrow> disk \<Rightarrow> disk" where
  "move_node p q d = d\<lparr>dk_nodes := map (\<lambda>(x, n). (mv p q x, n)) (dk_nodes d)\<rparr>"

text \<open>What the program asks of the operating system, and may be refused.\<close>

datatype fs_op =
    Rename path path
  | RemoveFile path
  | RemoveDirAll path
  | CreateDirAll place
  | ReadDir place

section \<open>The box: operating system, SQLite and registry\<close>

datatype UserState = Active | Detached

record User =
  us_handle :: string
  us_database_id :: string
  us_state :: UserState

text \<open>A database and its \<open>-wal\<close> and \<open>-shm\<close>.\<close>

type_synonym db_files = "string option \<times> string option \<times> string option"

record ('r, 'c) box =
  bx_home :: string
  bx_refuses :: "disk \<Rightarrow> fs_op \<Rightarrow> string option"
  bx_leftover :: "disk \<Rightarrow> path \<Rightarrow> (string \<times> string) list"    \<comment> \<open>what a failed \<open>remove_dir_all\<close> leaves\<close>
  bx_folder_len :: nat
  bx_cannot_open :: DbError                                  \<comment> \<open>SQLite on a directory\<close>
  bx_checkpoint :: "db_files \<Rightarrow> (DbError + int) \<times> db_files" \<comment> \<open>open, \<open>wal_checkpoint(TRUNCATE)\<close>, close\<close>
  bx_prepare :: "db_files \<Rightarrow> (DbError + unit) \<times> db_files"   \<comment> \<open>\<open>open_tenant\<close> once the directory is there\<close>
  bx_version :: "string \<Rightarrow> DbError + int"                   \<comment> \<open>\<open>version_of_file\<close>\<close>
  bx_read :: "string \<Rightarrow> string \<Rightarrow> 'c"                        \<comment> \<open>the collection in a database and its log\<close>
  kr_validate_handle :: "string \<Rightarrow> DbError + unit"
  kr_validate_id :: "string \<Rightarrow> DbError + unit"
  kr_open :: "'r \<Rightarrow> DbError + 'r"
  kr_rows :: "'r \<Rightarrow> User list"
  kr_list :: "'r \<Rightarrow> DbError + User list"
  kr_lookup :: "'r \<Rightarrow> string \<Rightarrow> DbError + User option"
  kr_find :: "'r \<Rightarrow> string \<Rightarrow> DbError + User option"
  kr_insert :: "'r \<Rightarrow> string \<Rightarrow> DbError + User \<times> 'r"
  kr_rename :: "'r \<Rightarrow> string \<Rightarrow> string \<Rightarrow> DbError + User \<times> 'r"
  kr_detach :: "'r \<Rightarrow> string \<Rightarrow> DbError + User \<times> 'r"
  kr_delete :: "'r \<Rightarrow> string \<Rightarrow> DbError + User \<times> 'r"
  kr_unregister :: "'r \<Rightarrow> string \<Rightarrow> DbError + User \<times> 'r"
  kr_commit :: "'r \<Rightarrow> 'r \<Rightarrow> DbError option"

record 'r site =
  st_disk :: disk
  st_registry :: 'r

section \<open>File operations\<close>

definition rename_blocked :: "node \<Rightarrow> node option \<Rightarrow> bool" where
  "rename_blocked n m = (case (n, m) of
     (Bytes _, Some (Folder _)) \<Rightarrow> True
   | (Folder _, Some (Bytes _)) \<Rightarrow> True
   | (Folder _, Some (Folder es)) \<Rightarrow> es \<noteq> []
   | _ \<Rightarrow> False)"

text \<open>\<open>rename(2)\<close>, within the data directory.\<close>

definition fs_rename :: "('r, 'c) box \<Rightarrow> path \<Rightarrow> path \<Rightarrow> disk \<Rightarrow> (string + unit) \<times> disk" where
  "fs_rename bx p q d = (case bx_refuses bx d (Rename p q) of
     Some e \<Rightarrow> (Inl e, d)
   | None \<Rightarrow> (case file_at d p of
        None \<Rightarrow> (Inl ''No such file or directory'', d)
      | Some n \<Rightarrow>
          if \<not> dir_present d (fst q) then (Inl ''No such file or directory'', d)
          else if p = q then (Inr (), d)
          else if rename_blocked n (file_at d q) then (Inl ''File exists'', d)
          else (Inr (), move_node p q (del_node q d))))"

definition fs_remove_file :: "('r, 'c) box \<Rightarrow> path \<Rightarrow> disk \<Rightarrow> (string + unit) \<times> disk" where
  "fs_remove_file bx p d = (case bx_refuses bx d (RemoveFile p) of
     Some e \<Rightarrow> (Inl e, d)
   | None \<Rightarrow> (case file_at d p of
        Some (Bytes _) \<Rightarrow> (Inr (), del_node p d)
      | Some (Folder _) \<Rightarrow> (Inl ''Is a directory'', d)
      | None \<Rightarrow> (Inl ''No such file or directory'', d)))"

definition fs_remove_dir_all :: "('r, 'c) box \<Rightarrow> path \<Rightarrow> disk \<Rightarrow> (string + unit) \<times> disk" where
  "fs_remove_dir_all bx p d = (case file_at d p of
     Some (Folder _) \<Rightarrow> (case bx_refuses bx d (RemoveDirAll p) of
        Some e \<Rightarrow> (Inl e, put_node p (Folder (bx_leftover bx d p)) d)
      | None \<Rightarrow> (Inr (), del_node p d))
   | Some (Bytes _) \<Rightarrow> (Inl ''Not a directory'', d)
   | None \<Rightarrow> (Inl ''No such file or directory'', d))"

definition fs_create_dir_all :: "('r, 'c) box \<Rightarrow> place \<Rightarrow> disk \<Rightarrow> (string + unit) \<times> disk" where
  "fs_create_dir_all bx pl d =
     (if dir_present d pl then (Inr (), d)
      else case bx_refuses bx d (CreateDirAll pl) of
        Some e \<Rightarrow> (Inl e, d)
      | None \<Rightarrow> (Inr (), d\<lparr>dk_tenants := True\<rparr>))"

text \<open>\<open>.map_err(...)?\<close> on a file operation, and \<open>let _ = ...\<close>.\<close>

definition or_fail :: "(disk \<Rightarrow> (string + unit) \<times> disk) \<Rightarrow> (string \<Rightarrow> DbError) \<Rightarrow> (disk, unit) act" where
  "or_fail f err = (\<lambda>d. case f d of (Inl e, d') \<Rightarrow> (Inl (err e), d') | (Inr _, d') \<Rightarrow> (Inr (), d'))"

definition best_effort :: "(disk \<Rightarrow> (string + unit) \<times> disk) \<Rightarrow> (disk, unit) act" where
  "best_effort f = (\<lambda>d. (Inr (), snd (f d)))"

section \<open>Names of files\<close>

definition litestream_dir :: "path \<Rightarrow> path" where
  "litestream_dir p = (fst p, ''.'' @ snd p @ ''-litestream'')"

definition sidecar :: "path \<Rightarrow> string \<Rightarrow> path" where
  "sidecar p sfx = (fst p, snd p @ sfx)"

definition WAL_SIDECARS :: "string list" where
  "WAL_SIDECARS = [''-wal'', ''-shm'']"

definition show_path :: "('r, 'c) box \<Rightarrow> path \<Rightarrow> string" where
  "show_path bx p = bx_home bx @ (if fst p = Tenants_Dir then ''/tenants/'' else ''/'') @ snd p"

definition tenants_dir_shown :: "('r, 'c) box \<Rightarrow> string" where
  "tenants_dir_shown bx = bx_home bx @ ''/tenants''"

text \<open>The kernel's path functions: a name is validated before it becomes a file name.\<close>

definition tenant_db_path_unchecked :: "string \<Rightarrow> path" where
  "tenant_db_path_unchecked stem = (Tenants_Dir, stem @ ''.sqlite'')"

definition tenant_db_path :: "('r, 'c) box \<Rightarrow> string \<Rightarrow> DbError + path" where
  "tenant_db_path bx handle = and_then (kr_validate_handle bx handle) (\<lambda>_. Inr (Tenants_Dir, handle @ ''.sqlite''))"

definition tenant_db_path_for_id :: "('r, 'c) box \<Rightarrow> string \<Rightarrow> DbError + path" where
  "tenant_db_path_for_id bx i = and_then (kr_validate_id bx i) (\<lambda>_. Inr (Tenants_Dir, i @ ''.sqlite''))"

definition legacy_user_db_path :: "('r, 'c) box \<Rightarrow> string \<Rightarrow> DbError + path" where
  "legacy_user_db_path bx handle = and_then (kr_validate_handle bx handle) (\<lambda>_. Inr (Data_Root, handle @ ''.sqlite''))"

section \<open>Moving a database\<close>

text \<open>SQLite at work on the files of one database.\<close>

definition put_bytes :: "path \<Rightarrow> string option \<Rightarrow> disk \<Rightarrow> disk" where
  "put_bytes p b d = (case b of Some x \<Rightarrow> put_node p (Bytes x) d | None \<Rightarrow> del_node p d)"

definition is_folder :: "disk \<Rightarrow> path \<Rightarrow> bool" where
  "is_folder d p = (case file_at d p of Some (Folder _) \<Rightarrow> True | _ \<Rightarrow> False)"

definition bytes_of :: "disk \<Rightarrow> path \<Rightarrow> string option" where
  "bytes_of d p = (case file_at d p of Some (Bytes b) \<Rightarrow> Some b | _ \<Rightarrow> None)"

definition with_sqlite ::
  "('r, 'c) box \<Rightarrow> path \<Rightarrow> (db_files \<Rightarrow> (DbError + 'a) \<times> db_files) \<Rightarrow> (disk, 'a) act" where
  "with_sqlite bx p f = (\<lambda>d.
     let w = sidecar p ''-wal''; s = sidecar p ''-shm'' in
     if is_folder d p \<or> is_folder d w \<or> is_folder d s then (Inl (bx_cannot_open bx), d)
     else (case f (bytes_of d p, bytes_of d w, bytes_of d s) of
       (r, b', w', s') \<Rightarrow> (r, put_bytes s s' (put_bytes w w' (put_bytes p b' d)))))"

definition file_len :: "('r, 'c) box \<Rightarrow> node \<Rightarrow> nat" where
  "file_len bx n = (case n of Bytes b \<Rightarrow> length b | Folder _ \<Rightarrow> bx_folder_len bx)"

definition checkpoint_and_close :: "('r, 'c) box \<Rightarrow> path \<Rightarrow> (disk, unit) act" where
  "checkpoint_and_close bx p =
     bind_act (with_sqlite bx p (bx_checkpoint bx)) (\<lambda>busy.
       if busy \<noteq> 0 then fail (Conflict (show_path bx p @ '' is open in another process '' @ em_dash @
         '' stop the app (and the Litestream sidecar) before migrating''))
       else (\<lambda>d. case file_at d (sidecar p ''-wal'') of
         Some n \<Rightarrow>
           if 0 < file_len bx n
           then (Inl (Conflict (show_path bx (sidecar p ''-wal'') @ '' still holds '' @ show_nat (file_len bx n) @
             '' bytes after a TRUNCATE checkpoint '' @ em_dash @ '' refusing to move an incomplete database'')), d)
           else (Inr (), d)
       | None \<Rightarrow> (Inr (), d)))"

definition remove_sidecars :: "('r, 'c) box \<Rightarrow> path \<Rightarrow> (disk, unit) act" where
  "remove_sidecars bx p = for_each WAL_SIDECARS (\<lambda>sfx. best_effort (fs_remove_file bx (sidecar p sfx)))"

datatype Litestream = Carry | Reset

text \<open>
  The tail of a move, from the state where \<open>from\<close> has become \<open>to\<close>: the Litestream directory
  travels or goes, and where it cannot the database is put back.
\<close>

definition put_back :: "('r, 'c) box \<Rightarrow> path \<Rightarrow> path \<Rightarrow> DbError \<Rightarrow> (disk, unit) act" where
  "put_back bx from_path to_path e = bind_act (best_effort (fs_rename bx to_path from_path)) (\<lambda>_. fail e)"

definition settle_litestream :: "('r, 'c) box \<Rightarrow> path \<Rightarrow> path \<Rightarrow> Litestream \<Rightarrow> (disk, unit) act" where
  "settle_litestream bx from_path to_path l = (\<lambda>d.
     let from_ls = litestream_dir from_path; to_ls = litestream_dir to_path in
     if \<not> present d from_ls then (Inr (), d)
     else case l of
       Carry \<Rightarrow> (case fs_rename bx from_ls to_ls d of
          (Inr _, d') \<Rightarrow> (Inr (), d')
        | (Inl e, d') \<Rightarrow> put_back bx from_path to_path (Env (''moved '' @ show_path bx from_path @
            '' but could not move its Litestream directory '' @ show_path bx from_ls @ '' to '' @ show_path bx to_ls @
            '': '' @ e @ '' (the database was moved back)'')) d')
     | Reset \<Rightarrow> (case fs_remove_dir_all bx from_ls d of
          (Inr _, d') \<Rightarrow> (Inr (), d')
        | (Inl e, d') \<Rightarrow> put_back bx from_path to_path (Env (''moved '' @ show_path bx from_path @
            '' but could not clear its Litestream state directory '' @ show_path bx from_ls @ '': '' @ e @
            ''. Leaving it would point the sidecar at the prefix this database no longer writes to, '' @
            ''which replicates nothing while reporting healthy (pd-1717). The database was moved back.'')) d'))"

definition relocate :: "('r, 'c) box \<Rightarrow> string \<Rightarrow> path \<Rightarrow> path \<Rightarrow> Litestream \<Rightarrow> (disk, path) act" where
  "relocate bx name from_path to_path l = (\<lambda>d.
     if \<not> present d from_path
     then (Inl (NotFound (''no collection database for tenant '' @ debug_quoted name @ '' at '' @ show_path bx from_path)), d)
     else case List.find (present d) [to_path, litestream_dir to_path] of
       Some dest \<Rightarrow> (Inl (Conflict (''refusing to move '' @ show_path bx from_path @ '' onto the existing '' @
         show_path bx dest)), d)
     | None \<Rightarrow>
         bind_act (checkpoint_and_close bx from_path) (\<lambda>_.
         bind_act (or_fail (fs_create_dir_all bx (fst to_path))
           (\<lambda>e. Env (''creating '' @ (if fst to_path = Tenants_Dir then tenants_dir_shown bx else bx_home bx) @ '': '' @ e))) (\<lambda>_.
         bind_act (or_fail (fs_rename bx from_path to_path)
           (\<lambda>e. Env (''moving '' @ show_path bx from_path @ '' to '' @ show_path bx to_path @ '': '' @ e))) (\<lambda>_.
         bind_act (settle_litestream bx from_path to_path l) (\<lambda>_.
         bind_act (remove_sidecars bx from_path) (\<lambda>_.
         ret to_path))))) d)"

section \<open>Facts about the disk\<close>

definition is_db :: "path \<Rightarrow> bool" where
  "is_db p \<longleftrightarrow> ends_with ''.sqlite'' (snd p)"

definition paths_on :: "disk \<Rightarrow> path list" where
  "paths_on d = map fst (dk_nodes d)"

definition db_paths :: "disk \<Rightarrow> path list" where
  "db_paths d = filter is_db (paths_on d)"

text \<open>The collection a database holds, committed transactions still in the log included.\<close>

definition collection_at :: "('r, 'c) box \<Rightarrow> disk \<Rightarrow> path \<Rightarrow> 'c" where
  "collection_at bx d p = bx_read bx (node_bytes (file_at d p)) (node_bytes (file_at d (sidecar p ''-wal'')))"

text \<open>Every collection on the box, where it is and what it holds.\<close>

definition shelf :: "('r, 'c) box \<Rightarrow> disk \<Rightarrow> (path \<times> 'c) list" where
  "shelf bx d = map (\<lambda>p. (p, collection_at bx d p)) (db_paths d)"

definition collections :: "('r, 'c) box \<Rightarrow> disk \<Rightarrow> 'c list" where
  "collections bx d = map snd (shelf bx d)"

text \<open>
  File names are unique, and a \<open>-wal\<close> whose database is gone is empty: a log left beside nothing would
  become part of the next database of that name.
\<close>

definition disk_ok :: "disk \<Rightarrow> bool" where
  "disk_ok d \<longleftrightarrow> distinct (paths_on d) \<and>
     list_all (\<lambda>(p, n). case strip_suffix ''-wal'' (snd p) of
        Some stem \<Rightarrow> ends_with ''.sqlite'' stem \<longrightarrow> present d (fst p, stem) \<or> node_bytes (Some n) = []
      | None \<Rightarrow> True) (dk_nodes d)"

text \<open>What SQLite documents of a checkpoint: the database file stays and holds what it held with its log.\<close>

definition sqlite_lawful :: "('r, 'c) box \<Rightarrow> bool" where
  "sqlite_lawful bx \<longleftrightarrow> (\<forall>b w s. case bx_checkpoint bx (Some b, w, s) of
     (_, Some b', w', _) \<Rightarrow> bx_read bx b' (case w' of Some x \<Rightarrow> x | None \<Rightarrow> []) = bx_read bx b (case w of Some x \<Rightarrow> x | None \<Rightarrow> [])
   | (_, None, _, _) \<Rightarrow> False)"

declare split_paired_All [simp del] split_paired_Ex [simp del]

lemma present_iff: "present d p \<longleftrightarrow> p \<in> set (paths_on d)"
  by (simp add: present_def file_at_def paths_on_def map_of_eq_None_iff)

lemma paths_put [simp]: "paths_on (put_node p n d) = (if present d p then paths_on d else paths_on d @ [p])"
  by (auto simp: paths_on_def put_node_def comp_def split_beta)

lemma paths_del [simp]: "paths_on (del_node p d) = filter (\<lambda>q. q \<noteq> p) (paths_on d)"
  by (simp add: paths_on_def del_node_def filter_map comp_def case_prod_unfold)

lemma paths_move [simp]: "paths_on (move_node p q d) = map (mv p q) (paths_on d)"
  by (simp add: paths_on_def move_node_def comp_def split_beta)

lemma map_of_overwrite:
  "map_of (map (\<lambda>(x, m). (x, if x = p then n else m)) xs) q =
     (if q = p then map_option (\<lambda>_. n) (map_of xs p) else map_of xs q)"
  by (induction xs) auto

lemma map_of_move:
  "map_of xs q = None \<Longrightarrow> map_of (map (\<lambda>(x, n). (mv p q x, n)) xs) y =
     (if y = p \<and> p \<noteq> q then None else if y = q then map_of xs p else map_of xs y)"
proof (induction xs)
  case (Cons e xs)
  obtain k n where e: "e = (k, n)" by (cases e)
  then show ?case using Cons by (cases "k = p") (auto simp: mv_def split: if_splits)
qed simp

lemma map_of_delete: "map_of (filter (\<lambda>(x, _). x \<noteq> p) xs) q = (if q = p then None else map_of xs q)"
  by (induction xs) auto

lemma file_at_put [simp]: "file_at (put_node p n d) q = (if q = p then Some n else file_at d q)"
  by (cases "file_at d p") (auto simp: put_node_def file_at_def present_def map_of_overwrite map_add_def split: option.splits)

lemma file_at_del [simp]: "file_at (del_node p d) q = (if q = p then None else file_at d q)"
  by (simp add: del_node_def file_at_def map_of_delete)

lemma file_at_move:
  "\<not> present d q \<Longrightarrow> file_at (move_node p q d) y =
     (if y = p \<and> p \<noteq> q then None else if y = q then file_at d p else file_at d y)"
  by (cases "p = q") (simp_all add: move_node_def file_at_def present_def map_of_move)

lemma ends_with_last: "ends_with p s \<Longrightarrow> p \<noteq> [] \<Longrightarrow> s \<noteq> [] \<and> last s = last p"
  by (auto simp: ends_with_def) (metis last_drop le_eq_less_or_eq length_drop diff_self_eq_0 diff_diff_cancel diff_less length_greater_0_conv zero_less_diff)+

definition wal_of :: "path \<Rightarrow> path" where
  "wal_of p = sidecar p ''-wal''"

lemma db_name_last: "is_db p \<Longrightarrow> snd p \<noteq> [] \<and> last (snd p) = CHR ''e''"
  unfolding is_db_def by (drule ends_with_last) simp_all

lemma not_db [simp]:
  "\<not> is_db (wal_of p)" "\<not> is_db (sidecar p ''-shm'')" "\<not> is_db (litestream_dir p)"
  by (auto dest: db_name_last simp: wal_of_def sidecar_def litestream_dir_def)

lemma not_wal [simp]:
  "sidecar q ''-shm'' \<noteq> wal_of p" "litestream_dir q \<noteq> wal_of p" "litestream_dir q \<noteq> sidecar p ''-shm''"
  by (auto simp: wal_of_def sidecar_def litestream_dir_def dest!: arg_cong [where f = last])

lemmas not_wal_sym [simp] = not_wal [symmetric]

lemma wal_of_inj [simp]: "wal_of p = wal_of q \<longleftrightarrow> p = q"
  by (auto simp: wal_of_def sidecar_def prod_eq_iff)

lemma db_neq: "is_db p \<Longrightarrow> p \<noteq> wal_of q" "is_db p \<Longrightarrow> p \<noteq> sidecar q ''-shm''" "is_db p \<Longrightarrow> p \<noteq> litestream_dir q"
  using not_db by metis+

lemma fst_wal_of [simp]: "fst (wal_of p) = fst p"
  by (simp add: wal_of_def sidecar_def)

text \<open>The bytes of the log beside a database, none being the same as an empty file.\<close>

definition wal_bytes :: "disk \<Rightarrow> path \<Rightarrow> string" where
  "wal_bytes d p = node_bytes (file_at d (wal_of p))"

lemma collection_at_eq: "collection_at bx d p = bx_read bx (node_bytes (file_at d p)) (wal_bytes d p)"
  by (simp add: collection_at_def wal_bytes_def wal_of_def)

lemma disk_ok_iff:
  "disk_ok d \<longleftrightarrow> distinct (paths_on d) \<and> (\<forall>p. is_db p \<longrightarrow> \<not> present d p \<longrightarrow> wal_bytes d p = [])"
proof (cases "distinct (paths_on d)")
  case True
  have at: "file_at d p = Some n \<longleftrightarrow> (p, n) \<in> set (dk_nodes d)" for p n
    using True by (simp add: file_at_def paths_on_def)
  have stem: "strip_suffix ''-wal'' (snd q) = Some s \<longleftrightarrow> q = wal_of (fst q, s)" for q s
    by (cases q) (auto simp: strip_suffix_def ends_with_def wal_of_def sidecar_def, metis append_take_drop_id)
  show ?thesis
  proof
    assume ok: "disk_ok d"
    have "wal_bytes d p = []" if "is_db p" "\<not> present d p" for p
    proof (cases "file_at d (wal_of p)")
      case (Some n)
      then have "(wal_of p, n) \<in> set (dk_nodes d)" by (simp add: at)
      moreover have "strip_suffix ''-wal'' (snd (wal_of p)) = Some (snd p)"
        by (simp only: stem) (simp add: wal_of_def sidecar_def)
      moreover have "fst (wal_of p) = fst p" by (simp add: wal_of_def sidecar_def)
      ultimately show ?thesis
        using ok that Some unfolding disk_ok_def list_all_iff is_db_def wal_bytes_def by fastforce
    qed (simp add: wal_bytes_def node_bytes_def)
    then show "distinct (paths_on d) \<and> (\<forall>p. is_db p \<longrightarrow> \<not> present d p \<longrightarrow> wal_bytes d p = [])"
      using True by simp
  next
    assume ok: "distinct (paths_on d) \<and> (\<forall>p. is_db p \<longrightarrow> \<not> present d p \<longrightarrow> wal_bytes d p = [])"
    have "case strip_suffix ''-wal'' (snd q) of
        Some s \<Rightarrow> ends_with ''.sqlite'' s \<longrightarrow> present d (fst q, s) \<or> node_bytes (Some n) = []
      | None \<Rightarrow> True" if q: "(q, n) \<in> set (dk_nodes d)" for q n
    proof (cases "strip_suffix ''-wal'' (snd q)")
      case (Some s)
      then have "q = wal_of (fst q, s)" by (simp add: stem)
      then have "wal_bytes d (fst q, s) = node_bytes (Some n)"
        using q at [of q n] unfolding wal_bytes_def by metis
      moreover have "is_db (fst q, s) = ends_with ''.sqlite'' s" by (simp add: is_db_def)
      ultimately show ?thesis using Some ok [THEN conjunct2, rule_format, of "(fst q, s)"] by auto
    qed simp
    then show "disk_ok d" using True unfolding disk_ok_def list_all_iff by blast
  qed
qed (simp add: disk_ok_def)

lemma db_paths_iff: "p \<in> set (db_paths d) \<longleftrightarrow> is_db p \<and> present d p"
  by (auto simp: db_paths_def present_iff)

text \<open>Steps that touch no database and no log.\<close>

lemma frame:
  assumes "disk_ok d" and "db_paths d' = db_paths d" and "distinct (paths_on d')"
    and "\<And>p. is_db p \<Longrightarrow> collection_at bx d' p = collection_at bx d p \<or> \<not> present d p"
    and "\<And>p. is_db p \<Longrightarrow> \<not> present d p \<Longrightarrow> wal_bytes d' p = []"
  shows "disk_ok d'" "shelf bx d' = shelf bx d"
proof -
  have pr: "present d' p \<longleftrightarrow> present d p" if "is_db p" for p
    using that assms(2) db_paths_iff [of p d] db_paths_iff [of p d'] by simp
  show "disk_ok d'" unfolding disk_ok_iff using assms(3,5) pr by auto
  show "shelf bx d' = shelf bx d"
    unfolding shelf_def assms(2)
  proof (rule map_cong [OF refl])
    fix p assume "p \<in> set (db_paths d)"
    then show "(p, collection_at bx d' p) = (p, collection_at bx d p)"
      using assms(4) [of p] by (simp add: db_paths_iff)
  qed
qed

lemma disk_ok_wal: "disk_ok d \<Longrightarrow> is_db p \<Longrightarrow> \<not> present d p \<Longrightarrow> wal_bytes d p = []"
  by (simp add: disk_ok_iff)

section \<open>A move loses nothing\<close>

lemma paths_put_bytes: "set (paths_on (put_bytes p b d)) = (if b = None then set (paths_on d) - {p} else insert p (set (paths_on d)))"
  by (cases b) (auto simp: put_bytes_def present_iff)

lemma file_at_put_bytes: "file_at (put_bytes p b d) q = (if q = p then map_option Bytes b else file_at d q)"
  by (cases b) (simp_all add: put_bytes_def)

lemma distinct_put_bytes: "distinct (paths_on d) \<Longrightarrow> distinct (paths_on (put_bytes p b d))"
  by (cases b) (auto simp: put_bytes_def present_iff)

lemma db_paths_put_bytes: "\<not> is_db p \<Longrightarrow> db_paths (put_bytes p b d) = db_paths d"
  by (cases b) (auto simp: put_bytes_def db_paths_def intro!: filter_cong)

lemma db_paths_put_same: "present d p \<Longrightarrow> db_paths (put_bytes p (Some x) d) = db_paths d"
  by (simp add: put_bytes_def db_paths_def)

lemma node_bytes_of: "\<not> is_folder d p \<Longrightarrow> node_bytes (file_at d p) = (case bytes_of d p of Some b \<Rightarrow> b | None \<Rightarrow> [])"
  by (auto simp: node_bytes_def is_folder_def bytes_of_def split: option.splits node.splits)

lemma checkpoint_keeps:
  assumes ok: "disk_ok d" and law: "sqlite_lawful bx" and p: "is_db p" "present d p"
    and run: "with_sqlite bx p (bx_checkpoint bx) d = (r, d')"
  shows "disk_ok d' \<and> shelf bx d' = shelf bx d \<and> (\<forall>q. is_db q \<longrightarrow> present d' q = present d q)
    \<and> (\<forall>q. present d' (litestream_dir q) = present d (litestream_dir q))"
proof (cases "is_folder d p \<or> is_folder d (sidecar p ''-wal'') \<or> is_folder d (sidecar p ''-shm'')")
  case True
  then show ?thesis using run ok by (auto simp: with_sqlite_def Let_def)
next
  case False
  obtain b where b: "file_at d p = Some (Bytes b)"
    using False p(2) by (auto simp: present_def is_folder_def split: node.splits)
  let ?w = "wal_of p" and ?s = "sidecar p ''-shm''"
  obtain m w s where c: "bx_checkpoint bx (Some b, bytes_of d ?w, bytes_of d ?s) = (r, m, w, s)"
    and d': "d' = put_bytes ?s s (put_bytes ?w w (put_bytes p m d))"
    using run False b by (auto simp: with_sqlite_def wal_of_def bytes_of_def Let_def split: prod.splits)
  obtain b' where m: "m = Some b'"
    and same: "bx_read bx b' (case w of Some x \<Rightarrow> x | None \<Rightarrow> []) = bx_read bx b (case bytes_of d ?w of Some x \<Rightarrow> x | None \<Rightarrow> [])"
    using law [unfolded sqlite_lawful_def, rule_format, of b "bytes_of d ?w" "bytes_of d ?s"] c
    by (auto split: option.splits)
  have at: "file_at d' q = (if q = p then Some (Bytes b') else file_at d q)" if "is_db q" for q
    using db_neq [OF that] by (simp add: d' m file_at_put_bytes)
  have wal: "wal_bytes d' q = (if q = p then (case w of Some x \<Rightarrow> x | None \<Rightarrow> []) else wal_bytes d q)" for q
    using db_neq(1) [OF p(1), of q]
    by (auto simp: d' m wal_bytes_def file_at_put_bytes node_bytes_def split: option.splits)
  have dbs: "db_paths d' = db_paths d"
    using p(2) by (simp add: d' m db_paths_put_bytes db_paths_put_same)
  have dist: "distinct (paths_on d')"
    using ok by (simp add: d' distinct_put_bytes disk_ok_iff)
  have here: "node_bytes (file_at d p) = b" "wal_bytes d p = (case bytes_of d ?w of Some x \<Rightarrow> x | None \<Rightarrow> [])"
    using b False node_bytes_of [of d ?w] by (simp_all add: node_bytes_def wal_bytes_def) (simp add: wal_of_def)
  have keep: "collection_at bx d' q = collection_at bx d q" if "is_db q" for q
    using same here by (simp add: collection_at_eq at [OF that] wal node_bytes_def)
  have "wal_bytes d' q = []" if "is_db q" "\<not> present d q" for q
    using that ok p(2) wal by (auto simp: disk_ok_iff)
  then have "disk_ok d' \<and> shelf bx d' = shelf bx d"
    using frame [OF ok dbs dist] keep by blast
  moreover have "present d' q = present d q" if "is_db q" for q
    using at [OF that] p(2) by (simp add: present_def)
  moreover have "present d' (litestream_dir q) = present d (litestream_dir q)" for q
    using db_neq(3) [OF p(1), of q] by (auto simp: d' present_def file_at_put_bytes)
  ultimately show ?thesis by blast
qed

definition relabel :: "'p \<Rightarrow> 'p \<Rightarrow> ('p \<times> 'c) list \<Rightarrow> ('p \<times> 'c) list" where
  "relabel p q xs = map (\<lambda>(x, c). (mv p q x, c)) xs"

lemma snd_relabel [simp]: "map snd (relabel p q xs) = map snd xs"
  by (simp add: relabel_def comp_def split_beta)

lemma relabel_back: "q \<notin> fst ` set xs \<Longrightarrow> relabel q p (relabel p q xs) = xs"
proof (induction xs)
  case (Cons e xs)
  then show ?case by (cases e) (auto simp: relabel_def mv_def)
qed (simp add: relabel_def)

lemma fst_shelf: "fst ` set (shelf bx d) = {p. is_db p \<and> present d p}"
  by (force simp: shelf_def db_paths_iff)

text \<open>The database file itself takes its new name, its log being empty.\<close>

lemma move_keeps:
  assumes ok: "disk_ok d" and p: "is_db p" "present d p" and q: "is_db q" "\<not> present d q"
    and wal: "wal_bytes d p = []"
  shows "disk_ok (move_node p q d)" "shelf bx (move_node p q d) = relabel p q (shelf bx d)"
proof -
  let ?d = "move_node p q d"
  have ne: "p \<noteq> q" using p q by auto
  have at: "file_at ?d x = (if x = p then None else if x = q then file_at d p else file_at d x)" for x
    using file_at_move [OF q(2), of p x] ne by auto
  have w: "wal_bytes ?d x = wal_bytes d x" for x
    using db_neq(1) [OF p(1), of x] db_neq(1) [OF q(1), of x] by (auto simp: wal_bytes_def at)
  have wq: "wal_bytes d q = []" using ok q by (rule disk_ok_wal)
  have inj: "inj_on (mv p q) (set (paths_on d))"
    using q(2) by (auto simp: inj_on_def mv_def present_iff)
  have "distinct (paths_on ?d)" using ok inj by (simp add: disk_ok_iff distinct_map)
  moreover have "wal_bytes ?d x = []" if "is_db x" "\<not> present ?d x" for x
    using that ok wal wq w p(2) by (auto simp: disk_ok_iff present_def at split: if_splits)
  ultimately show "disk_ok ?d" by (simp add: disk_ok_iff)
  have db: "is_db (mv p q x) = is_db x" for x using p(1) q(1) by (simp add: mv_def)
  have paths: "db_paths ?d = map (mv p q) (db_paths d)"
    by (simp add: db_paths_def filter_map comp_def db)
  have coll: "collection_at bx ?d (mv p q x) = collection_at bx d x" if "x \<in> set (db_paths d)" for x
    using that q wal wq by (auto simp: collection_at_eq mv_def w at db_paths_iff)
  then show "shelf bx ?d = relabel p q (shelf bx d)"
    by (simp add: shelf_def relabel_def paths comp_def)
qed

lemma rename_outcome:
  assumes ok: "disk_ok d" and p: "is_db p" "present d p" and q: "is_db q" "\<not> present d q" and wal: "wal_bytes d p = []"
    and run: "fs_rename bx p q d = (r, d')"
  shows "disk_ok d'"
    and "d' = d \<and> (\<exists>e. r = Inl e) \<or> d' = move_node p q d \<and> r = Inr () \<and> shelf bx d' = relabel p q (shelf bx d)"
proof -
  have "del_node q d = d"
    using q(2) by (force simp: del_node_def present_iff paths_on_def intro!: filter_True disk.equality)
  then have *: "d' = d \<and> (\<exists>e. r = Inl e) \<or> d' = move_node p q d \<and> r = Inr ()"
    using run p q by (auto simp: fs_rename_def present_def split: option.splits if_splits)
  then show "disk_ok d'" using ok move_keeps(1) [OF ok p q wal] by auto
  show "d' = d \<and> (\<exists>e. r = Inl e) \<or> d' = move_node p q d \<and> r = Inr () \<and> shelf bx d' = relabel p q (shelf bx d)"
    using * move_keeps(2) [OF ok p q wal, of bx] by auto
qed

text \<open>Steps that touch neither a database nor its log.\<close>

definition dbs_untouched :: "disk \<Rightarrow> disk \<Rightarrow> bool" where
  "dbs_untouched d d' \<longleftrightarrow> (distinct (paths_on d) \<longrightarrow> distinct (paths_on d')) \<and> db_paths d' = db_paths d \<and>
     (\<forall>p. is_db p \<longrightarrow> file_at d' p = file_at d p \<and> wal_bytes d' p = wal_bytes d p)"

lemma dbs_untouched_refl [simp]: "dbs_untouched d d"
  by (simp add: dbs_untouched_def)

lemma dbs_untouched_keeps:
  assumes "dbs_untouched d d'" "disk_ok d"
  shows "disk_ok d'" "shelf bx d' = shelf bx d" "is_db p \<Longrightarrow> present d' p = present d p" "is_db p \<Longrightarrow> wal_bytes d' p = wal_bytes d p"
proof -
  have "distinct (paths_on d')" using assms by (simp add: dbs_untouched_def disk_ok_iff)
  moreover have "collection_at bx d' p = collection_at bx d p \<or> \<not> present d p" if "is_db p" for p
    using assms(1) that by (simp add: dbs_untouched_def collection_at_eq)
  moreover have "wal_bytes d' p = []" if "is_db p" "\<not> present d p" for p
    using assms that by (simp add: dbs_untouched_def disk_ok_iff)
  ultimately show "disk_ok d'" "shelf bx d' = shelf bx d"
    using frame [OF assms(2), of d' bx] assms(1) by (auto simp: dbs_untouched_def)
  show "is_db p \<Longrightarrow> present d' p = present d p" "is_db p \<Longrightarrow> wal_bytes d' p = wal_bytes d p"
    using assms(1) by (simp_all add: dbs_untouched_def present_def)
qed

lemma dbs_untouched_del:
  assumes "\<not> is_db p" "\<And>q. p = wal_of q \<Longrightarrow> is_db q \<Longrightarrow> wal_bytes d q = []"
  shows "dbs_untouched d (del_node p d)"
  using assms unfolding dbs_untouched_def
  by (auto simp: db_paths_def wal_bytes_def node_bytes_def intro!: filter_cong)

lemma dbs_untouched_put: "\<not> is_db p \<Longrightarrow> (\<And>q. p \<noteq> wal_of q) \<Longrightarrow> dbs_untouched d (put_node p n d)"
  unfolding dbs_untouched_def by (auto simp: db_paths_def wal_bytes_def present_iff)

lemma dbs_untouched_rename:
  assumes p: "\<not> is_db p" "\<And>x. p \<noteq> wal_of x" and q: "\<not> is_db q" "\<And>x. q \<noteq> wal_of x"
    and run: "fs_rename bx p q d = (r, d')"
  shows "dbs_untouched d d'"
proof -
  consider "d' = d" | "d' = move_node p q (del_node q d)" "p \<noteq> q"
    using run by (auto simp: fs_rename_def split: option.splits if_splits)
  then show ?thesis
  proof cases
    case 2
    have "\<not> present (del_node q d) q" by (simp add: present_iff)
    then have at: "file_at d' x = (if x = p then None else if x = q then file_at d p else file_at d x)" for x
      using file_at_move [of "del_node q d" q p x] 2 by auto
    have inj: "inj_on (mv p q) {x \<in> set (paths_on d). x \<noteq> q}" by (auto simp: inj_on_def mv_def)
    have "is_db (mv p q x) = is_db x" for x using p(1) q(1) by (simp add: mv_def)
    then have "db_paths d' = map (mv p q) (filter (\<lambda>x. x \<noteq> q \<and> is_db x) (paths_on d))"
      by (simp add: 2 db_paths_def filter_map comp_def)
    also have "filter (\<lambda>x. x \<noteq> q \<and> is_db x) (paths_on d) = db_paths d"
      unfolding db_paths_def using q(1) by (auto intro: filter_cong)
    also have "map (mv p q) (db_paths d) = db_paths d"
      using p(1) by (auto simp: db_paths_def mv_def intro: map_idI)
    finally have dbs: "db_paths d' = db_paths d" .
    have "wal_bytes d' x = wal_bytes d x" for x
      using p(2) [of x] q(2) [of x] by (auto simp: wal_bytes_def at)
    moreover have "file_at d' x = file_at d x" if "is_db x" for x
      using that p(1) q(1) by (auto simp: at)
    ultimately show ?thesis
      using dbs inj by (simp add: dbs_untouched_def) (simp add: 2 distinct_map)
  qed simp
qed

lemma dbs_untouched_create_dir:
  assumes "fs_create_dir_all bx pl d = (r, d')"
  shows "dbs_untouched d d'" "present d' = present d"
  using assms
  by (auto simp: fs_create_dir_all_def dbs_untouched_def paths_on_def db_paths_def file_at_def wal_bytes_def present_def
      split: if_splits option.splits)

lemma remove_sidecars_keeps:
  assumes run: "remove_sidecars bx p d = (r, d')" and "wal_bytes d p = []"
  shows "dbs_untouched d d' \<and> r = Inr () \<and> (\<forall>q. present d' (litestream_dir q) = present d (litestream_dir q))"
proof -
  have one: "\<exists>d2. best_effort (fs_remove_file bx x) d1 = (Inr (), d2) \<and> (d2 = d1 \<or> d2 = del_node x d1)" for x d1
    by (auto simp: best_effort_def fs_remove_file_def split: option.splits node.splits)
  obtain d1 where d1: "best_effort (fs_remove_file bx (wal_of p)) d = (Inr (), d1)" "d1 = d \<or> d1 = del_node (wal_of p) d"
    using one by blast
  obtain d2 where d2: "best_effort (fs_remove_file bx (sidecar p ''-shm'')) d1 = (Inr (), d2)"
      "d2 = d1 \<or> d2 = del_node (sidecar p ''-shm'') d1"
    using one by blast
  have "d' = d2" "r = Inr ()"
    using run d1(1) d2(1)
    by (simp_all add: remove_sidecars_def WAL_SIDECARS_def bind_act_def ret_def wal_of_def [symmetric])
  moreover have u1: "dbs_untouched d d1"
    using d1(2) dbs_untouched_del [of "wal_of p" d] assms(2) by auto
  moreover have u2: "dbs_untouched d1 d2"
    using d2(2) dbs_untouched_del [of "sidecar p ''-shm''" d1] by auto
  ultimately show ?thesis
    using d1(2) d2(2) by (auto simp: dbs_untouched_def present_iff)
qed

lemma checkpoint_and_close_keeps:
  assumes ok: "disk_ok d" and law: "sqlite_lawful bx" and p: "is_db p" "present d p"
    and run: "checkpoint_and_close bx p d = (r, d')"
  shows "disk_ok d' \<and> shelf bx d' = shelf bx d \<and> (\<forall>q. is_db q \<longrightarrow> present d' q = present d q)
    \<and> (\<forall>q. present d' (litestream_dir q) = present d (litestream_dir q)) \<and> (r = Inr () \<longrightarrow> wal_bytes d' p = [])"
proof -
  obtain r1 d1 where c: "with_sqlite bx p (bx_checkpoint bx) d = (r1, d1)" by force
  have "d' = d1" "r = Inr () \<longrightarrow> wal_bytes d' p = []"
    using run c
    by (auto simp: checkpoint_and_close_def bind_act_def fail_def wal_bytes_def wal_of_def node_bytes_def file_len_def
        split: sum.splits if_splits option.splits node.splits)
  then show ?thesis using checkpoint_keeps [OF ok law p c] by blast
qed

lemma settle_outcome:
  assumes ok: "disk_ok d" and f: "is_db f" "\<not> present d f" "wal_bytes d f = []" and t: "is_db t" "present d t" "wal_bytes d t = []"
    and run: "settle_litestream bx f t l d = (r, d')"
  shows "disk_ok d' \<and>
    (case r of Inr _ \<Rightarrow> dbs_untouched d d' \<and> (l = Reset \<longrightarrow> \<not> present d' (litestream_dir f))
             | Inl _ \<Rightarrow> shelf bx d' = shelf bx d \<or> shelf bx d' = relabel t f (shelf bx d))"
proof -
  have restored: "disk_ok d2 \<and> (\<exists>e. r = Inl e) \<and> (shelf bx d2 = shelf bx d \<or> shelf bx d2 = relabel t f (shelf bx d))"
    if u: "dbs_untouched d d1" and b: "put_back bx f t e d1 = (r, d2)" for d1 d2 e and r :: "DbError + unit"
  proof -
    obtain r1 where r1: "fs_rename bx t f d1 = (r1, d2)" and r: "r = Inl e"
      using b by (cases "fs_rename bx t f d1") (auto simp: put_back_def bind_act_def best_effort_def fail_def)
    note k = dbs_untouched_keeps [OF u ok]
    have "\<not> present d1 f" "present d1 t" "wal_bytes d1 t = []" using f t k(3,4) by auto
    from rename_outcome [OF k(1) t(1) this(2) f(1) this(1) this(3) r1]
    show ?thesis using k(2) [of bx] r by auto
  qed
  have un: "dbs_untouched d d1" if "fs_rename bx (litestream_dir f) (litestream_dir t) d = (r1, d1)" for r1 d1
    using dbs_untouched_rename [OF _ _ _ _ that] by simp
  have ud: "dbs_untouched d d1 \<and> (r1 = Inr () \<longrightarrow> \<not> present d1 (litestream_dir f))"
    if "fs_remove_dir_all bx (litestream_dir f) d = (r1, d1)" for r1 d1
    using that dbs_untouched_del [of "litestream_dir f" d] dbs_untouched_put [of "litestream_dir f" d]
    by (auto simp: fs_remove_dir_all_def present_iff split: option.splits node.splits)
  show ?thesis
  proof (cases "present d (litestream_dir f)")
    case False
    then show ?thesis using run ok by (auto simp: settle_litestream_def Let_def)
  next
    case True
    show ?thesis
    proof (cases l)
      case Carry
      obtain r1 d1 where r1: "fs_rename bx (litestream_dir f) (litestream_dir t) d = (r1, d1)" by force
      show ?thesis
        using run True Carry r1 un [OF r1] dbs_untouched_keeps(1) [OF _ ok] restored [of d1 _ r d']
        by (cases r1) (auto simp: settle_litestream_def Let_def split: sum.splits)
    next
      case Reset
      obtain r1 d1 where r1: "fs_remove_dir_all bx (litestream_dir f) d = (r1, d1)" by force
      show ?thesis
        using run True Reset r1 ud [OF r1] dbs_untouched_keeps(1) [OF _ ok] restored [of d1 _ r d']
        by (cases r1) (auto simp: settle_litestream_def Let_def split: sum.splits)
    qed
  qed
qed

text \<open>
  The whole move: it has happened, or the databases are where they were; where it failed and the put-back
  failed too, the database is at the new name. Nothing else changes name or content.
\<close>

lemma relocate_outcome:
  assumes ok: "disk_ok d" and law: "sqlite_lawful bx" and f: "is_db f" and t: "is_db t"
    and run: "relocate bx name f t l d = (r, d')"
  shows "disk_ok d' \<and>
    (case r of Inr p \<Rightarrow> p = t \<and> present d f \<and> \<not> present d t \<and> shelf bx d' = relabel f t (shelf bx d)
                 \<and> wal_bytes d' t = [] \<and> (l = Reset \<longrightarrow> \<not> present d' (litestream_dir f))
             | Inl _ \<Rightarrow> shelf bx d' = shelf bx d \<or> \<not> present d t \<and> shelf bx d' = relabel f t (shelf bx d))"
proof (cases "present d f \<and> \<not> present d t \<and> \<not> present d (litestream_dir t)")
  case False
  then show ?thesis using run ok by (auto simp: relocate_def split: option.splits if_splits)
next
  case True
  then have pf: "present d f" "\<not> present d t" by auto
  have find: "List.find (present d) [t, litestream_dir t] = None" using True by simp
  obtain r1 d1 where c: "checkpoint_and_close bx f d = (r1, d1)" by force
  note k1 = checkpoint_and_close_keeps [OF ok law f pf(1) c]
  show ?thesis
  proof (cases r1)
    case (Inl e)
    then show ?thesis using run True find c k1 by (auto simp: relocate_def bind_act_def)
  next
    case (Inr u)
    have w1: "wal_bytes d1 f = []" using k1 Inr by simp
    obtain r2 d2 where m: "fs_create_dir_all bx (fst t) d1 = (r2, d2)" by force
    note u2 = dbs_untouched_create_dir [OF m]
    note k2 = dbs_untouched_keeps [OF u2(1) k1 [THEN conjunct1]]
    have s2: "shelf bx d2 = shelf bx d" using k1 k2(2) [of bx] by simp
    have p2: "present d2 f" "\<not> present d2 t" "wal_bytes d2 f = []"
      using k1 k2 f t pf w1 by auto
    show ?thesis
    proof (cases r2)
      case (Inl e)
      then show ?thesis using run True find c \<open>r1 = Inr u\<close> m k2(1) s2 by (auto simp: relocate_def bind_act_def or_fail_def)
    next
      case (Inr u')
      obtain r3 d3 where n: "fs_rename bx f t d2 = (r3, d3)" by force
      note k3 = rename_outcome [OF k2(1) f p2(1) t p2(2,3) n]
      show ?thesis
      proof (cases r3)
        case (Inl e)
        then show ?thesis
          using run True find c \<open>r1 = Inr u\<close> m Inr n k3(1) k3(2) s2 by (auto simp: relocate_def bind_act_def or_fail_def)
      next
        case (Inr u'')
        then have d3: "d3 = move_node f t d2" "shelf bx d3 = relabel f t (shelf bx d)" using k3(2) s2 by auto
        have ne: "f \<noteq> t" using pf by auto
        have at: "file_at d3 y = (if y = f then None else if y = t then file_at d2 f else file_at d2 y)" for y
          using file_at_move [OF p2(2), of f y] ne d3(1) by auto
        have p3: "\<not> present d3 f" "present d3 t" using p2 ne by (auto simp: present_def at)
        have w3: "wal_bytes d3 y = wal_bytes d2 y" for y
          using db_neq(1) [OF f, of y] db_neq(1) [OF t, of y] by (auto simp: wal_bytes_def at)
        have w: "wal_bytes d3 f = []" "wal_bytes d3 t = []" using w3 p2 disk_ok_wal [OF k2(1) t] by auto
        obtain r4 d4 where s: "settle_litestream bx f t l d3 = (r4, d4)" by force
        note k4 = settle_outcome [OF k3(1) f p3(1) w(1) t p3(2) w(2) s]
        show ?thesis
        proof (cases r4)
          case (Inl e)
          have "fst ` set (shelf bx d) = {p. is_db p \<and> present d p}" by (rule fst_shelf)
          then have "relabel t f (relabel f t (shelf bx d)) = shelf bx d" using pf(2) by (intro relabel_back) auto
          then show ?thesis
            using run True find c \<open>r1 = Inr u\<close> m \<open>r2 = Inr u'\<close> n \<open>r3 = Inr u''\<close> s Inl k4 d3 pf
            by (auto simp: relocate_def bind_act_def or_fail_def)
        next
          case (Inr v)
          obtain r5 d5 where x: "remove_sidecars bx f d4 = (r5, d5)" by force
          have u4: "dbs_untouched d3 d4" and ok4: "disk_ok d4" using k4 Inr by auto
          have "wal_bytes d4 f = []" using dbs_untouched_keeps(4) [OF u4 k3(1) f] w by simp
          note k5 = remove_sidecars_keeps [OF x this]
          have un5: "dbs_untouched d4 d5" using k5 by blast
          have "wal_bytes d5 t = []"
            using dbs_untouched_keeps(4) [OF un5 ok4 t] dbs_untouched_keeps(4) [OF u4 k3(1) t] w(2) by simp
          moreover have "disk_ok d5" "shelf bx d5 = relabel f t (shelf bx d)"
            using k5 dbs_untouched_keeps(1) [of d4 d5] dbs_untouched_keeps(2) [of d4 d5 bx] ok4 dbs_untouched_keeps(2) [OF u4 k3(1), of bx] d3 by auto
          ultimately show ?thesis
            using run True find c \<open>r1 = Inr u\<close> m \<open>r2 = Inr u'\<close> n \<open>r3 = Inr u''\<close> s Inr x k5 k4 pf
            by (auto simp: relocate_def bind_act_def or_fail_def ret_def)
        qed
      qed
    qed
  qed
qed

end
