(* ===== verification/Tenants.thy ===== *)
theory Tenants
  imports Tenant_Files
begin

text \<open>
  The operator surface over the registry, \<open>pkdump-db/src/tenants.rs\<close>: \<open>resolve\<close>, \<open>create\<close>,
  \<open>rename\<close>, \<open>detach\<close>, \<open>purge\<close>, the two migrations \<open>adopt\<close>/\<open>revert\<close> and
  \<open>migrate\<close>/\<open>unmigrate\<close>, and the reports. An operation is an action on a \<open>site\<close>, the disk and the
  registry together; a registry transaction that fails restores the registry and not the disk.
\<close>

section \<open>Data\<close>

record Tenant =
  tn_user :: User
  tn_path :: path
  tn_present :: bool

datatype Storage = Registered User | Unmigrated

record Served =                          \<comment> \<open>\<open>tenants::Collection\<close>\<close>
  sv_path :: path
  sv_storage :: Storage

record Moved =
  mo_handle :: string
  mo_database_id :: string
  mo_from :: path
  mo_to :: path

definition tenant_of :: "('r, 'c) box \<Rightarrow> disk \<Rightarrow> User \<Rightarrow> DbError + Tenant" where
  "tenant_of bx d user = and_then (tenant_db_path_for_id bx (us_database_id user)) (\<lambda>p.
     Inr \<lparr>tn_user = user, tn_path = p, tn_present = present d p\<rparr>)"

definition is_unmigrated :: "Served \<Rightarrow> bool" where
  "is_unmigrated c \<longleftrightarrow> sv_storage c = Unmigrated"

section \<open>Actions on a site\<close>

definition on_disk :: "(disk, 'a) act \<Rightarrow> ('r site, 'a) act" where
  "on_disk m = (\<lambda>s. case m (st_disk s) of (r, d) \<Rightarrow> (r, s\<lparr>st_disk := d\<rparr>))"

definition ask :: "('r \<Rightarrow> DbError + 'a) \<Rightarrow> ('r site, 'a) act" where
  "ask f = (\<lambda>s. (f (st_registry s), s))"

definition reg_do :: "('r \<Rightarrow> DbError + 'a \<times> 'r) \<Rightarrow> ('r site, 'a) act" where
  "reg_do f = (\<lambda>s. case f (st_registry s) of
     Inl e \<Rightarrow> (Inl e, s)
   | Inr (v, r) \<Rightarrow> (Inr v, s\<lparr>st_registry := r\<rparr>))"

definition reg_open :: "('r, 'c) box \<Rightarrow> ('r site, unit) act" where
  "reg_open bx = reg_do (\<lambda>r. map_sum id (\<lambda>r'. ((), r')) (kr_open bx r))"

text \<open>A registry transaction around \<open>body\<close>; \<open>undo\<close> runs when the commit itself fails.\<close>

definition keep_registry :: "'r site \<Rightarrow> 'r site \<Rightarrow> 'r site" where
  "keep_registry s s' = s'\<lparr>st_registry := st_registry s\<rparr>"

definition registry_tx ::
  "('r, 'c) box \<Rightarrow> ('a \<Rightarrow> disk \<Rightarrow> disk) \<Rightarrow> ('r site, 'a) act \<Rightarrow> ('r site, 'a) act" where
  "registry_tx bx undo body = (\<lambda>s. case body s of
     (Inl e, s') \<Rightarrow> (Inl e, keep_registry s s')
   | (Inr v, s') \<Rightarrow> (case kr_commit bx (st_registry s) (st_registry s') of
        None \<Rightarrow> (Inr v, s')
      | Some e \<Rightarrow> (Inl e, (keep_registry s s')\<lparr>st_disk := undo v (st_disk s')\<rparr>)))"

section \<open>The directory\<close>

definition stems_on_disk :: "disk \<Rightarrow> string list" where
  "stems_on_disk d = List.map_filter
     (\<lambda>(pl, n). if pl = Tenants_Dir then strip_suffix ''.sqlite'' n else None) (paths_on d)"

definition read_tenants_dir :: "('r, 'c) box \<Rightarrow> disk \<Rightarrow> DbError + string list" where
  "read_tenants_dir bx d = (case bx_refuses bx d (ReadDir Tenants_Dir) of
     Some e \<Rightarrow> Inl (Env (''reading '' @ tenants_dir_shown bx @ '': '' @ e))
   | None \<Rightarrow> Inr (stems_on_disk d))"

definition databases_on_disk :: "('r, 'c) box \<Rightarrow> ('r site, string list) act" where
  "databases_on_disk bx = (\<lambda>s.
     if \<not> dir_present (st_disk s) Tenants_Dir then (Inr [], s)
     else (map_sum id (sort_key id) (read_tenants_dir bx (st_disk s)), s))"

definition unregistered :: "('r, 'c) box \<Rightarrow> ('r site, string list) act" where
  "unregistered bx = (\<lambda>s.
     if \<not> dir_present (st_disk s) Tenants_Dir then (Inr [], s)
     else bind_act (reg_open bx) (\<lambda>_.
          bind_act (ask (kr_list bx)) (\<lambda>users s'.
            (map_sum id (\<lambda>stems. sort_key id (filter (\<lambda>stem. stem \<notin> set (map us_database_id users)) stems))
               (read_tenants_dir bx (st_disk s')), s'))) s)"

section \<open>Creating, naming, releasing\<close>

text \<open>\<open>open_user\<close>: the directory, then the schema.\<close>

definition open_user :: "('r, 'c) box \<Rightarrow> path \<Rightarrow> (disk, unit) act" where
  "open_user bx p = bind_act (or_fail (fs_create_dir_all bx (fst p)) Env) (\<lambda>_. with_sqlite bx p (bx_prepare bx))"

definition tenants_create :: "('r, 'c) box \<Rightarrow> string \<Rightarrow> ('r site, Tenant) act" where
  "tenants_create bx handle =
     bind_act (reg_open bx) (\<lambda>_.
     registry_tx bx (\<lambda>_ d. d) (
       bind_act (reg_do (\<lambda>r. kr_insert bx r handle)) (\<lambda>user.
       bind_act (\<lambda>s. (tenant_of bx (st_disk s) user, s)) (\<lambda>tenant.
       bind_act (on_disk (open_user bx (tn_path tenant))) (\<lambda>_.
       ret (tenant\<lparr>tn_present := True\<rparr>))))))"

definition with_file :: "('r, 'c) box \<Rightarrow> User \<Rightarrow> ('r site, Tenant) act" where
  "with_file bx user = (\<lambda>s. (tenant_of bx (st_disk s) user, s))"

definition tenants_list :: "('r, 'c) box \<Rightarrow> ('r site, Tenant list) act" where
  "tenants_list bx = bind_act (reg_open bx) (\<lambda>_. bind_act (ask (kr_list bx)) (\<lambda>users s.
     (map_result (tenant_of bx (st_disk s)) users, s)))"

definition tenants_lookup :: "('r, 'c) box \<Rightarrow> string \<Rightarrow> ('r site, Tenant option) act" where
  "tenants_lookup bx handle = bind_act (reg_open bx) (\<lambda>_. bind_act (ask (\<lambda>r. kr_lookup bx r handle)) (\<lambda>found.
     case found of None \<Rightarrow> ret None | Some user \<Rightarrow> bind_act (with_file bx user) (\<lambda>t. ret (Some t))))"

definition tenants_exists :: "('r, 'c) box \<Rightarrow> string \<Rightarrow> ('r site, bool) act" where
  "tenants_exists bx handle = bind_act (tenants_lookup bx handle) (\<lambda>t. ret (t \<noteq> None))"

definition tenants_rename :: "('r, 'c) box \<Rightarrow> string \<Rightarrow> string \<Rightarrow> ('r site, Tenant) act" where
  "tenants_rename bx from_handle to_handle =
     bind_act (reg_open bx) (\<lambda>_. bind_act (reg_do (\<lambda>r. kr_rename bx r from_handle to_handle)) (with_file bx))"

definition tenants_detach :: "('r, 'c) box \<Rightarrow> string \<Rightarrow> ('r site, Tenant) act" where
  "tenants_detach bx handle =
     bind_act (reg_open bx) (\<lambda>_. bind_act (reg_do (\<lambda>r. kr_detach bx r handle)) (with_file bx))"

definition tenants_purge :: "('r, 'c) box \<Rightarrow> string \<Rightarrow> ('r site, User) act" where
  "tenants_purge bx i =
     bind_act (lift_result (tenant_db_path_for_id bx i)) (\<lambda>p.
     bind_act (reg_open bx) (\<lambda>_.
     bind_act (ask (\<lambda>r. kr_find bx r i)) (\<lambda>found. case found of
       None \<Rightarrow> fail (NotFound (''no user with database id '' @ debug_quoted i))
     | Some user \<Rightarrow>
         if us_state user = Active
         then fail (Conflict (''user '' @ debug_quoted (us_handle user) @ '' is still active '' @ em_dash @
           '' `pkdump tenant detach '' @ us_handle user @ ''` first''))
         else
           bind_act (on_disk (\<lambda>d. if present d p
             then or_fail (fs_remove_file bx p) (\<lambda>e. Env (''removing '' @ show_path bx p @ '': '' @ e)) d
             else (Inr (), d))) (\<lambda>_.
           bind_act (on_disk (remove_sidecars bx p)) (\<lambda>_.
           bind_act (on_disk (best_effort (fs_remove_dir_all bx (litestream_dir p)))) (\<lambda>_.
           reg_do (\<lambda>r. kr_delete bx r i)))))))"

section \<open>What single-tenant mode opens\<close>

definition unadopted :: "('r, 'c) box \<Rightarrow> string \<Rightarrow> path \<Rightarrow> DbError" where
  "unadopted bx handle legacy = Env (''collection database for tenant '' @ debug_quoted handle @
     '' is still at the pre-tenants location '' @ show_path bx legacy @ '' and has not been adopted into '' @
     tenants_dir_shown bx @ ''. Run `pkdump tenant adopt '' @ handle @ ''` (see deploy/TENANTS.md).'')"

definition tenants_resolve :: "('r, 'c) box \<Rightarrow> string \<Rightarrow> ('r site, Served) act" where
  "tenants_resolve bx handle =
     bind_act (lift_result (kr_validate_handle bx handle)) (\<lambda>_.
     bind_act (reg_open bx) (\<lambda>_.
     bind_act (ask (\<lambda>r. kr_lookup bx r handle)) (\<lambda>found. case found of
       Some user \<Rightarrow>
         bind_act (lift_result (tenant_db_path_for_id bx (us_database_id user))) (\<lambda>p.
         bind_act (query (\<lambda>s. present (st_disk s) p)) (\<lambda>here.
         if here then ret \<lparr>sv_path = p, sv_storage = Registered user\<rparr>
         else
           bind_act (lift_result (legacy_user_db_path bx handle)) (\<lambda>legacy.
           bind_act (query (\<lambda>s. present (st_disk s) legacy)) (\<lambda>old.
           if old then fail (unadopted bx handle legacy)
           else fail (Env (''the user registry says tenant '' @ debug_quoted handle @ '' is served from database '' @
             us_database_id user @ '' but '' @ show_path bx p @ '' does not exist. Nothing was created: an empty '' @
             ''collection in its place is not a recovery. Restore it (deploy/RESTORE.md), or roll the '' @
             ''migration back with `pkdump tenant unmigrate`.''))))))
     | None \<Rightarrow>
         bind_act (lift_result (tenant_db_path bx handle)) (\<lambda>by_handle.
         bind_act (query (\<lambda>s. present (st_disk s) by_handle)) (\<lambda>here.
         if here then ret \<lparr>sv_path = by_handle, sv_storage = Unmigrated\<rparr>
         else
           bind_act (lift_result (legacy_user_db_path bx handle)) (\<lambda>legacy.
           bind_act (query (\<lambda>s. present (st_disk s) legacy)) (\<lambda>old.
           if old then fail (unadopted bx handle legacy)
           else
             bind_act (ask (kr_list bx)) (\<lambda>users.
             bind_act (if users = [] then bind_act (databases_on_disk bx) (\<lambda>dbs. ret (dbs = [])) else ret False) (\<lambda>fresh.
             if fresh then
               bind_act (tenants_create bx handle) (\<lambda>tenant.
               ret \<lparr>sv_path = tn_path tenant, sv_storage = Registered (tn_user tenant)\<rparr>)
             else fail (NotFound (''no collection for tenant '' @ debug_quoted handle @ '' in '' @ tenants_dir_shown bx @
               ''. This data directory holds other users, so an empty one is not being created under that name '' @
               em_dash @ '' check $PKDUMP_USER, or run `pkdump tenant create '' @ handle @
               ''` if that is really a new user. `pkdump tenant list` shows who is registered.'')))))))))))"

section \<open>The two migrations\<close>

definition tenants_adopt :: "('r, 'c) box \<Rightarrow> string \<Rightarrow> ('r site, path) act" where
  "tenants_adopt bx name =
     bind_act (lift_result (legacy_user_db_path bx name)) (\<lambda>from_path.
     bind_act (lift_result (tenant_db_path bx name)) (\<lambda>to_path.
     on_disk (relocate bx name from_path to_path Carry)))"

definition tenants_revert :: "('r, 'c) box \<Rightarrow> string \<Rightarrow> ('r site, path) act" where
  "tenants_revert bx name =
     bind_act (lift_result (tenant_db_path bx name)) (\<lambda>from_path.
     bind_act (lift_result (legacy_user_db_path bx name)) (\<lambda>to_path.
     on_disk (relocate bx name from_path to_path Carry)))"

definition migratable :: "('r, 'c) box \<Rightarrow> ('r site, string list) act" where
  "migratable bx = bind_act (unregistered bx) (\<lambda>stems.
     ret (filter (\<lambda>stem. case kr_validate_id bx stem of Inl _ \<Rightarrow> True | Inr _ \<Rightarrow> False) stems))"

definition error_text :: "DbError \<Rightarrow> string" where
  "error_text e = (case e of Env s \<Rightarrow> s | NotFound s \<Rightarrow> s | Conflict s \<Rightarrow> s | Import s \<Rightarrow> s | Invalid s \<Rightarrow> s
     | SchemaVersion s \<Rightarrow> s | Seed s \<Rightarrow> s | Sqlite _ \<Rightarrow> [])"

definition migrate_one :: "('r, 'c) box \<Rightarrow> string \<Rightarrow> ('r site, Moved) act" where
  "migrate_one bx handle = (case kr_validate_handle bx handle of
     Inl e \<Rightarrow> fail (Env (''cannot migrate '' @ show_path bx (tenant_db_path_unchecked handle) @ '' '' @ em_dash @
       '' its name is neither a database id nor a handle ('' @ error_text e @ ''). Move it out of '' @
       tenants_dir_shown bx @ '' and migrate the rest.''))
   | Inr _ \<Rightarrow>
     bind_act (ask (\<lambda>r. kr_lookup bx r handle)) (\<lambda>found. case found of
       Some existing \<Rightarrow> fail (Conflict (''handle '' @ debug_quoted handle @ '' is already registered to database '' @
         us_database_id existing @ '', but a handle-named database is also sitting at '' @
         show_path bx (tenant_db_path_unchecked handle) @
         ''. Two databases claim one user; resolve that by hand before migrating.''))
     | None \<Rightarrow>
         bind_act (lift_result (tenant_db_path bx handle)) (\<lambda>from_path.
         registry_tx bx (\<lambda>m. snd \<circ> fs_rename bx (mo_to m) (mo_from m)) (
           bind_act (reg_do (\<lambda>r. kr_insert bx r handle)) (\<lambda>user.
           bind_act (lift_result (tenant_db_path_for_id bx (us_database_id user))) (\<lambda>to_path.
           bind_act (on_disk (relocate bx handle from_path to_path Reset)) (\<lambda>_.
           ret \<lparr>mo_handle = handle, mo_database_id = us_database_id user, mo_from = from_path, mo_to = to_path\<rparr>)))))))"

text \<open>A loop that collects what its body returns.\<close>

fun collect :: "('x \<Rightarrow> ('s, 'y) act) \<Rightarrow> 'x list \<Rightarrow> ('s, 'y list) act" where
  "collect f [] = ret []"
| "collect f (x # xs) = bind_act (f x) (\<lambda>y. bind_act (collect f xs) (\<lambda>ys. ret (y # ys)))"

definition tenants_migrate :: "('r, 'c) box \<Rightarrow> ('r site, Moved list) act" where
  "tenants_migrate bx = bind_act (migratable bx) (\<lambda>handles.
     bind_act (reg_open bx) (\<lambda>_. collect (migrate_one bx) handles))"

definition unmigrate_one :: "('r, 'c) box \<Rightarrow> User \<Rightarrow> ('r site, Moved) act" where
  "unmigrate_one bx user =
     bind_act (lift_result (tenant_db_path_for_id bx (us_database_id user))) (\<lambda>from_path.
     bind_act (lift_result (tenant_db_path bx (us_handle user))) (\<lambda>to_path.
     bind_act (query (\<lambda>s. present (st_disk s) from_path)) (\<lambda>here.
     if \<not> here then fail (NotFound (''the registry says '' @ debug_quoted (us_handle user) @ '' is served from '' @
       show_path bx from_path @ '', which does not exist '' @ em_dash @
       '' refusing to roll back a data directory that is already inconsistent''))
     else
       bind_act (on_disk (relocate bx (us_handle user) from_path to_path Reset)) (\<lambda>_ s.
         case kr_unregister bx (st_registry s) (us_database_id user) of
           Inl e \<Rightarrow> (Inl e, s\<lparr>st_disk := snd (fs_rename bx to_path from_path (st_disk s))\<rparr>)
         | Inr (_, r) \<Rightarrow> (Inr \<lparr>mo_handle = us_handle user, mo_database_id = us_database_id user,
             mo_from = from_path, mo_to = to_path\<rparr>, s\<lparr>st_registry := r\<rparr>)))))"

definition tenants_unmigrate :: "('r, 'c) box \<Rightarrow> ('r site, Moved list \<times> User list) act" where
  "tenants_unmigrate bx =
     bind_act (reg_open bx) (\<lambda>_.
     bind_act (ask (kr_list bx)) (\<lambda>users.
     bind_act (collect (unmigrate_one bx) (filter (\<lambda>u. us_state u = Active) users)) (\<lambda>moved.
     ret (moved, filter (\<lambda>u. us_state u \<noteq> Active) users))))"

section \<open>Schema versions\<close>

record TenantSchema =
  ts_tenant :: Tenant
  ts_version :: "int option"

definition schema_of :: "('r, 'c) box \<Rightarrow> disk \<Rightarrow> Tenant \<Rightarrow> DbError + TenantSchema" where
  "schema_of bx d t = (if tn_present t
     then map_sum id (\<lambda>v. \<lparr>ts_tenant = t, ts_version = Some v\<rparr>) (bx_version bx (node_bytes (file_at d (tn_path t))))
     else Inr \<lparr>ts_tenant = t, ts_version = None\<rparr>)"

definition tenants_versions :: "('r, 'c) box \<Rightarrow> ('r site, TenantSchema list) act" where
  "tenants_versions bx = bind_act (tenants_list bx) (\<lambda>ts s. (map_result (schema_of bx (st_disk s)) ts, s))"

section \<open>Moves keep every collection\<close>

definition site_keeps :: "('r, 'c) box \<Rightarrow> 'r site \<Rightarrow> 'r site \<Rightarrow> bool" where
  "site_keeps bx s s' \<longleftrightarrow> (disk_ok (st_disk s) \<longrightarrow>
     disk_ok (st_disk s') \<and> collections bx (st_disk s') = collections bx (st_disk s))"

lemma keep_registry_disk [simp]: "st_disk (keep_registry s s') = st_disk s'"
  by (simp add: keep_registry_def)

interpretation moving: step_relation "site_keeps bx" keep_registry for bx :: "('r, 'c) box"
  by unfold_locales (auto simp: site_keeps_def)

lemma keeps_same_disk: "(\<And>s. st_disk (snd (m s)) = st_disk s) \<Longrightarrow> always (site_keeps bx) m"
  by (simp add: always_def site_keeps_def)

lemma keeps_ask [intro]: "always (site_keeps bx) (ask f)"
  by (rule keeps_same_disk) (simp add: ask_def)

lemma keeps_reg_do [intro]: "always (site_keeps bx) (reg_do f)"
  by (rule keeps_same_disk) (auto simp: reg_do_def split: sum.splits)

lemma keeps_reg_open [intro]: "always (site_keeps bx) (reg_open bx')"
  unfolding reg_open_def by (rule keeps_reg_do)

lemma keeps_read [intro]: "always (site_keeps bx) (\<lambda>s. (f s, s))"
  by (rule keeps_same_disk) simp

lemma keeps_databases [intro]: "always (site_keeps bx) (databases_on_disk bx')"
  by (rule keeps_same_disk) (simp add: databases_on_disk_def)

lemma keeps_unregistered [intro]: "always (site_keeps bx) (unregistered bx')"
proof (rule keeps_same_disk)
  fix s
  have "st_disk (snd (reg_open bx' s)) = st_disk s"
    by (auto simp: reg_open_def reg_do_def split: sum.splits)
  then show "st_disk (snd (unregistered bx' s)) = st_disk s"
    by (auto simp: unregistered_def bind_act_def ask_def split: sum.splits prod.splits)
qed

lemma keeps_migratable [intro]: "always (site_keeps bx) (migratable bx')"
  unfolding migratable_def by (intro moving.always_rules keeps_unregistered)

lemma is_db_stem [simp]: "is_db (pl, stem @ ''.sqlite'')"
  by (simp add: is_db_def ends_with_def)

lemma path_is_db:
  "tenant_db_path bx h = Inr p \<Longrightarrow> is_db p" "tenant_db_path_for_id bx i = Inr p \<Longrightarrow> is_db p"
  "legacy_user_db_path bx h = Inr p \<Longrightarrow> is_db p"
  by (auto simp: tenant_db_path_def tenant_db_path_for_id_def legacy_user_db_path_def and_then_Inr)

lemma keeps_relocate:
  fixes bx :: "('r, 'c) box"
  assumes "sqlite_lawful bx" "is_db p" "is_db q"
  shows "always (site_keeps bx) (on_disk (relocate bx name p q l))"
proof (rule alwaysI)
  fix s s' :: "'r site" and r
  assume run: "on_disk (relocate bx name p q l) s = (r, s')"
  then obtain d where d: "relocate bx name p q l (st_disk s) = (r, d)" and s': "st_disk s' = d"
    by (auto simp: on_disk_def split: prod.splits)
  show "site_keeps bx s s'"
    unfolding site_keeps_def
  proof
    assume "disk_ok (st_disk s)"
    from relocate_outcome [OF this assms d]
    show "disk_ok (st_disk s') \<and> collections bx (st_disk s') = collections bx (st_disk s)"
      by (auto simp: s' collections_def split: sum.splits)
  qed
qed

text \<open>After a move that succeeded, renaming the database back is safe whether or not it happens.\<close>

lemma undo_move:
  assumes ok: "disk_ok d" and law: "sqlite_lawful bx" and f: "is_db f" and t: "is_db t"
    and run: "relocate bx name f t l d = (Inr p, d')"
  shows "disk_ok (snd (fs_rename bx t f d'))" "collections bx (snd (fs_rename bx t f d')) = collections bx d"
proof -
  from relocate_outcome [OF ok law f t run]
  have o: "disk_ok d'" "present d f" "\<not> present d t" "shelf bx d' = relabel f t (shelf bx d)" "wal_bytes d' t = []"
    by simp_all
  have ne: "f \<noteq> t" using o by auto
  have dom: "fst ` set (shelf bx d') = mv f t ` fst ` set (shelf bx d)"
    unfolding o(4) relabel_def by force
  have here: "present d' t" "\<not> present d' f"
    using dom f t o(2) ne unfolding fst_shelf by (auto simp: mv_def image_iff split: if_splits)
  obtain r1 d1 where m: "fs_rename bx t f d' = (r1, d1)" by force
  from rename_outcome [OF o(1) t here(1) f here(2) o(5) m]
  show "disk_ok (snd (fs_rename bx t f d'))" "collections bx (snd (fs_rename bx t f d')) = collections bx d"
    using m o(4) by (auto simp: collections_def)
qed

lemma keeps_lift_bind:
  "(\<And>v. r = Inr v \<Longrightarrow> always (site_keeps bx) (k v)) \<Longrightarrow> always (site_keeps bx) (bind_act (lift_result r) k)"
proof (cases r)
  case (Inl e)
  then have "bind_act (lift_result r) k = fail e" by (simp add: lift_result_def bind_act_def fail_def)
  then show ?thesis using moving.always_fail by metis
qed (simp add: lift_result_def)

lemma keeps_migrate_one:
  fixes bx :: "('r, 'c) box"
  assumes law: "sqlite_lawful bx"
  shows "always (site_keeps bx) (migrate_one bx handle)"
proof -
  have tx: "always (site_keeps bx) (registry_tx bx (\<lambda>m. snd \<circ> fs_rename bx (mo_to m) (mo_from m)) (
           bind_act (reg_do (\<lambda>r. kr_insert bx r handle)) (\<lambda>user.
           bind_act (lift_result (tenant_db_path_for_id bx (us_database_id user))) (\<lambda>to_path.
           bind_act (on_disk (relocate bx handle p to_path Reset)) (\<lambda>_.
           ret \<lparr>mo_handle = handle, mo_database_id = us_database_id user, mo_from = p, mo_to = to_path\<rparr>)))))"
    (is "always _ (registry_tx bx ?undo ?body)") if p: "is_db p" for p
  proof (rule alwaysI)
    fix s s' :: "'r site" and r
    assume run: "registry_tx bx ?undo ?body s = (r, s')"
    obtain r1 s1 where b: "?body s = (r1, s1)" by force
    have to_db: "always (site_keeps bx) (bind_act (lift_result (tenant_db_path_for_id bx i)) (\<lambda>q.
        bind_act (on_disk (relocate bx handle p q Reset)) (\<lambda>_. ret (f q :: Moved))))" for i f
      by (intro keeps_lift_bind moving.always_bind moving.always_ret keeps_relocate [OF law p] path_is_db(2))
    have body: "site_keeps bx s s1"
      using b by (rule alwaysD [rotated]) (intro moving.always_bind keeps_reg_do to_db)
    show "site_keeps bx s s'"
    proof (cases r1)
      case (Inl e)
      then show ?thesis using run b body by (auto simp: registry_tx_def site_keeps_def)
    next
      case (Inr m)
      from b Inr obtain user r' q where
        ins: "kr_insert bx (st_registry s) handle = Inr (user, r')" and q: "tenant_db_path_for_id bx (us_database_id user) = Inr q"
        and mv: "\<exists>x. relocate bx handle p q Reset (st_disk s) = (Inr x, st_disk s1)"
        and m: "mo_from m = p" "mo_to m = q"
        by (auto simp: bind_act_def reg_do_def lift_result_def fail_def ret_def on_disk_def split: sum.splits prod.splits)
      then obtain x where mv: "relocate bx handle p q Reset (st_disk s) = (Inr x, st_disk s1)" by blast
      show ?thesis
      proof (cases "kr_commit bx (st_registry s) (st_registry s1)")
        case None
        then show ?thesis using run b body Inr by (simp add: registry_tx_def)
      next
        case (Some e)
        then have "st_disk s' = snd (fs_rename bx q p (st_disk s1))"
          using run b Inr m by (auto simp: registry_tx_def)
        then show ?thesis
          using undo_move [OF _ law p path_is_db(2) [OF q] mv] by (simp add: site_keeps_def)
      qed
    qed
  qed
  have "always (site_keeps bx) (bind_act (ask (\<lambda>r. kr_lookup bx r handle)) (\<lambda>found. case found of
       Some x \<Rightarrow> fail (e x) | None \<Rightarrow> bind_act (lift_result (tenant_db_path bx handle)) (\<lambda>p.
         registry_tx bx (\<lambda>m. snd \<circ> fs_rename bx (mo_to m) (mo_from m)) (
           bind_act (reg_do (\<lambda>r. kr_insert bx r handle)) (\<lambda>user.
           bind_act (lift_result (tenant_db_path_for_id bx (us_database_id user))) (\<lambda>to_path.
           bind_act (on_disk (relocate bx handle p to_path Reset)) (\<lambda>_.
           ret \<lparr>mo_handle = handle, mo_database_id = us_database_id user, mo_from = p, mo_to = to_path\<rparr>)))))))" for e
    by (intro moving.always_bind keeps_ask moving.always_option moving.always_fail keeps_lift_bind tx path_is_db(1))
  then show ?thesis
    unfolding migrate_one_def by (cases "kr_validate_handle bx handle") (auto intro: moving.always_fail)
qed

lemma keeps_unmigrate_one:
  fixes bx :: "('r, 'c) box"
  assumes law: "sqlite_lawful bx"
  shows "always (site_keeps bx) (unmigrate_one bx user)"
proof (rule alwaysI)
  fix s s' :: "'r site" and r
  assume run: "unmigrate_one bx user s = (r, s')"
  show "site_keeps bx s s'"
  proof (cases "tenant_db_path_for_id bx (us_database_id user)")
    case (Inl e)
    then show ?thesis using run moving.R_refl by (auto simp: unmigrate_one_def lift_result_def bind_act_def fail_def)
  next
    case (Inr p)
    note p = this
    show ?thesis
    proof (cases "tenant_db_path bx (us_handle user)")
      case (Inl e)
      then show ?thesis using run p moving.R_refl
        by (auto simp: unmigrate_one_def lift_result_def bind_act_def fail_def ret_def)
    next
      case (Inr q)
      note q = this
      obtain r1 d1 where mv: "relocate bx (us_handle user) p q Reset (st_disk s) = (r1, d1)" by force
      have k: "site_keeps bx s (s\<lparr>st_disk := d1\<rparr>)"
        using alwaysD [OF keeps_relocate [OF law path_is_db(2) [OF p] path_is_db(1) [OF q]], of "us_handle user" Reset s r1]
          mv by (simp add: on_disk_def)
      have u: "r1 = Inr x \<Longrightarrow> site_keeps bx s (s\<lparr>st_disk := snd (fs_rename bx q p d1)\<rparr>)" for x
        using undo_move [OF _ law path_is_db(2) [OF p] path_is_db(1) [OF q]] mv by (auto simp: site_keeps_def)
      show ?thesis
        using run p q mv k u moving.R_refl [of bx s]
        by (cases "present (st_disk s) p"; cases r1)
          (auto simp: unmigrate_one_def lift_result_def bind_act_def fail_def ret_def query_def on_disk_def
            site_keeps_def split: sum.splits prod.splits)
    qed
  qed
qed

lemma keeps_collect: "(\<And>x. always (site_keeps bx) (f x)) \<Longrightarrow> always (site_keeps bx) (collect f xs)"
  by (induction xs) (auto intro!: moving.always_rules)

lemma keeps_migrate: "sqlite_lawful bx \<Longrightarrow> always (site_keeps bx) (tenants_migrate bx)"
  unfolding tenants_migrate_def
  by (intro moving.always_bind keeps_migratable keeps_reg_open keeps_collect keeps_migrate_one)

lemma keeps_unmigrate: "sqlite_lawful bx \<Longrightarrow> always (site_keeps bx) (tenants_unmigrate bx)"
  unfolding tenants_unmigrate_def
  by (intro moving.always_bind moving.always_ret keeps_ask keeps_reg_open keeps_collect keeps_unmigrate_one)

lemma keeps_adopt:
  fixes bx :: "('r, 'c) box"
  shows "sqlite_lawful bx \<Longrightarrow> always (site_keeps bx) (tenants_adopt bx h)"
  unfolding tenants_adopt_def
  by (intro keeps_lift_bind keeps_relocate) (auto dest: path_is_db)

lemma keeps_revert:
  fixes bx :: "('r, 'c) box"
  shows "sqlite_lawful bx \<Longrightarrow> always (site_keeps bx) (tenants_revert bx h)"
  unfolding tenants_revert_def
  by (intro keeps_lift_bind keeps_relocate) (auto dest: path_is_db)

text \<open>An operator at work: any sequence of moves, each run whatever the one before it returned.\<close>

datatype move = Adopt string | Revert string | Migrate | Unmigrate

definition run_move :: "('r, 'c) box \<Rightarrow> move \<Rightarrow> 'r site \<Rightarrow> 'r site" where
  "run_move bx m s = (case m of
     Adopt h \<Rightarrow> snd (tenants_adopt bx h s)
   | Revert h \<Rightarrow> snd (tenants_revert bx h s)
   | Migrate \<Rightarrow> snd (tenants_migrate bx s)
   | Unmigrate \<Rightarrow> snd (tenants_unmigrate bx s))"

definition run_moves :: "('r, 'c) box \<Rightarrow> move list \<Rightarrow> 'r site \<Rightarrow> 'r site" where
  "run_moves bx ms s = fold (run_move bx) ms s"

lemma run_move_keeps:
  fixes bx :: "('r, 'c) box"
  shows "sqlite_lawful bx \<Longrightarrow> site_keeps bx s (run_move bx m s)"
  using keeps_adopt [of bx] keeps_revert [of bx] keeps_migrate [of bx] keeps_unmigrate [of bx]
  by (cases m) (simp_all add: run_move_def always_def)

section \<open>What the registry promises\<close>

text \<open>
  The kernel's documented contract: listing, looking up and opening change no row; a lookup is by the
  active handle; an insert appends one active row under the handle with an id never given out before;
  deleting and unregistering drop the row of that id.
\<close>

definition active_under :: "string \<Rightarrow> User \<Rightarrow> bool" where
  "active_under h u \<longleftrightarrow> us_state u = Active \<and> us_handle u = h"

definition registry_lawful :: "('r, 'c) box \<Rightarrow> bool" where
  "registry_lawful bx \<longleftrightarrow>
     (\<forall>r r'. kr_open bx r = Inr r' \<longrightarrow> kr_rows bx r' = kr_rows bx r) \<and>
     (\<forall>r us. kr_list bx r = Inr us \<longrightarrow> us = kr_rows bx r) \<and>
     (\<forall>r h u. kr_lookup bx r h = Inr u \<longrightarrow> u = List.find (active_under h) (kr_rows bx r)) \<and>
     (\<forall>r i u. kr_find bx r i = Inr u \<longrightarrow> u = List.find (\<lambda>v. us_database_id v = i) (kr_rows bx r)) \<and>
     (\<forall>r h u r'. kr_insert bx r h = Inr (u, r') \<longrightarrow> us_handle u = h \<and> us_state u = Active \<and>
        kr_validate_id bx (us_database_id u) = Inr () \<and> us_database_id u \<notin> us_database_id ` set (kr_rows bx r) \<and>
        kr_rows bx r' = kr_rows bx r @ [u]) \<and>
     (\<forall>r i u r'. kr_unregister bx r i = Inr (u, r') \<longrightarrow> kr_rows bx r' = filter (\<lambda>v. us_database_id v \<noteq> i) (kr_rows bx r)) \<and>
     (\<forall>r i u r'. kr_delete bx r i = Inr (u, r') \<longrightarrow> kr_rows bx r' = filter (\<lambda>v. us_database_id v \<noteq> i) (kr_rows bx r))"

lemmas registry_lawfulD =
  registry_lawful_def [THEN iffD1, THEN conjunct1, rule_format]
  registry_lawful_def [THEN iffD1, THEN conjunct2, THEN conjunct1, rule_format]
  registry_lawful_def [THEN iffD1, THEN conjunct2, THEN conjunct2, THEN conjunct1, rule_format]
  registry_lawful_def [THEN iffD1, THEN conjunct2, THEN conjunct2, THEN conjunct2, THEN conjunct1, rule_format]
  registry_lawful_def [THEN iffD1, THEN conjunct2, THEN conjunct2, THEN conjunct2, THEN conjunct2, THEN conjunct1, rule_format]
  registry_lawful_def [THEN iffD1, THEN conjunct2, THEN conjunct2, THEN conjunct2, THEN conjunct2, THEN conjunct2, THEN conjunct1, rule_format]
  registry_lawful_def [THEN iffD1, THEN conjunct2, THEN conjunct2, THEN conjunct2, THEN conjunct2, THEN conjunct2, THEN conjunct2, rule_format]

definition rows_at :: "('r, 'c) box \<Rightarrow> 'r site \<Rightarrow> User list" where
  "rows_at bx s = kr_rows bx (st_registry s)"

text \<open>The paths of a handle and of an id, once validated.\<close>

lemma path_forms:
  "tenant_db_path bx h = Inr p \<Longrightarrow> p = (Tenants_Dir, h @ ''.sqlite'') \<and> kr_validate_handle bx h = Inr ()"
  "tenant_db_path_for_id bx i = Inr p \<Longrightarrow> p = (Tenants_Dir, i @ ''.sqlite'') \<and> kr_validate_id bx i = Inr ()"
  "legacy_user_db_path bx h = Inr p \<Longrightarrow> p = (Data_Root, h @ ''.sqlite'') \<and> kr_validate_handle bx h = Inr ()"
  by (auto simp: tenant_db_path_def tenant_db_path_for_id_def legacy_user_db_path_def and_then_Inr)

section \<open>Migrating one database\<close>

definition stem_path :: "string \<Rightarrow> path" where
  "stem_path stem = (Tenants_Dir, stem @ ''.sqlite'')"

lemma stem_path_inj [simp]: "stem_path a = stem_path b \<longleftrightarrow> a = b"
  by (simp add: stem_path_def)

definition moved_row :: "Moved \<Rightarrow> User" where
  "moved_row m = \<lparr>us_handle = mo_handle m, us_database_id = mo_database_id m, us_state = Active\<rparr>"

definition migrated :: "Moved \<Rightarrow> bool" where
  "migrated m \<longleftrightarrow> mo_from m = stem_path (mo_handle m) \<and> mo_to m = stem_path (mo_database_id m)"

lemma migrate_one_step:
  fixes bx :: "('r, 'c) box"
  assumes law: "sqlite_lawful bx" "registry_lawful bx" and ok: "disk_ok (st_disk s)"
    and run: "migrate_one bx h s = (Inr m, s')"
  shows "disk_ok (st_disk s')" and "mo_handle m = h" and "migrated m" and "kr_validate_id bx (mo_database_id m) = Inr ()"
    and "rows_at bx s' = rows_at bx s @ [moved_row m]" and "mo_database_id m \<notin> us_database_id ` set (rows_at bx s)"
    and "shelf bx (st_disk s') = relabel (mo_from m) (mo_to m) (shelf bx (st_disk s))"
    and "mo_from m \<in> fst ` set (shelf bx (st_disk s))" and "mo_to m \<notin> fst ` set (shelf bx (st_disk s))"
    and "\<not> present (st_disk s') (litestream_dir (mo_from m))"
proof -
  let ?undo = "\<lambda>m. snd \<circ> fs_rename bx (mo_to m) (mo_from m)"
  let ?body = "\<lambda>p. bind_act (reg_do (\<lambda>r. kr_insert bx r h)) (\<lambda>user.
           bind_act (lift_result (tenant_db_path_for_id bx (us_database_id user))) (\<lambda>to_path.
           bind_act (on_disk (relocate bx h p to_path Reset)) (\<lambda>_.
           ret \<lparr>mo_handle = h, mo_database_id = us_database_id user, mo_from = p, mo_to = to_path\<rparr>)))"
  from run obtain p where v: "kr_validate_handle bx h = Inr ()" and p: "tenant_db_path bx h = Inr p"
    and tx: "registry_tx bx ?undo (?body p) s = (Inr m, s')"
    by (auto simp: migrate_one_def fail_def bind_act_def ask_def lift_result_def ret_def
        split: sum.splits option.splits prod.splits)
  have b: "?body p s = (Inr m, s')"
    using tx by (auto simp: registry_tx_def split: sum.splits prod.splits option.splits)
  from b obtain user r' q x where ins: "kr_insert bx (st_registry s) h = Inr (user, r')"
    and q: "tenant_db_path_for_id bx (us_database_id user) = Inr q"
    and mv: "relocate bx h p q Reset (st_disk s) = (Inr x, st_disk s')"
    and m: "m = \<lparr>mo_handle = h, mo_database_id = us_database_id user, mo_from = p, mo_to = q\<rparr>"
    and r: "st_registry s' = r'"
    by (auto simp: bind_act_def reg_do_def lift_result_def fail_def ret_def on_disk_def split: sum.splits prod.splits)
  from relocate_outcome [OF ok law(1) path_is_db(1) [OF p] path_is_db(2) [OF q] mv]
  have o: "disk_ok (st_disk s')" "present (st_disk s) p" "\<not> present (st_disk s) q"
      "shelf bx (st_disk s') = relabel p q (shelf bx (st_disk s))" "\<not> present (st_disk s') (litestream_dir p)"
    by simp_all
  from registry_lawfulD(5) [OF law(2) ins]
  have u: "us_handle user = h" "us_state user = Active" "kr_validate_id bx (us_database_id user) = Inr ()"
      "us_database_id user \<notin> us_database_id ` set (rows_at bx s)" "rows_at bx s' = rows_at bx s @ [user]"
    by (simp_all add: rows_at_def r)
  have "moved_row m = user" using u by (simp add: moved_row_def m)
  then show "rows_at bx s' = rows_at bx s @ [moved_row m]" using u by simp
  show "disk_ok (st_disk s')" "mo_handle m = h" "kr_validate_id bx (mo_database_id m) = Inr ()"
    "mo_database_id m \<notin> us_database_id ` set (rows_at bx s)"
    "shelf bx (st_disk s') = relabel (mo_from m) (mo_to m) (shelf bx (st_disk s))"
    "\<not> present (st_disk s') (litestream_dir (mo_from m))"
    using o u by (simp_all add: m)
  show "mo_from m \<in> fst ` set (shelf bx (st_disk s))" "mo_to m \<notin> fst ` set (shelf bx (st_disk s))"
    using o path_is_db(1) [OF p] by (simp_all add: m fst_shelf)
  show "migrated m" using path_forms(1) [OF p] path_forms(2) [OF q] by (simp add: migrated_def stem_path_def m)
qed

section \<open>Migrating them all, and back\<close>

text \<open>Where a path ends up after a list of moves.\<close>

definition renaming :: "Moved list \<Rightarrow> path \<Rightarrow> path" where
  "renaming ms = fold (\<lambda>m. mv (mo_from m) (mo_to m)) ms"

lemma renaming_simps [simp]:
  "renaming [] p = p" "renaming (m # ms) p = renaming ms (mv (mo_from m) (mo_to m) p)"
  by (simp_all add: renaming_def)

lemma renaming_other: "p \<notin> mo_from ` set ms \<Longrightarrow> renaming ms p = p"
  by (induction ms) (auto simp: mv_def)

lemma renaming_moved:
  assumes "distinct (map mo_from ms)" "m \<in> set ms" "mo_to m \<notin> mo_from ` set ms"
  shows "renaming ms (mo_from m) = mo_to m"
  using assms
proof (induction ms)
  case (Cons k ms)
  show ?case
  proof (cases "k = m")
    case True
    then show ?thesis using Cons.prems renaming_other [of "mo_to m" ms] by (simp add: mv_def)
  next
    case False
    then have "mo_from m \<in> mo_from ` set ms" using Cons.prems(2) by simp
    then have "mo_from m \<noteq> mo_from k" using Cons.prems(1) by auto
    then show ?thesis using Cons False by (simp add: mv_def)
  qed
qed simp

definition renamed :: "Moved list \<Rightarrow> (path \<times> 'c) list \<Rightarrow> (path \<times> 'c) list" where
  "renamed ms xs = map (\<lambda>(p, c). (renaming ms p, c)) xs"

lemma renamed_simps [simp]:
  "renamed [] xs = xs" "renamed (m # ms) xs = renamed ms (relabel (mo_from m) (mo_to m) xs)"
  by (simp_all add: renamed_def relabel_def comp_def split_beta)

lemma fst_relabel: "fst ` set (relabel p q xs) = mv p q ` fst ` set xs"
  by (force simp: relabel_def)

lemma collect_InrD:
  "collect f (x # xs) s = (Inr zs, s') \<Longrightarrow> \<exists>y ys s1. f x s = (Inr y, s1) \<and> collect f xs s1 = (Inr ys, s') \<and> zs = y # ys"
  by (auto simp: bind_act_def ret_def split: sum.splits prod.splits)

lemma migrate_all_step:
  fixes bx :: "('r, 'c) box"
  assumes law: "sqlite_lawful bx" "registry_lawful bx"
    and hs: "\<forall>h \<in> set hs. kr_validate_id bx h \<noteq> Inr ()"
    and run: "collect (migrate_one bx) hs s = (Inr ms, s')" and ok: "disk_ok (st_disk s)"
  shows "disk_ok (st_disk s') \<and> map mo_handle ms = hs \<and> list_all migrated ms
    \<and> list_all (\<lambda>m. kr_validate_id bx (mo_database_id m) = Inr ()) ms
    \<and> rows_at bx s' = rows_at bx s @ map moved_row ms
    \<and> distinct (map mo_database_id ms) \<and> mo_database_id ` set ms \<inter> us_database_id ` set (rows_at bx s) = {}
    \<and> shelf bx (st_disk s') = renamed ms (shelf bx (st_disk s))
    \<and> distinct (map mo_from ms) \<and> mo_from ` set ms \<subseteq> fst ` set (shelf bx (st_disk s))
    \<and> mo_to ` set ms \<inter> fst ` set (shelf bx (st_disk s)) = {}"
  using hs run ok
proof (induction hs arbitrary: s ms)
  case Nil
  then show ?case by (simp add: ret_def)
next
  case (Cons h hs)
  from collect_InrD [OF Cons.prems(2)] obtain m ms' s1 where
    m: "migrate_one bx h s = (Inr m, s1)" and c: "collect (migrate_one bx) hs s1 = (Inr ms', s')" and ms: "ms = m # ms'"
    by blast
  note one = migrate_one_step [OF law Cons.prems(3) m]
  have hs: "\<forall>h \<in> set hs. kr_validate_id bx h \<noteq> Inr ()" using Cons.prems(1) by simp
  note ih = Cons.IH [OF hs c one(1)]
  have id_not: "mo_database_id x \<notin> set (h # hs)" if "x \<in> set ms" for x
    using that ih one(4) Cons.prems(1) unfolding ms list_all_iff by (metis set_ConsD)
  have frm: "mo_from x = stem_path (mo_handle x)" "mo_to x = stem_path (mo_database_id x)" if "x \<in> set ms" for x
    using that ih one(3) unfolding ms list_all_iff migrated_def by auto
  have handles: "mo_handle x \<in> set (h # hs)" if "x \<in> set ms" for x
    using that ih one(2) unfolding ms by auto
  have cross: "mo_to x \<noteq> mo_from y" if "x \<in> set ms" "y \<in> set ms" for x y
    using id_not [OF that(1)] handles [OF that(2)] frm that by auto
  have at1: "fst ` set (shelf bx (st_disk s1)) = mv (mo_from m) (mo_to m) ` fst ` set (shelf bx (st_disk s))"
    unfolding one(7) by (rule fst_relabel)
  have later: "mo_from x \<in> fst ` set (shelf bx (st_disk s)) \<and> mo_from x \<noteq> mo_from m" if "x \<in> set ms'" for x
  proof -
    have "mo_from x \<in> mv (mo_from m) (mo_to m) ` fst ` set (shelf bx (st_disk s))"
      using ih that at1 by auto
    moreover have "mo_from x \<noteq> mo_to m" using cross [of m x] that ms by auto
    ultimately show ?thesis using one(8,9) by (auto simp: mv_def split: if_splits)
  qed
  have tos: "mo_to x \<notin> fst ` set (shelf bx (st_disk s))" if "x \<in> set ms'" for x
  proof
    assume a: "mo_to x \<in> fst ` set (shelf bx (st_disk s))"
    have "mo_to x \<noteq> mo_from m" using cross [of x m] that ms by auto
    then have "mv (mo_from m) (mo_to m) (mo_to x) = mo_to x" by (simp add: mv_def)
    then have "mo_to x \<in> fst ` set (shelf bx (st_disk s1))" unfolding at1 using a by (metis imageI)
    then show False using ih that by auto
  qed
  have ids: "mo_database_id m \<notin> set (map mo_database_id ms')"
    using ih one(5) by (auto simp: moved_row_def)
  have froms: "mo_from ` set ms \<subseteq> fst ` set (shelf bx (st_disk s))"
    using one(8) later unfolding ms by (simp add: image_subset_iff)
  have "mo_to x \<notin> fst ` set (shelf bx (st_disk s))" if "x \<in> set ms" for x
    using that one(9) tos unfolding ms by (metis set_ConsD)
  then have targets: "mo_to ` set ms \<inter> fst ` set (shelf bx (st_disk s)) = {}"
    by blast
  have fresh: "mo_database_id ` set ms \<inter> us_database_id ` set (rows_at bx s) = {}"
    using ih one(5,6) unfolding ms by (simp add: image_Un)
  have dist: "distinct (map mo_from ms)"
    using ih later unfolding ms by (simp add: image_iff) metis
  have sh: "shelf bx (st_disk s') = renamed ms (shelf bx (st_disk s))"
    using ih by (simp add: ms one(7))
  show ?case
    using ih one(2-5) ids froms targets fresh dist sh by (simp add: ms)
qed

text \<open>Rolling one user back, and all of them.\<close>

lemma unmigrate_one_step:
  fixes bx :: "('r, 'c) box"
  assumes law: "sqlite_lawful bx" "registry_lawful bx" and ok: "disk_ok (st_disk s)"
    and run: "unmigrate_one bx u s = (Inr m, s')"
  shows "disk_ok (st_disk s')" and "mo_handle m = us_handle u" and "mo_from m = stem_path (us_database_id u)"
    and "mo_to m = stem_path (us_handle u)"
    and "rows_at bx s' = filter (\<lambda>v. us_database_id v \<noteq> us_database_id u) (rows_at bx s)"
    and "shelf bx (st_disk s') = relabel (mo_from m) (mo_to m) (shelf bx (st_disk s))"
proof -
  from run obtain p q x where p: "tenant_db_path_for_id bx (us_database_id u) = Inr p" and q: "tenant_db_path bx (us_handle u) = Inr q"
    and mv: "\<exists>d. relocate bx (us_handle u) p q Reset (st_disk s) = (Inr x, d) \<and> st_disk s' = d"
    and reg: "\<exists>v. kr_unregister bx (st_registry s) (us_database_id u) = Inr (v, st_registry s')"
    and m: "m = \<lparr>mo_handle = us_handle u, mo_database_id = us_database_id u, mo_from = p, mo_to = q\<rparr>"
    by (auto simp: unmigrate_one_def lift_result_def bind_act_def fail_def ret_def query_def on_disk_def
        split: sum.splits prod.splits if_splits)
  then have mv: "relocate bx (us_handle u) p q Reset (st_disk s) = (Inr x, st_disk s')" by blast
  from relocate_outcome [OF ok law(1) path_is_db(2) [OF p] path_is_db(1) [OF q] mv]
  show "disk_ok (st_disk s')" "shelf bx (st_disk s') = relabel (mo_from m) (mo_to m) (shelf bx (st_disk s))"
    by (simp_all add: m)
  show "mo_handle m = us_handle u" "mo_from m = stem_path (us_database_id u)" "mo_to m = stem_path (us_handle u)"
    using path_forms(1) [OF q] path_forms(2) [OF p] by (simp_all add: m stem_path_def)
  show "rows_at bx s' = filter (\<lambda>v. us_database_id v \<noteq> us_database_id u) (rows_at bx s)"
    using reg registry_lawfulD(6) [OF law(2)] by (auto simp: rows_at_def)
qed

lemma unmigrate_all_step:
  fixes bx :: "('r, 'c) box"
  assumes law: "sqlite_lawful bx" "registry_lawful bx"
    and run: "collect (unmigrate_one bx) us s = (Inr ms, s')" and ok: "disk_ok (st_disk s)"
  shows "disk_ok (st_disk s')
    \<and> map mo_from ms = map (stem_path \<circ> us_database_id) us \<and> map mo_to ms = map (stem_path \<circ> us_handle) us
    \<and> rows_at bx s' = filter (\<lambda>v. us_database_id v \<notin> us_database_id ` set us) (rows_at bx s)
    \<and> shelf bx (st_disk s') = renamed ms (shelf bx (st_disk s))"
  using run ok
proof (induction us arbitrary: s ms)
  case Nil
  then show ?case by (simp add: ret_def)
next
  case (Cons u us)
  from collect_InrD [OF Cons.prems(1)] obtain m ms' s1 where
    m: "unmigrate_one bx u s = (Inr m, s1)" and c: "collect (unmigrate_one bx) us s1 = (Inr ms', s')" and ms: "ms = m # ms'"
    by blast
  note one = unmigrate_one_step [OF law Cons.prems(2) m]
  have "rows_at bx s' = filter (\<lambda>v. us_database_id v \<notin> us_database_id ` set (u # us)) (rows_at bx s)"
    using Cons.IH [OF c one(1)] one(5) by (auto intro: filter_cong)
  then show ?case
    using Cons.IH [OF c one(1)] one by (simp add: ms)
qed

lemma mo_of_fun: "map f xs = map g ys \<Longrightarrow> x \<in> set xs \<Longrightarrow> \<exists>y \<in> set ys. f x = g y"
  by (metis imageE image_eqI set_map)

text \<open>Two lists of moves of which one undoes the other.\<close>

lemma renaming_back:
  assumes "distinct (map mo_from ms)" "mo_from ` set ms \<inter> mo_to ` set ms = {}" "distinct (map mo_to ms)"
    and undo: "map mo_from bs = map mo_to ms" "map mo_to bs = map mo_from ms"
    and "p \<notin> mo_to ` set ms"
  shows "renaming bs (renaming ms p) = p"
proof (cases "p \<in> mo_from ` set ms")
  case True
  then obtain m where m: "m \<in> set ms" "p = mo_from m" by auto
  have r: "renaming ms p = mo_to m"
    unfolding m(2) by (rule renaming_moved [OF assms(1) m(1)]) (use assms(2) m in blast)
  obtain i where i: "i < length ms" "ms ! i = m" using m(1) by (metis in_set_conv_nth)
  have len: "length bs = length ms" using undo(1) by (metis length_map)
  let ?b = "bs ! i"
  have b: "?b \<in> set bs" "mo_from ?b = mo_to m" "mo_to ?b = mo_from m"
    using i len undo by (auto simp: list_eq_iff_nth_eq)
  have "set (map mo_from bs) = mo_to ` set ms" unfolding undo(1) by simp
  then have "mo_to ?b \<notin> mo_from ` set bs" unfolding b(3) using assms(2) m(1) by auto
  then have "renaming bs (mo_from ?b) = mo_to ?b"
    using renaming_moved [OF _ b(1)] assms(3) undo(1) by simp
  then show ?thesis using r b m by simp
next
  case False
  have "set (map mo_from bs) = mo_to ` set ms" unfolding undo(1) by simp
  then have "p \<notin> mo_from ` set bs" using assms(6) by simp
  then show ?thesis using False by (simp add: renaming_other)
qed

lemma stems_iff: "h \<in> set (stems_on_disk d) \<longleftrightarrow> present d (stem_path h)"
proof -
  have "h \<in> set (stems_on_disk d) \<longleftrightarrow> (\<exists>x \<in> set (paths_on d). fst x = Tenants_Dir \<and> strip_suffix ''.sqlite'' (snd x) = Some h)"
    by (auto simp: stems_on_disk_def List.map_filter_def image_iff split: option.splits if_splits) force
  also have "\<dots> \<longleftrightarrow> stem_path h \<in> set (paths_on d)"
  proof -
    have "fst x = Tenants_Dir \<and> strip_suffix ''.sqlite'' (snd x) = Some h \<longleftrightarrow> x = stem_path h" for x
      by (cases x) (auto simp: strip_suffix_def ends_with_def stem_path_def, metis append_take_drop_id)
    then show ?thesis by simp
  qed
  finally show ?thesis by (simp add: present_iff)
qed

lemma stem_path_db [simp]: "is_db (stem_path h)"
  by (simp add: stem_path_def)

lemma reg_open_InrD: "registry_lawful bx \<Longrightarrow> reg_open bx s = (Inr (), s1) \<Longrightarrow> st_disk s1 = st_disk s \<and> rows_at bx s1 = rows_at bx s"
  by (cases "kr_open bx (st_registry s)") (auto simp: reg_open_def reg_do_def rows_at_def dest: registry_lawfulD(1))

lemma migratable_outcome:
  fixes bx :: "('r, 'c) box"
  assumes law: "registry_lawful bx" and run: "migratable bx s = (Inr hs, s1)"
  shows "st_disk s1 = st_disk s \<and> rows_at bx s1 = rows_at bx s \<and>
    (if dir_present (st_disk s) Tenants_Dir
     then set hs = {h. present (st_disk s) (stem_path h) \<and> h \<notin> us_database_id ` set (rows_at bx s) \<and> kr_validate_id bx h \<noteq> Inr ()}
     else hs = [])"
proof (cases "dir_present (st_disk s) Tenants_Dir")
  case False
  then show ?thesis using run by (simp add: migratable_def unregistered_def bind_act_def ret_def)
next
  case True
  from run obtain stems where u: "unregistered bx s = (Inr stems, s1)"
    and hs: "hs = filter (\<lambda>stem. case kr_validate_id bx stem of Inl _ \<Rightarrow> True | Inr _ \<Rightarrow> False) stems"
    by (auto simp: migratable_def bind_act_def ret_def split: sum.splits prod.splits)
  from u True obtain users where o: "reg_open bx s = (Inr (), s1)" and l: "kr_list bx (st_registry s1) = Inr users"
    and stems: "set stems = {h \<in> set (stems_on_disk (st_disk s1)). h \<notin> us_database_id ` set users}"
    by (auto simp: unregistered_def bind_act_def ask_def read_tenants_dir_def split: sum.splits prod.splits option.splits)
  have "(case kr_validate_id bx h of Inl _ \<Rightarrow> True | Inr _ \<Rightarrow> False) = (kr_validate_id bx h \<noteq> Inr ())" for h
    by (cases "kr_validate_id bx h") simp_all
  then show ?thesis
    using reg_open_InrD [OF law o] registry_lawfulD(2) [OF law l] True stems hs
    by (auto simp: stems_iff rows_at_def)
qed

lemma migrate_outcome:
  fixes bx :: "('r, 'c) box"
  assumes law: "sqlite_lawful bx" "registry_lawful bx" and ok: "disk_ok (st_disk s)"
    and run: "tenants_migrate bx s = (Inr ms, s')"
  obtains hs where "\<exists>s1. migratable bx s = (Inr hs, s1)"
    and "disk_ok (st_disk s') \<and> map mo_handle ms = hs \<and> list_all migrated ms
    \<and> list_all (\<lambda>m. kr_validate_id bx (mo_database_id m) = Inr ()) ms
    \<and> rows_at bx s' = rows_at bx s @ map moved_row ms
    \<and> distinct (map mo_database_id ms) \<and> mo_database_id ` set ms \<inter> us_database_id ` set (rows_at bx s) = {}
    \<and> shelf bx (st_disk s') = renamed ms (shelf bx (st_disk s))
    \<and> distinct (map mo_from ms) \<and> mo_from ` set ms \<subseteq> fst ` set (shelf bx (st_disk s))
    \<and> mo_to ` set ms \<inter> fst ` set (shelf bx (st_disk s)) = {}"
    and "\<forall>h \<in> set hs. kr_validate_id bx h \<noteq> Inr ()"
proof -
  from run obtain hs s1 s2 where m: "migratable bx s = (Inr hs, s1)" and o: "reg_open bx s1 = (Inr (), s2)"
    and c: "collect (migrate_one bx) hs s2 = (Inr ms, s')"
    by (auto simp: tenants_migrate_def bind_act_def split: sum.splits prod.splits)
  note a = migratable_outcome [OF law(2) m] reg_open_InrD [OF law(2) o]
  have hs: "\<forall>h \<in> set hs. kr_validate_id bx h \<noteq> Inr ()" using a by (auto split: if_splits)
  have "disk_ok (st_disk s2)" using a ok by simp
  from migrate_all_step [OF law hs c this] show thesis
    using a m hs by (intro that) auto
qed

text \<open>The paths a migration leaves never meet the paths it takes.\<close>

lemma migrated_apart:
  assumes "list_all migrated ms" "list_all (\<lambda>m. kr_validate_id bx (mo_database_id m) = Inr ()) ms"
    and "map mo_handle ms = hs" "\<forall>h \<in> set hs. kr_validate_id bx h \<noteq> Inr ()"
  shows "mo_from ` set ms \<inter> mo_to ` set ms = {}"
proof -
  have "mo_from x \<noteq> mo_to y" if "x \<in> set ms" "y \<in> set ms" for x y
  proof -
    have "mo_handle x \<in> set hs" unfolding assms(3) [symmetric] using that by simp
    then have "mo_handle x \<noteq> mo_database_id y" using assms(2,4) that by (auto simp: list_all_iff)
    then show ?thesis using assms(1) that by (simp add: list_all_iff migrated_def)
  qed
  then show ?thesis by blast
qed

section \<open>A sample box\<close>

text \<open>
  A registry as the list of its rows, ids counted up; a checkpoint that appends the log to the file; an
  operating system that refuses to clear the Litestream directory of \<open>bob\<close>.
\<close>

definition sample_id :: "nat \<Rightarrow> string" where
  "sample_id n = CHR ''#'' # show_nat n"

type_synonym sample_registry = "nat \<times> User list"

definition sample_user :: "sample_registry \<Rightarrow> string \<Rightarrow> User" where
  "sample_user r h = \<lparr>us_handle = h, us_database_id = sample_id (fst r), us_state = Active\<rparr>"

definition sample_box :: "(disk \<Rightarrow> fs_op \<Rightarrow> string option) \<Rightarrow> (sample_registry, string) box" where
  "sample_box refuses = \<lparr>
     bx_home = ''/data'', bx_refuses = refuses, bx_leftover = (\<lambda>_ _. []), bx_folder_len = 4096,
     bx_cannot_open = Env ''unable to open database file'',
     bx_checkpoint = (\<lambda>(b, w, s). (Inr 0,
       map_option (\<lambda>x. x @ (case w of Some y \<Rightarrow> y | None \<Rightarrow> [])) b, map_option (\<lambda>_. []) w, s)),
     bx_prepare = (\<lambda>(b, w, s). (Inr (), Some (case b of Some x \<Rightarrow> x | None \<Rightarrow> []), w, s)),
     bx_version = (\<lambda>_. Inr 2), bx_read = (\<lambda>b w. b @ w),
     kr_validate_handle = (\<lambda>h. if h \<noteq> [] \<and> hd h \<noteq> CHR ''#'' then Inr () else Inl (Invalid h)),
     kr_validate_id = (\<lambda>i. if i \<noteq> [] \<and> hd i = CHR ''#'' then Inr () else Inl (Invalid i)),
     kr_open = Inr, kr_rows = snd, kr_list = (\<lambda>r. Inr (snd r)),
     kr_lookup = (\<lambda>r h. Inr (List.find (active_under h) (snd r))),
     kr_find = (\<lambda>r i. Inr (List.find (\<lambda>v. us_database_id v = i) (snd r))),
     kr_insert = (\<lambda>r h. if us_database_id (sample_user r h) \<in> us_database_id ` set (snd r) \<or> list_ex (active_under h) (snd r)
       then Inl (Conflict h) else Inr (sample_user r h, Suc (fst r), snd r @ [sample_user r h])),
     kr_rename = (\<lambda>r a b. Inl (NotFound a)),
     kr_detach = (\<lambda>r h. case List.find (active_under h) (snd r) of None \<Rightarrow> Inl (NotFound h)
       | Some u \<Rightarrow> Inr (u\<lparr>us_state := Detached\<rparr>, fst r, map (\<lambda>v. if active_under h v then v\<lparr>us_state := Detached\<rparr> else v) (snd r))),
     kr_delete = (\<lambda>r i. case List.find (\<lambda>v. us_database_id v = i) (snd r) of None \<Rightarrow> Inl (NotFound i)
       | Some u \<Rightarrow> Inr (u, fst r, filter (\<lambda>v. us_database_id v \<noteq> i) (snd r))),
     kr_unregister = (\<lambda>r i. case List.find (\<lambda>v. us_database_id v = i) (snd r) of None \<Rightarrow> Inl (NotFound i)
       | Some u \<Rightarrow> Inr (u, fst r, filter (\<lambda>v. us_database_id v \<noteq> i) (snd r))),
     kr_commit = (\<lambda>_ _. None)\<rparr>"

definition willing :: "disk \<Rightarrow> fs_op \<Rightarrow> string option" where
  "willing d op = None"

definition unwilling :: "disk \<Rightarrow> fs_op \<Rightarrow> string option" where
  "unwilling d op = (case op of RemoveDirAll p \<Rightarrow> if snd p = ''.bob.sqlite-litestream'' then Some ''busy'' else None | _ \<Rightarrow> None)"

definition sample_disk :: disk where
  "sample_disk = \<lparr>dk_tenants = True, dk_nodes =
     [((Tenants_Dir, ''ann.sqlite''), Bytes ''A''), ((Tenants_Dir, ''ann.sqlite-wal''), Bytes ''a''),
      ((Tenants_Dir, ''bob.sqlite''), Bytes ''B''), ((Tenants_Dir, ''.bob.sqlite-litestream''), Folder [(''txid'', ''7'')]),
      ((Data_Root, ''cy.sqlite''), Bytes ''C'')]\<rparr>"

definition sample_site :: "sample_registry site" where
  "sample_site = \<lparr>st_disk = sample_disk, st_registry = (0, [])\<rparr>"

lemma sample_box_lawful: "sqlite_lawful (sample_box f)" "registry_lawful (sample_box f)"
proof -
  show "sqlite_lawful (sample_box f)" by (simp add: sqlite_lawful_def sample_box_def split: option.splits)
  show "registry_lawful (sample_box f)"
    unfolding registry_lawful_def sample_box_def
    by (auto simp: sample_user_def sample_id_def split: option.splits if_splits)
qed

lemma sample_disk_ok: "disk_ok sample_disk"
  by code_simp

section \<open>Correctness of the migrations\<close>

text \<open>
  C25. No move between the two ways of naming a database loses, overwrites or changes a collection, whatever
  fails on the way. Any sequence of \<open>adopt\<close>, \<open>revert\<close>, \<open>migrate\<close> and \<open>unmigrate\<close>, with any handles,
  each run whatever the one before returned, with file operations and registry commits refused at will,
  leaves the same collections on the box, in the same order of files, committed transactions that were
  still in a write-ahead log included.
\<close>

theorem moves_lose_nothing:
  fixes bx :: "('r, 'c) box"
  assumes "sqlite_lawful bx" and "disk_ok (st_disk s)"
  shows "collections bx (st_disk (run_moves bx ms s)) = collections bx (st_disk s) \<and> disk_ok (st_disk (run_moves bx ms s))"
  using assms(2) run_move_keeps [OF assms(1)]
  unfolding run_moves_def
  by (induction ms arbitrary: s) (auto simp: site_keeps_def)

theorem moves_lose_nothing_witness:
  "collections (sample_box unwilling) sample_disk = [''Aa'', ''B'', ''C''] \<and>
   collections (sample_box unwilling) (st_disk (run_moves (sample_box unwilling) [Migrate, Adopt ''cy'', Unmigrate] sample_site))
     = [''Aa'', ''B'', ''C'']"
proof -
  have "collections (sample_box unwilling) sample_disk = [''Aa'', ''B'', ''C'']" by code_simp
  then show ?thesis
    using moves_lose_nothing [of "sample_box unwilling" sample_site "[Migrate, Adopt ''cy'', Unmigrate]"]
      sample_box_lawful(1) sample_disk_ok by (simp add: sample_site_def)
qed

lemma migrate_then_unmigrate:
  fixes bx :: "('r, 'c) box"
  assumes law: "sqlite_lawful bx" "registry_lawful bx" and ok: "disk_ok (st_disk s)"
    and idle: "list_all (\<lambda>u. us_state u \<noteq> Active) (rows_at bx s)"
    and m: "tenants_migrate bx s = (Inr ms, s')" and u: "tenants_unmigrate bx s' = (Inr (bs, released), s'')"
  shows "shelf bx (st_disk s'') = shelf bx (st_disk s)" "rows_at bx s'' = rows_at bx s" "released = rows_at bx s"
    "map mo_from bs = map mo_to ms" "map mo_to bs = map mo_from ms"
proof -
  from migrate_outcome [OF law ok m] obtain hs where
    o: "disk_ok (st_disk s')" "map mo_handle ms = hs" "list_all migrated ms"
      "list_all (\<lambda>m. kr_validate_id bx (mo_database_id m) = Inr ()) ms"
      "rows_at bx s' = rows_at bx s @ map moved_row ms" "distinct (map mo_database_id ms)"
      "mo_database_id ` set ms \<inter> us_database_id ` set (rows_at bx s) = {}"
      "shelf bx (st_disk s') = renamed ms (shelf bx (st_disk s))" "distinct (map mo_from ms)"
      "mo_to ` set ms \<inter> fst ` set (shelf bx (st_disk s)) = {}"
    and hs: "\<forall>h \<in> set hs. kr_validate_id bx h \<noteq> Inr ()"
    by metis
  from u obtain s1 users where r: "reg_open bx s' = (Inr (), s1)" and l: "kr_list bx (st_registry s1) = Inr users"
    and c: "collect (unmigrate_one bx) (filter (\<lambda>u. us_state u = Active) users) s1 = (Inr bs, s'')"
    and released: "released = filter (\<lambda>u. us_state u \<noteq> Active) users"
    by (auto simp: tenants_unmigrate_def bind_act_def ask_def ret_def split: sum.splits prod.splits)
  note s1 = reg_open_InrD [OF law(2) r]
  have rows: "users = rows_at bx s @ map moved_row ms"
    using registry_lawfulD(2) [OF law(2) l] s1 o(5) by (simp add: rows_at_def)
  have act: "filter (\<lambda>u. us_state u = Active) users = map moved_row ms"
    "filter (\<lambda>u. us_state u \<noteq> Active) users = rows_at bx s"
    using idle by (auto simp: rows list_all_iff filter_empty_conv filter_map comp_def moved_row_def)
  have "disk_ok (st_disk s1)" using s1 o(1) by simp
  note b = unmigrate_all_step [OF law c [unfolded act] this]
  have mig: "\<forall>m \<in> set ms. mo_from m = stem_path (mo_handle m) \<and> mo_to m = stem_path (mo_database_id m)"
    using o(3) by (simp add: list_all_iff migrated_def)
  show bf: "map mo_from bs = map mo_to ms" and bt: "map mo_to bs = map mo_from ms"
    using b mig by (simp_all add: comp_def moved_row_def)
  show "released = rows_at bx s" using released act by simp
  have "rows_at bx s'' = filter (\<lambda>v. us_database_id v \<notin> mo_database_id ` set ms) (rows_at bx s @ map moved_row ms)"
    using b s1 o(5) by (simp add: image_image moved_row_def)
  also have "\<dots> = rows_at bx s"
    using o(7) by (auto simp: filter_empty_conv moved_row_def disjoint_iff intro!: filter_True)
  finally show "rows_at bx s'' = rows_at bx s" .
  have dt: "distinct (map mo_to ms)"
  proof -
    have "map mo_to ms = map stem_path (map mo_database_id ms)" using mig by simp
    then show ?thesis using o(6) by (simp only: distinct_map) (auto simp: inj_on_def)
  qed
  note apart = migrated_apart [OF o(3,4,2) hs]
  have "renaming bs (renaming ms p) = p" if "(p, c) \<in> set (shelf bx (st_disk s))" for p c
    by (rule renaming_back [OF o(9) apart dt bf bt]) (use o(10) that in force)
  then have "renamed bs (renamed ms (shelf bx (st_disk s))) = shelf bx (st_disk s)"
    by (auto simp: renamed_def intro!: map_idI)
  then show "shelf bx (st_disk s'') = shelf bx (st_disk s)"
    using b s1 o(8) by simp
qed

text \<open>
  C28. \<open>unmigrate\<close> undoes \<open>migrate\<close>. On a data directory none of whose users is active yet, if every
  handle-named database is migrated and the migration is then rolled back, every database is back under the
  name it had with the collection it had, the registry holds the rows it held, and the released users that are
  reported are those rows.
\<close>

theorem unmigrate_undoes_migrate:
  fixes bx :: "('r, 'c) box"
  assumes "sqlite_lawful bx" and "registry_lawful bx" and "disk_ok (st_disk s)"
    and "list_all (\<lambda>u. us_state u \<noteq> Active) (rows_at bx s)"
    and "tenants_migrate bx s = (Inr ms, s')" and "tenants_unmigrate bx s' = (Inr (bs, released), s'')"
  shows "shelf bx (st_disk s'') = shelf bx (st_disk s) \<and> rows_at bx s'' = rows_at bx s \<and> released = rows_at bx s
    \<and> map (\<lambda>m. (mo_to m, mo_from m)) bs = map (\<lambda>m. (mo_from m, mo_to m)) ms"
proof -
  note o = migrate_then_unmigrate [OF assms]
  have "zip (map mo_to bs) (map mo_from bs) = zip (map mo_from ms) (map mo_to ms)" by (simp only: o(4,5))
  then have "map (\<lambda>m. (mo_to m, mo_from m)) bs = map (\<lambda>m. (mo_from m, mo_to m)) ms"
    by (simp add: zip_map_map zip_same_conv_map comp_def)
  then show ?thesis using o(1-3) by blast
qed

theorem unmigrate_undoes_migrate_witness:
  "case tenants_migrate (sample_box willing) sample_site of (Inr ms, s') \<Rightarrow>
     map mo_database_id ms = [''#0'', ''#1''] \<and>
     (case tenants_unmigrate (sample_box willing) s' of (Inr (bs, released), s'') \<Rightarrow>
        shelf (sample_box willing) (st_disk s'') = shelf (sample_box willing) sample_disk \<and> released = []
      | _ \<Rightarrow> False)
   | _ \<Rightarrow> False"
proof -
  obtain ms s' where m: "tenants_migrate (sample_box willing) sample_site = (Inr ms, s')" and ids: "map mo_database_id ms = [''#0'', ''#1'']"
    and u: "\<exists>bs released s''. tenants_unmigrate (sample_box willing) s' = (Inr (bs, released), s'')"
  proof -
    have "case tenants_migrate (sample_box willing) sample_site of (Inr ms, s') \<Rightarrow> map mo_database_id ms = [''#0'', ''#1''] \<and>
       (case tenants_unmigrate (sample_box willing) s' of (Inr _, _) \<Rightarrow> True | _ \<Rightarrow> False) | _ \<Rightarrow> False"
      by code_simp
    moreover obtain r s1 where e: "tenants_migrate (sample_box willing) sample_site = (r, s1)" by force
    moreover obtain q s2 where f: "tenants_unmigrate (sample_box willing) s1 = (q, s2)" by force
    ultimately show thesis using that [of _ s1] by (cases r; cases q) auto
  qed
  then obtain bs released s'' where u: "tenants_unmigrate (sample_box willing) s' = (Inr (bs, released), s'')" by blast
  have "list_all (\<lambda>u. us_state u \<noteq> Active) (rows_at (sample_box willing) sample_site)"
    by (simp add: rows_at_def sample_site_def sample_box_def)
  from unmigrate_undoes_migrate [OF sample_box_lawful _ this m u] show ?thesis
    using sample_disk_ok by (simp add: m u ids) (simp add: sample_site_def sample_box_def rows_at_def)
qed

lemma migrate_leaves_none:
  fixes bx :: "('r, 'c) box"
  assumes law: "sqlite_lawful bx" "registry_lawful bx" and ok: "disk_ok (st_disk s)"
    and m: "tenants_migrate bx s = (Inr ms, s')" and again: "migratable bx s' = (Inr hs', s2)"
  shows "hs' = []"
proof -
  from migrate_outcome [OF law ok m] obtain hs s1 where
    o: "map mo_handle ms = hs" "list_all migrated ms"
      "list_all (\<lambda>m. kr_validate_id bx (mo_database_id m) = Inr ()) ms"
      "rows_at bx s' = rows_at bx s @ map moved_row ms"
      "shelf bx (st_disk s') = renamed ms (shelf bx (st_disk s))" "distinct (map mo_from ms)"
    and hs: "\<forall>h \<in> set hs. kr_validate_id bx h \<noteq> Inr ()" and first: "migratable bx s = (Inr hs, s1)"
    by metis
  note a = migratable_outcome [OF law(2) first] and b = migratable_outcome [OF law(2) again]
  have mig: "mo_from m = stem_path (mo_handle m)" "mo_to m = stem_path (mo_database_id m)" if "m \<in> set ms" for m
    using o(2) that by (simp_all add: list_all_iff migrated_def)
  have none: "\<not> (present (st_disk s') (stem_path h) \<and> h \<notin> us_database_id ` set (rows_at bx s') \<and> kr_validate_id bx h \<noteq> Inr ())"
    if dir: "dir_present (st_disk s) Tenants_Dir" for h
  proof
    assume h: "present (st_disk s') (stem_path h) \<and> h \<notin> us_database_id ` set (rows_at bx s') \<and> kr_validate_id bx h \<noteq> Inr ()"
    have "stem_path h \<in> fst ` set (shelf bx (st_disk s'))" using h by (simp add: fst_shelf)
    then obtain p where p: "p \<in> fst ` set (shelf bx (st_disk s))" "stem_path h = renaming ms p"
      unfolding o(5) renamed_def by force
    show False
    proof (cases "p \<in> mo_from ` set ms")
      case True
      then obtain m where mm: "m \<in> set ms" "p = mo_from m" by auto
      have "mo_to m \<notin> mo_from ` set ms" using migrated_apart [OF o(2,3,1) hs] mm(1) by blast
      then have "stem_path h = mo_to m" using renaming_moved [OF o(6) mm(1)] p(2) mm(2) by simp
      then have "h = mo_database_id m" using mig(2) [OF mm(1)] by simp
      then show False using o(3) mm(1) h by (simp add: list_all_iff)
    next
      case False
      then have "p = stem_path h" using p(2) by (simp add: renaming_other)
      then have "present (st_disk s) (stem_path h)" using p(1) unfolding fst_shelf by simp
      moreover have "h \<notin> us_database_id ` set (rows_at bx s)" using h o(4) by (simp add: image_Un)
      ultimately have "h \<in> set hs" using a dir h by simp
      then obtain m where "m \<in> set ms" "h = mo_handle m" unfolding o(1) [symmetric] by auto
      then show False using False mig(1) \<open>p = stem_path h\<close> by auto
    qed
  qed
  have same: "st_disk s' = st_disk s" if "hs = []"
  proof -
    obtain r s2 where opened: "reg_open bx s1 = (r, s2)" by (rule prod.exhaust)
    have "(case r of Inl e \<Rightarrow> (Inl e, s2) | Inr _ \<Rightarrow> (Inr [], s2)) = (Inr ms, s')"
      using m unfolding tenants_migrate_def bind_act_def first that by (simp add: opened ret_def split: sum.splits)
    then have "reg_open bx s1 = (Inr (), s')" by (cases r) (simp_all add: opened)
    from reg_open_InrD [OF law(2) this] a show ?thesis by simp
  qed
  show ?thesis
  proof (cases "dir_present (st_disk s') Tenants_Dir")
    case False
    then show ?thesis using b by simp
  next
    case True
    have dir: "dir_present (st_disk s) Tenants_Dir"
    proof (rule ccontr)
      assume no: "\<not> dir_present (st_disk s) Tenants_Dir"
      then have "hs = []" using a by simp
      then show False using same no True by simp
    qed
    have "set hs' = {h. present (st_disk s') (stem_path h) \<and> h \<notin> us_database_id ` set (rows_at bx s') \<and> kr_validate_id bx h \<noteq> Inr ()}"
      using b True by simp
    also have "\<dots> = {}" by (rule Collect_empty_eq [THEN iffD2, OF allI]) (rule none [OF dir])
    finally show ?thesis by simp
  qed
qed

text \<open>
  A migration that succeeds is complete and needs no second run: every handle-named database it selected
  is now the file of an active registry row of its handle with a fresh id, with the collection it had, no
  database that is not on an id is left, and migrating again moves nothing and changes no file and no row.
\<close>

theorem migrate_is_complete:
  fixes bx :: "('r, 'c) box"
  assumes "sqlite_lawful bx" and "registry_lawful bx" and "disk_ok (st_disk s)"
    and "tenants_migrate bx s = (Inr ms, s')"
  shows "rows_at bx s' = rows_at bx s @ map moved_row ms
    \<and> (\<forall>m \<in> set ms. (mo_to m, collection_at bx (st_disk s) (mo_from m)) \<in> set (shelf bx (st_disk s'))
         \<and> mo_to m = stem_path (mo_database_id m) \<and> mo_from m = stem_path (mo_handle m)
         \<and> \<not> present (st_disk s') (mo_from m))
    \<and> (case tenants_migrate bx s' of (r, s'') \<Rightarrow>
         (r = Inr [] \<or> (\<exists>e. r = Inl e)) \<and> st_disk s'' = st_disk s' \<and> rows_at bx s'' = rows_at bx s')"
proof -
  from migrate_outcome [OF assms] obtain hs where
    o: "map mo_handle ms = hs" "list_all migrated ms" "list_all (\<lambda>m. kr_validate_id bx (mo_database_id m) = Inr ()) ms"
      "rows_at bx s' = rows_at bx s @ map moved_row ms"
      "shelf bx (st_disk s') = renamed ms (shelf bx (st_disk s))" "distinct (map mo_from ms)"
      "mo_from ` set ms \<subseteq> fst ` set (shelf bx (st_disk s))" "mo_to ` set ms \<inter> fst ` set (shelf bx (st_disk s)) = {}"
    and hs: "\<forall>h \<in> set hs. kr_validate_id bx h \<noteq> Inr ()"
    by metis
  note apart = migrated_apart [OF o(2,3,1) hs]
  have each: "(mo_to m, collection_at bx (st_disk s) (mo_from m)) \<in> set (shelf bx (st_disk s'))
         \<and> mo_to m = stem_path (mo_database_id m) \<and> mo_from m = stem_path (mo_handle m)
         \<and> \<not> present (st_disk s') (mo_from m)" if m: "m \<in> set ms" for m
  proof -
    have r: "renaming ms (mo_from m) = mo_to m" using renaming_moved [OF o(6) m] apart m by blast
    have "mo_from m \<in> fst ` set (shelf bx (st_disk s))" using o(7) m by blast
    then have "(mo_from m, collection_at bx (st_disk s) (mo_from m)) \<in> set (shelf bx (st_disk s))"
      by (force simp: shelf_def)
    then have i: "(mo_to m, collection_at bx (st_disk s) (mo_from m)) \<in> set (shelf bx (st_disk s'))"
      unfolding o(5) renamed_def by (force simp: r [symmetric])
    have "mo_from m \<noteq> renaming ms p" if "p \<in> fst ` set (shelf bx (st_disk s))" for p
    proof (cases "p \<in> mo_from ` set ms")
      case True
      then obtain k where "k \<in> set ms" "p = mo_from k" by auto
      then show ?thesis using renaming_moved [OF o(6), of k] apart m by (metis disjoint_iff imageI)
    next
      case False
      then show ?thesis using m by (metis imageI renaming_other)
    qed
    then have "mo_from m \<notin> fst ` set (shelf bx (st_disk s'))"
      unfolding o(5) renamed_def by force
    moreover have "is_db (mo_from m)" using o(2) m by (simp add: list_all_iff migrated_def)
    ultimately have "\<not> present (st_disk s') (mo_from m)" by (simp add: fst_shelf)
    then show ?thesis using i o(2) m by (simp add: list_all_iff migrated_def)
  qed
  obtain r s'' where again: "tenants_migrate bx s' = (r, s'')" by force
  obtain q s1 where g: "migratable bx s' = (q, s1)" by force
  have s1: "st_disk s1 = st_disk s' \<and> rows_at bx s1 = rows_at bx s'"
    using g registry_lawfulD(1) [OF assms(2)]
    by (cases "kr_open bx (st_registry s')")
      (auto simp: migratable_def unregistered_def bind_act_def ret_def ask_def reg_open_def reg_do_def rows_at_def
        split: if_splits sum.splits prod.splits)
  have "(r = Inr [] \<or> (\<exists>e. r = Inl e)) \<and> st_disk s'' = st_disk s' \<and> rows_at bx s'' = rows_at bx s'"
  proof (cases q)
    case (Inl e)
    then show ?thesis using again g s1 by (auto simp: tenants_migrate_def bind_act_def)
  next
    case (Inr hs')
    have "hs' = []" using migrate_leaves_none [OF assms(1-4) g [unfolded Inr]] .
    then show ?thesis
      using again g Inr s1 registry_lawfulD(1) [OF assms(2)]
      by (cases "kr_open bx (st_registry s1)")
        (auto simp: tenants_migrate_def bind_act_def ret_def reg_open_def reg_do_def rows_at_def)
  qed
  moreover have "\<forall>m \<in> set ms. (mo_to m, collection_at bx (st_disk s) (mo_from m)) \<in> set (shelf bx (st_disk s'))
         \<and> mo_to m = stem_path (mo_database_id m) \<and> mo_from m = stem_path (mo_handle m)
         \<and> \<not> present (st_disk s') (mo_from m)"
    using each by blast
  ultimately show ?thesis unfolding again prod.case using o(4) by blast
qed

theorem migrate_is_complete_witness:
  "case tenants_migrate (sample_box willing) sample_site of (Inr ms, s') \<Rightarrow>
     map moved_row ms = rows_at (sample_box willing) s' \<and> length ms = 2 \<and> fst (tenants_migrate (sample_box willing) s') = Inr []
   | _ \<Rightarrow> False"
proof -
  obtain ms s' where m: "tenants_migrate (sample_box willing) sample_site = (Inr ms, s')" and n: "length ms = 2"
    and q: "\<exists>ms'. fst (tenants_migrate (sample_box willing) s') = Inr ms'"
  proof -
    have "case tenants_migrate (sample_box willing) sample_site of (Inr ms, s') \<Rightarrow> length ms = 2 \<and>
       (case fst (tenants_migrate (sample_box willing) s') of Inr _ \<Rightarrow> True | _ \<Rightarrow> False) | _ \<Rightarrow> False"
      by code_simp
    moreover obtain r s1 where e: "tenants_migrate (sample_box willing) sample_site = (r, s1)" by force
    moreover obtain q where f: "fst (tenants_migrate (sample_box willing) s1) = q" by force
    ultimately show thesis using that [of _ s1] by (cases r; cases q) auto
  qed
  have ok: "disk_ok (st_disk sample_site)" using sample_disk_ok by (simp add: sample_site_def)
  have "rows_at (sample_box willing) sample_site = []" by (simp add: rows_at_def sample_site_def sample_box_def)
  then show ?thesis
    using migrate_is_complete [OF sample_box_lawful ok m] q by (auto simp: m n split: prod.splits)
qed

end
