(* ===== verification/Spec2Isabelle.thy ===== *)
theory Spec2Isabelle
  imports Card_Number Variant Query_Grammar Import_Csv Repository Value_History Search_Paging
    Printing_Expansion Json_Backup Request_Access Fetch_Policy Derivation
    Csv_Export Tenants
begin

text \<open>
  A verification development for PokeDumpster, a self-hosted manager of Pokemon card collections. It models the
  Rust crates under \<open>src/crates/\<close> that carry its logic and proves what makes them correct. File names
  below are relative to \<open>pkdump-core/src\<close> (core), \<open>pkdump-db/src\<close> (db), \<open>pkdump-ingest/src\<close> (ingest),
  \<open>pkdump-derive/src\<close> (derive) and \<open>pkdump-server/src\<close> (server).

  The program and its parts

  A box serves many tenants. Each tenant owns one SQLite database: copies of cards, sealed products, binders,
  decks, orders, wishes, parked import rows, and an outbox of ownership events that triggers fill. A second,
  shared database is the catalog: sets, cards, printings, variants, products and prices. It is read by every
  tenant, written only by the derivation that runs every night, and attached to each connection, so references
  from a tenant into it are checked by the repositories and not by SQLite. The server decides for a request who
  it is served as and hands the tenant's connection to a repository call. Imports and exports are CSV files, a
  backup is one JSON envelope, and a search is a small query language compiled to SQL.

  Theories and code

  Foundations.
  Prelude: generic lemmas on lists, maps, words and finite searches. Text: Rust strings as UTF-8 byte strings and
  the parameter record \<open>runtime\<close> (Unicode tables outside ASCII, decimal to binary conversion, the csv reader).
  Store: what db uses of SQLite whatever the tables: tables with AUTOINCREMENT ids, actions \<open>dbact\<close> that return a
  result or an error with the database they leave, clocks, transactions; the locale \<open>step_relation\<close> is the
  contract of a relation that survives every composition of actions. Sample and Sample_Codec: a concrete
  environment and a way to write values as text, from which witnesses are built.

  Core. Natural (natural.rs), Card_Number (card.rs), Variant (variant.rs), Query_Lexer and Query_Parser (query/),
  Query_Grammar (what the parser promises), Import_Csv (import/).

  The tenant database. Schema: the record \<open>tdb\<close> holds one table per table of schema_user.sql, \<open>catalog\<close> is the
  attached catalog as the repositories read it; a statement checks constraints, runs foreign-key actions and
  appends the outbox events of its triggers. Journal and Statements: the two contracts \<open>keeps_schema\<close> and
  \<open>journaled\<close>, both interpretations of \<open>step_relation\<close>, discharged for the shared statements. Catalog
  (catalog.rs, prices.rs), Collection and Collection_Audit (collection.rs), Binders (binders.rs), Decks (decks.rs,
  deck_groups.rs), Orders (orders.rs, batches.rs), Wishlist (wishlist.rs, sealed.rs, conditions.rs), User_Prices
  (user_printings.rs, manual_prices.rs), Import_Resolve, Sealed_Import and Import_Commit (import.rs,
  sealed_import.rs), Unresolved (unresolved.rs), Outbox (outbox.rs). Repository is the transition system of all of
  them: \<open>repo_op\<close> has one rule per operation and \<open>reachable\<close> is what any sequence of them reaches, failed
  operations and re-emissions included.

  Reading it. Search_Compile and Search_Paging (search.rs), Value_History (value_history.rs, latest_prices.rs),
  Catalog_Views (search_meta.rs, sets.rs, binder.rs, bundles.rs, cards.rs), Csv_Export (export.rs,
  collectr_export.rs), Json_Backup (json_backup.rs).

  Building the catalog. Shared_Catalog: the record \<open>shared_db\<close> holds the tables of schema_shared.sql the ingest
  writes, with the locale of an upsert. Variant_Tables (variants.rs, sub_type_map.rs, set_aliases.rs,
  catalog_prices.rs), Set_Linking and Product_Import (ingest/tcgcsv.rs), Printing_Expansion (ingest/overrides.rs),
  Catalog_Sources (pokemon_tcg_data.rs, pokemontcg.rs, set_discovery.rs, standalone_promos.rs, symbols.rs,
  coverage.rs), Japan (japan.rs), Fetch_Policy (retry.rs, landing.rs, upstream.rs and the paging of pokemontcg.rs),
  Derivation (derive/lib.rs: the order of all steps, and the landing run whose replay feeds it). Catalog_Growth:
  every step advances the catalog.

  The box. Request_Access (server/access.rs, tenant.rs, oidc.rs and the router in lib.rs), Tenant_Files and Tenants
  (db/tenants.rs, paths.rs): provisioning of tenant databases on an explicit disk with an explicit registry.

  What the lemmas show

  The tenant database: consistency on every reachable state (C1), organising never loses a copy (C6), outcomes of the
  operations on every branch, errors included (C7 to C9, C39). Events: the outbox reduces to the holdings on every
  reachable state, so a consumer of the events never diverges (C2), emission runs and the reduction itself (C3 to
  C5). Imports: matched rows are sound, nothing of a file is lost, parked rows are replayed once (C10 to C14).
  Backup: round trip and all-or-nothing import (C15, C16). Access: which tenant a request is served as, and that
  sign-in fails closed (C17 to C19). Ingest: retry and paging bounds (C20, C21), replay equals live, references
  are kept, a failing upstream costs only its own part (C22 to C24), functional correctness of expansion,
  linking, pricing, synthesis and reconciliation (C26, C27, C29 to C31). Tenants' files: no move between
  layouts loses a collection and a migration can be rolled back (C25, C28). Reads: keyset paging is the search
  (C32), binder pages, missing cards, exports and value history (C33 to C37). Languages and orders: the parser, with
  its lexer, inverts writing (C38), natural comparison is a total preorder (C40).

  Parameters

  Code that is not in the repository is an argument. \<open>runtime\<close>: Unicode tables, float parsing and the csv reader.
  \<open>env\<close>: the attached catalog, both clocks and the rendering of a row as JSON by the outbox triggers. \<open>codec\<close>,
  \<open>json_codec\<close> and \<open>cursor_codec\<close>: serde_json. The repository uses serde_json without its float_roundtrip
  feature, so the laws of these codecs (\<open>json_reader\<close>, \<open>cursor_reader\<close>) promise everything but floats back
  exactly, and a float as some function \<open>rt\<close> of it; the theorems say what follows for any \<open>rt\<close> and what more
  where the floats at hand survive it. \<open>schema_rules\<close>: how SQLite stores a row, its triggers and its
  foreign-key actions when a backup is loaded. \<open>csv_writer\<close>, \<open>arith\<close>: the csv writer, floating-point
  sums and products. \<open>en\<close> of the search: SQLite's evaluation of an expression on a row. \<open>feed\<close> and \<open>upstream\<close>: the
  answers of the upstreams. \<open>box\<close>: the operating system, which may refuse any operation, SQLite's checkpoint,
  and the registry and the identifier validators of the tenancy kernel. The laws used are named predicates
  (\<open>lawful\<close>, \<open>triggers_log\<close>, \<open>sqlite_lawful\<close>, \<open>registry_lawful\<close>, \<open>steady\<close>, \<open>kit_gate\<close> and the like), and every
  property with a hypothesis has a witness with concrete functions for the parameters.

  Bounds and fuel

  The recursive descent of the query parser runs on fuel; \<open>parse\<close> gives it \<open>4 n + 3\<close> for \<open>n\<close> tokens, shown to be
  enough for every input. \<open>walk\<close> follows cursors for at most \<open>n\<close> pages; a walk ends within as many pages as there
  are rows, plus one. The retry loop runs on the policy's attempt budget, the paging loop on a number of pages
  that exceeds the list. Everything else is structural or has a termination proof. Integers of the code are \<open>int\<close>
  with its range checks and wrap-arounds written out where a value can reach them; durations are nanoseconds.

  Simplifications

  Tables are lists in rowid order, and a query without ORDER BY reads them in that order; where SQLite is free to
  choose another (the first of several matches, the order of a floating-point sum) the model's is one of its
  orders. An \<open>f64\<close> is its 64 bits; a NaN that SQLite would store as NULL is kept as it is in the tables of
  copies. Counters of copies and rows in reports (u32 or usize) are unbounded naturals. A handler of the server is its
  identity and the tenant it runs as, not its response body. Error values keep the variant and the message where the
  code formats it itself, and a variant of their own where SQLite would.

  Not modelled

  Connection pragmas, schema migrations and version gates (schema_version.rs, convergence.rs), cloning of a tenant
  database (clone_collection, verify_clone), raw derivation marks (raw_derivation.rs), the bodies of the API
  handlers, the HTTP clients, progress output, image processing, the reconciliation of bundles and search metadata
  from their seed files, the lakehouse over Iceberg and Arrow, the lake jobs, shipping and erasure of events,
  the reader of value snapshots, and the command line. They are effects of the operating system, of SQLite or of
  services, or are listed as open in the manifest.
\<close>

section \<open>The collection as a whole\<close>

text \<open>
  C1. Whatever operations run, in whatever order and with whatever arguments, failed ones included, and
  however often the outbox is re-emitted, the tenant database stays consistent: ids and unique keys are
  unique, every reference has its target, no copy is in a binder and a deck at once, and the status
  history of every copy starts where it was added, has no gap and ends in its current status.
\<close>

theorem operations_keep_database_consistent:
  assumes "reachable env db"
  shows "schema_ok db \<and> audit_ok db \<and>
    list_all (\<lambda>c. (ce_binder c = None \<or> ce_deck c = None) \<and> ce_status c \<in> set statuses_allowed)
      (tbl_rows (db_collection db))"
proof -
  have "schema_ok db" "audit_ok db" using reachable_keeps [OF assms] by simp_all
  then show ?thesis by (auto simp: schema_ok_def refs_ok_def entry_check_def list_all_iff)
qed

lemma sample_ordered_reachable: "reachable sample_env sample_ordered"
  unfolding sample_ordered_def by (rule reachable.operation [OF reachable.start repo_op.orders_create])

theorem operations_keep_database_consistent_witness:
  "schema_ok sample_ordered \<and> map ce_status (tbl_rows (db_collection sample_ordered)) = [''ordered'', ''ordered'']"
  using operations_keep_database_consistent [OF sample_ordered_reachable] sample_ordered_rows(1) by blast

text \<open>
  C2. The outbox never falls behind: with an SQL clock that does not run backwards, reducing the events
  in the outbox of any reachable database, whatever mixture of trigger events, backfills and redrives
  it is, gives exactly the cards and sealed products the tenant holds.
\<close>

theorem outbox_reconstructs_holdings:
  assumes "reachable env db" "steady env"
  shows "project env (tbl_rows (db_outbox db)) = holdings_of env db"
  using reachable_in_sync [OF assms] by (simp add: in_sync_def)

lemma replicate_mono: "i \<le> j \<Longrightarrow> replicate i (c :: char) \<le> replicate j c"
proof (induction i arbitrary: j)
  case (Suc i)
  then show ?case by (cases j) auto
qed simp

lemma sample_env_steady: "steady sample_env"
  by (simp add: steady_def replicate_mono)

lemma sample_ordered_events: "length (tbl_rows (db_outbox sample_ordered)) = 2"
  by (simp add: sample_ordered_def orders_create_def missing_printing_def insert_order_def order_row_def
      insert_batch_def batch_refs_def order_one_def ordered_copy_def numeral_2_eq_2 run_defs)

theorem outbox_reconstructs_holdings_witness:
  "project sample_env (tbl_rows (db_outbox sample_ordered)) = holdings_of sample_env sample_ordered \<and>
   length (tbl_rows (db_outbox sample_ordered)) = 2"
  using outbox_reconstructs_holdings [OF sample_ordered_reachable sample_env_steady] sample_ordered_events by blast

text \<open>
  C6. Organising never touches what is owned: moving copies and creating, editing, regrouping,
  releasing or deleting binders, decks and deck groups leaves every copy in the collection, in its
  order and with everything but its place unchanged, and leaves the status history and the sealed
  products alone.
\<close>

theorem organising_keeps_copies:
  assumes "organise_op env f"
  shows "map unplaced (tbl_rows (db_collection (f db))) = map unplaced (tbl_rows (db_collection db)) \<and>
     db_status_log (f db) = db_status_log db \<and> db_sealed (f db) = db_sealed db"
  using organise_op_copies [OF assms, of db] by (simp add: same_copies_def)

theorem organising_keeps_copies_witness:
  "map unplaced (tbl_rows (db_collection (after (groups_delete sample_env 1 Decks) sample_grouped))) =
     map unplaced (tbl_rows (db_collection sample_grouped)) \<and>
   length (tbl_rows (db_collection sample_grouped)) = 1"
  using organising_keeps_copies [OF organise_op.groups_delete, of sample_env 1 Decks sample_grouped]
    arg_cong [OF sample_grouped_rows(2), of length]
  by simp

end
